(* ===== verification/Mud_Prelude.thy ===== *)
theory Mud_Prelude
  imports Main "HOL-Library.Word"
begin

unbundle bit_operations_syntax

text \<open>
  Shared vocabulary of the development: the machine integer types of the C code, little-endian
  byte values, the \<open>first match\<close> loop that the peer table searches use, slices of byte
  buffers, and the word lemmas that the component proofs rest on.
\<close>

section \<open>Types\<close>

type_synonym u8 = "8 word"
type_synonym u16 = "16 word"
type_synonym u32 = "32 word"
type_synonym u64 = "64 word"
type_synonym bytes = "u8 list"

named_theorems wire_simps \<open>sizes and layout of wire messages\<close>
named_theorems len_simps \<open>lengths of the byte strings the operations return\<close>

section \<open>Slices\<close>

definition bslice :: "nat \<Rightarrow> nat \<Rightarrow> 'a list \<Rightarrow> 'a list" where
  "bslice off n xs = take n (drop off xs)"

lemma length_bslice [simp, len_simps]: "length (bslice off n xs) = min n (length xs - off)"
  by (simp add: bslice_def)

lemma nth_bslice: "i < n \<Longrightarrow> off + i < length xs \<Longrightarrow> bslice off n xs ! i = xs ! (off + i)"
  by (simp add: bslice_def)

lemma bslice_append_left: "off + n \<le> length xs \<Longrightarrow> bslice off n (xs @ ys) = bslice off n xs"
  by (simp add: bslice_def)

lemma bslice_append_right:
  "length xs \<le> off \<Longrightarrow> bslice off n (xs @ ys) = bslice (off - length xs) n ys"
  by (simp add: bslice_def)

lemma bslice_full: "length xs = n \<Longrightarrow> bslice 0 n xs = xs"
  by (simp add: bslice_def)

lemma bslice_0: "bslice 0 n xs = take n xs"
  by (simp add: bslice_def)

section \<open>Search loops\<close>

text \<open>
  \<open>for (x = 0; x < n; x++) if (P(&a[x])) { result = &a[x]; break; }\<close>: the index of the first
  element that satisfies the test, \<open>None\<close> for a \<open>NULL\<close> result.
\<close>

fun find_index :: "('a \<Rightarrow> bool) \<Rightarrow> 'a list \<Rightarrow> nat option" where
  "find_index P [] = None"
| "find_index P (x # xs) = (if P x then Some 0 else map_option Suc (find_index P xs))"

lemma find_index_SomeD:
  "find_index P xs = Some i \<Longrightarrow> i < length xs \<and> P (xs ! i) \<and> (\<forall>j < i. \<not> P (xs ! j))"
proof (induction xs arbitrary: i)
  case (Cons x xs)
  then show ?case
    by (auto split: if_splits simp: nth_Cons less_Suc_eq_0_disj split: nat.splits)
qed simp

lemma find_index_None_iff: "find_index P xs = None \<longleftrightarrow> (\<forall>x \<in> set xs. \<not> P x)"
  by (induction xs) auto

lemma find_index_Some_iff:
  "find_index P xs = Some i \<longleftrightarrow> i < length xs \<and> P (xs ! i) \<and> (\<forall>j < i. \<not> P (xs ! j))"
proof
  assume r: "i < length xs \<and> P (xs ! i) \<and> (\<forall>j < i. \<not> P (xs ! j))"
  then obtain k where k: "find_index P xs = Some k"
    using find_index_None_iff [of P xs] nth_mem [of i xs] by (cases "find_index P xs") auto
  from find_index_SomeD [OF k] r have "k = i"
    by (meson linorder_neqE_nat)
  with k show "find_index P xs = Some i" by simp
qed (rule find_index_SomeD)

lemma find_index_cong:
  "(\<And>x. x \<in> set xs \<Longrightarrow> P x = Q x) \<Longrightarrow> find_index P xs = find_index Q xs"
  by (induction xs) auto

section \<open>Little-endian values\<close>

fun le_val :: "bytes \<Rightarrow> nat" where
  "le_val [] = 0"
| "le_val (b # bs) = unat b + 256 * le_val bs"

lemma le_val_append: "le_val (xs @ ys) = le_val xs + 256 ^ length xs * le_val ys"
  by (induction xs) (auto simp: algebra_simps)

lemma le_val_less: "le_val bs < 256 ^ length bs"
proof (induction bs)
  case (Cons b bs)
  have "unat b < 256" using unsigned_less [of b] by simp
  with Cons show ?case by simp
qed simp

lemma le_val_replicate_0 [simp]: "le_val (replicate n 0) = 0"
  by (induction n) auto

fun le_bytes :: "nat \<Rightarrow> nat \<Rightarrow> bytes" where
  "le_bytes 0 v = []"
| "le_bytes (Suc n) v = of_nat (v mod 256) # le_bytes n (v div 256)"

lemma length_le_bytes [simp, len_simps]: "length (le_bytes n v) = n"
  by (induction n arbitrary: v) auto

lemma le_val_le_bytes: "le_val (le_bytes n v) = v mod 256 ^ n"
  by (induction n arbitrary: v) (auto simp: unat_of_nat mod_mult2_eq)

lemma le_bytes_le_val: "le_bytes (length bs) (le_val bs) = bs"
proof (induction bs)
  case (Cons b bs)
  have "unat b < 256" using unsigned_less [of b] by simp
  then have "(unat b + 256 * le_val bs) mod 256 = unat b"
    and "(unat b + 256 * le_val bs) div 256 = le_val bs" by simp_all
  with Cons show ?case by simp
qed simp

lemma le_val_inj: "length xs = length ys \<Longrightarrow> le_val xs = le_val ys \<Longrightarrow> xs = ys"
  by (metis le_bytes_le_val)

section \<open>Words\<close>

lemma unat_or_push_bit:
  fixes x y :: "'a::len word"
  assumes "unat x < 2 ^ n" and "unat x + 2 ^ n * unat y < 2 ^ LENGTH('a)"
  shows "unat (x OR push_bit n y) = unat x + 2 ^ n * unat y"
proof -
  have tb: "take_bit n x = x"
    using assms(1) by (simp add: word_unat_eq_iff unsigned_take_bit_eq take_bit_nat_eq_self)
  have disj: "x AND push_bit n y = 0"
  proof (rule bit_eqI)
    fix k
    have "bit x k \<Longrightarrow> k < n" using tb by (metis bit_take_bit_iff)
    then show "bit (x AND push_bit n y) k = bit 0 k" by (auto simp: bit_simps)
  qed
  have "unat (push_bit n y) = take_bit LENGTH('a) (push_bit n (unat y))"
    by (rule unsigned_push_bit_eq)
  also have "push_bit n (unat y) = 2 ^ n * unat y"
    by (simp add: push_bit_eq_mult)
  finally have p: "unat (push_bit n y) = 2 ^ n * unat y"
    using assms(2) by (simp add: take_bit_nat_eq_self)
  have "x + push_bit n y = x OR push_bit n y"
    using disj by (rule disjunctive_add_eq_or)
  then have "unat (x OR push_bit n y) = unat (x + push_bit n y)"
    by simp
  also have "\<dots> = unat x + unat (push_bit n y)"
    using assms(2) p by (simp add: unat_plus_if')
  finally show ?thesis using p by simp
qed

lemma unat_drop_bit: "unat (drop_bit n (v :: 'a::len word)) = unat v div 2 ^ n"
proof -
  have "unat (drop_bit n v) = drop_bit n (take_bit LENGTH('a) (unat v))"
    by (rule unsigned_drop_bit_eq)
  also have "take_bit LENGTH('a) (unat v) = unat v"
    by (simp add: take_bit_nat_eq_self)
  finally show ?thesis by (simp add: drop_bit_eq_div)
qed

lemma unat_u8_less [simp]: "unat (x :: u8) < 256"
  using unsigned_less [of x] by simp

lemma xor_cancel_right [simp]: "(x XOR y) XOR y = (x :: 'a::len word)"
  by (simp add: xor.assoc)

lemma unat_take_bit: "unat (take_bit n (x :: 'a::len word)) = unat x mod 2 ^ n"
proof -
  have "unat (take_bit n x) = take_bit n (unat x)" by (rule unsigned_take_bit_eq)
  then show ?thesis by (simp only: take_bit_eq_mod)
qed

lemma le_val_bslice:
  assumes "off + n \<le> length m"
  shows "le_val (bslice off n m) = le_val m div 256 ^ off mod 256 ^ n"
proof -
  have m: "m = take off m @ bslice off n m @ drop (off + n) m"
    by (simp add: bslice_def) (metis append_take_drop_id add.commute drop_drop)
  have "le_val m = le_val (take off m) + 256 ^ off *
      (le_val (bslice off n m) + 256 ^ n * le_val (drop (off + n) m))"
    using assms by (subst m) (simp add: le_val_append)
  moreover have "le_val (take off m) < 256 ^ off"
    using le_val_less [of "take off m"] assms by simp
  moreover have "le_val (bslice off n m) < 256 ^ n"
    using le_val_less [of "bslice off n m"] assms by simp
  ultimately show ?thesis by simp
qed

lemma unat_add_lt: 
  fixes x y :: "'a::len word"
  assumes "unat x + unat y < 2 ^ LENGTH('a)" shows "unat (x + y) = unat x + unat y"
  using assms by (simp add: unat_add_lem [THEN iffD1])

lemma unat_mult_lt: 
  fixes x y :: "'a::len word"
  assumes "unat x * unat y < 2 ^ LENGTH('a)" shows "unat (x * y) = unat x * unat y"
  using assms by (simp add: unat_word_ariths)

lemma bslice_split: "bslice off (m + n) xs = bslice off m xs @ bslice (off + m) n xs"
  by (simp add: bslice_def take_add add.commute)

lemma le_bytes_mod: "le_bytes n (a + 256 ^ n * b) = le_bytes n a"
proof (induction n arbitrary: a b)
  case (Suc n)
  have "256 ^ Suc n * b = 256 * (256 ^ n * b)" by simp
  then have "(a + 256 ^ Suc n * b) mod 256 = a mod 256" "(a + 256 ^ Suc n * b) div 256 = a div 256 + 256 ^ n * b"
    by (simp_all only: mod_mult_self2 div_mult_self2 rel_simps)
  then show ?case by (simp only: le_bytes.simps Suc)
qed simp

lemma le_bytes_append: "le_bytes (m + n) v = le_bytes m v @ le_bytes n (v div 256 ^ m)"
  by (induction m arbitrary: v) (auto simp: div_mult2_eq)

lemma le_bytes_cong: "v mod 256 ^ n = w mod 256 ^ n \<Longrightarrow> le_bytes n v = le_bytes n w"
  by (metis le_bytes_mod mult_div_mod_eq add.commute)

end
