(* ===== verification/Crypto_Util.thy ===== *)
theory Crypto_Util
  imports Mud_Prelude
begin

text \<open>
  The byte order macros of \<open>common/crypto.h\<close> and the two functions of \<open>common/crypto.c\<close>.
  A pointer argument is the list of bytes it points to; a macro that stores returns the bytes it
  writes, in address order.
\<close>

section \<open>Byte order macros\<close>

definition U8TO32_LITTLE :: "bytes \<Rightarrow> u32" where
  "U8TO32_LITTLE p =
     ucast (p ! 0) OR push_bit 8 (ucast (p ! 1)) OR push_bit 16 (ucast (p ! 2)) OR
     push_bit 24 (ucast (p ! 3))"

definition U8TO64_LITTLE :: "bytes \<Rightarrow> u64" where
  "U8TO64_LITTLE p =
     ucast (p ! 0) OR push_bit 8 (ucast (p ! 1)) OR push_bit 16 (ucast (p ! 2)) OR
     push_bit 24 (ucast (p ! 3)) OR push_bit 32 (ucast (p ! 4)) OR push_bit 40 (ucast (p ! 5)) OR
     push_bit 48 (ucast (p ! 6)) OR push_bit 56 (ucast (p ! 7))"

definition U16TO8_BIG :: "u16 \<Rightarrow> bytes" where
  "U16TO8_BIG v = [ucast (drop_bit 8 v), ucast v]"

definition U32TO8_LITTLE :: "u32 \<Rightarrow> bytes" where
  "U32TO8_LITTLE v =
     [ucast v, ucast (drop_bit 8 v), ucast (drop_bit 16 v), ucast (drop_bit 24 v)]"

definition U32TO8_BIG :: "u32 \<Rightarrow> bytes" where
  "U32TO8_BIG v =
     [ucast (drop_bit 24 v), ucast (drop_bit 16 v), ucast (drop_bit 8 v), ucast v]"

definition U64TO8_LITTLE :: "u64 \<Rightarrow> bytes" where
  "U64TO8_LITTLE v =
     [ucast v, ucast (drop_bit 8 v), ucast (drop_bit 16 v), ucast (drop_bit 24 v),
      ucast (drop_bit 32 v), ucast (drop_bit 40 v), ucast (drop_bit 48 v), ucast (drop_bit 56 v)]"

definition U64TO8_BIG :: "u64 \<Rightarrow> bytes" where
  "U64TO8_BIG v =
     [ucast (drop_bit 56 v), ucast (drop_bit 48 v), ucast (drop_bit 40 v), ucast (drop_bit 32 v),
      ucast (drop_bit 24 v), ucast (drop_bit 16 v), ucast (drop_bit 8 v), ucast v]"

section \<open>crypto.c\<close>

fun crypto_zero :: "nat \<Rightarrow> bytes \<Rightarrow> bytes" where
  "crypto_zero 0 p = p"
| "crypto_zero (Suc len) [] = []"
| "crypto_zero (Suc len) (b # p) = 0 # crypto_zero len p"

text \<open>The loop accumulates every difference and never leaves early.\<close>

fun crypto_equal_loop :: "u8 \<Rightarrow> bytes \<Rightarrow> bytes \<Rightarrow> nat \<Rightarrow> u8" where
  "crypto_equal_loop neq a b 0 = neq"
| "crypto_equal_loop neq (x # a) (y # b) (Suc sz) =
     crypto_equal_loop (neq OR (x XOR y)) a b sz"
| "crypto_equal_loop neq a b (Suc sz) = neq"

definition crypto_equal :: "bytes \<Rightarrow> bytes \<Rightarrow> nat \<Rightarrow> bool" where
  "crypto_equal a b sz = (crypto_equal_loop 0 a b sz = 0)"

section \<open>Lengths and values\<close>

lemma length_stores [simp, len_simps]:
  "length (U16TO8_BIG w) = 2" "length (U32TO8_LITTLE v) = 4" "length (U32TO8_BIG v) = 4"
  "length (U64TO8_LITTLE x) = 8" "length (U64TO8_BIG x) = 8"
  by (simp_all add: U16TO8_BIG_def U32TO8_LITTLE_def U32TO8_BIG_def U64TO8_LITTLE_def
      U64TO8_BIG_def)

lemma length_4_conv: "length p = 4 \<longleftrightarrow> (\<exists>a b c d. p = [a, b, c, d])"
  by (auto simp: length_Suc_conv numeral_eq_Suc)

lemma length_8_conv: "length p = 8 \<longleftrightarrow> (\<exists>a b c d e f g h. p = [a, b, c, d, e, f, g, h])"
  by (auto simp: length_Suc_conv numeral_eq_Suc)

lemma unat_ucast_u8_32 [simp]: "unat (ucast (x :: u8) :: u32) = unat x"
  using unat_u8_less [of x] by (simp add: unsigned_ucast_eq take_bit_nat_eq_self del: unat_u8_less)

lemma unat_ucast_u8_64 [simp]: "unat (ucast (x :: u8) :: u64) = unat x"
  using unat_u8_less [of x] by (simp add: unsigned_ucast_eq take_bit_nat_eq_self del: unat_u8_less)

lemma unat_U8TO32_LITTLE:
  assumes "length p = 4"
  shows "unat (U8TO32_LITTLE p) = le_val p"
proof -
  obtain a b c d where p: "p = [a, b, c, d]" using assms by (auto simp: length_4_conv)
  have l: "unat a < 256" "unat b < 256" "unat c < 256" "unat d < 256" by simp_all
  let ?a = "ucast a :: u32" and ?b = "ucast b :: u32"
  let ?c = "ucast c :: u32" and ?d = "ucast d :: u32"
  have 1: "unat (?a OR push_bit 8 ?b) = unat a + 2 ^ 8 * unat b"
    using unat_or_push_bit [of ?a 8 ?b] l by simp
  have 2: "unat ((?a OR push_bit 8 ?b) OR push_bit 16 ?c)
      = unat a + 2 ^ 8 * unat b + 2 ^ 16 * unat c"
    using unat_or_push_bit [of "?a OR push_bit 8 ?b" 16 ?c] l 1 by simp
  have 3: "unat (((?a OR push_bit 8 ?b) OR push_bit 16 ?c) OR push_bit 24 ?d)
      = unat a + 2 ^ 8 * unat b + 2 ^ 16 * unat c + 2 ^ 24 * unat d"
    using unat_or_push_bit [of "(?a OR push_bit 8 ?b) OR push_bit 16 ?c" 24 ?d] l 2 by simp
  then show ?thesis by (simp add: U8TO32_LITTLE_def p or.assoc)
qed

lemma ucast_u8: "(ucast (v :: 'a::len word) :: u8) = of_nat (unat v)"
  by (simp add: word_unat_eq_iff unsigned_ucast_eq take_bit_eq_mod unat_of_nat)

lemma of_nat_mod_256 [simp]: "(of_nat (n mod 256) :: u8) = of_nat n"
  by (simp add: word_unat_eq_iff unat_of_nat)

lemma le_bytes_4:
  "le_bytes 4 v = [of_nat v, of_nat (v div 2 ^ 8), of_nat (v div 2 ^ 16), of_nat (v div 2 ^ 24)]"
proof -
  have "(4::nat) = Suc (Suc (Suc (Suc 0)))" by simp
  then show ?thesis by (simp only: le_bytes.simps of_nat_mod_256 div_mult2_eq [symmetric]) simp
qed

lemma le_bytes_8:
  "le_bytes 8 v =
     [of_nat v, of_nat (v div 2 ^ 8), of_nat (v div 2 ^ 16), of_nat (v div 2 ^ 24),
      of_nat (v div 2 ^ 32), of_nat (v div 2 ^ 40), of_nat (v div 2 ^ 48), of_nat (v div 2 ^ 56)]"
proof -
  have "(8::nat) = Suc (Suc (Suc (Suc (Suc (Suc (Suc (Suc 0)))))))" by simp
  then show ?thesis by (simp only: le_bytes.simps of_nat_mod_256 div_mult2_eq [symmetric]) simp
qed

lemma U32TO8_LITTLE_bytes: "U32TO8_LITTLE v = le_bytes 4 (unat v)"
  by (simp only: U32TO8_LITTLE_def le_bytes_4 ucast_u8 unat_drop_bit)

lemma U64TO8_LITTLE_bytes: "U64TO8_LITTLE v = le_bytes 8 (unat v)"
  by (simp only: U64TO8_LITTLE_def le_bytes_8 ucast_u8 unat_drop_bit)

lemma U8TO32_U32TO8 [simp]: "U8TO32_LITTLE (U32TO8_LITTLE v) = v"
proof -
  have "unat v < 256 ^ 4" using unsigned_less [of v] by simp
  then have "unat (U8TO32_LITTLE (U32TO8_LITTLE v)) = unat v"
    by (simp add: unat_U8TO32_LITTLE) (simp add: U32TO8_LITTLE_bytes le_val_le_bytes)
  then show ?thesis by (simp add: word_unat_eq_iff)
qed

lemma U32TO8_U8TO32 [simp]: "length p = 4 \<Longrightarrow> U32TO8_LITTLE (U8TO32_LITTLE p) = p"
  using le_bytes_le_val [of p] by (simp add: U32TO8_LITTLE_bytes unat_U8TO32_LITTLE)

lemma unat_U8TO64_LITTLE:
  assumes "length p = 8"
  shows "unat (U8TO64_LITTLE p) = le_val p"
proof -
  obtain a b c d e f g h where p: "p = [a, b, c, d, e, f, g, h]"
    using assms by (auto simp: length_8_conv)
  let ?w = "\<lambda>x. ucast (x :: u8) :: u64"
  have l: "unat a < 256" "unat b < 256" "unat c < 256" "unat d < 256"
    "unat e < 256" "unat f < 256" "unat g < 256" "unat h < 256" by simp_all
  have step: "unat (acc OR push_bit n (?w x)) = v + 2 ^ n * unat x \<and> v + 2 ^ n * unat x < 2 ^ (n + 8)"
    if "unat acc = v" "v < 2 ^ n" "n + 8 \<le> 64" for acc :: u64 and v n x
  proof -
    have "2 ^ n * unat x \<le> 2 ^ n * 255" using unat_u8_less [of x] by (intro mult_le_mono2) linarith
    moreover have "(2 :: nat) ^ (n + 8) = 2 ^ n * 255 + 2 ^ n" by (simp add: power_add)
    ultimately have b: "v + 2 ^ n * unat x < 2 ^ (n + 8)" using that(2) by linarith
    also have "(2 :: nat) ^ (n + 8) \<le> 2 ^ 64" using that(3) by (intro power_increasing) simp_all
    finally show ?thesis using b unat_or_push_bit [of acc n "?w x"] that(1,2) by simp
  qed
  have 0: "unat (?w a) = unat a \<and> unat a < 2 ^ 8" using l(1) by simp
  note 1 = step [OF 0 [THEN conjunct1] 0 [THEN conjunct2], of b, simplified]
  note 2 = step [OF 1 [THEN conjunct1], of 16 c, simplified, OF 1 [THEN conjunct2]]
  note 3 = step [OF 2 [THEN conjunct1], of 24 d, simplified, OF 2 [THEN conjunct2]]
  note 4 = step [OF 3 [THEN conjunct1], of 32 e, simplified, OF 3 [THEN conjunct2]]
  note 5 = step [OF 4 [THEN conjunct1], of 40 f, simplified, OF 4 [THEN conjunct2]]
  note 6 = step [OF 5 [THEN conjunct1], of 48 g, simplified, OF 5 [THEN conjunct2]]
  note 7 = step [OF 6 [THEN conjunct1], of 56 h, simplified, OF 6 [THEN conjunct2]]
  show ?thesis using 7 by (simp add: U8TO64_LITTLE_def p or.assoc)
qed

lemma U8TO64_U64TO8 [simp]: "U8TO64_LITTLE (U64TO8_LITTLE v) = v"
proof -
  have "unat v < 256 ^ 8" using unsigned_less [of v] by simp
  then have "unat (U8TO64_LITTLE (U64TO8_LITTLE v)) = unat v"
    by (simp add: unat_U8TO64_LITTLE) (simp add: U64TO8_LITTLE_bytes le_val_le_bytes)
  then show ?thesis by (simp add: word_unat_eq_iff)
qed

lemma U64TO8_U8TO64 [simp]: "length p = 8 \<Longrightarrow> U64TO8_LITTLE (U8TO64_LITTLE p) = p"
  using le_bytes_le_val [of p] by (simp add: U64TO8_LITTLE_bytes unat_U8TO64_LITTLE)

section \<open>crypto_zero and crypto_equal\<close>

lemma crypto_zero_eq: "len \<le> length p \<Longrightarrow> crypto_zero len p = replicate len 0 @ drop len p"
  by (induction len p rule: crypto_zero.induct) auto

lemma or_xor_eq_0: "n OR (x XOR y) = 0 \<longleftrightarrow> n = 0 \<and> x = (y :: 'a::len word)"
  by (auto simp: bit_eq_iff bit_simps)

lemma crypto_equal_loop_eq_0:
  "sz \<le> length a \<Longrightarrow> sz \<le> length b \<Longrightarrow>
     (crypto_equal_loop neq a b sz = 0) = (neq = 0 \<and> take sz a = take sz b)"
  by (induction neq a b sz rule: crypto_equal_loop.induct) (auto simp: or_xor_eq_0)

lemma crypto_equal_iff:
  "sz \<le> length a \<Longrightarrow> sz \<le> length b \<Longrightarrow> crypto_equal a b sz \<longleftrightarrow> take sz a = take sz b"
  by (simp add: crypto_equal_def crypto_equal_loop_eq_0)

section \<open>Streaming digests\<close>

text \<open>
  The contract of the init/update/final interfaces: the digest of a sequence of updates is the
  digest of the concatenated message. Poly1305 and BLAKE2s provide it; the AEAD construction, the
  MACs and HMAC use it.
\<close>

locale chunked =
  fixes start :: "'k \<Rightarrow> 's" and upd :: "'s \<Rightarrow> bytes \<Rightarrow> 's" and fin :: "'s \<Rightarrow> bytes"
    and digest :: "'k \<Rightarrow> bytes \<Rightarrow> bytes" and valid :: "'k \<Rightarrow> bool"
  assumes stream: "valid k \<Longrightarrow> fin (foldl upd (start k) ms) = digest k (concat ms)"
begin

lemma one: "valid k \<Longrightarrow> fin (upd (start k) a) = digest k a"
  using stream [of k "[a]"] by simp

lemma two: "valid k \<Longrightarrow> fin (upd (upd (start k) a) b) = digest k (a @ b)"
  using stream [of k "[a, b]"] by simp

lemma three: "valid k \<Longrightarrow> fin (upd (upd (upd (start k) a) b) c) = digest k (a @ b @ c)"
  using stream [of k "[a, b, c]"] by simp

lemma six:
  "valid k \<Longrightarrow> fin (upd (upd (upd (upd (upd (upd (start k) a) b) c) d) e) f) =
     digest k (a @ b @ c @ d @ e @ f)"
  using stream [of k "[a, b, c, d, e, f]"] by simp

lemma rechunk:
  "valid k \<Longrightarrow> concat ms = concat ms' \<Longrightarrow>
     fin (foldl upd (start k) ms) = fin (foldl upd (start k) ms')"
  by (simp add: stream)

end

end
