(* ===== verification/Stun_Msg.thy ===== *)
theory Stun_Msg
  imports Crypto_Util "HOL-Library.Monad_Syntax"
begin

text \<open>
  The messages of the STUN client (\<open>linux/mudband_stun_client.c\<close>): building, encoding and parsing. A buffer
  is the list of all its bytes, a pointer into it an offset. \<open>None\<close> is a failed assertion or an access outside
  an array. \<open>uint128_t\<close> is a list of 16 octets.
\<close>

section \<open>Structures\<close>

record stun_addr4 =
  sa_port :: u16
  sa_addr :: u32

record stun_attr_addr4 =
  at_pad :: u8
  at_family :: u8
  at_ipv4 :: stun_addr4

record stun_attr_string =
  str_value :: bytes
  str_size_value :: u16

record stun_attr_unknown =
  unk_attr_type :: "u16 list"
  unk_num_attributes :: u16

record stun_attr_error =
  err_pad :: u16
  err_error_class :: u8
  err_number :: u8
  err_reason :: bytes
  err_size_reason :: u16

record stun_msghdr =
  hdr_msg_type :: u16
  hdr_msg_length :: u16
  hdr_id :: bytes

record stun_msg =
  msg_hdr :: stun_msghdr
  has_mapped_address :: bool
  has_response_address :: bool
  has_change_request :: bool
  has_source_address :: bool
  has_changed_address :: bool
  has_username :: bool
  has_password :: bool
  has_message_integrity :: bool
  has_error_code :: bool
  has_unknown_attributes :: bool
  has_reflected_from :: bool
  has_xor_mapped_address :: bool
  xor_only :: bool
  has_server_name :: bool
  mapped_address :: stun_attr_addr4
  response_address :: stun_attr_addr4
  change_request :: u32
  source_address :: stun_attr_addr4
  changed_address :: stun_attr_addr4
  msg_username :: stun_attr_string
  msg_password :: stun_attr_string
  message_integrity :: bytes
  error_code :: stun_attr_error
  unknown_attributes :: stun_attr_unknown
  reflectedFrom :: stun_attr_addr4
  xor_mapped_address :: stun_attr_addr4
  serverName :: stun_attr_string

text \<open>Structures cleared with \<open>memset\<close>.\<close>

definition addr4_zero :: stun_addr4 where "addr4_zero = \<lparr>sa_port = 0, sa_addr = 0\<rparr>"

definition attr_addr4_zero :: stun_attr_addr4 where
  "attr_addr4_zero = \<lparr>at_pad = 0, at_family = 0, at_ipv4 = addr4_zero\<rparr>"

definition string_zero :: stun_attr_string where
  "string_zero = \<lparr>str_value = replicate 256 0, str_size_value = 0\<rparr>"

definition stun_msg_zero :: stun_msg where
  "stun_msg_zero = \<lparr>msg_hdr = \<lparr>hdr_msg_type = 0, hdr_msg_length = 0, hdr_id = replicate 16 0\<rparr>,
     has_mapped_address = False, has_response_address = False, has_change_request = False,
     has_source_address = False, has_changed_address = False, has_username = False, has_password = False,
     has_message_integrity = False, has_error_code = False, has_unknown_attributes = False,
     has_reflected_from = False, has_xor_mapped_address = False, xor_only = False, has_server_name = False,
     mapped_address = attr_addr4_zero, response_address = attr_addr4_zero, change_request = 0,
     source_address = attr_addr4_zero, changed_address = attr_addr4_zero, msg_username = string_zero,
     msg_password = string_zero, message_integrity = replicate 20 0,
     error_code = \<lparr>err_pad = 0, err_error_class = 0, err_number = 0, err_reason = replicate 256 0, err_size_reason = 0\<rparr>,
     unknown_attributes = \<lparr>unk_attr_type = replicate 8 0, unk_num_attributes = 0\<rparr>,
     reflectedFrom = attr_addr4_zero, xor_mapped_address = attr_addr4_zero, serverName = string_zero\<rparr>"

section \<open>Encoding\<close>

text \<open>The functions that store at a pointer return the bytes they store; \<open>htons\<close> and \<open>htonl\<close> on a
  little-endian machine make the stored bytes big-endian.\<close>

definition stun_encode16 :: "u16 \<Rightarrow> bytes" where "stun_encode16 v = U16TO8_BIG v"
definition stun_encode32 :: "u32 \<Rightarrow> bytes" where "stun_encode32 v = U32TO8_BIG v"

definition stun_encode_attr_address4 :: "u16 \<Rightarrow> stun_attr_addr4 \<Rightarrow> bytes" where
  "stun_encode_attr_address4 type atr = stun_encode16 type @ stun_encode16 8 @ [at_pad atr, 1] @
     stun_encode16 (sa_port (at_ipv4 atr)) @ stun_encode32 (sa_addr (at_ipv4 atr))"

definition stun_encode_attr_changerequest :: "u32 \<Rightarrow> bytes" where
  "stun_encode_attr_changerequest v = stun_encode16 0x0003 @ stun_encode16 4 @ stun_encode32 v"

text \<open>Reading \<open>n\<close> bytes of an array.\<close>

definition arr_read :: "nat \<Rightarrow> nat \<Rightarrow> 'a list \<Rightarrow> 'a list option" where
  "arr_read off n buf = (if off + n \<le> length buf then Some (bslice off n buf) else None)"

definition stun_encode_attr_error :: "stun_attr_error \<Rightarrow> bytes option" where
  "stun_encode_attr_error atr = do {
     reason \<leftarrow> arr_read 0 (unat (err_size_reason atr)) (err_reason atr);
     Some (stun_encode16 0x0009 @ stun_encode16 (6 + err_size_reason atr) @ stun_encode16 (err_pad atr) @
           [err_error_class atr, err_number atr] @ reason) }"

definition stun_encode_attr_unknown :: "stun_attr_unknown \<Rightarrow> bytes option" where
  "stun_encode_attr_unknown atr = do {
     types \<leftarrow> arr_read 0 (unat (unk_num_attributes atr)) (unk_attr_type atr);
     Some (stun_encode16 0x000A @ stun_encode16 (2 + 2 * unk_num_attributes atr) @ concat (map stun_encode16 types)) }"

definition stun_encode_xoronly :: bytes where "stun_encode_xoronly = stun_encode16 0x0021"

definition stun_encode_attr_string :: "u16 \<Rightarrow> stun_attr_string \<Rightarrow> bytes option" where
  "stun_encode_attr_string type atr =
     (if unat (str_size_value atr) mod 4 \<noteq> 0 then None
      else do {
        v \<leftarrow> arr_read 0 (unat (str_size_value atr)) (str_value atr);
        Some (stun_encode16 type @ stun_encode16 (str_size_value atr) @ v) })"

definition opt_attr :: "bool \<Rightarrow> bytes option \<Rightarrow> bytes option" where
  "opt_attr b r = (if b then r else Some [])"

definition encode_attributes :: "stun_msg \<Rightarrow> bytes option" where
  "encode_attributes msg = do {
     a1 \<leftarrow> opt_attr (has_mapped_address msg) (Some (stun_encode_attr_address4 0x0001 (mapped_address msg)));
     a2 \<leftarrow> opt_attr (has_response_address msg) (Some (stun_encode_attr_address4 0x0002 (response_address msg)));
     a3 \<leftarrow> opt_attr (has_change_request msg) (Some (stun_encode_attr_changerequest (change_request msg)));
     a4 \<leftarrow> opt_attr (has_source_address msg) (Some (stun_encode_attr_address4 0x0004 (source_address msg)));
     a5 \<leftarrow> opt_attr (has_changed_address msg) (Some (stun_encode_attr_address4 0x0005 (changed_address msg)));
     a6 \<leftarrow> opt_attr (has_username msg) (stun_encode_attr_string 0x0006 (msg_username msg));
     a7 \<leftarrow> opt_attr (has_password msg) (stun_encode_attr_string 0x0007 (msg_password msg));
     a8 \<leftarrow> opt_attr (has_error_code msg) (stun_encode_attr_error (error_code msg));
     a9 \<leftarrow> opt_attr (has_unknown_attributes msg) (stun_encode_attr_unknown (unknown_attributes msg));
     a10 \<leftarrow> opt_attr (has_reflected_from msg) (Some (stun_encode_attr_address4 0x000B (reflectedFrom msg)));
     a11 \<leftarrow> opt_attr (has_xor_mapped_address msg) (Some (stun_encode_attr_address4 0x8020 (xor_mapped_address msg)));
     a12 \<leftarrow> opt_attr (xor_only msg) (Some stun_encode_xoronly);
     a13 \<leftarrow> opt_attr (has_server_name msg) (stun_encode_attr_string 0x8022 (serverName msg));
     Some (a1 @ a2 @ a3 @ a4 @ a5 @ a6 @ a7 @ a8 @ a9 @ a10 @ a11 @ a12 @ a13) }"

text \<open>There is no check against \<open>buflen\<close>; a longer message leaves the buffer. A password fails an
  assertion.\<close>

definition stun_encodemsg :: "stun_msg \<Rightarrow> nat \<Rightarrow> stun_attr_string \<Rightarrow> bytes option" where
  "stun_encodemsg msg buflen password =
     (if buflen < 20 then None
      else do {
        attrs \<leftarrow> encode_attributes msg;
        if str_size_value password > 0 \<or> 20 + length attrs > buflen then None
        else Some (stun_encode16 (hdr_msg_type (msg_hdr msg)) @ stun_encode16 (of_nat (length attrs)) @
                   hdr_id (msg_hdr msg) @ attrs) })"

text \<open>\<open>rs\<close> are the four values of \<open>rand\<close>.\<close>

definition rand_octets :: "nat \<Rightarrow> bytes" where
  "rand_octets r = map (\<lambda>k. of_nat (r div 2 ^ (8 * k))) [0..<4]"

definition stun_buildreq :: "stun_attr_string \<Rightarrow> bool \<Rightarrow> bool \<Rightarrow> u32 \<Rightarrow> nat list \<Rightarrow> stun_msg" where
  "stun_buildreq username changePort changeIp test_id rs =
     (let octets = concat (map rand_octets rs);
          octets = (if test_id \<noteq> 0 then octets[0 := ucast test_id] else octets);
          msg = stun_msg_zero\<lparr>msg_hdr := \<lparr>hdr_msg_type = 0x0001, hdr_msg_length = 0, hdr_id = octets\<rparr>,
                  has_change_request := True,
                  change_request := (if changeIp then 4 else 0) OR (if changePort then 2 else 0)\<rparr>
      in if str_size_value username > 0 then msg\<lparr>has_username := True, msg_username := username\<rparr> else msg)"

section \<open>Parsing\<close>

definition be16 :: "bytes \<Rightarrow> u16" where
  "be16 p = push_bit 8 (ucast (p ! 0)) OR ucast (p ! 1)"

definition be32 :: "bytes \<Rightarrow> u32" where
  "be32 p = push_bit 24 (ucast (p ! 0)) OR push_bit 16 (ucast (p ! 1)) OR push_bit 8 (ucast (p ! 2)) OR ucast (p ! 3)"

text \<open>A parser of an attribute gets the buffer, the offset of the body and its length; the outer \<open>None\<close>
  is undefined, the inner one the return of -1.\<close>

type_synonym 'a attr_parser = "bytes \<Rightarrow> nat \<Rightarrow> nat \<Rightarrow> 'a option option"

definition stun_parse_attr_address :: "stun_attr_addr4 attr_parser" where
  "stun_parse_attr_address buf body hdrlen =
     (if hdrlen \<noteq> 8 then Some None
      else do {
        p \<leftarrow> arr_read body 8 buf;
        if p ! 1 = 1
        then Some (Some \<lparr>at_pad = p ! 0, at_family = p ! 1,
                         at_ipv4 = \<lparr>sa_port = be16 (bslice 2 2 p), sa_addr = be32 (bslice 4 4 p)\<rparr>\<rparr>)
        else None })"

definition stun_parse_attr_changerequest :: "u32 attr_parser" where
  "stun_parse_attr_changerequest buf body hdrlen =
     (if hdrlen \<noteq> 4 then Some None else do { p \<leftarrow> arr_read body 4 buf; Some (Some (be32 p)) })"

text \<open>\<open>sizeof\<close> of the structure is 262. With a length below 4 the size of the reason wraps around.\<close>

definition stun_parse_attr_error :: "stun_attr_error \<Rightarrow> stun_attr_error attr_parser" where
  "stun_parse_attr_error result buf body hdrlen =
     (if hdrlen \<ge> 262 then Some None
      else do {
        p \<leftarrow> arr_read body 4 buf;
        let size_reason = (of_nat hdrlen - 4 :: u16);
        r \<leftarrow> arr_read (body + 4) (unat size_reason) buf;
        if unat size_reason < length (err_reason result)
        then Some (Some \<lparr>err_pad = be16 (bslice 0 2 p), err_error_class = p ! 2, err_number = p ! 3,
               err_reason = (r @ drop (length r) (err_reason result))[unat size_reason := 0],
               err_size_reason = size_reason\<rparr>)
        else None })"

definition stun_parse_attr_unknown :: "stun_attr_unknown \<Rightarrow> stun_attr_unknown attr_parser" where
  "stun_parse_attr_unknown result buf body hdrlen =
     (if hdrlen \<ge> 18 then Some None
      else if hdrlen mod 4 \<noteq> 0 then Some None
      else do {
        let n = hdrlen div 4;
        p \<leftarrow> arr_read body (2 * n) buf;
        Some (Some \<lparr>unk_attr_type = map (\<lambda>i. be16 (bslice (2 * i) 2 p)) [0..<n] @ drop n (unk_attr_type result),
                    unk_num_attributes = of_nat n\<rparr>) })"

definition stun_parse_attr_string :: "stun_attr_string \<Rightarrow> stun_attr_string attr_parser" where
  "stun_parse_attr_string result buf body hdrlen =
     (if hdrlen \<ge> 256 then Some None
      else if hdrlen mod 4 \<noteq> 0 then Some None
      else do {
        p \<leftarrow> arr_read body hdrlen buf;
        Some (Some \<lparr>str_value = (p @ drop hdrlen (str_value result))[hdrlen := 0], str_size_value = of_nat hdrlen\<rparr>) })"

definition stun_parse_attr_integrity :: "bytes attr_parser" where
  "stun_parse_attr_integrity buf body hdrlen =
     (if hdrlen \<noteq> 20 then Some None else do { p \<leftarrow> arr_read body 20 buf; Some (Some p) })"

text \<open>Storing what a parser returns; the message is kept where it returns -1.\<close>

definition store_attr :: "('a \<Rightarrow> stun_msg \<Rightarrow> stun_msg) \<Rightarrow> 'a option option \<Rightarrow> stun_msg \<Rightarrow> (bool \<times> stun_msg) option" where
  "store_attr f r msg = map_option (\<lambda>r. case r of None \<Rightarrow> (False, msg) | Some v \<Rightarrow> (True, f v msg)) r"

definition parse_attribute :: "bytes \<Rightarrow> nat \<Rightarrow> nat \<Rightarrow> u16 \<Rightarrow> stun_msg \<Rightarrow> (bool \<times> stun_msg) option" where
  "parse_attribute buf body attrLen atrType msg =
     (if atrType = 0x0001 then store_attr (\<lambda>v m. m\<lparr>mapped_address := v, has_mapped_address := True\<rparr>)
        (stun_parse_attr_address buf body attrLen) msg
      else if atrType = 0x0002 then store_attr (\<lambda>v m. m\<lparr>response_address := v, has_response_address := True\<rparr>)
        (stun_parse_attr_address buf body attrLen) msg
      else if atrType = 0x0003 then store_attr (\<lambda>v m. m\<lparr>change_request := v, has_change_request := True\<rparr>)
        (stun_parse_attr_changerequest buf body attrLen) msg
      else if atrType = 0x0004 then store_attr (\<lambda>v m. m\<lparr>source_address := v, has_source_address := True\<rparr>)
        (stun_parse_attr_address buf body attrLen) msg
      else if atrType = 0x0005 then store_attr (\<lambda>v m. m\<lparr>changed_address := v, has_changed_address := True\<rparr>)
        (stun_parse_attr_address buf body attrLen) msg
      else if atrType = 0x0006 then store_attr (\<lambda>v m. m\<lparr>msg_username := v, has_username := True\<rparr>)
        (stun_parse_attr_string (msg_username msg) buf body attrLen) msg
      else if atrType = 0x0007 then store_attr (\<lambda>v m. m\<lparr>msg_password := v, has_password := True\<rparr>)
        (stun_parse_attr_string (msg_password msg) buf body attrLen) msg
      else if atrType = 0x0008 then store_attr (\<lambda>v m. m\<lparr>message_integrity := v, has_message_integrity := True\<rparr>)
        (stun_parse_attr_integrity buf body attrLen) msg
      else if atrType = 0x0009 then store_attr (\<lambda>v m. m\<lparr>error_code := v, has_error_code := True\<rparr>)
        (stun_parse_attr_error (error_code msg) buf body attrLen) msg
      else if atrType = 0x000A then store_attr (\<lambda>v m. m\<lparr>unknown_attributes := v\<rparr>)
        (stun_parse_attr_unknown (unknown_attributes msg) buf body attrLen) (msg\<lparr>has_unknown_attributes := True\<rparr>)
      else if atrType = 0x000B then store_attr (\<lambda>v m. m\<lparr>reflectedFrom := v, has_reflected_from := True\<rparr>)
        (stun_parse_attr_address buf body attrLen) msg
      else if atrType = 0x8020 then store_attr (\<lambda>v m. m\<lparr>xor_mapped_address := v, has_xor_mapped_address := True\<rparr>)
        (stun_parse_attr_address buf body attrLen) msg
      else if atrType = 0x0021 then Some (True, msg\<lparr>xor_only := True\<rparr>)
      else if atrType = 0x8022 then store_attr (\<lambda>v m. m\<lparr>serverName := v, has_server_name := True\<rparr>)
        (stun_parse_attr_string (serverName msg) buf body attrLen) msg
      else Some (\<not> atrType \<le> 0x7FFF, msg))"

text \<open>The loop over the attributes: return value (\<open>False\<close> for -1) and message.\<close>

function parse_loop :: "bytes \<Rightarrow> nat \<Rightarrow> nat \<Rightarrow> stun_msg \<Rightarrow> (bool \<times> stun_msg) option" where
  "parse_loop buf body sz msg =
     (if sz = 0 then Some (True, msg)
      else case arr_read body 4 buf of
        None \<Rightarrow> None
      | Some attr \<Rightarrow>
          let attrLen = unat (be16 (bslice 2 2 attr)); atrType = be16 (bslice 0 2 attr) in
          if attrLen + 4 > sz then Some (False, msg)
          else case parse_attribute buf (body + 4) attrLen atrType msg of
            None \<Rightarrow> None
          | Some (ok, msg) \<Rightarrow>
              if ok then parse_loop buf (body + 4 + attrLen) (sz - 4 - attrLen) msg else Some (False, msg))"
  by pat_completeness auto
termination by (relation "measure (\<lambda>(buf, body, sz, msg). sz)") auto

declare parse_loop.simps [simp del]

text \<open>\<open>msg\<close> is the structure before the call, which is returned for a short buffer; \<open>buflen\<close> is unsigned, so a
  length of -1 is the greatest number.\<close>

definition stun_parsemsg :: "bytes \<Rightarrow> u32 \<Rightarrow> stun_msg \<Rightarrow> (bool \<times> stun_msg) option" where
  "stun_parsemsg buf buflen msg =
     (if unat buflen < 20 then Some (False, msg)
      else do {
        h \<leftarrow> arr_read 0 20 buf;
        let hdr = \<lparr>hdr_msg_type = be16 (bslice 0 2 h), hdr_msg_length = be16 (bslice 2 2 h), hdr_id = bslice 4 16 h\<rparr>;
        let msg = stun_msg_zero\<lparr>msg_hdr := hdr\<rparr>;
        if unat (hdr_msg_length hdr) + 20 \<noteq> unat buflen then Some (False, msg)
        else parse_loop buf 20 (unat (hdr_msg_length hdr)) msg })"


section \<open>Round trip\<close>

lemma be16_encode16 [simp]: "be16 (stun_encode16 v) = v" "be16 (stun_encode16 v @ xs) = v"
  by (rule bit_word_eqI; simp add: be16_def stun_encode16_def U16TO8_BIG_def bit_simps; fastforce)+

lemma be32_encode32 [simp]: "be32 (stun_encode32 v) = v"
proof (rule bit_word_eqI)
  fix n assume "n < LENGTH(32)"
  then consider "n < 8" | "8 \<le> n" "n < 16" | "16 \<le> n" "n < 24" | "24 \<le> n" "n < 32" by fastforce
  then show "bit (be32 (stun_encode32 v)) n = bit v n"
    by cases (auto simp: be32_def stun_encode32_def U32TO8_BIG_def bit_simps)
qed

lemma length_encode [simp, len_simps]: "length (stun_encode16 v) = 2" "length (stun_encode32 w) = 4"
  "length (stun_encode_attr_address4 t a) = 12" "length (stun_encode_attr_changerequest w) = 8"
  by (simp_all add: stun_encode16_def stun_encode32_def stun_encode_attr_address4_def stun_encode_attr_changerequest_def)

lemma arr_read_at: "length xs = n \<Longrightarrow> off = length pre \<Longrightarrow> arr_read off n (pre @ xs @ suf) = Some xs"
  by (simp add: arr_read_def bslice_def)

lemma arr_read_full: "arr_read 0 n xs = Some ys \<longleftrightarrow> n \<le> length xs \<and> ys = take n xs"
  by (auto simp: arr_read_def bslice_def)

text \<open>One attribute of a message.\<close>

lemma parse_loop_attr:
  assumes "length v = n" and "n < 2 ^ 16"
    and "parse_attribute (pre @ (stun_encode16 t @ stun_encode16 (of_nat n) @ v) @ suf) (length pre + 4) n t msg = Some (True, msg')"
  shows "parse_loop (pre @ (stun_encode16 t @ stun_encode16 (of_nat n) @ v) @ suf) (length pre) (4 + n + k) msg =
    parse_loop (pre @ (stun_encode16 t @ stun_encode16 (of_nat n) @ v) @ suf) (length pre + 4 + n) k msg'"
proof -
  let ?h = "stun_encode16 t @ stun_encode16 (of_nat n :: u16)" and ?buf = "pre @ (stun_encode16 t @ stun_encode16 (of_nat n) @ v) @ suf"
  have r: "arr_read (length pre) 4 ?buf = Some ?h" using arr_read_at [of ?h 4 "length pre" pre "v @ suf"] by simp
  have h: "bslice 0 2 ?h = stun_encode16 t" "bslice 2 2 ?h = stun_encode16 (of_nat n)" by (simp_all add: bslice_def)
  have n: "unat (of_nat n :: u16) = n" using assms(2) by (simp add: unat_of_nat)
  show ?thesis by (subst parse_loop.simps) (simp only: r h be16_encode16 n option.case Let_def assms(3) prod.case, simp)
qed


text \<open>The attributes that the client and the servers use: addresses, the change request and strings.\<close>

definition plain_string :: "stun_attr_string \<Rightarrow> bool" where
  "plain_string a \<longleftrightarrow> length (str_value a) = 256 \<and> unat (str_size_value a) < 256 \<and> unat (str_size_value a) mod 4 = 0 \<and>
     drop (unat (str_size_value a)) (str_value a) = replicate (256 - unat (str_size_value a)) 0"

lemma parse_address:
  assumes "at_family a = 1"
  shows "stun_parse_attr_address (pre @ stun_encode_attr_address4 t a @ suf) (length pre + 4) 8 = Some (Some a)"
proof -
  let ?v = "[at_pad a, 1] @ stun_encode16 (sa_port (at_ipv4 a)) @ stun_encode32 (sa_addr (at_ipv4 a))"
  have "arr_read (length pre + 4) 8 (pre @ stun_encode_attr_address4 t a @ suf) = Some ?v"
    using arr_read_at [of ?v 8 "length pre + 4" "pre @ stun_encode16 t @ stun_encode16 8" suf]
    by (simp add: stun_encode_attr_address4_def)
  then show ?thesis using assms by (simp add: stun_parse_attr_address_def bslice_def)
qed

lemma parse_changerequest:
  "stun_parse_attr_changerequest (pre @ stun_encode_attr_changerequest v @ suf) (length pre + 4) 4 = Some (Some v)"
  using arr_read_at [of "stun_encode32 v" 4 "length pre + 4" "pre @ stun_encode16 3 @ stun_encode16 4" suf]
  by (simp add: stun_parse_attr_changerequest_def stun_encode_attr_changerequest_def)

lemma encode_string:
  assumes "plain_string a"
  shows "stun_encode_attr_string t a = Some (stun_encode16 t @ stun_encode16 (of_nat (unat (str_size_value a))) @
      take (unat (str_size_value a)) (str_value a))"
  using assms by (simp add: stun_encode_attr_string_def plain_string_def arr_read_def bslice_def)

lemma parse_string:
  assumes "plain_string a" and "stun_encode_attr_string t a = Some e"
  shows "stun_parse_attr_string string_zero (pre @ e @ suf) (length pre + 4) (unat (str_size_value a)) = Some (Some a)"
proof -
  let ?n = "unat (str_size_value a)" and ?v = "take (unat (str_size_value a)) (str_value a)"
  have p: "length (str_value a) = 256" "?n < 256" "?n mod 4 = 0" "drop ?n (str_value a) = replicate (256 - ?n) 0"
    using assms(1) by (simp_all add: plain_string_def)
  have e: "e = stun_encode16 t @ stun_encode16 (str_size_value a) @ ?v" using assms encode_string by simp
  have r: "arr_read (length pre + 4) ?n (pre @ e @ suf) = Some ?v"
    using arr_read_at [of ?v ?n "length pre + 4" "pre @ stun_encode16 t @ stun_encode16 (str_size_value a)" suf] p by (simp add: e)
  have "?v @ replicate (256 - ?n) 0 = str_value a" using p(4) append_take_drop_id [of ?n "str_value a"] by metis
  moreover have "(str_value a)[?n := 0] = str_value a"
  proof (rule list_update_same_conv [THEN iffD2])
    show "?n < length (str_value a)" using p by simp
    show "str_value a ! ?n = 0" using p nth_drop [of ?n "str_value a" 0] by simp
  qed
  ultimately show ?thesis using p r by (simp add: stun_parse_attr_string_def string_zero_def)
qed


text \<open>What an optional attribute does to the message that is being read.\<close>

definition read_as :: "bytes option \<Rightarrow> (stun_msg \<Rightarrow> stun_msg) \<Rightarrow> stun_msg \<Rightarrow> bool" where
  "read_as a f m \<longleftrightarrow> (\<exists>e. a = Some e \<and> length e \<le> 260 \<and> (\<forall>pre suf k.
     parse_loop (pre @ e @ suf) (length pre) (length e + k) m = parse_loop ((pre @ e) @ suf) (length (pre @ e)) k (f m)))"

lemma read_as_attr:
  assumes "e = stun_encode16 t @ stun_encode16 (of_nat (length v)) @ v" and "length v \<le> 256"
    and "\<And>pre suf. parse_attribute (pre @ e @ suf) (length pre + 4) (length v) t m = Some (True, f m)"
  shows "read_as (Some e) f m"
proof -
  have len: "length e = 4 + length v" by (simp add: assms(1))
  have "parse_loop (pre @ e @ suf) (length pre) (length e + k) m = parse_loop ((pre @ e) @ suf) (length (pre @ e)) k (f m)" for pre suf k
    using parse_loop_attr [of v "length v" pre t suf m "f m" k, folded assms(1)] assms(2,3)
    by (simp only: len append_assoc length_append add.assoc) simp
  then show ?thesis using assms(2) by (auto simp: read_as_def len)
qed

lemma read_as_opt:
  assumes "b \<Longrightarrow> read_as a f m" and "b \<Longrightarrow> g m = f m" and "\<not> b \<Longrightarrow> g m = m"
  shows "read_as (opt_attr b a) g m"
  using assms by (auto simp: read_as_def opt_attr_def)

lemma read_as_none: "\<not> b \<Longrightarrow> read_as (opt_attr b a) (\<lambda>m. m) m"
  by (simp add: read_as_def opt_attr_def)

fun reads :: "(bytes option \<times> (stun_msg \<Rightarrow> stun_msg)) list \<Rightarrow> stun_msg \<Rightarrow> bool" where
  "reads [] m = True"
| "reads ((a, f) # as) m = (read_as a f m \<and> reads as (f m))"

lemma reads_parse:
  assumes "reads as m"
  shows "\<exists>es. map fst as = map Some es \<and> length (concat es) \<le> 260 * length as \<and>
    (\<forall>pre suf. parse_loop (pre @ concat es @ suf) (length pre) (length (concat es)) m = Some (True, fold snd as m))"
  using assms
proof (induction "as" arbitrary: m)
  case Nil
  then show ?case by (intro exI [of _ "[]"]) (simp add: parse_loop.simps)
next
  case (Cons af "as")
  obtain a f where af: "af = (a, f)" by (cases af)
  obtain e where e: "a = Some e" "length e \<le> 260" "\<And>pre suf k.
     parse_loop (pre @ e @ suf) (length pre) (length e + k) m = parse_loop ((pre @ e) @ suf) (length (pre @ e)) k (f m)"
    using Cons.prems af by (auto simp: read_as_def)
  obtain es where es: "map fst as = map Some es" "length (concat es) \<le> 260 * length as"
      "\<And>pre suf. parse_loop (pre @ concat es @ suf) (length pre) (length (concat es)) (f m) = Some (True, fold snd as (f m))"
    using Cons.IH [of "f m"] Cons.prems af by auto
  have "parse_loop (pre @ concat (e # es) @ suf) (length pre) (length (concat (e # es))) m = Some (True, fold snd (af # as) m)" for pre suf
    using e(3) [of pre "concat es @ suf" "length (concat es)"] es(3) [of "pre @ e" suf] af by simp
  then show ?case using e(1,2) es(1,2) af by (intro exI [of _ "e # es"]) simp
qed

lemma read_as_address:
  assumes "at_family a = 1"
    and "\<And>buf body. parse_attribute buf body 8 t m = store_attr f (stun_parse_attr_address buf body 8) m"
  shows "read_as (Some (stun_encode_attr_address4 t a)) (f a) m"
  by (rule read_as_attr [where t = t and v = "[at_pad a, 1] @ stun_encode16 (sa_port (at_ipv4 a)) @ stun_encode32 (sa_addr (at_ipv4 a))"])
    (simp_all add: assms(2) parse_address [OF assms(1)] store_attr_def, simp add: stun_encode_attr_address4_def)

lemma read_as_changerequest:
  "read_as (Some (stun_encode_attr_changerequest v)) (\<lambda>m. m\<lparr>change_request := v, has_change_request := True\<rparr>) m"
  by (rule read_as_attr [where t = 3 and v = "stun_encode32 v"])
    (simp_all add: parse_attribute_def parse_changerequest store_attr_def, simp add: stun_encode_attr_changerequest_def)

lemma read_as_string:
  assumes "plain_string a" and g: "g m = string_zero"
    and "\<And>buf body n. parse_attribute buf body n t m = store_attr f (stun_parse_attr_string (g m) buf body n) m"
  shows "read_as (stun_encode_attr_string t a) (f a) m"
proof -
  let ?n = "unat (str_size_value a)"
  let ?v = "take ?n (str_value a)"
  obtain e where e: "stun_encode_attr_string t a = Some e" "e = stun_encode16 t @ stun_encode16 (of_nat ?n) @ ?v"
    using encode_string [OF assms(1)] by simp
  have l: "length ?v = ?n" "?n < 256" using assms(1) by (simp_all add: plain_string_def)
  have "read_as (Some e) (f a) m"
  proof (rule read_as_attr [where t = t and v = ?v])
    show "parse_attribute (pre @ e @ suf) (length pre + 4) (length ?v) t m = Some (True, f a m)" for pre suf
      unfolding l(1) assms(3) g parse_string [OF assms(1) e(1)] by (simp add: store_attr_def)
  qed (use e l in simp_all)
  then show ?thesis by (simp add: e(1))
qed


definition plain_address :: "bool \<Rightarrow> stun_attr_addr4 \<Rightarrow> bool" where
  "plain_address b a \<longleftrightarrow> (if b then at_family a = 1 else a = attr_addr4_zero)"

definition plain_text :: "bool \<Rightarrow> stun_attr_string \<Rightarrow> bool" where
  "plain_text b a \<longleftrightarrow> (if b then plain_string a else a = string_zero)"

definition plain_msg :: "stun_msg \<Rightarrow> bool" where
  "plain_msg m \<longleftrightarrow> length (hdr_id (msg_hdr m)) = 16 \<and>
     plain_address (has_mapped_address m) (mapped_address m) \<and> plain_address (has_response_address m) (response_address m) \<and>
     (has_change_request m \<or> change_request m = 0) \<and>
     plain_address (has_source_address m) (source_address m) \<and> plain_address (has_changed_address m) (changed_address m) \<and>
     plain_text (has_username m) (msg_username m) \<and> plain_text (has_password m) (msg_password m) \<and>
     plain_address (has_reflected_from m) (reflectedFrom m) \<and> plain_address (has_xor_mapped_address m) (xor_mapped_address m) \<and>
     plain_text (has_server_name m) (serverName m) \<and>
     \<not> has_message_integrity m \<and> message_integrity m = message_integrity stun_msg_zero \<and>
     \<not> has_error_code m \<and> error_code m = error_code stun_msg_zero \<and>
     \<not> has_unknown_attributes m \<and> unknown_attributes m = unknown_attributes stun_msg_zero \<and> \<not> xor_only m"

definition attr_readers :: "stun_msg \<Rightarrow> (bytes option \<times> (stun_msg \<Rightarrow> stun_msg)) list" where
  "attr_readers msg =
    [(opt_attr (has_mapped_address msg) (Some (stun_encode_attr_address4 0x0001 (mapped_address msg))),
        \<lambda>m. m\<lparr>mapped_address := mapped_address msg, has_mapped_address := has_mapped_address msg\<rparr>),
     (opt_attr (has_response_address msg) (Some (stun_encode_attr_address4 0x0002 (response_address msg))),
        \<lambda>m. m\<lparr>response_address := response_address msg, has_response_address := has_response_address msg\<rparr>),
     (opt_attr (has_change_request msg) (Some (stun_encode_attr_changerequest (change_request msg))),
        \<lambda>m. m\<lparr>change_request := change_request msg, has_change_request := has_change_request msg\<rparr>),
     (opt_attr (has_source_address msg) (Some (stun_encode_attr_address4 0x0004 (source_address msg))),
        \<lambda>m. m\<lparr>source_address := source_address msg, has_source_address := has_source_address msg\<rparr>),
     (opt_attr (has_changed_address msg) (Some (stun_encode_attr_address4 0x0005 (changed_address msg))),
        \<lambda>m. m\<lparr>changed_address := changed_address msg, has_changed_address := has_changed_address msg\<rparr>),
     (opt_attr (has_username msg) (stun_encode_attr_string 0x0006 (msg_username msg)),
        \<lambda>m. m\<lparr>msg_username := msg_username msg, has_username := has_username msg\<rparr>),
     (opt_attr (has_password msg) (stun_encode_attr_string 0x0007 (msg_password msg)),
        \<lambda>m. m\<lparr>msg_password := msg_password msg, has_password := has_password msg\<rparr>),
     (opt_attr (has_error_code msg) (stun_encode_attr_error (error_code msg)), \<lambda>m. m),
     (opt_attr (has_unknown_attributes msg) (stun_encode_attr_unknown (unknown_attributes msg)), \<lambda>m. m),
     (opt_attr (has_reflected_from msg) (Some (stun_encode_attr_address4 0x000B (reflectedFrom msg))),
        \<lambda>m. m\<lparr>reflectedFrom := reflectedFrom msg, has_reflected_from := has_reflected_from msg\<rparr>),
     (opt_attr (has_xor_mapped_address msg) (Some (stun_encode_attr_address4 0x8020 (xor_mapped_address msg))),
        \<lambda>m. m\<lparr>xor_mapped_address := xor_mapped_address msg, has_xor_mapped_address := has_xor_mapped_address msg\<rparr>),
     (opt_attr (xor_only msg) (Some stun_encode_xoronly), \<lambda>m. m),
     (opt_attr (has_server_name msg) (stun_encode_attr_string 0x8022 (serverName msg)),
        \<lambda>m. m\<lparr>serverName := serverName msg, has_server_name := has_server_name msg\<rparr>)]"

lemma encode_attributes_concat:
  assumes "map fst (attr_readers msg) = map Some es"
  shows "encode_attributes msg = Some (concat es)"
proof -
  have "length es = 13" using assms map_eq_imp_length_eq [OF assms] by (simp add: attr_readers_def)
  then obtain a1 a2 a3 a4 a5 a6 a7 a8 a9 a10 a11 a12 a13 where "es = [a1, a2, a3, a4, a5, a6, a7, a8, a9, a10, a11, a12, a13]"
    by (auto simp: length_Suc_conv numeral_eq_Suc)
  then show ?thesis using assms by (simp add: attr_readers_def encode_attributes_def)
qed

lemma zero_addr_update:
  "mapped_address m = z \<Longrightarrow> has_mapped_address m = b \<Longrightarrow> m\<lparr>mapped_address := z, has_mapped_address := b\<rparr> = m"
  "response_address m = z \<Longrightarrow> has_response_address m = b \<Longrightarrow> m\<lparr>response_address := z, has_response_address := b\<rparr> = m"
  "change_request m = v \<Longrightarrow> has_change_request m = b \<Longrightarrow> m\<lparr>change_request := v, has_change_request := b\<rparr> = m"
  "source_address m = z \<Longrightarrow> has_source_address m = b \<Longrightarrow> m\<lparr>source_address := z, has_source_address := b\<rparr> = m"
  "changed_address m = z \<Longrightarrow> has_changed_address m = b \<Longrightarrow> m\<lparr>changed_address := z, has_changed_address := b\<rparr> = m"
  "msg_username m = t \<Longrightarrow> has_username m = b \<Longrightarrow> m\<lparr>msg_username := t, has_username := b\<rparr> = m"
  "msg_password m = t \<Longrightarrow> has_password m = b \<Longrightarrow> m\<lparr>msg_password := t, has_password := b\<rparr> = m"
  "reflectedFrom m = z \<Longrightarrow> has_reflected_from m = b \<Longrightarrow> m\<lparr>reflectedFrom := z, has_reflected_from := b\<rparr> = m"
  "xor_mapped_address m = z \<Longrightarrow> has_xor_mapped_address m = b \<Longrightarrow> m\<lparr>xor_mapped_address := z, has_xor_mapped_address := b\<rparr> = m"
  "serverName m = t \<Longrightarrow> has_server_name m = b \<Longrightarrow> m\<lparr>serverName := t, has_server_name := b\<rparr> = m"
  by (cases m; simp)+


text \<open>The reader of each attribute, on a message in which it has not been set.\<close>

lemma read_opt_address:
  assumes "plain_address b a"
    and "\<And>buf body. parse_attribute buf body 8 t m = store_attr f (stun_parse_attr_address buf body 8) m"
    and "\<And>v. g v True m = f v m" and "g attr_addr4_zero False m = m"
  shows "read_as (opt_attr b (Some (stun_encode_attr_address4 t a))) (g a b) m"
  by (rule read_as_opt [where f = "f a"], rule read_as_address)
    (use assms in \<open>auto simp: plain_address_def\<close>)

lemma read_opt_string:
  assumes "plain_text b a" and "h m = string_zero"
    and "\<And>buf body n. parse_attribute buf body n t m = store_attr f (stun_parse_attr_string (h m) buf body n) m"
    and "\<And>v. g v True m = f v m" and "g string_zero False m = m"
  shows "read_as (opt_attr b (stun_encode_attr_string t a)) (g a b) m"
  by (rule read_as_opt [where f = "f a"], rule read_as_string [where g = h])
    (use assms in \<open>auto simp: plain_text_def\<close>)

lemma read_opt_changerequest:
  assumes "b \<or> v = 0" and "change_request m = 0" and "\<not> has_change_request m"
  shows "read_as (opt_attr b (Some (stun_encode_attr_changerequest v))) (\<lambda>m. m\<lparr>change_request := v, has_change_request := b\<rparr>) m"
  by (rule read_as_opt [where f = "\<lambda>m. m\<lparr>change_request := v, has_change_request := True\<rparr>"], rule read_as_changerequest)
    (use assms in \<open>auto simp: zero_addr_update\<close>)

lemma read_addresses:
  "plain_address b a \<Longrightarrow> mapped_address m = attr_addr4_zero \<Longrightarrow> \<not> has_mapped_address m \<Longrightarrow>
    read_as (opt_attr b (Some (stun_encode_attr_address4 0x0001 a))) (\<lambda>m. m\<lparr>mapped_address := a, has_mapped_address := b\<rparr>) m"
  "plain_address b a \<Longrightarrow> response_address m = attr_addr4_zero \<Longrightarrow> \<not> has_response_address m \<Longrightarrow>
    read_as (opt_attr b (Some (stun_encode_attr_address4 0x0002 a))) (\<lambda>m. m\<lparr>response_address := a, has_response_address := b\<rparr>) m"
  "plain_address b a \<Longrightarrow> source_address m = attr_addr4_zero \<Longrightarrow> \<not> has_source_address m \<Longrightarrow>
    read_as (opt_attr b (Some (stun_encode_attr_address4 0x0004 a))) (\<lambda>m. m\<lparr>source_address := a, has_source_address := b\<rparr>) m"
  "plain_address b a \<Longrightarrow> changed_address m = attr_addr4_zero \<Longrightarrow> \<not> has_changed_address m \<Longrightarrow>
    read_as (opt_attr b (Some (stun_encode_attr_address4 0x0005 a))) (\<lambda>m. m\<lparr>changed_address := a, has_changed_address := b\<rparr>) m"
  "plain_address b a \<Longrightarrow> reflectedFrom m = attr_addr4_zero \<Longrightarrow> \<not> has_reflected_from m \<Longrightarrow>
    read_as (opt_attr b (Some (stun_encode_attr_address4 0x000B a))) (\<lambda>m. m\<lparr>reflectedFrom := a, has_reflected_from := b\<rparr>) m"
  "plain_address b a \<Longrightarrow> xor_mapped_address m = attr_addr4_zero \<Longrightarrow> \<not> has_xor_mapped_address m \<Longrightarrow>
    read_as (opt_attr b (Some (stun_encode_attr_address4 0x8020 a))) (\<lambda>m. m\<lparr>xor_mapped_address := a, has_xor_mapped_address := b\<rparr>) m"
  subgoal by (rule read_opt_address [where f = "\<lambda>v m. m\<lparr>mapped_address := v, has_mapped_address := True\<rparr>" and g = "\<lambda>v c m. m\<lparr>mapped_address := v, has_mapped_address := c\<rparr>"])
      (simp_all add: parse_attribute_def zero_addr_update)
  subgoal by (rule read_opt_address [where f = "\<lambda>v m. m\<lparr>response_address := v, has_response_address := True\<rparr>" and g = "\<lambda>v c m. m\<lparr>response_address := v, has_response_address := c\<rparr>"])
      (simp_all add: parse_attribute_def zero_addr_update)
  subgoal by (rule read_opt_address [where f = "\<lambda>v m. m\<lparr>source_address := v, has_source_address := True\<rparr>" and g = "\<lambda>v c m. m\<lparr>source_address := v, has_source_address := c\<rparr>"])
      (simp_all add: parse_attribute_def zero_addr_update)
  subgoal by (rule read_opt_address [where f = "\<lambda>v m. m\<lparr>changed_address := v, has_changed_address := True\<rparr>" and g = "\<lambda>v c m. m\<lparr>changed_address := v, has_changed_address := c\<rparr>"])
      (simp_all add: parse_attribute_def zero_addr_update)
  subgoal by (rule read_opt_address [where f = "\<lambda>v m. m\<lparr>reflectedFrom := v, has_reflected_from := True\<rparr>" and g = "\<lambda>v c m. m\<lparr>reflectedFrom := v, has_reflected_from := c\<rparr>"])
      (simp_all add: parse_attribute_def zero_addr_update)
  subgoal by (rule read_opt_address [where f = "\<lambda>v m. m\<lparr>xor_mapped_address := v, has_xor_mapped_address := True\<rparr>" and g = "\<lambda>v c m. m\<lparr>xor_mapped_address := v, has_xor_mapped_address := c\<rparr>"])
      (simp_all add: parse_attribute_def zero_addr_update)
  done

lemma read_strings:
  "plain_text b a \<Longrightarrow> msg_username m = string_zero \<Longrightarrow> \<not> has_username m \<Longrightarrow>
    read_as (opt_attr b (stun_encode_attr_string 0x0006 a)) (\<lambda>m. m\<lparr>msg_username := a, has_username := b\<rparr>) m"
  "plain_text b a \<Longrightarrow> msg_password m = string_zero \<Longrightarrow> \<not> has_password m \<Longrightarrow>
    read_as (opt_attr b (stun_encode_attr_string 0x0007 a)) (\<lambda>m. m\<lparr>msg_password := a, has_password := b\<rparr>) m"
  "plain_text b a \<Longrightarrow> serverName m = string_zero \<Longrightarrow> \<not> has_server_name m \<Longrightarrow>
    read_as (opt_attr b (stun_encode_attr_string 0x8022 a)) (\<lambda>m. m\<lparr>serverName := a, has_server_name := b\<rparr>) m"
  subgoal by (rule read_opt_string [where h = msg_username and f = "\<lambda>v m. m\<lparr>msg_username := v, has_username := True\<rparr>" and g = "\<lambda>v c m. m\<lparr>msg_username := v, has_username := c\<rparr>"])
      (simp_all add: parse_attribute_def zero_addr_update)
  subgoal by (rule read_opt_string [where h = msg_password and f = "\<lambda>v m. m\<lparr>msg_password := v, has_password := True\<rparr>" and g = "\<lambda>v c m. m\<lparr>msg_password := v, has_password := c\<rparr>"])
      (simp_all add: parse_attribute_def zero_addr_update)
  subgoal by (rule read_opt_string [where h = serverName and f = "\<lambda>v m. m\<lparr>serverName := v, has_server_name := True\<rparr>" and g = "\<lambda>v c m. m\<lparr>serverName := v, has_server_name := c\<rparr>"])
      (simp_all add: parse_attribute_def zero_addr_update)
  done

lemma reads_attributes:
  assumes "plain_msg msg"
  shows "reads (attr_readers msg) (stun_msg_zero\<lparr>msg_hdr := h\<rparr>)"
  unfolding attr_readers_def reads.simps
  by (intro conjI TrueI read_as_none read_addresses read_strings read_opt_changerequest)
    (use assms in \<open>simp_all add: plain_msg_def, simp_all add: stun_msg_zero_def\<close>)

lemma fold_readers:
  assumes "plain_msg msg"
  shows "fold snd (attr_readers msg) (stun_msg_zero\<lparr>msg_hdr := h\<rparr>) = msg\<lparr>msg_hdr := h\<rparr>"
  using assms by (cases msg) (simp add: plain_msg_def attr_readers_def stun_msg_zero_def)

text \<open>The length of an encoded message.\<close>

lemma opt_attr_length:
  "opt_attr b (Some (stun_encode_attr_address4 t a)) = Some e \<Longrightarrow> length e \<le> 12"
  "opt_attr b (Some (stun_encode_attr_changerequest v)) = Some e \<Longrightarrow> length e \<le> 8"
  "plain_text b w \<Longrightarrow> opt_attr b (stun_encode_attr_string t w) = Some e \<Longrightarrow> length e < 260"
  "\<not> b \<Longrightarrow> opt_attr b r = Some e \<Longrightarrow> length e = 0"
  by (auto simp: opt_attr_def plain_text_def encode_string plain_string_def split: if_splits)

lemma encode_attributes_length:
  assumes "plain_msg msg" and "encode_attributes msg = Some attrs"
  shows "length attrs \<le> 860"
proof -
  have p: "plain_text (has_username msg) (msg_username msg)" "plain_text (has_password msg) (msg_password msg)"
      "plain_text (has_server_name msg) (serverName msg)" "\<not> has_error_code msg" "\<not> has_unknown_attributes msg" "\<not> xor_only msg"
    using assms(1) by (simp_all add: plain_msg_def)
  show ?thesis using assms(2) unfolding encode_attributes_def
    by (auto simp: bind_eq_Some_conv dest!: opt_attr_length(1,2) opt_attr_length(3) [OF p(1)] opt_attr_length(3) [OF p(2)]
      opt_attr_length(3) [OF p(3)] opt_attr_length(4) [OF p(4)] opt_attr_length(4) [OF p(5)] opt_attr_length(4) [OF p(6)])
qed

text \<open>A message that is encoded is read back.\<close>

lemma stun_encode_parse:
  assumes "plain_msg msg"
  shows "\<exists>bs. stun_encodemsg msg 2048 string_zero = Some bs \<and> length bs \<le> 880 \<and>
    stun_parsemsg (bs @ rest) (of_nat (length bs)) old =
      Some (True, msg\<lparr>msg_hdr := (msg_hdr msg)\<lparr>hdr_msg_length := of_nat (length bs - 20)\<rparr>\<rparr>)"
proof -
  have ex: "\<exists>es. map fst (attr_readers msg) = map Some es \<and> (\<forall>pre suf. parse_loop (pre @ concat es @ suf) (length pre)
      (length (concat es)) (stun_msg_zero\<lparr>msg_hdr := h\<rparr>) = Some (True, msg\<lparr>msg_hdr := h\<rparr>))" for h
    using reads_parse [OF reads_attributes [OF assms, of h]] fold_readers [OF assms, of h] by auto
  then obtain es where es1: "map fst (attr_readers msg) = map Some es" by blast
  have es2: "parse_loop (pre @ concat es @ suf) (length pre) (length (concat es)) (stun_msg_zero\<lparr>msg_hdr := h\<rparr>) =
      Some (True, msg\<lparr>msg_hdr := h\<rparr>)" for h pre suf
    using ex [of h] by (auto simp: es1 inj_map_eq_map)
  define attrs where "attrs = concat es"
  have enc: "encode_attributes msg = Some attrs" unfolding attrs_def by (rule encode_attributes_concat [OF es1])
  have len: "length attrs \<le> 860" by (rule encode_attributes_length [OF assms enc])
  let ?h = "msg_hdr msg" and ?n = "of_nat (length attrs) :: u16"
  have id16: "length (hdr_id ?h) = 16" using assms by (simp add: plain_msg_def)
  define hdr where "hdr = stun_encode16 (hdr_msg_type ?h) @ stun_encode16 ?n @ hdr_id ?h"
  have hl: "length hdr = 20" by (simp add: hdr_def id16)
  have parts: "bslice 0 2 hdr = stun_encode16 (hdr_msg_type ?h)" "bslice 2 2 hdr = stun_encode16 ?n" "bslice 4 16 hdr = hdr_id ?h"
    by (simp_all add: bslice_def hdr_def id16)
  have n: "unat ?n = length attrs" "unat (of_nat (20 + length attrs) :: u32) = 20 + length attrs"
    using len by (simp add: unat_of_nat, simp add: unat_of_nat del: of_nat_add)
  have "stun_encodemsg msg 2048 string_zero = Some (hdr @ attrs)"
    using len by (simp add: stun_encodemsg_def enc hdr_def string_zero_def)
  moreover have "stun_parsemsg ((hdr @ attrs) @ rest) (of_nat (20 + length attrs)) old =
      Some (True, msg\<lparr>msg_hdr := ?h\<lparr>hdr_msg_length := ?n\<rparr>\<rparr>)"
    using es2 [of hdr rest] arr_read_at [of hdr 20 0 "[]" "attrs @ rest"] hl
    by (simp add: stun_parsemsg_def n parts attrs_def [symmetric] del: of_nat_add)
  ultimately show ?thesis using len hl by (intro exI [of _ "hdr @ attrs"]) (simp del: of_nat_add)
qed

text \<open>
  C25: A message that has any of the address attributes, a change request and texts of a length divisible by
  four is encoded into the 2048-byte buffer, and parsing the encoding (at the front of a buffer) succeeds and
  gives the same message back, with the length of the attributes in its header.
\<close>

theorem stun_message_roundtrip:
  assumes "plain_msg msg"
  shows "\<exists>bs. stun_encodemsg msg 2048 string_zero = Some bs \<and> length bs \<le> 880 \<and>
    stun_parsemsg (bs @ rest) (of_nat (length bs)) old =
      Some (True, msg\<lparr>msg_hdr := (msg_hdr msg)\<lparr>hdr_msg_length := of_nat (length bs - 20)\<rparr>\<rparr>)"
  by (rule stun_encode_parse [OF assms])

definition sample_answer :: stun_msg where
  "sample_answer = stun_msg_zero\<lparr>msg_hdr := \<lparr>hdr_msg_type = 0x0101, hdr_msg_length = 0, hdr_id = 10 # replicate 15 7\<rparr>,
     has_mapped_address := True, mapped_address := \<lparr>at_pad = 0, at_family = 1, at_ipv4 = \<lparr>sa_port = 51820, sa_addr = 0x0A000001\<rparr>\<rparr>,
     has_changed_address := True, changed_address := \<lparr>at_pad = 0, at_family = 1, at_ipv4 = \<lparr>sa_port = 3479, sa_addr = 0x0B000001\<rparr>\<rparr>,
     has_server_name := True, serverName := \<lparr>str_value = [118, 105, 100, 49] @ replicate 252 0, str_size_value = 4\<rparr>\<rparr>"

theorem stun_message_roundtrip_witness:
  "plain_msg sample_answer \<and> (\<exists>bs. stun_encodemsg sample_answer 2048 string_zero = Some bs \<and> length bs \<le> 880 \<and>
    stun_parsemsg (bs @ []) (of_nat (length bs)) stun_msg_zero =
      Some (True, sample_answer\<lparr>msg_hdr := (msg_hdr sample_answer)\<lparr>hdr_msg_length := of_nat (length bs - 20)\<rparr>\<rparr>))"
proof -
  have "plain_msg sample_answer"
    by (simp add: plain_msg_def sample_answer_def stun_msg_zero_def plain_address_def plain_text_def plain_string_def)
  then show ?thesis using stun_message_roundtrip [of sample_answer "[]" stun_msg_zero] by blast
qed

text \<open>The requests of the client are such messages.\<close>

lemma length_rand_octets [simp]: "length (rand_octets r) = 4"
  by (simp add: rand_octets_def)

lemma length_concat_rand: "length (concat (map rand_octets rs)) = 4 * length rs"
  by (induction rs) simp_all

lemma stun_buildreq_plain:
  assumes "length rs = 4" and "str_size_value u = 0 \<or> plain_string u"
  shows "plain_msg (stun_buildreq u cp ci n rs)"
  using assms length_concat_rand [of rs]
  by (auto simp: plain_msg_def stun_buildreq_def Let_def stun_msg_zero_def plain_address_def plain_text_def plain_string_def)

lemma stun_buildreq_id:
  assumes "length rs = 4" and "n \<noteq> 0"
  shows "hdr_id (msg_hdr (stun_buildreq u cp ci n rs)) ! 0 = ucast n"
  using assms length_concat_rand [of rs] by (simp add: stun_buildreq_def Let_def)

section \<open>Undefined behaviour\<close>

lemma error_attr_undefined:
  assumes "hdrlen < 4 \<or> 260 \<le> hdrlen \<and> hdrlen < 262" and "length (err_reason e) = 256"
  shows "stun_parse_attr_error e buf body hdrlen = None"
proof -
  have "hdrlen \<in> {0, 1, 2, 3, 260, 261}" using assms(1) by auto
  then have "\<not> unat (of_nat hdrlen - 4 :: u16) < 256" by (auto simp: unsigned_minus_1_eq_mask mask_eq_exp_minus_1)
  then show ?thesis using assms by (auto simp: stun_parse_attr_error_def bind_eq_None_conv Let_def)
qed

text \<open>
  A datagram of 24 bytes with an empty ERROR-CODE attribute: the size of the reason, 0 - 4, wraps around to
  65532, and the copy of that many bytes leaves the 256-byte array (and the receive buffer).
\<close>

theorem stun_empty_error_code_undefined:
  assumes "length tid = 16"
  shows "stun_parsemsg (stun_encode16 0x0111 @ stun_encode16 4 @ tid @ stun_encode16 9 @ stun_encode16 0 @ rest) 24 old = None"
proof -
  let ?h = "stun_encode16 0x0111 @ stun_encode16 4 @ tid" and ?a = "stun_encode16 9 @ stun_encode16 0"
  let ?b = "?h @ ?a @ rest"
  have h: "arr_read 0 20 ?b = Some ?h" using arr_read_at [of ?h 20 0 "[]" "?a @ rest"] assms by simp
  have a: "arr_read 20 4 ?b = Some ?a" using arr_read_at [of ?a 4 20 ?h rest] assms by simp
  have s: "bslice 0 2 ?h = stun_encode16 0x0111" "bslice 2 2 ?h = stun_encode16 4" "bslice 0 2 ?a = stun_encode16 9"
      "bslice 2 2 ?a = stun_encode16 0" by (simp_all add: bslice_def)
  have "parse_attribute ?b 24 0 9 (stun_msg_zero\<lparr>msg_hdr := g\<rparr>) = None" for g
    by (simp add: parse_attribute_def error_attr_undefined stun_msg_zero_def store_attr_def)
  then have "parse_loop ?b 20 4 (stun_msg_zero\<lparr>msg_hdr := g\<rparr>) = None" for g
    by (subst parse_loop.simps) (simp only: a s option.case Let_def be16_encode16, simp)
  then have "stun_parsemsg ?b 24 old = None"
    by (simp only: stun_parsemsg_def h bind.simps Let_def s be16_encode16) simp
  then show ?thesis by simp
qed

theorem stun_empty_error_code_undefined_witness:
  "length (replicate 16 (0 :: u8)) = 16 \<and>
   stun_parsemsg (stun_encode16 0x0111 @ stun_encode16 4 @ replicate 16 0 @ stun_encode16 9 @ stun_encode16 0 @ replicate 2024 0)
     24 stun_msg_zero = None"
  using stun_empty_error_code_undefined [of "replicate 16 0" "replicate 2024 0" stun_msg_zero] by simp

end
