(* ===== verification/Mqtt_Packet.thy ===== *)
theory Mqtt_Packet
  imports Stun_Msg
begin

text \<open>
  The packets of the MQTT client (\<open>linux/mudband_mqtt.c\<close>): packing requests and unpacking responses. A function
  that packs into a buffer gives its return value (an error, or the number of bytes, which is 0 when the buffer is too
  small) and the bytes that it writes at the front of the buffer. A function that unpacks gets the bytes of the
  buffer; \<open>None\<close> is a read outside of it or arithmetic on pointers that leaves it.
\<close>

section \<open>Constants\<close>

text \<open>\<open>MQTT_ZERO\<close> is the value 0 of a client that was cleared; the errors are the negative values.\<close>

datatype mqtt_error = MQTT_ZERO | MQTT_OK | MQTT_ERROR_UNKNOWN | MQTT_ERROR_NULLPTR | MQTT_ERROR_CONTROL_FORBIDDEN_TYPE
  | MQTT_ERROR_CONTROL_INVALID_FLAGS | MQTT_ERROR_CONTROL_WRONG_TYPE | MQTT_ERROR_CONNECT_CLIENT_ID_REFUSED
  | MQTT_ERROR_CONNECT_NULL_WILL_MESSAGE | MQTT_ERROR_CONNECT_FORBIDDEN_WILL_QOS | MQTT_ERROR_CONNACK_FORBIDDEN_FLAGS
  | MQTT_ERROR_CONNACK_FORBIDDEN_CODE | MQTT_ERROR_PUBLISH_FORBIDDEN_QOS | MQTT_ERROR_SUBSCRIBE_TOO_MANY_TOPICS
  | MQTT_ERROR_MALFORMED_RESPONSE | MQTT_ERROR_UNSUBSCRIBE_TOO_MANY_TOPICS | MQTT_ERROR_RESPONSE_INVALID_CONTROL_TYPE
  | MQTT_ERROR_CONNECT_NOT_CALLED | MQTT_ERROR_SEND_BUFFER_IS_FULL | MQTT_ERROR_SOCKET_ERROR | MQTT_ERROR_MALFORMED_REQUEST
  | MQTT_ERROR_RECV_BUFFER_TOO_SMALL | MQTT_ERROR_ACK_OF_UNKNOWN | MQTT_ERROR_NOT_IMPLEMENTED | MQTT_ERROR_CONNECTION_REFUSED
  | MQTT_ERROR_SUBSCRIBE_FAILED | MQTT_ERROR_CONNECTION_CLOSED | MQTT_ERROR_INITIAL_RECONNECT
  | MQTT_ERROR_INVALID_REMAINING_LENGTH | MQTT_ERROR_CLEAN_SESSION_IS_REQUIRED | MQTT_ERROR_RECONNECTING

definition negative :: "mqtt_error \<Rightarrow> bool" where
  "negative r \<longleftrightarrow> r \<noteq> MQTT_ZERO \<and> r \<noteq> MQTT_OK"

text \<open>The control types are the numbers 1 to 14.\<close>

type_synonym control_type = u8

abbreviation (input) MQTT_CONTROL_CONNECT :: control_type where "MQTT_CONTROL_CONNECT \<equiv> 1"
abbreviation (input) MQTT_CONTROL_CONNACK :: control_type where "MQTT_CONTROL_CONNACK \<equiv> 2"
abbreviation (input) MQTT_CONTROL_PUBLISH :: control_type where "MQTT_CONTROL_PUBLISH \<equiv> 3"
abbreviation (input) MQTT_CONTROL_PUBACK :: control_type where "MQTT_CONTROL_PUBACK \<equiv> 4"
abbreviation (input) MQTT_CONTROL_PUBREC :: control_type where "MQTT_CONTROL_PUBREC \<equiv> 5"
abbreviation (input) MQTT_CONTROL_PUBREL :: control_type where "MQTT_CONTROL_PUBREL \<equiv> 6"
abbreviation (input) MQTT_CONTROL_PUBCOMP :: control_type where "MQTT_CONTROL_PUBCOMP \<equiv> 7"
abbreviation (input) MQTT_CONTROL_SUBSCRIBE :: control_type where "MQTT_CONTROL_SUBSCRIBE \<equiv> 8"
abbreviation (input) MQTT_CONTROL_SUBACK :: control_type where "MQTT_CONTROL_SUBACK \<equiv> 9"
abbreviation (input) MQTT_CONTROL_UNSUBSCRIBE :: control_type where "MQTT_CONTROL_UNSUBSCRIBE \<equiv> 10"
abbreviation (input) MQTT_CONTROL_UNSUBACK :: control_type where "MQTT_CONTROL_UNSUBACK \<equiv> 11"
abbreviation (input) MQTT_CONTROL_PINGREQ :: control_type where "MQTT_CONTROL_PINGREQ \<equiv> 12"
abbreviation (input) MQTT_CONTROL_PINGRESP :: control_type where "MQTT_CONTROL_PINGRESP \<equiv> 13"
abbreviation (input) MQTT_CONTROL_DISCONNECT :: control_type where "MQTT_CONTROL_DISCONNECT \<equiv> 14"

record mqtt_fixed_header =
  fh_control_type :: control_type
  fh_control_flags :: u8
  fh_remaining_length :: u32

text \<open>The rules: valid types, required flags and the masks of the flags.\<close>

definition control_type_is_valid :: "u8 list" where
  "control_type_is_valid = [0, 1, 1, 1, 1, 1, 1, 1, 1, 1, 1, 1, 1, 1, 1, 0]"

definition required_flags :: "u8 list" where
  "required_flags = [0, 0, 0, 0, 0, 0, 2, 0, 2, 0, 2, 0, 0, 0, 0, 0]"

definition mask_required_flags :: "u8 list" where
  "mask_required_flags = [0, 0xF, 0xF, 0, 0xF, 0xF, 0xF, 0xF, 0xF, 0xF, 0xF, 0xF, 0xF, 0xF, 0xF, 0]"

definition mqtt_fixed_header_rule_violation :: "mqtt_fixed_header \<Rightarrow> mqtt_error option" where
  "mqtt_fixed_header_rule_violation h =
     (let t = unat (fh_control_type h) in
      if control_type_is_valid ! t = 0 then Some MQTT_ERROR_CONTROL_FORBIDDEN_TYPE
      else if (fh_control_flags h XOR required_flags ! t) AND mask_required_flags ! t \<noteq> 0 then Some MQTT_ERROR_CONTROL_INVALID_FLAGS
      else None)"

section \<open>Packing\<close>

type_synonym packed = "(mqtt_error + nat) \<times> bytes"

definition mqtt_pack_uint16 :: "u16 \<Rightarrow> bytes" where "mqtt_pack_uint16 v = U16TO8_BIG v"

text \<open>The length is cut to 16 bits, and only that many characters are stored.\<close>

definition mqtt_pack_str :: "bytes \<Rightarrow> bytes" where
  "mqtt_pack_str str = mqtt_pack_uint16 (of_nat (length str)) @ take (length str mod 2 ^ 16) str"

text \<open>The loop for the remaining length: \<open>bufsz\<close> before the byte is consumed; the bytes written and the space that is
  left behind them.\<close>

fun pack_length :: "nat \<Rightarrow> u32 \<Rightarrow> bytes \<times> nat option" where
  "pack_length 0 rl = ([], None)"
| "pack_length (Suc bufsz) rl =
     (if bufsz = 0 then ([], None)
      else if rl > 127 then (let (bs, r) = pack_length bufsz (drop_bit 7 rl) in ((ucast (rl AND 0x7F) OR 0x80) # bs, r))
      else ([ucast (rl AND 0x7F)], Some (bufsz - 1)))"

definition mqtt_pack_fixed_header :: "nat \<Rightarrow> mqtt_fixed_header \<Rightarrow> packed" where
  "mqtt_pack_fixed_header bufsz h = (case mqtt_fixed_header_rule_violation h of
       Some err \<Rightarrow> (Inl err, [])
     | None \<Rightarrow>
         if bufsz = 0 then (Inr 0, [])
         else let b = (push_bit 4 (fh_control_type h) AND 0xF0) OR (fh_control_flags h AND 0x0F) in
              if fh_remaining_length h \<ge> 256 * 1024 * 1024 then (Inl MQTT_ERROR_INVALID_REMAINING_LENGTH, [b])
              else case pack_length bufsz (fh_remaining_length h) of
                (bs, None) \<Rightarrow> (Inr 0, b # bs)
              | (bs, Some left) \<Rightarrow>
                  (Inr (if left < unat (fh_remaining_length h) then 0 else 1 + length bs), b # bs))"

text \<open>A packet: the fixed header, then \<open>rest\<close> where the buffer has space for the remaining length.\<close>

definition pack_packet :: "nat \<Rightarrow> mqtt_fixed_header \<Rightarrow> bytes \<Rightarrow> packed" where
  "pack_packet bufsz h rest = (case mqtt_pack_fixed_header bufsz h of
       (Inl err, bs) \<Rightarrow> (Inl err, bs)
     | (Inr n, bs) \<Rightarrow>
         if n = 0 then (Inr 0, bs)
         else if bufsz - n < unat (fh_remaining_length h) then (Inr 0, bs)
         else (Inr (n + length rest), bs @ rest))"

text \<open>A will has a topic and a message; \<open>None\<close> is \<open>NULL\<close>. The size of the will message is that of the message given.\<close>

definition connect_flags_of :: "bytes option \<Rightarrow> bytes option \<Rightarrow> bytes option \<Rightarrow> u8 \<Rightarrow> u8" where
  "connect_flags_of will_topic user_name password connect_flags =
     (let f = connect_flags AND NOT 1;
          f = (if will_topic \<noteq> None then f OR 4 else f AND NOT 4 AND NOT 0x18 AND NOT 32);
          f = (if user_name \<noteq> None then f OR 128 else f AND NOT 128)
      in if password \<noteq> None then f OR 64 else f AND NOT 64)"

definition opt_len :: "bytes option \<Rightarrow> nat" where
  "opt_len s = (case s of None \<Rightarrow> 0 | Some x \<Rightarrow> 2 + length x)"

definition opt_str :: "bytes option \<Rightarrow> bytes" where
  "opt_str s = (case s of None \<Rightarrow> [] | Some x \<Rightarrow> mqtt_pack_str x)"

definition mqtt_pack_connection_request ::
  "nat \<Rightarrow> bytes \<Rightarrow> bytes option \<Rightarrow> bytes option \<Rightarrow> bytes option \<Rightarrow> bytes option \<Rightarrow> u8 \<Rightarrow> u16 \<Rightarrow> packed" where
  "mqtt_pack_connection_request bufsz client_id will_topic will_message user_name password connect_flags keep_alive =
     (if client_id = [] \<and> connect_flags AND 2 = 0 then (Inl MQTT_ERROR_CLEAN_SESSION_IS_REQUIRED, [])
      else if will_topic \<noteq> None \<and> will_message = None then (Inl MQTT_ERROR_CONNECT_NULL_WILL_MESSAGE, [])
      else if will_topic \<noteq> None \<and> connect_flags AND 0x18 = 0x18 then (Inl MQTT_ERROR_CONNECT_FORBIDDEN_WILL_QOS, [])
      else let flags = connect_flags_of will_topic user_name password connect_flags;
               will = (case (will_topic, will_message) of (Some t, Some msg) \<Rightarrow> 2 + length t + 2 + length msg | _ \<Rightarrow> 0);
               remaining_length = 10 + (2 + length client_id) + will + opt_len user_name + opt_len password;
               h = \<lparr>fh_control_type = MQTT_CONTROL_CONNECT, fh_control_flags = 0, fh_remaining_length = of_nat remaining_length\<rparr>
           in pack_packet bufsz h ([0, 4, 0x4D, 0x51, 0x54, 0x54, 4, flags] @ mqtt_pack_uint16 keep_alive @ mqtt_pack_str client_id @
                (case (will_topic, will_message) of
                   (Some t, Some msg) \<Rightarrow> mqtt_pack_str t @ mqtt_pack_uint16 (of_nat (length msg)) @ msg | _ \<Rightarrow> []) @
                opt_str user_name @ opt_str password))"

text \<open>The topics with their maximal quality of service; eight are too many.\<close>

definition mqtt_pack_subscribe_request :: "nat \<Rightarrow> u16 \<Rightarrow> (bytes \<times> u8) list \<Rightarrow> packed" where
  "mqtt_pack_subscribe_request bufsz packet_id topics =
     (if length topics \<ge> 8 then (Inl MQTT_ERROR_SUBSCRIBE_TOO_MANY_TOPICS, [])
      else pack_packet bufsz \<lparr>fh_control_type = MQTT_CONTROL_SUBSCRIBE, fh_control_flags = 2,
             fh_remaining_length = of_nat (2 + sum_list (map (\<lambda>(t, q). 2 + length t + 1) topics))\<rparr>
             (mqtt_pack_uint16 packet_id @ concat (map (\<lambda>(t, q). mqtt_pack_str t @ [q]) topics)))"

definition mqtt_pack_pubxxx_request :: "nat \<Rightarrow> control_type \<Rightarrow> u16 \<Rightarrow> packed" where
  "mqtt_pack_pubxxx_request bufsz ctype packet_id = pack_packet bufsz
     \<lparr>fh_control_type = ctype, fh_control_flags = (if ctype = MQTT_CONTROL_PUBREL then 2 else 0), fh_remaining_length = 2\<rparr>
     (mqtt_pack_uint16 packet_id)"

definition mqtt_pack_ping_request :: "nat \<Rightarrow> packed" where
  "mqtt_pack_ping_request bufsz = mqtt_pack_fixed_header bufsz
     \<lparr>fh_control_type = MQTT_CONTROL_PINGREQ, fh_control_flags = 0, fh_remaining_length = 0\<rparr>"

section \<open>Unpacking\<close>

text \<open>The loop for the remaining length, from the byte before on: \<open>Inr 0\<close> with too few bytes, otherwise the value and
  the bytes behind it.\<close>

fun unpack_length :: "bytes \<Rightarrow> nat \<Rightarrow> u32 \<Rightarrow> mqtt_error + (u32 \<times> bytes) option" where
  "unpack_length buf lshift rl =
     (if lshift = 28 then Inl MQTT_ERROR_INVALID_REMAINING_LENGTH
      else case buf of
        [] \<Rightarrow> Inr None
      | b # buf \<Rightarrow>
          let rl = rl + push_bit lshift (ucast (b AND 0x7F)) in
          if b AND 0x80 \<noteq> 0 then unpack_length buf (lshift + 7) rl else Inr (Some (rl, buf)))"

declare unpack_length.simps [simp del]

text \<open>The number of bytes consumed (0: more data is needed), the header and the bytes behind it.\<close>

definition mqtt_unpack_fixed_header :: "bytes \<Rightarrow> mqtt_error + (nat \<times> mqtt_fixed_header \<times> bytes) option" where
  "mqtt_unpack_fixed_header buf = (case buf of
       [] \<Rightarrow> Inr None
     | b # rest \<Rightarrow> (case unpack_length rest 0 0 of
           Inl err \<Rightarrow> Inl err
         | Inr None \<Rightarrow> Inr None
         | Inr (Some (rl, rest)) \<Rightarrow>
             let h = \<lparr>fh_control_type = drop_bit 4 b, fh_control_flags = b AND 0x0F, fh_remaining_length = rl\<rparr> in
             (case mqtt_fixed_header_rule_violation h of
                Some err \<Rightarrow> Inl err
              | None \<Rightarrow> if length rest < unat rl then Inr None else Inr (Some (length buf - length rest, h, rest)))))"

datatype mqtt_response =
    Connack u8 u8
  | Publish u8 u8 u8 bytes u16 bytes
  | Puback u16 | Pubrec u16 | Pubrel u16 | Pubcomp u16
  | Suback u16 bytes
  | Unsuback u16
  | Pingresp

definition mqtt_unpack_connack_response :: "mqtt_fixed_header \<Rightarrow> bytes \<Rightarrow> mqtt_error + mqtt_response" where
  "mqtt_unpack_connack_response h buf =
     (if fh_remaining_length h \<noteq> 2 then Inl MQTT_ERROR_MALFORMED_RESPONSE
      else if buf ! 0 AND 0xFE \<noteq> 0 then Inl MQTT_ERROR_CONNACK_FORBIDDEN_FLAGS
      else if buf ! 1 > 5 then Inl MQTT_ERROR_CONNACK_FORBIDDEN_CODE
      else Inr (Connack (buf ! 0) (buf ! 1)))"

text \<open>\<open>None\<close>: the topic is longer than the packet, so that the pointer to the message and its size leave the buffer.\<close>

definition mqtt_unpack_publish_response :: "mqtt_fixed_header \<Rightarrow> bytes \<Rightarrow> (mqtt_error + mqtt_response) option" where
  "mqtt_unpack_publish_response h buf =
     (let flags = fh_control_flags h; dup = drop_bit 3 (flags AND 8); qos = drop_bit 1 (flags AND 6); retain = flags AND 1;
          rl = unat (fh_remaining_length h) in
      if fh_remaining_length h < 4 then Some (Inl MQTT_ERROR_MALFORMED_RESPONSE)
      else let tsize = unat (be16 buf); off = 2 + tsize + (if qos > 0 then 2 else 0) in
           if off > rl then None
           else Some (Inr (Publish dup qos retain (bslice 2 tsize buf) (if qos > 0 then be16 (drop (2 + tsize) buf) else 0)
                  (bslice off (rl - off) buf))))"

definition mqtt_unpack_pubxxx_response :: "mqtt_fixed_header \<Rightarrow> bytes \<Rightarrow> mqtt_error + mqtt_response" where
  "mqtt_unpack_pubxxx_response h buf =
     (if fh_remaining_length h \<noteq> 2 then Inl MQTT_ERROR_MALFORMED_RESPONSE
      else let packet_id = be16 buf in
        Inr (if fh_control_type h = MQTT_CONTROL_PUBACK then Puback packet_id
             else if fh_control_type h = MQTT_CONTROL_PUBREC then Pubrec packet_id
             else if fh_control_type h = MQTT_CONTROL_PUBREL then Pubrel packet_id
             else Pubcomp packet_id))"

definition mqtt_unpack_suback_response :: "mqtt_fixed_header \<Rightarrow> bytes \<Rightarrow> mqtt_error + mqtt_response" where
  "mqtt_unpack_suback_response h buf =
     (if fh_remaining_length h < 3 then Inl MQTT_ERROR_MALFORMED_RESPONSE
      else Inr (Suback (be16 buf) (bslice 2 (unat (fh_remaining_length h) - 2) buf)))"

definition mqtt_unpack_unsuback_response :: "mqtt_fixed_header \<Rightarrow> bytes \<Rightarrow> mqtt_error + mqtt_response" where
  "mqtt_unpack_unsuback_response h buf =
     (if fh_remaining_length h \<noteq> 2 then Inl MQTT_ERROR_MALFORMED_RESPONSE else Inr (Unsuback (be16 buf)))"

text \<open>The outer \<open>None\<close> is undefined; \<open>Inr None\<close> asks for more data.\<close>

definition unpack_body :: "mqtt_fixed_header \<Rightarrow> bytes \<Rightarrow> (mqtt_error + mqtt_response) option" where
  "unpack_body h buf = (let t = fh_control_type h in
     if t = MQTT_CONTROL_CONNACK then Some (mqtt_unpack_connack_response h buf)
     else if t = MQTT_CONTROL_PUBLISH then mqtt_unpack_publish_response h buf
     else if t \<in> {MQTT_CONTROL_PUBACK, MQTT_CONTROL_PUBREC, MQTT_CONTROL_PUBREL, MQTT_CONTROL_PUBCOMP} then Some (mqtt_unpack_pubxxx_response h buf)
     else if t = MQTT_CONTROL_SUBACK then Some (mqtt_unpack_suback_response h buf)
     else if t = MQTT_CONTROL_UNSUBACK then Some (mqtt_unpack_unsuback_response h buf)
     else if t = MQTT_CONTROL_PINGRESP then Some (Inr Pingresp)
     else Some (Inl MQTT_ERROR_RESPONSE_INVALID_CONTROL_TYPE))"

text \<open>The bytes consumed: for a PINGRESP only those of the fixed header, otherwise also the rest of the packet.\<close>

definition mqtt_unpack_response :: "bytes \<Rightarrow> (mqtt_error + (nat \<times> mqtt_response) option) option" where
  "mqtt_unpack_response buf = (case mqtt_unpack_fixed_header buf of
       Inl err \<Rightarrow> Some (Inl err)
     | Inr None \<Rightarrow> Some (Inr None)
     | Inr (Some (n, h, rest)) \<Rightarrow> map_option (\<lambda>r. case r of
           Inl err \<Rightarrow> Inl err
         | Inr resp \<Rightarrow> Inr (Some (if resp = Pingresp then n else n + unat (fh_remaining_length h), resp))) (unpack_body h rest))"


lemma length_pack_uint16 [simp]: "length (mqtt_pack_uint16 v) = 2"
  by (simp add: mqtt_pack_uint16_def U16TO8_BIG_def)

lemma length_pack_str [simp]: "length (mqtt_pack_str x) = 2 + length x mod 2 ^ 16"
  by (simp add: mqtt_pack_str_def min_def)

section \<open>The fixed header\<close>

lemma bit_0x80: "bit (0x80 :: int) n \<longleftrightarrow> n = 7"
proof -
  have "(0x80 :: int) = push_bit 7 1" by simp
  then show ?thesis by (simp only: bit_simps) auto
qed

lemma length_bytes:
  fixes x :: u32
  shows "ucast ((ucast (x AND 0x7F) OR (0x80 :: u8)) AND 0x7F) = x AND 0x7F"
    and "(ucast (x AND 0x7F) OR (0x80 :: u8)) AND 0x80 \<noteq> 0"
    and "ucast (ucast (x AND 0x7F) AND (0x7F :: u8)) = x AND 0x7F"
    and "ucast (x AND 0x7F) AND (0x80 :: u8) = 0"
proof -
  have m: "(0x7F :: u32) = mask 7" "(0x7F :: u8) = mask 7" by (simp_all add: mask_eq_exp_minus_1)
  show "ucast ((ucast (x AND 0x7F) OR (0x80 :: u8)) AND 0x7F) = x AND 0x7F"
    "ucast (ucast (x AND 0x7F) AND (0x7F :: u8)) = x AND 0x7F"
    "ucast (x AND 0x7F) AND (0x80 :: u8) = 0"
    unfolding m by (rule bit_word_eqI; auto simp: bit_simps bit_0x80)+
  have "bit ((ucast (x AND 0x7F) OR (0x80 :: u8)) AND 0x80) 7" by (simp add: bit_simps bit_0x80)
  then show "(ucast (x AND 0x7F) OR (0x80 :: u8)) AND 0x80 \<noteq> 0" by auto
qed

lemma take_bit_word_self: "unat w < 2 ^ n \<Longrightarrow> take_bit n (w :: 'a::len word) = w"
  by (rule word_unat_eq_iff [THEN iffD2]) (simp add: unsigned_take_bit_eq take_bit_nat_eq_self)

lemma split_7: "push_bit s (x AND 0x7F) + push_bit (s + 7) (drop_bit 7 x) = push_bit s (x :: u32)"
proof -
  have "(x AND 0x7F) = take_bit 7 x" by (simp add: take_bit_eq_mask mask_eq_exp_minus_1)
  then have "x = push_bit 7 (drop_bit 7 x) + (x AND 0x7F)" using bits_ident [of 7 x] by simp
  then have "push_bit s x = push_bit s (push_bit 7 (drop_bit 7 x) + (x AND 0x7F))" by (rule arg_cong)
  then show ?thesis by (simp only: push_bit_add push_bit_push_bit) (simp only: add.commute)
qed

lemma pack_length_some:
  assumes "pack_length n rl = (bs, Some left)"
  shows "length bs + left + 1 = n" and "bs \<noteq> []"
  using assms by (induction n rl arbitrary: bs rule: pack_length.induct)
    (auto simp: Let_def split: if_splits prod.splits)

lemma unpack_pack_length:
  assumes "pack_length n rl = (bs, Some left)" and "unat rl < 2 ^ (7 * (4 - k))" and "k < 4"
  shows "unpack_length (bs @ rest) (7 * k) acc = Inr (Some (acc + push_bit (7 * k) rl, rest))"
  using assms
proof (induction n rl arbitrary: bs k acc rule: pack_length.induct)
  case (2 n rl)
  have n: "n \<noteq> 0" using "2.prems"(1) by (auto split: if_splits)
  show ?case
  proof (cases "rl > 127")
    case True
    obtain cs where cs: "pack_length n (drop_bit 7 rl) = (cs, Some left)" "bs = (ucast (rl AND 0x7F) OR 0x80) # cs"
      using "2.prems"(1) True n by (auto simp: Let_def split: prod.splits)
    have "2 ^ 7 \<le> unat rl" using True by (simp add: word_less_nat_alt)
    then have "(2 :: nat) ^ 7 < 2 ^ (7 * (4 - k))" using "2.prems"(2) by linarith
    then have k: "k + 1 < 4" using "2.prems"(3) by (cases "k = 3") auto
    have "7 * (4 - k) = 7 * (4 - (k + 1)) + 7" using k by simp
    then have "unat rl < 2 ^ (7 * (4 - (k + 1))) * 2 ^ 7" using "2.prems"(2) by (simp only: power_add)
    then have d: "unat (drop_bit 7 rl) < 2 ^ (7 * (4 - (k + 1)))"
      by (simp add: unat_drop_bit_eq drop_bit_eq_div unat_div less_mult_imp_div_less)
    have e: "acc + push_bit (7 * k) (rl AND 0x7F) + push_bit (7 * (k + 1)) (drop_bit 7 rl) = acc + push_bit (7 * k) rl"
      using split_7 [of "7 * k" rl] by (simp only: distrib_left mult_1_right add.assoc)
    from "2.IH" [OF n True cs(1) d k, of "acc + push_bit (7 * k) (rl AND 0x7F)"]
    have "unpack_length (cs @ rest) (7 * k + 7) (acc + push_bit (7 * k) (rl AND 0x7F)) = Inr (Some (acc + push_bit (7 * k) rl, rest))"
      unfolding e by (simp only: distrib_left mult_1_right)
    then show ?thesis using "2.prems"(3) k by (subst unpack_length.simps) (simp add: cs(2) length_bytes Let_def)
  next
    case False
    then have b: "bs = [ucast (rl AND 0x7F)]" using "2.prems"(1) n by auto
    have "rl AND 0x7F = rl"
    proof -
      have "rl AND 0x7F = take_bit 7 rl" by (simp add: take_bit_eq_mask mask_eq_exp_minus_1)
      also have "\<dots> = rl" using False by (intro take_bit_word_self) (simp add: word_less_nat_alt)
      finally show ?thesis .
    qed
    then show ?thesis using "2.prems"(3) length_bytes(3,4) [of rl]
      by (subst unpack_length.simps) (simp add: b Let_def)
  qed
qed simp


text \<open>Packing a header and unpacking it, with the packet behind it, gives the header back.\<close>

lemma first_byte:
  assumes "t < (16 :: u8)" and "f < (16 :: u8)"
  shows "drop_bit 4 ((push_bit 4 t AND 0xF0) OR (f AND 0x0F)) = t" and "((push_bit 4 t AND 0xF0) OR (f AND 0x0F)) AND 0x0F = f"
proof -
  have e: "take_bit 4 t = t" "take_bit 4 f = f" using assms by (auto intro!: take_bit_word_self simp: word_less_nat_alt)
  have bt: "bit t n \<longleftrightarrow> n < 4 \<and> bit t n" "bit f n \<longleftrightarrow> n < 4 \<and> bit f n" for n
    using e by (metis bit_take_bit_iff)+
  have m: "(0x0F :: u8) = mask 4" "(0xF0 :: u8) = push_bit 4 (mask 4)" by (simp_all add: mask_eq_exp_minus_1)
  show "drop_bit 4 ((push_bit 4 t AND 0xF0) OR (f AND 0x0F)) = t" unfolding m
    by (rule bit_word_eqI; simp add: bit_simps; use bt in fastforce)
  show "((push_bit 4 t AND 0xF0) OR (f AND 0x0F)) AND 0x0F = f" unfolding m
    by (rule bit_word_eqI; simp add: bit_simps; use bt in fastforce)
qed

definition header_wf :: "mqtt_fixed_header \<Rightarrow> bool" where
  "header_wf h \<longleftrightarrow> fh_control_type h < 16 \<and> fh_control_flags h < 16 \<and> fh_remaining_length h < 2 ^ 28 \<and>
     mqtt_fixed_header_rule_violation h = None"

lemma pack_fixed_headerD:
  assumes "header_wf h" and "mqtt_pack_fixed_header n h = (Inr k, bs)" and "0 < k"
  shows "\<exists>cs left. bs = ((push_bit 4 (fh_control_type h) AND 0xF0) OR (fh_control_flags h AND 0x0F)) # cs \<and>
     pack_length n (fh_remaining_length h) = (cs, Some left) \<and> unat (fh_remaining_length h) \<le> left \<and> k = length bs \<and> k + left = n"
  using assms pack_length_some(1) [of n "fh_remaining_length h"]
  by (auto simp: header_wf_def mqtt_pack_fixed_header_def Let_def split: if_splits prod.splits option.splits)

lemma fixed_header_roundtrip:
  assumes "header_wf h" and "mqtt_pack_fixed_header n h = (Inr k, bs)" and "0 < k" and "unat (fh_remaining_length h) \<le> length rest"
  shows "k = length bs \<and> mqtt_unpack_fixed_header (bs @ rest) = Inr (Some (k, h, rest))"
proof -
  define b where "b = (push_bit 4 (fh_control_type h) AND 0xF0) OR (fh_control_flags h AND 0x0F)"
  obtain cs left where c: "bs = b # cs" "pack_length n (fh_remaining_length h) = (cs, Some left)" "k = length bs"
    using pack_fixed_headerD [OF assms(1-3)] b_def by blast
  have rl: "unat (fh_remaining_length h) < 2 ^ (7 * (4 - 0))" using assms(1) by (simp add: header_wf_def word_less_nat_alt)
  have u: "unpack_length (cs @ rest) 0 0 = Inr (Some (fh_remaining_length h, rest))"
    using unpack_pack_length [OF c(2) rl, of rest 0] by simp
  have fb: "drop_bit 4 b = fh_control_type h" "b AND 0x0F = fh_control_flags h"
    using assms(1) unfolding b_def by (simp_all only: header_wf_def first_byte)
  have e: "\<lparr>fh_control_type = fh_control_type h, fh_control_flags = fh_control_flags h, fh_remaining_length = fh_remaining_length h\<rparr> = h"
    by simp
  show ?thesis using assms(1,4) c(1,3)
    by (simp add: mqtt_unpack_fixed_header_def u fb e header_wf_def Let_def del: length_Cons)
qed


section \<open>Packets in a stream\<close>

lemma unpack_length_some:
  assumes "unpack_length buf s acc = Inr (Some (rl, rest))"
  shows "\<exists>cs. buf = cs @ rest \<and> cs \<noteq> [] \<and> (\<forall>xs. unpack_length (cs @ xs) s acc = Inr (Some (rl, xs))) \<and>
     (\<forall>k < length cs. unpack_length (take k cs) s acc = Inr None)"
  using assms
proof (induction buf s acc rule: unpack_length.induct)
  case (1 buf s acc)
  note u = unpack_length.simps [of _ s]
  from "1.prems" obtain b bs where b: "buf = b # bs" and s: "s \<noteq> 28"
    by (subst (asm) u) (auto split: if_splits list.splits)
  let ?acc = "acc + push_bit s (ucast (b AND 0x7F))"
  show ?case
  proof (cases "b AND 0x80 = 0")
    case True
    then have "rl = ?acc" "rest = bs" using "1.prems" s by (subst (asm) u; simp add: b Let_def)+
    then show ?thesis using True s b by (intro exI [of _ "[b]"]) (simp add: u Let_def)
  next
    case False
    have r: "unpack_length bs (s + 7) ?acc = Inr (Some (rl, rest))"
      using "1.prems" False s by (subst (asm) u) (simp add: b Let_def)
    obtain cs where cs: "bs = cs @ rest" "cs \<noteq> []" "\<And>xs. unpack_length (cs @ xs) (s + 7) ?acc = Inr (Some (rl, xs))"
        "\<And>k. k < length cs \<Longrightarrow> unpack_length (take k cs) (s + 7) ?acc = Inr None"
      using "1.IH" [OF s b refl False r] by blast
    have "unpack_length (take k (b # cs)) s acc = Inr None" if "k < length (b # cs)" for k
      using that cs(4) [of "k - 1"] s False by (cases k; subst u; simp add: Let_def)
    moreover have "unpack_length ((b # cs) @ xs) s acc = Inr (Some (rl, xs))" for xs
      using cs(3) s False by (subst u) (simp add: Let_def)
    ultimately show ?thesis using b cs(1) by (intro exI [of _ "b # cs"]) simp
  qed
qed

lemma unpack_fixed_header_some:
  assumes "mqtt_unpack_fixed_header buf = Inr (Some (n, h, rest))"
  shows "\<exists>cs. buf = cs @ rest \<and> n = length cs \<and> 0 < n \<and> unat (fh_remaining_length h) \<le> length rest \<and>
     (\<forall>xs. mqtt_unpack_fixed_header (cs @ xs) = Inr (if length xs < unat (fh_remaining_length h) then None else Some (n, h, xs))) \<and>
     (\<forall>k < n. mqtt_unpack_fixed_header (take k cs) = Inr None)"
proof -
  obtain b bs where b: "buf = b # bs" using assms by (cases buf) (simp_all add: mqtt_unpack_fixed_header_def)
  obtain rl where u: "unpack_length bs 0 0 = Inr (Some (rl, rest))" and
    h: "h = \<lparr>fh_control_type = drop_bit 4 b, fh_control_flags = b AND 0x0F, fh_remaining_length = rl\<rparr>" and
    v: "mqtt_fixed_header_rule_violation h = None" and l: "unat rl \<le> length rest" and n: "n = length buf - length rest"
    using assms by (auto simp: mqtt_unpack_fixed_header_def b Let_def split: sum.splits option.splits if_splits)
  obtain cs where cs: "bs = cs @ rest" "\<And>xs. unpack_length (cs @ xs) 0 0 = Inr (Some (rl, xs))"
      "\<And>k. k < length cs \<Longrightarrow> unpack_length (take k cs) 0 0 = Inr None"
    using unpack_length_some [OF u] by blast
  have n': "n = length (b # cs)" using n b cs(1) by simp
  have "mqtt_unpack_fixed_header (take k (b # cs)) = Inr None" if k: "k < n" for k
    using k cs(3) [of "k - 1"] n' by (cases k) (simp_all add: mqtt_unpack_fixed_header_def)
  moreover have "mqtt_unpack_fixed_header ((b # cs) @ xs) = Inr (if length xs < unat (fh_remaining_length h) then None else Some (n, h, xs))" for xs
    using v by (simp add: mqtt_unpack_fixed_header_def cs(2) Let_def h [symmetric] n') (simp add: h)
  ultimately show ?thesis using b cs(1) n' l by (intro exI [of _ "b # cs"]) (simp add: h)
qed

lemma nth_append_left: "k < length p \<Longrightarrow> (p @ q) ! k = p ! k"
  by (simp add: nth_append)

lemma be16_append: "2 \<le> length p \<Longrightarrow> be16 (p @ q) = be16 p"
  by (simp only: be16_def nth_append_left)

lemma unpack_publish_append:
  assumes "unat (fh_remaining_length h) \<le> length buf"
  shows "mqtt_unpack_publish_response h (buf @ xs) = mqtt_unpack_publish_response h buf"
proof (cases "fh_remaining_length h < 4")
  case False
  then have l: "4 \<le> length buf" using assms by (simp add: word_less_nat_alt)
  have d: "be16 (drop k (buf @ xs)) = be16 (drop k buf)" if "k + 2 \<le> length buf" for k
    using that by (simp add: be16_append)
  have e: "be16 (buf @ xs) = be16 buf" using l by (intro be16_append) simp
  define t where "t = unat (be16 buf)"
  define q where "q = drop_bit 1 (fh_control_flags h AND 6)"
  define off where "off = 2 + t + (if q > 0 then 2 else 0)"
  show ?thesis
  proof (cases "off > unat (fh_remaining_length h)")
    case True
    then show ?thesis
      unfolding mqtt_unpack_publish_response_def Let_def e t_def [symmetric] q_def [symmetric] off_def [symmetric] by (simp only: if_True)
  next
    case nf: False
    have b: "bslice 2 t (buf @ xs) = bslice 2 t buf"
      "bslice off (unat (fh_remaining_length h) - off) (buf @ xs) = bslice off (unat (fh_remaining_length h) - off) buf"
      using nf assms by (intro bslice_append_left; auto simp: off_def)+
    have p: "(if q > 0 then be16 (drop (2 + t) (buf @ xs)) else 0) = (if q > 0 then be16 (drop (2 + t) buf) else 0)"
      using nf assms d [of "2 + t"] by (auto simp: off_def)
    show ?thesis unfolding mqtt_unpack_publish_response_def Let_def e t_def [symmetric] q_def [symmetric] off_def [symmetric] b p ..
  qed
qed (simp add: mqtt_unpack_publish_response_def)

lemma unpack_short_append:
  assumes "unat (fh_remaining_length h) \<le> length buf"
  shows "mqtt_unpack_connack_response h (buf @ xs) = mqtt_unpack_connack_response h buf"
    and "mqtt_unpack_pubxxx_response h (buf @ xs) = mqtt_unpack_pubxxx_response h buf"
    and "mqtt_unpack_unsuback_response h (buf @ xs) = mqtt_unpack_unsuback_response h buf"
proof -
  have e: "be16 (buf @ xs) = be16 buf" "(buf @ xs) ! 0 = buf ! 0" "(buf @ xs) ! 1 = buf ! 1" if "fh_remaining_length h = 2"
    using assms that by (auto intro!: be16_append nth_append_left)
  show "mqtt_unpack_connack_response h (buf @ xs) = mqtt_unpack_connack_response h buf"
    "mqtt_unpack_pubxxx_response h (buf @ xs) = mqtt_unpack_pubxxx_response h buf"
    "mqtt_unpack_unsuback_response h (buf @ xs) = mqtt_unpack_unsuback_response h buf"
    unfolding mqtt_unpack_connack_response_def mqtt_unpack_pubxxx_response_def mqtt_unpack_unsuback_response_def
    by (cases "fh_remaining_length h = 2"; simp only: e simp_thms if_True if_False)+
qed

lemma unpack_suback_append:
  assumes "unat (fh_remaining_length h) \<le> length buf"
  shows "mqtt_unpack_suback_response h (buf @ xs) = mqtt_unpack_suback_response h buf"
proof (cases "fh_remaining_length h < 3")
  case False
  then have "3 \<le> length buf" "2 + (unat (fh_remaining_length h) - 2) \<le> length buf"
    using assms by (simp_all add: word_less_nat_alt)
  then show ?thesis by (simp add: mqtt_unpack_suback_response_def be16_append bslice_append_left)
qed (simp add: mqtt_unpack_suback_response_def)

lemma unpack_body_append:
  "unat (fh_remaining_length h) \<le> length buf \<Longrightarrow> unpack_body h (buf @ xs) = unpack_body h buf"
  by (simp only: unpack_body_def unpack_publish_append unpack_short_append unpack_suback_append)


text \<open>A whole packet of the broker, with the response in it.\<close>

definition mqtt_packet :: "bytes \<Rightarrow> mqtt_response \<Rightarrow> bool" where
  "mqtt_packet p r \<longleftrightarrow> mqtt_unpack_response p = Some (Inr (Some (length p, r)))"

lemma unpack_responseE:
  assumes "mqtt_unpack_response buf = Some (Inr (Some (n, r)))"
  obtains k h rest where "mqtt_unpack_fixed_header buf = Inr (Some (k, h, rest))" "unpack_body h rest = Some (Inr r)"
    "n = (if r = Pingresp then k else k + unat (fh_remaining_length h))"
  using assms by (auto simp: mqtt_unpack_response_def split: sum.splits option.splits prod.splits) (metis sum.exhaust)

lemma unpack_response_consumed:
  assumes "mqtt_unpack_response buf = Some (Inr (Some (n, r)))"
  shows "0 < n \<and> n \<le> length buf"
proof -
  obtain k h rest where u: "mqtt_unpack_fixed_header buf = Inr (Some (k, h, rest))" "n = (if r = Pingresp then k else k + unat (fh_remaining_length h))"
    using assms by (rule unpack_responseE)
  from unpack_fixed_header_some [OF u(1)] u(2) show ?thesis by auto
qed

lemma mqtt_packet_frame:
  assumes "mqtt_packet p r"
  shows "mqtt_unpack_response (p @ xs) = Some (Inr (Some (length p, r)))"
    and "k < length p \<Longrightarrow> mqtt_unpack_response (take k p) = Some (Inr None)"
proof -
  obtain n h rest where u: "mqtt_unpack_fixed_header p = Inr (Some (n, h, rest))" "unpack_body h rest = Some (Inr r)"
      "length p = (if r = Pingresp then n else n + unat (fh_remaining_length h))"
    using assms unfolding mqtt_packet_def by (rule unpack_responseE)
  obtain cs where cs: "p = cs @ rest" "n = length cs" "unat (fh_remaining_length h) \<le> length rest"
      "\<And>ys. mqtt_unpack_fixed_header (cs @ ys) = Inr (if length ys < unat (fh_remaining_length h) then None else Some (n, h, ys))"
      "\<And>k. k < n \<Longrightarrow> mqtt_unpack_fixed_header (take k cs) = Inr None"
    using unpack_fixed_header_some [OF u(1)] by blast
  have len: "length rest = unat (fh_remaining_length h)"
    using u(3) cs(1-3) by (cases "r = Pingresp") simp_all
  have "mqtt_unpack_fixed_header (p @ xs) = Inr (Some (n, h, rest @ xs))"
    using cs(4) [of "rest @ xs"] len by (simp add: cs(1))
  then show "mqtt_unpack_response (p @ xs) = Some (Inr (Some (length p, r)))"
    using u(2,3) unpack_body_append [OF cs(3)] by (simp add: mqtt_unpack_response_def)
  assume k: "k < length p"
  have "mqtt_unpack_fixed_header (take k p) = Inr None"
  proof (cases "k < n")
    case True
    then show ?thesis using cs(5) cs(1,2) by simp
  next
    case False
    then have "take k p = cs @ take (k - n) rest" using cs(1,2) by simp
    moreover have "length (take (k - n) rest) < unat (fh_remaining_length h)" using k False len cs(1,2) by simp
    ultimately show ?thesis using cs(4) by simp
  qed
  then show "mqtt_unpack_response (take k p) = Some (Inr None)" by (simp add: mqtt_unpack_response_def)
qed

lemma pack_length_small:
  assumes "rl \<le> 127" and "2 \<le> n"
  shows "pack_length n rl = ([ucast (rl AND 0x7F)], Some (n - 2))"
proof -
  obtain k where "n = Suc (Suc k)" using assms(2) by (cases n; cases "n - 1") auto
  then show ?thesis using assms(1) by (simp add: not_less)
qed

text \<open>A PUBLISH packet of quality 0 as a broker writes it.\<close>

lemma publish_packet:
  assumes h: "header_wf h" "fh_control_type h = MQTT_CONTROL_PUBLISH" "fh_control_flags h = 0"
    and rl: "unat (fh_remaining_length h) = 2 + length topic + length msg" "4 \<le> 2 + length topic + length msg" "length topic < 2 ^ 16"
    and p: "mqtt_pack_fixed_header n h = (Inr k, hdr)" "0 < k"
  shows "mqtt_packet (hdr @ mqtt_pack_str topic @ msg) (Publish 0 0 0 topic 0 msg)"
proof -
  have s: "mqtt_pack_str topic = mqtt_pack_uint16 (of_nat (length topic)) @ topic" using rl(3) by (simp add: mqtt_pack_str_def)
  let ?b = "mqtt_pack_uint16 (of_nat (length topic)) @ topic @ msg"
  have u: "k = length hdr" "mqtt_unpack_fixed_header (hdr @ ?b) = Inr (Some (k, h, ?b))"
    using fixed_header_roundtrip [OF h(1) p, of ?b] rl(1) by simp_all
  have b: "be16 ?b = of_nat (length topic)" by (simp add: mqtt_pack_uint16_def flip: stun_encode16_def)
  have t: "unat (be16 ?b) = length topic" using rl(3) unfolding b by (simp add: unsigned_of_nat take_bit_nat_eq_self)
  have "\<not> fh_remaining_length h < 4" using rl(1,2) by (simp add: word_less_nat_alt)
  then have "mqtt_unpack_publish_response h ?b = Some (Inr (Publish 0 0 0 topic 0 msg))"
    unfolding mqtt_unpack_publish_response_def Let_def t h(3) rl(1) by (simp add: bslice_def)
  then have "unpack_body h ?b = Some (Inr (Publish 0 0 0 topic 0 msg))" by (simp add: unpack_body_def h(2))
  then show ?thesis using u rl(1) by (simp add: mqtt_packet_def mqtt_unpack_response_def s)
qed

text \<open>
  C23: A fixed header that is valid, packed into a buffer with enough space and unpacked with the packet behind it, comes
  back unchanged: the control type, the flags and the remaining length of up to 28 bits in one to four bytes.
\<close>

theorem mqtt_header_roundtrip:
  assumes "fh_control_type h < 16" and "fh_control_flags h < 16" and "fh_remaining_length h < 2 ^ 28"
    and "mqtt_fixed_header_rule_violation h = None"
    and "mqtt_pack_fixed_header n h = (Inr k, bs)" and "0 < k" and "unat (fh_remaining_length h) \<le> length rest"
  shows "k = length bs \<and> mqtt_unpack_fixed_header (bs @ rest) = Inr (Some (k, h, rest))"
  by (rule fixed_header_roundtrip) (use assms in \<open>simp_all add: header_wf_def\<close>)

definition publish_header_demo :: mqtt_fixed_header where
  "publish_header_demo = \<lparr>fh_control_type = MQTT_CONTROL_PUBLISH, fh_control_flags = 0, fh_remaining_length = 4\<rparr>"

lemma publish_header_demo:
  "header_wf publish_header_demo" "mqtt_pack_fixed_header 6 publish_header_demo = (Inr 2, [0x30, 4])"
proof -
  show w: "header_wf publish_header_demo"
    by (simp add: header_wf_def publish_header_demo_def mqtt_fixed_header_rule_violation_def control_type_is_valid_def mask_required_flags_def)
  show "mqtt_pack_fixed_header 6 publish_header_demo = (Inr 2, [0x30, 4])"
    using w pack_length_small [of 4 6] by (simp add: mqtt_pack_fixed_header_def header_wf_def) (simp add: publish_header_demo_def)
qed

theorem mqtt_header_roundtrip_witness:
  "2 = length [0x30, 4 :: u8] \<and> mqtt_unpack_fixed_header ([0x30, 4] @ [0, 1, 0x61, 0x7B]) = Inr (Some (2, publish_header_demo, [0, 1, 0x61, 0x7B]))"
proof (rule mqtt_header_roundtrip)
  show "mqtt_pack_fixed_header 6 publish_header_demo = (Inr 2, [0x30, 4])" by (rule publish_header_demo(2))
qed (use publish_header_demo(1) in \<open>simp_all add: header_wf_def publish_header_demo_def\<close>)

text \<open>
  A PUBLISH packet whose topic is longer than the packet makes the length of the message wrap around: what
  follows reads outside of the buffer.
\<close>

theorem long_topic_undefined:
  assumes "mqtt_unpack_fixed_header buf = Inr (Some (n, h, rest))" and "fh_control_type h = MQTT_CONTROL_PUBLISH"
    and "4 \<le> fh_remaining_length h" and "unat (fh_remaining_length h) < 2 + unat (be16 rest)"
  shows "mqtt_unpack_response buf = None"
proof -
  have "\<not> fh_remaining_length h < 4" using assms(3) by simp
  then have "mqtt_unpack_publish_response h rest = None" using assms(4) by (simp add: mqtt_unpack_publish_response_def Let_def)
  then show ?thesis using assms(1,2) by (simp add: mqtt_unpack_response_def unpack_body_def)
qed

theorem long_topic_undefined_witness: "mqtt_unpack_response ([0x30, 4] @ [0xFF, 0xFF, 0x61, 0x7B]) = None"
proof -
  have "mqtt_unpack_fixed_header ([0x30, 4] @ [0xFF, 0xFF, 0x61, 0x7B]) = Inr (Some (2, publish_header_demo, [0xFF, 0xFF, 0x61, 0x7B]))"
    using fixed_header_roundtrip [OF publish_header_demo, of "[0xFF, 0xFF, 0x61, 0x7B]"] by (simp add: publish_header_demo_def)
  from long_topic_undefined [OF this] show ?thesis by (simp add: publish_header_demo_def be16_def)
qed

end
