(* ===== verification/Json.thy ===== *)
theory Json
  imports Crypto_Util "HOL-Library.Monad_Syntax"
begin

text \<open>
  Configuration data as the program sees it: JSON values with the accessors of \<open>lib/libjansson\<close> that
  the configuration code uses, and the conversions of the C library between texts and addresses or
  numbers (\<open>inet_pton\<close>, \<open>inet_addr\<close>, \<open>inet_ntoa\<close>, \<open>strtoull\<close> with base 16). Addresses are the 32-bit
  word that a little-endian machine reads from the four bytes in network order.
\<close>

section \<open>JSON values\<close>

datatype json = Json_object "(string \<times> json) list" | Json_array "json list" | Json_string string
  | Json_integer int | Json_real string | Json_true | Json_false | Json_null

fun json_is_object :: "json \<Rightarrow> bool" where
  "json_is_object (Json_object _) = True" | "json_is_object _ = False"

fun json_is_array :: "json \<Rightarrow> bool" where
  "json_is_array (Json_array _) = True" | "json_is_array _ = False"

fun json_is_string :: "json \<Rightarrow> bool" where
  "json_is_string (Json_string _) = True" | "json_is_string _ = False"

fun json_is_integer :: "json \<Rightarrow> bool" where
  "json_is_integer (Json_integer _) = True" | "json_is_integer _ = False"

text \<open>\<open>None\<close> is \<open>NULL\<close>. The accessors accept any value and \<open>NULL\<close>.\<close>

fun json_object_get :: "json \<Rightarrow> string \<Rightarrow> json option" where
  "json_object_get (Json_object kvs) key = map_of kvs key"
| "json_object_get _ key = None"

fun json_array_size :: "json \<Rightarrow> nat" where
  "json_array_size (Json_array xs) = length xs" | "json_array_size _ = 0"

fun json_array_get :: "json \<Rightarrow> nat \<Rightarrow> json option" where
  "json_array_get (Json_array xs) i = (if i < length xs then Some (xs ! i) else None)"
| "json_array_get _ i = None"

fun json_string_value :: "json \<Rightarrow> string" where
  "json_string_value (Json_string s) = s" | "json_string_value _ = []"

definition json_string_length :: "json \<Rightarrow> nat" where
  "json_string_length j = length (json_string_value j)"

fun json_integer_value :: "json option \<Rightarrow> int" where
  "json_integer_value (Some (Json_integer i)) = i" | "json_integer_value _ = 0"

text \<open>The recurring patterns of the configuration code: fetch a member that must be present and of
  a given kind. \<open>None\<close> is a failed assertion.\<close>

definition member_such :: "(json \<Rightarrow> bool) \<Rightarrow> json \<Rightarrow> string \<Rightarrow> json option" where
  "member_such P j key = do { x \<leftarrow> json_object_get j key; if P x then Some x else None }"

definition object_member :: "json \<Rightarrow> string \<Rightarrow> json option" where
  "object_member = member_such json_is_object"

definition array_member :: "json \<Rightarrow> string \<Rightarrow> json option" where
  "array_member = member_such json_is_array"

definition integer_member :: "json \<Rightarrow> string \<Rightarrow> int option" where
  "integer_member j key = map_option (\<lambda>x. json_integer_value (Some x)) (member_such json_is_integer j key)"

definition string_member :: "json \<Rightarrow> string \<Rightarrow> string option" where
  "string_member j key =
     map_option json_string_value (member_such (\<lambda>x. json_is_string x \<and> json_string_length x > 0) j key)"

section \<open>Texts and numbers\<close>

definition bytes_of_string :: "string \<Rightarrow> bytes" where
  "bytes_of_string s = map of_char s"

definition char_val :: "char \<Rightarrow> nat" where
  "char_val c = of_char c"

definition is_digit :: "char \<Rightarrow> bool" where
  "is_digit c \<longleftrightarrow> 48 \<le> char_val c \<and> char_val c \<le> 57"

definition decimal :: "string \<Rightarrow> nat" where
  "decimal ds = foldl (\<lambda>v c. v * 10 + (char_val c - 48)) 0 ds"

text \<open>The parts of a text between the dots.\<close>

fun split_dots :: "string \<Rightarrow> string list" where
  "split_dots [] = [[]]"
| "split_dots (c # cs) =
     (if c = CHR ''.'' then [] # split_dots cs
      else case split_dots cs of p # ps \<Rightarrow> (c # p) # ps | [] \<Rightarrow> [[c]])"

text \<open>\<open>inet_pton\<close> accepts four decimal numbers up to 255 without leading zeros.\<close>

definition octet :: "string \<Rightarrow> u8 option" where
  "octet ds = (if ds \<noteq> [] \<and> list_all is_digit ds \<and> (hd ds = CHR ''0'' \<longrightarrow> length ds = 1) \<and> decimal ds \<le> 255
     then Some (of_nat (decimal ds)) else None)"

definition inet_pton :: "string \<Rightarrow> u32 option" where
  "inet_pton s = (case split_dots s of
     [a, b, c, d] \<Rightarrow> do { a \<leftarrow> octet a; b \<leftarrow> octet b; c \<leftarrow> octet c; d \<leftarrow> octet d;
                          Some (U8TO32_LITTLE [a, b, c, d]) }
   | _ \<Rightarrow> None)"

text \<open>\<open>inet_addr\<close> is applied to texts that \<open>inet_pton\<close> has accepted, where the two agree.\<close>

definition inet_addr :: "string \<Rightarrow> u32" where
  "inet_addr s = (case inet_pton s of Some a \<Rightarrow> a | None \<Rightarrow> 0xFFFFFFFF)"

definition octet_text :: "u8 \<Rightarrow> string" where
  "octet_text b =
     (let n = unat b; d = (\<lambda>k. char_of (48 + k :: nat))
      in (if n \<ge> 100 then [d (n div 100)] else []) @ (if n \<ge> 10 then [d (n div 10 mod 10)] else []) @
         [d (n mod 10)])"

definition inet_ntoa :: "u32 \<Rightarrow> string" where
  "inet_ntoa a = (let bs = U32TO8_LITTLE a
     in octet_text (bs ! 0) @ ''.'' @ octet_text (bs ! 1) @ ''.'' @ octet_text (bs ! 2) @ ''.'' @
        octet_text (bs ! 3))"

definition is_space :: "char \<Rightarrow> bool" where
  "is_space c \<longleftrightarrow> char_val c = 32 \<or> 9 \<le> char_val c \<and> char_val c \<le> 13"

definition hex_val :: "char \<Rightarrow> nat option" where
  "hex_val c = (let v = char_val c
     in if 48 \<le> v \<and> v \<le> 57 then Some (v - 48)
        else if 65 \<le> v \<and> v \<le> 70 then Some (v - 55)
        else if 97 \<le> v \<and> v \<le> 102 then Some (v - 87) else None)"

definition skip_0x :: "string \<Rightarrow> string" where
  "skip_0x s = (case s of
     z # x # h # r \<Rightarrow> if z = CHR ''0'' \<and> (x = CHR ''x'' \<or> x = CHR ''X'') \<and> hex_val h \<noteq> None then h # r else s
   | _ \<Rightarrow> s)"

text \<open>\<open>strtoull(s, NULL, 16)\<close>: blanks, sign, prefix, digits; the greatest value if there are too many.\<close>

definition strtoull16 :: "string \<Rightarrow> u64" where
  "strtoull16 s =
     (let s = dropWhile is_space s;
          neg = (s \<noteq> [] \<and> hd s = CHR ''-'');
          s = skip_0x (if s \<noteq> [] \<and> (hd s = CHR ''-'' \<or> hd s = CHR ''+'') then tl s else s);
          v = foldl (\<lambda>v c. v * 16 + int (the (hex_val c))) 0 (takeWhile (\<lambda>c. hex_val c \<noteq> None) s)
      in if v \<ge> 2 ^ 64 then - 1 else if neg then - word_of_int v else word_of_int v)"

section \<open>Addresses survive printing and reading\<close>

lemma char_val_char_of: "n < 256 \<Longrightarrow> char_val (char_of n) = n"
  by (simp add: char_val_def)

lemma char_val_inj: "char_val c = char_val d \<longleftrightarrow> c = d"
  by (simp add: char_val_def)

lemma digit_char:
  assumes "k < 10"
  shows "is_digit (char_of (48 + k))" and "char_of (48 + k) \<noteq> CHR ''.''" and "char_val (char_of (48 + k)) = 48 + k"
    and "char_of (48 + k) = CHR ''0'' \<longleftrightarrow> k = 0"
proof -
  show v: "char_val (char_of (48 + k)) = 48 + k" using assms by (intro char_val_char_of) simp
  then show "is_digit (char_of (48 + k))" using assms by (simp add: is_digit_def)
  have d: "char_val CHR ''.'' = 46" "char_val CHR ''0'' = 48" by (simp_all add: char_val_def)
  show "char_of (48 + k) \<noteq> CHR ''.''" unfolding char_val_inj [symmetric] v d by simp
  show "char_of (48 + k) = CHR ''0'' \<longleftrightarrow> k = 0" unfolding char_val_inj [symmetric] v d by simp
qed

definition digits :: "nat \<Rightarrow> nat list" where
  "digits n = (if n \<ge> 100 then [n div 100] else []) @ (if n \<ge> 10 then [n div 10 mod 10] else []) @ [n mod 10]"

lemma octet_text_digits: "octet_text b = map (\<lambda>k. char_of (48 + k)) (digits (unat b))"
  by (simp add: octet_text_def digits_def Let_def)

lemma digits_small: "n < 256 \<Longrightarrow> k \<in> set (digits n) \<Longrightarrow> k < 10"
  by (auto simp: digits_def split: if_splits)

lemma octet_octet_text: "octet (octet_text b) = Some b"
proof -
  define n where "n = unat b"
  have n: "n < 256" by (simp add: n_def)
  let ?t = "map (\<lambda>k. char_of (48 + k)) (digits n)"
  have k: "k < 10" if "k \<in> set (digits n)" for k using digits_small [OF n that] .
  have "list_all is_digit ?t" using k digit_char(1) by (auto simp: list_all_iff)
  moreover have "?t \<noteq> []" by (simp add: digits_def)
  moreover have "hd ?t = CHR ''0'' \<longrightarrow> length ?t = 1"
  proof -
    have h: "hd (digits n) \<in> set (digits n)" by (rule hd_in_set) (simp add: digits_def)
    have "hd ?t = char_of (48 + hd (digits n))" by (rule hd_map) (simp add: digits_def)
    then have "hd ?t = CHR ''0'' \<longleftrightarrow> hd (digits n) = 0" using digit_char(4) [OF k [OF h]] by (simp only:)
    moreover have "hd (digits n) = 0 \<Longrightarrow> length (digits n) = 1"
      using n by (cases "n \<ge> 100"; cases "n \<ge> 10") (simp_all add: digits_def div_eq_0_iff)
    ultimately show ?thesis by (simp only: length_map) blast
  qed
  moreover have "decimal ?t = n"
  proof -
    have "decimal ?t = foldl (\<lambda>v k. v * 10 + k) 0 (digits n)"
      unfolding decimal_def foldl_map using k digit_char(3) by (intro foldl_cong) auto
    also have "\<dots> = n"
    proof -
      have "n div 100 = n div 10 div 10" by (simp flip: div_mult2_eq)
      then have "n div 100 * 10 + n div 10 mod 10 = n div 10" by simp
      moreover have "\<not> n \<ge> 100 \<Longrightarrow> n div 10 mod 10 = n div 10" by simp
      ultimately show ?thesis by (cases "n \<ge> 100"; cases "n \<ge> 10") (simp_all add: digits_def)
    qed
    finally show ?thesis .
  qed
  ultimately have "octet ?t = Some (of_nat n)" using n by (simp add: octet_def)
  then show ?thesis by (simp add: octet_text_digits n_def)
qed

lemma octet_text_no_dot: "CHR ''.'' \<notin> set (octet_text b)"
proof -
  have "char_of (48 + k) \<noteq> CHR ''.''" if "k \<in> set (digits (unat b))" for k
    using digit_char(2) [OF digits_small [OF _ that]] by simp
  then show ?thesis unfolding octet_text_digits set_map image_iff by metis
qed

lemma split_dots_no_dot: "CHR ''.'' \<notin> set s \<Longrightarrow> split_dots s = [s]"
  by (induction s) auto

lemma split_dots_append: "CHR ''.'' \<notin> set s \<Longrightarrow> split_dots (s @ CHR ''.'' # t) = s # split_dots t"
  by (induction s) auto

lemma inet_pton_ntoa: "inet_pton (inet_ntoa a) = Some a"
proof -
  let ?b = "U32TO8_LITTLE a"
  have l: "length ?b = 4" by simp
  then have b: "?b = [?b ! 0, ?b ! 1, ?b ! 2, ?b ! 3]" by (auto simp: list_eq_iff_nth_eq less_Suc_eq numeral_eq_Suc)
  have "split_dots (inet_ntoa a) = [octet_text (?b ! 0), octet_text (?b ! 1), octet_text (?b ! 2), octet_text (?b ! 3)]"
    by (simp add: inet_ntoa_def Let_def split_dots_append split_dots_no_dot octet_text_no_dot)
  moreover have "U8TO32_LITTLE [?b ! 0, ?b ! 1, ?b ! 2, ?b ! 3] = a" unfolding b [symmetric] by simp
  ultimately show ?thesis by (simp add: inet_pton_def octet_octet_text)
qed

section \<open>Text as JSON\<close>

text \<open>\<open>json_string\<close> gives \<open>NULL\<close> for a text that is not UTF-8 (\<open>lib/libjansson/utf.c\<close>). The number of bytes of a character by its
  first byte; 0 for a byte that starts none.\<close>

definition utf8_check_first :: "char \<Rightarrow> nat" where
  "utf8_check_first c = (let u = (of_char c :: nat) in
     if u < 0x80 then 1 else if u \<le> 0xC1 then 0 else if u \<le> 0xDF then 2 else if u \<le> 0xEF then 3 else if u \<le> 0xF4 then 4 else 0)"

text \<open>The bytes of a character of two to four bytes.\<close>

definition utf8_check_full :: "string \<Rightarrow> bool" where
  "utf8_check_full buf =
     (let size = length buf; us = map of_char buf :: nat list;
          value = fold (\<lambda>u v. v * 64 + u mod 64) (tl us) (hd us mod (if size = 2 then 32 else if size = 3 then 16 else 8)) in
      size \<in> {2, 3, 4} \<and> (\<forall>u \<in> set (tl us). 0x80 \<le> u \<and> u \<le> 0xBF) \<and> value \<le> 0x10FFFF \<and> \<not> (0xD800 \<le> value \<and> value \<le> 0xDFFF) \<and>
      \<not> (size = 2 \<and> value < 0x80 \<or> size = 3 \<and> value < 0x800 \<or> size = 4 \<and> value < 0x10000))"

function utf8_check_string :: "string \<Rightarrow> bool" where
  "utf8_check_string [] = True"
| "utf8_check_string (c # s) =
     (let count = utf8_check_first c in
      if count = 0 then False
      else if count = 1 then utf8_check_string s
      else count \<le> Suc (length s) \<and> utf8_check_full (take count (c # s)) \<and> utf8_check_string (drop (count - 1) s))"
  by pat_completeness auto

termination by (relation "measure length") auto

definition json_string :: "string \<Rightarrow> json option" where
  "json_string s = (if utf8_check_string s then Some (Json_string s) else None)"

lemma json_string_ascii: "\<forall>c \<in> set s. (of_char c :: nat) < 128 \<Longrightarrow> json_string s = Some (Json_string s)"
proof -
  assume "\<forall>c \<in> set s. (of_char c :: nat) < 128"
  then have "utf8_check_string s" by (induction s) (simp_all add: utf8_check_first_def)
  then show ?thesis by (simp add: json_string_def)
qed

text \<open>\<open>json_dumps\<close> and \<open>json_loads\<close> of the library: the text of a value and the value of a text. \<open>json_dumpf\<close> and \<open>json_load_file\<close> write and
  read such a text.\<close>

record json_lib =
  jl_dumps :: "json \<Rightarrow> string"
  jl_loads :: "string \<Rightarrow> json option"

text \<open>What the library reads from the text that it wrote for \<open>j\<close>.\<close>

definition reload :: "json_lib \<Rightarrow> json \<Rightarrow> json option" where
  "reload jl j = jl_loads jl (jl_dumps jl j)"

end
