(* ===== verification/Mqtt_Queue.thy ===== *)
theory Mqtt_Queue
  imports Mqtt_Packet Json
begin

text \<open>
  The queue of messages to send of the MQTT client (\<open>linux/mudband_mqtt.c\<close>). A buffer holds the packets from its start
  on and one \<open>struct mqtt_queued_message\<close> of 40 bytes for each packet from its end downwards. Pointers into the buffer are
  offsets; the structs are a list, the one at the end of the buffer first, so that \<open>queue_tail\<close> is its length. The
  bytes of \<open>mq_mem\<close> at the structs are not used. The queue is shown to implement a list of messages with their packets.
\<close>

section \<open>Data\<close>

datatype mqtt_queued_message_state = MQTT_QUEUED_UNSENT | MQTT_QUEUED_AWAITING_ACK | MQTT_QUEUED_COMPLETE

record mqtt_queued_message =
  qm_start :: nat
  qm_size :: nat
  qm_state :: mqtt_queued_message_state
  qm_time_sent :: int
  qm_control_type :: control_type
  qm_packet_id :: u16

record mqtt_message_queue =
  mq_mem :: bytes
  mq_curr :: nat
  mq_curr_sz :: nat
  mq_msgs :: "mqtt_queued_message list"

definition sizeof_mqtt_queued_message :: nat where "sizeof_mqtt_queued_message = 40"

text \<open>\<open>MQTT_MQ_CURRSZ\<close>: the space in front of the struct for the next message.\<close>

definition MQTT_MQ_CURRSZ :: "mqtt_message_queue \<Rightarrow> nat" where
  "MQTT_MQ_CURRSZ mq =
     (let next_tail = length (mq_mem mq) - sizeof_mqtt_queued_message * (length (mq_msgs mq) + 1) in
      if mq_curr mq \<ge> next_tail then 0 else next_tail - mq_curr mq)"

definition recompute_curr_sz :: "mqtt_message_queue \<Rightarrow> mqtt_message_queue" where
  "recompute_curr_sz mq = mq\<lparr>mq_curr_sz := MQTT_MQ_CURRSZ mq\<rparr>"

definition mqtt_mq_init :: "bytes \<Rightarrow> mqtt_message_queue" where
  "mqtt_mq_init buf = recompute_curr_sz \<lparr>mq_mem = buf, mq_curr = 0, mq_curr_sz = 0, mq_msgs = []\<rparr>"

section \<open>Operations\<close>

text \<open>\<open>memmove\<close> and \<open>memcpy\<close> of \<open>bs\<close> to \<open>off\<close>.\<close>

definition mem_write :: "nat \<Rightarrow> bytes \<Rightarrow> bytes \<Rightarrow> bytes" where
  "mem_write off bs mem = take off mem @ bs @ drop (off + length bs) mem"

text \<open>The index of the first message that is not complete.\<close>

fun new_head :: "mqtt_queued_message list \<Rightarrow> nat" where
  "new_head [] = 0"
| "new_head (m # ms) = (if qm_state m \<noteq> MQTT_QUEUED_COMPLETE then 0 else Suc (new_head ms))"

definition mqtt_mq_clean :: "mqtt_message_queue \<Rightarrow> mqtt_message_queue" where
  "mqtt_mq_clean mq =
     (let k = new_head (mq_msgs mq) in
      if k = length (mq_msgs mq) then recompute_curr_sz (mq\<lparr>mq_curr := 0, mq_msgs := []\<rparr>)
      else if k = 0 then mq
      else let start = qm_start (mq_msgs mq ! k); n = mq_curr mq - start in
           recompute_curr_sz (mq\<lparr>mq_mem := mem_write 0 (bslice start n (mq_mem mq)) (mq_mem mq), mq_curr := n,
             mq_msgs := map (\<lambda>m. m\<lparr>qm_start := qm_start m - start\<rparr>) (drop k (mq_msgs mq))\<rparr>))"

text \<open>The other fields of the new struct are what the memory \<open>old\<close> holds there.\<close>

definition mqtt_mq_register :: "mqtt_queued_message \<Rightarrow> nat \<Rightarrow> mqtt_message_queue \<Rightarrow> mqtt_message_queue" where
  "mqtt_mq_register old nbytes mq = recompute_curr_sz
     (mq\<lparr>mq_msgs := mq_msgs mq @ [old\<lparr>qm_start := mq_curr mq, qm_size := nbytes, qm_state := MQTT_QUEUED_UNSENT\<rparr>],
        mq_curr := mq_curr mq + nbytes\<rparr>)"

text \<open>The index of the message found.\<close>

definition mqtt_mq_find :: "mqtt_message_queue \<Rightarrow> control_type \<Rightarrow> u16 option \<Rightarrow> nat option" where
  "mqtt_mq_find mq ctype packet_id = find_index (\<lambda>m. qm_control_type m = ctype \<and>
     (case packet_id of None \<Rightarrow> qm_state m \<noteq> MQTT_QUEUED_COMPLETE | Some pid \<Rightarrow> pid = qm_packet_id m)) (mq_msgs mq)"

text \<open>\<open>MQTT_CLIENT_TRY_PACK\<close> on the queue: the packet is written to the free space; when that is too small the queue is
  cleaned once. \<open>set_fields\<close> is what the caller stores in the new struct.\<close>

definition pack_at_curr :: "(nat \<Rightarrow> packed) \<Rightarrow> mqtt_message_queue \<Rightarrow> (mqtt_error + nat) \<times> mqtt_message_queue" where
  "pack_at_curr pack mq = (case pack (mq_curr_sz mq) of
     (r, bs) \<Rightarrow> (r, mq\<lparr>mq_mem := mem_write (mq_curr mq) bs (mq_mem mq)\<rparr>))"

definition mq_try_pack :: "(nat \<Rightarrow> packed) \<Rightarrow> mqtt_queued_message \<Rightarrow> mqtt_message_queue \<Rightarrow> mqtt_error option \<times> mqtt_message_queue" where
  "mq_try_pack pack old mq = (case pack_at_curr pack mq of
       (Inl err, mq) \<Rightarrow> (Some err, mq)
     | (Inr n, mq) \<Rightarrow>
         if n \<noteq> 0 then (None, mqtt_mq_register old n mq)
         else (case pack_at_curr pack (mqtt_mq_clean mq) of
             (Inl err, mq) \<Rightarrow> (Some err, mq)
           | (Inr n, mq) \<Rightarrow> if n \<noteq> 0 then (None, mqtt_mq_register old n mq) else (Some MQTT_ERROR_SEND_BUFFER_IS_FULL, mq)))"

section \<open>The invariant and the list of messages\<close>

text \<open>The packets follow each other without gaps up to \<open>curr\<close>.\<close>

fun packets_from :: "nat \<Rightarrow> mqtt_queued_message list \<Rightarrow> nat option" where
  "packets_from off [] = Some off"
| "packets_from off (m # ms) = (if qm_start m = off then packets_from (off + qm_size m) ms else None)"

definition mq_ok :: "mqtt_message_queue \<Rightarrow> bool" where
  "mq_ok mq \<longleftrightarrow> packets_from 0 (mq_msgs mq) = Some (mq_curr mq) \<and> mq_curr_sz mq = MQTT_MQ_CURRSZ mq \<and>
     mq_curr mq + sizeof_mqtt_queued_message * length (mq_msgs mq) \<le> length (mq_mem mq)"

text \<open>The abstract queue: each message with its packet.\<close>

type_synonym queued = "bytes \<times> mqtt_queued_message_state \<times> int \<times> control_type \<times> u16"

definition queued_of :: "bytes \<Rightarrow> mqtt_queued_message \<Rightarrow> queued" where
  "queued_of mem m = (bslice (qm_start m) (qm_size m) mem, qm_state m, qm_time_sent m, qm_control_type m, qm_packet_id m)"

definition mq_abs :: "mqtt_message_queue \<Rightarrow> queued list" where
  "mq_abs mq = map (queued_of (mq_mem mq)) (mq_msgs mq)"

definition queue_clean :: "queued list \<Rightarrow> queued list" where
  "queue_clean = dropWhile (\<lambda>(p, st, t, c, i). st = MQTT_QUEUED_COMPLETE)"


section \<open>The queue implements the list\<close>

lemma packets_from_append [simp]:
  "packets_from off (xs @ ys) = Option.bind (packets_from off xs) (\<lambda>off. packets_from off ys)"
  by (induction xs arbitrary: off) auto

lemma packets_fromD:
  assumes "packets_from off ms = Some c"
  shows "off \<le> c" and "m \<in> set ms \<Longrightarrow> off \<le> qm_start m \<and> qm_start m + qm_size m \<le> c"
proof -
  have le: "off \<le> c" if "packets_from off ms = Some c" for off ms
    using that by (induction ms arbitrary: off) (force split: if_splits)+
  then show "off \<le> c" using assms .
  show "off \<le> qm_start m \<and> qm_start m + qm_size m \<le> c" if "m \<in> set ms"
    using assms that
  proof (induction ms arbitrary: off)
    case (Cons x ms)
    then have x: "qm_start x = off" "packets_from (off + qm_size x) ms = Some c" by (auto split: if_splits)
    show ?case using Cons.IH [OF x(2)] Cons.prems(2) x le [OF x(2)] by auto
  qed simp
qed

lemma packets_from_shift:
  "packets_from (off + d) ms = Some c \<Longrightarrow> packets_from off (map (\<lambda>m. m\<lparr>qm_start := qm_start m - d\<rparr>) ms) = Some (c - d)"
proof (induction ms arbitrary: off)
  case (Cons m ms)
  then have "qm_start m = off + d" "packets_from (off + qm_size m + d) ms = Some c"
    by (auto simp: ac_simps split: if_splits)
  then show ?case using Cons.IH [of "off + qm_size m"] by simp
qed auto

lemma length_mem_write [simp]: "off + length bs \<le> length mem \<Longrightarrow> length (mem_write off bs mem) = length mem"
  by (simp add: mem_write_def)

lemma bslice_mem_write_before: "off + n \<le> o' \<Longrightarrow> o' \<le> length mem \<Longrightarrow> bslice off n (mem_write o' bs mem) = bslice off n mem"
  by (simp add: mem_write_def bslice_append_left) (simp add: bslice_def drop_take)

lemma bslice_mem_write_same: "off \<le> length mem \<Longrightarrow> bslice off (length bs) (mem_write off bs mem) = bslice 0 (length bs) bs"
  by (simp add: mem_write_def bslice_append_right bslice_append_left)

lemma MQTT_MQ_CURRSZ_simps [simp]: "MQTT_MQ_CURRSZ (mq\<lparr>mq_curr_sz := n\<rparr>) = MQTT_MQ_CURRSZ mq"
  by (simp add: MQTT_MQ_CURRSZ_def Let_def)

lemma recompute_simps [simp]:
  "mq_mem (recompute_curr_sz mq) = mq_mem mq" "mq_curr (recompute_curr_sz mq) = mq_curr mq"
  "mq_msgs (recompute_curr_sz mq) = mq_msgs mq" "mq_curr_sz (recompute_curr_sz mq) = MQTT_MQ_CURRSZ mq"
  "MQTT_MQ_CURRSZ (recompute_curr_sz mq) = MQTT_MQ_CURRSZ mq"
  by (simp_all add: recompute_curr_sz_def)

lemma mq_init_ok: "mq_ok (mqtt_mq_init buf) \<and> mq_abs (mqtt_mq_init buf) = []"
  by (simp add: mq_ok_def mqtt_mq_init_def mq_abs_def)

text \<open>Writing to the free space keeps the messages.\<close>

lemma mq_okD:
  assumes "mq_ok mq"
  shows "mq_curr mq + mq_curr_sz mq \<le> length (mq_mem mq)"
    and "0 < mq_curr_sz mq \<Longrightarrow> mq_curr mq + mq_curr_sz mq + 40 * (length (mq_msgs mq) + 1) = length (mq_mem mq)"
    and "m \<in> set (mq_msgs mq) \<Longrightarrow> qm_start m + qm_size m \<le> mq_curr mq"
  using assms packets_fromD(2) [of 0 "mq_msgs mq" "mq_curr mq" m]
  by (auto simp: mq_ok_def MQTT_MQ_CURRSZ_def sizeof_mqtt_queued_message_def Let_def split: if_splits)

lemma write_free_space:
  assumes "mq_ok mq" and "length bs \<le> mq_curr_sz mq"
  shows "mq_ok (mq\<lparr>mq_mem := mem_write (mq_curr mq) bs (mq_mem mq)\<rparr>)"
    and "mq_abs (mq\<lparr>mq_mem := mem_write (mq_curr mq) bs (mq_mem mq)\<rparr>) = mq_abs mq"
proof -
  have l: "mq_curr mq + length bs \<le> length (mq_mem mq)" using mq_okD(1) [OF assms(1)] assms(2) by linarith
  then show "mq_ok (mq\<lparr>mq_mem := mem_write (mq_curr mq) bs (mq_mem mq)\<rparr>)"
    using assms(1) by (simp add: mq_ok_def MQTT_MQ_CURRSZ_def Let_def)
  show "mq_abs (mq\<lparr>mq_mem := mem_write (mq_curr mq) bs (mq_mem mq)\<rparr>) = mq_abs mq"
    using mq_okD(3) [OF assms(1)] l by (auto simp: mq_abs_def queued_of_def bslice_mem_write_before)
qed

lemma mq_register:
  assumes "mq_ok mq" and "0 < n" and "n \<le> mq_curr_sz mq"
  shows "mq_ok (mqtt_mq_register old n mq)"
    and "mq_abs (mqtt_mq_register old n mq) = mq_abs mq @
      [(bslice (mq_curr mq) n (mq_mem mq), MQTT_QUEUED_UNSENT, qm_time_sent old, qm_control_type old, qm_packet_id old)]"
  using assms mq_okD(2) [OF assms(1)]
  by (simp_all add: mq_ok_def mqtt_mq_register_def mq_abs_def queued_of_def sizeof_mqtt_queued_message_def)

lemma new_head_drop:
  "drop (new_head ms) ms = dropWhile (\<lambda>m. qm_state m = MQTT_QUEUED_COMPLETE) ms" "new_head ms \<le> length ms"
  by (induction ms) auto

lemma queue_clean_map:
  "queue_clean (map (queued_of mem) ms) = map (queued_of mem) (dropWhile (\<lambda>m. qm_state m = MQTT_QUEUED_COMPLETE) ms)"
  by (simp add: queue_clean_def dropWhile_map comp_def queued_of_def)

lemma clean_move:
  assumes ok: "mq_ok mq" and k: "k < length (mq_msgs mq)"
  defines "start \<equiv> qm_start (mq_msgs mq ! k)"
  defines "mq' \<equiv> mq\<lparr>mq_mem := mem_write 0 (bslice start (mq_curr mq - start) (mq_mem mq)) (mq_mem mq), mq_curr := mq_curr mq - start,
      mq_msgs := map (\<lambda>m. m\<lparr>qm_start := qm_start m - start\<rparr>) (drop k (mq_msgs mq))\<rparr>"
  shows "mq_ok (recompute_curr_sz mq')" and "mq_abs (recompute_curr_sz mq') = map (queued_of (mq_mem mq)) (drop k (mq_msgs mq))"
proof -
  let ?ms = "mq_msgs mq"
  define n where "n = mq_curr mq - start"
  have "packets_from 0 (take k ?ms @ drop k ?ms) = Some (mq_curr mq)"
    using ok by (simp only: append_take_drop_id mq_ok_def)
  then obtain c where "packets_from c (drop k ?ms) = Some (mq_curr mq)"
    by (simp only: packets_from_append bind_eq_Some_conv) blast
  then have pf: "packets_from start (drop k ?ms) = Some (mq_curr mq)"
    using k by (auto simp: start_def Cons_nth_drop_Suc [symmetric] split: if_splits)
  have le: "start \<le> mq_curr mq" "start + n = mq_curr mq" using packets_fromD(1) [OF pf] by (simp_all add: n_def)
  have cm: "mq_curr mq \<le> length (mq_mem mq)" using ok by (simp add: mq_ok_def)
  have sl: "length (bslice start n (mq_mem mq)) = n" using le cm by simp
  define mem where "mem = mem_write 0 (bslice start n (mq_mem mq)) (mq_mem mq)"
  have lm: "length mem = length (mq_mem mq)" using le cm by (simp add: mem_def)
  have q: "queued_of mem (m\<lparr>qm_start := qm_start m - start\<rparr>) = queued_of (mq_mem mq) m" if "m \<in> set (drop k ?ms)" for m
  proof -
    have r: "start \<le> qm_start m" "qm_start m + qm_size m \<le> mq_curr mq" using packets_fromD(2) [OF pf that] by simp_all
    then have "bslice (qm_start m - start) (qm_size m) mem = bslice (qm_start m - start) (qm_size m) (bslice start n (mq_mem mq))"
      using le sl by (simp add: mem_def mem_write_def bslice_append_left)
    also have "\<dots> = bslice (qm_start m) (qm_size m) (mq_mem mq)"
      using r le by (simp add: bslice_def drop_take min_def)
    finally show ?thesis by (simp add: queued_of_def)
  qed
  show "mq_abs (recompute_curr_sz mq') = map (queued_of (mq_mem mq)) (drop k ?ms)"
    using q by (simp add: mq'_def mq_abs_def n_def [symmetric] mem_def [symmetric])
  have "length ?ms - k \<le> length ?ms" "mq_curr mq - start \<le> mq_curr mq" by simp_all
  then have "n + 40 * (length ?ms - k) \<le> length mem" using ok lm unfolding n_def mq_ok_def sizeof_mqtt_queued_message_def by linarith
  then show "mq_ok (recompute_curr_sz mq')"
    using packets_from_shift [of 0 start "drop k ?ms" "mq_curr mq"] pf
    by (simp add: mq'_def n_def [symmetric] mem_def [symmetric] mq_ok_def sizeof_mqtt_queued_message_def)
qed

lemma mq_clean:
  assumes "mq_ok mq"
  shows "mq_ok (mqtt_mq_clean mq)" and "mq_abs (mqtt_mq_clean mq) = queue_clean (mq_abs mq)"
proof -
  let ?k = "new_head (mq_msgs mq)" and ?ms = "mq_msgs mq"
  have d: "map (queued_of (mq_mem mq)) (drop ?k ?ms) = queue_clean (mq_abs mq)"
    by (simp add: mq_abs_def queue_clean_map new_head_drop)
  consider "?k = length ?ms" | "?k < length ?ms" "?k = 0" | "?k < length ?ms" "?k \<noteq> 0"
    using new_head_drop(2) [of ?ms] by linarith
  then have "mq_ok (mqtt_mq_clean mq) \<and> mq_abs (mqtt_mq_clean mq) = queue_clean (mq_abs mq)"
  proof cases
    case 1
    then show ?thesis using assms d by (simp add: mqtt_mq_clean_def Let_def mq_ok_def mq_abs_def)
  next
    case 2
    then show ?thesis using assms d by (simp add: mqtt_mq_clean_def Let_def mq_abs_def)
  next
    case 3
    then show ?thesis using clean_move [OF assms 3(1)] d by (simp add: mqtt_mq_clean_def Let_def)
  qed
  then show "mq_ok (mqtt_mq_clean mq)" "mq_abs (mqtt_mq_clean mq) = queue_clean (mq_abs mq)" by simp_all
qed

text \<open>
  C19: The queue in the buffer implements a list of messages with their packets: cleaning removes the complete
  messages at its front, registering a packet of the size that was written appends a message with it, and both keep
  the packets of the other messages, which stay in front of the structs.
\<close>

theorem mqtt_queue_refines_list:
  assumes "mq_ok mq" and "0 < n" and "n \<le> mq_curr_sz mq"
  shows "mq_ok (mqtt_mq_clean mq) \<and> mq_abs (mqtt_mq_clean mq) = queue_clean (mq_abs mq) \<and>
    mq_ok (mqtt_mq_register old n mq) \<and> mq_abs (mqtt_mq_register old n mq) = mq_abs mq @
      [(bslice (mq_curr mq) n (mq_mem mq), MQTT_QUEUED_UNSENT, qm_time_sent old, qm_control_type old, qm_packet_id old)]"
  using mq_clean [OF assms(1)] mq_register [OF assms] by simp

definition old_demo :: mqtt_queued_message where
  "old_demo = \<lparr>qm_start = 0, qm_size = 0, qm_state = MQTT_QUEUED_UNSENT, qm_time_sent = 0, qm_control_type = 0, qm_packet_id = 0\<rparr>"

definition mq_demo :: mqtt_message_queue where "mq_demo = mqtt_mq_init (replicate 2048 0)"

lemma mq_demo: "mq_ok mq_demo" "mq_abs mq_demo = []" "mq_curr_sz mq_demo = 2008"
  by (simp_all add: mq_demo_def mq_init_ok) (simp add: mqtt_mq_init_def MQTT_MQ_CURRSZ_def sizeof_mqtt_queued_message_def)

theorem mqtt_queue_refines_list_witness:
  "mq_ok (mqtt_mq_clean mq_demo) \<and> mq_abs (mqtt_mq_clean mq_demo) = queue_clean (mq_abs mq_demo) \<and>
    mq_ok (mqtt_mq_register old_demo 3 mq_demo) \<and> mq_abs (mqtt_mq_register old_demo 3 mq_demo) = mq_abs mq_demo @
      [(bslice (mq_curr mq_demo) 3 (mq_mem mq_demo), MQTT_QUEUED_UNSENT, qm_time_sent old_demo, qm_control_type old_demo, qm_packet_id old_demo)]"
  by (rule mqtt_queue_refines_list) (simp_all add: mq_demo)

section \<open>Packing into the queue\<close>

text \<open>What the queue needs of a function that packs a request: it writes no more than the space given, and its result
  is the number of bytes written.\<close>

locale packer =
  fixes pack :: "nat \<Rightarrow> packed"
  assumes fits: "pack n = (r, bs) \<Longrightarrow> length bs \<le> n"
    and result: "pack n = (Inr k, bs) \<Longrightarrow> 0 < k \<Longrightarrow> k = length bs"
begin

lemma pack_at_curr:
  assumes "mq_ok mq" and "pack_at_curr pack mq = (r, mq')"
  shows "mq_ok mq' \<and> mq_abs mq' = mq_abs mq \<and> mq_curr_sz mq' = mq_curr_sz mq \<and> mq_msgs mq' = mq_msgs mq \<and>
    (\<forall>k. r = Inr k \<and> 0 < k \<longrightarrow> k \<le> mq_curr_sz mq \<and> pack (mq_curr_sz mq) = (Inr k, bslice (mq_curr mq') k (mq_mem mq')))"
proof -
  obtain bs where p: "pack (mq_curr_sz mq) = (r, bs)" "mq' = mq\<lparr>mq_mem := mem_write (mq_curr mq) bs (mq_mem mq)\<rparr>"
    using assms(2) by (auto simp: pack_at_curr_def split: prod.splits)
  have l: "length bs \<le> mq_curr_sz mq" by (rule fits [OF p(1)])
  have "mq_curr mq \<le> length (mq_mem mq)" using assms(1) by (simp add: mq_ok_def)
  then have b: "bslice (mq_curr mq) (length bs) (mem_write (mq_curr mq) bs (mq_mem mq)) = bs"
    by (simp add: bslice_mem_write_same bslice_full)
  have "k \<le> mq_curr_sz mq \<and> pack (mq_curr_sz mq) = (Inr k, bslice (mq_curr mq') k (mq_mem mq'))" if "r = Inr k" "0 < k" for k
    using result [of "mq_curr_sz mq" k bs] that p l b by simp
  then show ?thesis using write_free_space [OF assms(1) l] by (auto simp: p(2))
qed

lemma try_pack_room:
  assumes "mq_ok mq" and "pack (mq_curr_sz mq) = (Inr k, p)" and "0 < k"
  obtains mq' where "mq_try_pack pack old mq = (None, mq')" "mq_ok mq'"
    "mq_abs mq' = mq_abs mq @ [(p, MQTT_QUEUED_UNSENT, qm_time_sent old, qm_control_type old, qm_packet_id old)]"
    "length (mq_mem mq') = length (mq_mem mq)" "mq_curr mq' = mq_curr mq + k" "length (mq_msgs mq') = Suc (length (mq_msgs mq))"
proof -
  have kl: "k = length p" "length p \<le> mq_curr_sz mq" using result [OF assms(2,3)] fits [OF assms(2)] by simp_all
  let ?q = "mq\<lparr>mq_mem := mem_write (mq_curr mq) p (mq_mem mq)\<rparr>"
  have t: "mq_try_pack pack old mq = (None, mqtt_mq_register old k ?q)"
    using assms(2,3) by (simp add: mq_try_pack_def pack_at_curr_def)
  have cl: "mq_curr mq + length p \<le> length (mq_mem mq)" using mq_okD(1) [OF assms(1)] kl by linarith
  then have b: "bslice (mq_curr mq) k (mem_write (mq_curr mq) p (mq_mem mq)) = p"
    using kl by (simp add: bslice_mem_write_same bslice_full)
  note w = write_free_space [OF assms(1) kl(2)]
  show ?thesis
    using that [OF t] mq_register [OF w(1), of k old] w(2) kl assms(3) b cl
    by (simp add: mqtt_mq_register_def)
qed


text \<open>The request becomes the last message of the queue, behind those that were there or behind what cleaning left.\<close>

lemma try_pack:
  assumes "mq_ok mq" and "mq_try_pack pack old mq = (err, mq')"
  shows "mq_ok mq' \<and> (\<exists>xs \<in> {mq_abs mq, queue_clean (mq_abs mq)}. case err of
      None \<Rightarrow> \<exists>n p. pack n = (Inr (length p), p) \<and> p \<noteq> [] \<and>
        mq_abs mq' = xs @ [(p, MQTT_QUEUED_UNSENT, qm_time_sent old, qm_control_type old, qm_packet_id old)]
    | Some e \<Rightarrow> mq_abs mq' = xs)"
proof -
  have reg: "mq_ok (mqtt_mq_register old k q) \<and> (\<exists>n p. pack n = (Inr (length p), p) \<and> p \<noteq> [] \<and>
      mq_abs (mqtt_mq_register old k q) = mq_abs q0 @ [(p, MQTT_QUEUED_UNSENT, qm_time_sent old, qm_control_type old, qm_packet_id old)])"
    if q: "mq_ok q0" "pack_at_curr pack q0 = (Inr k, q)" "k \<noteq> 0" for q0 k q
  proof -
    note p = pack_at_curr [OF q(1,2)]
    define b where "b = bslice (mq_curr q) k (mq_mem q)"
    have k: "k \<le> mq_curr_sz q" "pack (mq_curr_sz q0) = (Inr k, b)" using p q(3) by (auto simp: b_def)
    then have "k = length b" "b \<noteq> []" using result [OF k(2)] q(3) by auto
    then show ?thesis using mq_register [of q k old] p k q(3)
      by (intro conjI exI [of _ "mq_curr_sz q0"] exI [of _ b]) (auto simp: b_def [symmetric])
  qed
  obtain r q where r: "pack_at_curr pack mq = (r, q)" by fastforce
  note q = pack_at_curr [OF assms(1) r]
  obtain r2 q2 where r2: "pack_at_curr pack (mqtt_mq_clean q) = (r2, q2)" by fastforce
  have c: "mq_ok (mqtt_mq_clean q)" "mq_abs (mqtt_mq_clean q) = queue_clean (mq_abs mq)" using mq_clean q by auto
  note q2 = pack_at_curr [OF c(1) r2]
  consider e where "r = Inl e" | k where "r = Inr k" "k \<noteq> 0" | "r = Inr 0" by (cases r) auto
  then show ?thesis
  proof cases
    case 1
    then show ?thesis using assms(2) r q by (auto simp: mq_try_pack_def)
  next
    case 2
    then show ?thesis using assms(2) r q reg [OF assms(1), of k q] by (auto simp: mq_try_pack_def)
  next
    case 3
    then have "mq_try_pack pack old mq = (case (r2, q2) of (Inl err, mq) \<Rightarrow> (Some err, mq)
        | (Inr n, mq) \<Rightarrow> if n \<noteq> 0 then (None, mqtt_mq_register old n mq) else (Some MQTT_ERROR_SEND_BUFFER_IS_FULL, mq))"
      using r r2 by (simp add: mq_try_pack_def)
    then show ?thesis using assms(2) q2 c reg [OF c(1), of _ q2] r2
      by (cases r2) (auto split: if_splits)
  qed
qed

end


section \<open>The requests of the client\<close>

lemma pack_length_fits: "pack_length n rl = (bs, r) \<Longrightarrow> 0 < n \<Longrightarrow> length bs < n"
proof (induction n rl arbitrary: bs r rule: pack_length.induct)
  case (2 n rl)
  show ?case
  proof (cases "n = 0 \<or> \<not> rl > 127")
    case True
    then show ?thesis using "2.prems"(1) by (auto split: if_splits)
  next
    case False
    obtain cs r' where "pack_length n (drop_bit 7 rl) = (cs, r')" by fastforce
    then show ?thesis using "2.IH" [of cs r'] "2.prems"(1) False by (auto simp: Let_def split: if_splits)
  qed
qed simp

lemma pack_fixed_header_fits:
  assumes "mqtt_pack_fixed_header n h = (r, bs)"
  shows "length bs \<le> n" and "r = Inr k \<Longrightarrow> 0 < k \<Longrightarrow> k = length bs"
  using assms pack_length_fits [of n "fh_remaining_length h"]
  by (fastforce simp: mqtt_pack_fixed_header_def Let_def split: option.splits if_splits prod.splits)+

lemma packer_packet:
  assumes "unat (fh_remaining_length h) = length rest"
  shows "packer (\<lambda>n. pack_packet n h rest)"
proof
  fix n r bs
  assume p: "pack_packet n h rest = (r, bs)"
  obtain r' cs where h: "mqtt_pack_fixed_header n h = (r', cs)" by fastforce
  note f = pack_fixed_header_fits [OF h]
  show "length bs \<le> n"
    using p f h assms by (cases r') (auto simp: pack_packet_def split: if_splits)
next
  fix n k bs
  assume p: "pack_packet n h rest = (Inr k, bs)" "0 < k"
  obtain r' cs where h: "mqtt_pack_fixed_header n h = (r', cs)" by fastforce
  note f = pack_fixed_header_fits [OF h]
  show "k = length bs"
    using p f h assms by (cases r') (auto simp: pack_packet_def split: if_splits)
qed

lemma pack_length_room:
  "unat rl < 2 ^ (7 * k) \<Longrightarrow> k < n \<Longrightarrow> 0 < k \<Longrightarrow> \<exists>bs left. pack_length n rl = (bs, Some left) \<and> length bs \<le> k"
proof (induction n rl arbitrary: k rule: pack_length.induct)
  case (2 n rl)
  show ?case
  proof (cases "rl > 127")
    case True
    then have "2 ^ 7 \<le> unat rl" by (simp add: word_less_nat_alt)
    then have "(2 :: nat) ^ 7 < 2 ^ (7 * k)" using "2.prems"(1) by linarith
    then have k: "1 < k" using "2.prems"(3) by (cases "k = 1") auto
    have "7 * k = 7 * (k - 1) + 7" using k by simp
    then have "unat rl < 2 ^ (7 * (k - 1)) * 2 ^ 7" using "2.prems"(1) by (simp only: power_add)
    then have d: "unat (drop_bit 7 rl) < 2 ^ (7 * (k - 1))"
      by (simp add: unat_drop_bit_eq drop_bit_eq_div unat_div less_mult_imp_div_less)
    have n: "n \<noteq> 0" "k - 1 < n" "0 < k - 1" using k "2.prems"(2) by auto
    obtain bs left where "pack_length n (drop_bit 7 rl) = (bs, Some left)" "length bs \<le> k - 1"
      using "2.IH" [OF n(1) True d n(2,3)] by blast
    then show ?thesis using True n k by (auto simp: Let_def)
  qed (use "2.prems" in auto)
qed simp

lemma pack_packet_room:
  assumes "header_wf h" and "unat (fh_remaining_length h) = length rest" and "length rest + 5 \<le> n"
  shows "\<exists>k bs. pack_packet n h rest = (Inr k, bs) \<and> 0 < k \<and> k \<le> length rest + 5"
proof -
  have "unat (fh_remaining_length h) < 2 ^ (7 * 4)" using assms(1) by (simp add: header_wf_def word_less_nat_alt)
  then obtain cs left where c: "pack_length n (fh_remaining_length h) = (cs, Some left)" "length cs \<le> 4"
    using pack_length_room [of "fh_remaining_length h" 4 n] assms(3) by auto
  have l: "length cs + left + 1 = n" by (rule pack_length_some(1) [OF c(1)])
  then have h: "\<exists>b. mqtt_pack_fixed_header n h = (Inr (1 + length cs), b # cs)"
    using assms c by (auto simp: mqtt_pack_fixed_header_def header_wf_def Let_def)
  then show ?thesis using assms(2,3) c(2) by (auto simp: pack_packet_def)
qed

text \<open>The connection request of \<open>MQTT_connect\<close>: no client id and no will, a user name, a password and a clean session.\<close>

definition mudband_user :: bytes where "mudband_user = bytes_of_string ''mudband''"
definition mudband_password :: bytes where "mudband_password = bytes_of_string ''20241127''"

abbreviation (input) pack_connect :: "nat \<Rightarrow> packed" where
  "pack_connect n \<equiv> mqtt_pack_connection_request n [] None None (Some mudband_user) (Some mudband_password) 2 400"

interpretation connect: packer pack_connect
proof -
  have "length mudband_user = 7" "length mudband_password = 8"
    by (simp_all add: mudband_user_def mudband_password_def bytes_of_string_def)
  then show "packer pack_connect"
    by (simp add: mqtt_pack_connection_request_def Let_def opt_len_def opt_str_def packer_packet)
qed

interpretation subscribe: packer "\<lambda>n. mqtt_pack_subscribe_request n packet_id [(take 127 t, q)]" for packet_id t q
proof -
  have "min (length t) 127 mod 65536 = min (length t) 127" by simp
  moreover have "unat (word_of_nat (2 + (2 + min (length t) 127 + 1)) :: u32) = 2 + (2 + min (length t) 127 + 1)"
    by (simp only: unsigned_of_nat of_nat_id take_bit_nat_eq_self_iff) simp
  ultimately show "packer (\<lambda>n. mqtt_pack_subscribe_request n packet_id [(take 127 t, q)])"
    by (simp add: mqtt_pack_subscribe_request_def packer_packet)
qed

interpretation pubxxx: packer "\<lambda>n. mqtt_pack_pubxxx_request n ctype packet_id" for ctype packet_id
  unfolding mqtt_pack_pubxxx_request_def by (rule packer_packet) simp

interpretation ping: packer mqtt_pack_ping_request
  by unfold_locales (auto simp: mqtt_pack_ping_request_def dest: pack_fixed_header_fits)

end
