(* ===== verification/Bpf.thy ===== *)
theory Bpf
  imports Crypto_Util
begin

text \<open>
  \<open>common/mudband_bpf.c\<close>: the interpreter and the validator of the access control filters. The
  outcomes besides a returned value are the ways the C function can go wrong: the explicit
  \<open>abort()\<close>, a read past the program, the packet or the scratch memory, a division by zero, and a
  shift by 32 or more (undefined in C).
\<close>

section \<open>Instructions\<close>

record mudband_bpf_insn =
  bcode :: u16
  bjt :: u8
  bjf :: u8
  bk :: u32

text \<open>The \<open>case\<close> labels of the interpreter's \<open>switch\<close>, in its order.\<close>

datatype bpf_src = SrcX | SrcK

datatype bpf_alu = ADD | SUB | MUL | DIV | AND_op | OR_op | LSH | RSH

datatype bpf_cond = JGT | JGE | JEQ | JSET

datatype bpf_op =
    RET_K | RET_A
  | LD_W_ABS | LD_H_ABS | LD_B_ABS
  | LD_W_LEN | LDX_W_LEN
  | LD_W_IND | LD_H_IND | LD_B_IND
  | LDX_MSH_B
  | LD_IMM | LDX_IMM | LD_MEM | LDX_MEM
  | ST | STX
  | JA | JMP bpf_cond bpf_src
  | ALU bpf_alu bpf_src | ALU_NEG
  | TAX | TXA

definition bpf_labels :: "(u16 \<times> bpf_op) list" where
  "bpf_labels =
    [(0x06, RET_K), (0x16, RET_A),
     (0x20, LD_W_ABS), (0x28, LD_H_ABS), (0x30, LD_B_ABS),
     (0x80, LD_W_LEN), (0x81, LDX_W_LEN),
     (0x40, LD_W_IND), (0x48, LD_H_IND), (0x50, LD_B_IND),
     (0xb1, LDX_MSH_B),
     (0x00, LD_IMM), (0x01, LDX_IMM), (0x60, LD_MEM), (0x61, LDX_MEM),
     (0x02, ST), (0x03, STX),
     (0x05, JA),
     (0x25, JMP JGT SrcK), (0x35, JMP JGE SrcK), (0x15, JMP JEQ SrcK), (0x45, JMP JSET SrcK),
     (0x2d, JMP JGT SrcX), (0x3d, JMP JGE SrcX), (0x1d, JMP JEQ SrcX), (0x4d, JMP JSET SrcX),
     (0x0c, ALU ADD SrcX), (0x1c, ALU SUB SrcX), (0x2c, ALU MUL SrcX), (0x3c, ALU DIV SrcX),
     (0x5c, ALU AND_op SrcX), (0x4c, ALU OR_op SrcX), (0x6c, ALU LSH SrcX), (0x7c, ALU RSH SrcX),
     (0x04, ALU ADD SrcK), (0x14, ALU SUB SrcK), (0x24, ALU MUL SrcK), (0x34, ALU DIV SrcK),
     (0x54, ALU AND_op SrcK), (0x44, ALU OR_op SrcK), (0x64, ALU LSH SrcK), (0x74, ALU RSH SrcK),
     (0x84, ALU_NEG), (0x07, TAX), (0x87, TXA)]"

definition bpf_decode :: "u16 \<Rightarrow> bpf_op option" where
  "bpf_decode c = map_of bpf_labels c"

section \<open>The interpreter\<close>

datatype bpf_outcome =
  Ret u32 | Aborted | Bad_pc | Bad_read | Bad_mem | Div_zero | Undef_shift

text \<open>One iteration: stop with an outcome, or go on after skipping instructions.\<close>

datatype bpf_step = Done bpf_outcome | Cont nat u32 u32 "u32 list"

definition BPF_MEMWORDS :: nat where
  "BPF_MEMWORDS = 16"

definition EXTRACT_SHORT :: "bytes \<Rightarrow> u16" where
  "EXTRACT_SHORT p = push_bit 8 (ucast (p ! 0)) OR ucast (p ! 1)"

definition EXTRACT_LONG :: "bytes \<Rightarrow> u32" where
  "EXTRACT_LONG p =
     push_bit 24 (ucast (p ! 0)) OR push_bit 16 (ucast (p ! 1)) OR push_bit 8 (ucast (p ! 2)) OR
     ucast (p ! 3)"

definition load_W :: "bytes \<Rightarrow> nat \<Rightarrow> u32 \<Rightarrow> u32 list \<Rightarrow> bpf_step" where
  "load_W p k X mem =
     (if k + 4 \<le> length p then Cont 0 (EXTRACT_LONG (bslice k 4 p)) X mem else Done Bad_read)"

definition load_H :: "bytes \<Rightarrow> nat \<Rightarrow> u32 \<Rightarrow> u32 list \<Rightarrow> bpf_step" where
  "load_H p k X mem =
     (if k + 2 \<le> length p then Cont 0 (ucast (EXTRACT_SHORT (bslice k 2 p))) X mem
      else Done Bad_read)"

definition load_B :: "bytes \<Rightarrow> nat \<Rightarrow> u32 \<Rightarrow> u32 list \<Rightarrow> bpf_step" where
  "load_B p k X mem =
     (if k < length p then Cont 0 (ucast (p ! k)) X mem else Done Bad_read)"

definition bpf_test :: "bpf_cond \<Rightarrow> u32 \<Rightarrow> u32 \<Rightarrow> bool" where
  "bpf_test c A v =
     (case c of JGT \<Rightarrow> A > v | JGE \<Rightarrow> A \<ge> v | JEQ \<Rightarrow> A = v | JSET \<Rightarrow> A AND v \<noteq> 0)"

definition bpf_alu_op :: "bpf_alu \<Rightarrow> u32 \<Rightarrow> u32 \<Rightarrow> bpf_outcome + u32" where
  "bpf_alu_op op A v =
     (case op of
        ADD \<Rightarrow> Inr (A + v)
      | SUB \<Rightarrow> Inr (A - v)
      | MUL \<Rightarrow> Inr (A * v)
      | DIV \<Rightarrow> if v = 0 then Inl Div_zero else Inr (A div v)
      | AND_op \<Rightarrow> Inr (A AND v)
      | OR_op \<Rightarrow> Inr (A OR v)
      | LSH \<Rightarrow> if unat v < 32 then Inr (push_bit (unat v) A) else Inl Undef_shift
      | RSH \<Rightarrow> if unat v < 32 then Inr (drop_bit (unat v) A) else Inl Undef_shift)"

definition bpf_exec ::
  "mudband_bpf_insn \<Rightarrow> bytes \<Rightarrow> u32 \<Rightarrow> u32 \<Rightarrow> u32 \<Rightarrow> u32 \<Rightarrow> u32 list \<Rightarrow> bpf_step" where
  "bpf_exec i p wirelen buflen A X mem =
     (case bpf_decode (bcode i) of
        None \<Rightarrow> Done Aborted
      | Some RET_K \<Rightarrow> Done (Ret (bk i))
      | Some RET_A \<Rightarrow> Done (Ret A)
      | Some LD_W_ABS \<Rightarrow>
          if bk i > buflen \<or> 4 > unat (buflen - bk i) then Done (Ret 0)
          else load_W p (unat (bk i)) X mem
      | Some LD_H_ABS \<Rightarrow>
          if bk i > buflen \<or> 2 > unat (buflen - bk i) then Done (Ret 0)
          else load_H p (unat (bk i)) X mem
      | Some LD_B_ABS \<Rightarrow>
          if bk i \<ge> buflen then Done (Ret 0) else load_B p (unat (bk i)) X mem
      | Some LD_W_LEN \<Rightarrow> Cont 0 wirelen X mem
      | Some LDX_W_LEN \<Rightarrow> Cont 0 A wirelen mem
      | Some LD_W_IND \<Rightarrow>
          if bk i > buflen \<or> X > buflen - bk i \<or> 4 > unat (buflen - (X + bk i)) then Done (Ret 0)
          else load_W p (unat (X + bk i)) X mem
      | Some LD_H_IND \<Rightarrow>
          if X > buflen \<or> bk i > buflen - X \<or> 2 > unat (buflen - (X + bk i)) then Done (Ret 0)
          else load_H p (unat (X + bk i)) X mem
      | Some LD_B_IND \<Rightarrow>
          if bk i \<ge> buflen \<or> X \<ge> buflen - bk i then Done (Ret 0)
          else load_B p (unat (X + bk i)) X mem
      | Some LDX_MSH_B \<Rightarrow>
          if bk i \<ge> buflen then Done (Ret 0)
          else if unat (bk i) < length p
          then Cont 0 A (push_bit 2 (ucast (p ! unat (bk i)) AND 0xf)) mem
          else Done Bad_read
      | Some LD_IMM \<Rightarrow> Cont 0 (bk i) X mem
      | Some LDX_IMM \<Rightarrow> Cont 0 A (bk i) mem
      | Some LD_MEM \<Rightarrow>
          if unat (bk i) < length mem then Cont 0 (mem ! unat (bk i)) X mem else Done Bad_mem
      | Some LDX_MEM \<Rightarrow>
          if unat (bk i) < length mem then Cont 0 A (mem ! unat (bk i)) mem else Done Bad_mem
      | Some ST \<Rightarrow>
          if unat (bk i) < length mem then Cont 0 A X (mem[unat (bk i) := A]) else Done Bad_mem
      | Some STX \<Rightarrow>
          if unat (bk i) < length mem then Cont 0 A X (mem[unat (bk i) := X]) else Done Bad_mem
      | Some JA \<Rightarrow> Cont (unat (bk i)) A X mem
      | Some (JMP c s) \<Rightarrow>
          Cont (unat (if bpf_test c A (case s of SrcK \<Rightarrow> bk i | SrcX \<Rightarrow> X) then bjt i else bjf i))
            A X mem
      | Some (ALU DIV SrcX) \<Rightarrow> if X = 0 then Done (Ret 0) else Cont 0 (A div X) X mem
      | Some (ALU op s) \<Rightarrow>
          (case bpf_alu_op op A (case s of SrcK \<Rightarrow> bk i | SrcX \<Rightarrow> X) of
             Inl e \<Rightarrow> Done e
           | Inr a \<Rightarrow> Cont 0 a X mem)
      | Some ALU_NEG \<Rightarrow> Cont 0 (- A) X mem
      | Some TAX \<Rightarrow> Cont 0 A A mem
      | Some TXA \<Rightarrow> Cont 0 X X mem)"

text \<open>The \<open>while (1)\<close> loop. All jumps are forward, so the distance to the end of the array bounds
  the iterations.\<close>

function bpf_run ::
  "mudband_bpf_insn list \<Rightarrow> bytes \<Rightarrow> u32 \<Rightarrow> u32 \<Rightarrow> nat \<Rightarrow> u32 \<Rightarrow> u32 \<Rightarrow> u32 list \<Rightarrow> bpf_outcome" where
  "bpf_run f p wirelen buflen pc A X mem =
     (if pc < length f
      then case bpf_exec (f ! pc) p wirelen buflen A X mem of
             Done r \<Rightarrow> r
           | Cont off A X mem \<Rightarrow> bpf_run f p wirelen buflen (pc + off + 1) A X mem
      else Bad_pc)"
  by pat_completeness auto
termination
  by (relation "measure (\<lambda>(f, p, wirelen, buflen, pc, A, X, mem). length f - pc)") auto

declare bpf_run.simps [simp del]

text \<open>\<open>None\<close> is a null program.\<close>

definition mudband_bpf_filter ::
  "mudband_bpf_insn list option \<Rightarrow> bytes \<Rightarrow> u32 \<Rightarrow> u32 \<Rightarrow> bpf_outcome" where
  "mudband_bpf_filter f p wirelen buflen =
     (case f of
        None \<Rightarrow> Ret (- 1)
      | Some f \<Rightarrow> bpf_run f p wirelen buflen 0 0 0 (replicate BPF_MEMWORDS 0))"

section \<open>The validator\<close>

definition bpf_code_map :: "u16 list" where
  "bpf_code_map =
    [0x10ff, 0x3070, 0x3131, 0x3031, 0x3131, 0x1011, 0x1013, 0x1010,
     0x0093, 0x0000, 0x0000, 0x0002, 0x0000, 0x0000, 0x0000, 0x0000]"

definition BPF_VALIDATE_CODE :: "u16 \<Rightarrow> bool" where
  "BPF_VALIDATE_CODE c \<longleftrightarrow>
     c \<le> 0xff \<and> bpf_code_map ! unat (drop_bit 4 c) AND push_bit (unat (c AND 0xf)) 1 \<noteq> 0"

definition bpf_check_insn :: "mudband_bpf_insn \<Rightarrow> nat \<Rightarrow> nat \<Rightarrow> bool" where
  "bpf_check_insn p len i \<longleftrightarrow>
     BPF_VALIDATE_CODE (bcode p) \<and>
     (if bcode p AND 0x07 = 0x05
      then let offset = (if bcode p = 0x05 then unat (bk p)
                         else unat (if bjt p > bjf p then bjt p else bjf p))
           in \<not> offset \<ge> len - i - 1
      else if bcode p = 0x02 \<or> bcode p = 0x03 \<or> bcode p = 0x60 \<or> bcode p = 0x61
      then \<not> unat (bk p) \<ge> BPF_MEMWORDS
      else \<not> (bcode p = 0x34 \<and> bk p = 0))"

definition mudband_bpf_validate :: "mudband_bpf_insn list \<Rightarrow> int \<Rightarrow> bool" where
  "mudband_bpf_validate f len =
     (if len < 0 then False
      else if len = 0 then True
      else (\<forall>i \<in> set [0..<nat len]. bpf_check_insn (f ! i) (nat len) i) \<and>
           bcode (f ! (nat len - 1)) AND 0x07 = 0x06)"

section \<open>The code map\<close>

text \<open>The bit table accepts exactly the \<open>case\<close> labels.\<close>

lemma nat_less_16:
  "(n :: nat) < 16 \<longleftrightarrow> n \<in> {0, 1, 2, 3, 4, 5, 6, 7, 8, 9, 10, 11, 12, 13, 14, 15}"
  by (auto; presburger)

lemma and_push_bit_1: "(m :: 'a::len word) AND push_bit k 1 \<noteq> 0 \<longleftrightarrow> bit m k"
  by (metis and.commute and_exp_eq_0_iff_not_bit push_bit_of_1)

definition label_nums :: "nat list" where
  "label_nums = [0x06, 0x16, 0x20, 0x28, 0x30, 0x80, 0x81, 0x40, 0x48, 0x50, 0xb1, 0x00, 0x01, 0x60, 0x61,
     0x02, 0x03, 0x05, 0x25, 0x35, 0x15, 0x45, 0x2d, 0x3d, 0x1d, 0x4d,
     0x0c, 0x1c, 0x2c, 0x3c, 0x5c, 0x4c, 0x6c, 0x7c,
     0x04, 0x14, 0x24, 0x34, 0x54, 0x44, 0x64, 0x74, 0x84, 0x07, 0x87]"

lemma code_map_bits:
  assumes "h < 16" and "l < 16"
  shows "bit (bpf_code_map ! h) l \<longleftrightarrow> 16 * h + l \<in> set label_nums"
proof -
  have "\<forall>l \<in> {0, 1, 2, 3, 4, 5, 6, 7, 8, 9, 10, 11, 12, 13, 14, 15}.
      bit (bpf_code_map ! h) l \<longleftrightarrow> 16 * h + l \<in> set label_nums"
    using assms(1) unfolding nat_less_16
    by (elim insertE emptyE) (simp_all add: bpf_code_map_def label_nums_def)
  then show ?thesis using assms(2) unfolding nat_less_16 by blast
qed

lemma label_nums_labels: "map (unat \<circ> fst) bpf_labels = label_nums"
  by (simp add: bpf_labels_def label_nums_def)

lemma validate_code_iff: "BPF_VALIDATE_CODE c \<longleftrightarrow> c \<in> fst ` set bpf_labels"
proof -
  let ?n = "unat c"
  have m: "(0xf :: u16) = mask 4" by (simp add: mask_eq_exp_minus_1)
  have "unat (c AND 0xf) = ?n mod 16" unfolding m take_bit_eq_mask [symmetric] by (simp add: unat_take_bit)
  moreover have "unat (drop_bit 4 c) = ?n div 16" by (simp add: unat_drop_bit)
  moreover have "c \<le> 0xff \<longleftrightarrow> ?n < 256" by (auto simp: word_le_nat_alt)
  ultimately have "BPF_VALIDATE_CODE c \<longleftrightarrow> ?n < 256 \<and> bit (bpf_code_map ! (?n div 16)) (?n mod 16)"
    unfolding BPF_VALIDATE_CODE_def and_push_bit_1 by simp
  also have "\<dots> \<longleftrightarrow> ?n < 256 \<and> ?n \<in> set label_nums"
    using code_map_bits [of "?n div 16" "?n mod 16"] by auto
  also have "\<dots> \<longleftrightarrow> ?n \<in> set label_nums" by (auto simp: label_nums_def)
  also have "\<dots> \<longleftrightarrow> c \<in> fst ` set bpf_labels"
    unfolding label_nums_labels [symmetric] by (force simp: word_unat_eq_iff)
  finally show ?thesis .
qed

lemma decode_iff: "bpf_decode c = Some op \<longleftrightarrow> (c, op) \<in> set bpf_labels"
proof -
  have "distinct (map fst bpf_labels)" by (simp add: bpf_labels_def)
  then show ?thesis by (simp add: bpf_decode_def)
qed

lemma decode_validate: "BPF_VALIDATE_CODE c \<longleftrightarrow> (\<exists>op. bpf_decode c = Some op)"
  unfolding validate_code_iff decode_iff by force

section \<open>Validated programs are safe\<close>

definition bpf_shift :: "u16 \<Rightarrow> bool" where
  "bpf_shift c \<longleftrightarrow> c \<in> {0x6c, 0x7c, 0x64, 0x74}"

definition bpf_good_step :: "mudband_bpf_insn \<Rightarrow> nat \<Rightarrow> nat \<Rightarrow> bpf_step \<Rightarrow> bool" where
  "bpf_good_step i len pc s =
     (case s of
        Done (Ret v) \<Rightarrow> True
      | Done Undef_shift \<Rightarrow> bpf_shift (bcode i)
      | Done _ \<Rightarrow> False
      | Cont off A X mem \<Rightarrow> length mem = BPF_MEMWORDS \<and>
          (if bcode i AND 0x07 = 0x05 then pc + off + 1 < len
           else off = 0 \<and> bcode i AND 0x07 \<noteq> 0x06))"

text \<open>The bound checks before the packet loads are exact in 32-bit arithmetic.\<close>

lemma abs_bound:
  fixes k b :: u32
  assumes "\<not> k > b" and "\<not> n > unat (b - k)"
  shows "unat k + n \<le> unat b"
  using assms by (simp add: not_less unat_sub word_le_nat_alt)

lemma ind_bound:
  fixes X k b :: u32
  assumes "\<not> k > b" and "\<not> X > b - k" and "\<not> n > unat (b - (X + k))"
  shows "unat (X + k) + n \<le> unat b"
proof -
  have "unat X + unat k \<le> unat b"
    using assms(1,2) by (simp add: not_less unat_sub word_le_nat_alt)
  then have "unat (X + k) = unat X + unat k" using unsigned_less [of b, where 'a = nat] by (intro unat_add_lt) simp
  then have "\<not> X + k > b" using \<open>unat X + unat k \<le> unat b\<close> by (simp add: not_less word_le_nat_alt)
  then show ?thesis using assms(3) by (rule abs_bound)
qed

lemma ind_bound_B:
  fixes X k b :: u32
  assumes "\<not> k \<ge> b" and "\<not> X \<ge> b - k"
  shows "unat (X + k) < unat b"
proof -
  have "unat X + unat k < unat b"
    using assms by (simp add: not_le unat_sub word_less_nat_alt word_le_nat_alt)
  then show ?thesis using unsigned_less [of b, where 'a = nat] by (simp add: unat_add_lt)
qed

lemma loads_good:
  assumes "length mem = BPF_MEMWORDS" and "bcode i AND 0x07 \<noteq> 0x05" and "bcode i AND 0x07 \<noteq> 0x06"
  shows "k + 4 \<le> length p \<Longrightarrow> bpf_good_step i len pc (load_W p k X mem)"
    and "k + 2 \<le> length p \<Longrightarrow> bpf_good_step i len pc (load_H p k X mem)"
    and "k < length p \<Longrightarrow> bpf_good_step i len pc (load_B p k X mem)"
  using assms by (simp_all add: bpf_good_step_def load_W_def load_H_def load_B_def)

lemma bpf_exec_loads_good:
  assumes op: "bpf_decode (bcode i) = Some op" and b: "unat buflen \<le> length p" and "length mem = BPF_MEMWORDS"
    and ld: "op \<in> {LD_W_ABS, LD_H_ABS, LD_B_ABS, LD_W_IND, LD_H_IND, LD_B_IND}"
  shows "bpf_good_step i len pc (bpf_exec i p wirelen buflen A X mem)"
proof -
  have c: "bcode i AND 0x07 \<noteq> 0x05" "bcode i AND 0x07 \<noteq> 0x06"
    using op ld unfolding decode_iff by (auto simp: bpf_labels_def)
  note l = loads_good [OF assms(3) c]
  have r: "bpf_good_step i len pc (Done (Ret 0))" by (simp add: bpf_good_step_def)
  have W: "bpf_good_step i len pc (if g then Done (Ret 0) else load_W p k X mem)" if "\<not> g \<Longrightarrow> k + 4 \<le> unat buflen" for g k
    using that b r l(1) by auto
  have H: "bpf_good_step i len pc (if g then Done (Ret 0) else load_H p k X mem)" if "\<not> g \<Longrightarrow> k + 2 \<le> unat buflen" for g k
    using that b r l(2) by auto
  have B: "bpf_good_step i len pc (if g then Done (Ret 0) else load_B p k X mem)" if "\<not> g \<Longrightarrow> k < unat buflen" for g k
    using that b r l(3) by auto
  have bb: "unat (bk i) < unat buflen" if "\<not> bk i \<ge> buflen" using that by (simp add: not_le word_less_nat_alt)
  have hi: "unat (X + bk i) + 2 \<le> unat buflen" if "\<not> X > buflen" "\<not> bk i > buflen - X" "\<not> 2 > unat (buflen - (X + bk i))"
    using ind_bound [OF that(1,2), of 2] that(3) by (simp add: add.commute)
  from ld show ?thesis
  proof (elim insertE emptyE)
    assume o: "op = LD_W_ABS" show ?thesis
      unfolding bpf_exec_def op o option.case bpf_op.case by (rule W) (use abs_bound [of buflen "bk i" 4] in blast)
  next
    assume o: "op = LD_H_ABS" show ?thesis
      unfolding bpf_exec_def op o option.case bpf_op.case by (rule H) (use abs_bound [of buflen "bk i" 2] in blast)
  next
    assume o: "op = LD_B_ABS" show ?thesis
      unfolding bpf_exec_def op o option.case bpf_op.case by (rule B) (use bb in blast)
  next
    assume o: "op = LD_W_IND" show ?thesis
      unfolding bpf_exec_def op o option.case bpf_op.case
      by (rule W) (use ind_bound [where k = "bk i" and b = buflen and X = X and n = 4] in blast)
  next
    assume o: "op = LD_H_IND" show ?thesis
      unfolding bpf_exec_def op o option.case bpf_op.case by (rule H) (use hi in blast)
  next
    assume o: "op = LD_B_IND" show ?thesis
      unfolding bpf_exec_def op o option.case bpf_op.case
      by (rule B) (use ind_bound_B [where k = "bk i" and b = buflen and X = X] in blast)
  qed
qed

lemma bpf_exec_jumps_good:
  assumes chk: "bpf_check_insn i len pc" and "pc < len" and op: "bpf_decode (bcode i) = Some op"
    and "length mem = BPF_MEMWORDS" and "op = JA \<or> op = JMP c s"
  shows "bpf_good_step i len pc (bpf_exec i p wirelen buflen A X mem)"
proof -
  have c5: "bcode i AND 0x07 = 0x05" "op = JA \<longleftrightarrow> bcode i = 0x05"
    using op assms(5) unfolding decode_iff by (auto simp: bpf_labels_def)
  let ?m = "if bjt i > bjf i then bjt i else bjf i"
  have off: "if bcode i = 0x05 then unat (bk i) < len - pc - 1 else unat ?m < len - pc - 1"
    using chk unfolding bpf_check_insn_def Let_def c5(1) by (simp add: not_le split: if_splits)
  have ja: "pc + unat (bk i) + 1 < len" if "op = JA"
    using off that c5(2) assms(2) by simp
  have j: "pc + unat (if t then bjt i else bjf i) + 1 < len" if "op \<noteq> JA" for t
  proof -
    have "unat (if t then bjt i else bjf i) \<le> unat ?m" by (simp add: word_less_nat_alt)
    moreover have "unat ?m < len - pc - 1" using off that c5(2) by simp
    ultimately show ?thesis by linarith
  qed
  from assms(5) show ?thesis
  proof (elim disjE)
    assume o: "op = JA" show ?thesis
      unfolding bpf_exec_def op o option.case bpf_op.case bpf_good_step_def bpf_step.case
      using c5(1) assms(4) ja o by simp
  next
    assume o: "op = JMP c s" show ?thesis
      unfolding bpf_exec_def op o option.case bpf_op.case bpf_good_step_def bpf_step.case
      using c5(1) assms(4) j o by simp
  qed
qed

lemma bpf_exec_alu_good:
  assumes chk: "bpf_check_insn i len pc" and op: "bpf_decode (bcode i) = Some (ALU a s)"
    and "length mem = BPF_MEMWORDS"
  shows "bpf_good_step i len pc (bpf_exec i p wirelen buflen A X mem)"
proof -
  have c: "bcode i AND 0x07 \<noteq> 0x05" "bcode i AND 0x07 \<noteq> 0x06"
    "a \<in> {LSH, RSH} \<Longrightarrow> bpf_shift (bcode i)" "a = DIV \<Longrightarrow> s = SrcK \<Longrightarrow> bcode i = 0x34"
    using op unfolding decode_iff by (auto simp: bpf_labels_def bpf_shift_def)
  have "a = DIV \<Longrightarrow> s = SrcK \<Longrightarrow> bk i \<noteq> 0"
    using chk c(4) by (auto simp: bpf_check_insn_def)
  then show ?thesis using c assms(3) unfolding bpf_exec_def op option.case bpf_op.case
    by (cases a; cases s) (simp_all add: bpf_good_step_def bpf_alu_op_def)
qed

lemma bpf_exec_mem_good:
  assumes chk: "bpf_check_insn i len pc" and op: "bpf_decode (bcode i) = Some op"
    and "length mem = BPF_MEMWORDS" and "op \<in> {LD_MEM, LDX_MEM, ST, STX}"
  shows "bpf_good_step i len pc (bpf_exec i p wirelen buflen A X mem)"
proof -
  have c: "bcode i AND 0x07 \<noteq> 0x05" "bcode i AND 0x07 \<noteq> 0x06" "bcode i \<in> {0x02, 0x03, 0x60, 0x61}"
    using op assms(4) unfolding decode_iff by (auto simp: bpf_labels_def)
  have "unat (bk i) < length mem"
    using chk c assms(3) by (auto simp: bpf_check_insn_def)
  with assms(4) show ?thesis using c(1,2) assms(3) unfolding bpf_exec_def op option.case
    by (elim insertE emptyE) (simp_all add: bpf_good_step_def)
qed

lemma bpf_exec_good:
  assumes chk: "bpf_check_insn i len pc" and "pc < len" and b: "unat buflen \<le> length p"
    and m: "length mem = BPF_MEMWORDS"
  shows "bpf_good_step i len pc (bpf_exec i p wirelen buflen A X mem)"
proof -
  obtain op where op: "bpf_decode (bcode i) = Some op"
    using chk decode_validate by (auto simp: bpf_check_insn_def)
  consider (load) "op \<in> {LD_W_ABS, LD_H_ABS, LD_B_ABS, LD_W_IND, LD_H_IND, LD_B_IND}"
    | (jump) c s where "op = JA \<or> op = JMP c s" | (alu) a s where "op = ALU a s"
    | (memory) "op \<in> {LD_MEM, LDX_MEM, ST, STX}"
    | (simple) "op \<in> {RET_K, RET_A, LD_W_LEN, LDX_W_LEN, LDX_MSH_B, LD_IMM, LDX_IMM, ALU_NEG, TAX, TXA}"
    by (cases op) auto
  then show ?thesis
  proof cases
    case load then show ?thesis using bpf_exec_loads_good [OF op b m] by blast
  next
    case jump then show ?thesis using bpf_exec_jumps_good [OF chk assms(2) op m] by blast
  next
    case alu then show ?thesis using bpf_exec_alu_good [OF chk _ m] op by blast
  next
    case memory then show ?thesis using bpf_exec_mem_good [OF chk op m] by blast
  next
    case simple
    then have "op \<in> {RET_K, RET_A} \<or> bcode i AND 0x07 \<noteq> 0x05 \<and> bcode i AND 0x07 \<noteq> 0x06"
      using op unfolding decode_iff by (auto simp: bpf_labels_def)
    moreover have "\<not> bk i \<ge> buflen \<Longrightarrow> unat (bk i) < length p" using b by (simp add: not_le word_less_nat_alt)
    ultimately show ?thesis using simple m unfolding bpf_exec_def op option.case
      by (elim insertE emptyE) (simp_all add: bpf_good_step_def)
  qed
qed

text \<open>What a safe run can end with.\<close>

definition bpf_safe :: "mudband_bpf_insn list \<Rightarrow> nat \<Rightarrow> bpf_outcome \<Rightarrow> bool" where
  "bpf_safe f len r \<longleftrightarrow>
     (\<exists>v. r = Ret v) \<or> (r = Undef_shift \<and> (\<exists>i < len. bpf_shift (bcode (f ! i))))"

lemma bpf_run_safe:
  assumes v: "mudband_bpf_validate f (int len)" and len: "0 < len" "len \<le> length f"
    and b: "unat buflen \<le> length p"
  shows "pc < len \<Longrightarrow> length mem = BPF_MEMWORDS \<Longrightarrow>
    bpf_safe f len (bpf_run f p wirelen buflen pc A X mem)"
proof (induction "len - pc" arbitrary: pc A X mem rule: less_induct)
  case less
  have chk: "bpf_check_insn (f ! i) len i" if "i < len" for i
    using v len that by (auto simp: mudband_bpf_validate_def)
  have fin: "bcode (f ! (len - 1)) AND 0x07 = 0x06"
    using v len by (simp add: mudband_bpf_validate_def)
  have g: "bpf_good_step (f ! pc) len pc (bpf_exec (f ! pc) p wirelen buflen A X mem)"
    by (rule bpf_exec_good [OF chk [OF less.prems(1)] less.prems(1) b less.prems(2)])
  show ?case
  proof (cases "bpf_exec (f ! pc) p wirelen buflen A X mem")
    case (Done r)
    then have "bpf_run f p wirelen buflen pc A X mem = r"
      using less.prems(1) len(2) by (subst bpf_run.simps) simp
    then show ?thesis using g Done less.prems(1)
      by (cases r) (auto simp: bpf_safe_def bpf_good_step_def)
  next
    case (Cont off A' X' mem')
    then have r: "bpf_run f p wirelen buflen pc A X mem = bpf_run f p wirelen buflen (pc + off + 1) A' X' mem'"
      using less.prems(1) len(2) by (subst bpf_run.simps) simp
    have "pc + off + 1 < len"
    proof (cases "bcode (f ! pc) AND 0x07 = 0x05")
      case False
      then have "off = 0" "pc \<noteq> len - 1" using g Cont fin by (auto simp: bpf_good_step_def)
      then show ?thesis using less.prems(1) by simp
    qed (use g Cont in \<open>simp add: bpf_good_step_def\<close>)
    moreover have "length mem' = BPF_MEMWORDS" using g Cont by (simp add: bpf_good_step_def)
    ultimately show ?thesis unfolding r using less.prems(1) by (intro less.hyps) simp_all
  qed
qed

lemma mudband_bpf_filter_safe:
  assumes "mudband_bpf_validate f (int len)" and "0 < len" "len \<le> length f"
    and "unat buflen \<le> length p"
  shows "bpf_safe f len (mudband_bpf_filter (Some f) p wirelen buflen)"
  using bpf_run_safe [OF assms(1-4), of 0] assms(2) by (simp add: mudband_bpf_filter_def)

section \<open>Filters of an access control list\<close>

record wireguard_acl_program =
  insns :: "mudband_bpf_insn list"
  n_insns :: nat

text \<open>The contract the packet path relies on: an accepted program gives a verdict on every packet.\<close>

locale packet_filter =
  fixes accepted :: "'prog \<Rightarrow> bool" and run :: "'prog \<Rightarrow> bytes \<Rightarrow> bpf_outcome"
  assumes verdict: "accepted f \<Longrightarrow> length p < 2 ^ 32 \<Longrightarrow> \<exists>v. run f p = Ret v"
begin

lemma verdicts:
  "\<forall>f \<in> set fs. accepted f \<Longrightarrow> length p < 2 ^ 32 \<Longrightarrow> \<exists>vs. map (\<lambda>f. run f p) fs = map Ret vs"
proof (induction fs)
  case (Cons f fs)
  then obtain v vs where "run f p = Ret v" "map (\<lambda>f. run f p) fs = map Ret vs"
    using verdict [of f p] by auto
  then have "map (\<lambda>f. run f p) (f # fs) = map Ret (v # vs)" by simp
  then show ?case by blast
qed simp

end

text \<open>A validated program without shift instructions.\<close>

definition acl_program_ok :: "wireguard_acl_program \<Rightarrow> bool" where
  "acl_program_ok a \<longleftrightarrow>
     0 < n_insns a \<and> n_insns a \<le> length (insns a) \<and>
     mudband_bpf_validate (insns a) (int (n_insns a)) \<and>
     (\<forall>i \<in> set [0..<n_insns a]. \<not> bpf_shift (bcode (insns a ! i)))"

definition acl_program_run :: "wireguard_acl_program \<Rightarrow> bytes \<Rightarrow> bpf_outcome" where
  "acl_program_run a p =
     mudband_bpf_filter (Some (insns a)) p (of_nat (length p)) (of_nat (length p))"

interpretation bpf: packet_filter acl_program_ok acl_program_run
proof
  fix a :: wireguard_acl_program and p :: bytes
  assume "acl_program_ok a" and "length p < 2 ^ 32"
  then show "\<exists>v. acl_program_run a p = Ret v"
    using mudband_bpf_filter_safe [of "insns a" "n_insns a" "of_nat (length p)" p "of_nat (length p)"]
    by (auto simp: acl_program_ok_def acl_program_run_def bpf_safe_def unat_of_nat)
qed

section \<open>Properties\<close>

text \<open>
  C32: a program that \<open>mudband_bpf_validate\<close> accepts with a positive length, run on any packet
  buffer that holds at least \<open>buflen\<close> bytes, always ends, never reads outside the program, the
  packet or the scratch memory, never divides by zero and never reaches \<open>abort()\<close>: it returns a
  verdict, or it executes a shift by 32 or more, which only a shift instruction can do.
\<close>

theorem bpf_validated_program_safe:
  assumes "mudband_bpf_validate f (int len)" and "0 < len" and "len \<le> length f"
    and "unat buflen \<le> length p"
  shows "(\<exists>v. mudband_bpf_filter (Some f) p wirelen buflen = Ret v) \<or>
    (mudband_bpf_filter (Some f) p wirelen buflen = Undef_shift \<and>
     (\<exists>i < len. bcode (f ! i) \<in> {0x6c, 0x7c, 0x64, 0x74}))"
  using mudband_bpf_filter_safe [OF assms] by (simp add: bpf_safe_def bpf_shift_def)

definition bpf_demo :: "mudband_bpf_insn list" where
  "bpf_demo = [\<lparr>bcode = 0x30, bjt = 0, bjf = 0, bk = 9\<rparr>, \<lparr>bcode = 0x15, bjt = 0, bjf = 1, bk = 6\<rparr>,
     \<lparr>bcode = 0x06, bjt = 0, bjf = 0, bk = 1\<rparr>, \<lparr>bcode = 0x06, bjt = 0, bjf = 0, bk = 0\<rparr>]"

theorem bpf_validated_program_safe_witness:
  "(\<exists>v. mudband_bpf_filter (Some bpf_demo) (replicate 20 6) 20 20 = Ret v) \<or>
    (mudband_bpf_filter (Some bpf_demo) (replicate 20 6) 20 20 = Undef_shift \<and>
     (\<exists>i < 4. bcode (bpf_demo ! i) \<in> {0x6c, 0x7c, 0x64, 0x74}))"
proof (rule bpf_validated_program_safe)
  show "mudband_bpf_validate bpf_demo (int 4)" by code_simp
qed (simp_all add: bpf_demo_def)

text \<open>
  the bit table of the validator and the \<open>switch\<close> of the interpreter agree on all 65536
  opcodes: an opcode passes \<open>BPF_VALIDATE_CODE\<close> exactly when executing it does not \<open>abort()\<close>.
\<close>

theorem bpf_code_map_matches_interpreter:
  "BPF_VALIDATE_CODE (bcode i) \<longleftrightarrow> bpf_exec i p wirelen buflen A X mem \<noteq> Done Aborted"
proof -
  have n: "bpf_decode (bcode i) = None \<Longrightarrow> bpf_exec i p wirelen buflen A X mem = Done Aborted"
    by (simp add: bpf_exec_def)
  have s: "bpf_exec i p wirelen buflen A X mem \<noteq> Done Aborted" if "bpf_decode (bcode i) = Some op" for op
    using that by (cases op) (auto simp: bpf_exec_def load_W_def load_H_def load_B_def bpf_alu_op_def
        split: bpf_alu.splits bpf_src.splits)
  show ?thesis using n s decode_validate by (cases "bpf_decode (bcode i)") auto
qed

definition bpf_insn_zero :: mudband_bpf_insn where
  "bpf_insn_zero = \<lparr>bcode = 0, bjt = 0, bjf = 0, bk = 0\<rparr>"

lemma bpf_run_zeros:
  "pc \<le> n \<Longrightarrow> bpf_run (replicate n bpf_insn_zero) p wirelen buflen pc A X mem = Bad_pc"
proof (induction "n - pc" arbitrary: pc A)
  case 0
  then show ?case by (subst bpf_run.simps) simp
next
  case (Suc d)
  have "bpf_decode 0 = Some LD_IMM" by (simp add: bpf_decode_def bpf_labels_def)
  then have "bpf_exec bpf_insn_zero p wirelen buflen A X mem = Cont 0 0 X mem"
    by (simp add: bpf_exec_def bpf_insn_zero_def)
  then show ?case using Suc by (subst bpf_run.simps) simp
qed

text \<open>
  the validator accepts the empty program (its comment: ``an empty filter means accept all''),
  but the interpreter accepts everything only for a null pointer. On the zeroed instruction array
  that an empty access control program has, it runs off the end of the array, whatever the packet.
\<close>

theorem bpf_empty_program_runs_off:
  "mudband_bpf_validate (replicate 256 bpf_insn_zero) 0 \<and>
   mudband_bpf_filter None p wirelen buflen = Ret (- 1) \<and>
   mudband_bpf_filter (Some (replicate 256 bpf_insn_zero)) p wirelen buflen = Bad_pc"
  by (simp add: mudband_bpf_validate_def mudband_bpf_filter_def bpf_run_zeros)

text \<open>
  The validator does not bound shift amounts: it accepts a two-instruction program whose
  left shift by 32 is undefined in C, on every packet.
\<close>

theorem bpf_validator_misses_wide_shift:
  "mudband_bpf_validate [\<lparr>bcode = 0x64, bjt = 0, bjf = 0, bk = 32\<rparr>,
       \<lparr>bcode = 0x06, bjt = 0, bjf = 0, bk = 0\<rparr>] 2 \<and>
   mudband_bpf_filter (Some [\<lparr>bcode = 0x64, bjt = 0, bjf = 0, bk = 32\<rparr>,
       \<lparr>bcode = 0x06, bjt = 0, bjf = 0, bk = 0\<rparr>]) p wirelen buflen = Undef_shift"
proof
  show "mudband_bpf_validate [\<lparr>bcode = 0x64, bjt = 0, bjf = 0, bk = 32\<rparr>,
       \<lparr>bcode = 0x06, bjt = 0, bjf = 0, bk = 0\<rparr>] 2" by code_simp
  have "bpf_decode 0x64 = Some (ALU LSH SrcK)" by (simp add: bpf_decode_def bpf_labels_def)
  then show "mudband_bpf_filter (Some [\<lparr>bcode = 0x64, bjt = 0, bjf = 0, bk = 32\<rparr>,
       \<lparr>bcode = 0x06, bjt = 0, bjf = 0, bk = 0\<rparr>]) p wirelen buflen = Undef_shift"
    by (simp add: mudband_bpf_filter_def bpf_run.simps bpf_exec_def bpf_alu_op_def)
qed

end
