(* ===== verification/Pbuf.thy ===== *)
theory Pbuf
  imports Mud_Prelude
begin

text \<open>
  The packet buffers of \<open>common/wireguard-pbuf.c\<close>. A buffer is one allocation: the cache header
  (\<open>magic\<close>, \<open>size\<close>), the \<open>struct pbuf\<close> and \<open>size + 256\<close> bytes of memory at \<open>ptr\<close>; \<open>payload\<close> is an
  offset into that memory. The free buffers are kept in one queue per size. A chain linked by
  \<open>next\<close> is a list, and \<open>NULL\<close> is the empty list; a function that allocates returns a buffer whose
  \<open>next\<close> is \<open>NULL\<close>. \<open>None\<close> is a failed assertion or an access outside the buffer.
\<close>

section \<open>Buffers and their pool\<close>

definition PBUF_CACHE_MAGIC :: u32 where "PBUF_CACHE_MAGIC = 0xd8e6a235"
definition PBUF_CACHE_HEAD_SIZE :: nat where "PBUF_CACHE_HEAD_SIZE = 2048 + 1"

record pbuf =
  pb_magic :: u32
  pb_size :: u16
  pb_mem :: bytes
  pb_ptr :: nat
  pb_payload :: nat
  pb_len :: nat
  pb_tot_len :: nat

text \<open>\<open>pool_malloc k\<close> is what the memory of the \<open>k\<close>-th allocation holds before it is written.\<close>

record pbuf_pool =
  pbuf_cache_head :: "pbuf list list"
  n_pbuf_cache_count :: u64
  pool_malloc :: "nat \<Rightarrow> nat \<Rightarrow> u8"
  pool_malloc_pos :: nat

definition PBUF_init :: "pbuf_pool \<Rightarrow> pbuf_pool" where
  "PBUF_init pool = pool\<lparr>pbuf_cache_head := replicate PBUF_CACHE_HEAD_SIZE []\<rparr>"

definition pbuf_alloc :: "nat \<Rightarrow> pbuf_pool \<Rightarrow> (pbuf \<times> pbuf_pool) option" where
  "pbuf_alloc sz pool =
     (if sz \<le> PBUF_CACHE_HEAD_SIZE - 1
      then case pbuf_cache_head pool ! sz of
             p # rest \<Rightarrow>
               if pb_magic p = PBUF_CACHE_MAGIC \<and> unat (pb_size p) = sz \<and> pb_ptr p = 0
               then Some (p\<lparr>pb_payload := pb_ptr p + 128, pb_len := sz, pb_tot_len := sz\<rparr>,
                      pool\<lparr>pbuf_cache_head := (pbuf_cache_head pool)[sz := rest],
                           n_pbuf_cache_count := n_pbuf_cache_count pool - 1\<rparr>)
               else None
           | [] \<Rightarrow>
               Some (\<lparr>pb_magic = PBUF_CACHE_MAGIC, pb_size = of_nat sz,
                  pb_mem = map (pool_malloc pool (pool_malloc_pos pool)) [0..<sz + 256],
                  pb_ptr = 0, pb_payload = 128, pb_len = sz, pb_tot_len = sz\<rparr>,
                 pool\<lparr>pool_malloc_pos := pool_malloc_pos pool + 1\<rparr>)
      else None)"

definition pbuf_free :: "pbuf \<Rightarrow> pbuf_pool \<Rightarrow> pbuf_pool option" where
  "pbuf_free p pool =
     (if pb_magic p = PBUF_CACHE_MAGIC \<and> unat (pb_size p) \<le> PBUF_CACHE_HEAD_SIZE - 1
      then let s = unat (pb_size p)
           in Some (pool\<lparr>pbuf_cache_head := (pbuf_cache_head pool)[s := p # pbuf_cache_head pool ! s],
                n_pbuf_cache_count := n_pbuf_cache_count pool + 1\<rparr>)
      else None)"

section \<open>Reading and writing\<close>

text \<open>\<open>memcpy(buf + off, bs, n)\<close> and its inverse; the C code has no bound check, so an access
  outside the memory of the buffer has no defined result.\<close>

definition pbuf_write :: "nat \<Rightarrow> bytes \<Rightarrow> pbuf \<Rightarrow> pbuf option" where
  "pbuf_write off bs p =
     (if off + length bs \<le> length (pb_mem p)
      then Some (p\<lparr>pb_mem := take off (pb_mem p) @ bs @ drop (off + length bs) (pb_mem p)\<rparr>)
      else None)"

definition pbuf_read :: "nat \<Rightarrow> nat \<Rightarrow> pbuf \<Rightarrow> bytes option" where
  "pbuf_read off n p = (if off + n \<le> length (pb_mem p) then Some (bslice off n (pb_mem p)) else None)"

fun pbuf_take_loop :: "pbuf list \<Rightarrow> bytes \<Rightarrow> pbuf list option" where
  "pbuf_take_loop chain [] = Some chain"
| "pbuf_take_loop [] (b # bs) = None"
| "pbuf_take_loop (p # chain) (b # bs) =
     (let dat = b # bs;
          buf_copy_len = (if length dat > pb_len p then pb_len p else length dat)
      in case pbuf_write (pb_payload p) (take buf_copy_len dat) p of
           None \<Rightarrow> None
         | Some p \<Rightarrow> map_option (Cons p) (pbuf_take_loop chain (drop buf_copy_len dat)))"

text \<open>The result is the return value and the chain; \<open>dat\<close> is the whole object at \<open>dataptr\<close>.\<close>

definition pbuf_take :: "pbuf list \<Rightarrow> bytes \<Rightarrow> u16 \<Rightarrow> (int \<times> pbuf list) option" where
  "pbuf_take chain dat len =
     (case chain of
        [] \<Rightarrow> Some (-1, [])
      | buf # _ \<Rightarrow>
          if pb_tot_len buf < unat len then Some (-1, chain)
          else map_option (\<lambda>c. (0, c)) (pbuf_take_loop chain (take (unat len) dat)))"

text \<open>The loop of \<open>pbuf_copy_partial\<close>; the result is \<open>copied_total\<close> and the bytes stored at
  \<open>dataptr\<close>, in order.\<close>

fun pbuf_copy_partial :: "pbuf list \<Rightarrow> u16 \<Rightarrow> u16 \<Rightarrow> (u16 \<times> bytes) option" where
  "pbuf_copy_partial [] len offset = Some (0, [])"
| "pbuf_copy_partial (p # chain) len offset =
     (if len = 0 then Some (0, [])
      else if offset \<noteq> 0 \<and> unat offset \<ge> pb_len p
      then pbuf_copy_partial chain len (of_nat (unat offset - pb_len p))
      else let buf_copy_len = (of_nat (pb_len p - unat offset) :: u16);
               buf_copy_len = (if buf_copy_len > len then len else buf_copy_len)
           in case pbuf_read (pb_payload p + unat offset) (unat buf_copy_len) p of
                None \<Rightarrow> None
              | Some bs \<Rightarrow>
                  (case pbuf_copy_partial chain (len - buf_copy_len) 0 of
                     None \<Rightarrow> None
                   | Some (n, bs') \<Rightarrow> Some (buf_copy_len + n, bs @ bs')))"

definition pbuf_data :: "pbuf \<Rightarrow> bytes" where
  "pbuf_data p = bslice (pb_payload p) (pb_len p) (pb_mem p)"

section \<open>Well-formed buffers and pools\<close>

text \<open>What stays true of a buffer while it is in use, and of one that is fresh from the pool.\<close>

definition pbuf_wf :: "pbuf \<Rightarrow> bool" where
  "pbuf_wf p \<longleftrightarrow> pb_magic p = PBUF_CACHE_MAGIC \<and> unat (pb_size p) < PBUF_CACHE_HEAD_SIZE \<and>
     length (pb_mem p) = unat (pb_size p) + 256 \<and> pb_ptr p = 0"

definition pbuf_fresh :: "nat \<Rightarrow> pbuf \<Rightarrow> bool" where
  "pbuf_fresh sz p \<longleftrightarrow> pbuf_wf p \<and> unat (pb_size p) = sz \<and> pb_payload p = 128 \<and>
     pb_len p = sz \<and> pb_tot_len p = sz"

definition pool_inv :: "pbuf_pool \<Rightarrow> bool" where
  "pool_inv pool \<longleftrightarrow> length (pbuf_cache_head pool) = PBUF_CACHE_HEAD_SIZE \<and>
     (\<forall>s < PBUF_CACHE_HEAD_SIZE. \<forall>p \<in> set (pbuf_cache_head pool ! s).
        pbuf_wf p \<and> unat (pb_size p) = s) \<and>
     n_pbuf_cache_count pool = of_nat (sum_list (map length (pbuf_cache_head pool)))"

text \<open>What a client of a buffer pool relies on.\<close>

locale buffer_pool =
  fixes alloc :: "nat \<Rightarrow> 'pool \<Rightarrow> ('buf \<times> 'pool) option"
    and free :: "'buf \<Rightarrow> 'pool \<Rightarrow> 'pool option"
    and inv :: "'pool \<Rightarrow> bool" and wf :: "'buf \<Rightarrow> bool" and fresh :: "nat \<Rightarrow> 'buf \<Rightarrow> bool"
    and limit :: nat
  assumes alloc_ok: "inv pool \<Longrightarrow> n \<le> limit \<Longrightarrow> \<exists>b pool'. alloc n pool = Some (b, pool')"
    and alloc_fresh: "inv pool \<Longrightarrow> alloc n pool = Some (b, pool') \<Longrightarrow> fresh n b \<and> inv pool'"
    and fresh_wf: "fresh n b \<Longrightarrow> wf b"
    and free_ok: "inv pool \<Longrightarrow> wf b \<Longrightarrow> \<exists>pool'. free b pool = Some pool'"
    and free_inv: "inv pool \<Longrightarrow> wf b \<Longrightarrow> free b pool = Some pool' \<Longrightarrow> inv pool'"
begin

text \<open>A packet handler takes a buffer, works on it and gives it back: it cannot fail in the pool.\<close>

lemma alloc_succeeds:
  "inv pool \<Longrightarrow> n \<le> limit \<Longrightarrow> \<exists>b pool'. alloc n pool = Some (b, pool') \<and> fresh n b \<and> wf b \<and> inv pool'"
  using alloc_ok alloc_fresh fresh_wf by blast

lemma free_succeeds: "inv pool \<Longrightarrow> wf b \<Longrightarrow> \<exists>pool'. free b pool = Some pool' \<and> inv pool'"
  using free_ok free_inv by blast

end

lemma sum_lengths_update:
  "i < length xs \<Longrightarrow> sum_list (map length (xs[i := v])) + length (xs ! i) = sum_list (map length xs) + length v"
  by (induction xs arbitrary: i) (auto split: nat.splits)

lemma pbuf_alloc_cases:
  assumes "pool_inv pool" and "sz \<le> 2048"
  obtains p rest where "pbuf_cache_head pool ! sz = p # rest"
      "pbuf_alloc sz pool = Some (p\<lparr>pb_payload := 128, pb_len := sz, pb_tot_len := sz\<rparr>,
         pool\<lparr>pbuf_cache_head := (pbuf_cache_head pool)[sz := rest],
              n_pbuf_cache_count := n_pbuf_cache_count pool - 1\<rparr>)"
      "pbuf_wf p" "unat (pb_size p) = sz"
  | p where "pbuf_cache_head pool ! sz = []"
      "pbuf_alloc sz pool = Some (p, pool\<lparr>pool_malloc_pos := pool_malloc_pos pool + 1\<rparr>)"
      "pbuf_fresh sz p"
proof (cases "pbuf_cache_head pool ! sz")
  case Nil
  have "unat (of_nat sz :: u16) = sz" using assms(2) by (simp add: unat_of_nat)
  with Nil assms(2) show ?thesis
    by (intro that(2)) (auto simp: pbuf_alloc_def PBUF_CACHE_HEAD_SIZE_def pbuf_fresh_def pbuf_wf_def)
next
  case (Cons p rest)
  have s: "sz < PBUF_CACHE_HEAD_SIZE" using assms(2) by (simp add: PBUF_CACHE_HEAD_SIZE_def)
  have "p \<in> set (pbuf_cache_head pool ! sz)" using Cons by simp
  with assms(1) s have "pbuf_wf p \<and> unat (pb_size p) = sz"
    unfolding pool_inv_def by blast
  with Cons s show ?thesis
    by (intro that(1)) (auto simp: pbuf_alloc_def pbuf_wf_def)
qed

lemma pbuf_alloc_None: "2048 < sz \<Longrightarrow> pbuf_alloc sz pool = None"
  by (simp add: pbuf_alloc_def PBUF_CACHE_HEAD_SIZE_def)

text \<open>Replacing one queue by another of its size class.\<close>

lemma pool_inv_update:
  assumes inv: "pool_inv pool" and s: "s < PBUF_CACHE_HEAD_SIZE"
    and v: "\<And>q. q \<in> set v \<Longrightarrow> pbuf_wf q \<and> unat (pb_size q) = s"
    and c: "c + of_nat (length (pbuf_cache_head pool ! s)) = n_pbuf_cache_count pool + of_nat (length v)"
  shows "pool_inv (pool\<lparr>pbuf_cache_head := (pbuf_cache_head pool)[s := v], n_pbuf_cache_count := c\<rparr>)"
proof -
  let ?h = "pbuf_cache_head pool"
  have l: "s < length ?h" using inv s by (simp add: pool_inv_def)
  have "n_pbuf_cache_count pool = of_nat (sum_list (map length ?h))" using inv by (simp add: pool_inv_def)
  then have "c + of_nat (length (?h ! s)) =
      of_nat (sum_list (map length (?h[s := v]))) + of_nat (length (?h ! s))"
    using c sum_lengths_update [OF l, of v] by (metis of_nat_add)
  then have count: "c = of_nat (sum_list (map length (?h[s := v])))" by simp
  have "pbuf_wf q \<and> unat (pb_size q) = t"
    if "t < PBUF_CACHE_HEAD_SIZE" "q \<in> set (?h[s := v] ! t)" for t q
    using that inv l v unfolding pool_inv_def by (cases "t = s") auto
  then show ?thesis using inv by (simp add: pool_inv_def count)
qed

lemma pbuf_alloc_fresh:
  assumes inv: "pool_inv pool" and a: "pbuf_alloc sz pool = Some (b, pool')"
  shows "pbuf_fresh sz b \<and> pool_inv pool'"
proof -
  have sz: "sz \<le> 2048" using a pbuf_alloc_None [of sz pool] by (cases "2048 < sz") auto
  then have s: "sz < PBUF_CACHE_HEAD_SIZE" by (simp add: PBUF_CACHE_HEAD_SIZE_def)
  show ?thesis
  proof (rule pbuf_alloc_cases [OF inv sz])
    fix p rest
    assume h: "pbuf_cache_head pool ! sz = p # rest" and wf: "pbuf_wf p" "unat (pb_size p) = sz"
      and e: "pbuf_alloc sz pool = Some (p\<lparr>pb_payload := 128, pb_len := sz, pb_tot_len := sz\<rparr>,
         pool\<lparr>pbuf_cache_head := (pbuf_cache_head pool)[sz := rest],
              n_pbuf_cache_count := n_pbuf_cache_count pool - 1\<rparr>)"
    have "\<forall>q \<in> set (p # rest). pbuf_wf q \<and> unat (pb_size q) = sz"
      using inv s unfolding h [symmetric] pool_inv_def by blast
    then have "pool_inv (pool\<lparr>pbuf_cache_head := (pbuf_cache_head pool)[sz := rest],
              n_pbuf_cache_count := n_pbuf_cache_count pool - 1\<rparr>)"
      using h by (intro pool_inv_update [OF inv s]) auto
    then have "pool_inv pool'" using a e by simp
    moreover have "pbuf_fresh sz b" using a e wf by (auto simp: pbuf_fresh_def pbuf_wf_def)
    ultimately show ?thesis by simp
  next
    fix p
    assume "pbuf_alloc sz pool = Some (p, pool\<lparr>pool_malloc_pos := pool_malloc_pos pool + 1\<rparr>)"
      "pbuf_fresh sz p"
    then show ?thesis using a inv by (simp add: pool_inv_def)
  qed
qed

lemma pbuf_free_Some:
  "pbuf_wf b \<Longrightarrow> pbuf_free b pool = Some (pool\<lparr>pbuf_cache_head :=
       (pbuf_cache_head pool)[unat (pb_size b) := b # pbuf_cache_head pool ! unat (pb_size b)],
     n_pbuf_cache_count := n_pbuf_cache_count pool + 1\<rparr>)"
  by (simp add: pbuf_free_def pbuf_wf_def PBUF_CACHE_HEAD_SIZE_def Let_def)

lemma pbuf_free_inv:
  assumes inv: "pool_inv pool" and wf: "pbuf_wf b" and f: "pbuf_free b pool = Some pool'"
  shows "pool_inv pool'"
proof -
  let ?s = "unat (pb_size b)"
  have s: "?s < PBUF_CACHE_HEAD_SIZE" using wf by (simp add: pbuf_wf_def)
  have "pbuf_wf q \<and> unat (pb_size q) = ?s" if "q \<in> set (b # pbuf_cache_head pool ! ?s)" for q
    using that inv s wf unfolding pool_inv_def by auto
  then have "pool_inv (pool\<lparr>pbuf_cache_head :=
       (pbuf_cache_head pool)[?s := b # pbuf_cache_head pool ! ?s],
     n_pbuf_cache_count := n_pbuf_cache_count pool + 1\<rparr>)"
    by (rule pool_inv_update [OF inv s]) simp_all
  then show ?thesis using f unfolding pbuf_free_Some [OF wf] by simp
qed

interpretation pool: buffer_pool pbuf_alloc pbuf_free pool_inv pbuf_wf pbuf_fresh 2048
proof
  show "\<exists>b pool'. pbuf_alloc n pool = Some (b, pool')" if "pool_inv pool" "n \<le> 2048" for pool n
    using that by (rule pbuf_alloc_cases) auto
  show "pbuf_fresh n b \<and> pool_inv pool'"
    if "pool_inv pool" "pbuf_alloc n pool = Some (b, pool')" for pool n b pool'
    using that by (rule pbuf_alloc_fresh)
  show "pool_inv pool'" if "pool_inv pool" "pbuf_wf b" "pbuf_free b pool = Some pool'" for pool b pool'
    using that by (rule pbuf_free_inv)
qed (simp_all add: pbuf_fresh_def pbuf_free_Some)

lemma pool_inv_init: "n_pbuf_cache_count pool = 0 \<Longrightarrow> pool_inv (PBUF_init pool)"
  by (simp add: pool_inv_def PBUF_init_def sum_list_replicate)

section \<open>Memory\<close>

lemma pbuf_write_read:
  "pbuf_write off bs p = Some q \<Longrightarrow> pbuf_read off (length bs) q = Some bs"
  by (auto simp: pbuf_write_def pbuf_read_def bslice_def split: if_splits)

lemma pbuf_write_mem:
  assumes "pbuf_write off bs p = Some q" and "i < length (pb_mem p)"
  shows "pb_mem q ! i = (if off \<le> i \<and> i < off + length bs then bs ! (i - off) else pb_mem p ! i)"
  using assms by (auto simp: pbuf_write_def nth_append split: if_splits)

lemma pbuf_write_wf: "pbuf_write off bs p = Some q \<Longrightarrow> pbuf_wf p \<Longrightarrow> pbuf_wf q"
  by (auto simp: pbuf_write_def pbuf_wf_def split: if_splits)

lemma pbuf_write_fields:
  "pbuf_write off bs p = Some q \<Longrightarrow> pb_size q = pb_size p \<and> pb_payload q = pb_payload p \<and>
     pb_len q = pb_len p \<and> pb_tot_len q = pb_tot_len p \<and> length (pb_mem q) = length (pb_mem p)"
  by (auto simp: pbuf_write_def split: if_splits)

text \<open>A chain that holds \<open>n\<close> bytes: every buffer has its payload inside its memory.\<close>

definition chain_ok :: "pbuf list \<Rightarrow> bool" where
  "chain_ok chain \<longleftrightarrow> (\<forall>p \<in> set chain. pb_payload p + pb_len p \<le> length (pb_mem p) \<and> pb_len p < 2 ^ 16)"

definition chain_len :: "pbuf list \<Rightarrow> nat" where
  "chain_len chain = sum_list (map pb_len chain)"

lemma copy_partial_prefix:
  assumes "chain_ok chain" and "unat len \<le> chain_len chain"
  shows "pbuf_copy_partial chain len 0 = Some (len, take (unat len) (concat (map pbuf_data chain)))"
  using assms
proof (induction chain arbitrary: len)
  case Nil
  then show ?case by (simp add: chain_len_def unat_eq_0)
next
  case (Cons p chain)
  have p: "pb_payload p + pb_len p \<le> length (pb_mem p)" "pb_len p < 2 ^ 16" and ok: "chain_ok chain"
    using Cons.prems(1) by (auto simp: chain_ok_def)
  have lp: "length (pbuf_data p) = pb_len p" using p(1) by (simp add: pbuf_data_def)
  have ul: "unat (of_nat (pb_len p) :: u16) = pb_len p" using p(2) by (simp add: unat_of_nat)
  show ?case
  proof (cases "len = 0")
    case False
    define n :: u16 where "n = (if (of_nat (pb_len p) :: u16) > len then len else of_nat (pb_len p))"
    have un: "unat n = min (pb_len p) (unat len)"
      unfolding n_def using ul by (auto simp: word_less_nat_alt)
    have r: "pbuf_read (pb_payload p) (unat n) p = Some (take (unat n) (pbuf_data p))"
      using p(1) un by (simp add: pbuf_read_def pbuf_data_def bslice_def min.absorb1)
    have "n \<le> len" using un by (simp add: word_le_nat_alt)
    then have us: "unat (len - n) = unat len - unat n" by (simp add: unat_sub)
    then have "unat (len - n) \<le> chain_len chain" using Cons.prems(2) un by (simp add: chain_len_def)
    from Cons.IH [OF ok this]
    have ih: "pbuf_copy_partial chain (len - n) 0 =
        Some (len - n, take (unat len - unat n) (concat (map pbuf_data chain)))" by (simp only: us)
    have t: "take (unat n) (pbuf_data p) @ take (unat len - unat n) (concat (map pbuf_data chain)) =
        take (unat len) (concat (map pbuf_data (p # chain)))"
      using un lp by (cases "unat len \<le> pb_len p") (simp_all add: min_def)
    have "pbuf_copy_partial (p # chain) len 0 = (case pbuf_read (pb_payload p) (unat n) p of
        None \<Rightarrow> None | Some bs \<Rightarrow> (case pbuf_copy_partial chain (len - n) 0 of
          None \<Rightarrow> None | Some (m, bs') \<Rightarrow> Some (n + m, bs @ bs')))"
      using False unfolding n_def by (simp add: Let_def)
    also have "\<dots> = Some (len, take (unat len) (concat (map pbuf_data (p # chain))))"
      unfolding r ih option.case prod.case t by simp
    finally show ?thesis .
  qed simp
qed

lemma take_drop_write:
  assumes "a + n \<le> length m" and "length bs \<le> n"
  shows "bslice a n (take a m @ bs @ drop (a + length bs) m) = bs @ drop (length bs) (bslice a n m)"
  using assms by (simp add: bslice_def drop_take add.commute)

lemma write_payload:
  assumes "pb_payload p + pb_len p \<le> length (pb_mem p)" and "length bs \<le> pb_len p"
  shows "\<exists>q. pbuf_write (pb_payload p) bs p = Some q \<and> pb_payload q = pb_payload p \<and>
     pb_len q = pb_len p \<and> length (pb_mem q) = length (pb_mem p) \<and>
     pbuf_data q = bs @ drop (length bs) (pbuf_data p)"
proof -
  have "pb_payload p + length bs \<le> length (pb_mem p)" using assms by simp
  then have w: "pbuf_write (pb_payload p) bs p = Some (p\<lparr>pb_mem := take (pb_payload p) (pb_mem p) @
      bs @ drop (pb_payload p + length bs) (pb_mem p)\<rparr>)" (is "_ = Some ?q")
    by (simp only: pbuf_write_def if_True)
  have "pbuf_data ?q = bs @ drop (length bs) (pbuf_data p)"
    by (simp add: pbuf_data_def take_drop_write [OF assms])
  with w pbuf_write_fields [OF w] show ?thesis by blast
qed

lemma take_loop_ok:
  assumes "chain_ok chain" and "length dat \<le> chain_len chain"
  shows "\<exists>c. pbuf_take_loop chain dat = Some c \<and> chain_ok c \<and> chain_len c = chain_len chain \<and>
     concat (map pbuf_data c) = dat @ drop (length dat) (concat (map pbuf_data chain))"
  using assms
proof (induction chain arbitrary: dat)
  case Nil
  then show ?case by (simp add: chain_len_def)
next
  case (Cons p chain)
  have p: "pb_payload p + pb_len p \<le> length (pb_mem p)" "pb_len p < 2 ^ 16" and ok: "chain_ok chain"
    using Cons.prems(1) by (auto simp: chain_ok_def)
  have lp: "length (pbuf_data p) = pb_len p" using p(1) by (simp add: pbuf_data_def)
  show ?case
  proof (cases dat)
    case Nil
    then show ?thesis using Cons.prems(1) by simp
  next
    case (Cons b bs)
    let ?n = "if length dat > pb_len p then pb_len p else length dat"
    have "length (take ?n dat) \<le> pb_len p" by simp
    from write_payload [OF p(1) this] obtain q where q: "pbuf_write (pb_payload p) (take ?n dat) p = Some q"
      "pb_payload q = pb_payload p" "pb_len q = pb_len p" "length (pb_mem q) = length (pb_mem p)"
      "pbuf_data q = take ?n dat @ drop (length (take ?n dat)) (pbuf_data p)"
      by blast
    have "length (drop ?n dat) \<le> chain_len chain"
      using Cons.prems(2) by (auto simp: chain_len_def)
    from Cons.IH [OF ok this] obtain c where c: "pbuf_take_loop chain (drop ?n dat) = Some c"
      "chain_ok c" "chain_len c = chain_len chain"
      "concat (map pbuf_data c) = drop ?n dat @ drop (length (drop ?n dat)) (concat (map pbuf_data chain))"
      by auto
    have "pbuf_take_loop (p # chain) dat = Some (q # c)"
      using q(1) c(1) unfolding Cons pbuf_take_loop.simps Let_def by simp
    moreover have "chain_ok (q # c)" using c(2) q p by (simp add: chain_ok_def)
    moreover have "chain_len (q # c) = chain_len (p # chain)" using c(3) q(3) by (simp add: chain_len_def)
    moreover have "concat (map pbuf_data (q # c)) =
        dat @ drop (length dat) (concat (map pbuf_data (p # chain)))"
      using q(5) c(4) lp by (cases "length dat > pb_len p") simp_all
    ultimately show ?thesis by blast
  qed
qed

section \<open>Clients of the pool\<close>

text \<open>What the packet path does with buffers: take one of a given size, store into one that is in
  use, give one back. \<open>live\<close> are the buffers in use.\<close>

datatype pool_op = Alloc nat | Store nat nat bytes | Release nat

text \<open>\<open>None\<close> is a failed assertion of the pool, a store outside the memory of the buffer, or the use of a buffer
  that is not held.\<close>

fun pool_exec :: "pool_op \<Rightarrow> pbuf_pool \<times> pbuf list \<Rightarrow> (pbuf_pool \<times> pbuf list) option" where
  "pool_exec (Alloc n) (pool, live) =
     (case pbuf_alloc n pool of None \<Rightarrow> None | Some (b, pool) \<Rightarrow> Some (pool, live @ [b]))"
| "pool_exec (Store i off bs) (pool, live) =
     (if i < length live
      then case pbuf_write off bs (live ! i) of None \<Rightarrow> None | Some b \<Rightarrow> Some (pool, live[i := b])
      else None)"
| "pool_exec (Release i) (pool, live) =
     (if i < length live
      then case pbuf_free (live ! i) pool of
             None \<Rightarrow> None
           | Some pool \<Rightarrow> Some (pool, take i live @ drop (Suc i) live)
      else None)"

fun pool_run :: "pool_op list \<Rightarrow> pbuf_pool \<times> pbuf list \<Rightarrow> (pbuf_pool \<times> pbuf list) option" where
  "pool_run [] st = Some st"
| "pool_run (x # xs) st = (case pool_exec x st of None \<Rightarrow> None | Some st \<Rightarrow> pool_run xs st)"

text \<open>The rules for the clients, in terms of the sizes of the buffers held: at most 2048 bytes are asked for,
  stores stay within the size and the 256 bytes around it, and only buffers that are held are used.\<close>

fun pool_legal :: "nat list \<Rightarrow> pool_op list \<Rightarrow> nat list option" where
  "pool_legal ns [] = Some ns"
| "pool_legal ns (Alloc n # xs) = (if n \<le> 2048 then pool_legal (ns @ [n]) xs else None)"
| "pool_legal ns (Store i off bs # xs) =
     (if i < length ns \<and> off + length bs \<le> ns ! i + 256 then pool_legal ns xs else None)"
| "pool_legal ns (Release i # xs) =
     (if i < length ns then pool_legal (take i ns @ drop (Suc i) ns) xs else None)"

definition live_sizes :: "pbuf list \<Rightarrow> nat list" where
  "live_sizes live = map (\<lambda>b. unat (pb_size b)) live"

lemma length_live_sizes [simp]: "length (live_sizes live) = length live"
  by (simp add: live_sizes_def)

lemma pool_run_legal:
  assumes "pool_inv pool" and "\<forall>b \<in> set live. pbuf_wf b"
  shows "case pool_run ops (pool, live) of
      None \<Rightarrow> pool_legal (live_sizes live) ops = None
    | Some (pool', live') \<Rightarrow> pool_legal (live_sizes live) ops = Some (live_sizes live') \<and> pool_inv pool' \<and>
        (\<forall>b \<in> set live'. pbuf_wf b)"
  using assms
proof (induction ops arbitrary: pool live)
  case (Cons x xs)
  have step: ?case if "pool_exec x (pool, live) = Some (pool1, live1)" "pool_inv pool1" "\<forall>b \<in> set live1. pbuf_wf b"
      "pool_legal (live_sizes live) (x # xs) = pool_legal (live_sizes live1) xs" for pool1 live1
    using Cons.IH [OF that(2,3)] that(1) unfolding that(4) by simp
  have size: "length (pb_mem (live ! i)) = live_sizes live ! i + 256" "pbuf_wf (live ! i)" if "i < length live" for i
    using Cons.prems(2) that by (simp_all add: live_sizes_def pbuf_wf_def)
  show ?case
  proof (cases x)
    case (Alloc n)
    show ?thesis
    proof (cases "n \<le> 2048")
      case True
      from pool.alloc_succeeds [OF Cons.prems(1) True] obtain b q where "pbuf_alloc n pool = Some (b, q)"
        "pbuf_fresh n b" "pbuf_wf b" "pool_inv q" by blast
      then show ?thesis using Alloc Cons.prems(2) True
        by (intro step [of q "live @ [b]"]) (auto simp: live_sizes_def pbuf_fresh_def)
    next
      case False
      then show ?thesis using Alloc by (simp add: pbuf_alloc_None)
    qed
  next
    case (Store i off bs)
    show ?thesis
    proof (cases "i < length live \<and> off + length bs \<le> live_sizes live ! i + 256")
      case True
      then obtain b where b: "pbuf_write off bs (live ! i) = Some b" using size by (simp add: pbuf_write_def)
      have "pb_size b = pb_size (live ! i)" using b by (auto simp: pbuf_write_def split: if_splits)
      then have "live_sizes (live[i := b]) = live_sizes live" using True by (simp add: live_sizes_def map_update list_update_same_conv)
      moreover have "\<forall>c \<in> set (live[i := b]). pbuf_wf c"
        using pbuf_write_wf [OF b size(2)] True Cons.prems(2) set_update_subset_insert [of live i b] by blast
      ultimately show ?thesis using Store True b Cons.prems(1)
        by (intro step [of pool "live[i := b]"]) simp_all
    next
      case False
      then show ?thesis using Store size by (auto simp: pbuf_write_def)
    qed
  next
    case (Release i)
    show ?thesis
    proof (cases "i < length live")
      case True
      from pool.free_succeeds [OF Cons.prems(1) size(2) [OF True]]
      obtain q where q: "pbuf_free (live ! i) pool = Some q" "pool_inv q" by blast
      have "\<forall>c \<in> set (take i live @ drop (Suc i) live). pbuf_wf c"
        using Cons.prems(2) by (auto dest: in_set_takeD in_set_dropD)
      then show ?thesis using Release True q
        by (intro step [of q "take i live @ drop (Suc i) live"]) (simp_all add: live_sizes_def take_map drop_map)
    next
      case False
      then show ?thesis using Release by (simp add: live_sizes_def)
    qed
  qed
qed simp

text \<open>
  C36: From the state that \<open>PBUF_init\<close> leaves, a sequence of allocations, stores and releases fails exactly when a
  client breaks a rule: it asks for more than 2048 bytes, uses a buffer that it does not hold, or stores outside
  the memory of its buffer. Otherwise the run ends, the buffers held have the sizes that were asked for and
  the memory of their size class, the free lists hold only buffers of their own size class, and the
  statistics counter is their total length.
\<close>

theorem pbuf_pool_never_fails:
  assumes "n_pbuf_cache_count pool = 0"
  shows "case pool_legal [] ops of
      None \<Rightarrow> pool_run ops (PBUF_init pool, []) = None
    | Some sizes \<Rightarrow> \<exists>pool' live. pool_run ops (PBUF_init pool, []) = Some (pool', live) \<and>
        map (\<lambda>b. unat (pb_size b)) live = sizes \<and> (\<forall>b \<in> set live. pbuf_wf b) \<and> pool_inv pool'"
  using pool_run_legal [OF pool_inv_init [OF assms], of "[]" ops]
  by (auto simp: live_sizes_def split: option.splits)

definition pool_demo :: pbuf_pool where
  "pool_demo = \<lparr>pbuf_cache_head = [], n_pbuf_cache_count = 0, pool_malloc = (\<lambda>_ _. 0),
     pool_malloc_pos = 0\<rparr>"

theorem pbuf_pool_never_fails_witness:
  "(\<exists>pool' live. pool_run [Alloc 156, Store 0 128 [1, 2], Release 0, Alloc 156, Alloc 2048]
     (PBUF_init pool_demo, []) = Some (pool', live) \<and> map (\<lambda>b. unat (pb_size b)) live = [156, 2048] \<and>
     (\<forall>b \<in> set live. pbuf_wf b) \<and> pool_inv pool') \<and>
   pool_run [Alloc 156, Alloc 2049] (PBUF_init pool_demo, []) = None"
  using pbuf_pool_never_fails [of pool_demo "[Alloc 156, Store 0 128 [1, 2], Release 0, Alloc 156, Alloc 2048]"]
    pbuf_pool_never_fails [of pool_demo "[Alloc 156, Alloc 2049]"]
  by (simp add: pool_demo_def)

text \<open>
  Copying a message into a chain of buffers with \<open>pbuf_take\<close> and reading it back with
  \<open>pbuf_copy_partial\<close> gives the message: both succeed, the count returned is the message length,
  and the chain keeps its layout. The chain needs room for the message and buffers of less than
  64 KiB with their payload inside their memory.
\<close>

theorem pbuf_take_copy_roundtrip:
  assumes "chain_ok (buf # chain)" and "pb_tot_len buf = chain_len (buf # chain)"
    and "length dat = unat len" and "unat len \<le> pb_tot_len buf"
  shows "\<exists>c. pbuf_take (buf # chain) dat len = Some (0, c) \<and> chain_ok c \<and>
    chain_len c = chain_len (buf # chain) \<and> pbuf_copy_partial c len 0 = Some (len, dat)"
proof -
  have l: "length dat \<le> chain_len (buf # chain)" using assms(2,3,4) by simp
  from take_loop_ok [OF assms(1) l] obtain c where c: "pbuf_take_loop (buf # chain) dat = Some c"
    "chain_ok c" "chain_len c = chain_len (buf # chain)"
    "concat (map pbuf_data c) = dat @ drop (length dat) (concat (map pbuf_data (buf # chain)))"
    by blast
  have "pbuf_take (buf # chain) dat len = Some (0, c)"
    using c(1) assms(3,4) by (simp add: pbuf_take_def)
  moreover have "pbuf_copy_partial c len 0 = Some (len, dat)"
    using copy_partial_prefix [OF c(2), of len] c(3,4) l assms(3) by simp
  ultimately show ?thesis using c(2,3) by blast
qed

definition pbuf_demo :: "nat \<Rightarrow> nat \<Rightarrow> pbuf" where
  "pbuf_demo n tot = \<lparr>pb_magic = PBUF_CACHE_MAGIC, pb_size = of_nat n, pb_mem = replicate (n + 256) 0,
     pb_ptr = 0, pb_payload = 128, pb_len = n, pb_tot_len = tot\<rparr>"

theorem pbuf_take_copy_roundtrip_witness:
  "\<exists>c. pbuf_take [pbuf_demo 3 8, pbuf_demo 5 5] [1, 2, 3, 4, 5, 6] 6 = Some (0, c) \<and> chain_ok c \<and>
     chain_len c = chain_len [pbuf_demo 3 8, pbuf_demo 5 5] \<and>
     pbuf_copy_partial c 6 0 = Some (6, [1, 2, 3, 4, 5, 6])"
  by (rule pbuf_take_copy_roundtrip) (simp_all add: chain_ok_def chain_len_def pbuf_demo_def)

end
