(* ===== verification/Wg_Types.thy ===== *)
theory Wg_Types
  imports Bpf Pbuf
begin

text \<open>
  The data of \<open>common/wireguard.h\<close> and of the interface layer in \<open>linux/mudband.c\<close>, and the
  platform the code runs on.

  A pointer to a peer is its index in \<open>device->peers\<close>; a pointer to one of the three keypairs of
  a peer is a \<open>kp_slot\<close>. Arrays of fixed size are lists, with the size as part of the
  well-formedness predicates. The targets are little-endian, so a packed structure with integer
  fields is its little-endian image.
\<close>

section \<open>The platform\<close>

text \<open>
  What the code reads from outside, one sequence per source, with the position of the next read:
  the results of \<open>rand()\<close>, the readings of the monotonic millisecond clock (truncated to 32 bits,
  as \<open>wireguard_sys_now\<close> returns them), the values of \<open>time(NULL)\<close>, the results of \<open>sendto(2)\<close> and
  those of \<open>write(2)\<close> on the TUN device: the length of the packet, or a smaller number or an error.
  What it writes outside is the list of outputs, oldest first. The buffer pool, the UUID that
  \<open>MBE_get_uuid\<close> returns (16 bytes, read from the enrollment file) and the statistics are the
  globals of the process.
\<close>

datatype sendto_result = Sent | Enobufs | Send_error

datatype tun_write_result = Tun_full | Tun_short

datatype iface_output =
    Udp_out u32 u16 bytes
  | Tun_out bytes

record wireguard_iface_stat =
  n_no_peer_found :: u64
  n_no_ipv4_hdr :: u64
  n_nobufs :: u64
  n_tun_rx_pkts :: u64
  n_tun_tx_pkts :: u64
  n_udp_rx_pkts :: u64
  n_udp_tx_pkts :: u64
  n_udp_tx_errs :: u64
  n_udp_proxy_rx_pkts :: u64
  n_udp_proxy_tx_pkts :: u64
  n_udp_proxy_rx_errs :: u64
  bytes_tun_rx :: u64
  bytes_tun_tx :: u64
  bytes_udp_rx :: u64
  bytes_udp_tx :: u64
  bytes_udp_proxy_rx :: u64
  bytes_udp_proxy_tx :: u64

record world =
  w_rand :: "nat \<Rightarrow> nat"
  w_rand_pos :: nat
  w_clock :: "nat \<Rightarrow> u32"
  w_clock_pos :: nat
  w_time :: "nat \<Rightarrow> u64"
  w_time_pos :: nat
  w_sendto :: "nat \<Rightarrow> sendto_result"
  w_sendto_pos :: nat
  w_tunwrite :: "nat \<Rightarrow> tun_write_result"
  w_tunwrite_pos :: nat
  w_out :: "iface_output list"
  w_pool :: pbuf_pool
  w_band_uuid :: bytes
  wg_stat :: wireguard_iface_stat

definition rand :: "world \<Rightarrow> nat \<times> world" where
  "rand w = (w_rand w (w_rand_pos w), w\<lparr>w_rand_pos := w_rand_pos w + 1\<rparr>)"

definition wireguard_sys_now :: "world \<Rightarrow> u32 \<times> world" where
  "wireguard_sys_now w = (w_clock w (w_clock_pos w), w\<lparr>w_clock_pos := w_clock_pos w + 1\<rparr>)"

definition time_now :: "world \<Rightarrow> u64 \<times> world" where
  "time_now w = (w_time w (w_time_pos w), w\<lparr>w_time_pos := w_time_pos w + 1\<rparr>)"

text \<open>\<open>out[x] = rand() % 0xFF\<close> for each byte.\<close>

fun wireguard_random_bytes :: "nat \<Rightarrow> world \<Rightarrow> bytes \<times> world" where
  "wireguard_random_bytes 0 w = ([], w)"
| "wireguard_random_bytes (Suc n) w =
     (let (r, w) = rand w;
          (bs, w) = wireguard_random_bytes n w
      in (of_nat (r mod 0xFF) # bs, w))"

text \<open>\<open>None\<close> is the failed \<open>assert(minval < maxval)\<close>.\<close>

definition wireguard_random_between_uint16 :: "u16 \<Rightarrow> u16 \<Rightarrow> world \<Rightarrow> (u16 \<times> world) option" where
  "wireguard_random_between_uint16 minval maxval w =
     (if minval < maxval
      then let (r, w) = rand w in Some (of_nat (r mod (unat maxval - unat minval)) + minval, w)
      else None)"

definition wireguard_tai64n_now :: "world \<Rightarrow> bytes \<times> world" where
  "wireguard_tai64n_now w =
     (let (now, w) = wireguard_sys_now w;
          millis = (ucast now :: u64);
          seconds = 0x400000000000000a + millis div 1000;
          nanos = (ucast ((millis mod 1000) * 1000) :: u32)
      in (U64TO8_BIG seconds @ U32TO8_BIG nanos, w))"

definition wireguard_is_under_load :: bool where
  "wireguard_is_under_load = False"

definition wireguard_expired :: "u32 \<Rightarrow> u32 \<Rightarrow> world \<Rightarrow> bool \<times> world" where
  "wireguard_expired created_millis valid_seconds w =
     (let (now, w) = wireguard_sys_now w; diff = now - created_millis
      in (diff \<ge> valid_seconds * 1000, w))"

section \<open>wireguard.h\<close>

record wireguard_keypair =
  kp_valid :: bool
  kp_initiator :: bool
  keypair_millis :: u32
  sending_key :: bytes
  sending_valid :: bool
  sending_counter :: u64
  receiving_key :: bytes
  receiving_valid :: bool
  kp_last_tx :: u32
  kp_last_rx :: u32
  replay_bitmap :: u32
  replay_counter :: u64
  kp_local_index :: u32
  kp_remote_index :: u32

record wireguard_handshake =
  hs_valid :: bool
  hs_initiator :: bool
  hs_local_index :: u32
  hs_remote_index :: u32
  ephemeral_private :: bytes
  remote_ephemeral :: bytes
  hs_hash :: bytes
  chaining_key :: bytes

record wireguard_allowed_ip =
  ip_valid :: bool
  ip_ip :: u32
  ip_mask :: u32

record endpoint =
  ep_alive :: bool
  ep_is_proxy :: bool
  ep_ip :: u32
  ep_port :: u16

record wireguard_peer =
  peer_valid :: bool
  peer_active :: bool
  peer_iface_addr :: u32
  endpoints :: "endpoint list"
  n_endpoints :: u8
  endpoint_latest_is_proxy :: bool
  endpoint_latest_ip :: u32
  endpoint_latest_port :: u16
  endpoint_latest_t_heartbeated :: u64
  keepalive_interval :: u16
  timeout_rekey :: u16
  timeout_rekey_after_time :: u16
  timeout_reject_after_time :: u16
  allowed_source_ips :: "wireguard_allowed_ip list"
  peer_public_key :: bytes
  preshared_key :: bytes
  public_key_dh :: bytes
  curr_keypair :: wireguard_keypair
  prev_keypair :: wireguard_keypair
  next_keypair :: wireguard_keypair
  greatest_timestamp :: bytes
  handshake :: wireguard_handshake
  cookie_millis :: u32
  cookie :: bytes
  handshake_mac1_valid :: bool
  handshake_mac1 :: bytes
  peer_label_cookie_key :: bytes
  peer_label_mac1_key :: bytes
  last_initiation_rx :: u32
  last_initiation_tx :: u32
  peer_last_tx :: u32
  peer_last_rx :: u32
  send_handshake :: bool
  otp_enabled :: bool
  otp_sender :: u64
  otp_receiver :: "u64 list"

datatype kp_slot = Curr | Prev | Next

text \<open>Structures cleared with \<open>memset\<close>, \<open>calloc\<close> or \<open>crypto_zero\<close>.\<close>

definition keypair_zero :: wireguard_keypair where
  "keypair_zero = \<lparr>kp_valid = False, kp_initiator = False, keypair_millis = 0,
     sending_key = replicate 32 0, sending_valid = False, sending_counter = 0,
     receiving_key = replicate 32 0, receiving_valid = False, kp_last_tx = 0, kp_last_rx = 0,
     replay_bitmap = 0, replay_counter = 0, kp_local_index = 0, kp_remote_index = 0\<rparr>"

definition handshake_zero :: wireguard_handshake where
  "handshake_zero = \<lparr>hs_valid = False, hs_initiator = False, hs_local_index = 0,
     hs_remote_index = 0, ephemeral_private = replicate 32 0, remote_ephemeral = replicate 32 0,
     hs_hash = replicate 32 0, chaining_key = replicate 32 0\<rparr>"

definition WIREGUARD_MAX_SRC_IPS :: nat where
  "WIREGUARD_MAX_SRC_IPS = 2"

definition WIREGUARD_PEER_CONNECTS_MAX :: nat where
  "WIREGUARD_PEER_CONNECTS_MAX = 16"

definition peer_zero :: wireguard_peer where
  "peer_zero = \<lparr>peer_valid = False, peer_active = False, peer_iface_addr = 0,
     endpoints = replicate WIREGUARD_PEER_CONNECTS_MAX
       \<lparr>ep_alive = False, ep_is_proxy = False, ep_ip = 0, ep_port = 0\<rparr>,
     n_endpoints = 0, endpoint_latest_is_proxy = False, endpoint_latest_ip = 0,
     endpoint_latest_port = 0, endpoint_latest_t_heartbeated = 0, keepalive_interval = 0,
     timeout_rekey = 0, timeout_rekey_after_time = 0, timeout_reject_after_time = 0,
     allowed_source_ips = replicate WIREGUARD_MAX_SRC_IPS
       \<lparr>ip_valid = False, ip_ip = 0, ip_mask = 0\<rparr>,
     peer_public_key = replicate 32 0, preshared_key = replicate 32 0,
     public_key_dh = replicate 32 0, curr_keypair = keypair_zero, prev_keypair = keypair_zero,
     next_keypair = keypair_zero, greatest_timestamp = replicate 12 0,
     handshake = handshake_zero, cookie_millis = 0, cookie = replicate 16 0,
     handshake_mac1_valid = False, handshake_mac1 = replicate 16 0,
     peer_label_cookie_key = replicate 32 0, peer_label_mac1_key = replicate 32 0,
     last_initiation_rx = 0, last_initiation_tx = 0, peer_last_tx = 0, peer_last_rx = 0,
     send_handshake = False, otp_enabled = False, otp_sender = 0, otp_receiver = [0, 0, 0]\<rparr>"

datatype wireguard_acl_policy = WIREGUARD_ACL_POLICY_ALLOW | WIREGUARD_ACL_POLICY_BLOCK

record wireguard_acl =
  acl_programs :: "wireguard_acl_program list"
  acl_n_programs :: nat
  acl_default_policy :: wireguard_acl_policy

text \<open>The device, without its file descriptor and its timer; \<open>peers_count\<close> is the length of
  \<open>dev_peers\<close>.\<close>

record wireguard_device =
  dev_iface_addr :: u32
  dev_public_key :: bytes
  dev_private_key :: bytes
  cookie_secret :: bytes
  cookie_secret_millis :: u32
  dev_label_cookie_key :: bytes
  dev_label_mac1_key :: bytes
  dev_peers :: "wireguard_peer list"
  dev_acl :: wireguard_acl
  dev_valid :: bool

section \<open>Messages\<close>

record msg_handshake_initiation =
  mi_type :: u8
  mi_reserved :: bytes
  mi_sender :: u32
  mi_otp :: u64
  mi_ephemeral :: bytes
  mi_enc_static :: bytes
  mi_enc_timestamp :: bytes
  mi_mac1 :: bytes
  mi_mac2 :: bytes

record msg_handshake_response =
  mr_type :: u8
  mr_reserved :: bytes
  mr_sender :: u32
  mr_receiver :: u32
  mr_ephemeral :: bytes
  mr_enc_empty :: bytes
  mr_mac1 :: bytes
  mr_mac2 :: bytes

record msg_cookie_reply =
  mc_type :: u8
  mc_reserved :: bytes
  mc_receiver :: u32
  mc_nonce :: bytes
  mc_enc_cookie :: bytes

record msg_transport_data =
  mt_type :: u8
  mt_reserved :: bytes
  mt_receiver :: u32
  mt_counter :: bytes
  mt_enc_packet :: bytes

text \<open>Memory images of the packed structures, and the view of a received buffer through the cast
  \<open>(struct wireguard_msg_... *)data\<close>.\<close>

definition initiation_bytes :: "msg_handshake_initiation \<Rightarrow> bytes" where
  "initiation_bytes m = mi_type m # mi_reserved m @ U32TO8_LITTLE (mi_sender m) @
     U64TO8_LITTLE (mi_otp m) @ mi_ephemeral m @ mi_enc_static m @ mi_enc_timestamp m @
     mi_mac1 m @ mi_mac2 m"

definition initiation_of_bytes :: "bytes \<Rightarrow> msg_handshake_initiation" where
  "initiation_of_bytes d = \<lparr>mi_type = d ! 0, mi_reserved = bslice 1 3 d,
     mi_sender = U8TO32_LITTLE (bslice 4 4 d), mi_otp = U8TO64_LITTLE (bslice 8 8 d),
     mi_ephemeral = bslice 16 32 d, mi_enc_static = bslice 48 48 d,
     mi_enc_timestamp = bslice 96 28 d, mi_mac1 = bslice 124 16 d, mi_mac2 = bslice 140 16 d\<rparr>"

definition response_bytes :: "msg_handshake_response \<Rightarrow> bytes" where
  "response_bytes m = mr_type m # mr_reserved m @ U32TO8_LITTLE (mr_sender m) @
     U32TO8_LITTLE (mr_receiver m) @ mr_ephemeral m @ mr_enc_empty m @ mr_mac1 m @ mr_mac2 m"

definition response_of_bytes :: "bytes \<Rightarrow> msg_handshake_response" where
  "response_of_bytes d = \<lparr>mr_type = d ! 0, mr_reserved = bslice 1 3 d,
     mr_sender = U8TO32_LITTLE (bslice 4 4 d), mr_receiver = U8TO32_LITTLE (bslice 8 4 d),
     mr_ephemeral = bslice 12 32 d, mr_enc_empty = bslice 44 16 d,
     mr_mac1 = bslice 60 16 d, mr_mac2 = bslice 76 16 d\<rparr>"

definition cookie_bytes :: "msg_cookie_reply \<Rightarrow> bytes" where
  "cookie_bytes m = mc_type m # mc_reserved m @ U32TO8_LITTLE (mc_receiver m) @
     mc_nonce m @ mc_enc_cookie m"

definition cookie_of_bytes :: "bytes \<Rightarrow> msg_cookie_reply" where
  "cookie_of_bytes d = \<lparr>mc_type = d ! 0, mc_reserved = bslice 1 3 d,
     mc_receiver = U8TO32_LITTLE (bslice 4 4 d), mc_nonce = bslice 8 24 d,
     mc_enc_cookie = bslice 32 32 d\<rparr>"

definition transport_bytes :: "msg_transport_data \<Rightarrow> bytes" where
  "transport_bytes m = mt_type m # mt_reserved m @ U32TO8_LITTLE (mt_receiver m) @
     mt_counter m @ mt_enc_packet m"

definition transport_of_bytes :: "bytes \<Rightarrow> msg_transport_data" where
  "transport_of_bytes d = \<lparr>mt_type = d ! 0, mt_reserved = bslice 1 3 d,
     mt_receiver = U8TO32_LITTLE (bslice 4 4 d), mt_counter = bslice 8 8 d,
     mt_enc_packet = drop 16 d\<rparr>"

section \<open>Layout of the messages\<close>

definition wf_initiation :: "msg_handshake_initiation \<Rightarrow> bool" where
  "wf_initiation m \<longleftrightarrow> length (mi_reserved m) = 3 \<and> length (mi_ephemeral m) = 32 \<and>
     length (mi_enc_static m) = 48 \<and> length (mi_enc_timestamp m) = 28 \<and>
     length (mi_mac1 m) = 16 \<and> length (mi_mac2 m) = 16"

definition wf_response :: "msg_handshake_response \<Rightarrow> bool" where
  "wf_response m \<longleftrightarrow> length (mr_reserved m) = 3 \<and> length (mr_ephemeral m) = 32 \<and>
     length (mr_enc_empty m) = 16 \<and> length (mr_mac1 m) = 16 \<and> length (mr_mac2 m) = 16"

definition wf_cookie :: "msg_cookie_reply \<Rightarrow> bool" where
  "wf_cookie m \<longleftrightarrow> length (mc_reserved m) = 3 \<and> length (mc_nonce m) = 24 \<and>
     length (mc_enc_cookie m) = 32"

definition wf_transport :: "msg_transport_data \<Rightarrow> bool" where
  "wf_transport m \<longleftrightarrow> length (mt_reserved m) = 3 \<and> length (mt_counter m) = 8"

lemma bslice_skip: "length a = n \<Longrightarrow> n \<le> off \<Longrightarrow> bslice off k (a @ xs) = bslice (off - n) k xs"
  by (simp add: bslice_append_right)

lemma bslice_hit: "length a = k \<Longrightarrow> bslice 0 k (a @ xs) = a"
  by (simp add: bslice_def)

lemma bslice_skip_Cons: "0 < off \<Longrightarrow> bslice off k (x # xs) = bslice (off - 1) k xs"
  by (cases off) (simp_all add: bslice_def)

lemma drop_skip: "length a = n \<Longrightarrow> n \<le> off \<Longrightarrow> drop off (a @ xs) = drop (off - n) xs"
  by simp

lemmas layout = bslice_skip bslice_hit bslice_skip_Cons bslice_full

lemma length_message_bytes [simp, len_simps]:
  "wf_initiation m \<Longrightarrow> length (initiation_bytes m) = 156"
  "wf_response r \<Longrightarrow> length (response_bytes r) = 92"
  "wf_cookie c \<Longrightarrow> length (cookie_bytes c) = 64"
  "wf_transport t \<Longrightarrow> length (transport_bytes t) = 16 + length (mt_enc_packet t)"
  by (simp_all add: wf_initiation_def initiation_bytes_def wf_response_def response_bytes_def
      wf_cookie_def cookie_bytes_def wf_transport_def transport_bytes_def)

lemma initiation_of_bytes_image: "wf_initiation m \<Longrightarrow> initiation_of_bytes (initiation_bytes m) = m"
  by (cases m) (simp add: wf_initiation_def initiation_bytes_def initiation_of_bytes_def layout)

lemma response_of_bytes_image: "wf_response m \<Longrightarrow> response_of_bytes (response_bytes m) = m"
  by (cases m) (simp add: wf_response_def response_bytes_def response_of_bytes_def layout)

lemma cookie_of_bytes_image: "wf_cookie m \<Longrightarrow> cookie_of_bytes (cookie_bytes m) = m"
  by (cases m) (simp add: wf_cookie_def cookie_bytes_def cookie_of_bytes_def layout)

lemma transport_of_bytes_image: "wf_transport m \<Longrightarrow> transport_of_bytes (transport_bytes m) = m"
  by (cases m) (simp add: wf_transport_def transport_bytes_def transport_of_bytes_def layout)

end
