(* ===== verification/Wg_Session.thy ===== *)
theory Wg_Session
  imports Wg_Types
begin

text \<open>
  The session state of \<open>common/wireguard.c\<close>: searching the peer table, the three keypairs of a
  peer and their rotation, the replay window, and the choice of session indices.
\<close>

section \<open>The peer table\<close>

definition wireguard_peer_alloc :: "wireguard_device \<Rightarrow> nat option" where
  "wireguard_peer_alloc device = find_index (\<lambda>tmp. \<not> peer_valid tmp) (dev_peers device)"

definition wireguard_peer_lookup_by_pubkey :: "wireguard_device \<Rightarrow> bytes \<Rightarrow> nat option" where
  "wireguard_peer_lookup_by_pubkey device public_key =
     find_index (\<lambda>tmp. peer_valid tmp \<and> peer_public_key tmp = public_key) (dev_peers device)"

text \<open>\<open>None\<close> where the C function would index the array below 0.\<close>

definition wireguard_peer_lookup_by_peer_index :: "wireguard_device \<Rightarrow> int \<Rightarrow> nat option option" where
  "wireguard_peer_lookup_by_peer_index device peer_index =
     (if peer_index < int (length (dev_peers device))
      then if peer_index < 0 then None
           else if peer_valid (dev_peers device ! nat peer_index) then Some (Some (nat peer_index))
           else Some None
      else Some None)"

definition wireguard_peer_lookup_by_receiver :: "wireguard_device \<Rightarrow> u32 \<Rightarrow> nat option" where
  "wireguard_peer_lookup_by_receiver device receiver =
     find_index (\<lambda>tmp. peer_valid tmp \<and>
         ((kp_valid (curr_keypair tmp) \<and> kp_local_index (curr_keypair tmp) = receiver) \<or>
          (kp_valid (next_keypair tmp) \<and> kp_local_index (next_keypair tmp) = receiver) \<or>
          (kp_valid (prev_keypair tmp) \<and> kp_local_index (prev_keypair tmp) = receiver)))
       (dev_peers device)"

definition wireguard_peer_lookup_by_handshake :: "wireguard_device \<Rightarrow> u32 \<Rightarrow> nat option" where
  "wireguard_peer_lookup_by_handshake device receiver =
     find_index (\<lambda>tmp. peer_valid tmp \<and> hs_valid (handshake tmp) \<and> hs_initiator (handshake tmp) \<and>
         hs_local_index (handshake tmp) = receiver)
       (dev_peers device)"

definition upd_peer :: "nat \<Rightarrow> wireguard_peer \<Rightarrow> wireguard_device \<Rightarrow> wireguard_device" where
  "upd_peer i p device = device\<lparr>dev_peers := (dev_peers device)[i := p]\<rparr>"

section \<open>Keypairs\<close>

definition keypair_at :: "wireguard_peer \<Rightarrow> kp_slot \<Rightarrow> wireguard_keypair" where
  "keypair_at peer s =
     (case s of Curr \<Rightarrow> curr_keypair peer | Prev \<Rightarrow> prev_keypair peer | Next \<Rightarrow> next_keypair peer)"

definition set_keypair :: "kp_slot \<Rightarrow> wireguard_keypair \<Rightarrow> wireguard_peer \<Rightarrow> wireguard_peer" where
  "set_keypair s kp peer =
     (case s of Curr \<Rightarrow> peer\<lparr>curr_keypair := kp\<rparr> | Prev \<Rightarrow> peer\<lparr>prev_keypair := kp\<rparr>
      | Next \<Rightarrow> peer\<lparr>next_keypair := kp\<rparr>)"

definition wireguard_get_peer_keypair_for_idx :: "wireguard_peer \<Rightarrow> u32 \<Rightarrow> kp_slot option" where
  "wireguard_get_peer_keypair_for_idx peer idx =
     (if kp_valid (curr_keypair peer) \<and> kp_local_index (curr_keypair peer) = idx then Some Curr
      else if kp_valid (next_keypair peer) \<and> kp_local_index (next_keypair peer) = idx then Some Next
      else if kp_valid (prev_keypair peer) \<and> kp_local_index (prev_keypair peer) = idx then Some Prev
      else None)"

definition wireguard_keypair_destroy :: "kp_slot \<Rightarrow> wireguard_peer \<Rightarrow> wireguard_peer" where
  "wireguard_keypair_destroy s peer = set_keypair s (keypair_zero\<lparr>kp_valid := False\<rparr>) peer"

definition wireguard_keypair_update :: "wireguard_peer \<Rightarrow> kp_slot \<Rightarrow> wireguard_peer" where
  "wireguard_keypair_update peer received_keypair =
     (if received_keypair = Next
      then let peer = peer\<lparr>prev_keypair := curr_keypair peer\<rparr>;
               peer = peer\<lparr>curr_keypair := next_keypair peer\<rparr>
           in wireguard_keypair_destroy Next peer
      else peer)"

definition add_new_keypair :: "wireguard_peer \<Rightarrow> wireguard_keypair \<Rightarrow> wireguard_peer" where
  "add_new_keypair peer new_keypair =
     (if kp_initiator new_keypair
      then let peer = (if kp_valid (next_keypair peer)
                       then wireguard_keypair_destroy Next (peer\<lparr>prev_keypair := next_keypair peer\<rparr>)
                       else peer\<lparr>prev_keypair := curr_keypair peer\<rparr>)
           in peer\<lparr>curr_keypair := new_keypair\<rparr>
      else wireguard_keypair_destroy Prev (peer\<lparr>next_keypair := new_keypair\<rparr>))"

section \<open>The replay window\<close>

definition wireguard_check_replay :: "wireguard_keypair \<Rightarrow> u64 \<Rightarrow> bool \<times> wireguard_keypair" where
  "wireguard_check_replay keypair seq =
     (let seq = seq + 1 in
      if seq \<noteq> 0 then
        if seq > replay_counter keypair then
          let diff = (ucast (seq - replay_counter keypair) :: u32);
              keypair = (if unat diff < 32
                 then keypair\<lparr>replay_bitmap := push_bit (unat diff) (replay_bitmap keypair) OR 1\<rparr>
                 else keypair\<lparr>replay_bitmap := 1\<rparr>)
          in (True, keypair\<lparr>replay_counter := seq\<rparr>)
        else
          let diff = (ucast (replay_counter keypair - seq) :: u32) in
          if unat diff < 32 then
            if replay_bitmap keypair AND push_bit (unat diff) 1 \<noteq> 0 then (False, keypair)
            else (True, keypair\<lparr>replay_bitmap := replay_bitmap keypair OR push_bit (unat diff) 1\<rparr>)
          else (False, keypair)
      else (False, keypair))"

text \<open>A sequence of received counters: the verdicts in order.\<close>

fun check_replays :: "wireguard_keypair \<Rightarrow> u64 list \<Rightarrow> bool list \<times> wireguard_keypair" where
  "check_replays kp [] = ([], kp)"
| "check_replays kp (n # ns) =
     (let (v, kp) = wireguard_check_replay kp n; (vs, kp) = check_replays kp ns in (v # vs, kp))"

section \<open>Session indices\<close>

text \<open>The inner \<open>do ... while\<close>: random words until one is neither 0 nor 0xFFFFFFFF.\<close>

partial_function (option) random_index :: "world \<Rightarrow> (u32 \<times> world) option" where
  "random_index w =
     (let (buf, w) = wireguard_random_bytes 4 w; result = U8TO32_LITTLE buf
      in if result = 0 \<or> result = 0xFFFFFFFF then random_index w else Some (result, w))"

text \<open>The \<open>for\<close> loop: each iteration overwrites \<open>existing\<close>.\<close>

fun index_existing :: "u32 \<Rightarrow> bool \<Rightarrow> wireguard_peer list \<Rightarrow> bool" where
  "index_existing result existing [] = existing"
| "index_existing result existing (peer # peers) =
     index_existing result
       (result = kp_local_index (curr_keypair peer) \<or> result = kp_local_index (prev_keypair peer) \<or>
        result = kp_local_index (next_keypair peer) \<or> result = hs_local_index (handshake peer))
       peers"

partial_function (option) wireguard_generate_unique_index ::
  "wireguard_device \<Rightarrow> world \<Rightarrow> (u32 \<times> world) option" where
  "wireguard_generate_unique_index device w =
     (case random_index w of
        None \<Rightarrow> None
      | Some (result, w) \<Rightarrow>
          if index_existing result False (dev_peers device)
          then wireguard_generate_unique_index device w
          else Some (result, w))"

section \<open>Replay window: refinement of the set of accepted numbers\<close>

text \<open>The specification keeps the set of all accepted numbers: a number is accepted when it is new
  and no accepted number is 32 or more ahead of it.\<close>

fun replay_spec :: "nat set \<Rightarrow> nat list \<Rightarrow> bool list" where
  "replay_spec S [] = []"
| "replay_spec S (n # ns) =
     (let ok = (n \<notin> S \<and> (\<forall>m \<in> S. m < n + 32)) in ok # replay_spec (if ok then insert n S else S) ns)"

definition replay_rel :: "nat set \<Rightarrow> wireguard_keypair \<Rightarrow> bool" where
  "replay_rel S kp \<longleftrightarrow>
     (let c = unat (replay_counter kp) in
      c < 2 ^ 32 \<and> (\<forall>m \<in> S. m < c) \<and> (c = 0 \<or> c - 1 \<in> S) \<and>
      (\<forall>d < 32. bit (replay_bitmap kp) d \<longleftrightarrow> d < c \<and> c - 1 - d \<in> S))"

lemma unat_ucast_u32: "unat x < 2 ^ 32 \<Longrightarrow> unat (ucast (x :: u64) :: u32) = unat x"
  by (simp add: unsigned_ucast_eq take_bit_nat_eq_self)

lemma unat_Suc_u64: "unat (n :: u64) < 2 ^ 32 - 1 \<Longrightarrow> unat (n + 1) = unat n + 1"
  by (simp add: unat_word_ariths)

lemma replay_newer:
  assumes rel: "replay_rel S kp" and n: "unat n < 2 ^ 32 - 1" and gt: "n + 1 > replay_counter kp"
  shows "unat n \<notin> S \<and> (\<forall>m \<in> S. m < unat n + 32)"
    and "fst (wireguard_check_replay kp n)"
    and "replay_rel (insert (unat n) S) (snd (wireguard_check_replay kp n))"
proof -
  let ?c = "unat (replay_counter kp)" and ?n = "unat n"
  have r: "\<forall>m \<in> S. m < ?c" "\<And>d. d < 32 \<Longrightarrow> bit (replay_bitmap kp) d \<longleftrightarrow> d < ?c \<and> ?c - 1 - d \<in> S"
    using rel by (auto simp: replay_rel_def Let_def)
  have u: "unat (n + 1) = ?n + 1" using n by (rule unat_Suc_u64)
  have cn: "?c \<le> ?n" using gt u by (simp add: word_less_nat_alt)
  show "?n \<notin> S \<and> (\<forall>m \<in> S. m < ?n + 32)" using r(1) cn by fastforce
  have nz: "n + 1 \<noteq> 0" using u by (metis Suc_eq_plus1 nat.simps(3) unat_0)
  have d: "unat (ucast (n + 1 - replay_counter kp) :: u32) = ?n + 1 - ?c"
    using n cn u by (subst unat_ucast_u32) (simp_all add: unat_sub word_le_nat_alt)
  have e: "wireguard_check_replay kp n = (True, (if ?n + 1 - ?c < 32
      then kp\<lparr>replay_bitmap := push_bit (?n + 1 - ?c) (replay_bitmap kp) OR 1\<rparr>
      else kp\<lparr>replay_bitmap := 1\<rparr>)\<lparr>replay_counter := n + 1\<rparr>)"
    using nz gt by (simp add: wireguard_check_replay_def Let_def d)
  show "fst (wireguard_check_replay kp n)" by (simp add: e)
  have "bit (replay_bitmap (snd (wireguard_check_replay kp n))) k \<longleftrightarrow> k < ?n + 1 \<and> ?n - k \<in> insert ?n S"
    if k: "k < 32" for k
  proof (cases "?n + 1 - ?c < 32")
    case True
    have "bit (replay_bitmap (snd (wireguard_check_replay kp n))) k \<longleftrightarrow>
        k = 0 \<or> (?n + 1 - ?c \<le> k \<and> bit (replay_bitmap kp) (k - (?n + 1 - ?c)))"
      using True k by (auto simp: e bit_simps)
    also have "\<dots> \<longleftrightarrow> k < ?n + 1 \<and> ?n - k \<in> insert ?n S"
      using r(1) r(2) [of "k - (?n + 1 - ?c)"] True k cn by (cases "k = 0"; cases "?n + 1 - ?c \<le> k") (auto simp: Suc_diff_le)
    finally show ?thesis .
  next
    case False
    then have "bit (replay_bitmap (snd (wireguard_check_replay kp n))) k \<longleftrightarrow> k = 0" by (auto simp: e bit_simps)
    also have "\<dots> \<longleftrightarrow> k < ?n + 1 \<and> ?n - k \<in> insert ?n S" using False k r(1) by fastforce
    finally show ?thesis .
  qed
  then show "replay_rel (insert ?n S) (snd (wireguard_check_replay kp n))"
    using r(1) cn u n by (auto simp: replay_rel_def Let_def e)
qed

lemma replay_older:
  assumes rel: "replay_rel S kp" and n: "unat n < 2 ^ 32 - 1" and le: "\<not> n + 1 > replay_counter kp"
  shows "fst (wireguard_check_replay kp n) \<longleftrightarrow> unat n \<notin> S \<and> (\<forall>m \<in> S. m < unat n + 32)"
    and "replay_rel (if fst (wireguard_check_replay kp n) then insert (unat n) S else S)
           (snd (wireguard_check_replay kp n))"
proof -
  let ?c = "unat (replay_counter kp)" and ?n = "unat n"
  have r: "?c < 2 ^ 32" "\<forall>m \<in> S. m < ?c" "?c = 0 \<or> ?c - 1 \<in> S"
    "\<And>d. d < 32 \<Longrightarrow> bit (replay_bitmap kp) d \<longleftrightarrow> d < ?c \<and> ?c - 1 - d \<in> S"
    using rel by (auto simp: replay_rel_def Let_def)
  have u: "unat (n + 1) = ?n + 1" using n by (rule unat_Suc_u64)
  have nc: "?n + 1 \<le> ?c" using le u by (simp add: not_less word_le_nat_alt)
  have nz: "n + 1 \<noteq> 0" using u by (metis Suc_eq_plus1 nat.simps(3) unat_0)
  let ?d = "?c - (?n + 1)"
  have d: "unat (ucast (replay_counter kp - (n + 1)) :: u32) = ?d"
    using r(1) nc u by (subst unat_ucast_u32) (simp_all add: unat_sub word_le_nat_alt)
  have e: "wireguard_check_replay kp n = (if ?d < 32 \<and> \<not> bit (replay_bitmap kp) ?d
      then (True, kp\<lparr>replay_bitmap := replay_bitmap kp OR push_bit ?d 1\<rparr>) else (False, kp))"
    using nz le unfolding wireguard_check_replay_def Let_def d and_push_bit_1 by simp
  have b: "?d < 32 \<Longrightarrow> bit (replay_bitmap kp) ?d \<longleftrightarrow> ?n \<in> S" using r(4) [of ?d] nc by simp
  show v: "fst (wireguard_check_replay kp n) \<longleftrightarrow> ?n \<notin> S \<and> (\<forall>m \<in> S. m < ?n + 32)"
  proof (cases "?d < 32")
    case True
    then have "\<forall>m \<in> S. m < ?n + 32" using r(2) by fastforce
    then show ?thesis using True b by (simp add: e)
  next
    case False
    then have "?c - 1 \<in> S" "\<not> ?c - 1 < ?n + 32" using r(3) nc by auto
    then show ?thesis using False by (auto simp: e)
  qed
  have "replay_rel (insert ?n S) (kp\<lparr>replay_bitmap := replay_bitmap kp OR push_bit ?d 1\<rparr>)" if dl: "?d < 32"
  proof -
    have "bit (replay_bitmap kp OR push_bit ?d 1) k \<longleftrightarrow> k < ?c \<and> ?c - 1 - k \<in> insert ?n S" if "k < 32" for k
      using r(4) [OF that] that dl nc by (auto simp: bit_simps)
    then show ?thesis using r(1,2,3) nc by (auto simp: replay_rel_def Let_def)
  qed
  then show "replay_rel (if fst (wireguard_check_replay kp n) then insert ?n S else S)
      (snd (wireguard_check_replay kp n))" using rel by (auto simp: e)
qed

lemma replay_step:
  assumes "replay_rel S kp" and "unat n < 2 ^ 32 - 1"
  shows "fst (wireguard_check_replay kp n) \<longleftrightarrow> unat n \<notin> S \<and> (\<forall>m \<in> S. m < unat n + 32)"
    and "replay_rel (if fst (wireguard_check_replay kp n) then insert (unat n) S else S)
           (snd (wireguard_check_replay kp n))"
  using replay_newer [OF assms] replay_older [OF assms] by (cases "n + 1 > replay_counter kp"; simp)+

lemma check_replays_spec:
  "replay_rel S kp \<Longrightarrow> \<forall>n \<in> set ns. unat n < 2 ^ 32 - 1 \<Longrightarrow>
     fst (check_replays kp ns) = replay_spec S (map unat ns)"
proof (induction ns arbitrary: S kp)
  case (Cons n ns)
  have n: "unat n < 2 ^ 32 - 1" using Cons.prems by simp
  note st = replay_step [OF Cons.prems(1) n]
  from Cons.IH [OF st(2)] Cons.prems(2) st(1) show ?case
    by (simp add: Let_def case_prod_beta)
qed simp

lemma replay_rel_fresh: "replay_counter kp = 0 \<Longrightarrow> replay_bitmap kp = 0 \<Longrightarrow> replay_rel {} kp"
  by (simp add: replay_rel_def)

text \<open>In the specification no number is accepted twice.\<close>

lemma replay_spec_accepted:
  "let acc = map fst (filter snd (zip ns (replay_spec S ns))) in distinct acc \<and> set acc \<inter> S = {}"
proof (induction ns arbitrary: S)
  case (Cons n ns)
  show ?case using Cons [of "insert n S"] Cons [of S] by (auto simp: Let_def)
qed simp

section \<open>Keypair slots\<close>

lemmas slot_defs = keypair_at_def set_keypair_def wireguard_keypair_destroy_def
  wireguard_keypair_update_def add_new_keypair_def wireguard_get_peer_keypair_for_idx_def

lemma get_keypair_SomeD:
  "wireguard_get_peer_keypair_for_idx p idx = Some s \<Longrightarrow>
     kp_valid (keypair_at p s) \<and> kp_local_index (keypair_at p s) = idx"
  by (cases s) (auto simp: slot_defs split: if_splits)

lemma lookup_by_receiver_keypair:
  "wireguard_peer_lookup_by_receiver device idx = Some i \<Longrightarrow>
     wireguard_get_peer_keypair_for_idx (dev_peers device ! i) idx \<noteq> None"
  unfolding wireguard_peer_lookup_by_receiver_def find_index_Some_iff
  by (auto simp: wireguard_get_peer_keypair_for_idx_def)

section \<open>Session indices\<close>

definition peer_uses_index :: "u32 \<Rightarrow> wireguard_peer \<Rightarrow> bool" where
  "peer_uses_index r p \<longleftrightarrow> r = kp_local_index (curr_keypair p) \<or> r = kp_local_index (prev_keypair p) \<or>
     r = kp_local_index (next_keypair p) \<or> r = hs_local_index (handshake p)"

lemma index_existing_last:
  "index_existing r e ps = (if ps = [] then e else peer_uses_index r (last ps))"
  by (induction ps arbitrary: e) (auto simp: peer_uses_index_def)

lemma random_index_range:
  "random_index w = Some (r, w') \<Longrightarrow> r \<noteq> 0 \<and> r \<noteq> 0xFFFFFFFF"
proof -
  have "\<forall>x. random_index w = Some x \<longrightarrow> fst x \<noteq> 0 \<and> fst x \<noteq> 0xFFFFFFFF"
  proof (rule allI, rule impI, erule random_index.raw_induct [rotated])
    fix f :: "world \<Rightarrow> (u32 \<times> world) option" and w x
    assume ih: "\<And>w x. f w = Some x \<Longrightarrow> fst x \<noteq> 0 \<and> fst x \<noteq> 0xFFFFFFFF"
      and e: "(let (buf, w) = wireguard_random_bytes 4 w; result = U8TO32_LITTLE buf
          in if result = 0 \<or> result = 0xFFFFFFFF then f w else Some (result, w)) = Some x"
    then show "fst x \<noteq> 0 \<and> fst x \<noteq> 0xFFFFFFFF"
      by (cases "wireguard_random_bytes 4 w") (auto simp: Let_def split: if_splits)
  qed
  then show "random_index w = Some (r, w') \<Longrightarrow> r \<noteq> 0 \<and> r \<noteq> 0xFFFFFFFF" by fastforce
qed

lemma unique_index_sound:
  "wireguard_generate_unique_index device w = Some x \<Longrightarrow>
     fst x \<noteq> 0 \<and> fst x \<noteq> 0xFFFFFFFF \<and> (dev_peers device \<noteq> [] \<longrightarrow> \<not> peer_uses_index (fst x) (last (dev_peers device)))"
proof (erule wireguard_generate_unique_index.raw_induct [rotated])
  fix f :: "wireguard_device \<Rightarrow> world \<Rightarrow> (u32 \<times> world) option" and device w x
  assume ih: "\<And>device w x. f device w = Some x \<Longrightarrow>
        fst x \<noteq> 0 \<and> fst x \<noteq> 0xFFFFFFFF \<and> (dev_peers device \<noteq> [] \<longrightarrow> \<not> peer_uses_index (fst x) (last (dev_peers device)))"
    and e: "(case random_index w of None \<Rightarrow> None
        | Some (result, w) \<Rightarrow> if index_existing result False (dev_peers device) then f device w
            else Some (result, w)) = Some x"
  obtain r w' where r: "random_index w = Some (r, w')" using e by (auto split: option.splits)
  show "fst x \<noteq> 0 \<and> fst x \<noteq> 0xFFFFFFFF \<and> (dev_peers device \<noteq> [] \<longrightarrow> \<not> peer_uses_index (fst x) (last (dev_peers device)))"
    using e r ih [of device w' x] random_index_range [OF r] by (auto simp: index_existing_last split: if_splits)
qed

text \<open>The first candidate is taken when the last peer does not use it.\<close>

lemma unique_index_first:
  assumes "wireguard_random_bytes 4 w = (buf, w')" and "U8TO32_LITTLE buf = r" and "r \<noteq> 0" "r \<noteq> 0xFFFFFFFF"
    and "dev_peers device = [] \<or> \<not> peer_uses_index r (last (dev_peers device))"
  shows "wireguard_generate_unique_index device w = Some (r, w')"
proof -
  have "random_index w = Some (r, w')"
    using assms(1-4) by (subst random_index.simps) simp
  then show ?thesis using assms(5)
    by (subst wireguard_generate_unique_index.simps) (auto simp: index_existing_last)
qed

lemma random_byte_not_255: "(of_nat (r mod 255) :: u8) \<noteq> 255"
proof
  assume a: "(of_nat (r mod 255) :: u8) = 255"
  have l: "r mod 255 < 255" by simp
  then have "unat (of_nat (r mod 255) :: u8) = r mod 255" by (simp add: unat_of_nat)
  then show False using l unfolding a by simp
qed

lemma random_bytes_not_255: "255 \<notin> set (fst (wireguard_random_bytes n w))"
proof (induction n arbitrary: w)
  case (Suc n)
  then show ?case
    by (simp add: rand_def case_prod_beta Let_def)
      (metis random_byte_not_255)
qed simp

lemma length_random_bytes [simp, len_simps]: "length (fst (wireguard_random_bytes n w)) = n"
  by (induction n arbitrary: w) (simp_all add: rand_def case_prod_beta Let_def)

section \<open>Properties\<close>

text \<open>
  C29: On a fresh keypair and as long as packet numbers are below \<open>2\<^sup>32 - 1\<close>, the bitmap and the highest counter
  implement the set of all accepted numbers (beyond that, the distance to the highest one is truncated): a packet is accepted exactly when its number is new
  and no accepted number is 32 or more ahead of it, for every order of arrival. In particular no
  number is accepted twice.
\<close>

theorem replay_window_refines_set:
  assumes "replay_counter kp = 0" and "replay_bitmap kp = 0" and "\<forall>n \<in> set ns. unat n < 2 ^ 32 - 1"
  shows "fst (check_replays kp ns) = replay_spec {} (map unat ns) \<and>
    distinct (map fst (filter snd (zip (map unat ns) (fst (check_replays kp ns)))))"
  using check_replays_spec [OF replay_rel_fresh [OF assms(1,2)] assms(3)]
    replay_spec_accepted [of "map unat ns" "{}"] by (simp add: Let_def)

theorem replay_window_refines_set_witness:
  "fst (check_replays keypair_zero [0, 40, 3, 9, 40]) = replay_spec {} [0, 40, 3, 9, 40] \<and>
    distinct (map fst (filter snd (zip [0 :: nat, 40, 3, 9, 40]
      (fst (check_replays keypair_zero [0, 40, 3, 9, 40])))))"
  using replay_window_refines_set [of keypair_zero "[0, 40, 3, 9, 40]"]
  by (simp add: keypair_zero_def)

text \<open>
  the 64-bit distance between a packet number and the highest accepted one is truncated to 32
  bits, so packets \<open>2\<^sup>32\<close> apart are confused: after packets 0, 100 and \<open>2\<^sup>32 + 5\<close> the packet number
  0 is accepted a second time.
\<close>

theorem replay_window_truncates_distance:
  "fst (check_replays keypair_zero [0, 100, 2 ^ 32 + 5, 0]) = [True, True, True, True]"
  by (simp add: wireguard_check_replay_def keypair_zero_def)

definition kp_demo :: "u32 \<Rightarrow> bool \<Rightarrow> wireguard_keypair" where
  "kp_demo i b = keypair_zero\<lparr>kp_valid := True, kp_initiator := b, kp_local_index := i\<rparr>"

definition stat_zero :: wireguard_iface_stat where
  "stat_zero = \<lparr>n_no_peer_found = 0, n_no_ipv4_hdr = 0, n_nobufs = 0, n_tun_rx_pkts = 0,
     n_tun_tx_pkts = 0, n_udp_rx_pkts = 0, n_udp_tx_pkts = 0, n_udp_tx_errs = 0,
     n_udp_proxy_rx_pkts = 0, n_udp_proxy_tx_pkts = 0, n_udp_proxy_rx_errs = 0, bytes_tun_rx = 0,
     bytes_tun_tx = 0, bytes_udp_rx = 0, bytes_udp_tx = 0, bytes_udp_proxy_rx = 0,
     bytes_udp_proxy_tx = 0\<rparr>"

text \<open>A world for concrete runs: constant random numbers and clock, and a network that accepts
  every datagram.\<close>

definition world_demo :: "nat \<Rightarrow> u32 \<Rightarrow> world" where
  "world_demo r t = \<lparr>w_rand = \<lambda>_. r, w_rand_pos = 0, w_clock = \<lambda>_. t, w_clock_pos = 0,
     w_time = \<lambda>_. 0, w_time_pos = 0, w_sendto = \<lambda>_. Sent, w_sendto_pos = 0,
     w_tunwrite = \<lambda>_. Tun_full, w_tunwrite_pos = 0, w_out = [],
     w_pool = PBUF_init pool_demo, w_band_uuid = replicate 16 0,
     wg_stat = stat_zero\<rparr>"

definition device_demo :: "wireguard_peer list \<Rightarrow> wireguard_device" where
  "device_demo ps = \<lparr>dev_iface_addr = 0, dev_public_key = replicate 32 1,
     dev_private_key = replicate 32 2, cookie_secret = replicate 32 0, cookie_secret_millis = 0,
     dev_label_cookie_key = replicate 32 0, dev_label_mac1_key = replicate 32 0, dev_peers = ps,
     dev_acl = \<lparr>acl_programs = [], acl_n_programs = 0,
                acl_default_policy = WIREGUARD_ACL_POLICY_ALLOW\<rparr>,
     dev_valid = True\<rparr>"

lemma random_bytes_demo:
  "wireguard_random_bytes n w = (map (\<lambda>i. of_nat (w_rand w (w_rand_pos w + i) mod 255)) [0..<n],
     w\<lparr>w_rand_pos := w_rand_pos w + n\<rparr>)"
proof (induction n arbitrary: w)
  case (Suc n)
  have "[0..<Suc n] = 0 # map Suc [0..<n]" by (simp add: map_Suc_upt upt_conv_Cons)
  then show ?case by (simp add: rand_def Suc)
qed simp

definition usable_index :: "wireguard_device \<Rightarrow> u32 \<Rightarrow> bool" where
  "usable_index device r \<longleftrightarrow> r \<noteq> 0 \<and> r \<noteq> 0xFFFFFFFF \<and>
     (case rev (dev_peers device) of [] \<Rightarrow> True | p # _ \<Rightarrow> \<not> peer_uses_index r p)"

definition index_candidate :: "world \<Rightarrow> nat \<Rightarrow> u32" where
  "index_candidate w k = U8TO32_LITTLE (fst (wireguard_random_bytes 4 (w\<lparr>w_rand_pos := w_rand_pos w + 4 * k\<rparr>)))"

lemma usable_index_iff:
  "usable_index device r \<longleftrightarrow> r \<noteq> 0 \<and> r \<noteq> 0xFFFFFFFF \<and> \<not> index_existing r False (dev_peers device)"
  by (cases "dev_peers device" rule: rev_cases) (simp_all add: usable_index_def index_existing_last)

lemma unique_index_step:
  "wireguard_generate_unique_index device w =
     (let r = index_candidate w 0; w' = w\<lparr>w_rand_pos := w_rand_pos w + 4\<rparr>
      in if usable_index device r then Some (r, w') else wireguard_generate_unique_index device w')"
proof -
  let ?r = "index_candidate w 0" and ?w = "w\<lparr>w_rand_pos := w_rand_pos w + 4\<rparr>"
  have b: "wireguard_random_bytes 4 w = (fst (wireguard_random_bytes 4 w), ?w)"
    by (simp add: random_bytes_demo)
  have r: "U8TO32_LITTLE (fst (wireguard_random_bytes 4 w)) = ?r" by (simp add: index_candidate_def)
  have s: "random_index w = (if ?r = 0 \<or> ?r = 0xFFFFFFFF then random_index ?w else Some (?r, ?w))"
    by (subst random_index.simps, subst b) (simp add: r)
  show ?thesis
  proof (cases "?r = 0 \<or> ?r = 0xFFFFFFFF")
    case True
    then have "random_index w = random_index ?w" and "\<not> usable_index device ?r"
      using s by (auto simp: usable_index_def)
    then show ?thesis
      by (subst wireguard_generate_unique_index.simps)
        (simp add: Let_def wireguard_generate_unique_index.simps [of device ?w])
  next
    case False
    then show ?thesis
      using s by (subst wireguard_generate_unique_index.simps) (simp add: usable_index_iff Let_def)
  qed
qed

lemma index_candidate_next: "index_candidate (w\<lparr>w_rand_pos := w_rand_pos w + 4\<rparr>) k = index_candidate w (Suc k)"
  by (simp add: index_candidate_def algebra_simps)

lemma unique_index_ends:
  "usable_index device (index_candidate w k) \<Longrightarrow>
     \<exists>r w'. wireguard_generate_unique_index device w = Some (r, w') \<and> usable_index device r"
proof (induction k arbitrary: w)
  case 0
  then show ?case by (subst unique_index_step) (simp add: Let_def)
next
  case (Suc k)
  show ?case
  proof (cases "usable_index device (index_candidate w 0)")
    case True
    then show ?thesis by (subst unique_index_step) (simp add: Let_def)
  next
    case False
    then show ?thesis using Suc.IH [of "w\<lparr>w_rand_pos := w_rand_pos w + 4\<rparr>"] Suc.prems
      by (subst unique_index_step) (simp add: Let_def index_candidate_next)
  qed
qed

text \<open>
  the search for a session index ends as soon as the random source yields a usable word: if
  any of the words it delivers, taken four bytes at a time, is neither 0 nor 0xFFFFFFFF and is not
  used by the last peer of the table, the search returns an index with these properties.
\<close>

theorem unique_index_search_ends:
  assumes "usable_index device (index_candidate w k)"
  shows "\<exists>r w'. wireguard_generate_unique_index device w = Some (r, w') \<and> usable_index device r"
  using assms by (rule unique_index_ends)

lemma unique_index_demo:
  assumes "ps = [] \<or> \<not> peer_uses_index 0x07070707 (last ps)"
  shows "wireguard_generate_unique_index (device_demo ps) (world_demo 7 t) =
    Some (0x07070707, (world_demo 7 t)\<lparr>w_rand_pos := 4\<rparr>)"
proof (rule unique_index_first)
  have "[0..<4] = [0, 1, 2, 3 :: nat]" by (simp add: upt_rec)
  then show "wireguard_random_bytes 4 (world_demo 7 t) = ([7, 7, 7, 7], (world_demo 7 t)\<lparr>w_rand_pos := 4\<rparr>)"
    by (simp add: random_bytes_demo world_demo_def)
qed (use assms in \<open>simp_all add: U8TO32_LITTLE_def device_demo_def\<close>)

theorem unique_index_search_ends_witness:
  "\<exists>r w'. wireguard_generate_unique_index (device_demo [peer_zero]) (world_demo 7 0) = Some (r, w') \<and>
     usable_index (device_demo [peer_zero]) r"
proof (rule unique_index_search_ends)
  have "[0..<4] = [0, 1, 2, 3 :: nat]" by (simp add: upt_rec)
  then show "usable_index (device_demo [peer_zero]) (index_candidate (world_demo 7 0) 3)"
    by (simp add: usable_index_def index_candidate_def random_bytes_demo world_demo_def device_demo_def
        peer_uses_index_def peer_zero_def keypair_zero_def handshake_zero_def U8TO32_LITTLE_def)
qed

text \<open>
  \<open>wireguard_generate_unique_index\<close> overwrites its \<open>existing\<close> flag for each peer, so only the
  last peer of the table is compared: with two peers it returns the index of the live session of
  the first one.
\<close>

theorem unique_index_can_collide:
  "wireguard_generate_unique_index
     (device_demo [peer_zero\<lparr>peer_valid := True, curr_keypair := kp_demo 0x07070707 True\<rparr>,
        peer_zero\<lparr>peer_valid := True\<rparr>]) (world_demo 7 0) =
   Some (0x07070707, (world_demo 7 0)\<lparr>w_rand_pos := 4\<rparr>)"
  by (rule unique_index_demo)
    (simp add: peer_uses_index_def peer_zero_def keypair_zero_def handshake_zero_def)

text \<open>
  The function \<open>wireguard_random_bytes\<close> reduces each \<open>rand()\<close> value modulo 0xFF, so the byte 255 never
  occurs in a key, a nonce, a cookie secret or a session index.
\<close>

theorem random_bytes_never_255:
  "255 \<notin> set (fst (wireguard_random_bytes n w)) \<and> length (fst (wireguard_random_bytes n w)) = n"
  by (simp add: random_bytes_not_255)

end
