(* ===== verification/Chacha20.thy ===== *)
theory Chacha20
  imports Crypto_Util
begin

text \<open>
  \<open>common/crypto/chacha20.c\<close>. A \<open>struct chacha20_ctx\<close> is its sixteen 32-bit words. The stream
  function takes the input bytes and returns the advanced context and the output bytes. Its length
  argument is a \<open>uint32_t\<close>, so the model covers inputs shorter than \<open>2\<^sup>32\<close> bytes; packet buffers
  hold at most 2048.
\<close>

section \<open>Definitions\<close>

definition ROTL32 :: "u32 \<Rightarrow> nat \<Rightarrow> u32" where
  "ROTL32 v n = push_bit n v OR drop_bit (32 - n) v"

definition CHACHA20_CONSTANTS :: "u32 list" where
  "CHACHA20_CONSTANTS = [0x61707865, 0x3320646e, 0x79622d32, 0x6b206574]"

definition quarter :: "u32 \<times> u32 \<times> u32 \<times> u32 \<Rightarrow> u32 \<times> u32 \<times> u32 \<times> u32" where
  "quarter = (\<lambda>(a, b, c, d).
     let a = a + b; d = ROTL32 (d XOR a) 16;
         c = c + d; b = ROTL32 (b XOR c) 12;
         a = a + b; d = ROTL32 (d XOR a) 8;
         c = c + d; b = ROTL32 (b XOR c) 7
     in (a, b, c, d))"

definition QUARTERROUND :: "nat \<Rightarrow> nat \<Rightarrow> nat \<Rightarrow> nat \<Rightarrow> u32 list \<Rightarrow> u32 list" where
  "QUARTERROUND i j k l x =
     (case quarter (x ! i, x ! j, x ! k, x ! l) of
        (a, b, c, d) \<Rightarrow> x[i := a, j := b, k := c, l := d])"

definition INNER_BLOCK :: "u32 list \<Rightarrow> u32 list" where
  "INNER_BLOCK x =
     (let x = QUARTERROUND 0 4 8 12 x;
          x = QUARTERROUND 1 5 9 13 x;
          x = QUARTERROUND 2 6 10 14 x;
          x = QUARTERROUND 3 7 11 15 x;
          x = QUARTERROUND 0 5 10 15 x;
          x = QUARTERROUND 1 6 11 12 x;
          x = QUARTERROUND 2 7 8 13 x
      in QUARTERROUND 3 4 9 14 x)"

definition TWENTY_ROUNDS :: "u32 list \<Rightarrow> u32 list" where
  "TWENTY_ROUNDS x = (INNER_BLOCK ^^ 10) x"

definition chacha20_block :: "u32 list \<Rightarrow> bytes" where
  "chacha20_block state =
     (let working_state = TWENTY_ROUNDS state
      in concat (map (\<lambda>i. U32TO8_LITTLE (working_state ! i + state ! i)) [0..<16]))"

function chacha20 :: "u32 list \<Rightarrow> bytes \<Rightarrow> u32 list \<times> bytes" where
  "chacha20 state inp =
     (if inp = [] then (state, [])
      else let output = chacha20_block state;
               state = state[12 := state ! 12 + 1]
           in if length inp \<le> 64 then (state, map2 (XOR) inp output)
              else case chacha20 state (drop 64 inp) of
                     (state', rest) \<Rightarrow> (state', map2 (XOR) (take 64 inp) output @ rest))"
  by pat_completeness auto
termination
  by (relation "measure (\<lambda>(state, inp). length inp)") auto

declare chacha20.simps [simp del]

definition chacha20_init :: "bytes \<Rightarrow> u64 \<Rightarrow> u32 list" where
  "chacha20_init key nonce =
     CHACHA20_CONSTANTS @
     map (\<lambda>i. U8TO32_LITTLE (bslice (4 * i) 4 key)) [0..<8] @
     [0, 0, ucast (nonce AND 0xFFFFFFFF), ucast (drop_bit 32 nonce)]"

definition hchacha20 :: "bytes \<Rightarrow> bytes \<Rightarrow> bytes" where
  "hchacha20 nonce key =
     (let state = CHACHA20_CONSTANTS @
            map (\<lambda>i. U8TO32_LITTLE (bslice (4 * i) 4 key)) [0..<8] @
            map (\<lambda>i. U8TO32_LITTLE (bslice (4 * i) 4 nonce)) [0..<4];
          state = TWENTY_ROUNDS state
      in concat (map (\<lambda>i. U32TO8_LITTLE (state ! i)) [0, 1, 2, 3, 12, 13, 14, 15]))"

section \<open>Lengths\<close>

lemma length_QUARTERROUND [simp, len_simps]: "length (QUARTERROUND i j k l x) = length x"
  by (simp add: QUARTERROUND_def split: prod.splits)

lemma length_INNER_BLOCK [simp, len_simps]: "length (INNER_BLOCK x) = length x"
  by (simp add: INNER_BLOCK_def Let_def)

lemma length_TWENTY_ROUNDS [simp, len_simps]: "length (TWENTY_ROUNDS x) = length x"
proof -
  have "length ((INNER_BLOCK ^^ n) x) = length x" for n by (induction n) simp_all
  then show ?thesis by (simp add: TWENTY_ROUNDS_def)
qed

lemma length_concat_words:
  "length (concat (map (\<lambda>i. U32TO8_LITTLE (f i)) is)) = 4 * length is"
  by (induction "is") simp_all

lemma length_chacha20_block [simp, len_simps]: "length (chacha20_block s) = 64"
  by (simp only: chacha20_block_def Let_def length_concat_words) simp

lemma length_hchacha20 [simp, len_simps]: "length (hchacha20 nonce key) = 32"
  by (simp only: hchacha20_def Let_def length_concat_words) simp

lemma length_chacha20_init [simp, len_simps]: "length (chacha20_init key nonce) = 16"
  by (simp add: chacha20_init_def CHACHA20_CONSTANTS_def)

lemma length_chacha20_out [simp, len_simps]: "length (snd (chacha20 s m)) = length m"
proof (induction s m rule: chacha20.induct)
  case (1 s m)
  then show ?case by (auto simp: chacha20.simps [of s m] Let_def split: prod.split)
qed

lemma length_chacha20_state [simp, len_simps]: "length (fst (chacha20 s m)) = length s"
proof (induction s m rule: chacha20.induct)
  case (1 s m)
  then show ?case by (auto simp: chacha20.simps [of s m] Let_def split: prod.split)
qed

section \<open>The rounds are a permutation\<close>

definition ROTR32c :: "u32 \<Rightarrow> nat \<Rightarrow> u32" where
  "ROTR32c v n = drop_bit n v OR push_bit (32 - n) v"

lemma ROTR32c_ROTL32: "n < 32 \<Longrightarrow> ROTR32c (ROTL32 v n) n = v"
proof (rule bit_eqI)
  fix k
  assume n: "n < 32"
  have "32 + (n + k - 32) - n = k" if "32 \<le> n + k" using that n by simp
  then show "bit (ROTR32c (ROTL32 v n) n) k = bit v k"
    using n by (cases "n + k < 32") (auto simp: ROTR32c_def ROTL32_def bit_simps add.commute
        dest: bit_imp_le_length)
qed

definition quarter_inv :: "u32 \<times> u32 \<times> u32 \<times> u32 \<Rightarrow> u32 \<times> u32 \<times> u32 \<times> u32" where
  "quarter_inv = (\<lambda>(a, b, c, d).
     let b = ROTR32c b 7 XOR c; c = c - d;
         d = ROTR32c d 8 XOR a; a = a - b;
         b = ROTR32c b 12 XOR c; c = c - d;
         d = ROTR32c d 16 XOR a; a = a - b
     in (a, b, c, d))"

lemma quarter_inv_quarter: "quarter_inv (quarter x) = x"
  by (simp add: quarter_inv_def quarter_def Let_def ROTR32c_ROTL32 split: prod.split)

lemma inj_quarter: "inj quarter"
  by (metis injI quarter_inv_quarter)

section \<open>The key stream\<close>

text \<open>
  The reference: byte \<open>i\<close> of the key stream is byte \<open>i mod 64\<close> of the block whose counter is
  the initial counter plus \<open>i div 64\<close>.
\<close>

definition keystream :: "u32 list \<Rightarrow> nat \<Rightarrow> u8" where
  "keystream s i = chacha20_block (s[12 := s ! 12 + of_nat (i div 64)]) ! (i mod 64)"

lemma keystream_Suc_block:
  assumes "length s = 16" and "64 \<le> i"
  shows "keystream (s[12 := s ! 12 + 1]) (i - 64) = keystream s i"
proof -
  have "i div 64 = Suc ((i - 64) div 64)" and "(i - 64) mod 64 = i mod 64"
    using assms(2) by (simp_all add: le_div_geq le_mod_geq)
  then show ?thesis using assms(1) by (simp add: keystream_def add.assoc)
qed

lemma chacha20_nth:
  "length s = 16 \<Longrightarrow> i < length m \<Longrightarrow> snd (chacha20 s m) ! i = m ! i XOR keystream s i"
proof (induction s m arbitrary: i rule: chacha20.induct)
  case (1 s m)
  let ?s = "s[12 := s ! 12 + 1]"
  have block0: "keystream s i = chacha20_block s ! i" if "i < 64"
    using that by (simp add: keystream_def)
  show ?case
  proof (cases "length m \<le> 64")
    case True
    then show ?thesis using "1.prems" block0
      by (auto simp: chacha20.simps [of s m] Let_def)
  next
    case False
    have ih: "snd (chacha20 ?s (drop 64 m)) ! (i - 64) = m ! i XOR keystream s i" if "64 \<le> i"
    proof -
      have "m \<noteq> []" and "i - 64 < length (drop 64 m)" using that "1.prems" by auto
      with "1.IH" [of "chacha20_block s" ?s "i - 64"] "1.prems" False that show ?thesis
        by (simp add: keystream_Suc_block)
    qed
    show ?thesis using False "1.prems" block0 ih
      by (cases "i < 64") (auto simp: chacha20.simps [of s m] Let_def nth_append split: prod.split)
  qed
qed

lemma chacha20_map:
  "length s = 16 \<Longrightarrow> snd (chacha20 s m) = map (\<lambda>i. m ! i XOR keystream s i) [0..<length m]"
  by (rule nth_equalityI) (simp_all add: chacha20_nth)

lemma chacha20_involution:
  "length s = 16 \<Longrightarrow> snd (chacha20 s (snd (chacha20 s m))) = m"
  by (rule nth_equalityI) (simp_all add: chacha20_nth)

text \<open>The block counter after the call: one step per started block.\<close>

lemma chacha20_counter:
  "length s = 16 \<Longrightarrow> fst (chacha20 s m) = s[12 := s ! 12 + of_nat ((length m + 63) div 64)]"
proof (induction s m rule: chacha20.induct)
  case (1 s m)
  let ?s = "s[12 := s ! 12 + 1]"
  show ?case
  proof (cases "m = [] \<or> length m \<le> 64")
    case True
    then have "(length m + 63) div 64 = (if m = [] then 0 else 1)"
      by (cases m) auto
    with True show ?thesis by (auto simp: chacha20.simps [of s m] Let_def)
  next
    case False
    then have "(length m + 63) div 64 = Suc ((length (drop 64 m) + 63) div 64)"
      by (simp add: le_div_geq)
    then show ?thesis using "1.IH" [of "chacha20_block s" ?s] "1.prems" False
      by (auto simp: chacha20.simps [of s m] Let_def add.assoc split: prod.split)
  qed
qed

end
