(* ===== verification/Poly1305.thy ===== *)
theory Poly1305
  imports Crypto_Util
begin

text \<open>
  \<open>common/crypto/poly1305-donna.c\<close> and \<open>poly1305-donna-32.h\<close>, with \<open>unsigned long\<close> at the 64 bits
  it has on the LP64 targets. The accumulator and the key are five limbs of 26 bits. The main
  result is that the streaming interface computes the Poly1305 polynomial modulo \<open>2\<^sup>130 - 5\<close>.
\<close>

section \<open>Definitions\<close>

record poly1305_state_internal_t =
  pr :: "u64 list"
  ph :: "u64 list"
  ppad :: "u64 list"
  pleftover :: nat
  pbuffer :: bytes
  pfinal :: bool

definition U8TO32 :: "bytes \<Rightarrow> u64" where
  "U8TO32 p =
     (ucast (p ! 0) AND 0xff) OR push_bit 8 (ucast (p ! 1) AND 0xff) OR
     push_bit 16 (ucast (p ! 2) AND 0xff) OR push_bit 24 (ucast (p ! 3) AND 0xff)"

definition U32TO8 :: "u64 \<Rightarrow> bytes" where
  "U32TO8 v =
     [ucast (v AND 0xff), ucast (drop_bit 8 v AND 0xff), ucast (drop_bit 16 v AND 0xff),
      ucast (drop_bit 24 v AND 0xff)]"

definition wg_poly1305_init :: "bytes \<Rightarrow> poly1305_state_internal_t" where
  "wg_poly1305_init key =
     \<lparr> pr = [U8TO32 (bslice 0 4 key) AND 0x3ffffff,
             drop_bit 2 (U8TO32 (bslice 3 4 key)) AND 0x3ffff03,
             drop_bit 4 (U8TO32 (bslice 6 4 key)) AND 0x3ffc0ff,
             drop_bit 6 (U8TO32 (bslice 9 4 key)) AND 0x3f03fff,
             drop_bit 8 (U8TO32 (bslice 12 4 key)) AND 0x00fffff],
       ph = [0, 0, 0, 0, 0],
       ppad = [U8TO32 (bslice 16 4 key), U8TO32 (bslice 20 4 key),
               U8TO32 (bslice 24 4 key), U8TO32 (bslice 28 4 key)],
       pleftover = 0, pbuffer = replicate 16 0, pfinal = False \<rparr>"

text \<open>One iteration of the loop of \<open>poly1305_blocks\<close>: add the block, multiply, carry.\<close>

definition poly1305_blocks_step :: "u64 list \<Rightarrow> u64 \<Rightarrow> u64 list \<Rightarrow> bytes \<Rightarrow> u64 list" where
  "poly1305_blocks_step r hibit h m =
     (let r0 = r ! 0; r1 = r ! 1; r2 = r ! 2; r3 = r ! 3; r4 = r ! 4;
          s1 = r1 * 5; s2 = r2 * 5; s3 = r3 * 5; s4 = r4 * 5;
          h0 = h ! 0 + (U8TO32 (bslice 0 4 m) AND 0x3ffffff);
          h1 = h ! 1 + (drop_bit 2 (U8TO32 (bslice 3 4 m)) AND 0x3ffffff);
          h2 = h ! 2 + (drop_bit 4 (U8TO32 (bslice 6 4 m)) AND 0x3ffffff);
          h3 = h ! 3 + (drop_bit 6 (U8TO32 (bslice 9 4 m)) AND 0x3ffffff);
          h4 = h ! 4 + (drop_bit 8 (U8TO32 (bslice 12 4 m)) OR hibit);
          d0 = h0 * r0 + h1 * s4 + h2 * s3 + h3 * s2 + h4 * s1;
          d1 = h0 * r1 + h1 * r0 + h2 * s4 + h3 * s3 + h4 * s2;
          d2 = h0 * r2 + h1 * r1 + h2 * r0 + h3 * s4 + h4 * s3;
          d3 = h0 * r3 + h1 * r2 + h2 * r1 + h3 * r0 + h4 * s4;
          d4 = h0 * r4 + h1 * r3 + h2 * r2 + h3 * r1 + h4 * r0;
          c = drop_bit 26 d0; h0 = d0 AND 0x3ffffff;
          d1 = d1 + c; c = drop_bit 26 d1; h1 = d1 AND 0x3ffffff;
          d2 = d2 + c; c = drop_bit 26 d2; h2 = d2 AND 0x3ffffff;
          d3 = d3 + c; c = drop_bit 26 d3; h3 = d3 AND 0x3ffffff;
          d4 = d4 + c; c = drop_bit 26 d4; h4 = d4 AND 0x3ffffff;
          h0 = h0 + c * 5; c = drop_bit 26 h0; h0 = h0 AND 0x3ffffff;
          h1 = h1 + c
      in [h0, h1, h2, h3, h4])"

function poly1305_blocks_loop :: "u64 list \<Rightarrow> u64 \<Rightarrow> u64 list \<Rightarrow> bytes \<Rightarrow> u64 list" where
  "poly1305_blocks_loop r hibit h m =
     (if 16 \<le> length m
      then poly1305_blocks_loop r hibit (poly1305_blocks_step r hibit h (take 16 m)) (drop 16 m)
      else h)"
  by pat_completeness auto
termination
  by (relation "measure (\<lambda>(r, hibit, h, m). length m)") auto

declare poly1305_blocks_loop.simps [simp del]

definition poly1305_blocks ::
  "poly1305_state_internal_t \<Rightarrow> bytes \<Rightarrow> poly1305_state_internal_t" where
  "poly1305_blocks st m =
     st\<lparr>ph := poly1305_blocks_loop (pr st) (if pfinal st then 0 else 2 ^ 24) (ph st) m\<rparr>"

text \<open>\<open>for (i = 0; i < n; i++) st->buffer[off + i] = m[i];\<close>\<close>

definition buf_write :: "bytes \<Rightarrow> nat \<Rightarrow> bytes \<Rightarrow> bytes" where
  "buf_write buf off m = take off buf @ m @ drop (off + length m) buf"

definition poly1305_store_leftover ::
  "poly1305_state_internal_t \<Rightarrow> bytes \<Rightarrow> poly1305_state_internal_t" where
  "poly1305_store_leftover st m =
     (if m = [] then st
      else st\<lparr>pbuffer := buf_write (pbuffer st) (pleftover st) m,
              pleftover := pleftover st + length m\<rparr>)"

definition poly1305_full_blocks ::
  "poly1305_state_internal_t \<Rightarrow> bytes \<Rightarrow> poly1305_state_internal_t" where
  "poly1305_full_blocks st m =
     (if 16 \<le> length m
      then let want = length m - length m mod 16
           in poly1305_store_leftover (poly1305_blocks st (take want m)) (drop want m)
      else poly1305_store_leftover st m)"

definition wg_poly1305_update ::
  "poly1305_state_internal_t \<Rightarrow> bytes \<Rightarrow> poly1305_state_internal_t" where
  "wg_poly1305_update st m =
     (if pleftover st \<noteq> 0
      then let want = min (16 - pleftover st) (length m);
               st = st\<lparr>pbuffer := buf_write (pbuffer st) (pleftover st) (take want m),
                       pleftover := pleftover st + want\<rparr>
           in if pleftover st < 16 then st
              else poly1305_full_blocks
                     ((poly1305_blocks st (pbuffer st))\<lparr>pleftover := 0\<rparr>) (drop want m)
      else poly1305_full_blocks st m)"

text \<open>
  \<open>wg_poly1305_finish\<close> in its four phases: the padded last block, the final carry, the conditional
  subtraction of \<open>2\<^sup>130 - 5\<close>, and the addition of the pad modulo \<open>2\<^sup>128\<close>.
\<close>

definition fin_state :: "poly1305_state_internal_t \<Rightarrow> poly1305_state_internal_t" where
  "fin_state st = (if pleftover st \<noteq> 0
      then poly1305_blocks
             (st\<lparr>pbuffer := take (pleftover st) (pbuffer st) @ 1 #
                            replicate (15 - pleftover st) 0,
                 pfinal := True\<rparr>)
             (take (pleftover st) (pbuffer st) @ 1 # replicate (15 - pleftover st) 0)
      else st)"

definition fin_carry :: "u64 list \<Rightarrow> u64 list" where
  "fin_carry h =
     (let h0 = h ! 0; h1 = h ! 1; h2 = h ! 2; h3 = h ! 3; h4 = h ! 4;
          c = drop_bit 26 h1; h1 = h1 AND 0x3ffffff;
          h2 = h2 + c; c = drop_bit 26 h2; h2 = h2 AND 0x3ffffff;
          h3 = h3 + c; c = drop_bit 26 h3; h3 = h3 AND 0x3ffffff;
          h4 = h4 + c; c = drop_bit 26 h4; h4 = h4 AND 0x3ffffff;
          h0 = h0 + c * 5; c = drop_bit 26 h0; h0 = h0 AND 0x3ffffff;
          h1 = h1 + c
      in [h0, h1, h2, h3, h4])"

definition fin_select :: "u64 list \<Rightarrow> u64 list" where
  "fin_select h =
     (let h0 = h ! 0; h1 = h ! 1; h2 = h ! 2; h3 = h ! 3; h4 = h ! 4;
          g0 = h0 + 5; c = drop_bit 26 g0; g0 = g0 AND 0x3ffffff;
          g1 = h1 + c; c = drop_bit 26 g1; g1 = g1 AND 0x3ffffff;
          g2 = h2 + c; c = drop_bit 26 g2; g2 = g2 AND 0x3ffffff;
          g3 = h3 + c; c = drop_bit 26 g3; g3 = g3 AND 0x3ffffff;
          g4 = h4 + c - 2 ^ 26;
          mask = drop_bit 63 g4 - 1;
          g0 = g0 AND mask; g1 = g1 AND mask; g2 = g2 AND mask; g3 = g3 AND mask;
          g4 = g4 AND mask;
          mask = NOT mask;
          h0 = (h0 AND mask) OR g0; h1 = (h1 AND mask) OR g1; h2 = (h2 AND mask) OR g2;
          h3 = (h3 AND mask) OR g3; h4 = (h4 AND mask) OR g4
      in [h0, h1, h2, h3, h4])"

definition fin_pack :: "u64 list \<Rightarrow> u64 list \<Rightarrow> bytes" where
  "fin_pack h pad =
     (let h0 = h ! 0; h1 = h ! 1; h2 = h ! 2; h3 = h ! 3; h4 = h ! 4;
          h0 = (h0 OR push_bit 26 h1) AND 0xffffffff;
          h1 = (drop_bit 6 h1 OR push_bit 20 h2) AND 0xffffffff;
          h2 = (drop_bit 12 h2 OR push_bit 14 h3) AND 0xffffffff;
          h3 = (drop_bit 18 h3 OR push_bit 8 h4) AND 0xffffffff;
          f = h0 + pad ! 0; h0 = f;
          f = h1 + pad ! 1 + drop_bit 32 f; h1 = f;
          f = h2 + pad ! 2 + drop_bit 32 f; h2 = f;
          f = h3 + pad ! 3 + drop_bit 32 f; h3 = f
      in U32TO8 h0 @ U32TO8 h1 @ U32TO8 h2 @ U32TO8 h3)"

definition wg_poly1305_finish :: "poly1305_state_internal_t \<Rightarrow> bytes" where
  "wg_poly1305_finish st =
     (let st = fin_state st in fin_pack (fin_select (fin_carry (ph st))) (ppad st))"

section \<open>Words and limbs\<close>

section \<open>Reading and writing 32-bit groups\<close>

lemma and_255: "x AND 0xff = take_bit 8 (x :: 'a::len word)"
  by (simp add: take_bit_eq_mask mask_eq_exp_minus_1)

lemma and_3ffffff: "x AND 0x3ffffff = take_bit 26 (x :: 'a::len word)"
  by (simp add: take_bit_eq_mask mask_eq_exp_minus_1)

lemma and_ffffffff: "x AND 0xffffffff = take_bit 32 (x :: 'a::len word)"
  by (simp add: take_bit_eq_mask mask_eq_exp_minus_1)

lemma take_bit_u8_64: "take_bit 8 (ucast (x :: u8) :: u64) = ucast x"
  by (rule bit_eqI) (auto simp: bit_simps dest: bit_imp_le_length)

lemma unat_U8TO32:
  assumes "length p = 4"
  shows "unat (U8TO32 p) = le_val p"
proof -
  obtain a b c d where p: "p = [a, b, c, d]" using assms by (auto simp: length_4_conv)
  let ?a = "ucast a :: u64" and ?b = "ucast b :: u64"
  let ?c = "ucast c :: u64" and ?d = "ucast d :: u64"
  have l: "unat a < 256" "unat b < 256" "unat c < 256" "unat d < 256" by simp_all
  have 1: "unat (?a OR push_bit 8 ?b) = unat a + 2 ^ 8 * unat b"
    using unat_or_push_bit [of ?a 8 ?b] l by simp
  have 2: "unat ((?a OR push_bit 8 ?b) OR push_bit 16 ?c)
      = unat a + 2 ^ 8 * unat b + 2 ^ 16 * unat c"
    using unat_or_push_bit [of "?a OR push_bit 8 ?b" 16 ?c] l 1 by simp
  have 3: "unat (((?a OR push_bit 8 ?b) OR push_bit 16 ?c) OR push_bit 24 ?d)
      = unat a + 2 ^ 8 * unat b + 2 ^ 16 * unat c + 2 ^ 24 * unat d"
    using unat_or_push_bit [of "(?a OR push_bit 8 ?b) OR push_bit 16 ?c" 24 ?d] l 2 by simp
  then show ?thesis by (simp add: U8TO32_def p or.assoc and_255 take_bit_u8_64)
qed

lemma U32TO8_bytes: "U32TO8 v = le_bytes 4 (unat v)"
  by (simp only: U32TO8_def le_bytes_4 ucast_u8 and_255 unat_take_bit unat_drop_bit)
    (simp add: of_nat_mod_256)

text \<open>The five 26-bit limbs of a 128-bit value.\<close>

lemma limbs_sum_aux:
  "a + B * q1 = (M :: nat) \<Longrightarrow> b + B * q2 = q1 \<Longrightarrow> c + B * q3 = q2 \<Longrightarrow> d + B * q4 = q3 \<Longrightarrow>
   a + B * b + B ^ 2 * c + B ^ 3 * d + B ^ 4 * q4 = M"
  by (auto simp: algebra_simps power2_eq_square power3_eq_cube power4_eq_xxxx)

lemma limbs_sum:
  "M mod 2 ^ 26 + 2 ^ 26 * (M div 2 ^ 26 mod 2 ^ 26) + 2 ^ 52 * (M div 2 ^ 52 mod 2 ^ 26) +
   2 ^ 78 * (M div 2 ^ 78 mod 2 ^ 26) + 2 ^ 104 * (M div 2 ^ 104) = (M :: nat)"
proof -
  have s: "M div 2 ^ n mod 2 ^ 26 + 2 ^ 26 * (M div 2 ^ (n + 26)) = M div 2 ^ n" for n
    by (simp add: power_add div_mult2_eq)
  from limbs_sum_aux [OF mod_mult_div_eq s [of 26] s [of "26 + 26"] s [of "26 + 26 + 26"]]
  show ?thesis by simp
qed

lemma block_limbs:
  assumes "length m = 16"
  shows "unat (U8TO32 (bslice 0 4 m) AND 0x3ffffff) = le_val m mod 2 ^ 26"
    and "unat (drop_bit 2 (U8TO32 (bslice 3 4 m)) AND 0x3ffffff) = le_val m div 2 ^ 26 mod 2 ^ 26"
    and "unat (drop_bit 4 (U8TO32 (bslice 6 4 m)) AND 0x3ffffff) = le_val m div 2 ^ 52 mod 2 ^ 26"
    and "unat (drop_bit 6 (U8TO32 (bslice 9 4 m)) AND 0x3ffffff) = le_val m div 2 ^ 78 mod 2 ^ 26"
    and "unat (drop_bit 8 (U8TO32 (bslice 12 4 m))) = le_val m div 2 ^ 104"
proof -
  have sl: "unat (U8TO32 (bslice k 4 m)) = le_val m div 2 ^ (8 * k) mod 2 ^ 32" if "k \<le> 12" for k
    using that assms by (simp add: unat_U8TO32 le_val_bslice power_mult)
  have dm: "M div 2 ^ a mod 2 ^ 32 div 2 ^ b mod 2 ^ 26 = M div 2 ^ (a + b) mod 2 ^ 26"
    if "b + 26 \<le> 32" for M a b :: nat
  proof -
    have "take_bit 26 (drop_bit b (take_bit 32 (drop_bit a M))) = take_bit 26 (drop_bit (a + b) M)"
      using that by (auto simp: bit_eq_iff bit_simps add.assoc)
    then show ?thesis by (simp only: drop_bit_eq_div take_bit_eq_mod)
  qed
  show "unat (U8TO32 (bslice 0 4 m) AND 0x3ffffff) = le_val m mod 2 ^ 26"
    using dm [of 0 "le_val m" 0] by (simp add: and_3ffffff unat_take_bit sl)
  show "unat (drop_bit 2 (U8TO32 (bslice 3 4 m)) AND 0x3ffffff) = le_val m div 2 ^ 26 mod 2 ^ 26"
    using dm [of 2 "le_val m" 24] by (simp add: and_3ffffff unat_take_bit unat_drop_bit sl)
  show "unat (drop_bit 4 (U8TO32 (bslice 6 4 m)) AND 0x3ffffff) = le_val m div 2 ^ 52 mod 2 ^ 26"
    using dm [of 4 "le_val m" 48] by (simp add: and_3ffffff unat_take_bit unat_drop_bit sl)
  show "unat (drop_bit 6 (U8TO32 (bslice 9 4 m)) AND 0x3ffffff) = le_val m div 2 ^ 78 mod 2 ^ 26"
    using dm [of 6 "le_val m" 72] by (simp add: and_3ffffff unat_take_bit unat_drop_bit sl)
  have "le_val m div 2 ^ 96 < 2 ^ 32"
    using le_val_less [of m] assms by (simp add: less_mult_imp_div_less)
  then show "unat (drop_bit 8 (U8TO32 (bslice 12 4 m))) = le_val m div 2 ^ 104"
    by (simp add: unat_drop_bit sl div_mult2_eq [symmetric])
qed

definition poly_p :: nat where "poly_p = 2 ^ 130 - 5"

lemma mul_limbs_int:
  fixes B :: int
  shows "(a0 + B * a1 + B ^ 2 * a2 + B ^ 3 * a3 + B ^ 4 * a4) *
     (r0 + B * r1 + B ^ 2 * r2 + B ^ 3 * r3 + B ^ 4 * r4) =
   (a0 * r0 + a1 * (r4 * 5) + a2 * (r3 * 5) + a3 * (r2 * 5) + a4 * (r1 * 5)) +
   B * (a0 * r1 + a1 * r0 + a2 * (r4 * 5) + a3 * (r3 * 5) + a4 * (r2 * 5)) +
   B ^ 2 * (a0 * r2 + a1 * r1 + a2 * r0 + a3 * (r4 * 5) + a4 * (r3 * 5)) +
   B ^ 3 * (a0 * r3 + a1 * r2 + a2 * r1 + a3 * r0 + a4 * (r4 * 5)) +
   B ^ 4 * (a0 * r4 + a1 * r3 + a2 * r2 + a3 * r1 + a4 * r0) +
   (B ^ 5 - 5) * (a1 * r4 + a2 * r3 + a3 * r2 + a4 * r1 +
     B * (a2 * r4 + a3 * r3 + a4 * r2) + B ^ 2 * (a3 * r4 + a4 * r3) + B ^ 3 * (a4 * r4))"
  by algebra

lemma mul_limbs_mod:
  fixes a0 a1 a2 a3 a4 r0 r1 r2 r3 r4 :: nat
  shows "((a0 + 2 ^ 26 * a1 + 2 ^ 52 * a2 + 2 ^ 78 * a3 + 2 ^ 104 * a4) *
     (r0 + 2 ^ 26 * r1 + 2 ^ 52 * r2 + 2 ^ 78 * r3 + 2 ^ 104 * r4)) mod poly_p =
   ((a0 * r0 + a1 * (r4 * 5) + a2 * (r3 * 5) + a3 * (r2 * 5) + a4 * (r1 * 5)) +
   2 ^ 26 * (a0 * r1 + a1 * r0 + a2 * (r4 * 5) + a3 * (r3 * 5) + a4 * (r2 * 5)) +
   2 ^ 52 * (a0 * r2 + a1 * r1 + a2 * r0 + a3 * (r4 * 5) + a4 * (r3 * 5)) +
   2 ^ 78 * (a0 * r3 + a1 * r2 + a2 * r1 + a3 * r0 + a4 * (r4 * 5)) +
   2 ^ 104 * (a0 * r4 + a1 * r3 + a2 * r2 + a3 * r1 + a4 * r0)) mod poly_p" (is "?A mod _ = ?D mod _")
proof -
  let ?Y = "a1 * r4 + a2 * r3 + a3 * r2 + a4 * r1 +
     2 ^ 26 * (a2 * r4 + a3 * r3 + a4 * r2) + 2 ^ 52 * (a3 * r4 + a4 * r3) + 2 ^ 78 * (a4 * r4)"
  have e: "(2::int) ^ 52 = (2 ^ 26) ^ 2" "(2::int) ^ 78 = (2 ^ 26) ^ 3"
    "(2::int) ^ 104 = (2 ^ 26) ^ 4" "int poly_p = (2 ^ 26) ^ 5 - 5" by (simp_all add: poly_p_def)
  have "int ?A = int (?D + poly_p * ?Y)"
    unfolding of_nat_mult of_nat_add of_nat_power of_nat_numeral e
    by (rule mul_limbs_int)
  then have "?A = ?D + poly_p * ?Y" by (rule of_nat_eq_iff [THEN iffD1])
  then show ?thesis by simp
qed

lemma carry_limbs:
  fixes d0 d1 d2 d3 d4 :: nat
  assumes "h0 + B * c0 = d0" "h1 + B * c1 = d1 + c0" "h2 + B * c2 = d2 + c1"
    "h3 + B * c3 = d3 + c2" "h4 + B * c4 = d4 + c3" "g0 + B * c5 = h0 + c4 * 5"
  shows "g0 + B * (h1 + c5) + B ^ 2 * h2 + B ^ 3 * h3 + B ^ 4 * h4 + B ^ 5 * c4 =
    d0 + B * d1 + B ^ 2 * d2 + B ^ 3 * d3 + B ^ 4 * d4 + 5 * c4"
proof -
  have d: "int d0 = int h0 + int B * int c0" "int d1 = int h1 + int B * int c1 - int c0" "int d2 = int h2 + int B * int c2 - int c1"
    "int d3 = int h3 + int B * int c3 - int c2" "int d4 = int h4 + int B * int c4 - int c3" "int g0 = int h0 + int c4 * 5 - int B * int c5"
    using assms [THEN arg_cong [of _ _ int]] by (simp_all only: of_nat_mult of_nat_add of_nat_power of_nat_numeral)
  have "int (g0 + B * (h1 + c5) + B ^ 2 * h2 + B ^ 3 * h3 + B ^ 4 * h4 + B ^ 5 * c4) =
    int (d0 + B * d1 + B ^ 2 * d2 + B ^ 3 * d3 + B ^ 4 * d4 + 5 * c4)"
    unfolding of_nat_mult of_nat_add of_nat_power of_nat_numeral d by algebra
  then show ?thesis by (rule of_nat_eq_iff [THEN iffD1])
qed

lemma carry_limbs_mod:
  fixes d0 d1 d2 d3 d4 :: nat
  defines "B \<equiv> 2 ^ 26"
  defines "c0 \<equiv> d0 div B" defines "c1 \<equiv> (d1 + c0) div B" defines "c2 \<equiv> (d2 + c1) div B"
  defines "c3 \<equiv> (d3 + c2) div B" defines "c4 \<equiv> (d4 + c3) div B"
  defines "c5 \<equiv> (d0 mod B + c4 * 5) div B"
  shows "((d0 mod B + c4 * 5) mod B + B * ((d1 + c0) mod B + c5) + 2 ^ 52 * ((d2 + c1) mod B) +
     2 ^ 78 * ((d3 + c2) mod B) + 2 ^ 104 * ((d4 + c3) mod B)) mod poly_p =
    (d0 + B * d1 + 2 ^ 52 * d2 + 2 ^ 78 * d3 + 2 ^ 104 * d4) mod poly_p" (is "?L mod _ = ?R mod _")
proof -
  have e: "(2::nat) ^ 52 = B ^ 2" "(2::nat) ^ 78 = B ^ 3" "(2::nat) ^ 104 = B ^ 4"
    "B ^ 5 = poly_p + 5" by (simp_all add: B_def poly_p_def)
  have "?L + B ^ 5 * c4 = ?R + 5 * c4"
    unfolding e(1-3)
    by (rule carry_limbs [of "d0 mod B" _ c0 _ "(d1 + c0) mod B" c1 _ _ c2 _ _ c3]) (simp_all add: c0_def c1_def c2_def c3_def c4_def c5_def)
  then have "?L + poly_p * c4 = ?R" unfolding e(4) by (simp add: algebra_simps)
  then show ?thesis by (metis mod_mult_self2)
qed

lemma unat_mul_bound:
  fixes x y :: u64
  assumes "unat x < 2 ^ 28" "unat y < 2 ^ 29"
  shows "unat (x * y) = unat x * unat y \<and> unat x * unat y < 2 ^ 57"
proof -
  have "unat x * unat y < 2 ^ 28 * 2 ^ 29"
    using assms by (intro mult_strict_mono) simp_all
  then show ?thesis using unat_mult_lt [of x y] by simp
qed

lemma unat_dot5:
  fixes a0 a1 a2 a3 a4 b0 b1 b2 b3 b4 :: u64
  assumes "unat a0 < 2 ^ 28" "unat a1 < 2 ^ 28" "unat a2 < 2 ^ 28" "unat a3 < 2 ^ 28" "unat a4 < 2 ^ 28"
    "unat b0 < 2 ^ 29" "unat b1 < 2 ^ 29" "unat b2 < 2 ^ 29" "unat b3 < 2 ^ 29" "unat b4 < 2 ^ 29"
  shows "unat (a0 * b0 + a1 * b1 + a2 * b2 + a3 * b3 + a4 * b4) =
     unat a0 * unat b0 + unat a1 * unat b1 + unat a2 * unat b2 + unat a3 * unat b3 + unat a4 * unat b4 \<and>
     unat (a0 * b0 + a1 * b1 + a2 * b2 + a3 * b3 + a4 * b4) < 2 ^ 60"
proof -
  note p = unat_mul_bound [OF assms(1,6)] unat_mul_bound [OF assms(2,7)] unat_mul_bound [OF assms(3,8)]
    unat_mul_bound [OF assms(4,9)] unat_mul_bound [OF assms(5,10)]
  show ?thesis using p by (simp add: unat_add_lt)
qed

definition rinv :: "u64 list \<Rightarrow> bool" where
  "rinv r \<longleftrightarrow> length r = 5 \<and> (\<forall>i < 5. unat (r ! i) < 2 ^ 26)"

definition hinv :: "u64 list \<Rightarrow> bool" where
  "hinv h \<longleftrightarrow> length h = 5 \<and> unat (h ! 0) < 2 ^ 26 \<and> unat (h ! 1) < 2 ^ 26 + 2 ^ 12 \<and>
     unat (h ! 2) < 2 ^ 26 \<and> unat (h ! 3) < 2 ^ 26 \<and> unat (h ! 4) < 2 ^ 26"

definition lval :: "u64 list \<Rightarrow> nat" where
  "lval h = unat (h ! 0) + 2 ^ 26 * unat (h ! 1) + 2 ^ 52 * unat (h ! 2) +
     2 ^ 78 * unat (h ! 3) + 2 ^ 104 * unat (h ! 4)"

text \<open>The loop body on natural numbers: the limb products, then the carries.\<close>

lemma unat_times5: "unat (x :: u64) < 2 ^ 26 \<Longrightarrow> unat (x * 5) = unat x * 5 \<and> unat (x * 5) < 2 ^ 29"
  using unat_mult_lt [of x 5] by simp

lemma unat_low26: "unat ((x :: u64) AND 0x3ffffff) = unat x mod 2 ^ 26"
  by (simp only: and_3ffffff unat_take_bit)

lemma unat_high26: "unat (drop_bit 26 (x :: u64)) = unat x div 2 ^ 26"
  by (rule unat_drop_bit)

lemma carry_words:
  fixes d0 d1 d2 d3 d4 :: u64
  assumes b: "unat d0 < 2 ^ 60" "unat d1 < 2 ^ 60" "unat d2 < 2 ^ 60" "unat d3 < 2 ^ 60"
    "unat d4 < 2 ^ 60"
  defines "e1 \<equiv> d1 + drop_bit 26 d0" defines "e2 \<equiv> d2 + drop_bit 26 e1"
  defines "e3 \<equiv> d3 + drop_bit 26 e2" defines "e4 \<equiv> d4 + drop_bit 26 e3"
  defines "g0 \<equiv> (d0 AND 0x3ffffff) + drop_bit 26 e4 * 5"
  defines "h \<equiv> [g0 AND 0x3ffffff, (e1 AND 0x3ffffff) + drop_bit 26 g0, e2 AND 0x3ffffff,
     e3 AND 0x3ffffff, e4 AND 0x3ffffff]"
  shows "hinv h" and "lval h mod poly_p =
    (unat d0 + 2 ^ 26 * unat d1 + 2 ^ 52 * unat d2 + 2 ^ 78 * unat d3 + 2 ^ 104 * unat d4) mod poly_p"
proof -
  have e1: "unat e1 = unat d1 + unat d0 div 2 ^ 26" "unat e1 < 2 ^ 61"
    using b unfolding e1_def by (simp_all add: unat_add_lt unat_high26)
  have e2: "unat e2 = unat d2 + unat e1 div 2 ^ 26" "unat e2 < 2 ^ 61"
    using b e1(2) unfolding e2_def by (simp_all add: unat_add_lt unat_high26)
  have e3: "unat e3 = unat d3 + unat e2 div 2 ^ 26" "unat e3 < 2 ^ 61"
    using b e2(2) unfolding e3_def by (simp_all add: unat_add_lt unat_high26)
  have e4: "unat e4 = unat d4 + unat e3 div 2 ^ 26" "unat e4 < 2 ^ 61"
    using b e3(2) unfolding e4_def by (simp_all add: unat_add_lt unat_high26)
  have c4: "unat (drop_bit 26 e4) = unat e4 div 2 ^ 26" "unat (drop_bit 26 e4) < 2 ^ 35"
    using e4(2) by (simp_all add: unat_high26)
  have m5: "unat (drop_bit 26 e4 * 5) = unat e4 div 2 ^ 26 * 5"
    using c4 unat_mult_lt [of "drop_bit 26 e4" 5] by simp
  have g0: "unat g0 = unat d0 mod 2 ^ 26 + unat e4 div 2 ^ 26 * 5" "unat g0 < 2 ^ 38"
    using c4 m5 unfolding g0_def by (simp_all add: unat_add_lt unat_low26)
  have h1: "unat ((e1 AND 0x3ffffff) + drop_bit 26 g0) = unat e1 mod 2 ^ 26 + unat g0 div 2 ^ 26"
    "unat ((e1 AND 0x3ffffff) + drop_bit 26 g0) < 2 ^ 26 + 2 ^ 12"
    using g0(2) by (simp_all add: unat_add_lt unat_low26 unat_high26)
  show "hinv h" using h1(2) unfolding hinv_def h_def by (simp add: unat_low26)
  have "lval h = unat g0 mod 2 ^ 26 + 2 ^ 26 * (unat e1 mod 2 ^ 26 + unat g0 div 2 ^ 26) +
      2 ^ 52 * (unat e2 mod 2 ^ 26) + 2 ^ 78 * (unat e3 mod 2 ^ 26) + 2 ^ 104 * (unat e4 mod 2 ^ 26)"
    unfolding lval_def h_def by (simp add: unat_low26 h1(1))
  then show "lval h mod poly_p =
    (unat d0 + 2 ^ 26 * unat d1 + 2 ^ 52 * unat d2 + 2 ^ 78 * unat d3 + 2 ^ 104 * unat d4) mod poly_p"
    using carry_limbs_mod [of "unat d0" "unat d4" "unat d3" "unat d2" "unat d1"] 
    unfolding e1(1) [symmetric] e2(1) [symmetric] e3(1) [symmetric] e4(1) [symmetric] g0(1) [symmetric]
    by simp
qed

text \<open>Adding a block to the accumulator, limb by limb.\<close>

definition block_limb :: "u64 list \<Rightarrow> u64 \<Rightarrow> bytes \<Rightarrow> nat \<Rightarrow> u64" where
  "block_limb h hibit m i =
     [h ! 0 + (U8TO32 (bslice 0 4 m) AND 0x3ffffff),
      h ! 1 + (drop_bit 2 (U8TO32 (bslice 3 4 m)) AND 0x3ffffff),
      h ! 2 + (drop_bit 4 (U8TO32 (bslice 6 4 m)) AND 0x3ffffff),
      h ! 3 + (drop_bit 6 (U8TO32 (bslice 9 4 m)) AND 0x3ffffff),
      h ! 4 + (drop_bit 8 (U8TO32 (bslice 12 4 m)) OR hibit)] ! i"

lemma unat_block_limb:
  assumes h: "hinv h" and m: "length m = 16" and hb: "hibit = 0 \<or> hibit = 2 ^ 24"
  defines "M \<equiv> le_val m"
  shows "unat (block_limb h hibit m 0) = unat (h ! 0) + M mod 2 ^ 26"
    and "unat (block_limb h hibit m 1) = unat (h ! 1) + M div 2 ^ 26 mod 2 ^ 26"
    and "unat (block_limb h hibit m 2) = unat (h ! 2) + M div 2 ^ 52 mod 2 ^ 26"
    and "unat (block_limb h hibit m 3) = unat (h ! 3) + M div 2 ^ 78 mod 2 ^ 26"
    and "unat (block_limb h hibit m 4) = unat (h ! 4) + (M div 2 ^ 104 + unat hibit)"
    and "M div 2 ^ 104 + unat hibit < 2 ^ 25"
proof -
  have hb5: "unat (h ! 0) < 2 ^ 27" "unat (h ! 1) < 2 ^ 27" "unat (h ! 2) < 2 ^ 27"
    "unat (h ! 3) < 2 ^ 27" "unat (h ! 4) < 2 ^ 27" using h unfolding hinv_def by auto
  have w: "unat (x + y) = unat x + v" if "unat x < 2 ^ 27" "unat y = v" "v < 2 ^ 26" for x y :: u64 and v
    using that unat_add_lt [of x y] by simp
  have ml: "M div 2 ^ 104 < 2 ^ 24"
    using le_val_less [of m] m by (simp add: M_def less_mult_imp_div_less)
  show hl: "M div 2 ^ 104 + unat hibit < 2 ^ 25" using ml hb by auto
  have "unat (drop_bit 8 (U8TO32 (bslice 12 4 m)) OR hibit) = M div 2 ^ 104 + unat hibit"
    using hb unat_or_push_bit [of "drop_bit 8 (U8TO32 (bslice 12 4 m))" 24 1] ml block_limbs(5) [OF m]
    by (auto simp: push_bit_eq_mult M_def)
  from w [OF hb5(5) this] hl
  show "unat (block_limb h hibit m 4) = unat (h ! 4) + (M div 2 ^ 104 + unat hibit)"
    by (simp add: block_limb_def)
  show "unat (block_limb h hibit m 0) = unat (h ! 0) + M mod 2 ^ 26"
    using w [OF hb5(1) block_limbs(1) [OF m]] by (simp add: block_limb_def M_def)
  show "unat (block_limb h hibit m 1) = unat (h ! 1) + M div 2 ^ 26 mod 2 ^ 26"
    using w [OF hb5(2) block_limbs(2) [OF m]] by (simp add: block_limb_def M_def)
  show "unat (block_limb h hibit m 2) = unat (h ! 2) + M div 2 ^ 52 mod 2 ^ 26"
    using w [OF hb5(3) block_limbs(3) [OF m]] by (simp add: block_limb_def M_def)
  show "unat (block_limb h hibit m 3) = unat (h ! 3) + M div 2 ^ 78 mod 2 ^ 26"
    using w [OF hb5(4) block_limbs(4) [OF m]] by (simp add: block_limb_def M_def)
qed

lemma block_limb_bound:
  assumes "hinv h" and "length m = 16" and "hibit = 0 \<or> hibit = 2 ^ 24"
  shows "unat (block_limb h hibit m 0) < 2 ^ 28" "unat (block_limb h hibit m 1) < 2 ^ 28"
    "unat (block_limb h hibit m 2) < 2 ^ 28" "unat (block_limb h hibit m 3) < 2 ^ 28"
    "unat (block_limb h hibit m 4) < 2 ^ 28"
proof -
  have b: "x + y mod 2 ^ 26 < 2 ^ 28" if "x < 2 ^ 27" for x y :: nat
    using that by simp
  have h: "unat (h ! 0) < 2 ^ 27" "unat (h ! 1) < 2 ^ 27" "unat (h ! 2) < 2 ^ 27"
    "unat (h ! 3) < 2 ^ 27" "unat (h ! 4) < 2 ^ 27" using assms(1) unfolding hinv_def by auto
  show "unat (block_limb h hibit m 0) < 2 ^ 28" "unat (block_limb h hibit m 1) < 2 ^ 28"
    "unat (block_limb h hibit m 2) < 2 ^ 28" "unat (block_limb h hibit m 3) < 2 ^ 28"
    unfolding unat_block_limb(1-4) [OF assms] by (intro b h)+
  show "unat (block_limb h hibit m 4) < 2 ^ 28"
    using h(5) unat_block_limb(6) [OF assms] unfolding unat_block_limb(5) [OF assms] by simp
qed

lemma limb_add:
  "(x0 + y0) + B * (x1 + y1) + C * (x2 + y2) + D * (x3 + y3) + E * (x4 + (y4 + z)) =
   (x0 + B * x1 + C * x2 + D * x3 + E * x4) + (y0 + B * y1 + C * y2 + D * y3 + E * y4) +
     E * (z :: nat)"
  by (simp add: algebra_simps)

lemma block_limb_sum:
  assumes "hinv h" and "length m = 16" and "hibit = 0 \<or> hibit = 2 ^ 24"
  shows "unat (block_limb h hibit m 0) + 2 ^ 26 * unat (block_limb h hibit m 1) +
     2 ^ 52 * unat (block_limb h hibit m 2) + 2 ^ 78 * unat (block_limb h hibit m 3) +
     2 ^ 104 * unat (block_limb h hibit m 4) = lval h + le_val m + 2 ^ 104 * unat hibit"
  by (simp only: unat_block_limb [OF assms] lval_def limb_add limbs_sum)

lemma poly1305_blocks_step_correct:
  assumes r: "rinv r" and h: "hinv h" and m: "length m = 16" and hb: "hibit = 0 \<or> hibit = 2 ^ 24"
  shows "hinv (poly1305_blocks_step r hibit h m)" (is ?I)
    and "lval (poly1305_blocks_step r hibit h m) mod poly_p =
      (lval h + le_val m + 2 ^ 104 * unat hibit) * lval r mod poly_p" (is ?V)
proof -
  note ri = r [unfolded rinv_def, THEN conjunct2, rule_format]
  have rb: "unat (r ! 0) < 2 ^ 26" "unat (r ! 1) < 2 ^ 26" "unat (r ! 2) < 2 ^ 26"
    "unat (r ! 3) < 2 ^ 26" "unat (r ! 4) < 2 ^ 26" by (rule ri, simp)+
  note s = unat_times5 [OF rb(2)] unat_times5 [OF rb(3)] unat_times5 [OF rb(4)] unat_times5 [OF rb(5)]
  have rb': "unat (r ! 0) < 2 ^ 29" "unat (r ! 1) < 2 ^ 29" "unat (r ! 2) < 2 ^ 29"
    "unat (r ! 3) < 2 ^ 29" "unat (r ! 4) < 2 ^ 29" using rb by simp_all
  note ab = block_limb_bound [OF h m hb]
  note s5 = s [THEN conjunct2] and s5' = s [THEN conjunct1]
  note d0 = unat_dot5 [OF ab rb'(1) s5(4) s5(3) s5(2) s5(1)]
  note d1 = unat_dot5 [OF ab rb'(2) rb'(1) s5(4) s5(3) s5(2)]
  note d2 = unat_dot5 [OF ab rb'(3) rb'(2) rb'(1) s5(4) s5(3)]
  note d3 = unat_dot5 [OF ab rb'(4) rb'(3) rb'(2) rb'(1) s5(4)]
  note d4 = unat_dot5 [OF ab rb'(5) rb'(4) rb'(3) rb'(2) rb'(1)]
  note cw = carry_words [OF d0 [THEN conjunct2] d1 [THEN conjunct2] d2 [THEN conjunct2]
      d3 [THEN conjunct2] d4 [THEN conjunct2]]
  have bl: "block_limb h hibit m 0 = h ! 0 + (U8TO32 (bslice 0 4 m) AND 0x3ffffff)"
    "block_limb h hibit m 1 = h ! 1 + (drop_bit 2 (U8TO32 (bslice 3 4 m)) AND 0x3ffffff)"
    "block_limb h hibit m 2 = h ! 2 + (drop_bit 4 (U8TO32 (bslice 6 4 m)) AND 0x3ffffff)"
    "block_limb h hibit m 3 = h ! 3 + (drop_bit 6 (U8TO32 (bslice 9 4 m)) AND 0x3ffffff)"
    "block_limb h hibit m 4 = h ! 4 + (drop_bit 8 (U8TO32 (bslice 12 4 m)) OR hibit)"
    by (simp_all add: block_limb_def)
  show ?I using cw(1) by (simp only: poly1305_blocks_step_def Let_def bl)
  have "lval (poly1305_blocks_step r hibit h m) mod poly_p =
     ((unat (block_limb h hibit m 0) + 2 ^ 26 * unat (block_limb h hibit m 1) +
     2 ^ 52 * unat (block_limb h hibit m 2) + 2 ^ 78 * unat (block_limb h hibit m 3) +
     2 ^ 104 * unat (block_limb h hibit m 4)) * lval r) mod poly_p"
    using cw(2) unfolding d0 [THEN conjunct1] d1 [THEN conjunct1] d2 [THEN conjunct1]
      d3 [THEN conjunct1] d4 [THEN conjunct1] s5'
    by (simp only: poly1305_blocks_step_def Let_def bl lval_def [of r] mul_limbs_mod)
  then show ?V by (simp only: block_limb_sum [OF h m hb])
qed

section \<open>The Poly1305 polynomial\<close>

function poly_acc :: "nat \<Rightarrow> nat \<Rightarrow> bytes \<Rightarrow> nat" where
  "poly_acc r a m =
     (if m = [] then a
      else poly_acc r ((a + le_val (take 16 m) + 256 ^ min 16 (length m)) * r mod poly_p) (drop 16 m))"
  by pat_completeness auto
termination
  by (relation "measure (\<lambda>(r, a, m). length m)") auto

declare poly_acc.simps [simp del]

lemma poly_acc_Nil [simp]: "poly_acc r a [] = a"
  by (simp add: poly_acc.simps)

lemma poly_acc_step:
  "m \<noteq> [] \<Longrightarrow> poly_acc r a m =
     poly_acc r ((a + le_val (take 16 m) + 256 ^ min 16 (length m)) * r mod poly_p) (drop 16 m)"
  by (subst poly_acc.simps) simp

lemma poly_acc_mod: "m \<noteq> [] \<Longrightarrow> poly_acc r (a mod poly_p) m = poly_acc r a m"
proof -
  assume m: "m \<noteq> []"
  have "(a mod poly_p + x + y) * r mod poly_p = (a + x + y) * r mod poly_p" for x y
    by (metis add.assoc mod_add_left_eq mod_mult_left_eq)
  then show ?thesis by (simp only: poly_acc_step [OF m])
qed

lemma poly_acc_append:
  "16 dvd length xs \<Longrightarrow> poly_acc r a (xs @ ys) = poly_acc r (poly_acc r a xs) ys"
proof (induction r a xs rule: poly_acc.induct)
  case (1 r a xs)
  show ?case
  proof (cases "xs = []")
    case False
    then have l: "16 \<le> length xs" using "1.prems" by (metis dvd_imp_le length_0_conv neq0_conv)
    have d: "16 dvd length (drop 16 xs)" using "1.prems" l by (simp add: dvd_diff_nat)
    show ?thesis using False l "1.IH" [OF False d] 
      by (simp add: poly_acc_step [of xs] poly_acc_step [of "xs @ ys"])
  qed simp
qed

lemma poly1305_blocks_loop_step:
  "16 \<le> length m \<Longrightarrow> poly1305_blocks_loop r b h m =
     poly1305_blocks_loop r b (poly1305_blocks_step r b h (take 16 m)) (drop 16 m)"
  by (subst poly1305_blocks_loop.simps) simp

lemma poly1305_blocks_loop_done: "length m < 16 \<Longrightarrow> poly1305_blocks_loop r b h m = h"
  by (subst poly1305_blocks_loop.simps) simp

lemma poly1305_blocks_loop_correct:
  "rinv r \<Longrightarrow> hinv h \<Longrightarrow> 16 dvd length m \<Longrightarrow>
     hinv (poly1305_blocks_loop r (2 ^ 24) h m) \<and>
     lval (poly1305_blocks_loop r (2 ^ 24) h m) mod poly_p = poly_acc (lval r) (lval h) m mod poly_p"
proof (induction "length m" arbitrary: h m rule: less_induct)
  case less
  show ?case
  proof (cases "m = []")
    case True
    then show ?thesis using less.prems by (simp add: poly1305_blocks_loop_done)
  next
    case False
    let ?h = "poly1305_blocks_step r (2 ^ 24) h (take 16 m)" and ?m = "drop 16 m"
    have l: "16 \<le> length m" using less.prems(3) False by (metis dvd_imp_le length_0_conv neq0_conv)
    have t: "length (take 16 m) = 16" using l by simp
    note st = poly1305_blocks_step_correct [OF less.prems(1,2) t disjI2 [OF refl]]
    have d: "16 dvd length ?m" "length ?m < length m" using less.prems l False
      by (simp_all add: dvd_diff_nat)
    note ih = less.hyps [OF d(2) less.prems(1) st(1) d(1)]
    have v: "lval ?h mod poly_p = (lval h + le_val (take 16 m) + 256 ^ min 16 (length m)) * lval r mod poly_p"
      using st(2) l by (simp add: min_def)
    have acc: "poly_acc (lval r) (lval h) m = poly_acc (lval r) (lval ?h mod poly_p) ?m"
      by (simp only: poly_acc_step [OF False] v)
    have "poly_acc (lval r) (lval ?h mod poly_p) ?m mod poly_p = poly_acc (lval r) (lval ?h) ?m mod poly_p"
    proof (cases "?m = []")
      case nonempty: False
      show ?thesis by (rule arg_cong [OF poly_acc_mod [OF nonempty]])
    qed (simp only: poly_acc_Nil mod_mod_trivial)
    then show ?thesis using ih by (simp only: poly1305_blocks_loop_step [OF l] acc)
  qed
qed

definition poly_full :: "bytes \<Rightarrow> bytes" where
  "poly_full msg = take (length msg - length msg mod 16) msg"

definition poly_rest :: "bytes \<Rightarrow> bytes" where
  "poly_rest msg = drop (length msg - length msg mod 16) msg"

lemma poly_full_rest: "poly_full msg @ poly_rest msg = msg"
  by (simp add: poly_full_def poly_rest_def)

lemma dvd_length_poly_full: "16 dvd length (poly_full msg)"
  by (simp add: poly_full_def minus_mod_eq_mult_div)

lemma length_poly_rest: "length (poly_rest msg) = length msg mod 16"
  by (simp add: poly_rest_def)

lemma full_rest_unique:
  assumes "msg = xs @ ys" "16 dvd length xs" "length ys < 16"
  shows "poly_full msg = xs \<and> poly_rest msg = ys"
proof -
  have "length msg mod 16 = length ys" using assms by (auto elim!: dvdE)
  then show ?thesis using assms(1) by (simp add: poly_full_def poly_rest_def)
qed

text \<open>
  What the state holds after the bytes \<open>msg\<close>: the accumulator of the full blocks, and the rest
  in the buffer.
\<close>

definition poly_rel :: "nat \<Rightarrow> bytes \<Rightarrow> poly1305_state_internal_t \<Rightarrow> bool" where
  "poly_rel R msg st \<longleftrightarrow>
     rinv (pr st) \<and> lval (pr st) = R \<and> hinv (ph st) \<and>
     lval (ph st) mod poly_p = poly_acc R 0 (poly_full msg) mod poly_p \<and>
     pleftover st = length (poly_rest msg) \<and> length (pbuffer st) = 16 \<and>
     take (pleftover st) (pbuffer st) = poly_rest msg \<and> \<not> pfinal st"

lemma poly_rel_blocks:
  assumes "poly_rel R xs st" and "16 dvd length xs" and "16 dvd length m"
  shows "poly_rel R (xs @ m) ((poly1305_blocks st m)\<lparr>pleftover := 0\<rparr>)"
proof -
  have f: "poly_full xs = xs \<and> poly_rest xs = []"
    using full_rest_unique [of xs xs "[]"] assms(2) by simp
  have g: "poly_full (xs @ m) = xs @ m \<and> poly_rest (xs @ m) = []"
    using full_rest_unique [of "xs @ m" "xs @ m" "[]"] assms(2,3) by simp
  have s: "rinv (pr st)" "hinv (ph st)" "\<not> pfinal st" "lval (pr st) = R"
    "lval (ph st) mod poly_p = poly_acc R 0 xs mod poly_p" "length (pbuffer st) = 16"
    using assms(1) f by (simp_all add: poly_rel_def)
  have "poly_acc R (lval (ph st)) m mod poly_p = poly_acc R (poly_acc R 0 xs) m mod poly_p"
    using s(5) by (cases "m = []") (simp, metis poly_acc_mod)
  then show ?thesis
    using poly1305_blocks_loop_correct [OF s(1,2) assms(3)] s g assms(2)
    by (simp add: poly_rel_def poly1305_blocks_def poly_acc_append)
qed

lemma poly_rel_write:
  assumes "poly_rel R xs st" and "length (poly_rest xs) + length m < 16"
  shows "poly_rel R (xs @ m) (st\<lparr>pbuffer := buf_write (pbuffer st) (pleftover st) m,
       pleftover := pleftover st + length m\<rparr>)"
proof -
  have "poly_full (xs @ m) = poly_full xs \<and> poly_rest (xs @ m) = poly_rest xs @ m"
    using assms(2) by (intro full_rest_unique) (simp_all add: poly_full_rest [symmetric] dvd_length_poly_full poly_full_rest)
  then show ?thesis using assms by (auto simp: poly_rel_def buf_write_def)
qed

lemma poly_rel_store:
  "poly_rel R xs st \<Longrightarrow> length (poly_rest xs) + length m < 16 \<Longrightarrow>
     poly_rel R (xs @ m) (poly1305_store_leftover st m)"
  using poly_rel_write [of R xs st m] by (simp add: poly1305_store_leftover_def)

lemma mod_16_diff: "16 dvd n - n mod (16::nat)"
  by (simp add: minus_mod_eq_mult_div)

lemma poly_rel_leftover_0:
  assumes "poly_rel R xs st" shows "pleftover st = 0 \<longleftrightarrow> 16 dvd length xs"
  using assms by (auto simp: poly_rel_def length_poly_rest dvd_eq_mod_eq_0)

lemma blocks_leftover_0:
  "pleftover st = 0 \<Longrightarrow> (poly1305_blocks st m)\<lparr>pleftover := 0\<rparr> = poly1305_blocks st m"
  by (cases st) (simp add: poly1305_blocks_def)

text \<open>The part of the update after the buffer has been emptied.\<close>

lemma poly_rel_full:
  assumes r: "poly_rel R xs st" and d: "16 dvd length xs"
  shows "poly_rel R (xs @ m) (poly1305_full_blocks st m)"
proof -
  have l0: "pleftover st = 0" using poly_rel_leftover_0 [OF r] d by simp
  have rest0: "poly_rest xs = []" using r l0 by (simp add: poly_rel_def)
  show ?thesis
  proof (cases "16 \<le> length m")
    case False
    then show ?thesis using poly_rel_store [OF r, of m] rest0 by (simp add: poly1305_full_blocks_def)
  next
    case True
    let ?w = "length m - length m mod 16"
    have dw: "16 dvd length (take ?w m)" by (simp add: mod_16_diff)
    have b: "poly_rel R (xs @ take ?w m) (poly1305_blocks st (take ?w m))"
      using poly_rel_blocks [OF r d dw] by (simp only: blocks_leftover_0 [OF l0])
    have "16 dvd length (xs @ take ?w m)" unfolding length_append using d dw by (rule dvd_add)
    then have "poly_rest (xs @ take ?w m) = []"
      using full_rest_unique [of "xs @ take ?w m" "xs @ take ?w m" "[]"] by simp
    then have "poly_rel R ((xs @ take ?w m) @ drop ?w m)
        (poly1305_store_leftover (poly1305_blocks st (take ?w m)) (drop ?w m))"
      by (intro poly_rel_store [OF b]) simp
    then show ?thesis using True by (simp add: poly1305_full_blocks_def Let_def)
  qed
qed

lemma wg_poly1305_update_rel:
  assumes r: "poly_rel R xs st"
  shows "poly_rel R (xs @ m) (wg_poly1305_update st m)"
proof (cases "pleftover st = 0")
  case True
  then show ?thesis using poly_rel_full [OF r, of m] poly_rel_leftover_0 [OF r]
    by (simp add: wg_poly1305_update_def)
next
  case False
  define want where "want = min (16 - pleftover st) (length m)"
  define st1 where "st1 = st\<lparr>pbuffer := buf_write (pbuffer st) (pleftover st) (take want m),
                          pleftover := pleftover st + want\<rparr>"
  have lo: "pleftover st = length (poly_rest xs)" "pleftover st < 16"
    using r by (simp_all add: poly_rel_def length_poly_rest)
  have lw: "length (take want m) = want" by (simp add: want_def)
  show ?thesis
  proof (cases "pleftover st + want < 16")
    case True
    then have w: "take want m = m" using lo by (auto simp: want_def min_def split: if_splits)
    have "poly_rel R (xs @ m) st1" using poly_rel_write [OF r, of m] True lo w lw by (simp add: st1_def)
    then show ?thesis using False True
      by (simp add: wg_poly1305_update_def Let_def want_def [symmetric] st1_def)
  next
    case c: False
    have w16: "pleftover st + want = 16" using c lo by (auto simp: want_def)
    have buf: "pbuffer st1 = poly_rest xs @ take want m"
      using r w16 lw by (auto simp: st1_def buf_write_def poly_rel_def)
    have dvd: "16 dvd length (poly_rest xs @ take want m)" using lo lw w16 by simp
    have full0: "poly_full (poly_full xs) = poly_full xs \<and> poly_rest (poly_full xs) = []"
      using full_rest_unique [of "poly_full xs" "poly_full xs" "[]"] dvd_length_poly_full by simp
    have "poly_rel R (poly_full xs) (st1\<lparr>pleftover := 0\<rparr>)"
      using r full0 buf lo lw w16 by (simp add: poly_rel_def st1_def)
    note pb = poly_rel_blocks [OF this dvd_length_poly_full dvd]
    have e: "poly_full xs @ poly_rest xs @ take want m = xs @ take want m"
      using poly_full_rest [of xs] by (metis append_assoc)
    have b: "poly_rel R (xs @ take want m) ((poly1305_blocks st1 (pbuffer st1))\<lparr>pleftover := 0\<rparr>)"
      using pb unfolding e buf by (simp add: poly1305_blocks_def)
    have dv: "16 dvd length (xs @ take want m)"
      using dvd_add [OF dvd_length_poly_full [of xs] dvd] by (simp only: length_append [symmetric] e)
    show ?thesis using poly_rel_full [OF b dv, of "drop want m"] False c
      by (simp add: wg_poly1305_update_def Let_def want_def [symmetric] st1_def)
  qed
qed

section \<open>The clamped key\<close>

definition CLAMP :: nat where "CLAMP = 0x0ffffffc0ffffffc0ffffffc0fffffff"

lemma key_limb:
  assumes "length key = 32" and "k \<le> 12" and "b + w \<le> 32"
    and "unat c = take_bit w (drop_bit (8 * k + b) CLAMP)"
  shows "unat (drop_bit b (U8TO32 (bslice k 4 key)) AND c) =
    (le_val (take 16 key) AND CLAMP) div 2 ^ (8 * k + b) mod 2 ^ w"
proof -
  let ?M = "le_val (take 16 key)"
  have sk: "bslice k 4 key = bslice k 4 (take 16 key)"
    using assms(1,2) by (simp add: bslice_def take_drop min_def)
  have "unat (U8TO32 (bslice k 4 key)) = ?M div 2 ^ (8 * k) mod 2 ^ 32"
    using assms(1,2) by (simp add: sk unat_U8TO32 le_val_bslice power_mult)
  then have u: "unat (U8TO32 (bslice k 4 key)) = take_bit 32 (drop_bit (8 * k) ?M)"
    by (simp only: take_bit_eq_mod drop_bit_eq_div)
  have "unat (drop_bit b (U8TO32 (bslice k 4 key)) AND c) =
     drop_bit b (take_bit 32 (drop_bit (8 * k) ?M)) AND take_bit w (drop_bit (8 * k + b) CLAMP)"
    by (simp only: unsigned_and_eq assms(4) unat_drop_bit u) (simp only: drop_bit_eq_div)
  also have "\<dots> = take_bit w (drop_bit (8 * k + b) (?M AND CLAMP))"
    using assms(3) by (auto simp: bit_eq_iff bit_simps add.assoc)
  finally show ?thesis by (simp only: take_bit_eq_mod drop_bit_eq_div)
qed

definition poly_r :: "bytes \<Rightarrow> nat" where
  "poly_r key = le_val (take 16 key) AND CLAMP"

lemma init_limbs:
  assumes "length key = 32"
  defines "r \<equiv> pr (wg_poly1305_init key)"
  shows "unat (r ! 0) = poly_r key mod 2 ^ 26" "unat (r ! 1) = poly_r key div 2 ^ 26 mod 2 ^ 26"
    "unat (r ! 2) = poly_r key div 2 ^ 52 mod 2 ^ 26" "unat (r ! 3) = poly_r key div 2 ^ 78 mod 2 ^ 26"
    "unat (r ! 4) = poly_r key div 2 ^ 104" "unat (r ! 4) < 2 ^ 26"
proof -
  note k = key_limb [OF assms(1)]
  show "unat (r ! 0) = poly_r key mod 2 ^ 26"
    using k [of 0 0 26 "0x3ffffff"] by (simp add: r_def wg_poly1305_init_def poly_r_def CLAMP_def)
  show "unat (r ! 1) = poly_r key div 2 ^ 26 mod 2 ^ 26"
    using k [of 3 2 26 "0x3ffff03"] by (simp add: r_def wg_poly1305_init_def poly_r_def CLAMP_def)
  show "unat (r ! 2) = poly_r key div 2 ^ 52 mod 2 ^ 26"
    using k [of 6 4 26 "0x3ffc0ff"] by (simp add: r_def wg_poly1305_init_def poly_r_def CLAMP_def)
  show "unat (r ! 3) = poly_r key div 2 ^ 78 mod 2 ^ 26"
    using k [of 9 6 26 "0x3f03fff"] by (simp add: r_def wg_poly1305_init_def poly_r_def CLAMP_def)
  have r4: "unat (r ! 4) = poly_r key div 2 ^ 104 mod 2 ^ 24"
    using k [of 12 8 24 "0xfffff"] by (simp add: r_def wg_poly1305_init_def poly_r_def CLAMP_def)
  have "take_bit 128 (poly_r key) = take_bit 128 (le_val (take 16 key)) AND CLAMP"
    by (simp add: poly_r_def CLAMP_def)
  also have "\<dots> = poly_r key"
    using le_val_less [of "take 16 key"] assms(1) by (simp add: take_bit_nat_eq_self poly_r_def)
  finally have "poly_r key < 2 ^ 128" by (metis take_bit_nat_less_exp)
  then have "poly_r key div 2 ^ 104 < 2 ^ 24" by (simp add: less_mult_imp_div_less)
  then show "unat (r ! 4) = poly_r key div 2 ^ 104" using r4 by simp
  show "unat (r ! 4) < 2 ^ 26" using mod_less_divisor [of "2 ^ 24" "poly_r key div 2 ^ 104"] r4 by simp
qed

lemma wg_poly1305_init_rel:
  assumes "length key = 32"
  shows "poly_rel (poly_r key) [] (wg_poly1305_init key)"
proof -
  note l = init_limbs [OF assms]
  have b: "x mod 2 ^ 26 < 2 ^ 26" for x :: nat by simp
  have "rinv (pr (wg_poly1305_init key))"
    unfolding rinv_def
  proof (intro conjI allI impI)
    show "length (pr (wg_poly1305_init key)) = 5" by (simp add: wg_poly1305_init_def)
    fix i :: nat assume "i < 5"
    then consider "i = 0" | "i = 1" | "i = 2" | "i = 3" | "i = 4" by linarith
    then show "unat (pr (wg_poly1305_init key) ! i) < 2 ^ 26"
      using l by cases (simp_all only: b)
  qed
  moreover have "lval (pr (wg_poly1305_init key)) = poly_r key"
    by (simp only: lval_def l limbs_sum)
  moreover have "hinv [0, 0, 0, 0, 0]" "lval [0, 0, 0, 0, 0] = 0" by (simp_all add: hinv_def lval_def)
  ultimately show ?thesis by (simp add: poly_rel_def wg_poly1305_init_def poly_full_def poly_rest_def)
qed

lemma ppad_blocks [simp]: "ppad (poly1305_blocks st m) = ppad st"
  by (simp add: poly1305_blocks_def)

lemma ppad_store [simp]: "ppad (poly1305_store_leftover st m) = ppad st"
  by (simp add: poly1305_store_leftover_def)

lemma ppad_full [simp]: "ppad (poly1305_full_blocks st m) = ppad st"
  by (simp only: poly1305_full_blocks_def Let_def ppad_blocks ppad_store if_distrib [of ppad] if_cancel)

lemma ppad_fields: "ppad (st\<lparr>pbuffer := b\<rparr>) = ppad st" "ppad (st\<lparr>pleftover := l\<rparr>) = ppad st"
  by simp_all

lemma ppad_update [simp]: "ppad (wg_poly1305_update st m) = ppad st"
  unfolding wg_poly1305_update_def Let_def
  by (simp only: if_distrib [of ppad] ppad_full ppad_blocks ppad_fields if_cancel)

section \<open>The tag\<close>

text \<open>Final carry: below \<open>2\<^sup>130\<close> with every limb below \<open>2\<^sup>26\<close>.\<close>

lemma carry_add:
  fixes h c :: u64
  assumes "unat h < 2 ^ 26" "unat c \<le> 1"
  shows "unat (h + c) = unat h + unat c"
    and "unat (drop_bit 26 (h + c)) \<le> 1"
    and "unat (drop_bit 26 (h + c)) = 1 \<Longrightarrow> unat c = 1"
proof -
  show s: "unat (h + c) = unat h + unat c" using assms unat_add_lt [of h c] by simp
  show "unat (drop_bit 26 (h + c)) \<le> 1" using s assms by (simp add: unat_high26)
  show "unat (drop_bit 26 (h + c)) = 1 \<Longrightarrow> unat c = 1"
    using s assms by (cases "unat c = 0") (simp_all add: unat_high26)
qed

lemma all_less5: "(\<forall>i < 5. P i) \<longleftrightarrow> P 0 \<and> P 1 \<and> P 2 \<and> P 3 \<and> P (4::nat)"
  by (auto simp: eval_nat_numeral less_Suc_eq)

lemma fin_carry_correct:
  assumes "hinv h"
  shows "lval (fin_carry h) mod poly_p = lval h mod poly_p" "length (fin_carry h) = 5"
    "\<forall>i < 5. unat (fin_carry h ! i) < 2 ^ 26"
proof -
  define c1 where "c1 = drop_bit 26 (h ! 1)"
  define e2 where "e2 = h ! 2 + c1" define c2 where "c2 = drop_bit 26 e2"
  define e3 where "e3 = h ! 3 + c2" define c3 where "c3 = drop_bit 26 e3"
  define e4 where "e4 = h ! 4 + c3" define c4 where "c4 = drop_bit 26 e4"
  define g0 where "g0 = h ! 0 + c4 * 5"
  define c5 where "c5 = drop_bit 26 g0"
  have hb: "unat (h ! 0) < 2 ^ 26" "unat (h ! 1) < 2 ^ 26 + 2 ^ 12" "unat (h ! 2) < 2 ^ 26"
    "unat (h ! 3) < 2 ^ 26" "unat (h ! 4) < 2 ^ 26" using assms by (simp_all add: hinv_def)
  have f: "fin_carry h = [g0 AND 0x3ffffff, (h ! 1 AND 0x3ffffff) + c5, e2 AND 0x3ffffff,
      e3 AND 0x3ffffff, e4 AND 0x3ffffff]"
    by (simp only: fin_carry_def Let_def c1_def e2_def c2_def e3_def c3_def e4_def c4_def g0_def c5_def)
  have c1: "unat c1 = unat (h ! 1) div 2 ^ 26" "unat c1 \<le> 1" using hb(2) by (simp_all add: c1_def unat_high26)
  note a2 = carry_add [OF hb(3) c1(2), folded e2_def, folded c2_def]
  note a3 = carry_add [OF hb(4) a2(2), folded e3_def, folded c3_def]
  note a4 = carry_add [OF hb(5) a3(2), folded e4_def, folded c4_def]
  have g0: "unat g0 = unat (h ! 0) + unat c4 * 5"
    using unat_mult_lt [of c4 5] unat_add_lt [of "h ! 0" "c4 * 5"] hb(1) a4(2) by (simp add: g0_def)
  have c5: "unat c5 = unat g0 div 2 ^ 26" "unat c5 \<le> unat c4"
    using g0 hb(1) a4(2) by (simp_all add: c5_def unat_high26)
  have h1: "unat ((h ! 1 AND 0x3ffffff) + c5) = unat (h ! 1) mod 2 ^ 26 + unat c5"
    using c5(2) a4(2) unat_add_lt [of "h ! 1 AND 0x3ffffff" c5] by (simp add: unat_low26)
  have h1b: "unat ((h ! 1 AND 0x3ffffff) + c5) < 2 ^ 26"
  proof (cases "unat c4 = 0")
    case True
    then show ?thesis using h1 c5(2) by simp
  next
    case False
    then have "unat c4 = 1" using a4(2) by simp
    then have "unat c1 = 1" using a2(3) a3(3) a4(3) by blast
    then have "unat (h ! 1) mod 2 ^ 26 < 2 ^ 12" using c1(1) hb(2)
      by (metis add_less_cancel_left div_mult_mod_eq mult_1)
    then show ?thesis using h1 c5(2) a4(2) by simp
  qed
  show "length (fin_carry h) = 5" by (simp add: f)
  show "\<forall>i < 5. unat (fin_carry h ! i) < 2 ^ 26"
    unfolding f all_less5 using h1b by (simp add: unat_low26)
  have "lval (fin_carry h) = unat g0 mod 2 ^ 26 + 2 ^ 26 * (unat (h ! 1) mod 2 ^ 26 + unat g0 div 2 ^ 26) +
      2 ^ 52 * (unat e2 mod 2 ^ 26) + 2 ^ 78 * (unat e3 mod 2 ^ 26) + 2 ^ 104 * (unat e4 mod 2 ^ 26)"
    by (simp only: lval_def f) (simp add: h1 [unfolded One_nat_def] c5(1) unat_low26)
  moreover have c: "unat (h ! 1) div 2 ^ 26 = unat c1" "unat e2 div 2 ^ 26 = unat c2"
    "unat e3 div 2 ^ 26 = unat c3" "unat e4 div 2 ^ 26 = unat c4"
    by (simp_all only: c1_def c2_def c3_def c4_def unat_high26)
  moreover have e: "unat (h ! 2) + unat c1 = unat e2" "unat (h ! 3) + unat c2 = unat e3"
    "unat (h ! 4) + unat c3 = unat e4" using a2(1) a3(1) a4(1) by simp_all
  moreover have d0: "unat (h ! 0) div 2 ^ 26 = 0" "unat (h ! 0) mod 2 ^ 26 = unat (h ! 0)"
    using hb(1) by simp_all
  moreover note g = g0
  ultimately show "lval (fin_carry h) mod poly_p = lval h mod poly_p"
    using carry_limbs_mod [of "unat (h ! 0)" "unat (h ! 4)" "unat (h ! 3)" "unat (h ! 2)" "unat (h ! 1)"]
    unfolding d0 add_0_right c e g [symmetric] lval_def by simp
qed

text \<open>Final subtraction: the limbs of the residue modulo \<open>2\<^sup>130 - 5\<close>.\<close>

lemma plus5_limbs:
  fixes a0 a1 a2 a3 a4 :: nat
  assumes "g0 + B * c0 = a0 + 5" "g1 + B * c1 = a1 + c0" "g2 + B * c2 = a2 + c1"
    "g3 + B * c3 = a3 + c2"
  shows "g0 + B * g1 + B ^ 2 * g2 + B ^ 3 * g3 + B ^ 4 * (a4 + c3) =
    a0 + B * a1 + B ^ 2 * a2 + B ^ 3 * a3 + B ^ 4 * a4 + 5"
proof -
  have d: "int a0 = int g0 + int B * int c0 - 5" "int a1 = int g1 + int B * int c1 - int c0"
    "int a2 = int g2 + int B * int c2 - int c1" "int a3 = int g3 + int B * int c3 - int c2"
    using assms [THEN arg_cong [of _ _ int]]
    by (simp_all only: of_nat_mult of_nat_add of_nat_power of_nat_numeral)
  have "int (g0 + B * g1 + B ^ 2 * g2 + B ^ 3 * g3 + B ^ 4 * (a4 + c3)) =
    int (a0 + B * a1 + B ^ 2 * a2 + B ^ 3 * a3 + B ^ 4 * a4 + 5)"
    unfolding of_nat_mult of_nat_add of_nat_power of_nat_numeral d by algebra
  then show ?thesis by (rule of_nat_eq_iff [THEN iffD1])
qed

lemma top_mask:
  fixes g :: u64
  assumes "unat g \<le> 2 ^ 26"
  shows "drop_bit 63 (g - 2 ^ 26) - 1 = (if unat g = 2 ^ 26 then - 1 else 0)"
proof (cases "unat g = 2 ^ 26")
  case True
  then have "g = 2 ^ 26" by (simp add: word_unat_eq_iff)
  then show ?thesis using True by simp
next
  case False
  then have lt: "unat g < 2 ^ 26" using assms by simp
  then have "unat (g - 2 ^ 26) = 2 ^ 64 + unat g - 2 ^ 26"
    by (simp add: unat_sub_if')
  then have "unat (drop_bit 63 (g - 2 ^ 26)) = 1"
    using lt by (simp add: unat_drop_bit)
  then have "drop_bit 63 (g - 2 ^ 26) = 1" by (simp add: word_unat_eq_iff)
  then show ?thesis using False by simp
qed

text \<open>The five limbs of \<open>h + 5\<close>, carried, with the top limb not reduced.\<close>

definition plus5 :: "u64 list \<Rightarrow> u64 list" where
  "plus5 h =
     (let e0 = h ! 0 + 5; e1 = h ! 1 + drop_bit 26 e0; e2 = h ! 2 + drop_bit 26 e1;
          e3 = h ! 3 + drop_bit 26 e2; e4 = h ! 4 + drop_bit 26 e3
      in [e0 AND 0x3ffffff, e1 AND 0x3ffffff, e2 AND 0x3ffffff, e3 AND 0x3ffffff, e4])"

lemma plus5_correct:
  assumes hb: "\<forall>i < 5. unat (h ! i) < 2 ^ 26"
  shows "lval (plus5 h) = lval h + 5" "\<forall>i < 4. unat (plus5 h ! i) < 2 ^ 26"
    "unat (plus5 h ! 4) \<le> 2 ^ 26"
proof -
  define e0 where "e0 = h ! 0 + 5"
  define e1 where "e1 = h ! 1 + drop_bit 26 e0"
  define e2 where "e2 = h ! 2 + drop_bit 26 e1"
  define e3 where "e3 = h ! 3 + drop_bit 26 e2"
  define e4 where "e4 = h ! 4 + drop_bit 26 e3"
  have f: "plus5 h = [e0 AND 0x3ffffff, e1 AND 0x3ffffff, e2 AND 0x3ffffff, e3 AND 0x3ffffff, e4]"
    by (simp only: plus5_def Let_def e0_def e1_def e2_def e3_def e4_def)
  have b: "unat (h ! 0) < 2 ^ 26" "unat (h ! 1) < 2 ^ 26" "unat (h ! 2) < 2 ^ 26"
    "unat (h ! 3) < 2 ^ 26" "unat (h ! 4) < 2 ^ 26" using hb by auto
  have u0: "unat e0 = unat (h ! 0) + 5" using unat_add_lt [of "h ! 0" 5] b by (simp add: e0_def)
  have "unat e0 < 2 * 2 ^ 26" using u0 b(1) by simp
  then have d0: "unat (drop_bit 26 e0) \<le> 1" using less_mult_imp_div_less unat_high26 by fastforce
  note a1 = carry_add [OF b(2) d0, folded e1_def]
  note a2 = carry_add [OF b(3) a1(2), folded e2_def]
  note a3 = carry_add [OF b(4) a2(2), folded e3_def]
  note a4 = carry_add [OF b(5) a3(2), folded e4_def]
  show "\<forall>i < 4. unat (plus5 h ! i) < 2 ^ 26"
  proof (intro allI impI)
    fix i :: nat assume "i < 4"
    then consider "i = 0" | "i = 1" | "i = 2" | "i = 3" by linarith
    then show "unat (plus5 h ! i) < 2 ^ 26" by cases (simp_all add: f unat_low26)
  qed
  show "unat (plus5 h ! 4) \<le> 2 ^ 26" using a4(1) a3(2) b(5) by (simp add: f)
  have x: "(2::nat) ^ 52 = (2 ^ 26) ^ 2" "(2::nat) ^ 78 = (2 ^ 26) ^ 3" "(2::nat) ^ 104 = (2 ^ 26) ^ 4"
    by simp_all
  have c: "unat e mod 2 ^ 26 + 2 ^ 26 * unat (drop_bit 26 e) = unat e" for e :: u64
    by (simp only: unat_high26 mod_mult_div_eq)
  have n: "[v0, v1, v2, v3, v4] ! 1 = v1" "[v0, v1, v2, v3, v4] ! 2 = v2" "[v0, v1, v2, v3, v4] ! 3 = v3"
    "[v0, v1, v2, v3, v4] ! 4 = v4" for v0 v1 v2 v3 v4 :: u64 by simp_all
  show "lval (plus5 h) = lval h + 5"
    unfolding lval_def f x nth_Cons_0 n unat_low26 a4(1)
    by (rule plus5_limbs [OF c [of e0, unfolded u0] c [of e1, unfolded a1(1)] c [of e2, unfolded a2(1)] c [of e3, unfolded a3(1)], folded u0 a1(1) a2(1) a3(1)])
qed

lemma fin_select_plus5:
  "fin_select h = (let g = plus5 h; m = drop_bit 63 (g ! 4 - 2 ^ 26) - 1 in
     [(h ! 0 AND NOT m) OR (g ! 0 AND m), (h ! 1 AND NOT m) OR (g ! 1 AND m),
      (h ! 2 AND NOT m) OR (g ! 2 AND m), (h ! 3 AND NOT m) OR (g ! 3 AND m),
      (h ! 4 AND NOT m) OR ((g ! 4 - 2 ^ 26) AND m)])"
  by (simp only: fin_select_def plus5_def Let_def) simp

lemma lval_top: 
  assumes "\<forall>i < 4. unat (g ! i) < 2 ^ 26"
  shows "2 ^ 104 * unat (g ! 4) \<le> lval g" "lval g < 2 ^ 104 * (unat (g ! 4) + 1)"
proof -
  have "unat (g ! 0) < 2 ^ 26" "unat (g ! 1) < 2 ^ 26" "unat (g ! 2) < 2 ^ 26" "unat (g ! 3) < 2 ^ 26"
    using assms by auto
  then show "2 ^ 104 * unat (g ! 4) \<le> lval g" "lval g < 2 ^ 104 * (unat (g ! 4) + 1)"
    by (simp_all add: lval_def)
qed

lemma unat_2p26: "unat (g :: u64) = 2 ^ 26 \<Longrightarrow> g = 2 ^ 26"
  by (simp add: word_unat_eq_iff)

lemma fin_select_correct:
  assumes hb: "\<forall>i < 5. unat (h ! i) < 2 ^ 26"
  shows "lval (fin_select h) = lval h mod poly_p" "\<forall>i < 5. unat (fin_select h ! i) < 2 ^ 26"
proof -
  note g = plus5_correct [OF hb]
  have x: "(2::nat) ^ 130 = 2 ^ 104 * 2 ^ 26" by simp
  have p: "lval (fin_select h) = lval h mod poly_p \<and> (\<forall>i < 5. unat (fin_select h ! i) < 2 ^ 26)"
  proof (cases "unat (plus5 h ! 4) = 2 ^ 26")
    case True
    then have z: "plus5 h ! 4 = 2 ^ 26" by (rule unat_2p26)
    from True have "fin_select h = [plus5 h ! 0, plus5 h ! 1, plus5 h ! 2, plus5 h ! 3, 0]"
      by (simp only: fin_select_plus5 Let_def top_mask [OF g(3)]) (simp add: z)
    moreover have "lval [plus5 h ! 0, plus5 h ! 1, plus5 h ! 2, plus5 h ! 3, 0] + 2 ^ 130 = lval h + 5"
      using g(1) True by (simp add: lval_def)
    moreover have "lval h + 5 < 2 ^ 130 + 2 ^ 104" using lval_top(2) [OF g(2)] g(1) True by simp
    ultimately have "lval (fin_select h) + poly_p = lval h" "lval (fin_select h) < poly_p"
      by (simp_all add: poly_p_def)
    then have "lval (fin_select h) = lval h mod poly_p" by (metis mod_add_self2 mod_less)
    then show ?thesis using g(2) \<open>fin_select h = _\<close> by (simp add: all_less5)
  next
    case False
    then have "fin_select h = [h ! 0, h ! 1, h ! 2, h ! 3, h ! 4]"
      by (simp only: fin_select_plus5 Let_def top_mask [OF g(3)]) simp
    moreover have "lval h + 5 < 2 ^ 130"
    proof -
      have "unat (plus5 h ! 4) + 1 \<le> 2 ^ 26" using g(3) False by linarith
      then have "2 ^ 104 * (unat (plus5 h ! 4) + 1) \<le> (2 :: nat) ^ 130" unfolding x by (rule mult_le_mono2)
      then show ?thesis using lval_top(2) [OF g(2)] g(1) by linarith
    qed
    then have "lval h < poly_p" by (simp add: poly_p_def)
    ultimately show ?thesis using hb by (simp add: lval_def all_less5)
  qed
  then show "lval (fin_select h) = lval h mod poly_p" by (rule conjunct1)
  from p show "\<forall>i < 5. unat (fin_select h ! i) < 2 ^ 26" by (rule conjunct2)
qed

section \<open>Packing and adding the pad\<close>

lemma div_mix: "k \<le> n \<Longrightarrow> (x + 2 ^ n * y) div 2 ^ k = x div 2 ^ k + 2 ^ (n - k) * (y :: nat)"
proof -
  assume "k \<le> n"
  then have "2 ^ n * y = 2 ^ k * (2 ^ (n - k) * y)" by (simp add: power_add [symmetric])
  then show ?thesis by (simp only: div_mult_self2 power_not_zero) simp
qed

lemma pack_words:
  fixes x y :: u64
  assumes "unat x < 2 ^ 26" "unat y < 2 ^ 26" "k \<le> 26"
  shows "unat ((drop_bit k x OR push_bit (26 - k) y) AND 0xffffffff) =
    (unat x + 2 ^ 26 * unat y) div 2 ^ k mod 2 ^ 32"
proof -
  have d: "unat (drop_bit k x) = unat x div 2 ^ k" by (rule unat_drop_bit)
  have "unat x < 2 ^ (26 - k) * 2 ^ k" using assms by (simp add: power_add [symmetric])
  then have l: "unat x div 2 ^ k < 2 ^ (26 - k)" by (rule less_mult_imp_div_less)
  have "(2 :: nat) ^ (26 - k) \<le> 2 ^ 26" by (rule power_increasing) simp_all
  then have "2 ^ (26 - k) * unat y \<le> 2 ^ 26 * 2 ^ 26" using assms(2) by (intro mult_mono) simp_all
  then have "unat x div 2 ^ k + 2 ^ (26 - k) * unat y < 2 ^ 64"
    using l \<open>(2 :: nat) ^ (26 - k) \<le> 2 ^ 26\<close> by simp
  then have "unat (drop_bit k x OR push_bit (26 - k) y) = unat x div 2 ^ k + 2 ^ (26 - k) * unat y"
    using unat_or_push_bit [of "drop_bit k x" "26 - k" y] l by (simp add: d)
  also have "\<dots> = (unat x + 2 ^ 26 * unat y) div 2 ^ k" using assms(3) by (simp only: div_mix)
  finally show ?thesis by (simp only: and_ffffffff unat_take_bit)
qed

lemma window:
  fixes A B C :: nat
  assumes "A < 2 ^ n" "k \<le> 20"
  shows "(A + 2 ^ n * (B + 2 ^ 52 * C)) div 2 ^ (n + k) mod 2 ^ 32 = B div 2 ^ k mod 2 ^ 32"
proof -
  have "(A + 2 ^ n * (B + 2 ^ 52 * C)) div 2 ^ (n + k) = (B + 2 ^ 52 * C) div 2 ^ k"
    using assms(1) by (simp add: power_add div_mult2_eq)
  also have "\<dots> = B div 2 ^ k + 2 ^ (52 - k) * C" using assms(2) by (simp only: div_mix)
  also have "(2::nat) ^ (52 - k) = 2 ^ 32 * 2 ^ (20 - k)"
    using assms(2) by (simp only: power_add [symmetric]) simp
  finally show ?thesis by (simp only: mult.assoc mod_mult_self2)
qed

lemma le_bytes_carry:
  "le_bytes (4 + n) (s + 2 ^ 32 * t) = le_bytes 4 s @ le_bytes n (s div 2 ^ 32 + t)"
proof -
  have "le_bytes 4 (s + 2 ^ 32 * t) = le_bytes 4 s" using le_bytes_mod [of 4 s t] by simp
  then show ?thesis by (simp only: le_bytes_append) (simp add: add.commute)
qed

lemma unat_add3:
  fixes a b f :: u64
  assumes "unat a < 2 ^ 32" "unat b < 2 ^ 32"
  shows "unat (a + b + drop_bit 32 f) = unat a + unat b + unat f div 2 ^ 32"
proof -
  have "unat f < 2 ^ 64" using unsigned_less [of f] by simp
  then have "unat f div 2 ^ 32 < 2 ^ 32" by simp
  then have "unat (a + b) = unat a + unat b" "unat (a + b) + unat (drop_bit 32 f) < 2 ^ 64"
    using assms unat_add_lt [of a b] by (simp_all add: unat_drop_bit)
  then show ?thesis using unat_add_lt [of "a + b" "drop_bit 32 f"] by (simp add: unat_drop_bit)
qed

lemma add_words_128:
  fixes a0 a1 a2 a3 p0 p1 p2 p3 :: u64
  assumes "unat a0 < 2 ^ 32" "unat a1 < 2 ^ 32" "unat a2 < 2 ^ 32" "unat a3 < 2 ^ 32"
    "unat p0 < 2 ^ 32" "unat p1 < 2 ^ 32" "unat p2 < 2 ^ 32" "unat p3 < 2 ^ 32"
  defines "f0 \<equiv> a0 + p0" defines "f1 \<equiv> a1 + p1 + drop_bit 32 f0"
  defines "f2 \<equiv> a2 + p2 + drop_bit 32 f1" defines "f3 \<equiv> a3 + p3 + drop_bit 32 f2"
  shows "U32TO8 f0 @ U32TO8 f1 @ U32TO8 f2 @ U32TO8 f3 =
    le_bytes 16 ((unat a0 + 2 ^ 32 * (unat a1 + 2 ^ 32 * (unat a2 + 2 ^ 32 * unat a3))) +
      (unat p0 + 2 ^ 32 * (unat p1 + 2 ^ 32 * (unat p2 + 2 ^ 32 * unat p3))))" (is "_ = le_bytes 16 ?V")
proof -
  have u: "unat f0 = unat a0 + unat p0" using unat_add_lt [of a0 p0] assms(1,5) by (simp add: f0_def)
  note u1 = unat_add3 [OF assms(2,6), of f0, folded f1_def]
  note u2 = unat_add3 [OF assms(3,7), of f1, folded f2_def]
  note u3 = unat_add3 [OF assms(4,8), of f2, folded f3_def]
  let ?t3 = "unat a3 + unat p3"
  let ?t2 = "unat a2 + unat p2 + 2 ^ 32 * ?t3"
  let ?t1 = "unat a1 + unat p1 + 2 ^ 32 * ?t2"
  have "le_bytes (4 + 12) (unat f0 + 2 ^ 32 * ?t1) = le_bytes 4 (unat f0) @ le_bytes 12 (unat f0 div 2 ^ 32 + ?t1)"
    by (rule le_bytes_carry)
  moreover have "le_bytes (4 + 8) (unat f1 + 2 ^ 32 * ?t2) = le_bytes 4 (unat f1) @ le_bytes 8 (unat f1 div 2 ^ 32 + ?t2)"
    by (rule le_bytes_carry)
  moreover have "le_bytes (4 + 4) (unat f2 + 2 ^ 32 * ?t3) = le_bytes 4 (unat f2) @ le_bytes 4 (unat f2 div 2 ^ 32 + ?t3)"
    by (rule le_bytes_carry)
  moreover have "unat f0 + 2 ^ 32 * ?t1 = ?V" by (simp only: u) (simp add: algebra_simps)
  moreover have "unat f0 div 2 ^ 32 + ?t1 = unat f1 + 2 ^ 32 * ?t2" "unat f1 div 2 ^ 32 + ?t2 = unat f2 + 2 ^ 32 * ?t3"
    "unat f2 div 2 ^ 32 + ?t3 = unat f3"
    by (simp_all only: u1 u2 u3 ac_simps)
  moreover have "4 + 12 = (16::nat)" "4 + 8 = (12::nat)" "4 + 4 = (8::nat)" by simp_all
  ultimately show ?thesis by (simp only: U32TO8_bytes)
qed

lemma words_128:
  "F mod 2 ^ 32 + 2 ^ 32 * (F div 2 ^ 32 mod 2 ^ 32 + 2 ^ 32 * (F div 2 ^ 64 mod 2 ^ 32 +
     2 ^ 32 * (F div 2 ^ 96 mod 2 ^ 32))) = F mod (256 :: nat) ^ 16"
proof -
  let ?B = "(2::nat) ^ 32"
  have "(256::nat) ^ 16 = ?B * (?B * (?B * ?B))" "(2::nat) ^ 64 = ?B * ?B" "(2::nat) ^ 96 = ?B * (?B * ?B)"
    by simp_all
  then show ?thesis by (simp only: mod_mult2_eq div_mult2_eq) (simp add: algebra_simps)
qed

lemma pack_limbs:
  assumes b: "unat (h ! 0) < 2 ^ 26" "unat (h ! 1) < 2 ^ 26" "unat (h ! 2) < 2 ^ 26"
    "unat (h ! 3) < 2 ^ 26" "unat (h ! 4) < 2 ^ 26"
  shows "unat ((h ! 0 OR push_bit 26 (h ! 1)) AND 0xffffffff) = lval h mod 2 ^ 32"
    "unat ((drop_bit 6 (h ! 1) OR push_bit 20 (h ! 2)) AND 0xffffffff) = lval h div 2 ^ 32 mod 2 ^ 32"
    "unat ((drop_bit 12 (h ! 2) OR push_bit 14 (h ! 3)) AND 0xffffffff) = lval h div 2 ^ 64 mod 2 ^ 32"
    "unat ((drop_bit 18 (h ! 3) OR push_bit 8 (h ! 4)) AND 0xffffffff) = lval h div 2 ^ 96 mod 2 ^ 32"
proof -
  let ?a = "\<lambda>i. unat (h ! i)"
  have e0: "lval h = 0 + 2 ^ 0 * ((?a 0 + 2 ^ 26 * ?a 1) + 2 ^ 52 * (?a 2 + 2 ^ 26 * ?a 3 + 2 ^ 52 * ?a 4))"
    and e1: "lval h = ?a 0 + 2 ^ 26 * ((?a 1 + 2 ^ 26 * ?a 2) + 2 ^ 52 * (?a 3 + 2 ^ 26 * ?a 4))"
    and e2: "lval h = (?a 0 + 2 ^ 26 * ?a 1) + 2 ^ 52 * ((?a 2 + 2 ^ 26 * ?a 3) + 2 ^ 52 * ?a 4)"
    and e3: "lval h = (?a 0 + 2 ^ 26 * ?a 1 + 2 ^ 52 * ?a 2) + 2 ^ 78 * ((?a 3 + 2 ^ 26 * ?a 4) + 2 ^ 52 * 0)"
    by (simp_all add: lval_def algebra_simps)
  have "lval h div 2 ^ (0 + 0) mod 2 ^ 32 = (?a 0 + 2 ^ 26 * ?a 1) div 2 ^ 0 mod 2 ^ 32"
    unfolding e0 by (rule window) simp_all
  then show "unat ((h ! 0 OR push_bit 26 (h ! 1)) AND 0xffffffff) = lval h mod 2 ^ 32"
    using pack_words [OF b(1,2), of 0] by simp
  have "lval h div 2 ^ (26 + 6) mod 2 ^ 32 = (?a 1 + 2 ^ 26 * ?a 2) div 2 ^ 6 mod 2 ^ 32"
    unfolding e1 by (rule window [OF b(1)]) simp_all
  then show "unat ((drop_bit 6 (h ! 1) OR push_bit 20 (h ! 2)) AND 0xffffffff) = lval h div 2 ^ 32 mod 2 ^ 32"
    using pack_words [OF b(2,3), of 6] by simp
  have "?a 0 + 2 ^ 26 * ?a 1 < 2 ^ 52" using b(1,2) by simp
  then have "lval h div 2 ^ (52 + 12) mod 2 ^ 32 = (?a 2 + 2 ^ 26 * ?a 3) div 2 ^ 12 mod 2 ^ 32"
    unfolding e2 by (rule window) simp_all
  then show "unat ((drop_bit 12 (h ! 2) OR push_bit 14 (h ! 3)) AND 0xffffffff) = lval h div 2 ^ 64 mod 2 ^ 32"
    using pack_words [OF b(3,4), of 12] by simp
  have "?a 0 + 2 ^ 26 * ?a 1 + 2 ^ 52 * ?a 2 < 2 ^ 78" using b(1,2,3) by simp
  then have "lval h div 2 ^ (78 + 18) mod 2 ^ 32 = (?a 3 + 2 ^ 26 * ?a 4) div 2 ^ 18 mod 2 ^ 32"
    unfolding e3 by (rule window) simp_all
  then show "unat ((drop_bit 18 (h ! 3) OR push_bit 8 (h ! 4)) AND 0xffffffff) = lval h div 2 ^ 96 mod 2 ^ 32"
    using pack_words [OF b(4,5), of 18] by simp
qed

lemma fin_pack_correct:
  assumes hb: "\<forall>i < 5. unat (h ! i) < 2 ^ 26" and pb: "\<forall>i < 4. unat (pad ! i) < 2 ^ 32"
  shows "fin_pack h pad = le_bytes 16 (lval h +
    (unat (pad ! 0) + 2 ^ 32 * (unat (pad ! 1) + 2 ^ 32 * (unat (pad ! 2) + 2 ^ 32 * unat (pad ! 3)))))"
    (is "_ = le_bytes 16 (_ + ?P)")
proof -
  define w0 where "w0 = (h ! 0 OR push_bit 26 (h ! 1)) AND (0xffffffff :: u64)"
  define w1 where "w1 = (drop_bit 6 (h ! 1) OR push_bit 20 (h ! 2)) AND (0xffffffff :: u64)"
  define w2 where "w2 = (drop_bit 12 (h ! 2) OR push_bit 14 (h ! 3)) AND (0xffffffff :: u64)"
  define w3 where "w3 = (drop_bit 18 (h ! 3) OR push_bit 8 (h ! 4)) AND (0xffffffff :: u64)"
  let ?F = "lval h"
  have b: "unat (h ! 0) < 2 ^ 26" "unat (h ! 1) < 2 ^ 26" "unat (h ! 2) < 2 ^ 26"
    "unat (h ! 3) < 2 ^ 26" "unat (h ! 4) < 2 ^ 26" using hb by auto
  have w: "unat w0 = ?F mod 2 ^ 32" "unat w1 = ?F div 2 ^ 32 mod 2 ^ 32"
    "unat w2 = ?F div 2 ^ 64 mod 2 ^ 32" "unat w3 = ?F div 2 ^ 96 mod 2 ^ 32"
    using pack_limbs [OF b] by (simp_all only: w0_def w1_def w2_def w3_def)
  have wb: "unat w0 < 2 ^ 32" "unat w1 < 2 ^ 32" "unat w2 < 2 ^ 32" "unat w3 < 2 ^ 32"
    by (simp_all add: w)
  have p: "unat (pad ! 0) < 2 ^ 32" "unat (pad ! 1) < 2 ^ 32" "unat (pad ! 2) < 2 ^ 32"
    "unat (pad ! 3) < 2 ^ 32" using pb by auto
  have "fin_pack h pad = le_bytes 16 ((unat w0 + 2 ^ 32 * (unat w1 + 2 ^ 32 * (unat w2 + 2 ^ 32 * unat w3))) + ?P)"
    unfolding fin_pack_def Let_def w0_def [symmetric] w1_def [symmetric] w2_def [symmetric] w3_def [symmetric]
    by (rule add_words_128 [OF wb p])
  also have "unat w0 + 2 ^ 32 * (unat w1 + 2 ^ 32 * (unat w2 + 2 ^ 32 * unat w3)) = ?F mod 256 ^ 16"
    unfolding w by (rule words_128)
  also have "le_bytes 16 (?F mod 256 ^ 16 + ?P) = le_bytes 16 (?F + ?P)"
    by (rule le_bytes_cong) (simp only: mod_add_left_eq)
  finally show ?thesis .
qed

lemma all_less4: "(\<forall>i < 4. P i) \<longleftrightarrow> P 0 \<and> P 1 \<and> P 2 \<and> P (3::nat)"
  by (auto simp: eval_nat_numeral less_Suc_eq)

lemma fin_state_leftover:
  assumes rel: "poly_rel R msg st"
  shows "hinv (ph (fin_state st))" and "lval (ph (fin_state st)) mod poly_p = poly_acc R 0 msg mod poly_p"
    and "ppad (fin_state st) = ppad st"
proof -
  let ?rest = "poly_rest msg"
  have i: "rinv (pr st)" "lval (pr st) = R" "hinv (ph st)"
    "lval (ph st) mod poly_p = poly_acc R 0 (poly_full msg) mod poly_p"
    "pleftover st = length ?rest" "take (pleftover st) (pbuffer st) = ?rest"
    using rel unfolding poly_rel_def by auto
  have l16: "length ?rest < 16" by (simp add: length_poly_rest)
  show "ppad (fin_state st) = ppad st" by (simp add: fin_state_def)
  have "hinv (ph (fin_state st)) \<and> lval (ph (fin_state st)) mod poly_p = poly_acc R 0 msg mod poly_p"
  proof (cases "?rest = []")
    case True
    then have "poly_full msg = msg" using poly_full_rest [of msg] by simp
    then show ?thesis using i True by (simp add: fin_state_def)
  next
    case False
    let ?m = "?rest @ 1 # replicate (15 - length ?rest) (0 :: u8)"
    have lm: "length ?m = 16" using l16 by simp
    have vm: "le_val ?m = le_val ?rest + 256 ^ length ?rest" by (simp add: le_val_append)
    have ph: "ph (fin_state st) = poly1305_blocks_step (pr st) 0 (ph st) ?m"
      using False i(5,6) lm by (simp add: fin_state_def poly1305_blocks_def poly1305_blocks_loop_step
          poly1305_blocks_loop_done)
    note s = poly1305_blocks_step_correct [OF i(1) i(3) lm, of 0, unfolded i(2), simplified]
    have "poly_acc R 0 msg = poly_acc R (poly_acc R 0 (poly_full msg)) ?rest"
      using poly_acc_append [of "poly_full msg" R 0 ?rest] by (simp add: poly_full_rest dvd_length_poly_full)
    also have "\<dots> = (poly_acc R 0 (poly_full msg) + le_val ?rest + 256 ^ length ?rest) * R mod poly_p"
      using False l16 by (simp add: poly_acc_step)
    also have "\<dots> = (lval (ph st) + le_val ?rest + 256 ^ length ?rest) * R mod poly_p"
      using i(4) by (metis add.assoc mod_add_left_eq mod_mult_left_eq)
    finally show ?thesis using s vm by (simp add: ph add.assoc)
  qed
  then show "hinv (ph (fin_state st))" "lval (ph (fin_state st)) mod poly_p = poly_acc R 0 msg mod poly_p"
    by simp_all
qed

definition pad_val :: "u64 list \<Rightarrow> nat" where
  "pad_val pad = unat (pad ! 0) + 2 ^ 32 * (unat (pad ! 1) + 2 ^ 32 * (unat (pad ! 2) + 2 ^ 32 * unat (pad ! 3)))"

lemma wg_poly1305_finish_rel:
  assumes "poly_rel R msg st" and "\<forall>i < 4. unat (ppad st ! i) < 2 ^ 32"
  shows "wg_poly1305_finish st = le_bytes 16 (poly_acc R 0 msg mod poly_p + pad_val (ppad st))"
proof -
  note f = fin_state_leftover [OF assms(1)]
  note c = fin_carry_correct [OF f(1)]
  note s = fin_select_correct [OF c(3)]
  show ?thesis
    unfolding wg_poly1305_finish_def Let_def f(3) pad_val_def fin_pack_correct [OF s(2) assms(2)] s(1) c(1) f(2) ..
qed

lemma init_pad:
  assumes "length key = 32"
  shows "\<forall>i < 4. unat (ppad (wg_poly1305_init key) ! i) < 2 ^ 32"
    and "pad_val (ppad (wg_poly1305_init key)) = le_val (bslice 16 16 key)"
proof -
  have u: "unat (U8TO32 (bslice k 4 key)) = le_val (bslice k 4 key)" "le_val (bslice k 4 key) < 2 ^ 32" if "k + 4 \<le> 32" for k
    using that assms unat_U8TO32 [of "bslice k 4 key"] le_val_less [of "bslice k 4 key"] by simp_all
  show "\<forall>i < 4. unat (ppad (wg_poly1305_init key) ! i) < 2 ^ 32"
    by (simp add: wg_poly1305_init_def all_less4 u(1)) (use u(2) [of 16] u(2) [of 20] u(2) [of 24] u(2) [of 28] in simp)
  have "bslice 16 16 key = bslice 16 4 key @ bslice 20 4 key @ bslice 24 4 key @ bslice 28 4 key"
    using bslice_split [of 16 4 12 key] bslice_split [of 20 4 8 key] bslice_split [of 24 4 4 key] by simp
  then show "pad_val (ppad (wg_poly1305_init key)) = le_val (bslice 16 16 key)"
    using assms by (simp add: pad_val_def wg_poly1305_init_def u(1) le_val_append)
qed

section \<open>The streaming interface\<close>

lemma fold_update_rel: "poly_rel R xs st \<Longrightarrow> poly_rel R (xs @ concat ms) (foldl wg_poly1305_update st ms)"
  by (induction ms arbitrary: xs st) (simp_all add: wg_poly1305_update_rel flip: append_assoc)

lemma ppad_fold_update: "ppad (foldl wg_poly1305_update st ms) = ppad st"
  by (induction ms arbitrary: st) simp_all

definition poly1305_tag :: "bytes \<Rightarrow> bytes \<Rightarrow> bytes" where
  "poly1305_tag key msg = le_bytes 16 (poly_acc (poly_r key) 0 msg mod poly_p + le_val (bslice 16 16 key))"

lemma wg_poly1305_stream:
  assumes "length key = 32"
  shows "wg_poly1305_finish (foldl wg_poly1305_update (wg_poly1305_init key) ms) =
    poly1305_tag key (concat ms)"
  using wg_poly1305_finish_rel [OF fold_update_rel [OF wg_poly1305_init_rel [OF assms], of ms]]
    init_pad [OF assms]
  by (simp only: ppad_fold_update append_Nil poly1305_tag_def)

lemma length_poly1305_tag [simp, len_simps]: "length (poly1305_tag key msg) = 16"
  by (simp add: poly1305_tag_def)

interpretation poly: chunked wg_poly1305_init wg_poly1305_update wg_poly1305_finish poly1305_tag
  "\<lambda>key. length key = 32"
  by unfold_locales (rule wg_poly1305_stream)

text \<open>
  C30: for every 32-byte key and every way of splitting a message over calls of
  \<open>wg_poly1305_update\<close>, the tag is \<open>((\<Sum> blocks * r\<^sup>i) mod (2\<^sup>130 - 5) + s) mod 2\<^sup>128\<close>, little-endian:
  the 26-bit limb arithmetic never overflows its 64-bit words, the carries and the masked final
  subtraction are exact, and the buffering of partial blocks is invisible.
\<close>

theorem wg_poly1305_correct:
  assumes "length key = 32"
  shows "wg_poly1305_finish (foldl wg_poly1305_update (wg_poly1305_init key) ms) =
    le_bytes 16 (poly_acc (poly_r key) 0 (concat ms) mod (2 ^ 130 - 5) + le_val (bslice 16 16 key))"
  using wg_poly1305_stream [OF assms] by (simp only: poly1305_tag_def poly_p_def)

theorem wg_poly1305_correct_witness:
  "wg_poly1305_finish (foldl wg_poly1305_update (wg_poly1305_init (replicate 32 7)) [[1, 2], [3]]) =
    le_bytes 16 (poly_acc (poly_r (replicate 32 7)) 0 [1, 2, 3] mod (2 ^ 130 - 5) +
      le_val (bslice 16 16 (replicate 32 7)))"
  using wg_poly1305_correct [of "replicate 32 7" "[[1, 2], [3]]"] by simp

end
