(* ===== verification/Aead.thy ===== *)
theory Aead
  imports Chacha20 Poly1305
begin

text \<open>
  \<open>common/crypto/chacha20poly1305.c\<close>: the AEAD constructions of the transport and of the cookie
  replies. Decryption returns \<open>None\<close> where the C code returns \<open>false\<close>, and the plaintext it wrote
  to \<open>dst\<close> otherwise. \<open>dst_len\<close> is an \<open>int\<close> in the code: the model covers messages shorter than
  \<open>2\<^sup>31\<close> bytes (packet buffers hold at most 2048).
\<close>

section \<open>Definitions\<close>

definition generate_poly1305_key :: "bytes \<Rightarrow> u64 \<Rightarrow> u32 list \<times> poly1305_state_internal_t" where
  "generate_poly1305_key key nonce =
     (let chacha20_state = chacha20_init key nonce;
          (chacha20_state, block) = chacha20 chacha20_state (replicate 32 0)
      in (chacha20_state, wg_poly1305_init block))"

text \<open>\<open>padded_len = (len + 15) & 0xFFFFFFF0\<close> and the zero bytes up to it.\<close>

definition padding :: "nat \<Rightarrow> bytes" where
  "padding len =
     (let padded_len = (of_nat len + 15 :: u64) AND 0xFFFFFFF0
      in replicate (unat (padded_len - of_nat len)) 0)"

text \<open>The sequence of \<open>wg_poly1305_update\<close> calls that both directions make.\<close>

definition aead_mac :: "poly1305_state_internal_t \<Rightarrow> bytes \<Rightarrow> bytes \<Rightarrow> bytes" where
  "aead_mac poly1305_state ad ct =
     (let st = wg_poly1305_update poly1305_state ad;
          st = wg_poly1305_update st (padding (length ad));
          st = wg_poly1305_update st ct;
          st = wg_poly1305_update st (padding (length ct));
          st = wg_poly1305_update st (U64TO8_LITTLE (of_nat (length ad)));
          st = wg_poly1305_update st (U64TO8_LITTLE (of_nat (length ct)))
      in wg_poly1305_finish st)"

definition chacha20poly1305_encrypt :: "bytes \<Rightarrow> bytes \<Rightarrow> u64 \<Rightarrow> bytes \<Rightarrow> bytes" where
  "chacha20poly1305_encrypt src ad nonce key =
     (let (chacha20_state, poly1305_state) = generate_poly1305_key key nonce;
          dst = snd (chacha20 chacha20_state src)
      in dst @ aead_mac poly1305_state ad dst)"

definition chacha20poly1305_decrypt :: "bytes \<Rightarrow> bytes \<Rightarrow> u64 \<Rightarrow> bytes \<Rightarrow> bytes option" where
  "chacha20poly1305_decrypt src ad nonce key =
     (if 16 \<le> length src
      then let dst_len = length src - 16;
               (chacha20_state, poly1305_state) = generate_poly1305_key key nonce;
               mac = aead_mac poly1305_state ad (take dst_len src)
           in if crypto_equal mac (drop dst_len src) 16
              then Some (snd (chacha20 chacha20_state (take dst_len src)))
              else None
      else None)"

definition xchacha20poly1305_encrypt :: "bytes \<Rightarrow> bytes \<Rightarrow> bytes \<Rightarrow> bytes \<Rightarrow> bytes" where
  "xchacha20poly1305_encrypt src ad nonce key =
     (let new_nonce = U8TO64_LITTLE (bslice 16 8 nonce);
          subkey = hchacha20 nonce key
      in chacha20poly1305_encrypt src ad new_nonce subkey)"

definition xchacha20poly1305_decrypt :: "bytes \<Rightarrow> bytes \<Rightarrow> bytes \<Rightarrow> bytes \<Rightarrow> bytes option" where
  "xchacha20poly1305_decrypt src ad nonce key =
     (let new_nonce = U8TO64_LITTLE (bslice 16 8 nonce);
          subkey = hchacha20 nonce key
      in chacha20poly1305_decrypt src ad new_nonce subkey)"

section \<open>The tag\<close>

lemma and_mask_16:
  assumes "n < 2 ^ 32 - 15"
  shows "unat ((of_nat n + 15 :: u64) AND 0xFFFFFFF0) = 16 * ((n + 15) div 16)"
proof -
  have e: "(0xFFFFFFF0 :: nat) = push_bit 4 (mask 28)" by (simp add: push_bit_eq_mult mask_eq_exp_minus_1)
  have u: "unat (of_nat n + 15 :: u64) = n + 15"
    using assms by (simp add: unat_word_ariths unat_of_nat)
  have "unat ((of_nat n + 15 :: u64) AND 0xFFFFFFF0) = (n + 15) AND 0xFFFFFFF0"
    by (simp only: unsigned_and_eq u) simp
  also have "\<dots> = push_bit 4 (take_bit 28 (drop_bit 4 (n + 15)))"
    unfolding e by (rule bit_eqI) (auto simp: bit_simps)
  also have "take_bit 28 (drop_bit 4 (n + 15)) = (n + 15) div 16"
    using assms by (simp add: drop_bit_eq_div take_bit_nat_eq_self less_mult_imp_div_less)
  finally show ?thesis by (simp add: push_bit_eq_mult)
qed

lemma round_up_16: "16 * ((n + 15) div 16) = n + (16 - n mod 16) mod (16 :: nat)"
proof -
  obtain q r where n: "n = 16 * q + r" "r < 16"
    by (metis mod_less_divisor mult_div_mod_eq zero_less_numeral)
  have "(r + 15) div 16 = (if r = 0 then 0 else 1)" using n(2) by (simp add: div_nat_eqI)
  moreover have "(n + 15) div 16 = q + (r + 15) div 16" by (simp add: n(1) add.assoc)
  moreover have "n mod 16 = r" using n by simp
  ultimately show ?thesis using n by simp
qed

lemma padding_eq:
  assumes "n < 2 ^ 32 - 15"
  shows "padding n = replicate ((16 - n mod 16) mod 16) 0"
proof -
  let ?w = "(of_nat n + 15 :: u64) AND 0xFFFFFFF0" and ?k = "(16 - n mod 16) mod 16"
  have u: "unat (of_nat n :: u64) = n" using assms by (simp add: unat_of_nat)
  have w: "unat ?w = n + ?k" using and_mask_16 [OF assms] by (simp only: round_up_16)
  then have "(of_nat n :: u64) \<le> ?w" by (simp only: word_le_nat_alt u le_add1)
  then have "unat (?w - of_nat n) = ?k" by (simp only: unat_sub u w diff_add_inverse)
  then show ?thesis by (simp only: padding_def Let_def)
qed

text \<open>The authenticated message of RFC 7539, section 2.8.\<close>

definition aead_message :: "bytes \<Rightarrow> bytes \<Rightarrow> bytes" where
  "aead_message ad ct =
     ad @ replicate ((16 - length ad mod 16) mod 16) 0 @
     ct @ replicate ((16 - length ct mod 16) mod 16) 0 @
     le_bytes 8 (length ad) @ le_bytes 8 (length ct)"

lemma aead_mac_stream:
  assumes "length k = 32" and "length ad < 2 ^ 31" and "length ct < 2 ^ 31"
  shows "aead_mac (wg_poly1305_init k) ad ct = poly1305_tag k (aead_message ad ct)"
proof -
  have p: "padding (length ad) = replicate ((16 - length ad mod 16) mod 16) 0"
    "padding (length ct) = replicate ((16 - length ct mod 16) mod 16) 0"
    using assms(2,3) by (simp_all add: padding_eq)
  have l: "U64TO8_LITTLE (of_nat n) = le_bytes 8 n" if "n < 2 ^ 31" for n
    using that by (simp add: U64TO8_LITTLE_bytes unat_of_nat)
  show ?thesis
    unfolding aead_mac_def Let_def poly.six [OF assms(1)] p l [OF assms(2)] l [OF assms(3)]
      aead_message_def ..
qed

section \<open>The AEAD contract\<close>

text \<open>What the handshake and the transport rely on: sealing adds a 16-byte tag, and opening
  accepts exactly the sealed messages.\<close>

locale aead =
  fixes enc :: "bytes \<Rightarrow> bytes \<Rightarrow> 'n \<Rightarrow> bytes \<Rightarrow> bytes"
    and dec :: "bytes \<Rightarrow> bytes \<Rightarrow> 'n \<Rightarrow> bytes \<Rightarrow> bytes option"
  assumes length_enc: "length (enc p ad n k) = length p + 16"
    and dec_iff: "dec c ad n k = Some p \<longleftrightarrow> c = enc p ad n k"
begin

lemma dec_enc: "dec (enc p ad n k) ad n k = Some p"
  by (simp add: dec_iff)

lemma length_dec: "dec c ad n k = Some p \<Longrightarrow> length c = length p + 16"
  by (simp add: dec_iff length_enc)

lemma dec_short: "length c < 16 \<Longrightarrow> dec c ad n k = None"
  using length_dec by (cases "dec c ad n k") fastforce+

lemma enc_inj: "enc p ad n k = enc p' ad n k \<longleftrightarrow> p = p'"
  by (metis dec_enc option.inject)

end

lemma length_aead_mac [simp, len_simps]: "length (aead_mac st ad ct) = 16"
  by (simp add: aead_mac_def Let_def wg_poly1305_finish_def fin_pack_def U32TO8_def)

lemma length_generate_state [simp]: "length (fst (generate_poly1305_key key nonce)) = 16"
  by (simp add: generate_poly1305_key_def Let_def case_prod_beta)

lemma chacha20poly1305_decrypt_iff:
  "chacha20poly1305_decrypt c ad nonce key = Some p \<longleftrightarrow> c = chacha20poly1305_encrypt p ad nonce key"
proof -
  obtain st poly where g: "generate_poly1305_key key nonce = (st, poly)" by (cases "generate_poly1305_key key nonce")
  then have st: "length st = 16" by (metis fst_conv length_generate_state)
  let ?ct = "take (length c - 16) c" and ?tag = "drop (length c - 16) c"
  have inv: "snd (chacha20 st x) = y \<longleftrightarrow> x = snd (chacha20 st y)" for x y
    using chacha20_involution [OF st] by auto
  have "chacha20poly1305_decrypt c ad nonce key = Some p \<longleftrightarrow>
     16 \<le> length c \<and> aead_mac poly ad ?ct = ?tag \<and> snd (chacha20 st ?ct) = p"
    by (auto simp: chacha20poly1305_decrypt_def g crypto_equal_iff Let_def)
  also have "\<dots> \<longleftrightarrow> 16 \<le> length c \<and> aead_mac poly ad ?ct = ?tag \<and> ?ct = snd (chacha20 st p)"
    using inv by blast
  also have "\<dots> \<longleftrightarrow> c = snd (chacha20 st p) @ aead_mac poly ad (snd (chacha20 st p))"
  proof
    assume "16 \<le> length c \<and> aead_mac poly ad ?ct = ?tag \<and> ?ct = snd (chacha20 st p)"
    then show "c = snd (chacha20 st p) @ aead_mac poly ad (snd (chacha20 st p))"
      by (metis append_take_drop_id)
  qed simp
  finally show ?thesis by (simp add: chacha20poly1305_encrypt_def g Let_def)
qed

lemma length_chacha20poly1305_encrypt [simp, len_simps]:
  "length (chacha20poly1305_encrypt p ad nonce key) = length p + 16"
  by (simp add: chacha20poly1305_encrypt_def Let_def case_prod_beta)

interpretation ccp: aead chacha20poly1305_encrypt chacha20poly1305_decrypt
  by unfold_locales (simp_all add: chacha20poly1305_decrypt_iff)

interpretation xccp: aead xchacha20poly1305_encrypt xchacha20poly1305_decrypt
  by unfold_locales
    (simp_all add: xchacha20poly1305_encrypt_def xchacha20poly1305_decrypt_def
      chacha20poly1305_decrypt_iff)

section \<open>The RFC 7539 construction\<close>

lemma chacha20_zeros:
  "length s = 16 \<Longrightarrow> snd (chacha20 s (replicate n 0)) = map (keystream s) [0..<n]"
  by (simp add: chacha20_map)

lemma keystream_next: "length s = 16 \<Longrightarrow> keystream (s[12 := s ! 12 + 1]) i = keystream s (64 + i)"
  using keystream_Suc_block [of s "64 + i"] by simp

lemma generate_poly1305_key_eq:
  fixes key nonce defines "s \<equiv> chacha20_init key nonce"
  shows "generate_poly1305_key key nonce =
    (s[12 := s ! 12 + 1], wg_poly1305_init (map (keystream s) [0..<32]))"
proof -
  have l: "length s = 16" by (simp add: s_def)
  have "chacha20 s (replicate 32 0) = (fst (chacha20 s (replicate 32 0)), snd (chacha20 s (replicate 32 0)))" by simp
  also have "\<dots> = (s[12 := s ! 12 + 1], map (keystream s) [0..<32])"
    unfolding chacha20_counter [OF l] chacha20_zeros [OF l] by simp
  finally show ?thesis by (simp only: generate_poly1305_key_def Let_def s_def [symmetric] prod.case)
qed

lemma chacha20poly1305_encrypt_eq:
  fixes key nonce defines "s \<equiv> chacha20_init key nonce"
  assumes "length src < 2 ^ 31" and "length ad < 2 ^ 31"
  defines "ct \<equiv> map (\<lambda>i. src ! i XOR keystream s (64 + i)) [0..<length src]"
  shows "chacha20poly1305_encrypt src ad nonce key =
    ct @ poly1305_tag (map (keystream s) [0..<32]) (aead_message ad ct)"
proof -
  have l: "length s = 16" by (simp add: s_def)
  have "snd (chacha20 (s[12 := s ! 12 + 1]) src) = ct"
    using l by (simp add: chacha20_map keystream_next ct_def)
  moreover have "length ct < 2 ^ 31" using assms(2) by (simp add: ct_def)
  ultimately show ?thesis
    using aead_mac_stream [of "map (keystream s) [0..<32]" ad ct] assms(3)
    by (simp add: chacha20poly1305_encrypt_def generate_poly1305_key_eq flip: s_def)
qed

text \<open>
  C31: opening a ChaCha20-Poly1305 or XChaCha20-Poly1305 message succeeds with plaintext \<open>p\<close> exactly
  when the message is the sealing of \<open>p\<close> under the same key, nonce and additional data. So every
  sealed message opens, and any message with a different tag or ciphertext is rejected.
\<close>

theorem aead_open_iff_sealed:
  "(chacha20poly1305_decrypt c ad nonce key = Some p \<longleftrightarrow>
      c = chacha20poly1305_encrypt p ad nonce key) \<and>
   (xchacha20poly1305_decrypt c ad xnonce key = Some p \<longleftrightarrow>
      c = xchacha20poly1305_encrypt p ad xnonce key)"
  by (simp add: ccp.dec_iff xccp.dec_iff)

text \<open>
  C35: sealing is the construction of RFC 7539: the one-time Poly1305 key is the first half of key
  stream block 0, the ciphertext is the plaintext XOR the key stream from block 1 on, and the tag
  is the Poly1305 polynomial of the padded additional data, the padded ciphertext and their lengths.
\<close>

theorem chacha20poly1305_encrypt_rfc7539:
  fixes key nonce
  defines "s \<equiv> chacha20_init key nonce"
  assumes "length src < 2 ^ 31" and "length ad < 2 ^ 31"
  defines "ct \<equiv> map (\<lambda>i. src ! i XOR keystream s (64 + i)) [0..<length src]"
  shows "chacha20poly1305_encrypt src ad nonce key =
    ct @ poly1305_tag (map (keystream s) [0..<32]) (aead_message ad ct)"
  unfolding ct_def s_def using assms(2,3) by (rule chacha20poly1305_encrypt_eq)

theorem chacha20poly1305_encrypt_rfc7539_witness:
  "chacha20poly1305_encrypt [] [1, 2] 5 (replicate 32 3) =
    poly1305_tag (map (keystream (chacha20_init (replicate 32 3) 5)) [0..<32])
      (aead_message [1, 2] [])"
  using chacha20poly1305_encrypt_rfc7539 [of "[]" "[1, 2]" 5 "replicate 32 3"] by simp

end
