(* ===== verification/Blake2s.thy ===== *)
theory Blake2s
  imports Crypto_Util
begin

text \<open>
  \<open>common/crypto/blake2s.c\<close>. The context is the C structure; \<open>blake2s_update\<close> is the byte loop of
  the code. The main result is that every chunking of a message gives the digest of RFC 7693,
  written below with the message as one list.
\<close>

section \<open>Definitions\<close>

record blake2s_ctx =
  bb :: bytes
  bh :: "u32 list"
  bt0 :: u32
  bt1 :: u32
  bc :: nat
  boutlen :: nat

definition ROTR32 :: "u32 \<Rightarrow> nat \<Rightarrow> u32" where
  "ROTR32 x y = drop_bit y x XOR push_bit (32 - y) x"

definition B2S_G :: "nat \<Rightarrow> nat \<Rightarrow> nat \<Rightarrow> nat \<Rightarrow> u32 \<Rightarrow> u32 \<Rightarrow> u32 list \<Rightarrow> u32 list" where
  "B2S_G a b c d x y v =
     (let v = v[a := v ! a + v ! b + x];
          v = v[d := ROTR32 (v ! d XOR v ! a) 16];
          v = v[c := v ! c + v ! d];
          v = v[b := ROTR32 (v ! b XOR v ! c) 12];
          v = v[a := v ! a + v ! b + y];
          v = v[d := ROTR32 (v ! d XOR v ! a) 8];
          v = v[c := v ! c + v ! d]
      in v[b := ROTR32 (v ! b XOR v ! c) 7])"

definition blake2s_iv :: "u32 list" where
  "blake2s_iv = [0x6A09E667, 0xBB67AE85, 0x3C6EF372, 0xA54FF53A,
     0x510E527F, 0x9B05688C, 0x1F83D9AB, 0x5BE0CD19]"

definition sigma :: "nat list list" where
  "sigma =
    [[0, 1, 2, 3, 4, 5, 6, 7, 8, 9, 10, 11, 12, 13, 14, 15],
     [14, 10, 4, 8, 9, 15, 13, 6, 1, 12, 0, 2, 11, 7, 5, 3],
     [11, 8, 12, 0, 5, 2, 15, 13, 10, 14, 3, 6, 7, 1, 9, 4],
     [7, 9, 3, 1, 13, 12, 11, 14, 2, 6, 5, 10, 4, 0, 15, 8],
     [9, 0, 5, 7, 2, 4, 10, 15, 14, 1, 11, 12, 6, 8, 3, 13],
     [2, 12, 6, 10, 0, 11, 8, 3, 4, 13, 7, 5, 15, 14, 1, 9],
     [12, 5, 1, 15, 14, 13, 4, 10, 0, 7, 6, 3, 9, 2, 8, 11],
     [13, 11, 7, 14, 12, 1, 3, 9, 5, 0, 15, 4, 8, 6, 2, 10],
     [6, 15, 14, 9, 11, 3, 0, 8, 12, 2, 13, 7, 1, 4, 10, 5],
     [10, 2, 8, 4, 7, 6, 1, 5, 15, 11, 9, 14, 3, 12, 13, 0]]"

definition blake2s_round :: "u32 list \<Rightarrow> u32 list \<Rightarrow> nat list \<Rightarrow> u32 list" where
  "blake2s_round m v s =
     (let v = B2S_G 0 4 8 12 (m ! (s ! 0)) (m ! (s ! 1)) v;
          v = B2S_G 1 5 9 13 (m ! (s ! 2)) (m ! (s ! 3)) v;
          v = B2S_G 2 6 10 14 (m ! (s ! 4)) (m ! (s ! 5)) v;
          v = B2S_G 3 7 11 15 (m ! (s ! 6)) (m ! (s ! 7)) v;
          v = B2S_G 0 5 10 15 (m ! (s ! 8)) (m ! (s ! 9)) v;
          v = B2S_G 1 6 11 12 (m ! (s ! 10)) (m ! (s ! 11)) v;
          v = B2S_G 2 7 8 13 (m ! (s ! 12)) (m ! (s ! 13)) v
      in B2S_G 3 4 9 14 (m ! (s ! 14)) (m ! (s ! 15)) v)"

text \<open>The part of \<open>blake2s_compress\<close> that reads the context: the new chaining value.\<close>

definition blake2s_F :: "u32 list \<Rightarrow> bytes \<Rightarrow> u32 \<Rightarrow> u32 \<Rightarrow> bool \<Rightarrow> u32 list" where
  "blake2s_F h b t0 t1 lastf =
     (let v = h @ blake2s_iv;
          v = v[12 := v ! 12 XOR t0];
          v = v[13 := v ! 13 XOR t1];
          v = (if lastf then v[14 := NOT (v ! 14)] else v);
          m = map (\<lambda>i. U8TO32_LITTLE (bslice (4 * i) 4 b)) [0..<16];
          v = foldl (blake2s_round m) v sigma
      in map (\<lambda>i. h ! i XOR (v ! i XOR v ! (i + 8))) [0..<8])"

definition blake2s_compress :: "blake2s_ctx \<Rightarrow> bool \<Rightarrow> blake2s_ctx" where
  "blake2s_compress ctx lastf = ctx\<lparr>bh := blake2s_F (bh ctx) (bb ctx) (bt0 ctx) (bt1 ctx) lastf\<rparr>"

text \<open>\<open>ctx->t[0] += ctx->c; if (ctx->t[0] < ctx->c) ctx->t[1]++;\<close>\<close>

definition blake2s_count :: "blake2s_ctx \<Rightarrow> blake2s_ctx" where
  "blake2s_count ctx =
     (let t0 = bt0 ctx + of_nat (bc ctx)
      in ctx\<lparr>bt0 := t0, bt1 := (if unat t0 < bc ctx then bt1 ctx + 1 else bt1 ctx)\<rparr>)"

definition blake2s_update_byte :: "blake2s_ctx \<Rightarrow> u8 \<Rightarrow> blake2s_ctx" where
  "blake2s_update_byte ctx x =
     (let ctx = (if bc ctx = 64
                 then (blake2s_compress (blake2s_count ctx) False)\<lparr>bc := 0\<rparr>
                 else ctx)
      in ctx\<lparr>bb := (bb ctx)[bc ctx := x], bc := bc ctx + 1\<rparr>)"

definition blake2s_update :: "blake2s_ctx \<Rightarrow> bytes \<Rightarrow> blake2s_ctx" where
  "blake2s_update ctx inp = foldl blake2s_update_byte ctx inp"

text \<open>The first argument is the uninitialised stack structure the function is given.\<close>

definition blake2s_init :: "blake2s_ctx \<Rightarrow> nat \<Rightarrow> bytes \<Rightarrow> blake2s_ctx option" where
  "blake2s_init ctx outlen key =
     (let keylen = length key
      in if outlen = 0 \<or> 32 < outlen \<or> 32 < keylen then None
         else let h = blake2s_iv;
                  h = h[0 := h ! 0 XOR (0x01010000 XOR push_bit 8 (of_nat keylen) XOR of_nat outlen)];
                  ctx = ctx\<lparr>bh := h, bt0 := 0, bt1 := 0, bc := 0, boutlen := outlen,
                            bb := take keylen (bb ctx) @ replicate (64 - keylen) 0\<rparr>
              in Some (if 0 < keylen then (blake2s_update ctx key)\<lparr>bc := 64\<rparr> else ctx))"

definition blake2s_final :: "blake2s_ctx \<Rightarrow> bytes" where
  "blake2s_final ctx =
     (let ctx = blake2s_count ctx;
          ctx = ctx\<lparr>bb := take (bc ctx) (bb ctx) @ replicate (64 - bc ctx) 0, bc := 64\<rparr>;
          ctx = blake2s_compress ctx True
      in map (\<lambda>i. ucast (drop_bit (8 * (i mod 4)) (bh ctx ! (i div 4)) AND 0xFF)) [0..<boutlen ctx])"

definition blake2s :: "blake2s_ctx \<Rightarrow> nat \<Rightarrow> bytes \<Rightarrow> bytes \<Rightarrow> bytes option" where
  "blake2s ctx outlen key inp =
     (case blake2s_init ctx outlen key of
        None \<Rightarrow> None
      | Some ctx \<Rightarrow> Some (blake2s_final (blake2s_update ctx inp)))"

section \<open>The digest of RFC 7693\<close>

text \<open>The chaining value after \<open>n\<close> full blocks; the offset is the number of bytes hashed so far,
  a 64-bit counter in two words.\<close>

definition F_at :: "u32 list \<Rightarrow> bytes \<Rightarrow> nat \<Rightarrow> bool \<Rightarrow> u32 list" where
  "F_at h b t lastf = blake2s_F h b (of_nat t) (of_nat (t div 2 ^ 32)) lastf"

primrec b2s_chain :: "u32 list \<Rightarrow> bytes \<Rightarrow> nat \<Rightarrow> u32 list" where
  "b2s_chain h0 data 0 = h0"
| "b2s_chain h0 data (Suc n) =
     F_at (b2s_chain h0 data n) (bslice (64 * n) 64 data) (64 * (n + 1)) False"

text \<open>The last block is never empty unless the whole message is.\<close>

definition b2s_full :: "bytes \<Rightarrow> nat" where
  "b2s_full data = (length data - 1) div 64"

definition b2s_h0 :: "nat \<Rightarrow> nat \<Rightarrow> u32 list" where
  "b2s_h0 outlen keylen =
     blake2s_iv[0 := blake2s_iv ! 0 XOR (0x01010000 XOR push_bit 8 (of_nat keylen) XOR of_nat outlen)]"

definition key_block :: "bytes \<Rightarrow> bytes" where
  "key_block key = (if key = [] then [] else key @ replicate (64 - length key) 0)"

definition b2s_digest :: "nat \<Rightarrow> bytes \<Rightarrow> bytes \<Rightarrow> bytes" where
  "b2s_digest outlen key msg =
     (let data = key_block key @ msg; n = b2s_full data; tl = drop (64 * n) data;
          h = F_at (b2s_chain (b2s_h0 outlen (length key)) data n)
                (tl @ replicate (64 - length tl) 0) (length data) True
      in take outlen (concat (map U32TO8_LITTLE h)))"

section \<open>The context invariant\<close>

definition b2s_rel :: "u32 list \<Rightarrow> nat \<Rightarrow> bytes \<Rightarrow> blake2s_ctx \<Rightarrow> bool" where
  "b2s_rel h0 outlen data ctx \<longleftrightarrow>
     (let n = b2s_full data in
      length (bb ctx) = 64 \<and> boutlen ctx = outlen \<and> bh ctx = b2s_chain h0 data n \<and>
      bt0 ctx = of_nat (64 * n) \<and> bt1 ctx = of_nat (64 * n div 2 ^ 32) \<and>
      bc ctx = length data - 64 * n \<and> take (bc ctx) (bb ctx) = drop (64 * n) data)"

lemma b2s_chain_append: "64 * n \<le> length xs \<Longrightarrow> b2s_chain h0 (xs @ ys) n = b2s_chain h0 xs n"
  by (induction n) (simp_all add: bslice_append_left)

lemma b2s_full_le: "64 * b2s_full data \<le> length data"
  using div_times_less_eq_dividend [of "length data - 1" 64] by (simp add: b2s_full_def)

lemma b2s_full_bound: "length data - 64 * b2s_full data \<le> 64"
proof -
  have "length data - 1 < 64 * ((length data - 1) div 64) + 64"
    using mod_less_divisor [of 64 "length data - 1"] mult_div_mod_eq [of 64 "length data - 1"] by linarith
  then show ?thesis by (simp add: b2s_full_def)
qed

text \<open>The carry from the low to the high counter word.\<close>

lemma carry_div_mod:
  fixes t c B :: nat
  assumes "c < B"
  shows "if t mod B + c < B then (t + c) div B = t div B \<and> (t + c) mod B = t mod B + c
    else (t + c) div B = t div B + 1 \<and> (t + c) mod B = t mod B + c - B"
proof -
  have r: "t mod B + c - B < B" using assms mod_less_divisor [of B t] by linarith
  have "(t + c) div B = t div B + (t mod B + c) div B" using assms div_add1_eq [of t c B] by simp
  moreover have "(t + c) mod B = (t mod B + c) mod B" by (simp only: mod_add_left_eq)
  ultimately show ?thesis using r assms by (auto simp: le_div_geq le_mod_geq div_less mod_less)
qed

lemma blake2s_count_of_nat:
  assumes "bt0 ctx = of_nat t" and "bt1 ctx = of_nat (t div 2 ^ 32)" and "bc ctx \<le> 64"
  shows "blake2s_count ctx = ctx\<lparr>bt0 := of_nat (t + bc ctx), bt1 := of_nat ((t + bc ctx) div 2 ^ 32)\<rparr>"
proof -
  define B :: nat where "B = 2 ^ 32"
  let ?c = "bc ctx"
  have u: "unat (of_nat (t + ?c) :: u32) = (t + ?c) mod B"
    by (simp only: unat_of_nat len_num0 len_num1 B_def) simp
  have c: "?c < B" and r: "t mod B < B" using assms(3) by (simp_all add: B_def)
  have "unat (of_nat (t + ?c) :: u32) < ?c \<longleftrightarrow> \<not> t mod B + ?c < B"
    unfolding u using carry_div_mod [OF c, of t] r c by (cases "t mod B + ?c < B") (auto simp del: mod_less_divisor)
  moreover have "of_nat ((t + ?c) div B) = (if t mod B + ?c < B then of_nat (t div B) else of_nat (t div B) + (1 :: u32))"
    using carry_div_mod [OF c, of t] by (auto split: if_splits)
  ultimately show ?thesis using assms(1,2)
    by (simp only: blake2s_count_def Let_def B_def [symmetric] of_nat_add [symmetric]) simp
qed

section \<open>Absorbing a byte\<close>

lemma b2s_full_snoc:
  "b2s_full (data @ [x]) = (if length data - 64 * b2s_full data = 64 then Suc (b2s_full data) else b2s_full data)"
proof -
  let ?n = "b2s_full data"
  have "length data div 64 = (if length data - 64 * ?n = 64 then Suc ?n else ?n)"
    using b2s_full_le [of data] b2s_full_bound [of data] by (auto intro!: div_nat_eqI)
  then show ?thesis by (simp add: b2s_full_def)
qed

lemma blake2s_update_byte_rel:
  assumes rel: "b2s_rel h0 outlen data ctx"
  shows "b2s_rel h0 outlen (data @ [x]) (blake2s_update_byte ctx x)"
proof -
  let ?n = "b2s_full data"
  have i: "length (bb ctx) = 64" "boutlen ctx = outlen" "bh ctx = b2s_chain h0 data ?n"
    "bt0 ctx = of_nat (64 * ?n)" "bt1 ctx = of_nat (64 * ?n div 2 ^ 32)" "bc ctx = length data - 64 * ?n"
    "take (bc ctx) (bb ctx) = drop (64 * ?n) data"
    using rel unfolding b2s_rel_def Let_def by blast+
  have le: "64 * ?n \<le> length data" and bnd: "bc ctx \<le> 64"
    using b2s_full_le [of data] b2s_full_bound [of data] i(6) by simp_all
  show ?thesis
  proof (cases "bc ctx = 64")
    case True
    then have len: "length data = 64 * Suc ?n" using i(6) le by simp
    have blk: "bb ctx = bslice (64 * ?n) 64 data"
      using i(1,7) True by (simp add: bslice_def)
    have n': "b2s_full (data @ [x]) = Suc ?n" using b2s_full_snoc [of data x] True i(6) by simp
    have cnt: "blake2s_count ctx = ctx\<lparr>bt0 := of_nat (64 * Suc ?n), bt1 := of_nat (64 * Suc ?n div 2 ^ 32)\<rparr>"
      using blake2s_count_of_nat [OF i(4,5) bnd] True by (simp add: add.commute)
    have ch: "b2s_chain h0 (data @ [x]) (Suc ?n) = blake2s_F (bh ctx) (bb ctx) (of_nat (64 * Suc ?n)) (of_nat (64 * Suc ?n div 2 ^ 32)) False"
    proof -
      have "bslice (64 * ?n) 64 (data @ [x]) = bslice (64 * ?n) 64 data"
        using len by (intro bslice_append_left) simp
      then show ?thesis
        unfolding b2s_chain.simps(2) F_at_def b2s_chain_append [OF le] i(3) blk
        by (simp only: Suc_eq_plus1)
    qed
    show ?thesis
      unfolding b2s_rel_def Let_def n' ch
      using i(1,2) True len
      by (simp add: blake2s_update_byte_def cnt blake2s_compress_def take_Suc_conv_app_nth del: of_nat_mult of_nat_Suc)
  next
    case False
    then have lt: "bc ctx < 64" using bnd by simp
    have n': "b2s_full (data @ [x]) = ?n" using b2s_full_snoc [of data x] False i(6) by simp
    have "take (Suc (bc ctx)) ((bb ctx)[bc ctx := x]) = drop (64 * ?n) (data @ [x])"
      using i(1,7) lt le by (simp add: take_Suc_conv_app_nth)
    then show ?thesis
      unfolding b2s_rel_def Let_def n' b2s_chain_append [OF le, of h0 "[x]"]
      using i False le by (simp add: blake2s_update_byte_def Suc_diff_le)
  qed
qed

lemma blake2s_update_rel:
  "b2s_rel h0 outlen data ctx \<Longrightarrow> b2s_rel h0 outlen (data @ m) (blake2s_update ctx m)"
  unfolding blake2s_update_def
proof (induction m arbitrary: data ctx)
  case (Cons x m)
  from Cons.IH [OF blake2s_update_byte_rel [OF Cons.prems, of x]] show ?case by simp
qed simp

section \<open>Initialisation and output\<close>

lemma foldl_bytes_fresh:
  assumes "bc ctx + length m \<le> 64" and "length (bb ctx) = 64"
  shows "blake2s_update ctx m =
    ctx\<lparr>bb := take (bc ctx) (bb ctx) @ m @ drop (bc ctx + length m) (bb ctx), bc := bc ctx + length m\<rparr>"
  using assms unfolding blake2s_update_def
proof (induction m arbitrary: ctx)
  case (Cons x m)
  let ?ctx = "ctx\<lparr>bb := (bb ctx)[bc ctx := x], bc := Suc (bc ctx)\<rparr>"
  have s: "blake2s_update_byte ctx x = ?ctx"
    using Cons.prems by (simp add: blake2s_update_byte_def)
  have "take (Suc (bc ctx)) ((bb ctx)[bc ctx := x]) = take (bc ctx) (bb ctx) @ [x]"
    using Cons.prems by (simp add: take_Suc_conv_app_nth)
  then show ?case using Cons.IH [of ?ctx] Cons.prems by (simp add: s)
qed simp

lemma blake2s_init_rel:
  assumes "length (bb ctx) = 64" and "0 < outlen" "outlen \<le> 32" and "length key \<le> 32"
  obtains c where "blake2s_init ctx outlen key = Some c"
    and "b2s_rel (b2s_h0 outlen (length key)) outlen (key_block key) c"
proof -
  let ?h = "b2s_h0 outlen (length key)"
  let ?fresh = "ctx\<lparr>bh := ?h, bt0 := 0, bt1 := 0, bc := 0, boutlen := outlen,
                  bb := take (length key) (bb ctx) @ replicate (64 - length key) 0\<rparr>"
  let ?c = "if 0 < length key then (blake2s_update ?fresh key)\<lparr>bc := 64\<rparr> else ?fresh"
  have e: "blake2s_init ctx outlen key = Some ?c"
    using assms by (simp add: blake2s_init_def Let_def b2s_h0_def)
  have u: "blake2s_update ?fresh key = ?fresh\<lparr>bb := key @ replicate (64 - length key) 0, bc := length key\<rparr>"
    using foldl_bytes_fresh [of ?fresh key] assms(1,4) by simp
  have "b2s_rel ?h outlen (key_block key) ?c"
    using assms(1,4) by (simp add: b2s_rel_def Let_def u key_block_def b2s_full_def)
  with e that show thesis by blast
qed

lemma length_blake2s_F [simp]: "length (blake2s_F h b t0 t1 l) = 8"
  by (simp add: blake2s_F_def Let_def)

lemma digest_bytes:
  assumes "length h = 8" and "n \<le> 32"
  shows "map (\<lambda>i. ucast (drop_bit (8 * (i mod 4)) (h ! (i div 4)) AND 0xFF) :: u8) [0..<n] =
    take n (concat (map U32TO8_LITTLE (h :: u32 list)))"
proof -
  have c: "(ucast (w AND 0xFF) :: u8) = ucast w" for w :: u32
  proof -
    have "(0xFF :: u32) = mask 8" by (simp add: mask_eq_exp_minus_1)
    show ?thesis unfolding \<open>0xFF = mask 8\<close> by (auto intro!: bit_eqI simp: bit_simps)
  qed
  obtain a0 a1 a2 a3 a4 a5 a6 a7 where h: "h = [a0, a1, a2, a3, a4, a5, a6, a7]"
    using assms(1) by (auto simp: length_8_conv)
  have "length (concat (map U32TO8_LITTLE h)) = 32" by (simp add: h)
  then have "take n (concat (map U32TO8_LITTLE h)) = map (\<lambda>i. concat (map U32TO8_LITTLE h) ! i) [0..<n]"
    using assms(2) by (intro nth_equalityI) auto
  moreover have "concat (map U32TO8_LITTLE h) ! i = ucast (drop_bit (8 * (i mod 4)) (h ! (i div 4)) AND 0xFF)" if "i < 32" for i
  proof -
    have "i \<in> set [0..<32]" using that by simp
    then show ?thesis
      unfolding c by (simp add: h U32TO8_LITTLE_def upt_rec) (elim disjE; simp)
  qed
  ultimately show ?thesis using assms(2) by (auto intro!: map_cong)
qed

lemma blake2s_final_rel:
  assumes rel: "b2s_rel h0 outlen data ctx" and "outlen \<le> 32"
  shows "blake2s_final ctx =
    (let n = b2s_full data; tl = drop (64 * n) data
     in take outlen (concat (map U32TO8_LITTLE
          (F_at (b2s_chain h0 data n) (tl @ replicate (64 - length tl) 0) (length data) True))))"
proof -
  let ?n = "b2s_full data" and ?tl = "drop (64 * b2s_full data) data"
  have i: "boutlen ctx = outlen" "bh ctx = b2s_chain h0 data ?n"
    "bt0 ctx = of_nat (64 * ?n)" "bt1 ctx = of_nat (64 * ?n div 2 ^ 32)" "bc ctx = length data - 64 * ?n"
    "take (bc ctx) (bb ctx) = ?tl"
    using rel unfolding b2s_rel_def Let_def by blast+
  have bnd: "bc ctx \<le> 64" and t: "64 * ?n + bc ctx = length data"
    using b2s_full_bound [of data] b2s_full_le [of data] i(5) by simp_all
  have "blake2s_count ctx = ctx\<lparr>bt0 := of_nat (length data), bt1 := of_nat (length data div 2 ^ 32)\<rparr>"
    using blake2s_count_of_nat [OF i(3,4) bnd] unfolding t .
  then have "blake2s_final ctx = map (\<lambda>k. ucast (drop_bit (8 * (k mod 4))
      (F_at (bh ctx) (?tl @ replicate (64 - length ?tl) 0) (length data) True ! (k div 4)) AND 0xFF)) [0..<outlen]"
    using i(5,6) by (simp only: blake2s_final_def Let_def blake2s_compress_def F_at_def) (simp add: i(1))
  also have "\<dots> = take outlen (concat (map U32TO8_LITTLE
      (F_at (bh ctx) (?tl @ replicate (64 - length ?tl) 0) (length data) True)))"
    using assms(2) by (intro digest_bytes) (simp_all add: F_at_def)
  finally show ?thesis by (simp only: Let_def i(2))
qed

definition b2s_params :: "nat \<times> bytes \<Rightarrow> bool" where
  "b2s_params = (\<lambda>(outlen, key). 0 < outlen \<and> outlen \<le> 32 \<and> length key \<le> 32)"

lemma blake2s_init_None_iff: "blake2s_init ctx outlen key = None \<longleftrightarrow> \<not> b2s_params (outlen, key)"
  by (auto simp: blake2s_init_def Let_def b2s_params_def)

lemma blake2s_rel_digest:
  assumes "b2s_rel (b2s_h0 outlen (length key)) outlen (key_block key @ msg) c" and "outlen \<le> 32"
  shows "blake2s_final c = b2s_digest outlen key msg"
  using blake2s_final_rel [OF assms] by (simp only: b2s_digest_def Let_def)

lemma blake2s_update_append: "blake2s_update ctx (a @ b) = blake2s_update (blake2s_update ctx a) b"
  by (simp add: blake2s_update_def)

lemma foldl_blake2s_update: "foldl blake2s_update ctx ms = blake2s_update ctx (concat ms)"
  by (induction ms arbitrary: ctx) (simp_all add: blake2s_update_append, simp add: blake2s_update_def)

lemma length_b2s_digest [simp, len_simps]: "outlen \<le> 32 \<Longrightarrow> length (b2s_digest outlen key msg) = outlen"
  by (simp add: b2s_digest_def Let_def length_concat sum_list_triv F_at_def o_def)

definition ctx0 :: blake2s_ctx where
  "ctx0 = \<lparr>bb = replicate 64 0, bh = replicate 8 0, bt0 = 0, bt1 = 0, bc = 0, boutlen = 0\<rparr>"

lemma length_bb_ctx0 [simp]: "length (bb ctx0) = 64"
  by (simp add: ctx0_def)

lemma blake2s_init_stream:
  assumes "length (bb ctx) = 64" and "b2s_params (outlen, key)"
  shows "blake2s_final (foldl blake2s_update (the (blake2s_init ctx outlen key)) ms) =
    b2s_digest outlen key (concat ms)"
proof -
  have p: "0 < outlen" "outlen \<le> 32" "length key \<le> 32" using assms(2) by (auto simp: b2s_params_def)
  obtain c where c: "blake2s_init ctx outlen key = Some c"
    "b2s_rel (b2s_h0 outlen (length key)) outlen (key_block key) c"
    using blake2s_init_rel [OF assms(1) p] .
  from blake2s_rel_digest [OF blake2s_update_rel [OF c(2), of "concat ms"] p(2)] c(1)
  show ?thesis by (simp add: foldl_blake2s_update)
qed

lemma blake2s_digest:
  assumes "length (bb ctx) = 64"
  shows "blake2s ctx outlen key msg =
    (if b2s_params (outlen, key) then Some (b2s_digest outlen key msg) else None)"
proof (cases "b2s_params (outlen, key)")
  case True
  then obtain c where c: "blake2s_init ctx outlen key = Some c"
    using blake2s_init_None_iff [of ctx outlen key] by auto
  then show ?thesis using blake2s_init_stream [OF assms True, of "[msg]"] True by (simp add: blake2s_def)
next
  case False
  then show ?thesis using blake2s_init_None_iff [of ctx outlen key] by (simp add: blake2s_def)
qed

interpretation b2s: chunked "\<lambda>(outlen, key). the (blake2s_init ctx0 outlen key)" blake2s_update
  blake2s_final "\<lambda>(outlen, key). b2s_digest outlen key" b2s_params
proof
  fix k ms assume "b2s_params k"
  then show "blake2s_final (foldl blake2s_update (case k of (outlen, key) \<Rightarrow> the (blake2s_init ctx0 outlen key)) ms) =
      (case k of (outlen, key) \<Rightarrow> b2s_digest outlen key) (concat ms)"
    by (cases k) (simp add: blake2s_init_stream)
qed

text \<open>
  C33: Whatever the uninitialised context holds, \<open>blake2s_init\<close> fails exactly for an output length
  outside 1..32 or a key over 32 bytes, and otherwise any sequence of \<open>blake2s_update\<close> calls
  followed by \<open>blake2s_final\<close> gives the RFC 7693 digest of the concatenated input: the byte-wise
  buffering, the lazy compression of the last block and the two-word byte counter are exact.
\<close>

theorem blake2s_chunking:
  assumes "length (bb ctx) = 64"
  shows "case blake2s_init ctx outlen key of
      None \<Rightarrow> outlen = 0 \<or> 32 < outlen \<or> 32 < length key
    | Some c \<Rightarrow> 0 < outlen \<and> outlen \<le> 32 \<and> length key \<le> 32 \<and>
        blake2s_final (foldl blake2s_update c ms) = b2s_digest outlen key (concat ms)"
proof (cases "blake2s_init ctx outlen key")
  case None
  then have "\<not> b2s_params (outlen, key)" by (simp only: blake2s_init_None_iff simp_thms)
  then show ?thesis using None by (auto simp: b2s_params_def)
next
  case (Some c)
  then have "b2s_params (outlen, key)" using blake2s_init_None_iff [of ctx outlen key] by auto
  then show ?thesis using blake2s_init_stream [OF assms, of outlen key ms] Some
    by (simp add: b2s_params_def)
qed

theorem blake2s_chunking_witness:
  "case blake2s_init (ctx0\<lparr>bc := 9, bh := []\<rparr>) 16 [1, 2, 3] of
      None \<Rightarrow> (16 :: nat) = 0 \<or> 32 < (16 :: nat) \<or> 32 < length [1 :: u8, 2, 3]
    | Some c \<Rightarrow> 0 < (16 :: nat) \<and> (16 :: nat) \<le> 32 \<and> length [1 :: u8, 2, 3] \<le> 32 \<and>
        blake2s_final (foldl blake2s_update c [[4], [5, 6]]) = b2s_digest 16 [1, 2, 3] [4, 5, 6]"
  using blake2s_chunking [of "ctx0\<lparr>bc := 9, bh := []\<rparr>" 16 "[1, 2, 3]" "[[4], [5, 6]]"]
  by (simp split: option.splits)

end
