(* ===== verification/Wg_Kdf.thy ===== *)
theory Wg_Kdf
  imports Wg_Types Aead Blake2s
begin

text \<open>
  The key derivation of \<open>common/wireguard.c\<close>: MACs, HMAC and KDF over BLAKE2s, the precomputed
  handshake hashes, and the cookie of a source address. Each hash context on the C stack starts
  from \<open>ctx0\<close>; the digests do not depend on it.
\<close>

section \<open>Definitions\<close>

definition ascii :: "string \<Rightarrow> bytes" where
  "ascii s = map (\<lambda>c. of_nat (of_char c)) s"

definition CONSTRUCTION :: bytes where
  "CONSTRUCTION = ascii ''Noise_IKpsk2_25519_ChaChaPoly_BLAKE2s''"

definition IDENTIFIER :: bytes where
  "IDENTIFIER = ascii ''WireGuard v1 zx2c4 Jason@zx2c4.com''"

definition LABEL_MAC1 :: bytes where
  "LABEL_MAC1 = ascii ''mac1----''"

definition LABEL_COOKIE :: bytes where
  "LABEL_COOKIE = ascii ''cookie--''"

definition zero_key :: bytes where
  "zero_key = replicate 32 0"

definition construction_hash :: bytes where
  "construction_hash =
     (let ctx = the (blake2s_init ctx0 32 []);
          ctx = blake2s_update ctx CONSTRUCTION
      in blake2s_final ctx)"

definition identifier_hash :: bytes where
  "identifier_hash =
     (let ctx = the (blake2s_init ctx0 32 []);
          ctx = blake2s_update ctx construction_hash;
          ctx = blake2s_update ctx IDENTIFIER
      in blake2s_final ctx)"

definition wireguard_mac :: "bytes \<Rightarrow> bytes \<Rightarrow> bytes" where
  "wireguard_mac message key = the (blake2s ctx0 16 key message)"

definition wireguard_mac_key :: "bytes \<Rightarrow> bytes \<Rightarrow> bytes" where
  "wireguard_mac_key public_key label =
     (let ctx = the (blake2s_init ctx0 32 []);
          ctx = blake2s_update ctx label;
          ctx = blake2s_update ctx public_key
      in blake2s_final ctx)"

definition wireguard_mix_hash :: "bytes \<Rightarrow> bytes \<Rightarrow> bytes" where
  "wireguard_mix_hash hash src =
     (let ctx = the (blake2s_init ctx0 32 []);
          ctx = blake2s_update ctx hash;
          ctx = blake2s_update ctx src
      in blake2s_final ctx)"

definition wireguard_hmac :: "bytes \<Rightarrow> bytes \<Rightarrow> bytes" where
  "wireguard_hmac key text =
     (let key = (if length key > 64
                 then blake2s_final (blake2s_update (the (blake2s_init ctx0 32 [])) key)
                 else key);
          k_ipad = key @ replicate (64 - length key) 0;
          k_opad = key @ replicate (64 - length key) 0;
          k_ipad = map (\<lambda>b. b XOR 0x36) k_ipad;
          k_opad = map (\<lambda>b. b XOR 0x5c) k_opad;
          ctx = the (blake2s_init ctx0 32 []);
          ctx = blake2s_update ctx k_ipad;
          ctx = blake2s_update ctx text;
          digest = blake2s_final ctx;
          ctx = the (blake2s_init ctx0 32 []);
          ctx = blake2s_update ctx k_opad;
          ctx = blake2s_update ctx digest
      in blake2s_final ctx)"

definition wireguard_kdf1 :: "bytes \<Rightarrow> bytes \<Rightarrow> bytes" where
  "wireguard_kdf1 ck data =
     (let tau0 = wireguard_hmac ck data;
          output = wireguard_hmac tau0 [1]
      in output)"

definition wireguard_kdf2 :: "bytes \<Rightarrow> bytes \<Rightarrow> bytes \<times> bytes" where
  "wireguard_kdf2 ck data =
     (let tau0 = wireguard_hmac ck data;
          output = wireguard_hmac tau0 [1];
          tau1 = output;
          output = wireguard_hmac tau0 (output @ [2]);
          tau2 = output
      in (tau1, tau2))"

definition wireguard_kdf3 :: "bytes \<Rightarrow> bytes \<Rightarrow> bytes \<times> bytes \<times> bytes" where
  "wireguard_kdf3 ck data =
     (let tau0 = wireguard_hmac ck data;
          output = wireguard_hmac tau0 [1];
          tau1 = output;
          output = wireguard_hmac tau0 (output @ [2]);
          tau2 = output;
          output = wireguard_hmac tau0 (output @ [3]);
          tau3 = output
      in (tau1, tau2, tau3))"

definition generate_cookie_secret :: "wireguard_device \<Rightarrow> world \<Rightarrow> wireguard_device \<times> world" where
  "generate_cookie_secret device w =
     (let (secret, w) = wireguard_random_bytes 32 w;
          (now, w) = wireguard_sys_now w
      in (device\<lparr>cookie_secret := secret, cookie_secret_millis := now\<rparr>, w))"

definition generate_peer_cookie ::
  "wireguard_device \<Rightarrow> bytes \<Rightarrow> world \<Rightarrow> bytes \<times> wireguard_device \<times> world" where
  "generate_peer_cookie device source_addr_port w =
     (let (expired, w) = wireguard_expired (cookie_secret_millis device) (2 * 60) w;
          (device, w) = (if expired then generate_cookie_secret device w else (device, w));
          ctx = the (blake2s_init ctx0 16 (cookie_secret device));
          ctx = (if length source_addr_port > 0 then blake2s_update ctx source_addr_port else ctx)
      in (blake2s_final ctx, device, w))"

definition wireguard_clamp_private_key :: "bytes \<Rightarrow> bytes" where
  "wireguard_clamp_private_key key =
     (let key = key[0 := key ! 0 AND 248]
      in key[31 := (key ! 31 AND 127) OR 64])"

definition wireguard_generate_private_key :: "world \<Rightarrow> bytes \<times> world" where
  "wireguard_generate_private_key w =
     (let (key, w) = wireguard_random_bytes 32 w in (wireguard_clamp_private_key key, w))"

text \<open>\<open>x25519\<close> is the function of \<open>crypto/x25519.c\<close>: the 32 output bytes for a scalar and a point.
  Its return value is 0 exactly when the output is not zero.\<close>

definition basepoint :: bytes where
  "basepoint = 9 # replicate 31 0"

definition wireguard_generate_public_key :: "(bytes \<Rightarrow> bytes \<Rightarrow> bytes) \<Rightarrow> bytes \<Rightarrow> bytes option" where
  "wireguard_generate_public_key x25519 private_key =
     (if private_key \<noteq> zero_key
      then let public_key = x25519 private_key basepoint
           in if public_key \<noteq> zero_key then Some public_key else None
      else None)"

section \<open>HMAC and HKDF\<close>

abbreviation H :: "bytes \<Rightarrow> bytes" where
  "H \<equiv> b2s_digest 32 []"

lemma params_32 [simp]: "b2s_params (32, [])" and params_16: "length k \<le> 32 \<Longrightarrow> b2s_params (16, k)"
  by (simp_all add: b2s_params_def)

lemmas hash1 = b2s.one [of "(32, [])", simplified]
lemmas hash2 = b2s.two [of "(32, [])", simplified]

text \<open>RFC 2104 with block size 64.\<close>

definition hmac_ref :: "bytes \<Rightarrow> bytes \<Rightarrow> bytes" where
  "hmac_ref key text =
     (let k = (if length key > 64 then H key else key); k = k @ replicate (64 - length k) 0
      in H (map (\<lambda>b. b XOR 0x5c) k @ H (map (\<lambda>b. b XOR 0x36) k @ text)))"

lemma wireguard_hmac_ref: "wireguard_hmac key text = hmac_ref key text"
  by (simp add: wireguard_hmac_def hmac_ref_def Let_def hash1 hash2)

text \<open>RFC 5869 with an empty info: \<open>T(0)\<close> is empty and \<open>T(i+1) = HMAC(PRK, T(i) || i+1)\<close>.\<close>

fun hkdf_T :: "bytes \<Rightarrow> nat \<Rightarrow> bytes" where
  "hkdf_T prk 0 = []"
| "hkdf_T prk (Suc i) = hmac_ref prk (hkdf_T prk i @ [of_nat (Suc i)])"

lemma length_hmac [simp, len_simps]: "length (wireguard_hmac key text) = 32"
  by (simp add: wireguard_hmac_ref hmac_ref_def Let_def)

lemma kdf_T:
  "hkdf_T prk 1 = wireguard_hmac prk [1]"
  "hkdf_T prk 2 = wireguard_hmac prk (wireguard_hmac prk [1] @ [2])"
  "hkdf_T prk 3 = wireguard_hmac prk (wireguard_hmac prk (wireguard_hmac prk [1] @ [2]) @ [3])"
  by (simp_all add: numeral_2_eq_2 numeral_3_eq_3 wireguard_hmac_ref)

lemma length_hashes [simp, len_simps]:
  "length construction_hash = 32" "length identifier_hash = 32" "length (wireguard_mix_hash h s) = 32"
  "length (wireguard_mac_key k l) = 32" "length (wireguard_kdf1 c d) = 32"
  by (simp_all add: construction_hash_def identifier_hash_def wireguard_mix_hash_def
      wireguard_mac_key_def wireguard_kdf1_def Let_def hash1 hash2)

lemma length_mac [simp, len_simps]: "length k \<le> 32 \<Longrightarrow> length (wireguard_mac m k) = 16"
  by (simp add: wireguard_mac_def blake2s_digest params_16)

lemma length_clamp [simp]: "length (wireguard_clamp_private_key k) = length k"
  by (simp add: wireguard_clamp_private_key_def Let_def)

text \<open>
  C34: the three KDF functions are the first blocks of HKDF (RFC 5869) with the chaining key as
  salt, over HMAC (RFC 2104) over BLAKE2s: reusing one buffer for the output and the input of the
  next HMAC does not change the derived keys.
\<close>

theorem wireguard_kdf_is_hkdf:
  "wireguard_kdf1 ck d = hkdf_T (hmac_ref ck d) 1 \<and>
   wireguard_kdf2 ck d = (hkdf_T (hmac_ref ck d) 1, hkdf_T (hmac_ref ck d) 2) \<and>
   wireguard_kdf3 ck d =
     (hkdf_T (hmac_ref ck d) 1, hkdf_T (hmac_ref ck d) 2, hkdf_T (hmac_ref ck d) 3)"
  by (simp only: wireguard_kdf1_def wireguard_kdf2_def wireguard_kdf3_def Let_def kdf_T
      wireguard_hmac_ref)

end
