(* ===== verification/Wg_Handshake.thy ===== *)
theory Wg_Handshake
  imports Wg_Session Wg_Kdf
begin

text \<open>
  The messages of \<open>common/wireguard.c\<close>: classification, the Noise IKpsk2 handshake in both roles,
  cookies, session start, device and peer initialisation and the packet seals. The functions take
  the Diffie-Hellman function \<open>dh\<close> (\<open>wireguard_x25519\<close>) as their first argument.
\<close>

section \<open>Message types\<close>

definition WIREGUARD_MSG_INVALID :: u8 where "WIREGUARD_MSG_INVALID = 0"
definition WIREGUARD_MSG_HANDSHAKE_INITIATION :: u8 where "WIREGUARD_MSG_HANDSHAKE_INITIATION = 1"
definition WIREGUARD_MSG_HANDSHAKE_RESPONSE :: u8 where "WIREGUARD_MSG_HANDSHAKE_RESPONSE = 2"
definition WIREGUARD_MSG_COOKIE_REPLY :: u8 where "WIREGUARD_MSG_COOKIE_REPLY = 3"
definition WIREGUARD_MSG_TRANSPORT_DATA :: u8 where "WIREGUARD_MSG_TRANSPORT_DATA = 4"

lemmas msg_types = WIREGUARD_MSG_INVALID_def WIREGUARD_MSG_HANDSHAKE_INITIATION_def
  WIREGUARD_MSG_HANDSHAKE_RESPONSE_def WIREGUARD_MSG_COOKIE_REPLY_def
  WIREGUARD_MSG_TRANSPORT_DATA_def

definition wireguard_get_message_type :: "bytes \<Rightarrow> u8" where
  "wireguard_get_message_type data =
     (let len = length data in
      if len < 4 then WIREGUARD_MSG_INVALID
      else if data ! 1 \<noteq> 0 \<or> data ! 2 \<noteq> 0 \<or> data ! 3 \<noteq> 0 then WIREGUARD_MSG_INVALID
      else if data ! 0 = WIREGUARD_MSG_HANDSHAKE_INITIATION
      then if len = 156 then WIREGUARD_MSG_HANDSHAKE_INITIATION else WIREGUARD_MSG_INVALID
      else if data ! 0 = WIREGUARD_MSG_HANDSHAKE_RESPONSE
      then if len = 92 then WIREGUARD_MSG_HANDSHAKE_RESPONSE else WIREGUARD_MSG_INVALID
      else if data ! 0 = WIREGUARD_MSG_COOKIE_REPLY
      then if len = 64 then WIREGUARD_MSG_COOKIE_REPLY else WIREGUARD_MSG_INVALID
      else if data ! 0 = WIREGUARD_MSG_TRANSPORT_DATA
      then if len \<ge> 16 + 16 then WIREGUARD_MSG_TRANSPORT_DATA else WIREGUARD_MSG_INVALID
      else WIREGUARD_MSG_INVALID)"

section \<open>MAC checks\<close>

definition wireguard_check_mac1 :: "wireguard_device \<Rightarrow> bytes \<Rightarrow> bytes \<Rightarrow> bool" where
  "wireguard_check_mac1 device data mac1 =
     (let calculated = wireguard_mac data (dev_label_mac1_key device)
      in crypto_equal calculated mac1 16)"

definition wireguard_check_mac2 ::
  "wireguard_device \<Rightarrow> bytes \<Rightarrow> bytes \<Rightarrow> bytes \<Rightarrow> world \<Rightarrow> bool \<times> wireguard_device \<times> world" where
  "wireguard_check_mac2 device data source_addr_port mac2 w =
     (let (ck, device, w) = generate_peer_cookie device source_addr_port w;
          calculated = wireguard_mac data ck
      in (crypto_equal calculated mac2 16, device, w))"

section \<open>Session start\<close>

definition wireguard_start_session ::
  "wireguard_peer \<Rightarrow> bool \<Rightarrow> world \<Rightarrow> wireguard_peer \<times> world" where
  "wireguard_start_session peer initiator w =
     (let hs = handshake peer;
          new_keypair = keypair_zero\<lparr>kp_initiator := initiator,
            kp_local_index := hs_local_index hs, kp_remote_index := hs_remote_index hs\<rparr>;
          (now, w) = wireguard_sys_now w;
          new_keypair = new_keypair\<lparr>keypair_millis := now, sending_valid := True,
            receiving_valid := True\<rparr>;
          new_keypair = (if kp_initiator new_keypair
            then let (a, b) = wireguard_kdf2 (chaining_key hs) []
                 in new_keypair\<lparr>sending_key := a, receiving_key := b\<rparr>
            else let (a, b) = wireguard_kdf2 (chaining_key hs) []
                 in new_keypair\<lparr>receiving_key := a, sending_key := b\<rparr>);
          new_keypair = new_keypair\<lparr>replay_bitmap := 0, replay_counter := 0, kp_last_tx := 0,
            kp_last_rx := 0, kp_valid := True\<rparr>;
          hs = hs\<lparr>ephemeral_private := replicate 32 0, remote_ephemeral := replicate 32 0,
            hs_hash := replicate 32 0, chaining_key := replicate 32 0,
            hs_remote_index := 0, hs_local_index := 0, hs_valid := False\<rparr>
      in (add_new_keypair (peer\<lparr>handshake := hs\<rparr>) new_keypair, w))"

section \<open>Receiving an initiation\<close>

text \<open>\<open>memcmp(a, b, n) < 0\<close> for buffers of equal length.\<close>

fun memcmp_lt :: "bytes \<Rightarrow> bytes \<Rightarrow> bool" where
  "memcmp_lt (a # as) (b # bs) = (a < b \<or> (a = b \<and> memcmp_lt as bs))"
| "memcmp_lt _ _ = False"

text \<open>The final checks and the update of the peer.\<close>

definition accept_initiation ::
  "wireguard_peer \<Rightarrow> msg_handshake_initiation \<Rightarrow> bytes \<Rightarrow> bytes \<Rightarrow> bytes \<Rightarrow> u32 \<Rightarrow> wireguard_peer option" where
  "accept_initiation peer msg t hash ck now =
     (let replay = (\<not> memcmp_lt (greatest_timestamp peer) t);
          rate_limit = (last_initiation_rx peer - now < 1000 div 2);
          otp_error = (if otp_enabled peer
            then \<not> (mi_otp msg = otp_receiver peer ! 0 \<or> mi_otp msg = otp_receiver peer ! 1 \<or>
                    mi_otp msg = otp_receiver peer ! 2)
            else False)
      in if \<not> replay \<and> \<not> rate_limit \<and> \<not> otp_error
         then let peer = peer\<lparr>last_initiation_rx := now\<rparr>;
                  peer = (if memcmp_lt (greatest_timestamp peer) t
                          then peer\<lparr>greatest_timestamp := t\<rparr> else peer)
              in Some (peer\<lparr>handshake := (handshake peer)
                   \<lparr>remote_ephemeral := mi_ephemeral msg, hs_hash := hash, chaining_key := ck,
                    hs_remote_index := mi_sender msg, hs_valid := True, hs_initiator := False\<rparr>\<rparr>)
         else None)"

definition wireguard_process_initiation_message ::
  "(bytes \<Rightarrow> bytes \<Rightarrow> bytes) \<Rightarrow> wireguard_device \<Rightarrow> msg_handshake_initiation \<Rightarrow> world \<Rightarrow>
     nat option \<times> wireguard_device \<times> world" where
  "wireguard_process_initiation_message dh device msg w =
     (let ck = construction_hash;
          hash = identifier_hash;
          hash = wireguard_mix_hash hash (dev_public_key device);
          ck = wireguard_kdf1 ck (mi_ephemeral msg);
          hash = wireguard_mix_hash hash (mi_ephemeral msg);
          dh_calculation = dh (dev_private_key device) (mi_ephemeral msg)
      in if crypto_equal dh_calculation zero_key 32 then (None, device, w)
         else let (ck, key) = wireguard_kdf2 ck dh_calculation in
         case chacha20poly1305_decrypt (mi_enc_static msg) hash 0 key of
           None \<Rightarrow> (None, device, w)
         | Some s \<Rightarrow>
             let hash = wireguard_mix_hash hash (mi_enc_static msg) in
             case wireguard_peer_lookup_by_pubkey device s of
               None \<Rightarrow> (None, device, w)
             | Some i \<Rightarrow>
                 let peer = dev_peers device ! i;
                     (ck, key) = wireguard_kdf2 ck (public_key_dh peer) in
                 case chacha20poly1305_decrypt (mi_enc_timestamp msg) hash 0 key of
                   None \<Rightarrow> (None, device, w)
                 | Some t \<Rightarrow>
                     let hash = wireguard_mix_hash hash (mi_enc_timestamp msg);
                         (now, w) = wireguard_sys_now w in
                     case accept_initiation peer msg t hash ck now of
                       None \<Rightarrow> (None, device, w)
                     | Some peer \<Rightarrow> (Some i, upd_peer i peer device, w))"

section \<open>Receiving a response\<close>

definition wireguard_process_handshake_response ::
  "(bytes \<Rightarrow> bytes \<Rightarrow> bytes) \<Rightarrow> wireguard_device \<Rightarrow> wireguard_peer \<Rightarrow> msg_handshake_response \<Rightarrow>
     bool \<times> wireguard_peer" where
  "wireguard_process_handshake_response dh device peer src =
     (let hs = handshake peer in
      if hs_valid hs \<and> hs_initiator hs then
        let hash = hs_hash hs;
            ck = wireguard_kdf1 (chaining_key hs) (mr_ephemeral src);
            hash = wireguard_mix_hash hash (mr_ephemeral src);
            dh_calculation = dh (ephemeral_private hs) (mr_ephemeral src)
        in if crypto_equal dh_calculation zero_key 32 then (False, peer) else
        let ck = wireguard_kdf1 ck dh_calculation;
            dh_calculation = dh (dev_private_key device) (mr_ephemeral src)
        in if crypto_equal dh_calculation zero_key 32 then (False, peer) else
        let ck = wireguard_kdf1 ck dh_calculation;
            (ck, tau, key) = wireguard_kdf3 ck (preshared_key peer);
            hash = wireguard_mix_hash hash tau
        in case chacha20poly1305_decrypt (mr_enc_empty src) hash 0 key of
             None \<Rightarrow> (False, peer)
           | Some _ \<Rightarrow>
               (True, peer\<lparr>handshake := hs\<lparr>remote_ephemeral := mr_ephemeral src, hs_hash := hash,
                  chaining_key := ck, hs_remote_index := mr_sender src\<rparr>\<rparr>)
      else (False, peer))"

section \<open>Cookies\<close>

definition wireguard_process_cookie_message ::
  "wireguard_peer \<Rightarrow> msg_cookie_reply \<Rightarrow> world \<Rightarrow> bool \<times> wireguard_peer \<times> world" where
  "wireguard_process_cookie_message peer src w =
     (if handshake_mac1_valid peer
      then case xchacha20poly1305_decrypt (mc_enc_cookie src) (handshake_mac1 peer) (mc_nonce src)
                  (peer_label_cookie_key peer) of
             None \<Rightarrow> (False, peer, w)
           | Some c \<Rightarrow>
               let (now, w) = wireguard_sys_now w
               in (True, peer\<lparr>cookie := c, cookie_millis := now, handshake_mac1_valid := False\<rparr>, w)
      else (False, peer, w))"

definition wireguard_create_cookie_reply ::
  "wireguard_device \<Rightarrow> bytes \<Rightarrow> u32 \<Rightarrow> bytes \<Rightarrow> world \<Rightarrow>
     msg_cookie_reply \<times> wireguard_device \<times> world" where
  "wireguard_create_cookie_reply device mac1 idx source_addr_port w =
     (let (nonce, w) = wireguard_random_bytes 24 w;
          (ck, device, w) = generate_peer_cookie device source_addr_port w
      in (\<lparr>mc_type = WIREGUARD_MSG_COOKIE_REPLY, mc_reserved = [0, 0, 0], mc_receiver = idx,
           mc_nonce = nonce,
           mc_enc_cookie = xchacha20poly1305_encrypt ck mac1 nonce (dev_label_cookie_key device)\<rparr>,
          device, w))"

section \<open>Sending an initiation and a response\<close>

text \<open>\<open>(peer->cookie_millis == 0) || wireguard_expired(...)\<close>, then the second MAC.\<close>

definition cookie_mac2 :: "wireguard_peer \<Rightarrow> bytes \<Rightarrow> world \<Rightarrow> bytes \<times> world" where
  "cookie_mac2 peer msgB w =
     (let (stale, w) = (if cookie_millis peer = 0 then (True, w)
                        else wireguard_expired (cookie_millis peer) (2 * 60) w)
      in (if stale then replicate 16 0 else wireguard_mac msgB (cookie peer), w))"

text \<open>The outer \<open>None\<close>: the index search does not end. The inner \<open>None\<close>: the function returns false;
  the fields it has written to the handshake stay.\<close>

definition wireguard_create_handshake_initiation ::
  "(bytes \<Rightarrow> bytes \<Rightarrow> bytes) \<Rightarrow> wireguard_device \<Rightarrow> nat \<Rightarrow> world \<Rightarrow>
     (msg_handshake_initiation option \<times> wireguard_device \<times> world) option" where
  "wireguard_create_handshake_initiation dh device i w =
     (let peer = dev_peers device ! i;
          hs = (handshake peer)\<lparr>chaining_key := construction_hash, hs_hash := identifier_hash\<rparr>;
          hs = hs\<lparr>hs_hash := wireguard_mix_hash (hs_hash hs) (peer_public_key peer)\<rparr>;
          (priv, w) = wireguard_generate_private_key w;
          hs = hs\<lparr>ephemeral_private := priv\<rparr>
      in case wireguard_generate_public_key dh priv of
           None \<Rightarrow> Some (None, upd_peer i (peer\<lparr>handshake := hs\<rparr>) device, w)
         | Some e \<Rightarrow>
             let hs = hs\<lparr>chaining_key := wireguard_kdf1 (chaining_key hs) e\<rparr>;
                 hs = hs\<lparr>hs_hash := wireguard_mix_hash (hs_hash hs) e\<rparr>;
                 dh_calculation = dh priv (peer_public_key peer)
             in if crypto_equal dh_calculation zero_key 32
                then Some (None, upd_peer i (peer\<lparr>handshake := hs\<rparr>) device, w)
                else
             let (ck, key) = wireguard_kdf2 (chaining_key hs) dh_calculation;
                 hs = hs\<lparr>chaining_key := ck\<rparr>;
                 enc_static = chacha20poly1305_encrypt (dev_public_key device) (hs_hash hs) 0 key;
                 hs = hs\<lparr>hs_hash := wireguard_mix_hash (hs_hash hs) enc_static\<rparr>;
                 (ck, key) = wireguard_kdf2 (chaining_key hs) (public_key_dh peer);
                 hs = hs\<lparr>chaining_key := ck\<rparr>;
                 (timestamp, w) = wireguard_tai64n_now w;
                 enc_timestamp = chacha20poly1305_encrypt timestamp (hs_hash hs) 0 key;
                 hs = hs\<lparr>hs_hash := wireguard_mix_hash (hs_hash hs) enc_timestamp\<rparr>
             in case wireguard_generate_unique_index (upd_peer i (peer\<lparr>handshake := hs\<rparr>) device) w of
                  None \<Rightarrow> None
                | Some (sender, w) \<Rightarrow>
             let dst = \<lparr>mi_type = WIREGUARD_MSG_HANDSHAKE_INITIATION, mi_reserved = [0, 0, 0],
                   mi_sender = sender, mi_otp = (if otp_enabled peer then otp_sender peer else 0),
                   mi_ephemeral = e, mi_enc_static = enc_static, mi_enc_timestamp = enc_timestamp,
                   mi_mac1 = replicate 16 0, mi_mac2 = replicate 16 0\<rparr>;
                 hs = hs\<lparr>hs_valid := True, hs_initiator := True, hs_local_index := sender\<rparr>;
                 dst = dst\<lparr>mi_mac1 := wireguard_mac (take (156 - 2 * 16) (initiation_bytes dst))
                              (peer_label_mac1_key peer)\<rparr>;
                 (mac2, w) = cookie_mac2 peer (take (156 - 16) (initiation_bytes dst)) w;
                 dst = dst\<lparr>mi_mac2 := mac2\<rparr>
             in Some (Some dst, upd_peer i (peer\<lparr>handshake := hs\<rparr>) device, w))"

definition wireguard_create_handshake_response ::
  "(bytes \<Rightarrow> bytes \<Rightarrow> bytes) \<Rightarrow> wireguard_device \<Rightarrow> nat \<Rightarrow> world \<Rightarrow>
     (msg_handshake_response option \<times> wireguard_device \<times> world) option" where
  "wireguard_create_handshake_response dh device i w =
     (let peer = dev_peers device ! i; hs = handshake peer in
      if hs_valid hs \<and> \<not> hs_initiator hs then
        let (priv, w) = wireguard_generate_private_key w;
            hs = hs\<lparr>ephemeral_private := priv\<rparr>
        in case wireguard_generate_public_key dh priv of
             None \<Rightarrow> Some (None, upd_peer i (peer\<lparr>handshake := hs\<rparr>) device, w)
           | Some e \<Rightarrow>
               let hs = hs\<lparr>chaining_key := wireguard_kdf1 (chaining_key hs) e\<rparr>;
                   hs = hs\<lparr>hs_hash := wireguard_mix_hash (hs_hash hs) e\<rparr>;
                   dh_calculation = dh priv (remote_ephemeral hs)
               in if crypto_equal dh_calculation zero_key 32
                  then Some (None, upd_peer i (peer\<lparr>handshake := hs\<rparr>) device, w)
                  else
               let hs = hs\<lparr>chaining_key := wireguard_kdf1 (chaining_key hs) dh_calculation\<rparr>;
                   dh_calculation = dh priv (peer_public_key peer)
               in if crypto_equal dh_calculation zero_key 32
                  then Some (None, upd_peer i (peer\<lparr>handshake := hs\<rparr>) device, w)
                  else
               let hs = hs\<lparr>chaining_key := wireguard_kdf1 (chaining_key hs) dh_calculation\<rparr>;
                   (ck, tau, key) = wireguard_kdf3 (chaining_key hs) (preshared_key peer);
                   hs = hs\<lparr>chaining_key := ck\<rparr>;
                   hs = hs\<lparr>hs_hash := wireguard_mix_hash (hs_hash hs) tau\<rparr>;
                   enc_empty = chacha20poly1305_encrypt [] (hs_hash hs) 0 key;
                   hs = hs\<lparr>hs_hash := wireguard_mix_hash (hs_hash hs) enc_empty\<rparr>
               in case wireguard_generate_unique_index (upd_peer i (peer\<lparr>handshake := hs\<rparr>) device) w of
                    None \<Rightarrow> None
                  | Some (sender, w) \<Rightarrow>
               let dst = \<lparr>mr_type = WIREGUARD_MSG_HANDSHAKE_RESPONSE, mr_reserved = [0, 0, 0],
                     mr_sender = sender, mr_receiver = hs_remote_index hs, mr_ephemeral = e,
                     mr_enc_empty = enc_empty, mr_mac1 = replicate 16 0, mr_mac2 = replicate 16 0\<rparr>;
                   hs = hs\<lparr>hs_local_index := sender\<rparr>;
                   dst = dst\<lparr>mr_mac1 := wireguard_mac (take (92 - 2 * 16) (response_bytes dst))
                                (peer_label_mac1_key peer)\<rparr>;
                   (mac2, w) = cookie_mac2 peer (take (92 - 16) (response_bytes dst)) w;
                   dst = dst\<lparr>mr_mac2 := mac2\<rparr>
               in Some (Some dst, upd_peer i (peer\<lparr>handshake := hs\<rparr>) device, w)
      else Some (None, device, w))"

section \<open>Initialisation\<close>

definition wireguard_peer_init ::
  "(bytes \<Rightarrow> bytes \<Rightarrow> bytes) \<Rightarrow> wireguard_device \<Rightarrow> bytes \<Rightarrow> bytes option \<Rightarrow> wireguard_peer" where
  "wireguard_peer_init dh device public_key psk =
     (let peer = peer_zero in
      if \<not> dev_valid device then peer else
      let peer = peer\<lparr>peer_public_key := public_key\<rparr>;
          peer = peer\<lparr>preshared_key := (case psk of Some k \<Rightarrow> k | None \<Rightarrow> replicate 32 0)\<rparr>;
          d = dh (dev_private_key device) (peer_public_key peer)
      in if d \<noteq> zero_key
         then peer\<lparr>public_key_dh := d, handshake := handshake_zero, cookie_millis := 0,
                cookie := replicate 16 0,
                peer_label_mac1_key := wireguard_mac_key (peer_public_key peer) LABEL_MAC1,
                peer_label_cookie_key := wireguard_mac_key (peer_public_key peer) LABEL_COOKIE,
                peer_valid := True\<rparr>
         else peer\<lparr>public_key_dh := replicate 32 0\<rparr>)"

definition wireguard_device_init ::
  "(bytes \<Rightarrow> bytes \<Rightarrow> bytes) \<Rightarrow> wireguard_device \<Rightarrow> bytes \<Rightarrow> world \<Rightarrow> wireguard_device \<times> world" where
  "wireguard_device_init dh device private_key w =
     (let device = device\<lparr>dev_private_key := wireguard_clamp_private_key private_key\<rparr>
      in case wireguard_generate_public_key dh private_key of
           Some pub \<Rightarrow>
             let device = device\<lparr>dev_public_key := pub, dev_valid := True\<rparr>;
                 (device, w) = generate_cookie_secret device w
             in (device\<lparr>dev_label_mac1_key := wireguard_mac_key (dev_public_key device) LABEL_MAC1,
                        dev_label_cookie_key := wireguard_mac_key (dev_public_key device) LABEL_COOKIE\<rparr>,
                 w)
         | None \<Rightarrow>
             (device\<lparr>dev_public_key := (if private_key \<noteq> zero_key then dh private_key basepoint
                                          else dev_public_key device),
                      dev_valid := False, dev_private_key := replicate 32 0\<rparr>, w))"

section \<open>Packet seals\<close>

definition wireguard_encrypt_packet :: "bytes \<Rightarrow> wireguard_keypair \<Rightarrow> bytes \<times> wireguard_keypair" where
  "wireguard_encrypt_packet src keypair =
     (chacha20poly1305_encrypt src [] (sending_counter keypair) (sending_key keypair),
      keypair\<lparr>sending_counter := sending_counter keypair + 1\<rparr>)"

definition wireguard_decrypt_packet :: "bytes \<Rightarrow> u64 \<Rightarrow> wireguard_keypair \<Rightarrow> bytes option" where
  "wireguard_decrypt_packet src counter keypair =
     chacha20poly1305_decrypt src [] counter (receiving_key keypair)"

end
