(* ===== verification/Wg_Agreement.thy ===== *)
theory Wg_Agreement
  imports Wg_Handshake
begin

text \<open>
  The handshake proved: what each message commits to (the transcripts), that the two roles compute
  the same transcript, that a complete run gives mirrored sessions, the order of timestamps, and
  the message classification.
\<close>

section \<open>Transcripts\<close>

text \<open>What the first message computes, as a function of the two Diffie-Hellman values: the sealed
  fields, the hash and the chaining key.\<close>

definition init_transcript ::
  "bytes \<Rightarrow> bytes \<Rightarrow> bytes \<Rightarrow> bytes \<Rightarrow> bytes \<Rightarrow> bytes \<Rightarrow> bytes \<times> bytes \<times> bytes \<times> bytes" where
  "init_transcript spubi spubr e d1 d2 ts =
     (let h1 = wireguard_mix_hash (wireguard_mix_hash identifier_hash spubr) e;
          ck1 = wireguard_kdf1 construction_hash e;
          es = chacha20poly1305_encrypt spubi h1 0 (snd (wireguard_kdf2 ck1 d1));
          h2 = wireguard_mix_hash h1 es;
          ck2 = fst (wireguard_kdf2 ck1 d1);
          et = chacha20poly1305_encrypt ts h2 0 (snd (wireguard_kdf2 ck2 d2))
      in (es, et, wireguard_mix_hash h2 et, fst (wireguard_kdf2 ck2 d2)))"

text \<open>The second message: the sealed empty string and the chaining key.\<close>

definition resp_transcript :: "bytes \<Rightarrow> bytes \<Rightarrow> bytes \<Rightarrow> bytes \<Rightarrow> bytes \<Rightarrow> bytes \<Rightarrow> bytes \<times> bytes \<times> bytes" where
  "resp_transcript h ck e d1 d2 psk =
     (let ck1 = wireguard_kdf1 (wireguard_kdf1 (wireguard_kdf1 ck e) d1) d2;
          k3 = wireguard_kdf3 ck1 psk;
          h1 = wireguard_mix_hash (wireguard_mix_hash h e) (fst (snd k3))
      in (chacha20poly1305_encrypt [] h1 0 (snd (snd k3)), h1, fst k3))"

lemma crypto_equal_zero_key: "length d = 32 \<Longrightarrow> crypto_equal d zero_key 32 \<longleftrightarrow> d = zero_key"
  by (simp add: crypto_equal_iff zero_key_def)

lemma process_initiation_transcript:
  assumes "dh (dev_private_key B) (mi_ephemeral m) = d1" and "length d1 = 32" "d1 \<noteq> zero_key"
    and "wireguard_peer_lookup_by_pubkey B spubi = Some j" and "public_key_dh (dev_peers B ! j) = d2"
    and "init_transcript spubi (dev_public_key B) (mi_ephemeral m) d1 d2 ts = (mi_enc_static m, mi_enc_timestamp m, h, ck)"
  shows "wireguard_process_initiation_message dh B m w =
    (case accept_initiation (dev_peers B ! j) m ts h ck (fst (wireguard_sys_now w)) of
       None \<Rightarrow> (None, B, snd (wireguard_sys_now w))
     | Some p \<Rightarrow> (Some j, upd_peer j p B, snd (wireguard_sys_now w)))"
proof -
  let ?h1 = "wireguard_mix_hash (wireguard_mix_hash identifier_hash (dev_public_key B)) (mi_ephemeral m)"
  let ?ck1 = "wireguard_kdf1 construction_hash (mi_ephemeral m)"
  let ?k = "wireguard_kdf2 ?ck1 d1"
  have t: "chacha20poly1305_decrypt (mi_enc_static m) ?h1 0 (snd ?k) = Some spubi"
    "chacha20poly1305_decrypt (mi_enc_timestamp m) (wireguard_mix_hash ?h1 (mi_enc_static m)) 0
      (snd (wireguard_kdf2 (fst ?k) d2)) = Some ts"
    "h = wireguard_mix_hash (wireguard_mix_hash ?h1 (mi_enc_static m)) (mi_enc_timestamp m)"
    "ck = fst (wireguard_kdf2 (fst ?k) d2)"
    using assms(6) by (auto simp: init_transcript_def Let_def ccp.dec_iff)
  show ?thesis
    using assms(1-5) t
    by (simp add: wireguard_process_initiation_message_def Let_def case_prod_beta crypto_equal_zero_key)
qed

text \<open>Random words and timestamps as functions of the position in the sequences.\<close>

definition random_at :: "world \<Rightarrow> nat \<Rightarrow> nat \<Rightarrow> bytes" where
  "random_at w pos n = map (\<lambda>i. of_nat (w_rand w (pos + i) mod 255)) [0..<n]"

definition ephemeral_of :: "world \<Rightarrow> bytes" where
  "ephemeral_of w = wireguard_clamp_private_key (random_at w (w_rand_pos w) 32)"

lemma generate_private_key_eq:
  "wireguard_generate_private_key w = (ephemeral_of w, w\<lparr>w_rand_pos := w_rand_pos w + 32\<rparr>)"
  by (simp add: wireguard_generate_private_key_def random_bytes_demo ephemeral_of_def random_at_def)

lemma clamp_not_zero: "length k = 32 \<Longrightarrow> wireguard_clamp_private_key k \<noteq> zero_key"
proof
  assume l: "length k = 32" and "wireguard_clamp_private_key k = zero_key"
  then have "wireguard_clamp_private_key k ! 31 = 0" by (simp add: zero_key_def)
  then have "(k ! 31 AND 127) OR 64 = 0" using l by (simp add: wireguard_clamp_private_key_def Let_def)
  then have "bit ((k ! 31 AND 127) OR 64) 6 = bit (0 :: u8) 6" by (simp only:)
  then show False by (simp add: bit_simps)
qed

lemma ephemeral_public:
  "dh (ephemeral_of w) basepoint \<noteq> zero_key \<Longrightarrow>
     wireguard_generate_public_key dh (ephemeral_of w) = Some (dh (ephemeral_of w) basepoint)"
  using clamp_not_zero [of "random_at w (w_rand_pos w) 32"]
  by (simp add: wireguard_generate_public_key_def ephemeral_of_def random_at_def)

text \<open>The next random word is usable as an index.\<close>

definition index_ok :: "wireguard_device \<Rightarrow> world \<Rightarrow> nat \<Rightarrow> bool" where
  "index_ok device w pos \<longleftrightarrow>
     (let r = U8TO32_LITTLE (random_at w pos 4)
      in r \<noteq> 0 \<and> r \<noteq> 0xFFFFFFFF \<and>
         (dev_peers device = [] \<or> \<not> peer_uses_index r (last (dev_peers device))))"

lemma peer_uses_index_upd:
  assumes "i < length (dev_peers device)" and "hs_local_index hs = hs_local_index (handshake (dev_peers device ! i))"
  shows "peer_uses_index r (last (dev_peers (upd_peer i ((dev_peers device ! i)\<lparr>handshake := hs\<rparr>) device))) =
    peer_uses_index r (last (dev_peers device))"
proof -
  have ne: "dev_peers device \<noteq> []" using assms(1) by auto
  show ?thesis using assms ne
    by (cases "i = length (dev_peers device) - 1") (auto simp: upd_peer_def last_conv_nth peer_uses_index_def)
qed

lemma unique_index_ok:
  assumes "index_ok device w (w_rand_pos w')" and "w_rand w' = w_rand w" and "i < length (dev_peers device)"
    and "hs_local_index hs = hs_local_index (handshake (dev_peers device ! i))"
  shows "wireguard_generate_unique_index (upd_peer i ((dev_peers device ! i)\<lparr>handshake := hs\<rparr>) device) w' =
    Some (U8TO32_LITTLE (random_at w (w_rand_pos w') 4), w'\<lparr>w_rand_pos := w_rand_pos w' + 4\<rparr>)"
proof (rule unique_index_first)
  show "wireguard_random_bytes 4 w' = (random_at w (w_rand_pos w') 4, w'\<lparr>w_rand_pos := w_rand_pos w' + 4\<rparr>)"
    by (simp add: random_bytes_demo random_at_def assms(2))
qed (use assms(1) peer_uses_index_upd [OF assms(3,4)] in \<open>auto simp: index_ok_def Let_def upd_peer_def\<close>)

definition tai64n_of :: "u32 \<Rightarrow> bytes" where
  "tai64n_of now = U64TO8_BIG (0x400000000000000a + (ucast now :: u64) div 1000) @
     U32TO8_BIG (ucast (((ucast now :: u64) mod 1000) * 1000))"

lemma tai64n_now_eq:
  "wireguard_tai64n_now w =
     (tai64n_of (w_clock w (w_clock_pos w)), w\<lparr>w_clock_pos := w_clock_pos w + 1\<rparr>)"
  by (simp add: wireguard_tai64n_now_def wireguard_sys_now_def tai64n_of_def Let_def)

lemma length_tai64n_of [simp]: "length (tai64n_of t) = 12"
  by (simp add: tai64n_of_def)

definition initiation_by ::
  "wireguard_device \<Rightarrow> wireguard_peer \<Rightarrow> bytes \<Rightarrow> bytes \<Rightarrow> bytes \<Rightarrow> msg_handshake_initiation \<Rightarrow>
     wireguard_handshake \<Rightarrow> bool" where
  "initiation_by device peer priv e ts m hs \<longleftrightarrow>
     mi_type m = WIREGUARD_MSG_HANDSHAKE_INITIATION \<and> mi_ephemeral m = e \<and> mi_sender m = hs_local_index hs \<and>
     mi_otp m = (if otp_enabled peer then otp_sender peer else 0) \<and>
     hs_valid hs \<and> hs_initiator hs \<and> ephemeral_private hs = priv"

lemma create_initiation_transcript:
  fixes device i w dh
  defines "p \<equiv> dev_peers device ! i" and "priv \<equiv> ephemeral_of w"
  defines "e \<equiv> dh priv basepoint" and "d1 \<equiv> dh priv (peer_public_key p)"
  assumes "i < length (dev_peers device)" and "e \<noteq> zero_key" and "length d1 = 32" "d1 \<noteq> zero_key"
    and "index_ok device w (w_rand_pos w + 32)"
  obtains m hs w' where
    "wireguard_create_handshake_initiation dh device i w =
       Some (Some m, upd_peer i (p\<lparr>handshake := hs\<rparr>) device, w')"
    and "initiation_by device p priv e (tai64n_of (w_clock w (w_clock_pos w))) m hs"
    and "init_transcript (dev_public_key device) (peer_public_key p) e d1 (public_key_dh p)
           (tai64n_of (w_clock w (w_clock_pos w))) =
         (mi_enc_static m, mi_enc_timestamp m, hs_hash hs, chaining_key hs)"
proof -
  have e: "wireguard_generate_public_key dh priv = Some e"
    using assms(6) ephemeral_public [of dh w] by (simp add: e_def priv_def)
  have z: "\<not> crypto_equal (dh priv (peer_public_key p)) zero_key 32"
    using assms(7,8) by (simp add: crypto_equal_zero_key d1_def)
  define ts where "ts = tai64n_of (w_clock w (w_clock_pos w))"
  define h1 where "h1 = wireguard_mix_hash (wireguard_mix_hash identifier_hash (peer_public_key p)) e"
  define k1 where "k1 = wireguard_kdf2 (wireguard_kdf1 construction_hash e) d1"
  define es where "es = chacha20poly1305_encrypt (dev_public_key device) h1 0 (snd k1)"
  define k2 where "k2 = wireguard_kdf2 (fst k1) (public_key_dh p)"
  define et where "et = chacha20poly1305_encrypt ts (wireguard_mix_hash h1 es) 0 (snd k2)"
  define h where "h = wireguard_mix_hash (wireguard_mix_hash h1 es) et"
  define ck where "ck = fst k2"
  note tdefs = h1_def k1_def es_def k2_def et_def h_def ck_def
  have t: "init_transcript (dev_public_key device) (peer_public_key p) e d1 (public_key_dh p) ts = (es, et, h, ck)"
    by (simp add: init_transcript_def Let_def tdefs)
  define r where "r = U8TO32_LITTLE (random_at w (w_rand_pos w + 32) 4)"
  define hs where "hs = (handshake p)\<lparr>ephemeral_private := priv, chaining_key := ck, hs_hash := h\<rparr>"
  define hs' where "hs' = hs\<lparr>hs_valid := True, hs_initiator := True, hs_local_index := r\<rparr>"
  define m where "m = \<lparr>mi_type = WIREGUARD_MSG_HANDSHAKE_INITIATION, mi_reserved = [0, 0, 0],
      mi_sender = r, mi_otp = (if otp_enabled p then otp_sender p else 0), mi_ephemeral = e,
      mi_enc_static = es, mi_enc_timestamp = et, mi_mac1 = replicate 16 0, mi_mac2 = replicate 16 0\<rparr>"
  define m' where "m' = m\<lparr>mi_mac1 := wireguard_mac (take (156 - 2 * 16) (initiation_bytes m)) (peer_label_mac1_key p)\<rparr>"
  define w1 where "w1 = w\<lparr>w_rand_pos := w_rand_pos w + 32, w_clock_pos := w_clock_pos w + 1\<rparr>"
  define w2 where "w2 = w\<lparr>w_rand_pos := w_rand_pos w + 32 + 4, w_clock_pos := w_clock_pos w + 1\<rparr>"
  obtain mac2 w' where c: "cookie_mac2 p (take (156 - 16) (initiation_bytes m')) w2 = (mac2, w')"
    by (metis surj_pair)
  have u: "wireguard_generate_unique_index (upd_peer i (p\<lparr>handshake := hs\<rparr>) device) w1 = Some (r, w2)"
    using unique_index_ok [of device w w1 i hs] assms(5,9) by (simp add: w1_def w2_def r_def hs_def p_def)
  have "wireguard_create_handshake_initiation dh device i w =
      Some (Some (m'\<lparr>mi_mac2 := mac2\<rparr>), upd_peer i (p\<lparr>handshake := hs'\<rparr>) device, w')"
    using u c
    by (simp add: wireguard_create_handshake_initiation_def Let_def generate_private_key_eq e z tai64n_now_eq case_prod_beta
       tdefs hs_def hs'_def m_def m'_def w1_def ts_def d1_def flip: p_def priv_def split del: if_split)
  moreover have "initiation_by device p priv e ts (m'\<lparr>mi_mac2 := mac2\<rparr>) hs'"
    by (simp add: initiation_by_def m'_def m_def hs'_def hs_def)
  moreover have "(es, et, h, ck) = (mi_enc_static (m'\<lparr>mi_mac2 := mac2\<rparr>), mi_enc_timestamp (m'\<lparr>mi_mac2 := mac2\<rparr>), hs_hash hs', chaining_key hs')"
    by (simp add: m'_def m_def hs'_def hs_def)
  ultimately show thesis using that t unfolding ts_def by metis
qed

lemma create_response_transcript:
  fixes device j w dh
  defines "p \<equiv> dev_peers device ! j" and "priv \<equiv> ephemeral_of w"
  defines "hs0 \<equiv> handshake p" and "e \<equiv> dh priv basepoint"
  defines "d1 \<equiv> dh priv (remote_ephemeral hs0)" and "d2 \<equiv> dh priv (peer_public_key p)"
  assumes "j < length (dev_peers device)" and "e \<noteq> zero_key" and "length d1 = 32" "d1 \<noteq> zero_key"
    and "length d2 = 32" "d2 \<noteq> zero_key" and "index_ok device w (w_rand_pos w + 32)"
    and "hs_valid hs0" and "\<not> hs_initiator hs0"
  obtains r h2 hs w' where
    "wireguard_create_handshake_response dh device j w =
       Some (Some r, upd_peer j (p\<lparr>handshake := hs\<rparr>) device, w')"
    and "mr_ephemeral r = e" and "mr_sender r = hs_local_index hs" and "mr_receiver r = hs_remote_index hs0"
    and "hs_remote_index hs = hs_remote_index hs0"
    and "resp_transcript (hs_hash hs0) (chaining_key hs0) e d1 d2 (preshared_key p) =
         (mr_enc_empty r, h2, chaining_key hs)"
proof -
  have e: "wireguard_generate_public_key dh priv = Some e"
    using assms(8) ephemeral_public [of dh w] by (simp add: e_def priv_def)
  have z: "\<not> crypto_equal (dh priv (remote_ephemeral hs0)) zero_key 32"
    "\<not> crypto_equal (dh priv (peer_public_key p)) zero_key 32"
    using assms(9-12) by (simp_all add: crypto_equal_zero_key d1_def d2_def)
  define k3 where "k3 = wireguard_kdf3 (wireguard_kdf1 (wireguard_kdf1 (wireguard_kdf1 (chaining_key hs0) e) d1) d2)
    (preshared_key p)"
  define h1 where "h1 = wireguard_mix_hash (wireguard_mix_hash (hs_hash hs0) e) (fst (snd k3))"
  define ee where "ee = chacha20poly1305_encrypt [] h1 0 (snd (snd k3))"
  define r where "r = U8TO32_LITTLE (random_at w (w_rand_pos w + 32) 4)"
  define hs where "hs = hs0\<lparr>ephemeral_private := priv, chaining_key := fst k3, hs_hash := wireguard_mix_hash h1 ee\<rparr>"
  define m where "m = \<lparr>mr_type = WIREGUARD_MSG_HANDSHAKE_RESPONSE, mr_reserved = [0, 0, 0],
      mr_sender = r, mr_receiver = hs_remote_index hs0, mr_ephemeral = e,
      mr_enc_empty = ee, mr_mac1 = replicate 16 0, mr_mac2 = replicate 16 0\<rparr>"
  define m' where "m' = m\<lparr>mr_mac1 := wireguard_mac (take (92 - 2 * 16) (response_bytes m)) (peer_label_mac1_key p)\<rparr>"
  define w1 where "w1 = w\<lparr>w_rand_pos := w_rand_pos w + 32\<rparr>"
  define w2 where "w2 = w\<lparr>w_rand_pos := w_rand_pos w + 32 + 4\<rparr>"
  obtain mac2 w' where c: "cookie_mac2 p (take (92 - 16) (response_bytes m')) w2 = (mac2, w')"
    by (metis surj_pair)
  have u: "wireguard_generate_unique_index (upd_peer j (p\<lparr>handshake := hs\<rparr>) device) w1 = Some (r, w2)"
    using unique_index_ok [of device w w1 j hs] assms(7,13) by (simp add: w1_def w2_def r_def hs_def p_def hs0_def)
  have "wireguard_create_handshake_response dh device j w =
      Some (Some (m'\<lparr>mr_mac2 := mac2\<rparr>), upd_peer j (p\<lparr>handshake := hs\<lparr>hs_local_index := r\<rparr>\<rparr>) device, w')"
    using u c assms(14,15) z
    by (simp add: wireguard_create_handshake_response_def Let_def generate_private_key_eq e case_prod_beta
       k3_def h1_def ee_def hs_def m_def m'_def w1_def d1_def d2_def flip: p_def priv_def hs0_def)
  then show thesis
    by (rule that [where ?h2.0 = h1]) (simp_all add: m'_def m_def hs_def resp_transcript_def Let_def ee_def h1_def k3_def)
qed

lemma process_response_transcript:
  assumes "hs_valid (handshake p)" "hs_initiator (handshake p)"
    and "dh (ephemeral_private (handshake p)) (mr_ephemeral r) = d1" "length d1 = 32" "d1 \<noteq> zero_key"
    and "dh (dev_private_key device) (mr_ephemeral r) = d2" "length d2 = 32" "d2 \<noteq> zero_key"
    and "resp_transcript (hs_hash (handshake p)) (chaining_key (handshake p)) (mr_ephemeral r) d1 d2 (preshared_key p) =
      (mr_enc_empty r, h, ck)"
  shows "wireguard_process_handshake_response dh device p r =
    (True, p\<lparr>handshake := (handshake p)\<lparr>remote_ephemeral := mr_ephemeral r, hs_hash := h,
       chaining_key := ck, hs_remote_index := mr_sender r\<rparr>\<rparr>)"
proof -
  let ?ck = "wireguard_kdf1 (wireguard_kdf1 (wireguard_kdf1 (chaining_key (handshake p)) (mr_ephemeral r)) d1) d2"
  let ?k = "wireguard_kdf3 ?ck (preshared_key p)"
  have t: "h = wireguard_mix_hash (wireguard_mix_hash (hs_hash (handshake p)) (mr_ephemeral r)) (fst (snd ?k))"
    "ck = fst ?k" "chacha20poly1305_decrypt (mr_enc_empty r) h 0 (snd (snd ?k)) = Some []"
    using assms(9) by (auto simp: resp_transcript_def Let_def ccp.dec_iff)
  show ?thesis using assms(1-8) t
    by (simp add: wireguard_process_handshake_response_def Let_def case_prod_beta crypto_equal_zero_key)
qed

section \<open>Agreement\<close>

text \<open>Device \<open>A\<close> has \<open>B\<close> as its peer \<open>i\<close> and \<open>B\<close> has \<open>A\<close> as its peer \<open>j\<close>, as configured by the same
  service.\<close>

definition paired ::
  "(bytes \<Rightarrow> bytes \<Rightarrow> bytes) \<Rightarrow> wireguard_device \<Rightarrow> nat \<Rightarrow> wireguard_device \<Rightarrow> nat \<Rightarrow> bool" where
  "paired dh A i B j \<longleftrightarrow>
     dev_public_key A = dh (dev_private_key A) basepoint \<and>
     dev_public_key B = dh (dev_private_key B) basepoint \<and>
     i < length (dev_peers A) \<and> peer_public_key (dev_peers A ! i) = dev_public_key B \<and>
     public_key_dh (dev_peers A ! i) = dh (dev_private_key A) (dev_public_key B) \<and>
     wireguard_peer_lookup_by_pubkey B (dev_public_key A) = Some j \<and>
     public_key_dh (dev_peers B ! j) = dh (dev_private_key B) (dev_public_key A) \<and>
     preshared_key (dev_peers A ! i) = preshared_key (dev_peers B ! j)"

text \<open>The checks of the responder: the timestamp is new, the rate test passes, the one-time password
  is one of those it expects.\<close>

definition initiation_admissible :: "wireguard_peer \<Rightarrow> wireguard_peer \<Rightarrow> bytes \<Rightarrow> u32 \<Rightarrow> bool" where
  "initiation_admissible pA pB ts now \<longleftrightarrow>
     memcmp_lt (greatest_timestamp pB) ts \<and> \<not> last_initiation_rx pB - now < 500 \<and>
     (otp_enabled pB \<longrightarrow> (if otp_enabled pA then otp_sender pA else 0) \<in> set (take 3 (otp_receiver pB)))"

text \<open>A complete handshake: initiation, response and session start on both sides.\<close>

definition handshake_run ::
  "(bytes \<Rightarrow> bytes \<Rightarrow> bytes) \<Rightarrow> wireguard_device \<Rightarrow> nat \<Rightarrow> world \<Rightarrow> wireguard_device \<Rightarrow> world \<Rightarrow>
     (wireguard_peer \<times> wireguard_peer) option" where
  "handshake_run dh A i wA B wB =
     (case wireguard_create_handshake_initiation dh A i wA of
        Some (Some m, A, wA) \<Rightarrow>
          (case wireguard_process_initiation_message dh B m wB of
             (Some j, B, wB) \<Rightarrow>
               (case wireguard_create_handshake_response dh B j wB of
                  Some (Some r, B, wB) \<Rightarrow>
                    let (pB, wB) = wireguard_start_session (dev_peers B ! j) False wB in
                    (case wireguard_process_handshake_response dh A (dev_peers A ! i) r of
                       (True, pA) \<Rightarrow> Some (fst (wireguard_start_session pA True wA), pB)
                     | _ \<Rightarrow> None)
                | _ \<Rightarrow> None)
           | _ \<Rightarrow> None)
      | _ \<Rightarrow> None)"

definition mirrored :: "wireguard_keypair \<Rightarrow> wireguard_keypair \<Rightarrow> bool" where
  "mirrored a b \<longleftrightarrow> kp_valid a \<and> kp_valid b \<and>
     sending_key a = receiving_key b \<and> receiving_key a = sending_key b \<and>
     kp_local_index a = kp_remote_index b \<and> kp_remote_index a = kp_local_index b \<and>
     sending_counter a = 0 \<and> sending_counter b = 0 \<and> replay_counter a = 0 \<and> replay_counter b = 0"

lemma accept_initiation_admissible:
  assumes "initiation_admissible pA pB ts now" and "length (otp_receiver pB) = 3"
    and "mi_otp m = (if otp_enabled pA then otp_sender pA else 0)"
  shows "accept_initiation pB m ts h ck now = Some (pB\<lparr>last_initiation_rx := now, greatest_timestamp := ts,
    handshake := (handshake pB)\<lparr>remote_ephemeral := mi_ephemeral m, hs_hash := h, chaining_key := ck,
      hs_remote_index := mi_sender m, hs_valid := True, hs_initiator := False\<rparr>\<rparr>)"
proof -
  obtain a b c where o: "otp_receiver pB = [a, b, c]" using assms(2) by (auto simp: length_Suc_conv numeral_3_eq_3)
  show ?thesis using assms(1,3) by (auto simp: accept_initiation_def initiation_admissible_def Let_def o)
qed

lemma start_session_keys:
  assumes "chaining_key (handshake pA) = chaining_key (handshake pB)"
    and "hs_local_index (handshake pA) = hs_remote_index (handshake pB)"
    and "hs_remote_index (handshake pA) = hs_local_index (handshake pB)"
  shows "mirrored (curr_keypair (fst (wireguard_start_session pA True wA)))
    (next_keypair (fst (wireguard_start_session pB False wB)))"
  using assms by (simp add: mirrored_def wireguard_start_session_def Let_def case_prod_beta slot_defs keypair_zero_def)

lemma index_ok_upd:
  assumes "index_ok B w pos" and "j < length (dev_peers B)" and "w_rand w' = w_rand w"
    and "\<And>r. peer_uses_index r p = peer_uses_index r (dev_peers B ! j)"
  shows "index_ok (upd_peer j p B) w' pos"
proof -
  have "peer_uses_index r (last ((dev_peers B)[j := p])) = peer_uses_index r (last (dev_peers B))" for r
  proof -
    have "dev_peers B \<noteq> []" using assms(2) by auto
    then show ?thesis
      using assms(2,4) by (cases "j = length (dev_peers B) - 1") (auto simp: last_conv_nth nth_list_update)
  qed
  then show ?thesis using assms(1,3) by (auto simp: index_ok_def Let_def upd_peer_def random_at_def)
qed

definition handshake_nonzero :: "(bytes \<Rightarrow> bytes \<Rightarrow> bytes) \<Rightarrow> wireguard_device \<Rightarrow> world \<Rightarrow> wireguard_device \<Rightarrow> world \<Rightarrow> bool" where
  "handshake_nonzero dh A wA B wB \<longleftrightarrow>
     (let ea = ephemeral_of wA; eb = ephemeral_of wB in
      zero_key \<notin> {dh ea basepoint, dh eb basepoint, dh ea (dev_public_key B),
        dh eb (dh ea basepoint), dh eb (dev_public_key A)})"

lemma initiation_stage:
  assumes comm: "\<forall>a b. dh a (dh b basepoint) = dh b (dh a basepoint)" and len: "\<forall>a q. length (dh a q) = 32"
    and pr: "paired dh A i B j" and iA: "index_ok A wA (w_rand_pos wA + 32)"
    and nz: "dh (ephemeral_of wA) basepoint \<noteq> zero_key" "dh (ephemeral_of wA) (dev_public_key B) \<noteq> zero_key"
    and otp: "length (otp_receiver (dev_peers B ! j)) = 3"
    and adm: "initiation_admissible (dev_peers A ! i) (dev_peers B ! j)
      (tai64n_of (w_clock wA (w_clock_pos wA))) (w_clock wB (w_clock_pos wB))"
  obtains m hs hsB qB wA' where
    "wireguard_create_handshake_initiation dh A i wA =
       Some (Some m, upd_peer i ((dev_peers A ! i)\<lparr>handshake := hs\<rparr>) A, wA')"
    and "wireguard_process_initiation_message dh B m wB =
       (Some j, upd_peer j (qB\<lparr>handshake := hsB\<rparr>) B, wB\<lparr>w_clock_pos := w_clock_pos wB + 1\<rparr>)"
    and "hs_valid hs" "hs_initiator hs" "ephemeral_private hs = ephemeral_of wA"
    and "hs_valid hsB" "\<not> hs_initiator hsB" "remote_ephemeral hsB = dh (ephemeral_of wA) basepoint"
    and "hs_hash hsB = hs_hash hs" "chaining_key hsB = chaining_key hs" "hs_remote_index hsB = hs_local_index hs"
    and "hs_local_index hsB = hs_local_index (handshake (dev_peers B ! j))"
    and "\<exists>t n. qB = (dev_peers B ! j)\<lparr>last_initiation_rx := t, greatest_timestamp := n\<rparr>"
proof -
  define ea where "ea = ephemeral_of wA"
  define ts where "ts = tai64n_of (w_clock wA (w_clock_pos wA))"
  define p where "p = dev_peers A ! i"
  define q where "q = dev_peers B ! j"
  have P: "dev_public_key A = dh (dev_private_key A) basepoint" "dev_public_key B = dh (dev_private_key B) basepoint"
    "i < length (dev_peers A)" "peer_public_key p = dev_public_key B"
    "public_key_dh p = dh (dev_private_key A) (dev_public_key B)"
    "wireguard_peer_lookup_by_pubkey B (dev_public_key A) = Some j"
    "public_key_dh q = dh (dev_private_key B) (dev_public_key A)"
    using pr unfolding paired_def p_def q_def by blast+
  obtain m hs wA' where m: "wireguard_create_handshake_initiation dh A i wA =
       Some (Some m, upd_peer i (p\<lparr>handshake := hs\<rparr>) A, wA')"
    "initiation_by A p ea (dh ea basepoint) ts m hs"
    "init_transcript (dev_public_key A) (peer_public_key p) (dh ea basepoint) (dh ea (peer_public_key p)) (public_key_dh p) ts =
         (mi_enc_static m, mi_enc_timestamp m, hs_hash hs, chaining_key hs)"
    using create_initiation_transcript [where dh = dh and device = A and i = i and w = wA] P(3,4) nz len iA
    unfolding p_def ea_def ts_def by metis
  have me: "mi_ephemeral m = dh ea basepoint" "mi_otp m = (if otp_enabled p then otp_sender p else 0)"
    "mi_sender m = hs_local_index hs" "hs_valid hs" "hs_initiator hs" "ephemeral_private hs = ea"
    using m(2) by (simp_all add: initiation_by_def)
  define now where "now = w_clock wB (w_clock_pos wB)"
  define hsB where "hsB = (handshake q)\<lparr>remote_ephemeral := mi_ephemeral m, hs_hash := hs_hash hs,
      chaining_key := chaining_key hs, hs_remote_index := mi_sender m, hs_valid := True, hs_initiator := False\<rparr>"
  define qB where "qB = q\<lparr>last_initiation_rx := now, greatest_timestamp := ts\<rparr>"
  have tB: "init_transcript (dev_public_key A) (dev_public_key B) (mi_ephemeral m) (dh ea (dev_public_key B)) (public_key_dh q) ts
      = (mi_enc_static m, mi_enc_timestamp m, hs_hash hs, chaining_key hs)"
    using m(3) me(1) P(4,5,7) comm P(1,2) by metis
  have "accept_initiation q m ts (hs_hash hs) (chaining_key hs) now = Some (qB\<lparr>handshake := hsB\<rparr>)"
    using accept_initiation_admissible [of p q ts now m] adm otp me(2)
    by (simp add: qB_def hsB_def p_def q_def ts_def now_def)
  moreover have "dh (dev_private_key B) (mi_ephemeral m) = dh ea (dev_public_key B)"
    unfolding me(1) P(2) using comm by blast
  ultimately have "wireguard_process_initiation_message dh B m wB =
      (Some j, upd_peer j (qB\<lparr>handshake := hsB\<rparr>) B, wB\<lparr>w_clock_pos := w_clock_pos wB + 1\<rparr>)"
    using process_initiation_transcript [OF _ _ _ P(6) _ tB, of dh wB] nz(2) len
    by (simp add: q_def wireguard_sys_now_def now_def ea_def)
  moreover have "\<exists>t n. qB = (dev_peers B ! j)\<lparr>last_initiation_rx := t, greatest_timestamp := n\<rparr>"
    unfolding qB_def q_def by blast
  ultimately show thesis using m(1) me
    by (intro that [of m hs wA' hsB qB]) (simp_all add: hsB_def p_def ea_def q_def)
qed

lemma response_stage:
  assumes comm: "\<forall>a b. dh a (dh b basepoint) = dh b (dh a basepoint)" and len: "\<forall>a q. length (dh a q) = 32"
    and A: "dev_public_key A = dh (dev_private_key A) basepoint"
    and hp: "hs_valid (handshake p)" "hs_initiator (handshake p)"
    and j: "j < length (dev_peers B)" "dev_peers B ! j = q" "peer_public_key q = dev_public_key A"
    and hq: "hs_valid (handshake q)" "\<not> hs_initiator (handshake q)"
      "remote_ephemeral (handshake q) = dh (ephemeral_private (handshake p)) basepoint"
      "hs_hash (handshake q) = hs_hash (handshake p)" "chaining_key (handshake q) = chaining_key (handshake p)"
    and psk: "preshared_key p = preshared_key q" and iB: "index_ok B wB (w_rand_pos wB + 32)"
    and nz: "dh (ephemeral_of wB) basepoint \<noteq> zero_key"
      "dh (ephemeral_of wB) (dh (ephemeral_private (handshake p)) basepoint) \<noteq> zero_key"
      "dh (ephemeral_of wB) (dev_public_key A) \<noteq> zero_key"
  obtains r hs hs' wB' where
    "wireguard_create_handshake_response dh B j wB = Some (Some r, upd_peer j (q\<lparr>handshake := hs\<rparr>) B, wB')"
    and "wireguard_process_handshake_response dh A p r = (True, p\<lparr>handshake := hs'\<rparr>)"
    and "chaining_key hs' = chaining_key hs" "hs_remote_index hs' = hs_local_index hs"
    and "hs_local_index hs' = hs_local_index (handshake p)" "hs_remote_index hs = hs_remote_index (handshake q)"
    and "mr_receiver r = hs_remote_index (handshake q)"
proof -
  define ea where "ea = ephemeral_private (handshake p)"
  define eb where "eb = ephemeral_of wB"
  obtain r h hs wB' where r: "wireguard_create_handshake_response dh B j wB = Some (Some r, upd_peer j (q\<lparr>handshake := hs\<rparr>) B, wB')"
    "mr_ephemeral r = dh eb basepoint" "mr_sender r = hs_local_index hs" "mr_receiver r = hs_remote_index (handshake q)"
    "hs_remote_index hs = hs_remote_index (handshake q)"
    "resp_transcript (hs_hash (handshake q)) (chaining_key (handshake q)) (dh eb basepoint) (dh eb (remote_ephemeral (handshake q)))
        (dh eb (peer_public_key q)) (preshared_key q) = (mr_enc_empty r, h, chaining_key hs)"
    using create_response_transcript [where dh = dh and device = B and j = j and w = wB] nz len iB j hq(1-3)
    unfolding eb_def by metis
  have d: "dh eb (remote_ephemeral (handshake q)) = dh ea (mr_ephemeral r)" "dh eb (peer_public_key q) = dh (dev_private_key A) (mr_ephemeral r)"
    unfolding r(2) hq(3) j(3) A ea_def using comm by blast+
  have "resp_transcript (hs_hash (handshake p)) (chaining_key (handshake p)) (mr_ephemeral r) (dh ea (mr_ephemeral r))
        (dh (dev_private_key A) (mr_ephemeral r)) (preshared_key p) = (mr_enc_empty r, h, chaining_key hs)"
    using r(6) unfolding d r(2) hq(4,5) psk .
  moreover have "dh ea (mr_ephemeral r) \<noteq> zero_key" "dh (dev_private_key A) (mr_ephemeral r) \<noteq> zero_key"
    using nz(2,3) unfolding d [symmetric] hq(3) j(3) eb_def by simp_all
  ultimately have "wireguard_process_handshake_response dh A p r =
      (True, p\<lparr>handshake := (handshake p)\<lparr>remote_ephemeral := mr_ephemeral r, hs_hash := h,
         chaining_key := chaining_key hs, hs_remote_index := mr_sender r\<rparr>\<rparr>)"
    using process_response_transcript [OF hp, of dh r _ A] len by (simp add: ea_def)
  then show thesis by (rule that [OF r(1)]) (simp_all add: r(3,4,5))
qed

lemma handshake_run_agrees:
  assumes comm: "\<forall>a b. dh a (dh b basepoint) = dh b (dh a basepoint)" and len: "\<forall>a q. length (dh a q) = 32"
    and pr: "paired dh A i B j" and nz: "handshake_nonzero dh A wA B wB"
    and iA: "index_ok A wA (w_rand_pos wA + 32)" and iB: "index_ok B wB (w_rand_pos wB + 32)"
    and otp: "length (otp_receiver (dev_peers B ! j)) = 3"
    and adm: "initiation_admissible (dev_peers A ! i) (dev_peers B ! j)
      (tai64n_of (w_clock wA (w_clock_pos wA))) (w_clock wB (w_clock_pos wB))"
  shows "\<exists>pA pB. handshake_run dh A i wA B wB = Some (pA, pB) \<and> mirrored (curr_keypair pA) (next_keypair pB)"
proof -
  let ?wB = "wB\<lparr>w_clock_pos := w_clock_pos wB + 1\<rparr>"
  have P: "dev_public_key A = dh (dev_private_key A) basepoint" "i < length (dev_peers A)"
    "wireguard_peer_lookup_by_pubkey B (dev_public_key A) = Some j"
    "preshared_key (dev_peers A ! i) = preshared_key (dev_peers B ! j)"
    using pr unfolding paired_def by blast+
  have Q: "j < length (dev_peers B)" "peer_public_key (dev_peers B ! j) = dev_public_key A"
    using find_index_SomeD [OF P(3) [unfolded wireguard_peer_lookup_by_pubkey_def]] by simp_all
  have N: "dh (ephemeral_of wA) basepoint \<noteq> zero_key" "dh (ephemeral_of wA) (dev_public_key B) \<noteq> zero_key"
    "dh (ephemeral_of ?wB) basepoint \<noteq> zero_key" "dh (ephemeral_of ?wB) (dh (ephemeral_of wA) basepoint) \<noteq> zero_key"
    "dh (ephemeral_of ?wB) (dev_public_key A) \<noteq> zero_key"
    using nz by (auto simp: handshake_nonzero_def Let_def ephemeral_of_def random_at_def)
  obtain m hs hsB qB wA' where
    1: "wireguard_create_handshake_initiation dh A i wA =
       Some (Some m, upd_peer i ((dev_peers A ! i)\<lparr>handshake := hs\<rparr>) A, wA')"
    and 2: "wireguard_process_initiation_message dh B m wB = (Some j, upd_peer j (qB\<lparr>handshake := hsB\<rparr>) B, ?wB)"
    and h: "hs_valid hs" "hs_initiator hs" "ephemeral_private hs = ephemeral_of wA"
    and hB: "hs_valid hsB" "\<not> hs_initiator hsB" "remote_ephemeral hsB = dh (ephemeral_of wA) basepoint"
      "hs_hash hsB = hs_hash hs" "chaining_key hsB = chaining_key hs" "hs_remote_index hsB = hs_local_index hs"
      "hs_local_index hsB = hs_local_index (handshake (dev_peers B ! j))"
    and qB: "\<exists>t n. qB = (dev_peers B ! j)\<lparr>last_initiation_rx := t, greatest_timestamp := n\<rparr>"
    by (rule initiation_stage [OF comm len pr iA N(1,2) otp adm])
  let ?pA = "(dev_peers A ! i)\<lparr>handshake := hs\<rparr>" and ?B = "upd_peer j (qB\<lparr>handshake := hsB\<rparr>) B"
  let ?A = "upd_peer i ?pA A" and ?q = "qB\<lparr>handshake := hsB\<rparr>"
  have b: "index_ok ?B ?wB (w_rand_pos ?wB + 32)"
    using index_ok_upd [OF iB Q(1), of ?wB ?q] qB hB(7) by (auto simp: peer_uses_index_def)
  have a: "dev_public_key ?A = dh (dev_private_key ?A) basepoint" "hs_valid (handshake ?pA)" "hs_initiator (handshake ?pA)"
    "j < length (dev_peers ?B)" "dev_peers ?B ! j = ?q" "peer_public_key ?q = dev_public_key ?A"
    using P(1) h Q qB by (auto simp: upd_peer_def)
  have c: "hs_valid (handshake ?q)" "\<not> hs_initiator (handshake ?q)"
    "remote_ephemeral (handshake ?q) = dh (ephemeral_private (handshake ?pA)) basepoint"
    "hs_hash (handshake ?q) = hs_hash (handshake ?pA)" "chaining_key (handshake ?q) = chaining_key (handshake ?pA)"
    "preshared_key ?pA = preshared_key ?q"
    using h(3) hB P(4) qB by auto
  have n: "dh (ephemeral_of ?wB) (dh (ephemeral_private (handshake ?pA)) basepoint) \<noteq> zero_key"
    "dh (ephemeral_of ?wB) (dev_public_key ?A) \<noteq> zero_key"
    using N(4,5) h(3) by (simp_all add: upd_peer_def)
  obtain r hs2 hs3 wB' where
    3: "wireguard_create_handshake_response dh ?B j ?wB = Some (Some r, upd_peer j (?q\<lparr>handshake := hs2\<rparr>) ?B, wB')"
    and 4: "wireguard_process_handshake_response dh ?A ?pA r = (True, ?pA\<lparr>handshake := hs3\<rparr>)"
    and 5: "chaining_key hs3 = chaining_key hs2" "hs_remote_index hs3 = hs_local_index hs2"
      "hs_local_index hs3 = hs_local_index (handshake ?pA)" "hs_remote_index hs2 = hs_remote_index (handshake ?q)"
      "mr_receiver r = hs_remote_index (handshake ?q)"
    by (rule response_stage [OF comm len a c b N(3) n])
  have i: "dev_peers ?A ! i = ?pA" "dev_peers (upd_peer j (?q\<lparr>handshake := hs2\<rparr>) ?B) ! j = ?q\<lparr>handshake := hs2\<rparr>"
    using P(2) Q(1) by (simp_all add: upd_peer_def)
  have "handshake_run dh A i wA B wB = Some (fst (wireguard_start_session (?pA\<lparr>handshake := hs3\<rparr>) True wA'),
      fst (wireguard_start_session (?q\<lparr>handshake := hs2\<rparr>) False wB'))"
    unfolding handshake_run_def 1 2 3 option.case prod.case i 4 bool.case Let_def
    by (simp add: case_prod_beta)
  moreover have "mirrored (curr_keypair (fst (wireguard_start_session (?pA\<lparr>handshake := hs3\<rparr>) True wA')))
      (next_keypair (fst (wireguard_start_session (?q\<lparr>handshake := hs2\<rparr>) False wB')))"
    by (rule start_session_keys) (simp_all add: 5 hB(6))
  ultimately show ?thesis by blast
qed

section \<open>Timestamps\<close>

fun be_val :: "bytes \<Rightarrow> nat" where
  "be_val [] = 0"
| "be_val (b # bs) = unat b * 256 ^ length bs + be_val bs"

lemma be_val_less: "be_val bs < 256 ^ length bs"
proof (induction bs)
  case (Cons b bs)
  have "unat b * 256 ^ length bs + 256 ^ length bs \<le> 256 * 256 ^ length bs"
    using unat_u8_less [of b] by (metis Suc_leI add.commute mult_Suc mult_le_mono1)
  then show ?case using Cons unfolding be_val.simps length_Cons power_Suc by linarith
qed simp

lemma memcmp_lt_iff: "length xs = length ys \<Longrightarrow> memcmp_lt xs ys \<longleftrightarrow> be_val xs < be_val ys"
proof (induction xs ys rule: memcmp_lt.induct)
  case (1 a as b bs)
  let ?n = "256 ^ length bs :: nat"
  have l: "be_val as < ?n" "be_val bs < ?n" using be_val_less [of as] be_val_less [of bs] 1(2) by simp_all
  have lt: "x * ?n + be_val as' < y * ?n + be_val bs'" if "x < y" "be_val as' < ?n" for x y as' bs'
  proof -
    have "Suc x * ?n \<le> y * ?n" using that(1) by (intro mult_le_mono1) simp
    then show ?thesis using that(2) by simp
  qed
  consider "a < b" | "a = b" | "b < a" by fastforce
  then show ?case
    using 1 lt [of "unat a" "unat b" as bs] lt [of "unat b" "unat a" bs as] l
    by cases (auto simp: word_less_nat_alt)
qed auto

lemma be_val_append: "be_val (xs @ ys) = be_val xs * 256 ^ length ys + be_val ys"
  by (induction xs) (simp_all add: algebra_simps power_add)

lemma be_val_rev: "be_val (rev bs) = le_val bs"
  by (induction bs) (simp_all add: be_val_append)

lemma be_val_stores: "be_val (U64TO8_BIG x) = unat x" "be_val (U32TO8_BIG y) = unat y"
proof -
  have "U64TO8_BIG x = rev (U64TO8_LITTLE x)" "U32TO8_BIG y = rev (U32TO8_LITTLE y)"
    by (simp_all add: U64TO8_BIG_def U64TO8_LITTLE_def U32TO8_BIG_def U32TO8_LITTLE_def)
  moreover have "unat x < 256 ^ 8" "unat y < 256 ^ 4" using unsigned_less [of x] unsigned_less [of y] by simp_all
  ultimately show "be_val (U64TO8_BIG x) = unat x" "be_val (U32TO8_BIG y) = unat y"
    by (simp_all add: be_val_rev U64TO8_LITTLE_bytes U32TO8_LITTLE_bytes le_val_le_bytes)
qed

lemma be_val_tai64n:
  "be_val (tai64n_of t) = (0x400000000000000a + unat t div 1000) * 2 ^ 32 + unat t mod 1000 * 1000"
proof -
  let ?t = "ucast t :: u64"
  have t: "unat ?t = unat t" "unat t < 2 ^ 32"
    using unsigned_less [of t, where 'a = nat] by (simp_all add: unsigned_ucast_eq take_bit_nat_eq_self)
  have "unat (0x400000000000000a + ?t div 1000) = 0x400000000000000a + unat t div 1000"
    using t by (subst unat_add_lt) (simp_all add: unat_div)
  moreover have "unat t mod 1000 < 1000" by simp
  then have "unat (ucast (?t mod 1000 * 1000) :: u32) = unat t mod 1000 * 1000"
    using t by (simp add: unsigned_ucast_eq unat_word_ariths unat_mod take_bit_nat_eq_self take_bit_eq_mod)
  ultimately show ?thesis by (simp add: tai64n_of_def be_val_append be_val_stores)
qed

lemma tai64n_order: "memcmp_lt (tai64n_of a) (tai64n_of b) \<longleftrightarrow> a < b"
proof -
  have m: "be_val (tai64n_of x) < be_val (tai64n_of y)" if "unat x < unat y" for x y :: u32
  proof -
    have q: "unat x div 1000 \<le> unat y div 1000" using that by (simp add: div_le_mono)
    have r: "unat x mod 1000 * 1000 < 2 ^ 32" by (rule le_less_trans [of _ "1000 * 1000"]) simp_all
    show ?thesis
    proof (cases "unat x div 1000 = unat y div 1000")
      case True
      then have "unat x mod 1000 < unat y mod 1000" using that by (metis div_mult_mod_eq add_less_cancel_left)
      then show ?thesis by (simp add: be_val_tai64n True)
    next
      case False
      then have "Suc (unat x div 1000) \<le> unat y div 1000" using q by simp
      then have "(0x400000000000000a + unat x div 1000) * 2 ^ 32 + 2 ^ 32 \<le> (0x400000000000000a + unat y div 1000) * (2 ^ 32 :: nat)"
        by (simp add: algebra_simps)
      then show ?thesis using r unfolding be_val_tai64n by linarith
    qed
  qed
  have "memcmp_lt (tai64n_of a) (tai64n_of b) \<longleftrightarrow> be_val (tai64n_of a) < be_val (tai64n_of b)"
    by (rule memcmp_lt_iff) simp
  also have "\<dots> \<longleftrightarrow> a < b"
    unfolding word_less_nat_alt using m [of a b] m [of b a]
    by (metis less_asym linorder_neqE_nat word_unat_eq_iff)
  finally show ?thesis .
qed

section \<open>Properties\<close>

text \<open>
  a datagram is classified by its type byte, three zero bytes and its exact length (156, 92 and
  64 bytes for the handshake messages, at least 32 for data), and everything else is invalid. So
  every field access through the structure casts of the receive path is inside the datagram.
\<close>

theorem message_type_exact:
  "wireguard_get_message_type d =
     (if 4 \<le> length d \<and> bslice 1 3 d = [0, 0, 0] \<and>
         (d ! 0 = 1 \<and> length d = 156 \<or> d ! 0 = 2 \<and> length d = 92 \<or>
          d ! 0 = 3 \<and> length d = 64 \<or> d ! 0 = 4 \<and> 32 \<le> length d)
      then d ! 0 else 0)"
proof (cases "length d < 4")
  case False
  then obtain a b c e r where d: "d = a # b # c # e # r"
    by (auto simp: not_less numeral_eq_Suc Suc_le_length_iff)
  show ?thesis by (auto simp: wireguard_get_message_type_def msg_types Let_def d bslice_def)
qed (simp add: wireguard_get_message_type_def msg_types)

text \<open>
  C1: a complete handshake between two devices that are configured as each other's peers ends with
  mirrored sessions: the sending key of one side is the receiving key of the other, the local index
  of one is the remote index of the other, and both counters start at 0. Hypotheses: \<open>dh\<close> commutes
  on public keys and gives 32 bytes (the documented property of X25519), the Diffie-Hellman values
  are not zero, the random words serve as indices, and the responder's timestamp, rate and one-time
  password checks pass.
\<close>

theorem handshake_agreement:
  assumes "\<forall>a b. dh a (dh b basepoint) = dh b (dh a basepoint)" and "\<forall>a q. length (dh a q) = 32"
    and "paired dh A i B j" and "handshake_nonzero dh A wA B wB"
    and "index_ok A wA (w_rand_pos wA + 32)" and "index_ok B wB (w_rand_pos wB + 32)"
    and "length (otp_receiver (dev_peers B ! j)) = 3"
    and "initiation_admissible (dev_peers A ! i) (dev_peers B ! j)
      (tai64n_of (w_clock wA (w_clock_pos wA))) (w_clock wB (w_clock_pos wB))"
  shows "\<exists>pA pB. handshake_run dh A i wA B wB = Some (pA, pB) \<and>
    mirrored (curr_keypair pA) (next_keypair pB)"
  using assms by (rule handshake_run_agrees)

text \<open>A Diffie-Hellman function for concrete runs: bytewise addition.\<close>

definition dh_demo :: "bytes \<Rightarrow> bytes \<Rightarrow> bytes" where
  "dh_demo a q = map (\<lambda>k. (if k < length a then a ! k else 0) + (if k < length q then q ! k else 0)) [0..<32]"

lemma dh_demo_comm: "dh_demo a (dh_demo b basepoint) = dh_demo b (dh_demo a basepoint)"
  by (simp add: dh_demo_def ac_simps)

definition node_demo :: "u8 \<Rightarrow> u8 \<Rightarrow> wireguard_device" where
  "node_demo a b =
     (let pub = (\<lambda>x. dh_demo (replicate 32 x) basepoint) in
      (device_demo [peer_zero\<lparr>peer_valid := True, peer_public_key := pub b,
          public_key_dh := dh_demo (replicate 32 a) (pub b)\<rparr>])
        \<lparr>dev_private_key := replicate 32 a, dev_public_key := pub a\<rparr>)"

lemma handshake_demo_facts:
  "paired dh_demo (node_demo 3 4) 0 (node_demo 4 3) 0"
  "handshake_nonzero dh_demo (node_demo 3 4) (world_demo 7 1000) (node_demo 4 3) (world_demo 8 2000)"
  "index_ok (node_demo 3 4) (world_demo 7 1000) 32" "index_ok (node_demo 4 3) (world_demo 8 2000) 32"
  "initiation_admissible (dev_peers (node_demo 3 4) ! 0) (dev_peers (node_demo 4 3) ! 0) (tai64n_of 1000) 2000"
proof -
  show "paired dh_demo (node_demo 3 4) 0 (node_demo 4 3) 0"
    by (simp add: paired_def node_demo_def device_demo_def Let_def wireguard_peer_lookup_by_pubkey_def peer_zero_def)
  have n: "zero_key \<noteq> dh_demo a q" if "a ! 0 + q ! 0 \<noteq> 0" "length a = 32" "length q = 32" for a q
  proof
    assume "zero_key = dh_demo a q"
    then have "dh_demo a q ! 0 = zero_key ! 0" by simp
    then show False using that by (simp add: dh_demo_def zero_key_def)
  qed
  have l: "length (dh_demo a q) = 32" "length basepoint = 32" "basepoint ! 0 = 9" for a q
    by (simp_all add: dh_demo_def basepoint_def)
  have z: "dh_demo a q ! 0 = a ! 0 + q ! 0" if "length a = 32" "length q = 32" for a q
    using that by (simp add: dh_demo_def)
  have e: "length (ephemeral_of w) = 32" for w by (simp add: ephemeral_of_def random_at_def)
  have e0: "ephemeral_of (world_demo 7 1000) ! 0 = 0" "ephemeral_of (world_demo 8 2000) ! 0 = 8"
    by (simp_all add: ephemeral_of_def wireguard_clamp_private_key_def random_at_def Let_def world_demo_def)
  have p: "dev_public_key (node_demo a b) = dh_demo (replicate 32 a) basepoint" for a b
    by (simp add: node_demo_def Let_def device_demo_def)
  show "handshake_nonzero dh_demo (node_demo 3 4) (world_demo 7 1000) (node_demo 4 3) (world_demo 8 2000)"
    unfolding handshake_nonzero_def Let_def insert_iff empty_iff p by (simp add: n l z e e0)
  have r: "random_at (world_demo k t) 32 4 = [of_nat (k mod 255), of_nat (k mod 255), of_nat (k mod 255), of_nat (k mod 255)]" for k t
    by (simp add: random_at_def world_demo_def upt_rec)
  show "index_ok (node_demo 3 4) (world_demo 7 1000) 32" "index_ok (node_demo 4 3) (world_demo 8 2000) 32"
    by (simp_all add: index_ok_def Let_def r U8TO32_LITTLE_def node_demo_def device_demo_def peer_uses_index_def
        peer_zero_def keypair_zero_def handshake_zero_def)
  show "initiation_admissible (dev_peers (node_demo 3 4) ! 0) (dev_peers (node_demo 4 3) ! 0) (tai64n_of 1000) 2000"
  proof -
    have "replicate 12 0 = (0 :: u8) # replicate 11 0" by (simp add: numeral_eq_Suc)
    then show ?thesis
      by (simp add: initiation_admissible_def node_demo_def device_demo_def Let_def peer_zero_def
          tai64n_of_def U64TO8_BIG_def)
  qed
qed

theorem handshake_agreement_witness:
  "\<exists>pA pB. handshake_run dh_demo (node_demo 3 4) 0 (world_demo 7 1000) (node_demo 4 3) (world_demo 8 2000) =
      Some (pA, pB) \<and> mirrored (curr_keypair pA) (next_keypair pB)"
proof (rule handshake_agreement [where j = 0])
  show "\<forall>a b. dh_demo a (dh_demo b basepoint) = dh_demo b (dh_demo a basepoint)" by (simp add: dh_demo_comm)
  show "\<forall>a q. length (dh_demo a q) = 32" by (simp add: dh_demo_def)
  show "length (otp_receiver (dev_peers (node_demo 4 3) ! 0)) = 3"
    by (simp add: node_demo_def device_demo_def Let_def peer_zero_def)
qed (use handshake_demo_facts in \<open>simp_all add: world_demo_def\<close>)

text \<open>
  what a session seals, the mirrored session opens: with the sender's key as its receiving
  key and the packet counter of the sender, the receiver opens a packet with plaintext \<open>p\<close> exactly
  when the packet is what \<open>wireguard_encrypt_packet\<close> produces for \<open>p\<close>.
\<close>

theorem mirrored_sessions_open_packets:
  assumes "sending_key a = receiving_key b"
  shows "wireguard_decrypt_packet c (sending_counter a) b = Some p \<longleftrightarrow>
    c = fst (wireguard_encrypt_packet p a)"
  by (simp add: wireguard_decrypt_packet_def wireguard_encrypt_packet_def assms ccp.dec_iff)

theorem mirrored_sessions_open_packets_witness:
  "wireguard_decrypt_packet [] (sending_counter keypair_zero) keypair_zero = Some [] \<longleftrightarrow>
    [] = fst (wireguard_encrypt_packet [] keypair_zero)"
  by (rule mirrored_sessions_open_packets) (simp add: keypair_zero_def)

text \<open>
  the timestamps of initiations are ordered as the 32-bit millisecond clock, so a responder
  accepts an initiation only if the initiator's clock reading is greater than that of the last
  accepted one: a clock that wraps or restarts makes every initiation look replayed.
\<close>

theorem initiation_timestamps_follow_clock:
  assumes "greatest_timestamp peer = tai64n_of t1"
    and "accept_initiation peer msg (tai64n_of t2) hash ck now = Some peer'"
  shows "t1 < t2 \<and> greatest_timestamp peer' = tai64n_of t2"
  using assms by (auto simp: accept_initiation_def Let_def tai64n_order split: if_splits)

definition peer_seen :: wireguard_peer where
  "peer_seen = peer_zero\<lparr>greatest_timestamp := tai64n_of 5, last_initiation_rx := 1000\<rparr>"

definition msg_demo :: msg_handshake_initiation where
  "msg_demo = initiation_of_bytes (replicate 156 0)"

theorem initiation_timestamps_follow_clock_witness:
  "(5 :: u32) < 9 \<and> greatest_timestamp (the (accept_initiation peer_seen msg_demo (tai64n_of 9) [] [] 2000)) =
     tai64n_of 9"
proof (rule initiation_timestamps_follow_clock [of peer_seen 5 msg_demo 9 "[]" "[]" 2000])
  show "accept_initiation peer_seen msg_demo (tai64n_of 9) [] [] 2000 =
      Some (the (accept_initiation peer_seen msg_demo (tai64n_of 9) [] [] 2000))"
    by (simp add: accept_initiation_def peer_seen_def peer_zero_def Let_def tai64n_order)
qed (simp add: peer_seen_def)

text \<open>
  the rate limit subtracts the current time from the last accepted time instead of the
  reverse. For every gap of 1 ms up to \<open>2\<^sup>32 - 500\<close> ms after an accepted initiation, an initiation
  with a newer timestamp and no one-time password is accepted: the limit of two per second never
  applies.
\<close>

theorem initiation_rate_limit_inverted:
  assumes "1 \<le> unat d" and "unat d \<le> 2 ^ 32 - 500" and "last_initiation_rx peer = t"
    and "memcmp_lt (greatest_timestamp peer) ts" and "\<not> otp_enabled peer"
  shows "accept_initiation peer msg ts hash ck (t + d) \<noteq> None"
proof -
  have "unat (t - (t + d)) = 2 ^ 32 - unat d"
  proof -
    have "t - (t + d) = 0 - d" by simp
    then show ?thesis using assms(1,2) by (simp only: unat_sub_if') simp
  qed
  then have "\<not> t - (t + d) < 500" using assms(2) by (simp add: word_less_nat_alt)
  then show ?thesis using assms by (simp add: accept_initiation_def Let_def)
qed

theorem initiation_rate_limit_inverted_witness:
  "accept_initiation peer_seen msg_demo (tai64n_of 9) [] [] (1000 + 1) \<noteq> None"
  by (rule initiation_rate_limit_inverted)
    (simp_all add: peer_seen_def peer_zero_def tai64n_order)

end
