(* ===== verification/Iface_Output.thy ===== *)
theory Iface_Output
  imports Wg_Agreement "HOL-Library.Monad_Syntax"
begin

text \<open>
  The sending half of the interface layer in \<open>linux/mudband.c\<close>: the timer predicates, the relay
  header, the datagram output over one or several endpoints, transport data, the start of a
  handshake and the periodic timer.

  A function that may fail an assertion or leave its buffer is partial (\<open>None\<close>); \<open>dh\<close> is the
  Diffie-Hellman function. Log messages are left out.
\<close>

section \<open>Effects\<close>

definition stat :: "(wireguard_iface_stat \<Rightarrow> wireguard_iface_stat) \<Rightarrow> world \<Rightarrow> world" where
  "stat f w = w\<lparr>wg_stat := f (wg_stat w)\<rparr>"

text \<open>A datagram socket sends the whole datagram or nothing.\<close>

definition sendto :: "u32 \<Rightarrow> u16 \<Rightarrow> bytes \<Rightarrow> world \<Rightarrow> sendto_result \<times> world" where
  "sendto ip port bs w =
     (let r = w_sendto w (w_sendto_pos w); w = w\<lparr>w_sendto_pos := w_sendto_pos w + 1\<rparr>
      in (r, if r = Sent then w\<lparr>w_out := w_out w @ [Udp_out ip port bs]\<rparr> else w))"

definition buf_alloc :: "nat \<Rightarrow> world \<Rightarrow> (pbuf \<times> world) option" where
  "buf_alloc n w = do { (p, pool) \<leftarrow> pbuf_alloc n (w_pool w); Some (p, w\<lparr>w_pool := pool\<rparr>) }"

definition buf_free :: "pbuf \<Rightarrow> world \<Rightarrow> world option" where
  "buf_free p w = do { pool \<leftarrow> pbuf_free p (w_pool w); Some (w\<lparr>w_pool := pool\<rparr>) }"

section \<open>Timer predicates\<close>

definition WIREGUARD_REKEY_AFTER_MESSAGES :: u64 where
  "WIREGUARD_REKEY_AFTER_MESSAGES = 2 ^ 60"

definition WIREGUARD_REJECT_AFTER_MESSAGES :: u64 where
  "WIREGUARD_REJECT_AFTER_MESSAGES = 0xFFFFFFFFFFFFFFFF - 2 ^ 13"

definition wireguard_iface_can_send_initiation :: "wireguard_peer \<Rightarrow> world \<Rightarrow> bool \<times> world" where
  "wireguard_iface_can_send_initiation peer w =
     (if last_initiation_tx peer = 0 then (True, w)
      else wireguard_expired (last_initiation_tx peer) (ucast (timeout_rekey peer)) w)"

text \<open>\<open>None\<close> for false, \<open>Some reason\<close> for true.\<close>

definition wireguard_iface_should_send_initiation :: "wireguard_peer \<Rightarrow> world \<Rightarrow> nat option \<times> world" where
  "wireguard_iface_should_send_initiation peer w =
     (let (can, w) = wireguard_iface_can_send_initiation peer w in
      if can then
        if send_handshake peer then (Some 1, w)
        else let (old, w) =
               (if kp_valid (curr_keypair peer) \<and> \<not> kp_initiator (curr_keypair peer)
                then wireguard_expired (keypair_millis (curr_keypair peer))
                       (ucast (timeout_reject_after_time peer) - ucast (keepalive_interval peer)) w
                else (False, w))
             in if old then (Some 2, w)
                else if \<not> kp_valid (curr_keypair peer) \<and> peer_active peer then (Some 3, w)
                else (None, w)
      else (None, w))"

definition wireguard_iface_should_send_keepalive :: "wireguard_peer \<Rightarrow> world \<Rightarrow> bool \<times> world" where
  "wireguard_iface_should_send_keepalive peer w =
     (if keepalive_interval peer > 0
      then if kp_valid (curr_keypair peer) \<or> kp_valid (prev_keypair peer)
           then wireguard_expired (peer_last_tx peer) (ucast (keepalive_interval peer)) w
           else (False, w)
      else (False, w))"

definition wireguard_iface_should_destroy_current_keypair :: "wireguard_peer \<Rightarrow> world \<Rightarrow> bool \<times> world" where
  "wireguard_iface_should_destroy_current_keypair peer w =
     (if kp_valid (curr_keypair peer)
      then let (e, w) = wireguard_expired (keypair_millis (curr_keypair peer))
                 (ucast (timeout_reject_after_time peer)) w
           in (e \<or> sending_counter (curr_keypair peer) \<ge> WIREGUARD_REJECT_AFTER_MESSAGES, w)
      else (False, w))"

definition wireguard_iface_should_reset_peer :: "wireguard_peer \<Rightarrow> world \<Rightarrow> bool \<times> world" where
  "wireguard_iface_should_reset_peer peer w =
     (if kp_valid (curr_keypair peer)
      then wireguard_expired (keypair_millis (curr_keypair peer))
             (ucast (timeout_reject_after_time peer) * 3) w
      else (False, w))"

section \<open>Datagrams\<close>

text \<open>The relay header, 32 bytes: version 1 in the low half of the first byte, the band, source and
  destination address.\<close>

definition proxy_pkthdr :: "bytes \<Rightarrow> u32 \<Rightarrow> u32 \<Rightarrow> bytes" where
  "proxy_pkthdr uuid src_addr dst_addr =
     [1, 0, 0, 0] @ uuid @ U32TO8_LITTLE src_addr @ U32TO8_LITTLE dst_addr @ [0, 0, 0, 0]"

text \<open>\<open>buf\<close> is an offset into the memory of the buffer; the header is written in front of it.\<close>

definition wireguard_iface_prepend_proxy_pkthdr ::
  "pbuf \<Rightarrow> nat \<Rightarrow> nat \<Rightarrow> u32 \<Rightarrow> u32 \<Rightarrow> world \<Rightarrow> (pbuf \<times> nat \<times> nat) option" where
  "wireguard_iface_prepend_proxy_pkthdr p buf buflen src_addr dst_addr w =
     (if buf < 32 then None
      else do { p \<leftarrow> pbuf_write (buf - 32) (proxy_pkthdr (w_band_uuid w) src_addr dst_addr) p;
                Some (p, buf - 32, buflen + 32) })"

text \<open>What the three output functions do for one destination: the relay header if the destination
  is a relay, then \<open>sendto\<close> and the statistics.\<close>

definition send_datagram ::
  "bool \<Rightarrow> u32 \<Rightarrow> u32 \<Rightarrow> u32 \<Rightarrow> u16 \<Rightarrow> pbuf \<Rightarrow> nat \<Rightarrow> nat \<Rightarrow> world \<Rightarrow>
     (bool \<times> pbuf \<times> nat \<times> nat \<times> world) option" where
  "send_datagram is_proxy src_addr dst_addr ip port p buf buflen w = do {
     (p, buf, buflen, w) \<leftarrow>
       (if is_proxy
        then do { (p, buf, buflen) \<leftarrow> wireguard_iface_prepend_proxy_pkthdr p buf buflen src_addr dst_addr w;
                  Some (p, buf, buflen, stat (\<lambda>s. s\<lparr>n_udp_proxy_tx_pkts := n_udp_proxy_tx_pkts s + 1,
                    bytes_udp_proxy_tx := bytes_udp_proxy_tx s + of_nat buflen\<rparr>) w) }
        else Some (p, buf, buflen, w));
     bs \<leftarrow> pbuf_read buf buflen p;
     let (r, w) = sendto ip port bs w;
     Some (case r of
         Sent \<Rightarrow> (True, p, buf, buflen, stat (\<lambda>s. s\<lparr>n_udp_tx_pkts := n_udp_tx_pkts s + 1,
                   bytes_udp_tx := bytes_udp_tx s + of_nat buflen\<rparr>) w)
       | Enobufs \<Rightarrow> (False, p, buf, buflen, stat (\<lambda>s. s\<lparr>n_udp_tx_errs := n_udp_tx_errs s + 1,
                   n_nobufs := n_nobufs s + 1\<rparr>) w)
       | Send_error \<Rightarrow> (False, p, buf, buflen, stat (\<lambda>s. s\<lparr>n_udp_tx_errs := n_udp_tx_errs s + 1\<rparr>) w)) }"

text \<open>The loop over \<open>peer->endpoints\<close>; \<open>buf\<close> and \<open>buflen\<close> go on from one endpoint to the next.\<close>

fun multipath_loop ::
  "u32 \<Rightarrow> wireguard_peer \<Rightarrow> endpoint list \<Rightarrow> bool \<Rightarrow> pbuf \<Rightarrow> nat \<Rightarrow> nat \<Rightarrow> world \<Rightarrow>
     (int \<times> pbuf \<times> world) option" where
  "multipath_loop iface_addr peer [] same_endpoint p buf buflen w =
     Some (if same_endpoint then 1 else 0, p, w)"
| "multipath_loop iface_addr peer (e # es) same_endpoint p buf buflen w = do {
     let same_endpoint = (same_endpoint \<or> (ep_ip e = endpoint_latest_ip peer \<and>
           ep_port e = endpoint_latest_port peer \<and> ep_is_proxy e = endpoint_latest_is_proxy peer));
     (ok, p, buf, buflen, w) \<leftarrow>
       send_datagram (ep_is_proxy e) iface_addr (peer_iface_addr peer) (ep_ip e) (ep_port e) p buf buflen w;
     if ok then multipath_loop iface_addr peer es same_endpoint p buf buflen w else Some (-1, p, w) }"

text \<open>An index beyond the 16 entries of the array has no defined value.\<close>

definition wireguard_iface_peer_output_multipath ::
  "wireguard_device \<Rightarrow> pbuf \<Rightarrow> wireguard_peer \<Rightarrow> world \<Rightarrow> (int \<times> pbuf \<times> world) option" where
  "wireguard_iface_peer_output_multipath device p peer w =
     (if unat (n_endpoints peer) \<le> length (endpoints peer)
      then multipath_loop (dev_iface_addr device) peer (take (unat (n_endpoints peer)) (endpoints peer)) False
             p (pb_payload p) (pb_len p) w
      else None)"

definition wireguard_iface_peer_output ::
  "wireguard_device \<Rightarrow> pbuf \<Rightarrow> wireguard_peer \<Rightarrow> bool \<Rightarrow> world \<Rightarrow> (int \<times> pbuf \<times> world) option" where
  "wireguard_iface_peer_output device q peer need_multipath w = do {
     (r, q, w) \<leftarrow> (if need_multipath then wireguard_iface_peer_output_multipath device q peer w
                   else Some (0, q, w));
     if need_multipath \<and> r = 1 then Some (0, q, w)
     else do {
       (ok, q, _, _, w) \<leftarrow> send_datagram (endpoint_latest_is_proxy peer) (dev_iface_addr device)
          (peer_iface_addr peer) (endpoint_latest_ip peer) (endpoint_latest_port peer)
          q (pb_payload q) (pb_len q) w;
       Some (if ok then 0 else -1, q, w) } }"

record wireguard_sockaddr =
  ws_addr :: u32
  ws_port :: u16
  ws_from_it :: bool
  ws_src_addr :: u32
  ws_dst_addr :: u32

definition wireguard_iface_device_output ::
  "wireguard_device \<Rightarrow> pbuf \<Rightarrow> wireguard_sockaddr \<Rightarrow> world \<Rightarrow> (int \<times> pbuf \<times> world) option" where
  "wireguard_iface_device_output device q wsin w = do {
     (ok, q, _, _, w) \<leftarrow> send_datagram (ws_from_it wsin) (dev_iface_addr device) (ws_src_addr wsin)
        (ws_addr wsin) (ws_port wsin) q (pb_payload q) (pb_len q) w;
     Some (if ok then 0 else -1, q, w) }"

section \<open>Transport data\<close>

definition padded_len :: "nat \<Rightarrow> nat" where
  "padded_len unpadded_len = unat ((of_nat unpadded_len + 15 :: u64) AND 0xFFFFFFF0)"

text \<open>The keypair that sends: the current one, or the previous one while a session that the peer
  initiated has not received anything yet.\<close>

definition sending_slot :: "wireguard_peer \<Rightarrow> kp_slot" where
  "sending_slot peer =
     (let keypair = curr_keypair peer
      in if kp_valid keypair \<and> \<not> kp_initiator keypair \<and> kp_last_rx keypair = 0 then Prev else Curr)"

text \<open>Filling the outgoing buffer: header, copy of the packet, encryption in place. The bytes
  between the packet and the padded length are what the buffer held before.\<close>

definition seal_packet ::
  "pbuf option \<Rightarrow> wireguard_keypair \<Rightarrow> world \<Rightarrow> (pbuf \<times> wireguard_keypair \<times> world) option" where
  "seal_packet p keypair w = do {
     let unpadded_len = (case p of Some p \<Rightarrow> pb_len p | None \<Rightarrow> 0);
     let padded = padded_len unpadded_len;
     (q, w) \<leftarrow> buf_alloc (16 + padded + 16) w;
     q \<leftarrow> pbuf_write (pb_payload q) ([WIREGUARD_MSG_TRANSPORT_DATA, 0, 0, 0] @
            U32TO8_LITTLE (kp_remote_index keypair) @ U64TO8_LITTLE (sending_counter keypair)) q;
     let dst = pb_payload q + 16;
     q \<leftarrow> (case p of
             Some p \<Rightarrow> if padded > 0
               then do { (n, bs) \<leftarrow> pbuf_copy_partial [p] (of_nat unpadded_len) 0; pbuf_write dst bs q }
               else Some q
           | None \<Rightarrow> Some q);
     src \<leftarrow> pbuf_read dst padded q;
     let (enc, keypair) = wireguard_encrypt_packet src keypair;
     q \<leftarrow> pbuf_write dst enc q;
     Some (q, keypair, w) }"

text \<open>The branch that sends: seal, output, time of the transmission, release, rekey test.\<close>

definition transmit ::
  "wireguard_device \<Rightarrow> pbuf option \<Rightarrow> nat \<Rightarrow> kp_slot \<Rightarrow> world \<Rightarrow> (int \<times> wireguard_device \<times> world) option" where
  "transmit device p i s w = do {
     let peer = dev_peers device ! i;
     (q, keypair, w) \<leftarrow> seal_packet p (keypair_at peer s) w;
     (result, q, w) \<leftarrow> wireguard_iface_peer_output device q (set_keypair s keypair peer) False w;
     let (peer, keypair, w) =
       (if result = 0
        then let (now, w) = wireguard_sys_now w
             in (peer\<lparr>peer_last_tx := now\<rparr>, keypair\<lparr>kp_last_tx := now\<rparr>, w)
        else (peer, keypair, w));
     w \<leftarrow> buf_free q w;
     let (rekey, w) =
       (if sending_counter keypair \<ge> WIREGUARD_REKEY_AFTER_MESSAGES then (True, w)
        else if kp_initiator keypair
        then wireguard_expired (keypair_millis keypair) (ucast (timeout_rekey_after_time peer)) w
        else (False, w));
     let peer = (if rekey then peer\<lparr>send_handshake := True\<rparr> else peer);
     Some (0, upd_peer i (set_keypair s keypair peer) device, w) }"

definition wireguard_iface_output_to_peer ::
  "wireguard_device \<Rightarrow> pbuf option \<Rightarrow> nat \<Rightarrow> world \<Rightarrow> (int \<times> wireguard_device \<times> world) option" where
  "wireguard_iface_output_to_peer device p i w =
     (let peer = dev_peers device ! i; s = sending_slot peer; keypair = keypair_at peer s in
      if kp_valid keypair \<and> (kp_initiator keypair \<or> kp_last_rx keypair \<noteq> 0) then
        let (expired, w) = wireguard_expired (keypair_millis keypair) (ucast (timeout_reject_after_time peer)) w in
        if \<not> expired \<and> sending_counter keypair < WIREGUARD_REJECT_AFTER_MESSAGES
        then transmit device p i s w
        else Some (-1, upd_peer i (wireguard_keypair_destroy s peer) device, w)
      else Some (-1, device, w))"

definition wireguard_iface_send_keepalive ::
  "wireguard_device \<Rightarrow> nat \<Rightarrow> world \<Rightarrow> (wireguard_device \<times> world) option" where
  "wireguard_iface_send_keepalive device i w = do {
     (_, device, w) \<leftarrow> wireguard_iface_output_to_peer device None i w; Some (device, w) }"

section \<open>Starting a handshake\<close>

definition wireguard_iface_initiate_handshake ::
  "(bytes \<Rightarrow> bytes \<Rightarrow> bytes) \<Rightarrow> wireguard_device \<Rightarrow> nat \<Rightarrow> world \<Rightarrow>
     ((pbuf \<times> msg_handshake_initiation) option \<times> wireguard_device \<times> world) option" where
  "wireguard_iface_initiate_handshake dh device i w = do {
     (msg, device, w) \<leftarrow> wireguard_create_handshake_initiation dh device i w;
     case msg of
       None \<Rightarrow> Some (None, device, w)
     | Some msg \<Rightarrow> do {
         (q, w) \<leftarrow> buf_alloc 156 w;
         (err, c) \<leftarrow> pbuf_take [q] (initiation_bytes msg) 156;
         if err = 0 then Some (Some (hd c, msg), device, w) else None } }"

definition wireguard_start_handshake ::
  "(bytes \<Rightarrow> bytes \<Rightarrow> bytes) \<Rightarrow> wireguard_device \<Rightarrow> nat \<Rightarrow> world \<Rightarrow>
     (int \<times> wireguard_device \<times> world) option" where
  "wireguard_start_handshake dh device i w = do {
     (r, device, w) \<leftarrow> wireguard_iface_initiate_handshake dh device i w;
     case r of
       None \<Rightarrow> Some (0, device, w)
     | Some (q, msg) \<Rightarrow> do {
         let peer = dev_peers device ! i;
         (result, q, w) \<leftarrow> wireguard_iface_peer_output device q peer True w;
         w \<leftarrow> buf_free q w;
         let (now, w) = wireguard_sys_now w;
         Some (result, upd_peer i (peer\<lparr>send_handshake := False, last_initiation_tx := now,
             handshake_mac1 := mi_mac1 msg, handshake_mac1_valid := True\<rparr>) device, w) } }"

section \<open>The timer\<close>

text \<open>The reset of a peer that has been silent for too long.\<close>

definition reset_peer :: "wireguard_peer \<Rightarrow> wireguard_peer" where
  "reset_peer peer =
     (let peer = wireguard_keypair_destroy Prev (wireguard_keypair_destroy Curr
            (wireguard_keypair_destroy Next peer));
          e = endpoints peer ! 0
      in peer\<lparr>endpoint_latest_is_proxy := ep_is_proxy e, endpoint_latest_ip := ep_ip e,
              endpoint_latest_port := ep_port e\<rparr>)"

definition timer_peer ::
  "(bytes \<Rightarrow> bytes \<Rightarrow> bytes) \<Rightarrow> nat \<Rightarrow> wireguard_device \<Rightarrow> world \<Rightarrow> (wireguard_device \<times> world) option" where
  "timer_peer dh i device w =
     (if \<not> peer_valid (dev_peers device ! i) then Some (device, w)
      else do {
        let peer = dev_peers device ! i;
        let (reset, w) = wireguard_iface_should_reset_peer peer w;
        let peer = (if reset then reset_peer peer else peer);
        let (destroy, w) = wireguard_iface_should_destroy_current_keypair peer w;
        let peer = (if destroy then wireguard_keypair_destroy Curr peer else peer);
        let device = upd_peer i peer device;
        let (keepalive, w) = wireguard_iface_should_send_keepalive peer w;
        (device, w) \<leftarrow> (if keepalive then wireguard_iface_send_keepalive device i w
                         else Some (device, w));
        let (reason, w) = wireguard_iface_should_send_initiation (dev_peers device ! i) w;
        case reason of
          None \<Rightarrow> Some (device, w)
        | Some _ \<Rightarrow> do { (_, device, w) \<leftarrow> wireguard_start_handshake dh device i w; Some (device, w) } })"

fun timer_loop ::
  "(bytes \<Rightarrow> bytes \<Rightarrow> bytes) \<Rightarrow> nat list \<Rightarrow> wireguard_device \<Rightarrow> world \<Rightarrow> (wireguard_device \<times> world) option" where
  "timer_loop dh [] device w = Some (device, w)"
| "timer_loop dh (i # is) device w = do {
     (device, w) \<leftarrow> timer_peer dh i device w; timer_loop dh is device w }"

text \<open>The timer re-arms itself with \<open>callout_reset\<close> for one second later.\<close>

definition wireguard_iface_timer ::
  "(bytes \<Rightarrow> bytes \<Rightarrow> bytes) \<Rightarrow> wireguard_device \<Rightarrow> world \<Rightarrow> (wireguard_device \<times> world) option" where
  "wireguard_iface_timer dh device w = timer_loop dh [0..<length (dev_peers device)] device w"

end
