(* ===== verification/Iface_Input.thy ===== *)
theory Iface_Input
  imports Iface_Output
begin

text \<open>
  The receiving half of the interface layer in \<open>linux/mudband.c\<close>: the checks of handshake messages,
  cookies, transport data with the access control list, the relay header, and what one iteration
  of the tunnel loop does with a packet of the TUN device and with a datagram.
\<close>

section \<open>Routing by address\<close>

text \<open>The inner loop over \<open>allowed_source_ips\<close>.\<close>

definition allowed_match :: "u32 \<Rightarrow> wireguard_allowed_ip \<Rightarrow> bool" where
  "allowed_match ipaddr a \<longleftrightarrow> ip_valid a \<and> ipaddr AND ip_mask a = ip_ip a AND ip_mask a"

definition allowed_source :: "wireguard_peer \<Rightarrow> u32 \<Rightarrow> bool" where
  "allowed_source peer ipaddr \<longleftrightarrow> (\<exists>a \<in> set (allowed_source_ips peer). allowed_match ipaddr a)"

definition wireguard_iface_peer_lookup_by_allowed_ip :: "wireguard_device \<Rightarrow> u32 \<Rightarrow> nat option" where
  "wireguard_iface_peer_lookup_by_allowed_ip device ipaddr =
     find_index (\<lambda>tmp. peer_valid tmp \<and> allowed_source tmp ipaddr) (dev_peers device)"

definition wireguard_iface_output ::
  "wireguard_device \<Rightarrow> pbuf \<Rightarrow> u32 \<Rightarrow> world \<Rightarrow> (int \<times> wireguard_device \<times> world) option" where
  "wireguard_iface_output device p ipaddr w =
     (case wireguard_iface_peer_lookup_by_allowed_ip device ipaddr of
        None \<Rightarrow> Some (-1, device, stat (\<lambda>s. s\<lparr>n_no_peer_found := n_no_peer_found s + 1\<rparr>) w)
      | Some i \<Rightarrow> wireguard_iface_output_to_peer device (Some p) i w)"

section \<open>Handshake messages\<close>

text \<open>\<open>ntohl\<close> and \<open>U32TO8_BIG\<close> cancel: the address is stored as it is in memory.\<close>

definition ntohl :: "u32 \<Rightarrow> u32" where
  "ntohl v = U8TO32_LITTLE (rev (U32TO8_LITTLE v))"

definition wireguard_iface_get_source_addr_port :: "u32 \<Rightarrow> u16 \<Rightarrow> nat \<Rightarrow> bytes" where
  "wireguard_iface_get_source_addr_port addr port buflen =
     U32TO8_BIG (ntohl addr) @ (if buflen \<ge> 4 + 2 then U16TO8_BIG port else [])"

definition wireguard_iface_send_handshake_cookie ::
  "wireguard_device \<Rightarrow> bytes \<Rightarrow> u32 \<Rightarrow> wireguard_sockaddr \<Rightarrow> world \<Rightarrow> (wireguard_device \<times> world) option" where
  "wireguard_iface_send_handshake_cookie device mac1 idx wsin w = do {
     let src_buf = wireguard_iface_get_source_addr_port (ws_addr wsin) (ws_port wsin) 18;
     let (packet, device, w) = wireguard_create_cookie_reply device mac1 idx src_buf w;
     (q, w) \<leftarrow> buf_alloc 64 w;
     (err, c) \<leftarrow> pbuf_take [q] (cookie_bytes packet) 64;
     if err = 0 then do {
       (_, q, w) \<leftarrow> wireguard_iface_device_output device (hd c) wsin w;
       w \<leftarrow> buf_free q w;
       Some (device, w) }
     else None }"

text \<open>The two checks differ in the message size only; \<open>data\<close> is the message.\<close>

definition check_macs ::
  "wireguard_device \<Rightarrow> bytes \<Rightarrow> bytes \<Rightarrow> bytes \<Rightarrow> u32 \<Rightarrow> wireguard_sockaddr \<Rightarrow> world \<Rightarrow>
     (bool \<times> wireguard_device \<times> world) option" where
  "check_macs device data mac1 mac2 sender wsin w =
     (if \<not> wireguard_check_mac1 device (take (length data - 2 * 16) data) mac1 then Some (False, device, w)
      else if \<not> wireguard_is_under_load then Some (True, device, w)
      else do {
        let source_buf = wireguard_iface_get_source_addr_port (ws_addr wsin) (ws_port wsin) 18;
        let (result, device, w) =
          wireguard_check_mac2 device (take (length data - 16) data) source_buf mac2 w;
        if result then Some (True, device, w)
        else do {
          (device, w) \<leftarrow> wireguard_iface_send_handshake_cookie device mac1 sender wsin w;
          Some (False, device, w) } })"

definition wireguard_iface_check_initiation_message ::
  "wireguard_device \<Rightarrow> bytes \<Rightarrow> wireguard_sockaddr \<Rightarrow> world \<Rightarrow> (bool \<times> wireguard_device \<times> world) option" where
  "wireguard_iface_check_initiation_message device data wsin w =
     (let msg = initiation_of_bytes data
      in check_macs device (take 156 data) (mi_mac1 msg) (mi_mac2 msg) (mi_sender msg) wsin w)"

definition wireguard_iface_check_response_message ::
  "wireguard_device \<Rightarrow> bytes \<Rightarrow> wireguard_sockaddr \<Rightarrow> world \<Rightarrow> (bool \<times> wireguard_device \<times> world) option" where
  "wireguard_iface_check_response_message device data wsin w =
     (let msg = response_of_bytes data
      in check_macs device (take 92 data) (mr_mac1 msg) (mr_mac2 msg) (mr_sender msg) wsin w)"

definition wireguard_iface_update_peer_addr ::
  "wireguard_peer \<Rightarrow> wireguard_sockaddr \<Rightarrow> world \<Rightarrow> wireguard_peer \<times> world" where
  "wireguard_iface_update_peer_addr peer wsin w =
     (let (t, w) = time_now w in
      if endpoint_latest_ip peer = ws_addr wsin \<and> endpoint_latest_port peer = ws_port wsin
      then (peer\<lparr>endpoint_latest_t_heartbeated := t\<rparr>, w)
      else (peer\<lparr>endpoint_latest_ip := ws_addr wsin, endpoint_latest_port := ws_port wsin,
              endpoint_latest_is_proxy := ws_from_it wsin, endpoint_latest_t_heartbeated := t\<rparr>, w))"

definition wireguard_iface_send_handshake_response ::
  "(bytes \<Rightarrow> bytes \<Rightarrow> bytes) \<Rightarrow> wireguard_device \<Rightarrow> nat \<Rightarrow> world \<Rightarrow> (wireguard_device \<times> world) option" where
  "wireguard_iface_send_handshake_response dh device i w = do {
     (packet, device, w) \<leftarrow> wireguard_create_handshake_response dh device i w;
     case packet of
       None \<Rightarrow> Some (device, w)
     | Some packet \<Rightarrow> do {
         let (peer, w) = wireguard_start_session (dev_peers device ! i) False w;
         let device = upd_peer i peer device;
         (q, w) \<leftarrow> buf_alloc 92 w;
         (err, c) \<leftarrow> pbuf_take [q] (response_bytes packet) 92;
         if err = 0 then do {
           (_, q, w) \<leftarrow> wireguard_iface_peer_output device (hd c) peer True w;
           w \<leftarrow> buf_free q w;
           Some (device, w) }
         else None } }"

definition wireguard_iface_process_response_message ::
  "(bytes \<Rightarrow> bytes \<Rightarrow> bytes) \<Rightarrow> wireguard_device \<Rightarrow> nat \<Rightarrow> msg_handshake_response \<Rightarrow>
     wireguard_sockaddr \<Rightarrow> world \<Rightarrow> (wireguard_device \<times> world) option" where
  "wireguard_iface_process_response_message dh device i response wsin w =
     (let (ok, peer) = wireguard_process_handshake_response dh device (dev_peers device ! i) response in
      if ok then
        let (peer, w) = wireguard_iface_update_peer_addr peer wsin w;
            (peer, w) = wireguard_start_session peer True w
        in wireguard_iface_send_keepalive (upd_peer i peer device) i w
      else Some (upd_peer i peer device, w))"

section \<open>Transport data\<close>

text \<open>\<open>mudband_tunnel_iface_write\<close> asserts that \<open>write\<close> took the whole packet.\<close>

definition mudband_tunnel_iface_write :: "bytes \<Rightarrow> world \<Rightarrow> world option" where
  "mudband_tunnel_iface_write bs w =
     (let r = w_tunwrite w (w_tunwrite_pos w); w = w\<lparr>w_tunwrite_pos := w_tunwrite_pos w + 1\<rparr>
      in if r = Tun_full then Some (w\<lparr>w_out := w_out w @ [Tun_out bs]\<rparr>) else None)"

definition wireguard_iface_tun_write :: "pbuf \<Rightarrow> world \<Rightarrow> world option" where
  "wireguard_iface_tun_write p w = do {
     bs \<leftarrow> pbuf_read (pb_payload p) (pb_tot_len p) p;
     let w = stat (\<lambda>s. s\<lparr>n_tun_tx_pkts := n_tun_tx_pkts s + 1,
                         bytes_tun_tx := bytes_tun_tx s + of_nat (pb_tot_len p)\<rparr>) w;
     mudband_tunnel_iface_write bs w }"

text \<open>The loop over the programs; true means drop.\<close>

fun acl_loop :: "wireguard_acl_policy \<Rightarrow> wireguard_acl_program list \<Rightarrow> bytes \<Rightarrow> bool option" where
  "acl_loop policy [] pkt = Some (policy = WIREGUARD_ACL_POLICY_BLOCK)"
| "acl_loop policy (a # as) pkt =
     (case acl_program_run a pkt of
        Ret r \<Rightarrow> if r \<noteq> 0 then Some (policy = WIREGUARD_ACL_POLICY_ALLOW) else acl_loop policy as pkt
      | _ \<Rightarrow> None)"

definition wireguard_iface_apply_acl :: "wireguard_device \<Rightarrow> bytes \<Rightarrow> bool option" where
  "wireguard_iface_apply_acl device pkt =
     (let acl = dev_acl device
      in if acl_n_programs acl \<le> length (acl_programs acl)
         then acl_loop (acl_default_policy acl) (take (acl_n_programs acl) (acl_programs acl)) pkt
         else None)"

text \<open>The inspection of the decrypted packet from the version test on. The header fields are read
  from the memory behind \<open>payload\<close>, whatever the length of the packet.\<close>

definition inspect_packet ::
  "wireguard_device \<Rightarrow> wireguard_peer \<Rightarrow> pbuf \<Rightarrow> world \<Rightarrow> world option" where
  "inspect_packet device peer p w = do {
     iphdr \<leftarrow> pbuf_read (pb_payload p) 20 p;
     if drop_bit 4 (iphdr ! 0) AND 0x0F \<noteq> 4 then Some w
     else do {
       let dest = U8TO32_LITTLE (bslice 12 4 iphdr);
       let dest_ok = allowed_source peer dest;
       let header_len = (if dest_ok then unat (iphdr ! 2) * 256 + unat (iphdr ! 3) else 0xFFFF);
       if header_len > pb_tot_len p then Some w
       else if \<not> dest_ok then Some w
       else do {
         pkt \<leftarrow> pbuf_read (pb_payload p) (pb_tot_len p) p;
         drp \<leftarrow> wireguard_iface_apply_acl device pkt;
         if drp then Some w else wireguard_iface_tun_write p w } } }"

text \<open>What follows a successful decryption. \<open>s\<close> is the slot the C pointer \<open>keypair\<close> points to; it
  keeps pointing there when \<open>wireguard_keypair_update\<close> moves the keypair to another slot.\<close>

definition process_decrypted ::
  "wireguard_device \<Rightarrow> nat \<Rightarrow> kp_slot \<Rightarrow> u64 \<Rightarrow> pbuf \<Rightarrow> wireguard_sockaddr \<Rightarrow> world \<Rightarrow>
     (wireguard_device \<times> world) option" where
  "process_decrypted device i s nonce p wsin w = do {
     let (peer, w) = wireguard_iface_update_peer_addr (dev_peers device ! i) wsin w;
     let (now, w) = wireguard_sys_now w;
     let peer = set_keypair s ((keypair_at peer s)\<lparr>kp_last_rx := now\<rparr>) peer;
     let peer = peer\<lparr>peer_last_rx := now\<rparr>;
     let peer = wireguard_keypair_update peer s;
     let keypair = keypair_at peer s;
     let (rekey, w) =
       (if kp_initiator keypair
        then wireguard_expired (keypair_millis keypair)
               (ucast (timeout_reject_after_time peer) - ucast (keepalive_interval peer) -
                ucast (timeout_rekey peer)) w
        else (False, w));
     let peer = (if rekey then peer\<lparr>send_handshake := True\<rparr> else peer);
     if pb_tot_len p = 0 then Some (upd_peer i peer device, w)
     else do {
       let (r, keypair) = wireguard_check_replay keypair nonce;
       let peer = set_keypair s keypair peer;
       w \<leftarrow> (if r then inspect_packet device peer p w else Some w);
       Some (upd_peer i peer device, w) } }"

definition wireguard_iface_process_data_message ::
  "wireguard_device \<Rightarrow> nat \<Rightarrow> msg_transport_data \<Rightarrow> nat \<Rightarrow> wireguard_sockaddr \<Rightarrow> world \<Rightarrow>
     (wireguard_device \<times> world) option" where
  "wireguard_iface_process_data_message device i data_hdr data_len wsin w =
     (let peer = dev_peers device ! i in
      case wireguard_get_peer_keypair_for_idx peer (mt_receiver data_hdr) of
        None \<Rightarrow> Some (device, w)
      | Some s \<Rightarrow>
          let keypair = keypair_at peer s;
              (expired, w) =
                (if receiving_valid keypair
                 then wireguard_expired (keypair_millis keypair) (ucast (timeout_reject_after_time peer)) w
                 else (True, w))
          in if receiving_valid keypair \<and> \<not> expired \<and>
                sending_counter keypair < WIREGUARD_REJECT_AFTER_MESSAGES
             then do {
               let nonce = U8TO64_LITTLE (mt_counter data_hdr);
               let src = take data_len (mt_enc_packet data_hdr);
               (p, w) \<leftarrow> buf_alloc (data_len - 16) w;
               (case wireguard_decrypt_packet src nonce keypair of
                  None \<Rightarrow> do { w \<leftarrow> buf_free p w; Some (device, w) }
                | Some plain \<Rightarrow> do {
                    p \<leftarrow> pbuf_write (pb_payload p) plain p;
                    (device, w) \<leftarrow> process_decrypted device i s nonce p wsin w;
                    w \<leftarrow> buf_free p w;
                    Some (device, w) }) }
             else Some (upd_peer i (wireguard_keypair_destroy s peer) device, w))"

section \<open>Datagrams\<close>

definition wireguard_iface_network_rx ::
  "(bytes \<Rightarrow> bytes \<Rightarrow> bytes) \<Rightarrow> wireguard_device \<Rightarrow> pbuf \<Rightarrow> wireguard_sockaddr \<Rightarrow> world \<Rightarrow>
     (wireguard_device \<times> world) option" where
  "wireguard_iface_network_rx dh device p wsin w = do {
     data \<leftarrow> pbuf_read (pb_payload p) (pb_len p) p;
     let type = wireguard_get_message_type data;
     if type = WIREGUARD_MSG_HANDSHAKE_INITIATION then do {
       (r, device, w) \<leftarrow> wireguard_iface_check_initiation_message device data wsin w;
       if r then
         (case wireguard_process_initiation_message dh device (initiation_of_bytes data) w of
            (None, device, w) \<Rightarrow> Some (device, w)
          | (Some i, device, w) \<Rightarrow>
              let (peer, w) = wireguard_iface_update_peer_addr (dev_peers device ! i) wsin w
              in wireguard_iface_send_handshake_response dh (upd_peer i peer device) i w)
       else Some (device, w) }
     else if type = WIREGUARD_MSG_HANDSHAKE_RESPONSE then do {
       (r, device, w) \<leftarrow> wireguard_iface_check_response_message device data wsin w;
       if r then
         (case wireguard_peer_lookup_by_handshake device (mr_receiver (response_of_bytes data)) of
            None \<Rightarrow> Some (device, w)
          | Some i \<Rightarrow>
              wireguard_iface_process_response_message dh device i (response_of_bytes data) wsin w)
       else Some (device, w) }
     else if type = WIREGUARD_MSG_COOKIE_REPLY then
       (case wireguard_peer_lookup_by_handshake device (mc_receiver (cookie_of_bytes data)) of
          None \<Rightarrow> Some (device, w)
        | Some i \<Rightarrow>
            let (ok, peer, w) =
                  wireguard_process_cookie_message (dev_peers device ! i) (cookie_of_bytes data) w;
                (peer, w) = (if ok then wireguard_iface_update_peer_addr peer wsin w else (peer, w))
            in Some (upd_peer i peer device, w))
     else if type = WIREGUARD_MSG_TRANSPORT_DATA then
       (case wireguard_peer_lookup_by_receiver device (mt_receiver (transport_of_bytes data)) of
          None \<Rightarrow> Some (device, w)
        | Some i \<Rightarrow>
            wireguard_iface_process_data_message device i (transport_of_bytes data)
              (pb_len p - 16) wsin w)
     else Some (device, w) }"

section \<open>The tunnel loop\<close>

text \<open>The relay header of a datagram from the relay port; the flag is \<open>r == 0\<close>.\<close>

definition mudband_tunnel_proxy_handler ::
  "pbuf \<Rightarrow> wireguard_sockaddr \<Rightarrow> world \<Rightarrow> (bool \<times> pbuf \<times> wireguard_sockaddr \<times> world) option" where
  "mudband_tunnel_proxy_handler p wsin w =
     (if \<not> pb_len p > 32 then None
      else do {
        hdr \<leftarrow> pbuf_read (pb_payload p) 32 p;
        if hdr ! 0 AND 0x0F \<noteq> 1 \<or> bslice 4 16 hdr \<noteq> w_band_uuid w
        then Some (False, p, wsin, stat (\<lambda>s. s\<lparr>n_udp_proxy_rx_errs := n_udp_proxy_rx_errs s + 1\<rparr>) w)
        else Some (True, p\<lparr>pb_payload := pb_payload p + 32, pb_len := pb_len p - 32\<rparr>,
               wsin\<lparr>ws_src_addr := U8TO32_LITTLE (bslice 20 4 hdr),
                    ws_dst_addr := U8TO32_LITTLE (bslice 24 4 hdr)\<rparr>,
               stat (\<lambda>s. s\<lparr>n_udp_proxy_rx_pkts := n_udp_proxy_rx_pkts s + 1,
                     bytes_udp_proxy_rx := bytes_udp_proxy_rx s + of_nat (pb_len p - 32)\<rparr>) w) })"

text \<open>\<open>read(2)\<close> and \<open>recvfrom(2)\<close> into a buffer of 2048 bytes: a longer packet is cut.\<close>

definition receive :: "bytes \<Rightarrow> world \<Rightarrow> (pbuf \<times> world) option" where
  "receive bs w = do {
     (p, w) \<leftarrow> buf_alloc 2048 w;
     let bs = take (pb_tot_len p) bs;
     p \<leftarrow> pbuf_write (pb_payload p) bs p;
     Some (p\<lparr>pb_len := length bs\<rparr>, w) }"

definition tunnel_tun ::
  "wireguard_device \<Rightarrow> bytes \<Rightarrow> world \<Rightarrow> (wireguard_device \<times> world) option" where
  "tunnel_tun device bs w = do {
     (p, w) \<leftarrow> receive bs w;
     iphdr \<leftarrow> pbuf_read (pb_payload p) 20 p;
     if drop_bit 4 (iphdr ! 0) AND 0x0F \<noteq> 4 then do {
       w \<leftarrow> buf_free p (stat (\<lambda>s. s\<lparr>n_no_ipv4_hdr := n_no_ipv4_hdr s + 1\<rparr>) w);
       Some (device, w) }
     else do {
       let w = stat (\<lambda>s. s\<lparr>n_tun_rx_pkts := n_tun_rx_pkts s + 1,
                           bytes_tun_rx := bytes_tun_rx s + of_nat (pb_len p)\<rparr>) w;
       (_, device, w) \<leftarrow> wireguard_iface_output device p (U8TO32_LITTLE (bslice 16 4 iphdr)) w;
       w \<leftarrow> buf_free p w;
       Some (device, w) } }"

text \<open>The relay addresses of \<open>wsin\<close> are not initialised; they are read only when \<open>from_it\<close> is set.\<close>

definition tunnel_udp ::
  "(bytes \<Rightarrow> bytes \<Rightarrow> bytes) \<Rightarrow> wireguard_device \<Rightarrow> u32 \<Rightarrow> u16 \<Rightarrow> bytes \<Rightarrow> world \<Rightarrow>
     (wireguard_device \<times> world) option" where
  "tunnel_udp dh device addr port bs w = do {
     (p, w) \<leftarrow> receive bs w;
     let w = stat (\<lambda>s. s\<lparr>n_udp_rx_pkts := n_udp_rx_pkts s + 1,
                         bytes_udp_rx := bytes_udp_rx s + of_nat (pb_len p)\<rparr>) w;
     let wsin = \<lparr>ws_addr = addr, ws_port = port, ws_from_it = (port = 82), ws_src_addr = 0,
                 ws_dst_addr = 0\<rparr>;
     (ok, p, wsin, w) \<leftarrow> (if port = 82 then mudband_tunnel_proxy_handler p wsin w
                           else Some (True, p, wsin, w));
     if ok then do {
       (device, w) \<leftarrow> wireguard_iface_network_rx dh device p wsin w;
       w \<leftarrow> buf_free p w;
       Some (device, w) }
     else do { w \<leftarrow> buf_free p w; Some (device, w) } }"

end
