(* ===== verification/Iface_Send.thy ===== *)
theory Iface_Send
  imports Iface_Output
begin

text \<open>
  What the sending half of the interface layer guarantees: the datagram that a packet becomes, that
  sending does not fail, that nonces are not reused, and how messages to several endpoints look.
\<close>

section \<open>Sending one datagram\<close>

definition datagram :: "world \<Rightarrow> bool \<Rightarrow> u32 \<Rightarrow> u32 \<Rightarrow> bytes \<Rightarrow> bytes" where
  "datagram w is_proxy src_addr dst_addr bs =
     (if is_proxy then proxy_pkthdr (w_band_uuid w) src_addr dst_addr else []) @ bs"

lemma length_proxy_pkthdr [simp, len_simps]: "length (proxy_pkthdr u s d) = 16 + length u"
  by (simp add: proxy_pkthdr_def)

text \<open>The effect of sending on the world: the next result of \<open>sendto\<close> is consumed, the datagram is
  sent if that is \<open>Sent\<close>, and the statistics change.\<close>

definition sent :: "u32 \<Rightarrow> u16 \<Rightarrow> bytes \<Rightarrow> world \<Rightarrow> world \<Rightarrow> bool" where
  "sent ip port bs w w' \<longleftrightarrow> (\<exists>st. w' = w\<lparr>w_sendto_pos := w_sendto_pos w + 1,
     w_out := w_out w @ (if w_sendto w (w_sendto_pos w) = Sent then [Udp_out ip port bs] else []),
     wg_stat := st\<rparr>)"

lemma write_before:
  assumes "32 \<le> buf" and "buf \<le> length m" and "length h = 32"
  shows "bslice (buf - 32) (n + 32) (take (buf - 32) m @ h @ drop buf m) = h @ bslice buf n m"
  using assms by (simp add: bslice_def)

lemma send_datagram_ok:
  assumes "buf + buflen \<le> length (pb_mem p)" and "is_proxy \<longrightarrow> 32 \<le> buf" and "length (w_band_uuid w) = 16"
  shows "\<exists>m w'. send_datagram is_proxy src dst ip port p buf buflen w =
      Some (w_sendto w (w_sendto_pos w) = Sent, p\<lparr>pb_mem := m\<rparr>,
        if is_proxy then buf - 32 else buf, if is_proxy then buflen + 32 else buflen, w') \<and>
    length m = length (pb_mem p) \<and>
    bslice (if is_proxy then buf - 32 else buf) (if is_proxy then buflen + 32 else buflen) m =
      datagram w is_proxy src dst (bslice buf buflen (pb_mem p)) \<and>
    sent ip port (datagram w is_proxy src dst (bslice buf buflen (pb_mem p))) w w'"
proof (cases is_proxy)
  case True
  let ?h = "proxy_pkthdr (w_band_uuid w) src dst"
  let ?m = "take (buf - 32) (pb_mem p) @ ?h @ drop buf (pb_mem p)"
  have h: "length ?h = 32" using assms(3) by simp
  have b: "32 \<le> buf" "buf \<le> length (pb_mem p)" using assms True by auto
  have wr: "pbuf_write (buf - 32) ?h p = Some (p\<lparr>pb_mem := ?m\<rparr>)"
    using b h by (simp add: pbuf_write_def)
  have rd: "pbuf_read (buf - 32) (buflen + 32) (p\<lparr>pb_mem := ?m\<rparr>) = Some (?h @ bslice buf buflen (pb_mem p))"
    using write_before [OF b h, of buflen] assms(1) b h by (simp add: pbuf_read_def)
  have "\<exists>w'. send_datagram is_proxy src dst ip port p buf buflen w =
      Some (w_sendto w (w_sendto_pos w) = Sent, p\<lparr>pb_mem := ?m\<rparr>, buf - 32, buflen + 32, w') \<and>
      sent ip port (?h @ bslice buf buflen (pb_mem p)) w w'"
    using True b(1) wr rd
    by (cases "w_sendto w (w_sendto_pos w)")
      (auto simp: send_datagram_def wireguard_iface_prepend_proxy_pkthdr_def sendto_def stat_def sent_def Let_def)
  then obtain w' where w': "send_datagram is_proxy src dst ip port p buf buflen w =
      Some (w_sendto w (w_sendto_pos w) = Sent, p\<lparr>pb_mem := ?m\<rparr>, buf - 32, buflen + 32, w')"
      "sent ip port (?h @ bslice buf buflen (pb_mem p)) w w'" by blast
  have "length ?m = length (pb_mem p)" using b h by simp
  with w' write_before [OF b h] show ?thesis
    unfolding datagram_def if_P [OF True] by (intro exI conjI)
next
  case False
  have rd: "pbuf_read buf buflen p = Some (bslice buf buflen (pb_mem p))"
    using assms(1) by (simp add: pbuf_read_def)
  have "\<exists>w'. send_datagram is_proxy src dst ip port p buf buflen w =
      Some (w_sendto w (w_sendto_pos w) = Sent, p\<lparr>pb_mem := pb_mem p\<rparr>, buf, buflen, w') \<and>
      sent ip port (bslice buf buflen (pb_mem p)) w w'"
    using False rd
    by (cases "w_sendto w (w_sendto_pos w)")
      (auto simp: send_datagram_def sendto_def stat_def sent_def Let_def)
  then obtain w' where "send_datagram is_proxy src dst ip port p buf buflen w =
      Some (w_sendto w (w_sendto_pos w) = Sent, p\<lparr>pb_mem := pb_mem p\<rparr>, buf, buflen, w')"
      "sent ip port (bslice buf buflen (pb_mem p)) w w'" by blast
  then show ?thesis
    unfolding datagram_def if_not_P [OF False] append_Nil by (intro exI conjI) simp_all
qed

section \<open>Sealing\<close>

lemma and_FFFFFFF0: "(x :: u64) AND 0xFFFFFFF0 = push_bit 4 (drop_bit 4 (take_bit 32 x))"
proof -
  have *: "(0xFFFFFFF0 :: u64) = push_bit 4 (mask 28)" by (simp add: mask_eq_exp_minus_1 push_bit_eq_mult)
  show ?thesis unfolding * by (rule bit_word_eqI) (auto simp: bit_simps)
qed

lemma padded_len_eq: "n < 2 ^ 31 \<Longrightarrow> padded_len n = (n + 15) div 16 * 16"
proof -
  assume n: "n < 2 ^ 31"
  have u: "unat (of_nat n + 15 :: u64) = n + 15" using n by (simp add: unat_word_ariths unat_of_nat)
  have "unat (push_bit 4 (drop_bit 4 (take_bit 32 (of_nat n + 15 :: u64)))) = (n + 15) div 16 * 16"
    using n u by (simp add: push_bit_eq_mult unat_word_ariths unat_drop_bit unat_take_bit)
  then show ?thesis by (simp add: padded_len_def and_FFFFFFF0)
qed

text \<open>A packet read into a buffer, or the absence of one for a keep-alive.\<close>

definition packet_ok :: "pbuf option \<Rightarrow> bool" where
  "packet_ok p \<longleftrightarrow> (case p of None \<Rightarrow> True
     | Some p \<Rightarrow> pb_payload p + pb_len p \<le> length (pb_mem p) \<and> pb_len p \<le> 2016)"

definition packet_data :: "pbuf option \<Rightarrow> bytes" where
  "packet_data p = (case p of None \<Rightarrow> [] | Some p \<Rightarrow> pbuf_data p)"

definition transport_packet :: "wireguard_keypair \<Rightarrow> bytes \<Rightarrow> bytes" where
  "transport_packet keypair plain = transport_bytes \<lparr>mt_type = WIREGUARD_MSG_TRANSPORT_DATA,
     mt_reserved = [0, 0, 0], mt_receiver = kp_remote_index keypair,
     mt_counter = U64TO8_LITTLE (sending_counter keypair),
     mt_enc_packet = fst (wireguard_encrypt_packet plain keypair)\<rparr>"

text \<open>What the padding consists of: the bytes behind the packet in the buffer that the pool hands
  out for the datagram.\<close>

definition stale_bytes :: "nat \<Rightarrow> world \<Rightarrow> bytes" where
  "stale_bytes n w = (case pbuf_alloc (16 + padded_len n + 16) (w_pool w) of
     None \<Rightarrow> [] | Some (q, _) \<Rightarrow> bslice (144 + n) (padded_len n - n) (pb_mem q))"

text \<open>The three stores into the memory of a fresh buffer.\<close>

lemma seal_memory:
  assumes "length m = 288 + k" and "length h = 16" and "length d \<le> k"
  defines "m1 \<equiv> take 128 m @ h @ drop 144 m"
  defines "m2 \<equiv> take 144 m1 @ d @ drop (144 + length d) m1"
  shows "length m1 = 288 + k" and "length m2 = 288 + k"
    and "bslice 144 k m2 = d @ bslice (144 + length d) (k - length d) m"
    and "length enc = k + 16 \<Longrightarrow> bslice 128 (32 + k) (take 144 m2 @ enc @ drop (160 + k) m2) = h @ enc"
  using assms(1-3) by (simp_all add: m1_def m2_def bslice_def add.commute)

lemma length_encrypt_packet [simp]: "length (fst (wireguard_encrypt_packet p kp)) = length p + 16"
  by (simp add: wireguard_encrypt_packet_def)

lemma snd_encrypt_packet:
  "snd (wireguard_encrypt_packet p kp) = kp\<lparr>sending_counter := sending_counter kp + 1\<rparr>"
  by (simp add: wireguard_encrypt_packet_def)

lemma pbuf_write_Nil: "off \<le> length (pb_mem q) \<Longrightarrow> pbuf_write off [] q = Some q"
  by (simp add: pbuf_write_def)

lemma packet_data_length:
  "packet_ok p \<Longrightarrow> length (packet_data p) = (case p of Some p \<Rightarrow> pb_len p | None \<Rightarrow> 0)"
  by (auto simp: packet_ok_def packet_data_def pbuf_data_def split: option.splits)

lemma padded_len_bounds: "n \<le> 2016 \<Longrightarrow> n \<le> padded_len n \<and> padded_len n \<le> 2016 \<and> (padded_len n = 0 \<longleftrightarrow> n = 0)"
  by (simp add: padded_len_eq) presburger

lemma copy_packet:
  assumes "packet_ok p" and "n = (case p of Some p \<Rightarrow> pb_len p | None \<Rightarrow> 0)" and "dst \<le> length (pb_mem q)"
  shows "(case p of
       Some p \<Rightarrow> if padded_len n > 0
         then do { (m, bs) \<leftarrow> pbuf_copy_partial [p] (of_nat n) 0; pbuf_write dst bs q } else Some q
     | None \<Rightarrow> Some q) = pbuf_write dst (packet_data p) q"
proof (cases p)
  case None
  then show ?thesis using assms(3) by (simp add: packet_data_def pbuf_write_Nil)
next
  case (Some pb)
  have ok: "pb_payload pb + pb_len pb \<le> length (pb_mem pb)" "pb_len pb \<le> 2016" and n: "n = pb_len pb"
    using assms(1,2) Some by (auto simp: packet_ok_def)
  have u: "unat (of_nat n :: u16) = n" using ok n by (simp add: unat_of_nat)
  have "chain_ok [pb]" "chain_len [pb] = n" using ok n by (simp_all add: chain_ok_def chain_len_def)
  with copy_partial_prefix [of "[pb]" "of_nat n"] u
  have "pbuf_copy_partial [pb] (of_nat n) 0 = Some (of_nat n, take n (pbuf_data pb))" by simp
  moreover have "take n (pbuf_data pb) = pbuf_data pb" using n by (simp add: pbuf_data_def)
  moreover have "pbuf_data pb = []" if "padded_len n = 0"
    using that padded_len_bounds [of n] ok n by (simp add: pbuf_data_def bslice_def)
  ultimately show ?thesis
    using Some assms(3) by (cases "padded_len n = 0") (simp_all add: packet_data_def pbuf_write_Nil)
qed

lemma seal_packet_ok:
  assumes inv: "pool_inv (w_pool w)" and ok: "packet_ok p"
  shows "\<exists>q pool'. seal_packet p kp w =
      Some (q, snd (wireguard_encrypt_packet (packet_data p @ stale_bytes (length (packet_data p)) w) kp),
            w\<lparr>w_pool := pool'\<rparr>) \<and>
    pool_inv pool' \<and> pbuf_wf q \<and> pb_payload q = 128 \<and> pb_payload q + pb_len q \<le> length (pb_mem q) \<and>
    pbuf_data q = transport_packet kp (packet_data p @ stale_bytes (length (packet_data p)) w)"
proof -
  define n where "n = length (packet_data p)"
  have n': "n = (case p of Some p \<Rightarrow> pb_len p | None \<Rightarrow> 0)" unfolding n_def by (rule packet_data_length [OF ok])
  have n: "n \<le> 2016" unfolding n' using ok by (auto simp: packet_ok_def split: option.splits)
  let ?k = "padded_len n" and ?d = "packet_data p"
  have k: "n \<le> ?k" "?k \<le> 2016" using padded_len_bounds [OF n] by auto
  then have "16 + ?k + 16 \<le> 2048" by simp
  from pool.alloc_succeeds [OF inv this] obtain q0 pool' where
    a: "pbuf_alloc (16 + ?k + 16) (w_pool w) = Some (q0, pool')" and fr: "pbuf_fresh (16 + ?k + 16) q0"
    and inv': "pool_inv pool'" by blast
  define m where "m = pb_mem q0"
  define h where "h = [WIREGUARD_MSG_TRANSPORT_DATA, 0, 0, 0] @ U32TO8_LITTLE (kp_remote_index kp) @
      U64TO8_LITTLE (sending_counter kp)"
  have lm: "length m = 288 + ?k" and q0: "pb_payload q0 = 128" "pb_len q0 = 32 + ?k" "pbuf_wf q0"
    using fr by (auto simp: pbuf_fresh_def pbuf_wf_def m_def)
  have lh: "length h = 16" by (simp add: h_def)
  have ld: "length ?d \<le> ?k" using k by (simp add: n_def)
  define m1 where "m1 = take 128 m @ h @ drop 144 m"
  define m2 where "m2 = take 144 m1 @ ?d @ drop (144 + length ?d) m1"
  note mem = seal_memory [OF lm lh ld, folded m1_def, folded m2_def]
  let ?src = "?d @ stale_bytes n w"
  have st: "stale_bytes n w = bslice (144 + n) (?k - n) m" unfolding stale_bytes_def a m_def by simp
  define enc where "enc = fst (wireguard_encrypt_packet ?src kp)"
  have le: "length enc = ?k + 16" using k lm by (simp add: enc_def st flip: n_def)
  define m3 where "m3 = take 144 m2 @ enc @ drop (160 + ?k) m2"
  have w1: "pbuf_write 128 h q0 = Some (q0\<lparr>pb_mem := m1\<rparr>)"
    using lm lh by (simp add: pbuf_write_def m1_def m_def)
  have w2: "pbuf_write 144 ?d (q0\<lparr>pb_mem := m1\<rparr>) = Some (q0\<lparr>pb_mem := m2\<rparr>)"
    using mem(1) ld by (simp add: pbuf_write_def m2_def)
  have r: "pbuf_read 144 ?k (q0\<lparr>pb_mem := m2\<rparr>) = Some ?src"
    using mem(2,3) unfolding pbuf_read_def n_def st [unfolded n_def] by simp
  have w3: "pbuf_write 144 enc (q0\<lparr>pb_mem := m2\<rparr>) = Some (q0\<lparr>pb_mem := m3\<rparr>)"
    using mem(2) le by (simp add: pbuf_write_def m3_def)
  let ?q1 = "q0\<lparr>pb_mem := m1\<rparr>"
  have w2': "pbuf_write (pb_payload ?q1 + 16) ?d ?q1 = Some (q0\<lparr>pb_mem := m2\<rparr>)" using w2 q0(1) by simp
  have "pb_payload ?q1 + 16 \<le> length (pb_mem ?q1)" using mem(1) q0(1) by simp
  note c = copy_packet [OF ok n' this, unfolded w2']
  have "seal_packet p kp w = Some (q0\<lparr>pb_mem := m3\<rparr>, snd (wireguard_encrypt_packet ?src kp), w\<lparr>w_pool := pool'\<rparr>)"
    unfolding seal_packet_def Let_def n' [symmetric] buf_alloc_def a h_def [symmetric]
      Option.bind.bind_lunit prod.case q0(1) w1 c
    using r w3 q0(1) by (simp add: case_prod_beta enc_def)
  moreover have "pbuf_data (q0\<lparr>pb_mem := m3\<rparr>) = h @ enc"
    using mem(4) [OF le] q0 by (simp add: pbuf_data_def m3_def)
  moreover have "length m3 = 288 + ?k" using mem(2) le by (simp add: m3_def)
  moreover have "h @ enc = transport_packet kp ?src"
    by (simp add: h_def enc_def transport_packet_def transport_bytes_def)
  ultimately show ?thesis using q0 inv' lm unfolding n_def
    by (intro exI conjI) (auto simp: pbuf_wf_def m_def)
qed

section \<open>Transport output\<close>

lemma peer_output_single:
  assumes "pb_payload q + pb_len q \<le> length (pb_mem q)" and "32 \<le> pb_payload q" and "length (w_band_uuid w) = 16"
  shows "\<exists>q' w'. wireguard_iface_peer_output device q peer False w =
      Some (if w_sendto w (w_sendto_pos w) = Sent then 0 else -1, q', w') \<and>
    (pbuf_wf q \<longrightarrow> pbuf_wf q') \<and>
    sent (endpoint_latest_ip peer) (endpoint_latest_port peer)
      (datagram w (endpoint_latest_is_proxy peer) (dev_iface_addr device) (peer_iface_addr peer) (pbuf_data q)) w w'"
proof -
  obtain m buf' buflen' w' where s: "send_datagram (endpoint_latest_is_proxy peer) (dev_iface_addr device)
      (peer_iface_addr peer) (endpoint_latest_ip peer) (endpoint_latest_port peer)
      q (pb_payload q) (pb_len q) w =
      Some (w_sendto w (w_sendto_pos w) = Sent, q\<lparr>pb_mem := m\<rparr>, buf', buflen', w')"
    "length m = length (pb_mem q)"
    "sent (endpoint_latest_ip peer) (endpoint_latest_port peer)
      (datagram w (endpoint_latest_is_proxy peer) (dev_iface_addr device) (peer_iface_addr peer)
        (bslice (pb_payload q) (pb_len q) (pb_mem q))) w w'"
    using send_datagram_ok [OF assms(1) impI [OF assms(2)] assms(3)] by blast
  have "wireguard_iface_peer_output device q peer False w =
      Some (if w_sendto w (w_sendto_pos w) = Sent then 0 else -1, q\<lparr>pb_mem := m\<rparr>, w')"
    by (simp add: wireguard_iface_peer_output_def s(1))
  moreover have "pbuf_wf q \<longrightarrow> pbuf_wf (q\<lparr>pb_mem := m\<rparr>)" using s(2) by (simp add: pbuf_wf_def)
  ultimately show ?thesis using s(3) unfolding pbuf_data_def by blast
qed

definition can_seal :: "wireguard_peer \<Rightarrow> wireguard_keypair \<Rightarrow> u32 \<Rightarrow> bool" where
  "can_seal peer kp now \<longleftrightarrow> kp_valid kp \<and> (kp_initiator kp \<or> kp_last_rx kp \<noteq> 0) \<and>
     now - keypair_millis kp < ucast (timeout_reject_after_time peer) * 1000 \<and>
     sending_counter kp < WIREGUARD_REJECT_AFTER_MESSAGES"

text \<open>What sending a packet (or a keep-alive) to peer \<open>i\<close> does.\<close>

definition transport_sent ::
  "wireguard_device \<Rightarrow> bytes \<Rightarrow> nat \<Rightarrow> world \<Rightarrow> int \<Rightarrow> wireguard_device \<Rightarrow> world \<Rightarrow> bool" where
  "transport_sent device dat i w r device' w' \<longleftrightarrow>
     (let peer = dev_peers device ! i; s = sending_slot peer; kp = keypair_at peer s;
          kp' = keypair_at (dev_peers device' ! i) s;
          plain = dat @ stale_bytes (length dat) w
      in if can_seal peer kp (w_clock w (w_clock_pos w))
         then r = 0 \<and>
           w_out w' = w_out w @ (if w_sendto w (w_sendto_pos w) = Sent
             then [Udp_out (endpoint_latest_ip peer) (endpoint_latest_port peer)
                    (datagram w (endpoint_latest_is_proxy peer) (dev_iface_addr device)
                      (peer_iface_addr peer) (transport_packet kp plain))]
             else []) \<and>
           unat (sending_counter kp') = unat (sending_counter kp) + 1 \<and>
           sending_key kp' = sending_key kp \<and> kp_valid kp'
         else r = -1 \<and> w_out w' = w_out w)"

lemma upd_peer_nth [simp]: "i < length (dev_peers device) \<Longrightarrow> dev_peers (upd_peer i p device) ! i = p"
  by (simp add: upd_peer_def)

lemma length_upd_peer [simp]: "length (dev_peers (upd_peer i p device)) = length (dev_peers device)"
  by (simp add: upd_peer_def)

lemma keypair_at_set [simp]: "keypair_at (set_keypair s kp p) s = kp"
  by (cases s) (simp_all add: keypair_at_def set_keypair_def)

lemma endpoint_set_keypair [simp]:
  "endpoint_latest_ip (set_keypair s kp p) = endpoint_latest_ip p"
  "endpoint_latest_port (set_keypair s kp p) = endpoint_latest_port p"
  "endpoint_latest_is_proxy (set_keypair s kp p) = endpoint_latest_is_proxy p"
  "peer_iface_addr (set_keypair s kp p) = peer_iface_addr p"
  by (cases s; simp add: set_keypair_def)+

lemma counter_Suc:
  "c < WIREGUARD_REJECT_AFTER_MESSAGES \<Longrightarrow> unat (c + 1) = unat c + 1"
proof -
  assume "c < WIREGUARD_REJECT_AFTER_MESSAGES"
  then have "unat c < unat (WIREGUARD_REJECT_AFTER_MESSAGES)" by (simp only: word_less_nat_alt)
  then have "unat c < 2 ^ 64 - 1" by (simp add: WIREGUARD_REJECT_AFTER_MESSAGES_def)
  then show ?thesis by (simp add: unat_word_ariths)
qed

text \<open>The test of the key, as a function of the next reading of the clock.\<close>

definition tick :: "world \<Rightarrow> world" where
  "tick w = w\<lparr>w_clock_pos := w_clock_pos w + 1\<rparr>"

lemma expired_eq:
  "wireguard_expired t v w = (\<not> w_clock w (w_clock_pos w) - t < v * 1000, tick w)"
  by (simp add: wireguard_expired_def wireguard_sys_now_def Let_def not_less tick_def)

lemma sys_now_eq: "wireguard_sys_now w = (w_clock w (w_clock_pos w), tick w)"
  by (simp add: wireguard_sys_now_def tick_def)

lemma tick_simps [simp]:
  "w_out (tick w) = w_out w" "w_pool (tick w) = w_pool w" "w_sendto (tick w) = w_sendto w"
  "w_sendto_pos (tick w) = w_sendto_pos w" "w_band_uuid (tick w) = w_band_uuid w"
  "w_clock (tick w) = w_clock w"
  "stale_bytes n (tick w) = stale_bytes n w" "datagram (tick w) = datagram w"
  by (simp_all add: tick_def stale_bytes_def datagram_def fun_eq_iff)

lemma datagram_pool [simp]: "datagram (w\<lparr>w_pool := pool\<rparr>) = datagram w"
  by (simp add: datagram_def fun_eq_iff)

lemma output_to_peer_unfold:
  assumes "peer = dev_peers device ! i" and "s = sending_slot peer" and "kp = keypair_at peer s"
  shows "can_seal peer kp (w_clock w (w_clock_pos w)) \<Longrightarrow>
      wireguard_iface_output_to_peer device p i w = transmit device p i s (tick w)"
    and "\<not> can_seal peer kp (w_clock w (w_clock_pos w)) \<Longrightarrow>
      \<exists>device' w'. wireguard_iface_output_to_peer device p i w = Some (-1, device', w') \<and> (w' = w \<or> w' = tick w)"
  unfolding wireguard_iface_output_to_peer_def Let_def expired_eq prod.case can_seal_def assms by auto

definition session_kept :: "wireguard_keypair \<Rightarrow> wireguard_keypair \<Rightarrow> bool" where
  "session_kept kp kp' \<longleftrightarrow> kp_valid kp' = kp_valid kp \<and> kp_initiator kp' = kp_initiator kp \<and>
     kp_last_rx kp' = kp_last_rx kp \<and> sending_key kp' = sending_key kp"

lemma keypair_at_peer_updates [simp]:
  "keypair_at (p\<lparr>peer_last_tx := t\<rparr>) s = keypair_at p s" "keypair_at (p\<lparr>send_handshake := b\<rparr>) s = keypair_at p s"
  by (cases s; simp add: keypair_at_def)+

lemma transmit_ok:
  assumes i: "i < length (dev_peers device)" and inv: "pool_inv (w_pool w)" and ok: "packet_ok p"
    and u: "length (w_band_uuid w) = 16" and peer: "peer = dev_peers device ! i"
    and kp: "kp = keypair_at peer s"
  shows "\<exists>kp' peer' w'. transmit device p i s w = Some (0, upd_peer i (set_keypair s kp' peer') device, w') \<and>
    pool_inv (w_pool w') \<and> w_band_uuid w' = w_band_uuid w \<and> w_sendto w' = w_sendto w \<and> session_kept kp kp' \<and>
    sending_counter kp' = sending_counter kp + 1 \<and> (\<forall>t. keypair_at peer' t = keypair_at peer t) \<and>
    w_out w' = w_out w @ (if w_sendto w (w_sendto_pos w) = Sent
             then [Udp_out (endpoint_latest_ip peer) (endpoint_latest_port peer)
                    (datagram w (endpoint_latest_is_proxy peer) (dev_iface_addr device)
                      (peer_iface_addr peer)
                      (transport_packet kp (packet_data p @ stale_bytes (length (packet_data p)) w)))]
             else [])"
proof -
  obtain q pool' where q: "seal_packet p kp w =
        Some (q, kp\<lparr>sending_counter := sending_counter kp + 1\<rparr>, w\<lparr>w_pool := pool'\<rparr>)"
        "pool_inv pool'" "pbuf_wf q" "pb_payload q = 128" "pb_payload q + pb_len q \<le> length (pb_mem q)"
        "pbuf_data q = transport_packet kp (packet_data p @ stale_bytes (length (packet_data p)) w)"
    using seal_packet_ok [OF inv ok, of kp] unfolding snd_encrypt_packet by blast
  let ?kp = "kp\<lparr>sending_counter := sending_counter kp + 1\<rparr>" and ?w1 = "w\<lparr>w_pool := pool'\<rparr>"
  have "32 \<le> pb_payload q" "length (w_band_uuid ?w1) = 16" using q(4) u by simp_all
  from peer_output_single [OF q(5) this, of device "set_keypair s ?kp peer"] obtain q' w2 where
    o: "wireguard_iface_peer_output device q (set_keypair s ?kp peer) False ?w1 =
      Some (if w_sendto w (w_sendto_pos w) = Sent then 0 else -1, q', w2)" "pbuf_wf q'"
    "sent (endpoint_latest_ip peer) (endpoint_latest_port peer) (datagram w (endpoint_latest_is_proxy peer)
      (dev_iface_addr device) (peer_iface_addr peer) (pbuf_data q)) ?w1 w2"
    using q(3) unfolding endpoint_set_keypair datagram_pool by auto
  have out: "w_out w2 = w_out w @ (if w_sendto w (w_sendto_pos w) = Sent
      then [Udp_out (endpoint_latest_ip peer) (endpoint_latest_port peer)
              (datagram w (endpoint_latest_is_proxy peer) (dev_iface_addr device) (peer_iface_addr peer) (pbuf_data q))]
      else [])" and pl: "w_pool w2 = pool'" "w_band_uuid w2 = w_band_uuid w" "w_sendto w2 = w_sendto w"
    using o(3) by (auto simp: sent_def)
  let ?r = "if w_sendto w (w_sendto_pos w) = Sent then 0 else -1 :: int"
  obtain peer3 kp3 w3 where t3: "(if ?r = 0 then case wireguard_sys_now w2 of (now, w) \<Rightarrow>
      (peer\<lparr>peer_last_tx := now\<rparr>, ?kp\<lparr>kp_last_tx := now\<rparr>, w) else (peer, ?kp, w2)) = (peer3, kp3, w3)"
    by (rule prod_cases3)
  then have k3: "session_kept kp kp3" "sending_counter kp3 = sending_counter kp + 1"
      "\<And>t. keypair_at peer3 t = keypair_at peer t"
    and w3: "w_pool w3 = pool'" "w_out w3 = w_out w2" "w_band_uuid w3 = w_band_uuid w" "w_sendto w3 = w_sendto w"
    using pl by (auto simp: sys_now_eq session_kept_def split: if_splits)
  have "pool_inv (w_pool w3)" using q(2) w3 by simp
  from pool.free_succeeds [OF this o(2)] obtain pool'' where
    f: "pbuf_free q' (w_pool w3) = Some pool''" "pool_inv pool''" by blast
  let ?w = "w3\<lparr>w_pool := pool''\<rparr>"
  obtain rk w4 where rk: "(if sending_counter kp3 \<ge> WIREGUARD_REKEY_AFTER_MESSAGES then (True, ?w)
        else if kp_initiator kp3
        then wireguard_expired (keypair_millis kp3) (ucast (timeout_rekey_after_time peer3)) ?w
        else (False, ?w)) = (rk, w4)" by fastforce
  have "w4 = ?w \<or> w4 = tick ?w" using rk unfolding expired_eq by (auto split: if_splits)
  then have w4: "w_pool w4 = pool''" "w_out w4 = w_out w2" "w_band_uuid w4 = w_band_uuid w" "w_sendto w4 = w_sendto w"
    using w3(2-4) by auto
  have "transmit device p i s w =
      Some (0, upd_peer i (set_keypair s kp3 (if rk then peer3\<lparr>send_handshake := True\<rparr> else peer3)) device, w4)"
    unfolding transmit_def Let_def peer [symmetric] kp [symmetric]
      q(1) o(1) Option.bind.bind_lunit prod.case t3 buf_free_def f(1) rk by simp
  moreover have "\<forall>t. keypair_at (if rk then peer3\<lparr>send_handshake := True\<rparr> else peer3) t = keypair_at peer t"
    using k3(3) by simp
  ultimately show ?thesis using w4 out f(2) k3(1,2) unfolding q(6) by (intro exI conjI) simp_all
qed

lemma sending_slot_cong:
  assumes "\<And>t. keypair_at p' t = (if t = sending_slot p then kp' else keypair_at p t)"
    and "session_kept (keypair_at p (sending_slot p)) kp'"
  shows "sending_slot p' = sending_slot p"
  using assms(1) [of Curr] assms(2)
  by (cases "sending_slot p = Curr") (auto simp: sending_slot_def session_kept_def keypair_at_def Let_def split: if_splits)

lemma keypair_at_set_keypair: "keypair_at (set_keypair s kp p) t = (if t = s then kp else keypair_at p t)"
  by (cases s; cases t) (simp_all add: keypair_at_def set_keypair_def)

lemma output_to_peer_slot:
  assumes i: "i < length (dev_peers device)" and inv: "pool_inv (w_pool w)" and ok: "packet_ok p"
    and u: "length (w_band_uuid w) = 16" and peer: "peer = dev_peers device ! i"
    and s: "s = sending_slot peer"
  shows "\<exists>r device' w'. wireguard_iface_output_to_peer device p i w = Some (r, device', w') \<and>
    pool_inv (w_pool w') \<and> length (w_band_uuid w') = 16 \<and> w_sendto w' = w_sendto w \<and>
    i < length (dev_peers device') \<and> sending_slot (dev_peers device' ! i) = s \<and>
    (if r = 0
     then unat (sending_counter (keypair_at (dev_peers device' ! i) s)) =
            unat (sending_counter (keypair_at peer s)) + 1 \<and> kp_valid (keypair_at peer s) \<and>
          sending_key (keypair_at (dev_peers device' ! i) s) = sending_key (keypair_at peer s)
     else device' = device \<or> \<not> kp_valid (keypair_at (dev_peers device' ! i) s))"
proof (cases "can_seal peer (keypair_at peer s) (w_clock w (w_clock_pos w))")
  case True
  obtain kp' peer' w' where t: "transmit device p i s (tick w) = Some (0, upd_peer i (set_keypair s kp' peer') device, w')"
      "pool_inv (w_pool w')" "session_kept (keypair_at peer s) kp'" "sending_counter kp' = sending_counter (keypair_at peer s) + 1"
      "\<forall>t. keypair_at peer' t = keypair_at peer t" "w_band_uuid w' = w_band_uuid w" "w_sendto w' = w_sendto w"
    using transmit_ok [OF i _ ok _ peer refl, of "tick w" s] inv u unfolding tick_simps by blast
  have "sending_slot (set_keypair s kp' peer') = s"
    using sending_slot_cong [of "set_keypair s kp' peer'" peer kp'] t(3,5) unfolding s
    by (simp add: keypair_at_set_keypair)
  then show ?thesis
    unfolding output_to_peer_unfold(1) [OF peer s refl True] t(1)
    using t(2-7) True i u by (simp add: can_seal_def counter_Suc session_kept_def)
next
  case False
  let ?d = "wireguard_keypair_destroy s peer"
  have "sending_slot ?d = s" using s
    by (cases s) (auto simp: wireguard_keypair_destroy_def sending_slot_def set_keypair_def keypair_zero_def Let_def split: if_splits)
  moreover have "\<not> kp_valid (keypair_at ?d s)"
    by (simp add: wireguard_keypair_destroy_def)
  ultimately show ?thesis
    using False inv u i unfolding wireguard_iface_output_to_peer_def Let_def peer [symmetric] s [symmetric] expired_eq
      prod.case can_seal_def by (auto simp: peer s)
qed

lemma output_to_peer_ok:
  assumes i: "i < length (dev_peers device)" and inv: "pool_inv (w_pool w)" and ok: "packet_ok p"
    and u: "length (w_band_uuid w) = 16"
  shows "\<exists>r device' w'. wireguard_iface_output_to_peer device p i w = Some (r, device', w') \<and>
    pool_inv (w_pool w') \<and> transport_sent device (packet_data p) i w r device' w'"
proof -
  let ?peer = "dev_peers device ! i"
  let ?s = "sending_slot ?peer"
  let ?kp = "keypair_at ?peer ?s"
  show ?thesis
  proof (cases "can_seal ?peer ?kp (w_clock w (w_clock_pos w))")
    case False
    from output_to_peer_unfold(2) [OF refl refl refl False] obtain device' w' where
      "wireguard_iface_output_to_peer device p i w = Some (-1, device', w')" "w' = w \<or> w' = tick w" by blast
    then show ?thesis using inv False by (auto simp: transport_sent_def Let_def)
  next
    case True
    then have c: "kp_valid ?kp" "unat (sending_counter ?kp + 1) = unat (sending_counter ?kp) + 1"
      by (simp_all add: can_seal_def counter_Suc)
    obtain kp' peer' w' where t: "transmit device p i ?s (tick w) = Some (0, upd_peer i (set_keypair ?s kp' peer') device, w')"
      "pool_inv (w_pool w')" "session_kept ?kp kp'" "sending_counter kp' = sending_counter ?kp + 1"
      "\<forall>t. keypair_at peer' t = keypair_at ?peer t" "w_band_uuid w' = w_band_uuid w"
      "w_out w' = w_out (tick w) @ (if w_sendto (tick w) (w_sendto_pos (tick w)) = Sent
             then [Udp_out (endpoint_latest_ip ?peer) (endpoint_latest_port ?peer)
                    (datagram (tick w) (endpoint_latest_is_proxy ?peer) (dev_iface_addr device)
                      (peer_iface_addr ?peer)
                      (transport_packet ?kp (packet_data p @ stale_bytes (length (packet_data p)) (tick w))))]
             else [])"
      using transmit_ok [OF i _ ok _ refl refl, of "tick w" ?s] inv u by (simp only: tick_simps) blast
    have "transport_sent device (packet_data p) i w 0 (upd_peer i (set_keypair ?s kp' peer') device) w'"
      unfolding transport_sent_def Let_def if_P [OF True] upd_peer_nth [OF i] keypair_at_set t(4,7) tick_simps
      using c t(3) by (simp add: session_kept_def)
    then show ?thesis
      unfolding output_to_peer_unfold(1) [OF refl refl refl True] t(1) using t(2) by blast
  qed
qed

section \<open>Nonces\<close>

text \<open>A sequence of packets and keep-alives to one peer, with the results of the calls.\<close>

fun send_run ::
  "wireguard_device \<Rightarrow> pbuf option list \<Rightarrow> nat \<Rightarrow> world \<Rightarrow> (int list \<times> wireguard_device \<times> world) option" where
  "send_run device [] i w = Some ([], device, w)"
| "send_run device (p # ps) i w = do {
     (r, device, w) \<leftarrow> wireguard_iface_output_to_peer device p i w;
     (rs, device, w) \<leftarrow> send_run device ps i w;
     Some (r # rs, device, w) }"

text \<open>The datagram of a transport message that the cipher sealed under \<open>key\<close> with the nonce \<open>n\<close>, which is also
  the number in its header; \<open>relay\<close> is the relay header or empty.\<close>

definition sealed_datagram :: "(bytes \<times> u64) \<times> (u32 \<times> u16 \<times> bytes \<times> u32 \<times> bytes) \<Rightarrow> iface_output" where
  "sealed_datagram = (\<lambda>((key, n), (ip, port, relay, receiver, plain)).
     Udp_out ip port (relay @ [4, 0, 0, 0] @ U32TO8_LITTLE receiver @ U64TO8_LITTLE n @
       chacha20poly1305_encrypt plain [] n key))"

lemma transport_packet_sealed:
  "Udp_out ip port (relay @ transport_packet kp plain) =
     sealed_datagram ((sending_key kp, sending_counter kp), (ip, port, relay, kp_remote_index kp, plain))"
  by (simp add: sealed_datagram_def transport_packet_def transport_bytes_def wireguard_encrypt_packet_def msg_types)

lemma output_to_peer_sealed:
  assumes "i < length (dev_peers device)" and "pool_inv (w_pool w)" and "packet_ok p" and "length (w_band_uuid w) = 16"
    and "wireguard_iface_output_to_peer device p i w = Some (r, device', w')"
    and "kp = keypair_at (dev_peers device ! i) (sending_slot (dev_peers device ! i))"
  shows "\<exists>us. w_out w' = w_out w @ map sealed_datagram us \<and> (r \<noteq> 0 \<longrightarrow> us = []) \<and>
    (r = 0 \<and> w_sendto w (w_sendto_pos w) = Sent \<longrightarrow> length us = 1) \<and> length us \<le> 1 \<and>
    (\<forall>u \<in> set us. fst u = (sending_key kp, sending_counter kp))"
proof -
  have t: "transport_sent device (packet_data p) i w r device' w'"
    using output_to_peer_ok [OF assms(1-4)] assms(5) by auto
  let ?peer = "dev_peers device ! i" and ?s = "w_sendto w (w_sendto_pos w) = Sent"
  let ?relay = "if endpoint_latest_is_proxy ?peer
    then proxy_pkthdr (w_band_uuid w) (dev_iface_addr device) (peer_iface_addr ?peer) else []"
  let ?u = "((sending_key kp, sending_counter kp), (endpoint_latest_ip ?peer, endpoint_latest_port ?peer, ?relay,
    kp_remote_index kp, packet_data p @ stale_bytes (length (packet_data p)) w))"
  show ?thesis
  proof (cases "can_seal ?peer kp (w_clock w (w_clock_pos w))")
    case False
    then show ?thesis using t unfolding transport_sent_def Let_def assms(6) by (auto intro!: exI [of _ "[]"])
  next
    case True
    then have "r = 0" "w_out w' = w_out w @ map sealed_datagram (if ?s then [?u] else [])"
      using t unfolding transport_sent_def Let_def assms(6) [symmetric] datagram_def transport_packet_sealed by simp_all
    then show ?thesis by (intro exI [of _ "if ?s then [?u] else []"]) simp
  qed
qed

lemma send_run_inv:
  assumes "i < length (dev_peers device)" and "pool_inv (w_pool w)" and "\<forall>p \<in> set ps. packet_ok p"
    and "length (w_band_uuid w) = 16"
    and "kp = keypair_at (dev_peers device ! i) (sending_slot (dev_peers device ! i))"
  shows "\<exists>rs device' w' us. send_run device ps i w = Some (rs, device', w') \<and> length rs = length ps \<and>
    w_out w' = w_out w @ map sealed_datagram us \<and> distinct (map fst us) \<and>
    ((\<forall>k. w_sendto w k = Sent) \<longrightarrow> length us = length (filter (\<lambda>r. r = 0) rs)) \<and>
    (\<not> kp_valid kp \<longrightarrow> us = []) \<and>
    (\<forall>u \<in> set us. fst (fst u) = sending_key kp \<and> unat (sending_counter kp) \<le> unat (snd (fst u)))"
  using assms
proof (induction ps arbitrary: device w kp)
  case (Cons p ps)
  let ?peer = "dev_peers device ! i"
  have ok: "packet_ok p" "\<forall>p \<in> set ps. packet_ok p" using Cons.prems(3) by auto
  obtain r device1 w1 where o: "wireguard_iface_output_to_peer device p i w = Some (r, device1, w1)"
    "pool_inv (w_pool w1)" "length (w_band_uuid w1) = 16" "i < length (dev_peers device1)"
    "sending_slot (dev_peers device1 ! i) = sending_slot ?peer"
    "if r = 0
     then unat (sending_counter (keypair_at (dev_peers device1 ! i) (sending_slot ?peer))) = unat (sending_counter kp) + 1 \<and>
          kp_valid kp \<and> sending_key (keypair_at (dev_peers device1 ! i) (sending_slot ?peer)) = sending_key kp
     else device1 = device \<or> \<not> kp_valid (keypair_at (dev_peers device1 ! i) (sending_slot ?peer))"
    "w_sendto w1 = w_sendto w"
    using output_to_peer_slot [OF Cons.prems(1,2) ok(1) Cons.prems(4) refl refl] unfolding Cons.prems(5) by blast
  let ?kp = "keypair_at (dev_peers device1 ! i) (sending_slot ?peer)"
  from output_to_peer_sealed [OF Cons.prems(1,2) ok(1) Cons.prems(4) o(1) Cons.prems(5)] obtain u where
    u: "w_out w1 = w_out w @ map sealed_datagram u" "r \<noteq> 0 \<longrightarrow> u = []"
      "r = 0 \<and> w_sendto w (w_sendto_pos w) = Sent \<longrightarrow> length u = 1" "length u \<le> 1"
      "\<forall>x \<in> set u. fst x = (sending_key kp, sending_counter kp)" by blast
  have du: "distinct (map fst u)" using u(4) by (cases u) auto
  from Cons.IH [OF o(4,2) ok(2) o(3) refl] obtain rs device' w' us where
    n: "send_run device1 ps i w1 = Some (rs, device', w')" "length rs = length ps"
      "w_out w' = w_out w1 @ map sealed_datagram us" "distinct (map fst us)"
      "(\<forall>k. w_sendto w1 k = Sent) \<longrightarrow> length us = length (filter (\<lambda>r. r = 0) rs)" "\<not> kp_valid ?kp \<longrightarrow> us = []"
      "\<forall>u \<in> set us. fst (fst u) = sending_key ?kp \<and> unat (sending_counter ?kp) \<le> unat (snd (fst u))"
    unfolding o(5) by blast
  have e: "send_run device (p # ps) i w = Some (r # rs, device', w')" by (simp add: o(1) n(1))
  have l: "length (r # rs) = length (p # ps)" using n(2) by simp
  have out: "w_out w' = w_out w @ map sealed_datagram (u @ us)" using u(1) n(3) by simp
  have cnt: "(\<forall>k. w_sendto w k = Sent) \<longrightarrow> length (u @ us) = length (filter (\<lambda>r. r = 0) (r # rs))"
    using u(2,3) n(5) o(7) by auto
  show ?case
  proof (cases "r = 0")
    case True
    then have kp: "unat (sending_counter ?kp) = unat (sending_counter kp) + 1" "kp_valid kp" "sending_key ?kp = sending_key kp"
      using o(6) by auto
    then have "(sending_key kp, sending_counter kp) \<notin> fst ` set us" using n(7) by fastforce
    then have "distinct (map fst (u @ us))" using du n(4) u(5) by auto
    moreover have "\<forall>x \<in> set (u @ us). fst (fst x) = sending_key kp \<and> unat (sending_counter kp) \<le> unat (snd (fst x))"
      using n(7) u(5) kp by fastforce
    ultimately show ?thesis using e l out cnt kp(2) by blast
  next
    case False
    then have "u = []" "device1 = device \<or> us = []" using u(2) o(6) n(6) by auto
    then show ?thesis using e l out cnt n(4,6,7) Cons.prems(5) by (intro exI [of _ "r # rs"] exI [of _ device'] exI [of _ w'] exI [of _ us]) auto
  qed
qed simp

text \<open>
  C4: Sending never fails and never seals two packets with the same nonce: for every peer and every sequence of
  packets of at most 2016 bytes and keep-alives, whatever the clock and the socket do in between, every call
  of \<open>wireguard_iface_output_to_peer\<close> returns, and what goes to the socket is a list of transport datagrams,
  each the output of the cipher for the key and the nonce given, with the nonce as its number, no pair of
  key and nonce occurring twice. When the socket takes every datagram, there is one for each call that
  reports success.
\<close>

theorem no_nonce_reuse:
  assumes "i < length (dev_peers device)" and "pool_inv (w_pool w)" and "\<forall>p \<in> set ps. packet_ok p"
    and "length (w_band_uuid w) = 16"
  shows "\<exists>rs device' w' us. send_run device ps i w = Some (rs, device', w') \<and> length rs = length ps \<and>
    w_out w' = w_out w @ map sealed_datagram us \<and> distinct (map fst us) \<and>
    ((\<forall>k. w_sendto w k = Sent) \<longrightarrow> length us = length (filter (\<lambda>r. r = 0) rs))"
  using send_run_inv [OF assms refl] by blast

section \<open>Several endpoints\<close>

text \<open>What is sent to a list of endpoints when every datagram is accepted: the relay headers add up
  from one endpoint to the next.\<close>

fun multipath_outs :: "bytes \<Rightarrow> endpoint list \<Rightarrow> bytes \<Rightarrow> iface_output list" where
  "multipath_outs hdr [] bs = []"
| "multipath_outs hdr (e # es) bs =
     (let bs' = (if ep_is_proxy e then hdr @ bs else bs)
      in Udp_out (ep_ip e) (ep_port e) bs' # multipath_outs hdr es bs')"

definition n_proxies :: "endpoint list \<Rightarrow> nat" where
  "n_proxies es = length (filter ep_is_proxy es)"

lemma sent_keeps:
  "sent ip port bs w w' \<Longrightarrow> w_band_uuid w' = w_band_uuid w \<and> w_sendto w' = w_sendto w \<and> w_pool w' = w_pool w"
  by (auto simp: sent_def)

lemma multipath_loop_outs:
  assumes "buf + buflen \<le> length (pb_mem p)" and "32 * n_proxies es \<le> buf" and "length (w_band_uuid w) = 16"
    and "\<forall>k. w_sendto w k = Sent" and "bs = bslice buf buflen (pb_mem p)"
  shows "\<exists>r q w'. multipath_loop addr peer es same p buf buflen w = Some (r, q, w') \<and>
    w_out w' = w_out w @ multipath_outs (proxy_pkthdr (w_band_uuid w) addr (peer_iface_addr peer)) es bs"
  using assms
proof (induction es arbitrary: same p buf buflen w bs)
  case (Cons e es)
  let ?b = "if ep_is_proxy e then buf - 32 else buf" and ?l = "if ep_is_proxy e then buflen + 32 else buflen"
  have pr: "ep_is_proxy e \<longrightarrow> 32 \<le> buf" "32 * n_proxies es \<le> ?b"
    using Cons.prems(2) by (auto simp: n_proxies_def)
  from send_datagram_ok [OF Cons.prems(1) pr(1) Cons.prems(3), of addr "peer_iface_addr peer" "ep_ip e" "ep_port e"]
  obtain m w1 where s: "send_datagram (ep_is_proxy e) addr (peer_iface_addr peer) (ep_ip e) (ep_port e) p buf buflen w =
      Some (w_sendto w (w_sendto_pos w) = Sent, p\<lparr>pb_mem := m\<rparr>, ?b, ?l, w1)" "length m = length (pb_mem p)"
    "bslice ?b ?l m = datagram w (ep_is_proxy e) addr (peer_iface_addr peer) bs"
    "sent (ep_ip e) (ep_port e) (datagram w (ep_is_proxy e) addr (peer_iface_addr peer) bs) w w1"
    unfolding Cons.prems(5) by blast
  note k = sent_keeps [OF s(4)]
  have "?b + ?l \<le> length (pb_mem (p\<lparr>pb_mem := m\<rparr>))" using Cons.prems(1) s(2) pr(1) by simp
  from Cons.IH [OF this pr(2), of w1 _ "same \<or> (ep_ip e = endpoint_latest_ip peer \<and>
           ep_port e = endpoint_latest_port peer \<and> ep_is_proxy e = endpoint_latest_is_proxy peer)"]
  obtain r q w' where r: "multipath_loop addr peer es (same \<or> (ep_ip e = endpoint_latest_ip peer \<and>
           ep_port e = endpoint_latest_port peer \<and> ep_is_proxy e = endpoint_latest_is_proxy peer))
           (p\<lparr>pb_mem := m\<rparr>) ?b ?l w1 = Some (r, q, w')"
    "w_out w' = w_out w1 @ multipath_outs (proxy_pkthdr (w_band_uuid w) addr (peer_iface_addr peer)) es
       (datagram w (ep_is_proxy e) addr (peer_iface_addr peer) bs)"
    using Cons.prems(3,4) k s(3) by auto
  have "multipath_loop addr peer (e # es) same p buf buflen w = Some (r, q, w')"
    using r(1) Cons.prems(4) by (simp add: s(1) Let_def)
  moreover have "w_out w1 = w_out w @ [Udp_out (ep_ip e) (ep_port e) (datagram w (ep_is_proxy e) addr (peer_iface_addr peer) bs)]"
    using s(4) Cons.prems(4) by (auto simp: sent_def)
  ultimately show ?case using r(2) by (intro exI conjI) (auto simp: datagram_def Let_def)
qed simp

text \<open>
  Sending a message to all endpoints of a peer delivers it to every endpoint in order, but the
  relay header that is written for one relay stays in front of the message for all endpoints after
  it: a direct endpoint behind a relay, and a second relay, receive a message with the header of
  the earlier ones in front, which a peer does not recognise as a handshake message.
\<close>

theorem multipath_accumulates_headers:
  assumes "pbuf_wf p" and "pb_payload p = 128" and "pb_len p = unat (pb_size p)"
    and "unat (n_endpoints peer) \<le> length (endpoints peer)"
    and "n_proxies (take (unat (n_endpoints peer)) (endpoints peer)) \<le> 4"
    and "length (w_band_uuid w) = 16" and "\<forall>k. w_sendto w k = Sent"
  shows "\<exists>r q w'. wireguard_iface_peer_output_multipath device p peer w = Some (r, q, w') \<and>
    w_out w' = w_out w @ multipath_outs (proxy_pkthdr (w_band_uuid w) (dev_iface_addr device) (peer_iface_addr peer))
      (take (unat (n_endpoints peer)) (endpoints peer)) (pbuf_data p)"
proof -
  have "pb_payload p + pb_len p \<le> length (pb_mem p)" using assms(1-3) by (simp add: pbuf_wf_def)
  moreover have "32 * n_proxies (take (unat (n_endpoints peer)) (endpoints peer)) \<le> pb_payload p"
    using assms(2,5) by simp
  ultimately show ?thesis
    using multipath_loop_outs [OF _ _ assms(6,7), of "pb_payload p" "pb_len p" p] assms(4)
    by (simp add: wireguard_iface_peer_output_multipath_def pbuf_data_def)
qed

text \<open>One relay followed by a direct endpoint.\<close>

definition endpoints_demo :: "endpoint list" where
  "endpoints_demo = [\<lparr>ep_alive = False, ep_is_proxy = True, ep_ip = 1, ep_port = 82\<rparr>,
     \<lparr>ep_alive = False, ep_is_proxy = False, ep_ip = 2, ep_port = 51820\<rparr>]"

definition peer_relay :: wireguard_peer where
  "peer_relay = peer_zero\<lparr>endpoints := endpoints_demo, n_endpoints := 2\<rparr>"

theorem multipath_accumulates_headers_witness:
  "\<exists>r q w'. wireguard_iface_peer_output_multipath (device_demo []) (pbuf_demo 92 92) peer_relay (world_demo 7 0) =
       Some (r, q, w') \<and>
     w_out w' = [Udp_out 1 82 (proxy_pkthdr (replicate 16 0) 0 0 @ pbuf_data (pbuf_demo 92 92)),
       Udp_out 2 51820 (proxy_pkthdr (replicate 16 0) 0 0 @ pbuf_data (pbuf_demo 92 92))]"
proof -
  have e: "w_out (world_demo 7 0) @ multipath_outs (proxy_pkthdr (w_band_uuid (world_demo 7 0))
       (dev_iface_addr (device_demo [])) (peer_iface_addr peer_relay))
       (take (unat (n_endpoints peer_relay)) (endpoints peer_relay)) (pbuf_data (pbuf_demo 92 92)) =
     [Udp_out 1 82 (proxy_pkthdr (replicate 16 0) 0 0 @ pbuf_data (pbuf_demo 92 92)),
       Udp_out 2 51820 (proxy_pkthdr (replicate 16 0) 0 0 @ pbuf_data (pbuf_demo 92 92))]"
    by (simp add: world_demo_def device_demo_def peer_relay_def peer_zero_def endpoints_demo_def Let_def)
  show ?thesis unfolding e [symmetric]
    by (rule multipath_accumulates_headers)
      (simp_all add: pbuf_wf_def pbuf_demo_def PBUF_CACHE_HEAD_SIZE_def endpoints_demo_def n_proxies_def
        world_demo_def peer_relay_def)
qed

lemma five_relays_loop:
  assumes "n_proxies es > buf div 32" and "buf + buflen \<le> length (pb_mem p)" and "length (w_band_uuid w) = 16"
    and "\<forall>k. w_sendto w k = Sent"
  shows "multipath_loop addr peer es same p buf buflen w = None"
  using assms
proof (induction es arbitrary: same p buf buflen w)
  case (Cons e es)
  show ?case
  proof (cases "ep_is_proxy e \<and> buf < 32")
    case True
    then show ?thesis by (simp add: send_datagram_def wireguard_iface_prepend_proxy_pkthdr_def Let_def)
  next
    case False
    let ?b = "if ep_is_proxy e then buf - 32 else buf" and ?l = "if ep_is_proxy e then buflen + 32 else buflen"
    have pr: "ep_is_proxy e \<longrightarrow> 32 \<le> buf" using False by auto
    from send_datagram_ok [OF Cons.prems(2) pr Cons.prems(3), of addr "peer_iface_addr peer" "ep_ip e" "ep_port e"]
    obtain m w1 where s: "send_datagram (ep_is_proxy e) addr (peer_iface_addr peer) (ep_ip e) (ep_port e) p buf buflen w =
        Some (w_sendto w (w_sendto_pos w) = Sent, p\<lparr>pb_mem := m\<rparr>, ?b, ?l, w1)" "length m = length (pb_mem p)"
      "sent (ep_ip e) (ep_port e) (datagram w (ep_is_proxy e) addr (peer_iface_addr peer) (bslice buf buflen (pb_mem p))) w w1"
      by blast
    note k = sent_keeps [OF s(3)]
    have "n_proxies es > ?b div 32" using Cons.prems(1) pr
      by (cases "ep_is_proxy e") (auto simp: n_proxies_def le_div_geq)
    moreover have "?b + ?l \<le> length (pb_mem (p\<lparr>pb_mem := m\<rparr>))" using Cons.prems(2) s(2) pr by simp
    ultimately have "multipath_loop addr peer es same' (p\<lparr>pb_mem := m\<rparr>) ?b ?l w1 = None" for same'
      by (rule Cons.IH) (use Cons.prems(3,4) k in simp_all)
    then show ?thesis using Cons.prems(4) by (simp add: s(1) Let_def)
  qed
qed (simp add: n_proxies_def)

text \<open>
  With five relays among the endpoints the fifth header is written in front of the memory of the
  packet buffer: the 128 bytes that \<open>pbuf_alloc\<close> leaves in front of the payload hold four headers.
\<close>

theorem multipath_five_relays_overflow:
  assumes "pbuf_wf p" and "pb_payload p = 128" and "pb_len p = unat (pb_size p)"
    and "n_proxies (take (unat (n_endpoints peer)) (endpoints peer)) > 4"
    and "length (w_band_uuid w) = 16" and "\<forall>k. w_sendto w k = Sent"
  shows "wireguard_iface_peer_output_multipath device p peer w = None"
  using five_relays_loop [OF _ _ assms(5,6), of 128 _ "pb_len p" p] assms(1-4)
  by (simp add: wireguard_iface_peer_output_multipath_def pbuf_wf_def)

theorem multipath_five_relays_overflow_witness:
  "wireguard_iface_peer_output_multipath (device_demo []) (pbuf_demo 156 156)
     (peer_zero\<lparr>endpoints := replicate 5 (hd endpoints_demo), n_endpoints := 5\<rparr>) (world_demo 7 0) = None"
  by (rule multipath_five_relays_overflow)
    (simp_all add: pbuf_wf_def pbuf_demo_def PBUF_CACHE_HEAD_SIZE_def endpoints_demo_def n_proxies_def world_demo_def)

section \<open>Padding\<close>

lemma alloc_after_free:
  assumes "pbuf_wf q" and "length (pbuf_cache_head pool) = PBUF_CACHE_HEAD_SIZE"
    and "pbuf_free q pool = Some pool'"
  shows "\<exists>pool''. pbuf_alloc (unat (pb_size q)) pool' =
    Some (q\<lparr>pb_payload := 128, pb_len := unat (pb_size q), pb_tot_len := unat (pb_size q)\<rparr>, pool'')"
  using assms unfolding pbuf_free_Some [OF assms(1)]
  by (auto simp: pbuf_alloc_def pbuf_wf_def)

text \<open>
  The padding of a transport packet is not cleared. When the datagram buffer is recycled from
  another packet of the same size class, the sealed plaintext is the packet followed by up to 15
  bytes of that other packet, which the peer receives.
\<close>

theorem padding_leaks_recycled_packet:
  assumes "i < length (dev_peers device)" and "pool_inv pool" and "pbuf_wf q"
    and "pbuf_free q pool = Some (w_pool w)" and "packet_ok p"
    and "unat (pb_size q) = 16 + padded_len (length (packet_data p)) + 16"
    and "length (w_band_uuid w) = 16" and "w_sendto w (w_sendto_pos w) = Sent"
    and "kp = keypair_at (dev_peers device ! i) (sending_slot (dev_peers device ! i))"
    and "can_seal (dev_peers device ! i) kp (w_clock w (w_clock_pos w))"
    and "\<not> endpoint_latest_is_proxy (dev_peers device ! i)"
  shows "\<exists>device' w'. wireguard_iface_output_to_peer device p i w = Some (0, device', w') \<and>
    w_out w' = w_out w @ [Udp_out (endpoint_latest_ip (dev_peers device ! i)) (endpoint_latest_port (dev_peers device ! i))
      (transport_packet kp (packet_data p @
        bslice (144 + length (packet_data p)) (padded_len (length (packet_data p)) - length (packet_data p)) (pb_mem q)))]"
proof -
  have inv: "pool_inv (w_pool w)" using pool.free_inv [OF assms(2,3,4)] .
  have "length (pbuf_cache_head pool) = PBUF_CACHE_HEAD_SIZE" using assms(2) by (simp add: pool_inv_def)
  from alloc_after_free [OF assms(3) this assms(4)]
  have st: "stale_bytes (length (packet_data p)) w =
      bslice (144 + length (packet_data p)) (padded_len (length (packet_data p)) - length (packet_data p)) (pb_mem q)"
    unfolding assms(6) by (auto simp: stale_bytes_def)
  from output_to_peer_ok [OF assms(1) inv assms(5,7)] obtain r device' w' where
    o: "wireguard_iface_output_to_peer device p i w = Some (r, device', w')"
    "transport_sent device (packet_data p) i w r device' w'" by blast
  then have "r = 0" "w_out w' = w_out w @ [Udp_out (endpoint_latest_ip (dev_peers device ! i)) (endpoint_latest_port (dev_peers device ! i))
      (transport_packet kp (packet_data p @ stale_bytes (length (packet_data p)) w))]"
    using assms(8-11) by (simp_all add: transport_sent_def Let_def datagram_def)
  then show ?thesis using o(1) st by auto
qed

text \<open>An established session with peer 0, and a pool that has one freed buffer of a keep-alive sized class.\<close>

definition peer_up :: wireguard_peer where
  "peer_up = peer_zero\<lparr>peer_valid := True, timeout_reject_after_time := 180,
     curr_keypair := keypair_zero\<lparr>kp_valid := True, kp_initiator := True, sending_valid := True,
       receiving_valid := True, kp_local_index := 5, kp_remote_index := 6\<rparr>\<rparr>"

definition freed_demo :: pbuf where
  "freed_demo = (pbuf_demo 48 48)\<lparr>pb_mem := replicate 304 9\<rparr>"

definition world_freed :: world where
  "world_freed = (world_demo 7 1)\<lparr>w_pool := the (pbuf_free freed_demo (PBUF_init pool_demo))\<rparr>"

lemma pool_inv_demo: "pool_inv (PBUF_init pool_demo)"
  by (rule pool_inv_init) (simp add: pool_demo_def)

lemma freed_demo_wf: "pbuf_wf freed_demo" "unat (pb_size freed_demo) = 48"
  by (simp_all add: freed_demo_def pbuf_demo_def pbuf_wf_def PBUF_CACHE_HEAD_SIZE_def)

lemma peer_up_slot: "sending_slot peer_up = Curr" "keypair_at peer_up Curr = curr_keypair peer_up"
  by (simp_all add: sending_slot_def keypair_at_def peer_up_def peer_zero_def keypair_zero_def)

lemma packet_demo: "packet_ok (Some (pbuf_demo 5 5))" "packet_data (Some (pbuf_demo 5 5)) = replicate 5 0"
  by (simp_all add: packet_ok_def packet_data_def pbuf_data_def pbuf_demo_def bslice_def min_def)

lemma keepalive_ok: "packet_ok None" "packet_data None = []"
  by (simp_all add: packet_ok_def packet_data_def)

lemma can_seal_demo: "can_seal peer_up (curr_keypair peer_up) 1"
  by (simp add: can_seal_def peer_up_def peer_zero_def keypair_zero_def WIREGUARD_REJECT_AFTER_MESSAGES_def)

theorem no_nonce_reuse_witness:
  "\<exists>rs device' w' us. send_run (device_demo [peer_up]) [Some (pbuf_demo 5 5), None] 0 (world_demo 7 1) =
       Some (rs, device', w') \<and> length rs = length [Some (pbuf_demo 5 5), None] \<and>
     w_out w' = w_out (world_demo 7 1) @ map sealed_datagram us \<and> distinct (map fst us) \<and>
     ((\<forall>k. w_sendto (world_demo 7 1) k = Sent) \<longrightarrow> length us = length (filter (\<lambda>r. r = 0) rs))"
  by (rule no_nonce_reuse)
    (simp_all add: device_demo_def pool_inv_demo packet_demo(1) keepalive_ok world_demo_def)

theorem padding_leaks_recycled_packet_witness:
  "\<exists>device' w'. wireguard_iface_output_to_peer (device_demo [peer_up]) (Some (pbuf_demo 5 5)) 0 world_freed =
      Some (0, device', w') \<and>
    w_out w' = [Udp_out 0 0 (transport_packet (curr_keypair peer_up) (replicate 5 0 @ replicate 11 9))]"
proof -
  let ?w = world_freed
  have f: "pbuf_free freed_demo (PBUF_init pool_demo) = Some (w_pool ?w)"
    by (simp add: world_freed_def pbuf_free_Some [OF freed_demo_wf(1)])
  have pl: "padded_len (length (packet_data (Some (pbuf_demo 5 5)))) = 16"
    by (simp add: packet_demo padded_len_eq)
  have peer: "dev_peers (device_demo [peer_up]) ! 0 = peer_up" by (simp add: device_demo_def)
  have "\<exists>device' w'. wireguard_iface_output_to_peer (device_demo [peer_up]) (Some (pbuf_demo 5 5)) 0 ?w =
      Some (0, device', w') \<and>
    w_out w' = w_out ?w @ [Udp_out (endpoint_latest_ip (dev_peers (device_demo [peer_up]) ! 0))
      (endpoint_latest_port (dev_peers (device_demo [peer_up]) ! 0))
      (transport_packet (curr_keypair peer_up) (packet_data (Some (pbuf_demo 5 5)) @
        bslice (144 + length (packet_data (Some (pbuf_demo 5 5))))
          (padded_len (length (packet_data (Some (pbuf_demo 5 5)))) - length (packet_data (Some (pbuf_demo 5 5))))
          (pb_mem freed_demo)))]"
    by (rule padding_leaks_recycled_packet [OF _ pool_inv_demo freed_demo_wf(1) f packet_demo(1)])
      (simp_all add: peer peer_up_slot can_seal_demo pl freed_demo_wf world_freed_def world_demo_def,
       simp_all add: device_demo_def peer_up_def peer_zero_def)
  moreover have "w_out ?w = []" "endpoint_latest_ip peer_up = 0" "endpoint_latest_port peer_up = 0"
    "bslice (144 + 5) (16 - 5) (pb_mem freed_demo) = replicate 11 9"
    by (simp_all add: world_freed_def world_demo_def peer_up_def peer_zero_def freed_demo_def bslice_def)
  ultimately show ?thesis
    unfolding packet_demo(2) length_replicate peer by (simp add: padded_len_eq)
qed

end
