(* ===== verification/Iface_Recv.thy ===== *)
theory Iface_Recv
  imports Iface_Input Iface_Send
begin

text \<open>
  What the receiving half of the interface layer guarantees: which packets reach the TUN device, that
  an authentic packet does, end to end, and where the checks are weaker than they are meant to be.
\<close>

section \<open>Functions that do not write to the TUN device\<close>

definition tun_outs :: "world \<Rightarrow> bytes list" where
  "tun_outs w = concat (map (\<lambda>x. case x of Tun_out pkt \<Rightarrow> [pkt] | Udp_out _ _ _ \<Rightarrow> []) (w_out w))"

lemma tun_outs_cong: "w_out w' = w_out w \<Longrightarrow> tun_outs w' = tun_outs w"
  by (simp add: tun_outs_def)

lemma tun_outs_updates [simp]:
  "tun_outs (w\<lparr>w_rand_pos := n\<rparr>) = tun_outs w" "tun_outs (w\<lparr>w_pool := pool\<rparr>) = tun_outs w"
  "tun_outs (w\<lparr>w_sendto_pos := n\<rparr>) = tun_outs w" "tun_outs (w\<lparr>w_time_pos := n\<rparr>) = tun_outs w"
  "tun_outs (stat f w) = tun_outs w" "tun_outs (tick w) = tun_outs w"
  "tun_outs (w\<lparr>w_out := w_out w @ [Udp_out ip port bs]\<rparr>) = tun_outs w"
  "tun_outs (w\<lparr>w_out := w_out w @ [Tun_out bs]\<rparr>) = tun_outs w @ [bs]"
  by (simp_all add: tun_outs_def stat_def tick_def)

lemma platform_tun [simp]:
  "tun_outs (snd (wireguard_random_bytes n w)) = tun_outs w"
  "tun_outs (snd (wireguard_sys_now w)) = tun_outs w"
  "tun_outs (snd (time_now w)) = tun_outs w"
  "tun_outs (snd (wireguard_expired a b w)) = tun_outs w"
  "tun_outs (snd (wireguard_generate_private_key w)) = tun_outs w"
  "tun_outs (snd (wireguard_tai64n_now w)) = tun_outs w"
  by (simp_all add: random_bytes_demo sys_now_eq time_now_def expired_eq generate_private_key_eq
      wireguard_tai64n_now_def Let_def)

lemma cookie_mac2_tun [simp]: "tun_outs (snd (cookie_mac2 peer m w)) = tun_outs w"
  by (simp add: cookie_mac2_def Let_def case_prod_beta)

lemma start_session_tun [simp]: "tun_outs (snd (wireguard_start_session peer b w)) = tun_outs w"
  by (simp add: wireguard_start_session_def Let_def case_prod_beta)

lemma update_addr_tun [simp]: "tun_outs (snd (wireguard_iface_update_peer_addr peer a w)) = tun_outs w"
  by (simp add: wireguard_iface_update_peer_addr_def Let_def case_prod_beta)

lemma process_cookie_tun [simp]:
  "tun_outs (snd (snd (wireguard_process_cookie_message peer c w))) = tun_outs w"
  by (simp add: wireguard_process_cookie_message_def Let_def case_prod_beta split: option.split)

lemma process_initiation_tun [simp]:
  "tun_outs (snd (snd (wireguard_process_initiation_message dh device m w))) = tun_outs w"
  by (simp add: wireguard_process_initiation_message_def Let_def case_prod_beta split: option.split)

lemma random_index_tun: "random_index w = Some x \<Longrightarrow> tun_outs (snd x) = tun_outs w"
proof (erule random_index.raw_induct [rotated])
  fix f :: "world \<Rightarrow> (u32 \<times> world) option" and w x
  assume "\<And>w x. f w = Some x \<Longrightarrow> tun_outs (snd x) = tun_outs w"
    and "(let (buf, w) = wireguard_random_bytes 4 w; result = U8TO32_LITTLE buf
        in if result = 0 \<or> result = 0xFFFFFFFF then f w else Some (result, w)) = Some x"
  then show "tun_outs (snd x) = tun_outs w"
    by (fastforce simp: random_bytes_demo Let_def split: if_splits)
qed

lemma unique_index_tun:
  "wireguard_generate_unique_index device w = Some x \<Longrightarrow> tun_outs (snd x) = tun_outs w"
proof (erule wireguard_generate_unique_index.raw_induct [rotated])
  fix f :: "wireguard_device \<Rightarrow> world \<Rightarrow> (u32 \<times> world) option" and device w x
  assume ih: "\<And>device w x. f device w = Some x \<Longrightarrow> tun_outs (snd x) = tun_outs w"
    and e: "(case random_index w of None \<Rightarrow> None
        | Some (result, w) \<Rightarrow> if index_existing result False (dev_peers device) then f device w
            else Some (result, w)) = Some x"
  then obtain y where y: "random_index w = Some y" by (cases "random_index w") auto
  then show "tun_outs (snd x) = tun_outs w"
    using e ih [of device "snd y" x] random_index_tun [OF y] by (auto simp: case_prod_beta split: if_splits)
qed

lemma create_response_tun:
  "wireguard_create_handshake_response dh device i w = Some r \<Longrightarrow> tun_outs (snd (snd r)) = tun_outs w"
  by (auto simp: wireguard_create_handshake_response_def Let_def case_prod_beta
      split: if_splits option.splits dest: unique_index_tun)

lemma buf_tun:
  "buf_alloc n w = Some r \<Longrightarrow> tun_outs (snd r) = tun_outs w" "buf_free p w = Some w' \<Longrightarrow> tun_outs w' = tun_outs w"
  by (auto simp: buf_alloc_def buf_free_def bind_eq_Some_conv)

lemma sendto_tun [simp]: "tun_outs (snd (sendto ip port bs w)) = tun_outs w"
  by (simp add: sendto_def Let_def tun_outs_def)

lemma send_datagram_tun:
  "send_datagram prx a b ip port p buf buflen w = Some (ok, q, x, y, w') \<Longrightarrow> tun_outs w' = tun_outs w"
  by (auto simp: send_datagram_def Let_def case_prod_beta bind_eq_Some_conv split: if_splits sendto_result.splits)
    (meson sendto_result.exhaust)+

lemma multipath_loop_tun:
  "multipath_loop a peer es same p buf buflen w = Some (r, q, w') \<Longrightarrow> tun_outs w' = tun_outs w"
proof (induction es arbitrary: same p buf buflen w)
  case (Cons e es)
  from Cons.prems show ?case
    by (auto simp: bind_eq_Some_conv Let_def split: if_splits dest!: Cons.IH send_datagram_tun)
qed simp

lemma peer_output_tun:
  "wireguard_iface_peer_output device q peer b w = Some (r, q', w') \<Longrightarrow> tun_outs w' = tun_outs w"
  by (auto simp: wireguard_iface_peer_output_def wireguard_iface_peer_output_multipath_def bind_eq_Some_conv
      split: if_splits dest!: multipath_loop_tun send_datagram_tun)

lemma device_output_tun:
  "wireguard_iface_device_output device q a w = Some (r, q', w') \<Longrightarrow> tun_outs w' = tun_outs w"
  by (auto simp: wireguard_iface_device_output_def bind_eq_Some_conv dest!: send_datagram_tun)

lemma seal_packet_tun: "seal_packet p kp w = Some (q, kp', w') \<Longrightarrow> tun_outs w' = tun_outs w"
  by (auto simp: seal_packet_def Let_def bind_eq_Some_conv case_prod_beta dest!: buf_tun)

lemma transmit_tun: "transmit device p i s w = Some (r, device', w') \<Longrightarrow> tun_outs w' = tun_outs w"
  by (auto simp: transmit_def Let_def bind_eq_Some_conv case_prod_beta split: if_splits
      dest!: seal_packet_tun peer_output_tun buf_tun(2))

lemma output_to_peer_tun:
  "wireguard_iface_output_to_peer device p i w = Some (r, device', w') \<Longrightarrow> tun_outs w' = tun_outs w"
  by (auto simp: wireguard_iface_output_to_peer_def Let_def case_prod_beta split: if_splits dest!: transmit_tun)

lemma keepalive_tun: "wireguard_iface_send_keepalive device i w = Some (device', w') \<Longrightarrow> tun_outs w' = tun_outs w"
  by (auto simp: wireguard_iface_send_keepalive_def bind_eq_Some_conv dest!: output_to_peer_tun)

lemma send_response_tun:
  "wireguard_iface_send_handshake_response dh device i w = Some (device', w') \<Longrightarrow> tun_outs w' = tun_outs w"
  by (auto simp: wireguard_iface_send_handshake_response_def Let_def bind_eq_Some_conv case_prod_beta
      split: if_splits option.splits dest!: create_response_tun buf_tun peer_output_tun)

lemma process_response_tun:
  "wireguard_iface_process_response_message dh device i m a w = Some (device', w') \<Longrightarrow> tun_outs w' = tun_outs w"
  by (auto simp: wireguard_iface_process_response_message_def Let_def case_prod_beta split: if_splits
      dest!: keepalive_tun)

lemma check_macs_same:
  "check_macs device d m1 m2 x a w = Some (r, device', w') \<Longrightarrow> device' = device \<and> w' = w"
  by (auto simp: check_macs_def wireguard_is_under_load_def split: if_splits)

section \<open>The decision about a decrypted packet\<close>

text \<open>\<open>hdr\<close> is what the code reads as the IP header, \<open>pkt\<close> the packet. \<open>None\<close> where the access
  control list has no verdict.\<close>

definition accepted :: "wireguard_device \<Rightarrow> wireguard_peer \<Rightarrow> bytes \<Rightarrow> bytes \<Rightarrow> bool option" where
  "accepted device peer hdr pkt =
     (if drop_bit 4 (hdr ! 0) AND 0x0F = 4 \<and> allowed_source peer (U8TO32_LITTLE (bslice 12 4 hdr)) \<and>
         unat (hdr ! 2) * 256 + unat (hdr ! 3) \<le> length pkt
      then map_option Not (wireguard_iface_apply_acl device pkt) else Some False)"

text \<open>The effect of a successful write, and the verdict together with the result of the write: \<open>None\<close> also
  when an accepted packet is not taken as a whole by the TUN device.\<close>

definition delivered :: "bytes \<Rightarrow> world \<Rightarrow> world" where
  "delivered pkt w =
     (let w = stat (\<lambda>s. s\<lparr>n_tun_tx_pkts := n_tun_tx_pkts s + 1,
                         bytes_tun_tx := bytes_tun_tx s + of_nat (length pkt)\<rparr>) w
      in w\<lparr>w_tunwrite_pos := w_tunwrite_pos w + 1, w_out := w_out w @ [Tun_out pkt]\<rparr>)"

definition tun_ok :: "world \<Rightarrow> bool" where
  "tun_ok w \<longleftrightarrow> w_tunwrite w (w_tunwrite_pos w) = Tun_full"

definition written :: "bool \<Rightarrow> bool option \<Rightarrow> bool option" where
  "written tun verdict = Option.bind verdict (\<lambda>ok. if ok \<and> \<not> tun then None else Some ok)"

lemma written_simps [simp]:
  "written tun None = None" "written tun (Some False) = Some False"
  "written True (Some ok) = Some ok" "written False (Some True) = None"
  by (simp_all add: written_def)

lemma written_Some: "written tun v = Some ok \<longleftrightarrow> v = Some ok \<and> (ok \<longrightarrow> tun)"
  by (cases v) (auto simp: written_def)

lemma iface_write_eq:
  "mudband_tunnel_iface_write pkt (stat (\<lambda>s. s\<lparr>n_tun_tx_pkts := n_tun_tx_pkts s + 1,
      bytes_tun_tx := bytes_tun_tx s + of_nat (length pkt)\<rparr>) w) = (if tun_ok w then Some (delivered pkt w) else None)"
  by (simp add: mudband_tunnel_iface_write_def tun_ok_def delivered_def stat_def Let_def)

lemma delivered_simps [simp]:
  "w_out (delivered pkt w) = w_out w @ [Tun_out pkt]" "w_pool (delivered pkt w) = w_pool w"
  "w_band_uuid (delivered pkt w) = w_band_uuid w" "w_clock (delivered pkt w) = w_clock w"
  "w_tunwrite (delivered pkt w) = w_tunwrite w"
  by (simp_all add: delivered_def stat_def Let_def)

lemma inspect_packet_eq:
  assumes len: "pb_payload p + 20 \<le> length (pb_mem p)" and h: "h = bslice (pb_payload p) 20 (pb_mem p)"
    and b: "pb_payload p + pb_tot_len p \<le> length (pb_mem p)"
    and pkt: "pkt = bslice (pb_payload p) (pb_tot_len p) (pb_mem p)"
  shows "inspect_packet device peer p w =
    map_option (\<lambda>ok. if ok then delivered pkt w else w) (written (tun_ok w) (accepted device peer h pkt))"
proof -
  define v where "v = drop_bit 4 (h ! 0) AND 0x0F"
  define a where "a = allowed_source peer (U8TO32_LITTLE (bslice 12 4 h))"
  define n where "n = unat (h ! 2) * 256 + unat (h ! 3)"
  have rd: "pbuf_read (pb_payload p) 20 p = Some h" using len by (simp add: pbuf_read_def h)
  have rp: "pbuf_read (pb_payload p) (pb_tot_len p) p = Some pkt" using b by (simp add: pbuf_read_def pkt)
  have l: "length pkt = pb_tot_len p" using b by (simp add: pkt)
  have tw: "wireguard_iface_tun_write p w = (if tun_ok w then Some (delivered pkt w) else None)"
    unfolding wireguard_iface_tun_write_def rp by (simp add: Let_def iface_write_eq flip: l)
  have "inspect_packet device peer p w =
    (if v \<noteq> 4 then Some w else if (if a then n else 0xFFFF) > pb_tot_len p then Some w
     else if \<not> a then Some w
     else Option.bind (wireguard_iface_apply_acl device pkt) (\<lambda>drp.
         if drp then Some w else if tun_ok w then Some (delivered pkt w) else None))"
    unfolding inspect_packet_def rd rp tw Option.bind.bind_lunit Let_def v_def a_def n_def by (rule refl)
  also have "\<dots> = map_option (\<lambda>ok. if ok then delivered pkt w else w)
      (written (tun_ok w)
        (if v = 4 \<and> a \<and> n \<le> length pkt then map_option Not (wireguard_iface_apply_acl device pkt) else Some False))"
    unfolding l by (cases "wireguard_iface_apply_acl device pkt") (auto simp: written_def)
  finally show ?thesis unfolding accepted_def v_def a_def n_def .
qed

lemma accepted_cong:
  "allowed_source_ips peer' = allowed_source_ips peer \<Longrightarrow> accepted device peer' = accepted device peer"
  by (simp add: accepted_def allowed_source_def fun_eq_iff)

section \<open>What a decrypted packet does to the session\<close>

text \<open>The slot is stamped, rotated, and the replay window of the slot advanced.\<close>

definition stamped :: "wireguard_peer \<Rightarrow> kp_slot \<Rightarrow> u32 \<Rightarrow> wireguard_peer" where
  "stamped peer s now =
     wireguard_keypair_update (set_keypair s ((keypair_at peer s)\<lparr>kp_last_rx := now\<rparr>) peer) s"

definition rx_keypairs :: "wireguard_peer \<Rightarrow> kp_slot \<Rightarrow> u32 \<Rightarrow> u64 \<Rightarrow> nat \<Rightarrow> wireguard_peer" where
  "rx_keypairs peer s now nonce n =
     (let q = stamped peer s now
      in if n = 0 then q else set_keypair s (snd (wireguard_check_replay (keypair_at q s) nonce)) q)"

definition is_new :: "wireguard_peer \<Rightarrow> kp_slot \<Rightarrow> u32 \<Rightarrow> u64 \<Rightarrow> bool" where
  "is_new peer s now nonce \<longleftrightarrow> fst (wireguard_check_replay (keypair_at (stamped peer s now) s) nonce)"

definition same_config :: "wireguard_peer \<Rightarrow> wireguard_peer \<Rightarrow> bool" where
  "same_config p q \<longleftrightarrow> allowed_source_ips q = allowed_source_ips p \<and> peer_valid q = peer_valid p \<and>
     timeout_reject_after_time q = timeout_reject_after_time p \<and> peer_public_key q = peer_public_key p"

definition same_io :: "world \<Rightarrow> world \<Rightarrow> bool" where
  "same_io w w' \<longleftrightarrow> w_out w' = w_out w \<and> w_pool w' = w_pool w \<and> w_band_uuid w' = w_band_uuid w \<and>
     w_clock w' = w_clock w \<and> w_clock_pos w \<le> w_clock_pos w' \<and>
     w_tunwrite w' = w_tunwrite w \<and> w_tunwrite_pos w' = w_tunwrite_pos w"

lemma same_io_tun_ok: "same_io w w' \<Longrightarrow> tun_ok w' = tun_ok w"
  by (simp add: same_io_def tun_ok_def)

lemma same_config_set_keypair [simp]: "same_config p (set_keypair s kp q) = same_config p q"
  by (cases s) (simp_all add: same_config_def set_keypair_def)

lemma same_config_keypair_update [simp]: "same_config p (wireguard_keypair_update q s) = same_config p q"
  by (simp add: wireguard_keypair_update_def wireguard_keypair_destroy_def Let_def) (simp add: same_config_def)

lemma keypairs_set:
  "(\<And>t. keypair_at p t = keypair_at q t) \<Longrightarrow> keypair_at (set_keypair s kp p) t = keypair_at (set_keypair s kp q) t"
  by (simp add: keypair_at_set_keypair)

lemma keypairs_update:
  assumes "\<And>t. keypair_at p t = keypair_at q t"
  shows "keypair_at (wireguard_keypair_update p s) t = keypair_at (wireguard_keypair_update q s) t"
  using assms [of Curr] assms [of Prev] assms [of Next]
  by (cases t) (simp_all add: wireguard_keypair_update_def wireguard_keypair_destroy_def set_keypair_def
      keypair_at_def Let_def)

lemma same_config_flags [simp]:
  "same_config p (q\<lparr>peer_last_rx := n\<rparr>) = same_config p q" "same_config p (q\<lparr>send_handshake := b\<rparr>) = same_config p q"
  by (simp_all add: same_config_def)

lemma keypair_at_last_rx: "keypair_at (p\<lparr>peer_last_rx := n\<rparr>) t = keypair_at p t"
  by (simp add: keypair_at_def split: kp_slot.split)

lemma update_addr_keeps:
  assumes "wireguard_iface_update_peer_addr peer wsin w = (peer', w')"
  shows "keypair_at peer' t = keypair_at peer t" and "same_config peer peer'" and "same_io w w'"
    and "w_clock_pos w' = w_clock_pos w"
  using assms
  by (cases t; auto simp: wireguard_iface_update_peer_addr_def time_now_def Let_def keypair_at_def
      same_config_def same_io_def split: if_splits)+

lemma process_decrypted_eq:
  assumes peer: "peer = dev_peers device ! i" and now: "now = w_clock w (w_clock_pos w)"
  shows "\<exists>peer1 w1. process_decrypted device i s nonce p wsin w =
      (if pb_tot_len p \<noteq> 0 \<and> is_new peer s now nonce
       then map_option (\<lambda>w. (upd_peer i peer1 device, w)) (inspect_packet device peer1 p w1)
       else Some (upd_peer i peer1 device, w1)) \<and>
    (\<forall>t. keypair_at peer1 t = keypair_at (rx_keypairs peer s now nonce (pb_tot_len p)) t) \<and>
    same_config peer peer1 \<and> same_io w w1"
proof -
  obtain pa wa where a: "wireguard_iface_update_peer_addr peer wsin w = (pa, wa)" by fastforce
  note ka = update_addr_keeps [OF a]
  let ?pb = "set_keypair s ((keypair_at pa s)\<lparr>kp_last_rx := now\<rparr>) pa"
  let ?pc = "wireguard_keypair_update (?pb\<lparr>peer_last_rx := now\<rparr>) s"
  have kc: "keypair_at ?pc t = keypair_at (stamped peer s now) t" for t
    unfolding stamped_def by (rule keypairs_update) (simp add: keypair_at_last_rx ka(1) keypair_at_set_keypair)
  have cc: "same_config peer ?pc" using ka(2) by simp
  obtain rk w1 where r: "(if kp_initiator (keypair_at ?pc s)
        then wireguard_expired (keypair_millis (keypair_at ?pc s))
               (ucast (timeout_reject_after_time ?pc) - ucast (keepalive_interval ?pc) -
                ucast (timeout_rekey ?pc)) (tick wa)
        else (False, tick wa)) = (rk, w1)" by fastforce
  let ?pd = "if rk then ?pc\<lparr>send_handshake := True\<rparr> else ?pc"
  have kd: "keypair_at ?pd t = keypair_at (stamped peer s now) t" for t using kc by simp
  have cd: "same_config peer ?pd" using cc by simp
  have "w1 = tick wa \<or> w1 = tick (tick wa)" using r unfolding expired_eq by (auto split: if_splits)
  then have io: "same_io w w1" using ka(3) by (auto simp: same_io_def tick_def)
  let ?cr = "wireguard_check_replay (keypair_at (stamped peer s now) s) nonce"
  let ?pe = "set_keypair s (snd ?cr) ?pd"
  have nowa: "w_clock wa (w_clock_pos wa) = now" using ka(3,4) by (simp add: same_io_def now)
  have e: "process_decrypted device i s nonce p wsin w =
     (if pb_tot_len p = 0 then Some (upd_peer i ?pd device, w1)
      else Option.bind (if fst ?cr then inspect_packet device ?pe p w1 else Some w1)
             (\<lambda>w. Some (upd_peer i ?pe device, w)))"
    unfolding process_decrypted_def Let_def peer [symmetric] a prod.case sys_now_eq nowa
    unfolding r prod.case
    unfolding kc
    by (simp add: case_prod_beta)
  show ?thesis
  proof (cases "pb_tot_len p = 0")
    case True
    then show ?thesis using kd cd io by (intro exI [of _ ?pd] exI [of _ w1]) (simp add: e rx_keypairs_def)
  next
    case False
    have "keypair_at ?pe t = keypair_at (rx_keypairs peer s now nonce (pb_tot_len p)) t" for t
      using False kd unfolding rx_keypairs_def Let_def if_not_P [OF False] by (rule_tac keypairs_set)
    then show ?thesis using False cd io unfolding e is_new_def
      by (intro exI [of _ ?pe] exI [of _ w1]) (cases "inspect_packet device ?pe p w1"; simp)
  qed
qed

section \<open>Transport messages\<close>

lemma buf_alloc_ok:
  assumes "pool_inv (w_pool w)" and "n \<le> 2048"
  obtains p pool' where "buf_alloc n w = Some (p, w\<lparr>w_pool := pool'\<rparr>)" and "pool_inv pool'"
    and "pbuf_fresh n p" and "pbuf_wf p"
proof -
  from pool.alloc_succeeds [OF assms] obtain p pool' where
    "pbuf_alloc n (w_pool w) = Some (p, pool')" "pbuf_fresh n p" "pbuf_wf p" "pool_inv pool'" by blast
  then show thesis by (intro that [of p pool']) (simp_all add: buf_alloc_def)
qed

lemma buf_free_ok:
  assumes "pool_inv (w_pool w)" and "pbuf_wf p"
  obtains pool' where "buf_free p w = Some (w\<lparr>w_pool := pool'\<rparr>)" and "pool_inv pool'"
proof -
  from pool.free_succeeds [OF assms] obtain pool' where "pbuf_free p (w_pool w) = Some pool'" "pool_inv pool'"
    by blast
  then show thesis by (intro that [of pool']) (simp_all add: buf_free_def)
qed

definition can_open :: "wireguard_peer \<Rightarrow> wireguard_keypair \<Rightarrow> u32 \<Rightarrow> bool" where
  "can_open peer kp now \<longleftrightarrow> receiving_valid kp \<and>
     now - keypair_millis kp < ucast (timeout_reject_after_time peer) * 1000 \<and>
     sending_counter kp < WIREGUARD_REJECT_AFTER_MESSAGES"

text \<open>The header that the code reads for a decrypted packet: the packet, followed by what its buffer
  holds behind it. \<open>behind\<close> is that part of the buffer of \<open>n\<close> bytes that the pool hands out next.\<close>

definition header_of :: "bytes \<Rightarrow> bytes \<Rightarrow> bytes" where
  "header_of pkt slack = take 20 (pkt @ slack)"

definition behind :: "pbuf_pool \<Rightarrow> nat \<Rightarrow> bytes" where
  "behind pool n = (case pbuf_alloc n pool of None \<Rightarrow> [] | Some (q, _) \<Rightarrow> drop (128 + n) (pb_mem q))"

lemma decrypt_length: "wireguard_decrypt_packet c n kp = Some plain \<Longrightarrow> length c = length plain + 16"
  unfolding wireguard_decrypt_packet_def by (rule ccp.length_dec)

lemma plain_buffer:
  assumes "pbuf_fresh n q" and "length plain = n"
  shows "\<exists>p. pbuf_write (pb_payload q) plain q = Some p \<and> pbuf_wf p \<and> pb_payload p = 128 \<and>
    pb_payload p + 20 \<le> length (pb_mem p) \<and> pb_payload p + pb_tot_len p \<le> length (pb_mem p) \<and>
    pb_tot_len p = n \<and> bslice (pb_payload p) (pb_tot_len p) (pb_mem p) = plain \<and>
    bslice (pb_payload p) 20 (pb_mem p) = header_of plain (drop (128 + n) (pb_mem q))"
proof -
  let ?m = "take 128 (pb_mem q) @ plain @ drop (128 + n) (pb_mem q)" and ?slack = "drop (128 + n) (pb_mem q)"
  have q: "pbuf_wf q" "pb_payload q = 128" "pb_tot_len q = n" "length (pb_mem q) = n + 256"
    using assms(1) by (auto simp: pbuf_fresh_def pbuf_wf_def)
  have w: "pbuf_write (pb_payload q) plain q = Some (q\<lparr>pb_mem := ?m\<rparr>)"
    using assms(2) q by (simp add: pbuf_write_def)
  have l: "length ?m = n + 256" using q(4) assms(2) by simp
  have s: "bslice 128 20 ?m = header_of plain ?slack" "bslice 128 n ?m = plain"
    using q(4) assms(2) by (simp_all add: bslice_def header_of_def)
  have "pbuf_wf (q\<lparr>pb_mem := ?m\<rparr>)" using q l by (simp add: pbuf_wf_def)
  then show ?thesis
    using q(2,3) l s by (intro exI [of _ "q\<lparr>pb_mem := ?m\<rparr>"] conjI w) simp_all
qed

text \<open>One transport message for the slot \<open>s\<close> of peer \<open>i\<close>, from the test of the key on.\<close>

lemma process_data_opens:
  assumes inv: "pool_inv (w_pool w)" and peer: "peer = dev_peers device ! i"
    and s: "wireguard_get_peer_keypair_for_idx peer (mt_receiver msg) = Some s"
    and co: "can_open peer (keypair_at peer s) (w_clock w (w_clock_pos w))"
    and n: "n = length (mt_enc_packet msg)" "16 \<le> n" "n \<le> 2048"
    and nonce: "nonce = U8TO64_LITTLE (mt_counter msg)"
    and dec: "wireguard_decrypt_packet (mt_enc_packet msg) nonce (keypair_at peer s) = Some plain"
    and now: "now = w_clock w (w_clock_pos w + 1)"
    and hdr: "hdr = header_of plain (behind (w_pool w) (length plain))"
  shows "\<exists>peer1 w1 pool'.
    wireguard_iface_process_data_message device i msg n wsin w =
      (if plain \<noteq> [] \<and> is_new peer s now nonce
       then map_option (\<lambda>ok. (upd_peer i peer1 device, (if ok then delivered plain w1 else w1)\<lparr>w_pool := pool'\<rparr>))
              (written (tun_ok w) (accepted device peer hdr plain))
       else Some (upd_peer i peer1 device, w1\<lparr>w_pool := pool'\<rparr>)) \<and>
    (\<forall>t. keypair_at peer1 t = keypair_at (rx_keypairs peer s now nonce (length plain)) t) \<and>
    same_config peer peer1 \<and> same_io (w\<lparr>w_pool := w_pool w1\<rparr>) w1 \<and> w_clock_pos w < w_clock_pos w1 \<and>
    pool_inv pool'"
proof -
  let ?w = "tick w"
  have lp: "length plain = n - 16" using decrypt_length [OF dec] n by simp
  have "pool_inv (w_pool ?w)" "n - 16 \<le> 2048" using inv n by simp_all
  then obtain q pool1 where q: "buf_alloc (n - 16) ?w = Some (q, ?w\<lparr>w_pool := pool1\<rparr>)" "pool_inv pool1"
      "pbuf_fresh (n - 16) q" by (rule buf_alloc_ok)
  let ?w1 = "?w\<lparr>w_pool := pool1\<rparr>"
  have bh: "behind (w_pool w) (length plain) = drop (128 + (n - 16)) (pb_mem q)"
    using q(1) by (auto simp: behind_def lp buf_alloc_def bind_eq_Some_conv split: option.splits)
  obtain p where p: "pbuf_write (pb_payload q) plain q = Some p" "pbuf_wf p"
      "pb_payload p + 20 \<le> length (pb_mem p)" "pb_payload p + pb_tot_len p \<le> length (pb_mem p)"
      "pb_tot_len p = n - 16" "bslice (pb_payload p) (pb_tot_len p) (pb_mem p) = plain"
      "bslice (pb_payload p) 20 (pb_mem p) = hdr"
    using plain_buffer [OF q(3) lp] unfolding hdr bh by blast
  have nw: "now = w_clock ?w1 (w_clock_pos ?w1)" by (simp add: now tick_def)
  obtain peer1 w2 where d: "process_decrypted device i s nonce p wsin ?w1 =
      (if pb_tot_len p \<noteq> 0 \<and> is_new peer s now nonce
       then map_option (\<lambda>w. (upd_peer i peer1 device, w)) (inspect_packet device peer1 p w2)
       else Some (upd_peer i peer1 device, w2))"
    "\<forall>t. keypair_at peer1 t = keypair_at (rx_keypairs peer s now nonce (pb_tot_len p)) t"
    "same_config peer peer1" "same_io ?w1 w2"
    using process_decrypted_eq [OF peer nw] by blast
  have acc: "accepted device peer1 = accepted device peer"
    using d(3) by (intro accepted_cong) (simp add: same_config_def)
  have ne: "plain \<noteq> [] \<longleftrightarrow> pb_tot_len p \<noteq> 0" using lp p(5) by auto
  have pl: "w_pool w2 = pool1" using d(4) by (simp add: same_io_def)
  have tun: "tun_ok w2 = tun_ok w" using d(4) by (simp add: same_io_def tun_ok_def tick_def)
  have "pool_inv (w_pool w2)" using q(2) pl by simp
  then obtain pool2 where f: "pbuf_free p (w_pool w2) = Some pool2" "pool_inv pool2"
    using pool.free_succeeds [OF _ p(2)] by blast
  have fr: "buf_free p w2 = Some (w2\<lparr>w_pool := pool2\<rparr>)"
      "buf_free p (delivered plain w2) = Some ((delivered plain w2)\<lparr>w_pool := pool2\<rparr>)"
    using f(1) by (simp_all add: buf_free_def)
  have tk: "take n (mt_enc_packet msg) = mt_enc_packet msg" using n by simp
  have c: "receiving_valid (keypair_at peer s)"
      "\<not> \<not> w_clock w (w_clock_pos w) - keypair_millis (keypair_at peer s) < ucast (timeout_reject_after_time peer) * 1000"
      "sending_counter (keypair_at peer s) < WIREGUARD_REJECT_AFTER_MESSAGES"
    using co by (simp_all add: can_open_def)
  have "wireguard_iface_process_data_message device i msg n wsin w =
      Option.bind (process_decrypted device i s nonce p wsin ?w1)
        (\<lambda>(device, w). Option.bind (buf_free p w) (\<lambda>w. Some (device, w)))"
    unfolding wireguard_iface_process_data_message_def Let_def peer [symmetric] s option.case expired_eq
      if_P [OF c(1)] prod.case nonce [symmetric] tk q(1) Option.bind.bind_lunit dec p(1)
    using c by simp
  also have "\<dots> = (if plain \<noteq> [] \<and> is_new peer s now nonce
       then map_option (\<lambda>ok. (upd_peer i peer1 device, (if ok then delivered plain w2 else w2)\<lparr>w_pool := pool2\<rparr>))
              (written (tun_ok w) (accepted device peer hdr plain))
       else Some (upd_peer i peer1 device, w2\<lparr>w_pool := pool2\<rparr>))"
    unfolding d(1) ne inspect_packet_eq [OF p(3) p(7) [symmetric] p(4) p(6) [symmetric]] acc tun
    by (cases "written (tun_ok w) (accepted device peer hdr plain)") (auto simp: fr)
  finally have e: "wireguard_iface_process_data_message device i msg n wsin w = \<dots>" .
  have io: "same_io (w\<lparr>w_pool := w_pool w2\<rparr>) w2" "w_clock_pos w < w_clock_pos w2"
    using d(4) by (auto simp: same_io_def tick_def)
  have k: "\<forall>t. keypair_at peer1 t = keypair_at (rx_keypairs peer s now nonce (length plain)) t"
    using d(2) lp p(5) by simp
  show ?thesis using e k d(3) io f(2) by blast
qed

section \<open>What reaches the TUN device\<close>

lemma is_new_eq:
  "is_new peer s now nonce \<longleftrightarrow>
     fst (wireguard_check_replay (if s = Next then keypair_zero else keypair_at peer s) nonce)"
proof (cases "s = Next")
  case True
  have "keypair_at (stamped peer Next now) Next = keypair_zero"
    by (simp add: stamped_def wireguard_keypair_update_def wireguard_keypair_destroy_def keypair_zero_def Let_def)
  then show ?thesis using True by (simp add: is_new_def)
next
  case False
  then have "keypair_at (stamped peer s now) s = (keypair_at peer s)\<lparr>kp_last_rx := now\<rparr>"
    by (simp add: stamped_def wireguard_keypair_update_def)
  then show ?thesis using False by (simp add: is_new_def wireguard_check_replay_def Let_def)
qed

text \<open>The transport message \<open>msg\<close> for \<open>peer\<close> delivers \<open>pkt\<close>: the keypair that it names is usable at \<open>now\<close>,
  the message opens under its receiving key, its number is new to the replay window, which is empty for
  the first packet of a session, and header and access control list admit the packet.\<close>

definition delivers_packet ::
  "pbuf_pool \<Rightarrow> u32 \<Rightarrow> wireguard_device \<Rightarrow> wireguard_peer \<Rightarrow> msg_transport_data \<Rightarrow> bytes \<Rightarrow> bool" where
  "delivers_packet pool now device peer msg pkt \<longleftrightarrow>
     (\<exists>s. let kp = keypair_at peer s; nonce = U8TO64_LITTLE (mt_counter msg)
      in wireguard_get_peer_keypair_for_idx peer (mt_receiver msg) = Some s \<and> can_open peer kp now \<and>
         wireguard_decrypt_packet (mt_enc_packet msg) nonce kp = Some pkt \<and> pkt \<noteq> [] \<and>
         fst (wireguard_check_replay (if s = Next then keypair_zero else kp) nonce) \<and>
         accepted device peer (header_of pkt (behind pool (length pkt))) pkt = Some True)"

text \<open>The packet that the datagram \<open>d\<close> delivers.\<close>

definition deliverable :: "pbuf_pool \<Rightarrow> u32 \<Rightarrow> wireguard_device \<Rightarrow> bytes \<Rightarrow> bytes \<Rightarrow> bool" where
  "deliverable pool now device d pkt \<longleftrightarrow>
     wireguard_get_message_type d = WIREGUARD_MSG_TRANSPORT_DATA \<and>
     (\<exists>i. wireguard_peer_lookup_by_receiver device (mt_receiver (transport_of_bytes d)) = Some i \<and>
          delivers_packet pool now device (dev_peers device ! i) (transport_of_bytes d) pkt)"

lemma type_transport:
  "wireguard_get_message_type d = WIREGUARD_MSG_TRANSPORT_DATA \<Longrightarrow> 32 \<le> length d"
proof (rule ccontr)
  assume t: "wireguard_get_message_type d = WIREGUARD_MSG_TRANSPORT_DATA" and "\<not> 32 \<le> length d"
  then have "\<not> length d \<ge> 16 + 16" by simp
  then have "wireguard_get_message_type d \<noteq> WIREGUARD_MSG_TRANSPORT_DATA"
    unfolding wireguard_get_message_type_def Let_def by (simp add: msg_types)
  with t show False by simp
qed

lemma tun_outs_delivered [simp]: "tun_outs (delivered pkt w) = tun_outs w @ [pkt]"
  by (simp add: tun_outs_def)

lemma same_io_tun: "same_io (w\<lparr>w_pool := q\<rparr>) w' \<Longrightarrow> tun_outs w' = tun_outs w"
  by (simp add: same_io_def tun_outs_def)

text \<open>What the processing of a transport message writes to the TUN device: exactly the packet that it
  delivers. It fails only where a packet has no verdict or is not taken by the TUN device.\<close>

definition tun_effect :: "world \<Rightarrow> (bytes \<Rightarrow> bool) \<Rightarrow> world \<Rightarrow> bool" where
  "tun_effect w D w' \<longleftrightarrow>
     (\<exists>pkt. D pkt \<and> tun_outs w' = tun_outs w @ [pkt]) \<or> (\<forall>pkt. \<not> D pkt) \<and> tun_outs w' = tun_outs w"

lemma process_data_tun:
  assumes r: "wireguard_iface_process_data_message device i msg n wsin w = Some (device', w')"
    and inv: "pool_inv (w_pool w)" and n: "n = length (mt_enc_packet msg)" "16 \<le> n" "n \<le> 2048"
    and peer: "peer = dev_peers device ! i"
  shows "tun_effect w (delivers_packet (w_pool w) (w_clock w (w_clock_pos w)) device peer msg) w'"
proof (cases "wireguard_get_peer_keypair_for_idx peer (mt_receiver msg)")
  case None
  then show ?thesis using r
    by (simp add: wireguard_iface_process_data_message_def peer Let_def tun_effect_def delivers_packet_def)
next
  case (Some s)
  let ?kp = "keypair_at peer s" and ?nonce = "U8TO64_LITTLE (mt_counter msg)"
  have tk: "take n (mt_enc_packet msg) = mt_enc_packet msg" using n by simp
  note unf = wireguard_iface_process_data_message_def Let_def peer [symmetric] Some option.case expired_eq tk
  show ?thesis
  proof (cases "can_open peer ?kp (w_clock w (w_clock_pos w))")
    case False
    then have "tun_outs w' = tun_outs w" using r unfolding unf can_open_def by (auto split: if_splits)
    then show ?thesis using False Some by (simp add: tun_effect_def delivers_packet_def Let_def)
  next
    case co: True
    show ?thesis
    proof (cases "wireguard_decrypt_packet (mt_enc_packet msg) ?nonce ?kp")
      case None
      then have "tun_outs w' = tun_outs w" using r co unfolding unf can_open_def
        by (auto simp: bind_eq_Some_conv dest!: buf_tun split: if_splits)
      then show ?thesis using None Some by (simp add: tun_effect_def delivers_packet_def Let_def)
    next
      case dec: (Some plain)
      let ?now = "w_clock w (w_clock_pos w + 1)" and ?hdr = "header_of plain (behind (w_pool w) (length plain))"
      obtain peer1 w1 pool' where e: "wireguard_iface_process_data_message device i msg n wsin w =
         (if plain \<noteq> [] \<and> is_new peer s ?now ?nonce
          then map_option (\<lambda>ok. (upd_peer i peer1 device, (if ok then delivered plain w1 else w1)\<lparr>w_pool := pool'\<rparr>))
              (written (tun_ok w) (accepted device peer ?hdr plain))
          else Some (upd_peer i peer1 device, w1\<lparr>w_pool := pool'\<rparr>))"
        and io: "same_io (w\<lparr>w_pool := w_pool w1\<rparr>) w1"
        using process_data_opens [OF inv peer Some co n refl dec refl refl] by blast
      have t: "tun_outs w1 = tun_outs w" using io by (rule same_io_tun)
      have d: "delivers_packet (w_pool w) (w_clock w (w_clock_pos w)) device peer msg pkt \<longleftrightarrow> pkt = plain \<and>
          plain \<noteq> [] \<and> is_new peer s ?now ?nonce \<and> accepted device peer ?hdr plain = Some True" for pkt
        using Some co dec by (auto simp: delivers_packet_def is_new_eq Let_def)
      show ?thesis
      proof (cases "plain \<noteq> [] \<and> is_new peer s ?now ?nonce \<and> accepted device peer ?hdr plain = Some True")
        case True
        then have "tun_outs w' = tun_outs w @ [plain]" using r t unfolding e by (auto simp: written_Some)
        then show ?thesis using True unfolding tun_effect_def d by blast
      next
        case False
        then have "tun_outs w' = tun_outs w" using r t unfolding e by (auto simp: written_Some split: if_splits)
        then show ?thesis using False unfolding tun_effect_def d by blast
      qed
    qed
  qed
qed

lemma network_rx_tun:
  assumes r: "wireguard_iface_network_rx dh device p wsin w = Some (device', w')"
    and inv: "pool_inv (w_pool w)" and len: "pb_len p \<le> 2048"
    and d: "pbuf_read (pb_payload p) (pb_len p) p = Some d" "length d = pb_len p"
  shows "tun_effect w (deliverable (w_pool w) (w_clock w (w_clock_pos w)) device d) w'"
proof (cases "wireguard_get_message_type d = WIREGUARD_MSG_TRANSPORT_DATA")
  case True
  let ?msg = "transport_of_bytes d" and ?n = "pb_len p - 16"
  have r': "(case wireguard_peer_lookup_by_receiver device (mt_receiver ?msg) of
          None \<Rightarrow> Some (device, w)
        | Some i \<Rightarrow> wireguard_iface_process_data_message device i ?msg ?n wsin w) = Some (device', w')"
    using r True unfolding wireguard_iface_network_rx_def d(1) Option.bind.bind_lunit Let_def
    by (simp add: msg_types)
  show ?thesis
  proof (cases "wireguard_peer_lookup_by_receiver device (mt_receiver ?msg)")
    case None
    then show ?thesis using r' by (simp add: tun_effect_def deliverable_def)
  next
    case (Some i)
    have n: "?n = length (mt_enc_packet ?msg)" "16 \<le> ?n" "?n \<le> 2048"
      using type_transport [OF True] d(2) len by (simp_all add: transport_of_bytes_def)
    have "wireguard_iface_process_data_message device i ?msg ?n wsin w = Some (device', w')" using r' Some by simp
    from process_data_tun [OF this inv n refl] Some True show ?thesis
      by (simp add: tun_effect_def deliverable_def)
  qed
next
  case False
  then have "tun_outs w' = tun_outs w"
    using r unfolding wireguard_iface_network_rx_def d(1) Option.bind.bind_lunit Let_def
      wireguard_iface_check_initiation_message_def wireguard_iface_check_response_message_def
    by (auto simp: bind_eq_Some_conv case_prod_beta split: if_splits option.splits prod.splits
        dest!: check_macs_same send_response_tun process_response_tun)
      (metis process_initiation_tun snd_conv update_addr_tun)+
  then show ?thesis using False by (simp add: tun_effect_def deliverable_def)
qed

definition after_receive :: "world \<Rightarrow> pbuf_pool" where
  "after_receive w = (case pbuf_alloc 2048 (w_pool w) of None \<Rightarrow> w_pool w | Some (_, pool) \<Rightarrow> pool)"

lemma receive_ok:
  assumes "pool_inv (w_pool w)"
  obtains p pool' where "receive bs w = Some (p, w\<lparr>w_pool := pool'\<rparr>)" and "pool_inv pool'" and "pbuf_wf p"
    and "pb_payload p = 128" and "pb_len p = length (take 2048 bs)" and "length (pb_mem p) = 2304"
    and "pbuf_data p = take 2048 bs" and "pool' = after_receive w"
proof -
  obtain q pool' where q: "buf_alloc 2048 w = Some (q, w\<lparr>w_pool := pool'\<rparr>)" "pool_inv pool'"
      "pbuf_fresh 2048 q" "pbuf_wf q"
    by (rule buf_alloc_ok [OF assms order_refl])
  let ?bs = "take 2048 bs"
  let ?m = "take 128 (pb_mem q) @ ?bs @ drop (128 + length ?bs) (pb_mem q)"
  have f: "pb_payload q = 128" "pb_tot_len q = 2048" "length (pb_mem q) = 2304"
    using q(3) by (auto simp: pbuf_fresh_def pbuf_wf_def)
  have l: "length ?m = 2304" using f by simp
  have "pbuf_write (pb_payload q) ?bs q = Some (q\<lparr>pb_mem := ?m\<rparr>)" using f by (simp add: pbuf_write_def)
  then have "receive bs w = Some (q\<lparr>pb_mem := ?m, pb_len := length ?bs\<rparr>, w\<lparr>w_pool := pool'\<rparr>)"
    unfolding receive_def q(1) Let_def Option.bind.bind_lunit prod.case f(2) by simp
  moreover have "pbuf_wf (q\<lparr>pb_mem := ?m, pb_len := length ?bs\<rparr>)" using q(4) l f by (simp add: pbuf_wf_def)
  moreover have "bslice 128 (length ?bs) ?m = ?bs" using f by (simp add: bslice_def min_def)
  moreover have "pool' = after_receive w"
    using q(1) by (auto simp: after_receive_def buf_alloc_def bind_eq_Some_conv dest: arg_cong [of _ _ w_pool])
  ultimately show thesis
    using q(2) f l by (intro that [of "q\<lparr>pb_mem := ?m, pb_len := length ?bs\<rparr>" pool']) (simp_all add: pbuf_data_def)
qed

text \<open>The WireGuard message in a datagram: the relay header is removed.\<close>

definition message_of :: "u16 \<Rightarrow> bytes \<Rightarrow> bytes" where
  "message_of port bs = (if port = 82 then drop 32 (take 2048 bs) else take 2048 bs)"

text \<open>A relay header names the version and the band.\<close>

definition relay_ok :: "world \<Rightarrow> u16 \<Rightarrow> bytes \<Rightarrow> bool" where
  "relay_ok w port bs \<longleftrightarrow> (port = 82 \<longrightarrow> bs ! 0 AND 0x0F = 1 \<and> bslice 4 16 bs = w_band_uuid w)"

definition same_env :: "world \<Rightarrow> world \<Rightarrow> bool" where
  "same_env w w' \<longleftrightarrow> tun_outs w' = tun_outs w \<and> w_pool w' = w_pool w \<and> w_clock w' = w_clock w \<and>
     w_clock_pos w' = w_clock_pos w \<and> tun_ok w' = tun_ok w \<and> w_band_uuid w' = w_band_uuid w"

lemma same_env_stat [simp]: "same_env w (stat f w)"
  by (simp add: same_env_def stat_def tun_outs_def tun_ok_def)

lemma proxy_handler_message:
  assumes h: "mudband_tunnel_proxy_handler p wsin w = Some (ok, p', wsin', w')"
    and b: "pb_payload p + pb_len p \<le> length (pb_mem p)"
  shows "same_env w w' \<and> pb_len p' \<le> pb_len p \<and> pbuf_wf p' = pbuf_wf p \<and>
    ok = (pbuf_data p ! 0 AND 0x0F = 1 \<and> bslice 4 16 (pbuf_data p) = w_band_uuid w) \<and>
    (ok \<longrightarrow> pbuf_read (pb_payload p') (pb_len p') p' = Some (drop 32 (pbuf_data p)) \<and>
       pb_len p' = length (drop 32 (pbuf_data p)))"
proof -
  have l: "pb_len p > 32" using h by (auto simp: mudband_tunnel_proxy_handler_def split: if_splits)
  then have rd: "pbuf_read (pb_payload p) 32 p = Some (bslice (pb_payload p) 32 (pb_mem p))"
    using b by (simp add: pbuf_read_def)
  let ?h = "bslice (pb_payload p) 32 (pb_mem p)"
  have "bslice (pb_payload p + 32) (pb_len p - 32) (pb_mem p) = drop 32 (pbuf_data p)"
    by (simp add: pbuf_data_def bslice_def drop_take add.commute)
  moreover have "?h = take 32 (pbuf_data p)" using l by (simp add: pbuf_data_def bslice_def min_def)
  then have "?h ! 0 = pbuf_data p ! 0" "bslice 4 16 ?h = bslice 4 16 (pbuf_data p)"
    by (simp_all add: bslice_def drop_take min_def)
  ultimately show ?thesis
    using h b l unfolding mudband_tunnel_proxy_handler_def rd
    by (auto simp: pbuf_read_def pbuf_wf_def pbuf_data_def Let_def split: if_splits)
qed

text \<open>The steps of \<open>tunnel_udp\<close> up to the WireGuard message.\<close>

lemma tunnel_udp_message:
  assumes inv: "pool_inv (w_pool w)" and len: "port = 82 \<longrightarrow> 32 < length bs"
  obtains p wsin w2 where "same_env (w\<lparr>w_pool := after_receive w\<rparr>) w2" and "pool_inv (w_pool w2)"
    and "pb_len p \<le> 2048" and "pbuf_wf p"
    and "relay_ok w port bs \<Longrightarrow> pbuf_read (pb_payload p) (pb_len p) p = Some (message_of port bs)"
    and "relay_ok w port bs \<Longrightarrow> length (message_of port bs) = pb_len p"
    and "tunnel_udp dh device addr port bs w =
      (if relay_ok w port bs then Option.bind (wireguard_iface_network_rx dh device p wsin w2)
                (\<lambda>(device, w). Option.bind (buf_free p w) (\<lambda>w. Some (device, w)))
       else Option.bind (buf_free p w2) (\<lambda>w. Some (device, w)))"
proof -
  obtain p pool' where p: "receive bs w = Some (p, w\<lparr>w_pool := pool'\<rparr>)" "pool_inv pool'" "pbuf_wf p"
      "pb_payload p = 128" "pb_len p = length (take 2048 bs)" "length (pb_mem p) = 2304" "pbuf_data p = take 2048 bs"
      "pool' = after_receive w"
    using receive_ok [OF inv] by blast
  have b: "pb_payload p + pb_len p \<le> length (pb_mem p)" using p(4-6) by simp
  have rd: "pbuf_read (pb_payload p) (pb_len p) p = Some (take 2048 bs)"
    using b p(7) by (simp add: pbuf_read_def pbuf_data_def)
  define w1 where "w1 = stat (\<lambda>s. s\<lparr>n_udp_rx_pkts := n_udp_rx_pkts s + 1,
      bytes_udp_rx := bytes_udp_rx s + of_nat (pb_len p)\<rparr>) (w\<lparr>w_pool := pool'\<rparr>)"
  have w1: "same_env (w\<lparr>w_pool := after_receive w\<rparr>) w1" by (simp add: w1_def p(8))
  define wsin where "wsin = \<lparr>ws_addr = addr, ws_port = port, ws_from_it = (port = 82), ws_src_addr = 0,
                 ws_dst_addr = 0\<rparr>"
  have "\<exists>x. (if port = 82 then mudband_tunnel_proxy_handler p wsin w1 else Some (True, p, wsin, w1)) = Some x"
  proof (cases "port = 82")
    case True
    then have "pb_len p > 32" "pbuf_read (pb_payload p) 32 p = Some (bslice (pb_payload p) 32 (pb_mem p))"
      using len p(4-6) by (simp_all add: pbuf_read_def)
    then show ?thesis using True unfolding mudband_tunnel_proxy_handler_def by auto
  qed auto
  then obtain g p2 wsin2 w2 where
    h: "(if port = 82 then mudband_tunnel_proxy_handler p wsin w1 else Some (True, p, wsin, w1)) = Some (g, p2, wsin2, w2)"
    by (metis prod_cases4)
  have bs: "take 2048 bs ! 0 = bs ! 0" "bslice 4 16 (take 2048 bs) = bslice 4 16 bs"
    by (simp_all add: bslice_def drop_take min_def)
  have u: "w_band_uuid w1 = w_band_uuid w" using w1 by (simp add: same_env_def)
  have p2: "same_env w1 w2 \<and> pb_len p2 \<le> 2048 \<and> pbuf_wf p2 \<and> g = relay_ok w port bs \<and>
      (g \<longrightarrow> pbuf_read (pb_payload p2) (pb_len p2) p2 = Some (message_of port bs) \<and>
        length (message_of port bs) = pb_len p2)"
  proof (cases "port = 82")
    case True
    then have "mudband_tunnel_proxy_handler p wsin w1 = Some (g, p2, wsin2, w2)" using h by simp
    from proxy_handler_message [OF this b] show ?thesis
      using True p(3,5,7) bs u by (auto simp: message_of_def relay_ok_def)
  next
    case False
    then show ?thesis using h rd p(3,5) by (auto simp: message_of_def relay_ok_def same_env_def)
  qed
  have "same_env (w\<lparr>w_pool := after_receive w\<rparr>) w2" "pool_inv (w_pool w2)"
    using w1 p2 p(2,8) by (simp_all add: same_env_def)
  moreover have "tunnel_udp dh device addr port bs w =
      (if g then Option.bind (wireguard_iface_network_rx dh device p2 wsin2 w2)
                (\<lambda>(device, w). Option.bind (buf_free p2 w) (\<lambda>w. Some (device, w)))
       else Option.bind (buf_free p2 w2) (\<lambda>w. Some (device, w)))"
    unfolding tunnel_udp_def p(1) Option.bind.bind_lunit prod.case Let_def w1_def [symmetric] wsin_def [symmetric] h
    by (rule refl)
  ultimately show thesis using p2 by (intro that [of w2 p2 wsin2]) simp_all
qed

text \<open>A datagram of the relay port that is no longer than the header fails the assertion.\<close>

lemma tunnel_udp_short:
  assumes "pool_inv (w_pool w)" and "length bs \<le> 32"
  shows "tunnel_udp dh device addr 82 bs w = None"
proof -
  obtain p pool' where p: "receive bs w = Some (p, w\<lparr>w_pool := pool'\<rparr>)" "pb_len p = length (take 2048 bs)"
    using receive_ok [OF assms(1)] by blast
  have "\<not> pb_len p > 32" using p(2) assms(2) by simp
  then show ?thesis
    unfolding tunnel_udp_def p(1) Option.bind.bind_lunit prod.case Let_def mudband_tunnel_proxy_handler_def by simp
qed

text \<open>The packet that a datagram delivers, in a state of the program.\<close>

definition udp_delivers :: "wireguard_device \<Rightarrow> u16 \<Rightarrow> bytes \<Rightarrow> world \<Rightarrow> bytes \<Rightarrow> bool" where
  "udp_delivers device port bs w pkt \<longleftrightarrow> relay_ok w port bs \<and>
     deliverable (after_receive w) (w_clock w (w_clock_pos w)) device (message_of port bs) pkt"

lemma tunnel_udp_tun:
  assumes inv: "pool_inv (w_pool w)" and r: "tunnel_udp dh device addr port bs w = Some (device', w')"
  shows "tun_effect w (udp_delivers device port bs w) w'"
proof -
  have "port = 82 \<longrightarrow> 32 < length bs" using tunnel_udp_short [OF inv] r by (metis not_le option.distinct(1))
  from tunnel_udp_message [OF inv this] obtain p wsin w2 where
    w2: "same_env (w\<lparr>w_pool := after_receive w\<rparr>) w2" "pool_inv (w_pool w2)" and p: "pb_len p \<le> 2048"
    and d: "relay_ok w port bs \<Longrightarrow> pbuf_read (pb_payload p) (pb_len p) p = Some (message_of port bs)"
      "relay_ok w port bs \<Longrightarrow> length (message_of port bs) = pb_len p"
    and e: "tunnel_udp dh device addr port bs w =
      (if relay_ok w port bs then Option.bind (wireguard_iface_network_rx dh device p wsin w2)
                (\<lambda>(device, w). Option.bind (buf_free p w) (\<lambda>w. Some (device, w)))
       else Option.bind (buf_free p w2) (\<lambda>w. Some (device, w)))"
    by blast
  have t: "tun_outs w2 = tun_outs w" using w2(1) by (simp add: same_env_def)
  show ?thesis
  proof (cases "relay_ok w port bs")
    case False
    then have "tun_outs w' = tun_outs w2" using r unfolding e by (auto simp: bind_eq_Some_conv dest!: buf_tun)
    then show ?thesis using t False by (simp add: tun_effect_def udp_delivers_def)
  next
    case True
    with r obtain w3 where n: "wireguard_iface_network_rx dh device p wsin w2 = Some (device', w3)"
        and "tun_outs w' = tun_outs w3"
      unfolding e by (auto simp: bind_eq_Some_conv dest!: buf_tun)
    with network_rx_tun [OF n w2(2) p d [OF True]] w2(1) True t show ?thesis
      by (simp add: tun_effect_def udp_delivers_def same_env_def)
  qed
qed

section \<open>End to end\<close>

lemma length_stale_bytes:
  assumes "pool_inv (w_pool w)" and "n \<le> 2016"
  shows "length (stale_bytes n w) = padded_len n - n"
proof -
  have "16 + padded_len n + 16 \<le> 2048" using padded_len_bounds [OF assms(2)] by simp
  from pool.alloc_succeeds [OF assms(1) this] obtain q pool' where
    "pbuf_alloc (16 + padded_len n + 16) (w_pool w) = Some (q, pool')" "pbuf_fresh (16 + padded_len n + 16) q" by blast
  then show ?thesis
    using padded_len_bounds [OF assms(2)] by (simp add: stale_bytes_def pbuf_fresh_def pbuf_wf_def)
qed

text \<open>A packet of the TUN device for the peer \<open>i\<close> whose key can be used.\<close>

lemma tunnel_tun_sends:
  assumes inv: "pool_inv (w_pool w)" and u: "length (w_band_uuid w) = 16"
    and bs: "20 \<le> length bs" "length bs \<le> 2016" "drop_bit 4 (bs ! 0) AND 0x0F = 4"
    and i: "wireguard_iface_peer_lookup_by_allowed_ip device (U8TO32_LITTLE (bslice 16 4 bs)) = Some i"
    and peer: "peer = dev_peers device ! i" and kp: "kp = keypair_at peer (sending_slot peer)"
    and seal: "can_seal peer kp (w_clock w (w_clock_pos w))" and sent: "w_sendto w (w_sendto_pos w) = Sent"
  shows "\<exists>device' w' pad. tunnel_tun device bs w = Some (device', w') \<and> pool_inv (w_pool w') \<and>
    length (bs @ pad) = padded_len (length bs) \<and>
    w_out w' = w_out w @ [Udp_out (endpoint_latest_ip peer) (endpoint_latest_port peer)
      (datagram w (endpoint_latest_is_proxy peer) (dev_iface_addr device) (peer_iface_addr peer)
        (transport_packet kp (bs @ pad)))]"
proof -
  obtain p pool' where p: "receive bs w = Some (p, w\<lparr>w_pool := pool'\<rparr>)" "pool_inv pool'" "pbuf_wf p"
      "pb_payload p = 128" "pb_len p = length (take 2048 bs)" "length (pb_mem p) = 2304" "pbuf_data p = take 2048 bs"
    using receive_ok [OF inv] by blast
  have d: "pbuf_data p = bs" "pb_len p = length bs" using p(5,7) bs(2) by simp_all
  have h: "bslice (pb_payload p) 20 (pb_mem p) = take 20 bs"
    using d bs(1) p(4) by (metis bslice_0 bslice_def min.absorb_iff1 pbuf_data_def take_take)
  have rd: "pbuf_read (pb_payload p) 20 p = Some (take 20 bs)" using p(4,6) h by (simp add: pbuf_read_def)
  have v: "drop_bit 4 (take 20 bs ! 0) AND 0x0F = 4" using bs by simp
  have dst: "bslice 16 4 (take 20 bs) = bslice 16 4 bs" by (simp add: bslice_def drop_take)
  define w1 where "w1 = stat (\<lambda>s. s\<lparr>n_tun_rx_pkts := n_tun_rx_pkts s + 1,
      bytes_tun_rx := bytes_tun_rx s + of_nat (pb_len p)\<rparr>) (w\<lparr>w_pool := pool'\<rparr>)"
  have w1: "w_pool w1 = pool'" "w_out w1 = w_out w" "w_clock w1 = w_clock w" "w_clock_pos w1 = w_clock_pos w"
      "w_sendto w1 = w_sendto w" "w_sendto_pos w1 = w_sendto_pos w" "w_band_uuid w1 = w_band_uuid w"
    by (simp_all add: w1_def stat_def)
  have dg: "datagram w1 = datagram w" by (simp add: datagram_def w1(7) fun_eq_iff)
  have il: "i < length (dev_peers device)"
    using i unfolding wireguard_iface_peer_lookup_by_allowed_ip_def by (blast dest: find_index_SomeD)
  have ok: "packet_ok (Some p)" using p(4,6) d(2) bs(2) by (simp add: packet_ok_def)
  have pd: "packet_data (Some p) = bs" using d(1) by (simp add: packet_data_def)
  have "pool_inv (w_pool w1)" "length (w_band_uuid w1) = 16" using p(2) u w1 by simp_all
  from output_to_peer_ok [OF il this(1) ok this(2)] obtain r device' w2 where
    o: "wireguard_iface_output_to_peer device (Some p) i w1 = Some (r, device', w2)" "pool_inv (w_pool w2)"
      "transport_sent device bs i w1 r device' w2" unfolding pd by blast
  have out: "w_out w2 = w_out w @ [Udp_out (endpoint_latest_ip peer) (endpoint_latest_port peer)
      (datagram w (endpoint_latest_is_proxy peer) (dev_iface_addr device) (peer_iface_addr peer)
        (transport_packet kp (bs @ stale_bytes (length bs) w1)))]"
    using o(3) seal sent
    unfolding transport_sent_def Let_def peer [symmetric] kp [symmetric] w1 dg by simp
  have pad: "length (bs @ stale_bytes (length bs) w1) = padded_len (length bs)"
    using length_stale_bytes [of w1, OF _ bs(2)] padded_len_bounds [OF bs(2)] p(2) w1(1) by simp
  obtain pool2 where f: "buf_free p w2 = Some (w2\<lparr>w_pool := pool2\<rparr>)" "pool_inv pool2"
    by (rule buf_free_ok [OF o(2) p(3)])
  have "tunnel_tun device bs w = Some (device', w2\<lparr>w_pool := pool2\<rparr>)"
    unfolding tunnel_tun_def p(1) Option.bind.bind_lunit prod.case rd w1_def [symmetric] Let_def
      wireguard_iface_output_def dst i option.case o(1) f(1)
    using v by simp
  moreover have "pool_inv (w_pool (w2\<lparr>w_pool := pool2\<rparr>))" "w_out (w2\<lparr>w_pool := pool2\<rparr>) = w_out w2"
    using f(2) by simp_all
  ultimately show ?thesis using out pad by metis
qed


lemma transport_packet_fields:
  "length (transport_packet kp plain) = length plain + 32"
  "wireguard_get_message_type (transport_packet kp plain) = WIREGUARD_MSG_TRANSPORT_DATA"
  "mt_receiver (transport_of_bytes (transport_packet kp plain)) = kp_remote_index kp"
  "U8TO64_LITTLE (mt_counter (transport_of_bytes (transport_packet kp plain))) = sending_counter kp"
  "mt_enc_packet (transport_of_bytes (transport_packet kp plain)) = fst (wireguard_encrypt_packet plain kp)"
  by (simp_all add: transport_packet_def transport_bytes_def transport_of_bytes_def bslice_def
      wireguard_get_message_type_def msg_types Let_def)

lemma decrypt_mirrored:
  assumes "receiving_key b = sending_key a"
  shows "wireguard_decrypt_packet (fst (wireguard_encrypt_packet plain a)) (sending_counter a) b = Some plain"
  by (simp add: wireguard_decrypt_packet_def wireguard_encrypt_packet_def assms ccp.dec_enc)

lemma header_of_long: "20 \<le> length pkt \<Longrightarrow> header_of pkt slack = take 20 pkt"
  by (simp add: header_of_def)

text \<open>A datagram of the session arrives directly from its sender.\<close>

lemma tunnel_udp_delivers:
  assumes inv: "pool_inv (w_pool w)" and port: "port \<noteq> 82"
    and d: "d = transport_packet a plain" "20 \<le> length plain" "length plain \<le> 2016"
    and i: "wireguard_peer_lookup_by_receiver device (kp_remote_index a) = Some i"
    and peer: "peer = dev_peers device ! i"
    and s: "wireguard_get_peer_keypair_for_idx peer (kp_remote_index a) = Some s"
    and b: "b = keypair_at peer s" "receiving_key b = sending_key a"
    and co: "can_open peer b (w_clock w (w_clock_pos w))"
    and tun: "tun_ok w"
    and new: "fst (wireguard_check_replay (if s = Next then keypair_zero else b) (sending_counter a))"
    and acc: "accepted device peer (take 20 plain) plain = Some True"
  shows "\<exists>peer' w'. tunnel_udp dh device addr port d w = Some (upd_peer i peer' device, w') \<and>
    w_out w' = w_out w @ [Tun_out plain] \<and> pool_inv (w_pool w') \<and> w_clock w' = w_clock w \<and>
    w_tunwrite w' = w_tunwrite w \<and> same_config peer peer' \<and>
    (\<forall>t. keypair_at peer' t = keypair_at (rx_keypairs peer s (w_clock w (w_clock_pos w + 1))
      (sending_counter a) (length plain)) t)"
proof -
  have len: "length d = length plain + 32" by (simp add: d(1) transport_packet_fields)
  have t: "take 2048 d = d" using len d(3) by simp
  obtain p pool' where p: "receive d w = Some (p, w\<lparr>w_pool := pool'\<rparr>)" "pool_inv pool'" "pbuf_wf p"
      "pb_payload p = 128" "pb_len p = length d" "length (pb_mem p) = 2304" "pbuf_data p = d"
    using receive_ok [OF inv, of d] unfolding t by blast
  define w1 where "w1 = stat (\<lambda>s. s\<lparr>n_udp_rx_pkts := n_udp_rx_pkts s + 1,
      bytes_udp_rx := bytes_udp_rx s + of_nat (pb_len p)\<rparr>) (w\<lparr>w_pool := pool'\<rparr>)"
  have w1: "w_pool w1 = pool'" "w_out w1 = w_out w" "w_clock w1 = w_clock w" "w_clock_pos w1 = w_clock_pos w"
      "tun_ok w1 = True" "w_tunwrite w1 = w_tunwrite w"
    using tun by (simp_all add: w1_def stat_def tun_ok_def)
  define wsin where "wsin = \<lparr>ws_addr = addr, ws_port = port, ws_from_it = (port = 82), ws_src_addr = 0,
                 ws_dst_addr = 0\<rparr>"
  have rd: "pbuf_read (pb_payload p) (pb_len p) p = Some d"
    using p(4-7) len d(3) by (simp add: pbuf_read_def pbuf_data_def)
  let ?msg = "transport_of_bytes d" and ?n = "pb_len p - 16"
  note tf = transport_packet_fields [of a plain, folded d(1)]
  have n: "?n = length (mt_enc_packet ?msg)" "16 \<le> ?n" "?n \<le> 2048"
    using p(5) len d(3) by (simp_all add: tf(5))
  have s': "wireguard_get_peer_keypair_for_idx peer (mt_receiver ?msg) = Some s" using s by (simp add: tf(3))
  have co': "can_open peer (keypair_at peer s) (w_clock w1 (w_clock_pos w1))" using co b(1) w1 by simp
  have inv1: "pool_inv (w_pool w1)" using p(2) w1 by simp
  have dec: "wireguard_decrypt_packet (mt_enc_packet ?msg) (U8TO64_LITTLE (mt_counter ?msg)) (keypair_at peer s) = Some plain"
    unfolding tf(4,5) b(1) [symmetric] by (rule decrypt_mirrored [OF b(2)])
  let ?now = "w_clock w (w_clock_pos w + 1)" and ?nonce = "sending_counter a"
  have new': "plain \<noteq> [] \<and> is_new peer s ?now ?nonce" using new d(2) b(1) by (auto simp: is_new_eq)
  have acc': "accepted device peer (header_of plain slack) plain = Some True" for slack
    using acc d(2) by (simp add: header_of_long)
  obtain peer1 w2 pool2 where e: "wireguard_iface_process_data_message device i ?msg ?n wsin w1 =
         Some (upd_peer i peer1 device, (delivered plain w2)\<lparr>w_pool := pool2\<rparr>)"
      and k: "\<forall>t. keypair_at peer1 t = keypair_at (rx_keypairs peer s ?now ?nonce (length plain)) t"
      and c: "same_config peer peer1"
      and io: "same_io (w1\<lparr>w_pool := w_pool w2\<rparr>) w2" and inv2: "pool_inv pool2"
    using process_data_opens [OF inv1 peer s' co' n refl dec refl refl, of wsin]
    unfolding tf(4) w1(3,4,5) if_P [OF new'] acc' by auto
  have nr: "wireguard_iface_network_rx dh device p wsin w1 =
      Some (upd_peer i peer1 device, (delivered plain w2)\<lparr>w_pool := pool2\<rparr>)"
    unfolding wireguard_iface_network_rx_def rd Option.bind.bind_lunit Let_def tf(2,3) i option.case e
    by (simp add: msg_types)
  have "pool_inv (w_pool ((delivered plain w2)\<lparr>w_pool := pool2\<rparr>))" using inv2 by simp
  then obtain pool3 where f: "buf_free p ((delivered plain w2)\<lparr>w_pool := pool2\<rparr>) =
      Some ((delivered plain w2)\<lparr>w_pool := pool2\<rparr>\<lparr>w_pool := pool3\<rparr>)" "pool_inv pool3"
    by (rule buf_free_ok [OF _ p(3)])
  have "tunnel_udp dh device addr port d w =
      Some (upd_peer i peer1 device, (delivered plain w2)\<lparr>w_pool := pool2\<rparr>\<lparr>w_pool := pool3\<rparr>)"
    unfolding tunnel_udp_def p(1) Option.bind.bind_lunit prod.case Let_def w1_def [symmetric] wsin_def [symmetric]
      if_not_P [OF port] if_True nr f(1) by (rule refl)
  moreover have "w_out ((delivered plain w2)\<lparr>w_pool := pool2\<rparr>\<lparr>w_pool := pool3\<rparr>) = w_out w @ [Tun_out plain]"
      "w_clock ((delivered plain w2)\<lparr>w_pool := pool2\<rparr>\<lparr>w_pool := pool3\<rparr>) = w_clock w"
      "w_tunwrite ((delivered plain w2)\<lparr>w_pool := pool2\<rparr>\<lparr>w_pool := pool3\<rparr>) = w_tunwrite w"
    using io w1(2,3,6) by (simp_all add: same_io_def)
  ultimately show ?thesis using f(2) k c by (intro exI conjI) (assumption | simp)+
qed

end
