(* ===== verification/Iface_Delivery.thy ===== *)
theory Iface_Delivery
  imports Iface_Recv
begin

text \<open>
  Replays, the absence of failed assertions while datagrams are received, and the properties of the
  receiving half of the interface layer.
\<close>

section \<open>Replays\<close>

lemma check_replay_again:
  "fst (wireguard_check_replay kp n) \<Longrightarrow> \<not> fst (wireguard_check_replay (snd (wireguard_check_replay kp n)) n)"
proof -
  assume ok: "fst (wireguard_check_replay kp n)"
  let ?d = "unat (ucast (replay_counter kp - (n + 1)) :: u32)"
  from ok have nz: "n + 1 \<noteq> 0" unfolding wireguard_check_replay_def Let_def by (auto split: if_splits)
  show ?thesis
  proof (cases "n + 1 > replay_counter kp")
    case True
    let ?kp = "snd (wireguard_check_replay kp n)"
    have "bit (replay_bitmap ?kp) 0" "replay_counter ?kp = n + 1"
      using nz True by (simp_all add: wireguard_check_replay_def Let_def bit_simps)
    then show ?thesis
      unfolding wireguard_check_replay_def [of ?kp] Let_def using nz by (simp add: and_push_bit_1 [of _ 0, simplified])
  next
    case False
    with ok nz have e: "wireguard_check_replay kp n = (True, kp\<lparr>replay_bitmap := replay_bitmap kp OR push_bit ?d 1\<rparr>)"
      and d: "?d < 32"
      unfolding wireguard_check_replay_def Let_def by (auto split: if_splits)
    have "bit (replay_bitmap kp OR push_bit ?d 1) ?d" using d by (simp add: bit_simps)
    then have "(replay_bitmap kp OR push_bit ?d 1) AND push_bit ?d 1 \<noteq> 0" by (simp only: and_push_bit_1 simp_thms)
    then show ?thesis unfolding e using nz False d by (simp add: wireguard_check_replay_def Let_def)
  qed
qed

lemma lookup_by_receiver_upd:
  assumes i: "wireguard_peer_lookup_by_receiver device idx = Some i"
    and v: "peer_valid peer'" and t: "kp_valid (keypair_at peer' t)" "kp_local_index (keypair_at peer' t) = idx"
  shows "wireguard_peer_lookup_by_receiver (upd_peer i peer' device) idx = Some i"
proof -
  let ?P = "\<lambda>tmp :: wireguard_peer. peer_valid tmp \<and>
         ((kp_valid (curr_keypair tmp) \<and> kp_local_index (curr_keypair tmp) = idx) \<or>
          (kp_valid (next_keypair tmp) \<and> kp_local_index (next_keypair tmp) = idx) \<or>
          (kp_valid (prev_keypair tmp) \<and> kp_local_index (prev_keypair tmp) = idx))"
  have p: "?P peer'" using t v by (cases t) (auto simp: keypair_at_def)
  define P where "P = ?P"
  have lk: "wireguard_peer_lookup_by_receiver d idx = find_index P (dev_peers d)" for d
    unfolding wireguard_peer_lookup_by_receiver_def P_def ..
  show ?thesis
    using i p unfolding lk upd_peer_def find_index_Some_iff by (simp add: nth_list_update P_def)
qed

lemma get_keypair_cong:
  assumes "\<And>t. kp_valid (keypair_at p t) = kp_valid (keypair_at q t)"
    and "\<And>t. kp_local_index (keypair_at p t) = kp_local_index (keypair_at q t)"
  shows "wireguard_get_peer_keypair_for_idx p idx = wireguard_get_peer_keypair_for_idx q idx"
  using assms [of Curr] assms [of Prev] assms [of Next]
  by (simp add: wireguard_get_peer_keypair_for_idx_def keypair_at_def)

lemma check_replay_keeps:
  "kp_valid (snd (wireguard_check_replay kp n)) = kp_valid kp"
  "kp_local_index (snd (wireguard_check_replay kp n)) = kp_local_index kp"
  by (simp_all add: wireguard_check_replay_def Let_def)

lemma rx_keypairs_same:
  assumes "s \<noteq> Next"
  shows "kp_valid (keypair_at (rx_keypairs peer s now nonce n) t) = kp_valid (keypair_at peer t)"
    and "kp_local_index (keypair_at (rx_keypairs peer s now nonce n) t) = kp_local_index (keypair_at peer t)"
  using assms
  by (auto simp: rx_keypairs_def stamped_def wireguard_keypair_update_def keypair_at_set_keypair check_replay_keeps Let_def)

lemma rx_keypairs_at:
  assumes "s \<noteq> Next" and "n \<noteq> 0"
  shows "keypair_at (rx_keypairs peer s now nonce n) s =
    snd (wireguard_check_replay ((keypair_at peer s)\<lparr>kp_last_rx := now\<rparr>) nonce)"
  using assms by (simp add: rx_keypairs_def stamped_def wireguard_keypair_update_def Let_def)

lemma check_replay_last_rx:
  "fst (wireguard_check_replay (kp\<lparr>kp_last_rx := now\<rparr>) n) = fst (wireguard_check_replay kp n)"
  by (simp add: wireguard_check_replay_def Let_def)

lemma replay_not_deliverable:
  assumes i: "wireguard_peer_lookup_by_receiver device (kp_remote_index a) = Some i"
    and peer: "peer = dev_peers device ! i"
    and s: "wireguard_get_peer_keypair_for_idx peer (kp_remote_index a) = Some s" "s \<noteq> Next"
    and new: "fst (wireguard_check_replay (keypair_at peer s) (sending_counter a))"
    and k: "\<forall>t. keypair_at peer' t = keypair_at (rx_keypairs peer s now (sending_counter a) n) t" "n \<noteq> 0"
    and c: "same_config peer peer'"
  shows "\<not> deliverable pool time (upd_peer i peer' device) (transport_packet a plain) pkt"
proof
  assume d: "deliverable pool time (upd_peer i peer' device) (transport_packet a plain) pkt"
  have il: "i < length (dev_peers device)" and pv: "peer_valid peer"
    using i unfolding wireguard_peer_lookup_by_receiver_def peer by (auto dest: find_index_SomeD)
  have g: "wireguard_get_peer_keypair_for_idx peer' (kp_remote_index a) = Some s"
    using get_keypair_cong [of peer' peer] s(1) rx_keypairs_same [OF s(2)] k(1) by simp
  then have "kp_valid (keypair_at peer' s)" "kp_local_index (keypair_at peer' s) = kp_remote_index a"
    using get_keypair_SomeD by blast+
  then have l: "wireguard_peer_lookup_by_receiver (upd_peer i peer' device) (kp_remote_index a) = Some i"
    using lookup_by_receiver_upd [OF i] pv c by (simp add: same_config_def)
  have "fst (wireguard_check_replay (keypair_at peer' s) (sending_counter a))"
    using d l g s(2) il unfolding deliverable_def delivers_packet_def transport_packet_fields Let_def by auto
  moreover have "\<not> fst (wireguard_check_replay (keypair_at peer' s) (sending_counter a))"
    unfolding k(1) [rule_format] rx_keypairs_at [OF s(2) k(2)]
    by (rule check_replay_again) (simp add: check_replay_last_rx new)
  ultimately show False by simp
qed

text \<open>A session that waits for its first packet: the replay check looks at the slot from which the
  keypair has just been moved.\<close>

lemma rx_keypairs_next:
  "keypair_at (rx_keypairs peer Next now nonce n) Curr = (next_keypair peer)\<lparr>kp_last_rx := now\<rparr>"
  by (simp add: rx_keypairs_def stamped_def wireguard_keypair_update_def wireguard_keypair_destroy_def
      keypair_at_set_keypair Let_def) (simp add: keypair_at_def set_keypair_def)

lemma get_keypair_Curr:
  "kp_valid (keypair_at p Curr) \<Longrightarrow> kp_local_index (keypair_at p Curr) = idx \<Longrightarrow>
    wireguard_get_peer_keypair_for_idx p idx = Some Curr"
  by (simp add: wireguard_get_peer_keypair_for_idx_def keypair_at_def)

lemma accepted_upd [simp]: "accepted (upd_peer i p device) = accepted device"
  by (simp add: accepted_def wireguard_iface_apply_acl_def upd_peer_def fun_eq_iff)

lemma replay_zero_next: "replay_counter kp = 0 \<Longrightarrow> n + 1 \<noteq> 0 \<Longrightarrow> fst (wireguard_check_replay kp n)"
  by (simp add: wireguard_check_replay_def Let_def word_gt_0)

section \<open>Datagrams do not stop the program\<close>

definition acl_ok :: "wireguard_acl \<Rightarrow> bool" where
  "acl_ok acl \<longleftrightarrow> acl_n_programs acl \<le> length (acl_programs acl) \<and>
     list_all acl_program_ok (take (acl_n_programs acl) (acl_programs acl))"

text \<open>What every step of the tunnel loop needs and keeps.\<close>

definition loop_ok :: "wireguard_device \<Rightarrow> world \<Rightarrow> bool" where
  "loop_ok device w \<longleftrightarrow> pool_inv (w_pool w) \<and> length (w_band_uuid w) = 16 \<and> acl_ok (dev_acl device)"

lemma acl_loop_total:
  "list_all acl_program_ok as \<Longrightarrow> length pkt < 2 ^ 32 \<Longrightarrow> \<exists>v. acl_loop policy as pkt = Some v"
proof (induction as)
  case (Cons a as)
  then obtain v where "acl_program_run a pkt = Ret v" using bpf.verdict [of a pkt] by auto
  then show ?case using Cons by simp
qed simp

lemma accepted_total:
  assumes "acl_ok (dev_acl device)" and "length pkt < 2 ^ 32"
  shows "\<exists>v. accepted device peer h pkt = Some v"
proof -
  obtain v where "wireguard_iface_apply_acl device pkt = Some v"
    using acl_loop_total [OF _ assms(2)] assms(1) unfolding wireguard_iface_apply_acl_def acl_ok_def Let_def by force
  then show ?thesis unfolding accepted_def by (cases v) auto
qed

lemma dev_acl_upd [simp]: "dev_acl (upd_peer i p device) = dev_acl device"
  by (simp add: upd_peer_def)

lemma process_data_total:
  assumes ok: "loop_ok device w" and n: "n = length (mt_enc_packet msg)" "16 \<le> n" "n \<le> 2048"
    and tun: "tun_ok w \<or> (\<forall>pkt. \<not> delivers_packet (w_pool w) (w_clock w (w_clock_pos w)) device (dev_peers device ! i) msg pkt)"
  shows "\<exists>device' w'. wireguard_iface_process_data_message device i msg n wsin w = Some (device', w') \<and>
    loop_ok device' w'"
proof -
  define peer where "peer = dev_peers device ! i"
  have inv: "pool_inv (w_pool w)" and u: "length (w_band_uuid w) = 16" and acl: "acl_ok (dev_acl device)"
    using ok by (simp_all add: loop_ok_def)
  show ?thesis
  proof (cases "wireguard_get_peer_keypair_for_idx peer (mt_receiver msg)")
    case None
    then show ?thesis using ok by (simp add: wireguard_iface_process_data_message_def peer_def Let_def)
  next
    case (Some s)
    let ?kp = "keypair_at peer s" and ?nonce = "U8TO64_LITTLE (mt_counter msg)"
    have tk: "take n (mt_enc_packet msg) = mt_enc_packet msg" using n by simp
    note unf = wireguard_iface_process_data_message_def Let_def peer_def [symmetric] Some option.case expired_eq tk
    show ?thesis
    proof (cases "can_open peer ?kp (w_clock w (w_clock_pos w))")
      case False
      then show ?thesis using ok unfolding unf can_open_def by (auto simp: loop_ok_def tick_def)
    next
      case co: True
      show ?thesis
      proof (cases "wireguard_decrypt_packet (mt_enc_packet msg) ?nonce ?kp")
        case None
        have "pool_inv (w_pool (tick w))" "n - 16 \<le> 2048" using inv n by simp_all
        then obtain q pool1 where q: "buf_alloc (n - 16) (tick w) = Some (q, (tick w)\<lparr>w_pool := pool1\<rparr>)"
            "pool_inv pool1" "pbuf_wf q" by (rule buf_alloc_ok)
        have "pool_inv (w_pool ((tick w)\<lparr>w_pool := pool1\<rparr>))" using q(2) by simp
        then obtain pool2 where f: "buf_free q ((tick w)\<lparr>w_pool := pool1\<rparr>) =
            Some ((tick w)\<lparr>w_pool := pool1\<rparr>\<lparr>w_pool := pool2\<rparr>)" "pool_inv pool2"
          by (rule buf_free_ok [OF _ q(3)])
        have "wireguard_iface_process_data_message device i msg n wsin w =
            Some (device, (tick w)\<lparr>w_pool := pool1\<rparr>\<lparr>w_pool := pool2\<rparr>)"
          using co None f(1) q(1) unfolding unf can_open_def by simp
        then show ?thesis using f(2) u acl by (simp add: loop_ok_def)
      next
        case dec: (Some plain)
        let ?now = "w_clock w (w_clock_pos w + 1)" and ?hdr = "header_of plain (behind (w_pool w) (length plain))"
        obtain peer1 w1 pool' where e: "wireguard_iface_process_data_message device i msg n wsin w =
           (if plain \<noteq> [] \<and> is_new peer s ?now ?nonce
            then map_option (\<lambda>ok. (upd_peer i peer1 device, (if ok then delivered plain w1 else w1)\<lparr>w_pool := pool'\<rparr>))
                (written (tun_ok w) (accepted device peer ?hdr plain))
            else Some (upd_peer i peer1 device, w1\<lparr>w_pool := pool'\<rparr>))"
          and io: "same_io (w\<lparr>w_pool := w_pool w1\<rparr>) w1" and inv': "pool_inv pool'"
          using process_data_opens [OF inv peer_def Some co n refl dec refl refl] by blast
        have "length plain < 2 ^ 32" using decrypt_length [OF dec] n by simp
        then obtain v where v: "accepted device peer ?hdr plain = Some v"
          using accepted_total [OF acl] by blast
        have u': "w_band_uuid w1 = w_band_uuid w" using io by (simp add: same_io_def)
        show ?thesis
        proof (cases "plain \<noteq> [] \<and> is_new peer s ?now ?nonce")
          case True
          then have "v \<longrightarrow> tun_ok w" using tun Some co dec v unfolding delivers_packet_def peer_def [symmetric]
            by (auto simp: is_new_eq Let_def)
          then have "written (tun_ok w) (Some v) = Some v" by (cases v) simp_all
          then show ?thesis using inv' u u' acl unfolding e v if_P [OF True] by (cases v) (simp_all add: loop_ok_def)
        next
          case False
          then show ?thesis using inv' u u' acl unfolding e by (auto simp: loop_ok_def)
        qed
      qed
    qed
  qed
qed

lemma output_to_peer_acl:
  "wireguard_iface_output_to_peer device p i w = Some (r, device', w') \<Longrightarrow> dev_acl device' = dev_acl device"
  by (auto simp: wireguard_iface_output_to_peer_def transmit_def Let_def bind_eq_Some_conv case_prod_beta split: if_splits)

lemma keepalive_total:
  assumes ok: "loop_ok device w" and i: "i < length (dev_peers device)"
  shows "\<exists>device' w'. wireguard_iface_send_keepalive device i w = Some (device', w') \<and> loop_ok device' w'"
proof -
  have inv: "pool_inv (w_pool w)" and u: "length (w_band_uuid w) = 16" and acl: "acl_ok (dev_acl device)"
    using ok by (simp_all add: loop_ok_def)
  obtain r device' w' where o: "wireguard_iface_output_to_peer device None i w = Some (r, device', w')"
      "pool_inv (w_pool w')" "length (w_band_uuid w') = 16"
    using output_to_peer_slot [OF i inv keepalive_ok(1) u refl refl] by blast
  then show ?thesis
    using output_to_peer_acl [OF o(1)] acl by (simp add: wireguard_iface_send_keepalive_def loop_ok_def)
qed

lemma update_addr_ok:
  assumes "wireguard_iface_update_peer_addr peer wsin w = (peer', w')"
  shows "loop_ok device w' = loop_ok device w"
  using update_addr_keeps(3) [OF assms] by (simp add: same_io_def loop_ok_def)

lemma start_session_ok:
  "wireguard_start_session peer b w = (peer', w') \<Longrightarrow> loop_ok device w' = loop_ok device w"
  by (auto simp: wireguard_start_session_def wireguard_sys_now_def Let_def loop_ok_def split: if_splits)

lemma loop_ok_upd [simp]: "loop_ok (upd_peer i p device) w = loop_ok device w"
  by (simp add: loop_ok_def)

lemma process_response_total:
  assumes ok: "loop_ok device w" and i: "i < length (dev_peers device)"
  shows "\<exists>device' w'. wireguard_iface_process_response_message dh device i m wsin w = Some (device', w') \<and>
    loop_ok device' w'"
proof -
  obtain b peer where r: "wireguard_process_handshake_response dh device (dev_peers device ! i) m = (b, peer)"
    by fastforce
  obtain p2 w2 where u: "wireguard_iface_update_peer_addr peer wsin w = (p2, w2)" by fastforce
  obtain p3 w3 where s: "wireguard_start_session p2 True w2 = (p3, w3)" by fastforce
  have "loop_ok (upd_peer i p3 device) w3" using ok update_addr_ok [OF u] start_session_ok [OF s] by simp
  then show ?thesis
    using keepalive_total [of "upd_peer i p3 device" w3 i] ok i
    unfolding wireguard_iface_process_response_message_def r Let_def prod.case u s by simp
qed

lemma process_cookie_ok:
  "wireguard_process_cookie_message peer c w = (b, peer', w') \<Longrightarrow> loop_ok device w' = loop_ok device w"
  by (auto simp: wireguard_process_cookie_message_def wireguard_sys_now_def Let_def loop_ok_def case_prod_beta
      split: if_splits option.splits)

lemma network_rx_total:
  assumes ok: "loop_ok device w" and len: "pb_len p \<le> 2048"
    and d: "pbuf_read (pb_payload p) (pb_len p) p = Some d" "length d = pb_len p"
    and t: "wireguard_get_message_type d \<noteq> WIREGUARD_MSG_HANDSHAKE_INITIATION"
    and tun: "tun_ok w \<or> (\<forall>pkt. \<not> deliverable (w_pool w) (w_clock w (w_clock_pos w)) device d pkt)"
  shows "\<exists>device' w'. wireguard_iface_network_rx dh device p wsin w = Some (device', w') \<and> loop_ok device' w'"
proof -
  consider (resp) "wireguard_get_message_type d = WIREGUARD_MSG_HANDSHAKE_RESPONSE"
    | (cookie) "wireguard_get_message_type d = WIREGUARD_MSG_COOKIE_REPLY"
    | (data) "wireguard_get_message_type d = WIREGUARD_MSG_TRANSPORT_DATA"
    | (none) "wireguard_get_message_type d \<notin> {WIREGUARD_MSG_HANDSHAKE_RESPONSE, WIREGUARD_MSG_COOKIE_REPLY,
        WIREGUARD_MSG_TRANSPORT_DATA}" by blast
  then show ?thesis
  proof cases
    case resp
    show ?thesis
    proof (cases "wireguard_check_mac1 device (take (length (take 92 d) - 2 * 16) (take 92 d)) (mr_mac1 (response_of_bytes d))")
      case False
      then show ?thesis using resp ok unfolding wireguard_iface_network_rx_def d(1) Option.bind.bind_lunit Let_def
          wireguard_iface_check_response_message_def check_macs_def by (simp add: msg_types)
    next
      case True
      let ?m = "response_of_bytes d"
      have e: "wireguard_iface_network_rx dh device p wsin w =
        (case wireguard_peer_lookup_by_handshake device (mr_receiver ?m) of
            None \<Rightarrow> Some (device, w)
          | Some i \<Rightarrow> wireguard_iface_process_response_message dh device i ?m wsin w)"
        using resp True unfolding wireguard_iface_network_rx_def d(1) Option.bind.bind_lunit Let_def
          wireguard_iface_check_response_message_def check_macs_def wireguard_is_under_load_def
        by (simp add: msg_types)
      show ?thesis
      proof (cases "wireguard_peer_lookup_by_handshake device (mr_receiver ?m)")
        case None
        then show ?thesis using e ok by simp
      next
        case (Some i)
        then have "i < length (dev_peers device)"
          unfolding wireguard_peer_lookup_by_handshake_def by (blast dest: find_index_SomeD)
        then show ?thesis using process_response_total [OF ok] e Some by simp
      qed
    qed
  next
    case cookie
    let ?c = "cookie_of_bytes d"
    have e: "wireguard_iface_network_rx dh device p wsin w =
       (case wireguard_peer_lookup_by_handshake device (mc_receiver ?c) of
          None \<Rightarrow> Some (device, w)
        | Some i \<Rightarrow>
            let (ok, peer, w) = wireguard_process_cookie_message (dev_peers device ! i) ?c w;
                (peer, w) = (if ok then wireguard_iface_update_peer_addr peer wsin w else (peer, w))
            in Some (upd_peer i peer device, w))"
      using cookie unfolding wireguard_iface_network_rx_def d(1) Option.bind.bind_lunit by (simp add: msg_types)
    show ?thesis
    proof (cases "wireguard_peer_lookup_by_handshake device (mc_receiver ?c)")
      case None
      then show ?thesis using e ok by simp
    next
      case (Some i)
      obtain b p1 w1 where pc: "wireguard_process_cookie_message (dev_peers device ! i) ?c w = (b, p1, w1)"
        by (metis prod_cases3)
      obtain p2 w2 where u: "wireguard_iface_update_peer_addr p1 wsin w1 = (p2, w2)" by fastforce
      show ?thesis unfolding e Some option.case pc Let_def prod.case u
        using ok process_cookie_ok [OF pc] update_addr_ok [OF u] by (cases b) simp_all
    qed
  next
    case data
    let ?m = "transport_of_bytes d" and ?n = "pb_len p - 16"
    have e: "wireguard_iface_network_rx dh device p wsin w =
        (case wireguard_peer_lookup_by_receiver device (mt_receiver ?m) of
          None \<Rightarrow> Some (device, w)
        | Some i \<Rightarrow> wireguard_iface_process_data_message device i ?m ?n wsin w)"
      using data unfolding wireguard_iface_network_rx_def d(1) Option.bind.bind_lunit Let_def by (simp add: msg_types)
    have "?n = length (mt_enc_packet ?m)" "16 \<le> ?n" "?n \<le> 2048"
      using type_transport [OF data] d(2) len by (simp_all add: transport_of_bytes_def)
    note total = process_data_total [OF ok this]
    show ?thesis
    proof (cases "wireguard_peer_lookup_by_receiver device (mt_receiver ?m)")
      case None
      then show ?thesis using e ok by simp
    next
      case (Some i)
      then have "tun_ok w \<or> (\<forall>pkt. \<not> delivers_packet (w_pool w) (w_clock w (w_clock_pos w)) device (dev_peers device ! i) ?m pkt)"
        using tun data by (auto simp: deliverable_def)
      from total [OF this] show ?thesis using e Some by simp
    qed
  next
    case none
    then show ?thesis using ok t unfolding wireguard_iface_network_rx_def d(1) Option.bind.bind_lunit by simp
  qed
qed

lemma tunnel_udp_total:
  assumes ok: "loop_ok device w" and len: "port = 82 \<longrightarrow> 32 < length bs"
    and t: "wireguard_get_message_type (message_of port bs) \<noteq> WIREGUARD_MSG_HANDSHAKE_INITIATION"
    and tun: "tun_ok w \<or> (\<forall>pkt. \<not> udp_delivers device port bs w pkt)"
  shows "\<exists>device' w'. tunnel_udp dh device addr port bs w = Some (device', w') \<and> loop_ok device' w'"
proof -
  have inv: "pool_inv (w_pool w)" using ok by (simp add: loop_ok_def)
  from tunnel_udp_message [OF inv len] obtain p wsin w2 where
    w2: "same_env (w\<lparr>w_pool := after_receive w\<rparr>) w2" "pool_inv (w_pool w2)" and p: "pb_len p \<le> 2048" "pbuf_wf p"
    and d: "relay_ok w port bs \<Longrightarrow> pbuf_read (pb_payload p) (pb_len p) p = Some (message_of port bs)"
      "relay_ok w port bs \<Longrightarrow> length (message_of port bs) = pb_len p"
    and e: "tunnel_udp dh device addr port bs w =
      (if relay_ok w port bs then Option.bind (wireguard_iface_network_rx dh device p wsin w2)
                (\<lambda>(device, w). Option.bind (buf_free p w) (\<lambda>w. Some (device, w)))
       else Option.bind (buf_free p w2) (\<lambda>w. Some (device, w)))"
    by blast
  have ok2: "loop_ok device w2" using ok w2 by (simp add: loop_ok_def same_env_def)
  have fr: "\<exists>w'. Option.bind (buf_free p w3) (\<lambda>w. Some (device3, w)) = Some (device3, w') \<and> loop_ok device3 w'"
    if "loop_ok device3 w3" for device3 w3
    using that buf_free_ok [OF _ p(2), of w3] by (fastforce simp: loop_ok_def)
  show ?thesis
  proof (cases "relay_ok w port bs")
    case False
    then show ?thesis using fr [OF ok2] unfolding e by auto
  next
    case True
    have "tun_ok w2 \<or> (\<forall>pkt. \<not> deliverable (w_pool w2) (w_clock w2 (w_clock_pos w2)) device (message_of port bs) pkt)"
      using tun True w2(1) by (auto simp: udp_delivers_def same_env_def tun_ok_def)
    from network_rx_total [OF ok2 p(1) d [OF True] t this] obtain device3 w3 where
      "wireguard_iface_network_rx dh device p wsin w2 = Some (device3, w3)" "loop_ok device3 w3" by blast
    then show ?thesis using fr True unfolding e by fastforce
  qed
qed

section \<open>Properties\<close>

text \<open>A session of the device \<open>device\<close> on which the next packet \<open>plain\<close> of the peer's session \<open>a\<close>
  is to be delivered: \<open>s\<close> is the slot of the session of peer \<open>i\<close>.\<close>

definition receivable ::
  "wireguard_device \<Rightarrow> wireguard_keypair \<Rightarrow> bytes \<Rightarrow> u32 \<Rightarrow> nat \<Rightarrow> kp_slot \<Rightarrow> bool" where
  "receivable device a plain now i s \<longleftrightarrow>
     (let peer = dev_peers device ! i; b = keypair_at peer s
      in wireguard_peer_lookup_by_receiver device (kp_remote_index a) = Some i \<and>
         wireguard_get_peer_keypair_for_idx peer (kp_remote_index a) = Some s \<and>
         receiving_key b = sending_key a \<and> can_open peer b now \<and>
         fst (wireguard_check_replay b (sending_counter a)) \<and>
         accepted device peer (take 20 plain) plain = Some True)"

lemma receivable_delivers:
  assumes "pool_inv (w_pool w)" and "port \<noteq> 82" and "20 \<le> length plain" and "length plain \<le> 2016"
    and r: "receivable device a plain (w_clock w (w_clock_pos w)) i s" and q: "q = dev_peers device ! i"
    and tun: "tun_ok w"
  obtains q' w' where "tunnel_udp dh device addr port (transport_packet a plain) w = Some (upd_peer i q' device, w')"
    and "w_out w' = w_out w @ [Tun_out plain]" and "pool_inv (w_pool w')" and "w_clock w' = w_clock w"
    and "w_tunwrite w' = w_tunwrite w" and "same_config q q'"
    and "\<forall>t. keypair_at q' t = keypair_at (rx_keypairs q s (w_clock w (w_clock_pos w + 1))
         (sending_counter a) (length plain)) t"
proof -
  have "sending_counter a + 1 \<noteq> 0"
    using r unfolding receivable_def wireguard_check_replay_def Let_def by (auto split: if_splits)
  then have "fst (wireguard_check_replay keypair_zero (sending_counter a))"
    by (intro replay_zero_next) (simp_all add: keypair_zero_def)
  then have n: "fst (wireguard_check_replay (if s = Next then keypair_zero else keypair_at q s) (sending_counter a))"
    using r unfolding receivable_def Let_def q by auto
  have "\<exists>q' w'. tunnel_udp dh device addr port (transport_packet a plain) w = Some (upd_peer i q' device, w') \<and>
    w_out w' = w_out w @ [Tun_out plain] \<and> pool_inv (w_pool w') \<and> w_clock w' = w_clock w \<and>
    w_tunwrite w' = w_tunwrite w \<and> same_config q q' \<and>
    (\<forall>t. keypair_at q' t = keypair_at (rx_keypairs q s (w_clock w (w_clock_pos w + 1))
         (sending_counter a) (length plain)) t)"
    using r unfolding receivable_def Let_def q [symmetric]
    by (intro tunnel_udp_delivers [OF assms(1,2) refl assms(3,4) _ q _ refl _ _ tun n]) simp_all
  then show thesis using that by blast
qed

text \<open>After its first packet, the session is in the current slot and as ready as before.\<close>

lemma receivable_moved:
  assumes r: "receivable device a plain now' i Next" and q: "q = dev_peers device ! i" and c: "same_config q q'"
    and k: "\<forall>t. keypair_at q' t = keypair_at (rx_keypairs q Next now nonce n) t"
  shows "receivable (upd_peer i q' device) a plain now' i Curr"
proof -
  let ?b = "keypair_at q Next"
  have b: "keypair_at q' Curr = ?b\<lparr>kp_last_rx := now\<rparr>"
    using k [rule_format, of Curr] by (simp add: rx_keypairs_next) (simp add: keypair_at_def)
  have i: "wireguard_peer_lookup_by_receiver device (kp_remote_index a) = Some i"
    and g: "wireguard_get_peer_keypair_for_idx q (kp_remote_index a) = Some Next"
    and rest: "receiving_key ?b = sending_key a" "can_open q ?b now'"
      "fst (wireguard_check_replay ?b (sending_counter a))" "accepted device q (take 20 plain) plain = Some True"
    using r unfolding receivable_def Let_def q by auto
  have il: "i < length (dev_peers device)" and pv: "peer_valid q"
    using i unfolding wireguard_peer_lookup_by_receiver_def q by (auto dest: find_index_SomeD)
  have v: "kp_valid (keypair_at q' Curr)" "kp_local_index (keypair_at q' Curr) = kp_remote_index a"
    using get_keypair_SomeD [OF g] unfolding b by simp_all
  have "peer_valid q'" "can_open q' (keypair_at q' Curr) now'" "accepted device q' = accepted device q"
    using c pv rest(2) accepted_cong [of q' q] unfolding b by (simp_all add: same_config_def can_open_def)
  then show ?thesis
    using lookup_by_receiver_upd [OF i _ v] get_keypair_Curr [OF v] rest(1,3,4) il
    unfolding receivable_def Let_def by (simp add: b check_replay_last_rx)
qed

text \<open>
  C3: What reaches the TUN device was sealed for a session. Whatever datagram arrives, from whatever
  address, processing it writes exactly the packet that \<open>udp_delivers\<close> describes and nothing if there is
  none: the datagram is, behind a relay header of this band if it comes from the relay port, a transport
  message; the keypair that it names is valid and has not expired; the packet is its plaintext under
  the receiving key of that keypair and is not empty; its number is new to the replay window; its
  header names IPv4, a source address allowed for the peer and no more bytes than there are; and the access
  control list does not drop it. For the first packet of a session, whose keypair is still the next one, the
  replay window is an empty one; for a packet of less than 20 bytes, the rest of the header is what the buffer
  held before.
\<close>

theorem tun_delivery_authentic:
  assumes "pool_inv (w_pool w)" and "tunnel_udp dh device addr port bs w = Some (device', w')"
  shows "(\<exists>pkt. udp_delivers device port bs w pkt \<and> tun_outs w' = tun_outs w @ [pkt]) \<or>
    (\<forall>pkt. \<not> udp_delivers device port bs w pkt) \<and> tun_outs w' = tun_outs w"
  using tunnel_udp_tun [OF assms] unfolding tun_effect_def .

text \<open>
  C2: End to end: an IPv4 packet of 20 to 2016 bytes read from the TUN device of one node, for a
  peer with a usable session and a direct path, leaves as one datagram to the peer's latest endpoint, and the
  other node, on receiving it in a session with the same key that can receive, writes the packet to its own TUN
  device, which takes it, followed by less than 16 bytes of padding.
\<close>

theorem end_to_end_delivery:
  assumes "pool_inv (w_pool w)" and "length (w_band_uuid w) = 16"
    and "20 \<le> length bs" and "length bs \<le> 2016" and "drop_bit 4 (bs ! 0) AND 0x0F = 4"
    and "wireguard_iface_peer_lookup_by_allowed_ip device (U8TO32_LITTLE (bslice 16 4 bs)) = Some i"
    and "peer = dev_peers device ! i" and "a = keypair_at peer (sending_slot peer)"
    and "can_seal peer a (w_clock w (w_clock_pos w))" and "w_sendto w (w_sendto_pos w) = Sent"
    and "\<not> endpoint_latest_is_proxy peer"
    and "pool_inv (w_pool v)" and "port \<noteq> 82" and "tun_ok v"
    and "\<And>pad. length pad < 16 \<Longrightarrow> receivable remote a (bs @ pad) (w_clock v (w_clock_pos v)) j s"
  shows "\<exists>device' w' d remote' v' pad. tunnel_tun device bs w = Some (device', w') \<and>
    w_out w' = w_out w @ [Udp_out (endpoint_latest_ip peer) (endpoint_latest_port peer) d] \<and>
    tunnel_udp dh remote addr port d v = Some (remote', v') \<and>
    w_out v' = w_out v @ [Tun_out (bs @ pad)] \<and> length pad < 16"
proof -
  obtain device' w' pad where t: "tunnel_tun device bs w = Some (device', w')"
    "length (bs @ pad) = padded_len (length bs)"
    "w_out w' = w_out w @ [Udp_out (endpoint_latest_ip peer) (endpoint_latest_port peer)
      (datagram w (endpoint_latest_is_proxy peer) (dev_iface_addr device) (peer_iface_addr peer)
        (transport_packet a (bs @ pad)))]"
    using tunnel_tun_sends [OF assms(1-10)] by blast
  let ?plain = "bs @ pad"
  have l: "length pad < 16" "length ?plain \<le> 2016" "20 \<le> length ?plain"
    using t(2) assms(3,4) padded_len_bounds [OF assms(4)] by (auto simp: padded_len_eq)
  have r: "receivable remote a ?plain (w_clock v (w_clock_pos v)) j s" using l(1) by (rule assms(15))
  obtain q' v' where u: "tunnel_udp dh remote addr port (transport_packet a ?plain) v = Some (upd_peer j q' remote, v')"
      "w_out v' = w_out v @ [Tun_out ?plain]"
    by (rule receivable_delivers [OF assms(12,13) l(3,2) r refl assms(14)])
  have "w_out w' = w_out w @ [Udp_out (endpoint_latest_ip peer) (endpoint_latest_port peer) (transport_packet a ?plain)]"
    using t(3) assms(11) by (simp add: datagram_def)
  with t(1) u l(1) show ?thesis by blast
qed

text \<open>
  C6: A packet of an established session is not delivered twice: after a transport datagram was
  delivered through the current or the previous keypair, directly and to a TUN device that takes it, the same
  datagram received next (from any address) delivers nothing.
\<close>

theorem replayed_datagram_dropped:
  assumes "pool_inv (w_pool w)" and "port \<noteq> 82" and "20 \<le> length plain" and "length plain \<le> 2016"
    and r: "receivable device a plain (w_clock w (w_clock_pos w)) i s" and s: "s \<noteq> Next"
    and "acl_ok (dev_acl device)" and "length (w_band_uuid w) = 16" and "port' \<noteq> 82" and "tun_ok w"
  shows "\<exists>device' w' device'' w''.
    tunnel_udp dh device addr port (transport_packet a plain) w = Some (device', w') \<and>
    tun_outs w' = tun_outs w @ [plain] \<and>
    tunnel_udp dh device' addr' port' (transport_packet a plain) w' = Some (device'', w'') \<and>
    tun_outs w'' = tun_outs w'"
proof -
  let ?q = "dev_peers device ! i" and ?d = "transport_packet a plain"
  have u0: "loop_ok device w" using assms by (simp add: loop_ok_def)
  obtain q' w' where u: "tunnel_udp dh device addr port ?d w = Some (upd_peer i q' device, w')"
      "w_out w' = w_out w @ [Tun_out plain]" "same_config ?q q'" "pool_inv (w_pool w')"
      "\<forall>t. keypair_at q' t = keypair_at (rx_keypairs ?q s (w_clock w (w_clock_pos w + 1))
         (sending_counter a) (length plain)) t"
    by (rule receivable_delivers [OF assms(1-4) r refl assms(10)])
  have m: "message_of port' ?d = ?d" "message_of port ?d = ?d" "32 \<le> length ?d"
    using assms(2,4,9) by (simp_all add: message_of_def transport_packet_fields)
  have t: "wireguard_get_message_type ?d \<noteq> WIREGUARD_MSG_HANDSHAKE_INITIATION"
    by (simp add: transport_packet_fields(2) msg_types)
  have ok': "loop_ok (upd_peer i q' device) w'"
    using tunnel_udp_total [OF u0, of port ?d dh addr] t m(2) assms(2,10) u(1) by auto
  have "\<not> deliverable pool time (upd_peer i q' device) ?d pkt" for pool time pkt
    using r s u(3,5) assms(3) by (intro replay_not_deliverable [of device a i ?q s]) (auto simp: receivable_def Let_def)
  then have nd: "\<not> udp_delivers (upd_peer i q' device) port' ?d w' pkt" for pkt
    unfolding udp_delivers_def m(1) by blast
  then obtain device'' w'' where v: "tunnel_udp dh (upd_peer i q' device) addr' port' ?d w' = Some (device'', w'')"
    using tunnel_udp_total [OF ok', of port' ?d dh addr'] t m(1) assms(9) by auto
  from tunnel_udp_tun [OF u(4) v] nd have "tun_outs w'' = tun_outs w'" unfolding tun_effect_def by blast
  moreover have "tun_outs w' = tun_outs w @ [plain]" using u(2) by (simp add: tun_outs_def)
  ultimately show ?thesis using u(1) v by blast
qed

text \<open>
  The first packet of a session can be replayed: it arrives while its keypair is still the next
  one, the keypair is moved to the current slot, and the replay window that is consulted and advanced
  is that of the emptied slot. So the same datagram sent again is delivered again.
\<close>

theorem first_packet_replayed:
  assumes "pool_inv (w_pool w)" and "port \<noteq> 82" and "20 \<le> length plain" and "length plain \<le> 2016"
    and r: "\<And>n. receivable device a plain (w_clock w n) i Next" and tun: "\<And>n. w_tunwrite w n = Tun_full"
  shows "\<exists>device' w' device'' w''.
    tunnel_udp dh device addr port (transport_packet a plain) w = Some (device', w') \<and>
    tunnel_udp dh device' addr port (transport_packet a plain) w' = Some (device'', w'') \<and>
    w_out w'' = w_out w @ [Tun_out plain, Tun_out plain]"
proof -
  let ?q = "dev_peers device ! i" and ?d = "transport_packet a plain"
  obtain q' w' where u: "tunnel_udp dh device addr port ?d w = Some (upd_peer i q' device, w')"
      "w_out w' = w_out w @ [Tun_out plain]" "pool_inv (w_pool w')" "w_clock w' = w_clock w" "same_config ?q q'"
      "w_tunwrite w' = w_tunwrite w"
      "\<forall>t. keypair_at q' t = keypair_at (rx_keypairs ?q Next (w_clock w (w_clock_pos w + 1))
         (sending_counter a) (length plain)) t"
    by (rule receivable_delivers [OF assms(1-4) r refl]) (simp add: tun_ok_def tun)
  have "receivable (upd_peer i q' device) a plain (w_clock w' (w_clock_pos w')) i Curr"
    unfolding u(4) by (rule receivable_moved [OF r refl u(5,7)])
  then obtain device'' w'' where
    "tunnel_udp dh (upd_peer i q' device) addr port ?d w' = Some (device'', w'')" "w_out w'' = w_out w' @ [Tun_out plain]"
    by (rule receivable_delivers [OF u(3) assms(2-4) _ refl]) (use tun u(6) in \<open>simp add: tun_ok_def\<close>)
  with u(1,2) show ?thesis by (intro exI conjI) (assumption | simp)+
qed


text \<open>
  A short datagram from the relay port stops the program: for every state, a datagram of at
  most 32 bytes whose source port is 82, from any host, fails the assertion in
  \<open>mudband_tunnel_proxy_handler\<close>.
\<close>

theorem short_relay_datagram_aborts:
  assumes "pool_inv (w_pool w)" and "length bs \<le> 32"
  shows "tunnel_udp dh device addr 82 bs w = None"
  using assms by (rule tunnel_udp_short)

section \<open>Witnesses\<close>

text \<open>Two nodes with an established session, indices \<open>l\<close> and \<open>r\<close>; \<open>peer_waiting\<close> has not yet seen a
  packet of the session.\<close>

definition keypair_demo :: "u32 \<Rightarrow> u32 \<Rightarrow> wireguard_keypair" where
  "keypair_demo l r = keypair_zero\<lparr>kp_valid := True, kp_initiator := True, sending_valid := True,
     receiving_valid := True, kp_local_index := l, kp_remote_index := r\<rparr>"

definition peer_link :: "u32 \<Rightarrow> u32 \<Rightarrow> wireguard_peer" where
  "peer_link l r = peer_zero\<lparr>peer_valid := True, timeout_reject_after_time := 180,
     allowed_source_ips := [\<lparr>ip_valid = True, ip_ip = 0, ip_mask = 0\<rparr>],
     curr_keypair := keypair_demo l r\<rparr>"

definition peer_waiting :: "u32 \<Rightarrow> u32 \<Rightarrow> wireguard_peer" where
  "peer_waiting l r = (peer_link 1 1)\<lparr>next_keypair := keypair_demo l r\<rparr>"

definition ip_demo :: bytes where
  "ip_demo = [0x45, 0, 0, 20] @ replicate 16 0"

lemma ip_demo: "length ip_demo = 20" "drop_bit 4 (ip_demo ! 0) AND 0x0F = 4"
  by (simp_all add: ip_demo_def)

lemma accepted_demo:
  assumes "allowed_source_ips p = [\<lparr>ip_valid = True, ip_ip = 0, ip_mask = 0\<rparr>]"
  shows "accepted (device_demo [p]) p (take 20 (ip_demo @ pad)) (ip_demo @ pad) = Some True"
proof -
  have "take 20 (ip_demo @ pad) = ip_demo" by (simp add: ip_demo(1))
  moreover have "unat (ip_demo ! 2) * 256 + unat (ip_demo ! 3) = 20" by (simp add: ip_demo_def)
  ultimately show ?thesis
    using assms ip_demo by (simp add: accepted_def allowed_source_def allowed_match_def wireguard_iface_apply_acl_def device_demo_def)
qed

lemma replay_demo: "fst (wireguard_check_replay (keypair_demo l r) 0)"
  by (rule replay_zero_next) (simp_all add: keypair_demo_def keypair_zero_def)

lemma receivable_demo: "receivable (device_demo [peer_link 6 5]) (keypair_demo 5 6) (ip_demo @ pad) 1 0 Curr"
proof -
  have a: "accepted (device_demo [peer_link 6 5]) (peer_link 6 5) (take 20 (ip_demo @ pad)) (ip_demo @ pad) = Some True"
    by (rule accepted_demo) (simp add: peer_link_def)
  have p: "dev_peers (device_demo [peer_link 6 5]) = [peer_link 6 5]" by (simp add: device_demo_def)
  have k: "keypair_at (peer_link 6 5) Curr = keypair_demo 6 5" by (simp add: keypair_at_def peer_link_def)
  show ?thesis
    unfolding receivable_def Let_def p nth_Cons_0 k
    using a replay_demo
    by (simp add: wireguard_peer_lookup_by_receiver_def p wireguard_get_peer_keypair_for_idx_def can_open_def)
      (simp add: peer_link_def keypair_demo_def keypair_zero_def WIREGUARD_REJECT_AFTER_MESSAGES_def)
qed

lemma receivable_waiting_demo:
  "receivable (device_demo [peer_waiting 6 5]) (keypair_demo 5 6) (ip_demo @ pad) 1 0 Next"
proof -
  have a: "accepted (device_demo [peer_waiting 6 5]) (peer_waiting 6 5) (take 20 (ip_demo @ pad)) (ip_demo @ pad) = Some True"
    by (rule accepted_demo) (simp add: peer_waiting_def peer_link_def)
  have p: "dev_peers (device_demo [peer_waiting 6 5]) = [peer_waiting 6 5]" by (simp add: device_demo_def)
  have k: "keypair_at (peer_waiting 6 5) Next = keypair_demo 6 5" by (simp add: keypair_at_def peer_waiting_def)
  show ?thesis
    unfolding receivable_def Let_def p nth_Cons_0 k
    using a replay_demo
    by (simp add: wireguard_peer_lookup_by_receiver_def p wireguard_get_peer_keypair_for_idx_def can_open_def)
      (simp add: peer_waiting_def peer_link_def keypair_demo_def keypair_zero_def WIREGUARD_REJECT_AFTER_MESSAGES_def)
qed

lemma world_demo_simps:
  "pool_inv (w_pool (world_demo r t))" "length (w_band_uuid (world_demo r t)) = 16" "w_clock (world_demo r t) n = t"
  "w_out (world_demo r t) = []" "w_sendto (world_demo r t) n = Sent"
  "w_tunwrite (world_demo r t) n = Tun_full" "tun_ok (world_demo r t)"
  by (simp_all add: world_demo_def pool_inv_demo tun_ok_def)

lemma acl_ok_demo: "acl_ok (dev_acl (device_demo ps))"
  by (simp add: acl_ok_def device_demo_def)

lemma loop_ok_demo: "loop_ok (device_demo ps) (world_demo r t)"
  by (simp add: loop_ok_def world_demo_simps acl_ok_demo)

theorem end_to_end_delivery_witness:
  "\<exists>device' w' d remote' v' pad.
    tunnel_tun (device_demo [peer_link 5 6]) ip_demo (world_demo 7 1) = Some (device', w') \<and>
    w_out w' = [Udp_out 0 0 d] \<and>
    tunnel_udp dh_demo (device_demo [peer_link 6 5]) 3 51820 d (world_demo 8 1) = Some (remote', v') \<and>
    w_out v' = [Tun_out (ip_demo @ pad)] \<and> length pad < 16"
proof -
  let ?q = "peer_link 5 6"
  have k: "sending_slot ?q = Curr" "keypair_at ?q Curr = keypair_demo 5 6"
    by (simp_all add: sending_slot_def keypair_at_def peer_link_def keypair_demo_def keypair_zero_def)
  have p: "dev_peers (device_demo [?q]) = [?q]" by (simp add: device_demo_def)
  have l: "wireguard_iface_peer_lookup_by_allowed_ip (device_demo [?q]) x = Some 0" for x
    by (simp add: wireguard_iface_peer_lookup_by_allowed_ip_def p) (simp add: peer_link_def allowed_source_def allowed_match_def)
  have s: "can_seal ?q (keypair_demo 5 6) 1"
    by (simp add: can_seal_def peer_link_def keypair_demo_def keypair_zero_def WIREGUARD_REJECT_AFTER_MESSAGES_def)
  have e: "endpoint_latest_ip ?q = 0" "endpoint_latest_port ?q = 0" "\<not> endpoint_latest_is_proxy ?q"
    by (simp_all add: peer_link_def peer_zero_def)
  have "\<exists>device' w' d remote' v' pad. tunnel_tun (device_demo [?q]) ip_demo (world_demo 7 1) = Some (device', w') \<and>
    w_out w' = w_out (world_demo 7 1) @ [Udp_out (endpoint_latest_ip ?q) (endpoint_latest_port ?q) d] \<and>
    tunnel_udp dh_demo (device_demo [peer_link 6 5]) 3 51820 d (world_demo 8 1) = Some (remote', v') \<and>
    w_out v' = w_out (world_demo 8 1) @ [Tun_out (ip_demo @ pad)] \<and> length pad < 16"
    by (rule end_to_end_delivery [where i = 0 and a = "keypair_demo 5 6" and j = 0 and s = Curr])
      (simp_all add: world_demo_simps ip_demo l s p k e receivable_demo)
  then show ?thesis unfolding e world_demo_simps append_Nil .
qed

theorem tun_delivery_authentic_witness:
  "\<exists>device' w'. tunnel_udp dh_demo (device_demo [peer_link 6 5]) 3 51820
       (transport_packet (keypair_demo 5 6) ip_demo) (world_demo 8 1) = Some (device', w') \<and>
     tun_outs w' = [ip_demo] \<and>
     (\<exists>pkt. udp_delivers (device_demo [peer_link 6 5]) 51820 (transport_packet (keypair_demo 5 6) ip_demo)
        (world_demo 8 1) pkt \<and> tun_outs w' = tun_outs (world_demo 8 1) @ [pkt])"
proof -
  let ?w = "world_demo 8 1" and ?dev = "device_demo [peer_link 6 5]" and ?d = "transport_packet (keypair_demo 5 6) ip_demo"
  have r: "receivable ?dev (keypair_demo 5 6) ip_demo (w_clock ?w (w_clock_pos ?w)) 0 Curr"
    using receivable_demo [of "[]"] by (simp add: world_demo_simps)
  obtain q' w' where u: "tunnel_udp dh_demo ?dev 3 51820 ?d ?w = Some (upd_peer 0 q' ?dev, w')"
    "w_out w' = w_out ?w @ [Tun_out ip_demo]"
    by (rule receivable_delivers [OF world_demo_simps(1) _ _ _ r refl, of 51820 dh_demo 3]) (simp_all add: ip_demo(1) world_demo_simps)
  then have t: "tun_outs w' = [ip_demo]" "tun_outs ?w = []" by (simp_all add: tun_outs_def world_demo_simps)
  with tun_delivery_authentic [OF world_demo_simps(1) u(1)] u(1) show ?thesis by auto
qed

theorem replayed_datagram_dropped_witness:
  "\<exists>device' w' device'' w''.
    tunnel_udp dh_demo (device_demo [peer_link 6 5]) 3 51820 (transport_packet (keypair_demo 5 6) ip_demo)
      (world_demo 8 1) = Some (device', w') \<and>
    tun_outs w' = tun_outs (world_demo 8 1) @ [ip_demo] \<and>
    tunnel_udp dh_demo device' 4 51821 (transport_packet (keypair_demo 5 6) ip_demo) w' = Some (device'', w'') \<and>
    tun_outs w'' = tun_outs w'"
  by (rule replayed_datagram_dropped [where i = 0 and s = Curr])
    (simp_all add: world_demo_simps ip_demo(1) receivable_demo [of "[]", simplified] acl_ok_demo)

theorem first_packet_replayed_witness:
  "\<exists>device' w' device'' w''.
    tunnel_udp dh_demo (device_demo [peer_waiting 6 5]) 3 51820 (transport_packet (keypair_demo 5 6) ip_demo)
      (world_demo 8 1) = Some (device', w') \<and>
    tunnel_udp dh_demo device' 3 51820 (transport_packet (keypair_demo 5 6) ip_demo) w' = Some (device'', w'') \<and>
    w_out w'' = w_out (world_demo 8 1) @ [Tun_out ip_demo, Tun_out ip_demo]"
  by (rule first_packet_replayed [where i = 0])
    (simp_all add: world_demo_simps ip_demo(1) receivable_waiting_demo [of "[]", simplified])


theorem short_relay_datagram_aborts_witness:
  "tunnel_udp dh_demo (device_demo []) 3 82 [1] (world_demo 8 1) = None"
  by (rule short_relay_datagram_aborts) (simp_all add: world_demo_simps)

end
