(* ===== verification/Confmgr.thy ===== *)
theory Confmgr
  imports Json Wg_Types
begin

text \<open>
  The configuration manager, \<open>linux/mudband_confmgr.c\<close>: the reference-counted configurations, the
  reading of a configuration file, the accessors, the peers and the access control list that a
  configuration describes, and the answer of the server to a request for the configuration.
  \<open>None\<close> is a failed assertion or an access to released or foreign memory. The mutex around the
  operations makes each of them one step; log messages are left out.
\<close>

section \<open>Accessors\<close>

text \<open>The cast of a JSON integer to \<open>int\<close>.\<close>

definition int_cast :: "int \<Rightarrow> int" where
  "int_cast i = sint (word_of_int i :: u32)"

definition cnf_ipv4_verify :: "string \<Rightarrow> unit option" where
  "cnf_ipv4_verify addrstr = map_option (\<lambda>_. ()) (inet_pton addrstr)"

definition cnf_get_interface_nat_type_by_obj :: "json \<Rightarrow> int option" where
  "cnf_get_interface_nat_type_by_obj jroot = do {
     interface \<leftarrow> object_member jroot ''interface'';
     nat_type \<leftarrow> integer_member interface ''nat_type'';
     Some (int_cast nat_type) }"

definition cnf_get_interface_remote_addr_by_obj :: "json \<Rightarrow> string option" where
  "cnf_get_interface_remote_addr_by_obj jroot = do {
     interface \<leftarrow> object_member jroot ''interface'';
     remote_addr \<leftarrow> string_member interface ''remote_addr'';
     _ \<leftarrow> cnf_ipv4_verify remote_addr;
     Some remote_addr }"

definition CNF_get_interface_listen_port :: "json \<Rightarrow> int option" where
  "CNF_get_interface_listen_port jroot = do {
     interface \<leftarrow> object_member jroot ''interface'';
     listen_port \<leftarrow> integer_member interface ''listen_port'';
     let v = int_cast listen_port;
     if v > 0 \<and> v < 65536 then Some v else None }"

definition CNF_get_peer_size :: "json \<Rightarrow> int option" where
  "CNF_get_peer_size jroot = do {
     jpeers \<leftarrow> array_member jroot ''peers'';
     Some (int_cast (int (json_array_size jpeers))) }"

definition CNF_get_interface_device_uuid :: "json \<Rightarrow> string option" where
  "CNF_get_interface_device_uuid jroot = do {
     interface \<leftarrow> object_member jroot ''interface'';
     string_member interface ''device_uuid'' }"

definition CNF_get_interface_private_ip :: "json \<Rightarrow> string option" where
  "CNF_get_interface_private_ip jroot = do {
     interface \<leftarrow> object_member jroot ''interface'';
     private_ip \<leftarrow> string_member interface ''private_ip'';
     _ \<leftarrow> cnf_ipv4_verify private_ip;
     Some private_ip }"

definition CNF_get_interface_private_mask :: "json \<Rightarrow> string option" where
  "CNF_get_interface_private_mask jroot = do {
     interface \<leftarrow> object_member jroot ''interface'';
     private_mask \<leftarrow> string_member interface ''private_mask'';
     _ \<leftarrow> cnf_ipv4_verify private_mask;
     Some private_mask }"

definition CNF_get_interface_mtu :: "json \<Rightarrow> int option" where
  "CNF_get_interface_mtu jroot = do {
     interface \<leftarrow> object_member jroot ''interface'';
     mtu \<leftarrow> integer_member interface ''mtu'';
     Some (int_cast mtu) }"

text \<open>The inner \<open>None\<close> is \<open>NULL\<close>.\<close>

definition cnf_get_etag :: "json \<Rightarrow> string option option" where
  "cnf_get_etag jroot =
     (case json_object_get jroot ''etag'' of
        None \<Rightarrow> Some None
      | Some jetag \<Rightarrow>
          if json_is_string jetag
          then Some (if json_string_length jetag = 0 then None else Some (json_string_value jetag))
          else None)"

section \<open>The access control list\<close>

definition insn_zero :: mudband_bpf_insn where
  "insn_zero = \<lparr>bcode = 0, bjt = 0, bjf = 0, bk = 0\<rparr>"

definition WIREGUARD_ACL_PROGRAM_INSNS_MAX :: nat where "WIREGUARD_ACL_PROGRAM_INSNS_MAX = 256"
definition WIREGUARD_ACL_PROGRAM_MAX :: nat where "WIREGUARD_ACL_PROGRAM_MAX = 64"

fun json_elements :: "json \<Rightarrow> json list" where
  "json_elements (Json_array xs) = xs" | "json_elements _ = []"

definition parse_insn :: "json \<Rightarrow> mudband_bpf_insn option" where
  "parse_insn jinsn =
     (if json_array_size jinsn = 4
      then Some \<lparr>bcode = word_of_int (json_integer_value (json_array_get jinsn 0)),
                 bjt = word_of_int (json_integer_value (json_array_get jinsn 1)),
                 bjf = word_of_int (json_integer_value (json_array_get jinsn 2)),
                 bk = word_of_int (json_integer_value (json_array_get jinsn 3))\<rparr>
      else None)"

fun parse_insns :: "json list \<Rightarrow> mudband_bpf_insn list option" where
  "parse_insns [] = Some []"
| "parse_insns (j # js) = do { i \<leftarrow> parse_insn j; is \<leftarrow> parse_insns js; Some (i # is) }"

text \<open>The loop over the programs; \<open>Some None\<close> is the return of \<open>NULL\<close>. The array of a program has
  256 instructions, cleared by \<open>calloc\<close>.\<close>

fun build_programs :: "json list \<Rightarrow> wireguard_acl_program list option option" where
  "build_programs [] = Some (Some [])"
| "build_programs (jinsns # js) =
     (if \<not> json_is_array jinsns then None
      else let n = json_array_size jinsns in
        if n \<ge> WIREGUARD_ACL_PROGRAM_INSNS_MAX then Some None
        else do {
          is \<leftarrow> parse_insns (json_elements jinsns);
          let a = is @ replicate (WIREGUARD_ACL_PROGRAM_INSNS_MAX - n) insn_zero;
          if mudband_bpf_validate a (int n)
          then do {
            r \<leftarrow> build_programs js;
            Some (map_option (Cons \<lparr>insns = a, n_insns = n\<rparr>) r) }
          else Some None })"

definition CNF_acl_build :: "json \<Rightarrow> wireguard_acl option option" where
  "CNF_acl_build jroot = do {
     jacl \<leftarrow> object_member jroot ''acl'';
     jprograms \<leftarrow> array_member jacl ''programs'';
     let n_programs = json_array_size jprograms;
     if n_programs \<ge> WIREGUARD_ACL_PROGRAM_MAX then Some None
     else do {
       jdefault_policy \<leftarrow> string_member jacl ''default_policy'';
       let policy = (if jdefault_policy = ''allow'' then Some WIREGUARD_ACL_POLICY_ALLOW
                     else if jdefault_policy = ''block'' then Some WIREGUARD_ACL_POLICY_BLOCK
                     else None);
       (case policy of
          None \<Rightarrow> Some None
        | Some default_policy \<Rightarrow> do {
            r \<leftarrow> build_programs (json_elements jprograms);
            Some (map_option (\<lambda>ps. \<lparr>acl_programs = ps @ replicate (WIREGUARD_ACL_PROGRAM_MAX - n_programs)
                     \<lparr>insns = replicate WIREGUARD_ACL_PROGRAM_INSNS_MAX insn_zero, n_insns = 0\<rparr>,
                   acl_n_programs = n_programs, acl_default_policy = default_policy\<rparr>) r) }) } }"

section \<open>Peers\<close>

record iface_endpoint =
  ie_is_proxy :: bool
  ie_ip :: u32
  ie_port :: u16

record wireguard_iface_peer =
  if_public_key :: "string option"
  if_preshared_key :: "bytes option"
  if_greatest_timestamp :: bytes
  if_iface_addr :: u32
  if_allowed_ip :: u32
  if_allowed_mask :: u32
  if_endpoints :: "iface_endpoint list"
  if_n_endpoints :: u8
  if_keep_alive :: u16
  if_otp_enabled :: bool
  if_otp_sender :: u64
  if_otp_receiver :: "u64 list"

text \<open>The loop over \<open>device_addresses\<close>. An entry behind the array has no defined effect.\<close>

fun fill_endpoints :: "bool \<Rightarrow> json list \<Rightarrow> wireguard_iface_peer \<Rightarrow> wireguard_iface_peer option" where
  "fill_endpoints both_open [] peer = Some peer"
| "fill_endpoints both_open (jdevice_address # js) peer =
     (if \<not> json_is_object jdevice_address then None
      else do {
        address \<leftarrow> string_member jdevice_address ''address'';
        _ \<leftarrow> cnf_ipv4_verify address;
        port \<leftarrow> integer_member jdevice_address ''port'';
        type \<leftarrow> string_member jdevice_address ''type'';
        if both_open \<and> type = ''proxy'' then fill_endpoints both_open js peer
        else if unat (if_n_endpoints peer) < length (if_endpoints peer)
        then fill_endpoints both_open js (peer\<lparr>
               if_endpoints := (if_endpoints peer)[unat (if_n_endpoints peer) :=
                 \<lparr>ie_is_proxy = (type = ''proxy''), ie_ip = inet_addr address, ie_port = word_of_int port\<rparr>],
               if_n_endpoints := if_n_endpoints peer + 1\<rparr>)
        else None })"

fun otp_values :: "json list \<Rightarrow> u64 list option" where
  "otp_values [] = Some []"
| "otp_values (jone # js) =
     (if json_is_string jone \<and> json_string_length jone > 0
      then do { vs \<leftarrow> otp_values js; Some (strtoull16 (json_string_value jone) # vs) }
      else None)"

definition fill_peer :: "json \<Rightarrow> int \<Rightarrow> wireguard_iface_peer \<Rightarrow> wireguard_iface_peer option" where
  "fill_peer jpeer interface_nat_type peer =
     (if \<not> json_is_object jpeer then None
      else do {
        jotp_sender \<leftarrow> string_member jpeer ''otp_sender'';
        jotp_receiver \<leftarrow> array_member jpeer ''otp_receiver'';
        _ \<leftarrow> (if json_array_size jotp_receiver = 3 then Some () else None);
        jwireguard_pubkey \<leftarrow> string_member jpeer ''wireguard_pubkey'';
        jprivate_ip \<leftarrow> string_member jpeer ''private_ip'';
        _ \<leftarrow> cnf_ipv4_verify jprivate_ip;
        jprivate_mask \<leftarrow> string_member jpeer ''private_mask'';
        _ \<leftarrow> cnf_ipv4_verify jprivate_mask;
        jnat_type \<leftarrow> integer_member jpeer ''nat_type'';
        let both_open = (interface_nat_type = 2 \<and> int_cast jnat_type = 2);
        let peer = (if both_open then peer\<lparr>if_keep_alive := 0\<rparr> else peer);
        jdevice_addresses \<leftarrow> array_member jpeer ''device_addresses'';
        _ \<leftarrow> (if json_array_size jdevice_addresses > 0 then Some () else None);
        peer \<leftarrow> fill_endpoints both_open (json_elements jdevice_addresses) peer;
        otps \<leftarrow> otp_values (json_elements jotp_receiver);
        Some (peer\<lparr>if_public_key := Some jwireguard_pubkey,
                   if_allowed_ip := inet_addr jprivate_ip, if_allowed_mask := inet_addr jprivate_mask,
                   if_iface_addr := inet_addr jprivate_ip, if_otp_sender := strtoull16 jotp_sender,
                   if_otp_receiver := otps, if_otp_enabled := (\<exists>v \<in> set otps. v \<noteq> 0)\<rparr>) })"

definition CNF_fill_iface_peer ::
  "json \<Rightarrow> wireguard_iface_peer \<Rightarrow> nat \<Rightarrow> (int \<times> wireguard_iface_peer) option" where
  "CNF_fill_iface_peer jroot peer idx = do {
     interface_nat_type \<leftarrow> cnf_get_interface_nat_type_by_obj jroot;
     jpeers \<leftarrow> array_member jroot ''peers'';
     (case json_array_get jpeers idx of
        None \<Rightarrow> Some (-1, peer)
      | Some jpeer \<Rightarrow> do { peer \<leftarrow> fill_peer jpeer interface_nat_type peer; Some (0, peer) }) }"

section \<open>Addresses of the host\<close>

text \<open>An entry of the list of \<open>getifaddrs\<close>: without address, of another family, or IPv4.\<close>

datatype ifaddr = Ifa_null | Ifa_other | Ifa_inet u32

definition usable_ifaddr :: "u32 \<Rightarrow> bool" where
  "usable_ifaddr a \<longleftrightarrow> a \<noteq> inet_addr ''127.0.0.1'' \<and> a \<noteq> 0 \<and> a \<noteq> 0xFFFFFFFF \<and>
     a AND inet_addr ''255.254.0.0'' \<noteq> inet_addr ''198.18.0.0''"

text \<open>\<open>ifaddrs\<close> are the addresses collected so far.\<close>

fun ifaddrs_loop :: "ifaddr list \<Rightarrow> u32 list \<Rightarrow> u32 list" where
  "ifaddrs_loop [] ifaddrs = ifaddrs"
| "ifaddrs_loop (Ifa_null # ifas) ifaddrs = ifaddrs_loop ifas ifaddrs"
| "ifaddrs_loop (Ifa_other # ifas) ifaddrs =
     (if length ifaddrs \<ge> 16 then ifaddrs else ifaddrs_loop ifas ifaddrs)"
| "ifaddrs_loop (Ifa_inet a # ifas) ifaddrs =
     (if \<not> usable_ifaddr a then ifaddrs_loop ifas ifaddrs
      else if a \<in> set ifaddrs then ifaddrs_loop ifas ifaddrs
      else let ifaddrs = ifaddrs @ [a]
           in if length ifaddrs \<ge> 16 then ifaddrs else ifaddrs_loop ifas ifaddrs)"

text \<open>\<open>None\<close> for the argument is a failure of \<open>getifaddrs\<close>, for the result \<open>NULL\<close>.\<close>

definition cnf_getifaddrs :: "ifaddr list option \<Rightarrow> string \<Rightarrow> json option" where
  "cnf_getifaddrs ifap stun_mapped_addr =
     map_option (\<lambda>ifas. Json_array (map (\<lambda>a. Json_string (inet_ntoa a)) (ifaddrs_loop ifas []) @
       [Json_string stun_mapped_addr])) ifap"

section \<open>Configurations in use\<close>

record cnf =
  cnf_jroot :: json
  cnf_busy :: int
  cnf_t_last :: u64

text \<open>Pointers to configurations are natural numbers, \<open>cnf_next\<close> is the next that \<open>calloc\<close> returns;
  a pointer that is not in the list has been released.\<close>

record cnf_state =
  cnf_head :: "(nat \<times> cnf) list"
  cnf_active :: "nat option"
  cnf_next :: nat

definition upd_cnf :: "nat \<Rightarrow> (cnf \<Rightarrow> cnf) \<Rightarrow> cnf_state \<Rightarrow> cnf_state" where
  "upd_cnf cf f s = s\<lparr>cnf_head := map (\<lambda>(q, c). (q, if q = cf then f c else c)) (cnf_head s)\<rparr>"

text \<open>The return value and \<open>*cfp\<close>, which is left alone on failure.\<close>

definition CNF_get :: "u64 \<Rightarrow> cnf_state \<Rightarrow> (int \<times> nat option \<times> cnf_state) option" where
  "CNF_get time s =
     (case cnf_active s of
        None \<Rightarrow> Some (-1, None, s)
      | Some cf \<Rightarrow> do {
          c \<leftarrow> map_of (cnf_head s) cf;
          if cnf_busy c + 1 > 0
          then Some (0, Some cf, upd_cnf cf (\<lambda>c. c\<lparr>cnf_busy := cnf_busy c + 1, cnf_t_last := time\<rparr>) s)
          else None })"

definition CNF_rel :: "nat \<Rightarrow> cnf_state \<Rightarrow> cnf_state option" where
  "CNF_rel cf s = do {
     c \<leftarrow> map_of (cnf_head s) cf;
     if cnf_busy c > 0 then Some (upd_cnf cf (\<lambda>c. c\<lparr>cnf_busy := cnf_busy c - 1\<rparr>) s) else None }"

text \<open>\<open>loaded\<close> is the result of \<open>json_load_file\<close>, \<open>nattype\<close> and \<open>mapped\<close> those of the STUN client.\<close>

definition CNF_check_and_read ::
  "bool \<Rightarrow> json option \<Rightarrow> int \<Rightarrow> string \<Rightarrow> u64 \<Rightarrow> cnf_state \<Rightarrow> (int \<times> cnf_state) option" where
  "CNF_check_and_read accessible loaded nattype mapped time s =
     (if \<not> accessible then Some (-1, s)
      else case loaded of
        None \<Rightarrow> Some (-2, s)
      | Some jroot \<Rightarrow>
          if \<not> json_is_object jroot then None
          else do {
            nt1 \<leftarrow> cnf_get_interface_nat_type_by_obj jroot;
            if nt1 \<noteq> nattype then Some (-3, s)
            else do {
              ma2 \<leftarrow> cnf_get_interface_remote_addr_by_obj jroot;
              if mapped \<noteq> ma2 then Some (-4, s)
              else do {
                let cf = cnf_next s;
                let s = \<lparr>cnf_head = cnf_head s @
                           [(cf, \<lparr>cnf_jroot = jroot, cnf_busy = 0, cnf_t_last = time\<rparr>)],
                         cnf_active = Some cf, cnf_next = cf + 1\<rparr>;
                n \<leftarrow> CNF_get_peer_size jroot;
                Some (if n = 0 then -5 else 0, s) } } })"

definition CNF_nuke :: "cnf_state \<Rightarrow> cnf_state" where
  "CNF_nuke s = s\<lparr>cnf_head := filter (\<lambda>(cf, c). Some cf = cnf_active s \<or> cnf_busy c > 0) (cnf_head s)\<rparr>"

definition CNF_fini :: "cnf_state \<Rightarrow> cnf_state" where
  "CNF_fini s = s\<lparr>cnf_head := []\<rparr>"

section \<open>The answer of the server\<close>

text \<open>What \<open>CNF_fetch\<close> does with the answer: the return value, the configuration written to the file,
  and the address for a new authentication. \<open>parsed\<close> is the result of \<open>json_loads\<close>.\<close>

record fetch_result =
  fr_return :: int
  fr_written :: "json option"
  fr_mfa_required :: "bool option"
  fr_mfa_url :: "string option"

fun json_object_set :: "json \<Rightarrow> string \<Rightarrow> json \<Rightarrow> json" where
  "json_object_set (Json_object kvs) key v =
     (if key \<in> fst ` set kvs then Json_object (map (\<lambda>(k, u). (k, if k = key then v else u)) kvs)
      else Json_object (kvs @ [(key, v)]))"
| "json_object_set j key v = j"

text \<open>With \<open>NULL\<close> as the value nothing is set.\<close>

definition json_object_set_new :: "json \<Rightarrow> string \<Rightarrow> json option \<Rightarrow> json" where
  "json_object_set_new j key v = (case v of None \<Rightarrow> j | Some v \<Rightarrow> json_object_set j key v)"

definition cnf_fetch_answer :: "int \<Rightarrow> string \<Rightarrow> json option \<Rightarrow> fetch_result option" where
  "cnf_fetch_answer resp_status etag parsed =
     (let ret = (\<lambda>r. Some \<lparr>fr_return = r, fr_written = None, fr_mfa_required = None, fr_mfa_url = None\<rparr>) in
      if resp_status = 304 then ret 1
      else if resp_status = 502 \<or> resp_status = 503 then ret (-4)
      else case parsed of
        None \<Rightarrow> ret (-2)
      | Some jroot \<Rightarrow> do {
          status \<leftarrow> integer_member jroot ''status'';
          if status \<noteq> 200 then
            if status = 301 then do {
              jsso_url \<leftarrow> member_such json_is_string jroot ''sso_url'';
              Some \<lparr>fr_return = 2, fr_written = None, fr_mfa_required = Some True,
                    fr_mfa_url = Some (take 511 (json_string_value jsso_url))\<rparr> }
            else do {
              jmsg \<leftarrow> member_such json_is_string jroot ''msg'';
              ret (-3) }
          else do {
            jconf \<leftarrow> object_member jroot ''conf'';
            let jconf = (if etag \<noteq> [] then json_object_set_new jconf ''etag'' (json_string etag) else jconf);
            Some \<lparr>fr_return = 0, fr_written = Some jconf, fr_mfa_required = Some False,
                  fr_mfa_url = None\<rparr> } })"

section \<open>Access control lists are validated\<close>

definition program_checked :: "wireguard_acl_program \<Rightarrow> bool" where
  "program_checked a \<longleftrightarrow> n_insns a < 256 \<and> length (insns a) = 256 \<and> mudband_bpf_validate (insns a) (int (n_insns a))"

lemma length_parse_insns: "parse_insns js = Some is \<Longrightarrow> length is = length js"
  by (induction js arbitrary: "is") (auto simp: bind_eq_Some_conv)

lemma json_array_size_elements: "json_is_array j \<Longrightarrow> json_array_size j = length (json_elements j)"
  by (cases j) auto

lemma build_programs_checked:
  "build_programs js = Some (Some ps) \<Longrightarrow> length ps = length js \<and> list_all program_checked ps"
proof (induction js arbitrary: ps)
  case (Cons j js)
  let ?n = "json_array_size j"
  from Cons.prems obtain "is" r where j: "json_is_array j" "?n < 256" "parse_insns (json_elements j) = Some is"
      "mudband_bpf_validate (is @ replicate (256 - ?n) insn_zero) (int ?n)" "build_programs js = Some r"
      "map_option (Cons \<lparr>insns = is @ replicate (256 - ?n) insn_zero, n_insns = ?n\<rparr>) r = Some ps"
    by (auto simp: WIREGUARD_ACL_PROGRAM_INSNS_MAX_def Let_def bind_eq_Some_conv split: if_splits)
  then obtain qs where q: "r = Some qs" "ps = \<lparr>insns = is @ replicate (256 - ?n) insn_zero, n_insns = ?n\<rparr> # qs" by auto
  have "length is = ?n" using length_parse_insns [OF j(3)] json_array_size_elements [OF j(1)] by simp
  then show ?case using Cons.IH [of qs] q j(2,4,5) by (simp add: program_checked_def)
qed simp

lemma acl_build_checked:
  assumes "CNF_acl_build jroot = Some (Some acl)"
  shows "acl_n_programs acl < 64" and "length (acl_programs acl) = 64"
    and "list_all program_checked (take (acl_n_programs acl) (acl_programs acl))"
proof -
  define pad where "pad = (\<lambda>jp. replicate (64 - json_array_size jp) \<lparr>insns = replicate 256 insn_zero, n_insns = 0\<rparr>)"
  obtain jp ps pol where b: "json_is_array jp" "json_array_size jp < 64" "build_programs (json_elements jp) = Some (Some ps)"
      "acl = \<lparr>acl_programs = ps @ pad jp, acl_n_programs = json_array_size jp, acl_default_policy = pol\<rparr>"
    using assms
    unfolding CNF_acl_build_def array_member_def member_such_def WIREGUARD_ACL_PROGRAM_MAX_def
        WIREGUARD_ACL_PROGRAM_INSNS_MAX_def Let_def bind_eq_Some_conv pad_def
    by (auto simp: bind_eq_Some_conv not_le split: if_splits option.splits)
  have "length (pad jp) = 64 - json_array_size jp" by (simp add: pad_def)
  with build_programs_checked [OF b(3)] json_array_size_elements [OF b(1)] b(2,4)
  show "acl_n_programs acl < 64" "length (acl_programs acl) = 64"
    "list_all program_checked (take (acl_n_programs acl) (acl_programs acl))" by auto
qed

section \<open>Endpoints of a peer\<close>

definition wf_address :: "json \<Rightarrow> bool" where
  "wf_address j \<longleftrightarrow> json_is_object j \<and>
     (\<exists>address port type. string_member j ''address'' = Some address \<and> inet_pton address \<noteq> None \<and>
        integer_member j ''port'' = Some port \<and> string_member j ''type'' = Some type)"

definition address_endpoint :: "json \<Rightarrow> iface_endpoint" where
  "address_endpoint j = \<lparr>ie_is_proxy = (string_member j ''type'' = Some ''proxy''),
     ie_ip = inet_addr (the (string_member j ''address'')),
     ie_port = word_of_int (the (integer_member j ''port''))\<rparr>"

definition kept_addresses :: "bool \<Rightarrow> json list \<Rightarrow> json list" where
  "kept_addresses both_open js = filter (\<lambda>j. \<not> (both_open \<and> string_member j ''type'' = Some ''proxy'')) js"

lemma fill_endpoints_eq:
  assumes "list_all wf_address js" and "length (if_endpoints peer) = 16" and "unat (if_n_endpoints peer) = n" and "n \<le> 16"
    and "ks = kept_addresses both_open js"
  shows "fill_endpoints both_open js peer =
    (if n + length ks \<le> 16
     then Some (peer\<lparr>if_endpoints := take n (if_endpoints peer) @ map address_endpoint ks @ drop (n + length ks) (if_endpoints peer),
                     if_n_endpoints := of_nat (n + length ks)\<rparr>)
     else None)"
  using assms
proof (induction js arbitrary: peer n ks)
  case Nil
  have "if_n_endpoints peer = of_nat n" by (auto simp: Nil.prems(3) [symmetric])
  then show ?case using Nil by (simp add: kept_addresses_def)
next
  case (Cons j js)
  from Cons.prems(1) have wj: "wf_address j" "list_all wf_address js" by simp_all
  from wj(1) obtain address port type a where w: "json_is_object j" "string_member j ''address'' = Some address"
      "inet_pton address = Some a" "integer_member j ''port'' = Some port" "string_member j ''type'' = Some type"
    by (auto simp: wf_address_def)
  have v: "cnf_ipv4_verify address = Some ()" using w(3) by (simp add: cnf_ipv4_verify_def)
  have e: "address_endpoint j = \<lparr>ie_is_proxy = (type = ''proxy''), ie_ip = inet_addr address, ie_port = word_of_int port\<rparr>"
    using w by (simp add: address_endpoint_def)
  let ?n = "unat (if_n_endpoints peer)"
  let ?peer = "peer\<lparr>if_endpoints := (if_endpoints peer)[?n := address_endpoint j], if_n_endpoints := if_n_endpoints peer + 1\<rparr>"
  have step: "fill_endpoints both_open (j # js) peer =
      (if both_open \<and> type = ''proxy'' then fill_endpoints both_open js peer
       else if ?n < 16 then fill_endpoints both_open js ?peer else None)"
    using w(1,2,4,5) v e Cons.prems(2) by simp
  show ?case
  proof (cases "both_open \<and> type = ''proxy''")
    case True
    then have "ks = kept_addresses both_open js" using Cons.prems(5) w(5) by (simp add: kept_addresses_def)
    then show ?thesis using Cons.IH [OF wj(2) Cons.prems(2-4)] step True by simp
  next
    case False
    define ls where "ls = kept_addresses both_open js"
    have ks: "ks = j # ls" using False Cons.prems(5) w(5) by (simp add: kept_addresses_def ls_def)
    show ?thesis
    proof (cases "n < 16")
      case True
      have "unat (if_n_endpoints peer + 1) = Suc n" using True Cons.prems(3) by (simp add: unat_word_ariths)
      then have "fill_endpoints both_open js ?peer = (if Suc n + length ls \<le> 16
          then Some (?peer\<lparr>if_endpoints := take (Suc n) (if_endpoints ?peer) @ map address_endpoint ls @
              drop (Suc n + length ls) (if_endpoints ?peer), if_n_endpoints := of_nat (Suc n + length ls)\<rparr>)
          else None)"
        using True Cons.prems(2) by (intro Cons.IH [OF wj(2)]) (simp_all add: ls_def)
      moreover have "take (Suc n) ((if_endpoints peer)[n := address_endpoint j]) = take n (if_endpoints peer) @ [address_endpoint j]"
        using True Cons.prems(2) by (simp add: take_Suc_conv_app_nth)
      ultimately show ?thesis unfolding step if_not_P [OF False] using True Cons.prems(3) ks by (simp add: drop_update_cancel)
    next
      case False
      then show ?thesis unfolding step if_not_P [OF \<open>\<not> (both_open \<and> type = ''proxy'')\<close>] using Cons.prems(3) ks by simp
    qed
  qed
qed

section \<open>Addresses of the host\<close>

definition inet_addresses :: "ifaddr list \<Rightarrow> u32 set" where
  "inet_addresses ifas = {a. Ifa_inet a \<in> set ifas \<and> usable_ifaddr a}"

lemma ifaddrs_loop_spec:
  assumes "distinct as" and "length as < 16"
  shows "distinct (ifaddrs_loop ifas as) \<and> length (ifaddrs_loop ifas as) \<le> 16 \<and>
    set as \<subseteq> set (ifaddrs_loop ifas as) \<and> set (ifaddrs_loop ifas as) \<subseteq> set as \<union> inet_addresses ifas \<and>
    (length (ifaddrs_loop ifas as) < 16 \<longrightarrow> inet_addresses ifas \<subseteq> set (ifaddrs_loop ifas as))"
  using assms
proof (induction ifas arbitrary: "as")
  case Nil
  then show ?case by (simp add: inet_addresses_def)
next
  case (Cons i ifas)
  show ?case
  proof (cases i)
    case Ifa_null
    then show ?thesis using Cons.IH [OF Cons.prems] by (auto simp: inet_addresses_def)
  next
    case Ifa_other
    then show ?thesis using Cons.IH [OF Cons.prems] Cons.prems(2) by (auto simp: inet_addresses_def)
  next
    case (Ifa_inet a)
    have s: "inet_addresses (Ifa_inet a # ifas) = (if usable_ifaddr a then insert a (inet_addresses ifas) else inet_addresses ifas)"
      by (auto simp: inet_addresses_def)
    show ?thesis
    proof (cases "usable_ifaddr a \<and> a \<notin> set as")
      case False
      then show ?thesis using Cons.IH [OF Cons.prems] Ifa_inet by (auto simp: s)
    next
      case True
      then show ?thesis using Cons.IH [of "as @ [a]"] Cons.prems Ifa_inet by (auto simp: s Let_def)
    qed
  qed
qed

section \<open>Counting references\<close>

text \<open>What the clients do, each under the mutex. \<open>held\<close> are the pointers that they have got and not yet
  released; releasing is for those only.\<close>

datatype cnf_op = Op_get u64 | Op_rel nat | Op_read bool "json option" int string u64 | Op_nuke

fun cnf_step :: "cnf_op \<Rightarrow> nat list \<Rightarrow> cnf_state \<Rightarrow> (nat list \<times> cnf_state) option" where
  "cnf_step (Op_get time) held s = do {
     (r, cf, s) \<leftarrow> CNF_get time s;
     Some (case cf of Some cf \<Rightarrow> cf # held | None \<Rightarrow> held, s) }"
| "cnf_step (Op_rel k) held s =
     (if k < length held
      then do { s \<leftarrow> CNF_rel (held ! k) s; Some (take k held @ drop (Suc k) held, s) }
      else Some (held, s))"
| "cnf_step (Op_read accessible loaded nattype mapped time) held s = do {
     (r, s) \<leftarrow> CNF_check_and_read accessible loaded nattype mapped time s; Some (held, s) }"
| "cnf_step Op_nuke held s = Some (held, CNF_nuke s)"

fun cnf_run :: "cnf_op list \<Rightarrow> nat list \<Rightarrow> cnf_state \<Rightarrow> (nat list \<times> cnf_state) option" where
  "cnf_run [] held s = Some (held, s)"
| "cnf_run (c # cs) held s = do { (held, s) \<leftarrow> cnf_step c held s; cnf_run cs held s }"

text \<open>A file that does not make an assertion of \<open>CNF_check_and_read\<close> fail.\<close>

definition conf_ok :: "json \<Rightarrow> bool" where
  "conf_ok jroot \<longleftrightarrow> json_is_object jroot \<and> cnf_get_interface_nat_type_by_obj jroot \<noteq> None \<and>
     cnf_get_interface_remote_addr_by_obj jroot \<noteq> None \<and> CNF_get_peer_size jroot \<noteq> None"

fun op_ok :: "cnf_op \<Rightarrow> bool" where
  "op_ok (Op_read accessible loaded nattype mapped time) = (case loaded of None \<Rightarrow> True | Some j \<Rightarrow> conf_ok j)"
| "op_ok _ = True"

definition cnf_inv :: "nat list \<Rightarrow> cnf_state \<Rightarrow> bool" where
  "cnf_inv held s \<longleftrightarrow> distinct (map fst (cnf_head s)) \<and> (\<forall>p \<in> fst ` set (cnf_head s). p < cnf_next s) \<and>
     set held \<subseteq> fst ` set (cnf_head s) \<and>
     (\<forall>p. cnf_active s = Some p \<longrightarrow> p \<in> fst ` set (cnf_head s)) \<and>
     (\<forall>(p, c) \<in> set (cnf_head s). cnf_busy c = int (count_list held p))"

definition cnf_empty :: cnf_state where
  "cnf_empty = \<lparr>cnf_head = [], cnf_active = None, cnf_next = 0\<rparr>"

lemma map_of_cnf:
  assumes "cnf_inv held s" and "p \<in> fst ` set (cnf_head s)"
  obtains c where "map_of (cnf_head s) p = Some c" and "cnf_busy c = int (count_list held p)"
proof -
  from assms(2) obtain c where "(p, c) \<in> set (cnf_head s)" by auto
  moreover from this have "map_of (cnf_head s) p = Some c" using assms(1) by (simp add: cnf_inv_def)
  ultimately show thesis using assms(1) that by (auto simp: cnf_inv_def)
qed

lemma upd_cnf_simps [simp]:
  "map fst (cnf_head (upd_cnf p f s)) = map fst (cnf_head s)" "fst ` set (cnf_head (upd_cnf p f s)) = fst ` set (cnf_head s)"
  "cnf_active (upd_cnf p f s) = cnf_active s" "cnf_next (upd_cnf p f s) = cnf_next s"
  by (auto simp: upd_cnf_def case_prod_beta image_image)

lemma cnf_inv_upd:
  assumes inv: "cnf_inv held s" and sub: "set held' \<subseteq> fst ` set (cnf_head s)"
    and b: "\<And>c. (p, c) \<in> set (cnf_head s) \<Longrightarrow> cnf_busy c = int (count_list held p) \<Longrightarrow>
        cnf_busy (f c) = int (count_list held' p)"
    and o: "\<And>q. q \<noteq> p \<Longrightarrow> count_list held' q = count_list held q"
  shows "cnf_inv held' (upd_cnf p f s)"
proof -
  have "cnf_busy c = int (count_list held' q)" if qc: "(q, c) \<in> set (cnf_head (upd_cnf p f s))" for q c
  proof -
    from qc obtain c0 where "(q, c0) \<in> set (cnf_head s)" and "c = (if q = p then f c0 else c0)"
      by (auto simp: upd_cnf_def)
    moreover from this have "cnf_busy c0 = int (count_list held q)" using inv by (auto simp: cnf_inv_def)
    ultimately show ?thesis using b o by auto
  qed
  then show ?thesis using inv sub unfolding cnf_inv_def by (simp add: case_prod_beta) 
qed

lemma count_list_remove_nth:
  "k < length xs \<Longrightarrow> count_list xs q = count_list (take k xs @ drop (Suc k) xs) q + (if xs ! k = q then 1 else 0)"
proof -
  assume "k < length xs"
  then have "count_list xs q = count_list (take k xs @ xs ! k # drop (Suc k) xs) q" by (simp flip: id_take_nth_drop)
  then show ?thesis by simp
qed

lemma cnf_step_inv:
  assumes inv: "cnf_inv held s" and ok: "op_ok c"
  shows "\<exists>held' s'. cnf_step c held s = Some (held', s') \<and> cnf_inv held' s'"
proof (cases c)
  case (Op_get time)
  show ?thesis
  proof (cases "cnf_active s")
    case None
    then show ?thesis using inv Op_get by (simp add: CNF_get_def)
  next
    case (Some p)
    then have p: "p \<in> fst ` set (cnf_head s)" using inv by (simp add: cnf_inv_def)
    then obtain cf where cf: "map_of (cnf_head s) p = Some cf" "cnf_busy cf = int (count_list held p)"
      by (rule map_of_cnf [OF inv])
    have "cnf_inv (p # held) (upd_cnf p (\<lambda>c. c\<lparr>cnf_busy := cnf_busy c + 1, cnf_t_last := time\<rparr>) s)"
      using inv p by (intro cnf_inv_upd [OF inv]) (auto simp: cnf_inv_def)
    then show ?thesis using Op_get Some cf by (simp add: CNF_get_def)
  qed
next
  case (Op_rel k)
  show ?thesis
  proof (cases "k < length held")
    case False
    then show ?thesis using inv Op_rel by simp
  next
    case True
    let ?p = "held ! k" and ?h = "take k held @ drop (Suc k) held"
    have p: "?p \<in> fst ` set (cnf_head s)" using inv True nth_mem by (auto simp: cnf_inv_def)
    then obtain cf where cf: "map_of (cnf_head s) ?p = Some cf" "cnf_busy cf = int (count_list held ?p)"
      by (rule map_of_cnf [OF inv])
    note cnt = count_list_remove_nth [OF True]
    have "set ?h \<subseteq> set held" by (auto dest: in_set_takeD in_set_dropD)
    then have "cnf_inv ?h (upd_cnf ?p (\<lambda>c. c\<lparr>cnf_busy := cnf_busy c - 1\<rparr>) s)"
      using inv cnt by (intro cnf_inv_upd [OF inv]) (auto simp: cnf_inv_def)
    moreover have "cnf_busy cf > 0" using cf(2) cnt [of ?p] by simp
    ultimately show ?thesis using Op_rel True cf(1) by (simp add: CNF_rel_def)
  qed
next
  case (Op_read accessible loaded nattype mapped time)
  let ?new = "\<lambda>j. \<lparr>cnf_head = cnf_head s @ [(cnf_next s, \<lparr>cnf_jroot = j, cnf_busy = 0, cnf_t_last = time\<rparr>)],
      cnf_active = Some (cnf_next s), cnf_next = cnf_next s + 1\<rparr>"
  have "cnf_next s \<notin> set held" using inv unfolding cnf_inv_def by (meson less_irrefl subsetD)
  then have "count_list held (cnf_next s) = 0" by simp
  then have "cnf_inv held (?new j)" for j using inv by (auto simp: cnf_inv_def)
  then show ?thesis
    using inv ok Op_read by (auto simp: CNF_check_and_read_def conf_ok_def Let_def split: option.splits)
next
  case Op_nuke
  have "p \<in> fst ` set (cnf_head (CNF_nuke s))" if p: "p \<in> set held" for p
  proof -
    have "p \<in> fst ` set (cnf_head s)" using inv p by (auto simp: cnf_inv_def)
    then obtain cf where "map_of (cnf_head s) p = Some cf" "cnf_busy cf = int (count_list held p)"
      by (rule map_of_cnf [OF inv])
    moreover have "count_list held p > 0" using p by (metis count_list_0_iff gr0I)
    ultimately have "(p, cf) \<in> set (cnf_head (CNF_nuke s))" by (auto simp: CNF_nuke_def dest: map_of_SomeD)
    then show ?thesis by force
  qed
  moreover have "distinct (map fst (cnf_head (CNF_nuke s)))"
    using inv by (simp add: cnf_inv_def CNF_nuke_def distinct_map_filter)
  moreover have "p \<in> fst ` set (cnf_head (CNF_nuke s))" if "cnf_active s = Some p" for p
    using inv that by (force simp: cnf_inv_def CNF_nuke_def)
  ultimately have "cnf_inv held (CNF_nuke s)" using inv by (auto simp: cnf_inv_def CNF_nuke_def)
  then show ?thesis using Op_nuke by simp
qed

lemma cnf_run_inv:
  "cnf_inv held s \<Longrightarrow> list_all op_ok cs \<Longrightarrow> \<exists>held' s'. cnf_run cs held s = Some (held', s') \<and> cnf_inv held' s'"
proof (induction cs arbitrary: held s)
  case (Cons c cs)
  then obtain held1 s1 where 1: "cnf_step c held s = Some (held1, s1)" "cnf_inv held1 s1"
    using cnf_step_inv [of held s c] by auto
  then show ?case using Cons.IH [OF 1(2)] Cons.prems(2) by simp
qed simp

text \<open>
  C27: A configuration is not released while somebody uses it: for every interleaving of reads of new
  configurations, uses that are got and released, and clean-ups, no assertion fails and nothing is
  taken from a released configuration, and every configuration in use is still there with its count of
  users.
\<close>

theorem configurations_in_use_kept:
  assumes "list_all op_ok cs"
  shows "\<exists>held s. cnf_run cs [] cnf_empty = Some (held, s) \<and>
    (\<forall>p \<in> set held. \<exists>c. map_of (cnf_head s) p = Some c \<and> cnf_busy c = int (count_list held p))"
proof -
  have "cnf_inv [] cnf_empty" by (simp add: cnf_inv_def cnf_empty_def)
  from cnf_run_inv [OF this assms] obtain held s where r: "cnf_run cs [] cnf_empty = Some (held, s)" "cnf_inv held s"
    by blast
  have "\<exists>c. map_of (cnf_head s) p = Some c \<and> cnf_busy c = int (count_list held p)" if "p \<in> set held" for p
  proof -
    have "p \<in> fst ` set (cnf_head s)" using r(2) that by (auto simp: cnf_inv_def)
    then show ?thesis by (metis map_of_cnf r(2))
  qed
  with r(1) show ?thesis by blast
qed

definition conf_demo :: json where
  "conf_demo = Json_object [(''interface'', Json_object [(''nat_type'', Json_integer 2),
       (''remote_addr'', Json_string ''10.0.0.1'')]), (''peers'', Json_array [])]"

lemma conf_ok_demo: "conf_ok conf_demo" by code_simp

theorem configurations_in_use_kept_witness:
  "\<exists>held s. cnf_run [Op_read True (Some conf_demo) 2 ''10.0.0.1'' 5, Op_get 6,
       Op_read True (Some conf_demo) 2 ''10.0.0.1'' 7, Op_get 8, Op_nuke, Op_rel 1, Op_nuke] [] cnf_empty = Some (held, s) \<and>
    (\<forall>p \<in> set held. \<exists>c. map_of (cnf_head s) p = Some c \<and> cnf_busy c = int (count_list held p))"
  by (rule configurations_in_use_kept) (simp add: conf_ok_demo)

section \<open>Properties\<close>

text \<open>A peer of the configuration with the members that the code expects.\<close>

record described_peer =
  dp_nat_type :: int
  dp_otp_sender :: string
  dp_otp_receiver :: "string list"
  dp_pubkey :: string
  dp_ip :: string
  dp_mask :: string
  dp_addresses :: "json list"

definition describes :: "json \<Rightarrow> described_peer \<Rightarrow> bool" where
  "describes jpeer d \<longleftrightarrow> json_is_object jpeer \<and>
     string_member jpeer ''otp_sender'' = Some (dp_otp_sender d) \<and>
     array_member jpeer ''otp_receiver'' = Some (Json_array (map Json_string (dp_otp_receiver d))) \<and>
     length (dp_otp_receiver d) = 3 \<and> [] \<notin> set (dp_otp_receiver d) \<and>
     string_member jpeer ''wireguard_pubkey'' = Some (dp_pubkey d) \<and>
     string_member jpeer ''private_ip'' = Some (dp_ip d) \<and> inet_pton (dp_ip d) \<noteq> None \<and>
     string_member jpeer ''private_mask'' = Some (dp_mask d) \<and> inet_pton (dp_mask d) \<noteq> None \<and>
     integer_member jpeer ''nat_type'' = Some (dp_nat_type d) \<and>
     array_member jpeer ''device_addresses'' = Some (Json_array (dp_addresses d)) \<and>
     dp_addresses d \<noteq> [] \<and> list_all wf_address (dp_addresses d)"

lemma otp_values_map:
  "[] \<notin> set ss \<Longrightarrow> otp_values (map Json_string ss) = Some (map strtoull16 ss)"
  by (induction ss) (auto simp: json_string_length_def)

lemma fill_peer_describes:
  assumes d: "describes jpeer d" and p: "length (if_endpoints peer) = 16" "if_n_endpoints peer = 0"
    and bo: "bo \<longleftrightarrow> nt = 2 \<and> int_cast (dp_nat_type d) = 2" and ks: "ks = kept_addresses bo (dp_addresses d)"
  shows "fill_peer jpeer nt peer =
    (if length ks \<le> 16
     then Some (peer\<lparr>if_keep_alive := (if bo then 0 else if_keep_alive peer),
        if_endpoints := map address_endpoint ks @ drop (length ks) (if_endpoints peer),
        if_n_endpoints := of_nat (length ks), if_public_key := Some (dp_pubkey d),
        if_allowed_ip := inet_addr (dp_ip d), if_allowed_mask := inet_addr (dp_mask d),
        if_iface_addr := inet_addr (dp_ip d), if_otp_sender := strtoull16 (dp_otp_sender d),
        if_otp_receiver := map strtoull16 (dp_otp_receiver d),
        if_otp_enabled := (\<exists>s \<in> set (dp_otp_receiver d). strtoull16 s \<noteq> 0)\<rparr>)
     else None)"
proof -
  let ?p = "if bo then peer\<lparr>if_keep_alive := 0\<rparr> else peer"
  have w: "list_all wf_address (dp_addresses d)" using d by (simp add: describes_def)
  have "length (if_endpoints ?p) = 16" "unat (if_n_endpoints ?p) = 0" using p by simp_all
  from fill_endpoints_eq [OF w this _ ks] have f: "fill_endpoints bo (dp_addresses d) ?p = (if length ks \<le> 16
      then Some (?p\<lparr>if_endpoints := map address_endpoint ks @ drop (length ks) (if_endpoints ?p),
        if_n_endpoints := of_nat (length ks)\<rparr>) else None)" by simp
  have ip: "cnf_ipv4_verify (dp_ip d) = Some ()" "cnf_ipv4_verify (dp_mask d) = Some ()"
    using d by (auto simp: describes_def cnf_ipv4_verify_def)
  have o: "otp_values (map Json_string (dp_otp_receiver d)) = Some (map strtoull16 (dp_otp_receiver d))"
    using d by (intro otp_values_map) (simp add: describes_def)
  show ?thesis
    using d unfolding describes_def fill_peer_def by (simp add: ip f [unfolded bo] o bo Let_def)
qed

text \<open>
  C28: A peer is set up as the configuration describes it. For a peer with the expected members, filling the
  cleared structure gives its key, address, mask and one-time passwords, a keep-alive interval of 0 when the NAT
  types of both ends are open, and as endpoints the listed addresses with port and kind in their order, less
  the relays when both ends are open, if there are at most 16 of them; with more, the array of 16 endpoints
  is left, since the code has no bound.
\<close>

theorem endpoints_from_configuration:
  assumes "object_member jroot ''interface'' = Some interface"
    and "integer_member interface ''nat_type'' = Some nat_type"
    and "array_member jroot ''peers'' = Some (Json_array jpeers)" and "i < length jpeers" and "describes (jpeers ! i) d"
    and "length (if_endpoints peer) = 16" and "if_n_endpoints peer = 0"
    and "both_open \<longleftrightarrow> int_cast nat_type = 2 \<and> int_cast (dp_nat_type d) = 2"
    and "ks = filter (\<lambda>j. \<not> (both_open \<and> string_member j ''type'' = Some ''proxy'')) (dp_addresses d)"
  shows "CNF_fill_iface_peer jroot peer i =
    (if length ks \<le> 16
     then Some (0, peer\<lparr>if_keep_alive := (if both_open then 0 else if_keep_alive peer),
        if_endpoints := map address_endpoint ks @ drop (length ks) (if_endpoints peer),
        if_n_endpoints := of_nat (length ks), if_public_key := Some (dp_pubkey d),
        if_allowed_ip := inet_addr (dp_ip d), if_allowed_mask := inet_addr (dp_mask d),
        if_iface_addr := inet_addr (dp_ip d), if_otp_sender := strtoull16 (dp_otp_sender d),
        if_otp_receiver := map strtoull16 (dp_otp_receiver d),
        if_otp_enabled := (\<exists>s \<in> set (dp_otp_receiver d). strtoull16 s \<noteq> 0)\<rparr>)
     else None)"
proof -
  have nt: "cnf_get_interface_nat_type_by_obj jroot = Some (int_cast nat_type)"
    using assms(1,2) by (simp add: cnf_get_interface_nat_type_by_obj_def)
  have g: "json_array_get (Json_array jpeers) i = Some (jpeers ! i)" using assms(4) by simp
  show ?thesis
    unfolding CNF_fill_iface_peer_def nt assms(3) Option.bind.bind_lunit g option.case
      fill_peer_describes [OF assms(5-8) assms(9) [folded kept_addresses_def]]
    by simp
qed

definition address_demo :: json where
  "address_demo = Json_object [(''address'', Json_string ''10.0.0.1''), (''port'', Json_integer 82),
     (''type'', Json_string ''proxy'')]"

definition direct_demo :: json where
  "direct_demo = Json_object [(''address'', Json_string ''10.0.0.2''), (''port'', Json_integer 51820),
     (''type'', Json_string ''direct'')]"

definition iface_peer_demo :: wireguard_iface_peer where
  "iface_peer_demo = \<lparr>if_public_key = None, if_preshared_key = None, if_greatest_timestamp = replicate 12 0,
     if_iface_addr = 0, if_allowed_ip = 0, if_allowed_mask = 0,
     if_endpoints = replicate 16 \<lparr>ie_is_proxy = False, ie_ip = 0, ie_port = 51820\<rparr>, if_n_endpoints = 0,
     if_keep_alive = 0xFFFF, if_otp_enabled = False, if_otp_sender = 0, if_otp_receiver = [0, 0, 0]\<rparr>"

lemma address_demo: "wf_address address_demo" "string_member address_demo ''type'' = Some ''proxy''"
proof -
  show t: "string_member address_demo ''type'' = Some ''proxy''" by code_simp
  have "string_member address_demo ''address'' = Some ''10.0.0.1''" "inet_pton ''10.0.0.1'' = Some 0x0100000A"
    "integer_member address_demo ''port'' = Some 82" by code_simp+
  then show "wf_address address_demo" using t by (simp add: wf_address_def address_demo_def)
qed

lemma direct_demo: "wf_address direct_demo" "string_member direct_demo ''type'' = Some ''direct''"
proof -
  show t: "string_member direct_demo ''type'' = Some ''direct''" by code_simp
  have "string_member direct_demo ''address'' = Some ''10.0.0.2''" "inet_pton ''10.0.0.2'' = Some 0x0200000A"
    "integer_member direct_demo ''port'' = Some 51820" by code_simp+
  then show "wf_address direct_demo" using t by (simp add: wf_address_def direct_demo_def)
qed

definition described_demo :: described_peer where
  "described_demo = \<lparr>dp_nat_type = 2, dp_otp_sender = ''1f'', dp_otp_receiver = [''0'', ''ff'', ''0''], dp_pubkey = ''k'',
     dp_ip = ''198.18.0.2'', dp_mask = ''255.255.255.255'', dp_addresses = [direct_demo, address_demo]\<rparr>"

definition described_json :: json where
  "described_json = Json_object [(''otp_sender'', Json_string ''1f''),
     (''otp_receiver'', Json_array [Json_string ''0'', Json_string ''ff'', Json_string ''0'']),
     (''wireguard_pubkey'', Json_string ''k''), (''private_ip'', Json_string ''198.18.0.2''),
     (''private_mask'', Json_string ''255.255.255.255''), (''nat_type'', Json_integer 2),
     (''device_addresses'', Json_array [direct_demo, address_demo])]"

definition described_root :: "int \<Rightarrow> json" where
  "described_root nt = Json_object [(''interface'', Json_object [(''nat_type'', Json_integer nt)]),
     (''peers'', Json_array [described_json])]"

lemma described_demo: "describes described_json described_demo"
proof -
  have "string_member described_json ''otp_sender'' = Some ''1f''"
    "array_member described_json ''otp_receiver'' = Some (Json_array [Json_string ''0'', Json_string ''ff'', Json_string ''0''])"
    "string_member described_json ''wireguard_pubkey'' = Some ''k''"
    "string_member described_json ''private_ip'' = Some ''198.18.0.2''"
    "string_member described_json ''private_mask'' = Some ''255.255.255.255''"
    "integer_member described_json ''nat_type'' = Some 2"
    "array_member described_json ''device_addresses'' = Some (Json_array [direct_demo, address_demo])"
    "inet_pton ''198.18.0.2'' = Some 0x020012C6" "inet_pton ''255.255.255.255'' = Some 0xFFFFFFFF"
    by code_simp+
  moreover have "json_is_object described_json" by (simp add: described_json_def)
  ultimately show ?thesis
    using address_demo direct_demo by (simp add: describes_def described_demo_def)
qed

lemma described_endpoints:
  "map address_endpoint [direct_demo, address_demo] =
     [\<lparr>ie_is_proxy = False, ie_ip = 0x0200000A, ie_port = 51820\<rparr>, \<lparr>ie_is_proxy = True, ie_ip = 0x0100000A, ie_port = 82\<rparr>]"
  by code_simp

text \<open>With the interface open, only the direct address remains; behind a NAT, the relay is kept.\<close>

theorem endpoints_from_configuration_witness:
  "(\<exists>p. CNF_fill_iface_peer (described_root 2) iface_peer_demo 0 = Some (0, p) \<and> if_keep_alive p = 0 \<and>
      take (unat (if_n_endpoints p)) (if_endpoints p) = [\<lparr>ie_is_proxy = False, ie_ip = 0x0200000A, ie_port = 51820\<rparr>]) \<and>
   (\<exists>p. CNF_fill_iface_peer (described_root 1) iface_peer_demo 0 = Some (0, p) \<and> if_keep_alive p = 0xFFFF \<and>
      take (unat (if_n_endpoints p)) (if_endpoints p) = [\<lparr>ie_is_proxy = False, ie_ip = 0x0200000A, ie_port = 51820\<rparr>,
        \<lparr>ie_is_proxy = True, ie_ip = 0x0100000A, ie_port = 82\<rparr>])"
proof -
  have i: "object_member (described_root nt) ''interface'' = Some (Json_object [(''nat_type'', Json_integer nt)])"
    "integer_member (Json_object [(''nat_type'', Json_integer nt)]) ''nat_type'' = Some nt"
    "array_member (described_root nt) ''peers'' = Some (Json_array [described_json])" for nt
    by (simp_all add: described_root_def object_member_def integer_member_def array_member_def member_such_def)
  have p: "length (if_endpoints iface_peer_demo) = 16" "if_n_endpoints iface_peer_demo = 0" "if_keep_alive iface_peer_demo = 0xFFFF"
    by (simp_all add: iface_peer_demo_def)
  have d: "describes ([described_json] ! 0) described_demo" using described_demo by simp
  have c: "int_cast 2 = 2" "int_cast 1 = 1" by code_simp+
  have a: "dp_addresses described_demo = [direct_demo, address_demo]" "dp_nat_type described_demo = 2"
    by (simp_all add: described_demo_def)
  note f = endpoints_from_configuration [OF i _ d p(1,2) refl refl, unfolded a]
  show ?thesis
    using f [of 2] f [of 1] address_demo(2) direct_demo(2) described_endpoints p(3) by (simp add: c)
qed

text \<open>
  The addresses that are reported to the server are distinct usable IPv4 addresses of the host, at
  most 16, and all of them if there are fewer; each is printed as a text that reads back as the address.
\<close>

theorem host_addresses_reported:
  "\<exists>as. cnf_getifaddrs (Some ifas) mapped =
      Some (Json_array (map (\<lambda>a. Json_string (inet_ntoa a)) as @ [Json_string mapped])) \<and>
    distinct as \<and> length as \<le> 16 \<and> set as \<subseteq> inet_addresses ifas \<and>
    (length as = 16 \<or> set as = inet_addresses ifas) \<and>
    map (\<lambda>a. inet_pton (inet_ntoa a)) as = map Some as"
  using ifaddrs_loop_spec [of "[]" ifas]
  by (intro exI [of _ "ifaddrs_loop ifas []"]) (auto simp: cnf_getifaddrs_def inet_pton_ntoa)

end
