(* ===== verification/Wg_Base64.thy ===== *)
theory Wg_Base64
  imports Crypto_Util
begin

text \<open>
  The base64 conversions at the end of \<open>common/wireguard.c\<close>. A C string is the list of its
  characters without the terminating zero; a caller's output buffer of \<open>*outlen\<close> bytes is
  represented by the bytes that the function stores in it from index 0 on, so that a store beyond
  the buffer shows as a longer list.
\<close>

definition base64_lookup :: bytes where
  "base64_lookup = map of_nat ([65..<91] @ [97..<123] @ [48..<58] @ [43, 47])"

text \<open>The conversion \<open>(int)x\<close> of a 64-bit size.\<close>

definition c_int :: "u64 \<Rightarrow> int" where
  "c_int x = sint (ucast x :: u32)"

section \<open>Decoding\<close>

record base64_state =
  b64_accum :: u32
  b64_char_count :: u8
  b64_byte_count :: int
  b64_out :: bytes

text \<open>\<open>case ptr of NULL\<close>: \<open>strchr\<close> finds the first occurrence.\<close>

definition base64_bits :: "u8 \<Rightarrow> base64_state \<Rightarrow> (u8 \<times> base64_state) option" where
  "base64_bits c st =
     (if c = 61
      then let st = st\<lparr>b64_byte_count := b64_byte_count st - 1\<rparr>
           in if b64_byte_count st < 0 then None else Some (0, st)
      else if b64_byte_count st \<noteq> 3 then None
      else case find_index (\<lambda>d. d = c) base64_lookup of
             Some i \<Rightarrow> Some (of_nat i AND 0x3F, st)
           | None \<Rightarrow> None)"

definition base64_push :: "u8 \<Rightarrow> int \<Rightarrow> base64_state \<Rightarrow> base64_state option" where
  "base64_push bits outlen st =
     (let st = st\<lparr>b64_accum := push_bit 6 (b64_accum st) OR ucast bits,
                  b64_char_count := b64_char_count st + 1\<rparr>
      in if b64_char_count st = 4
         then if int (length (b64_out st)) + b64_byte_count st > outlen then None
              else let accum = b64_accum st;
                       o1 = [ucast (drop_bit 16 accum AND 0xFF)];
                       o2 = (if b64_byte_count st > 1 then [ucast (drop_bit 8 accum AND 0xFF)] else []);
                       o3 = (if b64_byte_count st > 2 then [ucast (accum AND 0xFF)] else [])
                   in Some (st\<lparr>b64_out := b64_out st @ o1 @ o2 @ o3, b64_char_count := 0,
                               b64_accum := 0\<rparr>)
         else Some st)"

text \<open>The loop: the flag is \<open>result\<close>; a \<open>break\<close> leaves the state of the iteration. On the last
  test of an iteration (\<open>Output buffer overflow\<close>) \<open>char_count\<close> is 4 already.\<close>

fun base64_loop :: "bytes \<Rightarrow> int \<Rightarrow> base64_state \<Rightarrow> bool \<times> base64_state" where
  "base64_loop [] outlen st = (True, st)"
| "base64_loop (c # cs) outlen st =
     (case base64_bits c st of
        None \<Rightarrow> (False, st)
      | Some (bits, st) \<Rightarrow>
          (case base64_push bits outlen st of
             None \<Rightarrow> (False, st)
           | Some st \<Rightarrow> base64_loop cs outlen st))"

text \<open>The result, \<open>*outlen\<close> afterwards and the bytes stored at \<open>out\<close>. The \<open>NULL\<close> string returns
  false.\<close>

definition wireguard_base64_decode :: "bytes option \<Rightarrow> u64 \<Rightarrow> bool \<times> u64 \<times> bytes" where
  "wireguard_base64_decode str outlen =
     (case str of
        None \<Rightarrow> (False, outlen, [])
      | Some s \<Rightarrow>
          let inlen = (of_nat (length s) :: u64);
              (result, st) = base64_loop (take (nat (c_int inlen)) s) (c_int outlen)
                \<lparr>b64_accum = 0, b64_char_count = 0, b64_byte_count = 3, b64_out = []\<rparr>;
              result = (if b64_char_count st \<noteq> 0 then False else result)
          in (result, of_nat (length (b64_out st)), b64_out st))"

section \<open>Encoding\<close>

text \<open>One iteration of the \<open>while\<close> loop per three input bytes; \<open>write_offset\<close> is the number of
  characters written before.\<close>

definition base64_quad :: "u8 \<Rightarrow> u8 \<Rightarrow> u8 \<Rightarrow> nat \<Rightarrow> nat \<Rightarrow> bytes" where
  "base64_quad byte1 byte2 byte3 write_offset limit =
     (let tmp = push_bit 16 (ucast byte1) OR push_bit 8 (ucast byte2) OR (ucast byte3 :: u32)
      in [base64_lookup ! unat (drop_bit 18 tmp AND 0x3F),
          base64_lookup ! unat (drop_bit 12 tmp AND 0x3F),
          if write_offset + 2 < limit then base64_lookup ! unat (drop_bit 6 tmp AND 0x3F) else 61,
          if write_offset + 3 < limit then base64_lookup ! unat (tmp AND 0x3F) else 61])"

fun base64_encode_loop :: "bytes \<Rightarrow> nat \<Rightarrow> nat \<Rightarrow> bytes" where
  "base64_encode_loop [] wo limit = []"
| "base64_encode_loop [a] wo limit = base64_quad a 0 0 wo limit"
| "base64_encode_loop [a, b] wo limit = base64_quad a b 0 wo limit"
| "base64_encode_loop (a # b # c # rest) wo limit =
     base64_quad a b c wo limit @ base64_encode_loop rest (wo + 4) limit"

text \<open>\<open>None\<close>: false is returned and nothing stored. Otherwise \<open>out\<close> holds the characters and a
  terminating zero, and \<open>*outlen\<close> is their number. Inputs are shorter than 2 GiB.\<close>

definition wireguard_base64_encode :: "bytes \<Rightarrow> nat \<Rightarrow> bytes option" where
  "wireguard_base64_encode inp outlen =
     (let inlen = length inp; len = 4 * ((inlen + 2) div 3);
          padding = 3 - inlen mod 3; padding = (if padding > 2 then 0 else padding)
      in if outlen > len then Some (base64_encode_loop inp 0 (len - padding) @ [0]) else None)"

section \<open>The alphabet\<close>

lemma length_base64_lookup [simp]: "length base64_lookup = 64"
  by (simp add: base64_lookup_def)

lemma base64_lookup_unroll: "base64_lookup = map of_nat
  [65, 66, 67, 68, 69, 70, 71, 72, 73, 74, 75, 76, 77, 78, 79, 80, 81, 82, 83, 84, 85, 86, 87, 88, 89, 90,
   97, 98, 99, 100, 101, 102, 103, 104, 105, 106, 107, 108, 109, 110, 111, 112, 113, 114, 115, 116, 117,
   118, 119, 120, 121, 122, 48, 49, 50, 51, 52, 53, 54, 55, 56, 57, 43, 47]"
  by (simp add: base64_lookup_def upt_rec)

lemma distinct_base64_lookup: "distinct base64_lookup"
  unfolding base64_lookup_unroll by simp

lemma pad_not_in_lookup: "61 \<notin> set base64_lookup"
  unfolding base64_lookup_unroll by simp

lemma lookup_find: "i < 64 \<Longrightarrow> find_index (\<lambda>d. d = base64_lookup ! i) base64_lookup = Some i"
  using distinct_base64_lookup by (auto simp: find_index_Some_iff nth_eq_iff_index_eq)

lemma lookup_not_pad: "i < 64 \<Longrightarrow> base64_lookup ! i \<noteq> 61"
  using pad_not_in_lookup nth_mem [of i base64_lookup] by fastforce

section \<open>Round trip\<close>

lemma take_bit_u32_small: "unat (take_bit 6 (x :: u32)) < 64"
  by (simp add: unat_take_bit)

lemma and_3F: "(x :: u32) AND 0x3F = take_bit 6 x" "(y :: u8) AND 0x3F = take_bit 6 y"
  and and_FF: "(x :: u32) AND 0xFF = take_bit 8 x"
  by (simp_all add: take_bit_eq_mask mask_eq_exp_minus_1)

lemma small_bits: "m < 64 \<Longrightarrow> (ucast (of_nat m AND 0x3F :: u8) :: u32) = of_nat m"
  by (simp add: and_3F word_unat_eq_iff unat_take_bit unat_of_nat)

lemma digit_bits: "(ucast (of_nat (unat (take_bit 6 (x :: u32))) AND 0x3F :: u8) :: u32) = take_bit 6 x"
  using small_bits [OF take_bit_u32_small [of x]] by simp

definition b64_word :: "u8 \<Rightarrow> u8 \<Rightarrow> u8 \<Rightarrow> u32" where
  "b64_word a b c = push_bit 16 (ucast a) OR push_bit 8 (ucast b) OR ucast c"

definition digit :: "nat \<Rightarrow> u32 \<Rightarrow> u32" where
  "digit k t = take_bit 6 (drop_bit k t)"

lemma digits_accum:
  "push_bit 6 (push_bit 6 (push_bit 6 (digit 18 t) OR digit 12 t) OR digit 6 t) OR digit 0 t =
     take_bit 24 t"
proof (rule bit_word_eqI)
  fix n :: nat
  assume "n < LENGTH(32)"
  then consider "n < 6" | "6 \<le> n" "n < 12" | "12 \<le> n" "n < 18" | "18 \<le> n" "n < 24" | "24 \<le> n"
    by linarith
  then show "bit (push_bit 6 (push_bit 6 (push_bit 6 (digit 18 t) OR digit 12 t) OR digit 6 t) OR
      digit 0 t) n = bit (take_bit 24 t) n"
    using \<open>n < LENGTH(32)\<close> by cases (auto simp: digit_def bit_simps)
qed

lemma b64_word_bytes:
  "ucast (take_bit 8 (drop_bit 16 (take_bit 24 (b64_word a b c)))) = a"
  "ucast (take_bit 8 (drop_bit 8 (take_bit 24 (b64_word a b c)))) = b"
  "ucast (take_bit 8 (take_bit 24 (b64_word a b c))) = c"
  by (rule bit_word_eqI; auto simp: b64_word_def bit_simps dest: bit_imp_le_length)+

lemma b64_word_low: "digit 0 (b64_word a b 0) = 0" "digit 6 (b64_word a 0 0) = 0"
  by (rule bit_word_eqI; auto simp: b64_word_def digit_def bit_simps)+

lemma digit_small: "unat (digit k t) < 64"
  by (simp add: digit_def take_bit_u32_small)

abbreviation b64_st :: "u32 \<Rightarrow> u8 \<Rightarrow> int \<Rightarrow> bytes \<Rightarrow> base64_state" where
  "b64_st acc n bc ob \<equiv> \<lparr>b64_accum = acc, b64_char_count = n, b64_byte_count = bc, b64_out = ob\<rparr>"

lemma bits_digit:
  "base64_bits (base64_lookup ! unat (digit k t)) (b64_st acc n 3 out) =
     Some (of_nat (unat (digit k t)) AND 0x3F, b64_st acc n 3 out)"
  by (simp add: base64_bits_def lookup_not_pad lookup_find digit_small)

lemma digit_ucast: "(ucast (of_nat (unat (digit k t)) AND 0x3F :: u8) :: u32) = digit k t"
  by (simp only: digit_def digit_bits)

lemma loop_digit:
  "n + 1 \<noteq> 4 \<Longrightarrow> base64_loop (base64_lookup ! unat (digit k t) # cs) lim (b64_st acc n 3 out) =
     base64_loop cs lim (b64_st (push_bit 6 acc OR digit k t) (n + 1) 3 out)"
  unfolding base64_loop.simps bits_digit option.case prod.case base64_push_def digit_ucast
  by (simp add: Let_def)

lemma loop_pad:
  "n + 1 \<noteq> 4 \<Longrightarrow> 0 < bc \<Longrightarrow> base64_loop (61 # cs) lim (b64_st acc n bc out) =
     base64_loop cs lim (b64_st (push_bit 6 acc) (n + 1) (bc - 1) out)"
  by (simp add: base64_bits_def base64_push_def Let_def)

definition out_bytes :: "u32 \<Rightarrow> int \<Rightarrow> bytes" where
  "out_bytes acc bc = [ucast (take_bit 8 (drop_bit 16 acc))] @
     (if bc > 1 then [ucast (take_bit 8 (drop_bit 8 acc))] else []) @
     (if bc > 2 then [ucast (take_bit 8 acc)] else [])"

lemma loop_last_digit:
  "int (length out) + 3 \<le> lim \<Longrightarrow>
   base64_loop (base64_lookup ! unat (digit k t) # cs) lim (b64_st acc 3 3 out) =
     base64_loop cs lim (b64_st 0 0 3 (out @ out_bytes (push_bit 6 acc OR digit k t) 3))"
  unfolding base64_loop.simps bits_digit option.case prod.case base64_push_def digit_ucast
  by (simp add: Let_def out_bytes_def and_FF)

lemma loop_last_pad:
  "int (length out) + bc - 1 \<le> lim \<Longrightarrow> 0 < bc \<Longrightarrow>
   base64_loop (61 # cs) lim (b64_st acc 3 bc out) =
     base64_loop cs lim (b64_st 0 0 (bc - 1) (out @ out_bytes (push_bit 6 acc) (bc - 1)))"
  by (simp add: base64_bits_def base64_push_def Let_def out_bytes_def and_FF)

lemma quad_digits:
  "base64_quad a b c wo lim = [base64_lookup ! unat (digit 18 (b64_word a b c)),
     base64_lookup ! unat (digit 12 (b64_word a b c)),
     if wo + 2 < lim then base64_lookup ! unat (digit 6 (b64_word a b c)) else 61,
     if wo + 3 < lim then base64_lookup ! unat (digit 0 (b64_word a b c)) else 61]"
  by (simp add: base64_quad_def b64_word_def digit_def and_3F Let_def)

lemma out_bytes_word:
  "out_bytes (take_bit 24 (b64_word a b c)) bc =
     [a] @ (if bc > 1 then [b] else []) @ (if bc > 2 then [c] else [])"
  by (simp only: out_bytes_def b64_word_bytes)

lemma decode_quad3:
  assumes "int (length out) + 3 \<le> olen" and "wo + 3 < lim"
  shows "base64_loop (base64_quad a b c wo lim @ cs) olen (b64_st 0 0 3 out) =
    base64_loop cs olen (b64_st 0 0 3 (out @ [a, b, c]))"
  using assms digits_accum [of "b64_word a b c"] out_bytes_word [of a b c 3]
  by (simp add: quad_digits loop_digit loop_last_digit
      del: base64_loop.simps(2))

lemma decode_quad2:
  assumes "int (length out) + 2 \<le> olen" and "wo + 3 = lim"
  shows "base64_loop (base64_quad a b 0 wo lim) olen (b64_st 0 0 3 out) =
    (True, b64_st 0 0 2 (out @ [a, b]))"
  using assms digits_accum [of "b64_word a b 0"] out_bytes_word [of a b 0 2]
  by (simp add: quad_digits loop_digit loop_last_pad b64_word_low
      del: base64_loop.simps(2))

lemma decode_quad1:
  assumes "int (length out) + 1 \<le> olen" and "wo + 2 = lim"
  shows "base64_loop (base64_quad a 0 0 wo lim) olen (b64_st 0 0 3 out) =
    (True, b64_st 0 0 1 (out @ [a]))"
  using assms digits_accum [of "b64_word a 0 0"] out_bytes_word [of a 0 0 1]
  by (simp add: quad_digits loop_digit loop_pad loop_last_pad b64_word_low
      del: base64_loop.simps(2))

text \<open>Where the padding starts in the encoding of \<open>n\<close> bytes.\<close>

definition b64_lim :: "nat \<Rightarrow> nat" where
  "b64_lim n = n div 3 * 4 + (if n mod 3 = 0 then 0 else n mod 3 + 1)"

lemma b64_lim_simps: "b64_lim (Suc 0) = 2" "b64_lim (Suc (Suc 0)) = 3"
  "b64_lim (Suc (Suc (Suc n))) = b64_lim n + 4"
proof -
  have "Suc (Suc (Suc n)) div 3 = n div 3 + 1" "Suc (Suc (Suc n)) mod 3 = n mod 3" by presburger+
  then show "b64_lim (Suc (Suc (Suc n))) = b64_lim n + 4" by (simp add: b64_lim_def)
qed (simp_all add: b64_lim_def)

lemma b64_lim_eq:
  "4 * ((n + 2) div 3) - (if 3 - n mod 3 > 2 then 0 else 3 - n mod 3) = b64_lim n"
proof -
  have "n mod 3 = 0 \<and> (n + 2) div 3 = n div 3 \<or> n mod 3 = 1 \<and> (n + 2) div 3 = n div 3 + 1 \<or>
      n mod 3 = 2 \<and> (n + 2) div 3 = n div 3 + 1"
    by presburger
  then show ?thesis by (elim disjE) (simp_all add: b64_lim_def)
qed

lemma length_encode_loop: "length (base64_encode_loop inp wo lim) = 4 * ((length inp + 2) div 3)"
proof (induction inp wo lim rule: base64_encode_loop.induct)
  case (4 a b c rest wo lim)
  have "(length (a # b # c # rest) + 2) div 3 = (length rest + 2) div 3 + 1"
    unfolding list.size by presburger
  with 4 show ?case by (simp add: base64_quad_def Let_def)
qed (simp_all add: base64_quad_def Let_def)

lemma decode_encode_loop:
  assumes "int (length out + length inp) \<le> olen" and "lim = wo + b64_lim (length inp)"
  shows "\<exists>bc. base64_loop (base64_encode_loop inp wo lim) olen (b64_st 0 0 3 out) =
    (True, b64_st 0 0 bc (out @ inp))"
  using assms
proof (induction inp wo lim arbitrary: out rule: base64_encode_loop.induct)
  case (2 a wo lim)
  then show ?case using decode_quad1 [of out olen wo lim a] b64_lim_simps(1) by (simp del: base64_loop.simps)
next
  case (3 a b wo lim)
  then show ?case using decode_quad2 [of out olen wo lim a b] b64_lim_simps(2)
    by (simp del: base64_loop.simps)
next
  case (4 a b c rest wo lim)
  have l: "lim = wo + 4 + b64_lim (length rest)" using 4(3) by (simp add: b64_lim_simps)
  have "base64_loop (base64_encode_loop (a # b # c # rest) wo lim) olen (b64_st 0 0 3 out) =
      base64_loop (base64_encode_loop rest (wo + 4) lim) olen (b64_st 0 0 3 (out @ [a, b, c]))"
    using decode_quad3 [of out olen wo lim a b c "base64_encode_loop rest (wo + 4) lim"] 4(2) l
    by (simp del: base64_loop.simps)
  then show ?case using 4(1) [of "out @ [a, b, c]"] 4(2) l by (simp del: base64_loop.simps)
qed simp

lemma c_int_small:
  assumes "unat x < 2 ^ 31"
  shows "c_int x = int (unat x)"
proof -
  have "unat (ucast x :: u32) = unat x" using assms by (simp add: unsigned_ucast_eq take_bit_nat_eq_self)
  then have u: "uint (ucast x :: u32) = int (unat x)" by (metis uint_nat)
  have "int (unat x) < int (2 ^ 31)" using assms by (simp only: of_nat_less_iff)
  then have "signed_take_bit 31 (int (unat x)) = int (unat x)"
    by (intro signed_take_bit_int_eq_self) (simp_all add: order_trans [OF _ uint_ge_0])
  then show ?thesis by (simp add: c_int_def sint_uint u)
qed

text \<open>
  A byte string survives \<open>wireguard_base64_encode\<close> followed by \<open>wireguard_base64_decode\<close>: the
  encoder succeeds whenever the buffer has room for the text and its terminator, writes four
  characters per started group of three bytes, and the decoder accepts the text and returns the
  string when its buffer is large enough. (Keys are stored as base64 text by the configuration.)
\<close>

theorem base64_roundtrip:
  assumes "length inp < 2 ^ 29" and "4 * ((length inp + 2) div 3) < size_out"
    and "length inp \<le> unat outlen" and "unat outlen < 2 ^ 31"
  shows "\<exists>s. wireguard_base64_encode inp size_out = Some (s @ [0]) \<and>
    length s = 4 * ((length inp + 2) div 3) \<and>
    wireguard_base64_decode (Some s) outlen = (True, of_nat (length inp), inp)"
proof -
  let ?s = "base64_encode_loop inp 0 (b64_lim (length inp))"
  have e: "wireguard_base64_encode inp size_out = Some (?s @ [0])"
    using assms(2) by (simp only: wireguard_base64_encode_def Let_def b64_lim_eq if_True)
  have l: "length ?s < 2 ^ 31" using assms(1) by (simp add: length_encode_loop)
  then have u: "unat (of_nat (length ?s) :: u64) = length ?s" by (simp add: unat_of_nat)
  have i: "c_int (of_nat (length ?s)) = int (length ?s)" using l u by (simp add: c_int_small)
  obtain bc where d: "base64_loop ?s (c_int outlen) (b64_st 0 0 3 []) = (True, b64_st 0 0 bc inp)"
    using decode_encode_loop [of "[]" inp "c_int outlen" "b64_lim (length inp)" 0] assms(3)
      c_int_small [OF assms(4)] by (metis add_0 append_Nil list.size(3) of_nat_le_iff)
  have "wireguard_base64_decode (Some ?s) outlen = (True, of_nat (length inp), inp)"
    unfolding wireguard_base64_decode_def option.case Let_def i by (simp add: d)
  then show ?thesis using e length_encode_loop by blast
qed

theorem base64_roundtrip_witness:
  "\<exists>s. wireguard_base64_encode (replicate 32 7) 45 = Some (s @ [0]) \<and>
     length s = 4 * ((length (replicate 32 (7 :: u8)) + 2) div 3) \<and>
     wireguard_base64_decode (Some s) 32 = (True, of_nat (length (replicate 32 (7 :: u8))), replicate 32 7)"
  by (rule base64_roundtrip) simp_all

section \<open>Bounds of the output\<close>

text \<open>Padding only goes on; after the block with padding there is none that can be completed.\<close>

definition b64_inv :: "int \<Rightarrow> base64_state \<Rightarrow> bool" where
  "b64_inv olen st \<longleftrightarrow> unat (b64_char_count st) < 4 \<and> 0 \<le> b64_byte_count st \<and> b64_byte_count st \<le> 3 \<and>
     int (length (b64_out st)) \<le> olen \<and>
     (if b64_byte_count st = 3 then length (b64_out st) mod 3 = 0
      else length (b64_out st) mod 3 = 0 \<or> int (unat (b64_char_count st)) + b64_byte_count st \<le> 2)"

lemma b64_bits_inv:
  assumes "b64_inv olen st" and "base64_bits c st = Some (bits, st')"
  shows "unat (b64_char_count st') = unat (b64_char_count st)" and "b64_out st' = b64_out st"
    and "0 \<le> b64_byte_count st'" and "b64_byte_count st' \<le> 3"
    and "b64_byte_count st' = 3 \<Longrightarrow> length (b64_out st) mod 3 = 0"
    and "length (b64_out st) mod 3 = 0 \<or> int (unat (b64_char_count st)) + b64_byte_count st' \<le> 1"
  using assms unfolding b64_inv_def base64_bits_def Let_def
  by (auto split: if_splits option.splits)

lemma b64_push_inv:
  assumes len: "unat (b64_char_count st) < 4" "0 \<le> b64_byte_count st" "b64_byte_count st \<le> 3"
      "int (length (b64_out st)) \<le> olen"
    and three: "b64_byte_count st = 3 \<Longrightarrow> length (b64_out st) mod 3 = 0"
    and pad: "length (b64_out st) mod 3 = 0 \<or> int (unat (b64_char_count st)) + b64_byte_count st \<le> 1"
    and olen: "olen mod 3 \<noteq> 0" and push: "base64_push bits olen st = Some st'"
  shows "b64_inv olen st'"
proof -
  have n: "unat (b64_char_count st + 1) = unat (b64_char_count st) + 1"
    using len(1) by (simp add: unat_word_ariths)
  show ?thesis
  proof (cases "b64_char_count st + 1 = 4")
    case True
    then have c: "unat (b64_char_count st) = 3" using n by simp
    then have m: "length (b64_out st) mod 3 = 0" using pad len(2) by auto
    have le: "int (length (b64_out st)) + b64_byte_count st \<le> olen"
      using push True by (simp add: base64_push_def Let_def split: if_splits)
    have lt: "int (length (b64_out st)) < olen" using m len(4) olen by presburger
    obtain bs where st': "st' = st\<lparr>b64_out := b64_out st @ bs, b64_char_count := 0, b64_accum := 0\<rparr>"
      and bs: "int (length bs) = max 1 (b64_byte_count st)"
    proof
      let ?acc = "push_bit 6 (b64_accum st) OR ucast bits"
      let ?bs = "[ucast (drop_bit 16 ?acc AND 0xFF)] @
        (if b64_byte_count st > 1 then [ucast (drop_bit 8 ?acc AND 0xFF)] else []) @
        (if b64_byte_count st > 2 then [ucast (?acc AND 0xFF)] else [])"
      show "st' = st\<lparr>b64_out := b64_out st @ ?bs, b64_char_count := 0, b64_accum := 0\<rparr>"
        using push True le unfolding base64_push_def Let_def
        by (simp cong: if_cong split del: if_split)
      show "int (length ?bs) = max 1 (b64_byte_count st)" using len(2,3) by simp
    qed
    have "b64_byte_count st = 3 \<Longrightarrow> length bs = 3" using bs by simp
    moreover have "int (length (b64_out st @ bs)) \<le> olen" using bs le lt by simp
    ultimately show ?thesis using len(2,3) m by (simp add: st' b64_inv_def)
  next
    case False
    then have "unat (b64_char_count st + 1) \<noteq> unat (4 :: u8)" unfolding word_unat_eq_iff .
    then have c: "unat (b64_char_count st) < 3" using n len(1) by simp
    have st': "st' = st\<lparr>b64_accum := push_bit 6 (b64_accum st) OR ucast bits,
        b64_char_count := b64_char_count st + 1\<rparr>"
      using push False unfolding base64_push_def Let_def by simp
    have "int (unat (b64_char_count st + 1)) = int (unat (b64_char_count st)) + 1" unfolding n by simp
    then show ?thesis using n c len(2-4) three pad unfolding b64_inv_def st'
      by (simp del: of_nat_unat)
  qed
qed

lemma b64_loop_inv:
  assumes "b64_inv olen st" and "olen mod 3 \<noteq> 0"
  shows "int (length (b64_out (snd (base64_loop cs olen st)))) \<le> olen"
  using assms
proof (induction cs arbitrary: st)
  case (Cons c cs)
  have l: "int (length (b64_out st)) \<le> olen" "unat (b64_char_count st) < 4"
    using Cons.prems(1) by (auto simp: b64_inv_def)
  show ?case
  proof (cases "base64_bits c st")
    case (Some r)
    obtain bits st1 where r: "r = (bits, st1)" by (cases r)
    note b = b64_bits_inv [OF Cons.prems(1) Some [unfolded r]]
    show ?thesis
    proof (cases "base64_push bits olen st1")
      case None
      then show ?thesis using Some r b(2) l(1) by simp
    next
      case st2: (Some st2)
      have "b64_inv olen st2"
        using b l by (intro b64_push_inv [OF _ b(3,4) _ _ _ Cons.prems(2) st2]) simp_all
      from Cons.IH [OF this Cons.prems(2)] show ?thesis using Some r st2 by simp
    qed
  qed (use l in simp)
qed (simp add: b64_inv_def)

text \<open>
  Whatever text it is given, \<open>wireguard_base64_decode\<close> stores no byte outside a buffer whose
  size is not a multiple of three; every caller decodes a key into a buffer of 32 bytes.
\<close>

theorem base64_decode_in_bounds:
  assumes "unat outlen < 2 ^ 31" and "unat outlen mod 3 \<noteq> 0"
  shows "length (snd (snd (wireguard_base64_decode str outlen))) \<le> unat outlen"
proof (cases str)
  case (Some s)
  have c: "c_int outlen = int (unat outlen)" using assms(1) by (rule c_int_small)
  have m: "c_int outlen mod 3 \<noteq> 0" unfolding c using assms(2) by presburger
  have "b64_inv (c_int outlen) (b64_st 0 0 3 [])" by (simp add: b64_inv_def c)
  from b64_loop_inv [OF this m] show ?thesis
    unfolding c Some wireguard_base64_decode_def option.case
    by (simp only: Let_def case_prod_beta snd_conv of_nat_le_iff)
qed (simp add: wireguard_base64_decode_def)

theorem base64_decode_in_bounds_witness:
  "length (snd (snd (wireguard_base64_decode (Some (replicate 44 65)) 32))) \<le> unat (32 :: u64)"
  by (rule base64_decode_in_bounds) simp_all

text \<open>
  The bound test compares with the number of bytes the padding leaves, but the first byte of a
  block is always stored: \<open>A===\<close> is accepted, and with three bytes decoded into a buffer of three
  bytes a fourth is stored behind it.
\<close>

theorem base64_decode_overflows_by_one:
  "wireguard_base64_decode (Some [65, 65, 65, 65, 65, 61, 61, 61]) 3 = (True, 4, [0, 0, 0, 0])"
  by code_simp

end
