(* ===== verification/Iface_Config.thy ===== *)
theory Iface_Config
  imports Iface_Delivery Confmgr Wg_Base64
begin

text \<open>
  The configuration of the interface layer in \<open>linux/mudband.c\<close>: adding peers, reusing the state of
  peers that are configured as before, the access control list, the initialisation of the device and
  the synchronisation with the active configuration. \<open>None\<close> is a failed assertion or an access outside
  an array; \<open>dh\<close> is the Diffie-Hellman function.
\<close>

section \<open>Peers to be added\<close>

definition WIREGUARD_IFACE_DEFAULT_PORT :: u16 where "WIREGUARD_IFACE_DEFAULT_PORT = 51820"
definition WIREGUARD_IFACE_KEEPALIVE_DEFAULT :: u16 where "WIREGUARD_IFACE_KEEPALIVE_DEFAULT = 0xFFFF"

definition wireguard_iface_peer_init :: wireguard_iface_peer where
  "wireguard_iface_peer_init = \<lparr>if_public_key = None, if_preshared_key = None,
     if_greatest_timestamp = replicate 12 0, if_iface_addr = 0, if_allowed_ip = 0, if_allowed_mask = 0,
     if_endpoints = replicate 16 \<lparr>ie_is_proxy = False, ie_ip = 0, ie_port = WIREGUARD_IFACE_DEFAULT_PORT\<rparr>,
     if_n_endpoints = 0, if_keep_alive = WIREGUARD_IFACE_KEEPALIVE_DEFAULT,
     if_otp_enabled = False, if_otp_sender = 0, if_otp_receiver = [0, 0, 0]\<rparr>"

definition wireguard_iface_peer_add_ip :: "wireguard_peer \<Rightarrow> u32 \<Rightarrow> u32 \<Rightarrow> bool \<times> wireguard_peer" where
  "wireguard_iface_peer_add_ip peer ip msk =
     (if \<exists>allowed \<in> set (allowed_source_ips peer). ip_valid allowed \<and> ip_ip allowed = ip \<and> ip_mask allowed = msk
      then (True, peer)
      else case find_index (\<lambda>allowed. \<not> ip_valid allowed) (allowed_source_ips peer) of
        Some x \<Rightarrow> (True, peer\<lparr>allowed_source_ips :=
                     (allowed_source_ips peer)[x := \<lparr>ip_valid = True, ip_ip = ip, ip_mask = msk\<rparr>]\<rparr>)
      | None \<Rightarrow> (False, peer))"

definition wireguard_iface_otp_reusable :: "wireguard_peer \<Rightarrow> wireguard_iface_peer \<Rightarrow> bool" where
  "wireguard_iface_otp_reusable peer p \<longleftrightarrow>
     otp_enabled peer = if_otp_enabled p \<and> otp_sender peer = if_otp_sender p \<and>
     list_all (\<lambda>i. otp_receiver peer ! i = if_otp_receiver p ! i) [0..<3]"

definition wireguard_iface_otp_update :: "wireguard_peer \<Rightarrow> wireguard_iface_peer \<Rightarrow> wireguard_peer" where
  "wireguard_iface_otp_update peer p =
     peer\<lparr>otp_enabled := if_otp_enabled p, otp_sender := if_otp_sender p,
          otp_receiver := map (\<lambda>i. if_otp_receiver p ! i) [0..<3]\<rparr>"

text \<open>The key of a configured peer; \<open>None\<close> where decoding fails or gives another length.\<close>

definition iface_public_key :: "wireguard_iface_peer \<Rightarrow> bytes option" where
  "iface_public_key p =
     (let (r, public_key_len, public_key) = wireguard_base64_decode (map_option bytes_of_string (if_public_key p)) 32
      in if \<not> r \<or> public_key_len \<noteq> 32 then None else Some public_key)"

definition wireguard_iface_reusable_old_peer_by_pubkey :: "wireguard_peer list \<Rightarrow> bytes \<Rightarrow> nat option" where
  "wireguard_iface_reusable_old_peer_by_pubkey peers public_key =
     find_index (\<lambda>tmp. peer_valid tmp \<and> peer_public_key tmp = public_key) peers"

definition same_endpoint :: "endpoint \<Rightarrow> iface_endpoint \<Rightarrow> bool" where
  "same_endpoint e i \<longleftrightarrow> ep_is_proxy e = ie_is_proxy i \<and> ep_ip e = ie_ip i \<and> ep_port e = ie_port i"

text \<open>Both arrays have 16 entries; the comparison ends at the first difference.\<close>

definition wireguard_iface_reusable_old_peer ::
  "wireguard_peer list \<Rightarrow> wireguard_iface_peer \<Rightarrow> nat option" where
  "wireguard_iface_reusable_old_peer peers p =
     (case iface_public_key p of
        None \<Rightarrow> None
      | Some public_key \<Rightarrow>
          (case wireguard_iface_reusable_old_peer_by_pubkey peers public_key of
             None \<Rightarrow> None
           | Some x \<Rightarrow>
               let peer = peers ! x in
               if n_endpoints peer \<noteq> if_n_endpoints p then None
               else if \<not> list_all (\<lambda>i. same_endpoint (endpoints peer ! i) (if_endpoints p ! i))
                          [0..<unat (n_endpoints peer)] then None
               else if \<not> wireguard_iface_otp_reusable peer p then None
               else Some x))"

definition WIREGUARD_REKEY_TIMEOUT :: u16 where "WIREGUARD_REKEY_TIMEOUT = 5"
definition WIREGUARD_REKEY_AFTER_TIME :: u16 where "WIREGUARD_REKEY_AFTER_TIME = 120"
definition WIREGUARD_REJECT_AFTER_TIME :: u16 where "WIREGUARD_REJECT_AFTER_TIME = 180"
definition WIREGUARD_KEEPALIVE_TIMEOUT :: u16 where "WIREGUARD_KEEPALIVE_TIMEOUT = 25"

definition wireguard_iface_timeout_update :: "wireguard_peer \<Rightarrow> world \<Rightarrow> (wireguard_peer \<times> world) option" where
  "wireguard_iface_timeout_update peer w = do {
     (a, w) \<leftarrow> wireguard_random_between_uint16 0 WIREGUARD_REKEY_TIMEOUT w;
     (b, w) \<leftarrow> wireguard_random_between_uint16 0 (WIREGUARD_REKEY_AFTER_TIME div 3) w;
     (c, w) \<leftarrow> wireguard_random_between_uint16 0 (WIREGUARD_REJECT_AFTER_TIME div 3) w;
     let peer = peer\<lparr>timeout_rekey := WIREGUARD_REKEY_TIMEOUT + a,
                     timeout_rekey_after_time := WIREGUARD_REKEY_AFTER_TIME + b,
                     timeout_reject_after_time := WIREGUARD_REJECT_AFTER_TIME + c\<rparr>;
     if int (unat (timeout_reject_after_time peer)) - int (unat (keepalive_interval peer)) -
          int (unat (timeout_rekey peer)) > 0 \<and>
        int (unat (timeout_reject_after_time peer)) - int (unat (keepalive_interval peer)) > 0
     then Some (peer, w) else None }"

section \<open>Adding a peer\<close>

text \<open>What \<open>add_peer\<close> does with the slot after \<open>wireguard_peer_init\<close>. The loop over the endpoints
  leaves the arrays if there are more than 16.\<close>

definition configure_peer ::
  "wireguard_peer \<Rightarrow> wireguard_iface_peer \<Rightarrow> world \<Rightarrow> (wireguard_peer \<times> world) option" where
  "configure_peer peer p w =
     (let peer = wireguard_iface_otp_update peer p;
          n = unat (if_n_endpoints p) in
      if \<not> (n \<le> length (if_endpoints p) \<and> n \<le> length (endpoints peer)) then None
      else do {
        let es = map (\<lambda>i. \<lparr>ep_alive = False, ep_is_proxy = ie_is_proxy (if_endpoints p ! i),
                   ep_ip = ie_ip (if_endpoints p ! i), ep_port = ie_port (if_endpoints p ! i)\<rparr>) [0..<n] @
                 drop n (endpoints peer);
        let peer = peer\<lparr>peer_iface_addr := if_iface_addr p, endpoints := es, n_endpoints := if_n_endpoints p,
              endpoint_latest_ip := ep_ip (es ! 0), endpoint_latest_port := ep_port (es ! 0),
              endpoint_latest_is_proxy := ep_is_proxy (es ! 0),
              keepalive_interval := (if if_keep_alive p = WIREGUARD_IFACE_KEEPALIVE_DEFAULT
                then WIREGUARD_KEEPALIVE_TIMEOUT else if_keep_alive p)\<rparr>;
        (peer, w) \<leftarrow> wireguard_iface_timeout_update peer w;
        let (r, peer) = wireguard_iface_peer_add_ip peer (if_allowed_ip p) (if_allowed_mask p);
        if r then Some (peer\<lparr>greatest_timestamp := if_greatest_timestamp p\<rparr>, w) else None })"

text \<open>The return value and \<open>*peer_index\<close> (\<open>None\<close> is \<open>WIREGUARD_IFACE_INVALID_INDEX\<close>).\<close>

definition wireguard_iface_add_peer ::
  "(bytes \<Rightarrow> bytes \<Rightarrow> bytes) \<Rightarrow> wireguard_device \<Rightarrow> wireguard_iface_peer \<Rightarrow> world \<Rightarrow>
     (int \<times> nat option \<times> wireguard_device \<times> world) option" where
  "wireguard_iface_add_peer dh device p w =
     (case iface_public_key p of
        None \<Rightarrow> Some (-1, None, device, w)
      | Some public_key \<Rightarrow>
          (case wireguard_peer_lookup_by_pubkey device public_key of
             Some i \<Rightarrow> Some (0, Some i, device, w)
           | None \<Rightarrow>
               (case wireguard_peer_alloc device of
                  None \<Rightarrow> Some (-1, None, device, w)
                | Some i \<Rightarrow>
                    let peer = wireguard_peer_init dh device public_key (if_preshared_key p) in
                    if \<not> peer_valid peer then Some (-1, None, upd_peer i peer device, w)
                    else do {
                      (peer, w) \<leftarrow> configure_peer peer p w;
                      Some (0, Some i, upd_peer i peer device, w) })))"

text \<open>The inner \<open>None\<close> is the return of -1.\<close>

definition wireguard_iface_lookup_peer :: "wireguard_device \<Rightarrow> int \<Rightarrow> nat option option" where
  "wireguard_iface_lookup_peer device peer_index =
     (if dev_valid device then wireguard_peer_lookup_by_peer_index device peer_index else Some None)"

definition wireguard_iface_connect :: "wireguard_device \<Rightarrow> int \<Rightarrow> (int \<times> wireguard_device) option" where
  "wireguard_iface_connect device peer_index = do {
     r \<leftarrow> wireguard_iface_lookup_peer device peer_index;
     (case r of
        None \<Rightarrow> Some (-1, device)
      | Some i \<Rightarrow>
          let peer = dev_peers device ! i; e = endpoints peer ! 0 in
          if ep_ip e = 0 \<or> ep_port e = 0 then Some (-1, device)
          else Some (0, upd_peer i (peer\<lparr>peer_active := True, endpoint_latest_ip := ep_ip e,
                 endpoint_latest_port := ep_port e, endpoint_latest_is_proxy := ep_is_proxy e\<rparr>) device)) }"

section \<open>Synchronisation with the configuration\<close>

text \<open>One configured peer: its state is taken over from the old table or it is added. The result has
  the numbers of created, reused and failed peers.\<close>

definition update_peer ::
  "(bytes \<Rightarrow> bytes \<Rightarrow> bytes) \<Rightarrow> wireguard_peer list \<Rightarrow> wireguard_iface_peer \<Rightarrow> wireguard_device \<Rightarrow> world \<Rightarrow>
     ((nat \<times> nat \<times> nat) \<times> wireguard_device \<times> world) option" where
  "update_peer dh old_peers iface_peer device w =
     (case wireguard_iface_reusable_old_peer old_peers iface_peer of
        None \<Rightarrow> do {
          (r, peer_index, device, w) \<leftarrow> wireguard_iface_add_peer dh device iface_peer w;
          if r \<noteq> 0 then Some ((0, 0, 1), device, w)
          else do {
            i \<leftarrow> peer_index;
            (r, device) \<leftarrow> wireguard_iface_connect device (int i);
            Some (if r \<noteq> 0 then (0, 0, 1) else (1, 0, 0), device, w) } }
      | Some x \<Rightarrow> do {
          i \<leftarrow> wireguard_peer_alloc device;
          (peer, w) \<leftarrow> wireguard_iface_timeout_update (old_peers ! x) w;
          Some ((0, 1, 0), upd_peer i (wireguard_iface_otp_update peer iface_peer) device, w) })"

fun update_peers ::
  "(bytes \<Rightarrow> bytes \<Rightarrow> bytes) \<Rightarrow> json \<Rightarrow> wireguard_peer list \<Rightarrow> nat list \<Rightarrow> wireguard_device \<Rightarrow> world \<Rightarrow>
     ((nat \<times> nat \<times> nat) \<times> wireguard_device \<times> world) option" where
  "update_peers dh jroot old_peers [] device w = Some ((0, 0, 0), device, w)"
| "update_peers dh jroot old_peers (i # is) device w = do {
     (r, iface_peer) \<leftarrow> CNF_fill_iface_peer jroot wireguard_iface_peer_init i;
     if r \<noteq> 0 then None
     else do {
       ((c, u, f), device, w) \<leftarrow> update_peer dh old_peers iface_peer device w;
       ((cs, us, fs), device, w) \<leftarrow> update_peers dh jroot old_peers is device w;
       Some ((c + cs, u + us, f + fs), device, w) } }"

definition wireguard_iface_peers_update ::
  "(bytes \<Rightarrow> bytes \<Rightarrow> bytes) \<Rightarrow> wireguard_device \<Rightarrow> json \<Rightarrow> world \<Rightarrow>
     ((nat \<times> nat \<times> nat) \<times> wireguard_device \<times> world) option" where
  "wireguard_iface_peers_update dh device jroot w = do {
     n_peers \<leftarrow> CNF_get_peer_size jroot;
     if n_peers = 0 then Some ((0, 0, 0), device\<lparr>dev_peers := []\<rparr>, w)
     else if n_peers > 0
     then update_peers dh jroot (dev_peers device) [0..<nat n_peers]
            (device\<lparr>dev_peers := replicate (nat n_peers) peer_zero\<rparr>) w
     else None }"

definition wireguard_iface_bpf_update :: "wireguard_device \<Rightarrow> json \<Rightarrow> wireguard_device option" where
  "wireguard_iface_bpf_update device jroot = do {
     acl \<leftarrow> CNF_acl_build jroot;
     Some (case acl of None \<Rightarrow> device | Some acl \<Rightarrow> device\<lparr>dev_acl := acl\<rparr>) }"

text \<open>The result of \<open>CNF_get\<close> is not tested: without an active configuration the pointer is not set.\<close>

definition wireguard_iface_sync ::
  "(bytes \<Rightarrow> bytes \<Rightarrow> bytes) \<Rightarrow> u64 \<Rightarrow> wireguard_device \<Rightarrow> cnf_state \<Rightarrow> world \<Rightarrow>
     (wireguard_device \<times> cnf_state \<times> world) option" where
  "wireguard_iface_sync dh time device cnfs w = do {
     (_, cf, cnfs) \<leftarrow> CNF_get time cnfs;
     cf \<leftarrow> cf;
     cnf \<leftarrow> map_of (cnf_head cnfs) cf;
     (_, device, w) \<leftarrow> wireguard_iface_peers_update dh device (cnf_jroot cnf) w;
     device \<leftarrow> wireguard_iface_bpf_update device (cnf_jroot cnf);
     cnfs \<leftarrow> CNF_rel cf cnfs;
     Some (device, cnfs, w) }"

text \<open>The device that \<open>calloc\<close> clears; the access control list is empty with policy \<open>ALLOW\<close>.\<close>

definition device_zero :: wireguard_device where
  "device_zero = \<lparr>dev_iface_addr = 0, dev_public_key = replicate 32 0, dev_private_key = replicate 32 0,
     cookie_secret = replicate 32 0, cookie_secret_millis = 0, dev_label_cookie_key = replicate 32 0,
     dev_label_mac1_key = replicate 32 0, dev_peers = [],
     dev_acl = \<lparr>acl_programs = replicate 64 \<lparr>insns = replicate 256 insn_zero, n_insns = 0\<rparr>,
                acl_n_programs = 0, acl_default_policy = WIREGUARD_ACL_POLICY_ALLOW\<rparr>,
     dev_valid = False\<rparr>"

text \<open>\<open>None\<close> for the device is the return of \<open>NULL\<close>.\<close>

definition wireguard_iface_init ::
  "(bytes \<Rightarrow> bytes \<Rightarrow> bytes) \<Rightarrow> bytes option \<Rightarrow> string \<Rightarrow> world \<Rightarrow> wireguard_device option \<times> world" where
  "wireguard_iface_init dh private_key_text private_ip w =
     (let (r, private_key_len, private_key) = wireguard_base64_decode private_key_text 32 in
      if \<not> r then (None, w)
      else if private_key_len \<noteq> 32 then (None, w)
      else let device = device_zero\<lparr>dev_iface_addr := inet_addr private_ip\<rparr>;
               (device, w) = wireguard_device_init dh device private_key w
           in if dev_valid device then (Some device, w) else (None, w))"

section \<open>Timeouts\<close>

definition timeouts_ok :: "wireguard_peer \<Rightarrow> bool" where
  "timeouts_ok p \<longleftrightarrow> unat (timeout_rekey p) \<in> {5..<10} \<and> unat (timeout_rekey_after_time p) \<in> {120..<160} \<and>
     unat (timeout_reject_after_time p) \<in> {180..<240}"

lemma random_between:
  assumes "b > 0"
  shows "\<exists>r w'. wireguard_random_between_uint16 0 b w = Some (r, w') \<and> unat r < unat b"
proof -
  have b: "0 < unat b" using assms by (simp add: unat_gt_0 word_gt_0)
  have "unat (of_nat (w_rand w (w_rand_pos w) mod unat b) :: u16) < unat b"
    unfolding unat_of_nat by (rule le_less_trans [OF mod_less_eq_dividend mod_less_divisor [OF b]])
  then show ?thesis using assms by (simp add: wireguard_random_between_uint16_def rand_def Let_def)
qed

lemma unat_plus_u16: "unat (a :: u16) + unat b < 65536 \<Longrightarrow> unat (a + b) = unat a + unat b"
  by (simp add: unat_word_ariths)

lemma timeout_update_total:
  assumes k: "unat (keepalive_interval peer) \<le> 170"
  shows "\<exists>a b c w'. wireguard_iface_timeout_update peer w = Some (peer\<lparr>timeout_rekey := a,
      timeout_rekey_after_time := b, timeout_reject_after_time := c\<rparr>, w') \<and>
    timeouts_ok (peer\<lparr>timeout_rekey := a, timeout_rekey_after_time := b, timeout_reject_after_time := c\<rparr>)"
proof -
  obtain a w1 where a: "wireguard_random_between_uint16 0 5 w = Some (a, w1)" "unat a < 5"
    using random_between [of 5 w] by auto
  obtain b w2 where b: "wireguard_random_between_uint16 0 40 w1 = Some (b, w2)" "unat b < 40"
    using random_between [of 40 w1] by auto
  obtain c w3 where c: "wireguard_random_between_uint16 0 60 w2 = Some (c, w3)" "unat c < 60"
    using random_between [of 60 w2] by auto
  have s: "unat (5 + a) = 5 + unat a" "unat (120 + b) = 120 + unat b" "unat (180 + c) = 180 + unat c"
    using a(2) b(2) c(2) by (simp_all add: unat_plus_u16)
  have d: "(120 :: u16) div 3 = 40" "(180 :: u16) div 3 = 60" by simp_all
  let ?p = "peer\<lparr>timeout_rekey := 5 + a, timeout_rekey_after_time := 120 + b, timeout_reject_after_time := 180 + c\<rparr>"
  have t: "timeouts_ok ?p" using a(2) b(2) c(2) s by (simp add: timeouts_ok_def)
  have f: "timeout_reject_after_time ?p = 180 + c" "keepalive_interval ?p = keepalive_interval peer"
      "timeout_rekey ?p = 5 + a" by simp_all
  have "int (unat (180 + c)) - int (unat (keepalive_interval peer)) - int (unat (5 + a)) > 0"
      "int (unat (180 + c)) - int (unat (keepalive_interval peer)) > 0"
    unfolding s using k a(2) by linarith+
  then have "wireguard_iface_timeout_update peer w = Some (?p, w3)"
    unfolding wireguard_iface_timeout_update_def WIREGUARD_REKEY_TIMEOUT_def WIREGUARD_REKEY_AFTER_TIME_def
      WIREGUARD_REJECT_AFTER_TIME_def d a(1) b(1) c(1) Option.bind.bind_lunit prod.case Let_def
    unfolding f by simp
  with t show ?thesis by blast
qed

section \<open>Configured peers\<close>

definition peer_ok :: "wireguard_peer \<Rightarrow> bool" where
  "peer_ok p \<longleftrightarrow> (peer_valid p \<longrightarrow>
     timeouts_ok p \<and> keepalive_interval p \<in> {0, 25} \<and> unat (n_endpoints p) \<le> 16 \<and> length (endpoints p) = 16 \<and>
     length (otp_receiver p) = 3)"

definition iface_peer_ok :: "wireguard_iface_peer \<Rightarrow> bool" where
  "iface_peer_ok p \<longleftrightarrow> if_keep_alive p \<in> {0, 0xFFFF} \<and> unat (if_n_endpoints p) \<le> 16 \<and> length (if_endpoints p) = 16"

lemma fill_endpoints_ok:
  assumes "fill_endpoints both_open js p = Some q" and "iface_peer_ok p"
  shows "iface_peer_ok q"
  using assms
proof (induction js arbitrary: p)
  case (Cons j js)
  let ?step = "\<lambda>e. p\<lparr>if_endpoints := (if_endpoints p)[unat (if_n_endpoints p) := e], if_n_endpoints := if_n_endpoints p + 1\<rparr>"
  have "iface_peer_ok (?step e)" if "unat (if_n_endpoints p) < 16" for e
    using that Cons.prems(2) by (auto simp: iface_peer_ok_def unat_word_ariths)
  then show ?case
    using Cons.prems Cons.IH by (auto simp: bind_eq_Some_conv iface_peer_ok_def split: if_splits)
qed simp

lemma fill_peer_ok:
  assumes "fill_peer j nt p = Some q" and p: "iface_peer_ok p"
  shows "iface_peer_ok q"
proof -
  obtain both js p1 q1 where f: "fill_endpoints both js p1 = Some q1" "p1 = p \<or> p1 = p\<lparr>if_keep_alive := 0\<rparr>"
      "if_keep_alive q = if_keep_alive q1 \<and> if_endpoints q = if_endpoints q1 \<and> if_n_endpoints q = if_n_endpoints q1"
    using assms(1) unfolding fill_peer_def Let_def bind_eq_Some_conv by (auto simp: bind_eq_Some_conv split: if_splits)
  have "iface_peer_ok p1" using f(2) p by (auto simp: iface_peer_ok_def)
  with fill_endpoints_ok [OF f(1)] f(3) show ?thesis by (simp add: iface_peer_ok_def)
qed

lemma fill_iface_peer_ok:
  assumes "CNF_fill_iface_peer jroot wireguard_iface_peer_init i = Some (r, p)"
  shows "iface_peer_ok p"
proof -
  have "iface_peer_ok wireguard_iface_peer_init"
    by (simp add: iface_peer_ok_def wireguard_iface_peer_init_def WIREGUARD_IFACE_KEEPALIVE_DEFAULT_def)
  moreover obtain j nt where "p = wireguard_iface_peer_init \<or> fill_peer j nt wireguard_iface_peer_init = Some p"
    using assms unfolding CNF_fill_iface_peer_def by (auto simp: bind_eq_Some_conv split: option.splits)
  ultimately show ?thesis using fill_peer_ok by blast
qed

section \<open>Peers as they are configured\<close>

text \<open>The entry \<open>q\<close> has the key, the endpoints and the one-time passwords that are configured.\<close>

definition as_configured :: "wireguard_iface_peer \<Rightarrow> wireguard_peer \<Rightarrow> bool" where
  "as_configured p q \<longleftrightarrow> peer_valid q \<and> iface_public_key p = Some (peer_public_key q) \<and>
     n_endpoints q = if_n_endpoints p \<and>
     (\<forall>j < unat (if_n_endpoints p). ep_is_proxy (endpoints q ! j) = ie_is_proxy (if_endpoints p ! j) \<and>
        ep_ip (endpoints q ! j) = ie_ip (if_endpoints p ! j) \<and> ep_port (endpoints q ! j) = ie_port (if_endpoints p ! j)) \<and>
     otp_enabled q = if_otp_enabled p \<and> otp_sender q = if_otp_sender p \<and>
     (\<forall>j < 3. otp_receiver q ! j = if_otp_receiver p ! j)"

lemma as_configuredD:
  "as_configured p q \<Longrightarrow> peer_valid q" "as_configured p q \<Longrightarrow> iface_public_key p = Some (peer_public_key q)"
  by (simp_all add: as_configured_def)

text \<open>A new entry also has the address and the keep-alive interval that are configured, starts with the first
  endpoint, and has no session.\<close>

definition fresh_peer :: "wireguard_iface_peer \<Rightarrow> wireguard_peer \<Rightarrow> bool" where
  "fresh_peer p q \<longleftrightarrow> peer_iface_addr q = if_iface_addr p \<and>
     allowed_source_ips q = [\<lparr>ip_valid = True, ip_ip = if_allowed_ip p, ip_mask = if_allowed_mask p\<rparr>,
                             \<lparr>ip_valid = False, ip_ip = 0, ip_mask = 0\<rparr>] \<and>
     keepalive_interval q = (if if_keep_alive p = 0xFFFF then 25 else if_keep_alive p) \<and>
     curr_keypair q = keypair_zero \<and> prev_keypair q = keypair_zero \<and> next_keypair q = keypair_zero \<and>
     endpoint_latest_ip q = ep_ip (endpoints q ! 0) \<and> endpoint_latest_port q = ep_port (endpoints q ! 0) \<and>
     endpoint_latest_is_proxy q = ep_is_proxy (endpoints q ! 0) \<and>
     (peer_active q \<longleftrightarrow> ep_ip (endpoints q ! 0) \<noteq> 0 \<and> ep_port (endpoints q ! 0) \<noteq> 0)"

definition retimed :: "wireguard_peer \<Rightarrow> wireguard_peer \<Rightarrow> bool" where
  "retimed q q' \<longleftrightarrow> (\<exists>a b c. q' = q\<lparr>timeout_rekey := a, timeout_rekey_after_time := b, timeout_reject_after_time := c\<rparr>)"

text \<open>The entry of a configured peer: that of the old table with new timeouts if there is one as configured,
  otherwise a new one.\<close>

definition installed :: "wireguard_peer list \<Rightarrow> wireguard_iface_peer \<Rightarrow> wireguard_peer \<Rightarrow> bool" where
  "installed old p q \<longleftrightarrow> as_configured p q \<and> timeouts_ok q \<and>
     (if \<exists>e \<in> set old. as_configured p e then \<exists>e \<in> set old. as_configured p e \<and> retimed e q else fresh_peer p q)"

lemma peer_init_zero:
  "endpoints (wireguard_peer_init dh device k psk) = endpoints peer_zero"
  "allowed_source_ips (wireguard_peer_init dh device k psk) = allowed_source_ips peer_zero"
  "peer_valid (wireguard_peer_init dh device k psk) \<Longrightarrow> peer_public_key (wireguard_peer_init dh device k psk) = k"
  by (auto simp: wireguard_peer_init_def peer_zero_def Let_def split: if_splits)

text \<open>The entry that \<open>configure_peer\<close> makes, with the timeouts \<open>a\<close>, \<open>b\<close> and \<open>c\<close>.\<close>

definition configured_endpoints :: "wireguard_iface_peer \<Rightarrow> endpoint list" where
  "configured_endpoints p = map (\<lambda>i. \<lparr>ep_alive = False, ep_is_proxy = ie_is_proxy (if_endpoints p ! i),
       ep_ip = ie_ip (if_endpoints p ! i), ep_port = ie_port (if_endpoints p ! i)\<rparr>) [0..<unat (if_n_endpoints p)] @
     drop (unat (if_n_endpoints p)) (endpoints peer_zero)"

definition configured_entry :: "wireguard_peer \<Rightarrow> wireguard_iface_peer \<Rightarrow> u16 \<Rightarrow> u16 \<Rightarrow> u16 \<Rightarrow> wireguard_peer" where
  "configured_entry peer p a b c = (wireguard_iface_otp_update peer p)\<lparr>peer_iface_addr := if_iface_addr p,
     endpoints := configured_endpoints p, n_endpoints := if_n_endpoints p,
     endpoint_latest_ip := ep_ip (configured_endpoints p ! 0), endpoint_latest_port := ep_port (configured_endpoints p ! 0),
     endpoint_latest_is_proxy := ep_is_proxy (configured_endpoints p ! 0),
     keepalive_interval := (if if_keep_alive p = 0xFFFF then 25 else if_keep_alive p),
     timeout_rekey := a, timeout_rekey_after_time := b, timeout_reject_after_time := c,
     allowed_source_ips := [\<lparr>ip_valid = True, ip_ip = if_allowed_ip p, ip_mask = if_allowed_mask p\<rparr>,
                            \<lparr>ip_valid = False, ip_ip = 0, ip_mask = 0\<rparr>],
     greatest_timestamp := if_greatest_timestamp p\<rparr>"

lemma configure_peer_eq:
  assumes p: "iface_peer_ok p" and e: "endpoints peer = endpoints peer_zero"
    and a: "allowed_source_ips peer = allowed_source_ips peer_zero"
  shows "\<exists>a b c w'. configure_peer peer p w = Some (configured_entry peer p a b c, w') \<and>
    timeouts_ok (configured_entry peer p a b c)"
proof -
  let ?n = "unat (if_n_endpoints p)" and ?es = "configured_endpoints p"
  have eo: "endpoints (wireguard_iface_otp_update peer p) = endpoints peer_zero"
    by (simp add: wireguard_iface_otp_update_def e)
  define q where "q = (wireguard_iface_otp_update peer p)\<lparr>peer_iface_addr := if_iface_addr p, endpoints := ?es,
              n_endpoints := if_n_endpoints p,
              endpoint_latest_ip := ep_ip (?es ! 0), endpoint_latest_port := ep_port (?es ! 0),
              endpoint_latest_is_proxy := ep_is_proxy (?es ! 0),
              keepalive_interval := (if if_keep_alive p = WIREGUARD_IFACE_KEEPALIVE_DEFAULT
                then WIREGUARD_KEEPALIVE_TIMEOUT else if_keep_alive p)\<rparr>"
  have le: "length (endpoints peer_zero) = 16" by (simp add: peer_zero_def WIREGUARD_PEER_CONNECTS_MAX_def)
  have n: "?n \<le> 16" "length (if_endpoints p) = 16" using p by (simp_all add: iface_peer_ok_def)
  have "keepalive_interval q \<in> {0, 25}"
    using p by (auto simp: q_def iface_peer_ok_def WIREGUARD_IFACE_KEEPALIVE_DEFAULT_def WIREGUARD_KEEPALIVE_TIMEOUT_def)
  then have "unat (keepalive_interval q) \<le> 170" by auto
  then obtain a1 b1 c1 w' where t: "wireguard_iface_timeout_update q w =
      Some (q\<lparr>timeout_rekey := a1, timeout_rekey_after_time := b1, timeout_reject_after_time := c1\<rparr>, w')"
      "timeouts_ok (q\<lparr>timeout_rekey := a1, timeout_rekey_after_time := b1, timeout_reject_after_time := c1\<rparr>)"
    using timeout_update_total by blast
  define q2 where "q2 = q\<lparr>timeout_rekey := a1, timeout_rekey_after_time := b1, timeout_reject_after_time := c1\<rparr>"
  have al: "allowed_source_ips q2 = replicate 2 \<lparr>ip_valid = False, ip_ip = 0, ip_mask = 0\<rparr>"
    using a by (simp add: q2_def q_def wireguard_iface_otp_update_def peer_zero_def WIREGUARD_MAX_SRC_IPS_def)
  have r: "wireguard_iface_peer_add_ip q2 (if_allowed_ip p) (if_allowed_mask p) =
      (True, q2\<lparr>allowed_source_ips := [\<lparr>ip_valid = True, ip_ip = if_allowed_ip p, ip_mask = if_allowed_mask p\<rparr>,
        \<lparr>ip_valid = False, ip_ip = 0, ip_mask = 0\<rparr>]\<rparr>)"
    by (simp add: wireguard_iface_peer_add_ip_def al numeral_2_eq_2)
  have "configure_peer peer p w = Some (configured_entry peer p a1 b1 c1, w')"
    using n le
    unfolding configure_peer_def Let_def eo configured_endpoints_def [symmetric] q_def [symmetric] t(1)
      Option.bind.bind_lunit prod.case q2_def [symmetric] r
    by (simp add: q2_def q_def configured_entry_def WIREGUARD_IFACE_KEEPALIVE_DEFAULT_def WIREGUARD_KEEPALIVE_TIMEOUT_def)
  moreover have "timeouts_ok (configured_entry peer p a1 b1 c1)"
    using t(2) by (simp add: timeouts_ok_def configured_entry_def)
  ultimately show ?thesis by blast
qed

lemma configured_entry_ok:
  assumes p: "iface_peer_ok p" and t: "timeouts_ok (configured_entry peer p a b c)"
  shows "peer_ok (configured_entry peer p a b c)"
    and "peer_public_key (configured_entry peer p a b c) = peer_public_key peer"
    and "peer_valid (configured_entry peer p a b c) = peer_valid peer"
proof -
  have "unat (if_n_endpoints p) \<le> 16" using p by (simp add: iface_peer_ok_def)
  then have "length (configured_endpoints p) = 16"
    by (simp add: configured_endpoints_def peer_zero_def WIREGUARD_PEER_CONNECTS_MAX_def)
  then show "peer_ok (configured_entry peer p a b c)"
    using p t by (auto simp: peer_ok_def iface_peer_ok_def configured_entry_def wireguard_iface_otp_update_def)
qed (simp_all add: configured_entry_def wireguard_iface_otp_update_def)

lemma configured_entry_as_configured:
  assumes "peer_valid peer" and "iface_public_key p = Some (peer_public_key peer)"
  shows "as_configured p (configured_entry peer p a b c)"
  using assms
  by (simp add: as_configured_def configured_entry_def wireguard_iface_otp_update_def configured_endpoints_def nth_append)

lemma configure_peer_total:
  assumes p: "iface_peer_ok p" and e: "endpoints peer = endpoints peer_zero"
    and a: "allowed_source_ips peer = allowed_source_ips peer_zero"
  shows "\<exists>peer' w'. configure_peer peer p w = Some (peer', w') \<and> peer_ok peer' \<and>
    peer_public_key peer' = peer_public_key peer \<and> peer_valid peer' = peer_valid peer"
  using configure_peer_eq [OF p e a] configured_entry_ok [OF p] by blast

section \<open>The peer table\<close>

definition valid_slots :: "wireguard_peer list \<Rightarrow> nat set" where
  "valid_slots ps = {i. i < length ps \<and> peer_valid (ps ! i)}"

definition keys_unique :: "wireguard_peer list \<Rightarrow> bool" where
  "keys_unique ps \<longleftrightarrow> (\<forall>i \<in> valid_slots ps. \<forall>j \<in> valid_slots ps. peer_public_key (ps ! i) = peer_public_key (ps ! j) \<longrightarrow> i = j)"

text \<open>A table of \<open>n\<close> slots after the peers with the keys \<open>K\<close> were processed.\<close>

definition table_ok :: "nat \<Rightarrow> bytes option list \<Rightarrow> wireguard_peer list \<Rightarrow> bool" where
  "table_ok n K ps \<longleftrightarrow> length ps = n \<and> (\<forall>p \<in> set ps. peer_ok p) \<and> card (valid_slots ps) \<le> length K \<and>
     (\<forall>i \<in> valid_slots ps. Some (peer_public_key (ps ! i)) \<in> set K)"

lemma finite_valid_slots [simp]: "finite (valid_slots ps)"
  by (simp add: valid_slots_def)

lemma valid_slots_update:
  "i < length ps \<Longrightarrow> valid_slots (ps[i := q]) = (if peer_valid q then insert i (valid_slots ps) else valid_slots ps - {i})"
  by (auto simp: valid_slots_def nth_list_update)

lemma table_new:
  assumes t: "table_ok n K ps" and i: "i < n" and "\<not> peer_valid (ps ! i)" and q: "peer_ok q"
    and k: "peer_valid q \<Longrightarrow> k = Some (peer_public_key q)"
  shows "table_ok n (K @ [k]) (ps[i := q])"
    and "keys_unique ps \<Longrightarrow> k \<notin> set K \<Longrightarrow> keys_unique (ps[i := q])"
proof -
  have l: "i < length ps" using t i by (simp add: table_ok_def)
  have "card (valid_slots (ps[i := q])) \<le> Suc (card (valid_slots ps))"
    using valid_slots_update [OF l, of q] by (simp add: card_insert_if card_Diff_subset_Int le_diff_conv)
  moreover have "i \<notin> valid_slots ps" using assms(3) by (simp add: valid_slots_def)
  ultimately show "table_ok n (K @ [k]) (ps[i := q])"
    using t k q unfolding table_ok_def valid_slots_update [OF l]
    by (auto simp: nth_list_update l dest!: set_update_subset_insert [THEN subsetD])
  show "keys_unique (ps[i := q])" if u: "keys_unique ps" and n: "k \<notin> set K"
    using u n t k \<open>i \<notin> valid_slots ps\<close> unfolding keys_unique_def table_ok_def valid_slots_update [OF l]
    by (auto simp: nth_list_update l) metis+
qed

lemma table_same:
  assumes t: "table_ok n K ps" and i: "i < n" and q: "peer_ok q" "peer_valid q = peer_valid (ps ! i)"
    "peer_public_key q = peer_public_key (ps ! i)"
  shows "table_ok n K (ps[i := q])" and "keys_unique ps \<Longrightarrow> keys_unique (ps[i := q])"
proof -
  have l: "i < length ps" using t i by (simp add: table_ok_def)
  have v: "valid_slots (ps[i := q]) = valid_slots ps" using q(2) l by (auto simp: valid_slots_def nth_list_update)
  have k: "peer_public_key (ps[i := q] ! j) = peer_public_key (ps ! j)" if "j < length ps" for j
    using q(3) that l by (cases "j = i") simp_all
  show "table_ok n K (ps[i := q])"
    using t q(1) k unfolding table_ok_def v
    by (auto simp: valid_slots_def dest!: set_update_subset_insert [THEN subsetD])
  show "keys_unique (ps[i := q])" if "keys_unique ps"
    using that k unfolding keys_unique_def v by (simp add: valid_slots_def)
qed

lemma table_more: "table_ok n K ps \<Longrightarrow> table_ok n (K @ [k]) ps"
  by (auto simp: table_ok_def)

lemma peer_alloc_ok:
  assumes "table_ok n K (dev_peers device)" and "length K < n"
  obtains i where "wireguard_peer_alloc device = Some i" and "i < n" and "\<not> peer_valid (dev_peers device ! i)"
proof -
  let ?ps = "dev_peers device"
  have "\<exists>j < n. \<not> peer_valid (?ps ! j)"
  proof (rule ccontr)
    assume "\<not> ?thesis"
    then have "valid_slots ?ps = {..<n}" using assms(1) by (auto simp: valid_slots_def table_ok_def)
    then show False using assms by (simp add: table_ok_def)
  qed
  then have "find_index (\<lambda>tmp. \<not> peer_valid tmp) ?ps \<noteq> None"
    using assms(1) unfolding find_index_None_iff table_ok_def by (metis nth_mem)
  then obtain i where "find_index (\<lambda>tmp. \<not> peer_valid tmp) ?ps = Some i" by auto
  then show thesis using that [of i] assms(1) find_index_SomeD
    unfolding wireguard_peer_alloc_def table_ok_def by blast
qed

section \<open>One configured peer\<close>

lemma connect_total:
  assumes t: "table_ok n K (dev_peers device)" and i: "i < n" and "dev_valid device"
  shows "\<exists>r device'. wireguard_iface_connect device (int i) = Some (r, device') \<and>
    table_ok n K (dev_peers device') \<and> (keys_unique (dev_peers device) \<longrightarrow> keys_unique (dev_peers device')) \<and>
    dev_valid device'"
proof -
  let ?peer = "dev_peers device ! i"
  have l: "i < length (dev_peers device)" using t i by (simp add: table_ok_def)
  let ?e = "endpoints ?peer ! 0"
  let ?q = "?peer\<lparr>peer_active := True, endpoint_latest_ip := ep_ip ?e,
                 endpoint_latest_port := ep_port ?e, endpoint_latest_is_proxy := ep_is_proxy ?e\<rparr>"
  have "peer_ok ?peer" using t l by (simp add: table_ok_def)
  then have "peer_ok ?q" by (simp add: peer_ok_def timeouts_ok_def)
  then have q: "table_ok n K ((dev_peers device)[i := ?q])" "keys_unique (dev_peers device) \<Longrightarrow> keys_unique ((dev_peers device)[i := ?q])"
    using table_same [OF t i, of ?q] by simp_all
  show ?thesis
  proof (cases "peer_valid ?peer \<and> \<not> (ep_ip ?e = 0 \<or> ep_port ?e = 0)")
    case True
    then have "wireguard_iface_connect device (int i) = Some (0, upd_peer i ?q device)"
      using l assms(3) by (simp add: wireguard_iface_connect_def wireguard_iface_lookup_peer_def
          wireguard_peer_lookup_by_peer_index_def Let_def)
    then show ?thesis using q assms(3) by (simp add: upd_peer_def)
  next
    case False
    then have "wireguard_iface_connect device (int i) = Some (-1, device)"
      using l assms(3) by (auto simp: wireguard_iface_connect_def wireguard_iface_lookup_peer_def
          wireguard_peer_lookup_by_peer_index_def Let_def)
    then show ?thesis using t assms(3) by simp
  qed
qed

lemma add_peer_total:
  assumes t: "table_ok n K (dev_peers device)" and "length K < n" and p: "iface_peer_ok p" and v: "dev_valid device"
  shows "\<exists>r idx device' w'. wireguard_iface_add_peer dh device p w = Some (r, idx, device', w') \<and>
    (r = 0 \<longrightarrow> (\<exists>i < n. idx = Some i)) \<and> table_ok n (K @ [iface_public_key p]) (dev_peers device') \<and>
    (keys_unique (dev_peers device) \<and> iface_public_key p \<notin> set K \<longrightarrow> keys_unique (dev_peers device')) \<and> dev_valid device'"
proof (cases "iface_public_key p")
  case None
  then show ?thesis using table_more [OF t] v by (simp add: wireguard_iface_add_peer_def)
next
  case (Some key)
  show ?thesis
  proof (cases "wireguard_peer_lookup_by_pubkey device key")
    case (Some i)
    then have "i < n" using t unfolding wireguard_peer_lookup_by_pubkey_def table_ok_def by (auto dest: find_index_SomeD)
    then show ?thesis
      using Some \<open>iface_public_key p = Some key\<close> table_more [OF t] v by (simp add: wireguard_iface_add_peer_def)
  next
    case None
    obtain i where i: "wireguard_peer_alloc device = Some i" "i < n" "\<not> peer_valid (dev_peers device ! i)"
      using peer_alloc_ok [OF t assms(2)] by blast
    let ?q = "wireguard_peer_init dh device key (if_preshared_key p)"
    show ?thesis
    proof (cases "peer_valid ?q")
      case False
      then have "peer_ok ?q" by (simp add: peer_ok_def)
      with table_new [OF t i(2,3) this, of "Some key"] False v Some None i(1) show ?thesis
        by (simp add: wireguard_iface_add_peer_def upd_peer_def)
    next
      case True
      obtain q' w' where c: "configure_peer ?q p w = Some (q', w')" "peer_ok q'" "peer_public_key q' = key" "peer_valid q'"
        using configure_peer_total [OF p peer_init_zero(1,2)] peer_init_zero(3) [OF True] True by metis
      with table_new [OF t i(2,3) c(2), of "Some key"] True v Some None i(1,2) show ?thesis
        by (simp add: wireguard_iface_add_peer_def upd_peer_def)
    qed
  qed
qed

lemma reusable_old_peer_valid:
  assumes "wireguard_iface_reusable_old_peer old p = Some x"
  shows "x < length old" and "peer_valid (old ! x)" and "iface_public_key p = Some (peer_public_key (old ! x))"
  using assms unfolding wireguard_iface_reusable_old_peer_def wireguard_iface_reusable_old_peer_by_pubkey_def
  by (auto split: option.splits if_splits simp: Let_def dest!: find_index_SomeD)

lemma as_configured_reusable:
  assumes "wireguard_iface_reusable_old_peer_by_pubkey old (peer_public_key (old ! x)) = Some x"
    and "iface_public_key p = Some (peer_public_key (old ! x))"
  shows "wireguard_iface_reusable_old_peer old p = (if as_configured p (old ! x) then Some x else None)"
proof -
  have v: "peer_valid (old ! x)"
    using assms(1) unfolding wireguard_iface_reusable_old_peer_by_pubkey_def by (auto dest: find_index_SomeD)
  then have "as_configured p (old ! x) \<longleftrightarrow> n_endpoints (old ! x) = if_n_endpoints p \<and>
      list_all (\<lambda>i. same_endpoint (endpoints (old ! x) ! i) (if_endpoints p ! i)) [0..<unat (n_endpoints (old ! x))] \<and>
      wireguard_iface_otp_reusable (old ! x) p"
    using assms(2) by (auto simp: as_configured_def same_endpoint_def wireguard_iface_otp_reusable_def list_all_iff)
  then show ?thesis
    unfolding wireguard_iface_reusable_old_peer_def assms(2) option.case assms(1) Let_def by auto
qed

text \<open>In a table in which no key occurs twice, exactly the peers that are configured as before are reused.\<close>

lemma reusable_iff:
  assumes u: "keys_unique old"
  shows "wireguard_iface_reusable_old_peer old p = Some x \<longleftrightarrow> x < length old \<and> as_configured p (old ! x)"
proof (cases "\<exists>y < length old. peer_valid (old ! y) \<and> iface_public_key p = Some (peer_public_key (old ! y))")
  case False
  then have no: "x < length old \<Longrightarrow> \<not> (peer_valid (old ! x) \<and> iface_public_key p = Some (peer_public_key (old ! x)))" by metis
  then have "x < length old \<Longrightarrow> \<not> as_configured p (old ! x)" using as_configuredD by metis
  moreover have "wireguard_iface_reusable_old_peer old p \<noteq> Some x"
    using reusable_old_peer_valid [of old p x] no by metis
  ultimately show ?thesis by metis
next
  case True
  then obtain y where y: "y < length old" "peer_valid (old ! y)" "iface_public_key p = Some (peer_public_key (old ! y))" by blast
  have eq: "z = y" if "z < length old" "peer_valid (old ! z)" "peer_public_key (old ! z) = peer_public_key (old ! y)" for z
    using u y that unfolding keys_unique_def valid_slots_def by blast
  have "\<not> (peer_valid (old ! j) \<and> peer_public_key (old ! j) = peer_public_key (old ! y))" if "j < y" for j
    using eq [of j] that y(1) by auto
  then have "wireguard_iface_reusable_old_peer_by_pubkey old (peer_public_key (old ! y)) = Some y"
    unfolding wireguard_iface_reusable_old_peer_by_pubkey_def find_index_Some_iff using y(1,2) by simp
  note r = as_configured_reusable [OF this y(3)]
  have "x = y" if "x < length old" "as_configured p (old ! x)"
    using eq [of x] y(3) that as_configuredD [OF that(2)] by simp
  then show ?thesis unfolding r using y(1) by (cases "as_configured p (old ! y)") auto
qed

lemma update_peer_total:
  assumes t: "table_ok n K (dev_peers device)" and k: "length K < n" and p: "iface_peer_ok p" and v: "dev_valid device"
    and old: "\<forall>q \<in> set old. peer_ok q"
  shows "\<exists>c u f device' w'. update_peer dh old p device w = Some ((c, u, f), device', w') \<and> c + u + f = 1 \<and>
    table_ok n (K @ [iface_public_key p]) (dev_peers device') \<and>
    (keys_unique (dev_peers device) \<and> iface_public_key p \<notin> set K \<longrightarrow> keys_unique (dev_peers device')) \<and> dev_valid device'"
proof (cases "wireguard_iface_reusable_old_peer old p")
  case None
  obtain r idx device1 w1 where a: "wireguard_iface_add_peer dh device p w = Some (r, idx, device1, w1)"
    "r = 0 \<longrightarrow> (\<exists>i < n. idx = Some i)" "table_ok n (K @ [iface_public_key p]) (dev_peers device1)"
    "keys_unique (dev_peers device) \<and> iface_public_key p \<notin> set K \<longrightarrow> keys_unique (dev_peers device1)" "dev_valid device1"
    using add_peer_total [OF t k p v] by blast
  show ?thesis
  proof (cases "r = 0")
    case False
    then show ?thesis using a None by (simp add: update_peer_def)
  next
    case True
    then obtain i where i: "idx = Some i" "i < n" using a(2) by blast
    obtain r2 device2 where c: "wireguard_iface_connect device1 (int i) = Some (r2, device2)"
      "table_ok n (K @ [iface_public_key p]) (dev_peers device2)"
      "keys_unique (dev_peers device1) \<longrightarrow> keys_unique (dev_peers device2)" "dev_valid device2"
      using connect_total [OF a(3) i(2) a(5)] by blast
    then show ?thesis using a True i None by (simp add: update_peer_def)
  qed
next
  case (Some x)
  note x = reusable_old_peer_valid [OF Some]
  have ok: "peer_ok (old ! x)" using old x(1) by simp
  then have "unat (keepalive_interval (old ! x)) \<le> 170" using x(2) by (auto simp: peer_ok_def)
  from timeout_update_total [OF this, of w] obtain a b c w' where
    u: "wireguard_iface_timeout_update (old ! x) w = Some ((old ! x)\<lparr>timeout_rekey := a,
      timeout_rekey_after_time := b, timeout_reject_after_time := c\<rparr>, w')"
      "timeouts_ok ((old ! x)\<lparr>timeout_rekey := a, timeout_rekey_after_time := b, timeout_reject_after_time := c\<rparr>)" by blast
  let ?q = "wireguard_iface_otp_update ((old ! x)\<lparr>timeout_rekey := a,
      timeout_rekey_after_time := b, timeout_reject_after_time := c\<rparr>) p"
  have q: "peer_ok ?q" "peer_public_key ?q = peer_public_key (old ! x)"
    using ok u(2) by (simp_all add: peer_ok_def timeouts_ok_def wireguard_iface_otp_update_def)
  obtain i where i: "wireguard_peer_alloc device = Some i" "i < n" "\<not> peer_valid (dev_peers device ! i)"
    using peer_alloc_ok [OF t k] by blast
  have "update_peer dh old p device w = Some ((0, 1, 0), upd_peer i ?q device, w')"
    using Some i(1) u(1) by (simp add: update_peer_def)
  with table_new [OF t i(2,3) q(1), of "iface_public_key p"] x(3) q(2) v show ?thesis
    by (simp add: upd_peer_def)
qed

lemma update_peers_total:
  assumes "table_ok n K (dev_peers device)" and "length K + length is \<le> n" and "dev_valid device"
    and "\<forall>q \<in> set old. peer_ok q"
    and "ks = map (\<lambda>i. case CNF_fill_iface_peer jroot wireguard_iface_peer_init i of Some (r, p) \<Rightarrow> iface_public_key p | None \<Rightarrow> None) is"
    and "\<And>i. i \<in> set is \<Longrightarrow> \<exists>p. CNF_fill_iface_peer jroot wireguard_iface_peer_init i = Some (0, p)"
  shows "\<exists>c u f device' w'. update_peers dh jroot old is device w = Some ((c, u, f), device', w') \<and> c + u + f = length is \<and>
    table_ok n (K @ ks) (dev_peers device') \<and>
    (keys_unique (dev_peers device) \<and> distinct ks \<and> set ks \<inter> set K = {} \<longrightarrow> keys_unique (dev_peers device')) \<and>
    dev_valid device'"
  using assms
proof (induction "is" arbitrary: K device w ks)
  case (Cons i "is")
  obtain p where p: "CNF_fill_iface_peer jroot wireguard_iface_peer_init i = Some (0, p)" using Cons.prems(6) [of i] by auto
  define ls where "ls = map (\<lambda>i. case CNF_fill_iface_peer jroot wireguard_iface_peer_init i of
      Some (r, p) \<Rightarrow> iface_public_key p | None \<Rightarrow> None) is"
  have ks: "ks = iface_public_key p # ls" using Cons.prems(5) p by (simp add: ls_def)
  have "length K < n" using Cons.prems(2) by simp
  from update_peer_total [OF Cons.prems(1) this fill_iface_peer_ok [OF p] Cons.prems(3,4)]
  obtain c u f device1 w1 where 1: "update_peer dh old p device w = Some ((c, u, f), device1, w1)" "c + u + f = 1"
    "table_ok n (K @ [iface_public_key p]) (dev_peers device1)"
    "keys_unique (dev_peers device) \<and> iface_public_key p \<notin> set K \<longrightarrow> keys_unique (dev_peers device1)" "dev_valid device1"
    by blast
  have "length (K @ [iface_public_key p]) + length is \<le> n" using Cons.prems(2) by simp
  moreover have "\<And>i. i \<in> set is \<Longrightarrow> \<exists>p. CNF_fill_iface_peer jroot wireguard_iface_peer_init i = Some (0, p)"
    using Cons.prems(6) by simp
  ultimately
  obtain c2 u2 f2 device2 w2 where 2: "update_peers dh jroot old is device1 w1 = Some ((c2, u2, f2), device2, w2)"
    "c2 + u2 + f2 = length is" "table_ok n ((K @ [iface_public_key p]) @ ls) (dev_peers device2)"
    "keys_unique (dev_peers device1) \<and> distinct ls \<and> set ls \<inter> set (K @ [iface_public_key p]) = {} \<longrightarrow> keys_unique (dev_peers device2)"
    "dev_valid device2"
    using Cons.IH [OF 1(3) _ 1(5) Cons.prems(4) ls_def, of w1] by blast
  have "update_peers dh jroot old (i # is) device w = Some ((c + c2, u + u2, f + f2), device2, w2)"
    using p 1(1) 2(1) by simp
  moreover have "c + c2 + (u + u2) + (f + f2) = length (i # is)" using 1(2) 2(2) by simp
  moreover have "keys_unique (dev_peers device) \<and> distinct ks \<and> set ks \<inter> set K = {} \<longrightarrow> keys_unique (dev_peers device2)"
    using 1(4) 2(4) unfolding ks by auto
  ultimately show ?case using 2(3,5) unfolding ks by auto
qed simp

section \<open>What the table holds\<close>

text \<open>The old entry of a peer that is configured as before already has the one-time passwords.\<close>

lemma otp_update_same:
  assumes "as_configured p q" and "length (otp_receiver q) = 3"
  shows "wireguard_iface_otp_update (q\<lparr>timeout_rekey := a, timeout_rekey_after_time := b, timeout_reject_after_time := c\<rparr>) p =
    q\<lparr>timeout_rekey := a, timeout_rekey_after_time := b, timeout_reject_after_time := c\<rparr>"
proof -
  have "map (\<lambda>i. if_otp_receiver p ! i) [0..<3] = map (\<lambda>i. otp_receiver q ! i) [0..<3]"
    using assms(1) by (simp add: as_configured_def)
  also have "\<dots> = otp_receiver q" unfolding assms(2) [symmetric] by (rule map_nth)
  finally show ?thesis using assms(1) by (simp add: wireguard_iface_otp_update_def as_configured_def)
qed

lemma update_peer_reuses:
  assumes u: "keys_unique old" and x: "x < length old" "as_configured p (old ! x)" and ok: "peer_ok (old ! x)"
    and al: "wireguard_peer_alloc device = Some i"
  shows "\<exists>a b c w'. update_peer dh old p device w = Some ((0, 1, 0), upd_peer i ((old ! x)\<lparr>timeout_rekey := a,
        timeout_rekey_after_time := b, timeout_reject_after_time := c\<rparr>) device, w') \<and>
      timeouts_ok ((old ! x)\<lparr>timeout_rekey := a, timeout_rekey_after_time := b, timeout_reject_after_time := c\<rparr>)"
proof -
  have "unat (keepalive_interval (old ! x)) \<le> 170" "length (otp_receiver (old ! x)) = 3"
    using ok x(2) by (auto simp: peer_ok_def as_configured_def)
  moreover have "wireguard_iface_reusable_old_peer old p = Some x" using reusable_iff [OF u] x by blast
  ultimately show ?thesis
    using timeout_update_total [of "old ! x" w] otp_update_same [OF x(2)] al by (fastforce simp: update_peer_def)
qed

lemma connect_fresh:
  assumes l: "i < length (dev_peers device)" and q: "dev_peers device ! i = configured_entry peer p a b c" and v: "dev_valid device"
    and pv: "peer_valid peer" "\<not> peer_active peer" "\<forall>t. keypair_at peer t = keypair_zero"
  shows "\<exists>r q'. wireguard_iface_connect device (int i) = Some (r, upd_peer i q' device) \<and>
    (as_configured p (configured_entry peer p a b c) \<longrightarrow> as_configured p q') \<and>
    timeouts_ok q' = timeouts_ok (configured_entry peer p a b c) \<and> fresh_peer p q'"
proof -
  let ?q = "configured_entry peer p a b c"
  let ?e = "configured_endpoints p ! 0"
  let ?q' = "?q\<lparr>peer_active := (ep_ip ?e \<noteq> 0 \<and> ep_port ?e \<noteq> 0)\<rparr>"
  have k: "curr_keypair peer = keypair_zero" "prev_keypair peer = keypair_zero" "next_keypair peer = keypair_zero"
    using pv(3) [rule_format, of Curr] pv(3) [rule_format, of Prev] pv(3) [rule_format, of Next]
    by (simp_all add: keypair_at_def)
  have e: "endpoints ?q = configured_endpoints p" "peer_valid ?q" "\<not> peer_active ?q"
      "?q\<lparr>endpoint_latest_ip := ep_ip ?e, endpoint_latest_port := ep_port ?e, endpoint_latest_is_proxy := ep_is_proxy ?e\<rparr> = ?q"
    using pv(1,2) by (simp_all add: configured_entry_def wireguard_iface_otp_update_def)
  have s: "upd_peer i (dev_peers device ! i) device = device" by (simp add: upd_peer_def)
  have "\<exists>r. wireguard_iface_connect device (int i) = Some (r, upd_peer i ?q' device)"
  proof (cases "ep_ip ?e = 0 \<or> ep_port ?e = 0")
    case True
    have "?q\<lparr>peer_active := False\<rparr> = ?q" using e(3) by (cases ?q) simp
    then have "?q' = ?q" using True by auto
    moreover have "\<exists>r. wireguard_iface_connect device (int i) = Some (r, device)"
      using True l v e by (auto simp: wireguard_iface_connect_def wireguard_iface_lookup_peer_def
          wireguard_peer_lookup_by_peer_index_def Let_def q)
    ultimately show ?thesis using s unfolding q by metis
  next
    case False
    have "?q' = ?q\<lparr>peer_active := True, endpoint_latest_ip := ep_ip ?e, endpoint_latest_port := ep_port ?e,
        endpoint_latest_is_proxy := ep_is_proxy ?e\<rparr>"
      using False by (simp add: configured_entry_def)
    then show ?thesis using False l v e by (simp add: wireguard_iface_connect_def wireguard_iface_lookup_peer_def
          wireguard_peer_lookup_by_peer_index_def Let_def q)
  qed
  moreover have "as_configured p ?q \<longrightarrow> as_configured p ?q'" "timeouts_ok ?q' = timeouts_ok ?q"
    by (simp_all add: as_configured_def timeouts_ok_def)
  moreover have "fresh_peer p ?q'"
    using k by (simp add: fresh_peer_def configured_entry_def wireguard_iface_otp_update_def)
  ultimately show ?thesis by blast
qed

lemma peer_init_fresh:
  assumes "dev_valid device" and "dh (dev_private_key device) k \<noteq> zero_key"
  shows "peer_valid (wireguard_peer_init dh device k psk)" and "\<not> peer_active (wireguard_peer_init dh device k psk)"
    and "\<forall>t. keypair_at (wireguard_peer_init dh device k psk) t = keypair_zero"
  using assms by (auto simp: wireguard_peer_init_def peer_zero_def keypair_at_def Let_def split: kp_slot.split)

text \<open>A table whose first entries \<open>qs\<close> are taken.\<close>

lemma alloc_next:
  assumes "dev_peers device = qs @ replicate (Suc m) peer_zero" and "\<forall>q \<in> set qs. peer_valid q"
  shows "wireguard_peer_alloc device = Some (length qs)"
  using assms unfolding wireguard_peer_alloc_def find_index_Some_iff by (simp add: nth_append peer_zero_def)

lemma update_peer_installs:
  assumes ps: "dev_peers device = qs @ replicate (Suc m) peer_zero" and qs: "\<forall>q \<in> set qs. peer_valid q"
    and p: "iface_peer_ok p" and v: "dev_valid device" and old: "\<forall>q \<in> set old. peer_ok q" "keys_unique old"
    and k: "iface_public_key p = Some key" "\<forall>q \<in> set qs. peer_public_key q \<noteq> key"
    and dh: "dh (dev_private_key device) key \<noteq> zero_key"
  shows "\<exists>cnt q w'. update_peer dh old p device w =
      Some (cnt, device\<lparr>dev_peers := qs @ q # replicate m peer_zero\<rparr>, w') \<and> installed old p q"
proof -
  let ?i = "length qs"
  note al = alloc_next [OF ps qs]
  have upd: "upd_peer ?i q device = device\<lparr>dev_peers := qs @ q # replicate m peer_zero\<rparr>" for q
    by (simp add: upd_peer_def ps)
  show ?thesis
  proof (cases "wireguard_iface_reusable_old_peer old p")
    case (Some x)
    then have x: "x < length old" "as_configured p (old ! x)" using reusable_iff [OF old(2)] by auto
    obtain a b c w' where u: "update_peer dh old p device w = Some ((0, 1, 0), upd_peer ?i ((old ! x)\<lparr>timeout_rekey := a,
        timeout_rekey_after_time := b, timeout_reject_after_time := c\<rparr>) device, w')"
        "timeouts_ok ((old ! x)\<lparr>timeout_rekey := a, timeout_rekey_after_time := b, timeout_reject_after_time := c\<rparr>)"
      using update_peer_reuses [OF old(2) x _ al] old(1) x(1) by fastforce
    let ?q = "(old ! x)\<lparr>timeout_rekey := a, timeout_rekey_after_time := b, timeout_reject_after_time := c\<rparr>"
    have "installed old p ?q" unfolding installed_def retimed_def using x u(2) nth_mem [OF x(1)]
      by (auto simp: as_configured_def intro!: bexI [of _ "old ! x"])
    then show ?thesis using u(1) unfolding upd by blast
  next
    case None
    then have no: "\<not> (\<exists>e \<in> set old. as_configured p e)" using reusable_iff [OF old(2)] by (metis in_set_conv_nth option.distinct(1))
    let ?peer = "wireguard_peer_init dh device key (if_preshared_key p)"
    have lk: "wireguard_peer_lookup_by_pubkey device key = None"
      using k(2) ps unfolding wireguard_peer_lookup_by_pubkey_def find_index_None_iff by (auto simp: peer_zero_def)
    note f = peer_init_fresh [where dh = dh, OF v dh, of "if_preshared_key p"]
    have pk: "iface_public_key p = Some (peer_public_key ?peer)" using k(1) peer_init_zero(3) [OF f(1)] by simp
    obtain a b c w' where c: "configure_peer ?peer p w = Some (configured_entry ?peer p a b c, w')"
        "timeouts_ok (configured_entry ?peer p a b c)"
      using configure_peer_eq [OF p peer_init_zero(1,2)] by blast
    let ?q = "configured_entry ?peer p a b c" and ?d = "upd_peer ?i (configured_entry ?peer p a b c) device"
    have add: "wireguard_iface_add_peer dh device p w = Some (0, Some ?i, ?d, w')"
      using f(1) by (simp add: wireguard_iface_add_peer_def k(1) lk al c(1))
    have l: "?i < length (dev_peers ?d)" "dev_peers ?d ! ?i = ?q" "dev_valid ?d" using ps v by (simp_all add: upd_peer_def)
    obtain r q' where con: "wireguard_iface_connect ?d (int ?i) = Some (r, upd_peer ?i q' ?d)"
        "as_configured p ?q \<longrightarrow> as_configured p q'" "timeouts_ok q' = timeouts_ok ?q" "fresh_peer p q'"
      using connect_fresh [OF l f] by blast
    have "update_peer dh old p device w =
        Some (if r \<noteq> 0 then (0, 0, 1) else (1, 0, 0), device\<lparr>dev_peers := qs @ q' # replicate m peer_zero\<rparr>, w')"
      using None by (simp add: update_peer_def add con(1)) (simp add: upd_peer_def ps)
    moreover have "installed old p q'"
      using con(2-4) c(2) configured_entry_as_configured [OF f(1) pk] no by (simp add: installed_def)
    ultimately show ?thesis by blast
  qed
qed

text \<open>The peers that a configuration describes.\<close>

definition configured_peer :: "json \<Rightarrow> nat \<Rightarrow> wireguard_iface_peer" where
  "configured_peer jroot i = snd (the (CNF_fill_iface_peer jroot wireguard_iface_peer_init i))"

lemma update_peers_installs:
  assumes "dev_peers device = qs @ replicate (length is) peer_zero" and "\<forall>q \<in> set qs. peer_valid q"
    and "dev_valid device" and "\<forall>q \<in> set old. peer_ok q" and "keys_unique old"
    and "\<And>i. i \<in> set is \<Longrightarrow> \<exists>p. CNF_fill_iface_peer jroot wireguard_iface_peer_init i = Some (0, p)"
    and "map (\<lambda>i. iface_public_key (configured_peer jroot i)) is = map Some ks"
    and "distinct (map peer_public_key qs @ ks)" and "\<forall>k \<in> set ks. dh (dev_private_key device) k \<noteq> zero_key"
  shows "\<exists>cnt rs w'. update_peers dh jroot old is device w = Some (cnt, device\<lparr>dev_peers := qs @ rs\<rparr>, w') \<and>
    list_all2 (\<lambda>i. installed old (configured_peer jroot i)) is rs"
  using assms
proof (induction "is" arbitrary: device qs w ks)
  case Nil
  then show ?case by simp
next
  case (Cons i "is")
  obtain p where p: "CNF_fill_iface_peer jroot wireguard_iface_peer_init i = Some (0, p)" using Cons.prems(6) [of i] by auto
  have cp: "configured_peer jroot i = p" by (simp add: configured_peer_def p)
  from Cons.prems(7) obtain k ls where ks: "ks = k # ls" "iface_public_key p = Some k"
      "map (\<lambda>i. iface_public_key (configured_peer jroot i)) is = map Some ls" unfolding list.map cp by (cases ks) auto
  have ps: "dev_peers device = qs @ replicate (Suc (length is)) peer_zero" using Cons.prems(1) by simp
  have nk: "\<forall>q \<in> set qs. peer_public_key q \<noteq> k" and dh: "dh (dev_private_key device) k \<noteq> zero_key"
    using Cons.prems(8,9) by (auto simp: ks(1))
  obtain c q w1 where 1: "update_peer dh old p device w =
      Some (c, device\<lparr>dev_peers := qs @ q # replicate (length is) peer_zero\<rparr>, w1)" "installed old p q"
    using update_peer_installs [where dh = dh, OF ps Cons.prems(2) fill_iface_peer_ok [OF p] Cons.prems(3-5) ks(2) nk dh] by blast
  let ?d = "device\<lparr>dev_peers := qs @ q # replicate (length is) peer_zero\<rparr>"
  have q: "peer_valid q" "peer_public_key q = k" using 1(2) ks(2) by (simp_all add: installed_def as_configured_def)
  have "\<exists>cnt rs w'. update_peers dh jroot old is ?d w1 = Some (cnt, ?d\<lparr>dev_peers := (qs @ [q]) @ rs\<rparr>, w') \<and>
    list_all2 (\<lambda>i. installed old (configured_peer jroot i)) is rs"
    using Cons.prems q by (intro Cons.IH [OF _ _ _ _ _ _ ks(3)]) (auto simp: ks(1))
  then obtain cnt rs w' where 2: "update_peers dh jroot old is ?d w1 = Some (cnt, ?d\<lparr>dev_peers := (qs @ [q]) @ rs\<rparr>, w')"
    "list_all2 (\<lambda>i. installed old (configured_peer jroot i)) is rs" by blast
  have "\<exists>cnt. update_peers dh jroot old (i # is) device w = Some (cnt, device\<lparr>dev_peers := qs @ q # rs\<rparr>, w')"
    by (cases c; cases cnt) (simp add: p 1(1) 2(1))
  then show ?case using 1(2) 2(2) cp by (metis list_all2_Cons)
qed

section \<open>Properties\<close>

definition conf_peers_ok :: "json \<Rightarrow> nat \<Rightarrow> bool" where
  "conf_peers_ok jroot n \<longleftrightarrow> CNF_get_peer_size jroot = Some (int n) \<and>
     list_all (\<lambda>i. case CNF_fill_iface_peer jroot wireguard_iface_peer_init i of Some (r, _) \<Rightarrow> r = 0 | None \<Rightarrow> False) [0..<n]"

definition configured_keys :: "json \<Rightarrow> nat \<Rightarrow> bytes option list" where
  "configured_keys jroot n = map (\<lambda>i. case CNF_fill_iface_peer jroot wireguard_iface_peer_init i of
     Some (r, p) \<Rightarrow> iface_public_key p | None \<Rightarrow> None) [0..<n]"

lemma peers_update_total:
  assumes c: "conf_peers_ok jroot n" and v: "dev_valid device" and old: "\<forall>q \<in> set (dev_peers device). peer_ok q"
  shows "\<exists>c u f device' w'. wireguard_iface_peers_update dh device jroot w = Some ((c, u, f), device', w') \<and>
    c + u + f = n \<and> table_ok n (configured_keys jroot n) (dev_peers device') \<and>
    (distinct (configured_keys jroot n) \<longrightarrow> keys_unique (dev_peers device')) \<and>
    (\<forall>ks. configured_keys jroot n = map Some ks \<longrightarrow> distinct ks \<longrightarrow> keys_unique (dev_peers device) \<longrightarrow>
      (\<forall>k \<in> set ks. dh (dev_private_key device) k \<noteq> zero_key) \<longrightarrow>
      list_all2 (\<lambda>i. installed (dev_peers device) (configured_peer jroot i)) [0..<n] (dev_peers device'))"
proof -
  let ?d = "device\<lparr>dev_peers := replicate n peer_zero\<rparr>"
  have z: "\<not> peer_valid peer_zero" by (simp add: peer_zero_def)
  then have vs: "valid_slots (replicate n peer_zero) = {}" by (auto simp: valid_slots_def)
  have t: "table_ok n [] (dev_peers ?d)" using z vs by (simp add: table_ok_def peer_ok_def)
  have "dev_valid ?d" "keys_unique (dev_peers ?d)" using v vs by (simp_all add: keys_unique_def)
  have fl: "\<exists>p. CNF_fill_iface_peer jroot wireguard_iface_peer_init i = Some (0, p)" if "i \<in> set [0..<n]" for i
    using c that unfolding conf_peers_ok_def list_all_iff by (auto split: option.splits dest!: bspec [of _ _ i])
  have "length ([] :: bytes option list) + length [0..<n] \<le> n" by simp
  from update_peers_total [where dh = dh and w = w, OF t this \<open>dev_valid ?d\<close> old configured_keys_def [of jroot n] fl]
  obtain a b f device' w' where u: "update_peers dh jroot (dev_peers device) [0..<n] ?d w = Some ((a, b, f), device', w')"
    "a + b + f = n" "table_ok n (configured_keys jroot n) (dev_peers device')"
    "distinct (configured_keys jroot n) \<longrightarrow> keys_unique (dev_peers device')"
    using \<open>keys_unique (dev_peers ?d)\<close> by auto
  have cp: "map (\<lambda>i. iface_public_key (configured_peer jroot i)) [0..<n] = configured_keys jroot n"
    unfolding configured_keys_def by (rule map_cong [OF refl]) (use fl in \<open>force simp: configured_peer_def\<close>)
  have inst: "list_all2 (\<lambda>i. installed (dev_peers device) (configured_peer jroot i)) [0..<n] (dev_peers device')"
    if "configured_keys jroot n = map Some ks" "distinct ks" "keys_unique (dev_peers device)"
      "\<forall>k \<in> set ks. dh (dev_private_key device) k \<noteq> zero_key" for ks
  proof -
    have "\<exists>cnt rs w'. update_peers dh jroot (dev_peers device) [0..<n] ?d w = Some (cnt, ?d\<lparr>dev_peers := [] @ rs\<rparr>, w') \<and>
        list_all2 (\<lambda>i. installed (dev_peers device) (configured_peer jroot i)) [0..<n] rs"
      using that old fl \<open>dev_valid ?d\<close> by (intro update_peers_installs [where ks = ks and dh = dh]) (simp_all add: cp)
    then show ?thesis using u(1) by auto
  qed
  show ?thesis
  proof (cases "n = 0")
    case True
    then show ?thesis using c by (simp add: wireguard_iface_peers_update_def conf_peers_ok_def table_ok_def
          keys_unique_def valid_slots_def)
  next
    case False
    then have "wireguard_iface_peers_update dh device jroot w = Some ((a, b, f), device', w')"
      using c u(1) by (simp add: wireguard_iface_peers_update_def conf_peers_ok_def)
    then show ?thesis using u(2-4) inst by blast
  qed
qed

lemma add_peer_acl:
  "wireguard_iface_add_peer dh device p w = Some (r, i, device', w') \<Longrightarrow> dev_acl device' = dev_acl device"
  by (auto simp: wireguard_iface_add_peer_def Let_def bind_eq_Some_conv split: option.splits if_splits)

lemma connect_acl: "wireguard_iface_connect device i = Some (r, device') \<Longrightarrow> dev_acl device' = dev_acl device"
  by (auto simp: wireguard_iface_connect_def Let_def bind_eq_Some_conv split: option.splits if_splits)

lemma update_peer_acl: "update_peer dh old p device w = Some (cnt, device', w') \<Longrightarrow> dev_acl device' = dev_acl device"
  by (auto simp: update_peer_def bind_eq_Some_conv split: option.splits if_splits dest!: add_peer_acl connect_acl)

lemma update_peers_acl:
  "update_peers dh jroot old is device w = Some (cnt, device', w') \<Longrightarrow> dev_acl device' = dev_acl device"
proof (induction "is" arbitrary: device w cnt)
  case (Cons i "is")
  from Cons.prems show ?case
    by (auto simp: bind_eq_Some_conv split: if_splits dest!: update_peer_acl Cons.IH)
qed simp

lemma peers_update_acl:
  "wireguard_iface_peers_update dh device jroot w = Some (cnt, device', w') \<Longrightarrow> dev_acl device' = dev_acl device"
  by (auto simp: wireguard_iface_peers_update_def bind_eq_Some_conv split: if_splits dest!: update_peers_acl)

lemma acl_build_ok:
  assumes "CNF_acl_build jroot = Some (Some acl)"
    and "list_all (\<lambda>a. 0 < n_insns a \<and> list_all (\<lambda>i. \<not> bpf_shift (bcode (insns a ! i))) [0..<n_insns a])
      (take (acl_n_programs acl) (acl_programs acl))"
  shows "acl_ok acl"
  using acl_build_checked [OF assms(1)] assms(2)
  by (auto simp: acl_ok_def list_all_iff program_checked_def acl_program_ok_def)

text \<open>
  C7: Applying a configuration installs it. With an active configuration whose peers and access control list have
  the expected members, synchronisation fails no assertion and releases the configuration again; the table has
  one slot per configured peer, the access control list is the configured one if that is acceptable, and every
  valid peer has at most 16 endpoints and timeouts in the intended ranges (rekey 5 to 9, rekey after 120 to
  159, reject after 180 to 239 seconds). If the configured keys are distinct and their shared secrets are
  not zero, slot \<open>i\<close> holds the \<open>i\<close>-th configured peer, with its key, its endpoints and its one-time passwords: the entry
  of the old table, with its sessions, if there was one with these, and otherwise a new entry with the
  configured address, mask and keep-alive interval.
\<close>

theorem configuration_applied:
  assumes "cnf_active s = Some cf" and "map_of (cnf_head s) cf = Some c" and "cnf_busy c \<ge> 0"
    and "conf_peers_ok (cnf_jroot c) n" and "CNF_acl_build (cnf_jroot c) = Some acl"
    and "dev_valid device" and "list_all peer_ok (dev_peers device)"
  shows "\<exists>device' s' w'. wireguard_iface_sync dh time device s w = Some (device', s', w') \<and>
    length (dev_peers device') = n \<and> list_all peer_ok (dev_peers device') \<and>
    dev_acl device' = (case acl of None \<Rightarrow> dev_acl device | Some acl \<Rightarrow> acl) \<and>
    map_of (cnf_head s') cf = Some (c\<lparr>cnf_t_last := time\<rparr>) \<and>
    (\<forall>ks. configured_keys (cnf_jroot c) n = map Some ks \<longrightarrow> distinct ks \<longrightarrow> keys_unique (dev_peers device) \<longrightarrow>
      (\<forall>k \<in> set ks. dh (dev_private_key device) k \<noteq> zero_key) \<longrightarrow>
      keys_unique (dev_peers device') \<and>
      list_all2 (\<lambda>i. installed (dev_peers device) (configured_peer (cnf_jroot c) i)) [0..<n] (dev_peers device'))"
proof -
  have old: "\<forall>q \<in> set (dev_peers device). peer_ok q" using assms(7) by (simp add: list_all_iff)
  obtain a b f device1 w1 where u: "wireguard_iface_peers_update dh device (cnf_jroot c) w = Some ((a, b, f), device1, w1)"
    "table_ok n (configured_keys (cnf_jroot c) n) (dev_peers device1)"
    "distinct (configured_keys (cnf_jroot c) n) \<longrightarrow> keys_unique (dev_peers device1)"
    "\<forall>ks. configured_keys (cnf_jroot c) n = map Some ks \<longrightarrow> distinct ks \<longrightarrow> keys_unique (dev_peers device) \<longrightarrow>
      (\<forall>k \<in> set ks. dh (dev_private_key device) k \<noteq> zero_key) \<longrightarrow>
      list_all2 (\<lambda>i. installed (dev_peers device) (configured_peer (cnf_jroot c) i)) [0..<n] (dev_peers device1)"
    using peers_update_total [OF assms(4,6) old] by blast
  have acl1: "dev_acl device1 = dev_acl device" by (rule peers_update_acl [OF u(1)])
  let ?d = "case acl of None \<Rightarrow> device1 | Some acl \<Rightarrow> device1\<lparr>dev_acl := acl\<rparr>"
  have m: "map_of (cnf_head (upd_cnf p g t)) cf = map_option (\<lambda>c. if cf = p then g c else c) (map_of (cnf_head t) cf)" for p g t
  proof -
    have "map_of (map (\<lambda>(q, c). (q, if q = p then g c else c)) xs) cf = map_option (\<lambda>c. if cf = p then g c else c) (map_of xs cf)" for xs
      by (induction xs) auto
    then show ?thesis by (simp add: upd_cnf_def)
  qed
  let ?s1 = "upd_cnf cf (\<lambda>c. c\<lparr>cnf_busy := cnf_busy c + 1, cnf_t_last := time\<rparr>) s"
  let ?s2 = "upd_cnf cf (\<lambda>c. c\<lparr>cnf_busy := cnf_busy c - 1\<rparr>) ?s1"
  have g: "CNF_get time s = Some (0, Some cf, ?s1)" using assms(1-3) by (simp add: CNF_get_def)
  have m1: "map_of (cnf_head ?s1) cf = Some (c\<lparr>cnf_busy := cnf_busy c + 1, cnf_t_last := time\<rparr>)"
    using assms(2) by (simp add: m)
  have r: "CNF_rel cf ?s1 = Some ?s2" using m1 assms(3) by (simp add: CNF_rel_def)
  have "wireguard_iface_sync dh time device s w = Some (?d, ?s2, w1)"
    unfolding wireguard_iface_sync_def g Option.bind.bind_lunit prod.case m1
    by (simp add: u(1) wireguard_iface_bpf_update_def assms(5) r)
  moreover have "dev_peers ?d = dev_peers device1" "dev_acl ?d = (case acl of None \<Rightarrow> dev_acl device | Some acl \<Rightarrow> acl)"
    using acl1 by (cases acl; simp)+
  moreover have "map_of (cnf_head ?s2) cf = Some (c\<lparr>cnf_t_last := time\<rparr>)" using assms(2) by (simp add: m)
  moreover have "length (dev_peers device1) = n" "list_all peer_ok (dev_peers device1)"
    using u(2) by (simp_all add: table_ok_def list_all_iff)
  moreover have "distinct (configured_keys (cnf_jroot c) n)" if "configured_keys (cnf_jroot c) n = map Some ks" "distinct ks" for ks
    using that by (simp add: distinct_map inj_on_def)
  ultimately show ?thesis using u(3,4) by (intro exI [of _ ?d] exI [of _ ?s2] exI [of _ w1]) auto
qed

definition peer_conf_demo :: "string \<Rightarrow> json" where
  "peer_conf_demo key = Json_object [(''otp_sender'', Json_string ''0''),
     (''otp_receiver'', Json_array [Json_string ''0'', Json_string ''ff'', Json_string ''0'']),
     (''wireguard_pubkey'', Json_string key), (''private_ip'', Json_string ''198.18.0.2''),
     (''private_mask'', Json_string ''255.255.255.255''), (''nat_type'', Json_integer 1),
     (''device_addresses'', Json_array [address_demo])]"

definition network_demo :: json where
  "network_demo = Json_object [(''interface'', Json_object [(''nat_type'', Json_integer 2)]),
     (''peers'', Json_array [peer_conf_demo ''AQEBAQEBAQEBAQEBAQEBAQEBAQEBAQEBAQEBAQEBAQE='',
        peer_conf_demo ''AgICAgICAgICAgICAgICAgICAgICAgICAgICAgICAgI='']),
     (''acl'', Json_object [(''default_policy'', Json_string ''allow''), (''programs'', Json_array [])])]"

lemma network_demo: "conf_peers_ok network_demo 2" by code_simp

lemma network_keys: "configured_keys network_demo 2 = [Some (replicate 32 1), Some (replicate 32 2)]" by code_simp

lemma network_acl: "\<exists>acl. CNF_acl_build network_demo = Some acl"
  by (simp add: CNF_acl_build_def network_demo_def object_member_def array_member_def string_member_def
      member_such_def json_string_length_def Let_def WIREGUARD_ACL_PROGRAM_MAX_def)

definition cnf_demo :: cnf where
  "cnf_demo = \<lparr>cnf_jroot = network_demo, cnf_busy = 0, cnf_t_last = 0\<rparr>"

lemma dh_demo_nonzero: "dh_demo (dev_private_key (device_demo [])) (replicate 32 1) \<noteq> zero_key"
  "dh_demo (dev_private_key (device_demo [])) (replicate 32 2) \<noteq> zero_key"
  by code_simp+

theorem configuration_applied_witness:
  "\<exists>device' s' w'. wireguard_iface_sync dh_demo 9 (device_demo []) \<lparr>cnf_head = [(0, cnf_demo)], cnf_active = Some 0,
       cnf_next = 1\<rparr> (world_demo 7 1) = Some (device', s', w') \<and>
    length (dev_peers device') = 2 \<and> map_of (cnf_head s') 0 = Some (cnf_demo\<lparr>cnf_t_last := 9\<rparr>) \<and>
    list_all2 (\<lambda>i. installed [] (configured_peer network_demo i)) [0..<2] (dev_peers device')"
proof -
  let ?s = "\<lparr>cnf_head = [(0, cnf_demo)], cnf_active = Some 0, cnf_next = 1\<rparr> :: cnf_state"
  have j: "cnf_jroot cnf_demo = network_demo" "cnf_busy cnf_demo = 0" by (simp_all add: cnf_demo_def)
  obtain acl where a: "CNF_acl_build (cnf_jroot cnf_demo) = Some acl" using network_acl j by auto
  have n: "conf_peers_ok (cnf_jroot cnf_demo) 2" using network_demo j by simp
  have k: "configured_keys (cnf_jroot cnf_demo) 2 = map Some [replicate 32 1, replicate 32 2]" unfolding j network_keys by simp
  have d: "distinct [replicate 32 (1 :: u8), replicate 32 2]" by (simp add: replicate_eq_replicate)
  have e: "dev_peers (device_demo []) = []" "keys_unique []" by (simp_all add: device_demo_def keys_unique_def valid_slots_def)
  obtain device' s' w' where r: "wireguard_iface_sync dh_demo 9 (device_demo []) ?s (world_demo 7 1) = Some (device', s', w')"
    "length (dev_peers device') = 2" "map_of (cnf_head s') 0 = Some (cnf_demo\<lparr>cnf_t_last := 9\<rparr>)"
    "\<forall>ks. configured_keys (cnf_jroot cnf_demo) 2 = map Some ks \<longrightarrow> distinct ks \<longrightarrow> keys_unique (dev_peers (device_demo [])) \<longrightarrow>
      (\<forall>k \<in> set ks. dh_demo (dev_private_key (device_demo [])) k \<noteq> zero_key) \<longrightarrow> keys_unique (dev_peers device') \<and>
      list_all2 (\<lambda>i. installed (dev_peers (device_demo [])) (configured_peer (cnf_jroot cnf_demo) i)) [0..<2] (dev_peers device')"
    using configuration_applied [OF _ _ _ n a, of ?s 0 "device_demo []" dh_demo 9 "world_demo 7 1"]
    by (auto simp: j device_demo_def)
  from r(4) [rule_format, OF k d] dh_demo_nonzero r(1-3) show ?thesis unfolding e j by (auto simp: e)
qed

section \<open>Access control lists of the configuration\<close>

lemma acl_loop_verdict:
  assumes "list_all acl_program_ok as" and "length pkt < 2 ^ 32"
  shows "acl_loop policy as pkt = Some ((policy = WIREGUARD_ACL_POLICY_ALLOW) \<longleftrightarrow>
    (\<exists>a \<in> set as. \<exists>r. acl_program_run a pkt = Ret r \<and> r \<noteq> 0))"
  using assms(1)
proof (induction "as")
  case Nil
  then show ?case by (cases policy) simp_all
next
  case (Cons a as)
  then obtain r where "acl_program_run a pkt = Ret r" using bpf.verdict [of a pkt] assms(2) by auto
  then show ?case using Cons by (cases "r = 0") auto
qed

text \<open>
  C10: An access control list that was built from a configuration in which no program is empty or contains a
  shift decides every packet: with the default policy to allow, exactly the packets that some program
  matches are dropped, with the default policy to block, exactly the others. (The validation lets empty
  programs and over-wide shifts pass, and those may give no verdict.)
\<close>

theorem configured_acl_decides:
  assumes "CNF_acl_build jroot = Some (Some acl)"
    and "list_all (\<lambda>a. 0 < n_insns a \<and> list_all (\<lambda>i. \<not> bpf_shift (bcode (insns a ! i))) [0..<n_insns a])
      (take (acl_n_programs acl) (acl_programs acl))"
    and "length pkt < 2 ^ 32"
  shows "wireguard_iface_apply_acl (device\<lparr>dev_acl := acl\<rparr>) pkt =
    Some ((acl_default_policy acl = WIREGUARD_ACL_POLICY_ALLOW) \<longleftrightarrow>
      (\<exists>a \<in> set (take (acl_n_programs acl) (acl_programs acl)). \<exists>r. acl_program_run a pkt = Ret r \<and> r \<noteq> 0))"
  using acl_build_ok [OF assms(1,2)] acl_loop_verdict [OF _ assms(3)]
  unfolding wireguard_iface_apply_acl_def acl_ok_def by simp

definition acl_conf_demo :: "json list \<Rightarrow> json" where
  "acl_conf_demo programs = Json_object [(''acl'', Json_object [(''default_policy'', Json_string ''allow''),
     (''programs'', Json_array programs)])]"

definition accept_all_demo :: json where
  "accept_all_demo = Json_array [Json_array [Json_integer 6, Json_integer 0, Json_integer 0, Json_integer 1]]"

lemma acl_conf_demo:
  "\<exists>acl. CNF_acl_build (acl_conf_demo [accept_all_demo]) = Some (Some acl) \<and> acl_n_programs acl = 1 \<and>
     acl_default_policy acl = WIREGUARD_ACL_POLICY_ALLOW \<and>
     take 1 (acl_programs acl) = [\<lparr>insns = \<lparr>bcode = 6, bjt = 0, bjf = 0, bk = 1\<rparr> # replicate 255 insn_zero, n_insns = 1\<rparr>]"
proof -
  have v: "mudband_bpf_validate (\<lparr>bcode = 6, bjt = 0, bjf = 0, bk = 1\<rparr> # replicate 255 insn_zero) 1"
    by code_simp
  have e: "256 - Suc 0 = 255" by simp
  show ?thesis
    using v
    by (simp add: CNF_acl_build_def acl_conf_demo_def accept_all_demo_def object_member_def array_member_def
        string_member_def member_such_def json_string_length_def Let_def WIREGUARD_ACL_PROGRAM_MAX_def
        WIREGUARD_ACL_PROGRAM_INSNS_MAX_def parse_insn_def e)
qed

theorem configured_acl_decides_witness:
  "\<exists>acl. CNF_acl_build (acl_conf_demo [accept_all_demo]) = Some (Some acl) \<and>
     wireguard_iface_apply_acl ((device_demo [])\<lparr>dev_acl := acl\<rparr>) (replicate 20 0) = Some True"
proof -
  obtain acl where a: "CNF_acl_build (acl_conf_demo [accept_all_demo]) = Some (Some acl)" "acl_n_programs acl = 1"
     "acl_default_policy acl = WIREGUARD_ACL_POLICY_ALLOW"
     "take 1 (acl_programs acl) = [\<lparr>insns = \<lparr>bcode = 6, bjt = 0, bjf = 0, bk = 1\<rparr> # replicate 255 insn_zero, n_insns = 1\<rparr>]"
    using acl_conf_demo by blast
  let ?prog = "\<lparr>insns = \<lparr>bcode = 6, bjt = 0, bjf = 0, bk = 1\<rparr> # replicate 255 insn_zero, n_insns = 1\<rparr>"
  have ok: "list_all (\<lambda>a. 0 < n_insns a \<and> list_all (\<lambda>i. \<not> bpf_shift (bcode (insns a ! i))) [0..<n_insns a])
      (take (acl_n_programs acl) (acl_programs acl))"
    unfolding a(2,4) by (simp add: bpf_shift_def)
  have r: "acl_program_run ?prog (replicate 20 0) = Ret 1" by code_simp
  from configured_acl_decides [OF a(1) ok, of "replicate 20 0" "device_demo []"] a(1) show ?thesis
    unfolding a(2,3,4) using r by auto
qed

text \<open>An empty program of a configuration passes the validation, and then no packet gets a verdict: the
  interpreter runs off the end of the program.\<close>

lemma configured_empty_program_runs_off:
  "\<exists>acl. CNF_acl_build (acl_conf_demo [Json_array []]) = Some (Some acl) \<and>
     wireguard_iface_apply_acl (device\<lparr>dev_acl := acl\<rparr>) pkt = None"
proof -
  have z: "insn_zero = bpf_insn_zero" by (simp add: insn_zero_def bpf_insn_zero_def)
  have v: "mudband_bpf_validate (replicate 256 insn_zero) 0" by (simp add: mudband_bpf_validate_def)
  show ?thesis
    using v
    by (simp add: CNF_acl_build_def acl_conf_demo_def object_member_def array_member_def
        string_member_def member_such_def json_string_length_def Let_def WIREGUARD_ACL_PROGRAM_MAX_def
        WIREGUARD_ACL_PROGRAM_INSNS_MAX_def parse_insn_def wireguard_iface_apply_acl_def acl_program_run_def
        mudband_bpf_filter_def z bpf_run_zeros)
qed

section \<open>Peers that are configured as before\<close>

text \<open>
  C8: A peer whose key, endpoints and one-time passwords are configured as before keeps its whole state: in a
  table without duplicate keys, its new entry is the old one, with sessions, handshake and timestamps, and only
  the timeouts are drawn anew. The address, mask and keep-alive interval of the new configuration are not
  looked at, so a peer that is given another address keeps the old one.
\<close>

theorem reused_peer_keeps_state:
  assumes "keys_unique old" and "x < length old" and "peer_valid (old ! x)"
    and "iface_public_key p = Some (peer_public_key (old ! x))" and "if_n_endpoints p = n_endpoints (old ! x)"
    and "\<forall>j < unat (n_endpoints (old ! x)). ie_is_proxy (if_endpoints p ! j) = ep_is_proxy (endpoints (old ! x) ! j) \<and>
      ie_ip (if_endpoints p ! j) = ep_ip (endpoints (old ! x) ! j) \<and>
      ie_port (if_endpoints p ! j) = ep_port (endpoints (old ! x) ! j)"
    and "if_otp_enabled p = otp_enabled (old ! x)" and "if_otp_sender p = otp_sender (old ! x)"
    and "\<forall>j < 3. if_otp_receiver p ! j = otp_receiver (old ! x) ! j"
    and "wireguard_peer_alloc device = Some i" and "peer_ok (old ! x)"
  shows "\<exists>a b c w'. update_peer dh old (p\<lparr>if_iface_addr := addr, if_allowed_ip := ip, if_allowed_mask := msk,
        if_keep_alive := k\<rparr>) device w =
      Some ((0, 1, 0), upd_peer i ((old ! x)\<lparr>timeout_rekey := a, timeout_rekey_after_time := b,
        timeout_reject_after_time := c\<rparr>) device, w')"
proof -
  let ?p = "p\<lparr>if_iface_addr := addr, if_allowed_ip := ip, if_allowed_mask := msk, if_keep_alive := k\<rparr>"
  have "as_configured ?p (old ! x)" using assms(3-9) by (simp add: as_configured_def iface_public_key_def)
  from update_peer_reuses [OF assms(1,2) this assms(11,10)] show ?thesis by blast
qed

definition known_peer_demo :: wireguard_peer where
  "known_peer_demo = (peer_link 6 5)\<lparr>peer_public_key := replicate 32 1, timeout_rekey := 5,
     timeout_rekey_after_time := 120, n_endpoints := 1,
     endpoints := \<lparr>ep_alive = False, ep_is_proxy = True, ep_ip = 7, ep_port = 82\<rparr> #
       replicate 15 \<lparr>ep_alive = False, ep_is_proxy = False, ep_ip = 0, ep_port = 0\<rparr>\<rparr>"

definition known_conf_demo :: wireguard_iface_peer where
  "known_conf_demo = wireguard_iface_peer_init\<lparr>if_public_key := Some ''AQEBAQEBAQEBAQEBAQEBAQEBAQEBAQEBAQEBAQEBAQE='',
     if_n_endpoints := 1, if_endpoints := \<lparr>ie_is_proxy = True, ie_ip = 7, ie_port = 82\<rparr> #
       replicate 15 \<lparr>ie_is_proxy = False, ie_ip = 0, ie_port = 51820\<rparr>\<rparr>"

theorem reused_peer_keeps_state_witness:
  "\<exists>a b c w'. update_peer dh_demo [known_peer_demo] (known_conf_demo\<lparr>if_iface_addr := 9, if_allowed_ip := 9,
        if_allowed_mask := 0xFFFFFFFF, if_keep_alive := 0\<rparr>) (device_demo [peer_zero]) (world_demo 7 1) =
      Some ((0, 1, 0), upd_peer 0 (([known_peer_demo] ! 0)\<lparr>timeout_rekey := a, timeout_rekey_after_time := b,
        timeout_reject_after_time := c\<rparr>) (device_demo [peer_zero]), w')"
proof -
  have k: "iface_public_key known_conf_demo = Some (replicate 32 1)" by code_simp
  have p: "peer_valid known_peer_demo" "peer_public_key known_peer_demo = replicate 32 1" "n_endpoints known_peer_demo = 1"
      "otp_enabled known_peer_demo = False" "otp_sender known_peer_demo = 0" "otp_receiver known_peer_demo = [0, 0, 0]"
      "endpoints known_peer_demo ! 0 = \<lparr>ep_alive = False, ep_is_proxy = True, ep_ip = 7, ep_port = 82\<rparr>"
      "peer_ok known_peer_demo"
    by (simp_all add: known_peer_demo_def peer_link_def peer_zero_def peer_ok_def timeouts_ok_def)
  have u: "keys_unique [known_peer_demo]" by (simp add: keys_unique_def valid_slots_def)
  have al: "wireguard_peer_alloc (device_demo [peer_zero]) = Some 0"
    by (simp add: wireguard_peer_alloc_def device_demo_def peer_zero_def)
  show ?thesis
    by (rule reused_peer_keeps_state [OF u])
      (simp_all add: p k al, simp_all add: known_conf_demo_def wireguard_iface_peer_init_def)
qed

end
