(* ===== verification/Callout.thy ===== *)
theory Callout
  imports Iface_Output
begin

text \<open>
  The timers of \<open>common/callout.c\<close>: a wheel of queues, one per residue of the due time, and the clock
  that runs the callouts that are due. Callouts are named by natural numbers and kept in \<open>cb_co\<close>.
  Clock ticks (\<open>clock_t\<close>, 64 bits at 100 ticks per second) are integers. The function of a callout is an
  argument of the clock, since it may use the wheel again. The averages for diagnosis are left out.
\<close>

section \<open>Queues\<close>

fun tailq_next :: "nat \<Rightarrow> nat list \<Rightarrow> nat option" where
  "tailq_next c [] = None"
| "tailq_next c (x # xs) = (if x = c then (case xs of [] \<Rightarrow> None | y # _ \<Rightarrow> Some y) else tailq_next c xs)"

definition tailq_first :: "nat list \<Rightarrow> nat option" where
  "tailq_first xs = (case xs of [] \<Rightarrow> None | x # _ \<Rightarrow> Some x)"

section \<open>Callouts\<close>

record callout =
  c_time :: int
  c_active :: bool
  c_pending :: bool
  c_id :: int

record callout_block =
  cb_ticks :: int
  cb_softticks :: int
  cb_wheel :: "nat list list"
  cb_nextsoftcheck :: "nat option"
  cb_co :: "nat \<Rightarrow> callout"

definition callout_init :: "nat \<Rightarrow> int \<Rightarrow> callout_block \<Rightarrow> callout_block" where
  "callout_init c i cb = cb\<lparr>cb_co := (cb_co cb)(c := \<lparr>c_time = 0, c_active = False, c_pending = False, c_id = i\<rparr>)\<rparr>"

text \<open>\<open>time & callwheelmask\<close>: the size of the wheel is a power of two.\<close>

definition bucket_of :: "callout_block \<Rightarrow> int \<Rightarrow> nat" where
  "bucket_of cb t = nat (t mod int (length (cb_wheel cb)))"

definition wheel_remove :: "nat \<Rightarrow> callout_block \<Rightarrow> callout_block" where
  "wheel_remove c cb = (let b = bucket_of cb (c_time (cb_co cb c))
     in cb\<lparr>cb_wheel := (cb_wheel cb)[b := remove1 c (cb_wheel cb ! b)]\<rparr>)"

text \<open>The removal of a pending callout, with the care for the running clock.\<close>

definition unqueue :: "nat \<Rightarrow> callout_block \<Rightarrow> callout_block" where
  "unqueue c cb =
     (let b = bucket_of cb (c_time (cb_co cb c));
          cb = (if cb_nextsoftcheck cb = Some c
                then cb\<lparr>cb_nextsoftcheck := tailq_next c (cb_wheel cb ! b)\<rparr> else cb)
      in wheel_remove c cb)"

definition callout_reset :: "callout_block \<Rightarrow> nat \<Rightarrow> int \<Rightarrow> bool \<times> callout_block" where
  "callout_reset cb c to_ticks =
     (let cancelled = c_pending (cb_co cb c);
          cb = (if cancelled then unqueue c cb else cb);
          to_ticks = (if to_ticks \<le> 0 then 1 else to_ticks);
          t = cb_ticks cb + to_ticks;
          co = (cb_co cb c)\<lparr>c_active := True, c_pending := True, c_time := t\<rparr>;
          b = bucket_of cb t
      in (cancelled, cb\<lparr>cb_co := (cb_co cb)(c := co), cb_wheel := (cb_wheel cb)[b := cb_wheel cb ! b @ [c]]\<rparr>))"

definition callout_stop :: "callout_block \<Rightarrow> nat \<Rightarrow> bool \<times> callout_block" where
  "callout_stop cb c =
     (if \<not> c_pending (cb_co cb c)
      then (False, cb\<lparr>cb_co := (cb_co cb)(c := (cb_co cb c)\<lparr>c_active := False\<rparr>)\<rparr>)
      else let cb = unqueue c cb
           in (True, cb\<lparr>cb_co := (cb_co cb)(c := (cb_co cb c)\<lparr>c_active := False, c_pending := False\<rparr>)\<rparr>))"

section \<open>The clock\<close>

text \<open>The inner loop over a queue, from the callout \<open>c\<close> on, and the loop over the ticks. \<open>f c\<close> is the
  function of callout \<open>c\<close>, on the block and the rest of the state.\<close>

partial_function (option) bucket_loop ::
  "(nat \<Rightarrow> callout_block \<times> 's \<Rightarrow> (callout_block \<times> 's) option) \<Rightarrow> int \<Rightarrow> nat option \<Rightarrow> nat \<Rightarrow>
     callout_block \<times> 's \<Rightarrow> (nat \<times> callout_block \<times> 's) option" where
  "bucket_loop f curticks c steps st =
     (case c of
        None \<Rightarrow> Some (steps, st)
      | Some c \<Rightarrow>
          let cb = fst st; queue = cb_wheel cb ! bucket_of cb curticks in
          if c_time (cb_co cb c) \<noteq> curticks
          then let c = tailq_next c queue in
               if steps + 1 \<ge> 100
               then bucket_loop f curticks c 0 (cb\<lparr>cb_nextsoftcheck := c\<rparr>, snd st)
               else bucket_loop f curticks c (steps + 1) st
          else let cb = cb\<lparr>cb_nextsoftcheck := tailq_next c queue\<rparr>;
                   cb = wheel_remove c cb;
                   cb = cb\<lparr>cb_co := (cb_co cb)(c := (cb_co cb c)\<lparr>c_pending := False\<rparr>)\<rparr>
               in Option.bind (f c (cb, snd st))
                    (\<lambda>st. bucket_loop f curticks (cb_nextsoftcheck (fst st)) 0 st))"

partial_function (option) clock_loop ::
  "(nat \<Rightarrow> callout_block \<times> 's \<Rightarrow> (callout_block \<times> 's) option) \<Rightarrow> nat \<Rightarrow>
     callout_block \<times> 's \<Rightarrow> (callout_block \<times> 's) option" where
  "clock_loop f steps st =
     (let cb = fst st in
      if cb_softticks cb = cb_ticks cb then Some st
      else let cb = cb\<lparr>cb_softticks := cb_softticks cb + 1\<rparr>;
               curticks = cb_softticks cb;
               c = tailq_first (cb_wheel cb ! bucket_of cb curticks)
           in Option.bind (bucket_loop f curticks c steps (cb, snd st)) (\<lambda>r. clock_loop f (fst r) (snd r)))"

definition COT_clock ::
  "(nat \<Rightarrow> callout_block \<times> 's \<Rightarrow> (callout_block \<times> 's) option) \<Rightarrow>
     callout_block \<times> 's \<Rightarrow> (callout_block \<times> 's) option" where
  "COT_clock f st = map_option (\<lambda>(cb, s). (cb\<lparr>cb_nextsoftcheck := None\<rparr>, s)) (clock_loop f 0 st)"

definition COT_ticks :: "int \<Rightarrow> callout_block \<Rightarrow> callout_block" where
  "COT_ticks now cb = cb\<lparr>cb_ticks := now\<rparr>"

text \<open>The size of the wheel: the loop doubles it until it holds \<open>ncallout\<close> queues.\<close>

function wheel_size :: "nat \<Rightarrow> nat \<Rightarrow> nat" where
  "wheel_size ncallout callwheelsize =
     (if 0 < callwheelsize \<and> callwheelsize < ncallout then wheel_size ncallout (2 * callwheelsize)
      else callwheelsize)"
  by auto
termination by (relation "measure (\<lambda>(n, s). n - s)") auto

definition COT_init :: "int \<Rightarrow> (nat \<Rightarrow> callout) \<Rightarrow> callout_block" where
  "COT_init now cos = \<lparr>cb_ticks = now, cb_softticks = now, cb_wheel = replicate (wheel_size 16 1) [],
     cb_nextsoftcheck = None, cb_co = cos\<rparr>"

section \<open>The timers of the tunnel\<close>

text \<open>Callout 0 is the timer of the device, callout 1 the periodic statistics, which only print. Each
  function arms its callout again, for 1 second and for 300 seconds.\<close>

definition CALLOUT_SECTOTICKS :: "int \<Rightarrow> int" where
  "CALLOUT_SECTOTICKS sec = sec * 100"

definition wg_callback ::
  "(bytes \<Rightarrow> bytes \<Rightarrow> bytes) \<Rightarrow> nat \<Rightarrow> callout_block \<times> wireguard_device \<times> world \<Rightarrow>
     (callout_block \<times> wireguard_device \<times> world) option" where
  "wg_callback dh c st =
     (case st of (cb, device, w) \<Rightarrow>
        if c = 0
        then do { (device, w) \<leftarrow> wireguard_iface_timer dh device w;
                  Some (snd (callout_reset cb c (CALLOUT_SECTOTICKS 1)), device, w) }
        else Some (snd (callout_reset cb c (CALLOUT_SECTOTICKS 300)), device, w))"

section \<open>The wheel\<close>

text \<open>Each queue holds the pending callouts of its residue, once.\<close>

definition wheel_ok :: "callout_block \<Rightarrow> bool" where
  "wheel_ok cb \<longleftrightarrow> length (cb_wheel cb) = 16 \<and>
     (\<forall>b < 16. distinct (cb_wheel cb ! b) \<and>
        set (cb_wheel cb ! b) = {c. c_pending (cb_co cb c) \<and> bucket_of cb (c_time (cb_co cb c)) = b})"

lemma bucket_less [simp]: "length (cb_wheel cb) = 16 \<Longrightarrow> bucket_of cb t < 16"
  by (simp add: bucket_of_def nat_less_iff)

lemma bucket_cong: "length (cb_wheel cb') = length (cb_wheel cb) \<Longrightarrow> bucket_of cb' t = bucket_of cb t"
  by (simp add: bucket_of_def)

definition due_at :: "callout_block \<Rightarrow> int \<Rightarrow> nat list" where
  "due_at cb t = filter (\<lambda>c. c_time (cb_co cb c) = t) (cb_wheel cb ! bucket_of cb t)"

text \<open>What the clock does with a due callout whose function arms it again after \<open>p\<close> ticks.\<close>

definition taken :: "nat \<Rightarrow> callout_block \<Rightarrow> callout_block" where
  "taken c cb = (let q = wheel_remove c cb in q\<lparr>cb_co := (cb_co q)(c := (cb_co q c)\<lparr>c_pending := False\<rparr>)\<rparr>)"

definition rearmed :: "int \<Rightarrow> nat \<Rightarrow> callout_block \<Rightarrow> callout_block" where
  "rearmed p c cb = snd (callout_reset (taken c cb) c p)"

lemma rearmed_simps:
  assumes "0 < p" and b: "b = bucket_of cb (c_time (cb_co cb c))" and b': "b' = bucket_of cb (cb_ticks cb + p)"
    and l: "length (cb_wheel cb) = 16"
  shows "cb_wheel (rearmed p c cb) = (let w = (cb_wheel cb)[b := remove1 c (cb_wheel cb ! b)] in w[b' := w ! b' @ [c]])"
    and "cb_co (rearmed p c cb) = (cb_co cb)(c := (cb_co cb c)\<lparr>c_active := True, c_pending := True, c_time := cb_ticks cb + p\<rparr>)"
    and "cb_ticks (rearmed p c cb) = cb_ticks cb" and "cb_softticks (rearmed p c cb) = cb_softticks cb"
    and "cb_nextsoftcheck (rearmed p c cb) = cb_nextsoftcheck cb" and "length (cb_wheel (rearmed p c cb)) = 16"
  using assms by (simp_all add: rearmed_def callout_reset_def taken_def wheel_remove_def Let_def bucket_of_def)

lemma wheel_okI:
  assumes "length (cb_wheel cb) = 16"
    and "\<And>k. k < 16 \<Longrightarrow> distinct (cb_wheel cb ! k)"
    and "\<And>k d. k < 16 \<Longrightarrow> d \<in> set (cb_wheel cb ! k) \<longleftrightarrow> c_pending (cb_co cb d) \<and> bucket_of cb (c_time (cb_co cb d)) = k"
  shows "wheel_ok cb"
  using assms by (auto simp: wheel_ok_def)

lemma wheel_okD:
  assumes "wheel_ok cb"
  shows "length (cb_wheel cb) = 16" and "k < 16 \<Longrightarrow> distinct (cb_wheel cb ! k)"
    and "k < 16 \<Longrightarrow> d \<in> set (cb_wheel cb ! k) \<longleftrightarrow> c_pending (cb_co cb d) \<and> bucket_of cb (c_time (cb_co cb d)) = k"
  using assms by (auto simp: wheel_ok_def)

lemma wheel_ok_cong: "cb_wheel cb' = cb_wheel cb \<Longrightarrow> cb_co cb' = cb_co cb \<Longrightarrow> wheel_ok cb' = wheel_ok cb"
  by (simp add: wheel_ok_def bucket_of_def)

text \<open>Taking a pending callout out, and putting one that is not pending in.\<close>

lemma taken_ok:
  assumes ok: "wheel_ok cb"
  shows "wheel_ok (taken c cb)"
proof (rule wheel_okI)
  note o = wheel_okD [OF ok]
  let ?b = "bucket_of cb (c_time (cb_co cb c))"
  have w: "cb_wheel (taken c cb) = (cb_wheel cb)[?b := remove1 c (cb_wheel cb ! ?b)]"
    and co: "cb_co (taken c cb) = (cb_co cb)(c := (cb_co cb c)\<lparr>c_pending := False\<rparr>)"
    by (simp_all add: taken_def wheel_remove_def Let_def)
  show l: "length (cb_wheel (taken c cb)) = 16" using o(1) by (simp add: w)
  have bk: "bucket_of (taken c cb) t = bucket_of cb t" for t by (rule bucket_cong) (simp add: l o(1))
  have nth: "cb_wheel (taken c cb) ! k = (if k = ?b then remove1 c (cb_wheel cb ! k) else cb_wheel cb ! k)" if "k < 16" for k
    using that o(1) by (simp add: w nth_list_update)
  show "distinct (cb_wheel (taken c cb) ! k)" if "k < 16" for k using that o(2) by (simp add: nth)
  show "d \<in> set (cb_wheel (taken c cb) ! k) \<longleftrightarrow>
      c_pending (cb_co (taken c cb) d) \<and> bucket_of (taken c cb) (c_time (cb_co (taken c cb) d)) = k" if "k < 16" for k d
  proof -
    have "d \<in> set (cb_wheel (taken c cb) ! k) \<longleftrightarrow> d \<in> set (cb_wheel cb ! k) \<and> d \<noteq> c"
    proof (cases "k = ?b")
      case True
      then show ?thesis unfolding nth [OF that] using set_remove1_eq [OF o(2) [OF that]] by simp
    next
      case False
      then have "c \<notin> set (cb_wheel cb ! k)" using o(3) [OF that, of c] by metis
      then show ?thesis unfolding nth [OF that] using False by auto
    qed
    then show ?thesis unfolding bk co o(3) [OF that] by simp
  qed
qed

lemma armed_ok:
  assumes ok: "wheel_ok cb" and c: "\<not> c_pending (cb_co cb c)"
  shows "wheel_ok (snd (callout_reset cb c p))"
proof (rule wheel_okI)
  note o = wheel_okD [OF ok]
  define t where "t = cb_ticks cb + (if p \<le> 0 then 1 else p)"
  let ?b = "bucket_of cb t" and ?q = "snd (callout_reset cb c p)"
  have w: "cb_wheel ?q = (cb_wheel cb)[?b := cb_wheel cb ! ?b @ [c]]"
    and co: "cb_co ?q = (cb_co cb)(c := (cb_co cb c)\<lparr>c_active := True, c_pending := True, c_time := t\<rparr>)"
    using c by (simp_all add: callout_reset_def Let_def t_def)
  show l: "length (cb_wheel ?q) = 16" using o(1) by (simp add: w)
  have bk: "bucket_of ?q u = bucket_of cb u" for u by (rule bucket_cong) (simp add: l o(1))
  have nth: "cb_wheel ?q ! k = (if k = ?b then cb_wheel cb ! k @ [c] else cb_wheel cb ! k)" if "k < 16" for k
    using that o(1) by (simp add: w nth_list_update)
  show "distinct (cb_wheel ?q ! k)" if "k < 16" for k using that o(2,3) c by (simp add: nth)
  show "d \<in> set (cb_wheel ?q ! k) \<longleftrightarrow> c_pending (cb_co ?q d) \<and> bucket_of ?q (c_time (cb_co ?q d)) = k" if "k < 16" for k d
  proof -
    have "d \<in> set (cb_wheel ?q ! k) \<longleftrightarrow> d \<in> set (cb_wheel cb ! k) \<or> d = c \<and> k = ?b"
      unfolding nth [OF that] by auto
    then show ?thesis unfolding bk co o(3) [OF that] using c by auto
  qed
qed

lemma rearmed_ok: "wheel_ok cb \<Longrightarrow> wheel_ok (rearmed p c cb)"
  unfolding rearmed_def by (intro armed_ok taken_ok) (simp_all add: taken_def Let_def)

lemma callout_reset_ok: "wheel_ok cb \<Longrightarrow> wheel_ok (snd (callout_reset cb c p))"
proof (cases "c_pending (cb_co cb c)")
  case True
  assume "wheel_ok cb"
  then have "wheel_ok (rearmed p c cb)" by (rule rearmed_ok)
  moreover have "wheel_ok (snd (callout_reset cb c p)) = wheel_ok (rearmed p c cb)"
  proof (rule wheel_ok_cong)
    show "cb_wheel (snd (callout_reset cb c p)) = cb_wheel (rearmed p c cb)"
      using True unfolding rearmed_def taken_def callout_reset_def unqueue_def wheel_remove_def Let_def bucket_of_def
      by simp
    show "cb_co (snd (callout_reset cb c p)) = cb_co (rearmed p c cb)"
      using True unfolding rearmed_def taken_def callout_reset_def unqueue_def wheel_remove_def Let_def by simp
  qed
  ultimately show ?thesis by simp
qed (rule armed_ok)

lemma callout_stop_ok:
  assumes ok: "wheel_ok cb"
  shows "wheel_ok (snd (callout_stop cb c))"
proof (cases "c_pending (cb_co cb c)")
  case True
  let ?q = "(taken c cb)\<lparr>cb_co := (cb_co (taken c cb))(c := (cb_co (taken c cb) c)\<lparr>c_active := False\<rparr>)\<rparr>"
  have "wheel_ok ?q" using taken_ok [OF ok, of c] by (auto simp: wheel_ok_def bucket_of_def)
  moreover have "cb_co (snd (callout_stop cb c)) = cb_co ?q"
    using True by (cases "cb_co cb c") (simp add: callout_stop_def taken_def unqueue_def wheel_remove_def Let_def)
  then have "wheel_ok (snd (callout_stop cb c)) = wheel_ok ?q" using True
    by (intro wheel_ok_cong) (simp_all add: callout_stop_def taken_def unqueue_def wheel_remove_def Let_def bucket_of_def)
  ultimately show ?thesis by simp
next
  case False
  then show ?thesis using ok by (auto simp: callout_stop_def wheel_ok_def bucket_of_def)
qed

lemma rearmed_due:
  assumes ok: "wheel_ok cb" and c: "c_time (cb_co cb c) \<noteq> t" and p: "0 < p" and t: "t \<le> cb_ticks cb"
  shows "due_at (rearmed p c cb) t = due_at cb t"
proof -
  have l: "length (cb_wheel cb) = 16" using ok by (simp add: wheel_ok_def)
  note r = rearmed_simps [OF p refl refl l, of c]
  have bk: "bucket_of (rearmed p c cb) t = bucket_of cb t" by (rule bucket_cong) (simp add: r(6) l)
  have e: "c_time (cb_co (rearmed p c cb) d) = t \<longleftrightarrow> c_time (cb_co cb d) = t" for d
    unfolding r(2) using c p t by simp
  have rm: "filter (\<lambda>d. c_time (cb_co cb d) = t) (remove1 c xs) = filter (\<lambda>d. c_time (cb_co cb d) = t) xs" for xs
    using c by (induction xs) auto
  let ?b = "bucket_of cb (c_time (cb_co cb c))" and ?b' = "bucket_of cb (cb_ticks cb + p)"
  define W1 where "W1 = (cb_wheel cb)[?b := remove1 c (cb_wheel cb ! ?b)]"
  have b: "?b < 16" "?b' < 16" "length W1 = 16" using l by (simp_all add: W1_def)
  have W1: "filter (\<lambda>d. c_time (cb_co cb d) = t) (W1 ! k) = filter (\<lambda>d. c_time (cb_co cb d) = t) (cb_wheel cb ! k)" for k
    using b(1) l by (cases "k = ?b") (simp_all add: W1_def rm)
  have "cb_wheel (rearmed p c cb) ! k = (if k = ?b' then W1 ! k @ [c] else W1 ! k)" for k
    unfolding r(1) Let_def W1_def [symmetric] using b by (simp add: nth_list_update)
  then show ?thesis unfolding due_at_def bk e using W1 c by simp
qed

lemma tailq_next_append: "distinct (xs @ c # ys) \<Longrightarrow> tailq_next c (xs @ c # ys) = tailq_first ys"
  by (induction xs) (auto simp: tailq_first_def)

section \<open>Callouts that arm themselves again\<close>

text \<open>The work of a sequence of callouts, and the callouts once those in \<open>D\<close> armed themselves again.\<close>

fun effects :: "(nat \<Rightarrow> 's \<Rightarrow> 's option) \<Rightarrow> nat list \<Rightarrow> 's \<Rightarrow> 's option" where
  "effects f [] s = Some s"
| "effects f (c # cs) s = Option.bind (f c s) (effects f cs)"

lemma effects_append: "effects f (xs @ ys) s = Option.bind (effects f xs s) (effects f ys)"
proof (induction xs arbitrary: s)
  case (Cons c xs)
  then show ?case by (cases "f c s") simp_all
qed simp

definition after :: "(nat \<Rightarrow> int) \<Rightarrow> callout_block \<Rightarrow> (nat \<Rightarrow> bool) \<Rightarrow> nat \<Rightarrow> callout" where
  "after period cb D c =
     (if D c then (cb_co cb c)\<lparr>c_active := True, c_pending := True, c_time := cb_ticks cb + period c\<rparr>
      else cb_co cb c)"

text \<open>What the clock relies on: the function of a callout does its work and arms the callout again.\<close>

locale periodic_callouts =
  fixes callback :: "nat \<Rightarrow> callout_block \<times> 's \<Rightarrow> (callout_block \<times> 's) option"
    and effect :: "nat \<Rightarrow> 's \<Rightarrow> 's option" and period :: "nat \<Rightarrow> int"
  assumes rearms: "callback c (cb, s) = map_option (\<lambda>s'. (snd (callout_reset cb c (period c)), s')) (effect c s)"
    and period_pos: "0 < period c"
begin

lemma run_due:
  assumes ok: "wheel_ok cb" and q: "cb_wheel cb ! bucket_of cb t = xs @ c # ys" and c: "c_time (cb_co cb c) = t"
    and t: "t \<le> cb_ticks cb"
  defines "cb0 \<equiv> cb\<lparr>cb_nextsoftcheck := tailq_next c (xs @ c # ys)\<rparr>"
  defines "cb1 \<equiv> rearmed (period c) c cb0"
  shows "bucket_loop callback t (Some c) steps (cb, s) =
      Option.bind (effect c s) (\<lambda>s'. bucket_loop callback t (tailq_first ys) 0 (cb1, s'))"
    and "wheel_ok cb1" and "cb_wheel cb1 ! bucket_of cb1 t = xs @ ys \<or> cb_wheel cb1 ! bucket_of cb1 t = xs @ ys @ [c]"
    and "cb_ticks cb1 = cb_ticks cb" and "cb_softticks cb1 = cb_softticks cb" and "cb_co cb1 = after period cb (\<lambda>d. d = c)"
    and "\<And>t'. t' \<noteq> t \<Longrightarrow> t' \<le> cb_ticks cb \<Longrightarrow> due_at cb1 t' = due_at cb t'"
proof -
  have l: "length (cb_wheel cb) = 16" using ok by (simp add: wheel_ok_def)
  have b: "bucket_of cb t < 16" using l by simp
  have dq: "distinct (xs @ c # ys)" "c_pending (cb_co cb c)" using ok b unfolding wheel_ok_def q [symmetric]
    by (blast, metis (mono_tags, lifting) in_set_conv_decomp mem_Collect_eq q)
  have ok0: "wheel_ok cb0" and l0: "length (cb_wheel cb0) = 16" using ok l by (simp_all add: cb0_def wheel_ok_def bucket_of_def)
  note r = rearmed_simps [OF period_pos refl refl l0, of c c, folded cb1_def]
  have f0: "cb_co cb0 = cb_co cb" "cb_ticks cb0 = cb_ticks cb" "cb_softticks cb0 = cb_softticks cb" "cb_wheel cb0 = cb_wheel cb"
      "cb_nextsoftcheck cb0 = tailq_first ys" "bucket_of cb0 u = bucket_of cb u" for u
    using tailq_next_append [OF dq(1)] by (simp_all add: cb0_def bucket_of_def)
  show "wheel_ok cb1" unfolding cb1_def by (rule rearmed_ok [OF ok0])
  have bk: "bucket_of cb1 t = bucket_of cb t" by (rule bucket_cong) (simp add: r(6) l)
  have rm: "remove1 c (xs @ c # ys) = xs @ ys" using dq(1) by (simp add: remove1_append)
  show "cb_wheel cb1 ! bucket_of cb1 t = xs @ ys \<or> cb_wheel cb1 ! bucket_of cb1 t = xs @ ys @ [c]"
    unfolding bk r(1) Let_def f0 c q rm using l b by (simp add: nth_list_update)
  show "cb_ticks cb1 = cb_ticks cb" "cb_softticks cb1 = cb_softticks cb" using r(3,4) f0 by simp_all
  show "cb_co cb1 = after period cb (\<lambda>d. d = c)" unfolding r(2) f0 by (auto simp: after_def)
  show "due_at cb1 t' = due_at cb t'" if "t' \<noteq> t" "t' \<le> cb_ticks cb" for t'
  proof -
    have "due_at cb1 t' = due_at cb0 t'"
      unfolding cb1_def using that c f0 by (intro rearmed_due [OF ok0 _ period_pos]) simp_all
    then show ?thesis by (simp add: due_at_def f0)
  qed
  have "taken c cb0 = (let q = wheel_remove c cb0 in q\<lparr>cb_co := (cb_co q)(c := (cb_co q c)\<lparr>c_pending := False\<rparr>)\<rparr>)"
    by (simp add: taken_def)
  then show "bucket_loop callback t (Some c) steps (cb, s) =
      Option.bind (effect c s) (\<lambda>s'. bucket_loop callback t (tailq_first ys) 0 (cb1, s'))"
    using c q r(5) f0(5)
    by (subst bucket_loop.simps) (cases "effect c s"; simp add: Let_def rearms cb0_def [symmetric] rearmed_def cb1_def)
qed

lemma nextsoftcheck_irrelevant [simp]:
  "wheel_ok (cb\<lparr>cb_nextsoftcheck := x\<rparr>) = wheel_ok cb" "bucket_of (cb\<lparr>cb_nextsoftcheck := x\<rparr>) = bucket_of cb"
  "due_at (cb\<lparr>cb_nextsoftcheck := x\<rparr>) = due_at cb" "after period (cb\<lparr>cb_nextsoftcheck := x\<rparr>) D = after period cb D"
  by (simp_all add: wheel_ok_def bucket_of_def due_at_def after_def fun_eq_iff)

text \<open>A queue from the callout at the head of \<open>rest\<close> on: the due callouts run in their order.\<close>

definition runs_due :: "int \<Rightarrow> nat list \<Rightarrow> nat option \<Rightarrow> nat \<Rightarrow> callout_block \<Rightarrow> bool" where
  "runs_due t rest c steps cb \<longleftrightarrow>
     (\<exists>n cb'. (\<forall>s. bucket_loop callback t c steps (cb, s) =
          map_option (\<lambda>s'. (n, cb', s')) (effects effect (filter (\<lambda>c. c_time (cb_co cb c) = t) rest) s)) \<and>
        wheel_ok cb' \<and> cb_ticks cb' = cb_ticks cb \<and> cb_softticks cb' = cb_softticks cb \<and>
        cb_co cb' = after period cb (\<lambda>c. c \<in> set rest \<and> c_time (cb_co cb c) = t) \<and>
        (\<forall>t'. t' \<noteq> t \<longrightarrow> t' \<le> cb_ticks cb \<longrightarrow> due_at cb' t' = due_at cb t'))"

lemma runs_due_skip:
  assumes r: "runs_due t ys (tailq_first ys) steps' cb1" and c: "c_time (cb_co cb c) \<noteq> t"
    and cb1: "cb1 = cb \<or> cb1 = cb\<lparr>cb_nextsoftcheck := x\<rparr>"
    and e: "\<And>s. bucket_loop callback t (Some c) steps (cb, s) = bucket_loop callback t (tailq_first ys) steps' (cb1, s)"
  shows "runs_due t (c # ys) (Some c) steps cb"
proof -
  have f: "cb_co cb1 = cb_co cb" "cb_ticks cb1 = cb_ticks cb" "cb_softticks cb1 = cb_softticks cb"
      "due_at cb1 = due_at cb" "after period cb1 = after period cb"
    using cb1 by auto
  have "filter (\<lambda>c. c_time (cb_co cb c) = t) (c # ys) = filter (\<lambda>c. c_time (cb_co cb c) = t) ys"
    "(\<lambda>d. d \<in> set (c # ys) \<and> c_time (cb_co cb d) = t) = (\<lambda>d. d \<in> set ys \<and> c_time (cb_co cb d) = t)"
    using c by auto
  then show ?thesis using r unfolding runs_due_def f e by simp
qed

lemma runs_due_run:
  assumes r: "runs_due t rest (tailq_first ys) 0 cb1" and c: "c_time (cb_co cb c) = t" and t: "t \<le> cb_ticks cb"
    and rest: "filter (\<lambda>d. c_time (cb_co cb1 d) = t) rest = filter (\<lambda>d. c_time (cb_co cb d) = t) ys"
    and e: "\<And>s. bucket_loop callback t (Some c) steps (cb, s) =
      Option.bind (effect c s) (\<lambda>s'. bucket_loop callback t (tailq_first ys) 0 (cb1, s'))"
    and f: "cb_ticks cb1 = cb_ticks cb" "cb_softticks cb1 = cb_softticks cb" "cb_co cb1 = after period cb (\<lambda>d. d = c)"
      "\<And>t'. t' \<noteq> t \<Longrightarrow> t' \<le> cb_ticks cb \<Longrightarrow> due_at cb1 t' = due_at cb t'" and nc: "c \<notin> set ys"
  shows "runs_due t (c # ys) (Some c) steps cb"
proof -
  have d1: "d \<in> set rest \<and> c_time (cb_co cb1 d) = t \<longleftrightarrow> d \<in> set ys \<and> c_time (cb_co cb d) = t" for d
    using arg_cong [OF rest, of "\<lambda>xs. d \<in> set xs"] by auto
  have a: "after period cb1 (\<lambda>d. d \<in> set rest \<and> c_time (cb_co cb1 d) = t) = after period cb (\<lambda>d. d \<in> set (c # ys) \<and> c_time (cb_co cb d) = t)"
    unfolding d1 using nc c f(1) by (auto simp: after_def f(3) fun_eq_iff)
  obtain n cb' where n: "\<And>s. bucket_loop callback t (tailq_first ys) 0 (cb1, s) =
          map_option (\<lambda>s'. (n, cb', s')) (effects effect (filter (\<lambda>d. c_time (cb_co cb d) = t) ys) s)"
      "wheel_ok cb'" "cb_ticks cb' = cb_ticks cb" "cb_softticks cb' = cb_softticks cb"
      "cb_co cb' = after period cb (\<lambda>d. d \<in> set (c # ys) \<and> c_time (cb_co cb d) = t)"
      "\<forall>t'. t' \<noteq> t \<longrightarrow> t' \<le> cb_ticks cb \<longrightarrow> due_at cb' t' = due_at cb t'"
    using r f unfolding runs_due_def rest a by auto
  have "bucket_loop callback t (Some c) steps (cb, s) =
          map_option (\<lambda>s'. (n, cb', s')) (effects effect (filter (\<lambda>d. c_time (cb_co cb d) = t) (c # ys)) s)" for s
    unfolding e n(1) using c by (cases "effect c s") simp_all
  with n(2-6) show ?thesis unfolding runs_due_def by blast
qed

lemma bucket_loop_runs:
  assumes "wheel_ok cb" and "cb_wheel cb ! bucket_of cb t = xs @ rest" and "t \<le> cb_ticks cb"
  shows "runs_due t rest (tailq_first rest) steps cb"
  using assms
proof (induction "2 * length (filter (\<lambda>c. c_time (cb_co cb c) = t) rest) + length rest" arbitrary: cb xs rest steps
    rule: less_induct)
  case less
  show ?case
  proof (cases rest)
    case Nil
    have "bucket_loop callback t None steps (cb, s) = Some (steps, cb, s)" for s by (subst bucket_loop.simps) simp
    then show ?thesis using Nil less.prems(1) unfolding runs_due_def
      by (intro exI [of _ steps] exI [of _ cb]) (auto simp: tailq_first_def after_def)
  next
    case (Cons c ys)
    have first: "tailq_first (c # ys) = Some c" by (simp add: tailq_first_def)
    have q: "cb_wheel cb ! bucket_of cb t = xs @ c # ys" using less.prems(2) Cons by simp
    have l: "length (cb_wheel cb) = 16" using less.prems(1) by (simp add: wheel_ok_def)
    have dq: "distinct (xs @ c # ys)" using less.prems(1) l unfolding q [symmetric] wheel_ok_def by simp
    show ?thesis
    proof (cases "c_time (cb_co cb c) = t")
      case False
      define cb1 where "cb1 = (if steps + 1 \<ge> 100 then cb\<lparr>cb_nextsoftcheck := tailq_first ys\<rparr> else cb)"
      define steps' where "steps' = (if steps + 1 \<ge> 100 then 0 else steps + 1)"
      have e: "bucket_loop callback t (Some c) steps (cb, s) = bucket_loop callback t (tailq_first ys) steps' (cb1, s)" for s
        using False q tailq_next_append [OF dq]
        by (subst bucket_loop.simps) (simp add: Let_def cb1_def steps'_def)
      have "runs_due t ys (tailq_first ys) steps' cb1"
        using less.prems q False Cons by (intro less.hyps [of cb1 ys "xs @ [c]"]) (simp_all add: cb1_def)
      then show ?thesis unfolding Cons first
        by (rule runs_due_skip [where x = "tailq_first ys"]) (use False e in \<open>auto simp: cb1_def\<close>)
    next
      case True
      define cb1 where "cb1 = rearmed (period c) c (cb\<lparr>cb_nextsoftcheck := tailq_next c (xs @ c # ys)\<rparr>)"
      note rd = run_due [OF less.prems(1) q True less.prems(3), folded cb1_def]
      have nc: "c \<notin> set ys" using dq by simp
      have ct: "c_time (cb_co cb1 c) \<noteq> t" "\<And>d. d \<noteq> c \<Longrightarrow> c_time (cb_co cb1 d) = c_time (cb_co cb d)"
        using less.prems(3) period_pos [of c] by (simp_all add: rd(6) after_def)
      have fy: "filter (\<lambda>d. c_time (cb_co cb1 d) = t) ys = filter (\<lambda>d. c_time (cb_co cb d) = t) ys"
        by (intro filter_cong refl) (metis nc ct(2))
      obtain xs1 rest1 where r1: "cb_wheel cb1 ! bucket_of cb1 t = xs1 @ rest1" "tailq_first rest1 = tailq_first ys"
          "rest1 = ys \<or> rest1 = ys @ [c]"
      proof (cases "cb_wheel cb1 ! bucket_of cb1 t = xs @ ys")
        case True
        then show thesis by (intro that [of xs ys]) simp_all
      next
        case False
        then have "cb_wheel cb1 ! bucket_of cb1 t = xs @ ys @ [c]" using rd(3) by simp
        then show thesis using that [of "xs @ [c]" "[]"] that [of xs "ys @ [c]"] by (cases ys) (simp_all add: tailq_first_def)
      qed
      have f1: "filter (\<lambda>d. c_time (cb_co cb1 d) = t) rest1 = filter (\<lambda>d. c_time (cb_co cb d) = t) ys"
        using r1(3) ct(1) fy by auto
      have "runs_due t rest1 (tailq_first rest1) 0 cb1"
        using r1 f1 True Cons rd(2,4) less.prems(3) by (intro less.hyps [of cb1 rest1 xs1]) auto
      then show ?thesis unfolding Cons first r1(2)
        by (rule runs_due_run [OF _ True less.prems(3) f1 rd(1) rd(4,5,6) _ nc]) (use rd(7) in auto)
    qed
  qed
qed

text \<open>A tick: the queue of the tick is run, and what is due at other ticks stays.\<close>

lemma tick_runs:
  assumes ok: "wheel_ok cb" and t: "t \<le> cb_ticks cb"
  obtains n cb' where "\<And>s. bucket_loop callback t (tailq_first (cb_wheel cb ! bucket_of cb t)) steps (cb, s) =
        map_option (\<lambda>s'. (n, cb', s')) (effects effect (due_at cb t) s)"
    and "wheel_ok cb'" and "cb_ticks cb' = cb_ticks cb" and "cb_softticks cb' = cb_softticks cb"
    and "cb_co cb' = after period cb (\<lambda>c. c_pending (cb_co cb c) \<and> c_time (cb_co cb c) = t)"
    and "\<And>t'. t' \<noteq> t \<Longrightarrow> t' \<le> cb_ticks cb \<Longrightarrow> due_at cb' t' = due_at cb t'"
proof -
  let ?q = "cb_wheel cb ! bucket_of cb t"
  have "runs_due t ?q (tailq_first ?q) steps cb" by (rule bucket_loop_runs [OF ok _ t, of "[]"]) simp
  moreover have "(\<lambda>c. c \<in> set ?q \<and> c_time (cb_co cb c) = t) = (\<lambda>c. c_pending (cb_co cb c) \<and> c_time (cb_co cb c) = t)"
    using wheel_okD(3) [OF ok bucket_less [OF wheel_okD(1) [OF ok]]] by (auto simp: fun_eq_iff)
  ultimately show thesis unfolding runs_due_def due_at_def [symmetric] using that by auto
qed

lemma after_after:
  assumes "cb_co cb' = after period cb D" and "cb_ticks cb' = cb_ticks cb"
  shows "after period cb' D' = after period cb (\<lambda>c. D c \<or> D' c)"
  unfolding after_def assms by (auto simp: fun_eq_iff)

lemma clock_loop_runs:
  assumes "wheel_ok cb" and "cb_softticks cb \<le> cb_ticks cb"
  shows "\<exists>cb'. (\<forall>s. clock_loop callback steps (cb, s) =
        map_option (Pair cb') (effects effect (concat (map (due_at cb) [cb_softticks cb + 1..cb_ticks cb])) s)) \<and>
      wheel_ok cb' \<and> cb_ticks cb' = cb_ticks cb \<and> cb_softticks cb' = cb_ticks cb \<and>
      cb_co cb' = after period cb (\<lambda>c. c_pending (cb_co cb c) \<and>
        cb_softticks cb < c_time (cb_co cb c) \<and> c_time (cb_co cb c) \<le> cb_ticks cb)"
  using assms
proof (induction "nat (cb_ticks cb - cb_softticks cb)" arbitrary: cb steps)
  case 0
  then have e: "cb_softticks cb = cb_ticks cb" by simp
  then have c: "clock_loop callback steps (cb, s) = Some (cb, s)" for s by (subst clock_loop.simps) simp
  show ?case unfolding e
  proof (intro exI [of _ cb] conjI allI)
    show "clock_loop callback steps (cb, s) =
        map_option (Pair cb) (effects effect (concat (map (due_at cb) [cb_ticks cb + 1..cb_ticks cb])) s)" for s
      by (simp add: c)
    show "cb_co cb = after period cb (\<lambda>c. c_pending (cb_co cb c) \<and>
        cb_ticks cb < c_time (cb_co cb c) \<and> c_time (cb_co cb c) \<le> cb_ticks cb)"
      by (rule ext) (auto simp: after_def)
  qed (use e 0(2) in simp_all)
next
  case (Suc n)
  define t where "t = cb_softticks cb + 1"
  define cb0 where "cb0 = cb\<lparr>cb_softticks := t\<rparr>"
  have f0: "wheel_ok cb0" "cb_ticks cb0 = cb_ticks cb" "cb_softticks cb0 = t" "cb_co cb0 = cb_co cb"
      "due_at cb0 = due_at cb" "after period cb0 = after period cb" "t \<le> cb_ticks cb"
    using Suc.prems Suc.hyps(2) by (auto simp: cb0_def t_def wheel_ok_def due_at_def after_def bucket_of_def fun_eq_iff)
  obtain n' cb1 where tk: "\<And>s. bucket_loop callback t (tailq_first (cb_wheel cb0 ! bucket_of cb0 t)) steps (cb0, s) =
        map_option (\<lambda>s'. (n', cb1, s')) (effects effect (due_at cb t) s)"
    and cb1: "wheel_ok cb1" "cb_ticks cb1 = cb_ticks cb" "cb_softticks cb1 = t"
      "cb_co cb1 = after period cb (\<lambda>c. c_pending (cb_co cb c) \<and> c_time (cb_co cb c) = t)"
      "\<And>t'. t' \<noteq> t \<Longrightarrow> t' \<le> cb_ticks cb \<Longrightarrow> due_at cb1 t' = due_at cb t'"
    by (rule tick_runs [OF f0(1), of t steps, unfolded f0(2-6), OF f0(7)]) blast
  have m: "n = nat (cb_ticks cb1 - cb_softticks cb1)" using Suc.hyps(2) by (simp add: cb1(2,3) t_def)
  obtain cb' where IH: "\<And>s. clock_loop callback n' (cb1, s) =
        map_option (Pair cb') (effects effect (concat (map (due_at cb1) [t + 1..cb_ticks cb])) s)"
      "wheel_ok cb'" "cb_ticks cb' = cb_ticks cb" "cb_softticks cb' = cb_ticks cb"
      "cb_co cb' = after period cb1 (\<lambda>c. c_pending (cb_co cb1 c) \<and> t < c_time (cb_co cb1 c) \<and> c_time (cb_co cb1 c) \<le> cb_ticks cb)"
    using Suc.hyps(1) [OF m cb1(1), of n', unfolded cb1(2,3), OF f0(7)] by blast
  have later: "map (due_at cb1) [t + 1..cb_ticks cb] = map (due_at cb) [t + 1..cb_ticks cb]" using cb1(5) by auto
  have split: "[t..cb_ticks cb] = t # [t + 1..cb_ticks cb]" using f0(7) by (rule upto_rec1)
  have "clock_loop callback steps (cb, s) = Option.bind (effects effect (due_at cb t) s) (\<lambda>s. clock_loop callback n' (cb1, s))" for s
    using f0(7) tk [of s]
    by (subst clock_loop.simps) (cases "effects effect (due_at cb t) s"; simp add: Let_def cb0_def t_def)
  then have "clock_loop callback steps (cb, s) =
      map_option (Pair cb') (effects effect (concat (map (due_at cb) [cb_softticks cb + 1..cb_ticks cb])) s)" for s
    unfolding t_def [symmetric] split IH(1) later
    by (cases "effects effect (due_at cb t) s") (simp_all add: effects_append)
  moreover have "cb_co cb' = after period cb (\<lambda>c. c_pending (cb_co cb c) \<and>
      cb_softticks cb < c_time (cb_co cb c) \<and> c_time (cb_co cb c) \<le> cb_ticks cb)"
  proof -
    have "c_pending (cb_co cb c) \<and> c_time (cb_co cb c) = t \<or>
        c_pending (cb_co cb1 c) \<and> t < c_time (cb_co cb1 c) \<and> c_time (cb_co cb1 c) \<le> cb_ticks cb \<longleftrightarrow>
      c_pending (cb_co cb c) \<and> cb_softticks cb < c_time (cb_co cb c) \<and> c_time (cb_co cb c) \<le> cb_ticks cb" for c
      using f0(7) period_pos [of c] by (auto simp: cb1(4) after_def t_def)
    then show ?thesis unfolding IH(5) after_after [OF cb1(4,2)] by simp
  qed
  ultimately show ?case using IH(2-4) by blast
qed

end

section \<open>The timers of the tunnel run when they are due\<close>

text \<open>No pending callout is overdue: its time is after the last tick the clock has seen.\<close>

definition nothing_overdue :: "callout_block \<Rightarrow> bool" where
  "nothing_overdue cb \<longleftrightarrow> cb_softticks cb \<le> cb_ticks cb \<and> (\<forall>c. c_pending (cb_co cb c) \<longrightarrow> cb_softticks cb < c_time (cb_co cb c))"

definition due :: "callout_block \<Rightarrow> nat \<Rightarrow> bool" where
  "due cb c \<longleftrightarrow> c_pending (cb_co cb c) \<and> c_time (cb_co cb c) \<le> cb_ticks cb"

definition wg_period :: "nat \<Rightarrow> int" where
  "wg_period c = (if c = 0 then CALLOUT_SECTOTICKS 1 else CALLOUT_SECTOTICKS 300)"

definition wg_effect ::
  "(bytes \<Rightarrow> bytes \<Rightarrow> bytes) \<Rightarrow> nat \<Rightarrow> wireguard_device \<times> world \<Rightarrow> (wireguard_device \<times> world) option" where
  "wg_effect dh c s = (if c = 0 then wireguard_iface_timer dh (fst s) (snd s) else Some s)"

interpretation wg: periodic_callouts "wg_callback dh" "wg_effect dh" wg_period for dh
proof
  show "wg_callback dh c (cb, s) =
      map_option (\<lambda>s'. (snd (callout_reset cb c (wg_period c)), s')) (wg_effect dh c s)" for c cb s
    by (cases s; cases "wireguard_iface_timer dh (fst s) (snd s)")
      (auto simp: wg_callback_def wg_effect_def wg_period_def)
qed (simp add: wg_period_def CALLOUT_SECTOTICKS_def)

lemma wg_effects: "distinct cs \<Longrightarrow> effects (wg_effect dh) cs s =
    (if 0 \<in> set cs then wireguard_iface_timer dh (fst s) (snd s) else Some s)"
proof (induction cs arbitrary: s)
  case (Cons c cs)
  then show ?case by (cases "wireguard_iface_timer dh (fst s) (snd s)") (auto simp: wg_effect_def)
qed simp

lemma due_list:
  assumes ok: "wheel_ok cb"
  shows "distinct (concat (map (due_at cb) [i..j]))"
    and "c \<in> set (concat (map (due_at cb) [i..j])) \<longleftrightarrow> c_pending (cb_co cb c) \<and> i \<le> c_time (cb_co cb c) \<and> c_time (cb_co cb c) \<le> j"
proof -
  note o = wheel_okD [OF ok]
  have m: "c \<in> set (due_at cb t) \<longleftrightarrow> c_pending (cb_co cb c) \<and> c_time (cb_co cb c) = t" for c t
    using o(3) [OF bucket_less [OF o(1)]] by (auto simp: due_at_def)
  then show "c \<in> set (concat (map (due_at cb) [i..j])) \<longleftrightarrow> c_pending (cb_co cb c) \<and> i \<le> c_time (cb_co cb c) \<and> c_time (cb_co cb c) \<le> j"
    by auto
  have d: "distinct (due_at cb t)" for t using o(2) [OF bucket_less [OF o(1)]] by (simp add: due_at_def)
  have "distinct (concat (map (due_at cb) ts))" if "distinct ts" for ts
    using that d m by (induction ts) auto
  then show "distinct (concat (map (due_at cb) [i..j]))" by simp
qed

text \<open>The callouts that the clock runs, in the order of their times.\<close>

definition due_callouts :: "callout_block \<Rightarrow> nat list" where
  "due_callouts cb = concat (map (due_at cb) [cb_softticks cb + 1..cb_ticks cb])"

lemma set_due_callouts:
  assumes "wheel_ok cb" and "nothing_overdue cb"
  shows "distinct (due_callouts cb)" and "c \<in> set (due_callouts cb) \<longleftrightarrow> due cb c"
  using due_list [OF assms(1)] assms(2) by (auto simp: due_callouts_def nothing_overdue_def due_def)

context periodic_callouts
begin

lemma COT_clock_runs:
  assumes ok: "wheel_ok cb" and ahead: "nothing_overdue cb"
  shows "\<exists>cb'. (\<forall>s. COT_clock callback (cb, s) = map_option (Pair cb') (effects effect (due_callouts cb) s)) \<and>
      wheel_ok cb' \<and> nothing_overdue cb' \<and> cb_ticks cb' = cb_ticks cb \<and> cb_softticks cb' = cb_ticks cb \<and>
      cb_co cb' = after period cb (due cb)"
proof -
  have D: "(\<lambda>c. c_pending (cb_co cb c) \<and> cb_softticks cb < c_time (cb_co cb c) \<and> c_time (cb_co cb c) \<le> cb_ticks cb) = due cb"
    using ahead by (auto simp: nothing_overdue_def due_def fun_eq_iff)
  obtain cb' where r: "\<And>s. clock_loop callback 0 (cb, s) = map_option (Pair cb') (effects effect (due_callouts cb) s)"
      "wheel_ok cb'" "cb_ticks cb' = cb_ticks cb" "cb_softticks cb' = cb_ticks cb" "cb_co cb' = after period cb (due cb)"
    using clock_loop_runs [OF ok, of 0] ahead unfolding D nothing_overdue_def due_callouts_def by auto
  have "nothing_overdue cb'"
    unfolding nothing_overdue_def r(3-5) using ahead period_pos
    by (auto simp: after_def due_def nothing_overdue_def not_le)
  then show ?thesis using r(2-5) unfolding COT_clock_def r(1)
    by (intro exI [of _ "cb'\<lparr>cb_nextsoftcheck := None\<rparr>"])
      (auto simp: option.map_comp comp_def nothing_overdue_def intro: wheel_ok_cong [THEN iffD2])
qed

end

lemma COT_clock_wg:
  assumes ok: "wheel_ok cb" and ahead: "nothing_overdue cb"
  shows "\<exists>cb'. COT_clock (wg_callback dh) (cb, s) =
        map_option (Pair cb') (if due cb 0 then wireguard_iface_timer dh (fst s) (snd s) else Some s) \<and>
      wheel_ok cb' \<and> nothing_overdue cb' \<and> cb_ticks cb' = cb_ticks cb \<and> cb_softticks cb' = cb_ticks cb \<and>
      cb_co cb' = after wg_period cb (due cb)"
proof -
  have e: "effects (wg_effect dh) (due_callouts cb) s = (if due cb 0 then wireguard_iface_timer dh (fst s) (snd s) else Some s)"
    using wg_effects [OF set_due_callouts(1) [OF assms]] set_due_callouts(2) [OF assms, of 0] by simp
  obtain cb' where "\<And>s. COT_clock (wg_callback dh) (cb, s) = map_option (Pair cb') (effects (wg_effect dh) (due_callouts cb) s)"
      "wheel_ok cb'" "nothing_overdue cb'" "cb_ticks cb' = cb_ticks cb" "cb_softticks cb' = cb_ticks cb" "cb_co cb' = after wg_period cb (due cb)"
    using wg.COT_clock_runs [OF assms, of dh] by blast
  then show ?thesis unfolding e [symmetric] by blast
qed

end
