(* ===== verification/Tunnel.thy ===== *)
theory Tunnel
  imports Iface_Config Callout
begin

text \<open>
  The main loop \<open>mudband_tunnel\<close> of \<open>linux/mudband.c\<close>: it applies a new configuration, passes packets
  between the TUN device and the UDP socket, and runs the timers. What one pass reads from outside
  (the flags other threads set, the result of \<open>select\<close>, the packets, the clock) is the record \<open>pass_input\<close>.
  The file descriptors and the TUN device are not part of the state.
\<close>

section \<open>The loop\<close>

record wireguard_peer_snapshot =
  snap_iface_addr :: u32
  snap_endpoint_ip :: u32
  snap_endpoint_port :: u16
  snap_endpoint_t_heartbeated :: u64

record tunnel =
  tn_device :: wireguard_device
  tn_cnfs :: cnf_state
  tn_cb :: callout_block
  tn_snapshots :: "wireguard_peer_snapshot list"
  tn_world :: world

datatype select_result =
    Select_interrupted
  | Select_failed
  | Select_ready "bytes option" "(u32 \<times> u16 \<times> bytes) option"

record pass_input =
  pi_need_iface_sync :: bool
  pi_need_peer_snapshot :: bool
  pi_mfa_required :: bool
  pi_time :: u64
  pi_select :: select_result
  pi_now :: int

text \<open>\<open>malloc_ok\<close> is whether the allocation of the snapshots succeeds.\<close>

definition wireguard_peer_snapshot_run ::
  "bool \<Rightarrow> wireguard_device \<Rightarrow> wireguard_peer_snapshot list \<Rightarrow> wireguard_peer_snapshot list" where
  "wireguard_peer_snapshot_run malloc_ok device old =
     (if dev_peers device = [] \<or> 65536 \<le> length (dev_peers device) \<or> \<not> malloc_ok then old
      else map (\<lambda>peer. \<lparr>snap_iface_addr = peer_iface_addr peer, snap_endpoint_ip = endpoint_latest_ip peer,
                        snap_endpoint_port = endpoint_latest_port peer,
                        snap_endpoint_t_heartbeated = endpoint_latest_t_heartbeated peer\<rparr>) (dev_peers device))"

text \<open>The end of a pass, from the label \<open>done\<close> on.\<close>

definition clock_pass :: "(bytes \<Rightarrow> bytes \<Rightarrow> bytes) \<Rightarrow> int \<Rightarrow> tunnel \<Rightarrow> tunnel option" where
  "clock_pass dh now tn =
     map_option (\<lambda>(cb, device, w). tn\<lparr>tn_cb := cb, tn_device := device, tn_world := w\<rparr>)
       (COT_clock (wg_callback dh) (COT_ticks now (tn_cb tn), tn_device tn, tn_world tn))"

definition sync_pass :: "(bytes \<Rightarrow> bytes \<Rightarrow> bytes) \<Rightarrow> u64 \<Rightarrow> tunnel \<Rightarrow> tunnel option" where
  "sync_pass dh time tn =
     map_option (\<lambda>(device, cnfs, w). tn\<lparr>tn_device := device, tn_cnfs := cnfs, tn_world := w\<rparr>)
       (wireguard_iface_sync dh time (tn_device tn) (tn_cnfs tn) (tn_world tn))"

definition tun_pass :: "bytes option \<Rightarrow> tunnel \<Rightarrow> tunnel option" where
  "tun_pass packet tn =
     (case packet of
        None \<Rightarrow> Some tn
      | Some bs \<Rightarrow> map_option (\<lambda>(device, w). tn\<lparr>tn_device := device, tn_world := w\<rparr>)
                     (tunnel_tun (tn_device tn) bs (tn_world tn)))"

definition udp_pass :: "(bytes \<Rightarrow> bytes \<Rightarrow> bytes) \<Rightarrow> (u32 \<times> u16 \<times> bytes) option \<Rightarrow> tunnel \<Rightarrow> tunnel option" where
  "udp_pass dh dgram tn =
     (case dgram of
        None \<Rightarrow> Some tn
      | Some (addr, port, bs) \<Rightarrow> map_option (\<lambda>(device, w). tn\<lparr>tn_device := device, tn_world := w\<rparr>)
                                 (tunnel_udp dh (tn_device tn) addr port bs (tn_world tn)))"

text \<open>One pass of the loop; the result says whether the loop goes on.\<close>

definition tunnel_pass ::
  "(bytes \<Rightarrow> bytes \<Rightarrow> bytes) \<Rightarrow> bool \<Rightarrow> pass_input \<Rightarrow> tunnel \<Rightarrow> (bool \<times> tunnel) option" where
  "tunnel_pass dh malloc_ok i tn = do {
     tn \<leftarrow> (if pi_need_iface_sync i then sync_pass dh (pi_time i) tn else Some tn);
     let tn = (if pi_need_peer_snapshot i
               then tn\<lparr>tn_snapshots := wireguard_peer_snapshot_run malloc_ok (tn_device tn) (tn_snapshots tn)\<rparr> else tn);
     if pi_mfa_required i then Some (True, tn)
     else case pi_select i of
         Select_failed \<Rightarrow> Some (False, tn)
       | Select_interrupted \<Rightarrow> map_option (Pair True) (clock_pass dh (pi_now i) tn)
       | Select_ready packet dgram \<Rightarrow> do {
           tn \<leftarrow> tun_pass packet tn;
           tn \<leftarrow> udp_pass dh dgram tn;
           map_option (Pair True) (clock_pass dh (pi_now i) tn) } }"

text \<open>The callouts at the start: the statistics after 60 seconds, the device timer after one.\<close>

definition start_callouts :: "int \<Rightarrow> callout_block" where
  "start_callouts now =
     (let cb = COT_init now (\<lambda>_. \<lparr>c_time = 0, c_active = False, c_pending = False, c_id = 0\<rparr>);
          cb = callout_init 1 0 cb;
          cb = snd (callout_reset cb 1 (CALLOUT_SECTOTICKS 60));
          cb = callout_init 0 0 cb
      in snd (callout_reset cb 0 (CALLOUT_SECTOTICKS 1)))"

text \<open>From the initialisation of the callouts up to the loop. \<open>tun_opens\<close> is whether the TUN device opens.\<close>

definition tunnel_start ::
  "(bytes \<Rightarrow> bytes \<Rightarrow> bytes) \<Rightarrow> int \<Rightarrow> u64 \<Rightarrow> bool \<Rightarrow> bytes option \<Rightarrow> cnf_state \<Rightarrow> world \<Rightarrow> tunnel option" where
  "tunnel_start dh now time tun_opens private_key cnfs w = do {
     (_, cf, cnfs) \<leftarrow> CNF_get time cnfs;
     cf \<leftarrow> cf;
     cnf \<leftarrow> map_of (cnf_head cnfs) cf;
     private_ip \<leftarrow> CNF_get_interface_private_ip (cnf_jroot cnf);
     _ \<leftarrow> CNF_get_interface_private_mask (cnf_jroot cnf);
     mtu \<leftarrow> CNF_get_interface_mtu (cnf_jroot cnf);
     if \<not> (mtu > 0) \<or> \<not> tun_opens then None
     else do {
       let (device, w) = wireguard_iface_init dh private_key private_ip w;
       device \<leftarrow> device;
       cnfs \<leftarrow> CNF_rel cf cnfs;
       Some \<lparr>tn_device = device, tn_cnfs = cnfs, tn_cb = start_callouts now, tn_snapshots = [], tn_world = w\<rparr> } }"

section \<open>Reachable states of the loop\<close>

inductive tunnel_reach :: "(bytes \<Rightarrow> bytes \<Rightarrow> bytes) \<Rightarrow> tunnel \<Rightarrow> bool" for dh where
  start: "tunnel_start dh now time tun_opens key cnfs w = Some tn \<Longrightarrow> tunnel_reach dh tn"
| pass: "tunnel_reach dh tn \<Longrightarrow> tunnel_pass dh malloc_ok i tn = Some (go, tn') \<Longrightarrow>
    cb_ticks (tn_cb tn) \<le> pi_now i \<Longrightarrow> tunnel_reach dh tn'"
| conf: "tunnel_reach dh tn \<Longrightarrow> tunnel_reach dh (tn\<lparr>tn_cnfs := cnfs\<rparr>)"

text \<open>The timers: the wheel is in order, nothing is overdue, and the device timer is armed for at most
  one second after the last pass.\<close>

definition timers_ok :: "callout_block \<Rightarrow> bool" where
  "timers_ok cb \<longleftrightarrow> wheel_ok cb \<and> nothing_overdue cb \<and> cb_softticks cb = cb_ticks cb \<and>
     c_pending (cb_co cb 0) \<and> c_time (cb_co cb 0) \<le> cb_ticks cb + 100"

lemma wheel_size_16: "wheel_size 16 1 = 16"
  by code_simp

lemma start_wheel: "wheel_ok (COT_init now (\<lambda>_. \<lparr>c_time = 0, c_active = False, c_pending = False, c_id = 0\<rparr>))"
  by (simp add: wheel_ok_def COT_init_def wheel_size_16)

lemma callout_init_ok: "wheel_ok cb \<Longrightarrow> \<not> c_pending (cb_co cb c) \<Longrightarrow> wheel_ok (callout_init c i cb)"
  by (auto simp: wheel_ok_def callout_init_def bucket_of_def)

lemma callout_reset_simps [simp]:
  "cb_ticks (snd (callout_reset cb c p)) = cb_ticks cb" "cb_softticks (snd (callout_reset cb c p)) = cb_softticks cb"
  "cb_co (snd (callout_reset cb c p)) = (cb_co cb)(c := (cb_co cb c)\<lparr>c_active := True, c_pending := True,
     c_time := cb_ticks cb + (if p \<le> 0 then 1 else p)\<rparr>)"
  by (simp_all add: callout_reset_def Let_def unqueue_def wheel_remove_def)

lemma callout_init_simps [simp]:
  "cb_ticks (callout_init c i cb) = cb_ticks cb" "cb_softticks (callout_init c i cb) = cb_softticks cb"
  "cb_co (callout_init c i cb) = (cb_co cb)(c := \<lparr>c_time = 0, c_active = False, c_pending = False, c_id = i\<rparr>)"
  by (simp_all add: callout_init_def)

lemma start_timers: "timers_ok (start_callouts now)"
proof -
  have "wheel_ok (start_callouts now)" unfolding start_callouts_def Let_def
    by (intro callout_reset_ok callout_init_ok start_wheel) (simp_all add: COT_init_def)
  then show ?thesis
    by (auto simp: timers_ok_def nothing_overdue_def start_callouts_def Let_def COT_init_def CALLOUT_SECTOTICKS_def)
qed

lemma clock_timers:
  assumes ok: "timers_ok cb" and now: "cb_ticks cb \<le> now"
  shows "\<exists>cb'. COT_clock (wg_callback dh) (COT_ticks now cb, s) =
      map_option (Pair cb') (if c_time (cb_co cb 0) \<le> now then wireguard_iface_timer dh (fst s) (snd s) else Some s) \<and>
    timers_ok cb' \<and> cb_ticks cb' = now \<and>
    c_time (cb_co cb' 0) = (if c_time (cb_co cb 0) \<le> now then now + 100 else c_time (cb_co cb 0))"
proof -
  let ?cb = "COT_ticks now cb"
  have w: "wheel_ok ?cb" "nothing_overdue ?cb" "cb_ticks ?cb = now" "cb_co ?cb = cb_co cb"
    using ok now wheel_ok_cong [of ?cb cb] by (auto simp: timers_ok_def nothing_overdue_def COT_ticks_def)
  have d: "due ?cb 0 \<longleftrightarrow> c_time (cb_co cb 0) \<le> now" using ok w by (simp add: due_def timers_ok_def)
  obtain cb' where c: "COT_clock (wg_callback dh) (?cb, s) =
        map_option (Pair cb') (if due ?cb 0 then wireguard_iface_timer dh (fst s) (snd s) else Some s)"
      "wheel_ok cb'" "nothing_overdue cb'" "cb_ticks cb' = now" "cb_softticks cb' = now" "cb_co cb' = after wg_period ?cb (due ?cb)"
    using COT_clock_wg [OF w(1,2), of dh s] w(3) by auto
  have t: "c_time (cb_co cb' 0) = (if c_time (cb_co cb 0) \<le> now then now + 100 else c_time (cb_co cb 0))"
      "c_pending (cb_co cb' 0)"
    using ok w(3,4) by (simp_all add: c(6) after_def d wg_period_def CALLOUT_SECTOTICKS_def timers_ok_def)
  then have "timers_ok cb'" using ok now c(2-5) by (simp add: timers_ok_def)
  with c(1,4) t show ?thesis unfolding d by blast
qed

lemma clock_pass_timers:
  assumes "clock_pass dh now tn = Some tn'" and "timers_ok (tn_cb tn)" and "cb_ticks (tn_cb tn) \<le> now"
  shows "timers_ok (tn_cb tn')"
proof -
  obtain cb' r where "COT_clock (wg_callback dh) (COT_ticks now (tn_cb tn), tn_device tn, tn_world tn) = map_option (Pair cb') r"
      "timers_ok cb'"
    using clock_timers [OF assms(2,3), of dh "(tn_device tn, tn_world tn)"] by blast
  then show ?thesis using assms(1) by (cases r) (auto simp: clock_pass_def)
qed

lemma pass_cb:
  "sync_pass dh time tn = Some tn' \<Longrightarrow> tn_cb tn' = tn_cb tn"
  "tun_pass packet tn = Some tn' \<Longrightarrow> tn_cb tn' = tn_cb tn"
  "udp_pass dh dgram tn = Some tn' \<Longrightarrow> tn_cb tn' = tn_cb tn"
  by (auto simp: sync_pass_def tun_pass_def udp_pass_def split: option.splits)

lemma tunnel_pass_timers:
  assumes "tunnel_pass dh malloc_ok i tn = Some (go, tn')" and "timers_ok (tn_cb tn)" and "cb_ticks (tn_cb tn) \<le> pi_now i"
  shows "timers_ok (tn_cb tn')"
  using assms
  by (auto simp: tunnel_pass_def Let_def pass_cb dest!: pass_cb intro: clock_pass_timers split: Option.bind_splits if_splits select_result.splits)

lemma tunnel_reach_timers: "tunnel_reach dh tn \<Longrightarrow> timers_ok (tn_cb tn)"
proof (induction rule: tunnel_reach.induct)
  case (start now time tun_opens key cnfs w tn)
  then show ?case using start_timers
    by (auto simp: tunnel_start_def Let_def split: Option.bind_splits if_splits prod.splits)
qed (auto intro: tunnel_pass_timers)


section \<open>The timer of the device\<close>

text \<open>
  C9: Whatever the loop has done since the start (packets, datagrams, configurations, interrupted waits),
  the timer of the device is armed for at most one second after the last pass, the wheel is in order, and
  the clock at the end of a pass runs the timer exactly if it is due, once, and arms it for one second
  later. So the timer runs in every pass that ends a second or more after the pass before.
\<close>

theorem device_timer_every_second:
  assumes "tunnel_reach dh tn" and "cb_ticks (tn_cb tn) \<le> now"
  shows "c_time (cb_co (tn_cb tn) 0) \<le> cb_ticks (tn_cb tn) + 100 \<and>
    (\<exists>cb'. clock_pass dh now tn = map_option (\<lambda>(device, w). tn\<lparr>tn_cb := cb', tn_device := device, tn_world := w\<rparr>)
        (if c_time (cb_co (tn_cb tn) 0) \<le> now then wireguard_iface_timer dh (tn_device tn) (tn_world tn)
         else Some (tn_device tn, tn_world tn)) \<and>
      timers_ok cb' \<and>
      c_time (cb_co cb' 0) = (if c_time (cb_co (tn_cb tn) 0) \<le> now then now + 100 else c_time (cb_co (tn_cb tn) 0)))"
proof -
  note ok = tunnel_reach_timers [OF assms(1)]
  have "c_time (cb_co (tn_cb tn) 0) \<le> cb_ticks (tn_cb tn) + 100" using ok by (simp add: timers_ok_def)
  then show ?thesis
    using clock_timers [OF ok assms(2), of dh "(tn_device tn, tn_world tn)"]
    by (auto simp: clock_pass_def option.map_comp comp_def case_prod_unfold)
qed

definition tunnel_conf :: json where
  "tunnel_conf = Json_object [(''interface'', Json_object [(''private_ip'', Json_string ''198.18.0.1''),
     (''private_mask'', Json_string ''255.254.0.0''), (''mtu'', Json_integer 1420)])]"

definition tunnel_cnfs :: "cnf_state" where
  "tunnel_cnfs = \<lparr>cnf_head = [(0, \<lparr>cnf_jroot = tunnel_conf, cnf_busy = 0, cnf_t_last = 0\<rparr>)], cnf_active = Some 0, cnf_next = 1\<rparr>"

definition tunnel_key :: "bytes option" where
  "tunnel_key = Some (bytes_of_string ''AQEBAQEBAQEBAQEBAQEBAQEBAQEBAQEBAQEBAQEBAQE='')"

lemma tunnel_key: "wireguard_base64_decode tunnel_key 32 = (True, 32, replicate 32 1)"
  by code_simp

lemma tunnel_device: "\<exists>device w'. wireguard_iface_init dh_demo tunnel_key ip w = (Some device, w')"
proof -
  have "dh_demo (replicate 32 1) basepoint \<noteq> zero_key" "(replicate 32 1 :: bytes) \<noteq> zero_key" by code_simp+
  then have "wireguard_generate_public_key dh_demo (replicate 32 1) = Some (dh_demo (replicate 32 1) basepoint)"
    by (simp add: wireguard_generate_public_key_def)
  then show ?thesis
    by (simp add: wireguard_iface_init_def tunnel_key wireguard_device_init_def generate_cookie_secret_def Let_def
        case_prod_unfold)
qed

lemma tunnel_conf_fields: "CNF_get_interface_private_ip tunnel_conf = Some ''198.18.0.1''"
    "CNF_get_interface_private_mask tunnel_conf = Some ''255.254.0.0''" "CNF_get_interface_mtu tunnel_conf = Some 1420"
  by code_simp+

lemma tunnel_starts:
  "\<exists>device cnfs w'. tunnel_start dh_demo 5000 9 True tunnel_key tunnel_cnfs w =
     Some \<lparr>tn_device = device, tn_cnfs = cnfs, tn_cb = start_callouts 5000, tn_snapshots = [], tn_world = w'\<rparr>"
proof -
  obtain device w' where "wireguard_iface_init dh_demo tunnel_key ''198.18.0.1'' w = (Some device, w')"
    using tunnel_device by blast
  then show ?thesis
    by (simp add: tunnel_start_def tunnel_cnfs_def CNF_get_def CNF_rel_def upd_cnf_def tunnel_conf_fields)
qed

theorem device_timer_every_second_witness:
  "\<exists>tn. tunnel_start dh_demo 5000 9 True tunnel_key tunnel_cnfs (world_demo 7 1) = Some tn \<and>
     c_time (cb_co (tn_cb tn) 0) = 5100 \<and>
     (\<exists>cb'. clock_pass dh_demo 5130 tn = map_option (\<lambda>(device, w). tn\<lparr>tn_cb := cb', tn_device := device, tn_world := w\<rparr>)
          (wireguard_iface_timer dh_demo (tn_device tn) (tn_world tn)) \<and>
        timers_ok cb' \<and> c_time (cb_co cb' 0) = 5230)"
proof -
  obtain tn where tn: "tunnel_start dh_demo 5000 9 True tunnel_key tunnel_cnfs (world_demo 7 1) = Some tn"
      "tn_cb tn = start_callouts 5000"
    using tunnel_starts [of "world_demo 7 1"] by auto
  have "c_time (cb_co (start_callouts 5000) 0) = 5100" "cb_ticks (start_callouts 5000) = 5000"
    by (simp_all add: start_callouts_def Let_def COT_init_def CALLOUT_SECTOTICKS_def)
  then show ?thesis using device_timer_every_second [OF tunnel_reach.start [OF tn(1)], of 5130] tn by simp
qed

end
