(* ===== verification/Stun_Client.thy ===== *)
theory Stun_Client
  imports Stun_Msg Json "HOL-Library.Multiset"
begin

text \<open>
  The STUN client of the Linux program (\<open>linux/mudband_stun_client.c\<close>): sockets, the state machine of the five
  tests, the NAT type and \<open>STUNC_test\<close>. The system calls are given by their results (\<open>stun_os\<close>), which depend
  on the number of the call and, for \<open>select\<close> and \<open>recvfrom\<close>, on the datagrams sent so far; \<open>stun_env\<close> counts the
  calls and keeps the open sockets and the sent datagrams. \<open>None\<close> is a failed assertion or undefined.
\<close>

section \<open>System calls\<close>

type_synonym sent = "int \<times> bytes \<times> u32 \<times> u16"

record stun_os =
  os_socket :: "nat \<Rightarrow> int"
  os_bind :: "nat \<Rightarrow> u16 \<Rightarrow> u32 \<Rightarrow> bool"
  os_sendto :: "nat \<Rightarrow> int"
  os_select :: "nat \<Rightarrow> sent list \<Rightarrow> int"
  os_recvfrom :: "nat \<Rightarrow> sent list \<Rightarrow> int \<times> bytes \<times> u32 \<times> u16"
  os_rand :: "nat \<Rightarrow> nat"

record stun_env =
  env_sockets :: nat
  env_sends :: nat
  env_selects :: nat
  env_recvs :: nat
  env_rands :: nat
  env_open :: "int list"
  env_sent :: "sent list"

definition odr_close :: "int \<Rightarrow> stun_env \<Rightarrow> stun_env" where
  "odr_close d e = e\<lparr>env_open := remove1 d (env_open e)\<rparr>"

section \<open>Client\<close>

datatype stun_step = STUN_STEP_FIRST
  | STUN_STEP_TEST_I_PREPARE | STUN_STEP_TEST_I_SEND | STUN_STEP_TEST_I_RECV
  | STUN_STEP_TEST_I2_PREPARE | STUN_STEP_TEST_I2_SEND | STUN_STEP_TEST_I2_RECV
  | STUN_STEP_TEST_I3_PREPARE | STUN_STEP_TEST_I3_SEND | STUN_STEP_TEST_I3_RECV
  | STUN_STEP_TEST_II_PREPARE | STUN_STEP_TEST_II_SEND | STUN_STEP_TEST_II_RECV
  | STUN_STEP_TEST_III_PREPARE | STUN_STEP_TEST_III_SEND | STUN_STEP_TEST_III_RECV
  | STUN_STEP_TIMEOUT | STUN_STEP_ERROR | STUN_STEP_DONE

datatype stun_sm_return = STUN_SM_RETURN_ABORT | STUN_SM_RETURN_CONTINUE | STUN_SM_RETURN_WAIT

record stun_result =
  test_i_success :: bool
  test_i2_success :: bool
  test_i3_success :: bool
  test_ii_success :: bool
  test_ii_fail_recvmsg :: bool
  test_ii_fail_no_ip_change :: bool
  test_ii_fail_parse_error :: bool
  test_ii_fail_wrong_test_num :: bool
  test_iii_success :: bool
  test_iii_fail_recvmsg :: bool
  test_iii_fail_no_port_change :: bool
  test_iii_fail_parse_error :: bool
  test_iii_fail_wrong_test_num :: bool
  preserve_port :: bool
  hairpin :: bool
  mapped_same_ip :: bool
  is_nat :: bool

record stun_client =
  sc_step :: stun_step
  sc_step_previous :: stun_step
  sc_src :: stun_addr4
  sc_dst :: stun_addr4
  sc_fd :: int
  sc_username :: stun_attr_string
  sc_password :: stun_attr_string
  sc_test_i :: stun_addr4
  sc_test_i2 :: stun_addr4
  sc_result :: stun_result

datatype stun_nattype = STUN_NATTYPE_UNKNOWN | STUN_NATTYPE_FAILURE | STUN_NATTYPE_OPEN | STUN_NATTYPE_BLOCKED
  | STUN_NATTYPE_FULL_CONE | STUN_NATTYPE_RESTRICTED_CONE | STUN_NATTYPE_PORT_RESTRICTED_CONE | STUN_NATTYPE_SYMMETRIC
  | STUN_NATTYPE_FIREWALL

section \<open>Sockets\<close>

text \<open>The result of \<open>stun_sendmsg\<close> is not used by its caller.\<close>

definition stun_sendmsg :: "stun_os \<Rightarrow> int \<Rightarrow> bytes \<Rightarrow> u32 \<Rightarrow> u16 \<Rightarrow> stun_env \<Rightarrow> (int \<times> stun_env) option" where
  "stun_sendmsg os d buf addr port e =
     (if d = -1 \<or> addr = 0 \<or> port = 0 then None
      else let s = os_sendto os (env_sends e); e = e\<lparr>env_sends := env_sends e + 1\<rparr> in
           if s = -1 then Some (-1, e)
           else if s = 0 \<or> s \<noteq> int (length buf) then None
           else Some (0, e\<lparr>env_sent := env_sent e @ [(d, buf, addr, port)]\<rparr>))"

definition stun_open_port :: "stun_os \<Rightarrow> u16 \<Rightarrow> u32 \<Rightarrow> stun_env \<Rightarrow> (int \<times> stun_env) option" where
  "stun_open_port os port interfaceIp e =
     (let k = env_sockets e; d = os_socket os k; e = e\<lparr>env_sockets := k + 1\<rparr> in
      if d = -1 then Some (-1, e)
      else let e = e\<lparr>env_open := d # env_open e\<rparr>;
               addr = (if interfaceIp \<noteq> 0 \<and> interfaceIp \<noteq> 0x100007f then interfaceIp else 0)
           in if \<not> os_bind os k port addr then Some (-1, odr_close d e)
              else if d < 0 then None else Some (d, e))"

definition stun_sendtest :: "stun_os \<Rightarrow> int \<Rightarrow> stun_addr4 \<Rightarrow> stun_attr_string \<Rightarrow> stun_attr_string \<Rightarrow> nat \<Rightarrow> stun_env \<Rightarrow> stun_env option" where
  "stun_sendtest os d dest username password test_num e =
     (if sa_addr dest = 0 \<or> sa_port dest = 0 then None
      else if test_num \<notin> {1, 10, 11, 2, 3} then None
      else let rs = map (\<lambda>i. os_rand os (env_rands e + i)) [0..<4];
               req = stun_buildreq username (test_num = 3) (test_num = 2) (of_nat test_num) rs;
               e = e\<lparr>env_rands := env_rands e + 4\<rparr>
           in do {
             buf \<leftarrow> stun_encodemsg req 2048 password;
             (_, e) \<leftarrow> stun_sendmsg os d buf (sa_addr dest) (sa_port dest) e;
             Some e })"

text \<open>The result is the return value, \<open>*len\<close>, the buffer and the sender.\<close>

definition stun_recvmsg :: "stun_os \<Rightarrow> int \<Rightarrow> stun_env \<Rightarrow> (int \<times> int \<times> bytes \<times> stun_addr4 \<times> stun_env) option" where
  "stun_recvmsg os d e =
     (if d < 0 then None
      else let (len, buf, ip, port) = os_recvfrom os (env_recvs e) (env_sent e);
               e = e\<lparr>env_recvs := env_recvs e + 1\<rparr>; from = \<lparr>sa_port = port, sa_addr = ip\<rparr>
           in if len \<le> 0 then Some (-1, len, buf, from, e)
              else if len + 1 \<ge> 2048 then Some (-1, len, buf, from, e)
              else Some (0, len, buf[nat len := 0], from, e))"

section \<open>The steps of the state machine\<close>

type_synonym sm_handler = "stun_client \<Rightarrow> stun_env \<Rightarrow> (stun_sm_return \<times> stun_client \<times> stun_env) option"

definition go :: "stun_step \<Rightarrow> stun_client \<Rightarrow> stun_env \<Rightarrow> (stun_sm_return \<times> stun_client \<times> stun_env) option" where
  "go s sc e = Some (STUN_SM_RETURN_CONTINUE, sc\<lparr>sc_step := s\<rparr>, e)"

definition stun_sm_first :: sm_handler where
  "stun_sm_first sc e =
     (if sa_addr (sc_dst sc) = 0 \<or> sa_port (sc_dst sc) = 0 then None else go STUN_STEP_TEST_I_PREPARE sc e)"

definition stun_sm_test_i_prepare :: "stun_os \<Rightarrow> sm_handler" where
  "stun_sm_test_i_prepare os sc e = do {
     (d, e) \<leftarrow> stun_open_port os (sa_port (sc_src sc)) (sa_addr (sc_src sc)) e;
     let sc = sc\<lparr>sc_fd := d\<rparr>;
     if d = -1 then go STUN_STEP_ERROR sc e else go STUN_STEP_TEST_I_SEND sc e }"

definition send_step :: "stun_os \<Rightarrow> stun_addr4 \<Rightarrow> nat \<Rightarrow> stun_step \<Rightarrow> sm_handler" where
  "send_step os dst test_num s sc e = do {
     e \<leftarrow> stun_sendtest os (sc_fd sc) dst (sc_username sc) (sc_password sc) test_num e;
     Some (STUN_SM_RETURN_WAIT, sc\<lparr>sc_step := s\<rparr>, e) }"

definition stun_sm_test_i_send :: "stun_os \<Rightarrow> sm_handler" where
  "stun_sm_test_i_send os sc e =
     (if sc_fd sc < 0 then None else send_step os (sc_dst sc) 1 STUN_STEP_TEST_I_RECV sc e)"

definition stun_sm_test_i_recv :: "stun_os \<Rightarrow> sm_handler" where
  "stun_sm_test_i_recv os sc e = do {
     (_, len, buf, _, e) \<leftarrow> stun_recvmsg os (sc_fd sc) e;
     (_, resp) \<leftarrow> stun_parsemsg buf (of_int len) stun_msg_zero;
     if hdr_id (msg_hdr resp) ! 0 \<noteq> 1 then None
     else do {
       let mapped = at_ipv4 (mapped_address resp);
       let sc = sc\<lparr>sc_test_i := mapped,
                   sc_result := (sc_result sc)\<lparr>preserve_port := (sa_port mapped = sa_port (sc_src sc))\<rparr>\<rparr>;
       (s, e) \<leftarrow> stun_open_port os 0 (sa_addr mapped) e;
       let (sc, e) = (if s \<noteq> -1 then (sc\<lparr>sc_result := (sc_result sc)\<lparr>is_nat := False\<rparr>\<rparr>, odr_close s e)
                      else (sc\<lparr>sc_result := (sc_result sc)\<lparr>is_nat := True\<rparr>\<rparr>, e));
       let sc = sc\<lparr>sc_test_i2 := (sc_dst sc)\<lparr>sa_addr := sa_addr (at_ipv4 (changed_address resp))\<rparr>\<rparr>;
       go STUN_STEP_TEST_I2_PREPARE (sc\<lparr>sc_result := (sc_result sc)\<lparr>test_i_success := True\<rparr>\<rparr>) e } }"

definition stun_sm_test_i2_prepare :: sm_handler where
  "stun_sm_test_i2_prepare sc e =
     (if sa_addr (sc_test_i2 sc) = 0 \<or> sa_port (sc_test_i2 sc) = 0 then go STUN_STEP_TEST_II_PREPARE sc e
      else go STUN_STEP_TEST_I2_SEND sc e)"

definition stun_sm_test_i2_send :: "stun_os \<Rightarrow> sm_handler" where
  "stun_sm_test_i2_send os sc e = send_step os (sc_test_i2 sc) 10 STUN_STEP_TEST_I2_RECV sc e"

definition stun_sm_test_i2_recv :: "stun_os \<Rightarrow> sm_handler" where
  "stun_sm_test_i2_recv os sc e = do {
     (_, len, buf, _, e) \<leftarrow> stun_recvmsg os (sc_fd sc) e;
     (ok, resp) \<leftarrow> stun_parsemsg buf (of_int len) stun_msg_zero;
     if \<not> ok then go STUN_STEP_TEST_I3_PREPARE sc e
     else if hdr_id (msg_hdr resp) ! 0 \<noteq> 10 then go STUN_STEP_TEST_I3_PREPARE sc e
     else do {
       let sc = (if at_ipv4 (mapped_address resp) = sc_test_i sc
                 then sc\<lparr>sc_result := (sc_result sc)\<lparr>mapped_same_ip := True\<rparr>\<rparr> else sc);
       go STUN_STEP_TEST_I3_PREPARE (sc\<lparr>sc_result := (sc_result sc)\<lparr>test_i2_success := True\<rparr>\<rparr>) e } }"

definition stun_sm_test_i3_prepare :: sm_handler where
  "stun_sm_test_i3_prepare sc e =
     (if sa_addr (sc_test_i sc) = 0 \<or> sa_port (sc_test_i sc) = 0 then go STUN_STEP_TEST_II_PREPARE sc e
      else go STUN_STEP_TEST_I3_SEND sc e)"

definition stun_sm_test_i3_send :: "stun_os \<Rightarrow> sm_handler" where
  "stun_sm_test_i3_send os sc e = send_step os (sc_test_i sc) 11 STUN_STEP_TEST_I3_RECV sc e"

definition stun_sm_test_i3_recv :: "stun_os \<Rightarrow> sm_handler" where
  "stun_sm_test_i3_recv os sc e = do {
     (_, len, buf, _, e) \<leftarrow> stun_recvmsg os (sc_fd sc) e;
     (_, resp) \<leftarrow> stun_parsemsg buf (of_int len) stun_msg_zero;
     if hdr_id (msg_hdr resp) ! 0 \<noteq> 11 then None
     else go STUN_STEP_TEST_II_PREPARE (sc\<lparr>sc_result := (sc_result sc)\<lparr>test_i3_success := True, hairpin := True\<rparr>\<rparr>) e }"

definition stun_sm_test_ii_prepare :: "stun_os \<Rightarrow> sm_handler" where
  "stun_sm_test_ii_prepare os sc e = do {
     let e = (if sc_fd sc \<ge> 0 then odr_close (sc_fd sc) e else e);
     (d, e) \<leftarrow> stun_open_port os (sa_port (sc_src sc) + 1) (sa_addr (sc_src sc)) e;
     let sc = sc\<lparr>sc_fd := d\<rparr>;
     if d = -1 then go STUN_STEP_ERROR sc e else go STUN_STEP_TEST_II_SEND sc e }"

definition stun_sm_test_ii_send :: "stun_os \<Rightarrow> sm_handler" where
  "stun_sm_test_ii_send os sc e = send_step os (sc_dst sc) 2 STUN_STEP_TEST_II_RECV sc e"

definition stun_sm_test_ii_recv :: "stun_os \<Rightarrow> sm_handler" where
  "stun_sm_test_ii_recv os sc e = do {
     (r, len, buf, from, e) \<leftarrow> stun_recvmsg os (sc_fd sc) e;
     if r = -1 then go STUN_STEP_ERROR (sc\<lparr>sc_result := (sc_result sc)\<lparr>test_ii_fail_recvmsg := True\<rparr>\<rparr>) e
     else do {
       (ok, resp) \<leftarrow> stun_parsemsg buf (of_int len) stun_msg_zero;
       if \<not> ok then go STUN_STEP_ERROR (sc\<lparr>sc_result := (sc_result sc)\<lparr>test_ii_fail_parse_error := True\<rparr>\<rparr>) e
       else if hdr_id (msg_hdr resp) ! 0 \<noteq> 2
       then go STUN_STEP_ERROR (sc\<lparr>sc_result := (sc_result sc)\<lparr>test_ii_fail_wrong_test_num := True\<rparr>\<rparr>) e
       else if sa_addr (sc_dst sc) = sa_addr from
       then go STUN_STEP_TEST_III_PREPARE (sc\<lparr>sc_result := (sc_result sc)\<lparr>test_ii_fail_no_ip_change := True\<rparr>\<rparr>) e
       else go STUN_STEP_TEST_III_PREPARE (sc\<lparr>sc_result := (sc_result sc)\<lparr>test_ii_success := True\<rparr>\<rparr>) e } }"

definition stun_sm_test_iii_prepare :: sm_handler where
  "stun_sm_test_iii_prepare sc e = go STUN_STEP_TEST_III_SEND sc e"

definition stun_sm_test_iii_send :: "stun_os \<Rightarrow> sm_handler" where
  "stun_sm_test_iii_send os sc e = send_step os (sc_dst sc) 3 STUN_STEP_TEST_III_RECV sc e"

definition stun_sm_test_iii_recv :: "stun_os \<Rightarrow> sm_handler" where
  "stun_sm_test_iii_recv os sc e = do {
     (r, len, buf, from, e) \<leftarrow> stun_recvmsg os (sc_fd sc) e;
     if r = -1 then go STUN_STEP_ERROR (sc\<lparr>sc_result := (sc_result sc)\<lparr>test_iii_fail_recvmsg := True\<rparr>\<rparr>) e
     else do {
       (ok, resp) \<leftarrow> stun_parsemsg buf (of_int len) stun_msg_zero;
       if \<not> ok then go STUN_STEP_ERROR (sc\<lparr>sc_result := (sc_result sc)\<lparr>test_iii_fail_parse_error := True\<rparr>\<rparr>) e
       else if hdr_id (msg_hdr resp) ! 0 \<noteq> 3
       then go STUN_STEP_ERROR (sc\<lparr>sc_result := (sc_result sc)\<lparr>test_iii_fail_wrong_test_num := True\<rparr>\<rparr>) e
       else if sa_port (sc_dst sc) = sa_port from
       then go STUN_STEP_DONE (sc\<lparr>sc_result := (sc_result sc)\<lparr>test_iii_fail_no_port_change := True\<rparr>\<rparr>) e
       else go STUN_STEP_DONE (sc\<lparr>sc_result := (sc_result sc)\<lparr>test_iii_success := True\<rparr>\<rparr>) e } }"

definition stun_sm_error :: sm_handler where
  "stun_sm_error sc e = go STUN_STEP_DONE sc e"

definition stun_sm_timeout :: sm_handler where
  "stun_sm_timeout sc e = (case sc_step_previous sc of
       STUN_STEP_TEST_I_RECV \<Rightarrow> go STUN_STEP_DONE sc e
     | STUN_STEP_TEST_I2_RECV \<Rightarrow> go STUN_STEP_TEST_II_PREPARE sc e
     | STUN_STEP_TEST_I3_RECV \<Rightarrow> go STUN_STEP_TEST_II_PREPARE sc e
     | STUN_STEP_TEST_II_RECV \<Rightarrow> go STUN_STEP_TEST_III_PREPARE sc e
     | STUN_STEP_TEST_III_RECV \<Rightarrow> go STUN_STEP_DONE sc e
     | _ \<Rightarrow> None)"

definition stun_sm_done :: sm_handler where
  "stun_sm_done sc e = Some (STUN_SM_RETURN_ABORT, sc, if sc_fd sc \<ge> 0 then odr_close (sc_fd sc) e else e)"

text \<open>The \<open>switch\<close> of the loop.\<close>

fun sm_switch :: "stun_os \<Rightarrow> stun_step \<Rightarrow> sm_handler" where
  "sm_switch os STUN_STEP_FIRST = stun_sm_first"
| "sm_switch os STUN_STEP_TEST_I_PREPARE = stun_sm_test_i_prepare os"
| "sm_switch os STUN_STEP_TEST_I_SEND = stun_sm_test_i_send os"
| "sm_switch os STUN_STEP_TEST_I_RECV = stun_sm_test_i_recv os"
| "sm_switch os STUN_STEP_TEST_I2_PREPARE = stun_sm_test_i2_prepare"
| "sm_switch os STUN_STEP_TEST_I2_SEND = stun_sm_test_i2_send os"
| "sm_switch os STUN_STEP_TEST_I2_RECV = stun_sm_test_i2_recv os"
| "sm_switch os STUN_STEP_TEST_I3_PREPARE = stun_sm_test_i3_prepare"
| "sm_switch os STUN_STEP_TEST_I3_SEND = stun_sm_test_i3_send os"
| "sm_switch os STUN_STEP_TEST_I3_RECV = stun_sm_test_i3_recv os"
| "sm_switch os STUN_STEP_TEST_II_PREPARE = stun_sm_test_ii_prepare os"
| "sm_switch os STUN_STEP_TEST_II_SEND = stun_sm_test_ii_send os"
| "sm_switch os STUN_STEP_TEST_II_RECV = stun_sm_test_ii_recv os"
| "sm_switch os STUN_STEP_TEST_III_PREPARE = stun_sm_test_iii_prepare"
| "sm_switch os STUN_STEP_TEST_III_SEND = stun_sm_test_iii_send os"
| "sm_switch os STUN_STEP_TEST_III_RECV = stun_sm_test_iii_recv os"
| "sm_switch os STUN_STEP_ERROR = stun_sm_error"
| "sm_switch os STUN_STEP_TIMEOUT = stun_sm_timeout"
| "sm_switch os STUN_STEP_DONE = stun_sm_done"

text \<open>How far the tests are from the end; a time-out counts as the step it interrupted.\<close>

fun step_rank :: "stun_step \<Rightarrow> nat" where
  "step_rank STUN_STEP_FIRST = 36"
| "step_rank STUN_STEP_TEST_I_PREPARE = 34"
| "step_rank STUN_STEP_TEST_I_SEND = 32"
| "step_rank STUN_STEP_TEST_I_RECV = 30"
| "step_rank STUN_STEP_TEST_I2_PREPARE = 28"
| "step_rank STUN_STEP_TEST_I2_SEND = 26"
| "step_rank STUN_STEP_TEST_I2_RECV = 24"
| "step_rank STUN_STEP_TEST_I3_PREPARE = 22"
| "step_rank STUN_STEP_TEST_I3_SEND = 20"
| "step_rank STUN_STEP_TEST_I3_RECV = 18"
| "step_rank STUN_STEP_TEST_II_PREPARE = 16"
| "step_rank STUN_STEP_TEST_II_SEND = 14"
| "step_rank STUN_STEP_TEST_II_RECV = 12"
| "step_rank STUN_STEP_TEST_III_PREPARE = 10"
| "step_rank STUN_STEP_TEST_III_SEND = 8"
| "step_rank STUN_STEP_TEST_III_RECV = 6"
| "step_rank STUN_STEP_TIMEOUT = 40"
| "step_rank STUN_STEP_ERROR = 4"
| "step_rank STUN_STEP_DONE = 2"

definition sc_rank :: "stun_client \<Rightarrow> nat" where
  "sc_rank sc = (if sc_step sc = STUN_STEP_TIMEOUT then step_rank (sc_step_previous sc) - 1 else step_rank (sc_step sc))"

lemma go_eq [simp]: "go s sc e = Some (r, sc', e') \<longleftrightarrow> r = STUN_SM_RETURN_CONTINUE \<and> sc' = sc\<lparr>sc_step := s\<rparr> \<and> e' = e"
  by (auto simp: go_def)

lemmas handler_defs = stun_sm_first_def stun_sm_test_i_prepare_def stun_sm_test_i_send_def stun_sm_test_i_recv_def
  stun_sm_test_i2_prepare_def stun_sm_test_i2_send_def stun_sm_test_i2_recv_def stun_sm_test_i3_prepare_def
  stun_sm_test_i3_send_def stun_sm_test_i3_recv_def stun_sm_test_ii_prepare_def stun_sm_test_ii_send_def
  stun_sm_test_ii_recv_def stun_sm_test_iii_prepare_def stun_sm_test_iii_send_def stun_sm_test_iii_recv_def
  stun_sm_error_def stun_sm_timeout_def stun_sm_done_def send_step_def

lemma bind_SomeE:
  assumes "Option.bind m f = Some y" obtains x where "m = Some x" "f x = Some y"
  using assms by (auto simp: bind_eq_Some_conv)

lemma if_SomeE:
  assumes "(if c then x else y) = Some z" obtains "c" "x = Some z" | "\<not> c" "y = Some z"
  using assms by (auto split: if_splits)

lemma handler_next:
  "stun_sm_first sc e = Some (r, sc', e') \<Longrightarrow> r = STUN_SM_RETURN_CONTINUE \<and>
    sc_step sc' \<in> {STUN_STEP_TEST_I_PREPARE} \<and> sc_step_previous sc' = sc_step_previous sc"
  "stun_sm_test_i_prepare os sc e = Some (r, sc', e') \<Longrightarrow> r = STUN_SM_RETURN_CONTINUE \<and>
    sc_step sc' \<in> {STUN_STEP_ERROR, STUN_STEP_TEST_I_SEND} \<and> sc_step_previous sc' = sc_step_previous sc"
  "stun_sm_test_i_send os sc e = Some (r, sc', e') \<Longrightarrow> r = STUN_SM_RETURN_WAIT \<and>
    sc_step sc' \<in> {STUN_STEP_TEST_I_RECV} \<and> sc_step_previous sc' = sc_step_previous sc"
  "stun_sm_test_i_recv os sc e = Some (r, sc', e') \<Longrightarrow> r = STUN_SM_RETURN_CONTINUE \<and>
    sc_step sc' \<in> {STUN_STEP_TEST_I2_PREPARE} \<and> sc_step_previous sc' = sc_step_previous sc"
  "stun_sm_test_i2_prepare sc e = Some (r, sc', e') \<Longrightarrow> r = STUN_SM_RETURN_CONTINUE \<and>
    sc_step sc' \<in> {STUN_STEP_TEST_II_PREPARE, STUN_STEP_TEST_I2_SEND} \<and> sc_step_previous sc' = sc_step_previous sc"
  "stun_sm_test_i2_send os sc e = Some (r, sc', e') \<Longrightarrow> r = STUN_SM_RETURN_WAIT \<and>
    sc_step sc' \<in> {STUN_STEP_TEST_I2_RECV} \<and> sc_step_previous sc' = sc_step_previous sc"
  "stun_sm_test_i2_recv os sc e = Some (r, sc', e') \<Longrightarrow> r = STUN_SM_RETURN_CONTINUE \<and>
    sc_step sc' \<in> {STUN_STEP_TEST_I3_PREPARE} \<and> sc_step_previous sc' = sc_step_previous sc"
  "stun_sm_test_i3_prepare sc e = Some (r, sc', e') \<Longrightarrow> r = STUN_SM_RETURN_CONTINUE \<and>
    sc_step sc' \<in> {STUN_STEP_TEST_II_PREPARE, STUN_STEP_TEST_I3_SEND} \<and> sc_step_previous sc' = sc_step_previous sc"
  "stun_sm_test_i3_send os sc e = Some (r, sc', e') \<Longrightarrow> r = STUN_SM_RETURN_WAIT \<and>
    sc_step sc' \<in> {STUN_STEP_TEST_I3_RECV} \<and> sc_step_previous sc' = sc_step_previous sc"
  "stun_sm_test_i3_recv os sc e = Some (r, sc', e') \<Longrightarrow> r = STUN_SM_RETURN_CONTINUE \<and>
    sc_step sc' \<in> {STUN_STEP_TEST_II_PREPARE} \<and> sc_step_previous sc' = sc_step_previous sc"
  "stun_sm_test_ii_prepare os sc e = Some (r, sc', e') \<Longrightarrow> r = STUN_SM_RETURN_CONTINUE \<and>
    sc_step sc' \<in> {STUN_STEP_ERROR, STUN_STEP_TEST_II_SEND} \<and> sc_step_previous sc' = sc_step_previous sc"
  "stun_sm_test_ii_send os sc e = Some (r, sc', e') \<Longrightarrow> r = STUN_SM_RETURN_WAIT \<and>
    sc_step sc' \<in> {STUN_STEP_TEST_II_RECV} \<and> sc_step_previous sc' = sc_step_previous sc"
  "stun_sm_test_ii_recv os sc e = Some (r, sc', e') \<Longrightarrow> r = STUN_SM_RETURN_CONTINUE \<and>
    sc_step sc' \<in> {STUN_STEP_ERROR, STUN_STEP_TEST_III_PREPARE} \<and> sc_step_previous sc' = sc_step_previous sc"
  "stun_sm_test_iii_prepare sc e = Some (r, sc', e') \<Longrightarrow> r = STUN_SM_RETURN_CONTINUE \<and>
    sc_step sc' \<in> {STUN_STEP_TEST_III_SEND} \<and> sc_step_previous sc' = sc_step_previous sc"
  "stun_sm_test_iii_send os sc e = Some (r, sc', e') \<Longrightarrow> r = STUN_SM_RETURN_WAIT \<and>
    sc_step sc' \<in> {STUN_STEP_TEST_III_RECV} \<and> sc_step_previous sc' = sc_step_previous sc"
  "stun_sm_test_iii_recv os sc e = Some (r, sc', e') \<Longrightarrow> r = STUN_SM_RETURN_CONTINUE \<and>
    sc_step sc' \<in> {STUN_STEP_ERROR, STUN_STEP_DONE} \<and> sc_step_previous sc' = sc_step_previous sc"
  "stun_sm_error sc e = Some (r, sc', e') \<Longrightarrow> r = STUN_SM_RETURN_CONTINUE \<and>
    sc_step sc' \<in> {STUN_STEP_DONE} \<and> sc_step_previous sc' = sc_step_previous sc"
  by (auto simp: handler_defs Let_def split_beta elim!: bind_SomeE if_SomeE)

lemma timeout_next:
  "stun_sm_timeout sc e = Some (r, sc', e') \<Longrightarrow> r = STUN_SM_RETURN_CONTINUE \<and> sc_step sc' \<noteq> STUN_STEP_TIMEOUT \<and>
     step_rank (sc_step sc') < step_rank (sc_step_previous sc) - 1"
  by (auto simp: stun_sm_timeout_def split: stun_step.splits)

lemma done_next: "stun_sm_done sc e = Some (r, sc', e') \<Longrightarrow> r = STUN_SM_RETURN_ABORT \<and> sc' = sc"
  by (auto simp: stun_sm_done_def)

lemma sm_switch_rank:
  assumes "sm_switch os (sc_step sc) sc e = Some (r, sc', e')" and "r \<noteq> STUN_SM_RETURN_ABORT"
  shows "sc_rank sc' < sc_rank sc"
  using assms by (cases "sc_step sc") (auto simp: sc_rank_def dest!: handler_next timeout_next done_next)

section \<open>The loops\<close>

function stun_client_sm :: "stun_os \<Rightarrow> sm_handler" where
  "stun_client_sm os sc e = (case sm_switch os (sc_step sc) sc e of
       None \<Rightarrow> None
     | Some (r, sc', e') \<Rightarrow> if r = STUN_SM_RETURN_CONTINUE then stun_client_sm os sc' e' else Some (r, sc', e'))"
  by pat_completeness auto
termination by (relation "measure (\<lambda>(os, sc, e). sc_rank sc)") (auto dest: sm_switch_rank)

declare stun_client_sm.simps [simp del]

text \<open>The descriptor that \<open>select\<close> reports is the only one in the set.\<close>

definition stun_client_wait :: "stun_os \<Rightarrow> stun_client \<Rightarrow> stun_env \<Rightarrow> stun_client \<times> stun_env" where
  "stun_client_wait os sc e =
     (let err = os_select os (env_selects e) (env_sent e); e = e\<lparr>env_selects := env_selects e + 1\<rparr> in
      if err = -1 then (sc\<lparr>sc_step := STUN_STEP_ERROR\<rparr>, e)
      else if err = 0 then (sc\<lparr>sc_step_previous := sc_step sc, sc_step := STUN_STEP_TIMEOUT\<rparr>, e)
      else (sc, e))"

lemma stun_client_sm_end:
  assumes "stun_client_sm os sc e = Some (r, sc', e')"
  shows "r = STUN_SM_RETURN_WAIT \<and> sc_rank sc' < sc_rank sc \<and> sc_step sc' \<in> {STUN_STEP_TEST_I_RECV, STUN_STEP_TEST_I2_RECV,
      STUN_STEP_TEST_I3_RECV, STUN_STEP_TEST_II_RECV, STUN_STEP_TEST_III_RECV} \<or>
    r = STUN_SM_RETURN_ABORT \<and> sc_step sc' = STUN_STEP_DONE"
  using assms
proof (induction os sc e rule: stun_client_sm.induct)
  case (1 os sc e)
  obtain r1 sc1 e1 where s: "sm_switch os (sc_step sc) sc e = Some (r1, sc1, e1)"
    using "1.prems" by (auto simp: stun_client_sm.simps [of os sc e] split: option.splits)
  show ?case
  proof (cases "r1 = STUN_SM_RETURN_CONTINUE")
    case True
    then have "stun_client_sm os sc1 e1 = Some (r, sc', e')" using "1.prems" s by (simp add: stun_client_sm.simps [of os sc e])
    then show ?thesis using "1.IH" [OF s refl refl True] sm_switch_rank [OF s] True by force
  next
    case False
    then have eq: "r1 = r" "sc1 = sc'" using "1.prems" s by (auto simp: stun_client_sm.simps [of os sc e])
    have "r = STUN_SM_RETURN_WAIT \<and> sc_step sc' \<in> {STUN_STEP_TEST_I_RECV, STUN_STEP_TEST_I2_RECV,
      STUN_STEP_TEST_I3_RECV, STUN_STEP_TEST_II_RECV, STUN_STEP_TEST_III_RECV} \<or> r = STUN_SM_RETURN_ABORT \<and> sc_step sc' = STUN_STEP_DONE"
      using s False eq by (cases "sc_step sc") (auto dest!: handler_next timeout_next done_next)
    then show ?thesis using sm_switch_rank [OF s] eq by auto
  qed
qed

lemma stun_client_wait_rank:
  assumes "sc_step sc \<in> {STUN_STEP_TEST_I_RECV, STUN_STEP_TEST_I2_RECV,
      STUN_STEP_TEST_I3_RECV, STUN_STEP_TEST_II_RECV, STUN_STEP_TEST_III_RECV}" and "stun_client_wait os sc e = (sc', e')"
  shows "sc_rank sc' \<le> sc_rank sc"
  using assms by (auto simp: stun_client_wait_def sc_rank_def Let_def split: if_splits)

function perform_loop :: "stun_os \<Rightarrow> stun_client \<Rightarrow> stun_env \<Rightarrow> (stun_client \<times> stun_env) option" where
  "perform_loop os sc e =
     (if sc_step sc = STUN_STEP_DONE then Some (sc, e)
      else case stun_client_sm os sc e of
          None \<Rightarrow> None
        | Some (r, sc', e') \<Rightarrow>
            let (sc'', e'') = (if r = STUN_SM_RETURN_WAIT then stun_client_wait os sc' e' else (sc', e'))
            in perform_loop os sc'' e'')"
  by pat_completeness auto
termination
proof (relation "measure (\<lambda>(os, sc, e). if sc_step sc = STUN_STEP_DONE then 0 else Suc (sc_rank sc))", goal_cases)
  case (2 os sc e x r y sc1 e1 z sc2 e2)
  then have c: "stun_client_sm os sc e = Some (r, sc1, e1)" by simp
  have z: "(if r = STUN_SM_RETURN_WAIT then stun_client_wait os sc1 e1 else (sc1, e1)) = (sc2, e2)" using 2 by simp
  show ?case
  proof (cases "r = STUN_SM_RETURN_WAIT")
    case True
    then have "sc_rank sc2 < sc_rank sc"
      using stun_client_sm_end [OF c] stun_client_wait_rank [of sc1 os e1 sc2 e2] z by auto
    then show ?thesis using 2(1) by simp
  next
    case False
    then show ?thesis using stun_client_sm_end [OF c] z 2(1) by auto
  qed
qed simp

declare perform_loop.simps [simp del]

definition stun_client_perform :: "stun_os \<Rightarrow> stun_client \<Rightarrow> stun_env \<Rightarrow> (stun_client \<times> stun_env) option" where
  "stun_client_perform os sc e =
     (if sc_step sc \<noteq> STUN_STEP_FIRST \<or> sc_fd sc \<noteq> -1 then None else perform_loop os sc e)"

section \<open>Results\<close>

definition stun_client_get_nattype :: "stun_client \<Rightarrow> stun_nattype" where
  "stun_client_get_nattype sc =
     (let res = sc_result sc in
      if test_ii_fail_no_ip_change res \<or> test_ii_fail_parse_error res \<or> test_ii_fail_wrong_test_num res \<or>
         test_iii_fail_parse_error res \<or> test_iii_fail_wrong_test_num res \<or> test_iii_fail_no_port_change res
      then STUN_NATTYPE_FAILURE
      else if \<not> test_i_success res then STUN_NATTYPE_BLOCKED
      else if is_nat res then
        (if mapped_same_ip res then
           (if test_ii_success res then STUN_NATTYPE_FULL_CONE
            else if test_iii_success res then STUN_NATTYPE_RESTRICTED_CONE
            else STUN_NATTYPE_PORT_RESTRICTED_CONE)
         else STUN_NATTYPE_SYMMETRIC)
      else if test_ii_success res then STUN_NATTYPE_OPEN
      else STUN_NATTYPE_FIREWALL)"

definition stun_client_get_mapped_addr :: "stun_client \<Rightarrow> stun_addr4" where
  "stun_client_get_mapped_addr sc = (if \<not> test_i_success (sc_result sc) then addr4_zero else sc_test_i sc)"

fun STUNC_nattypestr :: "stun_nattype \<Rightarrow> string" where
  "STUNC_nattypestr STUN_NATTYPE_FAILURE = ''FAILURE''"
| "STUNC_nattypestr STUN_NATTYPE_BLOCKED = ''BLOCKED''"
| "STUNC_nattypestr STUN_NATTYPE_FULL_CONE = ''FULL_CONE''"
| "STUNC_nattypestr STUN_NATTYPE_RESTRICTED_CONE = ''RESTRICTED_CONE''"
| "STUNC_nattypestr STUN_NATTYPE_PORT_RESTRICTED_CONE = ''PORT_RESTRICTED_CONE''"
| "STUNC_nattypestr STUN_NATTYPE_SYMMETRIC = ''SYMMETRIC''"
| "STUNC_nattypestr STUN_NATTYPE_OPEN = ''OPEN''"
| "STUNC_nattypestr STUN_NATTYPE_FIREWALL = ''FIREWALL''"
| "STUNC_nattypestr STUN_NATTYPE_UNKNOWN = ''UNKNOWN''"

text \<open>The structure that \<open>stunc_test_loop\<close> sets up for each attempt; \<open>ntohl(inet_addr("13.56.166.106"))\<close>.\<close>

definition result_zero :: stun_result where
  "result_zero = \<lparr>test_i_success = False, test_i2_success = False, test_i3_success = False, test_ii_success = False,
     test_ii_fail_recvmsg = False, test_ii_fail_no_ip_change = False, test_ii_fail_parse_error = False,
     test_ii_fail_wrong_test_num = False, test_iii_success = False, test_iii_fail_recvmsg = False,
     test_iii_fail_no_port_change = False, test_iii_fail_parse_error = False, test_iii_fail_wrong_test_num = False,
     preserve_port = False, hairpin = False, mapped_same_ip = False, is_nat = False\<rparr>"

definition sc_start :: stun_client where
  "sc_start = \<lparr>sc_step = STUN_STEP_FIRST, sc_step_previous = STUN_STEP_FIRST, sc_src = addr4_zero,
     sc_dst = \<lparr>sa_port = 3478, sa_addr = 0x0D38A66A\<rparr>, sc_fd = -1, sc_username = string_zero, sc_password = string_zero,
     sc_test_i = addr4_zero, sc_test_i2 = addr4_zero, sc_result = result_zero\<rparr>"

text \<open>The attempts after the first one: \<open>n\<close> more.\<close>

fun test_again :: "stun_os \<Rightarrow> nat \<Rightarrow> stun_addr4 \<Rightarrow> stun_nattype \<Rightarrow> stun_env \<Rightarrow> (bool \<times> stun_env) option" where
  "test_again os 0 mapped_addr nattype e = Some (True, e)"
| "test_again os (Suc n) mapped_addr nattype e = do {
     (sc, e) \<leftarrow> stun_client_perform os sc_start e;
     if nattype \<noteq> stun_client_get_nattype sc then Some (False, e)
     else if sa_addr mapped_addr \<noteq> sa_addr (stun_client_get_mapped_addr sc) then Some (False, e)
     else test_again os n mapped_addr nattype e }"

definition stunc_test_loop :: "stun_os \<Rightarrow> nat \<Rightarrow> stun_env \<Rightarrow> (bool \<times> stun_addr4 \<times> stun_nattype \<times> stun_env) option" where
  "stunc_test_loop os ntimes e =
     (if ntimes < 1 then None
      else do {
        (sc, e) \<leftarrow> stun_client_perform os sc_start e;
        let nattype = stun_client_get_nattype sc;
        let mapped_addr = stun_client_get_mapped_addr sc;
        if ntimes = 1 \<and> (sa_addr mapped_addr = 0 \<or> nattype = STUN_NATTYPE_FAILURE) then Some (False, mapped_addr, nattype, e)
        else do {
          (ok, e) \<leftarrow> test_again os (ntimes - 1) mapped_addr nattype e;
          Some (ok, mapped_addr, nattype, e) } })"

text \<open>\<open>stunc_result\<close>, with the address in network byte order, and \<open>stunc_result_inited\<close>.\<close>

definition htonl :: "u32 \<Rightarrow> u32" where "htonl v = U8TO32_LITTLE (U32TO8_BIG v)"

record stun_client_result =
  stunc_nattype :: stun_nattype
  stunc_mapped_addr :: u32
  stunc_result_inited :: bool

definition STUNC_test :: "stun_os \<Rightarrow> nat \<Rightarrow> stun_client_result \<Rightarrow> stun_env \<Rightarrow> (int \<times> stun_client_result \<times> stun_env) option" where
  "STUNC_test os ntimes st e = do {
     (ok, mapped_addr, nattype, e) \<leftarrow> stunc_test_loop os ntimes e;
     if \<not> ok then Some (-1, st, e)
     else do {
       let naddr = htonl (sa_addr mapped_addr);
       if naddr = 0 then Some (-1, st, e)
       else if stunc_result_inited st then do {
         let st = (if stunc_nattype st \<noteq> nattype then st\<lparr>stunc_nattype := nattype\<rparr> else st);
         let st = (if stunc_mapped_addr st \<noteq> naddr then st\<lparr>stunc_mapped_addr := naddr\<rparr> else st);
         Some (0, st, e) }
       else Some (0, st\<lparr>stunc_nattype := nattype, stunc_mapped_addr := naddr, stunc_result_inited := True\<rparr>, e) } }"

definition STUNC_get_nattype :: "stun_client_result \<Rightarrow> stun_nattype" where
  "STUNC_get_nattype st = (if \<not> stunc_result_inited st then STUN_NATTYPE_UNKNOWN else stunc_nattype st)"

definition STUNC_get_mappped_addr :: "stun_client_result \<Rightarrow> string option" where
  "STUNC_get_mappped_addr st = (if \<not> stunc_result_inited st then None else Some (inet_ntoa (stunc_mapped_addr st)))"

definition STUNC_init :: "stun_os \<Rightarrow> stun_client_result \<Rightarrow> stun_env \<Rightarrow> (int \<times> stun_client_result \<times> stun_env) option" where
  "STUNC_init os st e = do { (_, st, e) \<leftarrow> STUNC_test os 1 st e; Some (0, st, e) }"

section \<open>Descriptors and the length of a run\<close>

text \<open>The sends that remain; one at each of the send steps.\<close>

definition sends_left :: "stun_client \<Rightarrow> nat" where
  "sends_left sc = (let r = sc_rank sc in
     (if 8 \<le> r then 1 else 0) + (if 14 \<le> r then 1 else 0) + (if 20 \<le> r then 1 else 0) +
     (if 26 \<le> r then 1 else 0) + (if 32 \<le> r then 1 else 0))"

definition held :: "stun_client \<Rightarrow> int multiset" where
  "held sc = (if sc_fd sc \<ge> 0 then {#sc_fd sc#} else {#})"

definition run_inv :: "int multiset \<Rightarrow> nat \<Rightarrow> stun_client \<Rightarrow> stun_env \<Rightarrow> bool" where
  "run_inv opens n sc e \<longleftrightarrow> mset (env_open e) = opens + held sc \<and> env_sends e + sends_left sc \<le> n \<and>
     (sc_step sc \<in> {STUN_STEP_FIRST, STUN_STEP_TEST_I_PREPARE} \<longrightarrow> sc_fd sc = -1)"

lemma open_port_env:
  assumes "stun_open_port os port ip e = Some (d, e')"
  shows "env_sends e' = env_sends e \<and> (d = -1 \<and> mset (env_open e') = mset (env_open e) \<or>
    d \<ge> 0 \<and> mset (env_open e') = add_mset d (mset (env_open e)))"
  using assms by (auto simp: stun_open_port_def odr_close_def Let_def split: if_splits)

lemma sendtest_env:
  "stun_sendtest os d dest u pw t e = Some e' \<Longrightarrow> env_open e' = env_open e \<and> env_sends e' = Suc (env_sends e)"
  by (auto simp: stun_sendtest_def stun_sendmsg_def Let_def split_beta split: if_splits elim!: bind_SomeE)

lemma recvmsg_env:
  "stun_recvmsg os d e = Some (r, len, buf, from, e') \<Longrightarrow> env_open e' = env_open e \<and> env_sends e' = env_sends e \<and> d \<ge> 0"
  by (auto simp: stun_recvmsg_def Let_def split_beta split: if_splits)

lemma odr_close_env [simp]: "env_sends (odr_close d e) = env_sends e"
  "mset (env_open (odr_close d e)) = mset (env_open e) - {#d#}"
  by (simp_all add: odr_close_def)


lemma sends_left_mono: "sc_rank sc' \<le> sc_rank sc \<Longrightarrow> sends_left sc' \<le> sends_left sc"
  by (auto simp: sends_left_def Let_def)

text \<open>What a handler does to the descriptor, the open sockets and the number of sends.\<close>

lemma prepare_env:
  "stun_sm_test_i_prepare os sc e = Some (r, sc', e') \<Longrightarrow> sc_fd sc = -1 \<Longrightarrow>
     env_sends e' = env_sends e \<and> mset (env_open e') = mset (env_open e) + held sc'"
  "stun_sm_test_ii_prepare os sc e = Some (r, sc', e') \<Longrightarrow>
     env_sends e' = env_sends e \<and> mset (env_open e') = mset (env_open e) - held sc + held sc'"
  by (auto simp: stun_sm_test_i_prepare_def stun_sm_test_ii_prepare_def held_def Let_def split_beta
      elim!: bind_SomeE if_SomeE dest!: open_port_env split: if_splits)

lemma send_env:
  assumes "send_step os dst t s sc e = Some (r, sc', e')"
  shows "env_sends e' = Suc (env_sends e) \<and> env_open e' = env_open e \<and> sc_fd sc' = sc_fd sc"
  using assms by (auto simp: send_step_def elim!: bind_SomeE dest!: sendtest_env)

lemma recv_env:
  "stun_sm_test_i_recv os sc e = Some (r, sc', e') \<Longrightarrow>
     env_sends e' = env_sends e \<and> mset (env_open e') = mset (env_open e) \<and> sc_fd sc' = sc_fd sc"
  "stun_sm_test_i2_recv os sc e = Some (r, sc', e') \<Longrightarrow>
     env_sends e' = env_sends e \<and> env_open e' = env_open e \<and> sc_fd sc' = sc_fd sc"
  "stun_sm_test_i3_recv os sc e = Some (r, sc', e') \<Longrightarrow>
     env_sends e' = env_sends e \<and> env_open e' = env_open e \<and> sc_fd sc' = sc_fd sc"
  "stun_sm_test_ii_recv os sc e = Some (r, sc', e') \<Longrightarrow>
     env_sends e' = env_sends e \<and> env_open e' = env_open e \<and> sc_fd sc' = sc_fd sc"
  "stun_sm_test_iii_recv os sc e = Some (r, sc', e') \<Longrightarrow>
     env_sends e' = env_sends e \<and> env_open e' = env_open e \<and> sc_fd sc' = sc_fd sc"
  subgoal by (auto simp: stun_sm_test_i_recv_def Let_def split_beta elim!: bind_SomeE if_SomeE dest!: recvmsg_env open_port_env split: if_splits)
  by (auto simp: stun_sm_test_i2_recv_def stun_sm_test_i3_recv_def stun_sm_test_ii_recv_def stun_sm_test_iii_recv_def Let_def split_beta
      elim!: bind_SomeE if_SomeE dest!: recvmsg_env)

lemma pure_env:
  "stun_sm_first sc e = Some (r, sc', e') \<Longrightarrow> e' = e \<and> sc_fd sc' = sc_fd sc"
  "stun_sm_test_i2_prepare sc e = Some (r, sc', e') \<Longrightarrow> e' = e \<and> sc_fd sc' = sc_fd sc"
  "stun_sm_test_i3_prepare sc e = Some (r, sc', e') \<Longrightarrow> e' = e \<and> sc_fd sc' = sc_fd sc"
  "stun_sm_test_iii_prepare sc e = Some (r, sc', e') \<Longrightarrow> e' = e \<and> sc_fd sc' = sc_fd sc"
  "stun_sm_error sc e = Some (r, sc', e') \<Longrightarrow> e' = e \<and> sc_fd sc' = sc_fd sc"
  "stun_sm_timeout sc e = Some (r, sc', e') \<Longrightarrow> e' = e \<and> sc_fd sc' = sc_fd sc"
  by (auto simp: handler_defs split: if_splits stun_step.splits)


lemma not_first_again:
  assumes "sm_switch os (sc_step sc) sc e = Some (r, sc', e')"
  shows "sc_step sc' \<noteq> STUN_STEP_FIRST \<and> (sc_step sc' = STUN_STEP_TEST_I_PREPARE \<longrightarrow> sc_step sc = STUN_STEP_FIRST) \<or> r = STUN_SM_RETURN_ABORT"
  using assms by (cases "sc_step sc") (auto dest!: handler_next timeout_next done_next simp: stun_sm_timeout_def split: stun_step.splits)

lemma sm_switch_open:
  assumes "sm_switch os (sc_step sc) sc e = Some (r, sc', e')" and "r \<noteq> STUN_SM_RETURN_ABORT"
    and "mset (env_open e) = opens + held sc" and "sc_step sc = STUN_STEP_TEST_I_PREPARE \<longrightarrow> sc_fd sc = -1"
  shows "mset (env_open e') = opens + held sc'"
  using assms
  by (cases "sc_step sc")
    (auto simp: stun_sm_test_i_send_def stun_sm_test_i2_send_def stun_sm_test_i3_send_def stun_sm_test_ii_send_def stun_sm_test_iii_send_def
      held_def dest!: pure_env recv_env send_env prepare_env done_next elim!: if_SomeE split: if_splits)

lemma sm_switch_sends:
  assumes "sm_switch os (sc_step sc) sc e = Some (r, sc', e')" and "r \<noteq> STUN_SM_RETURN_ABORT"
    and "sc_step sc = STUN_STEP_TEST_I_PREPARE \<longrightarrow> sc_fd sc = -1"
  shows "env_sends e' + sends_left sc' \<le> env_sends e + sends_left sc"
proof (cases "sc_step sc \<in> {STUN_STEP_TEST_I_SEND, STUN_STEP_TEST_I2_SEND, STUN_STEP_TEST_I3_SEND, STUN_STEP_TEST_II_SEND, STUN_STEP_TEST_III_SEND}")
  case True
  then have "env_sends e' = Suc (env_sends e)"
    using assms(1) by (auto simp: stun_sm_test_i_send_def stun_sm_test_i2_send_def stun_sm_test_i3_send_def stun_sm_test_ii_send_def
        stun_sm_test_iii_send_def dest!: send_env elim!: if_SomeE)
  moreover have "sends_left sc = Suc (sends_left sc')"
    using True assms(1) by (auto simp: sends_left_def sc_rank_def dest!: handler_next)
  ultimately show ?thesis by simp
next
  case False
  then have "env_sends e' = env_sends e"
    using assms by (cases "sc_step sc") (auto dest!: pure_env recv_env prepare_env done_next)
  then show ?thesis using sends_left_mono [of sc' sc] sm_switch_rank [OF assms(1,2)] by simp
qed

lemma sm_switch_inv:
  assumes "run_inv opens n sc e" and "sm_switch os (sc_step sc) sc e = Some (r, sc', e')" and "r \<noteq> STUN_SM_RETURN_ABORT"
  shows "run_inv opens n sc' e'"
proof -
  have f: "sc_step sc = STUN_STEP_FIRST \<Longrightarrow> sc_fd sc' = sc_fd sc" using assms(2) by (auto dest: pure_env)
  show ?thesis
    using assms(1) sm_switch_open [OF assms(2,3)] sm_switch_sends [OF assms(2,3)] not_first_again [OF assms(2)] assms(3) f
    by (auto simp: run_inv_def)
qed

text \<open>No handler waits; waiting follows a send.\<close>

lemma env_selects_calls:
  "stun_open_port os port ip e = Some (d, e') \<Longrightarrow> env_selects e' = env_selects e"
  "stun_sendtest os d dest u pw t e = Some e' \<Longrightarrow> env_selects e' = env_selects e"
  "stun_recvmsg os d e = Some (s, len, buf, from, e') \<Longrightarrow> env_selects e' = env_selects e"
  by (auto simp: stun_open_port_def stun_sendtest_def stun_sendmsg_def stun_recvmsg_def odr_close_def Let_def split_beta
      split: if_splits elim!: bind_SomeE)

lemma env_selects_close [simp]: "env_selects (odr_close d e) = env_selects e"
  by (simp add: odr_close_def)

lemma sm_switch_selects:
  assumes "sm_switch os (sc_step sc) sc e = Some (r, sc', e')"
  shows "env_selects e' = env_selects e"
  using assms
  by (cases "sc_step sc") (auto simp: handler_defs Let_def split_beta elim!: bind_SomeE if_SomeE dest!: env_selects_calls
      split: if_split_asm stun_step.split_asm)

lemma sm_switch_wait:
  assumes "sm_switch os (sc_step sc) sc e = Some (STUN_SM_RETURN_WAIT, sc', e')"
  shows "sends_left sc' < sends_left sc"
  using assms by (cases "sc_step sc") (auto simp: sends_left_def sc_rank_def dest!: handler_next timeout_next done_next)

lemma stun_client_sm_inv:
  assumes "stun_client_sm os sc e = Some (r, sc', e')" and "run_inv opens n sc e" and "env_selects e + sends_left sc \<le> k"
  shows "if r = STUN_SM_RETURN_WAIT then run_inv opens n sc' e' \<and> env_selects e' + sends_left sc' < k
     else mset (env_open e') = opens \<and> env_sends e' \<le> n \<and> env_selects e' \<le> k"
  using assms
proof (induction os sc e rule: stun_client_sm.induct)
  case (1 os sc e)
  obtain r1 sc1 e1 where s: "sm_switch os (sc_step sc) sc e = Some (r1, sc1, e1)"
    using "1.prems"(1) by (auto simp: stun_client_sm.simps [of os sc e] split: option.splits)
  note sel = sm_switch_selects [OF s]
  show ?case
  proof (cases r1)
    case STUN_SM_RETURN_CONTINUE
    then have "stun_client_sm os sc1 e1 = Some (r, sc', e')" using "1.prems"(1) s by (simp add: stun_client_sm.simps [of os sc e])
    moreover have "run_inv opens n sc1 e1" using sm_switch_inv [OF "1.prems"(2) s] STUN_SM_RETURN_CONTINUE by simp
    moreover have "sends_left sc1 \<le> sends_left sc"
      using sends_left_mono [of sc1 sc] sm_switch_rank [OF s] STUN_SM_RETURN_CONTINUE by simp
    ultimately show ?thesis using "1.IH" [OF s refl refl STUN_SM_RETURN_CONTINUE] "1.prems"(3) sel by simp
  next
    case STUN_SM_RETURN_WAIT
    then have "r = STUN_SM_RETURN_WAIT" "sc1 = sc'" "e1 = e'" using "1.prems"(1) s by (auto simp: stun_client_sm.simps [of os sc e])
    then show ?thesis using sm_switch_inv [OF "1.prems"(2) s] sm_switch_wait [of os sc e sc1 e1] s "1.prems"(3) sel STUN_SM_RETURN_WAIT by simp
  next
    case STUN_SM_RETURN_ABORT
    then have eq: "r = STUN_SM_RETURN_ABORT" "e1 = e'" using "1.prems"(1) s by (auto simp: stun_client_sm.simps [of os sc e])
    have "sc_step sc = STUN_STEP_DONE" using s STUN_SM_RETURN_ABORT by (cases "sc_step sc") (auto dest: handler_next timeout_next)
    then have "e' = (if sc_fd sc \<ge> 0 then odr_close (sc_fd sc) e else e)" using s eq by (auto simp: stun_sm_done_def)
    then show ?thesis using "1.prems" eq by (auto simp: run_inv_def held_def)
  qed
qed

lemma wait_inv:
  assumes "run_inv opens n sc e" and "env_selects e + sends_left sc < k" and "sc_step sc \<in> {STUN_STEP_TEST_I_RECV, STUN_STEP_TEST_I2_RECV,
      STUN_STEP_TEST_I3_RECV, STUN_STEP_TEST_II_RECV, STUN_STEP_TEST_III_RECV}" and "stun_client_wait os sc e = (sc', e')"
  shows "run_inv opens n sc' e' \<and> env_selects e' + sends_left sc' \<le> k"
proof -
  have "sends_left sc' \<le> sends_left sc" by (rule sends_left_mono [OF stun_client_wait_rank [OF assms(3,4)]])
  moreover have "env_sends e' = env_sends e" "env_open e' = env_open e" "env_selects e' = Suc (env_selects e)" "sc_fd sc' = sc_fd sc"
      "sc_step sc' \<notin> {STUN_STEP_FIRST, STUN_STEP_TEST_I_PREPARE}"
    using assms(3,4) by (auto simp: stun_client_wait_def Let_def split: if_splits)
  ultimately show ?thesis using assms(1,2) by (auto simp: run_inv_def held_def)
qed

lemma perform_loop_inv:
  assumes "perform_loop os sc e = Some (sc', e')" and "run_inv opens n sc e" and "env_selects e + sends_left sc \<le> k"
    and "sc_step sc \<noteq> STUN_STEP_DONE"
  shows "sc_step sc' = STUN_STEP_DONE \<and> mset (env_open e') = opens \<and> env_sends e' \<le> n \<and> env_selects e' \<le> k"
  using assms
proof (induction os sc e rule: perform_loop.induct)
  case (1 os sc e)
  obtain r sc1 e1 where s: "stun_client_sm os sc e = Some (r, sc1, e1)"
    using "1.prems"(1,4) by (auto simp: perform_loop.simps [of os sc e] split: option.splits)
  note i = stun_client_sm_inv [OF s "1.prems"(2,3)] and f = stun_client_sm_end [OF s]
  show ?case
  proof (cases "r = STUN_SM_RETURN_WAIT")
    case True
    obtain sc2 e2 where w: "stun_client_wait os sc1 e1 = (sc2, e2)" by fastforce
    have l: "perform_loop os sc2 e2 = Some (sc', e')" using "1.prems"(1,4) s True w by (simp add: perform_loop.simps [of os sc e])
    have "sc_step sc2 \<noteq> STUN_STEP_DONE" using w f True by (auto simp: stun_client_wait_def Let_def split: if_splits)
    then show ?thesis using "1.IH" [OF "1.prems"(4) s refl refl _ refl] wait_inv [of opens n sc1 e1 k os sc2 e2] i f True w l by auto
  next
    case False
    then have d: "sc_step sc1 = STUN_STEP_DONE" using f by simp
    have "perform_loop os sc1 e1 = Some (sc', e')" using "1.prems"(1,4) s False by (simp add: perform_loop.simps [of os sc e])
    then have "sc' = sc1" "e' = e1" using d by (simp_all add: perform_loop.simps [of os sc1])
    then show ?thesis using i False d by simp
  qed
qed

end
