(* ===== verification/Stun_Nat.thy ===== *)
theory Stun_Nat
  imports Stun_Client
begin

text \<open>
  What the STUN client finds out: in a network of a given behaviour \<open>STUNC_test\<close> returns the NAT type of the
  classification. The lemmas follow the run of the state machine backwards, test by test. The file also holds the
  bound on a run and the failed assertions.
\<close>

section \<open>The NAT types\<close>

text \<open>
  What the tests can observe of the network: whether test I is answered, the address it reports and whether that is
  an address of this machine, the other address of the server, the address that test I2 reports (if it is answered),
  and whether the answers to the tests I3, II and III arrive.
\<close>

record nat_behaviour =
  nb_reachable :: bool
  nb_mapped :: stun_addr4
  nb_local :: bool
  nb_changed :: u32
  nb_second :: "stun_addr4 option"
  nb_hairpin :: bool
  nb_ip_change :: bool
  nb_port_change :: bool

definition nat_verdict :: "nat_behaviour \<Rightarrow> stun_nattype" where
  "nat_verdict b =
     (if \<not> nb_reachable b then STUN_NATTYPE_BLOCKED
      else if nb_local b then if nb_ip_change b then STUN_NATTYPE_OPEN else STUN_NATTYPE_FIREWALL
      else if nb_second b \<noteq> Some (nb_mapped b) then STUN_NATTYPE_SYMMETRIC
      else if nb_ip_change b then STUN_NATTYPE_FULL_CONE
      else if nb_port_change b then STUN_NATTYPE_RESTRICTED_CONE
      else STUN_NATTYPE_PORT_RESTRICTED_CONE)"

definition answered :: "nat_behaviour \<Rightarrow> u8 \<Rightarrow> bool" where
  "answered b t = (if t = 1 then nb_reachable b else if t = 10 then nb_second b \<noteq> None else if t = 11 then nb_hairpin b
     else if t = 2 then nb_ip_change b else nb_port_change b)"

text \<open>The number of the test, the first octet of the transaction of the last request.\<close>

definition last_test :: "sent list \<Rightarrow> u8" where
  "last_test ss = (case last ss of (d, buf, addr, port) \<Rightarrow> buf ! 4)"

text \<open>An answer to test \<open>t\<close>: the encoding of a message with the transaction of the request and the addresses.\<close>

definition right_answer :: "nat_behaviour \<Rightarrow> u8 \<Rightarrow> int \<times> bytes \<times> u32 \<times> u16 \<Rightarrow> bool" where
  "right_answer b t = (\<lambda>(len, buf, ip, port). \<exists>m bs rest.
     plain_msg m \<and> stun_encodemsg m 2048 string_zero = Some bs \<and> buf = bs @ rest \<and> length buf = 2048 \<and> len = int (length bs) \<and>
     hdr_id (msg_hdr m) ! 0 = t \<and>
     (t = 1 \<longrightarrow> at_ipv4 (mapped_address m) = nb_mapped b \<and> sa_addr (at_ipv4 (changed_address m)) = nb_changed b) \<and>
     (t = 10 \<longrightarrow> nb_second b = Some (at_ipv4 (mapped_address m))) \<and>
     (t = 2 \<longrightarrow> ip \<noteq> 0x0D38A66A) \<and> (t = 3 \<longrightarrow> port \<noteq> 3478))"

text \<open>Sockets can be opened, requests of 28 bytes are sent, and the answers are those of the behaviour.\<close>

definition nat_world :: "nat_behaviour \<Rightarrow> stun_os \<Rightarrow> bool" where
  "nat_world b os \<longleftrightarrow>
     sa_addr (nb_mapped b) \<noteq> 0 \<and> sa_addr (nb_mapped b) \<noteq> 0x100007f \<and> sa_port (nb_mapped b) \<noteq> 0 \<and> nb_changed b \<noteq> 0 \<and>
     (\<forall>n. os_socket os n \<ge> 0 \<and> (\<forall>port. os_bind os n port 0) \<and> os_bind os n 0 (sa_addr (nb_mapped b)) = nb_local b) \<and>
     (\<forall>n. os_sendto os n = 28) \<and>
     (\<forall>n ss. ss \<noteq> [] \<longrightarrow> os_select os n ss = (if answered b (last_test ss) then 1 else 0)) \<and>
     (\<forall>n ss. ss \<noteq> [] \<longrightarrow> answered b (last_test ss) \<longrightarrow> right_answer b (last_test ss) (os_recvfrom os n ss))"

subsection \<open>The calls in such a world\<close>

lemma request_bytes:
  assumes "length rs = 4" and "n \<noteq> 0"
  shows "\<exists>bs. stun_encodemsg (stun_buildreq string_zero cp ci n rs) 2048 string_zero = Some bs \<and> length bs = 28 \<and> bs ! 4 = ucast n"
proof -
  let ?m = "stun_buildreq string_zero cp ci n rs"
  have id: "length (hdr_id (msg_hdr ?m)) = 16" using stun_buildreq_plain [OF assms(1), of string_zero cp ci n]
    by (simp add: plain_msg_def string_zero_def)
  have "encode_attributes ?m = Some (stun_encode_attr_changerequest (change_request ?m))"
    by (simp add: encode_attributes_def opt_attr_def stun_buildreq_def Let_def stun_msg_zero_def string_zero_def)
  then have "stun_encodemsg ?m 2048 string_zero = Some (stun_encode16 (hdr_msg_type (msg_hdr ?m)) @ stun_encode16 8 @
      hdr_id (msg_hdr ?m) @ stun_encode_attr_changerequest (change_request ?m))"
    by (simp add: stun_encodemsg_def string_zero_def)
  then show ?thesis using id stun_buildreq_id [OF assms, of string_zero cp ci] by (simp add: nth_append)
qed

lemma world_send:
  assumes "nat_world b os" and "d \<ge> 0" and "sa_addr dest \<noteq> 0" "sa_port dest \<noteq> 0" and "t \<in> {1, 10, 11, 2, 3}"
  obtains e' where "stun_sendtest os d dest string_zero string_zero t e = Some e'" "env_sent e' \<noteq> []" "last_test (env_sent e') = of_nat t"
proof -
  have "(of_nat t :: u32) \<noteq> 0" "(ucast (of_nat t :: u32) :: u8) = of_nat t" using assms(5) by auto
  then obtain bs where "stun_encodemsg (stun_buildreq string_zero (t = 3) (t = 2) (of_nat t) (map (\<lambda>i. os_rand os (env_rands e + i)) [0..<4])) 2048 string_zero = Some bs"
      "length bs = 28" "bs ! 4 = of_nat t"
    using request_bytes [of "map (\<lambda>i. os_rand os (env_rands e + i)) [0..<4]" "of_nat t" "t = 3" "t = 2"] by auto
  then show ?thesis using assms that [of "e\<lparr>env_rands := env_rands e + 4, env_sends := env_sends e + 1, env_sent := env_sent e @ [(d, bs, sa_addr dest, sa_port dest)]\<rparr>"]
    by (simp add: stun_sendtest_def stun_sendmsg_def Let_def nat_world_def last_test_def)
qed

lemma world_recv:
  assumes "nat_world b os" and "d \<ge> 0" and "env_sent e \<noteq> []" and "last_test (env_sent e) = t" and "answered b t"
  shows "\<exists>len buf ip port e' m. stun_recvmsg os d e = Some (0, len, buf, \<lparr>sa_port = port, sa_addr = ip\<rparr>, e') \<and>
    stun_parsemsg buf (of_int len) stun_msg_zero = Some (True, m) \<and> hdr_id (msg_hdr m) ! 0 = t \<and>
    (t = 1 \<longrightarrow> at_ipv4 (mapped_address m) = nb_mapped b \<and> sa_addr (at_ipv4 (changed_address m)) = nb_changed b) \<and>
    (t = 10 \<longrightarrow> nb_second b = Some (at_ipv4 (mapped_address m))) \<and> (t = 2 \<longrightarrow> ip \<noteq> 0x0D38A66A) \<and> (t = 3 \<longrightarrow> port \<noteq> 3478)"
proof -
  obtain len buf ip port where r: "os_recvfrom os (env_recvs e) (env_sent e) = (len, buf, ip, port)" by (metis prod_cases4)
  have "right_answer b t (len, buf, ip, port)" using assms r by (metis nat_world_def)
  then obtain m bs rest where m: "plain_msg m" "stun_encodemsg m 2048 string_zero = Some bs" "buf = bs @ rest" "length buf = 2048"
      "len = int (length bs)" "hdr_id (msg_hdr m) ! 0 = t"
      "t = 1 \<longrightarrow> at_ipv4 (mapped_address m) = nb_mapped b \<and> sa_addr (at_ipv4 (changed_address m)) = nb_changed b"
      "t = 10 \<longrightarrow> nb_second b = Some (at_ipv4 (mapped_address m))" "t = 2 \<longrightarrow> ip \<noteq> 0x0D38A66A" "t = 3 \<longrightarrow> port \<noteq> 3478"
    unfolding right_answer_def by blast
  let ?m = "m\<lparr>msg_hdr := (msg_hdr m)\<lparr>hdr_msg_length := of_nat (length bs - 20)\<rparr>\<rparr>"
  have p: "length bs \<le> 880" "stun_parsemsg (bs @ rest[0 := 0]) (of_nat (length bs)) stun_msg_zero = Some (True, ?m)"
    using stun_encode_parse [OF m(1), of "rest[0 := 0]" stun_msg_zero] m(2) by auto
  have "length bs \<ge> 20" using m(1,2) by (auto simp: stun_encodemsg_def plain_msg_def bind_eq_Some_conv split: if_splits)
  then have l: "\<not> len \<le> 0" "\<not> len + 1 \<ge> 2048" "buf[nat len := 0] = bs @ rest[0 := 0]"
    using p(1) m(3,5) by (auto simp: list_update_append)
  have rm: "stun_recvmsg os d e = Some (0, len, bs @ rest[0 := 0], \<lparr>sa_port = port, sa_addr = ip\<rparr>, e\<lparr>env_recvs := env_recvs e + 1\<rparr>)"
    using assms(2) by (simp only: stun_recvmsg_def r prod.case l Let_def) simp
  have pm: "stun_parsemsg (bs @ rest[0 := 0]) (of_int len) stun_msg_zero = Some (True, ?m)" using p(2) m(5) by simp
  show ?thesis
    by (intro exI [of _ len] exI [of _ "bs @ rest[0 := 0]"] exI [of _ ip] exI [of _ port] exI [of _ "e\<lparr>env_recvs := env_recvs e + 1\<rparr>"] exI [of _ ?m])
      (simp only: rm pm, simp add: m(6-10))
qed

lemma world_open:
  assumes "nat_world b os"
  shows "\<exists>d e'. stun_open_port os port 0 e = Some (d, e') \<and> d \<ge> 0 \<and> env_sent e' = env_sent e"
    "\<exists>d e'. stun_open_port os 0 (sa_addr (nb_mapped b)) e = Some (d, e') \<and> (d = -1) = (\<not> nb_local b) \<and> env_sent e' = env_sent e"
proof -
  have s: "os_socket os n \<ge> 0" "os_socket os n \<noteq> -1" "\<not> os_socket os n < 0" for n
  proof -
    show "os_socket os n \<ge> 0" using assms by (simp add: nat_world_def)
    then show "os_socket os n \<noteq> -1" "\<not> os_socket os n < 0" by linarith+
  qed
  show "\<exists>d e'. stun_open_port os port 0 e = Some (d, e') \<and> d \<ge> 0 \<and> env_sent e' = env_sent e"
    using assms s by (simp add: stun_open_port_def Let_def nat_world_def)
  show "\<exists>d e'. stun_open_port os 0 (sa_addr (nb_mapped b)) e = Some (d, e') \<and> (d = -1) = (\<not> nb_local b) \<and> env_sent e' = env_sent e"
    using assms s by (simp add: stun_open_port_def Let_def nat_world_def odr_close_def)
qed


subsection \<open>Runs\<close>

definition ends :: "stun_os \<Rightarrow> stun_client \<Rightarrow> stun_env \<Rightarrow> (stun_client \<Rightarrow> bool) \<Rightarrow> bool" where
  "ends os sc e Q \<longleftrightarrow> (\<exists>sc' e'. perform_loop os sc e = Some (sc', e') \<and> Q sc')"

lemma ends_continue:
  assumes "sm_switch os s sc e = Some (STUN_SM_RETURN_CONTINUE, sc', e')" and "sc_step sc = s" and "s \<noteq> STUN_STEP_DONE"
    and "sc_step sc' \<noteq> STUN_STEP_DONE" and "ends os sc' e' Q"
  shows "ends os sc e Q"
  using assms by (simp add: ends_def perform_loop.simps [of os sc e] perform_loop.simps [of os sc' e'] stun_client_sm.simps [of os sc e])

lemma ends_next:
  assumes "sm_switch os s sc e = Some (STUN_SM_RETURN_CONTINUE, sc', e')" and "ends os sc' e' Q"
    and "sc_step sc = s" and "s \<noteq> STUN_STEP_DONE" and "sc_step sc' \<noteq> STUN_STEP_DONE"
  shows "ends os sc e Q"
  using ends_continue [OF assms(1,3-5,2)] .

lemma ends_done:
  assumes "sm_switch os s sc e = Some (STUN_SM_RETURN_CONTINUE, sc', e')" and "sc_step sc = s" and "s \<noteq> STUN_STEP_DONE"
    and "sc_step sc' = STUN_STEP_DONE" and "Q sc'"
  shows "ends os sc e Q"
  using assms by (simp add: ends_def perform_loop.simps [of os sc e] perform_loop.simps [of os sc'] stun_client_sm.simps [of os sc e]
    stun_client_sm.simps [of os sc' e'] stun_sm_done_def)

lemma ends_wait:
  assumes "sm_switch os (sc_step sc) sc e = Some (STUN_SM_RETURN_WAIT, sc', e')" and "sc_step sc \<noteq> STUN_STEP_DONE"
    and "stun_client_wait os sc' e' = (sc'', e'')" and "ends os sc'' e'' Q"
  shows "ends os sc e Q"
  using assms by (simp add: ends_def perform_loop.simps [of os sc e] stun_client_sm.simps [of os sc e])

text \<open>A send step goes on to its receive step, or to a time-out.\<close>

lemma ends_send:
  assumes w: "nat_world b os" and "sc_fd sc \<ge> 0" and "sa_addr dest \<noteq> 0" "sa_port dest \<noteq> 0" and "t \<in> {1, 10, 11, 2, 3}"
    and "sc_username sc = string_zero" "sc_password sc = string_zero"
    and "\<And>e. sm_switch os (sc_step sc) sc e = send_step os dest t s sc e" and "sc_step sc \<noteq> STUN_STEP_DONE"
    and yes: "\<And>e. answered b (of_nat t) \<Longrightarrow> env_sent e \<noteq> [] \<Longrightarrow> last_test (env_sent e) = of_nat t \<Longrightarrow> ends os (sc\<lparr>sc_step := s\<rparr>) e Q"
    and no: "\<And>e. \<not> answered b (of_nat t) \<Longrightarrow> ends os (sc\<lparr>sc_step_previous := s, sc_step := STUN_STEP_TIMEOUT\<rparr>) e Q"
  shows "ends os sc e Q"
proof -
  obtain e' where e': "stun_sendtest os (sc_fd sc) dest string_zero string_zero t e = Some e'" "env_sent e' \<noteq> []" "last_test (env_sent e') = of_nat t"
    by (rule world_send [OF w assms(2-5)])
  have sel: "os_select os (env_selects e') (env_sent e') = (if answered b (of_nat t) then 1 else 0)"
    using w e' by (simp add: nat_world_def)
  have "ends os (if answered b (of_nat t) then sc\<lparr>sc_step := s\<rparr> else sc\<lparr>sc_step_previous := s, sc_step := STUN_STEP_TIMEOUT\<rparr>)
      (e'\<lparr>env_selects := env_selects e' + 1\<rparr>) Q"
    using yes no e' by simp
  moreover have "stun_client_wait os (sc\<lparr>sc_step := s\<rparr>) e' =
     (if answered b (of_nat t) then sc\<lparr>sc_step := s\<rparr> else sc\<lparr>sc_step_previous := s, sc_step := STUN_STEP_TIMEOUT\<rparr>, e'\<lparr>env_selects := env_selects e' + 1\<rparr>)"
    using sel by (simp add: stun_client_wait_def Let_def)
  moreover have "sm_switch os (sc_step sc) sc e = Some (STUN_SM_RETURN_WAIT, sc\<lparr>sc_step := s\<rparr>, e')"
    using e'(1) assms(6-8) by (simp add: send_step_def)
  ultimately show ?thesis using assms(9) by (metis (no_types, lifting) ends_wait)
qed

text \<open>The facts about the client that all steps after the first keep.\<close>

definition client_ok :: "stun_client \<Rightarrow> bool" where
  "client_ok sc \<longleftrightarrow> sc_fd sc \<ge> 0 \<and> sc_src sc = addr4_zero \<and> sc_dst sc = \<lparr>sa_port = 3478, sa_addr = 0x0D38A66A\<rparr> \<and>
     sc_username sc = string_zero \<and> sc_password sc = string_zero"

text \<open>The result after the remaining tests.\<close>

definition after_ii :: "nat_behaviour \<Rightarrow> stun_result \<Rightarrow> stun_result" where
  "after_ii b res = res\<lparr>test_ii_success := nb_ip_change b, test_iii_success := nb_port_change b\<rparr>"

definition after_i3 :: "nat_behaviour \<Rightarrow> stun_result \<Rightarrow> stun_result" where
  "after_i3 b res = after_ii b (if nb_hairpin b then res\<lparr>test_i3_success := True, hairpin := True\<rparr> else res)"

definition after_i2 :: "nat_behaviour \<Rightarrow> stun_result \<Rightarrow> stun_result" where
  "after_i2 b res = (case nb_second b of
       None \<Rightarrow> after_ii b res
     | Some a \<Rightarrow> after_i3 b (res\<lparr>mapped_same_ip := (a = nb_mapped b), test_i2_success := True\<rparr>))"

definition no_success :: "stun_result \<Rightarrow> bool" where
  "no_success res \<longleftrightarrow> \<not> test_ii_success res \<and> \<not> test_iii_success res \<and> \<not> mapped_same_ip res"

lemma run_iii:
  assumes w: "nat_world b os" and "client_ok sc" and "sc_step sc = STUN_STEP_TEST_III_PREPARE" and "\<not> test_iii_success (sc_result sc)"
  shows "ends os sc e (\<lambda>sc'. sc_test_i sc' = sc_test_i sc \<and> sc_result sc' = (sc_result sc)\<lparr>test_iii_success := nb_port_change b\<rparr>)" (is "ends os sc e ?Q")
proof -
  let ?s = "sc\<lparr>sc_step := STUN_STEP_TEST_III_SEND\<rparr>"
  have "ends os ?s e ?Q"
  proof (rule ends_send [OF w, where dest = "sc_dst sc" and t = 3 and s = STUN_STEP_TEST_III_RECV], goal_cases)
    case (9 e)
    then have a: "nb_port_change b" "answered b 3" by (simp_all add: answered_def)
    obtain len buf ip port e' m where r: "stun_recvmsg os (sc_fd sc) e = Some (0, len, buf, \<lparr>sa_port = port, sa_addr = ip\<rparr>, e')"
        "stun_parsemsg buf (of_int len) stun_msg_zero = Some (True, m)" "hdr_id (msg_hdr m) ! 0 = 3" "port \<noteq> 3478"
      using world_recv [OF w _ 9(2) _ a(2), of "sc_fd sc"] 9(3) assms(2) by (auto simp: client_ok_def)
    have "sm_switch os STUN_STEP_TEST_III_RECV (?s\<lparr>sc_step := STUN_STEP_TEST_III_RECV\<rparr>) e = Some (STUN_SM_RETURN_CONTINUE,
        sc\<lparr>sc_result := (sc_result sc)\<lparr>test_iii_success := True\<rparr>, sc_step := STUN_STEP_DONE\<rparr>, e')"
      using r assms(2) by (simp add: stun_sm_test_iii_recv_def go_def client_ok_def)
    then show ?case by (rule ends_done) (use a in simp_all)
  next
    case (10 e)
    then have n: "\<not> nb_port_change b" by (simp add: answered_def)
    have "sm_switch os STUN_STEP_TIMEOUT (?s\<lparr>sc_step_previous := STUN_STEP_TEST_III_RECV, sc_step := STUN_STEP_TIMEOUT\<rparr>) e = Some (STUN_SM_RETURN_CONTINUE,
        sc\<lparr>sc_step_previous := STUN_STEP_TEST_III_RECV, sc_step := STUN_STEP_DONE\<rparr>, e)"
      by (simp add: stun_sm_timeout_def go_def)
    then show ?case by (rule ends_done) (use assms(4) n in simp_all)
  qed (use assms in \<open>simp_all add: client_ok_def stun_sm_test_iii_send_def\<close>)
  moreover have "sm_switch os STUN_STEP_TEST_III_PREPARE sc e = Some (STUN_SM_RETURN_CONTINUE, ?s, e)"
    by (simp add: stun_sm_test_iii_prepare_def go_def)
  ultimately show ?thesis using assms(3) ends_continue [of os STUN_STEP_TEST_III_PREPARE sc e ?s e] by simp
qed


lemma run_ii:
  assumes w: "nat_world b os" and ok: "client_ok sc" and "sc_step sc = STUN_STEP_TEST_II_PREPARE"
    and "\<not> test_ii_success (sc_result sc)" and "\<not> test_iii_success (sc_result sc)"
  shows "ends os sc e (\<lambda>sc'. sc_test_i sc' = sc_test_i sc \<and> sc_result sc' = after_ii b (sc_result sc))" (is "ends os sc e ?Q")
proof -
  let ?e = "odr_close (sc_fd sc) e"
  obtain d e1 where d: "stun_open_port os 1 0 ?e = Some (d, e1)" "d \<ge> 0"
    using world_open(1) [OF w, of 1 ?e] by auto
  let ?s = "sc\<lparr>sc_fd := d, sc_step := STUN_STEP_TEST_II_SEND\<rparr>"
  have iii: "ends os sc2 e' ?Q" if "client_ok sc2" "sc_step sc2 = STUN_STEP_TEST_III_PREPARE" "sc_test_i sc2 = sc_test_i sc"
      "sc_result sc2 = (sc_result sc)\<lparr>test_ii_success := nb_ip_change b\<rparr>" for sc2 e'
    using run_iii [OF w that(1,2), of e'] assms(5) that(3,4) by (simp add: after_ii_def)
  have okd: "client_ok (sc\<lparr>sc_fd := d\<rparr>)" using ok d(2) by (simp add: client_ok_def)
  have "ends os ?s e1 ?Q"
  proof (rule ends_send [OF w, where dest = "sc_dst sc" and t = 2 and s = STUN_STEP_TEST_II_RECV], goal_cases)
    case (9 e)
    then have a: "nb_ip_change b" "answered b 2" by (simp_all add: answered_def)
    obtain len buf ip port e' m where r: "stun_recvmsg os d e = Some (0, len, buf, \<lparr>sa_port = port, sa_addr = ip\<rparr>, e')"
        "stun_parsemsg buf (of_int len) stun_msg_zero = Some (True, m)" "hdr_id (msg_hdr m) ! 0 = 2" "ip \<noteq> 0x0D38A66A"
      using world_recv [OF w d(2) 9(2) _ a(2)] 9(3) by auto
    have "sm_switch os STUN_STEP_TEST_II_RECV (?s\<lparr>sc_step := STUN_STEP_TEST_II_RECV\<rparr>) e = Some (STUN_SM_RETURN_CONTINUE,
        sc\<lparr>sc_fd := d, sc_result := (sc_result sc)\<lparr>test_ii_success := True\<rparr>, sc_step := STUN_STEP_TEST_III_PREPARE\<rparr>, e')"
      using r ok by (simp add: stun_sm_test_ii_recv_def go_def client_ok_def)
    then show ?case by (rule ends_continue [OF _ _ _ _ iii]) (use okd a in \<open>simp_all add: client_ok_def\<close>)
  next
    case (10 e)
    then have n: "\<not> nb_ip_change b" by (simp add: answered_def)
    have "sm_switch os STUN_STEP_TIMEOUT (?s\<lparr>sc_step_previous := STUN_STEP_TEST_II_RECV, sc_step := STUN_STEP_TIMEOUT\<rparr>) e = Some (STUN_SM_RETURN_CONTINUE,
        sc\<lparr>sc_fd := d, sc_result := (sc_result sc)\<lparr>test_ii_success := False\<rparr>, sc_step_previous := STUN_STEP_TEST_II_RECV, sc_step := STUN_STEP_TEST_III_PREPARE\<rparr>, e)"
      using assms(4) by (simp add: stun_sm_timeout_def go_def)
    then show ?case by (rule ends_continue [OF _ _ _ _ iii]) (use okd n in \<open>simp_all add: client_ok_def\<close>)
  qed (use assms d in \<open>simp_all add: client_ok_def stun_sm_test_ii_send_def\<close>)
  moreover have "sm_switch os STUN_STEP_TEST_II_PREPARE sc e = Some (STUN_SM_RETURN_CONTINUE, ?s, e1)"
    using d ok by (simp add: stun_sm_test_ii_prepare_def go_def client_ok_def addr4_zero_def)
  ultimately show ?thesis using ends_continue [of os STUN_STEP_TEST_II_PREPARE sc e ?s e1] assms(3) by simp
qed


lemma run_i3:
  assumes w: "nat_world b os" and ok: "client_ok sc" and "sc_step sc = STUN_STEP_TEST_I3_PREPARE" and m: "sc_test_i sc = nb_mapped b"
    and "\<not> test_ii_success (sc_result sc)" and "\<not> test_iii_success (sc_result sc)"
  shows "ends os sc e (\<lambda>sc'. sc_test_i sc' = nb_mapped b \<and> sc_result sc' = after_i3 b (sc_result sc))" (is "ends os sc e ?Q")
proof -
  let ?s = "sc\<lparr>sc_step := STUN_STEP_TEST_I3_SEND\<rparr>"
  have nz: "sa_addr (nb_mapped b) \<noteq> 0" "sa_port (nb_mapped b) \<noteq> 0" using w by (simp_all add: nat_world_def)
  have ii: "ends os sc2 e' ?Q" if "client_ok sc2" "sc_step sc2 = STUN_STEP_TEST_II_PREPARE" "sc_test_i sc2 = nb_mapped b"
      "sc_result sc2 = (if nb_hairpin b then (sc_result sc)\<lparr>test_i3_success := True, hairpin := True\<rparr> else sc_result sc)" for sc2 e'
    using run_ii [OF w that(1,2), of e'] assms(5,6) that(3,4) by (simp add: after_i3_def split: if_splits)
  have "ends os ?s e ?Q"
  proof (rule ends_send [OF w, where dest = "nb_mapped b" and t = 11 and s = STUN_STEP_TEST_I3_RECV], goal_cases)
    case (9 e)
    then have a: "nb_hairpin b" "answered b 11" by (simp_all add: answered_def)
    obtain len buf ip port e' m where r: "stun_recvmsg os (sc_fd sc) e = Some (0, len, buf, \<lparr>sa_port = port, sa_addr = ip\<rparr>, e')"
        "stun_parsemsg buf (of_int len) stun_msg_zero = Some (True, m)" "hdr_id (msg_hdr m) ! 0 = 11"
      using world_recv [OF w _ 9(2) _ a(2), of "sc_fd sc"] 9(3) ok by (auto simp: client_ok_def)
    have "sm_switch os STUN_STEP_TEST_I3_RECV (?s\<lparr>sc_step := STUN_STEP_TEST_I3_RECV\<rparr>) e = Some (STUN_SM_RETURN_CONTINUE,
        sc\<lparr>sc_result := (sc_result sc)\<lparr>test_i3_success := True, hairpin := True\<rparr>, sc_step := STUN_STEP_TEST_II_PREPARE\<rparr>, e')"
      using r by (simp add: stun_sm_test_i3_recv_def go_def)
    then show ?case by (rule ends_continue [OF _ _ _ _ ii]) (use ok a m in \<open>simp_all add: client_ok_def\<close>)
  next
    case (10 e)
    then have n: "\<not> nb_hairpin b" by (simp add: answered_def)
    have "sm_switch os STUN_STEP_TIMEOUT (?s\<lparr>sc_step_previous := STUN_STEP_TEST_I3_RECV, sc_step := STUN_STEP_TIMEOUT\<rparr>) e = Some (STUN_SM_RETURN_CONTINUE,
        sc\<lparr>sc_step_previous := STUN_STEP_TEST_I3_RECV, sc_step := STUN_STEP_TEST_II_PREPARE\<rparr>, e)"
      by (simp add: stun_sm_timeout_def go_def)
    then show ?case by (rule ends_continue [OF _ _ _ _ ii]) (use ok n m in \<open>simp_all add: client_ok_def\<close>)
  qed (use ok m nz in \<open>simp_all add: client_ok_def stun_sm_test_i3_send_def\<close>)
  moreover have "sm_switch os STUN_STEP_TEST_I3_PREPARE sc e = Some (STUN_SM_RETURN_CONTINUE, ?s, e)"
    using nz m by (simp add: stun_sm_test_i3_prepare_def go_def)
  ultimately show ?thesis using ends_continue [of os STUN_STEP_TEST_I3_PREPARE sc e ?s e] assms(3) by simp
qed

lemma run_i2:
  assumes w: "nat_world b os" and ok: "client_ok sc" and "sc_step sc = STUN_STEP_TEST_I2_PREPARE" and m: "sc_test_i sc = nb_mapped b"
    and d: "sc_test_i2 sc = \<lparr>sa_port = 3478, sa_addr = nb_changed b\<rparr>" and n: "no_success (sc_result sc)"
  shows "ends os sc e (\<lambda>sc'. sc_test_i sc' = nb_mapped b \<and> sc_result sc' = after_i2 b (sc_result sc))" (is "ends os sc e ?Q")
proof -
  let ?s = "sc\<lparr>sc_step := STUN_STEP_TEST_I2_SEND\<rparr>"
  have nz: "nb_changed b \<noteq> 0" using w by (simp_all add: nat_world_def)
  have "ends os ?s e ?Q"
  proof (rule ends_send [OF w, where dest = "sc_test_i2 sc" and t = 10 and s = STUN_STEP_TEST_I2_RECV], goal_cases)
    case (9 e)
    then have a: "nb_second b \<noteq> None" "answered b 10" by (simp_all add: answered_def)
    obtain len buf ip port e' ms where r: "stun_recvmsg os (sc_fd sc) e = Some (0, len, buf, \<lparr>sa_port = port, sa_addr = ip\<rparr>, e')"
        "stun_parsemsg buf (of_int len) stun_msg_zero = Some (True, ms)" "hdr_id (msg_hdr ms) ! 0 = 10" "nb_second b = Some (at_ipv4 (mapped_address ms))"
      using world_recv [OF w _ 9(2) _ a(2), of "sc_fd sc"] 9(3) ok by (auto simp: client_ok_def)
    let ?r = "(sc_result sc)\<lparr>mapped_same_ip := (at_ipv4 (mapped_address ms) = nb_mapped b), test_i2_success := True\<rparr>"
    let ?t = "sc\<lparr>sc_result := ?r, sc_step := STUN_STEP_TEST_I3_PREPARE\<rparr>"
    have "sm_switch os STUN_STEP_TEST_I2_RECV (?s\<lparr>sc_step := STUN_STEP_TEST_I2_RECV\<rparr>) e = Some (STUN_SM_RETURN_CONTINUE, ?t, e')"
      using r m n by (simp add: stun_sm_test_i2_recv_def go_def no_success_def)
    moreover have "ends os ?t e' ?Q"
      using run_i3 [OF w, of ?t e'] ok m n r(4) by (simp add: client_ok_def no_success_def after_i2_def)
    ultimately show ?case by (rule ends_next) simp_all
  next
    case (10 e)
    then have a: "nb_second b = None" by (simp add: answered_def)
    let ?t = "sc\<lparr>sc_step_previous := STUN_STEP_TEST_I2_RECV, sc_step := STUN_STEP_TEST_II_PREPARE\<rparr>"
    have "sm_switch os STUN_STEP_TIMEOUT (?s\<lparr>sc_step_previous := STUN_STEP_TEST_I2_RECV, sc_step := STUN_STEP_TIMEOUT\<rparr>) e = Some (STUN_SM_RETURN_CONTINUE, ?t, e)"
      by (simp add: stun_sm_timeout_def go_def)
    moreover have "ends os ?t e ?Q"
      using run_ii [OF w, of ?t e] ok m n a by (simp add: client_ok_def no_success_def after_i2_def)
    ultimately show ?case by (rule ends_next) simp_all
  qed (use ok d nz in \<open>simp_all add: client_ok_def stun_sm_test_i2_send_def\<close>)
  moreover have "sm_switch os STUN_STEP_TEST_I2_PREPARE sc e = Some (STUN_SM_RETURN_CONTINUE, ?s, e)"
    using nz d by (simp add: stun_sm_test_i2_prepare_def go_def)
  ultimately show ?thesis using ends_continue [of os STUN_STEP_TEST_I2_PREPARE sc e ?s e] assms(3) by simp
qed


lemma run_i:
  assumes w: "nat_world b os" and a: "nb_reachable b"
  shows "ends os sc_start e (\<lambda>sc'. sc_test_i sc' = nb_mapped b \<and> sc_result sc' = after_i2 b (result_zero
    \<lparr>preserve_port := (sa_port (nb_mapped b) = 0), is_nat := (\<not> nb_local b), test_i_success := True\<rparr>))" (is "ends os sc_start e ?Q")
proof -
  obtain d e1 where d: "stun_open_port os 0 0 e = Some (d, e1)" "d \<ge> 0" using world_open(1) [OF w, of 0 e] by auto
  let ?s1 = "sc_start\<lparr>sc_step := STUN_STEP_TEST_I_PREPARE\<rparr>"
  let ?s2 = "sc_start\<lparr>sc_fd := d, sc_step := STUN_STEP_TEST_I_SEND\<rparr>"
  have ok: "client_ok ?s2" using d by (simp add: client_ok_def sc_start_def)
  have "ends os ?s2 e1 ?Q"
  proof (rule ends_send [OF w, where dest = "sc_dst sc_start" and t = 1 and s = STUN_STEP_TEST_I_RECV], goal_cases)
    case (9 e)
    then have a: "answered b 1" by simp
    obtain len buf ip port e' ms where r: "stun_recvmsg os d e = Some (0, len, buf, \<lparr>sa_port = port, sa_addr = ip\<rparr>, e')"
        "stun_parsemsg buf (of_int len) stun_msg_zero = Some (True, ms)" "hdr_id (msg_hdr ms) ! 0 = 1"
        "at_ipv4 (mapped_address ms) = nb_mapped b" "sa_addr (at_ipv4 (changed_address ms)) = nb_changed b"
      using world_recv [OF w d(2) 9(2) _ a] 9(3) by auto
    obtain d2 e2 where d2: "stun_open_port os 0 (sa_addr (nb_mapped b)) e' = Some (d2, e2)" "(d2 = -1) = (\<not> nb_local b)"
      using world_open(2) [OF w, of e'] by auto
    let ?t = "sc_start\<lparr>sc_fd := d, sc_test_i := nb_mapped b, sc_test_i2 := \<lparr>sa_port = 3478, sa_addr = nb_changed b\<rparr>,
      sc_result := result_zero\<lparr>preserve_port := (sa_port (nb_mapped b) = 0), is_nat := (\<not> nb_local b), test_i_success := True\<rparr>,
      sc_step := STUN_STEP_TEST_I2_PREPARE\<rparr>"
    have "sm_switch os STUN_STEP_TEST_I_RECV (?s2\<lparr>sc_step := STUN_STEP_TEST_I_RECV\<rparr>) e =
        Some (STUN_SM_RETURN_CONTINUE, ?t, if nb_local b then odr_close d2 e2 else e2)"
      using r d2 by (simp add: stun_sm_test_i_recv_def go_def sc_start_def addr4_zero_def result_zero_def Let_def)
    moreover have "ends os ?t (if nb_local b then odr_close d2 e2 else e2) ?Q"
      using run_i2 [OF w, of ?t "if nb_local b then odr_close d2 e2 else e2"] d(2)
      by (simp add: client_ok_def sc_start_def no_success_def result_zero_def)
    ultimately show ?case by (rule ends_next) simp_all
  qed (use ok a in \<open>simp_all add: client_ok_def stun_sm_test_i_send_def answered_def sc_start_def\<close>)
  moreover have "sm_switch os STUN_STEP_TEST_I_PREPARE ?s1 e = Some (STUN_SM_RETURN_CONTINUE, ?s2, e1)"
    using d by (simp add: stun_sm_test_i_prepare_def go_def sc_start_def addr4_zero_def)
  ultimately have "ends os ?s1 e ?Q" using ends_continue [of os STUN_STEP_TEST_I_PREPARE ?s1 e ?s2 e1] by simp
  moreover have "sm_switch os STUN_STEP_FIRST sc_start e = Some (STUN_SM_RETURN_CONTINUE, ?s1, e)"
    by (simp add: stun_sm_first_def go_def sc_start_def)
  ultimately show ?thesis using ends_continue [of os STUN_STEP_FIRST sc_start e ?s1 e] by (simp add: sc_start_def)
qed

lemma run_blocked:
  assumes w: "nat_world b os" and a: "\<not> nb_reachable b"
  shows "ends os sc_start e (\<lambda>sc'. sc_result sc' = result_zero)" (is "ends os sc_start e ?Q")
proof -
  obtain d e1 where d: "stun_open_port os 0 0 e = Some (d, e1)" "d \<ge> 0" using world_open(1) [OF w, of 0 e] by auto
  let ?s1 = "sc_start\<lparr>sc_step := STUN_STEP_TEST_I_PREPARE\<rparr>"
  let ?s2 = "sc_start\<lparr>sc_fd := d, sc_step := STUN_STEP_TEST_I_SEND\<rparr>"
  have "ends os ?s2 e1 ?Q"
  proof (rule ends_send [OF w, where dest = "sc_dst sc_start" and t = 1 and s = STUN_STEP_TEST_I_RECV], goal_cases)
    case (10 e)
    let ?t = "sc_start\<lparr>sc_fd := d, sc_step_previous := STUN_STEP_TEST_I_RECV, sc_step := STUN_STEP_DONE\<rparr>"
    have "sm_switch os STUN_STEP_TIMEOUT (?s2\<lparr>sc_step_previous := STUN_STEP_TEST_I_RECV, sc_step := STUN_STEP_TIMEOUT\<rparr>) e =
        Some (STUN_SM_RETURN_CONTINUE, ?t, e)" by (simp add: stun_sm_timeout_def go_def)
    then show ?case by (rule ends_done) (simp_all add: sc_start_def)
  qed (use d a in \<open>simp_all add: stun_sm_test_i_send_def answered_def sc_start_def\<close>)
  moreover have "sm_switch os STUN_STEP_TEST_I_PREPARE ?s1 e = Some (STUN_SM_RETURN_CONTINUE, ?s2, e1)"
    using d by (simp add: stun_sm_test_i_prepare_def go_def sc_start_def addr4_zero_def)
  ultimately have "ends os ?s1 e ?Q" using ends_continue [of os STUN_STEP_TEST_I_PREPARE ?s1 e ?s2 e1] by simp
  moreover have "sm_switch os STUN_STEP_FIRST sc_start e = Some (STUN_SM_RETURN_CONTINUE, ?s1, e)"
    by (simp add: stun_sm_first_def go_def sc_start_def)
  ultimately show ?thesis using ends_continue [of os STUN_STEP_FIRST sc_start e ?s1 e] by (simp add: sc_start_def)
qed

lemma perform_start: "stun_client_perform os sc_start e = perform_loop os sc_start e"
  by (simp add: stun_client_perform_def sc_start_def)

lemma perform_verdict:
  assumes w: "nat_world b os"
  shows "\<exists>sc e'. stun_client_perform os sc_start e = Some (sc, e') \<and> stun_client_get_nattype sc = nat_verdict b \<and>
    stun_client_get_mapped_addr sc = (if nb_reachable b then nb_mapped b else addr4_zero)"
proof (cases "nb_reachable b")
  case True
  obtain sc e' where p: "stun_client_perform os sc_start e = Some (sc, e')" "sc_test_i sc = nb_mapped b"
      "sc_result sc = after_i2 b (result_zero\<lparr>preserve_port := (sa_port (nb_mapped b) = 0), is_nat := (\<not> nb_local b), test_i_success := True\<rparr>)"
    using run_i [OF w True, of e] by (auto simp: ends_def perform_start)
  then have "stun_client_get_nattype sc = nat_verdict b"
    using True by (simp add: stun_client_get_nattype_def nat_verdict_def after_i2_def after_i3_def after_ii_def result_zero_def split: option.splits)
  moreover have "stun_client_get_mapped_addr sc = nb_mapped b"
    using p by (simp add: stun_client_get_mapped_addr_def after_i2_def after_i3_def after_ii_def split: option.splits)
  ultimately show ?thesis using p(1) True by auto
next
  case False
  obtain sc e' where p: "stun_client_perform os sc_start e = Some (sc, e')" "sc_result sc = result_zero"
    using run_blocked [OF w False, of e] by (auto simp: ends_def perform_start)
  then show ?thesis using False
    by (intro exI [of _ sc] exI [of _ e']) (simp add: stun_client_get_nattype_def stun_client_get_mapped_addr_def nat_verdict_def result_zero_def)
qed


subsection \<open>A world of each behaviour\<close>

definition nat_answer :: "nat_behaviour \<Rightarrow> u8 \<Rightarrow> stun_msg" where
  "nat_answer b t = stun_msg_zero\<lparr>msg_hdr := \<lparr>hdr_msg_type = 0x0101, hdr_msg_length = 0, hdr_id = t # replicate 15 0\<rparr>,
     has_mapped_address := True,
     mapped_address := \<lparr>at_pad = 0, at_family = 1, at_ipv4 = (if t = 10 then the (nb_second b) else nb_mapped b)\<rparr>,
     has_changed_address := True,
     changed_address := \<lparr>at_pad = 0, at_family = 1, at_ipv4 = \<lparr>sa_port = 3479, sa_addr = nb_changed b\<rparr>\<rparr>\<rparr>"

definition nat_os :: "nat_behaviour \<Rightarrow> stun_os" where
  "nat_os b = \<lparr>os_socket = (\<lambda>n. 3), os_bind = (\<lambda>n port addr. addr = 0 \<or> nb_local b \<and> addr = sa_addr (nb_mapped b)), os_sendto = (\<lambda>n. 28),
     os_select = (\<lambda>n ss. if answered b (last_test ss) then 1 else 0),
     os_recvfrom = (\<lambda>n ss. let bs = the (stun_encodemsg (nat_answer b (last_test ss)) 2048 string_zero)
                           in (int (length bs), bs @ replicate (2048 - length bs) 0, 1, 1)),
     os_rand = (\<lambda>n. n)\<rparr>"

lemma nat_answer_plain: "plain_msg (nat_answer b t)"
  by (simp add: plain_msg_def nat_answer_def stun_msg_zero_def plain_address_def plain_text_def)

lemma nat_os_world:
  assumes "sa_addr (nb_mapped b) \<noteq> 0" "sa_addr (nb_mapped b) \<noteq> 0x100007f" "sa_port (nb_mapped b) \<noteq> 0" "nb_changed b \<noteq> 0"
  shows "nat_world b (nat_os b)"
proof -
  have "right_answer b t (os_recvfrom (nat_os b) n ss)" if "answered b t" "t = last_test ss" for t n ss
  proof -
    obtain bs where bs: "stun_encodemsg (nat_answer b t) 2048 string_zero = Some bs" "length bs \<le> 880"
      using stun_encode_parse [OF nat_answer_plain [of b t]] by blast
    then have "os_recvfrom (nat_os b) n ss = (int (length bs), bs @ replicate (2048 - length bs) 0, 1, 1)"
      using that(2) by (simp add: nat_os_def)
    moreover have "right_answer b t (int (length bs), bs @ replicate (2048 - length bs) 0, 1, 1)"
      unfolding right_answer_def prod.case
      by (rule exI [of _ "nat_answer b t"], rule exI [of _ bs], rule exI [of _ "replicate (2048 - length bs) 0"])
        (use bs nat_answer_plain that(1) in \<open>auto simp: nat_answer_def answered_def\<close>)
    ultimately show ?thesis by simp
  qed
  then show ?thesis using assms by (simp add: nat_world_def nat_os_def)
qed

subsection \<open>\<open>STUNC_test\<close>\<close>

lemma htonl_eq_0: "htonl v = 0 \<longleftrightarrow> v = 0"
proof
  assume "htonl v = 0"
  then have "U32TO8_BIG v = U32TO8_LITTLE 0" by (metis U32TO8_U8TO32 htonl_def length_stores(3))
  then have "stun_encode32 v = stun_encode32 0" by (simp add: stun_encode32_def U32TO8_LITTLE_def U32TO8_BIG_def)
  then show "v = 0" by (metis be32_encode32)
qed (simp add: htonl_def U32TO8_BIG_def U8TO32_LITTLE_def)

lemma test_again_agrees:
  assumes "nat_world b os"
  shows "\<exists>e'. test_again os n (if nb_reachable b then nb_mapped b else addr4_zero) (nat_verdict b) e = Some (True, e')"
proof (induction n arbitrary: e)
  case (Suc n)
  obtain sc e1 where "stun_client_perform os sc_start e = Some (sc, e1)" "stun_client_get_nattype sc = nat_verdict b"
      "stun_client_get_mapped_addr sc = (if nb_reachable b then nb_mapped b else addr4_zero)"
    using perform_verdict [OF assms, of e] by blast
  then show ?case using Suc.IH [of e1] by simp
qed simp

lemma verdict_not_failure: "nat_verdict b \<noteq> STUN_NATTYPE_FAILURE"
  by (simp add: nat_verdict_def)

text \<open>
  C11: In a network with a given behaviour (whether test I is answered, which addresses the tests I and I2 report,
  whether the reported address is one of this machine, and which of the answers to the tests I3, II and III arrive;
  the answers are encoded messages with the transaction of the request) \<open>STUNC_test\<close> returns, for any number of
  attempts: it finds the NAT type of the classification and the reported address, stores both and returns 0, and
  when test I is not answered it returns -1 and keeps the stored result.
\<close>

theorem STUNC_test_finds_nat_type:
  assumes "nat_world b os" and "ntimes \<ge> 1"
  shows "\<exists>e'. STUNC_test os ntimes st e = Some (if nb_reachable b
    then (0, st\<lparr>stunc_nattype := nat_verdict b, stunc_mapped_addr := htonl (sa_addr (nb_mapped b)), stunc_result_inited := True\<rparr>, e')
    else (-1, st, e'))"
proof -
  let ?a = "if nb_reachable b then nb_mapped b else addr4_zero"
  obtain sc e1 where p: "stun_client_perform os sc_start e = Some (sc, e1)" "stun_client_get_nattype sc = nat_verdict b"
      "stun_client_get_mapped_addr sc = ?a"
    using perform_verdict [OF assms(1), of e] by blast
  obtain e2 where t: "test_again os (ntimes - 1) ?a (nat_verdict b) e1 = Some (True, e2)"
    using test_again_agrees [OF assms(1)] by blast
  have nz: "sa_addr (nb_mapped b) \<noteq> 0" using assms(1) by (simp add: nat_world_def)
  show ?thesis
  proof (cases "nb_reachable b")
    case True
    then have "stunc_test_loop os ntimes e = Some (True, nb_mapped b, nat_verdict b, e2)"
      using assms(2) p t nz by (simp add: stunc_test_loop_def verdict_not_failure)
    then show ?thesis using True nz by (simp add: STUNC_test_def htonl_eq_0 Let_def)
  next
    case False
    then have "stunc_test_loop os ntimes e = Some (ntimes \<noteq> 1, addr4_zero, nat_verdict b, if ntimes = 1 then e1 else e2)"
      using assms(2) p t by (simp add: stunc_test_loop_def addr4_zero_def)
    then show ?thesis using False by (simp add: STUNC_test_def addr4_zero_def htonl_eq_0)
  qed
qed

definition cone_demo :: nat_behaviour where
  "cone_demo = \<lparr>nb_reachable = True, nb_mapped = \<lparr>sa_port = 40000, sa_addr = 0xCB007107\<rparr>, nb_local = False, nb_changed = 0x0D38A66B,
     nb_second = Some \<lparr>sa_port = 40000, sa_addr = 0xCB007107\<rparr>, nb_hairpin = True, nb_ip_change = False, nb_port_change = True\<rparr>"

definition env_demo :: stun_env where
  "env_demo = \<lparr>env_sockets = 0, env_sends = 0, env_selects = 0, env_recvs = 0, env_rands = 0, env_open = [], env_sent = []\<rparr>"

definition unknown_demo :: stun_client_result where
  "unknown_demo = \<lparr>stunc_nattype = STUN_NATTYPE_UNKNOWN, stunc_mapped_addr = 0, stunc_result_inited = False\<rparr>"

lemma cone_demo_world: "nat_world cone_demo (nat_os cone_demo)"
  by (rule nat_os_world) (simp_all add: cone_demo_def)

theorem STUNC_test_finds_nat_type_witness:
  "nat_world cone_demo (nat_os cone_demo) \<and> (2 :: nat) \<ge> 1 \<and> (\<exists>e'. STUNC_test (nat_os cone_demo) 2 unknown_demo env_demo =
     Some (0, unknown_demo\<lparr>stunc_nattype := STUN_NATTYPE_RESTRICTED_CONE, stunc_mapped_addr := htonl 0xCB007107, stunc_result_inited := True\<rparr>, e'))"
proof -
  have "nat_verdict cone_demo = STUN_NATTYPE_RESTRICTED_CONE" "nb_reachable cone_demo" "sa_addr (nb_mapped cone_demo) = 0xCB007107"
    by (simp_all add: nat_verdict_def cone_demo_def)
  then show ?thesis using STUNC_test_finds_nat_type [OF cone_demo_world, of 2 unknown_demo env_demo] cone_demo_world by simp
qed

text \<open>
  C26: A run of the STUN tests ends in the step DONE with the sockets that were open before it and no other one,
  and it makes at most five attempts to send and waits at most five times (for at most a second each), whatever the
  system calls and the network do.
\<close>

theorem stun_perform_bounded:
  assumes "stun_client_perform os sc e = Some (sc', e')"
  shows "sc_step sc' = STUN_STEP_DONE \<and> mset (env_open e') = mset (env_open e) \<and>
    env_sends e' \<le> env_sends e + 5 \<and> env_selects e' \<le> env_selects e + 5"
proof -
  have st: "sc_step sc = STUN_STEP_FIRST" "sc_fd sc = -1" "perform_loop os sc e = Some (sc', e')"
    using assms by (auto simp: stun_client_perform_def split: if_splits)
  have l: "sends_left sc = 5" using st(1) by (simp add: sends_left_def sc_rank_def)
  have "run_inv (mset (env_open e)) (env_sends e + 5) sc e" using st l by (simp add: run_inv_def held_def)
  then show ?thesis using perform_loop_inv [OF st(3), of "mset (env_open e)" "env_sends e + 5" "env_selects e + 5"] l st(1) by simp
qed

theorem stun_perform_bounded_witness:
  "\<exists>sc' e'. stun_client_perform (nat_os cone_demo) sc_start env_demo = Some (sc', e') \<and> sc_step sc' = STUN_STEP_DONE \<and>
     env_open e' = [] \<and> env_sends e' \<le> 5 \<and> env_selects e' \<le> 5"
proof -
  obtain sc' e' where "stun_client_perform (nat_os cone_demo) sc_start env_demo = Some (sc', e')"
    using perform_verdict [OF cone_demo_world, of env_demo] by blast
  then show ?thesis using stun_perform_bounded [of "nat_os cone_demo" sc_start env_demo sc' e'] by (auto simp: env_demo_def)
qed

section \<open>Failed assertions\<close>

text \<open>
  A datagram of fewer than 20 bytes that arrives in test I or in test I3 ends the program: the result of
  parsing is only logged, and the assertion on the transaction of the (cleared) message fails.
\<close>

theorem stun_short_datagram_aborts:
  assumes "os_recvfrom os (env_recvs e) (env_sent e) = (len, buf, ip, port)" and "0 \<le> len" and "len < 20"
  shows "stun_sm_test_i_recv os sc e = None \<and> stun_sm_test_i3_recv os sc e = None"
proof -
  obtain n where n: "len = int n" using nonneg_int_cases [OF assms(2)] by blast
  then have "unat (of_int len :: u32) < 20" using assms(3) by (simp add: unat_of_nat)
  then have p: "stun_parsemsg bs (of_int len) stun_msg_zero = Some (False, stun_msg_zero)" for bs by (simp add: stun_parsemsg_def)
  have "hdr_id (msg_hdr stun_msg_zero) ! 0 = 0" by (simp add: stun_msg_zero_def)
  moreover have "stun_recvmsg os (sc_fd sc) e = None \<or> (\<exists>r bs frm e'. stun_recvmsg os (sc_fd sc) e = Some (r, len, bs, frm, e'))"
    by (simp add: stun_recvmsg_def assms(1) Let_def)
  ultimately show ?thesis
    by (auto simp: stun_sm_test_i_recv_def stun_sm_test_i3_recv_def p)
qed

definition short_os :: stun_os where
  "short_os = (nat_os cone_demo)\<lparr>os_recvfrom := (\<lambda>n ss. (1, replicate 2048 0, 0x01020304, 53))\<rparr>"

theorem stun_short_datagram_aborts_witness:
  "os_recvfrom short_os 0 [] = (1, replicate 2048 0, 0x01020304, 53) \<and> (0 :: int) \<le> 1 \<and> (1 :: int) < 20 \<and>
   stun_sm_test_i_recv short_os (sc_start\<lparr>sc_fd := 3\<rparr>) env_demo = None \<and> stun_sm_test_i3_recv short_os (sc_start\<lparr>sc_fd := 3\<rparr>) env_demo = None"
  using stun_short_datagram_aborts [of short_os env_demo 1 "replicate 2048 0" "0x01020304" 53 "sc_start\<lparr>sc_fd := 3\<rparr>"]
  by (simp add: short_os_def env_demo_def)

end
