(* ===== verification/Vhttps.thy ===== *)
theory Vhttps
  imports Json Wg_Base64
begin

unbundle bit_operations_syntax

text \<open>
  The HTTPS client of \<open>libmud/vhttps.c\<close>: the request text, and reading a response into the receive buffer (the
  header, its lines, a body given by a length, in chunks or by the end of the connection, and the call of
  \<open>inflate\<close>). The TCP and TLS layers are the environment: whether the calls succeed and what each \<open>select\<close> and
  read gives. The buffer of 1 MiB comes from \<open>malloc\<close>, so its first contents are unknown. \<open>None\<close> is a failed
  assertion, undefined behaviour or a loop that does not end.
\<close>

section \<open>Characters\<close>

definition NUL :: char where "NUL = CHR 0x00"
definition CR :: char where "CR = CHR 0x0D"
definition LF :: char where "LF = CHR 0x0A"
definition crlf :: string where "crlf = [CR, LF]"

definition VCT_SP :: u16 where "VCT_SP = 1"
definition VCT_CRLF :: u16 where "VCT_CRLF = push_bit 1 1"
definition VCT_LWS :: u16 where "VCT_LWS = VCT_CRLF OR VCT_SP"

definition vct_typtab :: "u16 list" where
  "vct_typtab = [
    0x4, 0x4, 0x4, 0x4, 0x4, 0x4, 0x4, 0x4, 0x4, 0x15, 0x6, 0x4, 0x4, 0x6, 0x4, 0x4,
    0x4, 0x4, 0x4, 0x4, 0x4, 0x4, 0x4, 0x4, 0x4, 0x4, 0x4, 0x4, 0x4, 0x4, 0x4, 0x4,
    0x11, 0, 0x10, 0, 0, 0, 0, 0, 0x10, 0x10, 0, 0, 0x10, 0x100, 0x100, 0x10,
    0x160, 0x160, 0x160, 0x160, 0x160, 0x160, 0x160, 0x160, 0x160, 0x160, 0x90, 0x10, 0x10, 0x10, 0x10, 0x10,
    0x10, 0xC8, 0xC8, 0xC8, 0xC8, 0xC8, 0xC8, 0x88, 0x88, 0x88, 0x88, 0x88, 0x88, 0x88, 0x88, 0x88,
    0x88, 0x88, 0x88, 0x88, 0x88, 0x88, 0x88, 0x88, 0x88, 0x88, 0x88, 0x10, 0x10, 0x10, 0, 0x80,
    0, 0xC8, 0xC8, 0xC8, 0xC8, 0xC8, 0xC8, 0x88, 0x88, 0x88, 0x88, 0x88, 0x88, 0x88, 0x88, 0x88,
    0x88, 0x88, 0x88, 0x88, 0x88, 0x88, 0x88, 0x88, 0x88, 0x88, 0x88, 0x10, 0, 0x10, 0, 0x4,
    0, 0, 0, 0, 0, 0, 0, 0, 0, 0, 0, 0, 0, 0, 0, 0,
    0, 0, 0, 0, 0, 0, 0, 0, 0, 0, 0, 0, 0, 0, 0, 0,
    0, 0, 0, 0, 0, 0, 0, 0, 0, 0, 0, 0, 0, 0, 0, 0,
    0, 0, 0, 0, 0, 0, 0, 0x100, 0, 0, 0, 0, 0, 0, 0, 0,
    0x80, 0x80, 0x80, 0x80, 0x80, 0x80, 0x80, 0x80, 0x80, 0x80, 0x80, 0x80, 0x80, 0x80, 0x80, 0x80,
    0x80, 0x80, 0x80, 0x80, 0x80, 0x80, 0x80, 0, 0x80, 0x80, 0x80, 0x80, 0x80, 0x80, 0x80, 0x80,
    0x80, 0x80, 0x80, 0x80, 0x80, 0x80, 0x80, 0x80, 0x80, 0x80, 0x80, 0x80, 0x80, 0x80, 0x80, 0x80,
    0x80, 0x80, 0x80, 0x80, 0x80, 0x80, 0x80, 0, 0x80, 0x80, 0x80, 0x80, 0x80, 0x80, 0x80, 0x80]"

definition vct_is :: "char \<Rightarrow> u16 \<Rightarrow> bool" where
  "vct_is x y \<longleftrightarrow> vct_typtab ! char_val x AND y \<noteq> 0"

definition vct_issp :: "char \<Rightarrow> bool" where "vct_issp x = vct_is x VCT_SP"
definition vct_iscrlf :: "char \<Rightarrow> bool" where "vct_iscrlf x = vct_is x VCT_CRLF"
definition vct_islws :: "char \<Rightarrow> bool" where "vct_islws x = vct_is x VCT_LWS"

text \<open>\<open>p + vct_skipcrlf(p)\<close> for the text at \<open>p\<close>.\<close>

fun vct_skipcrlf :: "string \<Rightarrow> string" where
  "vct_skipcrlf (a # b # s) = (if a = CR \<and> b = LF then s else b # s)"
| "vct_skipcrlf s = tl s"

text \<open>The text up to the first NUL, which is what a \<open>char *\<close> denotes.\<close>

definition cstr :: "string \<Rightarrow> string" where
  "cstr s = takeWhile (\<lambda>c. c \<noteq> NUL) s"

definition tolower :: "char \<Rightarrow> char" where
  "tolower c = (if 65 \<le> char_val c \<and> char_val c \<le> 90 then char_of (char_val c + 32) else c)"

section \<open>Numbers\<close>

definition digit_val :: "nat \<Rightarrow> char \<Rightarrow> nat option" where
  "digit_val base c = (case hex_val c of None \<Rightarrow> None | Some v \<Rightarrow> if v < base then Some v else None)"

definition digits_val :: "nat \<Rightarrow> string \<Rightarrow> nat" where
  "digits_val base ds = foldl (\<lambda>v c. v * base + the (digit_val base c)) 0 ds"

definition strip_sign :: "string \<Rightarrow> bool \<times> string" where
  "strip_sign s = (case s of [] \<Rightarrow> (False, [])
     | c # r \<Rightarrow> if c = CHR ''-'' then (True, r) else if c = CHR ''+'' then (False, r) else (False, s))"

text \<open>The base that \<open>strtoul\<close> works with, and the text after a prefix \<open>0x\<close>.\<close>

definition number_base :: "nat \<Rightarrow> string \<Rightarrow> nat \<times> string" where
  "number_base base s =
     (if base = 16 then (16, skip_0x s)
      else if base = 0 then
        (if skip_0x s \<noteq> s then (16, skip_0x s) else if s \<noteq> [] \<and> hd s = CHR ''0'' then (8, s) else (10, s))
      else (base, s))"

text \<open>\<open>strtoul(s, &q, base)\<close> with base 0, 10 or 16: the value and the text at \<open>q\<close>.\<close>

definition strtoul :: "nat \<Rightarrow> string \<Rightarrow> u64 \<times> string" where
  "strtoul base s =
     (let (neg, t) = strip_sign (dropWhile is_space s);
          (b, t) = number_base base t;
          ds = takeWhile (\<lambda>c. digit_val b c \<noteq> None) t;
          v = digits_val b ds
      in if ds = [] then (0, s)
         else (if v \<ge> 2 ^ 64 then - 1 else if neg then - word_of_nat v else word_of_nat v,
               dropWhile (\<lambda>c. digit_val b c \<noteq> None) t))"

text \<open>\<open>atoi\<close>: \<open>strtol\<close> with base 10, which keeps the nearest value of 64 bits, converted to \<open>int\<close>.\<close>

definition atoi :: "string \<Rightarrow> int" where
  "atoi s =
     (let (neg, t) = strip_sign (dropWhile is_space s);
          v = int (digits_val 10 (takeWhile (\<lambda>c. digit_val 10 c \<noteq> None) t));
          v = (if neg then max (- v) (- (2 ^ 63)) else min v (2 ^ 63 - 1))
      in c_int (word_of_int v))"

text \<open>\<open>%d\<close> of a number that is not negative.\<close>

fun decimal_text :: "nat \<Rightarrow> string" where
  "decimal_text n = (if n < 10 then [char_of (48 + n)] else decimal_text (n div 10) @ [char_of (48 + n mod 10)])"

declare decimal_text.simps [simp del]

section \<open>The connection\<close>

text \<open>
  What happens on the connection, in order: \<open>select\<close> times out or fails, a read fails, the peer sends some bytes, of
  which a read takes what it asks for. An empty list of bytes is a read that returns 0, and so is the end of the
  list: the peer has closed the connection.
\<close>

datatype rx_event = Rx_timeout | Rx_select_failed | Rx_read_failed | Rx_bytes string

fun rx_select :: "rx_event list \<Rightarrow> int \<times> rx_event list" where
  "rx_select (Rx_timeout # evs) = (0, evs)"
| "rx_select (Rx_select_failed # evs) = (-1, evs)"
| "rx_select evs = (1, evs)"

text \<open>\<open>VSSL_read\<close> of up to \<open>n\<close> bytes: \<open>None\<close> is a negative result.\<close>

fun VSSL_read :: "nat \<Rightarrow> rx_event list \<Rightarrow> string option \<times> rx_event list" where
  "VSSL_read n [] = (Some [], [])"
| "VSSL_read n (Rx_bytes bs # evs) =
     (Some (take n bs), if length bs \<le> n then evs else Rx_bytes (drop n bs) # evs)"
| "VSSL_read n (Rx_read_failed # evs) = (None, evs)"
| "VSSL_read n (_ # evs) = VSSL_read n evs"

section \<open>The receive buffer\<close>

definition mem_get :: "nat \<Rightarrow> nat \<Rightarrow> (nat \<Rightarrow> char) \<Rightarrow> string" where
  "mem_get off n m = map m [off ..< off + n]"

definition mem_put :: "nat \<Rightarrow> string \<Rightarrow> (nat \<Rightarrow> char) \<Rightarrow> nat \<Rightarrow> char" where
  "mem_put off s m = (\<lambda>i. if off \<le> i \<and> i < off + length s then s ! (i - off) else m i)"

datatype body_ptr = Body_null | Body_rx nat | Body_gzip string

text \<open>\<open>hp_resp\<close> holds the texts that the pointers of \<open>hp->resp\<close> point to, up to the first null pointer after the third.\<close>

record vhttps_internal =
  hp_rxbuf :: "nat \<Rightarrow> char"
  hp_prxbuf :: nat
  hp_body :: body_ptr
  hp_bodylen :: u32
  hp_resp :: "string option list"

definition nrxbuf :: nat where "nrxbuf = 1024 * 1024"
definition VHTTPS_MAX_HDR :: nat where "VHTTPS_MAX_HDR = 50"

definition vhttps_allocForSocket :: "(nat \<Rightarrow> char) \<Rightarrow> vhttps_internal" where
  "vhttps_allocForSocket mem = \<lparr>hp_rxbuf = mem, hp_prxbuf = 0, hp_body = Body_null, hp_bodylen = 0, hp_resp = []\<rparr>"

text \<open>The bytes read are followed by a NUL.\<close>

definition rx_store :: "string \<Rightarrow> vhttps_internal \<Rightarrow> vhttps_internal" where
  "rx_store bs hp = hp\<lparr>hp_rxbuf := mem_put (hp_prxbuf hp) (bs @ [NUL]) (hp_rxbuf hp),
     hp_prxbuf := hp_prxbuf hp + length bs\<rparr>"

definition rx_text :: "nat \<Rightarrow> vhttps_internal \<Rightarrow> string" where
  "rx_text off hp = mem_get off (hp_prxbuf hp - off) (hp_rxbuf hp)"

type_synonym 'a rx_result = "('a \<times> rx_event list \<times> vhttps_internal) option"

lemma length_VSSL_read:
  "VSSL_read n evs = (Some bs, evs') \<Longrightarrow> length bs \<le> n"
  by (induction n evs rule: VSSL_read.induct) auto

text \<open>\<open>vhttps_rxchar\<close> of a socket. The last argument of the C function only selects a message.\<close>

function (sequential) vhttps_rxcharForSocket :: "int \<Rightarrow> rx_event list \<Rightarrow> vhttps_internal \<Rightarrow> int rx_result" where
  "vhttps_rxcharForSocket n evs hp =
     (if n \<le> 0 then Some (1, evs, hp)
      else case rx_select evs of (i, evs) \<Rightarrow>
        if i \<le> 0 then Some (i, evs, hp)
        else if int (hp_prxbuf hp) + n \<ge> int nrxbuf then None
        else case VSSL_read (nat n) evs of
            (None, evs) \<Rightarrow> Some (-1, evs, hp)
          | (Some bs, evs) \<Rightarrow>
              if bs = [] then Some (0, evs, hp)
              else vhttps_rxcharForSocket (n - int (length bs)) evs (rx_store bs hp))"
  by pat_completeness auto
termination
  by (relation "measure (\<lambda>(n, _, _). nat n)") auto

declare vhttps_rxcharForSocket.simps [simp del]

lemma rxchar_progress:
  assumes "vhttps_rxcharForSocket n evs hp = Some (r, evs', hp')" and "0 < r" and "0 < n"
  shows "hp_prxbuf hp' = hp_prxbuf hp + nat n \<and> hp_prxbuf hp' < nrxbuf"
  using assms
proof (induction n evs hp rule: vhttps_rxcharForSocket.induct)
  case (1 n evs hp)
  obtain i evs1 where s: "rx_select evs = (i, evs1)" by fastforce
  obtain b evs2 where v: "VSSL_read (nat n) evs1 = (b, evs2)" by fastforce
  note rec = "1.prems"(1) [unfolded vhttps_rxcharForSocket.simps [of n evs hp] s v prod.case]
  have i: "\<not> i \<le> 0" using rec "1.prems"(2,3) by (auto split: if_splits)
  have room: "int (hp_prxbuf hp) + n < int nrxbuf" using rec "1.prems"(3) i by (auto split: if_splits)
  obtain bs where b: "b = Some bs" "bs \<noteq> []"
    using rec "1.prems"(2,3) i by (cases b) (auto split: if_splits)
  have len: "length bs \<le> nat n" using v b(1) length_VSSL_read by blast
  have eq: "vhttps_rxcharForSocket (n - int (length bs)) evs2 (rx_store bs hp) = Some (r, evs', hp')"
    using rec "1.prems"(3) i room b by (simp split: if_splits)
  show ?case
  proof (cases "n = int (length bs)")
    case True
    then show ?thesis using eq room by (auto simp: vhttps_rxcharForSocket.simps [of 0] rx_store_def)
  next
    case False
    with len "1.prems"(3) have pos: "0 < n - int (length bs)" by linarith
    have "hp_prxbuf hp' = hp_prxbuf (rx_store bs hp) + nat (n - int (length bs)) \<and> hp_prxbuf hp' < nrxbuf"
      using "1.IH" [OF _ s [symmetric] i _ v [symmetric] b] pos room eq "1.prems"(2,3) by simp
    then show ?thesis using pos len by (auto simp: rx_store_def)
  qed
qed

text \<open>\<open>do { r = vhttps_rxchar(hp, 1, 0); ... } while (...)\<close>: byte by byte until the text read so far ends a line or a
  header.\<close>

function (sequential) rx_until :: "(vhttps_internal \<Rightarrow> bool) \<Rightarrow> rx_event list \<Rightarrow> vhttps_internal \<Rightarrow> int rx_result" where
  "rx_until stop evs hp = (case vhttps_rxcharForSocket 1 evs hp of
       None \<Rightarrow> None
     | Some (r, evs, hp) \<Rightarrow>
         if r \<le> 0 then Some (r, evs, hp) else if stop hp then Some (r, evs, hp) else rx_until stop evs hp)"
  by pat_completeness auto
termination
proof (relation "measure (\<lambda>(_, _, hp). nrxbuf - hp_prxbuf hp)")
  fix stop :: "vhttps_internal \<Rightarrow> bool" and evs hp x2 x xa y xb ya
  assume "vhttps_rxcharForSocket 1 evs hp = Some x2" "(x, xa) = x2" "(y, xb) = xa" "\<not> x \<le> 0" "\<not> stop xb"
  then show "((stop, y, xb), (stop, evs, hp)) \<in> measure (\<lambda>(_, _, hp). nrxbuf - hp_prxbuf hp)"
    using rxchar_progress [of 1 evs hp x y xb] by auto
qed auto

declare rx_until.simps [simp del]

section \<open>The header\<close>

text \<open>The scan of \<open>vhttps_rxhdr\<close> from the last byte backwards; the text is given in reverse.\<close>

fun count_newlines :: "string \<Rightarrow> nat \<Rightarrow> nat" where
  "count_newlines (c # d # s) i =
     (if c \<noteq> LF then i
      else if s \<noteq> [] \<and> d = CR then (if Suc i = 2 then 2 else count_newlines s (Suc i))
      else if Suc i = 2 then 2 else count_newlines (d # s) (Suc i))"
| "count_newlines _ i = i"

definition header_complete :: "vhttps_internal \<Rightarrow> bool" where
  "header_complete hp \<longleftrightarrow> count_newlines (rev (rx_text 0 hp)) 0 = 2"

definition vhttps_rxhdr :: "rx_event list \<Rightarrow> vhttps_internal \<Rightarrow> int rx_result" where
  "vhttps_rxhdr evs hp = do {
     (r, evs, hp) \<leftarrow> rx_until header_complete evs (hp\<lparr>hp_prxbuf := 0, hp_body := Body_null\<rparr>);
     Some (if r \<le> 0 then -1 else 0, evs, hp) }"

text \<open>Walking on to the first character that satisfies \<open>stop\<close>: the text passed, that character and the rest.
  \<open>None\<close>: the walk leaves the bytes that were received and the NUL after them.\<close>

definition scan :: "(char \<Rightarrow> bool) \<Rightarrow> string \<Rightarrow> (string \<times> char \<times> string) option" where
  "scan stop s = (case dropWhile (\<lambda>c. \<not> stop c) s of
       [] \<Rightarrow> None
     | c # r \<Rightarrow> Some (takeWhile (\<lambda>c. \<not> stop c) s, c, r))"

lemma scan_length: "scan stop s = Some (t, c, r) \<Longrightarrow> length r < length s"
  using length_dropWhile_le [of "\<lambda>c. \<not> stop c" s] by (auto simp: scan_def split: list.splits)

lemma length_vct_skipcrlf: "length (vct_skipcrlf s) \<le> length s - 1"
  by (induction s rule: vct_skipcrlf.induct) auto

text \<open>The lines of the header, from entry \<open>n\<close> of the table on, and the text where the loop ends.\<close>

function (sequential) split_lines :: "nat \<Rightarrow> string \<Rightarrow> (string list \<times> string) option" where
  "split_lines n [] = None"
| "split_lines n (c # s) =
     (if c = NUL then Some ([], c # s)
      else if n \<ge> VHTTPS_MAX_HDR then None
      else if vct_iscrlf c then Some ([], c # s)
      else case scan (\<lambda>c. c = NUL \<or> vct_iscrlf c) s of
          None \<Rightarrow> None
        | Some (l, d, r) \<Rightarrow>
            map_option (\<lambda>(ls, t). ((c # l) # ls, t)) (split_lines (Suc n) (vct_skipcrlf (d # r))))"
  by pat_completeness auto
termination
proof (relation "measure (\<lambda>(_, s). length s)")
  fix n :: nat and c :: char and s l r :: string and x2 xa d
  assume "scan (\<lambda>c. c = NUL \<or> vct_iscrlf c) s = Some x2" "(l, xa) = x2" "(d, r) = xa"
  then have "length r < length s" by (auto dest: scan_length)
  then have "length (vct_skipcrlf (d # r)) < length (c # s)"
    using length_vct_skipcrlf [of "d # r"] by simp
  then show "((Suc n, vct_skipcrlf (d # r)), n, c # s) \<in> measure (\<lambda>(_, s). length s)" by simp
qed simp

declare split_lines.simps [simp del]

text \<open>The table \<open>hh\<close> of the texts in the header.\<close>

definition vhttps_splitheader :: "string \<Rightarrow> string option list option" where
  "vhttps_splitheader t = do {
     (_, c, r) \<leftarrow> scan (\<lambda>c. \<not> vct_islws c) (t @ [NUL]);
     (proto, c, r) \<leftarrow> scan vct_islws (c # r);
     if vct_iscrlf c then None else do {
     (_, c, r) \<leftarrow> scan (\<lambda>c. \<not> vct_issp c) r;
     if vct_iscrlf c then None else do {
     (status, c, r) \<leftarrow> scan vct_islws (c # r);
     (msg, r) \<leftarrow> (if vct_iscrlf c then Some (None, vct_skipcrlf (c # r))
       else do {
         (_, c, r) \<leftarrow> scan (\<lambda>c. \<not> vct_issp c) r;
         (m, c, r) \<leftarrow> scan vct_iscrlf (c # r);
         Some (Some (cstr m), vct_skipcrlf (c # r)) });
     (ls, r) \<leftarrow> split_lines 3 r;
     case vct_skipcrlf r of
       c # _ \<Rightarrow> if c = NUL then Some ([Some (cstr proto), Some (cstr status), msg] @ map Some ls) else None
     | [] \<Rightarrow> None } } }"

text \<open>\<open>vhttps_find_header\<close>: the search begins with entry 3.\<close>

fun find_line :: "string \<Rightarrow> string option list \<Rightarrow> string option" where
  "find_line hdr (Some s # hh) =
     (if map tolower (take (length hdr) s) = map tolower hdr \<and> length hdr < length s \<and> s ! length hdr = CHR '':''
      then Some (dropWhile vct_issp (drop (Suc (length hdr)) s))
      else find_line hdr hh)"
| "find_line hdr _ = None"

definition vhttps_find_header :: "string option list \<Rightarrow> string \<Rightarrow> string option" where
  "vhttps_find_header hh hdr = find_line hdr (drop 3 hh)"

section \<open>The body\<close>

definition line_complete :: "vhttps_internal \<Rightarrow> bool" where
  "line_complete hp \<longleftrightarrow> hp_rxbuf hp (hp_prxbuf hp - 1) = LF"

definition vhttps_rxchunk :: "rx_event list \<Rightarrow> vhttps_internal \<Rightarrow> int rx_result" where
  "vhttps_rxchunk evs hp = (let l = hp_prxbuf hp in do {
     (r, evs, hp) \<leftarrow> rx_until line_complete evs hp;
     if r \<le> 0 then Some (r, evs, hp) else
     let s = cstr (rx_text l hp); (v, q) = strtoul 16 s; i = c_int v in
     if length q = length s then Some (-1, evs, hp)
     else if q \<noteq> [] \<and> \<not> vct_islws (hd q) then Some (-1, evs, hp)
     else let hp = hp\<lparr>hp_prxbuf := l\<rparr> in
     if i < 0 then Some (-1, evs, hp) else do {
     (r, evs, hp) \<leftarrow> vhttps_rxcharForSocket i evs hp;
     if r \<le> 0 then Some (-1, evs, hp) else let l = hp_prxbuf hp in do {
     (r, evs, hp) \<leftarrow> vhttps_rxcharForSocket 2 evs hp;
     if r \<le> 0 then Some (-1, evs, hp)
     else if \<not> vct_iscrlf (hp_rxbuf hp l) \<or> \<not> vct_iscrlf (hp_rxbuf hp (l + 1)) then Some (-1, evs, hp)
     else Some (i, evs, hp\<lparr>hp_prxbuf := l, hp_rxbuf := (hp_rxbuf hp)(l := NUL)\<rparr>) } } })"

lemma rxchunk_progress:
  assumes c: "vhttps_rxchunk evs hp = Some (i, evs', hp')" and i: "0 < i"
  shows "hp_prxbuf hp' = hp_prxbuf hp + nat i \<and> hp_prxbuf hp' < nrxbuf"
proof -
  obtain r1 evs1 hp1 where u: "rx_until line_complete evs hp = Some (r1, evs1, hp1)" and r1: "\<not> r1 \<le> 0"
    using c i by (fastforce simp: vhttps_rxchunk_def Let_def bind_eq_Some_conv split: if_splits)
  obtain v q where v: "strtoul 16 (cstr (rx_text (hp_prxbuf hp) hp1)) = (v, q)" by fastforce
  let ?h = "hp1\<lparr>hp_prxbuf := hp_prxbuf hp\<rparr>"
  obtain r2 evs2 hp2 where d: "vhttps_rxcharForSocket (c_int v) evs1 ?h = Some (r2, evs2, hp2)" and r2: "\<not> r2 \<le> 0"
    using c i r1 by (fastforce simp: vhttps_rxchunk_def Let_def u v bind_eq_Some_conv split: if_splits)
  have e: "hp_prxbuf hp' = hp_prxbuf hp2" "c_int v = i"
    using c i r1 r2 by (auto simp: vhttps_rxchunk_def Let_def u v d bind_eq_Some_conv split: if_splits)
  show ?thesis using rxchar_progress [OF d _ ] r2 e i by simp
qed

text \<open>\<open>while ((i = vhttps_rxchunk(hp)) > 0) continue;\<close>\<close>

function (sequential) rx_chunks :: "rx_event list \<Rightarrow> vhttps_internal \<Rightarrow> int rx_result" where
  "rx_chunks evs hp = (case vhttps_rxchunk evs hp of
       None \<Rightarrow> None
     | Some (i, evs, hp) \<Rightarrow> if i > 0 then rx_chunks evs hp else Some (i, evs, hp))"
  by pat_completeness auto
termination
proof (relation "measure (\<lambda>(_, hp). nrxbuf - hp_prxbuf hp)")
  fix evs hp x2 i xa evs' hp'
  assume "vhttps_rxchunk evs hp = Some x2" "(i, xa) = x2" "(evs', hp') = xa" "0 < (i :: int)"
  then show "((evs', hp'), (evs, hp)) \<in> measure (\<lambda>(_, hp). nrxbuf - hp_prxbuf hp)"
    using rxchunk_progress [of evs hp i evs' hp'] by auto
qed auto

declare rx_chunks.simps [simp del]

text \<open>\<open>do { i = vhttps_rxchar(hp, 1, 1); ll += i; } while (i > 0);\<close>\<close>

function (sequential) rx_to_eof :: "int \<Rightarrow> rx_event list \<Rightarrow> vhttps_internal \<Rightarrow> int rx_result" where
  "rx_to_eof ll evs hp = (case vhttps_rxcharForSocket 1 evs hp of
       None \<Rightarrow> None
     | Some (i, evs, hp) \<Rightarrow> if i > 0 then rx_to_eof (ll + i) evs hp else Some (ll + i, evs, hp))"
  by pat_completeness auto
termination
proof (relation "measure (\<lambda>(_, _, hp). nrxbuf - hp_prxbuf hp)")
  fix ll evs hp x2 i xa evs' hp'
  assume "vhttps_rxcharForSocket 1 evs hp = Some x2" "(i, xa) = x2" "(evs', hp') = xa" "0 < (i :: int)"
  then show "((ll + i, evs', hp'), (ll, evs, hp)) \<in> measure (\<lambda>(_, _, hp). nrxbuf - hp_prxbuf hp)"
    using rxchar_progress [of 1 evs hp i evs' hp'] by auto
qed auto

declare rx_to_eof.simps [simp del]

text \<open>\<open>hp->body\<close> is the place after the header when the function is called, which \<open>off\<close> gives.\<close>

definition vhttps_swallow_body :: "nat \<Rightarrow> bool \<Rightarrow> rx_event list \<Rightarrow> vhttps_internal \<Rightarrow> (rx_event list \<times> vhttps_internal) option" where
  "vhttps_swallow_body off body evs hp = (case vhttps_find_header (hp_resp hp) ''content-length'' of
       Some p \<Rightarrow> let l = c_int (fst (strtoul 0 p)) in do {
         (_, evs, hp) \<leftarrow> vhttps_rxcharForSocket l evs hp;
         Some (evs, hp\<lparr>hp_bodylen := word_of_int l\<rparr>) }
     | None \<Rightarrow>
         if vhttps_find_header (hp_resp hp) ''transfer-encoding'' = Some ''chunked'' then do {
           (i, evs, hp) \<leftarrow> rx_chunks evs hp;
           if i < 0 then Some (evs, hp)
           else Some (evs, hp\<lparr>hp_bodylen := word_of_int (int (hp_prxbuf hp) - int off)\<rparr>) }
         else if body then do {
           (ll, evs, hp) \<leftarrow> rx_to_eof 0 evs (hp\<lparr>hp_body := Body_rx (hp_prxbuf hp)\<rparr>);
           Some (evs, hp\<lparr>hp_bodylen := word_of_int ll\<rparr>) }
         else Some (evs, hp\<lparr>hp_bodylen := 0\<rparr>))"

text \<open>The \<open>hp->bodylen\<close> bytes at \<open>hp->body\<close>; \<open>None\<close> if they do not lie in the buffer.\<close>

definition body_bytes :: "vhttps_internal \<Rightarrow> string option" where
  "body_bytes hp = (case hp_body hp of
       Body_null \<Rightarrow> None
     | Body_rx off \<Rightarrow> if off + unat (hp_bodylen hp) \<le> nrxbuf then Some (mem_get off (unat (hp_bodylen hp)) (hp_rxbuf hp)) else None
     | Body_gzip s \<Rightarrow> if unat (hp_bodylen hp) \<le> length s then Some (take (unat (hp_bodylen hp)) s) else None)"

text \<open>What a round of the decompression gives: \<open>inflateInit2\<close> or \<open>malloc\<close> fails, or \<open>inflate\<close> comes to the end of
  the stream with some output, lacks room or fails.\<close>

datatype inflate_result = Inflate_init_failed | Inflate_no_memory | Inflate_end string | Inflate_buf_error | Inflate_failed

partial_function (option) gzip_loop :: "(nat \<Rightarrow> inflate_result) \<Rightarrow> nat \<Rightarrow> bool \<Rightarrow> string option option" where
  "gzip_loop inflate outlen again =
     (if outlen \<ge> 2 ^ 30 then Some None
      else let outlen = (if again then outlen * 10 else outlen) in
        case inflate (outlen mod 2 ^ 32) of
          Inflate_end out \<Rightarrow> Some (Some out)
        | Inflate_buf_error \<Rightarrow> gzip_loop inflate outlen True
        | _ \<Rightarrow> Some None)"

declare gzip_loop.simps [code]

text \<open>If the loop is not entered, the result of \<open>inflate\<close> is read without having been set.\<close>

definition vhttps_rxbody_gzip ::
  "(string \<Rightarrow> nat \<Rightarrow> inflate_result) \<Rightarrow> vhttps_internal \<Rightarrow> (int \<times> vhttps_internal) option" where
  "vhttps_rxbody_gzip inflate hp =
     (if hp_bodylen hp = 0 then Some (0, hp)
      else let outlen = unat (hp_bodylen hp * 10) in
        if outlen \<ge> 2 ^ 30 then None
        else do {
          inp \<leftarrow> body_bytes hp;
          out \<leftarrow> gzip_loop (inflate inp) outlen False;
          case out of
            None \<Rightarrow> Some (-1, hp)
          | Some s \<Rightarrow> Some (0, hp\<lparr>hp_body := Body_gzip s, hp_bodylen := word_of_nat (length s)\<rparr>) })"

fun has_infix :: "string \<Rightarrow> string \<Rightarrow> bool" where
  "has_infix t [] \<longleftrightarrow> t = []"
| "has_infix t (c # s) \<longleftrightarrow> take (length t) (c # s) = t \<or> has_infix t s"

definition vhttps_rxbody ::
  "(string \<Rightarrow> nat \<Rightarrow> inflate_result) \<Rightarrow> rx_event list \<Rightarrow> vhttps_internal \<Rightarrow> int rx_result" where
  "vhttps_rxbody inflate evs hp = do {
     (r, evs, hp) \<leftarrow> vhttps_rxhdr evs hp;
     if r \<noteq> 0 then Some (-1, evs, hp) else do {
     hh \<leftarrow> vhttps_splitheader (rx_text 0 hp);
     let off = hp_prxbuf hp;
     let hp = hp\<lparr>hp_resp := hh, hp_body := Body_rx off\<rparr>;
     (evs, hp) \<leftarrow> vhttps_swallow_body off (hh ! 1 = Some ''200'') evs hp;
     case vhttps_find_header (hp_resp hp) ''content-encoding'' of
       Some p \<Rightarrow> if has_infix ''gzip'' p then do { (r, hp) \<leftarrow> vhttps_rxbody_gzip inflate hp; Some (r, evs, hp) }
                 else Some (0, evs, hp)
     | None \<Rightarrow> Some (0, evs, hp) } }"

section \<open>Requests\<close>

record vhttps_req =
  req_f_need_resp_mudband_etag :: bool
  req_f_need_resp_status :: bool
  req_server :: string
  req_domain :: string
  req_url :: string
  req_hdrs :: "string option"
  req_body :: string
  req_bodylen :: nat
  req_resp_status :: int
  req_resp_mudband_etag :: string

text \<open>The environment of a call: whether \<open>VSS_open\<close>, \<open>VSSL_connect\<close> and \<open>VSSL_write\<close> succeed, what the connection
  gives, and the contents of the memory that \<open>malloc\<close> returns.\<close>

record https_env =
  he_open :: "string \<Rightarrow> bool"
  he_connect :: "string \<Rightarrow> bool"
  he_write :: "string \<Rightarrow> bool"
  he_rx :: "rx_event list"
  he_mem :: "nat \<Rightarrow> char"

definition get_text :: "vhttps_req \<Rightarrow> string" where
  "get_text req = ''GET '' @ req_url req @ '' HTTP/1.1'' @ crlf @ ''Connection: close'' @ crlf @
     (case req_hdrs req of None \<Rightarrow> [] | Some h \<Rightarrow> h) @ crlf"

text \<open>The body is printed as a string, the length is the one given.\<close>

definition post_text :: "vhttps_req \<Rightarrow> string" where
  "post_text req = ''POST '' @ req_url req @ '' HTTP/1.1'' @ crlf @ ''Connection: close'' @ crlf @
     ''Content-Length: '' @ decimal_text (req_bodylen req) @ crlf @
     (case req_hdrs req of None \<Rightarrow> [] | Some h \<Rightarrow> h) @ crlf @ req_body req"

text \<open>The part that the two calls share: connect, send the text, read the response, check the room for the body.
  \<open>Inl\<close> is the way out with -1 and the text sent.\<close>

definition vhttps_exchange ::
  "(string \<Rightarrow> nat \<Rightarrow> inflate_result) \<Rightarrow> https_env \<Rightarrow> vhttps_req \<Rightarrow> string \<Rightarrow> nat \<Rightarrow>
   (string option + (string option list \<times> string)) option" where
  "vhttps_exchange inflate e req text resplen =
     (if \<not> he_open e (req_server req) \<or> \<not> he_connect e (req_domain req) then Some (Inl None)
      else if \<not> he_write e text then Some (Inl (Some text))
      else do {
        (r, _, hp) \<leftarrow> vhttps_rxbody inflate (he_rx e) (vhttps_allocForSocket (he_mem e));
        if r \<noteq> 0 \<or> unat (hp_bodylen hp) > resplen then Some (Inl (Some text))
        else do { bs \<leftarrow> body_bytes hp; Some (Inr (hp_resp hp, bs)) } })"

text \<open>The result, the text sent if any, the request with the fields that the call sets, and the body if the result
  is 0.\<close>

type_synonym https_result = "int \<times> string option \<times> vhttps_req \<times> string option"

definition set_status :: "string option list \<Rightarrow> vhttps_req \<Rightarrow> vhttps_req" where
  "set_status hh req =
     (if req_f_need_resp_status req then req\<lparr>req_resp_status := atoi (the (hh ! 1))\<rparr> else req)"

definition set_etag :: "string option list \<Rightarrow> vhttps_req \<Rightarrow> vhttps_req" where
  "set_etag hh req =
     (if req_f_need_resp_mudband_etag req then
        (case vhttps_find_header hh ''mudband-etag'' of
           None \<Rightarrow> req | Some p \<Rightarrow> req\<lparr>req_resp_mudband_etag := take 63 p\<rparr>)
      else req)"

definition VHTTPS_get ::
  "(string \<Rightarrow> nat \<Rightarrow> inflate_result) \<Rightarrow> https_env \<Rightarrow> vhttps_req \<Rightarrow> nat \<Rightarrow> https_result option" where
  "VHTTPS_get inflate e req resplen = (let text = get_text req in
     map_option (\<lambda>x. case x of
         Inl sent \<Rightarrow> (-1, sent, req, None)
       | Inr (hh, bs) \<Rightarrow> (0, Some text, set_status hh req, Some bs)) (vhttps_exchange inflate e req text resplen))"

definition VHTTPS_post ::
  "(string \<Rightarrow> nat \<Rightarrow> inflate_result) \<Rightarrow> https_env \<Rightarrow> vhttps_req \<Rightarrow> nat \<Rightarrow> https_result option" where
  "VHTTPS_post inflate e req resplen = (let text = post_text req in
     map_option (\<lambda>x. case x of
         Inl sent \<Rightarrow> (-1, sent, req, None)
       | Inr (hh, bs) \<Rightarrow> (0, Some text, set_etag hh (set_status hh req), Some bs))
       (vhttps_exchange inflate e req text resplen))"

end
