(* ===== verification/Tasks.thy ===== *)
theory Tasks
  imports Tunnel Stun_Nat Vhttps
begin

text \<open>
  The request for the configuration (\<open>CNF_fetch\<close> of \<open>linux/mudband_confmgr.c\<close>) and the thread of periodic tasks (\<open>linux/mudband_tasks.c\<close>): cleaning up
  configurations, fetching the configuration, the STUN test and the status snapshot, run by the callouts. The answer
  of the server, the time, the addresses of the host and the system calls of the STUN client are inputs of a pass.
  \<open>None\<close> is a failed assertion or undefined.
\<close>

section \<open>The request\<close>

text \<open>\<open>snprintf\<close> into a buffer of \<open>n\<close> bytes keeps \<open>n - 1\<close> characters; its result is the length of the whole text.\<close>

definition fetch_headers :: "string \<Rightarrow> string" where
  "fetch_headers jwt = ''Accept-Encoding: gzip'' @ crlf @ ''Authorization: '' @ jwt @ crlf @
     ''Content-Type: application/json'' @ crlf @ ''Host: www.mud.band'' @ crlf"

definition cnf_fetch_hdrs :: "string \<Rightarrow> string option \<Rightarrow> string option" where
  "cnf_fetch_hdrs jwt etag =
     (let hdrslen = length (fetch_headers jwt); hdrs = take 1023 (fetch_headers jwt) in
      case etag of
        None \<Rightarrow> Some hdrs
      | Some tag \<Rightarrow>
          if hdrslen > 1024 then None
          else Some (hdrs @ take (1023 - hdrslen) (''If-None-Match: '' @ tag @ crlf)))"

fun nattype_code :: "stun_nattype \<Rightarrow> int" where
  "nattype_code STUN_NATTYPE_UNKNOWN = 0"
| "nattype_code STUN_NATTYPE_FAILURE = 1"
| "nattype_code STUN_NATTYPE_OPEN = 2"
| "nattype_code STUN_NATTYPE_BLOCKED = 3"
| "nattype_code STUN_NATTYPE_FULL_CONE = 4"
| "nattype_code STUN_NATTYPE_RESTRICTED_CONE = 5"
| "nattype_code STUN_NATTYPE_PORT_RESTRICTED_CONE = 6"
| "nattype_code STUN_NATTYPE_SYMMETRIC = 7"
| "nattype_code STUN_NATTYPE_FIREWALL = 8"

definition cnf_fetch_body :: "int \<Rightarrow> json \<Rightarrow> stun_nattype \<Rightarrow> string \<Rightarrow> string \<Rightarrow> json" where
  "cnf_fetch_body listen_port jifaddrs nattype mapped fetch_type =
     Json_object [(''interface'', Json_object [(''listen_port'', Json_integer listen_port), (''addresses'', jifaddrs)]),
       (''stun_nattype'', Json_integer (nattype_code nattype)), (''stun_mapped_addr'', Json_string mapped),
       (''fetch_type'', Json_string fetch_type)]"

text \<open>The request; \<open>rb\<close> is the text of the body.\<close>

definition fetch_req :: "string \<Rightarrow> string \<Rightarrow> vhttps_req" where
  "fetch_req hdrs rb = \<lparr>req_f_need_resp_mudband_etag = True, req_f_need_resp_status = True,
     req_server = ''www.mud.band:443'', req_domain = ''www.mud.band'', req_url = ''/api/band/conf'',
     req_hdrs = Some hdrs, req_body = take 1023 rb, req_bodylen = length rb,
     req_resp_status = 0, req_resp_mudband_etag = []\<rparr>"

section \<open>Fetching the configuration\<close>

record fetch_state =
  fs_mbe_jroot :: "json option"
  fs_cnfs :: cnf_state
  fs_stunc :: stun_client_result
  fs_conf_file :: "string option"
  fs_mfa_required :: bool
  fs_mfa_url :: string
  fs_requests :: "string list"

text \<open>\<open>fs_conf_file\<close> is the text in the file \<open>conf_<uuid>.json\<close>, if there is one.

  The answer: \<open>None\<close> when \<open>VHTTPS_post\<close> fails, otherwise the status of the response, its \<open>etag\<close>, the length of
  the body and the result of \<open>json_loads\<close>.\<close>

record fetch_input =
  fi_time :: u64
  fi_ifaddrs :: "ifaddr list option"
  fi_listen_port :: int
  fi_post :: "(int \<times> string \<times> nat \<times> json option) option"
  fi_write_ok :: bool

definition fetch_etag :: "u64 \<Rightarrow> cnf_state \<Rightarrow> (string option \<times> cnf_state) option" where
  "fetch_etag time cnfs = do {
     (r, cf, cnfs) \<leftarrow> CNF_get time cnfs;
     if r = 0 then do {
       cf \<leftarrow> cf;
       c \<leftarrow> map_of (cnf_head cnfs) cf;
       etag \<leftarrow> cnf_get_etag (cnf_jroot c);
       cnfs \<leftarrow> CNF_rel cf cnfs;
       Some (etag, cnfs) }
     else Some (None, cnfs) }"

text \<open>The request that \<open>VHTTPS_post\<close> is called with, and the configurations once it is made.\<close>

definition fetch_make ::
  "json_lib \<Rightarrow> string \<Rightarrow> fetch_input \<Rightarrow> 'a fetch_state_scheme \<Rightarrow> (vhttps_req \<times> cnf_state) option" where
  "fetch_make jl fetch_type inp st = do {
     jroot \<leftarrow> fs_mbe_jroot st;
     jwt \<leftarrow> member_such json_is_string jroot ''jwt'';
     (etag, cnfs) \<leftarrow> fetch_etag (fi_time inp) (fs_cnfs st);
     hdrs \<leftarrow> cnf_fetch_hdrs (json_string_value jwt) etag;
     mapped \<leftarrow> STUNC_get_mappped_addr (fs_stunc st);
     jifaddrs \<leftarrow> cnf_getifaddrs (fi_ifaddrs inp) mapped;
     let rb = jl_dumps jl (cnf_fetch_body (fi_listen_port inp) jifaddrs (STUNC_get_nattype (fs_stunc st)) mapped fetch_type);
     Some (fetch_req hdrs rb, cnfs) }"

text \<open>Up to the call of \<open>VHTTPS_post\<close>, and from its return on.\<close>

definition fetch_request ::
  "json_lib \<Rightarrow> string \<Rightarrow> fetch_input \<Rightarrow> 'a fetch_state_scheme \<Rightarrow> 'a fetch_state_scheme option" where
  "fetch_request jl fetch_type inp st = do {
     (req, cnfs) \<leftarrow> fetch_make jl fetch_type inp st;
     Some (st\<lparr>fs_cnfs := cnfs, fs_requests := fs_requests st @ [post_text req]\<rparr>) }"

definition apply_answer :: "json_lib \<Rightarrow> fetch_result \<Rightarrow> 'a fetch_state_scheme \<Rightarrow> 'a fetch_state_scheme" where
  "apply_answer jl fr st = st
     \<lparr>fs_conf_file := (case fr_written fr of None \<Rightarrow> fs_conf_file st | Some conf \<Rightarrow> Some (jl_dumps jl conf)),
      fs_mfa_required := (case fr_mfa_required fr of None \<Rightarrow> fs_mfa_required st | Some b \<Rightarrow> b),
      fs_mfa_url := (case fr_mfa_url fr of None \<Rightarrow> fs_mfa_url st | Some u \<Rightarrow> u)\<rparr>"

text \<open>\<open>fi_write_ok\<close>: \<open>cnf_file_write\<close> succeeds; the code asserts it.\<close>

definition fetch_receive :: "json_lib \<Rightarrow> fetch_input \<Rightarrow> 'a fetch_state_scheme \<Rightarrow> (int \<times> 'a fetch_state_scheme) option" where
  "fetch_receive jl inp st = (case fi_post inp of
       None \<Rightarrow> Some (-1, st)
     | Some (resp_status, resp_etag, resp_bodylen, parsed) \<Rightarrow>
         if resp_status \<notin> {304, 502, 503} \<and> resp_bodylen \<ge> 1024 * 1024 then None
         else do {
           fr \<leftarrow> cnf_fetch_answer resp_status resp_etag parsed;
           if fr_written fr \<noteq> None \<and> \<not> fi_write_ok inp then None else Some (fr_return fr, apply_answer jl fr st) })"

definition CNF_fetch ::
  "json_lib \<Rightarrow> string \<Rightarrow> fetch_input \<Rightarrow> 'a fetch_state_scheme \<Rightarrow> (int \<times> 'a fetch_state_scheme) option" where
  "CNF_fetch jl fetch_type inp st = do { st \<leftarrow> fetch_request jl fetch_type inp st; fetch_receive jl inp st }"

text \<open>\<open>CNF_check_and_read\<close> on the file and the result of the STUN client; without such a result its assertion fails
  once the NAT type agrees.\<close>

definition check_and_read :: "json_lib \<Rightarrow> u64 \<Rightarrow> 'a fetch_state_scheme \<Rightarrow> (int \<times> 'a fetch_state_scheme) option" where
  "check_and_read jl time st = (let mapped = STUNC_get_mappped_addr (fs_stunc st) in do {
     (r, cnfs) \<leftarrow> CNF_check_and_read (fs_conf_file st \<noteq> None) (fs_conf_file st \<bind> jl_loads jl) (nattype_code (STUNC_get_nattype (fs_stunc st)))
       (case mapped of None \<Rightarrow> [] | Some m \<Rightarrow> m) time (fs_cnfs st);
     if mapped = None \<and> r = -4 then None else Some (r, st\<lparr>fs_cnfs := cnfs\<rparr>) })"

section \<open>The tasks\<close>

record mbt_state = fetch_state +
  mbt_stun_env :: stun_env
  mbt_need_iface_sync :: bool
  mbt_peer_snapshots :: "wireguard_peer_snapshot list"
  mbt_status_file :: "json option"

text \<open>\<open>ti_snapshot\<close> is \<open>None\<close> when the tunnel thread takes no snapshot within three seconds.\<close>

record task_input =
  ti_fetch :: fetch_input
  ti_os :: stun_os
  ti_snapshot :: "wireguard_peer_snapshot list option"
  ti_band_uuid :: "string option"
  ti_stat :: wireguard_iface_stat
  ti_now :: int
  ti_mqtt_trigger :: bool

text \<open>A counter is given to \<open>json_integer\<close>, which takes a signed number of 64 bits.\<close>

definition wireguard_iface_stat_to_json :: "wireguard_iface_stat \<Rightarrow> json" where
  "wireguard_iface_stat_to_json s = Json_object (map (\<lambda>(k, v). (k, Json_integer (sint v)))
     [(''n_no_peer_found'', n_no_peer_found s), (''n_no_ipv4_hdr'', n_no_ipv4_hdr s), (''n_tun_rx_pkts'', n_tun_rx_pkts s),
      (''n_tun_tx_pkts'', n_tun_tx_pkts s), (''n_udp_rx_pkts'', n_udp_rx_pkts s), (''n_udp_tx_pkts'', n_udp_tx_pkts s),
      (''n_udp_proxy_rx_pkts'', n_udp_proxy_rx_pkts s), (''n_udp_proxy_tx_pkts'', n_udp_proxy_tx_pkts s),
      (''n_udp_proxy_rx_errs'', n_udp_proxy_rx_errs s), (''bytes_tun_rx'', bytes_tun_rx s), (''bytes_tun_tx'', bytes_tun_tx s),
      (''bytes_udp_rx'', bytes_udp_rx s), (''bytes_udp_tx'', bytes_udp_tx s), (''bytes_udp_proxy_rx'', bytes_udp_proxy_rx s),
      (''bytes_udp_proxy_tx'', bytes_udp_proxy_tx s)])"

definition snapshot_json :: "wireguard_peer_snapshot \<Rightarrow> json" where
  "snapshot_json p = Json_object [(''iface_addr'', Json_string (inet_ntoa (snap_iface_addr p))),
     (''endpoint_ip'', Json_string (inet_ntoa (snap_endpoint_ip p))), (''endpoint_port'', Json_integer (uint (snap_endpoint_port p))),
     (''endpoint_t_heartbeated'', Json_integer (sint (snap_endpoint_t_heartbeated p)))]"

definition status_json :: "bool \<Rightarrow> string \<Rightarrow> json" where
  "status_json required url = Json_object
     (if required then (''mfa_authentication_required'', Json_true) #
        (if url \<noteq> [] then [(''mfa_authentication_url'', Json_string url)] else [])
      else [(''mfa_authentication_required'', Json_false), (''mfa_authentication_url'', Json_string [])])"

definition mbt_stun_client :: "task_input \<Rightarrow> mbt_state \<Rightarrow> mbt_state option" where
  "mbt_stun_client inp st = do {
     (_, stunc, e) \<leftarrow> STUNC_test (ti_os inp) 3 (fs_stunc st) (mbt_stun_env st);
     Some (st\<lparr>fs_stunc := stunc, mbt_stun_env := e\<rparr>) }"

text \<open>The interval in seconds and the new state.\<close>

definition mbt_conf_fetcher :: "json_lib \<Rightarrow> task_input \<Rightarrow> mbt_state \<Rightarrow> (int \<times> mbt_state) option" where
  "mbt_conf_fetcher jl inp st = do {
     (r, st) \<leftarrow> CNF_fetch jl ''when_it_gots_a_event'' (ti_fetch inp) st;
     if r < 0 then Some (if r = -4 then 30 else 60, st)
     else if r > 0 then Some (600, st)
     else do {
       (r, st) \<leftarrow> check_and_read jl (fi_time (ti_fetch inp)) st;
       Some (600, if r = 0 then st\<lparr>mbt_need_iface_sync := True\<rparr> else st) } }"

definition mbt_conf_nuke :: "mbt_state \<Rightarrow> mbt_state option" where
  "mbt_conf_nuke st = Some (st\<lparr>fs_cnfs := CNF_nuke (fs_cnfs st)\<rparr>)"

definition mbt_status_snapshot :: "task_input \<Rightarrow> mbt_state \<Rightarrow> mbt_state option" where
  "mbt_status_snapshot inp st = Some (case ti_snapshot inp of
       None \<Rightarrow> st
     | Some ps \<Rightarrow>
         let st = st\<lparr>mbt_peer_snapshots := ps\<rparr> in
         case ti_band_uuid inp of
           None \<Rightarrow> st
         | Some uuid \<Rightarrow> st\<lparr>mbt_status_file := Some (Json_object [(''band_uuid'', Json_string uuid),
             (''peers'', Json_array (map snapshot_json ps)), (''stats'', wireguard_iface_stat_to_json (ti_stat inp)),
             (''status'', status_json (fs_mfa_required st) (fs_mfa_url st))])\<rparr>)"

text \<open>Callout 0 is \<open>mbt_conf_nuke_co\<close>, 1 \<open>mbt_conf_fetcher_co\<close>, 2 \<open>mbt_stun_client_co\<close>, 3 \<open>mbt_status_snapshot_co\<close>.\<close>

definition mbt_callback ::
  "json_lib \<Rightarrow> task_input \<Rightarrow> nat \<Rightarrow> callout_block \<times> mbt_state \<Rightarrow> (callout_block \<times> mbt_state) option" where
  "mbt_callback jl inp c = (\<lambda>(cb, st).
     if c = 0 then map_option (\<lambda>st. (snd (callout_reset cb c (CALLOUT_SECTOTICKS 60)), st)) (mbt_conf_nuke st)
     else if c = 1 then map_option (\<lambda>(interval, st). (snd (callout_reset cb c (CALLOUT_SECTOTICKS interval)), st)) (mbt_conf_fetcher jl inp st)
     else if c = 2 then map_option (\<lambda>st. (snd (callout_reset cb c (CALLOUT_SECTOTICKS 600)), st)) (mbt_stun_client inp st)
     else map_option (\<lambda>st. (snd (callout_reset cb c (CALLOUT_SECTOTICKS 60)), st)) (mbt_status_snapshot inp st))"

record mbt =
  mbt_cb :: callout_block
  mbt_need_conf_fetcher_trigger :: bool
  mbt_aborted :: bool
  mbt_data :: mbt_state

definition MBT_conf_fetcher_trigger :: "mbt \<Rightarrow> mbt" where
  "MBT_conf_fetcher_trigger t = t\<lparr>mbt_need_conf_fetcher_trigger := True\<rparr>"

text \<open>A pass of the loop of \<open>mbt_thread\<close> up to the call of \<open>MQTT_sync\<close>.\<close>

definition mbt_run :: "json_lib \<Rightarrow> task_input \<Rightarrow> mbt \<Rightarrow> mbt option" where
  "mbt_run jl inp t =
     (let t = (if mbt_need_conf_fetcher_trigger t
               then t\<lparr>mbt_need_conf_fetcher_trigger := False, mbt_cb := snd (callout_reset (mbt_cb t) 1 (CALLOUT_SECTOTICKS 3))\<rparr>
               else t)
      in do {
        (cb, st) \<leftarrow> COT_clock (mbt_callback jl inp) (COT_ticks (ti_now inp) (mbt_cb t), mbt_data t);
        Some (t\<lparr>mbt_cb := cb, mbt_data := st\<rparr>) })"

text \<open>A whole pass as the tasks see it: \<open>ti_mqtt_trigger\<close> says whether a message that \<open>MQTT_sync\<close> reads asks for the
  configuration. The loop with \<open>MQTT_sync\<close> itself is \<open>mbt_thread_pass\<close> in theory \<open>Mqtt_Client\<close>.\<close>

definition mbt_pass :: "json_lib \<Rightarrow> task_input \<Rightarrow> mbt \<Rightarrow> mbt option" where
  "mbt_pass jl inp t = do {
     t \<leftarrow> mbt_run jl inp t;
     Some (if ti_mqtt_trigger inp then MBT_conf_fetcher_trigger t else t) }"

definition MBT_fini :: "mbt \<Rightarrow> mbt" where
  "MBT_fini t = t\<lparr>mbt_aborted := True\<rparr>"

definition MBT_init :: "int \<Rightarrow> bool \<Rightarrow> mbt_state \<Rightarrow> mbt" where
  "MBT_init now status_snapshot_flag st =
     (let cb = COT_init now (\<lambda>_. \<lparr>c_time = 0, c_active = False, c_pending = False, c_id = 0\<rparr>);
          cb = callout_init 3 2 (callout_init 2 1 (callout_init 1 0 (callout_init 0 0 cb)));
          cb = snd (callout_reset cb 0 (CALLOUT_SECTOTICKS 60));
          cb = snd (callout_reset cb 1 (CALLOUT_SECTOTICKS 600));
          cb = snd (callout_reset cb 2 (CALLOUT_SECTOTICKS 600));
          cb = (if status_snapshot_flag then snd (callout_reset cb 3 (CALLOUT_SECTOTICKS 10)) else cb)
      in \<lparr>mbt_cb = cb, mbt_need_conf_fetcher_trigger = False, mbt_aborted = False, mbt_data = st\<rparr>)"

section \<open>The tasks run when they are due\<close>

text \<open>The interval depends on the answer of the server only.\<close>

definition fetch_interval :: "fetch_input \<Rightarrow> int" where
  "fetch_interval inp = (case fi_post inp of None \<Rightarrow> 60 | Some (resp_status, resp_etag, resp_bodylen, parsed) \<Rightarrow>
     (case cnf_fetch_answer resp_status resp_etag parsed of
        None \<Rightarrow> 600 | Some fr \<Rightarrow> if fr_return fr = -4 then 30 else if fr_return fr < 0 then 60 else 600))"

definition mbt_effect :: "json_lib \<Rightarrow> task_input \<Rightarrow> nat \<Rightarrow> mbt_state \<Rightarrow> mbt_state option" where
  "mbt_effect jl inp c st = (if c = 0 then mbt_conf_nuke st else if c = 1 then map_option snd (mbt_conf_fetcher jl inp st)
     else if c = 2 then mbt_stun_client inp st else mbt_status_snapshot inp st)"

definition mbt_period :: "task_input \<Rightarrow> nat \<Rightarrow> int" where
  "mbt_period inp c = CALLOUT_SECTOTICKS (if c = 1 then fetch_interval (ti_fetch inp) else if c = 2 then 600 else 60)"

lemma CNF_fetch_return:
  assumes "CNF_fetch jl ft inp st = Some (r, st')"
  shows "case fi_post inp of None \<Rightarrow> r = -1 | Some (resp_status, resp_etag, resp_bodylen, parsed) \<Rightarrow>
    (\<exists>fr. cnf_fetch_answer resp_status resp_etag parsed = Some fr \<and> r = fr_return fr)"
  using assms by (cases "fi_post inp") (auto simp: CNF_fetch_def fetch_receive_def split: prod.splits elim!: bind_SomeE if_SomeE)

lemma conf_fetcher_interval:
  assumes "mbt_conf_fetcher jl inp st = Some (i, st')"
  shows "i = fetch_interval (ti_fetch inp)"
proof -
  obtain r st1 where f: "CNF_fetch jl ''when_it_gots_a_event'' (ti_fetch inp) st = Some (r, st1)"
      "i = (if r = -4 then 30 else if r < 0 then 60 else 600)"
    using assms by (auto simp: mbt_conf_fetcher_def elim!: bind_SomeE if_SomeE)
  then show ?thesis using CNF_fetch_return [OF f(1)] by (auto simp: fetch_interval_def split: option.splits prod.splits)
qed

interpretation mbt: periodic_callouts "mbt_callback jl inp" "mbt_effect jl inp" "mbt_period inp" for jl inp
proof
  show "mbt_callback jl inp c (cb, s) = map_option (\<lambda>s'. (snd (callout_reset cb c (mbt_period inp c)), s')) (mbt_effect jl inp c s)" for c cb s
    using conf_fetcher_interval [of jl inp s]
    by (cases "mbt_conf_fetcher jl inp s") (auto simp: mbt_callback_def mbt_effect_def mbt_period_def)
  show "0 < mbt_period inp c" for c
    by (auto simp: mbt_period_def CALLOUT_SECTOTICKS_def fetch_interval_def split: option.splits)
qed


text \<open>The states of the thread: passes at later and later times, triggers, and what other threads do to the data.\<close>

inductive mbt_reach :: "json_lib \<Rightarrow> mbt \<Rightarrow> bool" for jl where
  init: "mbt_reach jl (MBT_init now flag st)"
| pass: "mbt_reach jl t \<Longrightarrow> cb_ticks (mbt_cb t) \<le> ti_now inp \<Longrightarrow> mbt_pass jl inp t = Some t' \<Longrightarrow> mbt_reach jl t'"
| trigger: "mbt_reach jl t \<Longrightarrow> mbt_reach jl (MBT_conf_fetcher_trigger t)"
| fini: "mbt_reach jl t \<Longrightarrow> mbt_reach jl (MBT_fini t)"
| other: "mbt_reach jl t \<Longrightarrow> mbt_reach jl (t\<lparr>mbt_data := st\<rparr>)"

definition tasks_ok :: "callout_block \<Rightarrow> bool" where
  "tasks_ok cb \<longleftrightarrow> wheel_ok cb \<and> nothing_overdue cb \<and> cb_softticks cb = cb_ticks cb \<and>
     (\<forall>c<3. c_pending (cb_co cb c) \<and> c_time (cb_co cb c) \<le> cb_ticks cb + 60000)"

text \<open>The wheel at the clock of a pass, with the fetcher brought forward after a trigger.\<close>

definition pass_cb :: "int \<Rightarrow> mbt \<Rightarrow> callout_block" where
  "pass_cb now t = COT_ticks now (if mbt_need_conf_fetcher_trigger t
     then snd (callout_reset (mbt_cb t) 1 (CALLOUT_SECTOTICKS 3)) else mbt_cb t)"

lemma mbt_init_ok: "tasks_ok (mbt_cb (MBT_init now flag st))"
proof -
  have "wheel_ok (mbt_cb (MBT_init now flag st))" unfolding MBT_init_def Let_def
    by (simp, intro conjI impI callout_reset_ok callout_init_ok start_wheel) (simp_all add: COT_init_def)
  then show ?thesis
    by (auto simp: tasks_ok_def nothing_overdue_def MBT_init_def Let_def COT_init_def CALLOUT_SECTOTICKS_def less_Suc_eq numeral_eq_Suc)
qed

lemma pass_cb_ok:
  assumes ok: "tasks_ok (mbt_cb t)" and now: "cb_ticks (mbt_cb t) \<le> now"
  shows "wheel_ok (pass_cb now t)" "nothing_overdue (pass_cb now t)" "cb_ticks (pass_cb now t) = now"
    "\<And>c. c_pending (cb_co (pass_cb now t) c) \<longleftrightarrow> c_pending (cb_co (mbt_cb t) c)"
    "\<And>c. c_time (cb_co (pass_cb now t) c) =
       (if c = 1 \<and> mbt_need_conf_fetcher_trigger t then cb_ticks (mbt_cb t) + 300 else c_time (cb_co (mbt_cb t) c))"
proof -
  define cb where "cb = (if mbt_need_conf_fetcher_trigger t then snd (callout_reset (mbt_cb t) 1 (CALLOUT_SECTOTICKS 3)) else mbt_cb t)"
  have "wheel_ok cb" using ok by (simp add: cb_def tasks_ok_def callout_reset_ok)
  then show "wheel_ok (pass_cb now t)" unfolding pass_cb_def cb_def [symmetric] by (rule wheel_ok_cong [THEN iffD2, rotated -1]) (simp_all add: COT_ticks_def)
  have p1: "c_pending (cb_co (mbt_cb t) 1)" using ok by (simp add: tasks_ok_def)
  show "cb_ticks (pass_cb now t) = now" by (simp add: pass_cb_def COT_ticks_def)
  show pend: "c_pending (cb_co (pass_cb now t) c) \<longleftrightarrow> c_pending (cb_co (mbt_cb t) c)" for c
    using p1 by (simp add: pass_cb_def COT_ticks_def)
  show time: "c_time (cb_co (pass_cb now t) c) =
       (if c = 1 \<and> mbt_need_conf_fetcher_trigger t then cb_ticks (mbt_cb t) + 300 else c_time (cb_co (mbt_cb t) c))" for c
    by (simp add: pass_cb_def COT_ticks_def CALLOUT_SECTOTICKS_def)
  have "cb_softticks (pass_cb now t) = cb_softticks (mbt_cb t)" by (simp add: pass_cb_def COT_ticks_def)
  then show "nothing_overdue (pass_cb now t)" unfolding nothing_overdue_def pend time
    using ok now by (auto simp: tasks_ok_def nothing_overdue_def pass_cb_def COT_ticks_def)
qed

lemma mbt_run_clock:
  "mbt_run jl inp t = map_option (\<lambda>(cb, st). t\<lparr>mbt_cb := cb, mbt_need_conf_fetcher_trigger := False, mbt_data := st\<rparr>)
     (COT_clock (mbt_callback jl inp) (pass_cb (ti_now inp) t, mbt_data t))"
proof (cases "mbt_need_conf_fetcher_trigger t")
  case True
  then show ?thesis
    by (cases "COT_clock (mbt_callback jl inp) (pass_cb (ti_now inp) t, mbt_data t)")
      (simp_all add: mbt_run_def Let_def pass_cb_def split_beta)
next
  case False
  then show ?thesis
    by (cases t; cases "COT_clock (mbt_callback jl inp) (pass_cb (ti_now inp) t, mbt_data t)")
      (simp_all add: mbt_run_def Let_def pass_cb_def split_beta)
qed

lemma mbt_pass_run:
  "mbt_pass jl inp t = map_option (mbt_need_conf_fetcher_trigger_update (\<lambda>_. ti_mqtt_trigger inp)) (mbt_run jl inp t)"
proof (cases "mbt_run jl inp t")
  case (Some t1)
  then have "\<not> mbt_need_conf_fetcher_trigger t1" by (auto simp: mbt_run_clock)
  then show ?thesis using Some by (cases t1) (simp add: mbt_pass_def MBT_conf_fetcher_trigger_def)
qed (simp add: mbt_pass_def)

lemma mbt_pass_clock:
  "mbt_pass jl inp t = map_option (\<lambda>(cb, st). t\<lparr>mbt_cb := cb, mbt_need_conf_fetcher_trigger := ti_mqtt_trigger inp, mbt_data := st\<rparr>)
     (COT_clock (mbt_callback jl inp) (pass_cb (ti_now inp) t, mbt_data t))"
  by (cases "COT_clock (mbt_callback jl inp) (pass_cb (ti_now inp) t, mbt_data t)") (simp_all add: mbt_pass_run mbt_run_clock split_beta)

lemma mbt_period_le: "mbt_period inp c \<le> 60000"
  by (auto simp: mbt_period_def CALLOUT_SECTOTICKS_def fetch_interval_def split: option.splits)

lemma mbt_pass_runs:
  assumes ok: "tasks_ok (mbt_cb t)" and now: "cb_ticks (mbt_cb t) \<le> ti_now inp"
  shows "\<exists>cb'. mbt_pass jl inp t = map_option (\<lambda>st. t\<lparr>mbt_cb := cb', mbt_need_conf_fetcher_trigger := ti_mqtt_trigger inp, mbt_data := st\<rparr>)
      (effects (mbt_effect jl inp) (due_callouts (pass_cb (ti_now inp) t)) (mbt_data t)) \<and>
    tasks_ok cb' \<and> cb_ticks cb' = ti_now inp \<and> cb_co cb' = after (mbt_period inp) (pass_cb (ti_now inp) t) (due (pass_cb (ti_now inp) t))"
proof -
  let ?cb = "pass_cb (ti_now inp) t"
  note p = pass_cb_ok [OF ok now]
  obtain cb' where r: "\<And>s. COT_clock (mbt_callback jl inp) (?cb, s) = map_option (Pair cb') (effects (mbt_effect jl inp) (due_callouts ?cb) s)"
      "wheel_ok cb'" "nothing_overdue cb'" "cb_ticks cb' = cb_ticks ?cb" "cb_softticks cb' = cb_ticks ?cb" "cb_co cb' = after (mbt_period inp) ?cb (due ?cb)"
    using mbt.COT_clock_runs [OF p(1,2), of jl inp] by blast
  have "c_pending (cb_co cb' c) \<and> c_time (cb_co cb' c) \<le> cb_ticks cb' + 60000" if c: "c < 3" for c
  proof (cases "due ?cb c")
    case True
    then show ?thesis using mbt_period_le [of inp c] by (simp add: r(4,6) after_def)
  next
    case False
    have "c_pending (cb_co (mbt_cb t) c)" "c_time (cb_co (mbt_cb t) c) \<le> cb_ticks (mbt_cb t) + 60000" using ok c by (simp_all add: tasks_ok_def)
    then show ?thesis using False now unfolding r(4,6) after_def p(3) by (simp add: p(4,5))
  qed
  then have tk: "tasks_ok cb'" using r(2-5) by (simp add: tasks_ok_def)
  have ms: "mbt_pass jl inp t = map_option (\<lambda>st. t\<lparr>mbt_cb := cb', mbt_need_conf_fetcher_trigger := ti_mqtt_trigger inp, mbt_data := st\<rparr>)
      (effects (mbt_effect jl inp) (due_callouts ?cb) (mbt_data t))"
    unfolding mbt_pass_clock r(1) by (simp add: option.map_comp comp_def)
  show ?thesis by (rule exI [of _ cb'], intro conjI, rule ms, rule tk, simp only: r(4) p(3), rule r(6))
qed

lemma mbt_reach_ok: "mbt_reach jl t \<Longrightarrow> tasks_ok (mbt_cb t)"
proof (induction rule: mbt_reach.induct)
  case (pass t inp t')
  obtain cb' where m: "mbt_pass jl inp t = map_option (\<lambda>st. t\<lparr>mbt_cb := cb', mbt_need_conf_fetcher_trigger := ti_mqtt_trigger inp, mbt_data := st\<rparr>)
      (effects (mbt_effect jl inp) (due_callouts (pass_cb (ti_now inp) t)) (mbt_data t))" "tasks_ok cb'"
    using mbt_pass_runs [OF pass.IH pass.hyps(2)] by blast
  have "mbt_cb t' = cb'" using pass.hyps(3) unfolding m(1) by auto
  then show ?case using m(2) by simp
qed (simp_all add: mbt_init_ok MBT_conf_fetcher_trigger_def MBT_fini_def)


definition task_time :: "mbt \<Rightarrow> nat \<Rightarrow> int" where
  "task_time t c = (if c = 1 \<and> mbt_need_conf_fetcher_trigger t then cb_ticks (mbt_cb t) + CALLOUT_SECTOTICKS 3
     else c_time (cb_co (mbt_cb t) c))"

text \<open>
  C16: In every state of the thread of tasks, the clean-up, the fetch of the configuration and the STUN test are
  armed for at most ten minutes ahead, and a pass runs exactly the tasks that are due, each once, and arms each of
  them again for its period (for the fetch 600 seconds, or 30 or 60 after a failure); a trigger makes the fetch due
  three seconds after the last pass.
\<close>

theorem tasks_run_when_due:
  assumes "mbt_reach jl t" and "cb_ticks (mbt_cb t) \<le> ti_now inp"
  shows "(\<forall>c<3. c_pending (cb_co (mbt_cb t) c) \<and> task_time t c \<le> cb_ticks (mbt_cb t) + CALLOUT_SECTOTICKS 600) \<and>
    (\<exists>cs cb'. mbt_pass jl inp t =
        map_option (\<lambda>st. t\<lparr>mbt_cb := cb', mbt_need_conf_fetcher_trigger := ti_mqtt_trigger inp, mbt_data := st\<rparr>)
          (effects (mbt_effect jl inp) cs (mbt_data t)) \<and>
      distinct cs \<and> (\<forall>c. c \<in> set cs \<longleftrightarrow> c_pending (cb_co (mbt_cb t) c) \<and> task_time t c \<le> ti_now inp) \<and>
      (\<forall>c. c_time (cb_co cb' c) = (if c \<in> set cs then ti_now inp + mbt_period inp c else task_time t c)))"
proof -
  note ok = mbt_reach_ok [OF assms(1)]
  note p = pass_cb_ok [OF ok assms(2)]
  have time: "task_time t c = c_time (cb_co (pass_cb (ti_now inp) t) c)" for c by (simp add: task_time_def p(5) CALLOUT_SECTOTICKS_def)
  obtain cb' where r: "mbt_pass jl inp t = map_option (\<lambda>st. t\<lparr>mbt_cb := cb', mbt_need_conf_fetcher_trigger := ti_mqtt_trigger inp, mbt_data := st\<rparr>)
      (effects (mbt_effect jl inp) (due_callouts (pass_cb (ti_now inp) t)) (mbt_data t))"
      "cb_co cb' = after (mbt_period inp) (pass_cb (ti_now inp) t) (due (pass_cb (ti_now inp) t))"
    using mbt_pass_runs [OF ok assms(2), of jl] by metis
  note d = set_due_callouts [OF p(1,2)]
  have "\<forall>c<3. c_pending (cb_co (mbt_cb t) c) \<and> task_time t c \<le> cb_ticks (mbt_cb t) + CALLOUT_SECTOTICKS 600"
    using ok by (auto simp: tasks_ok_def task_time_def CALLOUT_SECTOTICKS_def)
  moreover have "c \<in> set (due_callouts (pass_cb (ti_now inp) t)) \<longleftrightarrow> c_pending (cb_co (mbt_cb t) c) \<and> task_time t c \<le> ti_now inp" for c
    by (simp add: d(2) due_def p(3,4) time)
  moreover have "c_time (cb_co cb' c) = (if c \<in> set (due_callouts (pass_cb (ti_now inp) t)) then ti_now inp + mbt_period inp c else task_time t c)" for c
    by (simp add: r(2) after_def d(2) p(3) time)
  ultimately show ?thesis using r(1) d(1) by metis
qed

section \<open>A new configuration\<close>

lemma map_of_upd_cnf: "map_of (cnf_head (upd_cnf p f s)) p = map_option f (map_of (cnf_head s) p)"
proof -
  have "map_of (map (\<lambda>(q, c). (q, if q = p then f c else c)) xs) p = map_option f (map_of xs p)" for xs
    by (induction xs) auto
  then show ?thesis by (simp add: upd_cnf_def)
qed

text \<open>Getting the active configuration and releasing it again.\<close>

lemma cnf_get_rel:
  assumes inv: "cnf_inv us cnfs" and p: "cnf_active cnfs = Some p" and c: "map_of (cnf_head cnfs) p = Some c"
  obtains s1 s2 where "CNF_get time cnfs = Some (0, Some p, s1)"
    "map_of (cnf_head s1) p = Some (c\<lparr>cnf_busy := cnf_busy c + 1, cnf_t_last := time\<rparr>)"
    "CNF_rel p s1 = Some s2" "cnf_inv us s2" "cnf_next s2 = cnf_next cnfs" "map fst (cnf_head s2) = map fst (cnf_head cnfs)"
proof -
  have "p \<in> fst ` set (cnf_head cnfs)" using inv p by (simp add: cnf_inv_def)
  then have b: "cnf_busy c = int (count_list us p)" by (rule map_of_cnf [OF inv]) (simp add: c)
  define s1 where "s1 = upd_cnf p (\<lambda>c. c\<lparr>cnf_busy := cnf_busy c + 1, cnf_t_last := time\<rparr>) cnfs"
  have g: "CNF_get time cnfs = Some (0, Some p, s1)" using p c b by (simp add: CNF_get_def s1_def)
  obtain us1 s1' where "cnf_step (Op_get time) us cnfs = Some (us1, s1')" "cnf_inv us1 s1'"
    using cnf_step_inv [OF inv, of "Op_get time"] by auto
  then have inv1: "cnf_inv (p # us) s1" using g by simp
  obtain us2 s2 where s2: "cnf_step (Op_rel 0) (p # us) s1 = Some (us2, s2)" "cnf_inv us2 s2"
    using cnf_step_inv [OF inv1, of "Op_rel 0"] by auto
  have rel: "CNF_rel p s1 = Some s2" "us2 = us" using s2(1) by (auto simp: bind_eq_Some_conv)
  then have "cnf_next s2 = cnf_next cnfs" "map fst (cnf_head s2) = map fst (cnf_head cnfs)"
    by (auto simp: CNF_rel_def bind_eq_Some_conv s1_def split: if_splits)
  then show ?thesis using that [OF g _ rel(1)] s2(2) rel(2) c by (simp add: s1_def map_of_upd_cnf)
qed

lemma fetch_etag_ok:
  assumes inv: "cnf_inv us cnfs"
    and tag: "\<And>cf c. cnf_active cnfs = Some cf \<Longrightarrow> map_of (cnf_head cnfs) cf = Some c \<Longrightarrow> cnf_get_etag (cnf_jroot c) \<noteq> None"
  obtains etag cnfs' where "fetch_etag time cnfs = Some (etag, cnfs')" "cnf_inv us cnfs'" "cnf_next cnfs' = cnf_next cnfs"
    "map fst (cnf_head cnfs') = map fst (cnf_head cnfs)"
proof (cases "cnf_active cnfs")
  case None
  then show ?thesis using that [of None cnfs] inv by (simp add: fetch_etag_def CNF_get_def)
next
  case (Some p)
  then have "p \<in> fst ` set (cnf_head cnfs)" using inv by (simp add: cnf_inv_def)
  then obtain c where c: "map_of (cnf_head cnfs) p = Some c" by (rule map_of_cnf [OF inv])
  obtain etag where e: "cnf_get_etag (cnf_jroot c) = Some etag" using tag [OF Some c] by blast
  obtain s1 s2 where g: "CNF_get time cnfs = Some (0, Some p, s1)"
      "map_of (cnf_head s1) p = Some (c\<lparr>cnf_busy := cnf_busy c + 1, cnf_t_last := time\<rparr>)"
      "CNF_rel p s1 = Some s2" "cnf_inv us s2" "cnf_next s2 = cnf_next cnfs" "map fst (cnf_head s2) = map fst (cnf_head cnfs)"
    by (rule cnf_get_rel [OF inv Some c, of time])
  show ?thesis using that [OF _ g(4-6), of etag] by (simp add: fetch_etag_def g(1-3) e)
qed

lemma json_object_get_set:
  "json_is_object j \<Longrightarrow> json_object_get (json_object_set j key v) k = (if k = key then Some v else json_object_get j k)"
proof (cases j)
  case (Json_object kvs)
  have "map_of (map (\<lambda>(k, u). (k, if k = key then v else u)) kvs) k =
      (if k = key then map_option (\<lambda>_. v) (map_of kvs key) else map_of kvs k)" for k
    by (induction kvs) auto
  then have "map_of (map (\<lambda>(k, u). (k, if k = key then v else u)) kvs) k = (if k = key then Some v else map_of kvs k)"
    if "key \<in> fst ` set kvs" using that map_of_eq_None_iff [of kvs key] by (auto simp del: not_None_eq)
  moreover have "map_of (kvs @ [(key, v)]) k = (if k = key then Some v else map_of kvs k)" if "key \<notin> fst ` set kvs"
    using that map_of_eq_None_iff [of kvs key] by (auto simp: map_add_def split: option.splits)
  ultimately show ?thesis using Json_object by (cases "k = key") auto
qed simp_all

lemma conf_fields_set:
  assumes "json_is_object j" and "key \<noteq> ''interface''" and "key \<noteq> ''peers''"
  shows "cnf_get_interface_nat_type_by_obj (json_object_set j key v) = cnf_get_interface_nat_type_by_obj j"
    "cnf_get_interface_remote_addr_by_obj (json_object_set j key v) = cnf_get_interface_remote_addr_by_obj j"
    "CNF_get_peer_size (json_object_set j key v) = CNF_get_peer_size j" "json_is_object (json_object_set j key v)"
proof -
  show "json_is_object (json_object_set j key v)" using assms(1) by (cases j) simp_all
qed (use assms in \<open>simp_all add: cnf_get_interface_nat_type_by_obj_def cnf_get_interface_remote_addr_by_obj_def CNF_get_peer_size_def
    object_member_def array_member_def member_such_def json_object_get_set\<close>)

text \<open>What a request needs: an enrollment with a token that fits in the buffer, a result of the STUN client, the
  addresses of the host, and configurations in order.\<close>

definition fetch_ready :: "fetch_input \<Rightarrow> 'a fetch_state_scheme \<Rightarrow> bool" where
  "fetch_ready inp st \<longleftrightarrow>
     (\<exists>j jwt. fs_mbe_jroot st = Some j \<and> member_such json_is_string j ''jwt'' = Some jwt \<and> json_string_length jwt \<le> 932) \<and>
     stunc_result_inited (fs_stunc st) \<and> fi_ifaddrs inp \<noteq> None \<and> (\<exists>us. cnf_inv us (fs_cnfs st)) \<and>
     (\<forall>cf c. cnf_active (fs_cnfs st) = Some cf \<longrightarrow> map_of (cnf_head (fs_cnfs st)) cf = Some c \<longrightarrow> cnf_get_etag (cnf_jroot c) \<noteq> None)"

lemma fetch_headers_fit: "length jwt \<le> 932 \<Longrightarrow> cnf_fetch_hdrs jwt etag \<noteq> None"
  by (auto simp: cnf_fetch_hdrs_def fetch_headers_def crlf_def Let_def split: option.splits)

lemma fetch_request_sent:
  assumes "fetch_ready inp st"
  obtains cnfs req us where "fetch_request jl ft inp st = Some (st\<lparr>fs_cnfs := cnfs, fs_requests := fs_requests st @ [req]\<rparr>)"
    "cnf_inv us cnfs" "cnf_next cnfs = cnf_next (fs_cnfs st)" "map fst (cnf_head cnfs) = map fst (cnf_head (fs_cnfs st))"
proof -
  obtain j jwt us where r: "fs_mbe_jroot st = Some j" "member_such json_is_string j ''jwt'' = Some jwt" "json_string_length jwt \<le> 932"
      "stunc_result_inited (fs_stunc st)" "cnf_inv us (fs_cnfs st)"
      "\<And>cf c. cnf_active (fs_cnfs st) = Some cf \<Longrightarrow> map_of (cnf_head (fs_cnfs st)) cf = Some c \<Longrightarrow> cnf_get_etag (cnf_jroot c) \<noteq> None"
    using assms unfolding fetch_ready_def by blast
  obtain ifas where ifas: "fi_ifaddrs inp = Some ifas" using assms by (auto simp: fetch_ready_def)
  obtain etag cnfs where e: "fetch_etag (fi_time inp) (fs_cnfs st) = Some (etag, cnfs)" "cnf_inv us cnfs" "cnf_next cnfs = cnf_next (fs_cnfs st)"
      "map fst (cnf_head cnfs) = map fst (cnf_head (fs_cnfs st))"
    by (rule fetch_etag_ok [OF r(5,6), where time = "fi_time inp"])
  obtain hdrs where h: "cnf_fetch_hdrs (json_string_value jwt) etag = Some hdrs"
    using fetch_headers_fit [of "json_string_value jwt" etag] r(3) by (auto simp: json_string_length_def)
  show ?thesis using that [OF _ e(2-4)] by (simp add: fetch_request_def fetch_make_def r(1,2,4) e(1) h STUNC_get_mappped_addr_def cnf_getifaddrs_def ifas Let_def)
qed

text \<open>
  When the server answers with a configuration for the NAT type and the address that the STUN client found, and the file
  can be written and gives back what was written, the fetch stores it with its tag, makes it the active one without
  releasing another one, asks the tunnel for a synchronisation and comes again in ten minutes; the tag is the one of the next request.
\<close>

lemma new_configuration_applied:
  fixes inp :: task_input and st :: mbt_state
  assumes "fetch_ready (ti_fetch inp) st"
    and "fi_post (ti_fetch inp) = Some (200, tag, len, Some answer)" and "len < 1024 * 1024" and "fi_write_ok (ti_fetch inp)"
    and "integer_member answer ''status'' = Some 200" and "object_member answer ''conf'' = Some jconf" and "tag \<noteq> []"
    and "cnf_get_interface_nat_type_by_obj jconf = Some (nattype_code (STUNC_get_nattype (fs_stunc st)))"
    and "cnf_get_interface_remote_addr_by_obj jconf = STUNC_get_mappped_addr (fs_stunc st)"
    and "CNF_get_peer_size jconf = Some n" and "n \<noteq> 0" and "json_string tag = Some (Json_string tag)"
    and "reload jl (json_object_set jconf ''etag'' (Json_string tag)) = Some (json_object_set jconf ''etag'' (Json_string tag))"
  shows "\<exists>st' conf cf c. mbt_conf_fetcher jl inp st = Some (600, st') \<and> conf = json_object_set jconf ''etag'' (Json_string tag) \<and>
    fs_conf_file st' = Some (jl_dumps jl conf) \<and> mbt_need_iface_sync st' \<and> \<not> fs_mfa_required st' \<and>
    cnf_active (fs_cnfs st') = Some cf \<and> map_of (cnf_head (fs_cnfs st')) cf = Some c \<and> cnf_jroot c = conf \<and>
    fst ` set (cnf_head (fs_cnfs st')) = insert cf (fst ` set (cnf_head (fs_cnfs st))) \<and>
    fs_mbe_jroot st' = fs_mbe_jroot st \<and> fs_stunc st' = fs_stunc st \<and>
    (\<forall>time. \<exists>cnfs'. fetch_etag time (fs_cnfs st') = Some (Some tag, cnfs'))"
proof -
  let ?st = "fs_stunc st" and ?conf = "json_object_set jconf ''etag'' (Json_string tag)" and ?time = "fi_time (ti_fetch inp)"
  have obj: "json_is_object jconf" using assms(6) by (auto simp: object_member_def member_such_def bind_eq_Some_conv split: if_splits)
  note conf = conf_fields_set [OF obj, of "''etag''" "Json_string tag", simplified]
  obtain cnfs req us where r: "fetch_request jl ''when_it_gots_a_event'' (ti_fetch inp) st =
      Some (st\<lparr>fs_cnfs := cnfs, fs_requests := fs_requests st @ [req]\<rparr>)"
      "cnf_inv us cnfs" "cnf_next cnfs = cnf_next (fs_cnfs st)" "map fst (cnf_head cnfs) = map fst (cnf_head (fs_cnfs st))"
    by (rule fetch_request_sent [OF assms(1), where jl = jl and ft = "''when_it_gots_a_event''"])
  define st1 where "st1 = st\<lparr>fs_cnfs := cnfs, fs_requests := fs_requests st @ [req], fs_conf_file := Some (jl_dumps jl ?conf), fs_mfa_required := False\<rparr>"
  have ans: "cnf_fetch_answer 200 tag (Some answer) = Some \<lparr>fr_return = 0, fr_written = Some ?conf, fr_mfa_required = Some False, fr_mfa_url = None\<rparr>"
    using assms(5-7,12) by (simp add: cnf_fetch_answer_def json_object_set_new_def)
  have f: "CNF_fetch jl ''when_it_gots_a_event'' (ti_fetch inp) st = Some (0, st1)"
    using assms(2-4) by (simp add: CNF_fetch_def r(1) fetch_receive_def ans apply_answer_def st1_def)
  obtain mapped where m: "STUNC_get_mappped_addr ?st = Some mapped"
    using assms(1) by (auto simp: fetch_ready_def STUNC_get_mappped_addr_def)
  define cf where "cf = cnf_next cnfs"
  define c where "c = \<lparr>cnf_jroot = ?conf, cnf_busy = 0, cnf_t_last = ?time\<rparr>"
  define cnfs1 where "cnfs1 = \<lparr>cnf_head = cnf_head cnfs @ [(cf, c)], cnf_active = Some cf, cnf_next = cf + 1\<rparr>"
  have cr: "check_and_read jl ?time st1 = Some (0, st1\<lparr>fs_cnfs := cnfs1\<rparr>)"
    using assms(8-11,13) m by (simp add: check_and_read_def reload_def st1_def CNF_check_and_read_def conf cnfs1_def cf_def c_def Let_def)
  have fresh: "cf \<notin> fst ` set (cnf_head cnfs)" using r(2) by (auto simp: cnf_inv_def cf_def)
  then have mo: "map_of (cnf_head cnfs1) cf = Some c"
    by (auto simp: cnfs1_def map_add_def map_of_eq_None_iff [symmetric] split: option.splits)
  have dom: "fst ` set (cnf_head cnfs1) = insert cf (fst ` set (cnf_head (fs_cnfs st)))"
    using r(4) by (simp add: cnfs1_def flip: set_map)
  have "cnf_get_etag ?conf = Some (Some tag)"
    using assms(7) by (simp add: cnf_get_etag_def json_object_get_set [OF obj] json_string_length_def)
  moreover have "cnf_active cnfs1 = Some cf" "cnf_busy c = 0" "cnf_jroot c = ?conf" by (simp_all add: cnfs1_def c_def)
  ultimately have tag: "\<exists>cnfs'. fetch_etag time cnfs1 = Some (Some tag, cnfs')" for time
    using mo by (simp add: fetch_etag_def CNF_get_def CNF_rel_def map_of_upd_cnf)
  then show ?thesis using mo dom tag
    by (intro exI [of _ "st1\<lparr>fs_cnfs := cnfs1, mbt_need_iface_sync := True\<rparr>"] exI [of _ ?conf] exI [of _ cf] exI [of _ c])
      (simp add: mbt_conf_fetcher_def f cr, simp add: st1_def cnfs1_def c_def)
qed


definition fetched_conf :: json where
  "fetched_conf = Json_object [(''interface'', Json_object [(''nat_type'', Json_integer 4), (''remote_addr'', Json_string ''1.2.3.4'')]),
     (''peers'', Json_array [Json_null])]"

definition stat_zero :: wireguard_iface_stat where
  "stat_zero = \<lparr>n_no_peer_found = 0, n_no_ipv4_hdr = 0, n_nobufs = 0, n_tun_rx_pkts = 0, n_tun_tx_pkts = 0, n_udp_rx_pkts = 0, n_udp_tx_pkts = 0,
     n_udp_tx_errs = 0, n_udp_proxy_rx_pkts = 0, n_udp_proxy_tx_pkts = 0, n_udp_proxy_rx_errs = 0, bytes_tun_rx = 0, bytes_tun_tx = 0,
     bytes_udp_rx = 0, bytes_udp_tx = 0, bytes_udp_proxy_rx = 0, bytes_udp_proxy_tx = 0\<rparr>"

definition json_demo :: json_lib where "json_demo = \<lparr>jl_dumps = (\<lambda>j. []), jl_loads = (\<lambda>s. None)\<rparr>"

definition task_demo :: task_input where
  "task_demo = \<lparr>ti_fetch = \<lparr>fi_time = 1000, fi_ifaddrs = Some [], fi_listen_port = 51820,
       fi_post = Some (200, ''t1'', 300, Some (Json_object [(''status'', Json_integer 200), (''conf'', fetched_conf)])), fi_write_ok = True\<rparr>,
     ti_os = nat_os cone_demo, ti_snapshot = None, ti_band_uuid = None, ti_stat = stat_zero, ti_now = 300, ti_mqtt_trigger = False\<rparr>"

definition mbt_demo :: mbt_state where
  "mbt_demo = \<lparr>fs_mbe_jroot = Some (Json_object [(''jwt'', Json_string ''secret'')]), fs_cnfs = cnf_empty,
     fs_stunc = \<lparr>stunc_nattype = STUN_NATTYPE_FULL_CONE, stunc_mapped_addr = 0x04030201, stunc_result_inited = True\<rparr>,
     fs_conf_file = None, fs_mfa_required = True, fs_mfa_url = [], fs_requests = [], mbt_stun_env = env_demo,
     mbt_need_iface_sync = False, mbt_peer_snapshots = [], mbt_status_file = None\<rparr>"

lemma demo_addr: "inet_ntoa 0x04030201 = ''1.2.3.4''" "inet_pton ''1.2.3.4'' = Some 0x04030201"
  by code_simp+

lemma demo_ready: "fetch_ready (ti_fetch task_demo) mbt_demo"
  by (auto simp: fetch_ready_def task_demo_def mbt_demo_def member_such_def json_string_length_def cnf_empty_def cnf_inv_def)

definition answer_demo :: json where
  "answer_demo = Json_object [(''status'', Json_integer 200), (''conf'', fetched_conf)]"

lemma answer_demo_fields:
  "integer_member answer_demo ''status'' = Some 200" "object_member answer_demo ''conf'' = Some fetched_conf"
  "cnf_get_interface_nat_type_by_obj fetched_conf = Some (nattype_code (STUNC_get_nattype (fs_stunc mbt_demo)))"
  "cnf_get_interface_remote_addr_by_obj fetched_conf = STUNC_get_mappped_addr (fs_stunc mbt_demo)" "CNF_get_peer_size fetched_conf = Some 1"
  by (simp_all add: answer_demo_def integer_member_def object_member_def string_member_def member_such_def array_member_def fetched_conf_def
      cnf_get_interface_nat_type_by_obj_def cnf_get_interface_remote_addr_by_obj_def CNF_get_peer_size_def STUNC_get_nattype_def
      STUNC_get_mappped_addr_def mbt_demo_def int_cast_def json_string_length_def cnf_ipv4_verify_def demo_addr)

theorem tasks_run_when_due_witness:
  "\<exists>cs cb'. mbt_reach json_demo (MBT_conf_fetcher_trigger (MBT_init 0 False mbt_demo)) \<and> 1 \<in> set cs \<and> distinct cs \<and>
     mbt_pass json_demo task_demo (MBT_conf_fetcher_trigger (MBT_init 0 False mbt_demo)) =
       map_option (\<lambda>st. (MBT_init 0 False mbt_demo)\<lparr>mbt_cb := cb', mbt_need_conf_fetcher_trigger := False, mbt_data := st\<rparr>) (effects (mbt_effect json_demo task_demo) cs mbt_demo)"
proof -
  let ?t = "MBT_conf_fetcher_trigger (MBT_init 0 False mbt_demo)"
  have r: "mbt_reach json_demo ?t" by (intro mbt_reach.trigger mbt_reach.init)
  have t: "cb_ticks (mbt_cb ?t) = 0" "mbt_need_conf_fetcher_trigger ?t" "mbt_data ?t = mbt_demo" "c_pending (cb_co (mbt_cb ?t) 1)"
    by (simp_all add: MBT_conf_fetcher_trigger_def MBT_init_def Let_def COT_init_def)
  have n: "ti_now task_demo = 300" "\<not> ti_mqtt_trigger task_demo" by (simp_all add: task_demo_def)
  then have d: "task_time ?t 1 \<le> ti_now task_demo" using t by (simp add: task_time_def CALLOUT_SECTOTICKS_def)
  obtain cs cb' where c: "mbt_pass json_demo task_demo ?t =
        map_option (\<lambda>st. ?t\<lparr>mbt_cb := cb', mbt_need_conf_fetcher_trigger := ti_mqtt_trigger task_demo, mbt_data := st\<rparr>)
          (effects (mbt_effect json_demo task_demo) cs (mbt_data ?t))" "distinct cs"
      "\<And>c. c \<in> set cs \<longleftrightarrow> c_pending (cb_co (mbt_cb ?t) c) \<and> task_time ?t c \<le> ti_now task_demo"
    using tasks_run_when_due [OF r, of task_demo] t(1) n(1) by auto
  have "1 \<in> set cs" unfolding c(3) using d t(4) by blast
  then show ?thesis using c(1,2) r n(2) t(3) by (intro exI [of _ cs] exI [of _ cb']) (simp add: MBT_conf_fetcher_trigger_def)
qed

section \<open>Without a result of the STUN client\<close>

text \<open>
  In a network that does not answer the STUN client (UDP is blocked), \<open>STUNC_init\<close> succeeds without a result, and
  the fetch of the configuration that follows at the start and in every task fails the assertion on the mapped address:
  the program ends.
\<close>

theorem blocked_network_ends_program:
  fixes st :: "'a fetch_state_scheme"
  assumes "nat_world b os" and "\<not> nb_reachable b" and "\<not> stunc_result_inited r"
  shows "\<exists>e'. STUNC_init os r e = Some (0, r, e') \<and> CNF_fetch jl ft inp (st\<lparr>fs_stunc := r\<rparr>) = None"
proof -
  obtain sc e1 where p: "stun_client_perform os sc_start e = Some (sc, e1)" "stun_client_get_mapped_addr sc = addr4_zero"
    using perform_verdict [OF assms(1), of e] assms(2) by auto
  then have "STUNC_init os r e = Some (0, r, e1)"
    by (simp add: STUNC_init_def STUNC_test_def stunc_test_loop_def addr4_zero_def Let_def)
  moreover have "fetch_request jl ft inp (st\<lparr>fs_stunc := r\<rparr>) = None"
    using assms(3) by (auto simp: fetch_request_def fetch_make_def STUNC_get_mappped_addr_def bind_eq_None_conv split: prod.splits)
  ultimately show ?thesis by (simp add: CNF_fetch_def)
qed

definition blocked_demo :: nat_behaviour where "blocked_demo = cone_demo\<lparr>nb_reachable := False\<rparr>"

theorem blocked_network_ends_program_witness:
  "nat_world blocked_demo (nat_os blocked_demo) \<and> \<not> nb_reachable blocked_demo \<and> \<not> stunc_result_inited unknown_demo \<and>
   (\<exists>e'. STUNC_init (nat_os blocked_demo) unknown_demo env_demo = Some (0, unknown_demo, e')) \<and>
   CNF_fetch json_demo ''when_it_runs_first'' (ti_fetch task_demo) (mbt_demo\<lparr>fs_stunc := unknown_demo\<rparr>) = None"
proof -
  have "nat_world blocked_demo (nat_os blocked_demo)" by (rule nat_os_world) (simp_all add: blocked_demo_def cone_demo_def)
  moreover have "\<not> nb_reachable blocked_demo" "\<not> stunc_result_inited unknown_demo" by (simp_all add: blocked_demo_def unknown_demo_def)
  ultimately show ?thesis
    using blocked_network_ends_program [of blocked_demo "nat_os blocked_demo" unknown_demo env_demo json_demo "''when_it_runs_first''" "ti_fetch task_demo" mbt_demo]
    by blast
qed

text \<open>A token of more than 932 characters does not fit with the other headers in the buffer of 1024 bytes; with a tag to
  add, the pointer for it lies behind the buffer and the size that is left wraps around.\<close>

lemma long_token_overflows: "length jwt > 932 \<Longrightarrow> cnf_fetch_hdrs jwt (Some tag) = None"
  by (simp add: cnf_fetch_hdrs_def fetch_headers_def crlf_def)

end
