(* ===== verification/Mqtt_Client.thy ===== *)
theory Mqtt_Client
  imports Mqtt_Queue Tasks
begin

text \<open>
  The MQTT client (\<open>linux/mudband_mqtt.c\<close>) that learns of new configurations. The results of \<open>recv\<close> and \<open>send\<close> on its
  socket are lists, one entry for each call; the clock stands still during a call of \<open>mqtt_sync\<close>. The callbacks of the
  client are those that \<open>mqtt_init\<close> sets. The average response time, a number that nothing reads, is left out.
  \<open>loadb\<close> is \<open>json_loadb\<close> of the JSON library. \<open>None\<close> is a failed assertion, the use of a pointer that is \<open>NULL\<close> or an
  access outside of a buffer.
\<close>

section \<open>The socket\<close>

text \<open>\<open>Recv bs\<close> are the bytes that are there, none when the peer has closed the connection; what does not fit the
  buffer stays. No entry: nothing is there yet.\<close>

datatype recv_event = Recv bytes | Recv_again | Recv_failed

fun mqtt_pal_recvall :: "recv_event list \<Rightarrow> nat \<Rightarrow> mqtt_error \<times> bytes \<times> recv_event list" where
  "mqtt_pal_recvall [] bufsz = (MQTT_ZERO, [], [])"
| "mqtt_pal_recvall (Recv_again # evs) bufsz = (MQTT_ZERO, [], evs)"
| "mqtt_pal_recvall (Recv_failed # evs) bufsz = (MQTT_ERROR_SOCKET_ERROR, [], evs)"
| "mqtt_pal_recvall (Recv bs # evs) bufsz =
     (if bs = [] \<or> bufsz = 0 then (MQTT_ERROR_SOCKET_ERROR, [], Recv bs # evs)
      else if length bs > bufsz then (MQTT_ZERO, take bufsz bs, Recv (drop bufsz bs) # evs)
      else if length bs = bufsz then (MQTT_ZERO, bs, evs)
      else let (err, got, evs) = mqtt_pal_recvall evs (bufsz - length bs) in (err, bs @ got, evs))"

text \<open>\<open>Sent n\<close>: the system takes up to \<open>n\<close> bytes. No entry: it takes all.\<close>

datatype send_event = Sent nat | Send_again | Send_failed

fun mqtt_pal_sendall :: "send_event list \<Rightarrow> nat \<Rightarrow> mqtt_error \<times> nat \<times> send_event list" where
  "mqtt_pal_sendall [] len = (MQTT_ZERO, len, [])"
| "mqtt_pal_sendall (ev # evs) len =
     (if len = 0 then (MQTT_ZERO, 0, ev # evs)
      else case ev of
        Send_again \<Rightarrow> (MQTT_ZERO, 0, evs)
      | Send_failed \<Rightarrow> (MQTT_ERROR_SOCKET_ERROR, 0, evs)
      | Sent n \<Rightarrow>
          if n = 0 then (MQTT_ERROR_SOCKET_ERROR, 0, evs)
          else if n \<ge> len then (MQTT_ZERO, len, evs)
          else let (err, sent, evs) = mqtt_pal_sendall evs (len - n) in (err, n + sent, evs))"

text \<open>For each address the descriptor of \<open>socket\<close> and whether \<open>connect\<close> succeeds; \<open>None\<close> when \<open>getaddrinfo\<close> fails.\<close>

fun connect_first :: "(int \<times> bool) list \<Rightarrow> int" where
  "connect_first [] = -1"
| "connect_first ((fd, ok) # ps) = (if fd = -1 \<or> \<not> ok then connect_first ps else fd)"

definition mqtt_open_sock :: "(int \<times> bool) list option \<Rightarrow> int" where
  "mqtt_open_sock addrs = (case addrs of None \<Rightarrow> -1 | Some ps \<Rightarrow> connect_first ps)"

section \<open>The client\<close>

text \<open>\<open>mc_recv\<close> is the size of the receive buffer and the bytes in it; it and the queue are \<open>None\<close> while their pointers are
  \<open>NULL\<close>.\<close>

record mqtt_client =
  mc_pid_lfsr :: u16
  mc_keep_alive :: u16
  mc_send_offset :: nat
  mc_time_of_last_send :: int
  mc_error :: mqtt_error
  mc_response_timeout :: int
  mc_number_of_timeouts :: int
  mc_recv :: "(nat \<times> bytes) option"
  mc_mq :: "mqtt_message_queue option"

definition mqtt_client_zero :: mqtt_client where
  "mqtt_client_zero = \<lparr>mc_pid_lfsr = 0, mc_keep_alive = 0, mc_send_offset = 0, mc_time_of_last_send = 0, mc_error = MQTT_ZERO,
     mc_response_timeout = 0, mc_number_of_timeouts = 0, mc_recv = None, mc_mq = None\<rparr>"

definition mqtt_init :: "bytes \<Rightarrow> nat \<Rightarrow> mqtt_client \<Rightarrow> mqtt_client" where
  "mqtt_init sendbuf recvbufsz c = c\<lparr>mc_mq := Some (mqtt_mq_init sendbuf), mc_recv := Some (recvbufsz, []),
     mc_error := MQTT_ERROR_CONNECT_NOT_CALLED, mc_response_timeout := 30, mc_number_of_timeouts := 0, mc_pid_lfsr := 0, mc_send_offset := 0\<rparr>"

definition mqtt_client_try_pack :: "(nat \<Rightarrow> packed) \<Rightarrow> mqtt_queued_message \<Rightarrow> mqtt_client \<Rightarrow> (mqtt_error \<times> mqtt_client) option" where
  "mqtt_client_try_pack pack old c =
     (if negative (mc_error c) then Some (mc_error c, c)
      else do {
        mq \<leftarrow> mc_mq c;
        Some (case mq_try_pack pack old mq of
            (Some err, mq) \<Rightarrow> (err, c\<lparr>mc_error := err, mc_mq := Some mq\<rparr>)
          | (None, mq) \<Rightarrow> (MQTT_OK, c\<lparr>mc_mq := Some mq\<rparr>)) })"

definition mqtt_connect :: "mqtt_queued_message \<Rightarrow> bytes \<Rightarrow> bytes option \<Rightarrow> bytes option \<Rightarrow> bytes option \<Rightarrow> bytes option \<Rightarrow>
    u8 \<Rightarrow> u16 \<Rightarrow> mqtt_client \<Rightarrow> (mqtt_error \<times> mqtt_client) option" where
  "mqtt_connect old client_id will_topic will_message user_name password connect_flags keep_alive c =
     (let c = c\<lparr>mc_keep_alive := keep_alive\<rparr>;
          c = (if mc_error c = MQTT_ERROR_CONNECT_NOT_CALLED then c\<lparr>mc_error := MQTT_OK\<rparr> else c)
      in mqtt_client_try_pack (\<lambda>n. mqtt_pack_connection_request n client_id will_topic will_message user_name password connect_flags keep_alive)
           (old\<lparr>qm_control_type := MQTT_CONTROL_CONNECT\<rparr>) c)"

text \<open>The packet ids come from a shift register; the loop skips those of the messages in the queue. Its result is
  \<open>None\<close> when it does not end.\<close>

definition lfsr_step :: "u16 \<Rightarrow> u16" where
  "lfsr_step x = (if x AND 1 \<noteq> 0 then drop_bit 1 x XOR 0xB400 else drop_bit 1 x)"

partial_function (option) pid_loop :: "mqtt_queued_message list \<Rightarrow> u16 \<Rightarrow> u16 option" where
  "pid_loop ms x = (let x = lfsr_step x in if x \<in> qm_packet_id ` set ms then pid_loop ms x else Some x)"

definition mqtt_next_pid :: "mqtt_client \<Rightarrow> (u16 \<times> mqtt_client) option" where
  "mqtt_next_pid c = do {
     mq \<leftarrow> mc_mq c;
     x \<leftarrow> pid_loop (mq_msgs mq) (if mc_pid_lfsr c = 0 then 163 else mc_pid_lfsr c);
     Some (x, c\<lparr>mc_pid_lfsr := x\<rparr>) }"

definition mqtt_subscribe :: "mqtt_queued_message \<Rightarrow> bytes \<Rightarrow> u8 \<Rightarrow> mqtt_client \<Rightarrow> (mqtt_error \<times> mqtt_client) option" where
  "mqtt_subscribe old topic_name max_qos_level c = do {
     (packet_id, c) \<leftarrow> mqtt_next_pid c;
     mqtt_client_try_pack (\<lambda>n. mqtt_pack_subscribe_request n packet_id [(topic_name, max_qos_level)])
       (old\<lparr>qm_control_type := MQTT_CONTROL_SUBSCRIBE, qm_packet_id := packet_id\<rparr>) c }"

text \<open>\<open>mqtt_puback\<close>, \<open>mqtt_pubrec\<close>, \<open>mqtt_pubrel\<close> and \<open>mqtt_pubcomp\<close> differ in the control type.\<close>

definition queue_pubxxx :: "control_type \<Rightarrow> mqtt_queued_message \<Rightarrow> u16 \<Rightarrow> mqtt_client \<Rightarrow> (mqtt_error \<times> mqtt_client) option" where
  "queue_pubxxx ctype old packet_id = mqtt_client_try_pack (\<lambda>n. mqtt_pack_pubxxx_request n ctype packet_id)
     (old\<lparr>qm_control_type := ctype, qm_packet_id := packet_id\<rparr>)"

definition mqtt_puback :: "mqtt_queued_message \<Rightarrow> u16 \<Rightarrow> mqtt_client \<Rightarrow> (mqtt_error \<times> mqtt_client) option" where
  "mqtt_puback = queue_pubxxx MQTT_CONTROL_PUBACK"

definition mqtt_pubrec :: "mqtt_queued_message \<Rightarrow> u16 \<Rightarrow> mqtt_client \<Rightarrow> (mqtt_error \<times> mqtt_client) option" where
  "mqtt_pubrec = queue_pubxxx MQTT_CONTROL_PUBREC"

definition mqtt_pubrel :: "mqtt_queued_message \<Rightarrow> u16 \<Rightarrow> mqtt_client \<Rightarrow> (mqtt_error \<times> mqtt_client) option" where
  "mqtt_pubrel = queue_pubxxx MQTT_CONTROL_PUBREL"

definition mqtt_pubcomp :: "mqtt_queued_message \<Rightarrow> u16 \<Rightarrow> mqtt_client \<Rightarrow> (mqtt_error \<times> mqtt_client) option" where
  "mqtt_pubcomp = queue_pubxxx MQTT_CONTROL_PUBCOMP"


definition mqtt_ping :: "mqtt_queued_message \<Rightarrow> mqtt_client \<Rightarrow> (mqtt_error \<times> mqtt_client) option" where
  "mqtt_ping old = mqtt_client_try_pack mqtt_pack_ping_request (old\<lparr>qm_control_type := MQTT_CONTROL_PINGREQ\<rparr>)"

section \<open>Receiving\<close>

text \<open>Whether the message asks for the configuration.\<close>

definition mqtt_publish_callback :: "(bytes \<Rightarrow> json option) \<Rightarrow> bytes \<Rightarrow> bool option" where
  "mqtt_publish_callback loadb application_message = (case loadb application_message of
       None \<Rightarrow> Some False
     | Some jroot \<Rightarrow>
         if json_is_object jroot then do {
           jevent \<leftarrow> json_object_get jroot ''event'';
           if json_is_string jevent then Some (json_string_value jevent = ''conf'') else None }
         else None)"

text \<open>The message that a response answers is complete.\<close>

definition set_state :: "nat \<Rightarrow> mqtt_queued_message_state \<Rightarrow> mqtt_message_queue \<Rightarrow> mqtt_message_queue" where
  "set_state i st mq = mq\<lparr>mq_msgs := (mq_msgs mq)[i := (mq_msgs mq ! i)\<lparr>qm_state := st\<rparr>]\<rparr>"

definition release_message :: "control_type \<Rightarrow> u16 option \<Rightarrow> mqtt_client \<Rightarrow> (mqtt_error \<times> mqtt_client) option" where
  "release_message ctype packet_id c = do {
     mq \<leftarrow> mc_mq c;
     Some (case mqtt_mq_find mq ctype packet_id of
         None \<Rightarrow> (MQTT_ERROR_ACK_OF_UNKNOWN, c\<lparr>mc_error := MQTT_ERROR_ACK_OF_UNKNOWN\<rparr>)
       | Some i \<Rightarrow> (MQTT_OK, c\<lparr>mc_mq := Some (set_state i MQTT_QUEUED_COMPLETE mq)\<rparr>)) }"

text \<open>What follows a step that succeeded.\<close>

definition and_then :: "(mqtt_error \<times> mqtt_client) option \<Rightarrow> (mqtt_client \<Rightarrow> (mqtt_error \<times> mqtt_client) option) \<Rightarrow> (mqtt_error \<times> mqtt_client) option" where
  "and_then r f = do { (ret, c) \<leftarrow> r; if ret = MQTT_OK then f c else Some (ret, c\<lparr>mc_error := ret\<rparr>) }"

definition fail_with :: "mqtt_error \<Rightarrow> mqtt_client \<Rightarrow> (mqtt_error \<times> mqtt_client) option" where
  "fail_with err c = Some (err, c\<lparr>mc_error := err\<rparr>)"

definition already_queued :: "control_type \<Rightarrow> u16 \<Rightarrow> mqtt_client \<Rightarrow> bool option" where
  "already_queued ctype packet_id c = do { mq \<leftarrow> mc_mq c; Some (mqtt_mq_find mq ctype (Some packet_id) \<noteq> None) }"

text \<open>The responses to what the client sent.\<close>

fun handle_ack :: "mqtt_queued_message \<Rightarrow> mqtt_response \<Rightarrow> mqtt_client \<Rightarrow> (mqtt_error \<times> mqtt_client) option" where
  "handle_ack old (Connack flags code) c = and_then (release_message MQTT_CONTROL_CONNECT None c)
     (\<lambda>c. if code = 0 then Some (MQTT_OK, c)
          else if code = 2 then fail_with MQTT_ERROR_CONNECT_CLIENT_ID_REFUSED c
          else fail_with MQTT_ERROR_CONNECTION_REFUSED c)"
| "handle_ack old (Puback packet_id) c = release_message MQTT_CONTROL_PUBLISH (Some packet_id) c"
| "handle_ack old (Pubrec packet_id) c = do {
     dup \<leftarrow> already_queued MQTT_CONTROL_PUBREL packet_id c;
     if dup then Some (MQTT_OK, c)
     else and_then (and_then (release_message MQTT_CONTROL_PUBLISH (Some packet_id) c) (mqtt_pubrel old packet_id)) (\<lambda>c. Some (MQTT_OK, c)) }"
| "handle_ack old (Pubrel packet_id) c =
     and_then (and_then (release_message MQTT_CONTROL_PUBREC (Some packet_id) c) (mqtt_pubcomp old packet_id)) (\<lambda>c. Some (MQTT_OK, c))"
| "handle_ack old (Pubcomp packet_id) c = release_message MQTT_CONTROL_PUBREL (Some packet_id) c"
| "handle_ack old (Suback packet_id return_codes) c = and_then (release_message MQTT_CONTROL_SUBSCRIBE (Some packet_id) c)
     (\<lambda>c. if return_codes ! 0 = 128 then fail_with MQTT_ERROR_SUBSCRIBE_FAILED c else Some (MQTT_OK, c))"
| "handle_ack old (Unsuback packet_id) c = release_message MQTT_CONTROL_UNSUBSCRIBE (Some packet_id) c"
| "handle_ack old Pingresp c = release_message MQTT_CONTROL_PINGREQ None c"
| "handle_ack old (Publish dup qos retain topic packet_id msg) c = Some (MQTT_OK, c)"

text \<open>A published message is acknowledged as its quality of service demands and handed to the callback.\<close>

definition handle_publish :: "(bytes \<Rightarrow> json option) \<Rightarrow> mqtt_queued_message \<Rightarrow> u8 \<Rightarrow> u16 \<Rightarrow> bytes \<Rightarrow> mqtt_client \<Rightarrow>
    (mqtt_error \<times> mqtt_client \<times> bool) option" where
  "handle_publish loadb old qos packet_id msg c = do {
     dup \<leftarrow> (if qos = 2 then already_queued MQTT_CONTROL_PUBREC packet_id c else Some False);
     if dup then Some (MQTT_OK, c, False)
     else do {
       (ret, c) \<leftarrow> (if qos = 1 then mqtt_puback old packet_id c
                     else if qos = 2 then mqtt_pubrec old packet_id c
                     else Some (MQTT_OK, c));
       if ret \<noteq> MQTT_OK then Some (ret, c\<lparr>mc_error := ret\<rparr>, False)
       else do { trigger \<leftarrow> mqtt_publish_callback loadb msg; Some (MQTT_OK, c, trigger) } } }"

definition handle_response :: "(bytes \<Rightarrow> json option) \<Rightarrow> mqtt_queued_message \<Rightarrow> mqtt_response \<Rightarrow> mqtt_client \<Rightarrow>
    (mqtt_error \<times> mqtt_client \<times> bool) option" where
  "handle_response loadb old r c = (case r of
       Publish dup qos retain topic packet_id msg \<Rightarrow> handle_publish loadb old qos packet_id msg c
     | _ \<Rightarrow> do { (ret, c) \<leftarrow> handle_ack old r c; Some (ret, c, False) })"

text \<open>The room in the receive buffer: \<open>curr_sz\<close>, which \<open>mqtt_init\<close> sets to the size of the buffer and which each change of
  \<open>curr\<close> keeps equal to the size without the bytes received. It is 0 in a cleared client.\<close>

definition recv_curr_sz :: "mqtt_client \<Rightarrow> nat" where
  "recv_curr_sz c = (case mc_recv c of None \<Rightarrow> 0 | Some (sz, buf) \<Rightarrow> sz - length buf)"

text \<open>\<open>mqtt_unpack_response\<close> on the receive buffer, which is \<open>NULL\<close> in a cleared client: \<open>mqtt_unpack_fixed_header\<close> checks for that first.\<close>

definition unpack_recv_buffer :: "(nat \<times> bytes) option \<Rightarrow> (mqtt_error + (nat \<times> mqtt_response) option) option" where
  "unpack_recv_buffer rb = (case rb of None \<Rightarrow> Some (Inl MQTT_ERROR_NULLPTR) | Some (sz, buf) \<Rightarrow> mqtt_unpack_response buf)"

text \<open>One turn of the loop of \<open>mqtt_recv\<close>: the value returned, the client, the socket, whether the configuration was asked
  for, and whether the loop goes on.\<close>

definition recv_turn :: "(bytes \<Rightarrow> json option) \<Rightarrow> mqtt_queued_message \<Rightarrow> recv_event list \<Rightarrow> mqtt_client \<Rightarrow>
    (mqtt_error \<times> mqtt_client \<times> recv_event list \<times> bool \<times> bool) option" where
  "recv_turn loadb old evs c = (let (err, got, evs) = mqtt_pal_recvall evs (recv_curr_sz c) in
     if got = [] \<and> negative err then Some (err, c\<lparr>mc_error := err\<rparr>, evs, False, False)
     else let rb = map_option (\<lambda>(sz, buf). (sz, buf @ got)) (mc_recv c); c = c\<lparr>mc_recv := rb\<rparr> in
       do {
         u \<leftarrow> unpack_recv_buffer rb;
         case u of
           Inl err \<Rightarrow> Some (err, c\<lparr>mc_error := err\<rparr>, evs, False, False)
         | Inr None \<Rightarrow>
             if recv_curr_sz c = 0 then Some (MQTT_ERROR_RECV_BUFFER_TOO_SMALL, c\<lparr>mc_error := MQTT_ERROR_RECV_BUFFER_TOO_SMALL\<rparr>, evs, False, False)
             else Some (MQTT_OK, c, evs, False, False)
         | Inr (Some (consumed, r)) \<Rightarrow> do {
             (ret, c, trigger) \<leftarrow> handle_response loadb old r c;
             Some (ret, c\<lparr>mc_recv := map_option (\<lambda>(sz, buf). (sz, drop consumed buf)) rb\<rparr>, evs, trigger, ret = MQTT_OK) } })"

text \<open>The bytes that are still to be handled; they get fewer with each turn.\<close>

fun event_bytes :: "recv_event \<Rightarrow> bytes" where
  "event_bytes (Recv bs) = bs"
| "event_bytes _ = []"

definition stream_of :: "recv_event list \<Rightarrow> mqtt_client \<Rightarrow> bytes" where
  "stream_of evs c = (case mc_recv c of None \<Rightarrow> [] | Some (sz, buf) \<Rightarrow> buf) @ concat (map event_bytes evs)"

lemma recvall_bytes:
  "mqtt_pal_recvall evs n = (err, got, evs') \<Longrightarrow> got @ concat (map event_bytes evs') = concat (map event_bytes evs)"
  by (induction evs n arbitrary: got rule: mqtt_pal_recvall.induct) (auto simp: Let_def split: if_splits prod.splits)

lemma unpack_cases:
  obtains "u = None" | err where "u = Some (Inl err)" | "u = Some (Inr None)" | n r where "u = Some (Inr (Some (n, r)))"
  by (metis option.exhaust sum.exhaust surj_pair)

text \<open>The cases of a turn: the socket failed, an access outside of the buffer, a malformed packet, an incomplete one, and
  a whole packet.\<close>

lemma recv_turn_cases:
  assumes "mc_recv c = Some (sz, buf)" and "mqtt_pal_recvall evs (sz - length buf) = (err, got, evs')"
  shows "got = [] \<and> negative err \<Longrightarrow> recv_turn loadb old evs c = Some (err, c\<lparr>mc_error := err\<rparr>, evs', False, False)"
    and "\<not> (got = [] \<and> negative err) \<Longrightarrow> mqtt_unpack_response (buf @ got) = None \<Longrightarrow> recv_turn loadb old evs c = None"
    and "\<not> (got = [] \<and> negative err) \<Longrightarrow> mqtt_unpack_response (buf @ got) = Some (Inl e) \<Longrightarrow>
      recv_turn loadb old evs c = Some (e, c\<lparr>mc_recv := Some (sz, buf @ got), mc_error := e\<rparr>, evs', False, False)"
    and "\<not> (got = [] \<and> negative err) \<Longrightarrow> mqtt_unpack_response (buf @ got) = Some (Inr None) \<Longrightarrow>
      recv_turn loadb old evs c =
        (if sz \<le> length (buf @ got) then Some (MQTT_ERROR_RECV_BUFFER_TOO_SMALL,
           c\<lparr>mc_recv := Some (sz, buf @ got), mc_error := MQTT_ERROR_RECV_BUFFER_TOO_SMALL\<rparr>, evs', False, False)
         else Some (MQTT_OK, c\<lparr>mc_recv := Some (sz, buf @ got)\<rparr>, evs', False, False))"
    and "\<not> (got = [] \<and> negative err) \<Longrightarrow> mqtt_unpack_response (buf @ got) = Some (Inr (Some (n, r))) \<Longrightarrow>
      recv_turn loadb old evs c = do {
        (ret, c, trigger) \<leftarrow> handle_response loadb old r (c\<lparr>mc_recv := Some (sz, buf @ got)\<rparr>);
        Some (ret, c\<lparr>mc_recv := Some (sz, drop n (buf @ got))\<rparr>, evs', trigger, ret = MQTT_OK) }"
proof -
  have r: "recv_curr_sz c = sz - length buf" by (simp add: recv_curr_sz_def assms(1))
  note d = recv_turn_def [of loadb old evs c, unfolded r assms(1) option.map prod.case assms(2) Let_def unpack_recv_buffer_def option.case]
  show "got = [] \<and> negative err \<Longrightarrow> recv_turn loadb old evs c = Some (err, c\<lparr>mc_error := err\<rparr>, evs', False, False)"
    by (simp add: d)
  assume n: "\<not> (got = [] \<and> negative err)"
  show "mqtt_unpack_response (buf @ got) = None \<Longrightarrow> recv_turn loadb old evs c = None"
    "mqtt_unpack_response (buf @ got) = Some (Inl e) \<Longrightarrow>
      recv_turn loadb old evs c = Some (e, c\<lparr>mc_recv := Some (sz, buf @ got), mc_error := e\<rparr>, evs', False, False)"
    "mqtt_unpack_response (buf @ got) = Some (Inr None) \<Longrightarrow>
      recv_turn loadb old evs c =
        (if sz \<le> length (buf @ got) then Some (MQTT_ERROR_RECV_BUFFER_TOO_SMALL,
           c\<lparr>mc_recv := Some (sz, buf @ got), mc_error := MQTT_ERROR_RECV_BUFFER_TOO_SMALL\<rparr>, evs', False, False)
         else Some (MQTT_OK, c\<lparr>mc_recv := Some (sz, buf @ got)\<rparr>, evs', False, False))"
    "mqtt_unpack_response (buf @ got) = Some (Inr (Some (n, r))) \<Longrightarrow>
      recv_turn loadb old evs c = do {
        (ret, c, trigger) \<leftarrow> handle_response loadb old r (c\<lparr>mc_recv := Some (sz, buf @ got)\<rparr>);
        Some (ret, c\<lparr>mc_recv := Some (sz, drop n (buf @ got))\<rparr>, evs', trigger, ret = MQTT_OK) }"
    by (simp_all only: d n if_False bind.simps sum.case option.case prod.case) (simp add: recv_curr_sz_def)
qed

lemma recv_turn_more:
  assumes "recv_turn loadb old evs c = Some (ret, c', evs', trigger, True)"
  shows "length (stream_of evs' c') < length (stream_of evs c)"
proof -
  obtain sz buf where b: "mc_recv c = Some (sz, buf)" using assms by (cases "mc_recv c") (auto simp: recv_turn_def unpack_recv_buffer_def Let_def split: prod.splits if_splits)
  obtain err got evs1 where g: "mqtt_pal_recvall evs (sz - length buf) = (err, got, evs1)" by (cases "mqtt_pal_recvall evs (sz - length buf)")
  note t = recv_turn_cases [OF b g, where loadb = loadb and old = old]
  have ne: "\<not> (got = [] \<and> negative err)" using assms t(1) by auto
  obtain n r where u: "mqtt_unpack_response (buf @ got) = Some (Inr (Some (n, r)))"
    using assms t(2-4) [OF ne] by (cases "mqtt_unpack_response (buf @ got)" rule: unpack_cases) (auto split: if_splits)
  have "mc_recv c' = Some (sz, drop n (buf @ got))" "evs' = evs1"
    using assms t(5) [OF ne u] by (auto simp: bind_eq_Some_conv)
  then have "length (stream_of evs' c') = length (buf @ got) - n + length (concat (map event_bytes evs1))"
    by (simp add: stream_of_def)
  moreover have "length (stream_of evs c) = length (buf @ got) + length (concat (map event_bytes evs1))"
    using recvall_bytes [OF g] by (simp add: stream_of_def b flip: length_append)
  ultimately show ?thesis using unpack_response_consumed [OF u] by linarith
qed

function mqtt_recv :: "(bytes \<Rightarrow> json option) \<Rightarrow> mqtt_queued_message \<Rightarrow> recv_event list \<Rightarrow> mqtt_client \<Rightarrow>
    (mqtt_error \<times> mqtt_client \<times> recv_event list \<times> bool) option" where
  "mqtt_recv loadb old evs c = (case recv_turn loadb old evs c of
       None \<Rightarrow> None
     | Some (ret, c', evs', trigger, more_turns) \<Rightarrow>
         if more_turns then map_option (\<lambda>(ret, c, evs, t). (ret, c, evs, trigger \<or> t)) (mqtt_recv loadb old evs' c')
         else Some (ret, c', evs', trigger))"
  by auto

termination by (relation "measure (\<lambda>(loadb, old, evs, c). length (stream_of evs c))") (auto dest: recv_turn_more)

declare mqtt_recv.simps [simp del]


section \<open>Sending\<close>

datatype send_outcome = Send_next | Send_break | Send_error mqtt_error

text \<open>The state of a message that was sent, and the packet with the DUP flag where that is set; \<open>None\<close> for a control type
  that is never sent.\<close>

definition sent_state :: "control_type \<Rightarrow> u8 \<Rightarrow> (mqtt_queued_message_state \<times> u8) option" where
  "sent_state ctype b0 =
     (if ctype \<in> {MQTT_CONTROL_PUBACK, MQTT_CONTROL_PUBCOMP, MQTT_CONTROL_DISCONNECT} then Some (MQTT_QUEUED_COMPLETE, b0)
      else if ctype = MQTT_CONTROL_PUBLISH then
        (let inspected = drop_bit 1 (6 AND b0) in
         if inspected = 0 then Some (MQTT_QUEUED_COMPLETE, b0)
         else if inspected = 1 then Some (MQTT_QUEUED_AWAITING_ACK, b0 OR 8)
         else Some (MQTT_QUEUED_AWAITING_ACK, b0))
      else if ctype \<in> {MQTT_CONTROL_CONNECT, MQTT_CONTROL_PUBREC, MQTT_CONTROL_PUBREL, MQTT_CONTROL_SUBSCRIBE, MQTT_CONTROL_UNSUBSCRIBE, MQTT_CONTROL_PINGREQ}
      then Some (MQTT_QUEUED_AWAITING_ACK, b0)
      else None)"

text \<open>Whether message \<open>i\<close> has waited too long for its answer, and whether it is a PUBLISH of quality 2 that is not complete.\<close>

definition timed_out :: "int \<Rightarrow> mqtt_client \<Rightarrow> mqtt_queued_message \<Rightarrow> bool" where
  "timed_out now c m \<longleftrightarrow> qm_state m = MQTT_QUEUED_AWAITING_ACK \<and> now > qm_time_sent m + mc_response_timeout c"

definition inflight_publish :: "mqtt_message_queue \<Rightarrow> mqtt_queued_message \<Rightarrow> bool" where
  "inflight_publish mq m \<longleftrightarrow> qm_control_type m = MQTT_CONTROL_PUBLISH \<and> qm_state m \<noteq> MQTT_QUEUED_COMPLETE \<and>
     3 AND drop_bit 1 (mq_mem mq ! qm_start m) = 2"

definition message_sent :: "int \<Rightarrow> nat \<Rightarrow> mqtt_message_queue \<Rightarrow> mqtt_client \<Rightarrow> send_outcome \<times> mqtt_client" where
  "message_sent now i mq c =
     (let m = mq_msgs mq ! i; c = c\<lparr>mc_send_offset := 0, mc_time_of_last_send := now\<rparr>; m = m\<lparr>qm_time_sent := now\<rparr> in
      case sent_state (qm_control_type m) (mq_mem mq ! qm_start m) of
        None \<Rightarrow> (Send_error MQTT_ERROR_MALFORMED_REQUEST,
           c\<lparr>mc_mq := Some (mq\<lparr>mq_msgs := (mq_msgs mq)[i := m]\<rparr>), mc_error := MQTT_ERROR_MALFORMED_REQUEST\<rparr>)
      | Some (st, b0) \<Rightarrow> (Send_next,
           c\<lparr>mc_mq := Some (mq\<lparr>mq_msgs := (mq_msgs mq)[i := m\<lparr>qm_state := st\<rparr>], mq_mem := (mq_mem mq)[qm_start m := b0]\<rparr>)\<rparr>))"

text \<open>The outcome, the client, the socket, the bytes given to the system and whether a PUBLISH of quality 2 is in flight.
  \<open>None\<close>: the offset is behind the end of the message, so that the length to send wraps around.\<close>

definition send_message :: "int \<Rightarrow> nat \<Rightarrow> mqtt_client \<Rightarrow> send_event list \<Rightarrow> bool \<Rightarrow>
    (send_outcome \<times> mqtt_client \<times> send_event list \<times> bytes \<times> bool) option" where
  "send_message now i c evs inflight_qos2 = do {
     mq \<leftarrow> mc_mq c;
     let m = mq_msgs mq ! i;
     let late = timed_out now c m;
     let c = (if late then c\<lparr>mc_number_of_timeouts := mc_number_of_timeouts c + 1, mc_send_offset := 0\<rparr> else c);
     let qos2 = inflight_publish mq m;
     let resend = ((qm_state m = MQTT_QUEUED_UNSENT \<or> late) \<and> \<not> (qos2 \<and> inflight_qos2));
     let inflight_qos2 = (inflight_qos2 \<or> qos2);
     let off = mc_send_offset c;
     if \<not> resend then Some (Send_next, c, evs, [], inflight_qos2)
     else if qm_size m < off then None
     else (let (err, n, evs) = mqtt_pal_sendall evs (qm_size m - off);
               out = bslice (qm_start m + off) n (mq_mem mq) in
           if n = 0 \<and> negative err then Some (Send_error err, c\<lparr>mc_error := err\<rparr>, evs, out, inflight_qos2)
           else if off + n < qm_size m then Some (Send_break, c\<lparr>mc_send_offset := off + n\<rparr>, evs, out, inflight_qos2)
           else (let (res, c) = message_sent now i mq c in Some (res, c, evs, out, inflight_qos2))) }"

fun send_loop :: "int \<Rightarrow> nat list \<Rightarrow> mqtt_client \<Rightarrow> send_event list \<Rightarrow> bool \<Rightarrow>
    (send_outcome \<times> mqtt_client \<times> send_event list \<times> bytes) option" where
  "send_loop now [] c evs inflight_qos2 = Some (Send_next, c, evs, [])"
| "send_loop now (i # is) c evs inflight_qos2 = do {
     (res, c, evs, out, inflight_qos2) \<leftarrow> send_message now i c evs inflight_qos2;
     if res = Send_next then map_option (\<lambda>(res, c, evs, more_out). (res, c, evs, out @ more_out)) (send_loop now is c evs inflight_qos2)
     else Some (res, c, evs, out) }"

definition mqtt_send :: "int \<Rightarrow> mqtt_queued_message \<Rightarrow> send_event list \<Rightarrow> mqtt_client \<Rightarrow>
    (mqtt_error \<times> mqtt_client \<times> send_event list \<times> bytes) option" where
  "mqtt_send now old evs c =
     (if negative (mc_error c) \<and> mc_error c \<noteq> MQTT_ERROR_SEND_BUFFER_IS_FULL then Some (mc_error c, c, evs, [])
      else do {
        mq \<leftarrow> mc_mq c;
        (res, c, evs, out) \<leftarrow> send_loop now [0..<length (mq_msgs mq)] c evs False;
        case res of
          Send_error err \<Rightarrow> Some (err, c, evs, out)
        | _ \<Rightarrow>
            if now > mc_time_of_last_send c + uint (mc_keep_alive c) then do {
              (ret, c) \<leftarrow> mqtt_ping old c;
              if ret \<noteq> MQTT_OK then Some (ret, c\<lparr>mc_error := ret\<rparr>, evs, out) else Some (MQTT_OK, c, evs, out) }
            else Some (MQTT_OK, c, evs, out) })"

section \<open>The interface of the program\<close>

record sync_input =
  si_now :: int
  si_loadb :: "bytes \<Rightarrow> json option"
  si_old :: mqtt_queued_message
  si_recv :: "recv_event list"
  si_send :: "send_event list"

definition mqtt_sync :: "sync_input \<Rightarrow> mqtt_client \<Rightarrow> (mqtt_error \<times> mqtt_client \<times> bytes \<times> bool) option" where
  "mqtt_sync inp c = do {
     let c = (if mc_error c = MQTT_ERROR_RECONNECTING then c\<lparr>mc_error := MQTT_OK\<rparr> else c);
     (err, c, revs, trigger) \<leftarrow> mqtt_recv (si_loadb inp) (si_old inp) (si_recv inp) c;
     if err \<noteq> MQTT_OK then Some (err, c, [], trigger)
     else do {
       (err, c, sevs, out) \<leftarrow> mqtt_send (si_now inp) (si_old inp) (si_send inp) c;
       Some (err, c, out, trigger) } }"

record mqtt_state =
  mqs_client :: mqtt_client
  mqs_fd :: int
  mqs_connected :: bool

text \<open>A connection attempt: the addresses, what the send buffer and a struct in it contain, the time of \<open>CNF_get\<close> and the
  UUID of the band.\<close>

record connect_input =
  ci_addrs :: "(int \<times> bool) list option"
  ci_sendbuf :: bytes
  ci_old :: mqtt_queued_message
  ci_time :: u64
  ci_band_uuid :: "string option"

definition MQTT_connect :: "connect_input \<Rightarrow> mqtt_state \<Rightarrow> (int \<times> mqtt_state) option" where
  "MQTT_connect ci st = (let fd = mqtt_open_sock (ci_addrs ci); st = st\<lparr>mqs_fd := fd\<rparr> in
     if fd = -1 then Some (-1, st)
     else if fd < 0 then None
     else do {
       (err, c) \<leftarrow> mqtt_connect (ci_old ci) [] None None (Some mudband_user) (Some mudband_password) 2 400
         (mqtt_init (ci_sendbuf ci) 1024 (mqs_client st));
       if err = MQTT_OK \<and> mc_error c = MQTT_OK then Some (0, st\<lparr>mqs_client := c, mqs_connected := True\<rparr>) else None })"

definition MQTT_init :: "connect_input \<Rightarrow> mqtt_state \<Rightarrow> (int \<times> mqtt_state) option" where
  "MQTT_init ci st = do { (r, st) \<leftarrow> MQTT_connect ci st; if r \<noteq> 0 then Some (-1, st) else Some (0, st) }"

definition MQTT_disconnect :: "mqtt_state \<Rightarrow> mqtt_state" where
  "MQTT_disconnect st = st\<lparr>mqs_client := mqtt_client_zero, mqs_connected := False\<rparr>"

text \<open>\<open>snprintf\<close> into 128 bytes.\<close>

definition subscribe_topic :: "mqtt_queued_message \<Rightarrow> string \<Rightarrow> mqtt_state \<Rightarrow> mqtt_state option" where
  "subscribe_topic old topic st = do {
     (err, c) \<leftarrow> mqtt_subscribe old (take 127 (bytes_of_string topic)) 0 (mqs_client st);
     if err = MQTT_OK then Some (st\<lparr>mqs_client := c\<rparr>) else None }"

definition band_topic :: "string \<Rightarrow> string" where "band_topic band = ''/band/'' @ band"
definition device_topic :: "string \<Rightarrow> string \<Rightarrow> string" where "device_topic band device = ''/band/'' @ band @ ''/device/'' @ device"

definition MQTT_subscribe :: "connect_input \<Rightarrow> mqtt_state \<times> cnf_state \<Rightarrow> (mqtt_state \<times> cnf_state) option" where
  "MQTT_subscribe ci = (\<lambda>(st, cnfs). case ci_band_uuid ci of
       None \<Rightarrow> Some (st, cnfs)
     | Some band_uuid \<Rightarrow> do {
         st \<leftarrow> subscribe_topic (ci_old ci) (band_topic band_uuid) st;
         (r, cf, cnfs) \<leftarrow> CNF_get (ci_time ci) cnfs;
         if r = 0 then do {
           cf \<leftarrow> cf;
           c \<leftarrow> map_of (cnf_head cnfs) cf;
           device_uuid \<leftarrow> CNF_get_interface_device_uuid (cnf_jroot c);
           st \<leftarrow> subscribe_topic (ci_old ci) (device_topic band_uuid device_uuid) st;
           cnfs \<leftarrow> CNF_rel cf cnfs;
           Some (st, cnfs) }
         else Some (st, cnfs) })"

definition MQTT_reconnect :: "connect_input \<Rightarrow> mqtt_state \<times> cnf_state \<Rightarrow> (mqtt_state \<times> cnf_state) option" where
  "MQTT_reconnect ci = (\<lambda>(st, cnfs). do {
     (r, st) \<leftarrow> MQTT_connect ci (MQTT_disconnect st);
     if r \<noteq> 0 then Some (st, cnfs) else MQTT_subscribe ci (st, cnfs) })"

text \<open>With the bytes sent and whether \<open>MBT_conf_fetcher_trigger\<close> was called.\<close>

definition MQTT_sync :: "connect_input \<Rightarrow> sync_input \<Rightarrow> connect_input \<Rightarrow> mqtt_state \<times> cnf_state \<Rightarrow>
    (mqtt_state \<times> cnf_state \<times> bytes \<times> bool) option" where
  "MQTT_sync ci inp ci' = (\<lambda>(st, cnfs). do {
     (st, cnfs) \<leftarrow> (if \<not> mqs_connected st then MQTT_reconnect ci (st, cnfs) else Some (st, cnfs));
     (err, c, out, trigger) \<leftarrow> mqtt_sync inp (mqs_client st);
     let st = st\<lparr>mqs_client := c\<rparr>;
     if err = MQTT_OK then Some (st, cnfs, out, trigger)
     else do { (st, cnfs) \<leftarrow> MQTT_reconnect ci' (st, cnfs); Some (st, cnfs, out, trigger) } })"

section \<open>The thread of tasks with the connection\<close>

text \<open>What the system gives one pass of the loop of \<open>mbt_thread\<close>: to the tasks, to the connection attempt of \<open>MQTT_sync\<close>, to
  \<open>mqtt_sync\<close>, and to the attempt after a failure.\<close>

record mbt_pass_input =
  mpi_task :: task_input
  mpi_connect :: connect_input
  mpi_sync :: sync_input
  mpi_reconnect :: connect_input

text \<open>A pass, with the bytes sent to the broker: the tasks, then \<open>MQTT_sync\<close> on the configurations that the tasks left.\<close>

definition mbt_thread_pass :: "json_lib \<Rightarrow> mbt_pass_input \<Rightarrow> mbt \<times> mqtt_state \<Rightarrow> (mbt \<times> mqtt_state \<times> bytes) option" where
  "mbt_thread_pass jl i = (\<lambda>(t, st). do {
     t \<leftarrow> mbt_run jl (mpi_task i) t;
     (st, cnfs, out, trigger) \<leftarrow> MQTT_sync (mpi_connect i) (mpi_sync i) (mpi_reconnect i) (st, fs_cnfs (mbt_data t));
     let t = t\<lparr>mbt_data := (mbt_data t)\<lparr>fs_cnfs := cnfs\<rparr>\<rparr>;
     Some (if trigger then MBT_conf_fetcher_trigger t else t, st, out) })"

text \<open>The thread, until \<open>MBT_fini\<close> is called.\<close>

fun mbt_thread :: "json_lib \<Rightarrow> mbt_pass_input list \<Rightarrow> mbt \<times> mqtt_state \<Rightarrow> (mbt \<times> mqtt_state) option" where
  "mbt_thread jl [] (t, st) = Some (t, st)"
| "mbt_thread jl (i # is) (t, st) =
     (if mbt_aborted t then Some (t, st) else do { (t, st, out) \<leftarrow> mbt_thread_pass jl i (t, st); mbt_thread jl is (t, st) })"

end
