(* ===== verification/Mqtt_Session.thy ===== *)
theory Mqtt_Session
  imports Mqtt_Client
begin

text \<open>
  Connecting and subscribing (\<open>MQTT_connect\<close>, \<open>MQTT_subscribe\<close> and \<open>MQTT_reconnect\<close> of \<open>linux/mudband_mqtt.c\<close>): the queue
  has room for the requests, the search for a packet id ends, and no assertion fails.
\<close>

section \<open>Connecting and subscribing\<close>

definition connect_packet :: bytes where
  "connect_packet = [0x10, 31, 0, 4, 0x4D, 0x51, 0x54, 0x54, 4, 0xC2, 1, 0x90, 0, 0, 0, 7] @ mudband_user @ [0, 8] @ mudband_password"

lemma pack_connect_eq:
  assumes "33 \<le> n"
  shows "pack_connect n = (Inr 33, connect_packet)"
proof -
  have l: "length mudband_user = 7" "length mudband_password = 8"
    by (simp_all add: mudband_user_def mudband_password_def bytes_of_string_def)
  have f: "connect_flags_of None (Some mudband_user) (Some mudband_password) 2 = 0xC2" by (simp add: connect_flags_of_def Let_def)
  let ?h = "\<lparr>fh_control_type = 1, fh_control_flags = 0, fh_remaining_length = 31\<rparr>"
  have v: "mqtt_fixed_header_rule_violation ?h = None"
    by (simp add: mqtt_fixed_header_rule_violation_def control_type_is_valid_def required_flags_def)
  have h: "mqtt_pack_fixed_header n ?h = (Inr 2, [0x10, 31])"
    using assms pack_length_small [of 31 n] by (simp add: mqtt_pack_fixed_header_def v)
  have p: "mqtt_pack_str [] = [0, 0]" "mqtt_pack_str mudband_user = [0, 7] @ mudband_user"
    "mqtt_pack_str mudband_password = [0, 8] @ mudband_password" "mqtt_pack_uint16 400 = [1, 0x90]"
    by (simp_all add: mqtt_pack_str_def mqtt_pack_uint16_def U16TO8_BIG_def l)
  have r: "pack_connect n = pack_packet n ?h (drop 2 connect_packet)"
    unfolding mqtt_pack_connection_request_def Let_def f opt_len_def opt_str_def option.case prod.case p by (simp add: connect_packet_def l)
  have "connect_packet = [0x10, 31] @ drop 2 connect_packet" "length connect_packet = 33" by (simp_all add: connect_packet_def l)
  then show ?thesis using assms unfolding r by (simp add: pack_packet_def h)
qed

lemma MQTT_connect_ok:
  assumes "length (ci_sendbuf ci) = 2048" and "0 \<le> mqtt_open_sock (ci_addrs ci)"
  obtains mq c where "MQTT_connect ci st = Some (0, st\<lparr>mqs_fd := mqtt_open_sock (ci_addrs ci), mqs_client := c, mqs_connected := True\<rparr>)"
    "mc_error c = MQTT_OK" "mc_pid_lfsr c = 0" "mc_send_offset c = 0" "mc_keep_alive c = 400" "mc_recv c = Some (1024, [])" "mc_mq c = Some mq" "mq_ok mq"
    "mq_abs mq = [(connect_packet, MQTT_QUEUED_UNSENT, qm_time_sent (ci_old ci), MQTT_CONTROL_CONNECT, qm_packet_id (ci_old ci))]"
    "length (mq_mem mq) = 2048" "mq_curr mq = 33"
proof -
  let ?q = "mqtt_mq_init (ci_sendbuf ci)"
  have i: "mq_ok ?q" "mq_abs ?q = []" by (simp_all add: mq_init_ok)
  have sz: "mq_curr_sz ?q = 2008" "mq_curr ?q = 0" "mq_mem ?q = ci_sendbuf ci"
    using assms(1) by (simp_all add: mqtt_mq_init_def MQTT_MQ_CURRSZ_def sizeof_mqtt_queued_message_def)
  let ?old = "(ci_old ci)\<lparr>qm_control_type := 1\<rparr>"
  obtain mq where m: "mq_try_pack pack_connect ?old ?q = (None, mq)" "mq_ok mq"
      "mq_abs mq = [(connect_packet, MQTT_QUEUED_UNSENT, qm_time_sent (ci_old ci), MQTT_CONTROL_CONNECT, qm_packet_id (ci_old ci))]"
      "length (mq_mem mq) = 2048" "mq_curr mq = 33"
  proof (rule connect.try_pack_room [OF i(1), of 33 connect_packet ?old])
    show "pack_connect (mq_curr_sz ?q) = (Inr 33, connect_packet)" using pack_connect_eq [of 2008] by (simp only: sz)
  qed (use i(2) sz assms(1) in simp_all)
  show ?thesis
    using that [of _ mq] m assms(2)
    by (simp add: MQTT_connect_def Let_def mqtt_connect_def mqtt_init_def mqtt_client_try_pack_def negative_def)
qed


text \<open>The loop for the packet id ends as soon as some value of the register is not in use.\<close>

lemma pid_loop_returns:
  assumes "(lfsr_step ^^ j) x \<notin> qm_packet_id ` set ms" and "0 < j"
  shows "\<exists>i. 0 < i \<and> i \<le> j \<and> pid_loop ms x = Some ((lfsr_step ^^ i) x) \<and> (lfsr_step ^^ i) x \<notin> qm_packet_id ` set ms"
  using assms
proof (induction j arbitrary: x)
  case (Suc j)
  show ?case
  proof (cases "lfsr_step x \<in> qm_packet_id ` set ms")
    case True
    then have "j \<noteq> 0" using Suc.prems by (auto simp: funpow_swap1)
    then obtain i where i: "0 < i" "i \<le> j" "pid_loop ms (lfsr_step x) = Some ((lfsr_step ^^ i) (lfsr_step x))"
        "(lfsr_step ^^ i) (lfsr_step x) \<notin> qm_packet_id ` set ms"
      using Suc.IH [of "lfsr_step x"] Suc.prems(1) by (auto simp: funpow_swap1)
    then show ?thesis using True
      by (intro exI [of _ "Suc i"]) (simp add: pid_loop.simps [of ms x] funpow_swap1)
  next
    case False
    then show ?thesis using Suc.prems by (intro exI [of _ 1]) (simp add: pid_loop.simps [of ms x])
  qed
qed simp

definition queued_ids :: "mqtt_message_queue \<Rightarrow> u16 set" where
  "queued_ids mq = qm_packet_id ` set (mq_msgs mq)"

fun queued_id :: "queued \<Rightarrow> u16" where
  "queued_id (p, st, t, c, i) = i"

lemma queued_ids_abs: "queued_ids mq = queued_id ` set (mq_abs mq)"
  by (force simp: queued_ids_def mq_abs_def queued_of_def)

lemma curr_sz_eq: "mq_ok mq \<Longrightarrow> mq_curr_sz mq = length (mq_mem mq) - 40 * (length (mq_msgs mq) + 1) - mq_curr mq"
  by (simp add: mq_ok_def MQTT_MQ_CURRSZ_def sizeof_mqtt_queued_message_def Let_def)

text \<open>The request for a topic in the queue.\<close>

definition subscribe_message :: "string \<Rightarrow> queued \<Rightarrow> bool" where
  "subscribe_message topic q \<longleftrightarrow> (case q of (p, st, t, c, i) \<Rightarrow> st = MQTT_QUEUED_UNSENT \<and> c = MQTT_CONTROL_SUBSCRIBE \<and>
     (\<exists>n. mqtt_pack_subscribe_request n i [(take 127 (bytes_of_string topic), 0)] = (Inr (length p), p)))"

lemma pack_subscribe_room:
  assumes "137 \<le> n"
  shows "\<exists>k bs. mqtt_pack_subscribe_request n pid [(take 127 t, 0)] = (Inr k, bs) \<and> 0 < k \<and> k \<le> 137"
proof -
  let ?l = "min (length t) 127"
  have m: "?l mod 65536 = ?l" by simp
  have u: "unat (word_of_nat (2 + (2 + ?l + 1)) :: u32) = 2 + (2 + ?l + 1)"
    by (simp only: unsigned_of_nat of_nat_id take_bit_nat_eq_self_iff) simp
  let ?h = "\<lparr>fh_control_type = 8, fh_control_flags = 2, fh_remaining_length = word_of_nat (2 + (2 + ?l + 1))\<rparr>"
  have "header_wf ?h"
    using u by (simp add: header_wf_def mqtt_fixed_header_rule_violation_def control_type_is_valid_def required_flags_def word_less_nat_alt)
  then have "\<exists>k bs. pack_packet n ?h (mqtt_pack_uint16 pid @ mqtt_pack_str (take 127 t) @ [0]) = (Inr k, bs) \<and> 0 < k \<and>
      k \<le> length (mqtt_pack_uint16 pid @ mqtt_pack_str (take 127 t) @ [0 :: u8]) + 5"
    by (rule pack_packet_room) (use assms u m in simp_all)
  then obtain k bs where "pack_packet n ?h (mqtt_pack_uint16 pid @ mqtt_pack_str (take 127 t) @ [0]) = (Inr k, bs)" "0 < k" "k \<le> 137"
    using m by fastforce
  then show ?thesis by (intro exI [of _ k] exI [of _ bs]) (simp add: mqtt_pack_subscribe_request_def)
qed

lemma subscribe_topic_ok:
  assumes c: "mc_error (mqs_client st) = MQTT_OK" "mc_mq (mqs_client st) = Some mq" "mq_ok mq" "137 \<le> mq_curr_sz mq"
    and pid: "pid_loop (mq_msgs mq) (if mc_pid_lfsr (mqs_client st) = 0 then 163 else mc_pid_lfsr (mqs_client st)) = Some pid"
  obtains mq' q where "subscribe_topic old topic st = Some (st\<lparr>mqs_client := (mqs_client st)\<lparr>mc_pid_lfsr := pid, mc_mq := Some mq'\<rparr>\<rparr>)"
    "mq_ok mq'" "mq_abs mq' = mq_abs mq @ [q]" "subscribe_message topic q" "queued_id q = pid"
    "mq_curr_sz mq \<le> mq_curr_sz mq' + 177"
proof -
  let ?old = "old\<lparr>qm_control_type := 8, qm_packet_id := pid\<rparr>" and ?t = "bytes_of_string topic"
  obtain k p where kp: "mqtt_pack_subscribe_request (mq_curr_sz mq) pid [(take 127 ?t, 0)] = (Inr k, p)" "0 < k" "k \<le> 137"
    using pack_subscribe_room [OF c(4)] by blast
  obtain mq' where m: "mq_try_pack (\<lambda>n. mqtt_pack_subscribe_request n pid [(take 127 ?t, 0)]) ?old mq = (None, mq')" "mq_ok mq'"
      "mq_abs mq' = mq_abs mq @ [(p, MQTT_QUEUED_UNSENT, qm_time_sent old, MQTT_CONTROL_SUBSCRIBE, pid)]"
      "length (mq_mem mq') = length (mq_mem mq)" "mq_curr mq' = mq_curr mq + k" "length (mq_msgs mq') = Suc (length (mq_msgs mq))"
  proof (rule subscribe.try_pack_room [OF c(3) kp(1,2), of ?old])
  qed simp
  have "k = length p" using subscribe.result [OF kp(1,2)] .
  then have "subscribe_message topic (p, MQTT_QUEUED_UNSENT, qm_time_sent old, MQTT_CONTROL_SUBSCRIBE, pid)"
    using kp(1) by (auto simp: subscribe_message_def)
  moreover have "mq_curr_sz mq \<le> mq_curr_sz mq' + 177"
    using curr_sz_eq [OF c(3)] curr_sz_eq [OF m(2)] m(4-6) kp(3) by simp
  moreover have "subscribe_topic old topic st = Some (st\<lparr>mqs_client := (mqs_client st)\<lparr>mc_pid_lfsr := pid, mc_mq := Some mq'\<rparr>\<rparr>)"
    using c pid m(1) by (simp add: subscribe_topic_def mqtt_subscribe_def mqtt_next_pid_def mqtt_client_try_pack_def negative_def)
  ultimately show ?thesis using that m(2,3) by simp
qed


lemma funpow_2: "(f ^^ 2) x = f (f x)"
  by (simp add: numeral_2_eq_2)

lemma lfsr_values:
  "lfsr_step 163 = 46161" "lfsr_step 46161 = 60968" "lfsr_step 60968 = 30484" "lfsr_step 30484 = 15242"
  by (simp_all add: lfsr_step_def)

lemma first_pid:
  assumes "queued_ids mq = {s}"
  obtains x where "pid_loop (mq_msgs mq) 163 = Some x" "x \<noteq> s" "x \<in> {46161, 60968}"
proof -
  have v: "(lfsr_step ^^ 1) 163 = 46161" "(lfsr_step ^^ 2) 163 = 60968" by (simp_all add: funpow_2 lfsr_values)
  have ne: "(46161 :: u16) \<noteq> 60968" by simp
  have "\<exists>j. (lfsr_step ^^ j) 163 \<notin> {s} \<and> 0 < j \<and> j \<le> 2"
  proof (cases "s = 46161")
    case True
    then show ?thesis using ne v(2) by (intro exI [of _ 2]) simp
  next
    case False
    then show ?thesis using v(1) by (intro exI [of _ 1]) simp
  qed
  then obtain j where j: "(lfsr_step ^^ j) 163 \<notin> qm_packet_id ` set (mq_msgs mq)" "0 < j" "j \<le> 2"
    using assms by (auto simp: queued_ids_def)
  obtain i where i: "0 < i" "i \<le> 2" "pid_loop (mq_msgs mq) 163 = Some ((lfsr_step ^^ i) 163)" "(lfsr_step ^^ i) 163 \<notin> {s}"
    using pid_loop_returns [OF j(1,2)] j(3) assms le_trans unfolding queued_ids_def by blast
  then have "i = 1 \<or> i = 2" by linarith
  then have "(lfsr_step ^^ i) 163 \<in> {46161, 60968}" using v by (elim disjE) (simp_all only: insert_iff simp_thms)
  then show ?thesis using that i(3,4) by simp
qed

lemma second_pid:
  assumes "queued_ids mq = {x, s}" and "x \<in> {46161, 60968}"
  obtains y where "pid_loop (mq_msgs mq) x = Some y" "y \<notin> {x, s}"
proof -
  define y1 y2 where "y1 = lfsr_step x" and "y2 = lfsr_step y1"
  have d: "y1 \<noteq> x" "y2 \<noteq> x" "y1 \<noteq> y2" using assms(2) by (auto simp: y1_def y2_def lfsr_values)
  have "\<exists>j. (lfsr_step ^^ j) x \<notin> {x, s} \<and> 0 < j"
  proof (cases "s = y1")
    case True
    then show ?thesis using d by (intro exI [of _ 2]) (simp add: funpow_2 y1_def [symmetric] y2_def [symmetric])
  next
    case False
    then show ?thesis using d by (intro exI [of _ 1]) (simp add: y1_def [symmetric])
  qed
  then show ?thesis using pid_loop_returns [of _ x "mq_msgs mq"] that assms(1) by (auto simp: queued_ids_def)
qed

definition active_device :: "cnf_state \<Rightarrow> string option" where
  "active_device cnfs = do { cf \<leftarrow> cnf_active cnfs; c \<leftarrow> map_of (cnf_head cnfs) cf; CNF_get_interface_device_uuid (cnf_jroot c) }"

definition mqtt_topics :: "string option \<Rightarrow> cnf_state \<Rightarrow> string list" where
  "mqtt_topics band_uuid cnfs = (case band_uuid of None \<Rightarrow> []
     | Some b \<Rightarrow> band_topic b # (case active_device cnfs of None \<Rightarrow> [] | Some d \<Rightarrow> [device_topic b d]))"

text \<open>The configuration in use, if there is one, names the device.\<close>

definition device_known :: "cnf_state \<Rightarrow> bool" where
  "device_known cnfs \<longleftrightarrow> cnf_active cnfs = None \<or> active_device cnfs \<noteq> None"


lemma MQTT_subscribe_ok:
  assumes c: "mc_error (mqs_client st) = MQTT_OK" "mc_pid_lfsr (mqs_client st) = 0" "mc_mq (mqs_client st) = Some mq" "mq_ok mq"
    and mq: "queued_ids mq = {s}" "314 \<le> mq_curr_sz mq"
    and inv: "cnf_inv us cnfs" "device_known cnfs"
  obtains st' cnfs' mq' qs where "MQTT_subscribe ci (st, cnfs) = Some (st', cnfs')" "cnf_inv us cnfs'" "mqs_connected st' = mqs_connected st"
    "mqs_fd st' = mqs_fd st" "mqs_client st' = (mqs_client st)\<lparr>mc_pid_lfsr := mc_pid_lfsr (mqs_client st'), mc_mq := Some mq'\<rparr>" "mq_ok mq'"
    "mq_abs mq' = mq_abs mq @ qs" "list_all2 subscribe_message (mqtt_topics (ci_band_uuid ci) cnfs) qs"
    "distinct (s # map queued_id qs)"
proof (cases "ci_band_uuid ci")
  case None
  then show ?thesis using that [of st cnfs mq "[]"] c inv by (simp add: MQTT_subscribe_def mqtt_topics_def)
next
  case (Some band)
  obtain x where x: "pid_loop (mq_msgs mq) 163 = Some x" "x \<noteq> s" "x \<in> {46161, 60968}" using mq(1) by (rule first_pid)
  have px: "pid_loop (mq_msgs mq) (if mc_pid_lfsr (mqs_client st) = 0 then 163 else mc_pid_lfsr (mqs_client st)) = Some x"
    using c(2) x(1) by simp
  have r: "137 \<le> mq_curr_sz mq" using mq(2) by simp
  obtain mq1 q1 where q1: "subscribe_topic (ci_old ci) (band_topic band) st =
        Some (st\<lparr>mqs_client := (mqs_client st)\<lparr>mc_pid_lfsr := x, mc_mq := Some mq1\<rparr>\<rparr>)"
      "mq_ok mq1" "mq_abs mq1 = mq_abs mq @ [q1]" "subscribe_message (band_topic band) q1" "queued_id q1 = x"
      "mq_curr_sz mq \<le> mq_curr_sz mq1 + 177"
    by (rule subscribe_topic_ok [OF c(1,3,4) r px, of "ci_old ci" "band_topic band"])
  let ?st = "st\<lparr>mqs_client := (mqs_client st)\<lparr>mc_pid_lfsr := x, mc_mq := Some mq1\<rparr>\<rparr>"
  show ?thesis
  proof (cases "cnf_active cnfs")
    case None
    then have "MQTT_subscribe ci (st, cnfs) = Some (?st, cnfs)" by (simp add: MQTT_subscribe_def Some q1(1) CNF_get_def)
    moreover have "mqtt_topics (ci_band_uuid ci) cnfs = [band_topic band]" by (simp add: mqtt_topics_def Some active_device_def None)
    ultimately show ?thesis using that [of ?st cnfs mq1 "[q1]"] q1(2-5) inv(1) x(2) by simp
  next
    case act: (Some p)
    then obtain k device where k: "map_of (cnf_head cnfs) p = Some k" "CNF_get_interface_device_uuid (cnf_jroot k) = Some device"
      using inv(2) by (auto simp: device_known_def active_device_def bind_eq_Some_conv)
    obtain s1 s2 where g: "CNF_get (ci_time ci) cnfs = Some (0, Some p, s1)"
        "map_of (cnf_head s1) p = Some (k\<lparr>cnf_busy := cnf_busy k + 1, cnf_t_last := ci_time ci\<rparr>)"
        "CNF_rel p s1 = Some s2" "cnf_inv us s2"
      by (rule cnf_get_rel [OF inv(1) act k(1), of "ci_time ci"])
    have "queued_ids mq1 = {x, s}" using mq(1) q1(3,5) by (auto simp: queued_ids_abs)
    then obtain y where y: "pid_loop (mq_msgs mq1) x = Some y" "y \<notin> {x, s}" using x(3) by (rule second_pid)
    have st1: "mc_error (mqs_client ?st) = MQTT_OK" "mc_mq (mqs_client ?st) = Some mq1" using c(1) by simp_all
    have py: "pid_loop (mq_msgs mq1) (if mc_pid_lfsr (mqs_client ?st) = 0 then 163 else mc_pid_lfsr (mqs_client ?st)) = Some y"
      using y(1) x(3) by auto
    have r1: "137 \<le> mq_curr_sz mq1" using mq(2) q1(6) by simp
    obtain mq2 q2 where q2: "subscribe_topic (ci_old ci) (device_topic band device) ?st =
          Some (?st\<lparr>mqs_client := (mqs_client ?st)\<lparr>mc_pid_lfsr := y, mc_mq := Some mq2\<rparr>\<rparr>)"
        "mq_ok mq2" "mq_abs mq2 = mq_abs mq1 @ [q2]" "subscribe_message (device_topic band device) q2" "queued_id q2 = y"
      by (rule subscribe_topic_ok [OF st1 q1(2) r1 py, of "ci_old ci" "device_topic band device"])
    have "MQTT_subscribe ci (st, cnfs) = Some (?st\<lparr>mqs_client := (mqs_client ?st)\<lparr>mc_pid_lfsr := y, mc_mq := Some mq2\<rparr>\<rparr>, s2)"
      using q2(1) by (simp add: MQTT_subscribe_def Some q1(1) g(1-3) k(2))
    moreover have "mqtt_topics (ci_band_uuid ci) cnfs = [band_topic band, device_topic band device]"
      by (simp add: mqtt_topics_def Some active_device_def act k)
    ultimately show ?thesis
      using that [of _ s2 mq2 "[q1, q2]"] q1(3-5) q2(2-5) g(4) x(2) y(2) by auto
  qed
qed

lemma reconnect_ok:
  assumes "length (ci_sendbuf ci) = 2048" and "0 \<le> mqtt_open_sock (ci_addrs ci)" and "cnf_inv us cnfs" and "device_known cnfs"
  shows "\<exists>st' cnfs' mq qs. MQTT_reconnect ci (st, cnfs) = Some (st', cnfs') \<and> cnf_inv us cnfs' \<and> mqs_connected st' \<and>
    mc_error (mqs_client st') = MQTT_OK \<and> mc_send_offset (mqs_client st') = 0 \<and> mc_recv (mqs_client st') = Some (1024, []) \<and>
    mc_mq (mqs_client st') = Some mq \<and> mq_ok mq \<and>
    mq_abs mq = (connect_packet, MQTT_QUEUED_UNSENT, qm_time_sent (ci_old ci), MQTT_CONTROL_CONNECT, qm_packet_id (ci_old ci)) # qs \<and>
    list_all2 subscribe_message (mqtt_topics (ci_band_uuid ci) cnfs) qs \<and> distinct (map queued_id qs)"
proof -
  obtain mq c where c: "MQTT_connect ci (MQTT_disconnect st) =
        Some (0, (MQTT_disconnect st)\<lparr>mqs_fd := mqtt_open_sock (ci_addrs ci), mqs_client := c, mqs_connected := True\<rparr>)"
      "mc_error c = MQTT_OK" "mc_pid_lfsr c = 0" "mc_send_offset c = 0" "mc_recv c = Some (1024, [])" "mc_mq c = Some mq" "mq_ok mq"
      "mq_abs mq = [(connect_packet, MQTT_QUEUED_UNSENT, qm_time_sent (ci_old ci), MQTT_CONTROL_CONNECT, qm_packet_id (ci_old ci))]"
      "length (mq_mem mq) = 2048" "mq_curr mq = 33"
    by (rule MQTT_connect_ok [OF assms(1,2), of "MQTT_disconnect st"])
  let ?st = "(MQTT_disconnect st)\<lparr>mqs_fd := mqtt_open_sock (ci_addrs ci), mqs_client := c, mqs_connected := True\<rparr>"
  have ids: "queued_ids mq = {qm_packet_id (ci_old ci)}" by (simp add: queued_ids_abs c(8))
  have "length (mq_msgs mq) = 1" using arg_cong [OF c(8), of length] by (simp add: mq_abs_def)
  then have sz: "314 \<le> mq_curr_sz mq" using curr_sz_eq [OF c(7)] c(9,10) by simp
  have st: "mc_error (mqs_client ?st) = MQTT_OK" "mc_pid_lfsr (mqs_client ?st) = 0" "mc_mq (mqs_client ?st) = Some mq" using c by simp_all
  obtain st' cnfs' mq' qs where s: "MQTT_subscribe ci (?st, cnfs) = Some (st', cnfs')" "cnf_inv us cnfs'" "mqs_connected st' = mqs_connected ?st"
      "mqs_fd st' = mqs_fd ?st" "mqs_client st' = (mqs_client ?st)\<lparr>mc_pid_lfsr := mc_pid_lfsr (mqs_client st'), mc_mq := Some mq'\<rparr>" "mq_ok mq'"
      "mq_abs mq' = mq_abs mq @ qs" "list_all2 subscribe_message (mqtt_topics (ci_band_uuid ci) cnfs) qs"
      "distinct (qm_packet_id (ci_old ci) # map queued_id qs)"
    by (rule MQTT_subscribe_ok [OF st c(7) ids sz assms(3,4)])
  have cl: "mc_error (mqs_client st') = MQTT_OK" "mc_send_offset (mqs_client st') = 0" "mc_recv (mqs_client st') = Some (1024, [])"
    "mc_mq (mqs_client st') = Some mq'" using c(2,4,5) by (subst s(5), simp)+
  have "MQTT_reconnect ci (st, cnfs) = Some (st', cnfs')" using c(1) s(1) by (simp add: MQTT_reconnect_def)
  then show ?thesis using s(2,3,6-9) c(8) cl by (intro exI [of _ st'] exI [of _ cnfs'] exI [of _ mq'] exI [of _ qs]) simp
qed

text \<open>
  C20: Connecting to the broker and subscribing fails no assertion, whatever the send buffer held before: the queue then
  holds the connection request and one subscription for the topic of the band and for that of the device, with
  different packet ids, and the configuration in use is released again.
\<close>

theorem MQTT_reconnect_subscribes:
  assumes "length (ci_sendbuf ci) = 2048" and "0 \<le> mqtt_open_sock (ci_addrs ci)" and "cnf_inv us cnfs" and "device_known cnfs"
  shows "\<exists>st' cnfs' mq qs. MQTT_reconnect ci (st, cnfs) = Some (st', cnfs') \<and> cnf_inv us cnfs' \<and> mqs_connected st' \<and>
    mc_error (mqs_client st') = MQTT_OK \<and> mc_send_offset (mqs_client st') = 0 \<and> mc_recv (mqs_client st') = Some (1024, []) \<and>
    mc_mq (mqs_client st') = Some mq \<and> mq_ok mq \<and>
    mq_abs mq = (connect_packet, MQTT_QUEUED_UNSENT, qm_time_sent (ci_old ci), MQTT_CONTROL_CONNECT, qm_packet_id (ci_old ci)) # qs \<and>
    list_all2 subscribe_message (mqtt_topics (ci_band_uuid ci) cnfs) qs \<and> distinct (map queued_id qs)"
  by (rule reconnect_ok [OF assms])

definition mqtt_state_zero :: mqtt_state where
  "mqtt_state_zero = \<lparr>mqs_client = mqtt_client_zero, mqs_fd = -1, mqs_connected = False\<rparr>"

text \<open>
  When \<open>MQTT_init\<close> cannot reach the broker, \<open>mudband_tunnel_init\<close> goes on, and the subscription that it then makes
  uses the queue of a client that was never initialised.
\<close>

theorem subscribe_without_broker_undefined:
  assumes "mqtt_open_sock (ci_addrs ci) = -1" and "ci_band_uuid ci' = Some band"
  shows "\<exists>st. MQTT_init ci mqtt_state_zero = Some (-1, st) \<and> MQTT_subscribe ci' (st, cnfs) = None"
proof -
  have "MQTT_init ci mqtt_state_zero = Some (-1, mqtt_state_zero)"
    using assms(1) by (simp add: MQTT_init_def MQTT_connect_def mqtt_state_zero_def Let_def)
  moreover have "MQTT_subscribe ci' (mqtt_state_zero, cnfs) = None"
    using assms(2) by (simp add: MQTT_subscribe_def subscribe_topic_def mqtt_subscribe_def mqtt_next_pid_def mqtt_client_zero_def mqtt_state_zero_def)
  ultimately show ?thesis by blast
qed

definition connect_demo :: connect_input where
  "connect_demo = \<lparr>ci_addrs = Some [(-1, False), (5, True)], ci_sendbuf = replicate 2048 0, ci_old = old_demo, ci_time = 0,
     ci_band_uuid = Some ''b''\<rparr>"

lemma connect_demo: "length (ci_sendbuf connect_demo) = 2048" "0 \<le> mqtt_open_sock (ci_addrs connect_demo)"
  by (simp_all add: connect_demo_def mqtt_open_sock_def)

lemma cnf_empty_ok: "cnf_inv [] cnf_empty" "device_known cnf_empty"
  by (simp_all add: cnf_inv_def cnf_empty_def device_known_def)

theorem MQTT_reconnect_subscribes_witness:
  "\<exists>st' cnfs' mq qs. MQTT_reconnect connect_demo (mqtt_state_zero, cnf_empty) = Some (st', cnfs') \<and> cnf_inv [] cnfs' \<and> mqs_connected st' \<and>
    mc_error (mqs_client st') = MQTT_OK \<and> mc_send_offset (mqs_client st') = 0 \<and> mc_recv (mqs_client st') = Some (1024, []) \<and>
    mc_mq (mqs_client st') = Some mq \<and> mq_ok mq \<and>
    mq_abs mq = (connect_packet, MQTT_QUEUED_UNSENT, qm_time_sent (ci_old connect_demo), MQTT_CONTROL_CONNECT, qm_packet_id (ci_old connect_demo)) # qs \<and>
    list_all2 subscribe_message (mqtt_topics (ci_band_uuid connect_demo) cnf_empty) qs \<and> distinct (map queued_id qs)"
  by (rule MQTT_reconnect_subscribes [OF connect_demo cnf_empty_ok])

theorem subscribe_without_broker_undefined_witness:
  "\<exists>st. MQTT_init (connect_demo\<lparr>ci_addrs := None\<rparr>) mqtt_state_zero = Some (-1, st) \<and> MQTT_subscribe connect_demo (st, cnf_empty) = None"
  by (rule subscribe_without_broker_undefined) (simp_all add: mqtt_open_sock_def connect_demo_def)

end
