(* ===== verification/Mqtt_Sending.thy ===== *)
theory Mqtt_Sending
  imports Mqtt_Session
begin

text \<open>
  Sending (\<open>mqtt_send\<close> of \<open>linux/mudband_mqtt.c\<close>) and the invariant of the client: every operation keeps the queue well
  formed and the receive buffer within its size.
\<close>

section \<open>Sending the queue\<close>

text \<open>The control types that the client queues.\<close>

definition client_types :: "control_type set" where
  "client_types = {MQTT_CONTROL_CONNECT, MQTT_CONTROL_PUBACK, MQTT_CONTROL_PUBREC, MQTT_CONTROL_PUBREL, MQTT_CONTROL_PUBCOMP,
     MQTT_CONTROL_SUBSCRIBE, MQTT_CONTROL_PINGREQ}"

definition mq_good :: "mqtt_message_queue \<Rightarrow> bool" where
  "mq_good mq \<longleftrightarrow> mq_ok mq \<and> qm_control_type ` set (mq_msgs mq) \<subseteq> client_types"

text \<open>The specification: a message is due when it was not sent or when its answer is late; sending it makes it complete
  or starts the wait for its answer.\<close>

fun due :: "int \<Rightarrow> int \<Rightarrow> queued \<Rightarrow> bool" where
  "due now timeout (p, st, t, c, i) \<longleftrightarrow> st = MQTT_QUEUED_UNSENT \<or> st = MQTT_QUEUED_AWAITING_ACK \<and> now > t + timeout"

fun mark_sent :: "int \<Rightarrow> queued \<Rightarrow> queued" where
  "mark_sent now (p, st, t, c, i) =
     (p, if c \<in> {MQTT_CONTROL_PUBACK, MQTT_CONTROL_PUBCOMP} then MQTT_QUEUED_COMPLETE else MQTT_QUEUED_AWAITING_ACK, now, c, i)"

definition queue_send :: "int \<Rightarrow> int \<Rightarrow> queued list \<Rightarrow> queued list" where
  "queue_send now timeout = map (\<lambda>q. if due now timeout q then mark_sent now q else q)"

definition queue_out :: "int \<Rightarrow> int \<Rightarrow> queued list \<Rightarrow> bytes" where
  "queue_out now timeout qs = concat (map fst (filter (due now timeout) qs))"

text \<open>The space for the next packet in a buffer of \<open>sz\<close> bytes: behind the packets, and in front of the structs of the messages and
  of the one to come.\<close>

definition queue_room :: "nat \<Rightarrow> queued list \<Rightarrow> nat" where
  "queue_room sz qs = sz - sizeof_mqtt_queued_message * (length qs + 1) - length (concat (map fst qs))"

text \<open>Whether the client pings: nothing was sent for longer than the time it promised.\<close>

definition ping_due :: "int \<Rightarrow> mqtt_client \<Rightarrow> queued list \<Rightarrow> bool" where
  "ping_due now c qs \<longleftrightarrow> \<not> (\<exists>q \<in> set qs. due now (mc_response_timeout c) q) \<and> now > mc_time_of_last_send c + uint (mc_keep_alive c)"

text \<open>The queue is well formed and holds only what the client sends, and the buffer for what it receives is not
  overrun.\<close>

definition client_good :: "mqtt_client \<Rightarrow> bool" where
  "client_good c \<longleftrightarrow> (\<exists>mq sz buf. mc_mq c = Some mq \<and> mq_good mq \<and> mc_recv c = Some (sz, buf) \<and> length buf \<le> sz)"

lemma packets_from_update:
  "i < length ms \<Longrightarrow> qm_start m = qm_start (ms ! i) \<Longrightarrow> qm_size m = qm_size (ms ! i) \<Longrightarrow> packets_from off (ms[i := m]) = packets_from off ms"
  by (induction ms arbitrary: off i) (auto split: nat.splits)

lemma mq_ok_update:
  assumes "mq_ok mq" and "i < length (mq_msgs mq)" and "qm_start m = qm_start (mq_msgs mq ! i)" and "qm_size m = qm_size (mq_msgs mq ! i)"
  shows "mq_ok (mq\<lparr>mq_msgs := (mq_msgs mq)[i := m]\<rparr>)"
  using assms packets_from_update [OF assms(2-4)] by (simp add: mq_ok_def MQTT_MQ_CURRSZ_def Let_def)

lemma mq_good_update:
  assumes "mq_good mq" and "i < length (mq_msgs mq)" and "qm_start m = qm_start (mq_msgs mq ! i)" and "qm_size m = qm_size (mq_msgs mq ! i)"
    and "qm_control_type m = qm_control_type (mq_msgs mq ! i)"
  shows "mq_good (mq\<lparr>mq_msgs := (mq_msgs mq)[i := m]\<rparr>)"
proof -
  have "qm_control_type (mq_msgs mq ! i) \<in> client_types" using assms(1,2) by (auto simp: mq_good_def)
  then show ?thesis using assms mq_ok_update [OF _ assms(2-4)] set_update_subset_insert [of "mq_msgs mq" i m]
    by (fastforce simp: mq_good_def)
qed

lemma send_message_all:
  assumes c: "mc_mq c = Some mq" "mq_good mq" "i < length (mq_msgs mq)" "mc_send_offset c = 0"
  defines "q \<equiv> mq_abs mq ! i"
  obtains c' mq' where "send_message now i c [] b = Some (Send_next, c', [], if due now (mc_response_timeout c) q then fst q else [], b)"
    "mc_mq c' = Some mq'" "mq_good mq'" "mq_abs mq' = (mq_abs mq)[i := if due now (mc_response_timeout c) q then mark_sent now q else q]"
    "mc_send_offset c' = 0" "mc_response_timeout c' = mc_response_timeout c" "mc_error c' = mc_error c" "mc_keep_alive c' = mc_keep_alive c"
    "mc_recv c' = mc_recv c" "mc_time_of_last_send c' = (if due now (mc_response_timeout c) q then now else mc_time_of_last_send c)"
    "length (mq_mem mq') = length (mq_mem mq)"
proof -
  define m where "m = mq_msgs mq ! i"
  have q: "q = (bslice (qm_start m) (qm_size m) (mq_mem mq), qm_state m, qm_time_sent m, qm_control_type m, qm_packet_id m)"
    using c(3) by (simp add: q_def mq_abs_def queued_of_def m_def)
  have ty: "qm_control_type m \<in> client_types" using c(2,3) by (auto simp: mq_good_def m_def)
  then have np: "\<not> inflight_publish mq m" by (auto simp: inflight_publish_def client_types_def)
  obtain st where st: "sent_state (qm_control_type m) (mq_mem mq ! qm_start m) = Some (st, mq_mem mq ! qm_start m)"
      "st = (if qm_control_type m \<in> {4, 7} then MQTT_QUEUED_COMPLETE else MQTT_QUEUED_AWAITING_ACK)"
    using ty by (auto simp: sent_state_def client_types_def)
  have lt: "timed_out now c m \<longleftrightarrow> qm_state m = MQTT_QUEUED_AWAITING_ACK \<and> now > qm_time_sent m + mc_response_timeout c"
    by (simp add: timed_out_def)
  show ?thesis
  proof (cases "due now (mc_response_timeout c) q")
    case False
    then have "\<not> timed_out now c m" "qm_state m \<noteq> MQTT_QUEUED_UNSENT" using lt by (auto simp: q)
    then have "send_message now i c [] b = Some (Send_next, c, [], [], b)"
      using np by (simp add: send_message_def c(1) Let_def m_def [symmetric])
    then show ?thesis using that [of c mq] False c by (simp add: q_def)
  next
    case True
    define m' where "m' = m\<lparr>qm_time_sent := now, qm_state := st\<rparr>"
    define mq' where "mq' = mq\<lparr>mq_msgs := (mq_msgs mq)[i := m']\<rparr>"
    define c0 where "c0 = (if timed_out now c m then c\<lparr>mc_number_of_timeouts := mc_number_of_timeouts c + 1, mc_send_offset := 0\<rparr> else c)"
    have c0: "mc_send_offset c0 = 0" using c(4) by (simp add: c0_def)
    define c' where "c' = c0\<lparr>mc_send_offset := 0, mc_time_of_last_send := now, mc_mq := Some mq'\<rparr>"
    have ms: "message_sent now i mq c0 = (Send_next, c')"
      using st(1) by (simp add: message_sent_def m_def [symmetric] c'_def mq'_def m'_def Let_def)
    have re: "qm_state m = MQTT_QUEUED_UNSENT \<or> timed_out now c m" using True lt by (simp add: q)
    have "send_message now i c [] b = Some (Send_next, c', [], fst q, b)"
      using np c0 by (simp add: send_message_def c(1) Let_def m_def [symmetric] c0_def [symmetric] ms negative_def q) (use re in blast)
    moreover have "mq_good mq'" unfolding mq'_def by (rule mq_good_update [OF c(2,3)]) (simp_all add: m'_def m_def)
    moreover have "mq_abs mq' = (mq_abs mq)[i := mark_sent now q]"
      by (simp add: mq'_def mq_abs_def map_update queued_of_def m'_def q st(2))
    ultimately show ?thesis using that [of c' mq'] True by (simp add: c'_def c0_def mq'_def)
  qed
qed

lemma send_loop_all:
  assumes "mc_mq c = Some mq" "mq_good mq" "k \<le> length (mq_msgs mq)" "mc_send_offset c = 0"
  shows "\<exists>c' mq'. send_loop now [k..<length (mq_msgs mq)] c [] b =
      Some (Send_next, c', [], queue_out now (mc_response_timeout c) (drop k (mq_abs mq))) \<and>
    mc_mq c' = Some mq' \<and> mq_good mq' \<and> mq_abs mq' = take k (mq_abs mq) @ queue_send now (mc_response_timeout c) (drop k (mq_abs mq)) \<and>
    mc_send_offset c' = 0 \<and> mc_error c' = mc_error c \<and> mc_keep_alive c' = mc_keep_alive c \<and> mc_recv c' = mc_recv c \<and>
    mc_time_of_last_send c' = (if \<exists>q \<in> set (drop k (mq_abs mq)). due now (mc_response_timeout c) q then now else mc_time_of_last_send c) \<and>
    length (mq_mem mq') = length (mq_mem mq)"
  using assms
proof (induction "length (mq_msgs mq) - k" arbitrary: k c mq)
  case 0
  then have "k = length (mq_msgs mq)" "length (mq_abs mq) = length (mq_msgs mq)" by (simp_all add: mq_abs_def)
  then show ?case using 0 by (simp add: queue_out_def queue_send_def)
next
  case (Suc n)
  let ?to = "mc_response_timeout c"
  have k: "k < length (mq_msgs mq)" using Suc(2) by linarith
  have len: "length (mq_abs mq) = length (mq_msgs mq)" by (simp add: mq_abs_def)
  define q where "q = mq_abs mq ! k"
  obtain c1 mq1 where s1: "send_message now k c [] b = Some (Send_next, c1, [], if due now ?to q then fst q else [], b)"
      "mc_mq c1 = Some mq1" "mq_good mq1" "mq_abs mq1 = (mq_abs mq)[k := if due now ?to q then mark_sent now q else q]"
      "mc_send_offset c1 = 0" "mc_response_timeout c1 = ?to" "mc_error c1 = mc_error c" "mc_keep_alive c1 = mc_keep_alive c"
      "mc_recv c1 = mc_recv c" "mc_time_of_last_send c1 = (if due now ?to q then now else mc_time_of_last_send c)"
      "length (mq_mem mq1) = length (mq_mem mq)"
    using send_message_all [OF Suc(3,4) k Suc(6), of now b] unfolding q_def by blast
  have l1: "length (mq_msgs mq1) = length (mq_msgs mq)" using arg_cong [OF s1(4), of length] by (simp add: mq_abs_def)
  have "n = length (mq_msgs mq1) - Suc k" "Suc k \<le> length (mq_msgs mq1)" using Suc(2) k l1 by simp_all
  from Suc(1) [OF this(1) s1(2,3) this(2) s1(5)] obtain c' mq' where
    r: "send_loop now [Suc k..<length (mq_msgs mq1)] c1 [] b = Some (Send_next, c', [], queue_out now ?to (drop (Suc k) (mq_abs mq1)))"
      "mc_mq c' = Some mq'" "mq_good mq'" "mq_abs mq' = take (Suc k) (mq_abs mq1) @ queue_send now ?to (drop (Suc k) (mq_abs mq1))"
      "mc_send_offset c' = 0" "mc_error c' = mc_error c1" "mc_keep_alive c' = mc_keep_alive c1" "mc_recv c' = mc_recv c1"
      "mc_time_of_last_send c' = (if \<exists>q \<in> set (drop (Suc k) (mq_abs mq1)). due now ?to q then now else mc_time_of_last_send c1)"
      "length (mq_mem mq') = length (mq_mem mq1)"
    unfolding s1(6) by blast
  have d: "drop (Suc k) (mq_abs mq1) = drop (Suc k) (mq_abs mq)" "drop k (mq_abs mq) = q # drop (Suc k) (mq_abs mq)"
    using k len by (simp_all add: s1(4) q_def Cons_nth_drop_Suc)
  have t: "take (Suc k) (mq_abs mq1) = take k (mq_abs mq) @ [if due now ?to q then mark_sent now q else q]"
    using k len by (simp add: s1(4) take_Suc_conv_app_nth)
  have "send_loop now [k..<length (mq_msgs mq)] c [] b = Some (Send_next, c', [], queue_out now ?to (drop k (mq_abs mq)))"
    using k r(1) s1(1) by (simp add: upt_conv_Cons l1 d queue_out_def)
  moreover have "mq_abs mq' = take k (mq_abs mq) @ queue_send now ?to (drop k (mq_abs mq))"
    by (simp add: r(4) t d queue_send_def)
  moreover have "mc_time_of_last_send c' = (if \<exists>q \<in> set (drop k (mq_abs mq)). due now ?to q then now else mc_time_of_last_send c)"
    by (auto simp: r(9) s1(10) d)
  ultimately show ?case using r(2,3,5-8,10) s1(7-9,11) by (intro exI [of _ c'] exI [of _ mq']) simp
qed

section \<open>The invariant of the client\<close>

lemma mq_good_abs: "mq_good mq \<longleftrightarrow> mq_ok mq \<and> (\<lambda>(p, st, t, c, i). c) ` set (mq_abs mq) \<subseteq> client_types"
  by (simp add: mq_good_def mq_abs_def queued_of_def image_image)

lemma set_queue_clean: "set (queue_clean qs) \<subseteq> set qs"
  by (auto simp: queue_clean_def dest: set_dropWhileD)

lemma length_packets:
  "packets_from off ms = Some c \<Longrightarrow> c \<le> length mem \<Longrightarrow> off + length (concat (map (fst \<circ> queued_of mem) ms)) = c"
proof (induction ms arbitrary: off)
  case (Cons m ms)
  then have m: "qm_start m = off" "packets_from (off + qm_size m) ms = Some c" by (auto split: if_splits)
  have "off + qm_size m \<le> c" by (rule packets_fromD(1) [OF m(2)])
  then show ?case using Cons.IH [OF m(2) Cons.prems(2)] Cons.prems(2) m(1) by (simp add: queued_of_def)
qed simp

lemma mq_curr_sz_room: "mq_ok mq \<Longrightarrow> mq_curr_sz mq = queue_room (length (mq_mem mq)) (mq_abs mq)"
  using length_packets [of 0 "mq_msgs mq" "mq_curr mq" "mq_mem mq"]
  by (auto simp: mq_ok_def queue_room_def mq_abs_def MQTT_MQ_CURRSZ_def Let_def)

lemma length_mq_mem_clean: "mq_ok mq \<Longrightarrow> length (mq_mem (mqtt_mq_clean mq)) = length (mq_mem mq)"
  by (auto simp: mqtt_mq_clean_def Let_def mq_ok_def mem_write_def)

context packer
begin

text \<open>A packet of \<open>m\<close> bytes is queued exactly when there is room for it, before or after the queue is cleaned.\<close>

lemma try_pack_sized:
  assumes "mq_ok mq" and "0 < m" and big: "\<And>n. m \<le> n \<Longrightarrow> pack n = (Inr m, p)" and small: "\<And>n. n < m \<Longrightarrow> \<exists>bs. pack n = (Inr 0, bs)"
    and t: "mq_try_pack pack old mq = (err, mq')"
  defines "item \<equiv> (p, MQTT_QUEUED_UNSENT, qm_time_sent old, qm_control_type old, qm_packet_id old)" and "sz \<equiv> length (mq_mem mq)"
  shows "if m \<le> queue_room sz (mq_abs mq) then err = None \<and> mq_abs mq' = mq_abs mq @ [item]
    else if m \<le> queue_room sz (queue_clean (mq_abs mq)) then err = None \<and> mq_abs mq' = queue_clean (mq_abs mq) @ [item]
    else err = Some MQTT_ERROR_SEND_BUFFER_IS_FULL \<and> mq_abs mq' = queue_clean (mq_abs mq)"
proof -
  have direct: "err' = None \<and> mq_abs q' = mq_abs q @ [item]" if "mq_ok q" "m \<le> mq_curr_sz q" "mq_try_pack pack old q = (err', q')" for q err' q'
    by (rule try_pack_room [OF that(1) big [OF that(2)] assms(2), of old]) (use that(3) in \<open>simp add: item_def\<close>)
  note rm = mq_curr_sz_room [OF assms(1), folded sz_def]
  show ?thesis
  proof (cases "m \<le> mq_curr_sz mq")
    case True
    then show ?thesis using direct [OF assms(1) _ t] rm by simp
  next
    case False
    then obtain bs where "pack (mq_curr_sz mq) = (Inr 0, bs)" using small by fastforce
    then obtain q where q: "pack_at_curr pack mq = (Inr 0, q)" by (simp add: pack_at_curr_def)
    note pq = pack_at_curr [OF assms(1) q]
    define q2 where "q2 = mqtt_mq_clean q"
    have lq: "length (mq_mem q) = sz" using fits [of "mq_curr_sz mq"] q mq_okD(1) [OF assms(1)] unfolding sz_def
      by (fastforce simp: pack_at_curr_def split: prod.splits)
    have c: "mq_ok q2" "mq_abs q2 = queue_clean (mq_abs mq)" "length (mq_mem q2) = sz"
      using mq_clean [of q] length_mq_mem_clean [of q] pq lq by (auto simp: q2_def)
    note rm2 = mq_curr_sz_room [OF c(1), unfolded c(2,3)]
    show ?thesis
    proof (cases "m \<le> mq_curr_sz q2")
      case True
      then have "fst (pack_at_curr pack q2) = Inr m" using big by (simp add: pack_at_curr_def)
      then have "mq_try_pack pack old q2 = (err, mq')" using t q assms(2) unfolding q2_def
        by (cases "pack_at_curr pack (mqtt_mq_clean q)") (simp add: mq_try_pack_def)
      from direct [OF c(1) True this] show ?thesis using False True rm rm2 c(2) by simp
    next
      case f2: False
      then obtain bs where "pack (mq_curr_sz q2) = (Inr 0, bs)" using small by fastforce
      then obtain q3 where q3: "pack_at_curr pack q2 = (Inr 0, q3)" by (simp add: pack_at_curr_def)
      have "err = Some MQTT_ERROR_SEND_BUFFER_IS_FULL \<and> mq' = q3" using t q q3 unfolding q2_def by (auto simp: mq_try_pack_def)
      then show ?thesis using pack_at_curr [OF c(1) q3] False f2 rm rm2 c(2) by simp
    qed
  qed
qed

lemma try_pack_good:
  assumes "mq_good mq" and "qm_control_type old \<in> client_types" and "mq_try_pack pack old mq = (err, mq')"
  shows "mq_good mq'"
proof -
  have ok: "mq_ok mq" using assms(1) by (simp add: mq_good_def)
  note t = try_pack [OF ok assms(3)]
  have sub: "set xs \<subseteq> set (mq_abs mq)" if "xs \<in> {mq_abs mq, queue_clean (mq_abs mq)}" for xs
    using that set_queue_clean [of "mq_abs mq"] by auto
  have "\<exists>xs ys. mq_abs mq' = xs @ ys \<and> set xs \<subseteq> set (mq_abs mq) \<and> (\<lambda>(p, st, t, c, i). c) ` set ys \<subseteq> client_types"
  proof (cases err)
    case None
    have "\<exists>xs \<in> {mq_abs mq, queue_clean (mq_abs mq)}. \<exists>n p. pack n = (Inr (length p), p) \<and> p \<noteq> [] \<and>
        mq_abs mq' = xs @ [(p, MQTT_QUEUED_UNSENT, qm_time_sent old, qm_control_type old, qm_packet_id old)]"
      using t unfolding None option.case by (rule conjunct2)
    then obtain xs p where x: "xs \<in> {mq_abs mq, queue_clean (mq_abs mq)}"
        "mq_abs mq' = xs @ [(p, MQTT_QUEUED_UNSENT, qm_time_sent old, qm_control_type old, qm_packet_id old)]" by blast
    show ?thesis using sub [OF x(1)] assms(2)
      by (intro exI [of _ xs] exI [of _ "[(p, MQTT_QUEUED_UNSENT, qm_time_sent old, qm_control_type old, qm_packet_id old)]"]) (simp add: x(2))
  next
    case (Some e)
    have "\<exists>xs \<in> {mq_abs mq, queue_clean (mq_abs mq)}. mq_abs mq' = xs" using t unfolding Some option.case by (rule conjunct2)
    then have "mq_abs mq' \<in> {mq_abs mq, queue_clean (mq_abs mq)}" by blast
    from sub [OF this] show ?thesis by (intro exI [of _ "mq_abs mq'"] exI [of _ "[]"]) simp
  qed
  then obtain xs ys where x: "mq_abs mq' = xs @ ys" "set xs \<subseteq> set (mq_abs mq)" "(\<lambda>(p, st, t, c, i). c) ` set ys \<subseteq> client_types" by blast
  have "(\<lambda>(p, st, t, c, i). c) ` set xs \<subseteq> client_types"
    by (rule order_trans [OF image_mono [OF x(2)] conjunct2 [OF assms(1) [unfolded mq_good_abs]]])
  then show ?thesis using x(3) conjunct1 [OF t] by (simp only: mq_good_abs x(1) set_append image_Un Un_least simp_thms)
qed

end

lemma client_good_upd [simp]:
  "client_good (c\<lparr>mc_error := e\<rparr>) = client_good c" "client_good (c\<lparr>mc_send_offset := k\<rparr>) = client_good c"
  "client_good (c\<lparr>mc_time_of_last_send := t\<rparr>) = client_good c" "client_good (c\<lparr>mc_number_of_timeouts := n\<rparr>) = client_good c"
  by (simp_all add: client_good_def)


lemma client_try_pack_good:
  assumes "packer pack" and "qm_control_type old \<in> client_types" and "client_good c" and "mqtt_client_try_pack pack old c = Some (ret, c')"
  shows "client_good c' \<and> mc_recv c' = mc_recv c"
proof -
  obtain mq sz buf where c: "mc_mq c = Some mq" "mq_good mq" "mc_recv c = Some (sz, buf)" "length buf \<le> sz"
    using assms(3) by (auto simp: client_good_def)
  show ?thesis
  proof (cases "negative (mc_error c)")
    case False
    obtain err mq' where t: "mq_try_pack pack old mq = (err, mq')" by fastforce
    have "mq_good mq'" by (rule packer.try_pack_good [OF assms(1) c(2) assms(2) t])
    then show ?thesis using assms(4) False c(1,3,4) t
      by (cases err) (auto simp: mqtt_client_try_pack_def client_good_def)
  qed (use assms in \<open>auto simp: mqtt_client_try_pack_def\<close>)
qed

lemma queue_pubxxx_good:
  assumes "ctype \<in> {4, 5, 6, 7}" and "client_good c" and "queue_pubxxx ctype old pid c = Some (ret, c')"
  shows "client_good c' \<and> mc_recv c' = mc_recv c"
  using client_try_pack_good [OF pubxxx.packer_axioms, of "old\<lparr>qm_control_type := ctype, qm_packet_id := pid\<rparr>" c ctype pid ret c'] assms
  by (auto simp: queue_pubxxx_def client_types_def)

lemma release_good:
  assumes "client_good c" and "release_message ctype pid c = Some (ret, c')"
  shows "client_good c' \<and> mc_recv c' = mc_recv c"
proof -
  obtain mq sz buf where c: "mc_mq c = Some mq" "mq_good mq" "mc_recv c = Some (sz, buf)" "length buf \<le> sz"
    using assms(1) by (auto simp: client_good_def)
  have "mq_good (set_state i st mq)" if "mqtt_mq_find mq ctype pid = Some i" for i st
    unfolding set_state_def using that by (intro mq_good_update [OF c(2)]) (auto simp: mqtt_mq_find_def dest: find_index_SomeD)
  then show ?thesis using assms c by (auto simp: release_message_def client_good_def split: option.splits)
qed

lemma and_then_good:
  assumes "\<And>ret c'. r = Some (ret, c') \<Longrightarrow> client_good c' \<and> mc_recv c' = x"
    and "\<And>c ret c'. client_good c \<Longrightarrow> f c = Some (ret, c') \<Longrightarrow> client_good c' \<and> mc_recv c' = mc_recv c"
    and "and_then r f = Some (ret, c')"
  shows "client_good c' \<and> mc_recv c' = x"
proof -
  obtain ret0 c0 where r: "r = Some (ret0, c0)" using assms(3) by (cases r) (auto simp: and_then_def)
  show ?thesis
  proof (cases "ret0 = MQTT_OK")
    case True
    then have "f c0 = Some (ret, c')" using assms(3) r by (simp add: and_then_def)
    then show ?thesis using assms(2) [of c0 ret c'] assms(1) [OF r] by simp
  next
    case False
    then have "c' = c0\<lparr>mc_error := ret0\<rparr>" using assms(3) r by (auto simp: and_then_def)
    then show ?thesis using assms(1) [OF r] by simp
  qed
qed

lemma fail_with_good: "client_good c \<Longrightarrow> fail_with e c = Some (ret, c') \<Longrightarrow> client_good c' \<and> mc_recv c' = mc_recv c"
  by (auto simp: fail_with_def)

lemma ok_good: "client_good c \<Longrightarrow> Some (MQTT_OK, c) = Some (ret, c') \<Longrightarrow> client_good c' \<and> mc_recv c' = mc_recv c"
  by simp

lemma release_then_queue_good:
  assumes "client_good c" and "t' \<in> {4, 5, 6, 7}"
    and "and_then (and_then (release_message t p c) (queue_pubxxx t' old pid)) (\<lambda>c. Some (MQTT_OK, c)) = Some (ret, c')"
  shows "client_good c' \<and> mc_recv c' = mc_recv c"
proof (rule and_then_good [OF _ ok_good assms(3)])
  fix ret1 c1
  assume "and_then (release_message t p c) (queue_pubxxx t' old pid) = Some (ret1, c1)"
  from and_then_good [OF release_good [OF assms(1)] queue_pubxxx_good [OF assms(2)] this]
  show "client_good c1 \<and> mc_recv c1 = mc_recv c" .
qed

lemma handle_ack_good:
  assumes "client_good c" and "handle_ack old r c = Some (ret, c')"
  shows "client_good c' \<and> mc_recv c' = mc_recv c"
proof (cases r)
  case (Connack flags code)
  show ?thesis
    by (rule and_then_good [OF release_good [OF assms(1)] _ assms(2) [unfolded Connack handle_ack.simps]])
      (auto split: if_splits dest: fail_with_good)
next
  case (Suback pid codes)
  show ?thesis
    by (rule and_then_good [OF release_good [OF assms(1)] _ assms(2) [unfolded Suback handle_ack.simps]])
      (auto split: if_splits dest: fail_with_good)
next
  case (Pubrec pid)
  obtain dup where "already_queued 6 pid c = Some dup" using assms(2) Pubrec by (cases "already_queued 6 pid c") simp_all
  then show ?thesis using assms(2) release_then_queue_good [OF assms(1), of 6 3 "Some pid" old pid ret c'] assms(1) Pubrec
    by (cases dup) (simp_all add: mqtt_pubrel_def)
next
  case (Pubrel pid)
  then show ?thesis using assms(2) release_then_queue_good [OF assms(1), of 7 5 "Some pid" old pid ret c'] by (simp add: mqtt_pubcomp_def)
qed (use assms release_good [OF assms(1)] in auto)

lemma handle_publish_good:
  assumes "client_good c" and "handle_publish loadb old qos pid msg c = Some (ret, c', t)"
  shows "client_good c' \<and> mc_recv c' = mc_recv c"
proof -
  obtain dup where d: "(if qos = 2 then already_queued 5 pid c else Some False) = Some dup"
    using assms(2) unfolding handle_publish_def by (cases "if qos = 2 then already_queued 5 pid c else Some False") simp_all
  show ?thesis
  proof (cases dup)
    case True
    then show ?thesis using assms d by (simp add: handle_publish_def)
  next
    case False
    let ?st = "if qos = 1 then mqtt_puback old pid c else if qos = 2 then mqtt_pubrec old pid c else Some (MQTT_OK, c)"
    have e: "handle_publish loadb old qos pid msg c = do { (ret, c) \<leftarrow> ?st;
        if ret \<noteq> MQTT_OK then Some (ret, c\<lparr>mc_error := ret\<rparr>, False) else do { trigger \<leftarrow> mqtt_publish_callback loadb msg; Some (MQTT_OK, c, trigger) } }"
      using d False by (simp only: handle_publish_def bind.simps if_False)
    then obtain ret0 c0 where s: "?st = Some (ret0, c0)" using assms(2) by (cases ?st) auto
    have g: "client_good c0 \<and> mc_recv c0 = mc_recv c"
      using s assms(1) queue_pubxxx_good [of 4 c old pid ret0 c0] queue_pubxxx_good [of 5 c old pid ret0 c0]
      by (auto simp: mqtt_puback_def mqtt_pubrec_def split: if_splits)
    then show ?thesis using assms(2) unfolding e s by (auto simp: bind_eq_Some_conv split: if_splits)
  qed
qed

lemma handle_response_good:
  assumes "client_good c" and "handle_response loadb old r c = Some (ret, c', t)"
  shows "client_good c' \<and> mc_recv c' = mc_recv c"
  using assms handle_ack_good [OF assms(1), of old r] handle_publish_good [OF assms(1)]
  by (cases r) (auto simp: handle_response_def bind_eq_Some_conv)

lemma recvall_fits: "mqtt_pal_recvall evs n = (err, got, evs') \<Longrightarrow> length got \<le> n"
proof (induction evs n arbitrary: got err evs' rule: mqtt_pal_recvall.induct)
  case (4 bs evs n)
  show ?case
  proof (cases "bs = [] \<or> n = 0 \<or> length bs \<ge> n")
    case True
    then show ?thesis using "4.prems" by (auto split: if_splits)
  next
    case False
    obtain e g v where r: "mqtt_pal_recvall evs (n - length bs) = (e, g, v)" by (cases "mqtt_pal_recvall evs (n - length bs)")
    then have "length g \<le> n - length bs" using "4.IH" False by (auto simp: not_le)
    then show ?thesis using "4.prems" False r by auto
  qed
qed auto

lemma recv_turn_good:
  assumes "client_good c" and "recv_turn loadb old evs c = Some (ret, c', evs', t, cont)"
  shows "client_good c'"
proof -
  obtain mq sz buf where c: "mc_mq c = Some mq" "mq_good mq" "mc_recv c = Some (sz, buf)" "length buf \<le> sz"
    using assms(1) by (auto simp: client_good_def)
  obtain err got evs1 where g: "mqtt_pal_recvall evs (sz - length buf) = (err, got, evs1)" by (cases "mqtt_pal_recvall evs (sz - length buf)")
  have l: "length (buf @ got) \<le> sz" using recvall_fits [OF g] c(4) by simp
  have c1: "client_good (c\<lparr>mc_recv := Some (sz, buf @ got)\<rparr>)" using c l by (auto simp: client_good_def)
  note tc = recv_turn_cases [OF c(3) g, where loadb = loadb and old = old]
  show ?thesis
  proof (cases "got = [] \<and> negative err")
    case True
    then show ?thesis using assms tc(1) by auto
  next
    case False
    note tc = tc(2-5) [OF False]
    show ?thesis
    proof (cases "mqtt_unpack_response (buf @ got)" rule: unpack_cases)
      case 1
      then show ?thesis using assms tc(1) by simp
    next
      case (2 e)
      then show ?thesis using assms tc(2) c1 by auto
    next
      case 3
      then show ?thesis using assms tc(3) c1 by (auto split: if_splits)
    next
      case (4 n r)
      obtain c2 where h: "handle_response loadb old r (c\<lparr>mc_recv := Some (sz, buf @ got)\<rparr>) = Some (ret, c2, t)"
          "c' = c2\<lparr>mc_recv := Some (sz, drop n (buf @ got))\<rparr>" "cont = (ret = MQTT_OK)"
        using assms(2) tc(4) [OF 4] by (auto simp: bind_eq_Some_conv)
      have "client_good c2" using handle_response_good [OF c1 h(1)] by simp
      then show ?thesis using h(2,3) l by (auto simp: client_good_def)
    qed
  qed
qed

lemma mqtt_recv_good:
  "client_good c \<Longrightarrow> mqtt_recv loadb old evs c = Some (ret, c', evs', t) \<Longrightarrow> client_good c'"
proof (induction loadb old evs c arbitrary: ret c' evs' t rule: mqtt_recv.induct)
  case (1 loadb old evs c)
  obtain ret1 c1 evs1 t1 cont where r: "recv_turn loadb old evs c = Some (ret1, c1, evs1, t1, cont)"
    using "1.prems"(2) by (subst (asm) mqtt_recv.simps) (auto split: option.splits)
  have g: "client_good c1" using recv_turn_good [OF "1.prems"(1) r] by simp
  show ?case
  proof (cases cont)
    case True
    then obtain t2 where "mqtt_recv loadb old evs1 c1 = Some (ret, c', evs', t2)"
      using "1.prems"(2) r by (subst (asm) mqtt_recv.simps) auto
    then show ?thesis using "1.IH" [OF r refl refl refl refl True g] by blast
  next
    case False
    then show ?thesis using "1.prems"(2) r g by (subst (asm) mqtt_recv.simps) auto
  qed
qed

lemma message_sent_good:
  assumes "client_good c" and "mc_mq c = Some mq" and "i < length (mq_msgs mq)"
  shows "client_good (snd (message_sent now i mq c))"
proof -
  obtain sz buf where c: "mq_good mq" "mc_recv c = Some (sz, buf)" "length buf \<le> sz"
    using assms(1,2) by (auto simp: client_good_def)
  define m where "m = mq_msgs mq ! i"
  have "qm_control_type m \<in> client_types" using c(1) assms(3) by (auto simp: mq_good_def m_def)
  then obtain st where st: "sent_state (qm_control_type m) (mq_mem mq ! qm_start m) = Some (st, mq_mem mq ! qm_start m)"
    by (auto simp: sent_state_def client_types_def)
  have "mq_good (mq\<lparr>mq_msgs := (mq_msgs mq)[i := m\<lparr>qm_time_sent := now, qm_state := st\<rparr>]\<rparr>)"
    by (rule mq_good_update [OF c(1) assms(3)]) (simp_all add: m_def)
  then show ?thesis using c(2,3) st by (simp add: message_sent_def m_def [symmetric] client_good_def Let_def)
qed

lemma send_message_good:
  assumes "client_good c" and "mc_mq c = Some mq" and "i < length (mq_msgs mq)"
    and "send_message now i c evs b = Some (res, c', evs', out, b')"
  shows "client_good c' \<and> (\<exists>mq'. mc_mq c' = Some mq' \<and> length (mq_msgs mq') = length (mq_msgs mq))"
proof -
  define m where "m = mq_msgs mq ! i"
  define c0 where "c0 = (if timed_out now c m then c\<lparr>mc_number_of_timeouts := mc_number_of_timeouts c + 1, mc_send_offset := 0\<rparr> else c)"
  have c0: "client_good c0" "mc_mq c0 = Some mq" using assms(1,2) by (simp_all add: c0_def)
  obtain err n evs1 where s: "mqtt_pal_sendall evs (qm_size m - mc_send_offset c0) = (err, n, evs1)"
    by (cases "mqtt_pal_sendall evs (qm_size m - mc_send_offset c0)")
  obtain res1 c1 where ms: "message_sent now i mq c0 = (res1, c1)" by fastforce
  have "client_good c1" using message_sent_good [OF c0 assms(3), of now] ms by simp
  moreover have "\<exists>mq'. mc_mq c1 = Some mq' \<and> length (mq_msgs mq') = length (mq_msgs mq)"
    using ms by (auto simp: message_sent_def Let_def split: option.splits)
  moreover have "c' \<in> {c0, c0\<lparr>mc_error := err\<rparr>, c0\<lparr>mc_send_offset := mc_send_offset c0 + n\<rparr>, c1}"
    using assms(4) by (simp add: send_message_def assms(2) Let_def m_def [symmetric] c0_def [symmetric] s ms split: if_splits)
  ultimately show ?thesis using c0 by auto
qed

lemma send_loop_good:
  assumes "client_good c" and "mc_mq c = Some mq" and "\<forall>i \<in> set is. i < length (mq_msgs mq)" and "send_loop now is c evs b = Some (res, c', evs', out)"
  shows "client_good c'"
  using assms
proof (induction "is" arbitrary: c mq evs b out)
  case (Cons i "is")
  obtain res1 c1 evs1 out1 b1 where s: "send_message now i c evs b = Some (res1, c1, evs1, out1, b1)"
    using Cons.prems(4) by (cases "send_message now i c evs b") auto
  have "i < length (mq_msgs mq)" using Cons.prems(3) by simp
  from send_message_good [OF Cons.prems(1,2) this s] obtain mq1 where m: "client_good c1" "mc_mq c1 = Some mq1" "length (mq_msgs mq1) = length (mq_msgs mq)"
    by blast
  show ?case
  proof (cases "res1 = Send_next")
    case True
    then obtain out2 where "send_loop now is c1 evs1 b1 = Some (res, c', evs', out2)" using Cons.prems(4) s by auto
    then show ?thesis using Cons.IH [OF m(1,2)] Cons.prems(3) m(3) by simp
  qed (use Cons.prems(4) s m in auto)
qed simp

lemma mqtt_ping_good:
  assumes "client_good c" and "mqtt_ping old c = Some (ret, c')"
  shows "client_good c'"
  using client_try_pack_good [OF ping.packer_axioms, of "old\<lparr>qm_control_type := 12\<rparr>" c ret c'] assms
  by (simp add: mqtt_ping_def client_types_def)

lemma mqtt_send_good:
  assumes "client_good c" and "mqtt_send now old evs c = Some (ret, c', evs', out)"
  shows "client_good c'"
proof (cases "negative (mc_error c) \<and> mc_error c \<noteq> MQTT_ERROR_SEND_BUFFER_IS_FULL")
  case False
  obtain mq where mq: "mc_mq c = Some mq" using assms(1) by (auto simp: client_good_def)
  note d = mqtt_send_def [of now old evs c, unfolded mq bind.simps]
  obtain res c1 evs1 out1 where l: "send_loop now [0..<length (mq_msgs mq)] c evs False = Some (res, c1, evs1, out1)"
    using assms(2) False by (cases "send_loop now [0..<length (mq_msgs mq)] c evs False") (auto simp: d)
  have g: "client_good c1" by (rule send_loop_good [OF assms(1) mq _ l]) simp
  have "c' = c1 \<or> (\<exists>r c2. mqtt_ping old c1 = Some (r, c2) \<and> (c' = c2 \<or> c' = c2\<lparr>mc_error := r\<rparr>))"
    using assms(2) False l by (auto simp: d bind_eq_Some_conv split: if_splits send_outcome.splits)
  then show ?thesis using g mqtt_ping_good [OF g] by auto
qed (use assms in \<open>auto simp: mqtt_send_def\<close>)

lemma mqtt_sync_good:
  assumes "client_good c" and "mqtt_sync inp c = Some (err, c', out, trigger)"
  shows "client_good c'"
proof -
  define c0 where "c0 = (if mc_error c = MQTT_ERROR_RECONNECTING then c\<lparr>mc_error := MQTT_OK\<rparr> else c)"
  have c0: "client_good c0" using assms(1) by (simp add: c0_def)
  note d = mqtt_sync_def [of inp c, unfolded Let_def, folded c0_def]
  obtain err1 c1 evs t where r: "mqtt_recv (si_loadb inp) (si_old inp) (si_recv inp) c0 = Some (err1, c1, evs, t)"
    using assms(2) by (cases "mqtt_recv (si_loadb inp) (si_old inp) (si_recv inp) c0") (auto simp: d)
  have g: "client_good c1" by (rule mqtt_recv_good [OF c0 r])
  show ?thesis
  proof (cases "err1 = MQTT_OK")
    case True
    then obtain evs' where "mqtt_send (si_now inp) (si_old inp) (si_send inp) c1 = Some (err, c', evs', out)"
      using assms(2) r by (auto simp: d bind_eq_Some_conv)
    then show ?thesis by (rule mqtt_send_good [OF g])
  qed (use assms(2) r g in \<open>auto simp: d\<close>)
qed

section \<open>Sending: the whole call\<close>

lemma ping_packet:
  shows ping_packet_room: "2 \<le> n \<Longrightarrow> mqtt_pack_ping_request n = (Inr 2, [0xC0, 0])"
    and ping_packet_none: "n < 2 \<Longrightarrow> \<exists>p. mqtt_pack_ping_request n = (Inr 0, p)"
proof -
  have v: "mqtt_fixed_header_rule_violation \<lparr>fh_control_type = 12, fh_control_flags = 0, fh_remaining_length = 0\<rparr> = None"
    by (simp add: mqtt_fixed_header_rule_violation_def control_type_is_valid_def required_flags_def)
  show "mqtt_pack_ping_request n = (Inr 2, [0xC0, 0])" if "2 \<le> n"
    using pack_length_small [OF _ that, of 0] that by (simp add: mqtt_pack_ping_request_def mqtt_pack_fixed_header_def v)
  show "\<exists>p. mqtt_pack_ping_request n = (Inr 0, p)" if "n < 2"
  proof -
    have "n = 0 \<or> n = 1" using that by auto
    then show ?thesis by (auto simp: mqtt_pack_ping_request_def mqtt_pack_fixed_header_def v)
  qed
qed

lemma send_refines:
  assumes "mc_mq c = Some mq" and "mq_good mq" and "mc_send_offset c = 0" and "mc_error c = MQTT_OK"
  shows "\<exists>ret c' mq'. mqtt_send now old [] c = Some (ret, c', [], queue_out now (mc_response_timeout c) (mq_abs mq)) \<and>
    mc_mq c' = Some mq' \<and> mq_good mq' \<and>
    (if ping_due now c (mq_abs mq) then
       (let ping = ([0xC0, 0], MQTT_QUEUED_UNSENT, qm_time_sent old, MQTT_CONTROL_PINGREQ, qm_packet_id old); room = queue_room (length (mq_mem mq)) in
        if 2 \<le> room (mq_abs mq) then ret = MQTT_OK \<and> mq_abs mq' = mq_abs mq @ [ping]
        else if 2 \<le> room (queue_clean (mq_abs mq)) then ret = MQTT_OK \<and> mq_abs mq' = queue_clean (mq_abs mq) @ [ping]
        else ret = MQTT_ERROR_SEND_BUFFER_IS_FULL \<and> mc_error c' = ret \<and> mq_abs mq' = queue_clean (mq_abs mq))
     else ret = MQTT_OK \<and> mq_abs mq' = queue_send now (mc_response_timeout c) (mq_abs mq))"
proof -
  let ?to = "mc_response_timeout c" and ?qs = "mq_abs mq"
  obtain c1 mq1 where l: "send_loop now [0..<length (mq_msgs mq)] c [] False = Some (Send_next, c1, [], queue_out now ?to ?qs)"
      "mc_mq c1 = Some mq1" "mq_good mq1" "mq_abs mq1 = queue_send now ?to ?qs" "mc_error c1 = MQTT_OK" "mc_keep_alive c1 = mc_keep_alive c"
      "mc_time_of_last_send c1 = (if \<exists>q \<in> set ?qs. due now ?to q then now else mc_time_of_last_send c)"
      "length (mq_mem mq1) = length (mq_mem mq)"
    using send_loop_all [OF assms(1,2) le0 assms(3), of now False] assms(4) by auto
  have e: "mqtt_send now old [] c = (if now > mc_time_of_last_send c1 + uint (mc_keep_alive c1) then do {
        (ret, c) \<leftarrow> mqtt_ping old c1;
        if ret \<noteq> MQTT_OK then Some (ret, c\<lparr>mc_error := ret\<rparr>, [], queue_out now ?to ?qs) else Some (MQTT_OK, c, [], queue_out now ?to ?qs) }
      else Some (MQTT_OK, c1, [], queue_out now ?to ?qs))"
    using assms(1,4) l(1) by (simp add: mqtt_send_def negative_def)
  have pd: "now > mc_time_of_last_send c1 + uint (mc_keep_alive c1) \<longleftrightarrow> ping_due now c ?qs"
    by (auto simp: l(6,7) ping_due_def)
  show ?thesis
  proof (cases "ping_due now c ?qs")
    case False
    then show ?thesis using e pd l(2-4) by simp
  next
    case True
    then have q: "mq_abs mq1 = ?qs" by (auto simp: l(4) queue_send_def ping_due_def intro!: map_idI)
    let ?old = "old\<lparr>qm_control_type := 12\<rparr>"
    obtain err mq' where t: "mq_try_pack mqtt_pack_ping_request ?old mq1 = (err, mq')" by fastforce
    have g: "mq_good mq'" by (rule ping.try_pack_good [OF l(3) _ t]) (simp add: client_types_def)
    have ok: "mq_ok mq1" using l(3) by (simp add: mq_good_def)
    note tp = ping.try_pack_sized [OF ok _ ping_packet_room ping_packet_none t, unfolded q l(8), simplified]
    show ?thesis
    proof (cases err)
      case None
      have "mqtt_send now old [] c = Some (MQTT_OK, c1\<lparr>mc_mq := Some mq'\<rparr>, [], queue_out now ?to ?qs)"
        using e pd True t None l(2,5) by (simp add: mqtt_ping_def mqtt_client_try_pack_def negative_def)
      then show ?thesis using True tp None g
        by (intro exI [of _ MQTT_OK] exI [of _ "c1\<lparr>mc_mq := Some mq'\<rparr>"] exI [of _ mq']) (simp add: Let_def split: if_splits)
    next
      case (Some er)
      then have er: "er = MQTT_ERROR_SEND_BUFFER_IS_FULL" using tp by (simp split: if_splits)
      have "mqtt_send now old [] c = Some (er, c1\<lparr>mc_error := er, mc_mq := Some mq'\<rparr>, [], queue_out now ?to ?qs)"
        using e pd True t Some l(2,5) by (simp add: mqtt_ping_def mqtt_client_try_pack_def negative_def er)
      then show ?thesis using True tp Some g
        by (intro exI [of _ er] exI [of _ "c1\<lparr>mc_error := er, mc_mq := Some mq'\<rparr>"] exI [of _ mq']) (simp add: Let_def split: if_splits)
    qed
  qed
qed

text \<open>
  C21: When no message is partly sent and the system takes what it is given, a call of \<open>mqtt_send\<close> sends the packets of exactly
  the messages that are due, in the order of the queue, and marks them. When nothing was due for longer than the keep-alive
  time, it queues a ping request instead: behind the messages when there is room for its two bytes, behind what
  cleaning leaves when there is room only then, and otherwise the call reports that the buffer is full.
\<close>

theorem mqtt_send_refines_queue:
  assumes "mc_mq c = Some mq" and "mq_good mq" and "mc_send_offset c = 0" and "mc_error c = MQTT_OK"
  shows "\<exists>ret c' mq'. mqtt_send now old [] c = Some (ret, c', [], queue_out now (mc_response_timeout c) (mq_abs mq)) \<and>
    mc_mq c' = Some mq' \<and> mq_good mq' \<and>
    (if ping_due now c (mq_abs mq) then
       (let ping = ([0xC0, 0], MQTT_QUEUED_UNSENT, qm_time_sent old, MQTT_CONTROL_PINGREQ, qm_packet_id old); room = queue_room (length (mq_mem mq)) in
        if 2 \<le> room (mq_abs mq) then ret = MQTT_OK \<and> mq_abs mq' = mq_abs mq @ [ping]
        else if 2 \<le> room (queue_clean (mq_abs mq)) then ret = MQTT_OK \<and> mq_abs mq' = queue_clean (mq_abs mq) @ [ping]
        else ret = MQTT_ERROR_SEND_BUFFER_IS_FULL \<and> mc_error c' = ret \<and> mq_abs mq' = queue_clean (mq_abs mq))
     else ret = MQTT_OK \<and> mq_abs mq' = queue_send now (mc_response_timeout c) (mq_abs mq))"
  by (rule send_refines [OF assms])

definition sender_demo :: mqtt_client where
  "sender_demo = mqtt_client_zero\<lparr>mc_error := MQTT_OK, mc_mq := Some mq_demo\<rparr>"

lemma mq_good_demo: "mq_good mq_demo"
  using mq_demo(1,2) by (simp add: mq_good_abs)

theorem mqtt_send_refines_queue_witness:
  "ping_due 1 sender_demo (mq_abs mq_demo) \<and>
   (\<exists>c' mq'. mqtt_send 1 old_demo [] sender_demo = Some (MQTT_OK, c', [], []) \<and> mc_mq c' = Some mq' \<and>
     mq_abs mq' = [([0xC0, 0], MQTT_QUEUED_UNSENT, 0, MQTT_CONTROL_PINGREQ, 0)])"
proof -
  have due: "ping_due 1 sender_demo (mq_abs mq_demo)"
    by (simp add: mq_demo ping_due_def sender_demo_def mqtt_client_zero_def)
  have room: "2 \<le> queue_room (length (mq_mem mq_demo)) (mq_abs mq_demo)"
    using mq_curr_sz_room [OF mq_demo(1)] by (simp add: mq_demo(3))
  have "mc_mq sender_demo = Some mq_demo" "mc_send_offset sender_demo = 0" "mc_error sender_demo = MQTT_OK"
    by (simp_all add: sender_demo_def mqtt_client_zero_def)
  from mqtt_send_refines_queue [OF this(1) mq_good_demo this(2,3), of 1 old_demo] due room
  show ?thesis by (auto simp: mq_demo queue_out_def old_demo_def Let_def)
qed

end
