(* ===== verification/Mqtt_Stream.thy ===== *)
theory Mqtt_Stream
  imports Mqtt_Client
begin

text \<open>
  Receiving (\<open>mqtt_recv\<close> of \<open>linux/mudband_mqtt.c\<close>): the loop over the socket is compared with handling the responses of
  the stream one after the other.
\<close>

section \<open>The stream of packets\<close>

text \<open>Handling a response does not touch the receive buffer.\<close>

abbreviation with_recv :: "(nat \<times> bytes) option \<Rightarrow> mqtt_error \<times> mqtt_client \<Rightarrow> mqtt_error \<times> mqtt_client" where
  "with_recv x \<equiv> map_prod (\<lambda>r. r) (mc_recv_update (\<lambda>_. x))"

lemma try_pack_recv:
  "mqtt_client_try_pack pack old (c\<lparr>mc_recv := x\<rparr>) = map_option (with_recv x) (mqtt_client_try_pack pack old c)"
  by (cases "mc_mq c") (auto simp: mqtt_client_try_pack_def split: option.splits prod.splits)

lemma release_recv:
  "release_message ctype pid (c\<lparr>mc_recv := x\<rparr>) = map_option (with_recv x) (release_message ctype pid c)"
  by (cases "mc_mq c") (auto simp: release_message_def split: option.splits)

lemma and_then_recv:
  assumes "r' = map_option (with_recv x) r" and "\<And>c. f (c\<lparr>mc_recv := x\<rparr>) = map_option (with_recv x) (f c)"
  shows "and_then r' f = map_option (with_recv x) (and_then r f)"
  using assms by (cases r) (auto simp: and_then_def)

lemma handle_ack_recv: "handle_ack old r (c\<lparr>mc_recv := x\<rparr>) = map_option (with_recv x) (handle_ack old r c)"
proof -
  have f: "fail_with e (c\<lparr>mc_recv := x\<rparr>) = map_option (with_recv x) (fail_with e c)" for e c by (simp add: fail_with_def)
  have q: "queue_pubxxx t old pid (c\<lparr>mc_recv := x\<rparr>) = map_option (with_recv x) (queue_pubxxx t old pid c)" for t pid c
    by (simp add: queue_pubxxx_def try_pack_recv)
  have rel: "and_then (and_then (release_message t p (c\<lparr>mc_recv := x\<rparr>)) (queue_pubxxx t' old pid)) (\<lambda>c. Some (MQTT_OK, c)) =
      map_option (with_recv x) (and_then (and_then (release_message t p c) (queue_pubxxx t' old pid)) (\<lambda>c. Some (MQTT_OK, c)))" for t t' p pid
    by (intro and_then_recv release_recv) (simp_all add: q)
  show ?thesis
  proof (cases r)
    case (Pubrec pid)
    then show ?thesis by (cases "mc_mq c") (simp_all add: already_queued_def mqtt_pubrel_def rel)
  qed (auto intro!: and_then_recv release_recv simp: f q release_recv mqtt_pubcomp_def)
qed

abbreviation with_recv3 :: "(nat \<times> bytes) option \<Rightarrow> mqtt_error \<times> mqtt_client \<times> bool \<Rightarrow> mqtt_error \<times> mqtt_client \<times> bool" where
  "with_recv3 x \<equiv> map_prod (\<lambda>r. r) (map_prod (mc_recv_update (\<lambda>_. x)) (\<lambda>t. t))"

lemma handle_publish_recv:
  "handle_publish loadb old qos pid msg (c\<lparr>mc_recv := x\<rparr>) = map_option (with_recv3 x) (handle_publish loadb old qos pid msg c)"
proof -
  have q: "queue_pubxxx t old pid (c\<lparr>mc_recv := x\<rparr>) = map_option (with_recv x) (queue_pubxxx t old pid c)" for t
    by (simp add: queue_pubxxx_def try_pack_recv)
  have rest: "(map_option (with_recv x) r \<bind> (\<lambda>(ret, c). if ret \<noteq> MQTT_OK then Some (ret, c\<lparr>mc_error := ret\<rparr>, False)
        else do { trigger \<leftarrow> mqtt_publish_callback loadb msg; Some (MQTT_OK, c, trigger) })) =
      map_option (with_recv3 x) (r \<bind> (\<lambda>(ret, c). if ret \<noteq> MQTT_OK then Some (ret, c\<lparr>mc_error := ret\<rparr>, False)
        else do { trigger \<leftarrow> mqtt_publish_callback loadb msg; Some (MQTT_OK, c, trigger) }))" for r
    by (cases r; cases "mqtt_publish_callback loadb msg") auto
  have dup: "already_queued t pid (c\<lparr>mc_recv := x\<rparr>) = already_queued t pid c" for t by (simp add: already_queued_def)
  show ?thesis
  proof (cases "qos = 2")
    case True
    show ?thesis
      by (cases "already_queued 5 pid c") (simp_all add: handle_publish_def True dup mqtt_pubrec_def q rest)
  next
    case False
    then show ?thesis using rest [of "Some (MQTT_OK, c)"] by (simp add: handle_publish_def mqtt_puback_def q rest)
  qed
qed

lemma handle_response_recv:
  "handle_response loadb old r (c\<lparr>mc_recv := x\<rparr>) = map_option (with_recv3 x) (handle_response loadb old r c)"
proof -
  have "(handle_ack old r (c\<lparr>mc_recv := x\<rparr>) \<bind> (\<lambda>(ret, c). Some (ret, c, False))) =
      map_option (with_recv3 x) (handle_ack old r c \<bind> (\<lambda>(ret, c). Some (ret, c, False)))"
    unfolding handle_ack_recv by (cases "handle_ack old r c") auto
  then show ?thesis by (cases r) (simp_all add: handle_response_def handle_publish_recv)
qed

text \<open>The specification: the responses are handled one after the other until one fails.\<close>

fun handle_all :: "(bytes \<Rightarrow> json option) \<Rightarrow> mqtt_queued_message \<Rightarrow> mqtt_response list \<Rightarrow> mqtt_client \<Rightarrow>
    (mqtt_error \<times> mqtt_client \<times> bool) option" where
  "handle_all loadb old [] c = Some (MQTT_OK, c, False)"
| "handle_all loadb old (r # rs) c = do {
     (ret, c, t) \<leftarrow> handle_response loadb old r c;
     if ret = MQTT_OK then do { (ret, c, t') \<leftarrow> handle_all loadb old rs c; Some (ret, c, t \<or> t') }
     else Some (ret, c, t) }"

lemma handle_all_recv:
  "handle_all loadb old rs (c\<lparr>mc_recv := x\<rparr>) = map_option (with_recv3 x) (handle_all loadb old rs c)"
proof (induction rs arbitrary: c)
  case (Cons r rs)
  show ?case
  proof (cases "handle_response loadb old r c")
    case (Some res)
    obtain ret c1 t where res: "res = (ret, c1, t)" by (cases res)
    show ?thesis using Cons.IH [of c1] Some res
      by (cases "handle_all loadb old rs c1") (auto simp: handle_response_recv)
  qed (simp add: handle_response_recv)
qed simp

lemma recvall_chunks:
  assumes "[] \<notin> set chunks" and "0 < n"
  shows "\<exists>rest. mqtt_pal_recvall (map Recv chunks) n = (MQTT_ZERO, take n (concat chunks), map Recv rest) \<and> [] \<notin> set rest \<and>
    concat rest = drop n (concat chunks)"
  using assms
proof (induction chunks arbitrary: n)
  case (Cons b chunks)
  then have b: "b \<noteq> []" by auto
  consider "length b > n" | "length b = n" | "length b < n" by linarith
  then show ?case
  proof cases
    case 1
    then show ?thesis using Cons.prems by (intro exI [of _ "drop n b # chunks"]) auto
  next
    case 2
    then show ?thesis using Cons.prems by (intro exI [of _ chunks]) auto
  next
    case 3
    then obtain rest where "mqtt_pal_recvall (map Recv chunks) (n - length b) = (MQTT_ZERO, take (n - length b) (concat chunks), map Recv rest)"
        "[] \<notin> set rest" "concat rest = drop (n - length b) (concat chunks)"
      using Cons.IH [of "n - length b"] Cons.prems by auto
    then show ?thesis using 3 b by (intro exI [of _ rest]) simp
  qed
qed simp

text \<open>A turn with a whole packet at the front of the stream, however the bytes come.\<close>

lemma recv_turn_packet:
  assumes c: "mc_recv c = Some (sz, buf)" "length buf < sz" and ch: "[] \<notin> set chunks"
    and p: "buf @ concat chunks = p @ more_bytes" "mqtt_packet p r" "length p \<le> sz"
    and h: "handle_response loadb old r c = Some (MQTT_OK, c', t)"
  obtains rest_chunks buf' where
    "recv_turn loadb old (map Recv chunks) c = Some (MQTT_OK, c'\<lparr>mc_recv := Some (sz, buf')\<rparr>, map Recv rest_chunks, t, True)"
    "[] \<notin> set rest_chunks" "length buf' < sz" "buf' @ concat rest_chunks = more_bytes"
proof -
  define got where "got = take (sz - length buf) (concat chunks)"
  obtain ev where g: "mqtt_pal_recvall (map Recv chunks) (sz - length buf) = (MQTT_ZERO, got, map Recv ev)"
      "[] \<notin> set ev" "concat ev = drop (sz - length buf) (concat chunks)"
    using recvall_chunks [OF ch, of "sz - length buf"] c(2) by (auto simp: got_def)
  have nf: "\<not> (got = [] \<and> negative MQTT_ZERO)" by (simp add: negative_def)
  have "buf @ got = take sz (buf @ concat chunks)" using c(2) by (simp add: got_def)
  also have "\<dots> = p @ take (sz - length p) more_bytes" using p(3) by (simp add: p(1))
  finally have b: "buf @ got = p @ take (sz - length p) more_bytes" .
  then have u: "mqtt_unpack_response (buf @ got) = Some (Inr (Some (length p, r)))" using mqtt_packet_frame(1) [OF p(2)] by simp
  define buf' where "buf' = take (sz - length p) more_bytes"
  have d: "drop (length p) (buf @ got) = buf'" by (simp add: b buf'_def)
  have "0 < length p" using unpack_response_consumed [of p] p(2) by (auto simp: mqtt_packet_def)
  moreover have "length buf' \<le> sz - length p" by (simp add: buf'_def)
  ultimately have "length buf' < sz" using p(3) by linarith
  moreover have "recv_turn loadb old (map Recv chunks) c = Some (MQTT_OK, c'\<lparr>mc_recv := Some (sz, buf')\<rparr>, map Recv ev, t, True)"
    using recv_turn_cases(5) [OF c(1) g(1) nf u, where loadb = loadb and old = old] by (simp add: handle_response_recv h d del: drop_append)
  moreover have "concat ev = drop sz (buf @ concat chunks)" using c(2) by (simp add: g(3))
  then have "concat ev = drop (sz - length p) more_bytes" using p(3) by (simp add: p(1))
  then have "buf' @ concat ev = more_bytes" by (simp add: buf'_def)
  ultimately show ?thesis using that g(2) by blast
qed

lemma recv_turn_incomplete:
  assumes c: "mc_recv c = Some (sz, buf)" and ch: "[] \<notin> set chunks"
    and r: "mqtt_unpack_response (buf @ concat chunks) = Some (Inr None)" "length (buf @ concat chunks) < sz"
  shows "recv_turn loadb old (map Recv chunks) c = Some (MQTT_OK, c\<lparr>mc_recv := Some (sz, buf @ concat chunks)\<rparr>, [], False, False)"
proof -
  obtain ev where g: "mqtt_pal_recvall (map Recv chunks) (sz - length buf) = (MQTT_ZERO, take (sz - length buf) (concat chunks), map Recv ev)"
      "[] \<notin> set ev" "concat ev = drop (sz - length buf) (concat chunks)"
    using recvall_chunks [OF ch, of "sz - length buf"] r(2) by auto
  have "concat ev = []" using g(3) r(2) by simp
  then have "ev = []" using g(2) by (cases ev) auto
  then have g': "mqtt_pal_recvall (map Recv chunks) (sz - length buf) = (MQTT_ZERO, concat chunks, [])" using g(1) r(2) by simp
  have nf: "\<not> (concat chunks = [] \<and> negative MQTT_ZERO)" by (simp add: negative_def)
  show ?thesis using recv_turn_cases(4) [OF c g' nf] r by simp
qed

lemma recv_stream:
  assumes "mc_recv c = Some (sz, buf)" and "length buf < sz" and "[] \<notin> set chunks"
    and "buf @ concat chunks = concat ps @ rest" and "list_all2 mqtt_packet ps rs" and "\<forall>p \<in> set ps. length p \<le> sz"
    and "mqtt_unpack_response rest = Some (Inr None)" and "length rest < sz"
    and "handle_all loadb old rs c = Some (MQTT_OK, c', trigger)"
  shows "mqtt_recv loadb old (map Recv chunks) c = Some (MQTT_OK, c'\<lparr>mc_recv := Some (sz, rest)\<rparr>, [], trigger)"
  using assms
proof (induction ps arbitrary: rs c c' buf chunks trigger)
  case Nil
  then have "recv_turn loadb old (map Recv chunks) c = Some (MQTT_OK, c\<lparr>mc_recv := Some (sz, rest)\<rparr>, [], False, False)"
    using recv_turn_incomplete [OF Nil.prems(1,3)] by simp
  then show ?case using Nil.prems(5,9) by (subst mqtt_recv.simps) simp
next
  case (Cons p ps)
  obtain r rs' where rs: "rs = r # rs'" "mqtt_packet p r" "list_all2 mqtt_packet ps rs'" using Cons.prems(5) by (auto simp: list_all2_Cons1)
  obtain c1 t1 t2 where h: "handle_response loadb old r c = Some (MQTT_OK, c1, t1)" "handle_all loadb old rs' c1 = Some (MQTT_OK, c', t2)"
      "trigger = (t1 \<or> t2)"
    using Cons.prems(9) by (auto simp: rs(1) bind_eq_Some_conv split: if_splits)
  have b: "buf @ concat chunks = p @ concat ps @ rest" "length p \<le> sz" using Cons.prems(4,6) by simp_all
  obtain ev x where t: "recv_turn loadb old (map Recv chunks) c = Some (MQTT_OK, c1\<lparr>mc_recv := Some (sz, x)\<rparr>, map Recv ev, t1, True)"
      "[] \<notin> set ev" "length x < sz" "x @ concat ev = concat ps @ rest"
    by (rule recv_turn_packet [OF Cons.prems(1-3) b(1) rs(2) b(2) h(1)])
  have hx: "handle_all loadb old rs' (c1\<lparr>mc_recv := Some (sz, x)\<rparr>) = Some (MQTT_OK, c'\<lparr>mc_recv := Some (sz, x)\<rparr>, t2)"
    by (simp only: handle_all_recv h(2)) simp
  have cr: "mc_recv (c1\<lparr>mc_recv := Some (sz, x)\<rparr>) = Some (sz, x)" by simp
  have pl: "\<forall>p \<in> set ps. length p \<le> sz" using Cons.prems(6) by simp
  have "mqtt_recv loadb old (map Recv ev) (c1\<lparr>mc_recv := Some (sz, x)\<rparr>) = Some (MQTT_OK, c'\<lparr>mc_recv := Some (sz, rest)\<rparr>, [], t2)"
    using Cons.IH [OF cr t(3,2,4) rs(3) pl Cons.prems(7,8) hx] by simp
  then show ?case by (subst mqtt_recv.simps) (simp add: t(1) h(3))
qed

text \<open>
  C18: The client handles the packets of the stream one after the other, however TCP splits it: when the bytes that were
  and that become available are whole packets that fit the buffer and the start of another one, \<open>mqtt_recv\<close> returns
  with the effect of handling the responses in order, and keeps that start in its buffer.
\<close>

theorem mqtt_recv_handles_stream:
  assumes "mc_recv c = Some (sz, buf)" and "length buf < sz" and "[] \<notin> set chunks"
    and "buf @ concat chunks = concat ps @ rest" and "list_all2 mqtt_packet ps rs" and "\<forall>p \<in> set ps. length p \<le> sz"
    and "mqtt_unpack_response rest = Some (Inr None)" and "length rest < sz"
    and "handle_all loadb old rs c = Some (MQTT_OK, c', trigger)"
  shows "mqtt_recv loadb old (map Recv chunks) c = Some (MQTT_OK, c'\<lparr>mc_recv := Some (sz, rest)\<rparr>, [], trigger)"
  by (rule recv_stream) (rule assms)+

definition broker_packet_demo :: bytes where "broker_packet_demo = [0x30, 4] @ [0, 1, 0x61, 0x7B]"

lemma broker_packet_demo: "mqtt_packet broker_packet_demo (Publish 0 0 0 [0x61] 0 [0x7B])"
proof -
  have "mqtt_packet ([0x30, 4] @ mqtt_pack_str [0x61] @ [0x7B]) (Publish 0 0 0 [0x61] 0 [0x7B])"
    by (rule publish_packet [OF publish_header_demo(1) _ _ _ _ _ publish_header_demo(2)]) (simp_all add: publish_header_demo_def)
  then show ?thesis by (simp add: broker_packet_demo_def mqtt_pack_str_def mqtt_pack_uint16_def U16TO8_BIG_def)
qed

definition client_demo :: mqtt_client where
  "client_demo = (mqtt_init (replicate 2048 0) 1024 mqtt_client_zero)\<lparr>mc_error := MQTT_OK\<rparr>"

theorem mqtt_recv_handles_stream_witness:
  "mqtt_recv (\<lambda>bs. None) old_demo (map Recv [[0x30, 4, 0], [1, 0x61, 0x7B, 0x30]]) client_demo =
     Some (MQTT_OK, client_demo\<lparr>mc_recv := Some (1024, [0x30])\<rparr>, [], False)"
proof (rule mqtt_recv_handles_stream [where buf = "[]" and ps = "[broker_packet_demo]" and rs = "[Publish 0 0 0 [0x61] 0 [0x7B]]"])
  show "list_all2 mqtt_packet [broker_packet_demo] [Publish 0 0 0 [0x61] 0 [0x7B]]" using broker_packet_demo by simp
  show "mqtt_unpack_response [0x30] = Some (Inr None)" by (simp add: mqtt_unpack_response_def mqtt_unpack_fixed_header_def unpack_length.simps)
  show "handle_all (\<lambda>bs. None) old_demo [Publish 0 0 0 [0x61] 0 [0x7B]] client_demo = Some (MQTT_OK, client_demo, False)"
    by (simp add: handle_response_def handle_publish_def mqtt_publish_callback_def)
qed (simp_all add: client_demo_def mqtt_init_def broker_packet_demo_def)

end
