(* ===== verification/Mqtt_Events.thy ===== *)
theory Mqtt_Events
  imports Mqtt_Sending Mqtt_Stream
begin

text \<open>
  The connection to the broker as the program uses it (\<open>MQTT_init\<close>, \<open>MQTT_subscribe\<close> and \<open>MQTT_sync\<close> of
  \<open>linux/mudband_mqtt.c\<close>): its reachable states, the event that triggers the fetch of the configuration, and what the code
  does when the broker cannot be reached or misbehaves.
\<close>

section \<open>The program's connection\<close>

text \<open>The inputs of a connection attempt: the send buffer has its size and \<open>socket\<close> fails with \<open>-1\<close>.\<close>

definition connect_input_ok :: "connect_input \<Rightarrow> bool" where
  "connect_input_ok ci \<longleftrightarrow> length (ci_sendbuf ci) = 2048 \<and> mqtt_open_sock (ci_addrs ci) \<ge> -1"

text \<open>The states of the connection: \<open>MQTT_init\<close>, subscribing and synchronising, in any order.\<close>

inductive mqtt_reach :: "mqtt_state \<Rightarrow> bool" where
  init: "connect_input_ok ci \<Longrightarrow> MQTT_init ci mqtt_state_zero = Some (r, st) \<Longrightarrow> mqtt_reach st"
| subscribe: "mqtt_reach st \<Longrightarrow> MQTT_subscribe ci (st, cnfs) = Some (st', cnfs') \<Longrightarrow> mqtt_reach st'"
| sync: "mqtt_reach st \<Longrightarrow> connect_input_ok ci \<Longrightarrow> connect_input_ok ci' \<Longrightarrow>
    MQTT_sync ci inp ci' (st, cnfs) = Some (st', cnfs', out, trigger) \<Longrightarrow> mqtt_reach st'"

definition mqtt_state_ok :: "mqtt_state \<Rightarrow> bool" where
  "mqtt_state_ok st \<longleftrightarrow> (if mqs_connected st then client_good (mqs_client st) else mqs_client st = mqtt_client_zero)"

lemma MQTT_connect_state:
  assumes "connect_input_ok ci" and "mqs_client st = mqtt_client_zero" and "\<not> mqs_connected st" and "MQTT_connect ci st = Some (r, st')"
  shows "mqtt_state_ok st'"
proof (cases "mqtt_open_sock (ci_addrs ci) = -1")
  case True
  then show ?thesis using assms by (auto simp: MQTT_connect_def mqtt_state_ok_def Let_def)
next
  case False
  then have o: "length (ci_sendbuf ci) = 2048" "0 \<le> mqtt_open_sock (ci_addrs ci)" using assms(1) by (simp_all add: connect_input_ok_def)
  obtain mq c where c: "MQTT_connect ci st = Some (0, st\<lparr>mqs_fd := mqtt_open_sock (ci_addrs ci), mqs_client := c, mqs_connected := True\<rparr>)"
      "mc_recv c = Some (1024, [])" "mc_mq c = Some mq" "mq_ok mq"
      "mq_abs mq = [(connect_packet, MQTT_QUEUED_UNSENT, qm_time_sent (ci_old ci), MQTT_CONTROL_CONNECT, qm_packet_id (ci_old ci))]"
    by (rule MQTT_connect_ok [OF o, of st])
  have "client_good c" using c(2-5) by (auto simp: client_good_def mq_good_abs client_types_def)
  then show ?thesis using assms(4) c(1) by (auto simp: mqtt_state_ok_def)
qed

lemma subscribe_topic_state:
  assumes "mqtt_state_ok st" and "subscribe_topic old topic st = Some st'"
  shows "mqtt_state_ok st' \<and> mqs_connected st' = mqs_connected st"
proof -
  obtain c' where c: "mqtt_subscribe old (take 127 (bytes_of_string topic)) 0 (mqs_client st) = Some (MQTT_OK, c')" "st' = st\<lparr>mqs_client := c'\<rparr>"
    using assms(2) by (auto simp: subscribe_topic_def bind_eq_Some_conv split: if_splits)
  then have con: "mqs_connected st" and "client_good (mqs_client st)"
    using assms(1) by (auto simp: mqtt_state_ok_def mqtt_subscribe_def mqtt_next_pid_def mqtt_client_zero_def split: if_splits)
  obtain pid c1 where n: "mqtt_next_pid (mqs_client st) = Some (pid, c1)"
      "mqtt_client_try_pack (\<lambda>n. mqtt_pack_subscribe_request n pid [(take 127 (bytes_of_string topic), 0)])
         (old\<lparr>qm_control_type := 8, qm_packet_id := pid\<rparr>) c1 = Some (MQTT_OK, c')"
    using c(1) by (auto simp: mqtt_subscribe_def bind_eq_Some_conv)
  have "client_good c1" using n(1) \<open>client_good (mqs_client st)\<close> by (auto simp: mqtt_next_pid_def client_good_def bind_eq_Some_conv)
  then have "client_good c'" using client_try_pack_good [OF subscribe.packer_axioms _ _ n(2)] by (simp add: client_types_def)
  then show ?thesis using c(2) con by (simp add: mqtt_state_ok_def)
qed

lemma MQTT_subscribe_state:
  assumes "mqtt_state_ok st" and "MQTT_subscribe ci (st, cnfs) = Some (st', cnfs')"
  shows "mqtt_state_ok st'"
proof (cases "ci_band_uuid ci")
  case (Some band)
  obtain st1 where s1: "subscribe_topic (ci_old ci) (band_topic band) st = Some st1"
    using assms(2) Some by (cases "subscribe_topic (ci_old ci) (band_topic band) st") (auto simp: MQTT_subscribe_def)
  have ok: "mqtt_state_ok st1" using subscribe_topic_state [OF assms(1) s1] by simp
  have "st' = st1 \<or> (\<exists>t. subscribe_topic (ci_old ci) t st1 = Some st')"
    using assms(2) Some s1 by (auto simp: MQTT_subscribe_def bind_eq_Some_conv split: if_splits)
  then show ?thesis using ok subscribe_topic_state [OF ok] by auto
qed (use assms in \<open>auto simp: MQTT_subscribe_def\<close>)

lemma MQTT_reconnect_state:
  assumes "connect_input_ok ci" and "MQTT_reconnect ci (st, cnfs) = Some (st', cnfs')"
  shows "mqtt_state_ok st'"
proof -
  obtain r st1 where c: "MQTT_connect ci (MQTT_disconnect st) = Some (r, st1)" "r \<noteq> 0 \<and> st' = st1 \<or> MQTT_subscribe ci (st1, cnfs) = Some (st', cnfs')"
    using assms(2) by (auto simp: MQTT_reconnect_def bind_eq_Some_conv split: if_splits)
  have "mqtt_state_ok st1" by (rule MQTT_connect_state [OF assms(1) _ _ c(1)]) (simp_all add: MQTT_disconnect_def)
  then show ?thesis using c(2) MQTT_subscribe_state by blast
qed

text \<open>The receive buffer of a client that is not connected is \<open>NULL\<close>: synchronising it fails.\<close>

lemma sync_zero:
  "\<exists>err c'. mqtt_sync inp mqtt_client_zero = Some (err, c', [], False) \<and> negative err"
proof -
  obtain err got evs where g: "mqtt_pal_recvall (si_recv inp) 0 = (err, got, evs)" by (cases "mqtt_pal_recvall (si_recv inp) 0")
  define e where "e = (if negative err then err else MQTT_ERROR_NULLPTR)"
  have "recv_turn (si_loadb inp) (si_old inp) (si_recv inp) mqtt_client_zero = Some (e, mqtt_client_zero\<lparr>mc_error := e\<rparr>, evs, False, False)"
    using recvall_fits [OF g] by (simp add: recv_turn_def recv_curr_sz_def unpack_recv_buffer_def mqtt_client_zero_def g e_def)
  then have "mqtt_recv (si_loadb inp) (si_old inp) (si_recv inp) mqtt_client_zero = Some (e, mqtt_client_zero\<lparr>mc_error := e\<rparr>, evs, False)"
    by (subst mqtt_recv.simps) simp
  moreover have "negative e" by (simp add: e_def negative_def)
  ultimately show ?thesis by (auto simp: mqtt_sync_def Let_def mqtt_client_zero_def negative_def)
qed

lemma MQTT_sync_state:
  assumes "mqtt_state_ok st" and "connect_input_ok ci" and "connect_input_ok ci'"
    and "MQTT_sync ci inp ci' (st, cnfs) = Some (st', cnfs', out, trigger)"
  shows "mqtt_state_ok st'"
proof -
  obtain st1 cnfs1 where s1: "(if \<not> mqs_connected st then MQTT_reconnect ci (st, cnfs) else Some (st, cnfs)) = Some (st1, cnfs1)"
    using assms(4) by (cases "if \<not> mqs_connected st then MQTT_reconnect ci (st, cnfs) else Some (st, cnfs)") (auto simp: MQTT_sync_def)
  have ok: "mqtt_state_ok st1" using s1 assms(1) MQTT_reconnect_state [OF assms(2), of st cnfs st1 cnfs1] by (auto split: if_splits)
  obtain err c out1 t where s: "mqtt_sync inp (mqs_client st1) = Some (err, c, out1, t)"
    using assms(4) s1 by (cases "mqtt_sync inp (mqs_client st1)") (auto simp: MQTT_sync_def)
  show ?thesis
  proof (cases "err = MQTT_OK")
    case True
    then have "mqs_connected st1" using ok s sync_zero [of inp] by (auto simp: mqtt_state_ok_def negative_def split: if_splits)
    moreover have "client_good c" by (rule mqtt_sync_good [OF _ s]) (use ok calculation in \<open>simp add: mqtt_state_ok_def\<close>)
    moreover have "st' = st1\<lparr>mqs_client := c\<rparr>" using assms(4) s1 s True by (auto simp: MQTT_sync_def)
    ultimately show ?thesis by (simp add: mqtt_state_ok_def)
  next
    case False
    then obtain cnfs2 where "MQTT_reconnect ci' (st1\<lparr>mqs_client := c\<rparr>, cnfs1) = Some (st', cnfs2)"
      using assms(4) s1 s by (auto simp: MQTT_sync_def bind_eq_Some_conv)
    then show ?thesis by (rule MQTT_reconnect_state [OF assms(3)])
  qed
qed

text \<open>
  C22: In every state that the program's connection reaches, the client is either cleared, while there is no connection,
  or it has a well-formed queue of its own messages and a receive buffer that is not overrun.
\<close>

theorem mqtt_connection_well_formed: "mqtt_reach st \<Longrightarrow> mqtt_state_ok st"
proof (induction rule: mqtt_reach.induct)
  case (init ci r st)
  then obtain r' where "MQTT_connect ci mqtt_state_zero = Some (r', st)"
    by (auto simp: MQTT_init_def bind_eq_Some_conv split: if_splits)
  then show ?case by (rule MQTT_connect_state [OF init(1), rotated 2]) (simp_all add: mqtt_state_zero_def)
next
  case (subscribe st ci cnfs st' cnfs')
  then show ?case using MQTT_subscribe_state by blast
next
  case (sync st ci ci' inp cnfs st' cnfs' out trigger)
  then show ?case using MQTT_sync_state by blast
qed

section \<open>Connecting in a pass\<close>

text \<open>Connected, with the connection request and one subscription per topic waiting to be sent.\<close>

definition subscribed :: "connect_input \<Rightarrow> cnf_state \<Rightarrow> mqtt_state \<Rightarrow> bool" where
  "subscribed ci cnfs st \<longleftrightarrow> mqs_connected st \<and> (\<exists>mq t i qs. mc_mq (mqs_client st) = Some mq \<and>
     mq_abs mq = (connect_packet, MQTT_QUEUED_UNSENT, t, MQTT_CONTROL_CONNECT, i) # qs \<and>
     list_all2 subscribe_message (mqtt_topics (ci_band_uuid ci) cnfs) qs)"

lemma reconnect_fails: "mqtt_open_sock (ci_addrs ci) = -1 \<Longrightarrow> MQTT_reconnect ci (st, cnfs) = Some ((MQTT_disconnect st)\<lparr>mqs_fd := -1\<rparr>, cnfs)"
  by (simp add: MQTT_reconnect_def MQTT_connect_def Let_def)

text \<open>After a failed attempt the client is cleared, and synchronising it leads to the second attempt.\<close>

lemma MQTT_sync_retries:
  assumes "\<not> mqs_connected st" and "mqtt_open_sock (ci_addrs ci) = -1"
  obtains c where "MQTT_sync ci inp ci' (st, cnfs) =
    map_option (\<lambda>(st', cnfs'). (st', cnfs', [], False)) (MQTT_reconnect ci' ((MQTT_disconnect st)\<lparr>mqs_fd := -1, mqs_client := c\<rparr>, cnfs))"
proof -
  obtain err c where s: "mqtt_sync inp mqtt_client_zero = Some (err, c, [], False)" "negative err" using sync_zero [of inp] by blast
  have "err \<noteq> MQTT_OK" using s(2) by (simp add: negative_def)
  then have "MQTT_sync ci inp ci' (st, cnfs) =
      map_option (\<lambda>(st', cnfs'). (st', cnfs', [], False)) (MQTT_reconnect ci' ((MQTT_disconnect st)\<lparr>mqs_fd := -1, mqs_client := c\<rparr>, cnfs))"
    using assms s(1) by (cases "MQTT_reconnect ci' ((MQTT_disconnect st)\<lparr>mqs_fd := -1, mqs_client := c\<rparr>, cnfs)")
      (auto simp: MQTT_sync_def reconnect_fails MQTT_disconnect_def)
  then show thesis by (rule that)
qed

lemma recv_nothing:
  assumes "mc_recv c = Some (1024, [])"
  shows "mqtt_recv loadb old [] c = Some (MQTT_OK, c, [], False)"
proof -
  have "mqtt_recv loadb old (map Recv []) c = Some (MQTT_OK, c\<lparr>mc_recv := Some (1024, [])\<rparr>, [], False)"
    by (rule recv_stream [OF assms, where ps = "[]" and rs = "[]"])
      (simp_all add: mqtt_unpack_response_def mqtt_unpack_fixed_header_def)
  then show ?thesis using assms by simp
qed

lemma sync_sends_session:
  assumes c: "mc_error c = MQTT_OK" "mc_send_offset c = 0" "mc_recv c = Some (1024, [])" "mc_mq c = Some mq" "mq_ok mq"
    and q: "mq_abs mq = (connect_packet, MQTT_QUEUED_UNSENT, t, MQTT_CONTROL_CONNECT, i) # qs" "list_all2 subscribe_message ts qs"
    and inp: "si_recv inp = []" "si_send inp = []"
  shows "\<exists>c'. mqtt_sync inp c = Some (MQTT_OK, c', connect_packet @ concat (map fst qs), False)"
proof -
  have un: "\<forall>x \<in> set qs. fst (snd x) = MQTT_QUEUED_UNSENT \<and> (\<lambda>(p, st, t, c, i). c) x = MQTT_CONTROL_SUBSCRIBE"
    using q(2) by (induction rule: list_all2_induct) (auto simp: subscribe_message_def)
  have good: "mq_good mq" using c(5) un by (auto simp: mq_good_abs q(1) client_types_def)
  have d: "due (si_now inp) to x" if "x \<in> set qs" for x to using un that by (cases x) auto
  have f: "filter (due (si_now inp) to) qs = qs" for to using d by simp
  have out: "queue_out (si_now inp) (mc_response_timeout c) (mq_abs mq) = connect_packet @ concat (map fst qs)"
    by (simp add: queue_out_def q(1) f)
  have np: "\<not> ping_due (si_now inp) c (mq_abs mq)" by (auto simp: ping_due_def q(1))
  obtain c' where "mqtt_send (si_now inp) (si_old inp) [] c = Some (MQTT_OK, c', [], connect_packet @ concat (map fst qs))"
    using send_refines [OF c(4) good c(2,1), of "si_now inp" "si_old inp"] np unfolding out by auto
  then show ?thesis using c(1) inp by (simp add: mqtt_sync_def recv_nothing [OF c(3)])
qed

text \<open>
  C39: A pass without a connection makes up to two attempts to reach the broker. If the first succeeds, the pass sends the
  connection request and the subscriptions at once. If only the second succeeds, nothing is sent, and the request and the
  subscriptions wait for the next pass. If both fail, nothing is sent, and the program goes on without a connection and
  with the configurations untouched.
\<close>

theorem MQTT_sync_without_broker:
  assumes "\<not> mqs_connected st" and "cnf_inv us cnfs" and "device_known cnfs"
    and "length (ci_sendbuf ci) = 2048" and "length (ci_sendbuf ci') = 2048" and "si_recv inp = []" and "si_send inp = []"
  shows "(0 \<le> mqtt_open_sock (ci_addrs ci) \<longrightarrow> (\<exists>st' cnfs' qs.
      MQTT_sync ci inp ci' (st, cnfs) = Some (st', cnfs', connect_packet @ concat (map fst qs), False) \<and> mqs_connected st' \<and>
      list_all2 subscribe_message (mqtt_topics (ci_band_uuid ci) cnfs) qs)) \<and>
    (mqtt_open_sock (ci_addrs ci) = -1 \<and> 0 \<le> mqtt_open_sock (ci_addrs ci') \<longrightarrow> (\<exists>st' cnfs'.
      MQTT_sync ci inp ci' (st, cnfs) = Some (st', cnfs', [], False) \<and> subscribed ci' cnfs st')) \<and>
    (mqtt_open_sock (ci_addrs ci) = -1 \<and> mqtt_open_sock (ci_addrs ci') = -1 \<longrightarrow> (\<exists>st'.
      MQTT_sync ci inp ci' (st, cnfs) = Some (st', cnfs, [], False) \<and> \<not> mqs_connected st' \<and> mqs_client st' = mqtt_client_zero))"
proof (intro conjI impI)
  assume "0 \<le> mqtt_open_sock (ci_addrs ci)"
  from reconnect_ok [OF assms(4) this assms(2,3), of st] obtain st1 cnfs1 mq qs where
    r: "MQTT_reconnect ci (st, cnfs) = Some (st1, cnfs1)" "mqs_connected st1" "list_all2 subscribe_message (mqtt_topics (ci_band_uuid ci) cnfs) qs"
      "mc_error (mqs_client st1) = MQTT_OK" "mc_send_offset (mqs_client st1) = 0" "mc_recv (mqs_client st1) = Some (1024, [])"
      "mc_mq (mqs_client st1) = Some mq" "mq_ok mq"
      "mq_abs mq = (connect_packet, MQTT_QUEUED_UNSENT, qm_time_sent (ci_old ci), MQTT_CONTROL_CONNECT, qm_packet_id (ci_old ci)) # qs" by blast
  obtain c' where "mqtt_sync inp (mqs_client st1) = Some (MQTT_OK, c', connect_packet @ concat (map fst qs), False)"
    using sync_sends_session [OF r(4-9,3) assms(6,7)] by blast
  then have "MQTT_sync ci inp ci' (st, cnfs) = Some (st1\<lparr>mqs_client := c'\<rparr>, cnfs1, connect_packet @ concat (map fst qs), False)"
    using assms(1) r(1) by (simp add: MQTT_sync_def)
  then show "\<exists>st' cnfs' qs. MQTT_sync ci inp ci' (st, cnfs) = Some (st', cnfs', connect_packet @ concat (map fst qs), False) \<and> mqs_connected st' \<and>
      list_all2 subscribe_message (mqtt_topics (ci_band_uuid ci) cnfs) qs" using r(2,3) by fastforce
next
  assume b: "mqtt_open_sock (ci_addrs ci) = -1 \<and> 0 \<le> mqtt_open_sock (ci_addrs ci')"
  obtain c where s: "MQTT_sync ci inp ci' (st, cnfs) =
      map_option (\<lambda>(st', cnfs'). (st', cnfs', [], False)) (MQTT_reconnect ci' ((MQTT_disconnect st)\<lparr>mqs_fd := -1, mqs_client := c\<rparr>, cnfs))"
    using MQTT_sync_retries [OF assms(1) conjunct1 [OF b]] .
  from reconnect_ok [OF assms(5) conjunct2 [OF b] assms(2,3), of "(MQTT_disconnect st)\<lparr>mqs_fd := -1, mqs_client := c\<rparr>"]
  show "\<exists>st' cnfs'. MQTT_sync ci inp ci' (st, cnfs) = Some (st', cnfs', [], False) \<and> subscribed ci' cnfs st'"
    unfolding s subscribed_def by fastforce
next
  assume b: "mqtt_open_sock (ci_addrs ci) = -1 \<and> mqtt_open_sock (ci_addrs ci') = -1"
  obtain c where "MQTT_sync ci inp ci' (st, cnfs) =
      map_option (\<lambda>(st', cnfs'). (st', cnfs', [], False)) (MQTT_reconnect ci' ((MQTT_disconnect st)\<lparr>mqs_fd := -1, mqs_client := c\<rparr>, cnfs))"
    using MQTT_sync_retries [OF assms(1) conjunct1 [OF b]] .
  then show "\<exists>st'. MQTT_sync ci inp ci' (st, cnfs) = Some (st', cnfs, [], False) \<and> \<not> mqs_connected st' \<and> mqs_client st' = mqtt_client_zero"
    by (simp add: reconnect_fails [OF conjunct2 [OF b]]) (simp add: MQTT_disconnect_def)
qed

section \<open>Events\<close>

lemma publish_event:
  assumes "loadb msg = Some j" and "json_object_get j ''event'' = Some (Json_string ev)"
  shows "handle_response loadb old (Publish dup 0 retain topic pid msg) c = Some (MQTT_OK, c, ev = ''conf'')"
  using assms by (cases j) (simp_all add: handle_response_def handle_publish_def mqtt_publish_callback_def)

text \<open>The passes of the thread are passes of the tasks, with what \<open>MQTT_sync\<close> does to the configurations.\<close>

lemma mbt_run_trigger: "mbt_run jl (inp\<lparr>ti_mqtt_trigger := b\<rparr>) t = mbt_run jl inp t"
proof -
  have "mbt_conf_fetcher jl (inp\<lparr>ti_mqtt_trigger := b\<rparr>) = mbt_conf_fetcher jl inp" "mbt_stun_client (inp\<lparr>ti_mqtt_trigger := b\<rparr>) = mbt_stun_client inp"
    by (rule ext, simp add: mbt_conf_fetcher_def mbt_stun_client_def cong: if_cong)+
  moreover have "mbt_status_snapshot (inp\<lparr>ti_mqtt_trigger := b\<rparr>) = mbt_status_snapshot inp"
    by (rule ext, cases "ti_snapshot inp"; cases "ti_band_uuid inp") (simp_all add: mbt_status_snapshot_def)
  ultimately have "mbt_callback jl (inp\<lparr>ti_mqtt_trigger := b\<rparr>) = mbt_callback jl inp" by (simp add: fun_eq_iff mbt_callback_def)
  then show ?thesis by (simp add: mbt_run_def)
qed

lemma mbt_thread_pass_reach:
  assumes "mbt_reach jl t" and "cb_ticks (mbt_cb t) \<le> ti_now (mpi_task i)" and "mbt_thread_pass jl i (t, st) = Some (t', st', out)"
  shows "mbt_reach jl t'"
proof -
  obtain t1 cnfs trigger where r: "mbt_run jl (mpi_task i) t = Some t1"
      "t' = (let t = t1\<lparr>mbt_data := (mbt_data t1)\<lparr>fs_cnfs := cnfs\<rparr>\<rparr> in if trigger then MBT_conf_fetcher_trigger t else t)"
    using assms(3) by (auto simp: mbt_thread_pass_def bind_eq_Some_conv Let_def)
  have "mbt_pass jl ((mpi_task i)\<lparr>ti_mqtt_trigger := False\<rparr>) t = Some t1"
    by (simp add: mbt_pass_def mbt_run_trigger r(1))
  then have "mbt_reach jl t1" by (rule mbt_reach.pass [OF assms(1), rotated]) (use assms(2) in simp)
  then show ?thesis using mbt_reach.other [of jl t1] mbt_reach.trigger [of jl] by (auto simp: r(2) Let_def)
qed

text \<open>After a trigger, the first pass that starts at least three seconds later runs the fetch.\<close>

lemma triggered_fetch_runs:
  assumes "mbt_reach jl t" and "mbt_need_conf_fetcher_trigger t" and "cb_ticks (mbt_cb t) + CALLOUT_SECTOTICKS 3 \<le> ti_now inp"
  shows "\<exists>cs. 1 \<in> set cs \<and> distinct cs \<and> map_option mbt_data (mbt_run jl inp t) = effects (mbt_effect jl inp) cs (mbt_data t)"
proof -
  have ok: "tasks_ok (mbt_cb t)" by (rule mbt_reach_ok [OF assms(1)])
  have now: "cb_ticks (mbt_cb t) \<le> ti_now inp" using assms(3) by (simp add: CALLOUT_SECTOTICKS_def)
  note p = pass_cb_ok [OF ok now]
  note d = set_due_callouts [OF p(1,2)]
  obtain cb' where r: "mbt_pass jl inp t = map_option (\<lambda>st. t\<lparr>mbt_cb := cb', mbt_need_conf_fetcher_trigger := ti_mqtt_trigger inp, mbt_data := st\<rparr>)
      (effects (mbt_effect jl inp) (due_callouts (pass_cb (ti_now inp) t)) (mbt_data t))"
    using mbt_pass_runs [OF ok now, of jl] by blast
  have "map_option mbt_data (mbt_run jl inp t) = map_option mbt_data (mbt_pass jl inp t)"
    by (simp add: mbt_pass_run option.map_comp comp_def)
  also have "\<dots> = effects (mbt_effect jl inp) (due_callouts (pass_cb (ti_now inp) t)) (mbt_data t)"
    by (simp add: r option.map_comp comp_def option.map_ident)
  finally have e: "map_option mbt_data (mbt_run jl inp t) = effects (mbt_effect jl inp) (due_callouts (pass_cb (ti_now inp) t)) (mbt_data t)" .
  have "c_pending (cb_co (mbt_cb t) 1)" using ok by (simp add: tasks_ok_def)
  then have "1 \<in> set (due_callouts (pass_cb (ti_now inp) t))"
    using assms(2,3) by (simp add: d(2) Callout.due_def p(3-5) CALLOUT_SECTOTICKS_def)
  then show ?thesis using e d(1) by blast
qed

lemma conf_event_sync:
  assumes c: "client_good c" "mc_recv c = Some (1024, buf)" "length buf < 1024" "mc_error c = MQTT_OK" "mc_send_offset c = 0"
    and mq: "mc_mq c = Some mq" "\<not> ping_due (si_now inp) c (mq_abs mq) \<or> 2 \<le> queue_room (length (mq_mem mq)) (mq_abs mq)"
    and s: "si_recv inp = map Recv chunks" "[] \<notin> set chunks" "si_send inp = []"
    and p: "mqtt_packet (buf @ concat chunks) (Publish dup 0 retain topic pid msg)" "length (buf @ concat chunks) \<le> 1024"
    and j: "si_loadb inp msg = Some j" "json_object_get j ''event'' = Some (Json_string ''conf'')"
  shows "\<exists>c' out. mqtt_sync inp c = Some (MQTT_OK, c', out, True)"
proof -
  have r0: "mqtt_unpack_response [] = Some (Inr None)" by (simp add: mqtt_unpack_response_def mqtt_unpack_fixed_header_def)
  have h: "handle_all (si_loadb inp) (si_old inp) [Publish dup 0 retain topic pid msg] c = Some (MQTT_OK, c, True)"
    using publish_event [of "si_loadb inp" msg j, OF j] by simp
  let ?c = "c\<lparr>mc_recv := Some (1024, [])\<rparr>"
  have r: "mqtt_recv (si_loadb inp) (si_old inp) (map Recv chunks) c = Some (MQTT_OK, ?c, [], True)"
    by (rule recv_stream [OF c(2,3) s(2) _ _ _ r0 _ h, where ps = "[buf @ concat chunks]"]) (use p in simp_all)
  have g: "mq_good mq" using c(1) mq(1) by (auto simp: client_good_def)
  have c1: "mc_mq ?c = Some mq" "mc_send_offset ?c = 0" "mc_error ?c = MQTT_OK" using c(4,5) mq(1) by simp_all
  have "ping_due (si_now inp) ?c (mq_abs mq) = ping_due (si_now inp) c (mq_abs mq)" by (simp add: ping_due_def)
  then obtain c' out where "mqtt_send (si_now inp) (si_old inp) [] ?c = Some (MQTT_OK, c', [], out)"
    using send_refines [OF c1(1) g c1(2,3), of "si_now inp" "si_old inp"] mq(2) by (auto simp: Let_def split: if_splits)
  then show ?thesis using r c(4) s(1,3) by (simp add: mqtt_sync_def)
qed

text \<open>
  C17: A message of the broker with the event \<open>conf\<close> leads to a fetch of the configuration. In a pass of the task thread in
  which the message becomes complete (whatever part of it earlier passes left in the receive buffer, and in whatever
  pieces the rest arrives), \<open>MQTT_sync\<close> reads it and sets the trigger, the connection stays up, and the next pass, if it
  starts three seconds later or more, runs the fetch.
\<close>

theorem conf_event_triggers_fetch:
  assumes t: "mbt_reach jl t" "cb_ticks (mbt_cb t) \<le> ti_now (mpi_task i)" "mbt_run jl (mpi_task i) t = Some t1"
    and c: "mqs_connected st" "mqs_client st = c" "client_good c" "mc_recv c = Some (1024, buf)" "length buf < 1024" "mc_error c = MQTT_OK" "mc_send_offset c = 0"
    and mq: "mc_mq c = Some mq" "\<not> ping_due (si_now (mpi_sync i)) c (mq_abs mq) \<or> 2 \<le> queue_room (length (mq_mem mq)) (mq_abs mq)"
    and s: "si_recv (mpi_sync i) = map Recv chunks" "[] \<notin> set chunks" "si_send (mpi_sync i) = []"
    and p: "mqtt_packet (buf @ concat chunks) (Publish dup 0 retain topic pid msg)" "length (buf @ concat chunks) \<le> 1024"
    and j: "si_loadb (mpi_sync i) msg = Some j" "json_object_get j ''event'' = Some (Json_string ''conf'')"
  shows "\<exists>t' st' out. mbt_thread_pass jl i (t, st) = Some (t', st', out) \<and> mqs_connected st' \<and> mbt_need_conf_fetcher_trigger t' \<and>
    (\<forall>inp. ti_now (mpi_task i) + CALLOUT_SECTOTICKS 3 \<le> ti_now inp \<longrightarrow>
      (\<exists>cs. 1 \<in> set cs \<and> distinct cs \<and> map_option mbt_data (mbt_run jl inp t') = effects (mbt_effect jl inp) cs (mbt_data t')))"
proof -
  obtain c' out where sy: "mqtt_sync (mpi_sync i) (mqs_client st) = Some (MQTT_OK, c', out, True)"
    unfolding c(2) using conf_event_sync [OF c(3-7) mq s p j] by blast
  define t' where "t' = t1\<lparr>mbt_need_conf_fetcher_trigger := True\<rparr>"
  have pass: "mbt_thread_pass jl i (t, st) = Some (t', st\<lparr>mqs_client := c'\<rparr>, out)"
    using t(3) sy c(1) by (cases t1) (simp add: mbt_thread_pass_def MQTT_sync_def MBT_conf_fetcher_trigger_def t'_def)
  have reach: "mbt_reach jl t'" by (rule mbt_thread_pass_reach [OF t(1,2) pass])
  obtain cb' where "mbt_pass jl (mpi_task i) t = map_option (\<lambda>st. t\<lparr>mbt_cb := cb', mbt_need_conf_fetcher_trigger := ti_mqtt_trigger (mpi_task i), mbt_data := st\<rparr>)
      (effects (mbt_effect jl (mpi_task i)) (due_callouts (pass_cb (ti_now (mpi_task i)) t)) (mbt_data t))" "cb_ticks cb' = ti_now (mpi_task i)"
    using mbt_pass_runs [OF mbt_reach_ok [OF t(1)] t(2), of jl] by blast
  then have "cb_ticks (mbt_cb t') = ti_now (mpi_task i)" using t(3)
    by (cases "effects (mbt_effect jl (mpi_task i)) (due_callouts (pass_cb (ti_now (mpi_task i)) t)) (mbt_data t)")
      (simp_all add: mbt_pass_run t'_def, metis mbt.select_convs(1) mbt.surjective mbt.update_convs(1,2,4))
  then show ?thesis using pass c(1) triggered_fetch_runs [OF reach] by (fastforce simp: t'_def)
qed

text \<open>
  A message of the broker that is JSON but no object fails an assertion.
\<close>

theorem event_without_object_aborts:
  assumes c: "client_good c" "mc_recv c = Some (1024, [])" "mc_error c = MQTT_OK"
    and s: "si_recv inp = map Recv chunks" "[] \<notin> set chunks"
    and p: "mqtt_packet (concat chunks) (Publish dup 0 retain topic pid msg)" "length (concat chunks) \<le> 1024"
    and j: "si_loadb inp msg = Some (Json_array js)"
  shows "mqtt_sync inp c = None"
proof -
  obtain ev where g: "mqtt_pal_recvall (map Recv chunks) 1024 = (MQTT_ZERO, concat chunks, ev)"
    using recvall_chunks [OF s(2), of 1024] p(2) by auto
  have u: "mqtt_unpack_response ([] @ concat chunks) = Some (Inr (Some (length (concat chunks), Publish dup 0 retain topic pid msg)))"
    using p(1) by (simp add: mqtt_packet_def)
  have g': "mqtt_pal_recvall (map Recv chunks) (1024 - length []) = (MQTT_ZERO, concat chunks, ev)" using g by simp
  have n: "\<not> (concat chunks = [] \<and> negative MQTT_ZERO)" by (simp add: negative_def)
  have "handle_response (si_loadb inp) (si_old inp) (Publish dup 0 retain topic pid msg) c' = None" for c'
    using j by (simp add: handle_response_def handle_publish_def mqtt_publish_callback_def)
  then have "recv_turn (si_loadb inp) (si_old inp) (map Recv chunks) c = None"
    using recv_turn_cases(5) [OF c(2) g' n u, where loadb = "si_loadb inp" and old = "si_old inp"] by simp
  then show ?thesis using c(3) s(1) by (simp add: mqtt_sync_def mqtt_recv.simps)
qed

text \<open>
  C40: When a message whose answer is late is sent again and the system takes only a part of it, the next call sends the
  message from its start and not from where it stopped: the broker gets the first part twice.
\<close>

theorem partial_resend_restarts:
  assumes c: "mc_mq c = Some mq" "mq_good mq" "mc_send_offset c = 0" "mc_error c = MQTT_OK"
    and q: "mq_abs mq = [(p, MQTT_QUEUED_AWAITING_ACK, t, ctype, pid)]"
    and t: "t + mc_response_timeout c < now" "now \<le> now'" "now \<le> mc_time_of_last_send c + uint (mc_keep_alive c)"
    and k: "0 < k" "k < length p"
  shows "\<exists>c1 ret c2. mqtt_send now old [Sent k, Send_again] c = Some (MQTT_OK, c1, [], take k p) \<and>
    mqtt_send now' old [] c1 = Some (ret, c2, [], p)"
proof -
  obtain m where m: "mq_msgs mq = [m]" using arg_cong [OF q, of length] by (auto simp: mq_abs_def length_Suc_conv)
  have mf: "p = bslice (qm_start m) (qm_size m) (mq_mem mq)" "qm_state m = MQTT_QUEUED_AWAITING_ACK" "qm_time_sent m = t"
    using q by (simp_all add: mq_abs_def m queued_of_def)
  have ok: "mq_ok mq" using c(2) by (simp add: mq_good_def)
  have "qm_start m + qm_size m \<le> mq_curr mq" by (rule mq_okD(3) [OF ok]) (simp add: m)
  then have "qm_start m + qm_size m \<le> length (mq_mem mq)" using mq_okD(1) [OF ok] by linarith
  then have sz: "qm_size m = length p" by (simp add: mf(1))
  have np: "\<not> inflight_publish mq m" using c(2) m by (auto simp: inflight_publish_def mq_good_def client_types_def)
  have late: "timed_out now c m" using t(1) by (simp add: timed_out_def mf)
  define c1 where "c1 = c\<lparr>mc_number_of_timeouts := mc_number_of_timeouts c + 1, mc_send_offset := k\<rparr>"
  have k': "min k (qm_size m) = k" using k sz by simp
  have "take k p = bslice (qm_start m) k (mq_mem mq)" by (simp only: mf(1) bslice_def take_take k')
  then have s: "send_message now 0 c [Sent k, Send_again] False = Some (Send_break, c1, [], take k p, False)"
    using np late k by (auto simp: send_message_def c(1) m Let_def sz c1_def negative_def)
  then have s1: "mqtt_send now old [Sent k, Send_again] c = Some (MQTT_OK, c1, [], take k p)"
    using c(1,4) t(3) by (simp add: mqtt_send_def negative_def m) (simp add: c1_def)
  define c0 where "c0 = c1\<lparr>mc_send_offset := 0\<rparr>"
  have c0: "mc_mq c0 = Some mq" "mq_good mq" "mc_send_offset c0 = 0" "mc_error c0 = MQTT_OK" using c by (simp_all add: c0_def c1_def)
  have late': "timed_out now' c1 m" using t(1,2) by (simp add: timed_out_def mf c1_def)
  have "send_message now' 0 c1 [] False = send_message now' 0 c0 [] False"
    using late' by (simp add: send_message_def c1_def c0_def c(1) m Let_def timed_out_def)
  then have e: "mqtt_send now' old [] c1 = mqtt_send now' old [] c0"
    using c(1,4) by (simp add: mqtt_send_def m c0_def c1_def negative_def)
  have "due now' (mc_response_timeout c0) (p, MQTT_QUEUED_AWAITING_ACK, t, ctype, pid)" using t(1,2) by (simp add: c0_def c1_def)
  then have "queue_out now' (mc_response_timeout c0) (mq_abs mq) = p" by (simp add: queue_out_def q)
  then obtain ret c2 where "mqtt_send now' old [] c0 = Some (ret, c2, [], p)"
    using send_refines [of c0 mq now' old] c0 by (simp only:) blast
  then show ?thesis using s1 e by (intro exI [of _ c1] exI [of _ ret] exI [of _ c2]) simp
qed

section \<open>Examples\<close>

lemma client_demo:
  "client_good client_demo" "mc_recv client_demo = Some (1024, [])" "mc_error client_demo = MQTT_OK" "mc_send_offset client_demo = 0"
  using mq_good_demo by (auto simp: client_demo_def mqtt_init_def client_good_def mq_demo_def)

definition event_demo :: "json \<Rightarrow> sync_input" where
  "event_demo j = \<lparr>si_now = 0, si_loadb = (\<lambda>bs. Some j), si_old = old_demo, si_recv = map Recv [[0x30, 4, 0], [1, 0x61, 0x7B]], si_send = []\<rparr>"

definition conf_event_demo :: json where "conf_event_demo = Json_object [(''event'', Json_string ''conf'')]"

lemma broker_packet_chunks: "concat [[0x30, 4, 0], [1, 0x61, 0x7B]] = broker_packet_demo"
  by (simp add: broker_packet_demo_def)

definition event_pass_demo :: mbt_pass_input where
  "event_pass_demo = \<lparr>mpi_task = task_demo\<lparr>ti_now := 0\<rparr>, mpi_connect = connect_demo,
     mpi_sync = (event_demo conf_event_demo)\<lparr>si_recv := map Recv [[1, 0x61], [0x7B]]\<rparr>, mpi_reconnect = connect_demo\<rparr>"

definition half_read_demo :: mqtt_client where "half_read_demo = client_demo\<lparr>mc_recv := Some (1024, [0x30, 4, 0]), mc_keep_alive := 400\<rparr>"

lemma half_read_demo:
  "client_good half_read_demo" "mc_recv half_read_demo = Some (1024, [0x30, 4, 0])" "mc_error half_read_demo = MQTT_OK"
  "mc_send_offset half_read_demo = 0" "mc_mq half_read_demo = Some mq_demo" "\<not> ping_due 0 half_read_demo (mq_abs mq_demo)"
  using mq_good_demo
  by (simp_all add: half_read_demo_def client_demo_def mqtt_init_def client_good_def mqtt_client_zero_def ping_due_def mq_demo_def)

lemma first_pass_idle: "\<exists>t1. mbt_run jl (task_demo\<lparr>ti_now := 0\<rparr>) (MBT_init 0 False mbt_demo) = Some t1"
proof -
  let ?t = "MBT_init 0 False mbt_demo" and ?i = "task_demo\<lparr>ti_now := 0\<rparr>"
  have ok: "tasks_ok (mbt_cb ?t)" by (rule mbt_init_ok)
  have now: "cb_ticks (mbt_cb ?t) \<le> ti_now ?i" by (simp add: MBT_init_def Let_def COT_init_def)
  note p = pass_cb_ok [OF ok now]
  have "\<not> Callout.due (pass_cb (ti_now ?i) ?t) c" for c
    unfolding Callout.due_def p(3-5) by (auto simp: MBT_init_def Let_def COT_init_def CALLOUT_SECTOTICKS_def callout_init_def split: if_splits)
  then have "due_callouts (pass_cb (ti_now ?i) ?t) = []" using set_due_callouts(2) [OF p(1,2)] by (metis list.set_intros(1) neq_Nil_conv)
  then obtain cb' where "mbt_pass jl ?i ?t = map_option (\<lambda>st. ?t\<lparr>mbt_cb := cb', mbt_need_conf_fetcher_trigger := ti_mqtt_trigger ?i, mbt_data := st\<rparr>) (Some (mbt_data ?t))"
    using mbt_pass_runs [OF ok now, of jl] by (metis effects.simps(1))
  then show ?thesis by (auto simp: mbt_pass_run)
qed

theorem conf_event_triggers_fetch_witness:
  "\<exists>t' st' out. mbt_thread_pass json_demo event_pass_demo (MBT_init 0 False mbt_demo, \<lparr>mqs_client = half_read_demo, mqs_fd = 5, mqs_connected = True\<rparr>) =
      Some (t', st', out) \<and> mqs_connected st' \<and> mbt_need_conf_fetcher_trigger t'"
proof -
  let ?st = "\<lparr>mqs_client = half_read_demo, mqs_fd = 5, mqs_connected = True\<rparr>" and ?i = event_pass_demo
  have i: "mpi_task ?i = task_demo\<lparr>ti_now := 0\<rparr>" "si_now (mpi_sync ?i) = 0" "si_recv (mpi_sync ?i) = map Recv [[1, 0x61], [0x7B]]"
      "si_send (mpi_sync ?i) = []" "si_loadb (mpi_sync ?i) [0x7B] = Some conf_event_demo"
    by (simp_all add: event_pass_demo_def event_demo_def)
  have now: "cb_ticks (mbt_cb (MBT_init 0 False mbt_demo)) \<le> ti_now (mpi_task ?i)" by (simp add: i(1) MBT_init_def Let_def COT_init_def)
  obtain t1 where t1: "mbt_run json_demo (mpi_task ?i) (MBT_init 0 False mbt_demo) = Some t1" using first_pass_idle unfolding i(1) by blast
  have b: "[0x30, 4, 0] @ concat [[1, 0x61], [0x7B]] = broker_packet_demo" by (simp add: broker_packet_demo_def)
  have pk: "mqtt_packet ([0x30, 4, 0] @ concat [[1, 0x61], [0x7B]]) (Publish 0 0 0 [0x61] 0 [0x7B])" unfolding b by (rule broker_packet_demo)
  have st: "mqs_connected ?st" "mqs_client ?st = half_read_demo" by simp_all
  have ev: "json_object_get conf_event_demo ''event'' = Some (Json_string ''conf'')" by (simp add: conf_event_demo_def)
  have nd: "\<not> ping_due (si_now (mpi_sync ?i)) half_read_demo (mq_abs mq_demo) \<or> 2 \<le> queue_room (length (mq_mem mq_demo)) (mq_abs mq_demo)"
    unfolding i(2) using half_read_demo(6) by simp
  note conf_event_triggers_fetch [OF mbt_reach.init now t1 st half_read_demo(1,2) _ half_read_demo(3-5) nd i(3) _ i(4) pk _ i(5) ev]
  then show ?thesis by auto
qed

theorem event_without_object_aborts_witness: "mqtt_sync (event_demo (Json_array [])) client_demo = None"
proof (rule event_without_object_aborts [OF client_demo(1-3)])
  show "si_recv (event_demo (Json_array [])) = map Recv [[0x30, 4, 0], [1, 0x61, 0x7B]]" by (simp add: event_demo_def)
  show "mqtt_packet (concat [[0x30, 4, 0], [1, 0x61, 0x7B]]) (Publish 0 0 0 [0x61] 0 [0x7B])" unfolding broker_packet_chunks by (rule broker_packet_demo)
  show "si_loadb (event_demo (Json_array [])) [0x7B] = Some (Json_array [])" by (simp add: event_demo_def)
qed simp_all

definition no_broker_demo :: connect_input where "no_broker_demo = connect_demo\<lparr>ci_addrs := Some [(5, False)]\<rparr>"

definition quiet_demo :: sync_input where
  "quiet_demo = \<lparr>si_now = 0, si_loadb = (\<lambda>bs. None), si_old = old_demo, si_recv = [], si_send = []\<rparr>"

theorem MQTT_sync_without_broker_witness:
  "(\<exists>st' cnfs'. MQTT_sync no_broker_demo quiet_demo connect_demo (mqtt_state_zero, cnf_empty) = Some (st', cnfs', [], False) \<and>
     subscribed connect_demo cnf_empty st') \<and>
   (\<exists>st'. MQTT_sync no_broker_demo quiet_demo no_broker_demo (mqtt_state_zero, cnf_empty) = Some (st', cnf_empty, [], False) \<and> \<not> mqs_connected st')"
proof -
  have c: "\<not> mqs_connected mqtt_state_zero" "length (ci_sendbuf no_broker_demo) = 2048" "mqtt_open_sock (ci_addrs no_broker_demo) = -1"
      "si_recv quiet_demo = []" "si_send quiet_demo = []"
    by (simp_all add: mqtt_state_zero_def no_broker_demo_def connect_demo_def mqtt_open_sock_def quiet_demo_def)
  show ?thesis
    using MQTT_sync_without_broker [OF c(1) cnf_empty_ok c(2) connect_demo(1) c(4,5)] MQTT_sync_without_broker [OF c(1) cnf_empty_ok c(2) c(2) c(4,5)]
      c(3) connect_demo(2) by fastforce
qed

theorem mqtt_connection_well_formed_witness: "\<exists>st. mqtt_reach st \<and> mqs_connected st \<and> mqtt_state_ok st"
proof -
  obtain c where c: "MQTT_connect connect_demo mqtt_state_zero = Some (0, mqtt_state_zero\<lparr>mqs_fd := mqtt_open_sock (ci_addrs connect_demo), mqs_client := c, mqs_connected := True\<rparr>)"
    by (rule MQTT_connect_ok [OF connect_demo, of mqtt_state_zero])
  have "connect_input_ok connect_demo" using connect_demo by (simp add: connect_input_ok_def)
  moreover have "MQTT_init connect_demo mqtt_state_zero = Some (0, mqtt_state_zero\<lparr>mqs_fd := mqtt_open_sock (ci_addrs connect_demo), mqs_client := c, mqs_connected := True\<rparr>)"
    by (simp add: MQTT_init_def c)
  ultimately have "mqtt_reach (mqtt_state_zero\<lparr>mqs_fd := mqtt_open_sock (ci_addrs connect_demo), mqs_client := c, mqs_connected := True\<rparr>)"
    by (rule mqtt_reach.init)
  then show ?thesis using mqtt_connection_well_formed by (intro exI [of _ "mqtt_state_zero\<lparr>mqs_fd := mqtt_open_sock (ci_addrs connect_demo), mqs_client := c, mqs_connected := True\<rparr>"]) simp
qed

definition waiting_demo :: mqtt_message_queue where
  "waiting_demo = mq_demo\<lparr>mq_curr := 2, mq_curr_sz := 1966,
     mq_msgs := [\<lparr>qm_start = 0, qm_size = 2, qm_state = MQTT_QUEUED_AWAITING_ACK, qm_time_sent = 0, qm_control_type = MQTT_CONTROL_PINGREQ, qm_packet_id = 0\<rparr>]\<rparr>"

lemma waiting_demo: "mq_good waiting_demo" "mq_abs waiting_demo = [([0, 0], MQTT_QUEUED_AWAITING_ACK, 0, MQTT_CONTROL_PINGREQ, 0)]"
  by (simp_all add: waiting_demo_def mq_demo_def mqtt_mq_init_def mq_good_def mq_ok_def MQTT_MQ_CURRSZ_def sizeof_mqtt_queued_message_def
      client_types_def mq_abs_def queued_of_def bslice_def numeral_2_eq_2)

theorem partial_resend_restarts_witness:
  "\<exists>c1 ret c2. mqtt_send 31 old_demo [Sent 1, Send_again] (client_demo\<lparr>mc_keep_alive := 400, mc_mq := Some waiting_demo\<rparr>) = Some (MQTT_OK, c1, [], take 1 [0, 0]) \<and>
    mqtt_send 32 old_demo [] c1 = Some (ret, c2, [], [0, 0])"
  by (rule partial_resend_restarts [OF _ waiting_demo(1) _ _ waiting_demo(2)]) (simp_all add: client_demo_def mqtt_init_def mqtt_client_zero_def)

end
