(* ===== verification/X25519.thy ===== *)
theory X25519
  imports Crypto_Util
begin

text \<open>
  The Diffie-Hellman function of \<open>common/crypto/x25519.c\<close> on 32-bit limbs, as it is configured there
  (\<open>X25519_WBITS\<close> 32, parameters copied, power chain for the inversion, no signatures). A field element
  (\<open>fe\<close>) is a list of eight limbs, least significant first. The carries of \<open>sub\<close> and \<open>canon\<close> are
  64-bit signed integers; they stay between -2 and 1 and are modelled by \<open>int\<close>, where \<open>div\<close> is the
  arithmetic shift.
\<close>

section \<open>Field arithmetic\<close>

type_synonym fe = "u32 list"

text \<open>The functions on limbs return the new carry and the limb.\<close>

definition umaal :: "u32 \<Rightarrow> u32 \<Rightarrow> u32 \<Rightarrow> u32 \<Rightarrow> u32 \<times> u32" where
  "umaal carry acc mand mier =
     (let tmp = ucast mand * ucast mier + ucast acc + ucast carry :: u64 in (ucast (drop_bit 32 tmp), ucast tmp))"

definition adc :: "u32 \<Rightarrow> u32 \<Rightarrow> u32 \<Rightarrow> u32 \<times> u32" where
  "adc carry acc mand = (let total = ucast carry + ucast acc + ucast mand :: u64 in (ucast (drop_bit 32 total), ucast total))"

definition adc0 :: "u32 \<Rightarrow> u32 \<Rightarrow> u32 \<times> u32" where
  "adc0 carry acc = (let total = ucast carry + ucast acc :: u64 in (ucast (drop_bit 32 total), ucast total))"

text \<open>The loops over the limbs: the last carry and the result.\<close>

fun adc0_loop :: "u32 \<Rightarrow> fe \<Rightarrow> u32 \<times> fe" where
  "adc0_loop carry [] = (carry, [])"
| "adc0_loop carry (x # xs) = (let (carry, r) = adc0 carry x; (carry, rs) = adc0_loop carry xs in (carry, r # rs))"

fun adc_loop :: "u32 \<Rightarrow> fe \<Rightarrow> fe \<Rightarrow> u32 \<times> fe" where
  "adc_loop carry (a # as) (b # bs) = (let (carry, r) = adc carry a b; (carry, rs) = adc_loop carry as bs in (carry, r # rs))"
| "adc_loop carry as bs = (carry, [])"

fun sub_loop :: "int \<Rightarrow> fe \<Rightarrow> fe \<Rightarrow> int \<times> fe" where
  "sub_loop carry (a # as) (b # bs) =
     (let carry = carry + uint a - uint b; (carry', rs) = sub_loop (carry div 2 ^ 32) as bs in (carry', word_of_int carry # rs))"
| "sub_loop carry as bs = (carry, [])"

fun umaal_loop :: "u32 \<Rightarrow> fe \<Rightarrow> u32 \<Rightarrow> fe \<Rightarrow> u32 \<times> fe" where
  "umaal_loop carry (acc # accs) mand (m # ms) =
     (let (carry, r) = umaal carry acc mand m; (carry, rs) = umaal_loop carry accs mand ms in (carry, r # rs))"
| "umaal_loop carry accs mand ms = (carry, [])"

definition propagate :: "fe \<Rightarrow> u32 \<Rightarrow> fe" where
  "propagate x over =
     (let over = drop_bit 31 (x ! 7) OR push_bit 1 over;
          x = x[7 := x ! 7 AND NOT (push_bit 31 1)]
      in snd (adc0_loop (over * 19) x))"

definition fe_add :: "fe \<Rightarrow> fe \<Rightarrow> fe" where
  "fe_add a b = (let (carry, out) = adc_loop 0 a b in propagate out carry)"

definition fe_sub :: "fe \<Rightarrow> fe \<Rightarrow> fe" where
  "fe_sub a b = (let (carry, out) = sub_loop (-38) a b in propagate out (word_of_int (1 + carry)))"

text \<open>The row of limb \<open>i\<close>: \<open>accum[i..i+7]\<close> is updated, \<open>accum[i+8]\<close> is set to the carry.\<close>

definition mul_row :: "fe \<Rightarrow> fe \<Rightarrow> nat \<Rightarrow> fe \<Rightarrow> fe" where
  "mul_row a b i accum =
     (let (carry2, r) = umaal_loop 0 (bslice i 8 accum) (b ! i) a
      in take i accum @ r @ [carry2] @ drop (i + 9) accum)"

definition fe_mul :: "fe \<Rightarrow> fe \<Rightarrow> nat \<Rightarrow> fe" where
  "fe_mul a b nb =
     (let accum = fold (mul_row a b) [0..<nb] (replicate 16 0);
          (carry2, out) = umaal_loop 0 (take 8 accum) 38 (drop 8 accum)
      in propagate out carry2)"

definition fe_sqr :: "fe \<Rightarrow> fe" where "fe_sqr a = fe_mul a a 8"

text \<open>\<open>mul1(out, a)\<close>, with the old value of \<open>out\<close> as the first argument.\<close>

definition fe_mul1 :: "fe \<Rightarrow> fe \<Rightarrow> fe" where "fe_mul1 out a = fe_mul a out 8"

definition fe_sqr1 :: "fe \<Rightarrow> fe" where "fe_sqr1 a = fe_mul1 a a"

definition condswap :: "fe \<Rightarrow> fe \<Rightarrow> u32 \<Rightarrow> fe \<times> fe" where
  "condswap a b doswap =
     (map2 (\<lambda>x y. x XOR ((x XOR y) AND doswap)) a b, map2 (\<lambda>x y. y XOR ((x XOR y) AND doswap)) a b)"

text \<open>The second loop of \<open>canon\<close> also collects the disjunction of the limbs.\<close>

fun canon_loop :: "int \<Rightarrow> u32 \<Rightarrow> fe \<Rightarrow> u32 \<times> fe" where
  "canon_loop carry res [] = (res, [])"
| "canon_loop carry res (x # xs) =
     (let carry = carry + uint x; r = word_of_int carry; (res, rs) = canon_loop (carry div 2 ^ 32) (res OR r) xs
      in (res, r # rs))"

definition canon :: "fe \<Rightarrow> u32 \<times> fe" where
  "canon x =
     (let (carry0, x) = adc0_loop 19 x;
          x = propagate x carry0;
          (res, x) = canon_loop (-19) 0 x
      in (ucast (drop_bit 32 (ucast res - 1 :: u64)), x))"

section \<open>The ladder\<close>

record ladder =
  lx2 :: fe
  lz2 :: fe
  lx3 :: fe
  lz3 :: fe
  lt1 :: fe

definition a24 :: fe where "a24 = [121665]"

definition ladder_part1 :: "ladder \<Rightarrow> ladder" where
  "ladder_part1 xs =
     (let x2 = lx2 xs; z2 = lz2 xs; x3 = lx3 xs; z3 = lz3 xs;
          t1 = fe_add x2 z2;
          z2 = fe_sub x2 z2;
          x2 = fe_add x3 z3;
          z3 = fe_sub x3 z3;
          z3 = fe_mul1 z3 t1;
          x2 = fe_mul1 x2 z2;
          x3 = fe_add z3 x2;
          z3 = fe_sub z3 x2;
          t1 = fe_sqr1 t1;
          z2 = fe_sqr1 z2;
          x2 = fe_sub t1 z2;
          z2 = fe_mul x2 a24 1;
          z2 = fe_add z2 t1
      in \<lparr>lx2 = x2, lz2 = z2, lx3 = x3, lz3 = z3, lt1 = t1\<rparr>)"

definition ladder_part2 :: "ladder \<Rightarrow> fe \<Rightarrow> ladder" where
  "ladder_part2 xs x1 =
     (let x2 = lx2 xs; z2 = lz2 xs; x3 = lx3 xs; z3 = lz3 xs; t1 = lt1 xs;
          z3 = fe_sqr1 z3;
          z3 = fe_mul1 z3 x1;
          x3 = fe_sqr1 x3;
          z2 = fe_mul1 z2 x2;
          x2 = fe_sub t1 x2;
          x2 = fe_mul1 x2 t1
      in \<lparr>lx2 = x2, lz2 = z2, lx3 = x3, lz3 = z3, lt1 = t1\<rparr>)"

text \<open>The points are two neighbouring field elements each.\<close>

definition ladder_swap :: "u32 \<Rightarrow> ladder \<Rightarrow> ladder" where
  "ladder_swap doswap xs =
     (let (a, b) = condswap (lx2 xs @ lz2 xs) (lx3 xs @ lz3 xs) doswap
      in xs\<lparr>lx2 := take 8 a, lz2 := drop 8 a, lx3 := take 8 b, lz3 := drop 8 b\<rparr>)"

definition scalar_byte :: "bytes \<Rightarrow> bool \<Rightarrow> nat \<Rightarrow> u8" where
  "scalar_byte scalar clamp i =
     (let bytei = scalar ! i in
      if clamp then
        if i = 0 then bytei AND NOT 7
        else if i = 31 then bytei AND 0x7F OR 0x40
        else bytei
      else bytei)"

text \<open>The loop from bit \<open>n - 1\<close> down to bit 0.\<close>

fun core_loop :: "bytes \<Rightarrow> bool \<Rightarrow> fe \<Rightarrow> nat \<Rightarrow> u32 \<Rightarrow> ladder \<Rightarrow> u32 \<times> ladder" where
  "core_loop scalar clamp x1 0 swap xs = (swap, xs)"
| "core_loop scalar clamp x1 (Suc i) swap xs =
     (let bytei = scalar_byte scalar clamp (i div 8);
          doswap = - ucast (drop_bit (i mod 8) bytei AND 1);
          xs = ladder_swap (swap XOR doswap) xs;
          xs = ladder_part2 (ladder_part1 xs) x1
      in core_loop scalar clamp x1 i doswap xs)"

definition swapin :: "bytes \<Rightarrow> fe" where
  "swapin bs = map (\<lambda>i. U8TO32_LITTLE (bslice (4 * i) 4 bs)) [0..<8]"

definition swapout :: "fe \<Rightarrow> bytes" where
  "swapout x = concat (map U32TO8_LITTLE x)"

text \<open>\<open>t1\<close> is not initialised; the first part of the ladder sets it before it is read.\<close>

definition x25519_core :: "fe \<Rightarrow> bytes \<Rightarrow> bytes \<Rightarrow> bool \<Rightarrow> ladder" where
  "x25519_core t1 scalar x1 clamp =
     (let fe0 = replicate 8 0; fe1 = 1 # replicate 7 0;
          xs = \<lparr>lx2 = fe1, lz2 = fe0, lx3 = swapin x1, lz3 = fe1, lt1 = t1\<rparr>;
          (swap, xs) = core_loop scalar clamp (swapin x1) 256 0 xs
      in ladder_swap swap xs)"

text \<open>The inversion: registers are the five field elements by their index in \<open>xs\<close>; \<open>prev\<close> is the
  index of the element that was written last.\<close>

fun sqr_loop :: "nat \<Rightarrow> nat \<Rightarrow> nat \<Rightarrow> fe list \<Rightarrow> nat \<times> fe list" where
  "sqr_loop 0 a prev xs = (prev, xs)"
| "sqr_loop (Suc n) a prev xs = sqr_loop n a a (xs[a := fe_sqr (xs ! prev)])"

fun power_chain :: "(nat \<times> nat \<times> nat) list \<Rightarrow> nat \<Rightarrow> fe list \<Rightarrow> nat \<times> fe list" where
  "power_chain [] prev xs = (prev, xs)"
| "power_chain ((a, c, n) # steps) prev xs =
     (let (prev, xs) = sqr_loop n a prev xs
      in power_chain steps prev (xs[a := fe_mul1 (xs ! a) (xs ! c)]))"

definition inversion_steps :: "(nat \<times> nat \<times> nat) list" where
  "inversion_steps = [(2, 1, 1), (2, 1, 1), (4, 2, 3), (2, 4, 6), (3, 1, 1), (3, 2, 12), (4, 3, 25), (2, 3, 25),
     (2, 4, 50), (3, 2, 125), (3, 1, 2), (3, 1, 2), (3, 1, 1)]"

text \<open>The result of the function and the output.\<close>

definition x25519 :: "fe \<Rightarrow> bytes \<Rightarrow> bytes \<Rightarrow> bool \<Rightarrow> int \<times> bytes" where
  "x25519 t1 scalar x1 clamp =
     (let l = x25519_core t1 scalar x1 clamp;
          (prev, xs) = power_chain inversion_steps 1 [lx2 l, lz2 l, lx3 l, lz3 l, lt1 l];
          (ret, x2) = canon (fe_mul1 (xs ! 0) (xs ! 3))
      in (if clamp then sint ret else 0, swapout x2))"

end
