(* ===== verification/X25519_Correct.thy ===== *)
theory X25519_Correct
  imports X25519
begin

text \<open>
  Correctness of \<open>X25519\<close>: the limb functions compute modulo \<open>p = 2\<^sup>2\<^sup>5\<^sup>5 - 19\<close>, every intermediate
  carry fits its type, the constant-time swaps implement the branching ladder of RFC 7748, and the chain of
  squarings raises to the power \<open>p - 2\<close>.
\<close>

section \<open>Values of limbs\<close>

fun fval :: "fe \<Rightarrow> int" where
  "fval [] = 0"
| "fval (x # xs) = uint x + 2 ^ 32 * fval xs"

lemma fval_append: "fval (xs @ ys) = fval xs + 2 ^ (32 * length xs) * fval ys"
  by (induction xs) (simp_all add: algebra_simps power_add)

lemma fval_replicate_0 [simp]: "fval (replicate n 0) = 0"
  by (induction n) simp_all

lemma fval_nonneg [simp]: "0 \<le> fval xs"
  by (induction xs) simp_all

lemma uint_u32_less [simp]: "uint (x :: u32) < 2 ^ 32"
  using uint_bounded [of x] by simp

lemma fval_less: "fval xs < 2 ^ (32 * length xs)"
proof (induction xs)
  case (Cons x xs)
  have "uint x \<le> 2 ^ 32 - 1" using uint_u32_less [of x] by linarith
  moreover have "fval xs \<le> 2 ^ (32 * length xs) - 1" using Cons by linarith
  ultimately have "fval (x # xs) \<le> 2 ^ 32 - 1 + 2 ^ 32 * (2 ^ (32 * length xs) - 1)"
    unfolding fval.simps by (intro add_mono mult_left_mono) simp_all
  then show ?case by (simp add: power_add algebra_simps)
qed simp

lemma split_u64: "uint (ucast (t :: u64) :: u32) + 2 ^ 32 * uint (ucast (drop_bit 32 t) :: u32) = uint t"
proof -
  have t: "0 \<le> uint t" "uint t < 2 ^ 64" using uint_bounded [of t] by simp_all
  have 1: "uint (ucast t :: u32) = uint t mod 2 ^ 32" by (simp add: unsigned_ucast_eq take_bit_eq_mod)
  have "uint (drop_bit 32 t) = drop_bit 32 (take_bit 64 (uint t))" using unsigned_drop_bit_eq [of 32 t] by simp
  then have "uint (drop_bit 32 t) = uint t div 2 ^ 32"
    using t by (simp only: take_bit_int_eq_self drop_bit_eq_div)
  moreover have "take_bit 32 (uint t div 2 ^ 32) = uint t div 2 ^ 32"
    using t by (intro take_bit_int_eq_self) (simp_all add: pos_imp_zdiv_nonneg_iff)
  ultimately have "uint (ucast (drop_bit 32 t) :: u32) = uint t div 2 ^ 32"
    by (simp add: unsigned_ucast_eq)
  with 1 show ?thesis by simp
qed

lemma uint_ucast_u32_64 [simp]: "uint (ucast (x :: u32) :: u64) = uint x"
  using uint_bounded [of x] by (simp add: unsigned_ucast_eq take_bit_int_eq_self)

lemma uint_plus_u64: "uint (a :: u64) + uint b < 2 ^ 64 \<Longrightarrow> uint (a + b) = uint a + uint b"
  by (simp add: uint_word_ariths)

lemma umaal_val:
  assumes "umaal c a m n = (c', r)"
  shows "uint r + 2 ^ 32 * uint c' = uint m * uint n + uint a + uint c"
proof -
  let ?p = "ucast m * ucast n :: u64"
  have b: "uint m \<le> 2 ^ 32 - 1" "uint n \<le> 2 ^ 32 - 1" "uint a \<le> 2 ^ 32 - 1" "uint c \<le> 2 ^ 32 - 1"
    using uint_u32_less [of m] uint_u32_less [of n] uint_u32_less [of a] uint_u32_less [of c] by linarith+
  have "uint m * uint n \<le> (2 ^ 32 - 1) * (2 ^ 32 - 1)" using b by (intro mult_mono) simp_all
  then have mn: "uint m * uint n \<le> 2 ^ 64 - 2 ^ 33 + 1" by simp
  then have p: "uint ?p = uint m * uint n" by (simp add: uint_word_ariths)
  have q: "uint (?p + ucast a) = uint m * uint n + uint a"
    using mn b p by (subst uint_plus_u64) simp_all
  have "uint (?p + ucast a + ucast c) = uint m * uint n + uint a + uint c"
    using mn b q by (subst uint_plus_u64) simp_all
  with split_u64 [of "?p + ucast a + ucast c"] assms show ?thesis by (simp add: umaal_def Let_def)
qed

lemma adc_val:
  assumes "adc c a b = (c', r)"
  shows "uint r + 2 ^ 32 * uint c' = uint a + uint b + uint c"
proof -
  have x: "uint a \<le> 2 ^ 32 - 1" "uint b \<le> 2 ^ 32 - 1" "uint c \<le> 2 ^ 32 - 1"
    using uint_u32_less [of a] uint_u32_less [of b] uint_u32_less [of c] by linarith+
  have q: "uint (ucast c + ucast a :: u64) = uint c + uint a" using x by (subst uint_plus_u64) simp_all
  have "uint (ucast c + ucast a + ucast b :: u64) = uint c + uint a + uint b"
    using x q by (subst uint_plus_u64) simp_all
  with split_u64 [of "ucast c + ucast a + ucast b"] assms show ?thesis by (simp add: adc_def Let_def)
qed

lemma adc0_val:
  assumes "adc0 c a = (c', r)"
  shows "uint r + 2 ^ 32 * uint c' = uint a + uint c"
proof -
  have x: "uint a \<le> 2 ^ 32 - 1" "uint c \<le> 2 ^ 32 - 1"
    using uint_u32_less [of a] uint_u32_less [of c] by linarith+
  have "uint (ucast c + ucast a :: u64) = uint c + uint a" using x by (subst uint_plus_u64) simp_all
  with split_u64 [of "ucast c + ucast a"] assms show ?thesis by (simp add: adc0_def Let_def)
qed

lemma adc0_loop_val:
  assumes "adc0_loop c xs = (c', ys)"
  shows "length ys = length xs \<and> fval ys + 2 ^ (32 * length xs) * uint c' = fval xs + uint c"
  using assms
proof (induction xs arbitrary: c c' ys)
  case (Cons x xs)
  obtain c1 r where a: "adc0 c x = (c1, r)" by fastforce
  obtain c2 rs where l: "adc0_loop c1 xs = (c2, rs)" by fastforce
  have "ys = r # rs" "c' = c2" using Cons.prems a l by simp_all
  with Cons.IH [OF l] adc0_val [OF a] show ?case by (simp add: power_add algebra_simps)
qed simp

lemma adc_loop_val:
  assumes "adc_loop c xs ys = (c', zs)" and "length xs = length ys"
  shows "length zs = length xs \<and> fval zs + 2 ^ (32 * length xs) * uint c' = fval xs + fval ys + uint c"
  using assms
proof (induction xs arbitrary: ys c c' zs)
  case (Cons x xs)
  then obtain y ys' where ys: "ys = y # ys'" "length xs = length ys'" by (cases ys) auto
  obtain c1 r where a: "adc c x y = (c1, r)" by fastforce
  obtain c2 rs where l: "adc_loop c1 xs ys' = (c2, rs)" by fastforce
  have "zs = r # rs" "c' = c2" using Cons.prems a l ys by simp_all
  with Cons.IH [OF l ys(2)] adc_val [OF a] ys show ?case by (simp add: power_add algebra_simps)
qed simp

lemma umaal_loop_val:
  assumes "umaal_loop c xs m ys = (c', zs)" and "length xs = length ys"
  shows "length zs = length xs \<and> fval zs + 2 ^ (32 * length xs) * uint c' = fval xs + uint m * fval ys + uint c"
  using assms
proof (induction xs arbitrary: ys c c' zs)
  case (Cons x xs)
  then obtain y ys' where ys: "ys = y # ys'" "length xs = length ys'" by (cases ys) auto
  obtain c1 r where a: "umaal c x m y = (c1, r)" by fastforce
  obtain c2 rs where l: "umaal_loop c1 xs m ys' = (c2, rs)" by fastforce
  have "zs = r # rs" "c' = c2" using Cons.prems a l ys by simp_all
  with Cons.IH [OF l ys(2)] umaal_val [OF a] ys show ?case by (simp add: power_add algebra_simps)
qed simp

lemma sub_loop_val:
  assumes "sub_loop c xs ys = (c', zs)" and "length xs = length ys"
  shows "length zs = length xs \<and> fval zs + 2 ^ (32 * length xs) * c' = fval xs - fval ys + c"
  using assms
proof (induction xs arbitrary: ys c c' zs)
  case (Cons x xs)
  then obtain y ys' where ys: "ys = y # ys'" "length xs = length ys'" by (cases ys) auto
  define d where "d = c + uint x - uint y"
  obtain c2 rs where l: "sub_loop (d div 2 ^ 32) xs ys' = (c2, rs)" by fastforce
  have z: "zs = word_of_int d # rs" "c' = c2" using Cons.prems l ys by (simp_all add: d_def Let_def)
  have "uint (word_of_int d :: u32) = d mod 2 ^ 32" by (simp add: uint_word_of_int)
  then have "uint (word_of_int d :: u32) + 2 ^ 32 * (d div 2 ^ 32) = d" by simp
  with Cons.IH [OF l ys(2)] ys z show ?case by (simp add: power_add algebra_simps d_def)
qed simp

section \<open>Reduction\<close>

definition p25519 :: int where "p25519 = 2 ^ 255 - 19"

lemma uint_of_unat: "uint (x :: 'a::len word) = int (unat x)"
  by simp

lemma scaled_uint_0: "2 ^ n * uint (c :: 'a::len word) < 2 ^ n \<Longrightarrow> uint c = 0"
  using uint_nonnegative [of c] mult_left_mono [of 1 "uint c" "2 ^ n"] by (cases "uint c = 0") auto

lemma clear_top_bit: "(h :: u32) AND NOT (push_bit 31 1) = take_bit 31 h"
proof -
  have "NOT (push_bit 31 1) = (mask 31 :: u32)" by code_simp
  then show ?thesis by (simp only: take_bit_eq_mask)
qed

lemma top_split:
  assumes "uint over < 2 ^ 30"
  shows "uint (drop_bit 31 (h :: u32) OR push_bit 1 over) = uint h div 2 ^ 31 + 2 * uint over"
proof -
  have d: "unat (drop_bit 31 h) = unat h div 2 ^ 31" by (rule unat_drop_bit)
  have "unat h < 2 ^ 32" using unsigned_less [of h] by simp
  then have "unat (drop_bit 31 h) < 2" unfolding d by simp
  moreover have "unat over < 2 ^ 30" using assms by (simp add: uint_of_unat del: of_nat_unat)
  ultimately have "unat (drop_bit 31 h OR push_bit 1 over) = unat (drop_bit 31 h) + 2 * unat over"
    using unat_or_push_bit [of "drop_bit 31 h" 1 over] by simp
  then show ?thesis unfolding uint_of_unat d by (simp add: zdiv_int)
qed

lemma propagate_val:
  assumes l: "length x = 8" and o: "uint over < 2 ^ 20"
  defines "V \<equiv> fval x + 2 ^ 256 * uint over"
  shows "length (propagate x over) = 8" and "fval (propagate x over) = V mod 2 ^ 255 + 19 * (V div 2 ^ 255)"
proof -
  obtain ys h where x: "x = ys @ [h]" "length ys = 7"
    using l by (cases x rule: rev_cases) auto
  define top where "top = drop_bit 31 h OR push_bit 1 over"
  have h: "0 \<le> uint h" "uint h < 2 ^ 32" using uint_u32_less [of h] by simp_all
  have t: "uint top = uint h div 2 ^ 31 + 2 * uint over" unfolding top_def using o by (intro top_split) simp
  have m: "uint (take_bit 31 h) = uint h mod 2 ^ 31" using unsigned_take_bit_eq [of 31 h] by (simp add: take_bit_eq_mod)
  have x7: "x ! 7 = h" "x[7 := y] = ys @ [y]" for y using x by (simp_all add: list_update_append nth_append)
  have ys: "0 \<le> fval ys" "fval ys < 2 ^ 224" using fval_less [of ys] x(2) by simp_all
  have V: "V = fval ys + 2 ^ 224 * (uint h mod 2 ^ 31) + 2 ^ 255 * uint top"
  proof -
    define m d where "m = uint h mod 2 ^ 31" and "d = uint h div 2 ^ 31"
    have "uint h = m + 2 ^ 31 * d" by (simp add: m_def d_def)
    then show ?thesis unfolding V_def x t m_def [symmetric] d_def [symmetric] by (simp add: fval_append x(2) algebra_simps)
  qed
  have low: "0 \<le> fval ys + 2 ^ 224 * (uint h mod 2 ^ 31)" "fval ys + 2 ^ 224 * (uint h mod 2 ^ 31) < 2 ^ 255"
  proof -
    have "uint h mod 2 ^ 31 \<le> 2 ^ 31 - 1" using pos_mod_bound [of "2 ^ 31" "uint h"] by simp
    then have "2 ^ 224 * (uint h mod 2 ^ 31) \<le> 2 ^ 224 * (2 ^ 31 - 1)" by (intro mult_left_mono) simp_all
    then show "fval ys + 2 ^ 224 * (uint h mod 2 ^ 31) < 2 ^ 255" using ys by simp
    show "0 \<le> fval ys + 2 ^ 224 * (uint h mod 2 ^ 31)" using ys by simp
  qed
  have VV: "V mod 2 ^ 255 = fval ys + 2 ^ 224 * (uint h mod 2 ^ 31)" "V div 2 ^ 255 = uint top"
    unfolding V using low by (simp_all only: mod_mult_self2 mod_pos_pos_trivial div_mult_self2 div_pos_pos_trivial)
  have tb: "uint top < 2 ^ 22" using t o h by simp
  then have c: "uint (top * 19) = 19 * uint top" by (simp add: uint_word_ariths)
  obtain c' zs where l0: "adc0_loop (top * 19) (ys @ [take_bit 31 h]) = (c', zs)" by fastforce
  have p: "propagate x over = zs" unfolding propagate_def Let_def x7 clear_top_bit top_def [symmetric] l0 by simp
  note r = adc0_loop_val [OF l0]
  show "length (propagate x over) = 8" using r p x(2) by simp
  have e: "fval zs + 2 ^ 256 * uint c' = V mod 2 ^ 255 + 19 * uint top"
    unfolding VV(1) using r x(2) by (simp add: fval_append m c)
  have "V mod 2 ^ 255 + 19 * uint top < 2 ^ 256" unfolding VV(1) using tb low by simp
  then have "2 ^ 256 * uint c' < 2 ^ 256" using e fval_nonneg [of zs] by linarith
  then have "uint c' = 0" by (rule scaled_uint_0)
  then show "fval (propagate x over) = V mod 2 ^ 255 + 19 * (V div 2 ^ 255)" using e p VV(2) by simp
qed


text \<open>Elements as they leave \<open>propagate\<close>: below \<open>2\<^sup>2\<^sup>5\<^sup>5\<close> plus a word.\<close>

definition tight :: "fe \<Rightarrow> bool" where
  "tight x \<longleftrightarrow> length x = 8 \<and> fval x < 2 ^ 255 + 2 ^ 32"

text \<open>\<open>represents x v\<close>: the limbs \<open>x\<close> stand for \<open>v\<close> modulo \<open>p\<close>.\<close>

definition represents :: "fe \<Rightarrow> int \<Rightarrow> bool" where
  "represents x v \<longleftrightarrow> length x = 8 \<and> fval x mod p25519 = v mod p25519"

lemma represents_length [dest]: "represents x v \<Longrightarrow> length x = 8"
  by (simp add: represents_def)

lemma fold_mod: "(V mod 2 ^ 255 + 19 * (V div 2 ^ 255)) mod p25519 = V mod p25519"
proof -
  define m d where "m = V mod 2 ^ 255" and "d = V div 2 ^ 255"
  have "V = m + 2 ^ 255 * d" by (simp add: m_def d_def)
  then have "V = m + 19 * d + p25519 * d" by (simp add: p25519_def algebra_simps)
  then have "(m + 19 * d) mod p25519 = V mod p25519" by simp
  then show ?thesis unfolding m_def d_def .
qed

lemma propagate_represents:
  assumes "length x = 8" and "uint over < 2 ^ 20" and "(fval x + 2 ^ 256 * uint over) mod p25519 = v mod p25519"
  shows "represents (propagate x over) v" and "tight (propagate x over)"
proof -
  let ?V = "fval x + 2 ^ 256 * uint over"
  note p = propagate_val [OF assms(1,2)]
  show "represents (propagate x over) v" using p assms(3) fold_mod [of ?V] by (simp add: represents_def)
  have "fval x < 2 ^ 256" using fval_less [of x] assms(1) by simp
  then have "?V < 2 ^ 255 * (2 + 2 * 2 ^ 20)" using assms(2) by simp
  then have "?V div 2 ^ 255 < 2 + 2 * 2 ^ 20" by (simp add: div_less_iff_less_mult mult.commute)
  moreover have "?V mod 2 ^ 255 < 2 ^ 255" by simp
  ultimately show "tight (propagate x over)" using p by (simp add: tight_def)
qed

lemma fe_add_represents:
  assumes a: "represents a u" and b: "represents b v"
  shows "represents (fe_add a b) (u + v)" and "tight (fe_add a b)"
proof -
  obtain c out where l: "adc_loop 0 a b = (c, out)" by fastforce
  have ab: "length a = 8" "length b = 8" using a b by auto
  have r: "length out = 8" "fval out + 2 ^ 256 * uint c = fval a + fval b"
    using adc_loop_val [OF l] ab by simp_all
  have "fval a < 2 ^ 256" "fval b < 2 ^ 256" using fval_less [of a] fval_less [of b] ab by simp_all
  then have "2 ^ 256 * uint c < 2 ^ 256 * 2" using r(2) fval_nonneg [of out] by linarith
  then have c: "uint c < 2 ^ 20" by simp
  have "(fval a + fval b) mod p25519 = (u + v) mod p25519"
    using a b by (intro mod_add_cong) (simp_all add: represents_def)
  then have "(fval out + 2 ^ 256 * uint c) mod p25519 = (u + v) mod p25519" unfolding r(2) .
  from propagate_represents [OF r(1) c this]
  show "represents (fe_add a b) (u + v)" "tight (fe_add a b)" by (simp_all add: fe_add_def l)
qed

text \<open>The subtrahend must leave room for the bias \<open>2\<^sup>2\<^sup>5\<^sup>6 - 38 = 2p\<close>.\<close>

lemma fe_sub_represents:
  assumes a: "represents a u" and b: "represents b v" and t: "tight b"
  shows "represents (fe_sub a b) (u - v)" and "tight (fe_sub a b)"
proof -
  obtain c out where l: "sub_loop (-38) a b = (c, out)" by fastforce
  have ab: "length a = 8" "length b = 8" using a b by auto
  have r: "length out = 8" "fval out + 2 ^ 256 * c = fval a - fval b - 38"
    using sub_loop_val [OF l] ab by simp_all
  have a': "fval a < 2 ^ 256" "0 \<le> fval a" using fval_less [of a] ab by simp_all
  have b': "fval b < 2 ^ 255 + 2 ^ 32" "0 \<le> fval b" using t by (simp_all add: tight_def)
  have o: "fval out < 2 ^ 256" "0 \<le> fval out" using fval_less [of out] r(1) by simp_all
  have "2 ^ 256 * c < 2 ^ 256 * 1" using r(2) a' b' o by linarith
  moreover have "(2 :: int) ^ 256 = 2 * 2 ^ 255" "(2 :: int) ^ 32 + 38 < 2 ^ 255" by simp_all
  then have "2 ^ 256 * (- 2) < 2 ^ 256 * c" using r(2) a' b' o by linarith
  ultimately have c: "- 2 < c" "c < 1" by simp_all
  then have u: "uint (word_of_int (1 + c) :: u32) = 1 + c" by (subst uint_word_of_int) (simp add: mod_pos_pos_trivial)
  have "fval out + 2 ^ 256 * (1 + c) = fval a - fval b + p25519 * 2" using r(2) by (simp add: p25519_def algebra_simps)
  then have "(fval out + 2 ^ 256 * (1 + c)) mod p25519 = (fval a - fval b) mod p25519" by simp
  also have "\<dots> = (u - v) mod p25519" using a b by (intro mod_diff_cong) (simp_all add: represents_def)
  finally have e: "(fval out + 2 ^ 256 * uint (word_of_int (1 + c) :: u32)) mod p25519 = (u - v) mod p25519" unfolding u .
  have "uint (word_of_int (1 + c) :: u32) < 2 ^ 20" unfolding u using c by simp
  from propagate_represents [OF r(1) this e]
  show "represents (fe_sub a b) (u - v)" "tight (fe_sub a b)" by (simp_all add: fe_sub_def l)
qed


section \<open>Multiplication\<close>

text \<open>After the rows below \<open>i\<close> the product with the limbs so far is in the first \<open>8 + i\<close> limbs.\<close>

lemma mul_rows:
  assumes a: "length a = 8" and "nb \<le> length b" and "nb \<le> 8"
  shows "\<exists>r. fold (mul_row a b) [0..<nb] (replicate 16 0) = r @ replicate (8 - nb) 0 \<and>
    length r = 8 + nb \<and> fval r = fval a * fval (take nb b)"
  using assms(2,3)
proof (induction nb)
  case 0
  have "replicate 16 (0 :: u32) = replicate 8 0 @ replicate 8 0" by (simp flip: replicate_add)
  then show ?case by (intro exI [of _ "replicate 8 0"]) simp
next
  case (Suc i)
  then obtain r where r: "fold (mul_row a b) [0..<i] (replicate 16 0) = r @ replicate (8 - i) 0"
      "length r = 8 + i" "fval r = fval a * fval (take i b)" by auto
  define acc where "acc = r @ replicate (8 - i) 0"
  have sl: "bslice i 8 acc = drop i r" using r(2) by (simp add: acc_def bslice_def)
  obtain c z where l: "umaal_loop 0 (drop i r) (b ! i) a = (c, z)" by fastforce
  have z: "length z = 8" "fval z + 2 ^ 256 * uint c = fval (drop i r) + uint (b ! i) * fval a"
    using umaal_loop_val [OF l] r(2) a by simp_all
  have "drop (i + 9) acc = replicate (8 - Suc i) 0" using r(2) Suc.prems by (simp add: acc_def)
  then have row: "mul_row a b i acc = (take i r @ z @ [c]) @ replicate (8 - Suc i) 0"
    using r(2) by (simp add: mul_row_def sl l) (simp add: acc_def)
  have A: "fval r = fval (take i r) + 2 ^ (32 * i) * fval (drop i r)"
    using fval_append [of "take i r" "drop i r"] r(2) by simp
  have B: "fval (take (Suc i) b) = fval (take i b) + 2 ^ (32 * i) * uint (b ! i)"
    using Suc.prems by (simp add: take_Suc_conv_app_nth fval_append)
  have C: "fval (take i r @ z @ [c]) = fval (take i r) + 2 ^ (32 * i) * (fval z + 2 ^ 256 * uint c)"
    using z(1) r(2) by (simp add: fval_append)
  have "fval (take i r @ z @ [c]) = fval a * fval (take (Suc i) b)"
    unfolding C z(2) B using A r(3) by (simp add: algebra_simps)
  then show ?case using r z(1) row
    by (intro exI [of _ "take i r @ z @ [c]"]) (simp add: acc_def)
qed

lemma fe_mul_represents:
  assumes a: "represents a u" and b: "fval (take nb b) mod p25519 = v mod p25519" and nb: "nb \<le> length b" "nb \<le> 8"
  shows "represents (fe_mul a b nb) (u * v)" and "tight (fe_mul a b nb)"
proof -
  have la: "length a = 8" using a by auto
  obtain r where r: "fold (mul_row a b) [0..<nb] (replicate 16 0) = r @ replicate (8 - nb) 0"
      "length r = 8 + nb" "fval r = fval a * fval (take nb b)"
    using mul_rows [OF la nb] by blast
  define acc where "acc = r @ replicate (8 - nb) 0"
  have acc: "length acc = 16" "fval acc = fval a * fval (take nb b)" using r nb by (simp_all add: acc_def fval_append)
  obtain c out where l: "umaal_loop 0 (take 8 acc) 38 (drop 8 acc) = (c, out)" by fastforce
  have o: "length out = 8" "fval out + 2 ^ 256 * uint c = fval (take 8 acc) + 38 * fval (drop 8 acc)"
    using umaal_loop_val [OF l] acc(1) by simp_all
  have lt: "fval (take 8 acc) < 2 ^ 256" "fval (drop 8 acc) < 2 ^ 256"
    using fval_less [of "take 8 acc"] fval_less [of "drop 8 acc"] acc(1) by simp_all
  then have "2 ^ 256 * uint c < 2 ^ 256 * 39" using o(2) fval_nonneg [of out] by linarith
  then have c: "uint c < 2 ^ 20" by simp
  have "fval acc = fval (take 8 acc) + 2 ^ 256 * fval (drop 8 acc)"
    using fval_append [of "take 8 acc" "drop 8 acc"] acc(1) by simp
  then have "fval acc = fval out + 2 ^ 256 * uint c + p25519 * (2 * fval (drop 8 acc))"
    using o(2) by (simp add: p25519_def algebra_simps)
  then have "(fval out + 2 ^ 256 * uint c) mod p25519 = fval acc mod p25519" by simp
  also have "\<dots> = (u * v) mod p25519" unfolding acc(2) using a b by (intro mod_mult_cong) (simp_all add: represents_def)
  finally have e: "(fval out + 2 ^ 256 * uint c) mod p25519 = (u * v) mod p25519" .
  have "fe_mul a b nb = propagate out c" by (simp add: fe_mul_def r(1) acc_def [symmetric] l)
  with propagate_represents [OF o(1) c e]
  show "represents (fe_mul a b nb) (u * v)" "tight (fe_mul a b nb)" by simp_all
qed

lemma fe_mul1_represents:
  assumes "represents out v" and "represents a u"
  shows "represents (fe_mul1 out a) (u * v)" and "tight (fe_mul1 out a)"
  using fe_mul_represents [OF assms(2), of 8 out v] assms by (auto simp: fe_mul1_def represents_def)

lemma fe_sqr_represents:
  assumes "represents a u"
  shows "represents (fe_sqr a) (u * u)" and "represents (fe_sqr1 a) (u * u)" and "tight (fe_sqr a)" and "tight (fe_sqr1 a)"
  using fe_mul1_represents [OF assms assms] by (simp_all add: fe_sqr_def fe_sqr1_def fe_mul1_def)

lemmas fe_represents = fe_add_represents fe_sub_represents fe_mul1_represents fe_sqr_represents

section \<open>Least residues\<close>

lemma fval_eq_0_iff: "fval xs = 0 \<longleftrightarrow> (\<forall>x \<in> set xs. x = 0)"
proof (induction xs)
  case (Cons x xs)
  have "fval (x # xs) = 0 \<longleftrightarrow> uint x = 0 \<and> fval xs = 0"
    using uint_nonnegative [of x] fval_nonneg [of xs] by (auto simp: add_nonneg_eq_0_iff)
  with Cons show ?case by (simp add: unsigned_eq_0_iff)
qed simp

lemma or_word_eq_0 [simp]: "(a :: u32) OR b = 0 \<longleftrightarrow> a = 0 \<and> b = 0"
  by (rule or_eq_0_iff)

lemma canon_loop_val:
  assumes "canon_loop c res xs = (res', ys)"
  shows "length ys = length xs \<and> (\<exists>c'. fval ys + 2 ^ (32 * length xs) * c' = fval xs + c) \<and>
    (res' = 0 \<longleftrightarrow> res = 0 \<and> fval ys = 0)"
  using assms
proof (induction xs arbitrary: c res res' ys)
  case (Cons x xs)
  define d where "d = c + uint x"
  let ?r = "word_of_int d :: u32"
  obtain res2 rs where l: "canon_loop (d div 2 ^ 32) (res OR ?r) xs = (res2, rs)" by fastforce
  have z: "ys = ?r # rs" "res' = res2" using Cons.prems l by (simp_all add: d_def Let_def)
  obtain c' where c': "length rs = length xs" "fval rs + 2 ^ (32 * length xs) * c' = fval xs + d div 2 ^ 32"
      "res2 = 0 \<longleftrightarrow> (res OR ?r) = 0 \<and> fval rs = 0"
    using Cons.IH [OF l] by blast
  have "uint ?r = d mod 2 ^ 32" by (simp add: uint_word_of_int)
  then have d: "uint ?r + 2 ^ 32 * (d div 2 ^ 32) = d" by simp
  have "fval ys + 2 ^ (32 * length (x # xs)) * c' = uint ?r + 2 ^ 32 * (fval rs + 2 ^ (32 * length xs) * c')"
    by (simp add: z power_add algebra_simps)
  also have "\<dots> = fval (x # xs) + c" unfolding c'(2) using d by (simp add: d_def algebra_simps)
  finally have "fval ys + 2 ^ (32 * length (x # xs)) * c' = fval (x # xs) + c" .
  moreover have "res' = 0 \<longleftrightarrow> res = 0 \<and> fval ys = 0"
    unfolding z c'(3) or_word_eq_0 fval_eq_0_iff by auto
  ultimately show ?case using c'(1) z by auto
qed simp

lemma canon_flag: "(ucast (drop_bit 32 (ucast res - 1 :: u64)) :: u32) = (if res = 0 then - 1 else 0)" for res :: u32
proof (cases "res = 0")
  case False
  let ?t = "ucast res - 1 :: u64"
  have "uint res \<noteq> 0" using False by (simp add: unsigned_eq_0_iff)
  then have r: "0 < uint res" "uint res < 2 ^ 32" using uint_nonnegative [of res] uint_u32_less [of res] by linarith+
  then have "uint ?t = uint res - 1" by (simp add: uint_word_ariths)
  then have "uint ?t < 2 ^ 32" using r by linarith
  moreover have "0 \<le> uint (ucast ?t :: u32)" "0 \<le> uint (ucast (drop_bit 32 ?t) :: u32)" by simp_all
  ultimately have "2 ^ 32 * uint (ucast (drop_bit 32 ?t) :: u32) < 2 ^ 32"
    using split_u64 [of ?t] by linarith
  then have "uint (ucast (drop_bit 32 ?t) :: u32) = 0" by (rule scaled_uint_0)
  then show ?thesis using False by (simp add: unsigned_eq_0_iff)
next
  case True
  have "(ucast (drop_bit 32 (ucast (0 :: u32) - 1 :: u64)) :: u32) = - 1" by code_simp
  then show ?thesis using True by simp
qed

lemma residue_cases:
  assumes "0 \<le> f" and "f < 2 ^ 255 + 2 ^ 32"
  shows "(f + 19) mod 2 ^ 255 + 19 * ((f + 19) div 2 ^ 255) = f mod p25519 + 19"
proof (cases "f < p25519")
  case True
  then have "f + 19 < 2 ^ 255" by (simp add: p25519_def)
  then have "(f + 19) mod 2 ^ 255 = f + 19" "(f + 19) div 2 ^ 255 = 0" "f mod p25519 = f"
    using assms True by (simp_all add: mod_pos_pos_trivial div_pos_pos_trivial)
  then show ?thesis by simp
next
  case False
  define g where "g = f - p25519"
  have g: "0 \<le> g" "g < 2 ^ 33" "f + 19 = g + 2 ^ 255 * 1" "f = g + p25519 * 1" "g < p25519" "g < 2 ^ 255"
    using False assms by (simp_all add: g_def p25519_def)
  have "(f + 19) mod 2 ^ 255 = g" "(f + 19) div 2 ^ 255 = 1" unfolding g(3) using g by (simp_all only: mod_mult_self2 div_mult_self2 mod_pos_pos_trivial div_pos_pos_trivial)
  moreover have "f mod p25519 = g" unfolding g(4) mod_mult_self2 using g by (simp add: mod_pos_pos_trivial)
  ultimately show ?thesis by simp
qed

lemma canon_val:
  assumes t: "tight x" and "canon x = (ret, y)"
  shows "length y = 8" and "fval y = fval x mod p25519" and "ret = (if fval y = 0 then - 1 else 0)"
proof -
  have x: "length x = 8" "fval x < 2 ^ 255 + 2 ^ 32" using t by (simp_all add: tight_def)
  obtain c0 x1 where l: "adc0_loop 19 x = (c0, x1)" by fastforce
  have 1: "length x1 = 8" "fval x1 + 2 ^ 256 * uint c0 = fval x + 19" using adc0_loop_val [OF l] x(1) by simp_all
  have "fval x + 19 < 2 ^ 256" using x(2) by simp
  then have "2 ^ 256 * uint c0 < 2 ^ 256" using 1(2) fval_nonneg [of x1] by linarith
  then have c0: "uint c0 = 0" by (rule scaled_uint_0)
  define x2 where "x2 = propagate x1 c0"
  have 2: "length x2 = 8" "fval x2 = fval x mod p25519 + 19"
    using propagate_val [OF 1(1), of c0] c0 1(2) residue_cases [OF fval_nonneg x(2)] by (simp_all add: x2_def)
  obtain res y' where l2: "canon_loop (-19) 0 x2 = (res, y')" by fastforce
  have y: "y = y'" "ret = (if res = 0 then - 1 else 0)"
    using assms(2) by (simp_all add: canon_def l x2_def [symmetric] l2 canon_flag)
  obtain c' where 3: "length y' = 8" "fval y' + 2 ^ 256 * c' = fval x mod p25519" "res = 0 \<longleftrightarrow> fval y' = 0"
    using canon_loop_val [OF l2] 2 by auto
  have m: "0 \<le> fval x mod p25519" "fval x mod p25519 < 2 ^ 256"
    using pos_mod_bound [of p25519 "fval x"] by (simp_all add: p25519_def)
  have y': "0 \<le> fval y'" "fval y' < 2 ^ 256" using fval_less [of y'] 3(1) by simp_all
  have "2 ^ 256 * (- 1) < 2 ^ 256 * c'" "2 ^ 256 * c' < 2 ^ 256 * 1" using 3(2) m y' by linarith+
  then have "c' = 0" by simp
  then show "length y = 8" "fval y = fval x mod p25519" "ret = (if fval y = 0 then - 1 else 0)" using 3 y by simp_all
qed

section \<open>The ladder of RFC 7748\<close>

text \<open>The reference: projective points as pairs of residues, one step doubles the first point and adds
  the two; the bits of the scalar decide which of the two is doubled.\<close>

type_synonym points = "int \<times> int \<times> int \<times> int"

definition mont_step :: "int \<Rightarrow> points \<Rightarrow> points" where
  "mont_step u s = (case s of (x2, z2, x3, z3) \<Rightarrow>
     let A = x2 + z2; AA = A * A; B = x2 - z2; BB = B * B; E = AA - BB;
         C = x3 + z3; D = x3 - z3; DA = D * A; CB = C * B
     in ((AA * BB) mod p25519, (E * (AA + 121665 * E)) mod p25519,
         ((DA + CB) * (DA + CB)) mod p25519, (u * ((DA - CB) * (DA - CB))) mod p25519))"

definition flip :: "bool \<Rightarrow> points \<Rightarrow> points" where
  "flip b s = (case s of (x2, z2, x3, z3) \<Rightarrow> if b then (x3, z3, x2, z2) else s)"

fun mont_ladder :: "(nat \<Rightarrow> bool) \<Rightarrow> int \<Rightarrow> nat \<Rightarrow> points \<Rightarrow> points" where
  "mont_ladder k u 0 s = s"
| "mont_ladder k u (Suc i) s = mont_ladder k u i (flip (k i) (mont_step u (flip (k i) s)))"

definition x25519_spec :: "nat \<Rightarrow> int \<Rightarrow> int" where
  "x25519_spec k u = (case mont_ladder (bit k) u 256 (1, 0, u, 1) of
     (x, z, _, _) \<Rightarrow> x * z ^ nat (p25519 - 2) mod p25519)"

text \<open>The scalar with the bits that RFC 7748 prescribes.\<close>

definition clamp_scalar :: "bytes \<Rightarrow> bytes" where
  "clamp_scalar bs = bs[0 := bs ! 0 AND 248, 31 := (bs ! 31 AND 127) OR 64]"

section \<open>The limbs follow the ladder\<close>

definition on_points :: "ladder \<Rightarrow> points \<Rightarrow> bool" where
  "on_points l s \<longleftrightarrow> (case s of (x2, z2, x3, z3) \<Rightarrow>
     represents (lx2 l) x2 \<and> represents (lz2 l) z2 \<and> represents (lx3 l) x3 \<and> represents (lz3 l) z3 \<and>
     tight (lz2 l) \<and> tight (lz3 l) \<and> length (lt1 l) = 8)"

lemma represents_mod [simp]: "represents x (v mod p25519) = represents x v"
  by (simp add: represents_def)

lemma represents_eq: "represents x v \<Longrightarrow> v = w \<Longrightarrow> represents x w"
  by simp

lemma mul_a24: "represents x v \<Longrightarrow> represents (fe_mul x a24 1) (v * 121665) \<and> tight (fe_mul x a24 1)"
  using fe_mul_represents [of x v 1 a24 121665] by (simp add: a24_def)

lemma ladder_step:
  assumes "on_points l s" and u: "represents x1 u"
  shows "on_points (ladder_part2 (ladder_part1 l) x1) (mont_step u s)"
proof -
  obtain x2 z2 x3 z3 where s: "s = (x2, z2, x3, z3)" by (cases s)
  have l: "represents (lx2 l) x2" "represents (lz2 l) z2" "represents (lx3 l) x3" "represents (lz3 l) z3"
      "tight (lz2 l)" "tight (lz3 l)"
    using assms(1) by (simp_all add: on_points_def s)
  define a where "a = fe_add (lx2 l) (lz2 l)"
  define b where "b = fe_sub (lx2 l) (lz2 l)"
  define c where "c = fe_add (lx3 l) (lz3 l)"
  define d where "d = fe_sub (lx3 l) (lz3 l)"
  define A B C D where "A = x2 + z2" and "B = x2 - z2" and "C = x3 + z3" and "D = x3 - z3"
  have 1: "represents a A" "represents b B" "represents c C" "represents d D"
    using l by (simp_all add: a_def b_def c_def d_def A_def B_def C_def D_def fe_represents)
  define da where "da = fe_mul1 d a"
  define cb where "cb = fe_mul1 c b"
  have 2: "represents da (D * A)" "represents cb (C * B)" "tight cb"
    using fe_mul1_represents [OF 1(4,1)] fe_mul1_represents [OF 1(3,2)] by (simp_all add: da_def cb_def mult.commute)
  define aa bb where "aa = fe_sqr1 a" and "bb = fe_sqr1 b"
  have 3: "represents aa (A * A)" "represents bb (B * B)" "tight bb"
    using fe_sqr_represents [OF 1(1)] fe_sqr_represents [OF 1(2)] by (simp_all add: aa_def bb_def)
  define e where "e = fe_sub aa bb"
  have 4: "represents e (A * A - B * B)" "tight e" using fe_sub_represents [OF 3] by (simp_all add: e_def)
  define g where "g = fe_add (fe_mul e a24 1) aa"
  have 5: "represents g ((A * A - B * B) * 121665 + A * A)"
    unfolding g_def by (rule fe_add_represents(1) [OF mul_a24 [OF 4(1), THEN conjunct1] 3(1)])
  have p1: "ladder_part1 l = \<lparr>lx2 = e, lz2 = g, lx3 = fe_add da cb, lz3 = fe_sub da cb, lt1 = aa\<rparr>"
    by (simp add: ladder_part1_def Let_def a_def b_def c_def d_def da_def cb_def aa_def bb_def e_def g_def)
  have p2: "ladder_part2 (ladder_part1 l) x1 = \<lparr>lx2 = fe_mul1 (fe_sub aa e) aa, lz2 = fe_mul1 g e,
      lx3 = fe_sqr1 (fe_add da cb), lz3 = fe_mul1 (fe_sqr1 (fe_sub da cb)) x1, lt1 = aa\<rparr>"
    unfolding p1 by (simp add: ladder_part2_def Let_def)
  have x2': "represents (fe_mul1 (fe_sub aa e) aa) (A * A * (B * B))"
    by (rule represents_eq [OF fe_mul1_represents(1) [OF fe_sub_represents(1) [OF 3(1) 4] 3(1)]]) (simp add: algebra_simps)
  have z2': "represents (fe_mul1 g e) ((A * A - B * B) * (A * A + 121665 * (A * A - B * B)))"
    by (rule represents_eq [OF fe_mul1_represents(1) [OF 5 4(1)]]) (simp add: algebra_simps)
  have x3': "represents (fe_sqr1 (fe_add da cb)) ((D * A + C * B) * (D * A + C * B))"
    by (rule fe_sqr_represents(2) [OF fe_add_represents(1) [OF 2(1,2)]])
  have dd: "represents (fe_sqr1 (fe_sub da cb)) ((D * A - C * B) * (D * A - C * B))"
    by (rule fe_sqr_represents(2) [OF fe_sub_represents(1) [OF 2]])
  have z3': "represents (fe_mul1 (fe_sqr1 (fe_sub da cb)) x1) (u * ((D * A - C * B) * (D * A - C * B)))"
    by (rule fe_mul1_represents(1) [OF dd u])
  have "tight (fe_mul1 g e)" "tight (fe_mul1 (fe_sqr1 (fe_sub da cb)) x1)"
    by (rule fe_mul1_represents(2) [OF 5 4(1)], rule fe_mul1_represents(2) [OF dd u])
  then show ?thesis
    using x2' z2' x3' z3' represents_length [OF 3(1)]
    unfolding on_points_def mont_step_def s p2 prod.case Let_def A_def [symmetric] B_def [symmetric] C_def [symmetric] D_def [symmetric]
    by simp
qed

lemma condswap_mask:
  assumes "length a = length b"
  shows "condswap a b 0 = (a, b)" and "condswap a b (- 1) = (b, a)"
  using assms
proof (induction a b rule: list_induct2)
  case (Cons x xs y ys)
  {
    case 1
    then show ?case using Cons by (simp add: condswap_def)
  next
    case 2
    have "x XOR (x XOR y) = y" "y XOR (x XOR y) = x" by (simp_all flip: xor.assoc) (simp add: xor.left_commute xor.commute)
    then show ?case using Cons by (simp add: condswap_def)
  }
qed (simp_all add: condswap_def)

lemma ladder_swap_points:
  assumes "on_points l s"
  shows "on_points (ladder_swap (if b then - 1 else 0) l) (flip b s)"
proof -
  obtain x2 z2 x3 z3 where s: "s = (x2, z2, x3, z3)" by (cases s)
  have l: "length (lx2 l) = 8" "length (lz2 l) = 8" "length (lx3 l) = 8" "length (lz3 l) = 8"
    using assms by (auto simp: on_points_def s)
  then show ?thesis using assms by (auto simp: ladder_swap_def condswap_mask on_points_def s flip_def)
qed

lemma flip_flip: "flip b (flip c s) = flip (b \<noteq> c) s" "flip b (flip b s) = s"
  by (cases s; simp add: flip_def)+

lemma swap_mask: "(if b then - 1 else 0) XOR (if c then - 1 else 0) = (if b \<noteq> c then - 1 else (0 :: u32))"
  by simp

lemma bit_mask: "- ucast (drop_bit n b AND 1 :: u8) = (if bit b n then - 1 else (0 :: u32))"
proof -
  have "drop_bit n b AND 1 = of_bool (bit b n)" by (simp only: and_one_eq bit_iff_odd_drop_bit mod_2_eq_odd)
  then show ?thesis by simp
qed

lemma core_loop_points:
  assumes "on_points l (flip b s)" and "represents x1 u"
    and "core_loop scalar clamp x1 n (if b then - 1 else 0) l = (swap, l')"
  shows "on_points (ladder_swap swap l') (mont_ladder (\<lambda>i. bit (scalar_byte scalar clamp (i div 8)) (i mod 8)) u n s)"
  using assms(1,3)
proof (induction n arbitrary: l s b)
  case 0
  then show ?case using ladder_swap_points [of l "flip b s" b] unfolding flip_flip(2) by simp
next
  case (Suc i)
  define k where "k = bit (scalar_byte scalar clamp (i div 8)) (i mod 8)"
  define l1 where "l1 = ladder_swap (if b \<noteq> k then - 1 else 0) l"
  define l2 where "l2 = ladder_part2 (ladder_part1 l1) x1"
  have "on_points l1 (flip (b \<noteq> k) (flip b s))" unfolding l1_def by (rule ladder_swap_points [OF Suc.prems(1)])
  moreover have "flip (b \<noteq> k) (flip b s) = flip k s" unfolding flip_flip(1) by (cases b; cases k) simp_all
  ultimately have "on_points l1 (flip k s)" by simp
  then have "on_points l2 (mont_step u (flip k s))" unfolding l2_def by (rule ladder_step [OF _ assms(2)])
  then have p: "on_points l2 (flip k (flip k (mont_step u (flip k s))))" unfolding flip_flip(2) .
  have "core_loop scalar clamp x1 i (if k then - 1 else 0) l2 = (swap, l')"
    using Suc.prems(2) by (simp only: core_loop.simps Let_def bit_mask swap_mask k_def [symmetric] l1_def [symmetric] l2_def [symmetric])
  from Suc.IH [OF p this] show ?case by (simp add: k_def)
qed


section \<open>Scalars\<close>

lemma bit_le_val: "i < 8 * length bs \<Longrightarrow> bit (le_val bs) i = bit (bs ! (i div 8)) (i mod 8)"
proof (induction bs arbitrary: i)
  case (Cons b bs)
  have b: "take_bit 8 (unat b) = unat b" by (simp add: take_bit_nat_eq_self)
  have e: "le_val (b # bs) = unat b + push_bit 8 (le_val bs)" by (simp add: push_bit_eq_mult)
  have "unat b AND push_bit 8 (le_val bs) = 0"
    by (rule bit_eqI) (metis b bit_and_iff bit_push_bit_iff bit_take_bit_iff bit_0_eq bot_apply bot_bool_def not_le)
  then have o: "le_val (b # bs) = unat b OR push_bit 8 (le_val bs)" unfolding e by (rule disjunctive_add_eq_or)
  show ?case
  proof (cases "i < 8")
    case True
    then show ?thesis unfolding o by (simp add: bit_or_iff bit_push_bit_iff bit_unsigned_iff)
  next
    case False
    then obtain j where j: "i = j + 8" by (metis le_add_diff_inverse2 not_less)
    have "\<not> bit (unat b) i" using b False by (metis bit_take_bit_iff)
    then have "bit (le_val (b # bs)) i = bit (le_val bs) j" unfolding o by (simp add: bit_or_iff bit_push_bit_iff j)
    also have "\<dots> = bit (bs ! (j div 8)) (j mod 8)" using Cons j by simp
    also have "\<dots> = bit ((b # bs) ! (i div 8)) (i mod 8)" using div_add_self2 [of 8 j] by (simp add: j)
    finally show ?thesis .
  qed
qed simp

definition scalar_of :: "bool \<Rightarrow> bytes \<Rightarrow> nat" where
  "scalar_of clamp scalar = le_val (if clamp then clamp_scalar scalar else scalar)"

lemma scalar_bits:
  assumes "length scalar = 32" and "i < 256"
  shows "bit (scalar_byte scalar clamp (i div 8)) (i mod 8) = bit (scalar_of clamp scalar) i"
proof -
  have n: "NOT 7 = (248 :: u8)" by code_simp
  have "scalar_byte scalar clamp j = (if clamp then clamp_scalar scalar else scalar) ! j" if "j < 32" for j
    unfolding scalar_byte_def n using that assms(1) by (simp add: clamp_scalar_def nth_list_update Let_def)
  then show ?thesis using assms by (simp add: scalar_of_def bit_le_val clamp_scalar_def)
qed

lemma mont_ladder_cong: "(\<And>i. i < n \<Longrightarrow> k i = k' i) \<Longrightarrow> mont_ladder k u n s = mont_ladder k' u n s"
  by (induction n arbitrary: s) simp_all

section \<open>Bytes\<close>

lemma fval_swapin:
  assumes "length bs = 32"
  shows "length (swapin bs) = 8" and "fval (swapin bs) = int (le_val bs)"
proof -
  have "fval (map (\<lambda>i. U8TO32_LITTLE (bslice (4 * i) 4 bs)) [0..<n]) = int (le_val (take (4 * n) bs))" if "n \<le> 8" for n
    using that
  proof (induction n)
    case (Suc n)
    have l: "length (bslice (4 * n) 4 bs) = 4" using Suc.prems assms by simp
    have "take (4 * Suc n) bs = take (4 * n) bs @ bslice (4 * n) 4 bs" using take_add [of "4 * n" 4 bs] by (simp add: bslice_def add.commute)
    then show ?case using Suc l assms
      by (simp add: fval_append le_val_append uint_of_unat unat_U8TO32_LITTLE power_mult del: of_nat_unat)
  qed simp
  from this [of 8] show "fval (swapin bs) = int (le_val bs)" using assms by (simp add: swapin_def)
qed (simp add: swapin_def)

lemma le_val_swapout: "length (swapout x) = 4 * length x" "int (le_val (swapout x)) = fval x"
proof -
  show "length (swapout x) = 4 * length x" by (induction x) (simp_all add: swapout_def)
  show "int (le_val (swapout x)) = fval x"
  proof (induction x)
    case (Cons y x)
    have "unat y < 256 ^ 4" using unsigned_less [of y] by simp
    then have "le_val (U32TO8_LITTLE y) = unat y" by (simp add: U32TO8_LITTLE_bytes le_val_le_bytes)
    with Cons show ?case by (simp add: swapout_def le_val_append)
  qed (simp add: swapout_def)
qed

section \<open>Inversion\<close>

text \<open>The same chain on exponents; \<open>None\<close> for registers that hold no known power.\<close>

fun exp_sqr_loop :: "nat \<Rightarrow> nat \<Rightarrow> nat \<Rightarrow> nat option list \<Rightarrow> nat \<times> nat option list" where
  "exp_sqr_loop 0 a prev es = (prev, es)"
| "exp_sqr_loop (Suc n) a prev es = exp_sqr_loop n a a (es[a := map_option (\<lambda>e. e + e) (es ! prev)])"

fun exp_chain :: "(nat \<times> nat \<times> nat) list \<Rightarrow> nat \<Rightarrow> nat option list \<Rightarrow> nat \<times> nat option list" where
  "exp_chain [] prev es = (prev, es)"
| "exp_chain ((a, c, n) # steps) prev es =
     (let (prev, es) = exp_sqr_loop n a prev es
      in exp_chain steps prev (es[a := (case (es ! c, es ! a) of (Some i, Some j) \<Rightarrow> Some (i + j) | _ \<Rightarrow> None)]))"

definition holds_power :: "int \<Rightarrow> fe \<Rightarrow> nat option \<Rightarrow> bool" where
  "holds_power z x eo \<longleftrightarrow> length x = 8 \<and> (\<forall>e. eo = Some e \<longrightarrow> represents x (z ^ e))"

lemma length_fe_mul1: "length out = 8 \<Longrightarrow> length a = 8 \<Longrightarrow> length (fe_mul1 out a) = 8"
  using fe_mul1_represents(1) [of out "fval out" a "fval a"] by (auto simp: represents_def)

lemma holds_power_sqr: "holds_power z x eo \<Longrightarrow> holds_power z (fe_sqr x) (map_option (\<lambda>e. e + e) eo)"
  using fe_sqr_represents(1) [of x] length_fe_mul1 [of x x] by (auto simp: holds_power_def power_add fe_sqr_def fe_mul1_def)

lemma holds_power_mul:
  "holds_power z x eo \<Longrightarrow> holds_power z y fo \<Longrightarrow>
   holds_power z (fe_mul1 x y) (case (fo, eo) of (Some i, Some j) \<Rightarrow> Some (i + j) | _ \<Rightarrow> None)"
  using fe_mul1_represents(1) [of x _ y] length_fe_mul1 [of x y]
  by (auto simp: holds_power_def power_add split: option.splits)

abbreviation powers :: "int \<Rightarrow> fe list \<Rightarrow> nat option list \<Rightarrow> bool" where
  "powers z \<equiv> list_all2 (holds_power z)"

lemma sqr_loop_frame:
  "length (snd (sqr_loop n a prev xs)) = length xs" "i \<noteq> a \<Longrightarrow> snd (sqr_loop n a prev xs) ! i = xs ! i"
  by (induction n arbitrary: prev xs) simp_all

lemma power_chain_frame:
  "i \<notin> fst ` set steps \<Longrightarrow> snd (power_chain steps prev xs) ! i = xs ! i"
proof (induction steps arbitrary: prev xs)
  case (Cons step steps)
  obtain a c n where s: "step = (a, c, n)" by (cases step)
  obtain p1 x1 where x1: "sqr_loop n a prev xs = (p1, x1)" by fastforce
  have "x1 ! i = xs ! i" using sqr_loop_frame(2) [of i a n prev xs] Cons.prems s x1 by simp
  then show ?case using Cons by (simp add: s x1)
qed simp

lemma power_chain_length: "length (snd (power_chain steps prev xs)) = length xs"
proof (induction steps arbitrary: prev xs)
  case (Cons step steps)
  then show ?case by (cases step) (simp add: sqr_loop_frame(1) split: prod.split, metis sqr_loop_frame(1) snd_conv)
qed simp

lemma sqr_loop_powers:
  assumes "powers z xs es" and "a < length xs" and "prev < length xs"
  shows "fst (sqr_loop n a prev xs) = fst (exp_sqr_loop n a prev es) \<and> fst (sqr_loop n a prev xs) < length xs \<and>
    powers z (snd (sqr_loop n a prev xs)) (snd (exp_sqr_loop n a prev es))"
  using assms
proof (induction n arbitrary: prev xs es)
  case (Suc n)
  have "powers z (xs[a := fe_sqr (xs ! prev)]) (es[a := map_option (\<lambda>e. e + e) (es ! prev)])"
    using Suc.prems by (intro list_all2_update_cong holds_power_sqr) (auto simp: list_all2_conv_all_nth)
  from Suc.IH [OF this, of a] Suc.prems show ?case by simp
qed simp

lemma power_chain_powers:
  assumes "powers z xs es" and "prev < length xs" and "list_all (\<lambda>(a, c, n). a < length xs \<and> c < length xs) steps"
  shows "powers z (snd (power_chain steps prev xs)) (snd (exp_chain steps prev es))"
  using assms
proof (induction steps arbitrary: prev xs es)
  case (Cons step steps)
  obtain a c n where s: "step = (a, c, n)" by (cases step)
  have ac: "a < length xs" "c < length xs" using Cons.prems(3) s by auto
  obtain p1 x1 where x1: "sqr_loop n a prev xs = (p1, x1)" by fastforce
  obtain q1 e1 where e1: "exp_sqr_loop n a prev es = (q1, e1)" by fastforce
  have r: "p1 = q1" "p1 < length xs" "powers z x1 e1"
    using sqr_loop_powers [OF Cons.prems(1) ac(1) Cons.prems(2), of n] x1 e1 by auto
  have l: "length x1 = length xs" using sqr_loop_frame(1) [of n a prev xs] x1 by simp
  have "powers z (x1[a := fe_mul1 (x1 ! a) (x1 ! c)])
      (e1[a := (case (e1 ! c, e1 ! a) of (Some i, Some j) \<Rightarrow> Some (i + j) | _ \<Rightarrow> None)])"
    using r(3) ac l by (intro list_all2_update_cong holds_power_mul) (auto simp: list_all2_conv_all_nth)
  from Cons.IH [OF this, of p1] r(1,2) l Cons.prems(3) show ?case by (simp add: s x1 e1)
qed simp


lemma exp_sqr_loop_eq:
  assumes "0 < n" and "a < length es"
  shows "exp_sqr_loop n a prev es = (a, es[a := map_option (\<lambda>e. 2 ^ n * e) (es ! prev)])"
  using assms
proof (induction n arbitrary: prev es)
  case (Suc n)
  then show ?case
    by (cases "n = 0") (simp_all add: option.map_comp comp_def mult.assoc mult.left_commute [of 2] flip: mult_2)
qed simp

lemma inversion_exponent:
  "snd (exp_chain inversion_steps 1 [None, Some 1, None, None, None]) ! 3 = Some (nat (p25519 - 2))"
  by (simp add: inversion_steps_def exp_sqr_loop_eq p25519_def)

lemma inversion:
  assumes "length xs = 5" and "\<And>i. i < 5 \<Longrightarrow> length (xs ! i) = 8" and "represents (xs ! 1) z"
    and "power_chain inversion_steps 1 xs = (prev, ys)"
  shows "ys ! 0 = xs ! 0" and "represents (ys ! 3) (z ^ nat (p25519 - 2))"
proof -
  obtain a b c d e where xs: "xs = [a, b, c, d, e]"
    using assms(1) by (auto simp: length_Suc_conv numeral_eq_Suc)
  have "powers z xs [None, Some 1, None, None, None]"
    using assms(2) [of 0] assms(2) [of 1] assms(2) [of 2] assms(2) [of 3] assms(2) [of 4] assms(3)
    by (simp add: xs holds_power_def)
  then have "powers z ys (snd (exp_chain inversion_steps 1 [None, Some 1, None, None, None]))"
    using power_chain_powers [of z xs "[None, Some 1, None, None, None]" 1 inversion_steps] assms(1,4)
    by (simp add: inversion_steps_def)
  moreover have "length ys = 5" using power_chain_length [of inversion_steps 1 xs] assms(1,4) by simp
  ultimately show "represents (ys ! 3) (z ^ nat (p25519 - 2))"
    using inversion_exponent by (auto simp: list_all2_conv_all_nth holds_power_def)
  show "ys ! 0 = xs ! 0"
    using power_chain_frame [of 0 inversion_steps 1 xs] assms(4) by (simp add: inversion_steps_def)
qed


section \<open>Correctness\<close>

lemma tight_small: "length x = 8 \<Longrightarrow> fval x \<le> 1 \<Longrightarrow> tight x"
  by (simp add: tight_def)

lemma core_points:
  assumes "length scalar = 32" and "length x1 = 32" and "length t1 = 8"
  shows "on_points (x25519_core t1 scalar x1 clamp)
    (mont_ladder (bit (scalar_of clamp scalar)) (int (le_val x1)) 256 (1, 0, int (le_val x1), 1))"
proof -
  let ?u = "int (le_val x1)" and ?one = "1 # replicate 7 0 :: fe"
  define l where "l = \<lparr>lx2 = ?one, lz2 = replicate 8 0, lx3 = swapin x1, lz3 = ?one, lt1 = t1\<rparr>"
  have f1: "length ?one = 8" "fval ?one = 1" by (simp_all only: fval.simps fval_replicate_0) simp_all
  have u: "represents (swapin x1) ?u" using fval_swapin [OF assms(2)] by (simp add: represents_def)
  have "on_points l (flip False (1, 0, ?u, 1))"
    using f1 u assms(3) by (simp add: on_points_def flip_def l_def represents_def tight_small)
  moreover obtain swap l' where c: "core_loop scalar clamp (swapin x1) 256 (if False then - 1 else 0) l = (swap, l')" by fastforce
  ultimately have "on_points (ladder_swap swap l')
      (mont_ladder (\<lambda>i. bit (scalar_byte scalar clamp (i div 8)) (i mod 8)) ?u 256 (1, 0, ?u, 1))"
    by (rule core_loop_points [OF _ u])
  also have "mont_ladder (\<lambda>i. bit (scalar_byte scalar clamp (i div 8)) (i mod 8)) ?u 256 (1, 0, ?u, 1) =
      mont_ladder (bit (scalar_of clamp scalar)) ?u 256 (1, 0, ?u, 1)"
    by (rule mont_ladder_cong) (rule scalar_bits [OF assms(1)])
  finally show ?thesis using c by (simp add: x25519_core_def l_def Let_def)
qed

text \<open>
  C24: For every scalar and every point the limb code computes the function of RFC 7748 without an
  intermediate overflow: the output is the 32-byte little-endian text of the least residue of
  \<open>x * z\<^sup>p\<^sup>-\<^sup>2\<close>, where \<open>x\<close> and \<open>z\<close> come from the Montgomery ladder over the bits of the (clamped)
  scalar, and the return value is -1 exactly for a clamped scalar with result 0. The uninitialised register
  has no influence. The point is taken with all its 256 bits.
\<close>

theorem x25519_computes_ladder:
  fixes scalar x1 :: bytes and t1 :: fe and clamp :: bool
  assumes "length scalar = 32" and "length x1 = 32" and "length t1 = 8"
  defines "v \<equiv> x25519_spec (scalar_of clamp scalar) (int (le_val x1))"
  shows "x25519 t1 scalar x1 clamp = (if clamp \<and> v = 0 then -1 else 0, le_bytes 32 (nat v))"
proof -
  define l where "l = x25519_core t1 scalar x1 clamp"
  obtain x z x3 z3 where s: "mont_ladder (bit (scalar_of clamp scalar)) (int (le_val x1)) 256 (1, 0, int (le_val x1), 1) = (x, z, x3, z3)"
    by (cases "mont_ladder (bit (scalar_of clamp scalar)) (int (le_val x1)) 256 (1, 0, int (le_val x1), 1)")
  have l: "represents (lx2 l) x" "represents (lz2 l) z" "length (lx3 l) = 8" "length (lz3 l) = 8" "length (lt1 l) = 8"
    using core_points [OF assms(1,2,3), of clamp] by (auto simp: l_def s on_points_def)
  obtain prev ys where p: "power_chain inversion_steps 1 [lx2 l, lz2 l, lx3 l, lz3 l, lt1 l] = (prev, ys)" by fastforce
  have len: "length ([lx2 l, lz2 l, lx3 l, lz3 l, lt1 l] ! i) = 8" if "i < 5" for i
    using that l by (auto simp: less_Suc_eq numeral_eq_Suc)
  have i: "ys ! 0 = lx2 l" "represents (ys ! 3) (z ^ nat (p25519 - 2))"
    using inversion [OF _ len _ p, of z] l(2) by simp_all
  have m: "represents (fe_mul1 (ys ! 0) (ys ! 3)) (z ^ nat (p25519 - 2) * x)" "tight (fe_mul1 (ys ! 0) (ys ! 3))"
    using fe_mul1_represents [of "ys ! 0" x "ys ! 3"] i l(1) by simp_all
  obtain ret x2 where c: "canon (fe_mul1 (ys ! 0) (ys ! 3)) = (ret, x2)" by fastforce
  note r = canon_val [OF m(2) c]
  have v: "fval x2 = v" using r(2) m(1) by (simp add: v_def x25519_spec_def s represents_def mult.commute)
  have "int (le_val (swapout x2)) = v" "length (swapout x2) = 32" using le_val_swapout [of x2] v r(1) by simp_all
  then have "swapout x2 = le_bytes 32 (nat v)" using le_bytes_le_val [of "swapout x2"] by auto
  then show ?thesis unfolding x25519_def Let_def l_def [symmetric] p prod.case c using r(3) v by simp
qed

theorem x25519_computes_ladder_witness:
  "x25519 (replicate 8 0) (replicate 32 1) (9 # replicate 31 0) True =
     (let v = x25519_spec (scalar_of True (replicate 32 1)) 9 in (if v = 0 then -1 else 0, le_bytes 32 (nat v)))"
  using x25519_computes_ladder [of "replicate 32 1" "9 # replicate 31 0" "replicate 8 0" True] by (simp add: Let_def)

end
