(* ===== verification/Vhttps_Answer.thy ===== *)
theory Vhttps_Answer
  imports Vhttps
begin

text \<open>
  The header of a response: the character classes of the table, reading from a connection that delivers, the text of a
  header and how it is read and split, and the numbers that responses contain.
\<close>

section \<open>Character classes\<close>

lemma vct_typtab_classes:
  "list_all (\<lambda>(v, n). (v AND 1 \<noteq> 0) = (n = 9 \<or> n = 32) \<and> (v AND 2 \<noteq> 0) = (n = 10 \<or> n = 13) \<and>
     (v AND 3 \<noteq> 0) = (n \<in> {9, 10, 13, 32})) (zip vct_typtab [0 ..< 256])"
  by code_simp

lemma length_vct_typtab: "length vct_typtab = 256"
  by (simp add: vct_typtab_def)

lemma vct_class_at:
  assumes "n < 256"
  shows "(vct_typtab ! n AND 1 \<noteq> 0) = (n = 9 \<or> n = 32)" "(vct_typtab ! n AND 2 \<noteq> 0) = (n = 10 \<or> n = 13)"
    "(vct_typtab ! n AND 3 \<noteq> 0) = (n \<in> {9, 10, 13, 32})"
proof -
  have "(vct_typtab ! n, n) \<in> set (zip vct_typtab [0 ..< 256])"
    using assms length_vct_typtab by (auto simp: set_zip intro!: exI [of _ n])
  from vct_typtab_classes [unfolded list_all_iff, rule_format, OF this]
  show "(vct_typtab ! n AND 1 \<noteq> 0) = (n = 9 \<or> n = 32)" "(vct_typtab ! n AND 2 \<noteq> 0) = (n = 10 \<or> n = 13)"
    "(vct_typtab ! n AND 3 \<noteq> 0) = (n \<in> {9, 10, 13, 32})" by auto
qed

lemma char_val_less: "char_val c < 256"
  by (simp add: char_val_def)

lemma char_val_CR [simp]: "char_val CR = 13" by (simp add: char_val_def CR_def)
lemma char_val_LF [simp]: "char_val LF = 10" by (simp add: char_val_def LF_def)
lemma char_val_NUL [simp]: "char_val NUL = 0" by (simp add: char_val_def NUL_def)

lemma char_val_is: "char_val c = n \<Longrightarrow> n < 256 \<Longrightarrow> c = char_of n"
  by (metis char_val_char_of char_val_inj)

lemma vct_issp_iff: "vct_issp c \<longleftrightarrow> c = CHR '' '' \<or> c = CHR 0x09"
proof -
  have "c = CHR '' '' \<longleftrightarrow> char_val c = 32" "c = CHR 0x09 \<longleftrightarrow> char_val c = 9"
    unfolding char_val_inj [of c, symmetric] by (simp_all add: char_val_def)
  then show ?thesis
    using vct_class_at(1) [OF char_val_less [of c]] by (auto simp: vct_issp_def vct_is_def VCT_SP_def)
qed

lemma vct_iscrlf_iff: "vct_iscrlf c \<longleftrightarrow> c = CR \<or> c = LF"
proof -
  have "push_bit 1 (1 :: u16) = 2" by code_simp
  then show ?thesis
    using vct_class_at(2) [OF char_val_less [of c]] char_val_inj [of c CR] char_val_inj [of c LF]
    by (auto simp: vct_iscrlf_def vct_is_def VCT_CRLF_def)
qed

lemma vct_islws_iff: "vct_islws c \<longleftrightarrow> vct_issp c \<or> vct_iscrlf c"
proof -
  have "VCT_LWS = (3 :: u16)" by code_simp
  moreover have "push_bit 1 (1 :: u16) = 2" by code_simp
  ultimately show ?thesis
    using vct_class_at [OF char_val_less [of c]]
    by (auto simp: vct_islws_def vct_iscrlf_def vct_issp_def vct_is_def VCT_SP_def VCT_CRLF_def)
qed

lemma control_chars [simp]: "CR \<noteq> LF" "LF \<noteq> CR" "NUL \<noteq> CR" "NUL \<noteq> LF" "CR \<noteq> NUL" "LF \<noteq> NUL"
  by (simp_all add: CR_def LF_def NUL_def)

lemma vct_classes [simp]:
  "vct_iscrlf CR" "vct_iscrlf LF" "\<not> vct_issp CR" "\<not> vct_issp LF" "vct_islws CR" "vct_islws LF" "\<not> vct_iscrlf NUL"
  "\<not> vct_islws NUL" "\<not> vct_issp NUL" "vct_issp (CHR '' '')" "vct_islws (CHR '' '')" "\<not> vct_iscrlf (CHR '' '')"
  by (simp_all add: vct_islws_iff vct_issp_iff vct_iscrlf_iff CR_def LF_def NUL_def)

section \<open>Reading from a connection that delivers\<close>

text \<open>The peer sends some bytes, in any portions, without an interruption.\<close>

definition delivers :: "rx_event list \<Rightarrow> bool" where
  "delivers evs \<longleftrightarrow> (\<forall>e \<in> set evs. case e of Rx_bytes bs \<Rightarrow> bs \<noteq> [] | _ \<Rightarrow> False)"

fun payload :: "rx_event list \<Rightarrow> string" where
  "payload [] = []"
| "payload (Rx_bytes bs # evs) = bs @ payload evs"
| "payload (_ # evs) = payload evs"

lemma delivers_Cons: "delivers (e # evs) \<longleftrightarrow> (\<exists>bs. e = Rx_bytes bs \<and> bs \<noteq> []) \<and> delivers evs"
  by (cases e) (auto simp: delivers_def)

lemma delivers_Nil [simp]: "delivers []" by (simp add: delivers_def)

lemma rx_select_delivers: "delivers evs \<Longrightarrow> rx_select evs = (1, evs)"
  by (cases evs) (auto simp: delivers_Cons)

lemma VSSL_read_delivers:
  assumes "delivers evs" and "payload evs \<noteq> []" and "0 < n"
  obtains bs evs' where "VSSL_read n evs = (Some bs, evs')" and "bs \<noteq> []" and "length bs \<le> n"
    and "payload evs = bs @ payload evs'" and "delivers evs'"
proof -
  obtain b es where e: "evs = Rx_bytes b # es" and b: "b \<noteq> []" and d: "delivers es"
    using assms(1,2) by (cases evs) (auto simp: delivers_Cons)
  show thesis
  proof (cases "length b \<le> n")
    case True
    then show thesis using that [of b es] e b d by simp
  next
    case False
    then show thesis using that [of "take n b" "Rx_bytes (drop n b) # es"] e b d assms(3) by (auto simp: delivers_Cons)
  qed
qed

lemma mem_put_append:
  "mem_put off (a @ b) m = mem_put (off + length a) b (mem_put off a m)"
  by (rule ext) (auto simp: mem_put_def nth_append)

lemma mem_put_overwrite:
  "length a \<le> length b \<Longrightarrow> mem_put off b (mem_put off a m) = mem_put off b m"
  by (rule ext) (auto simp: mem_put_def)

lemma rx_store_append: "rx_store b (rx_store a hp) = rx_store (a @ b) hp"
proof -
  let ?m = "mem_put (hp_prxbuf hp) a (hp_rxbuf hp)" and ?k = "hp_prxbuf hp + length a"
  have "mem_put ?k (b @ [NUL]) (mem_put ?k [NUL] ?m) = mem_put ?k (b @ [NUL]) ?m"
    by (rule mem_put_overwrite) simp
  then show ?thesis
    using mem_put_append [of "hp_prxbuf hp" a "[NUL]" "hp_rxbuf hp"] mem_put_append [of "hp_prxbuf hp" a "b @ [NUL]" "hp_rxbuf hp"]
    by (simp add: rx_store_def)
qed

lemma mem_get_put_below: "off + n \<le> k \<Longrightarrow> mem_get off n (mem_put k s m) = mem_get off n m"
  by (auto simp: mem_get_def mem_put_def)

lemma mem_get_put_same: "n \<le> length s \<Longrightarrow> mem_get off n (mem_put off s m) = take n s"
  by (rule nth_equalityI) (auto simp: mem_get_def mem_put_def)

lemma mem_get_append: "mem_get off (a + b) m = mem_get off a m @ mem_get (off + a) b m"
  using upt_add_eq_append [of off "off + a" b] by (simp add: mem_get_def add.assoc)

lemma length_mem_get [simp]: "length (mem_get off n m) = n"
  by (simp add: mem_get_def)

lemma rx_store_fields [simp]:
  "hp_prxbuf (rx_store bs hp) = hp_prxbuf hp + length bs" "hp_body (rx_store bs hp) = hp_body hp"
  "hp_bodylen (rx_store bs hp) = hp_bodylen hp" "hp_resp (rx_store bs hp) = hp_resp hp"
  by (simp_all add: rx_store_def)

lemma rx_text_store: "rx_text (hp_prxbuf hp) (rx_store bs hp) = bs"
  by (simp add: rx_text_def rx_store_def mem_get_put_same)

lemma rxchar_none: "n \<le> 0 \<Longrightarrow> vhttps_rxcharForSocket n evs hp = Some (1, evs, hp)"
  by (simp add: vhttps_rxcharForSocket.simps [of n])

text \<open>Of a connection that delivers, a read of \<open>n\<close> bytes takes exactly the next \<open>n\<close>.\<close>

lemma rxchar_delivers:
  assumes "delivers evs" and "0 < n" and "n \<le> int (length (payload evs))" and "int (hp_prxbuf hp) + n < int nrxbuf"
  shows "\<exists>evs'. vhttps_rxcharForSocket n evs hp = Some (1, evs', rx_store (take (nat n) (payload evs)) hp) \<and>
    delivers evs' \<and> payload evs' = drop (nat n) (payload evs)"
  using assms
proof (induction n evs hp rule: vhttps_rxcharForSocket.induct)
  case (1 n evs hp)
  have ne: "payload evs \<noteq> []" "0 < nat n" using "1.prems"(2,3) by auto
  obtain bs evs2 where v: "VSSL_read (nat n) evs = (Some bs, evs2)" and bs: "bs \<noteq> []" "length bs \<le> nat n"
    and p: "payload evs = bs @ payload evs2" and d: "delivers evs2"
    by (rule VSSL_read_delivers [OF "1.prems"(1) ne])
  note s = rx_select_delivers [OF "1.prems"(1)]
  have step: "vhttps_rxcharForSocket n evs hp = vhttps_rxcharForSocket (n - int (length bs)) evs2 (rx_store bs hp)"
    using "1.prems"(2,4) bs by (simp add: vhttps_rxcharForSocket.simps [of n evs] s v)
  show ?case
  proof (cases "n = int (length bs)")
    case True
    then show ?thesis using step p d by (auto simp: rxchar_none)
  next
    case False
    with bs "1.prems"(2) have pos: "0 < n - int (length bs)" by linarith
    have "\<exists>evs'. vhttps_rxcharForSocket (n - int (length bs)) evs2 (rx_store bs hp) =
        Some (1, evs', rx_store (take (nat (n - int (length bs))) (payload evs2)) (rx_store bs hp)) \<and>
        delivers evs' \<and> payload evs' = drop (nat (n - int (length bs))) (payload evs2)"
      using "1.prems"(2,3,4) pos p d
      by (intro "1.IH" [OF _ s [symmetric] _ _ v [symmetric] refl bs(1)]) auto
    moreover have "nat (n - int (length bs)) = nat n - length bs" using pos by linarith
    ultimately show ?thesis using step p bs(2) by (simp add: rx_store_append)
  qed
qed

lemma rx_until_delivers:
  assumes "delivers evs" and "payload evs = t @ rest" and "t \<noteq> []" and "hp_prxbuf hp + length t < nrxbuf"
    and stop: "stop (rx_store t hp)" and pass: "\<And>a b. a \<noteq> [] \<Longrightarrow> b \<noteq> [] \<Longrightarrow> t = a @ b \<Longrightarrow> \<not> stop (rx_store a hp)"
  shows "\<exists>evs'. rx_until stop evs hp = Some (1, evs', rx_store t hp) \<and> delivers evs' \<and> payload evs' = rest"
  using assms
proof (induction t arbitrary: evs hp)
  case (Cons c t)
  obtain evs1 where r: "vhttps_rxcharForSocket 1 evs hp = Some (1, evs1, rx_store [c] hp)"
    and d: "delivers evs1" and p: "payload evs1 = t @ rest"
    using rxchar_delivers [OF Cons.prems(1), of 1 hp] Cons.prems(2,4) by auto
  show ?case
  proof (cases "t = []")
    case True
    then show ?thesis using r d p Cons.prems(5) by (auto simp: rx_until.simps [of stop evs])
  next
    case False
    have ns: "\<not> stop (rx_store [c] hp)" by (rule Cons.prems(6) [of "[c]" t]) (use False in auto)
    have "\<exists>evs'. rx_until stop evs1 (rx_store [c] hp) = Some (1, evs', rx_store t (rx_store [c] hp)) \<and>
        delivers evs' \<and> payload evs' = rest"
    proof (rule Cons.IH [OF d p False])
      show "\<not> stop (rx_store a (rx_store [c] hp))" if "a \<noteq> []" "b \<noteq> []" "t = a @ b" for a b
        unfolding rx_store_append using Cons.prems(6) [of "c # a" b] that by simp
    qed (use Cons.prems(4,5) in \<open>simp_all add: rx_store_append\<close>)
    then show ?thesis using r ns by (simp add: rx_until.simps [of stop evs] rx_store_append)
  qed
qed simp

section \<open>The header of a response\<close>

definition clean :: "string \<Rightarrow> bool" where
  "clean s \<longleftrightarrow> list_all (\<lambda>c. c \<noteq> NUL \<and> c \<noteq> CR \<and> c \<noteq> LF) s"

definition token :: "string \<Rightarrow> bool" where
  "token s \<longleftrightarrow> s \<noteq> [] \<and> clean s \<and> list_all (\<lambda>c. \<not> vct_issp c) s"

definition http_lines :: "string list \<Rightarrow> string" where
  "http_lines ls = concat (map (\<lambda>l. l @ crlf) ls)"

type_synonym http_field = "string \<times> string"

definition field_line :: "http_field \<Rightarrow> string" where
  "field_line f = fst f @ '': '' @ snd f"

definition status_line :: "string \<Rightarrow> string \<Rightarrow> string \<Rightarrow> string" where
  "status_line proto status reason = proto @ '' '' @ status @ '' '' @ reason"

definition http_head :: "string \<Rightarrow> string \<Rightarrow> string \<Rightarrow> http_field list \<Rightarrow> string" where
  "http_head proto status reason fs = http_lines (status_line proto status reason # map field_line fs) @ crlf"

text \<open>A header that the client has room for, with lines of text.\<close>

definition head_ok :: "string \<Rightarrow> string \<Rightarrow> string \<Rightarrow> http_field list \<Rightarrow> bool" where
  "head_ok proto status reason fs \<longleftrightarrow> token proto \<and> token status \<and> clean reason \<and> length fs \<le> 46 \<and>
     list_all (\<lambda>(k, v). clean k \<and> clean v) fs"

lemma clean_append [simp]: "clean (a @ b) \<longleftrightarrow> clean a \<and> clean b"
  by (auto simp: clean_def)

lemma clean_Cons [simp]: "clean (c # s) \<longleftrightarrow> c \<noteq> NUL \<and> c \<noteq> CR \<and> c \<noteq> LF \<and> clean s"
  by (auto simp: clean_def)

lemma clean_Nil [simp]: "clean []" by (simp add: clean_def)

lemma clean_literals [simp]: "CHR '' '' \<noteq> NUL" "CHR '' '' \<noteq> CR" "CHR '' '' \<noteq> LF" "CHR '':'' \<noteq> NUL" "CHR '':'' \<noteq> CR" "CHR '':'' \<noteq> LF"
  by (simp_all add: NUL_def CR_def LF_def)

lemma cstr_clean: "clean s \<Longrightarrow> cstr s = s"
  by (auto simp: cstr_def clean_def list_all_iff takeWhile_eq_all_conv)

lemma http_lines_simps [simp]: "http_lines [] = []" "http_lines (l # ls) = l @ crlf @ http_lines ls"
  by (simp_all add: http_lines_def)

lemma lines_newline:
  assumes "list_all (\<lambda>l. l \<noteq> [] \<and> clean l) ls" and "http_lines ls = u @ LF # v"
  shows "\<exists>u' c. u = u' @ [c, CR] \<and> c \<noteq> LF"
  using assms
proof (induction ls arbitrary: u)
  case (Cons l ls)
  have l: "l \<noteq> []" "clean l" using Cons.prems(1) by auto
  from Cons.prems(2) have e: "(l @ [CR]) @ LF # http_lines ls = u @ LF # v" by (simp add: crlf_def)
  then consider "l @ [CR] = u" | us where "u = l @ [CR] @ LF # us" "http_lines ls = us @ LF # v"
    | us where "l @ [CR] = u @ LF # us"
    by (auto simp: append_eq_append_conv2 Cons_eq_append_conv append_eq_Cons_conv)
  then show ?case
  proof cases
    case 1
    obtain l' c where "l = l' @ [c]" using l(1) by (cases l rule: rev_cases) auto
    then show ?thesis using 1 l(2) by (intro exI [of _ l'] exI [of _ c]) auto
  next
    case 2
    then show ?thesis using Cons.IH [of us] Cons.prems(1) by auto
  next
    case 3
    have "LF \<in> set (l @ [CR])" unfolding 3 by simp
    then show ?thesis using l(2) by (auto simp: clean_def list_all_iff)
  qed
qed simp

lemma head_prefix_incomplete:
  assumes ls: "list_all (\<lambda>l. l \<noteq> [] \<and> clean l) ls" and ab: "http_lines ls @ crlf = a @ b" and b: "b \<noteq> []"
  shows "count_newlines (rev a) 0 \<noteq> 2"
proof (cases a rule: rev_cases)
  case (snoc u c)
  show ?thesis
  proof (cases "c = LF")
    case True
    have "(http_lines ls @ [CR]) @ [LF] = u @ LF # b" using ab True by (simp add: snoc crlf_def)
    with b obtain v where "http_lines ls @ [CR] = u @ LF # v"
      by (cases b rule: rev_cases) auto
    then obtain v where "http_lines ls = u @ LF # v"
      by (cases v rule: rev_cases) auto
    then obtain u' d where u: "u = u' @ [d, CR]" "d \<noteq> LF" using lines_newline [OF ls] by blast
    then show ?thesis using True by (cases u' rule: rev_cases) (auto simp: snoc)
  next
    case False
    then show ?thesis by (cases u rule: rev_cases) (auto simp: snoc)
  qed
qed simp

lemma head_complete:
  assumes ls: "list_all (\<lambda>l. l \<noteq> [] \<and> clean l) ls" and "ls \<noteq> []"
  shows "count_newlines (rev (http_lines ls @ crlf)) 0 = 2"
proof -
  obtain ls' l where l: "ls = ls' @ [l]" using assms(2) by (cases ls rule: rev_cases) auto
  then obtain u c where "http_lines ls = u @ [c, CR, LF]"
    using ls by (cases l rule: rev_cases) (auto simp: http_lines_def crlf_def)
  then show ?thesis by (simp add: crlf_def)
qed

lemma rxhdr_delivers:
  assumes d: "delivers evs" "payload evs = http_lines ls @ crlf @ rest" and ls: "list_all (\<lambda>l. l \<noteq> [] \<and> clean l) ls" "ls \<noteq> []"
    and room: "length (http_lines ls @ crlf) < nrxbuf"
  shows "\<exists>evs'. vhttps_rxhdr evs hp =
      Some (0, evs', rx_store (http_lines ls @ crlf) (hp\<lparr>hp_prxbuf := 0, hp_body := Body_null\<rparr>)) \<and>
    delivers evs' \<and> payload evs' = rest"
proof -
  let ?h = "hp\<lparr>hp_prxbuf := 0, hp_body := Body_null\<rparr>" and ?t = "http_lines ls @ crlf"
  have c: "header_complete (rx_store a ?h) \<longleftrightarrow> count_newlines (rev a) 0 = 2" for a
    using rx_text_store [of ?h a] by (simp add: header_complete_def)
  have "\<exists>evs'. rx_until header_complete evs ?h = Some (1, evs', rx_store ?t ?h) \<and> delivers evs' \<and> payload evs' = rest"
  proof (rule rx_until_delivers [OF d(1)])
    show "payload evs = ?t @ rest" using d(2) by simp
    show "header_complete (rx_store ?t ?h)" unfolding c by (rule head_complete [OF ls])
    show "\<not> header_complete (rx_store a ?h)" if "b \<noteq> []" "?t = a @ b" for a b
      unfolding c by (rule head_prefix_incomplete [OF ls(1) that(2,1)])
  qed (use room in \<open>simp_all add: crlf_def\<close>)
  then show ?thesis by (auto simp: vhttps_rxhdr_def)
qed

lemma scan_append:
  "list_all (\<lambda>c. \<not> stop c) a \<Longrightarrow> stop c \<Longrightarrow> scan stop (a @ c # r) = Some (a, c, r)"
  by (auto simp: scan_def list_all_iff dropWhile_append takeWhile_append)

lemma clean_no_crlf: "clean s \<Longrightarrow> list_all (\<lambda>c. \<not> vct_iscrlf c) s"
  by (auto simp: clean_def list_all_iff vct_iscrlf_iff)

lemma token_no_lws: "token s \<Longrightarrow> list_all (\<lambda>c. \<not> vct_islws c) s"
  by (auto simp: token_def clean_def list_all_iff vct_islws_iff vct_iscrlf_iff)

lemma split_lines_lines:
  assumes "list_all (\<lambda>l. l \<noteq> [] \<and> clean l) ls" and "n + length ls < VHTTPS_MAX_HDR"
  shows "split_lines n (http_lines ls @ crlf @ [NUL]) = Some (ls, crlf @ [NUL])"
  using assms
proof (induction ls arbitrary: n)
  case Nil
  then show ?case by (simp add: split_lines.simps crlf_def)
next
  case (Cons l ls)
  obtain c l' where l: "l = c # l'" "clean l'" "c \<noteq> NUL" "\<not> vct_iscrlf c"
    using Cons.prems(1) by (cases l) (auto simp: vct_iscrlf_iff)
  have "scan (\<lambda>c. c = NUL \<or> vct_iscrlf c) (l' @ CR # LF # http_lines ls @ crlf @ [NUL]) =
      Some (l', CR, LF # http_lines ls @ crlf @ [NUL])"
    using l(2) by (intro scan_append) (auto simp: clean_def list_all_iff vct_iscrlf_iff)
  then show ?case
    using l Cons.IH [of "Suc n"] Cons.prems by (simp add: split_lines.simps(2) crlf_def)
qed

lemma scan_skip: "dropWhile P s = c # r \<Longrightarrow> scan (\<lambda>c. \<not> P c) s = Some (takeWhile P s, c, r)"
  by (simp add: scan_def)

lemma token_Cons:
  assumes "token s"
  obtains c r where "s = c # r" and "\<not> vct_islws c" and "\<not> vct_issp c" and "\<not> vct_iscrlf c"
  using assms token_no_lws [OF assms] by (cases s) (auto simp: token_def vct_islws_iff)

lemma clean_dropWhile: "clean s \<Longrightarrow> clean (dropWhile P s)"
  by (auto simp: clean_def list_all_iff dest: set_dropWhileD)

lemma fields_lines:
  "list_all (\<lambda>(k, v). clean k \<and> clean v) fs \<Longrightarrow> list_all (\<lambda>l. l \<noteq> [] \<and> clean l) (map field_line fs)"
  by (auto simp: list_all_iff field_line_def)

lemma head_lines:
  assumes "head_ok proto status reason fs"
  shows "list_all (\<lambda>l. l \<noteq> [] \<and> clean l) (status_line proto status reason # map field_line fs)"
  using assms fields_lines [of fs] by (auto simp: head_ok_def token_def status_line_def)

text \<open>The texts of the header are found again.\<close>

definition head_texts :: "string \<Rightarrow> string \<Rightarrow> string \<Rightarrow> http_field list \<Rightarrow> string option list" where
  "head_texts proto status reason fs =
     [Some proto, Some status, Some (dropWhile vct_issp reason)] @ map (\<lambda>f. Some (field_line f)) fs"

lemma splitheader_head:
  assumes ok: "head_ok proto status reason fs"
  shows "vhttps_splitheader (http_head proto status reason fs) = Some (head_texts proto status reason fs)"
proof -
  let ?ls = "http_lines (map field_line fs) @ crlf @ [NUL]"
  let ?r3 = "CR # LF # ?ls" and ?m = "dropWhile vct_issp reason"
  let ?r2 = "CHR '' '' # reason @ ?r3"
  let ?r1 = "CHR '' '' # status @ ?r2"
  have t: "token proto" "token status" and c: "clean proto" "clean status" "clean reason" "clean ?m"
    using ok clean_dropWhile by (auto simp: head_ok_def token_def)
  obtain p0 p where p: "proto = p0 # p" "\<not> vct_islws p0" by (rule token_Cons [OF t(1)])
  obtain s0 s' where s: "status = s0 # s'" "\<not> vct_issp s0" "\<not> vct_iscrlf s0" by (rule token_Cons [OF t(2)])
  have x1: "scan (\<lambda>c. \<not> vct_islws c) (proto @ ?r1) = Some ([], p0, p @ ?r1)" using p by (simp add: scan_def)
  have x2: "scan vct_islws (p0 # p @ ?r1) = Some (proto, CHR '' '', status @ ?r2)"
    using scan_append [OF token_no_lws [OF t(1)], of "CHR '' ''" "status @ ?r2"] p(1) by simp
  have x3: "scan (\<lambda>c. \<not> vct_issp c) (status @ ?r2) = Some ([], s0, s' @ ?r2)" using s by (simp add: scan_def)
  have x4: "scan vct_islws (s0 # s' @ ?r2) = Some (status, CHR '' '', reason @ ?r3)"
    using scan_append [OF token_no_lws [OF t(2)], of "CHR '' ''" "reason @ ?r3"] s(1) by simp
  have dw: "dropWhile vct_issp (reason @ ?r3) = ?m @ ?r3"
    by (cases "\<forall>c \<in> set reason. vct_issp c") (auto simp: dropWhile_append dropWhile_eq_Nil_conv)
  obtain c0 r where cr: "?m @ ?r3 = c0 # r" by (cases "?m @ ?r3") auto
  have x5: "scan (\<lambda>c. \<not> vct_issp c) (reason @ ?r3) = Some (takeWhile vct_issp (reason @ ?r3), c0, r)"
    by (rule scan_skip) (simp only: dw cr)
  have x6: "scan vct_iscrlf (c0 # r) = Some (?m, CR, LF # ?ls)"
    unfolding cr [symmetric] by (rule scan_append [OF clean_no_crlf [OF c(4)]]) simp
  have x7: "split_lines 3 ?ls = Some (map field_line fs, crlf @ [NUL])"
    using ok fields_lines by (intro split_lines_lines) (auto simp: head_ok_def VHTTPS_MAX_HDR_def)
  have x8: "vct_skipcrlf (crlf @ [NUL]) = [NUL]" by (simp add: crlf_def)
  have whole: "http_head proto status reason fs @ [NUL] = proto @ ?r1"
    by (simp add: http_head_def status_line_def crlf_def)
  show ?thesis
    unfolding vhttps_splitheader_def whole
    using s(3) x8 by (simp add: x1 x2 x3 x4 x5 x6 x7 cstr_clean [OF c(1)] cstr_clean [OF c(2)] cstr_clean [OF c(4)]
        head_texts_def)
qed

text \<open>The value of the first field of a name, in any case.\<close>

fun field_value :: "string \<Rightarrow> http_field list \<Rightarrow> string option" where
  "field_value name [] = None"
| "field_value name ((k, v) # fs) =
     (if map tolower k = map tolower name then Some (dropWhile vct_issp v) else field_value name fs)"

definition no_colon :: "string \<Rightarrow> bool" where
  "no_colon s \<longleftrightarrow> CHR '':'' \<notin> set s"

lemma tolower_colon: "tolower c = CHR '':'' \<longleftrightarrow> c = CHR '':''"
proof
  assume t: "tolower c = CHR '':''"
  show "c = CHR '':''"
  proof (cases "65 \<le> char_val c \<and> char_val c \<le> 90")
    case True
    then have "char_val (tolower c) = char_val c + 32" by (simp add: tolower_def char_val_char_of)
    then show ?thesis using t True by (simp add: char_val_def)
  qed (use t in \<open>auto simp: tolower_def\<close>)
qed (simp add: tolower_def char_val_def)

lemma line_matches:
  assumes "no_colon hdr" and "no_colon k"
  shows "(map tolower (take (length hdr) (k @ CHR '':'' # w)) = map tolower hdr \<and> length hdr < length (k @ CHR '':'' # w) \<and>
      (k @ CHR '':'' # w) ! length hdr = CHR '':'') \<longleftrightarrow> map tolower k = map tolower hdr" (is "?m \<longleftrightarrow> ?e")
proof
  assume m: ?m
  have "length hdr = length k"
  proof (rule linorder_cases)
    assume l: "length hdr < length k"
    then have "k ! length hdr = CHR '':''" using m by (simp add: nth_append)
    then show ?thesis using assms(2) l nth_mem by (fastforce simp: no_colon_def)
  next
    assume l: "length k < length hdr"
    have "map tolower hdr ! length k = map tolower (take (length hdr) (k @ CHR '':'' # w)) ! length k" using m by simp
    also have "\<dots> = tolower (CHR '':'')" using l m by (subst nth_map) (auto simp: nth_append)
    finally have "tolower (hdr ! length k) = tolower (CHR '':'')" using l by simp
    then have "hdr ! length k = CHR '':''" using tolower_colon by metis
    then show ?thesis using assms(1) l nth_mem by (fastforce simp: no_colon_def)
  qed
  then show ?e using m by simp
next
  assume e: ?e
  then have "length k = length hdr" by (metis length_map)
  then show ?m using e by (simp add: nth_append)
qed

lemma find_line_fields:
  assumes "no_colon hdr" and "list_all (\<lambda>(k, v). no_colon k) fs"
  shows "find_line hdr (map (\<lambda>f. Some (field_line f)) fs) = field_value hdr fs"
  using assms(2)
proof (induction fs)
  case (Cons f fs)
  obtain k v where f: "f = (k, v)" by fastforce
  have k: "no_colon k" using Cons.prems f by simp
  have l: "field_line f = k @ CHR '':'' # CHR '' '' # v" by (simp add: field_line_def f)
  have "map tolower k = map tolower hdr \<Longrightarrow> length k = length hdr" by (metis length_map)
  then show ?case
    using Cons line_matches [OF assms(1) k, of "CHR '' '' # v"] unfolding f list.map l [unfolded f] find_line.simps
    by (simp add: f)
qed simp

lemma find_header_head:
  assumes "no_colon hdr" and "list_all (\<lambda>(k, v). no_colon k) fs"
  shows "vhttps_find_header (head_texts proto status reason fs) hdr = field_value hdr fs"
  using find_line_fields [OF assms] by (simp add: vhttps_find_header_def head_texts_def)

section \<open>Numbers survive printing and reading\<close>

definition hex_char :: "nat \<Rightarrow> char" where
  "hex_char d = char_of (if d < 10 then 48 + d else 87 + d)"

fun num_text :: "nat \<Rightarrow> nat \<Rightarrow> string" where
  "num_text b n = (if b < 2 \<or> n < b then [hex_char n] else num_text b (n div b) @ [hex_char (n mod b)])"

declare num_text.simps [simp del]

lemma decimal_num_text: "decimal_text n = num_text 10 n"
proof (induction n rule: decimal_text.induct)
  case (1 n)
  then show ?case
    by (subst decimal_text.simps, subst num_text.simps) (simp add: hex_char_def)
qed

lemma hex_char_val:
  assumes "d < 16"
  shows "hex_val (hex_char d) = Some d" "\<not> is_space (hex_char d)"
    "char_val (hex_char d) \<in> {48..57} \<union> {97..102}" "hex_char d = CHR ''0'' \<longleftrightarrow> d = 0"
proof -
  have v: "char_val (hex_char d) = (if d < 10 then 48 + d else 87 + d)"
    using assms by (simp add: hex_char_def char_val_char_of)
  have "char_val (CHR ''0'') = 48" by (simp add: char_val_def)
  then show "hex_val (hex_char d) = Some d" "\<not> is_space (hex_char d)"
    "char_val (hex_char d) \<in> {48..57} \<union> {97..102}" "hex_char d = CHR ''0'' \<longleftrightarrow> d = 0"
    using assms v char_val_inj [of "hex_char d" "CHR ''0''"] by (auto simp: hex_val_def is_space_def Let_def split: if_splits)
qed

lemma hex_char_not:
  assumes "d < 16"
  shows "hex_char d \<noteq> CHR ''-''" "hex_char d \<noteq> CHR ''+''" "hex_char d \<noteq> CHR ''x''" "hex_char d \<noteq> CHR ''X''"
    "hex_char d \<noteq> NUL" "hex_char d \<noteq> CR" "hex_char d \<noteq> LF" "\<not> vct_issp (hex_char d)"
proof -
  have "char_val (CHR ''-'') = 45" "char_val (CHR ''+'') = 43" "char_val (CHR ''x'') = 120" "char_val (CHR ''X'') = 88"
    "char_val (CHR '' '') = 32" "char_val (CHR 0x09) = 9" by (simp_all add: char_val_def)
  moreover note hex_char_val(3) [OF assms] char_val_CR char_val_LF char_val_NUL
  ultimately show "hex_char d \<noteq> CHR ''-''" "hex_char d \<noteq> CHR ''+''" "hex_char d \<noteq> CHR ''x''" "hex_char d \<noteq> CHR ''X''"
    "hex_char d \<noteq> NUL" "hex_char d \<noteq> CR" "hex_char d \<noteq> LF" "\<not> vct_issp (hex_char d)"
    unfolding vct_issp_iff by (force simp del: char_val_CR char_val_LF char_val_NUL)+
qed

lemma num_text_ne: "num_text b n \<noteq> []"
  by (subst num_text.simps) simp

lemma num_text_digits:
  assumes "2 \<le> b"
  shows "list_all (\<lambda>c. \<exists>d < b. c = hex_char d) (num_text b n)"
  using assms
proof (induction b n rule: num_text.induct)
  case (1 b n)
  show ?case
  proof (cases "n < b")
    case True
    then show ?thesis by (subst num_text.simps) auto
  next
    case False
    have "n mod b < b" using "1.prems" by simp
    then have "\<exists>d < b. hex_char (n mod b) = hex_char d" by blast
    then show ?thesis using "1.IH" "1.prems" False by (subst num_text.simps) simp
  qed
qed

lemma digit_val_hex_char: "d < b \<Longrightarrow> b \<le> 16 \<Longrightarrow> digit_val b (hex_char d) = Some d"
  by (simp add: digit_val_def hex_char_val)

lemma digits_val_append: "digits_val b (s @ [c]) = digits_val b s * b + the (digit_val b c)"
  by (simp add: digits_val_def)

lemma digits_val_num_text:
  assumes "2 \<le> b" and "b \<le> 16"
  shows "digits_val b (num_text b n) = n"
  using assms
proof (induction b n rule: num_text.induct)
  case (1 b n)
  show ?case
  proof (cases "n < b")
    case True
    then show ?thesis using "1.prems" by (subst num_text.simps) (simp add: digits_val_def digit_val_hex_char)
  next
    case False
    then have "n mod b < b" using "1.prems" by simp
    then show ?thesis
      using "1.IH" False "1.prems" by (subst num_text.simps) (simp add: digits_val_append digit_val_hex_char)
  qed
qed

lemma hd_num_text:
  assumes "2 \<le> b" and "b \<le> 16"
  shows "\<exists>d < b. hd (num_text b n) = hex_char d \<and> (d = 0 \<longrightarrow> n = 0)"
  using assms
proof (induction b n rule: num_text.induct)
  case (1 b n)
  show ?case
  proof (cases "n < b")
    case True
    then show ?thesis by (subst num_text.simps) auto
  next
    case False
    then obtain d where "d < b" "hd (num_text b (n div b)) = hex_char d" "d = 0 \<longrightarrow> n div b = 0"
      using "1.IH" "1.prems" by auto
    moreover have "n div b \<noteq> 0" using False "1.prems" by (simp add: div_eq_0_iff)
    ultimately show ?thesis
      using False "1.prems" num_text_ne by (subst num_text.simps) auto
  qed
qed

lemma skip_0x_same: "list_all (\<lambda>c. c \<noteq> CHR ''x'' \<and> c \<noteq> CHR ''X'') s \<Longrightarrow> skip_0x s = s"
  by (auto simp: skip_0x_def split: list.splits)

lemma strip_number:
  assumes "2 \<le> b" and "b \<le> 16"
  shows "strip_sign (dropWhile is_space (num_text b n @ r)) = (False, num_text b n @ r)"
proof -
  obtain d where d: "d < b" "hd (num_text b n) = hex_char d" using hd_num_text [OF assms] by blast
  then obtain t where t: "num_text b n = hex_char d # t" by (metis list.collapse num_text_ne)
  have "d < 16" using d(1) assms(2) by simp
  then show ?thesis unfolding t using hex_char_val(2) [of d] hex_char_not [of d] by (simp add: strip_sign_def)
qed

lemma number_chars:
  assumes "2 \<le> b" and "b \<le> 16" and "r = [] \<or> (\<exists>c t. r = c # t \<and> digit_val b c = None)"
  shows "takeWhile (\<lambda>c. digit_val b c \<noteq> None) (num_text b n @ r) = num_text b n"
    and "dropWhile (\<lambda>c. digit_val b c \<noteq> None) (num_text b n @ r) = r"
proof -
  have "\<forall>c \<in> set (num_text b n). digit_val b c \<noteq> None"
    using num_text_digits [OF assms(1), of n] assms(2) by (auto simp: list_all_iff digit_val_hex_char)
  then show "takeWhile (\<lambda>c. digit_val b c \<noteq> None) (num_text b n @ r) = num_text b n"
    and "dropWhile (\<lambda>c. digit_val b c \<noteq> None) (num_text b n @ r) = r"
    using assms(3) by (auto simp: takeWhile_append takeWhile_eq_Nil_iff)
qed

lemma skip_0x_number:
  assumes "2 \<le> b" and "b \<le> 16" and "list_all (\<lambda>c. c \<noteq> CHR ''x'' \<and> c \<noteq> CHR ''X'') r"
  shows "skip_0x (num_text b n @ r) = num_text b n @ r"
proof (rule skip_0x_same)
  have "c \<noteq> CHR ''x'' \<and> c \<noteq> CHR ''X''" if c: "c \<in> set (num_text b n)" for c
  proof -
    obtain d where "d < b" "c = hex_char d" using num_text_digits [OF assms(1), of n] c by (auto simp: list_all_iff)
    then show ?thesis using hex_char_not(3,4) [of d] assms(2) by simp
  qed
  then show "list_all (\<lambda>c. c \<noteq> CHR ''x'' \<and> c \<noteq> CHR ''X'') (num_text b n @ r)"
    using assms(3) unfolding list_all_iff set_append by blast
qed

lemma strtoul_number:
  assumes b: "2 \<le> b" "b \<le> 16" and r: "r = [] \<or> (\<exists>c t. r = c # t \<and> digit_val b c = None)"
    and base: "number_base base (num_text b n @ r) = (b, num_text b n @ r)" and n: "n < 2 ^ 64"
  shows "strtoul base (num_text b n @ r) = (word_of_nat n, r)"
proof -
  have "\<not> 2 ^ 64 \<le> n" using n by simp
  then show ?thesis
    unfolding strtoul_def strip_number [OF b] base prod.case Let_def number_chars [OF b r] digits_val_num_text [OF b]
    by (simp only: num_text_ne if_False)
qed

lemma strtoul_decimal:
  assumes "n < 2 ^ 64"
  shows "fst (strtoul 0 (decimal_text n)) = word_of_nat n"
proof (cases "n = 0")
  case True
  moreover have "fst (strtoul 0 (decimal_text 0)) = 0"
    by (simp add: decimal_text.simps strtoul_def is_space_def char_val_def strip_sign_def number_base_def skip_0x_def
        digit_val_def hex_val_def digits_val_def)
  ultimately show ?thesis by simp
next
  case False
  obtain d where d: "d < 10" "hd (num_text 10 n) = hex_char d" "d \<noteq> 0" using hd_num_text [of 10 n] False by auto
  then have "hd (num_text 10 n) \<noteq> CHR ''0''" using hex_char_val(4) [of d] by simp
  then have "number_base 0 (num_text 10 n @ []) = (10, num_text 10 n @ [])"
    using skip_0x_number [of 10 "[]" n] by (simp add: number_base_def)
  from strtoul_number [OF _ _ _ this assms] show ?thesis by (simp add: decimal_num_text)
qed

lemma strtoul_hex:
  assumes "n < 2 ^ 64"
  shows "strtoul 16 (num_text 16 n @ crlf) = (word_of_nat n, crlf)"
proof (rule strtoul_number [OF _ _ _ _ assms])
  have "digit_val 16 CR = None" by code_simp
  then show "crlf = [] \<or> (\<exists>c t. crlf = c # t \<and> digit_val 16 c = None)" by (simp add: crlf_def)
  show "number_base 16 (num_text 16 n @ crlf) = (16, num_text 16 n @ crlf)"
    using skip_0x_number [of 16 crlf n] by (simp add: number_base_def crlf_def CR_def LF_def)
qed simp_all

lemma c_int_of_nat: "n < 2 ^ 31 \<Longrightarrow> c_int (word_of_nat n) = int n"
  by (simp add: c_int_def unsigned_of_nat signed_of_nat take_bit_nat_eq_self signed_take_bit_int_eq_self)

end
