(* ===== verification/Vhttps_Response.thy ===== *)
theory Vhttps_Response
  imports Vhttps_Answer
begin

text \<open>
  What the HTTPS client makes of the responses of a server: chunks, bodies of the three framings, compressed bodies,
  the exchange of a request and a response, and the contract that \<open>VHTTPS_get\<close> and \<open>VHTTPS_post\<close> share; responses that
  are complete, too long, or end early.
\<close>

section \<open>Chunks\<close>

definition chunk_text :: "string \<Rightarrow> string" where
  "chunk_text c = num_text 16 (length c) @ crlf @ c @ crlf"

definition chunked_text :: "string list \<Rightarrow> string" where
  "chunked_text cs = concat (map chunk_text cs) @ chunk_text []"

lemma num_text_clean: "2 \<le> b \<Longrightarrow> b \<le> 16 \<Longrightarrow> clean (num_text b n)"
  using num_text_digits [of b n] hex_char_not(5,6,7) unfolding clean_def list_all_iff
  by (metis (no_types, lifting) less_le_trans)

lemma line_complete_store: "a \<noteq> [] \<Longrightarrow> line_complete (rx_store a hp) \<longleftrightarrow> last a = LF"
  by (cases a rule: rev_cases) (simp_all add: line_complete_def rx_store_def mem_put_def nth_append)

lemma hd_crlf: "hd crlf = CR" "crlf \<noteq> []"
  by (simp_all add: crlf_def)

lemma size_line_delivers:
  assumes d: "delivers evs" "payload evs = num_text 16 n @ crlf @ rest"
    and room: "hp_prxbuf hp + length (num_text 16 n) + 2 < nrxbuf"
  shows "\<exists>evs'. rx_until line_complete evs hp = Some (1, evs', rx_store (num_text 16 n @ crlf) hp) \<and>
    delivers evs' \<and> payload evs' = rest"
proof (rule rx_until_delivers [OF d(1)])
  show "payload evs = (num_text 16 n @ crlf) @ rest" using d(2) by simp
  show "line_complete (rx_store (num_text 16 n @ crlf) hp)" by (subst line_complete_store) (simp_all add: crlf_def)
  show "\<not> line_complete (rx_store a hp)" if ab: "a \<noteq> []" "b \<noteq> []" "num_text 16 n @ crlf = a @ b" for a b
  proof -
    have "(num_text 16 n @ [CR]) @ [LF] = a @ b" using ab(3) by (simp add: crlf_def)
    then obtain b' where "num_text 16 n @ [CR] = a @ b'" using ab(2) by (cases b rule: rev_cases) auto
    then have "set a \<subseteq> set (num_text 16 n @ [CR])" by (metis Un_upper1 set_append)
    then have "LF \<notin> set a" using num_text_clean [of 16 n] by (auto simp: clean_def list_all_iff)
    then show ?thesis using ab(1) line_complete_store by (metis last_in_set)
  qed
qed (use room in \<open>simp_all add: crlf_def\<close>)

lemma size_line_text: "cstr (rx_text (hp_prxbuf hp) (rx_store (num_text 16 n @ crlf) hp)) = num_text 16 n @ crlf"
  unfolding rx_text_store cstr_def using num_text_clean [of 16 n]
  by (auto simp: takeWhile_eq_all_conv crlf_def clean_def list_all_iff)

text \<open>What a call may change of the buffer: only bytes from the place of writing on.\<close>

definition grown :: "vhttps_internal \<Rightarrow> string \<Rightarrow> vhttps_internal \<Rightarrow> bool" where
  "grown hp s hp' \<longleftrightarrow> (\<exists>m. hp' = hp\<lparr>hp_rxbuf := m, hp_prxbuf := hp_prxbuf hp + length s\<rparr> \<and>
     mem_get (hp_prxbuf hp) (length s) m = s \<and> (\<forall>i < hp_prxbuf hp. m i = hp_rxbuf hp i))"

lemma grown_refl: "grown hp [] hp"
  unfolding grown_def by (rule exI [of _ "hp_rxbuf hp"]) (simp add: mem_get_def)

lemma mem_get_cong: "(\<And>i. off \<le> i \<Longrightarrow> i < off + n \<Longrightarrow> m i = m' i) \<Longrightarrow> mem_get off n m = mem_get off n m'"
  by (simp add: mem_get_def)

lemma grown_trans:
  assumes "grown hp a hp1" and "grown hp1 b hp2"
  shows "grown hp (a @ b) hp2"
proof -
  obtain m1 m2 where 1: "hp1 = hp\<lparr>hp_rxbuf := m1, hp_prxbuf := hp_prxbuf hp + length a\<rparr>"
      "mem_get (hp_prxbuf hp) (length a) m1 = a" "\<forall>i < hp_prxbuf hp. m1 i = hp_rxbuf hp i"
    and 2: "hp2 = hp1\<lparr>hp_rxbuf := m2, hp_prxbuf := hp_prxbuf hp1 + length b\<rparr>"
      "mem_get (hp_prxbuf hp1) (length b) m2 = b" "\<forall>i < hp_prxbuf hp1. m2 i = hp_rxbuf hp1 i"
    using assms unfolding grown_def by blast
  have "mem_get (hp_prxbuf hp) (length a) m2 = a"
    using mem_get_cong [of "hp_prxbuf hp" "length a" m2 m1] 1 2 by simp
  then show ?thesis
    unfolding grown_def using 1 2 by (intro exI [of _ m2]) (simp add: mem_get_append)
qed

lemma grown_store: "grown hp bs (rx_store bs hp)"
  unfolding grown_def rx_store_def by (intro exI [of _ "mem_put (hp_prxbuf hp) (bs @ [NUL]) (hp_rxbuf hp)"])
    (simp add: mem_get_put_same, simp add: mem_put_def)

lemma rxchar_grown:
  assumes "delivers evs" and "payload evs = s @ rest" and "hp_prxbuf hp + length s < nrxbuf"
  shows "\<exists>evs'. vhttps_rxcharForSocket (int (length s)) evs hp = Some (1, evs', if s = [] then hp else rx_store s hp) \<and>
    delivers evs' \<and> payload evs' = rest"
proof (cases "s = []")
  case False
  then show ?thesis using rxchar_delivers [OF assms(1), of "int (length s)" hp] assms(2,3) by simp
qed (use assms in \<open>auto simp: rxchar_none\<close>)

lemma rxchunk_delivers:
  assumes d: "delivers evs" "payload evs = chunk_text c @ rest" and room: "hp_prxbuf hp + length (chunk_text c) < nrxbuf"
  shows "\<exists>evs' hp'. vhttps_rxchunk evs hp = Some (int (length c), evs', hp') \<and> delivers evs' \<and> payload evs' = rest \<and> grown hp c hp'"
proof -
  let ?l = "hp_prxbuf hp" and ?z = "num_text 16 (length c) @ crlf"
  have p: "payload evs = num_text 16 (length c) @ crlf @ c @ crlf @ rest" using d(2) by (simp add: chunk_text_def)
  have r1: "?l + length (num_text 16 (length c)) + 2 < nrxbuf" and r2: "?l + length c + 2 < nrxbuf"
    using room by (auto simp: chunk_text_def crlf_def)
  obtain evs1 where u: "rx_until line_complete evs hp = Some (1, evs1, rx_store ?z hp)"
    and d1: "delivers evs1" "payload evs1 = c @ crlf @ rest" using size_line_delivers [OF d(1) p r1] by blast
  note s = size_line_text [of hp "length c"]
  have small: "length c < 2 ^ 31" using r2 by (simp add: nrxbuf_def)
  then have n: "strtoul 16 ?z = (word_of_nat (length c), crlf)" by (intro strtoul_hex) simp
  note i = c_int_of_nat [OF small]
  define h1 where "h1 = (rx_store ?z hp)\<lparr>hp_prxbuf := ?l\<rparr>"
  define h2 where "h2 = (if c = [] then h1 else rx_store c h1)"
  have h1: "hp_prxbuf h1 = ?l" by (simp add: h1_def)
  have h2: "hp_prxbuf h2 = ?l + length c" by (simp add: h2_def h1)
  obtain evs2 where c2: "vhttps_rxcharForSocket (int (length c)) evs1 h1 = Some (1, evs2, h2)"
    and d2: "delivers evs2" "payload evs2 = crlf @ rest"
    using rxchar_grown [OF d1, of h1] r2 h1 unfolding h2_def by auto
  obtain evs3 where c3: "vhttps_rxcharForSocket 2 evs2 h2 = Some (1, evs3, rx_store crlf h2)"
    and d3: "delivers evs3" "payload evs3 = rest"
    using rxchar_grown [OF d2, of h2] r2 h2 by (auto simp: crlf_def)
  define h3 where "h3 = (rx_store crlf h2)\<lparr>hp_prxbuf := ?l + length c, hp_rxbuf := (hp_rxbuf (rx_store crlf h2))(?l + length c := NUL)\<rparr>"
  have tail: "hp_rxbuf (rx_store crlf h2) (?l + length c) = CR" "hp_rxbuf (rx_store crlf h2) (Suc (?l + length c)) = LF"
    by (auto simp: rx_store_def mem_put_def h2 crlf_def)
  have "vhttps_rxchunk evs hp = Some (int (length c), evs3, h3)"
    unfolding vhttps_rxchunk_def Let_def u bind.bind_lunit prod.case s n i h1_def [symmetric]
    using num_text_ne [of 16 "length c"] hd_crlf by (simp add: c2 c3 h2 tail h3_def)
  moreover have "grown hp c h3"
    unfolding grown_def
    by (rule exI [of _ "hp_rxbuf h3"])
      (auto simp: h3_def h2_def h1_def rx_store_def mem_put_def mem_get_def nth_append intro!: nth_equalityI)
  ultimately show ?thesis using d3 by blast
qed

lemma rx_chunks_prefix:
  assumes "delivers evs" and "payload evs = concat (map chunk_text cs) @ rest"
    and "hp_prxbuf hp + length (concat (map chunk_text cs)) < nrxbuf" and "[] \<notin> set cs"
  shows "\<exists>evs' hp'. rx_chunks evs hp = rx_chunks evs' hp' \<and> delivers evs' \<and> payload evs' = rest \<and> grown hp (concat cs) hp'"
  using assms
proof (induction cs arbitrary: evs hp)
  case Nil
  then show ?case using grown_refl by fastforce
next
  case (Cons c cs)
  have "payload evs = chunk_text c @ concat (map chunk_text cs) @ rest" "hp_prxbuf hp + length (chunk_text c) < nrxbuf"
    using Cons.prems(2,3) by simp_all
  then obtain evs1 hp1 where 1: "vhttps_rxchunk evs hp = Some (int (length c), evs1, hp1)" "delivers evs1"
      "payload evs1 = concat (map chunk_text cs) @ rest" "grown hp c hp1"
    using rxchunk_delivers [OF Cons.prems(1)] by blast
  have "hp_prxbuf hp1 = hp_prxbuf hp + length c" using 1(4) by (auto simp: grown_def)
  then have "hp_prxbuf hp1 + length (concat (map chunk_text cs)) < nrxbuf"
    using Cons.prems(3) by (simp add: chunk_text_def [of c])
  then obtain evs' hp' where 2: "rx_chunks evs1 hp1 = rx_chunks evs' hp'" "delivers evs'" "payload evs' = rest"
      "grown hp1 (concat cs) hp'"
    using Cons.IH [OF 1(2,3), of hp1] Cons.prems(4) by auto
  have "0 < length c" using Cons.prems(4) by auto
  then have "rx_chunks evs hp = rx_chunks evs' hp'" using 1(1) 2(1) by (simp add: rx_chunks.simps [of evs])
  moreover have "grown hp (concat (c # cs)) hp'" using grown_trans [OF 1(4) 2(4)] by simp
  ultimately show ?case using 2(2,3) by blast
qed

lemma grown_prxbuf: "grown hp s hp' \<Longrightarrow> hp_prxbuf hp' = hp_prxbuf hp + length s"
  by (auto simp: grown_def)

lemma length_concat_chunks: "length (concat cs) \<le> length (concat (map chunk_text cs))"
  by (induction cs) (auto simp: chunk_text_def)

lemma rx_chunks_delivers:
  assumes "delivers evs" and "payload evs = chunked_text cs @ rest" and "hp_prxbuf hp + length (chunked_text cs) < nrxbuf"
    and "[] \<notin> set cs"
  shows "\<exists>evs' hp'. rx_chunks evs hp = Some (0, evs', hp') \<and> delivers evs' \<and> payload evs' = rest \<and> grown hp (concat cs) hp'"
proof -
  obtain evs1 hp1 where 1: "rx_chunks evs hp = rx_chunks evs1 hp1" "delivers evs1" "payload evs1 = chunk_text [] @ rest"
      "grown hp (concat cs) hp1"
    using rx_chunks_prefix [OF assms(1), of cs "chunk_text [] @ rest" hp] assms(2-4) by (auto simp: chunked_text_def)
  then obtain evs' hp' where "vhttps_rxchunk evs1 hp1 = Some (0, evs', hp')" "delivers evs'" "payload evs' = rest" "grown hp1 [] hp'"
    using rxchunk_delivers [of evs1 "[]" rest hp1] assms(3) grown_prxbuf length_concat_chunks [of cs]
    by (fastforce simp: chunked_text_def)
  then show ?thesis using 1 grown_trans [OF 1(4)] by (fastforce simp: rx_chunks.simps [of evs1])
qed

lemma payload_Nil: "delivers evs \<Longrightarrow> payload evs = [] \<Longrightarrow> evs = []"
  by (cases evs) (auto simp: delivers_Cons)

lemma rx_to_eof_delivers:
  assumes "delivers evs" and "hp_prxbuf hp + length (payload evs) + 1 < nrxbuf"
  shows "\<exists>hp'. rx_to_eof ll evs hp = Some (ll + int (length (payload evs)), [], hp') \<and> grown hp (payload evs) hp'"
  using assms
proof (induction "payload evs" arbitrary: ll evs hp)
  case Nil
  have "vhttps_rxcharForSocket 1 [] hp = Some (0, [], hp)"
    using Nil.prems(2) by (simp add: vhttps_rxcharForSocket.simps)
  then show ?case
    using payload_Nil [OF Nil.prems(1)] Nil.hyps grown_refl by (auto simp: rx_to_eof.simps [of ll "[]"])
next
  case (Cons c s)
  obtain evs1 where r: "vhttps_rxcharForSocket 1 evs hp = Some (1, evs1, rx_store [c] hp)"
    and d: "delivers evs1" and p: "payload evs1 = s"
    using rxchar_delivers [OF Cons.prems(1), of 1 hp] Cons.prems(2) Cons.hyps(2) [symmetric] by auto
  obtain hp' where hp': "rx_to_eof (ll + 1) evs1 (rx_store [c] hp) = Some (ll + 1 + int (length (payload evs1)), [], hp')"
      "grown (rx_store [c] hp) (payload evs1) hp'"
    using Cons.hyps(1) [OF p [symmetric] d, of "rx_store [c] hp" "ll + 1"] Cons.prems(2) Cons.hyps(2) [symmetric] p by auto
  have "grown hp (payload evs) hp'"
    using grown_trans [OF grown_store [of hp "[c]"] hp'(2)] Cons.hyps(2) [symmetric] p by simp
  then show ?case
    using r hp'(1) Cons.hyps(2) [symmetric] p by (auto simp: rx_to_eof.simps [of ll evs])
qed

section \<open>Responses\<close>

text \<open>The three ways in which a server marks the end of the body.\<close>

datatype framing = By_length string | By_chunks "string list" | By_close string

fun framed_body :: "framing \<Rightarrow> string" where
  "framed_body (By_length b) = b"
| "framed_body (By_chunks cs) = concat cs"
| "framed_body (By_close b) = b"

fun framing_fields :: "framing \<Rightarrow> http_field list" where
  "framing_fields (By_length b) = [(''Content-Length'', decimal_text (length b))]"
| "framing_fields (By_chunks cs) = [(''Transfer-Encoding'', ''chunked'')]"
| "framing_fields (By_close b) = []"

fun framed_text :: "framing \<Rightarrow> string" where
  "framed_text (By_length b) = b"
| "framed_text (By_chunks cs) = chunked_text cs"
| "framed_text (By_close b) = b"

definition http_response :: "nat \<Rightarrow> string \<Rightarrow> http_field list \<Rightarrow> framing \<Rightarrow> string" where
  "http_response code reason fs fr =
     http_head ''HTTP/1.1'' (decimal_text code) reason (fs @ framing_fields fr) @ framed_text fr"

definition fields_ok :: "http_field list \<Rightarrow> bool" where
  "fields_ok fs \<longleftrightarrow> length fs \<le> 45 \<and> list_all (\<lambda>(k, v). clean k \<and> no_colon k \<and> clean v) fs \<and>
     field_value ''content-length'' fs = None \<and> field_value ''transfer-encoding'' fs = None \<and>
     field_value ''content-encoding'' fs = None"

fun framing_ok :: "nat \<Rightarrow> framing \<Rightarrow> bool" where
  "framing_ok code (By_length b) = True"
| "framing_ok code (By_chunks cs) = ([] \<notin> set cs)"
| "framing_ok code (By_close b) = (code = 200)"

lemma field_value_append:
  "field_value name (fs @ gs) = (case field_value name fs of None \<Rightarrow> field_value name gs | Some v \<Rightarrow> Some v)"
  by (induction fs) auto

lemma decimal_token: "token (decimal_text n)"
  unfolding token_def decimal_num_text using num_text_clean [of 10 n] num_text_digits [of 10 n] num_text_ne hex_char_not(8)
  by (auto simp: list_all_iff)

lemma decimal_no_space: "dropWhile vct_issp (decimal_text n) = decimal_text n"
  using decimal_token [of n] by (cases "decimal_text n") (auto simp: token_def)

lemma framing_fields_ok:
  "list_all (\<lambda>(k, v). clean k \<and> no_colon k \<and> clean v) (framing_fields fr)" "length (framing_fields fr) \<le> 1"
  using decimal_token by (cases fr; force simp: no_colon_def token_def clean_def NUL_def CR_def LF_def)+

lemma response_head_ok:
  assumes "fields_ok fs" and "clean reason"
  shows "head_ok ''HTTP/1.1'' (decimal_text code) reason (fs @ framing_fields fr)"
    and "list_all (\<lambda>(k, v). no_colon k) (fs @ framing_fields fr)"
proof -
  have p: "token ''HTTP/1.1''"
    by (simp add: token_def clean_def NUL_def CR_def LF_def vct_issp_iff)
  have a: "list_all (\<lambda>(k, v). clean k \<and> no_colon k \<and> clean v) (fs @ framing_fields fr)"
    using assms(1) framing_fields_ok(1) [of fr] by (simp add: fields_ok_def)
  then have "list_all (\<lambda>(k, v). clean k \<and> clean v) (fs @ framing_fields fr)"
    and n: "list_all (\<lambda>(k, v). no_colon k) (fs @ framing_fields fr)" by (auto simp: list_all_iff)
  then show "head_ok ''HTTP/1.1'' (decimal_text code) reason (fs @ framing_fields fr)"
    using assms p decimal_token framing_fields_ok(2) [of fr] by (simp add: head_ok_def fields_ok_def)
  show "list_all (\<lambda>(k, v). no_colon k) (fs @ framing_fields fr)" by (rule n)
qed

section \<open>Receiving a response\<close>

text \<open>The state of the client when the header has been read and split.\<close>

definition after_head :: "nat \<Rightarrow> string \<Rightarrow> http_field list \<Rightarrow> (nat \<Rightarrow> char) \<Rightarrow> vhttps_internal" where
  "after_head code reason fs mem = (let t = http_head ''HTTP/1.1'' (decimal_text code) reason fs in
     \<lparr>hp_rxbuf = mem_put 0 (t @ [NUL]) mem, hp_prxbuf = length t, hp_body = Body_rx (length t), hp_bodylen = 0,
      hp_resp = head_texts ''HTTP/1.1'' (decimal_text code) reason fs\<rparr>)"

definition finish_body ::
  "(string \<Rightarrow> nat \<Rightarrow> inflate_result) \<Rightarrow> rx_event list \<times> vhttps_internal \<Rightarrow> int rx_result" where
  "finish_body inflate = (\<lambda>(evs, hp). case vhttps_find_header (hp_resp hp) ''content-encoding'' of
       Some p \<Rightarrow> if has_infix ''gzip'' p then do { (r, hp) \<leftarrow> vhttps_rxbody_gzip inflate hp; Some (r, evs, hp) }
                 else Some (0, evs, hp)
     | None \<Rightarrow> Some (0, evs, hp))"

lemma decimal_200: "decimal_text code = ''200'' \<longleftrightarrow> code = 200"
proof
  assume "decimal_text code = ''200''"
  moreover have "decimal_text 200 = ''200''" by code_simp
  ultimately have "digits_val 10 (num_text 10 code) = digits_val 10 (num_text 10 200)" unfolding decimal_num_text by simp
  then show "code = 200" by (simp add: digits_val_num_text)
next
  assume "code = 200"
  moreover have "decimal_text 200 = ''200''" by code_simp
  ultimately show "decimal_text code = ''200''" by simp
qed

lemma rxbody_head:
  assumes d: "delivers evs" "payload evs = http_head ''HTTP/1.1'' (decimal_text code) reason fs @ rest"
    and ok: "head_ok ''HTTP/1.1'' (decimal_text code) reason fs"
    and room: "length (http_head ''HTTP/1.1'' (decimal_text code) reason fs) < nrxbuf"
  shows "\<exists>evs'. vhttps_rxbody inflate evs (vhttps_allocForSocket mem) =
      vhttps_swallow_body (length (http_head ''HTTP/1.1'' (decimal_text code) reason fs)) (code = 200) evs'
        (after_head code reason fs mem) \<bind> finish_body inflate \<and>
    delivers evs' \<and> payload evs' = rest"
proof -
  let ?t = "http_head ''HTTP/1.1'' (decimal_text code) reason fs" and ?h = "vhttps_allocForSocket mem"
  have h: "?h\<lparr>hp_prxbuf := 0, hp_body := Body_null\<rparr> = ?h" by (simp add: vhttps_allocForSocket_def)
  obtain evs' where r: "vhttps_rxhdr evs ?h = Some (0, evs', rx_store ?t ?h)" and d': "delivers evs'" "payload evs' = rest"
    using rxhdr_delivers [OF d(1) _ head_lines [OF ok], of rest ?h] d(2) room unfolding http_head_def h by auto
  have t: "rx_text 0 (rx_store ?t ?h) = ?t"
    using rx_text_store [of ?h ?t] by (simp add: vhttps_allocForSocket_def)
  have a: "(rx_store ?t ?h)\<lparr>hp_resp := head_texts ''HTTP/1.1'' (decimal_text code) reason fs,
      hp_body := Body_rx (length ?t)\<rparr> = after_head code reason fs mem"
    by (simp add: after_head_def rx_store_def vhttps_allocForSocket_def Let_def)
  have l: "hp_prxbuf (rx_store ?t ?h) = length ?t" by (simp add: vhttps_allocForSocket_def)
  have s: "(head_texts ''HTTP/1.1'' (decimal_text code) reason fs ! 1 = Some ''200'') = (code = 200)"
    using decimal_200 [of code] by (simp add: head_texts_def)
  have "vhttps_rxbody inflate evs ?h =
      vhttps_swallow_body (length ?t) (code = 200) evs' (after_head code reason fs mem) \<bind> finish_body inflate"
    unfolding vhttps_rxbody_def r bind.bind_lunit prod.case t splitheader_head [OF ok] Let_def l a s
    by (simp add: finish_body_def case_prod_unfold)
  then show ?thesis using d' by blast
qed

lemma framing_values:
  "field_value ''content-length'' (framing_fields fr) = (case fr of By_length b \<Rightarrow> Some (decimal_text (length b)) | _ \<Rightarrow> None)"
  "field_value ''transfer-encoding'' (framing_fields fr) = (case fr of By_chunks cs \<Rightarrow> Some ''chunked'' | _ \<Rightarrow> None)"
  "field_value ''content-encoding'' (framing_fields fr) = None"
proof -
  have "map tolower ''Content-Length'' = ''content-length''" "map tolower ''content-length'' = ''content-length''"
    "map tolower ''Transfer-Encoding'' = ''transfer-encoding''" "map tolower ''transfer-encoding'' = ''transfer-encoding''"
    "map tolower ''content-encoding'' = ''content-encoding''" "dropWhile vct_issp ''chunked'' = ''chunked''" by code_simp+
  then show "field_value ''content-length'' (framing_fields fr) = (case fr of By_length b \<Rightarrow> Some (decimal_text (length b)) | _ \<Rightarrow> None)"
    "field_value ''transfer-encoding'' (framing_fields fr) = (case fr of By_chunks cs \<Rightarrow> Some ''chunked'' | _ \<Rightarrow> None)"
    "field_value ''content-encoding'' (framing_fields fr) = None"
    by (cases fr; simp add: decimal_no_space del: list.map)+
qed

lemma response_headers:
  assumes "fields_ok fs"
  shows "vhttps_find_header (head_texts proto status reason (fs @ framing_fields fr)) ''content-length'' =
      (case fr of By_length b \<Rightarrow> Some (decimal_text (length b)) | _ \<Rightarrow> None)"
    "vhttps_find_header (head_texts proto status reason (fs @ framing_fields fr)) ''transfer-encoding'' =
      (case fr of By_chunks cs \<Rightarrow> Some ''chunked'' | _ \<Rightarrow> None)"
    "vhttps_find_header (head_texts proto status reason (fs @ framing_fields fr)) ''content-encoding'' = None"
proof -
  have n: "list_all (\<lambda>(k, v). no_colon k) (fs @ framing_fields fr)"
    using response_head_ok(2) [OF assms clean_Nil] .
  have "no_colon ''content-length''" "no_colon ''transfer-encoding''" "no_colon ''content-encoding''"
    by (simp_all add: no_colon_def)
  note f = this [THEN find_header_head, OF n]
  show "vhttps_find_header (head_texts proto status reason (fs @ framing_fields fr)) ''content-length'' =
      (case fr of By_length b \<Rightarrow> Some (decimal_text (length b)) | _ \<Rightarrow> None)"
    "vhttps_find_header (head_texts proto status reason (fs @ framing_fields fr)) ''transfer-encoding'' =
      (case fr of By_chunks cs \<Rightarrow> Some ''chunked'' | _ \<Rightarrow> None)"
    "vhttps_find_header (head_texts proto status reason (fs @ framing_fields fr)) ''content-encoding'' = None"
    unfolding f field_value_append framing_values using assms by (simp_all add: fields_ok_def)
qed

text \<open>The header is kept and the body is what the buffer holds after it.\<close>

definition holds_body :: "vhttps_internal \<Rightarrow> string \<Rightarrow> vhttps_internal \<Rightarrow> bool" where
  "holds_body hp b hp' \<longleftrightarrow> hp_resp hp' = hp_resp hp \<and> hp_body hp' = Body_rx (hp_prxbuf hp) \<and>
     hp_bodylen hp' = word_of_nat (length b) \<and> mem_get (hp_prxbuf hp) (length b) (hp_rxbuf hp') = b"

lemma grown_holds_body:
  "grown hp b hp' \<Longrightarrow> hp_body hp = Body_rx (hp_prxbuf hp) \<Longrightarrow> holds_body hp b (hp'\<lparr>hp_bodylen := word_of_nat (length b)\<rparr>)"
  by (auto simp: grown_def holds_body_def)

lemma swallow_response:
  assumes ok: "fields_ok fs" "framing_ok code fr" and d: "delivers evs" "payload evs = framed_text fr @ rest"
    and fin: "rest = [] \<or> (\<forall>b. fr \<noteq> By_close b)"
    and hp: "hp = after_head code reason (fs @ framing_fields fr) mem"
    and room: "hp_prxbuf hp + length (framed_text fr) + 1 < nrxbuf"
  shows "\<exists>evs' hp'. vhttps_swallow_body (hp_prxbuf hp) (code = 200) evs hp = Some (evs', hp') \<and> holds_body hp (framed_body fr) hp'"
proof -
  have r: "hp_resp hp = head_texts ''HTTP/1.1'' (decimal_text code) reason (fs @ framing_fields fr)"
    and b: "hp_body hp = Body_rx (hp_prxbuf hp)"
    by (simp_all add: hp after_head_def Let_def)
  note h = response_headers [OF ok(1), of "''HTTP/1.1''" "decimal_text code" reason fr, folded r]
  show ?thesis
  proof (cases fr)
    case (By_length s)
    obtain evs' where e: "vhttps_rxcharForSocket (int (length s)) evs hp = Some (1, evs', if s = [] then hp else rx_store s hp)"
      using rxchar_grown [OF d(1), of s rest hp] d(2) room By_length by auto
    have small: "length s < 2 ^ 31" using room By_length by (simp add: nrxbuf_def)
    then have n: "c_int (fst (strtoul 0 (decimal_text (length s)))) = int (length s)"
      by (subst strtoul_decimal) (simp_all add: c_int_of_nat)
    have "grown hp s (if s = [] then hp else rx_store s hp)" using grown_refl grown_store by simp
    from grown_holds_body [OF this b] show ?thesis
      unfolding vhttps_swallow_body_def h using By_length by (simp add: n e)
  next
    case (By_chunks cs)
    have "[] \<notin> set cs" using ok(2) By_chunks by simp
    then obtain evs' hp' where e: "rx_chunks evs hp = Some (0, evs', hp')" "grown hp (concat cs) hp'"
      using rx_chunks_delivers [OF d(1), of cs rest hp] d(2) room By_chunks by auto
    have "(word_of_nat (hp_prxbuf hp') - word_of_nat (hp_prxbuf hp) :: u32) = word_of_nat (length (concat cs))"
      using e(2) by (auto simp: grown_def)
    then show ?thesis
      using grown_holds_body [OF e(2) b] By_chunks unfolding vhttps_swallow_body_def h by (simp add: e(1))
  next
    case (By_close s)
    have bb: "hp\<lparr>hp_body := Body_rx (hp_prxbuf hp)\<rparr> = hp" using b by simp
    obtain hp' where e: "rx_to_eof 0 evs hp = Some (int (length s), [], hp')" "grown hp s hp'"
      using rx_to_eof_delivers [OF d(1), of hp 0] d(2) fin room By_close by auto
    show ?thesis
      using grown_holds_body [OF e(2) b] ok(2) By_close unfolding vhttps_swallow_body_def h by (simp add: bb e(1))
  qed
qed

text \<open>A response that the client reads completely.\<close>

definition response_fits :: "nat \<Rightarrow> string \<Rightarrow> http_field list \<Rightarrow> framing \<Rightarrow> bool" where
  "response_fits code reason fs fr \<longleftrightarrow> fields_ok fs \<and> clean reason \<and> framing_ok code fr \<and>
     length (http_response code reason fs fr) + 1 < nrxbuf"

lemma rxbody_response:
  assumes ok: "response_fits code reason fs fr" and d: "delivers evs" "payload evs = http_response code reason fs fr @ rest"
    and fin: "rest = [] \<or> (\<forall>b. fr \<noteq> By_close b)"
  shows "\<exists>evs' hp'. vhttps_rxbody inflate evs (vhttps_allocForSocket mem) = Some (0, evs', hp') \<and>
    hp_resp hp' = head_texts ''HTTP/1.1'' (decimal_text code) reason (fs @ framing_fields fr) \<and>
    body_bytes hp' = Some (framed_body fr) \<and> unat (hp_bodylen hp') = length (framed_body fr)"
proof -
  let ?fs = "fs @ framing_fields fr"
  let ?t = "http_head ''HTTP/1.1'' (decimal_text code) reason ?fs" and ?h = "after_head code reason ?fs mem"
  have f: "fields_ok fs" "clean reason" "framing_ok code fr" and room: "length ?t + length (framed_text fr) + 1 < nrxbuf"
    using ok by (simp_all add: response_fits_def http_response_def)
  obtain evs1 where s: "vhttps_rxbody inflate evs (vhttps_allocForSocket mem) =
      vhttps_swallow_body (length ?t) (code = 200) evs1 ?h \<bind> finish_body inflate"
    and d1: "delivers evs1" "payload evs1 = framed_text fr @ rest"
    using rxbody_head [where rest = "framed_text fr @ rest" and code = code and mem = mem and inflate = inflate,
        OF d(1) _ response_head_ok(1) [OF f(1,2), of code fr]] d(2) room
    by (auto simp: http_response_def)
  have p: "hp_prxbuf ?h = length ?t" by (simp add: after_head_def Let_def)
  obtain evs' hp' where w: "vhttps_swallow_body (length ?t) (code = 200) evs1 ?h = Some (evs', hp')"
    and b: "holds_body ?h (framed_body fr) hp'"
    using swallow_response [OF f(1,3) d1 fin refl, of reason mem] room p by auto
  have r: "hp_resp hp' = head_texts ''HTTP/1.1'' (decimal_text code) reason ?fs"
    using b by (simp add: holds_body_def after_head_def Let_def)
  have len: "length (framed_body fr) \<le> length (framed_text fr)"
  proof (cases fr)
    case (By_chunks cs)
    then show ?thesis using length_concat_chunks [of cs] by (simp add: chunked_text_def)
  qed simp_all
  then have u: "unat (hp_bodylen hp') = length (framed_body fr)"
    using b room by (simp add: holds_body_def unsigned_of_nat take_bit_nat_eq_self nrxbuf_def)
  have "body_bytes hp' = Some (framed_body fr)"
    using b u len room p by (simp add: body_bytes_def holds_body_def)
  moreover have "finish_body inflate (evs', hp') = Some (0, evs', hp')"
    using response_headers(3) [OF f(1)] by (simp add: finish_body_def r)
  ultimately show ?thesis using s w r u by auto
qed

section \<open>Compressed bodies\<close>

lemma gzip_loop_inflates:
  assumes "0 < outlen" and "outlen < 2 ^ 30" and "length s \<le> 2 ^ 28" and "again \<longrightarrow> outlen < length s"
    and "\<And>n. inflate n = (if length s \<le> n then Inflate_end s else Inflate_buf_error)"
  shows "gzip_loop inflate outlen again = Some (Some s)"
  using assms
proof (induction "2 ^ 30 - outlen" arbitrary: outlen again rule: less_induct)
  case less
  define n where "n = (if again then outlen * 10 else outlen)"
  have n: "0 < n" "n < 2 ^ 32" "outlen \<le> n" using less.prems(1-4) by (auto simp: n_def)
  have step: "gzip_loop inflate outlen again =
      (case inflate n of Inflate_end out \<Rightarrow> Some (Some out) | Inflate_buf_error \<Rightarrow> gzip_loop inflate n True | _ \<Rightarrow> Some None)"
    using less.prems(2) n(2) by (subst gzip_loop.simps) (simp add: Let_def n_def [symmetric])
  show ?case
  proof (cases "length s \<le> n")
    case True
    then show ?thesis using step less.prems(5) by simp
  next
    case False
    have "gzip_loop inflate n True = Some (Some s)"
    proof (cases again)
      case True
      then show ?thesis using False less.prems n by (intro less.hyps) (auto simp: n_def)
    next
      case again: False
      have "gzip_loop inflate n True = gzip_loop inflate (n * 10) True \<or> length s \<le> n * 10"
        using False less.prems(2,3,5) n again
        by (subst gzip_loop.simps) (auto simp: Let_def n_def)
      then show ?thesis
        using False less.prems n again by (cases "length s \<le> n * 10")
          (auto simp: n_def gzip_loop.simps [of inflate outlen True] intro!: less.hyps)
    qed
    then show ?thesis using step False less.prems(5) by simp
  qed
qed

text \<open>A compressed body that expands to at most 256 MiB is replaced by what it expands to; the loop that enlarges the
  output ends.\<close>

lemma rxbody_gzip_inflates:
  assumes "body_bytes hp = Some z" and "hp_bodylen hp \<noteq> 0" and "hp_body hp = Body_rx off" and "length s \<le> 2 ^ 28"
    and "\<And>n. inflate z n = (if length s \<le> n then Inflate_end s else Inflate_buf_error)"
  shows "vhttps_rxbody_gzip inflate hp = Some (0, hp\<lparr>hp_body := Body_gzip s, hp_bodylen := word_of_nat (length s)\<rparr>)"
    and "body_bytes (hp\<lparr>hp_body := Body_gzip s, hp_bodylen := word_of_nat (length s)\<rparr>) = Some s"
proof -
  have len: "unat (hp_bodylen hp) \<le> 2 ^ 20" "0 < unat (hp_bodylen hp)"
    using assms(1,2,3) by (auto simp: body_bytes_def nrxbuf_def unat_gt_0 split: if_splits)
  have "unat (hp_bodylen hp * 10) = unat (hp_bodylen hp) * 10"
    using len by (simp add: unat_word_ariths)
  then have o: "unat (hp_bodylen hp * 10) < 2 ^ 30" "0 < unat (hp_bodylen hp * 10)" using len by simp_all
  then have "gzip_loop (inflate z) (unat (hp_bodylen hp * 10)) False = Some (Some s)"
    using assms(4,5) by (intro gzip_loop_inflates) simp_all
  then show "vhttps_rxbody_gzip inflate hp = Some (0, hp\<lparr>hp_body := Body_gzip s, hp_bodylen := word_of_nat (length s)\<rparr>)"
    using assms(1,2) o by (simp add: vhttps_rxbody_gzip_def Let_def not_le)
  show "body_bytes (hp\<lparr>hp_body := Body_gzip s, hp_bodylen := word_of_nat (length s)\<rparr>) = Some s"
    using assms(4) by (simp add: body_bytes_def unsigned_of_nat take_bit_nat_eq_self)
qed

section \<open>The exchange\<close>

lemma atoi_decimal:
  assumes "n < 2 ^ 31"
  shows "atoi (decimal_text n) = int n"
proof -
  have v: "strip_sign (dropWhile is_space (num_text 10 n)) = (False, num_text 10 n)"
    "takeWhile (\<lambda>c. digit_val 10 c \<noteq> None) (num_text 10 n) = num_text 10 n" "digits_val 10 (num_text 10 n) = n"
    using strip_number [of 10 n "[]"] number_chars(1) [of 10 "[]" n] digits_val_num_text [of 10 n] by simp_all
  show ?thesis
    unfolding atoi_def decimal_num_text v prod.case Let_def if_False
    using assms c_int_of_nat [OF assms] by (simp add: min_def)
qed

definition connected :: "https_env \<Rightarrow> vhttps_req \<Rightarrow> string \<Rightarrow> bool" where
  "connected e req txt \<longleftrightarrow> he_open e (req_server req) \<and> he_connect e (req_domain req) \<and> he_write e txt"

text \<open>The fields that a response with these fields sets in the request.\<close>

definition answered_req :: "nat \<Rightarrow> http_field list \<Rightarrow> vhttps_req \<Rightarrow> vhttps_req" where
  "answered_req code fs req = req\<lparr>
     req_resp_status := (if req_f_need_resp_status req then int code else req_resp_status req),
     req_resp_mudband_etag := (if req_f_need_resp_mudband_etag req then
       (case field_value ''mudband-etag'' fs of None \<Rightarrow> req_resp_mudband_etag req | Some v \<Rightarrow> take 63 v)
       else req_resp_mudband_etag req)\<rparr>"

lemma etag_of_response:
  assumes "fields_ok fs"
  shows "vhttps_find_header (head_texts proto status reason (fs @ framing_fields fr)) ''mudband-etag'' = field_value ''mudband-etag'' fs"
proof -
  have "no_colon ''mudband-etag''" by (simp add: no_colon_def)
  moreover have "field_value ''mudband-etag'' (framing_fields fr) = None" by (cases fr; simp add: tolower_def char_val_def)
  ultimately show ?thesis
    using find_header_head [OF _ response_head_ok(2) [OF assms clean_Nil]] by (simp add: field_value_append split: option.splits)
qed

lemma answered_head:
  assumes "fields_ok fs" and "code < 2 ^ 31"
  shows "set_etag (head_texts proto (decimal_text code) reason (fs @ framing_fields fr))
      (set_status (head_texts proto (decimal_text code) reason (fs @ framing_fields fr)) req) = answered_req code fs req"
  using etag_of_response [OF assms(1), of proto "decimal_text code" reason fr] atoi_decimal [OF assms(2)]
  by (auto simp: set_etag_def set_status_def answered_req_def head_texts_def split: option.splits)

lemma exchange_response:
  assumes "connected e req txt" and "response_fits code reason fs fr" and "delivers (he_rx e)"
    and "payload (he_rx e) = http_response code reason fs fr @ rest" and "rest = [] \<or> (\<forall>b. fr \<noteq> By_close b)"
    and "length (framed_body fr) \<le> resplen"
  shows "vhttps_exchange inflate e req txt resplen =
    Some (Inr (head_texts ''HTTP/1.1'' (decimal_text code) reason (fs @ framing_fields fr), framed_body fr))"
proof -
  obtain evs' hp' where "vhttps_rxbody inflate (he_rx e) (vhttps_allocForSocket (he_mem e)) = Some (0, evs', hp')"
    "hp_resp hp' = head_texts ''HTTP/1.1'' (decimal_text code) reason (fs @ framing_fields fr)"
    "body_bytes hp' = Some (framed_body fr)" "unat (hp_bodylen hp') = length (framed_body fr)"
    using rxbody_response [OF assms(2-5)] by blast
  then show ?thesis using assms(1,6) by (simp add: vhttps_exchange_def connected_def)
qed

section \<open>Responses that end early or are too long\<close>

lemma rxchar_short:
  assumes "delivers evs" and "int (length (payload evs)) < n" and "int (hp_prxbuf hp) + n < int nrxbuf"
  shows "vhttps_rxcharForSocket n evs hp = Some (0, [], if payload evs = [] then hp else rx_store (payload evs) hp)"
  using assms
proof (induction n evs hp rule: vhttps_rxcharForSocket.induct)
  case (1 n evs hp)
  have n: "0 < nat n" "\<not> n \<le> 0" using "1.prems"(2) by auto
  note s = rx_select_delivers [OF "1.prems"(1)]
  show ?case
  proof (cases "payload evs = []")
    case True
    then have "evs = []" using payload_Nil "1.prems"(1) by blast
    then show ?thesis using n "1.prems"(3) by (simp add: vhttps_rxcharForSocket.simps [of n])
  next
    case False
    obtain bs evs2 where v: "VSSL_read (nat n) evs = (Some bs, evs2)" and bs: "bs \<noteq> []" "length bs \<le> nat n"
      and p: "payload evs = bs @ payload evs2" and d: "delivers evs2"
      by (rule VSSL_read_delivers [OF "1.prems"(1) False n(1)])
    have "vhttps_rxcharForSocket n evs hp = vhttps_rxcharForSocket (n - int (length bs)) evs2 (rx_store bs hp)"
      using "1.prems"(3) bs n by (simp add: vhttps_rxcharForSocket.simps [of n evs] s v)
    also have "\<dots> = Some (0, [], if payload evs2 = [] then rx_store bs hp else rx_store (payload evs2) (rx_store bs hp))"
      using "1.prems"(2,3) p d n(2) by (intro "1.IH" [OF _ s [symmetric] _ _ v [symmetric] refl bs(1)]) auto
    finally show ?thesis using p bs(1) by (simp add: rx_store_append)
  qed
qed

lemma mem_get_inside: "off + n \<le> length s \<Longrightarrow> mem_get off n (mem_put 0 s m) = take n (drop off s)"
  by (rule nth_equalityI) (auto simp: mem_get_def mem_put_def)

lemma mem_get_beyond: "length s \<le> off \<Longrightarrow> mem_get off n (mem_put 0 s m) = mem_get off n m"
  by (auto simp: mem_get_def mem_put_def)

definition length_field :: "nat \<Rightarrow> http_field" where
  "length_field n = (''Content-Length'', decimal_text n)"

text \<open>A response whose header announces a body of \<open>n\<close> bytes.\<close>

definition announces :: "nat \<Rightarrow> string \<Rightarrow> http_field list \<Rightarrow> nat \<Rightarrow> string" where
  "announces code reason fs n = http_head ''HTTP/1.1'' (decimal_text code) reason (fs @ [length_field n])"

lemma length_field_framing: "framing_fields (By_length (replicate n c)) = [length_field n]"
  by (simp add: length_field_def)

lemma announced_length:
  assumes "fields_ok fs" and "n < 2 ^ 31"
  shows "vhttps_swallow_body off b evs (after_head code reason (fs @ [length_field n]) mem) = do {
    (_, evs, hp) \<leftarrow> vhttps_rxcharForSocket (int n) evs (after_head code reason (fs @ [length_field n]) mem);
    Some (evs, hp\<lparr>hp_bodylen := word_of_nat n\<rparr>) }"
proof -
  have r: "hp_resp (after_head code reason (fs @ [length_field n]) mem) =
      head_texts ''HTTP/1.1'' (decimal_text code) reason (fs @ [length_field n])"
    by (simp add: after_head_def Let_def)
  note h = response_headers(1) [OF assms(1), where fr = "By_length (replicate n NUL)", unfolded length_field_framing]
  have "c_int (fst (strtoul 0 (decimal_text n))) = int n"
    using assms(2) by (subst strtoul_decimal) (simp_all add: c_int_of_nat)
  then show ?thesis unfolding vhttps_swallow_body_def r h by (simp add: Let_def)
qed

lemma rxbody_announced:
  assumes f: "fields_ok fs" "clean reason" and n: "n < 2 ^ 31" and d: "delivers evs" "payload evs = announces code reason fs n @ rest"
    and room: "length (announces code reason fs n) < nrxbuf"
  shows "\<exists>evs'. vhttps_rxbody inflate evs (vhttps_allocForSocket mem) = do {
      (_, evs, hp) \<leftarrow> vhttps_rxcharForSocket (int n) evs' (after_head code reason (fs @ [length_field n]) mem);
      finish_body inflate (evs, hp\<lparr>hp_bodylen := word_of_nat n\<rparr>) } \<and>
    delivers evs' \<and> payload evs' = rest"
proof -
  note h = response_head_ok(1) [OF f, where fr = "By_length (replicate n NUL)" and code = code, unfolded length_field_framing]
  obtain evs' where "vhttps_rxbody inflate evs (vhttps_allocForSocket mem) =
      vhttps_swallow_body (length (announces code reason fs n)) (code = 200) evs' (after_head code reason (fs @ [length_field n]) mem)
        \<bind> finish_body inflate" "delivers evs'" "payload evs' = rest"
    using rxbody_head [where rest = rest and mem = mem and inflate = inflate, OF d(1) _ h] d(2) room unfolding announces_def by blast
  then show ?thesis
    unfolding announced_length [OF f(1) n] by (auto simp: case_prod_unfold)
qed

lemma exchange_too_long:
  assumes "connected e req txt" and "fields_ok fs" and "clean reason" and "n < 2 ^ 31"
    and "delivers (he_rx e)" and "payload (he_rx e) = announces code reason fs n @ rest"
    and "length (announces code reason fs n) < nrxbuf" and "nrxbuf \<le> length (announces code reason fs n) + n"
  shows "vhttps_exchange inflate e req txt resplen = None"
proof -
  obtain evs' where b: "vhttps_rxbody inflate (he_rx e) (vhttps_allocForSocket (he_mem e)) = do {
      (_, evs, hp) \<leftarrow> vhttps_rxcharForSocket (int n) evs' (after_head code reason (fs @ [length_field n]) (he_mem e));
      finish_body inflate (evs, hp\<lparr>hp_bodylen := word_of_nat n\<rparr>) }" and d: "delivers evs'"
    using rxbody_announced [OF assms(2-7)] by blast
  have "hp_prxbuf (after_head code reason (fs @ [length_field n]) (he_mem e)) = length (announces code reason fs n)"
    by (simp add: after_head_def announces_def Let_def)
  then have "vhttps_rxcharForSocket (int n) evs' (after_head code reason (fs @ [length_field n]) (he_mem e)) = None"
    using assms(7,8) rx_select_delivers [OF d] by (simp add: vhttps_rxcharForSocket.simps [of "int n"])
  then show ?thesis using assms(1) by (simp add: vhttps_exchange_def connected_def b)
qed

lemma exchange_short_body:
  assumes "connected e req txt" and "fields_ok fs" and "clean reason"
    and "delivers (he_rx e)" and "payload (he_rx e) = announces code reason fs n @ part" and "length part < n"
    and "length (announces code reason fs n) + n < nrxbuf" and "n \<le> resplen"
  shows "vhttps_exchange inflate e req txt resplen = Some (Inr (head_texts ''HTTP/1.1'' (decimal_text code) reason (fs @ [length_field n]),
    part @ NUL # mem_get (length (announces code reason fs n) + length part + 1) (n - length part - 1) (he_mem e)))"
proof -
  let ?t = "announces code reason fs n" and ?h = "after_head code reason (fs @ [length_field n]) (he_mem e)"
  have n: "n < 2 ^ 31" and room: "length ?t < nrxbuf" using assms(7) by (simp_all add: nrxbuf_def)
  obtain evs' where b: "vhttps_rxbody inflate (he_rx e) (vhttps_allocForSocket (he_mem e)) = do {
      (_, evs, hp) \<leftarrow> vhttps_rxcharForSocket (int n) evs' ?h;
      finish_body inflate (evs, hp\<lparr>hp_bodylen := word_of_nat n\<rparr>) }" and d: "delivers evs'" "payload evs' = part"
    using rxbody_announced [OF assms(2,3) n assms(4,5) room] by blast
  define h1 where "h1 = (if part = [] then ?h else rx_store part ?h)"
  have p: "hp_prxbuf ?h = length ?t" "hp_rxbuf ?h = mem_put 0 (?t @ [NUL]) (he_mem e)"
    by (simp_all add: after_head_def announces_def Let_def)
  have "vhttps_rxcharForSocket (int n) evs' ?h = Some (0, [], h1)"
    using rxchar_short [OF d(1), of "int n" ?h] assms(6,7) d(2) p(1) unfolding h1_def by simp
  moreover have "mem_put (length ?t) (part @ [NUL]) (mem_put 0 (?t @ [NUL]) (he_mem e)) = mem_put 0 (?t @ part @ [NUL]) (he_mem e)"
    unfolding mem_put_append [of 0 ?t] by (simp add: mem_put_overwrite)
  then have m: "hp_rxbuf h1 = mem_put 0 (?t @ part @ [NUL]) (he_mem e)"
    unfolding h1_def rx_store_def using p by simp
  have f: "hp_resp h1 = head_texts ''HTTP/1.1'' (decimal_text code) reason (fs @ [length_field n])" "hp_body h1 = Body_rx (length ?t)"
    by (simp_all add: h1_def after_head_def announces_def Let_def)
  note hd = response_headers(3) [OF assms(2), where fr = "By_length (replicate n NUL)", unfolded length_field_framing]
  have "finish_body inflate ([], h1\<lparr>hp_bodylen := word_of_nat n\<rparr>) = Some (0, [], h1\<lparr>hp_bodylen := word_of_nat n\<rparr>)"
    by (simp add: finish_body_def f hd)
  moreover have u: "unat (word_of_nat n :: u32) = n" using n by (simp add: unsigned_of_nat take_bit_nat_eq_self)
  have split: "n = (length part + 1) + (n - length part - 1)" using assms(6) by simp
  have "mem_get (length ?t) n (hp_rxbuf h1) =
      part @ NUL # mem_get (length ?t + length part + 1) (n - length part - 1) (he_mem e)"
    by (subst split, subst mem_get_append) (simp add: m mem_get_inside mem_get_beyond)
  then have "body_bytes (h1\<lparr>hp_bodylen := word_of_nat n\<rparr>) =
      Some (part @ NUL # mem_get (length ?t + length part + 1) (n - length part - 1) (he_mem e))"
    using assms(7) by (simp add: body_bytes_def f u)
  ultimately show ?thesis
    using assms(1,8) u f(1) by (simp add: vhttps_exchange_def connected_def b)
qed

lemma rxchunk_closed: "hp_prxbuf hp + 1 < nrxbuf \<Longrightarrow> vhttps_rxchunk [] hp = Some (0, [], hp)"
  by (simp add: vhttps_rxchunk_def rx_until.simps vhttps_rxcharForSocket.simps Let_def)

lemma rxchunk_broken:
  assumes d: "delivers evs" "payload evs = num_text 16 n @ crlf @ part" and n: "length part < n" "n < 2 ^ 31"
    and room: "hp_prxbuf hp + length (num_text 16 n) + 2 < nrxbuf" "hp_prxbuf hp + n < nrxbuf"
  shows "\<exists>evs' hp'. vhttps_rxchunk evs hp = Some (-1, evs', hp') \<and> hp_bodylen hp' = hp_bodylen hp \<and> hp_body hp' = hp_body hp \<and> hp_resp hp' = hp_resp hp"
proof -
  let ?l = "hp_prxbuf hp" and ?z = "num_text 16 n @ crlf"
  obtain evs1 where u: "rx_until line_complete evs hp = Some (1, evs1, rx_store ?z hp)"
    and d1: "delivers evs1" "payload evs1 = part" using size_line_delivers [OF d room(1)] by blast
  note s = size_line_text [of hp n]
  have z: "strtoul 16 ?z = (word_of_nat n, crlf)" using n(2) by (intro strtoul_hex) simp
  note i = c_int_of_nat [OF n(2)]
  define h1 where "h1 = (rx_store ?z hp)\<lparr>hp_prxbuf := ?l\<rparr>"
  have "vhttps_rxcharForSocket (int n) evs1 h1 = Some (0, [], if part = [] then h1 else rx_store part h1)"
    using rxchar_short [OF d1(1), of "int n" h1] d1(2) n(1) room(2) by (simp add: h1_def)
  then have "vhttps_rxchunk evs hp = Some (-1, [], if part = [] then h1 else rx_store part h1)"
    unfolding vhttps_rxchunk_def Let_def u bind.bind_lunit prod.case s z i h1_def [symmetric]
    using num_text_ne [of 16 n] hd_crlf by simp
  then show ?thesis by (simp add: h1_def)
qed

lemma broken_chunks_read:
  assumes d: "delivers evs" "payload evs = concat (map chunk_text cs) @ tail" and cs: "[] \<notin> set cs"
    and tl: "tail = [] \<or> tail = num_text 16 (length c) @ crlf @ part" and c: "length part < length c"
    and room: "hp_prxbuf hp + length (concat (map chunk_text cs)) + length tail + length c < nrxbuf"
  shows "\<exists>i evs' hp'. rx_chunks evs hp = Some (i, evs', hp') \<and> hp_bodylen hp' = hp_bodylen hp \<and> hp_body hp' = hp_body hp \<and>
    hp_resp hp' = hp_resp hp \<and> (if tail = [] then i = 0 \<and> grown hp (concat cs) hp' else i = -1)"
proof -
  obtain evs2 hp2 where c2: "rx_chunks evs hp = rx_chunks evs2 hp2" "delivers evs2" "payload evs2 = tail" and g: "grown hp (concat cs) hp2"
    using rx_chunks_prefix [OF d, of hp] room cs by auto
  have f: "hp_bodylen hp2 = hp_bodylen hp" "hp_body hp2 = hp_body hp" "hp_resp hp2 = hp_resp hp" using g by (auto simp: grown_def)
  note g' = grown_prxbuf [OF g] and lc = length_concat_chunks [of cs]
  show ?thesis
  proof (cases "tail = []")
    case True
    then have "evs2 = []" using payload_Nil c2 by blast
    moreover have "hp_prxbuf hp2 + 1 < nrxbuf" using g' lc room c by linarith
    ultimately have "rx_chunks evs hp = Some (0, [], hp2)"
      using c2(1) rxchunk_closed [of hp2] by (simp add: rx_chunks.simps [of "[]"])
    then show ?thesis using f g True by simp
  next
    case False
    then have t: "payload evs2 = num_text 16 (length c) @ crlf @ part" using tl c2(3) by blast
    have "hp_prxbuf hp2 + length (num_text 16 (length c)) + 2 < nrxbuf" "hp_prxbuf hp2 + length c < nrxbuf" "length c < 2 ^ 31"
      using room g' lc c t c2(3) by (auto simp: crlf_def nrxbuf_def)
    then obtain evs3 hp3 where b3: "vhttps_rxchunk evs2 hp2 = Some (-1, evs3, hp3)"
        "hp_bodylen hp3 = hp_bodylen hp2" "hp_body hp3 = hp_body hp2" "hp_resp hp3 = hp_resp hp2"
      using rxchunk_broken [OF c2(2) t c] by blast
    then have "rx_chunks evs hp = Some (-1, evs3, hp3)" by (simp add: c2(1) rx_chunks.simps [of evs2])
    then show ?thesis using False f b3 by simp
  qed
qed

lemma swallow_chunks:
  assumes "fields_ok fs" and "hp_resp hp = head_texts ''HTTP/1.1'' (decimal_text code) reason (fs @ framing_fields (By_chunks cs))"
  shows "vhttps_swallow_body off b evs hp = do {
    (i, evs, hp) \<leftarrow> rx_chunks evs hp;
    if i < 0 then Some (evs, hp) else Some (evs, hp\<lparr>hp_bodylen := word_of_int (int (hp_prxbuf hp) - int off)\<rparr>) }"
  unfolding vhttps_swallow_body_def assms(2) response_headers [OF assms(1)] by simp

lemma exchange_broken_chunks:
  assumes "connected e req txt" and "fields_ok fs" and "clean reason" and "[] \<notin> set cs"
    and "delivers (he_rx e)"
    and "payload (he_rx e) = http_head ''HTTP/1.1'' (decimal_text code) reason (fs @ [(''Transfer-Encoding'', ''chunked'')]) @
      concat (map chunk_text cs) @ tail"
    and "tail = [] \<or> tail = num_text 16 (length c) @ crlf @ part" and "length part < length c"
    and "length (payload (he_rx e)) + length c < nrxbuf" and "length (concat cs) \<le> resplen"
  shows "vhttps_exchange inflate e req txt resplen = Some (Inr (head_texts ''HTTP/1.1'' (decimal_text code) reason (fs @ framing_fields (By_chunks cs)),
    if tail = [] then concat cs else []))"
proof -
  define fs' where "fs' = fs @ framing_fields (By_chunks cs)"
  let ?t = "http_head ''HTTP/1.1'' (decimal_text code) reason fs'" and ?h = "after_head code reason fs' (he_mem e)"
  let ?hh = "head_texts ''HTTP/1.1'' (decimal_text code) reason fs'"
  have pl: "payload (he_rx e) = ?t @ concat (map chunk_text cs) @ tail" using assms(6) by (simp add: fs'_def)
  have room: "length ?t + length (concat (map chunk_text cs)) + length tail + length c < nrxbuf" using assms(9) by (simp add: pl)
  have ok: "head_ok ''HTTP/1.1'' (decimal_text code) reason fs'" unfolding fs'_def by (rule response_head_ok(1) [OF assms(2,3)])
  obtain evs1 where b: "vhttps_rxbody inflate (he_rx e) (vhttps_allocForSocket (he_mem e)) =
      vhttps_swallow_body (length ?t) (code = 200) evs1 ?h \<bind> finish_body inflate"
    and d: "delivers evs1" "payload evs1 = concat (map chunk_text cs) @ tail"
    using rxbody_head [where inflate = inflate and mem = "he_mem e", OF assms(5) pl ok] room by auto
  have p: "hp_prxbuf ?h = length ?t" "hp_resp ?h = ?hh" "hp_body ?h = Body_rx (length ?t)" "hp_bodylen ?h = 0"
    by (simp_all add: after_head_def Let_def)
  obtain i evs2 hp2 where r: "rx_chunks evs1 ?h = Some (i, evs2, hp2)" and f: "hp_bodylen hp2 = 0" "hp_body hp2 = Body_rx (length ?t)"
      "hp_resp hp2 = ?hh" and g: "if tail = [] then i = 0 \<and> grown ?h (concat cs) hp2 else i = -1"
    using broken_chunks_read [OF d assms(4,7,8), of ?h] room p by auto
  define h3 where "h3 = (if tail = [] then hp2\<lparr>hp_bodylen := word_of_nat (length (concat cs))\<rparr> else hp2)"
  have "tail = [] \<Longrightarrow> (word_of_nat (hp_prxbuf hp2) - word_of_nat (length ?t) :: u32) = word_of_nat (length (concat cs))"
    using g grown_prxbuf p(1) by fastforce
  then have w: "vhttps_swallow_body (length ?t) (code = 200) evs1 ?h = Some (evs2, h3)"
    unfolding swallow_chunks [OF assms(2) p(2) [unfolded fs'_def], folded fs'_def] h3_def using r g by (auto split: if_splits)
  have "length (concat cs) < 2 ^ 32" "length ?t + length (concat cs) \<le> nrxbuf"
    using room length_concat_chunks [of cs] by (auto simp: nrxbuf_def)
  then have u: "unat (hp_bodylen h3) = length (if tail = [] then concat cs else [])"
    and body: "body_bytes h3 = Some (if tail = [] then concat cs else [])"
    using g p f by (auto simp: h3_def body_bytes_def grown_def mem_get_def unsigned_of_nat take_bit_nat_eq_self split: if_splits)
  have h3: "hp_resp h3 = ?hh" using f by (simp add: h3_def)
  then have "finish_body inflate (evs2, h3) = Some (0, evs2, h3)"
    by (simp add: finish_body_def response_headers(3) [OF assms(2), where fr = "By_chunks cs", folded fs'_def])
  then show ?thesis
    using assms(1,10) u body h3 w by (simp add: vhttps_exchange_def connected_def b fs'_def [symmetric] del: framing_fields.simps)
qed

section \<open>The calls as a contract\<close>

text \<open>What the two calls share: they send their text, hand over what the exchange gives and set fields of the request from
  the header.\<close>

locale https_call =
  fixes call :: "(string \<Rightarrow> nat \<Rightarrow> inflate_result) \<Rightarrow> https_env \<Rightarrow> vhttps_req \<Rightarrow> nat \<Rightarrow> https_result option"
    and text_of :: "vhttps_req \<Rightarrow> string"
    and set_of :: "string option list \<Rightarrow> vhttps_req \<Rightarrow> vhttps_req"
  assumes call_undefined: "vhttps_exchange inflate e req (text_of req) resplen = None \<Longrightarrow> call inflate e req resplen = None"
    and call_failed: "vhttps_exchange inflate e req (text_of req) resplen = Some (Inl sent) \<Longrightarrow>
      call inflate e req resplen = Some (-1, sent, req, None)"
    and call_ok: "vhttps_exchange inflate e req (text_of req) resplen = Some (Inr (hh, bs)) \<Longrightarrow>
      call inflate e req resplen = Some (0, Some (text_of req), set_of hh req, Some bs)"
begin

lemma unreachable: "\<not> he_open e (req_server req) \<Longrightarrow> call inflate e req resplen = Some (-1, None, req, None)"
  by (rule call_failed) (simp add: vhttps_exchange_def)

lemma response_received:
  assumes "connected e req (text_of req)" and "response_fits code reason fs fr" and "delivers (he_rx e)"
    and "payload (he_rx e) = http_response code reason fs fr" and "length (framed_body fr) \<le> resplen"
  shows "call inflate e req resplen = Some (0, Some (text_of req),
    set_of (head_texts ''HTTP/1.1'' (decimal_text code) reason (fs @ framing_fields fr)) req, Some (framed_body fr))"
  by (rule call_ok, rule exchange_response [OF assms(1-3) _ _ assms(5), of "[]"]) (simp_all add: assms(4))

lemma too_long:
  assumes "connected e req (text_of req)" and "fields_ok fs" and "clean reason" and "n < 2 ^ 31"
    and "delivers (he_rx e)" and "payload (he_rx e) = announces code reason fs n @ rest"
    and "length (announces code reason fs n) < nrxbuf" and "nrxbuf \<le> length (announces code reason fs n) + n"
  shows "call inflate e req resplen = None"
  by (rule call_undefined, rule exchange_too_long [OF assms])

lemma short_body:
  assumes "connected e req (text_of req)" and "fields_ok fs" and "clean reason"
    and "delivers (he_rx e)" and "payload (he_rx e) = announces code reason fs n @ part" and "length part < n"
    and "length (announces code reason fs n) + n < nrxbuf" and "n \<le> resplen"
  shows "call inflate e req resplen = Some (0, Some (text_of req),
    set_of (head_texts ''HTTP/1.1'' (decimal_text code) reason (fs @ [length_field n])) req,
    Some (part @ NUL # mem_get (length (announces code reason fs n) + length part + 1) (n - length part - 1) (he_mem e)))"
  by (rule call_ok, rule exchange_short_body [OF assms])

lemma broken_chunks:
  assumes "connected e req (text_of req)" and "fields_ok fs" and "clean reason" and "[] \<notin> set cs" and "delivers (he_rx e)"
    and "payload (he_rx e) = http_head ''HTTP/1.1'' (decimal_text code) reason (fs @ [(''Transfer-Encoding'', ''chunked'')]) @
      concat (map chunk_text cs) @ tail"
    and "tail = [] \<or> tail = num_text 16 (length c) @ crlf @ part" and "length part < length c"
    and "length (payload (he_rx e)) + length c < nrxbuf" and "length (concat cs) \<le> resplen"
  shows "call inflate e req resplen = Some (0, Some (text_of req),
    set_of (head_texts ''HTTP/1.1'' (decimal_text code) reason (fs @ framing_fields (By_chunks cs))) req,
    Some (if tail = [] then concat cs else []))"
  by (rule call_ok, rule exchange_broken_chunks [OF assms])

end

interpretation get_call: https_call VHTTPS_get get_text set_status
  by unfold_locales (simp_all add: VHTTPS_get_def)

interpretation post_call: https_call VHTTPS_post post_text "\<lambda>hh req. set_etag hh (set_status hh req)"
  by unfold_locales (simp_all add: VHTTPS_post_def)

lemma post_response:
  assumes "connected e req (post_text req)" and "response_fits code reason fs fr" and "code < 2 ^ 31"
    and "delivers (he_rx e)" and "payload (he_rx e) = http_response code reason fs fr" and "length (framed_body fr) \<le> resplen"
  shows "VHTTPS_post inflate e req resplen = Some (0, Some (post_text req), answered_req code fs req, Some (framed_body fr))"
proof -
  have "fields_ok fs" using assms(2) by (simp add: response_fits_def)
  note answered_head [OF this assms(3)]
  then show ?thesis using post_call.response_received [OF assms(1,2,4-6)] by simp
qed

lemma get_response:
  assumes "connected e req (get_text req)" and "response_fits code reason fs fr" and "code < 2 ^ 31"
    and "delivers (he_rx e)" and "payload (he_rx e) = http_response code reason fs fr" and "length (framed_body fr) \<le> resplen"
  shows "VHTTPS_get inflate e req resplen = Some (0, Some (get_text req),
    req\<lparr>req_resp_status := (if req_f_need_resp_status req then int code else req_resp_status req)\<rparr>, Some (framed_body fr))"
  using get_call.response_received [OF assms(1,2,4-6)] atoi_decimal [OF assms(3)]
  by (simp add: set_status_def head_texts_def)

section \<open>What the calls give\<close>

text \<open>
  C13: a response is received as it was sent, however the connection divides it: a client that has sent its request
  gets the status, the \<open>etag\<close> and exactly the body, whether the server gives the length of the body, sends it in
  chunks or closes the connection after it (with status 200), provided the response fits into the buffers and has at
  most 45 other lines, none of them about the encoding.
\<close>

theorem https_response_received:
  assumes "connected e req (post_text req)" and "response_fits code reason fs fr" and "code < 2 ^ 31"
    and "delivers (he_rx e)" and "payload (he_rx e) = http_response code reason fs fr" and "length (framed_body fr) \<le> resplen"
  shows "VHTTPS_post inflate e req resplen = Some (0, Some (post_text req), answered_req code fs req, Some (framed_body fr))"
  using assms by (rule post_response)

definition req_demo :: vhttps_req where
  "req_demo = \<lparr>req_f_need_resp_mudband_etag = True, req_f_need_resp_status = True, req_server = ''s:443'', req_domain = ''s'',
     req_url = ''/'', req_hdrs = None, req_body = ''{}'', req_bodylen = 2, req_resp_status = 0, req_resp_mudband_etag = []\<rparr>"

text \<open>A server that sends a text in two portions and closes the connection.\<close>

definition server_demo :: "string \<Rightarrow> https_env" where
  "server_demo t = \<lparr>he_open = (\<lambda>_. True), he_connect = (\<lambda>_. True), he_write = (\<lambda>_. True),
     he_rx = [Rx_bytes (take 5 t), Rx_bytes (drop 5 t)], he_mem = (\<lambda>_. CHR ''m'')\<rparr>"

definition fields_demo :: "http_field list" where
  "fields_demo = [(''Mudband-Etag'', ''v1'')]"

lemma connected_demo: "connected (server_demo t) req_demo txt"
  by (simp add: connected_def server_demo_def)

lemma delivers_demo:
  "5 < length t \<Longrightarrow> delivers (he_rx (server_demo t))" "payload (he_rx (server_demo t)) = t"
  by (auto simp: server_demo_def delivers_Cons)

lemma fields_demo_ok: "fields_ok fields_demo" "clean ''OK''"
  by code_simp+

lemma answered_demo: "answered_req 200 fields_demo req_demo = req_demo\<lparr>req_resp_status := 200, req_resp_mudband_etag := ''v1''\<rparr>"
proof -
  have "field_value ''mudband-etag'' fields_demo = Some ''v1''" by code_simp
  then show ?thesis by (simp add: answered_req_def req_demo_def)
qed

theorem https_response_received_witness:
  "VHTTPS_post (\<lambda>_ _. Inflate_failed) (server_demo (http_response 200 ''OK'' fields_demo (By_chunks [''ab'', ''c'']))) req_demo 1024 =
     Some (0, Some (post_text req_demo), req_demo\<lparr>req_resp_status := 200, req_resp_mudband_etag := ''v1''\<rparr>, Some ''abc'')"
proof -
  let ?r = "http_response 200 ''OK'' fields_demo (By_chunks [''ab'', ''c''])"
  have l: "length ?r = 83" by code_simp
  then have "response_fits 200 ''OK'' fields_demo (By_chunks [''ab'', ''c''])"
    using fields_demo_ok by (simp add: response_fits_def nrxbuf_def)
  from https_response_received [OF connected_demo this _ delivers_demo(1) delivers_demo(2)] l
  show ?thesis by (simp add: answered_demo)
qed

text \<open>
  a response whose body is as long as announced or longer than the buffer has room for stops the client: the length
  that a server announces is compared with the rest of the buffer by an assertion only.
\<close>

theorem content_length_abort:
  assumes "connected e req (post_text req)" and "fields_ok fs" and "clean reason" and "n < 2 ^ 31"
    and "delivers (he_rx e)" and "payload (he_rx e) = announces code reason fs n @ rest"
    and "length (announces code reason fs n) < nrxbuf" and "nrxbuf \<le> length (announces code reason fs n) + n"
  shows "VHTTPS_post inflate e req resplen = None"
  using assms by (rule post_call.too_long)

theorem content_length_abort_witness:
  "VHTTPS_post (\<lambda>_ _. Inflate_failed) (server_demo (announces 200 ''OK'' fields_demo 1048576)) req_demo 4096 = None"
proof (rule content_length_abort [OF connected_demo fields_demo_ok _ delivers_demo(1)])
  let ?t = "announces 200 ''OK'' fields_demo 1048576"
  have "char_of (48 :: nat) = CHR ''0''" "char_of (49 :: nat) = CHR ''1''" "char_of (52 :: nat) = CHR ''4''" "char_of (53 :: nat) = CHR ''5''"
    "char_of (54 :: nat) = CHR ''6''" "char_of (55 :: nat) = CHR ''7''" "char_of (56 :: nat) = CHR ''8''" by code_simp+
  then have "decimal_text 1048576 = ''1048576''" by (simp add: decimal_text.simps)
  then have "?t = http_head ''HTTP/1.1'' (decimal_text 200) ''OK'' (fields_demo @ [(''Content-Length'', ''1048576'')])"
    by (simp add: announces_def length_field_def)
  moreover have "length (http_head ''HTTP/1.1'' (decimal_text 200) ''OK'' (fields_demo @ [(''Content-Length'', ''1048576'')])) = 62"
    by code_simp
  ultimately have l: "length ?t = 62" by (simp only:)
  then show "5 < length ?t" "length ?t < nrxbuf" "nrxbuf \<le> length ?t + 1048576" by (simp_all add: nrxbuf_def)
  show "payload (he_rx (server_demo ?t)) = ?t @ []" by (simp add: delivers_demo(2))
qed simp

text \<open>
  C37: a body that ends early counts as complete: if the server announces \<open>n\<close> bytes and closes the connection after
  fewer, the call succeeds and gives \<open>n\<close> bytes, which continue with a NUL and with what the memory of the receive
  buffer held before.
\<close>

theorem short_body_accepted:
  assumes "connected e req (post_text req)" and "fields_ok fs" and "clean reason" and "code < 2 ^ 31"
    and "delivers (he_rx e)" and "payload (he_rx e) = announces code reason fs n @ part" and "length part < n"
    and "length (announces code reason fs n) + n < nrxbuf" and "n \<le> resplen"
  shows "VHTTPS_post inflate e req resplen = Some (0, Some (post_text req), answered_req code fs req,
    Some (part @ NUL # mem_get (length (announces code reason fs n) + length part + 1) (n - length part - 1) (he_mem e)))"
  using post_call.short_body [OF assms(1-3,5-9)]
  by (simp only: answered_head [OF assms(2,4), where fr = "By_length (replicate n NUL)", unfolded length_field_framing])

theorem short_body_accepted_witness:
  "VHTTPS_post (\<lambda>_ _. Inflate_failed) (server_demo (announces 200 ''OK'' fields_demo 6 @ ''ab'')) req_demo 1024 =
     Some (0, Some (post_text req_demo), req_demo\<lparr>req_resp_status := 200, req_resp_mudband_etag := ''v1''\<rparr>, Some (''ab'' @ NUL # ''mmm''))"
proof -
  let ?t = "announces 200 ''OK'' fields_demo 6"
  have l: "length ?t = 56" by code_simp
  have m: "mem_get 59 3 (he_mem (server_demo (?t @ ''ab''))) = ''mmm''"
    by (simp add: server_demo_def mem_get_def upt_conv_Cons)
  have "VHTTPS_post (\<lambda>_ _. Inflate_failed) (server_demo (?t @ ''ab'')) req_demo 1024 = Some (0, Some (post_text req_demo), answered_req 200 fields_demo req_demo,
      Some (''ab'' @ NUL # mem_get (length ?t + length ''ab'' + 1) (6 - length ''ab'' - 1) (he_mem (server_demo (?t @ ''ab'')))))"
    by (rule short_body_accepted [OF connected_demo fields_demo_ok _ delivers_demo(1) delivers_demo(2)]) (simp_all add: l nrxbuf_def)
  then show ?thesis using m by (simp add: answered_demo l)
qed

text \<open>
  a body in chunks that breaks off counts as complete: if the connection ends inside a chunk, the call succeeds with
  an empty body, whatever was received before; if it ends after a chunk, the call succeeds with the chunks so far.
\<close>

theorem broken_chunks_accepted:
  assumes "connected e req (post_text req)" and "fields_ok fs" and "clean reason" and "code < 2 ^ 31" and "[] \<notin> set cs"
    and "delivers (he_rx e)"
    and "payload (he_rx e) = http_head ''HTTP/1.1'' (decimal_text code) reason (fs @ [(''Transfer-Encoding'', ''chunked'')]) @
      concat (map chunk_text cs) @ tail"
    and "tail = [] \<or> tail = num_text 16 (length c) @ crlf @ part" and "length part < length c"
    and "length (payload (he_rx e)) + length c < nrxbuf" and "length (concat cs) \<le> resplen"
  shows "VHTTPS_post inflate e req resplen =
    Some (0, Some (post_text req), answered_req code fs req, Some (if tail = [] then concat cs else []))"
  using post_call.broken_chunks [OF assms(1-3,5-11)]
  by (simp only: answered_head [OF assms(2,4), where fr = "By_chunks cs"])

theorem broken_chunks_accepted_witness:
  "VHTTPS_post (\<lambda>_ _. Inflate_failed) (server_demo (http_head ''HTTP/1.1'' (decimal_text 200) ''OK''
      (fields_demo @ [(''Transfer-Encoding'', ''chunked'')]) @ concat (map chunk_text [''ab'']) @ num_text 16 4 @ crlf @ ''cd'')) req_demo 1024 =
     Some (0, Some (post_text req_demo), req_demo\<lparr>req_resp_status := 200, req_resp_mudband_etag := ''v1''\<rparr>, Some [])"
proof -
  let ?tail = "num_text 16 (length ''cdef'') @ crlf @ ''cd''"
  let ?t = "http_head ''HTTP/1.1'' (decimal_text 200) ''OK''
      (fields_demo @ [(''Transfer-Encoding'', ''chunked'')]) @ concat (map chunk_text [''ab'']) @ ?tail"
  have l: "length ?t = 77" by code_simp
  have p: "payload (he_rx (server_demo ?t)) = ?t" by (rule delivers_demo(2))
  have "VHTTPS_post (\<lambda>_ _. Inflate_failed) (server_demo ?t) req_demo 1024 = Some (0, Some (post_text req_demo),
      answered_req 200 fields_demo req_demo, Some (if ?tail = [] then concat [''ab''] else []))"
  proof (rule broken_chunks_accepted [OF connected_demo fields_demo_ok _ _ delivers_demo(1) p])
    show "length (payload (he_rx (server_demo ?t))) + length ''cdef'' < nrxbuf" unfolding p l by (simp add: nrxbuf_def)
    show "5 < length ?t" unfolding l by simp
    show "length ''cd'' < length ''cdef''" by code_simp
    show "?tail = [] \<or> ?tail = num_text 16 (length ''cdef'') @ crlf @ ''cd''" by blast
  qed simp_all
  moreover have "length ''cdef'' = 4" by simp
  ultimately show ?thesis by (simp only: answered_demo num_text_ne append_is_Nil_conv simp_thms if_False)
qed

end
