(* ===== verification/Https_Fetch.thy ===== *)
theory Https_Fetch
  imports Tasks Vhttps_Response
begin

text \<open>
  The fetch of the configuration over the HTTPS client: what \<open>CNF_fetch\<close> gets from \<open>VHTTPS_post\<close> when the server sends
  an HTTP response.
\<close>

text \<open>The call in \<open>CNF_fetch\<close>: the request, the call with room for 1 MiB, and the text that is parsed, which ends at
  the first NUL.\<close>

definition fetch_post ::
  "(string \<Rightarrow> nat \<Rightarrow> inflate_result) \<Rightarrow> json_lib \<Rightarrow> https_env \<Rightarrow> string \<Rightarrow> fetch_input \<Rightarrow>
   'a fetch_state_scheme \<Rightarrow> (int \<times> string \<times> nat \<times> json option) option option" where
  "fetch_post inflate jl e fetch_type inp st = do {
     (req, _) \<leftarrow> fetch_make jl fetch_type inp st;
     (r, _, req, body) \<leftarrow> VHTTPS_post inflate e req (1024 * 1024);
     Some (if r = -1 then None else
       case body of None \<Rightarrow> None
       | Some bs \<Rightarrow> Some (req_resp_status req, req_resp_mudband_etag req, length bs, jl_loads jl (cstr bs))) }"

text \<open>\<open>CNF_fetch\<close> with this answer.\<close>

definition CNF_fetch_https ::
  "(string \<Rightarrow> nat \<Rightarrow> inflate_result) \<Rightarrow> json_lib \<Rightarrow> https_env \<Rightarrow> string \<Rightarrow> fetch_input \<Rightarrow>
   'a fetch_state_scheme \<Rightarrow> (int \<times> 'a fetch_state_scheme) option" where
  "CNF_fetch_https inflate jl e fetch_type inp st = do {
     post \<leftarrow> fetch_post inflate jl e fetch_type inp st;
     CNF_fetch jl fetch_type (inp\<lparr>fi_post := post\<rparr>) st }"

definition server_up :: "https_env \<Rightarrow> bool" where
  "server_up e \<longleftrightarrow> (\<forall>s d t. he_open e s \<and> he_connect e d \<and> he_write e t)"

lemma fetch_make_ready:
  assumes "fetch_ready inp st"
  obtains hdrs rb cnfs where "fetch_make jl ft inp st = Some (fetch_req hdrs rb, cnfs)"
proof -
  obtain cnfs req us where "fetch_request jl ft inp st = Some (st\<lparr>fs_cnfs := cnfs, fs_requests := fs_requests st @ [req]\<rparr>)"
    by (rule fetch_request_sent [OF assms])
  then obtain r c where "fetch_make jl ft inp st = Some (r, c)" by (auto simp: fetch_request_def bind_eq_Some_conv)
  then show thesis
    using that by (auto simp: fetch_make_def Let_def bind_eq_Some_conv)
qed

lemma framed_body_fits:
  assumes "response_fits code reason fs fr"
  shows "length (framed_body fr) < 1024 * 1024"
proof -
  have "length (framed_body fr) \<le> length (framed_text fr)"
    using length_concat_chunks by (cases fr) (auto simp: chunked_text_def intro: trans_le_add1)
  then show ?thesis using assms by (simp add: response_fits_def http_response_def nrxbuf_def)
qed

lemma fetch_post_served:
  assumes ready: "fetch_ready inp st" and up: "server_up e" and ok: "response_fits code reason fs fr" "code < 2 ^ 31"
    and d: "delivers (he_rx e)" "payload (he_rx e) = http_response code reason fs fr"
  shows "fetch_post inflate jl e ft inp st = Some (Some (int code,
    case field_value ''mudband-etag'' fs of None \<Rightarrow> [] | Some v \<Rightarrow> take 63 v, length (framed_body fr), jl_loads jl (cstr (framed_body fr))))"
proof -
  obtain hdrs rb cnfs where m: "fetch_make jl ft inp st = Some (fetch_req hdrs rb, cnfs)"
    by (rule fetch_make_ready [OF ready])
  let ?r = "fetch_req hdrs rb"
  have "connected e ?r (post_text ?r)" using up by (simp add: connected_def server_up_def)
  moreover have "length (framed_body fr) \<le> 1024 * 1024" using framed_body_fits [OF ok(1)] by simp
  ultimately have "VHTTPS_post inflate e ?r (1024 * 1024) = Some (0, Some (post_text ?r), answered_req code fs ?r, Some (framed_body fr))"
    by (rule post_response [OF _ ok d])
  then show ?thesis
    by (simp add: fetch_post_def m answered_req_def fetch_req_def split: option.splits)
qed

lemma fetch_ready_post: "fetch_ready (inp\<lparr>fi_post := p\<rparr>) st = fetch_ready inp st"
  by (simp add: fetch_ready_def)

text \<open>The line of the headers that names the tag, when it fits.\<close>

lemma fetch_hdrs_tag:
  assumes "length jwt + length tag \<le> 914"
  shows "cnf_fetch_hdrs jwt (Some tag) = Some (fetch_headers jwt @ ''If-None-Match: '' @ tag @ crlf)"
proof -
  have "length (fetch_headers jwt) = 92 + length jwt" by (simp add: fetch_headers_def crlf_def)
  then show ?thesis using assms by (simp add: cnf_fetch_hdrs_def crlf_def)
qed

lemma post_text_line: "\<exists>before after. post_text (fetch_req (h @ crlf @ line @ crlf) rb) = before @ crlf @ line @ crlf @ after"
proof -
  have "post_text (fetch_req (h @ crlf @ line @ crlf) rb) =
      (''POST '' @ ''/api/band/conf'' @ '' HTTP/1.1'' @ crlf @ ''Connection: close'' @ crlf @ ''Content-Length: '' @ decimal_text (length rb) @ crlf @ h) @
      crlf @ line @ crlf @ (crlf @ take 1023 rb)"
    by (simp only: post_text_def fetch_req_def vhttps_req.simps option.case append_assoc)
  then show ?thesis by blast
qed

lemma next_request_tag:
  assumes "fs_mbe_jroot st = Some j" and "member_such json_is_string j ''jwt'' = Some (Json_string jwt)" and "length jwt + length tag \<le> 914"
    and "fetch_etag (fi_time inp) (fs_cnfs st) = Some (Some tag, cnfs)" and "stunc_result_inited (fs_stunc st)" and "fi_ifaddrs inp = Some ifas"
  shows "\<exists>st' before after. fetch_request jl ft inp st = Some st' \<and> fs_requests st' = fs_requests st @ [before @ crlf @ (''If-None-Match: '' @ tag) @ crlf @ after]"
proof -
  define h where "h = ''Accept-Encoding: gzip'' @ crlf @ ''Authorization: '' @ jwt @ crlf @ ''Content-Type: application/json'' @ crlf @ ''Host: www.mud.band''"
  have "cnf_fetch_hdrs jwt (Some tag) = Some (h @ crlf @ (''If-None-Match: '' @ tag) @ crlf)"
    unfolding fetch_hdrs_tag [OF assms(3)] fetch_headers_def h_def by (simp only: append_assoc)
  then obtain rb where m: "fetch_make jl ft inp st = Some (fetch_req (h @ crlf @ (''If-None-Match: '' @ tag) @ crlf) rb, cnfs)"
    using assms by (simp add: fetch_make_def STUNC_get_mappped_addr_def cnf_getifaddrs_def Let_def)
  obtain before after where "post_text (fetch_req (h @ crlf @ (''If-None-Match: '' @ tag) @ crlf) rb) = before @ crlf @ (''If-None-Match: '' @ tag) @ crlf @ after"
    using post_text_line by blast
  then show ?thesis unfolding fetch_request_def m by fastforce
qed


definition etag_demo :: "http_field list" where
  "etag_demo = [(''mudband-etag'', ''t1'')]"

text \<open>A library that knows two texts.\<close>

definition tagged_conf :: json where "tagged_conf = json_object_set fetched_conf ''etag'' (Json_string ''t1'')"

definition two_texts :: json_lib where
  "two_texts = \<lparr>jl_dumps = (\<lambda>j. if j = tagged_conf then ''[1]'' else []),
     jl_loads = (\<lambda>s. if s = ''{}'' then Some answer_demo else if s = ''[1]'' then Some tagged_conf else None)\<rparr>"


end
