(* ===== verification/Enroll.thy ===== *)
theory Enroll
  imports Https_Fetch Wg_Agreement
begin

text \<open>
  Enrollment: the settings of the program (\<open>linux/mudband_progconf.c\<close>), the enrollments kept as files and the choice
  among them, and the enrollment of a device (\<open>linux/mudband_enroll.c\<close>), with the check of UUIDs
  (\<open>libmud/vuuid.c\<close>). \<open>None\<close> is a failed assertion or undefined.
\<close>

section \<open>UUIDs\<close>

text \<open>The conversion \<open>%x\<close> of \<open>sscanf\<close> with a width: blanks, a sign, a prefix \<open>0x\<close> and digits; the value and the rest of
  the text.\<close>

definition scan_sign :: "nat \<times> string \<Rightarrow> bool \<times> nat \<times> string" where
  "scan_sign = (\<lambda>(w, s). case s of
       c # r \<Rightarrow> if c = CHR ''-'' then (True, w - 1, r) else if c = CHR ''+'' then (False, w - 1, r) else (False, w, s)
     | [] \<Rightarrow> (False, w, s))"

definition scan_zero :: "nat \<times> string \<Rightarrow> string \<times> nat \<times> string" where
  "scan_zero = (\<lambda>(w, s). case s of
       c # r \<Rightarrow>
         if w > 0 \<and> c = CHR ''0'' then
           (case r of
              x # t \<Rightarrow> if w > 1 \<and> (x = CHR ''x'' \<or> x = CHR ''X'') then ([c], w - 2, t) else ([c], w - 1, r)
            | [] \<Rightarrow> ([c], w - 1, r))
         else ([], w, s)
     | [] \<Rightarrow> ([], w, s))"

definition scan_hex :: "nat \<Rightarrow> string \<Rightarrow> (int \<times> string) option" where
  "scan_hex width s =
     (let (neg, w, s) = scan_sign (width, dropWhile is_space s);
          (z, w, s) = scan_zero (w, s);
          ds = takeWhile (\<lambda>c. hex_val c \<noteq> None) (take w s);
          v = int (digits_val 16 (z @ ds))
      in if z @ ds = [] then None else Some (if neg then - v else v, drop (length ds) s))"

text \<open>The conversions of a format; the flag says that a \<open>-\<close> has to follow.\<close>

fun scan_fields :: "(nat \<times> bool) list \<Rightarrow> string \<Rightarrow> int list option" where
  "scan_fields [] s = Some []"
| "scan_fields ((w, dash) # fs) s = do {
     (v, r) \<leftarrow> scan_hex w s;
     vs \<leftarrow> (if dash then (case r of c # t \<Rightarrow> if c = CHR ''-'' then scan_fields fs t else None | [] \<Rightarrow> None)
            else scan_fields fs r);
     Some (v # vs) }"

definition uuid_format :: "(nat \<times> bool) list" where
  "uuid_format = [(8, True), (4, True), (4, True), (2, False), (2, True), (2, False), (2, False), (2, False), (2, False), (2, False),
     (2, False)]"

datatype vuuid_status = vuuid_s_ok | vuuid_s_invalid_string_uuid | vuuid_s_bad_version

definition VUUID_from_string :: "string \<Rightarrow> vuuid_status option" where
  "VUUID_from_string s =
     (if s = [] then None
      else if length s \<noteq> 36 \<or> s ! 8 \<noteq> CHR ''-'' then Some vuuid_s_invalid_string_uuid
      else case scan_fields uuid_format s of
          None \<Rightarrow> Some vuuid_s_invalid_string_uuid
        | Some vs \<Rightarrow>
            let n = (word_of_int (vs ! 3) :: u8) in
            Some (if n AND 0x80 \<noteq> 0 \<and> n AND 0xC0 \<noteq> 0x80 \<and> n AND 0xE0 \<noteq> 0xC0 then vuuid_s_bad_version else vuuid_s_ok))"

section \<open>The settings of the program\<close>

text \<open>The directory of the enrollments: the files in the order of \<open>readdir\<close>, with what \<open>json_load_file\<close> reads from them.
  \<open>None\<close>: it cannot be opened. The settings file: \<open>None\<close> if it is missing. Writing a value leaves a file from which
  the library reads \<open>reload jl j\<close>.\<close>

type_synonym enroll_files = "(string \<times> json option) list"

text \<open>How writing a file ends (\<open>fopen\<close> and \<open>json_dumpf\<close>): with \<open>Dump_failed\<close>, what is read from the truncated or partly written file.\<close>

datatype write_outcome = Write_ok | Open_failed | Dump_failed "json option"

text \<open>\<open>mpc_write\<close> and \<open>enroll_write\<close> are how writing the settings and the file of a band ends, \<open>enroll_unlink\<close> whether a file of the
  directory can be deleted.\<close>

record mbe_state =
  mbe_default_uuidstr :: string
  mbe_jroot :: "json option"
  mpc_jroot :: "json option"
  mpc_file :: "json option option"
  mpc_write :: write_outcome
  enroll_dir :: "enroll_files option"
  enroll_write :: write_outcome
  enroll_unlink :: bool

definition MPC_read :: "mbe_state \<Rightarrow> json option" where
  "MPC_read st = (case mpc_file st of None \<Rightarrow> None | Some j \<Rightarrow> j)"

text \<open>The callers ignore the result.\<close>

definition MPC_write :: "json_lib \<Rightarrow> mbe_state \<Rightarrow> mbe_state option" where
  "MPC_write jl st = (case mpc_jroot st of
       None \<Rightarrow> None
     | Some j \<Rightarrow> Some (case mpc_write st of
           Write_ok \<Rightarrow> st\<lparr>mpc_file := Some (reload jl j)\<rparr>
         | Open_failed \<Rightarrow> st
         | Dump_failed left \<Rightarrow> st\<lparr>mpc_file := Some left\<rparr>))"

fun json_object_del :: "json \<Rightarrow> string \<Rightarrow> json" where
  "json_object_del (Json_object kvs) key = Json_object (filter (\<lambda>kv. fst kv \<noteq> key) kvs)"
| "json_object_del j key = j"

definition default_key :: string where "default_key = ''default_band_uuid''"

definition MPC_set_default_band_uuid :: "json_lib \<Rightarrow> string \<Rightarrow> mbe_state \<Rightarrow> mbe_state option" where
  "MPC_set_default_band_uuid jl band_uuid st = do {
     j \<leftarrow> mpc_jroot st;
     let j = (if json_object_get j default_key \<noteq> None then json_object_del j default_key else j);
     MPC_write jl (st\<lparr>mpc_jroot := Some (json_object_set_new j default_key (json_string band_uuid))\<rparr>) }"

definition MPC_delete_default_band_uuid :: "json_lib \<Rightarrow> mbe_state \<Rightarrow> mbe_state option" where
  "MPC_delete_default_band_uuid jl st = do {
     j \<leftarrow> mpc_jroot st;
     MPC_write jl (st\<lparr>mpc_jroot := Some (if json_object_get j default_key \<noteq> None then json_object_del j default_key else j)\<rparr>) }"

text \<open>The names \<open>band_\<close> UUID \<open>.json\<close>, of at least 46 characters; the UUID is kept in 64 bytes.\<close>

definition band_file :: "string \<Rightarrow> bool" where
  "band_file name \<longleftrightarrow> length name \<ge> 46 \<and> take 5 name = ''band_'' \<and> drop (length name - 5) name = ''.json''"

definition band_file_uuid :: "string \<Rightarrow> string" where
  "band_file_uuid name = take 63 (take (length name - 10) (drop 5 name))"

text \<open>\<open>struct mbe_traversal_dir_arg\<close> and \<open>struct mpc_traversal_dir_arg\<close>.\<close>

record traversal_dir_arg =
  n_enroll :: nat
  b_arg_found :: bool
  b_arg_uuidstr :: string

definition MPC_get_default_band_uuid_traversal_dir_callback :: "string \<Rightarrow> traversal_dir_arg \<Rightarrow> traversal_dir_arg" where
  "MPC_get_default_band_uuid_traversal_dir_callback name arg =
     (if band_file name then arg\<lparr>b_arg_uuidstr := band_file_uuid name, n_enroll := n_enroll arg + 1\<rparr> else arg)"

definition dir_arg_zero :: traversal_dir_arg where
  "dir_arg_zero = \<lparr>n_enroll = 0, b_arg_found = False, b_arg_uuidstr = []\<rparr>"

definition string_or_null :: "json \<Rightarrow> string option" where
  "string_or_null j = (if json_is_string j then Some (json_string_value j) else None)"

definition MPC_get_default_band_uuid :: "json_lib \<Rightarrow> mbe_state \<Rightarrow> (string option \<times> mbe_state) option" where
  "MPC_get_default_band_uuid jl st = do {
     j \<leftarrow> mpc_jroot st;
     case json_object_get j default_key of
       Some d \<Rightarrow> Some (string_or_null d, st)
     | None \<Rightarrow> (case enroll_dir st of
         None \<Rightarrow> Some (None, st)
       | Some files \<Rightarrow>
           let arg = fold MPC_get_default_band_uuid_traversal_dir_callback (map fst files) dir_arg_zero in
           if n_enroll arg = 0 then Some (None, st)
           else do {
             st \<leftarrow> MPC_set_default_band_uuid jl (b_arg_uuidstr arg) st;
             j \<leftarrow> mpc_jroot st;
             d \<leftarrow> json_object_get j default_key;
             Some (string_or_null d, st) }) }"

definition MPC_init :: "json_lib \<Rightarrow> mbe_state \<Rightarrow> mbe_state option" where
  "MPC_init jl st = (case MPC_read st of
       Some j \<Rightarrow> Some (st\<lparr>mpc_jroot := Some j\<rparr>)
     | None \<Rightarrow> MPC_write jl (st\<lparr>mpc_jroot := Some (Json_object [])\<rparr>))"

section \<open>Reading the enrollments\<close>

definition MBE_get_private_key :: "mbe_state \<Rightarrow> string option" where
  "MBE_get_private_key st = do { j \<leftarrow> mbe_jroot st; string_member j ''wireguard_privkey'' }"

text \<open>The outer \<open>None\<close> is a failed assertion, the inner one \<open>NULL\<close>.\<close>

definition mbe_band_read :: "enroll_files \<Rightarrow> string \<Rightarrow> json option option" where
  "mbe_band_read files filename = (case map_of files filename of
       None \<Rightarrow> Some None
     | Some None \<Rightarrow> Some None
     | Some (Some j) \<Rightarrow> do {
         _ \<leftarrow> member_such json_is_string j ''uuid'';
         _ \<leftarrow> member_such json_is_string j ''name'';
         _ \<leftarrow> member_such json_is_string j ''jwt'';
         Some (Some j) })"

definition mbe_get_band_name_from_filepath :: "enroll_files \<Rightarrow> string \<Rightarrow> string option" where
  "mbe_get_band_name_from_filepath files filename = do {
     jroot \<leftarrow> mbe_band_read files filename;
     case jroot of
       None \<Rightarrow> Some []
     | Some j \<Rightarrow> map_option (take 63) (string_member j ''name'') }"

definition mbe_traversal_dir_callback ::
  "enroll_files \<Rightarrow> string option \<Rightarrow> string \<Rightarrow> traversal_dir_arg \<times> string \<Rightarrow> (traversal_dir_arg \<times> string) option" where
  "mbe_traversal_dir_callback files band_b_arg name = (\<lambda>(arg, uuidstr).
     if \<not> band_file name then Some (arg, uuidstr)
     else let uuidstr = band_file_uuid name in do {
       _ \<leftarrow> mbe_get_band_name_from_filepath files name;
       let arg = arg\<lparr>n_enroll := n_enroll arg + 1\<rparr>;
       Some (case band_b_arg of
           None \<Rightarrow> arg
         | Some b \<Rightarrow>
             if has_infix (map tolower b) (map tolower uuidstr)
             then arg\<lparr>b_arg_found := True, b_arg_uuidstr := uuidstr\<rparr> else arg, uuidstr) })"

text \<open>\<open>ODR_traversal_dir\<close>: the callback on each name; it never returns a value other than 0.\<close>

fun traversal_dir :: "(string \<Rightarrow> 's \<Rightarrow> 's option) \<Rightarrow> string list \<Rightarrow> 's \<Rightarrow> 's option" where
  "traversal_dir f [] s = Some s"
| "traversal_dir f (name # names) s = do { s \<leftarrow> f name s; traversal_dir f names s }"

definition MBE_check_and_read :: "json_lib \<Rightarrow> string option \<Rightarrow> mbe_state \<Rightarrow> (int \<times> mbe_state) option" where
  "MBE_check_and_read jl band_b_arg st = (case enroll_dir st of
       None \<Rightarrow> Some (-1, st)
     | Some files \<Rightarrow> do {
         (arg, uuidstr) \<leftarrow> traversal_dir (mbe_traversal_dir_callback files band_b_arg) (map fst files)
           (dir_arg_zero, mbe_default_uuidstr st);
         let st = st\<lparr>mbe_default_uuidstr := uuidstr\<rparr>;
         if n_enroll arg = 0 then Some (-1, st) else do {
         (ok, st) \<leftarrow> (case band_b_arg of
             Some b \<Rightarrow> Some (if b_arg_found arg then (True, st\<lparr>mbe_default_uuidstr := b_arg_uuidstr arg\<rparr>) else (False, st))
           | None \<Rightarrow>
               if n_enroll arg > 1 then do {
                 (d, st) \<leftarrow> MPC_get_default_band_uuid jl st;
                 Some (case d of None \<Rightarrow> (False, st) | Some d \<Rightarrow> (True, st\<lparr>mbe_default_uuidstr := take 63 d\<rparr>)) }
               else Some (True, st));
         if \<not> ok then Some (-1, st) else do {
         status \<leftarrow> VUUID_from_string (mbe_default_uuidstr st);
         if status \<noteq> vuuid_s_ok then None else do {
         jroot \<leftarrow> mbe_band_read files (''band_'' @ mbe_default_uuidstr st @ ''.json'');
         j \<leftarrow> jroot;
         Some (0, st\<lparr>mbe_jroot := Some j\<rparr>) } } } })"

definition MBE_list :: "mbe_state \<Rightarrow> (int \<times> mbe_state) option" where
  "MBE_list st = (case enroll_dir st of
       None \<Rightarrow> Some (1, st)
     | Some files \<Rightarrow> do {
         (arg, uuidstr) \<leftarrow> traversal_dir (mbe_traversal_dir_callback files None) (map fst files)
           (dir_arg_zero, mbe_default_uuidstr st);
         Some (if n_enroll arg = 0 then 1 else 0, st\<lparr>mbe_default_uuidstr := uuidstr\<rparr>) })"

section \<open>Enrolling a device\<close>

definition string_of_bytes :: "bytes \<Rightarrow> string" where
  "string_of_bytes bs = map (\<lambda>b. char_of (unat b)) bs"

definition quote :: string where "quote = [CHR 0x22]"

text \<open>The body of the request, written into 1024 bytes.\<close>

definition enroll_body :: "string \<Rightarrow> string \<Rightarrow> string \<Rightarrow> string \<Rightarrow> string" where
  "enroll_body tok name secret pubkey =
     ''{  '' @ quote @ ''token'' @ quote @ '': '' @ quote @ tok @ quote @ '',  '' @ quote @ ''name'' @ quote @ '': '' @ quote @ name @ quote @
     '',  '' @ quote @ ''secret'' @ quote @ '': '' @ quote @ secret @ quote @ '',  '' @ quote @ ''wireguard_pubkey'' @ quote @ '': '' @ quote @
     pubkey @ quote @ ''}''"

definition enroll_req :: "string \<Rightarrow> vhttps_req" where
  "enroll_req body = \<lparr>req_f_need_resp_mudband_etag = False, req_f_need_resp_status = False, req_server = ''www.mud.band:443'',
     req_domain = ''www.mud.band'', req_url = ''/api/band/enroll'',
     req_hdrs = Some (''Content-Type: application/json'' @ crlf @ ''Host: www.mud.band'' @ crlf),
     req_body = take 1023 body, req_bodylen = length body, req_resp_status = 0, req_resp_mudband_etag = []\<rparr>"

text \<open>Storing the band: \<open>mbe_file_write\<close>, whose failure ends the program, the default band, and \<open>mbe_file_delete\<close> of the old
  configuration, which must succeed if there is one. A band whose UUID contains a slash would be stored in another
  directory, which the model does not have.\<close>

fun file_set :: "string \<Rightarrow> json option \<Rightarrow> enroll_files \<Rightarrow> enroll_files" where
  "file_set name j [] = [(name, j)]"
| "file_set name j ((n, k) # fs) = (if n = name then (n, j) # fs else (n, k) # file_set name j fs)"

definition store_band :: "json_lib \<Rightarrow> string \<Rightarrow> json \<Rightarrow> mbe_state \<Rightarrow> mbe_state option" where
  "store_band jl uuid band st =
     (if CHR ''/'' \<in> set uuid \<or> enroll_write st \<noteq> Write_ok then None else do {
        files \<leftarrow> enroll_dir st;
        st \<leftarrow> MPC_set_default_band_uuid jl uuid (st\<lparr>enroll_dir := Some (file_set (''band_'' @ uuid @ ''.json'') (reload jl band) files)\<rparr>);
        files \<leftarrow> enroll_dir st;
        let conf = ''conf_'' @ uuid @ ''.json'';
        if conf \<in> fst ` set files \<and> \<not> enroll_unlink st then None
        else Some (st\<lparr>enroll_dir := Some (filter (\<lambda>f. fst f \<noteq> conf) files)\<rparr>) })"

text \<open>From the answer of the server on.\<close>

definition enroll_answer :: "json_lib \<Rightarrow> json \<Rightarrow> string \<Rightarrow> mbe_state \<Rightarrow> (int \<times> mbe_state) option" where
  "enroll_answer jl jroot privkey st = do {
     status \<leftarrow> integer_member jroot ''status'';
     if int_cast status = 200 then do {
       jband \<leftarrow> object_member jroot ''band'';
       juuid \<leftarrow> member_such json_is_string jband ''uuid'';
       _ \<leftarrow> member_such json_is_string jband ''name'';
       _ \<leftarrow> integer_member jband ''opt_public'';
       st \<leftarrow> store_band jl (json_string_value juuid) (json_object_set_new jband ''wireguard_privkey'' (json_string privkey)) st;
       Some (0, st) }
     else if int_cast status = 301 then do { _ \<leftarrow> string_member jroot ''sso_url''; Some (0, st) }
     else do { _ \<leftarrow> member_such json_is_string jroot ''msg''; Some (1, st) } }"

text \<open>The result of \<open>wireguard_generate_public_key\<close> is ignored. The text sent is the second part of the result. A body of 1024 bytes leaves no room for the NUL.\<close>

definition MBE_enroll ::
  "(bytes \<Rightarrow> bytes \<Rightarrow> bytes) \<Rightarrow> (string \<Rightarrow> nat \<Rightarrow> inflate_result) \<Rightarrow> json_lib \<Rightarrow> https_env \<Rightarrow> world \<Rightarrow>
   string \<Rightarrow> string option \<Rightarrow> string \<Rightarrow> mbe_state \<Rightarrow> (int \<times> string option \<times> mbe_state) option" where
  "MBE_enroll dh inflate jl e w tok name secret st = (case name of
       None \<Rightarrow> Some (1, None, st)
     | Some name \<Rightarrow> do {
         let (priv, w) = wireguard_generate_private_key w;
         pub \<leftarrow> (if priv = zero_key then None else Some (dh priv basepoint));
         case (wireguard_base64_encode pub 65, wireguard_base64_encode priv 65) of
           (Some pubstr, Some privstr) \<Rightarrow> do {
             (r, sent, _, body) \<leftarrow> VHTTPS_post inflate e
               (enroll_req (enroll_body tok name secret (cstr (string_of_bytes pubstr)))) 1024;
             if r = -1 then Some (1, sent, st)
             else do {
               bs \<leftarrow> body;
               if length bs \<ge> 1024 then None else
               case jl_loads jl (cstr bs) of
                 None \<Rightarrow> Some (1, sent, st)
               | Some jroot \<Rightarrow>
                   map_option (\<lambda>(r, st). (r, sent, st)) (enroll_answer jl jroot (cstr (string_of_bytes privstr)) st) } }
         | _ \<Rightarrow> Some (1, None, st) })"

section \<open>Files\<close>

definition band_name :: "string \<Rightarrow> string" where
  "band_name uuid = ''band_'' @ uuid @ ''.json''"

lemma band_file_name:
  assumes "length uuid = 36"
  shows "band_file (band_name uuid)" and "band_file_uuid (band_name uuid) = uuid"
  using assms by (simp_all add: band_file_def band_file_uuid_def band_name_def)

lemma map_of_file_set: "map_of (file_set name j fs) = (map_of fs)(name \<mapsto> j)"
  by (induction name j fs rule: file_set.induct) (auto simp: fun_upd_twist)

lemma set_file_set: "fst ` set (file_set name j fs) = insert name (fst ` set fs)"
  by (induction name j fs rule: file_set.induct) auto

lemma map_of_filter_name: "n \<noteq> m \<Longrightarrow> map_of (filter (\<lambda>f. fst f \<noteq> m) fs) n = map_of fs n"
  by (induction fs) auto

text \<open>Every file that is named like an enrollment is one, or holds no JSON value.\<close>

definition enrollment_ok :: "json \<Rightarrow> bool" where
  "enrollment_ok j \<longleftrightarrow> member_such json_is_string j ''uuid'' \<noteq> None \<and> string_member j ''name'' \<noteq> None \<and>
     member_such json_is_string j ''jwt'' \<noteq> None"

definition files_ok :: "enroll_files \<Rightarrow> bool" where
  "files_ok files \<longleftrightarrow> (\<forall>name j. band_file name \<longrightarrow> map_of files name = Some (Some j) \<longrightarrow> enrollment_ok j)"

lemma string_member_is: "string_member j k \<noteq> None \<Longrightarrow> member_such json_is_string j k \<noteq> None"
  by (auto simp: string_member_def member_such_def bind_eq_Some_conv split: if_splits)

lemma band_read_ok:
  assumes "enrollment_ok j" and "map_of files name = Some (Some j)"
  shows "mbe_band_read files name = Some (Some j)"
  using assms string_member_is [of j "''name''"] by (auto simp: mbe_band_read_def enrollment_ok_def)

lemma band_name_read:
  assumes "files_ok files" and "band_file name"
  shows "mbe_get_band_name_from_filepath files name \<noteq> None"
proof (cases "map_of files name")
  case (Some j)
  show ?thesis
  proof (cases j)
    case j: (Some v)
    then have "enrollment_ok v" using assms Some unfolding files_ok_def by blast
    then show ?thesis using band_read_ok [of v files name] Some j
      by (simp add: mbe_get_band_name_from_filepath_def enrollment_ok_def)
  qed (simp add: Some mbe_get_band_name_from_filepath_def mbe_band_read_def)
qed (simp add: mbe_get_band_name_from_filepath_def mbe_band_read_def)

lemma traversal_enrollments:
  assumes "files_ok files"
  shows "traversal_dir (mbe_traversal_dir_callback files None) names (arg, u) =
    Some (arg\<lparr>n_enroll := n_enroll arg + length (filter band_file names)\<rparr>,
      if filter band_file names = [] then u else band_file_uuid (last (filter band_file names)))"
proof (induction names arbitrary: arg u)
  case (Cons name names)
  show ?case
  proof (cases "band_file name")
    case True
    then obtain nm where "mbe_get_band_name_from_filepath files name = Some nm"
      using band_name_read [OF assms] by blast
    then have "mbe_traversal_dir_callback files None name (arg, u) = Some (arg\<lparr>n_enroll := n_enroll arg + 1\<rparr>, band_file_uuid name)"
      using True by (simp add: mbe_traversal_dir_callback_def Let_def)
    then show ?thesis using Cons.IH [of "arg\<lparr>n_enroll := n_enroll arg + 1\<rparr>"] True by simp
  next
    case False
    then show ?thesis using Cons.IH by (simp add: mbe_traversal_dir_callback_def)
  qed
qed simp

section \<open>The chosen enrollment\<close>

text \<open>With the settings naming a stored band and without \<open>-b\<close>, that band is read.\<close>

lemma check_and_read_default:
  assumes dir: "enroll_dir st = Some files" "files_ok files" and band: "map_of files (band_name uuid) = Some (Some j)"
    and uuid: "VUUID_from_string uuid = Some vuuid_s_ok"
    and mpc: "mpc_jroot st = Some s" "json_object_get s default_key = Some (Json_string uuid)"
  shows "MBE_check_and_read jl None st = Some (0, st\<lparr>mbe_default_uuidstr := uuid, mbe_jroot := Some j\<rparr>)"
proof -
  let ?names = "filter band_file (map fst files)"
  have len: "length uuid = 36" using uuid by (simp add: VUUID_from_string_def split: if_splits)
  have mem: "band_name uuid \<in> set ?names"
    using band band_file_name(1) [OF len] map_of_SomeD by force
  have ne: "?names \<noteq> []" using mem by (metis empty_iff list.set(1))
  have ok: "enrollment_ok j" using dir(2) band band_file_name(1) [OF len] unfolding files_ok_def by blast
  note rd = band_read_ok [OF ok band, unfolded band_name_def]
  have d: "MPC_get_default_band_uuid jl (st\<lparr>mbe_default_uuidstr := u\<rparr>) = Some (Some uuid, st\<lparr>mbe_default_uuidstr := u\<rparr>)" for u
    using mpc by (simp add: MPC_get_default_band_uuid_def string_or_null_def)
  note tr = traversal_enrollments [OF dir(2), of "map fst files" dir_arg_zero "mbe_default_uuidstr st"]
  have n: "n_enroll dir_arg_zero = 0" by (simp add: dir_arg_zero_def)
  show ?thesis
  proof (cases "length ?names = 1")
    case True
    then have "?names = [band_name uuid]" using mem by (cases ?names) auto
    then have "band_file_uuid (last ?names) = uuid" using band_file_name(2) [OF len] by simp
    then show ?thesis
      unfolding MBE_check_and_read_def dir(1) option.case tr using True ne n uuid rd by (simp add: Let_def filter_map)
  next
    case False
    then have "1 < length ?names" using ne by (cases ?names) auto
    then show ?thesis
      unfolding MBE_check_and_read_def dir(1) option.case tr using ne n uuid rd d len by (simp add: Let_def filter_map)
  qed
qed

lemma del_default:
  assumes "json_is_object s"
  shows "(if json_object_get s k \<noteq> None then json_object_del s k else s) = json_object_del s k"
proof (cases s)
  case (Json_object kvs)
  show ?thesis
  proof (cases "map_of kvs k")
    case None
    then have "filter (\<lambda>kv. fst kv \<noteq> k) kvs = kvs" by (auto simp: map_of_eq_None_iff filter_id_conv)
    then show ?thesis using Json_object None by simp
  qed (simp add: Json_object)
qed (use assms in auto)

text \<open>The settings with a default band.\<close>

definition with_default :: "string \<Rightarrow> json \<Rightarrow> json" where
  "with_default uuid s = json_object_set (json_object_del s default_key) default_key (Json_string uuid)"

lemma get_with_default:
  assumes "json_is_object s"
  shows "json_object_get (with_default uuid s) default_key = Some (Json_string uuid)"
proof -
  have "json_is_object (json_object_del s default_key)" using assms by (cases s) auto
  then show ?thesis by (simp add: with_default_def json_object_get_set)
qed

text \<open>The memory of a new process, on the same files.\<close>

definition restarted :: "mbe_state \<Rightarrow> mbe_state" where
  "restarted st = st\<lparr>mbe_default_uuidstr := [], mbe_jroot := None, mpc_jroot := None\<rparr>"

lemma store_band_read:
  assumes dir: "enroll_dir st = Some files" "files_ok files" and s: "mpc_jroot st = Some s" "json_is_object s"
    and uuid: "VUUID_from_string uuid = Some vuuid_s_ok" "CHR ''/'' \<notin> set uuid" "utf8_check_string uuid" and band: "enrollment_ok band"
    and wr: "mpc_write st = Write_ok" "enroll_write st = Write_ok" "enroll_unlink st"
    and re: "reload jl band = Some band" "reload jl (with_default uuid s) = Some (with_default uuid s)"
  shows "\<exists>st1 st2. store_band jl uuid band st = Some st1 \<and> MPC_init jl (restarted st1) = Some st2 \<and>
    MBE_check_and_read jl None st2 = Some (0, st2\<lparr>mbe_default_uuidstr := uuid, mbe_jroot := Some band\<rparr>)"
proof -
  let ?f1 = "file_set (band_name uuid) (Some band) files"
  let ?f2 = "filter (\<lambda>f. fst f \<noteq> ''conf_'' @ uuid @ ''.json'') ?f1"
  let ?s = "with_default uuid s"
  define st1 where "st1 = st\<lparr>mpc_jroot := Some ?s, mpc_file := Some (Some ?s), enroll_dir := Some ?f2\<rparr>"
  define st2 where "st2 = (restarted st1)\<lparr>mpc_jroot := Some ?s\<rparr>"
  have ne: "band_name uuid \<noteq> ''conf_'' @ uuid @ ''.json''" by (simp add: band_name_def)
  have d: "json_object_set_new (if json_object_get s default_key \<noteq> None then json_object_del s default_key else s) default_key (json_string uuid) = ?s"
    using uuid(3) unfolding del_default [OF s(2)] by (simp add: with_default_def json_object_set_new_def json_string_def)
  have set: "MPC_set_default_band_uuid jl uuid x = Some (x\<lparr>mpc_jroot := Some ?s, mpc_file := Some (Some ?s)\<rparr>)"
    if "mpc_jroot x = Some s" "mpc_write x = Write_ok" for x
    unfolding MPC_set_default_band_uuid_def that(1) bind.simps Let_def d using that re(2) by (simp add: MPC_write_def)
  have st: "store_band jl uuid band st = Some st1"
    using dir(1) s(1) uuid(2) wr re(1) by (simp add: store_band_def set st1_def band_name_def Let_def)
  have i: "MPC_init jl (restarted st1) = Some st2" by (simp add: MPC_init_def MPC_read_def restarted_def st1_def st2_def)
  have m: "map_of ?f2 (band_name uuid) = Some (Some band)"
    by (simp only: map_of_filter_name [OF ne] map_of_file_set fun_upd_same)
  have ok: "files_ok ?f2"
    unfolding files_ok_def
  proof (intro allI impI)
    fix name j assume b: "band_file name" and "map_of ?f2 name = Some (Some j)"
    then have "name \<noteq> ''conf_'' @ uuid @ ''.json''" using b by (auto simp: band_file_def)
    then have "map_of ?f1 name = Some (Some j)" using \<open>map_of ?f2 name = Some (Some j)\<close> map_of_filter_name by metis
    then show "enrollment_ok j" using band dir(2) b by (auto simp: map_of_file_set files_ok_def split: if_splits)
  qed
  have "enroll_dir st2 = Some ?f2" "mpc_jroot st2 = Some ?s" by (simp_all add: st2_def restarted_def st1_def)
  then show ?thesis using st i check_and_read_default [OF _ ok m uuid(1)] get_with_default [OF s(2)] by blast
qed

section \<open>Keys as text\<close>

lemma bytes_string_bytes: "bytes_of_string (string_of_bytes s) = s"
proof -
  have "(of_char (char_of (unat b) :: char) :: u8) = b" for b :: u8
  proof -
    have "(of_char (char_of (unat b) :: char) :: u8) = of_nat (of_char (char_of (unat b) :: char))" by (rule of_nat_of_char [symmetric])
    also have "\<dots> = of_nat (unat b)" using unsigned_less [of b] by simp
    finally show ?thesis by simp
  qed
  then show ?thesis by (simp add: bytes_of_string_def string_of_bytes_def map_idI)
qed

lemma cstr_string_of_bytes:
  assumes "0 \<notin> set s"
  shows "cstr (string_of_bytes (s @ [0])) = string_of_bytes s"
proof -
  have "char_of (unat b) \<noteq> NUL" if "b \<in> set s" for b
  proof
    assume "char_of (unat b) = NUL"
    then have "char_val (char_of (unat b)) = 0" by simp
    then have "unat b = 0" using unsigned_less [of b] by (simp add: char_val_char_of)
    then show False using assms that by (simp add: unat_eq_zero)
  qed
  moreover have "char_of (unat (0 :: u8)) = NUL" by code_simp
  ultimately show ?thesis by (simp add: cstr_def string_of_bytes_def takeWhile_append)
qed

lemma base64_lookup_nonzero: "base64_lookup ! unat ((x :: u32) AND 0x3F) \<noteq> 0"
proof -
  have "unat (x AND 0x3F) < 64"
    unfolding and_3F using take_bit_nat_less_exp [of 6 "unat x"] by (simp add: unsigned_take_bit_eq)
  then have "base64_lookup ! unat (x AND 0x3F) \<in> set base64_lookup" by (simp add: nth_mem)
  moreover have "0 \<notin> set base64_lookup" by code_simp
  ultimately show ?thesis by metis
qed

lemma encode_loop_nonzero: "0 \<notin> set (base64_encode_loop inp wo lim)"
proof -
  have "0 \<notin> set (base64_quad a b c k l)" for a b c k l
    using base64_lookup_nonzero by (auto simp: base64_quad_def Let_def)
  then show ?thesis by (induction inp wo lim rule: base64_encode_loop.induct) auto
qed

lemma base64_lookup_ascii: "\<forall>b \<in> set base64_lookup. unat b < 128"
  by code_simp

lemma encode_loop_ascii: "\<forall>b \<in> set (base64_encode_loop inp wo lim). unat b < 128"
proof -
  have l: "unat (base64_lookup ! unat ((x :: u32) AND 0x3F)) < 128" for x
  proof -
    have "unat (x AND 0x3F) < 64"
      unfolding and_3F using take_bit_nat_less_exp [of 6 "unat x"] by (simp add: unsigned_take_bit_eq)
    then have "base64_lookup ! unat (x AND 0x3F) \<in> set base64_lookup" by (simp add: nth_mem)
    then show ?thesis using base64_lookup_ascii by blast
  qed
  have "\<forall>x \<in> set (base64_quad a b c k m). unat x < 128" for a b c k m
    using l by (auto simp: base64_quad_def Let_def)
  then show ?thesis by (induction inp wo lim rule: base64_encode_loop.induct) auto
qed

lemma json_string_of_ascii:
  assumes "\<forall>b \<in> set s. unat b < 128"
  shows "json_string (string_of_bytes s) = Some (Json_string (string_of_bytes s))"
proof (rule json_string_ascii, rule ballI)
  fix c assume "c \<in> set (string_of_bytes s)"
  then obtain b where "b \<in> set s" "c = char_of (unat b)" by (auto simp: string_of_bytes_def)
  then show "(of_char c :: nat) < 128" using assms by auto
qed

text \<open>A key printed for the file or for the request: it is JSON text of 44 characters and is read back as the same bytes.\<close>

lemma key_text_roundtrip:
  assumes "length key = 32"
  shows "\<exists>out. wireguard_base64_encode key 65 = Some out \<and> length (cstr (string_of_bytes out)) = 44 \<and>
    json_string (cstr (string_of_bytes out)) = Some (Json_string (cstr (string_of_bytes out))) \<and>
    wireguard_base64_decode (Some (bytes_of_string (cstr (string_of_bytes out)))) 32 = (True, 32, key)"
proof -
  obtain s where s: "wireguard_base64_encode key 65 = Some (s @ [0])" "length s = 44"
      "wireguard_base64_decode (Some s) 32 = (True, of_nat (length key), key)"
    using base64_roundtrip [of key 65 32] assms by auto
  have z: "0 \<notin> set s" using s(1) encode_loop_nonzero by (auto simp: wireguard_base64_encode_def Let_def split: if_splits)
  have "\<forall>b \<in> set s. unat b < 128" using s(1) encode_loop_ascii by (auto simp: wireguard_base64_encode_def Let_def split: if_splits)
  note j = json_string_of_ascii [OF this]
  have "cstr (string_of_bytes (s @ [0])) = string_of_bytes s" by (rule cstr_string_of_bytes [OF z])
  moreover have "length (string_of_bytes s) = 44" using s(2) by (simp add: string_of_bytes_def)
  ultimately show ?thesis using s assms j by (simp add: bytes_string_bytes)
qed

section \<open>An enrolled device\<close>

text \<open>The answer to a successful enrollment.\<close>

definition band_answer :: "json \<Rightarrow> json \<Rightarrow> string \<Rightarrow> bool" where
  "band_answer jroot band uuid \<longleftrightarrow> integer_member jroot ''status'' = Some 200 \<and> object_member jroot ''band'' = Some band \<and>
     member_such json_is_string band ''uuid'' = Some (Json_string uuid) \<and> VUUID_from_string uuid = Some vuuid_s_ok \<and>
     CHR ''/'' \<notin> set uuid \<and> utf8_check_string uuid \<and> string_member band ''name'' \<noteq> None \<and> member_such json_is_string band ''jwt'' \<noteq> None \<and>
     integer_member band ''opt_public'' \<noteq> None"

lemma member_set_other:
  assumes "json_is_object j" and "k \<noteq> key"
  shows "member_such P (json_object_set j key v) k = member_such P j k"
  using assms by (simp add: member_such_def json_object_get_set)

lemma enrollment_with_key:
  assumes "band_answer jroot band uuid" and "key \<noteq> []"
  shows "enrollment_ok (json_object_set band ''wireguard_privkey'' (Json_string key))"
    and "string_member (json_object_set band ''wireguard_privkey'' (Json_string key)) ''wireguard_privkey'' = Some key"
proof -
  have obj: "json_is_object band"
    using assms(1) by (auto simp: band_answer_def object_member_def member_such_def bind_eq_Some_conv split: if_splits)
  show "enrollment_ok (json_object_set band ''wireguard_privkey'' (Json_string key))"
    using assms(1) by (simp add: band_answer_def enrollment_ok_def string_member_def member_set_other [OF obj])
  show "string_member (json_object_set band ''wireguard_privkey'' (Json_string key)) ''wireguard_privkey'' = Some key"
    using assms(2) by (simp add: string_member_def member_such_def json_object_get_set [OF obj] json_string_length_def)
qed

lemma enroll_answer_stores:
  assumes "band_answer jroot band uuid" and "json_string key = Some (Json_string key)"
  shows "enroll_answer jl jroot key st = map_option (Pair 0) (store_band jl uuid (json_object_set band ''wireguard_privkey'' (Json_string key)) st)"
  using assms string_member_is [of band "''name''"]
  by (auto simp: band_answer_def enroll_answer_def int_cast_def map_option_case json_object_set_new_def split: option.splits)

text \<open>The end of the text sent.\<close>

lemma enroll_text_key:
  assumes "length tok + length name + length secret \<le> 900" and "length pub = 44"
  shows "\<exists>before. post_text (enroll_req (enroll_body tok name secret pub)) = before @ quote @ ''wireguard_pubkey'' @ quote @ '': '' @ quote @ pub @ quote @ ''}''"
proof -
  let ?b = "enroll_body tok name secret pub"
  have "length ?b \<le> 1023" using assms by (simp add: enroll_body_def quote_def)
  then have t: "take 1023 ?b = ?b" by simp
  define p where "p = ''{  '' @ quote @ ''token'' @ quote @ '': '' @ quote @ tok @ quote @ '',  '' @ quote @ ''name'' @ quote @ '': '' @ quote @ name @ quote @
     '',  '' @ quote @ ''secret'' @ quote @ '': '' @ quote @ secret @ quote @ '',  ''"
  have p: "?b = p @ quote @ ''wireguard_pubkey'' @ quote @ '': '' @ quote @ pub @ quote @ ''}''"
    by (simp only: enroll_body_def p_def append_assoc)
  define h where "h = ''POST '' @ ''/api/band/enroll'' @ '' HTTP/1.1'' @ crlf @ ''Connection: close'' @ crlf @
     ''Content-Length: '' @ decimal_text (length ?b) @ crlf @ ''Content-Type: application/json'' @ crlf @ ''Host: www.mud.band'' @ crlf @ crlf"
  have "post_text (enroll_req ?b) = h @ ?b"
    by (simp only: post_text_def enroll_req_def h_def vhttps_req.simps option.case t append_assoc)
  then have "post_text (enroll_req ?b) = (h @ p) @ quote @ ''wireguard_pubkey'' @ quote @ '': '' @ quote @ pub @ quote @ ''}''"
    by (simp only: p append_assoc)
  then show ?thesis by blast
qed


definition uuid_demo :: string where
  "uuid_demo = ''00000001-0001-0001-8001-000000000001''"

definition band_demo :: json where
  "band_demo = Json_object [(''uuid'', Json_string uuid_demo), (''name'', Json_string ''home''), (''jwt'', Json_string ''j''),
     (''opt_public'', Json_integer 0)]"

definition enrolled_demo :: json where
  "enrolled_demo = Json_object [(''status'', Json_integer 200), (''band'', band_demo)]"

definition mbe_demo :: mbe_state where
  "mbe_demo = \<lparr>mbe_default_uuidstr = [], mbe_jroot = None, mpc_jroot = Some (Json_object []), mpc_file = None, mpc_write = Write_ok,
     enroll_dir = Some [], enroll_write = Write_ok, enroll_unlink = True\<rparr>"

lemma uuid_demo_ok: "VUUID_from_string uuid_demo = Some vuuid_s_ok" "CHR ''/'' \<notin> set uuid_demo" "utf8_check_string uuid_demo"
  by code_simp+

lemma band_demo_answer: "band_answer enrolled_demo band_demo uuid_demo"
  using uuid_demo_ok
  by (simp add: band_answer_def enrolled_demo_def band_demo_def integer_member_def object_member_def string_member_def member_such_def
      json_string_length_def)

text \<open>A library that writes a band as its key and the settings as one character.\<close>

definition enroll_json_demo :: json_lib where
  "enroll_json_demo = \<lparr>
     jl_dumps = (\<lambda>j. case string_member j ''wireguard_privkey'' of Some k \<Rightarrow> CHR ''K'' # k
       | None \<Rightarrow> if json_object_get j ''wireguard_privkey'' = Some (Json_string []) then ''K'' else ''S''),
     jl_loads = (\<lambda>s. case s of [] \<Rightarrow> None | c # k \<Rightarrow>
       if c = CHR ''K'' then Some (json_object_set band_demo ''wireguard_privkey'' (Json_string k))
       else if c = CHR ''S'' then Some (with_default uuid_demo (Json_object [])) else Some enrolled_demo)\<rparr>"

lemma enroll_json_demo_ok:
  "reload enroll_json_demo (json_object_set band_demo ''wireguard_privkey'' (Json_string k)) =
     Some (json_object_set band_demo ''wireguard_privkey'' (Json_string k))"
  "reload enroll_json_demo (with_default uuid_demo (Json_object [])) = Some (with_default uuid_demo (Json_object []))"
  "jl_loads enroll_json_demo ''{}'' = Some enrolled_demo"
  by (auto simp: reload_def enroll_json_demo_def string_member_def member_such_def band_demo_def with_default_def default_key_def json_string_length_def)


section \<open>Defects\<close>

text \<open>An answer that fills the buffer: the NUL is written behind it.\<close>

lemma enroll_answer_overflows:
  assumes "server_up e" and "delivers (he_rx e)" and "payload (he_rx e) = http_response code reason fs fr"
    and "response_fits code reason fs fr" and "code < 2 ^ 31" and "length (framed_body fr) = 1024"
    and "length (dh (ephemeral_of w) basepoint) = 32"
  shows "MBE_enroll dh inflate jl e w tok (Some name) secret st = None"
proof -
  have l: "length (ephemeral_of w) = 32" and z: "ephemeral_of w \<noteq> zero_key"
    using clamp_not_zero [of "random_at w (w_rand_pos w) 32"] by (simp_all add: ephemeral_of_def random_at_def)
  obtain out pub where o: "wireguard_base64_encode (ephemeral_of w) 65 = Some out" "wireguard_base64_encode (dh (ephemeral_of w) basepoint) 65 = Some pub"
    using key_text_roundtrip [OF l] key_text_roundtrip [OF assms(7)] by blast
  let ?req = "enroll_req (enroll_body tok name secret (cstr (string_of_bytes pub)))"
  have c: "connected e ?req (post_text ?req)" using assms(1) by (simp add: connected_def server_up_def)
  have "VHTTPS_post inflate e ?req 1024 = Some (0, Some (post_text ?req), answered_req code fs ?req, Some (framed_body fr))"
    by (rule post_response [OF c assms(4,5,2,3)]) (use assms(6) in simp)
  then show ?thesis using assms(6) z by (simp add: MBE_enroll_def generate_private_key_eq o)
qed

text \<open>If the settings name a band whose file was removed and several others are stored, the program stops at every
  start without \<open>-b\<close>.\<close>

lemma stale_default_aborts:
  assumes "enroll_dir st = Some files" and "files_ok files" and "1 < length (filter band_file (map fst files))"
    and "mpc_jroot st = Some s" and "json_object_get s default_key = Some (Json_string uuid)"
    and "map_of files (band_name (take 63 uuid)) = None"
  shows "MBE_check_and_read jl None st = None"
proof -
  let ?names = "filter band_file (map fst files)"
  have ne: "?names \<noteq> []"
  proof
    assume e: "?names = []"
    show False using assms(3) unfolding e by simp
  qed
  have d: "MPC_get_default_band_uuid jl (st\<lparr>mbe_default_uuidstr := u\<rparr>) = Some (Some uuid, st\<lparr>mbe_default_uuidstr := u\<rparr>)" for u
    using assms(4,5) by (simp add: MPC_get_default_band_uuid_def string_or_null_def)
  have n: "n_enroll dir_arg_zero = 0" by (simp add: dir_arg_zero_def)
  have r: "mbe_band_read files (band_name (take 63 uuid)) = Some None" using assms(6) by (simp add: mbe_band_read_def)
  show ?thesis
    unfolding MBE_check_and_read_def assms(1) option.case
      traversal_enrollments [OF assms(2), of "map fst files" dir_arg_zero "mbe_default_uuidstr st"]
    using ne assms(3) n d r by (simp add: Let_def filter_map band_name_def bind_eq_None_conv split: option.splits)
qed

end
