(* ===== verification/Acl.thy ===== *)
theory Acl
  imports Enroll
begin

text \<open>
  The commands of \<open>linux/mudband_acl.c\<close> for the access rules of the device and the one of
  \<open>linux/mudband_webcli.c\<close> for the web interface: each one reads the enrollment, sends a
  request with the token of the enrollment and looks at the answer. \<open>None\<close> is a failed assertion or undefined.
\<close>

section \<open>Requests\<close>

definition acl_hdrs :: "string \<Rightarrow> string" where
  "acl_hdrs jwt = ''Authorization: '' @ jwt @ crlf @ ''Content-Type: application/json'' @ crlf @ ''Host: www.mud.band'' @ crlf"

definition acl_req :: "string \<Rightarrow> string \<Rightarrow> vhttps_req" where
  "acl_req hdrs rb = \<lparr>req_f_need_resp_mudband_etag = False, req_f_need_resp_status = True, req_server = ''www.mud.band:443'',
     req_domain = ''www.mud.band'', req_url = ''/api/band/device/conf'', req_hdrs = Some hdrs, req_body = take 1023 rb, req_bodylen = length rb,
     req_resp_status = 0, req_resp_mudband_etag = []\<rparr>"

text \<open>The environment of a command.\<close>

record acl_env =
  ae_inflate :: "string \<Rightarrow> nat \<Rightarrow> inflate_result"
  ae_json :: json_lib
  ae_https :: https_env

text \<open>The text sent, and the answer: \<open>None\<close> is \<open>NULL\<close>. A body of 4096 bytes leaves no room for the NUL.\<close>

definition acl_request :: "acl_env \<Rightarrow> json option \<Rightarrow> json \<Rightarrow> (string option \<times> json option) option" where
  "acl_request ae jr jreq = do {
     jroot \<leftarrow> jr;
     jwt \<leftarrow> member_such json_is_string jroot ''jwt'';
     let hdrs = acl_hdrs (json_string_value jwt);
     if length hdrs \<ge> 1024 then None else do {
     (r, sent, req, body) \<leftarrow> VHTTPS_post (ae_inflate ae) (ae_https ae) (acl_req hdrs (jl_dumps (ae_json ae) jreq)) 4096;
     if r = -1 then Some (sent, None)
     else if req_resp_status req \<noteq> 200 then Some (sent, None)
     else do {
       bs \<leftarrow> body;
       if length bs \<ge> 4096 then None else
       case jl_loads (ae_json ae) (cstr bs) of
         None \<Rightarrow> Some (sent, None)
       | Some jroot \<Rightarrow> do {
           status \<leftarrow> integer_member jroot ''status'';
           Some (sent, if status \<noteq> 200 then None else Some jroot) } } } }"

definition acl_send :: "acl_env \<Rightarrow> json option \<Rightarrow> json \<Rightarrow> (int \<times> string option) option" where
  "acl_send ae jr jreq = do {
     (sent, jresp) \<leftarrow> acl_request ae jr jreq;
     Some (if jresp = None then 1 else 0, sent) }"

section \<open>Commands\<close>

text \<open>The texts of the code itself are UTF-8; the syntax comes from the command line.\<close>

definition acl_add :: "acl_env \<Rightarrow> json option \<Rightarrow> string \<Rightarrow> string option \<Rightarrow> (int \<times> string option) option" where
  "acl_add ae jr syn prioritystr = (case prioritystr of
       None \<Rightarrow> Some (1, None)
     | Some p \<Rightarrow>
         if atoi p < 0 then None
         else acl_send ae jr (json_object_set_new (json_object_set_new (Json_object [(''action'', Json_string ''acl_add'')])
           ''syntax'' (json_string syn)) ''priority'' (Some (Json_integer (atoi p)))))"

definition acl_del :: "acl_env \<Rightarrow> json option \<Rightarrow> string \<Rightarrow> (int \<times> string option) option" where
  "acl_del ae jr acl_idstr =
     (if atoi acl_idstr < 0 then None
      else acl_send ae jr (Json_object [(''action'', Json_string ''acl_del''), (''acl_id'', Json_integer (atoi acl_idstr))]))"

definition acl_default_policy :: "acl_env \<Rightarrow> json option \<Rightarrow> string \<Rightarrow> (int \<times> string option) option" where
  "acl_default_policy ae jr arg =
     (let policy = (if map tolower arg = ''allow'' then Some ''allow'' else if map tolower arg = ''block'' then Some ''block'' else None)
      in case policy of
          None \<Rightarrow> Some (1, None)
        | Some p \<Rightarrow> acl_send ae jr (Json_object [(''action'', Json_string ''acl_default_policy''), (''default_policy'', Json_string p)]))"

text \<open>A line of the list: the number of the rule, its priority, its text and the time of its creation.\<close>

type_synonym acl_row = "int \<times> int \<times> string \<times> string"

definition acl_row_of :: "json \<Rightarrow> acl_row option" where
  "acl_row_of jacl =
     (if \<not> json_is_object jacl then None else do {
        acl_id \<leftarrow> integer_member jacl ''acl_id'';
        created \<leftarrow> member_such json_is_string jacl ''created'';
        priority \<leftarrow> integer_member jacl ''priority'';
        syn \<leftarrow> member_such json_is_string jacl ''syntax'';
        Some (int_cast acl_id, int_cast priority, json_string_value syn, json_string_value created) })"

fun acl_rows :: "json list \<Rightarrow> acl_row list option" where
  "acl_rows [] = Some []"
| "acl_rows (j # js) = do { r \<leftarrow> acl_row_of j; rs \<leftarrow> acl_rows js; Some (r # rs) }"

text \<open>\<open>vtc_dumpln\<close>: \<open>n\<close> turns of the loop are left, \<open>cur\<close> is the text between \<open>p\<close> and \<open>q\<close>, and then comes the text at
  \<open>q\<close> with its NUL. A newline moves \<open>q\<close> by two, but the loop counts one turn; \<open>None\<close> is a read behind the NUL.\<close>

fun dumpln :: "nat \<Rightarrow> string \<Rightarrow> string \<Rightarrow> string list option" where
  "dumpln 0 cur s = Some []"
| "dumpln (Suc n) cur [] = None"
| "dumpln (Suc n) cur (c # s) =
     (if c = LF then map_option (Cons cur) (dumpln n (take 1 s) (drop 1 s)) else dumpln n (cur @ [c]) s)"

definition vtc_dumpln :: "string \<Rightarrow> string list option" where
  "vtc_dumpln str = dumpln (length str) [] (str @ [NUL])"

definition acl_list :: "acl_env \<Rightarrow> json option \<Rightarrow> (int \<times> string option \<times> acl_row list \<times> string list) option" where
  "acl_list ae jr = do {
     (sent, jresp) \<leftarrow> acl_request ae jr (Json_object [(''action'', Json_string ''acl_list'')]);
     case jresp of
       None \<Rightarrow> Some (1, sent, [], [])
     | Some j \<Rightarrow> do {
         jacls \<leftarrow> array_member j ''acls'';
         rows \<leftarrow> acl_rows (json_elements jacls);
         human \<leftarrow> member_such json_is_string j ''acls_human_readable'';
         ls \<leftarrow> vtc_dumpln (json_string_value human);
         Some (0, sent, rows, ls) } }"

definition ACL_cmd ::
  "acl_env \<Rightarrow> string option \<Rightarrow> string option \<Rightarrow> string option \<Rightarrow> bool \<Rightarrow> string option \<Rightarrow> string option \<Rightarrow> mbe_state \<Rightarrow>
   (int \<times> string option \<times> mbe_state) option" where
  "ACL_cmd ae band_b_arg acl_add_arg acl_priority_arg acl_list_flag acl_del_arg acl_default_policy_arg st = do {
     (r, st) \<leftarrow> MBE_check_and_read (ae_json ae) band_b_arg st;
     if r = -1 then Some (1, None, st)
     else map_option (\<lambda>(r, sent). (r, sent, st))
       (case acl_add_arg of Some a \<Rightarrow> acl_add ae (mbe_jroot st) a acl_priority_arg
        | None \<Rightarrow> (case acl_del_arg of Some a \<Rightarrow> acl_del ae (mbe_jroot st) a
        | None \<Rightarrow> (case acl_default_policy_arg of Some a \<Rightarrow> acl_default_policy ae (mbe_jroot st) a
        | None \<Rightarrow> if acl_list_flag then map_option (\<lambda>(r, sent, _). (r, sent)) (acl_list ae (mbe_jroot st)) else Some (1, None)))) }"

section \<open>The web interface\<close>

text \<open>\<open>MWC_get\<close> of \<open>linux/mudband_webcli.c\<close>: the address of the web interface is asked for and shown.\<close>

definition webcli_req :: "string \<Rightarrow> vhttps_req" where
  "webcli_req hdrs = \<lparr>req_f_need_resp_mudband_etag = False, req_f_need_resp_status = True, req_server = ''www.mud.band:443'',
     req_domain = ''www.mud.band'', req_url = ''/webcli/signin'', req_hdrs = Some hdrs, req_body = [], req_bodylen = 0,
     req_resp_status = 0, req_resp_mudband_etag = []\<rparr>"

definition MWC_get :: "acl_env \<Rightarrow> string option \<Rightarrow> mbe_state \<Rightarrow> (int \<times> string option \<times> string option \<times> mbe_state) option" where
  "MWC_get ae band_b_arg st = do {
     (r, st) \<leftarrow> MBE_check_and_read (ae_json ae) band_b_arg st;
     if r = -1 then Some (1, None, None, st) else do {
     jroot \<leftarrow> mbe_jroot st;
     jwt \<leftarrow> member_such json_is_string jroot ''jwt'';
     let hdrs = acl_hdrs (json_string_value jwt);
     if length hdrs \<ge> 1024 then None else do {
     (r, sent, req, body) \<leftarrow> VHTTPS_get (ae_inflate ae) (ae_https ae) (webcli_req hdrs) 4096;
     if r = -1 then Some (1, sent, None, st)
     else if req_resp_status req \<noteq> 200 then Some (1, sent, None, st)
     else do {
       bs \<leftarrow> body;
       if length bs \<ge> 4096 then None else
       case jl_loads (ae_json ae) (cstr bs) of
         None \<Rightarrow> Some (1, sent, None, st)
       | Some jroot \<Rightarrow> do {
           status \<leftarrow> integer_member jroot ''status'';
           if status \<noteq> 200 then Some (1, sent, None, st)
           else do { url \<leftarrow> string_member jroot ''url''; Some (0, sent, Some url, st) } } } } } }"

section \<open>An accepted command\<close>

lemma acl_request_served:
  assumes "server_up (ae_https ae)" and "delivers (he_rx (ae_https ae))" and "payload (he_rx (ae_https ae)) = http_response 200 reason fs fr"
    and "response_fits 200 reason fs fr" and "length (framed_body fr) < 4096"
    and "member_such json_is_string j ''jwt'' = Some (Json_string jwt)" and "length jwt \<le> 900"
  shows "acl_request ae (Some j) jreq = (case jl_loads (ae_json ae) (cstr (framed_body fr)) of
      None \<Rightarrow> Some (Some (post_text (acl_req (acl_hdrs jwt) (jl_dumps (ae_json ae) jreq))), None)
    | Some jroot \<Rightarrow> do {
        status \<leftarrow> integer_member jroot ''status'';
        Some (Some (post_text (acl_req (acl_hdrs jwt) (jl_dumps (ae_json ae) jreq))), if status \<noteq> 200 then None else Some jroot) })"
proof -
  let ?req = "acl_req (acl_hdrs jwt) (jl_dumps (ae_json ae) jreq)"
  have c: "connected (ae_https ae) ?req (post_text ?req)" using assms(1) by (simp add: connected_def server_up_def)
  have "VHTTPS_post (ae_inflate ae) (ae_https ae) ?req 4096 =
      Some (0, Some (post_text ?req), answered_req 200 fs ?req, Some (framed_body fr))"
    by (rule post_response [OF c assms(4) _ assms(2,3)]) (use assms(5) in simp_all)
  moreover have "length (acl_hdrs jwt) < 1024" using assms(7) by (simp add: acl_hdrs_def crlf_def)
  moreover have "req_resp_status (answered_req 200 fs ?req) = 200" by (simp add: answered_req_def acl_req_def)
  ultimately show ?thesis using assms(5,6) by (simp add: acl_request_def Let_def)
qed

lemma check_and_read_jwt:
  assumes "MBE_check_and_read jl b st = Some (0, st')"
  obtains j jwt where "mbe_jroot st' = Some j" and "member_such json_is_string j ''jwt'' = Some (Json_string jwt)"
proof -
  obtain files name j where r: "mbe_band_read files name = Some (Some j)" and m: "mbe_jroot st' = Some j"
    using assms by (fastforce simp: MBE_check_and_read_def Let_def bind_eq_Some_conv split: option.splits if_splits)
  then obtain x where x: "member_such json_is_string j ''jwt'' = Some x"
    by (auto simp: mbe_band_read_def bind_eq_Some_conv split: option.splits)
  then have "json_is_string x" by (auto simp: member_such_def bind_eq_Some_conv split: if_splits)
  then show thesis using that m x by (cases x) auto
qed

lemma acl_send_accepted:
  assumes "server_up (ae_https ae)" and "delivers (he_rx (ae_https ae))" and "payload (he_rx (ae_https ae)) = http_response 200 reason fs fr"
    and "response_fits 200 reason fs fr" and "length (framed_body fr) < 4096"
    and "member_such json_is_string j ''jwt'' = Some (Json_string jwt)" and "length jwt \<le> 900"
    and "jl_loads (ae_json ae) (cstr (framed_body fr)) = Some answer" and "integer_member answer ''status'' = Some 200"
  shows "acl_send ae (Some j) jreq = Some (0, Some (post_text (acl_req (acl_hdrs jwt) (jl_dumps (ae_json ae) jreq))))"
  using acl_request_served [OF assms(1-7), of jreq] assms(8,9) by (simp add: acl_send_def)

text \<open>The text of a request for the settings of the device with a token and a body, written out.\<close>

definition device_conf_post :: "string \<Rightarrow> string \<Rightarrow> string" where
  "device_conf_post tok body = ''POST /api/band/device/conf HTTP/1.1'' @ crlf @ ''Connection: close'' @ crlf @
     ''Content-Length: '' @ decimal_text (length body) @ crlf @ ''Authorization: '' @ tok @ crlf @
     ''Content-Type: application/json'' @ crlf @ ''Host: www.mud.band'' @ crlf @ crlf @ body"

lemma acl_text: "length body \<le> 1023 \<Longrightarrow> post_text (acl_req (acl_hdrs tok) body) = device_conf_post tok body"
  by (simp add: post_text_def acl_req_def acl_hdrs_def device_conf_post_def)

text \<open>The requests of the commands.\<close>

definition add_request :: "string \<Rightarrow> nat \<Rightarrow> json" where
  "add_request syn p = Json_object [(''action'', Json_string ''acl_add''), (''syntax'', Json_string syn), (''priority'', Json_integer (int p))]"

definition del_request :: "nat \<Rightarrow> json" where
  "del_request k = Json_object [(''action'', Json_string ''acl_del''), (''acl_id'', Json_integer (int k))]"

definition policy_request :: "string \<Rightarrow> json" where
  "policy_request policy = Json_object [(''action'', Json_string ''acl_default_policy''), (''default_policy'', Json_string policy)]"

text \<open>
  C15: A command about the access rules reaches the server and its success is reported. With an enrollment that can be
  read, a token of at most 900 characters, requests of at most 1023 characters as text and a server that accepts,
  \<open>--acl-add\<close> with a priority and a syntax in UTF-8, \<open>--acl-del\<close> and \<open>--acl-default-policy\<close> in any case of letters
  send exactly the HTTP request with the token of the enrollment in its header and the JSON text of the arguments as its
  body, and return 0.
\<close>

theorem acl_commands_accepted:
  assumes "MBE_check_and_read (ae_json ae) b st = Some (0, st')" and "mbe_jroot st' = Some j"
    and "member_such json_is_string j ''jwt'' = Some (Json_string jwt)" and "length jwt \<le> 900"
    and "server_up (ae_https ae)" and "delivers (he_rx (ae_https ae))" and "payload (he_rx (ae_https ae)) = http_response 200 reason fs fr"
    and "response_fits 200 reason fs fr" and "length (framed_body fr) < 4096"
    and "jl_loads (ae_json ae) (cstr (framed_body fr)) = Some answer" and "integer_member answer ''status'' = Some 200"
    and "p < 2 ^ 31" and "k < 2 ^ 31" and "policy = ''allow'' \<or> policy = ''block''" and "map tolower arg = policy" and "utf8_check_string syn"
    and "length (jl_dumps (ae_json ae) (add_request syn p)) \<le> 1023" and "length (jl_dumps (ae_json ae) (del_request k)) \<le> 1023"
    and "length (jl_dumps (ae_json ae) (policy_request policy)) \<le> 1023"
  shows "ACL_cmd ae b (Some syn) (Some (decimal_text p)) l d dp st =
      Some (0, Some (device_conf_post jwt (jl_dumps (ae_json ae) (add_request syn p))), st') \<and>
    ACL_cmd ae b None pri l (Some (decimal_text k)) dp st =
      Some (0, Some (device_conf_post jwt (jl_dumps (ae_json ae) (del_request k))), st') \<and>
    ACL_cmd ae b None pri l None (Some arg) st =
      Some (0, Some (device_conf_post jwt (jl_dumps (ae_json ae) (policy_request policy))), st')"
proof -
  have send: "acl_send ae (Some j) jreq = Some (0, Some (device_conf_post jwt (jl_dumps (ae_json ae) jreq)))"
    if "length (jl_dumps (ae_json ae) jreq) \<le> 1023" for jreq
    using acl_send_accepted [OF assms(5-9,3,4,10,11), of jreq] acl_text [OF that, of jwt] by simp
  have a: "json_object_set_new (json_object_set_new (Json_object [(''action'', Json_string ''acl_add'')]) ''syntax'' (json_string syn))
      ''priority'' (Some (Json_integer (int p))) = add_request syn p"
    using assms(16) by (simp add: json_object_set_new_def json_string_def add_request_def)
  show ?thesis
    using assms(1,2,14,15) atoi_decimal [OF assms(12)] atoi_decimal [OF assms(13)] send [OF assms(17)] send [OF assms(18)] send [OF assms(19)]
    by (auto simp: ACL_cmd_def acl_add_def acl_del_def acl_default_policy_def Let_def a del_request_def policy_request_def)
qed

definition stored_demo :: mbe_state where
  "stored_demo = mbe_demo\<lparr>mpc_jroot := Some (Json_object [(default_key, Json_string uuid_demo)]), enroll_dir := Some [(band_name uuid_demo, Some band_demo)]\<rparr>"

lemma enrollment_demo: "enrollment_ok band_demo" "member_such json_is_string band_demo ''jwt'' = Some (Json_string ''j'')"
  by (simp_all add: enrollment_ok_def band_demo_def member_such_def string_member_def json_string_length_def)

lemma stored_demo_read:
  "MBE_check_and_read jl None stored_demo = Some (0, stored_demo\<lparr>mbe_default_uuidstr := uuid_demo, mbe_jroot := Some band_demo\<rparr>)"
proof (rule check_and_read_default [OF _ _ _ uuid_demo_ok(1)])
  show "enroll_dir stored_demo = Some [(band_name uuid_demo, Some band_demo)]"
    "mpc_jroot stored_demo = Some (Json_object [(default_key, Json_string uuid_demo)])" by (simp_all add: stored_demo_def)
  show "files_ok [(band_name uuid_demo, Some band_demo)]" by (auto simp: files_ok_def enrollment_demo)
qed simp_all

definition acl_demo :: "json \<Rightarrow> acl_env" where
  "acl_demo answer = \<lparr>ae_inflate = (\<lambda>_ _. Inflate_failed), ae_json = \<lparr>jl_dumps = (\<lambda>j. ''{}''), jl_loads = (\<lambda>s. Some answer)\<rparr>,
     ae_https = server_demo (http_response 200 ''OK'' fields_demo (By_length ''{}''))\<rparr>"

lemma acl_demo_served:
  "server_up (ae_https (acl_demo a))" "delivers (he_rx (ae_https (acl_demo a)))"
  "payload (he_rx (ae_https (acl_demo a))) = http_response 200 ''OK'' fields_demo (By_length ''{}'')"
  "response_fits 200 ''OK'' fields_demo (By_length ''{}'')" "length (framed_body (By_length ''{}'')) < 4096"
proof -
  have l: "length (http_response 200 ''OK'' fields_demo (By_length ''{}'')) = 58" by code_simp
  then show "response_fits 200 ''OK'' fields_demo (By_length ''{}'')" using fields_demo_ok by (simp add: response_fits_def nrxbuf_def)
  show "delivers (he_rx (ae_https (acl_demo a)))"
    using delivers_demo(1) [of "http_response 200 ''OK'' fields_demo (By_length ''{}'')"] l by (simp add: acl_demo_def)
qed (simp_all add: acl_demo_def delivers_demo(2) server_up_def server_demo_def)

definition status_demo :: json where "status_demo = Json_object [(''status'', Json_integer 200)]"

theorem acl_commands_accepted_witness:
  "\<exists>sent st'. sent = device_conf_post ''j'' ''{}'' \<and>
     ACL_cmd (acl_demo status_demo) None None None False None (Some ''Block'') stored_demo = Some (0, Some sent, st') \<and>
     ACL_cmd (acl_demo status_demo) None (Some ''x'') (Some (decimal_text 5)) False None None stored_demo = Some (0, Some sent, st')"
proof -
  let ?st = "stored_demo\<lparr>mbe_default_uuidstr := uuid_demo, mbe_jroot := Some band_demo\<rparr>"
  have a: "jl_loads (ae_json (acl_demo status_demo)) (cstr (framed_body (By_length ''{}''))) = Some status_demo" "integer_member status_demo ''status'' = Some 200"
    by (simp_all add: acl_demo_def status_demo_def integer_member_def member_such_def)
  have low: "map tolower ''Block'' = ''block''" by code_simp
  have u: "utf8_check_string ''x''" by code_simp
  have d: "jl_dumps (ae_json (acl_demo status_demo)) j = ''{}''" for j by (simp add: acl_demo_def)
  have m: "mbe_jroot ?st = Some band_demo" by simp
  note w = acl_commands_accepted [where policy = "''block''" and syn = "''x''", OF stored_demo_read m enrollment_demo(2) _ acl_demo_served a _ _ _ low u]
  from w [of 5 0 False None None None] show ?thesis unfolding d by auto
qed

text \<open>The address of the web interface that the server gives is shown.\<close>

lemma webcli_address_shown:
  assumes "MBE_check_and_read (ae_json ae) b st = Some (0, st')" and "mbe_jroot st' = Some j"
    and "member_such json_is_string j ''jwt'' = Some (Json_string jwt)" and "length jwt \<le> 900"
    and "server_up (ae_https ae)" and "delivers (he_rx (ae_https ae))" and "payload (he_rx (ae_https ae)) = http_response 200 reason fs fr"
    and "response_fits 200 reason fs fr" and "length (framed_body fr) < 4096"
    and "jl_loads (ae_json ae) (cstr (framed_body fr)) = Some answer" and "integer_member answer ''status'' = Some 200"
    and "string_member answer ''url'' = Some url"
  shows "MWC_get ae b st = Some (0, Some (get_text (webcli_req (acl_hdrs jwt))), Some url, st')"
proof -
  let ?req = "webcli_req (acl_hdrs jwt)"
  have c: "connected (ae_https ae) ?req (get_text ?req)" using assms(5) by (simp add: connected_def server_up_def)
  have "VHTTPS_get (ae_inflate ae) (ae_https ae) ?req 4096 =
      Some (0, Some (get_text ?req), ?req\<lparr>req_resp_status := 200\<rparr>, Some (framed_body fr))"
    using get_response [OF c assms(8) _ assms(6,7), of 4096] assms(9) by (simp add: webcli_req_def)
  moreover have "length (acl_hdrs jwt) < 1024" using assms(4) by (simp add: acl_hdrs_def crlf_def)
  ultimately show ?thesis using assms(1-3,9-12) by (simp add: MWC_get_def Let_def)
qed

section \<open>Listing the rules\<close>

lemma dumpln_short: "length s < n \<Longrightarrow> dumpln n cur s = None"
  by (induction n cur s rule: dumpln.induct) auto

lemma dumpln_line:
  assumes "LF \<notin> set a" and "length a < n"
  shows "dumpln n cur (a @ LF # r) = map_option (Cons (cur @ a)) (dumpln (n - length a - 1) (take 1 r) (drop 1 r))"
  using assms
proof (induction a arbitrary: n cur)
  case Nil
  then show ?case by (cases n) auto
next
  case (Cons c a)
  then show ?case by (cases n) auto
qed

lemma dumpln_two_lines:
  assumes "LF \<notin> set l1" and "LF \<notin> set l2"
  shows "vtc_dumpln (l1 @ LF # c # l2 @ LF # rest) = None"
proof -
  let ?n = "length l2 + 2 + length rest"
  have "dumpln (?n - length l2 - 1) (take 1 (rest @ [NUL])) (drop 1 (rest @ [NUL])) = None"
    by (rule dumpln_short) simp
  then have "dumpln ?n [c] (l2 @ LF # rest @ [NUL]) = None"
    using dumpln_line [OF assms(2), of ?n "[c]" "rest @ [NUL]"] by simp
  then show ?thesis
    using dumpln_line [OF assms(1), of "length l1 + 1 + ?n" "[]" "c # l2 @ LF # rest @ [NUL]"] by (simp add: vtc_dumpln_def)
qed


definition rules_demo :: json where
  "rules_demo = Json_object [(''status'', Json_integer 200), (''acls'', Json_array []),
     (''acls_human_readable'', Json_string (''a'' @ LF # CHR ''b'' # [] @ LF # []))]"


text \<open>A number that is no number is 0, so the rule 0 is named.\<close>

lemma acl_del_not_a_number:
  "acl_del ae jr ''all'' = acl_send ae jr (Json_object [(''action'', Json_string ''acl_del''), (''acl_id'', Json_integer 0)])"
proof -
  have "atoi ''all'' = 0" by code_simp
  then show ?thesis by (simp add: acl_del_def)
qed

text \<open>An answer that fills the buffer: the NUL is written behind it.\<close>

lemma acl_answer_overflows:
  assumes "server_up (ae_https ae)" and "delivers (he_rx (ae_https ae))" and "payload (he_rx (ae_https ae)) = http_response 200 reason fs fr"
    and "response_fits 200 reason fs fr" and "length (framed_body fr) = 4096"
    and "member_such json_is_string j ''jwt'' = Some (Json_string jwt)"
  shows "acl_request ae (Some j) jreq = None"
proof -
  let ?req = "acl_req (acl_hdrs jwt) (jl_dumps (ae_json ae) jreq)"
  have c: "connected (ae_https ae) ?req (post_text ?req)" using assms(1) by (simp add: connected_def server_up_def)
  have "VHTTPS_post (ae_inflate ae) (ae_https ae) ?req 4096 =
      Some (0, Some (post_text ?req), answered_req 200 fs ?req, Some (framed_body fr))"
    by (rule post_response [OF c assms(4) _ assms(2,3)]) (use assms(5) in simp_all)
  moreover have "req_resp_status (answered_req 200 fs ?req) = 200" by (simp add: answered_req_def acl_req_def)
  ultimately show ?thesis using assms(5,6) by (simp add: acl_request_def Let_def)
qed

end
