(* ===== verification/Connmgr.thy ===== *)
theory Connmgr
  imports Tasks
begin

text \<open>
  The UDP socket of the client (\<open>linux/mudband_connmgr.c\<close>). \<open>opens\<close> stands for the system calls of \<open>mcm_open_port\<close>:
  for a port (0 for any) the descriptor and the port it is bound to, or \<open>None\<close> if a call fails.
\<close>

record mcm_state =
  mcm_listen_fd :: int
  mcm_listen_port :: int
  mcm_cnfs :: cnf_state

definition mcm_open_port :: "(u16 \<Rightarrow> (nat \<times> u16) option) \<Rightarrow> int \<Rightarrow> (nat \<times> u16) option" where
  "mcm_open_port opens port = opens (word_of_int port)"

text \<open>The port in the active configuration, -1 without one.\<close>

definition configured_port :: "u64 \<Rightarrow> cnf_state \<Rightarrow> (int \<times> cnf_state) option" where
  "configured_port time cnfs = do {
     (r, cf, cnfs) \<leftarrow> CNF_get time cnfs;
     if r = 0 then do {
       cf \<leftarrow> cf;
       c \<leftarrow> map_of (cnf_head cnfs) cf;
       port \<leftarrow> CNF_get_interface_listen_port (cnf_jroot c);
       cnfs \<leftarrow> CNF_rel cf cnfs;
       Some (port, cnfs) }
     else Some (-1, cnfs) }"

definition MCM_listen_port :: "(u16 \<Rightarrow> (nat \<times> u16) option) \<Rightarrow> u64 \<Rightarrow> mcm_state \<Rightarrow> (int \<times> mcm_state) option" where
  "MCM_listen_port opens time st =
     (if mcm_listen_port st \<noteq> -1 then Some (mcm_listen_port st, st)
      else do {
        (port, cnfs) \<leftarrow> configured_port time (mcm_cnfs st);
        (fd, bound) \<leftarrow> (if port = -1 then mcm_open_port opens 0
           else case mcm_open_port opens port of None \<Rightarrow> mcm_open_port opens 0 | Some x \<Rightarrow> Some x);
        Some (uint bound, st\<lparr>mcm_listen_fd := int fd, mcm_listen_port := uint bound, mcm_cnfs := cnfs\<rparr>) })"

definition MCM_listen_fd :: "(u16 \<Rightarrow> (nat \<times> u16) option) \<Rightarrow> u64 \<Rightarrow> mcm_state \<Rightarrow> (int \<times> mcm_state) option" where
  "MCM_listen_fd opens time st = do {
     (_, st) \<leftarrow> MCM_listen_port opens time st;
     if mcm_listen_fd st < 0 then None else Some (mcm_listen_fd st, st) }"

definition mcm_init_state :: "cnf_state \<Rightarrow> mcm_state" where
  "mcm_init_state cnfs = \<lparr>mcm_listen_fd = -1, mcm_listen_port = -1, mcm_cnfs = cnfs\<rparr>"

text \<open>The socket is opened once: what a call returns, every later call returns, whatever the configuration is then.\<close>

definition mcm_inv :: "mcm_state \<Rightarrow> bool" where
  "mcm_inv st \<longleftrightarrow> (mcm_listen_port st \<noteq> -1 \<longrightarrow> mcm_listen_fd st \<ge> 0)"

lemma uint_not_minus: "uint (x :: u16) \<noteq> -1"
  by (metis unsigned_greater_eq neg_0_le_iff_le not_one_le_zero)

lemma listen_port_bound:
  assumes "MCM_listen_port opens time st = Some (p, st')" and "mcm_inv st"
  shows "p = mcm_listen_port st' \<and> p \<noteq> -1 \<and> mcm_inv st' \<and> mcm_listen_fd st' \<ge> 0"
  using assms uint_not_minus by (auto simp: MCM_listen_port_def mcm_inv_def bind_eq_Some_conv split: if_splits option.splits)

lemma listen_fd_stable:
  assumes "MCM_listen_fd opens time st = Some (fd, st')" and "mcm_inv st"
  shows "MCM_listen_fd opens' time' st' = Some (fd, st')"
proof -
  obtain p where p: "MCM_listen_port opens time st = Some (p, st')" and fd: "fd = mcm_listen_fd st'"
    using assms(1) by (auto simp: MCM_listen_fd_def bind_eq_Some_conv split: if_splits)
  note b = listen_port_bound [OF p assms(2)]
  then have "MCM_listen_port opens' time' st' = Some (p, st')" by (simp add: MCM_listen_port_def)
  then show ?thesis using b fd by (simp add: MCM_listen_fd_def)
qed

text \<open>The port of the active configuration is taken if it can be opened, any port otherwise; the configuration is
  given back.\<close>

lemma listen_port_chosen:
  assumes "mcm_listen_port st = -1" and "cnf_inv us (mcm_cnfs st)" and "cnf_active (mcm_cnfs st) = Some cf"
    and "map_of (cnf_head (mcm_cnfs st)) cf = Some c" and "CNF_get_interface_listen_port (cnf_jroot c) = Some p"
    and "opens 0 = Some any"
  shows "\<exists>st'. MCM_listen_port opens time st = Some (uint (snd (case opens (word_of_int p) of None \<Rightarrow> any | Some x \<Rightarrow> x)), st') \<and>
    cnf_inv us (mcm_cnfs st')"
proof -
  obtain s1 s2 where s: "CNF_get time (mcm_cnfs st) = Some (0, Some cf, s1)"
      "map_of (cnf_head s1) cf = Some (c\<lparr>cnf_busy := cnf_busy c + 1, cnf_t_last := time\<rparr>)" "CNF_rel cf s1 = Some s2" "cnf_inv us s2"
    by (rule cnf_get_rel [OF assms(2-4), where time = time])
  have "configured_port time (mcm_cnfs st) = Some (p, s2)" using s assms(5) by (simp add: configured_port_def)
  moreover have "p \<noteq> -1" using assms(5) by (auto simp: CNF_get_interface_listen_port_def Let_def bind_eq_Some_conv split: if_splits)
  ultimately show ?thesis
    using assms(1,6) s(4) by (cases "opens (word_of_int p)") (auto simp: MCM_listen_port_def mcm_open_port_def case_prod_unfold)
qed

end
