(* ===== verification/Spec2Isabelle.thy ===== *)
theory Spec2Isabelle
  imports Mqtt_Events X25519_Correct Acl Connmgr
begin

text \<open>
  Verification of the mud.band client, a mesh VPN that runs the WireGuard protocol in user space. The
  development models the shared core under \<^verbatim>\<open>src/bin/mudband/common\<close> and the Linux client under
  \<^verbatim>\<open>src/bin/mudband/linux\<close>.

  \<^bold>\<open>How the program works.\<close> The loop \<^verbatim>\<open>mudband_tunnel\<close> reads IP packets from a TUN device and datagrams
  from a UDP socket. A packet is matched to a peer, padded, sealed with the session of the peer and sent
  (\<^verbatim>\<open>wireguard_iface_output\<close>). A datagram is classified; handshake messages start sessions, transport
  messages are opened, checked for replay, source address and access control, and written to the TUN
  device (\<^verbatim>\<open>wireguard_iface_network_rx\<close>). A timer runs once a second and starts handshakes, sends
  keep-alives and expires sessions. The configuration manager reads the peers and the access control list
  from JSON; \<^verbatim>\<open>wireguard_iface_sync\<close> applies it to the device. A second thread fetches the configuration from
  the web service, runs the STUN client, which finds the kind of NAT and the mapped address that the service
  wants to know, cleans up old configurations and writes a status file. It also keeps a connection to an MQTT
  broker; a message on the topics of the band or the device makes it fetch the configuration at once. Requests go
  through a small HTTPS client of the program's own. Commands of the program that do not start the tunnel enroll
  the device in a band, which writes the files that the tunnel reads later, and edit the access control list.

  \<^bold>\<open>Conventions.\<close> Machine integers are words of their width, so wrap-around is that of C. Structures are
  records with the fields of the source. A result \<open>None\<close> is a failed assertion, an access outside an array
  or another undefined step; an error that the program handles is an ordinary value. The operating system
  is the record \<open>world\<close> of \<open>Wg_Types\<close>: streams of random numbers, clock readings and results of
  \<^verbatim>\<open>sendto\<close>, the list of datagrams and TUN packets written so far, and the pool of packet buffers. The
  Diffie-Hellman function is the argument \<open>dh\<close> of the definitions of the protocol; the handshake theorem
  assumes that it commutes, which its witness shows for a concrete function. X25519 itself is modelled, and
  proved equal to the Montgomery ladder, in theories of its own; that the ladder commutes needs the group law
  of the curve and is not proved.

  \<^bold>\<open>Theories, from the bottom up.\<close>
  \<^item> \<open>Mud_Prelude\<close>: types of bytes and words, lemmas on lists, options and words, collections of rewrite rules.
  \<^item> \<open>Crypto_Util\<close> (\<^verbatim>\<open>crypto.h\<close>, \<^verbatim>\<open>crypto.c\<close>): byte order, constant-time comparison.
  \<^item> \<open>Chacha20\<close>, \<open>Poly1305\<close>, \<open>Aead\<close>, \<open>Blake2s\<close> (\<^verbatim>\<open>crypto/*.c\<close>): the ciphers and hashes. The limb arithmetic
    of Poly1305 is equal to the polynomial modulo $2^{130}-5$, the AEADs are equal to the construction of
    RFC 7539 and open exactly what was sealed, incremental hashing does not depend on how data is split.
  \<^item> \<open>X25519\<close>, \<open>X25519_Correct\<close> (\<^verbatim>\<open>crypto/x25519.c\<close>): scalar multiplication on 32-bit limbs; every field operation
    is that of the integers modulo $2^{255}-19$, and the whole function is the ladder of RFC 7748 with the
    clamped scalar and the inverse by an addition chain.
  \<^item> \<open>Bpf\<close> (\<^verbatim>\<open>mudband_bpf.c\<close>): packet filter and its validator. Validated programs end with a verdict without
    leaving program, packet or memory; the run is bounded by the length of the program, since jumps go forward.
  \<^item> \<open>Pbuf\<close> (\<^verbatim>\<open>wireguard-pbuf.c\<close>): packet buffers and the caches they are taken from.
  \<^item> \<open>Wg_Types\<close> (\<^verbatim>\<open>wireguard.h\<close>): peers, keypairs, devices, message layouts, the world.
  \<^item> \<open>Wg_Session\<close>, \<open>Wg_Kdf\<close>, \<open>Wg_Handshake\<close>, \<open>Wg_Agreement\<close>, \<open>Wg_Base64\<close> (\<^verbatim>\<open>wireguard.c\<close>): keypair slots and
    replay window (a refinement of a set of seen numbers), key derivation (equal to HKDF), both roles of
    the handshake, the agreement theorem, texts of keys.
  \<^item> \<open>Iface_Output\<close>, \<open>Iface_Send\<close> (\<^verbatim>\<open>linux/mudband.c\<close>): sending, timer; no nonce is used twice with a key.
  \<^item> \<open>Iface_Input\<close>, \<open>Iface_Recv\<close>, \<open>Iface_Delivery\<close> (\<^verbatim>\<open>linux/mudband.c\<close>): receiving; delivery from TUN device to
    TUN device, authenticity of what is delivered, absence of aborts, replays.
  \<^item> \<open>Json\<close>, \<open>Confmgr\<close> (\<^verbatim>\<open>linux/mudband_confmgr.c\<close>): the configuration, its references, peers, access control.
  \<^item> \<open>Iface_Config\<close> (\<^verbatim>\<open>linux/mudband.c\<close>): applying a configuration to the device.
  \<^item> \<open>Callout\<close> (\<^verbatim>\<open>common/callout.c\<close>): the timer wheel, with a locale for callouts that arm themselves again,
    interpreted for the timers of the tunnel and for the tasks.
  \<^item> \<open>Tunnel\<close> (\<^verbatim>\<open>linux/mudband.c\<close>): the loop as a transition system; the device timer runs every second.
  \<^item> \<open>Stun_Msg\<close>, \<open>Stun_Client\<close>, \<open>Stun_Nat\<close> (\<^verbatim>\<open>linux/mudband_stun_client.c\<close>): messages, the state machine of the tests,
    the NAT type. Encoded messages are read back, a run is bounded and closes its sockets, and in a network of
    a given behaviour the test returns the type of the classification.
  \<^item> \<open>Tasks\<close> (\<^verbatim>\<open>linux/mudband_tasks.c\<close>, \<^verbatim>\<open>CNF_fetch\<close> of \<^verbatim>\<open>linux/mudband_confmgr.c\<close>): the request for the
    configuration and the thread of tasks, a second interpretation of the locale of \<open>Callout\<close>. Tasks run when they
    are due, and a new configuration becomes the active one.
  \<^item> \<open>Vhttps\<close>, \<open>Vhttps_Answer\<close>, \<open>Vhttps_Response\<close> (\<^verbatim>\<open>lib/libmud/vhttps.c\<close>, \<^verbatim>\<open>lib/libmud/vct.c\<close>): the HTTPS client. The
    connection delivers bytes in pieces of any size; an answer framed by its length, in chunks or by the end of the
    connection, compressed or not, gives its status and its body. The locale \<open>https_call\<close> states a call as a request
    text, and is interpreted for GET and POST.
  \<^item> \<open>Https_Fetch\<close> (\<^verbatim>\<open>CNF_fetch\<close>): the client and the task together. A configuration that the service sends over
    the connection becomes the active one and the content of the file.
  \<^item> \<open>Enroll\<close> (\<^verbatim>\<open>linux/mudband_enroll.c\<close>, \<^verbatim>\<open>linux/mudband_progconf.c\<close>): enrollment, settings and the files of a band. What
    enrollment wrote is what the program reads when it starts.
  \<^item> \<open>Acl\<close> (\<^verbatim>\<open>linux/mudband_acl.c\<close>, \<^verbatim>\<open>linux/mudband_webcli.c\<close>), \<open>Connmgr\<close> (\<^verbatim>\<open>linux/mudband_connmgr.c\<close>): commands for the access
    control list and the web interface; the UDP socket.
  \<^item> \<open>Mqtt_Packet\<close>, \<open>Mqtt_Queue\<close>, \<open>Mqtt_Client\<close>, \<open>Mqtt_Session\<close>, \<open>Mqtt_Stream\<close>, \<open>Mqtt_Sending\<close>, \<open>Mqtt_Events\<close>
    (\<^verbatim>\<open>linux/mudband_mqtt.c\<close>): packets, the send queue in its buffer (a refinement of a list; the functions that
    pack requests satisfy the locale \<open>packer\<close>), the client and its connection. Connecting and subscribing never
    fails an assertion, the stream of the broker is handled packet by packet however it is split, messages are
    sent when they are due, the queue and the receive buffer stay well formed in every reachable state, and the
    event \<open>conf\<close> triggers the fetch.

  \<^bold>\<open>Interfaces.\<close> Where a component relies on laws of another, they are the assumptions of a locale that is
  interpreted on the definitions of the provider, and the lemmas of the client are proved in the locale.

  \<^bold>\<open>Loops.\<close> Loops with a bound are structural recursion or \<open>function\<close> with a measure. The search for a
  session index or a packet id and the loops of the timer wheel may run forever in general and are partial functions into
  an option; that they return is proved under the conditions stated. The state machine of the STUN client is a
  \<open>function\<close> whose measure is the distance of its step from the end. The reading loops of the HTTPS client end because
  their buffer is bounded; the loop around the decompression, which ends only when the library makes progress, is a
  partial function shown to return for such a library. No fuel is used.

  \<^bold>\<open>Defects.\<close> Some theorems state that the program does what its authors hardly intended: a repeated first
  packet, aborts on short relay datagrams, relay headers that accumulate, uncleared padding, an inverted
  rate limit, colliding indices, a truncated replay distance, unchecked array bounds, STUN datagrams that
  stop the program or overflow a buffer, an abort where UDP is blocked, a crash where the MQTT broker cannot be
  reached at the start, messages of the broker that stop the program, a resent message that starts again, truncated
  HTTP bodies that are accepted, a Content-Length that stops the program, answers of the service that overflow
  a buffer, a list of rules that is read past its end.

  \<^bold>\<open>Not modelled.\<close> The group law of the curve and the signature functions of \<^verbatim>\<open>x25519.c\<close>, which the program
  does not call; the command line, the set-up of the TUN device and the main functions, which are calls of the
  operating system; TLS, sockets, the file system, inflate and the JSON parser, which are parameters or
  streams of results; concurrency between the threads, beyond the interleaving of operations on configurations; the
  copies of the interface layer for other systems;
  vendored libraries. Statistics are kept, log output is not.
\<close>

end
